(* ===== verification/Prelude.thy ===== *)
theory Prelude
  imports Main "HOL-Library.Word"
begin

text \<open>
  Shared vocabulary of the development: the machine integers of the C++ sources, the
  collections of proof hints the component theories fill, and generic lemmas about
  words, lists and finite counts that more than one component needs.
\<close>

unbundle bit_operations_syntax

section \<open>Machine integers\<close>

type_synonym u8 = "8 word"
type_synonym u32 = "32 word"
type_synonym u64 = "64 word"

text \<open>Collections: definitions of component operations, and invariant-preservation facts.\<close>

named_theorems op_defs \<open>definitions of component operations\<close>
named_theorems inv_intros \<open>an operation keeps its component's invariant\<close>

section \<open>Words\<close>

lemma disjoint_add_or:
  fixes a b :: "'a::len word"
  assumes "\<And>n. n < LENGTH('a) \<Longrightarrow> \<not> (bit a n \<and> bit b n)"
  shows "a + b = a OR b"
  using assms by (intro disjunctive_add_eq_or) (auto intro!: bit_word_eqI simp: bit_simps)

lemma unat_add_one:
  fixes x :: "'a::len word"
  assumes "Suc (unat x) < 2 ^ LENGTH('a)"
  shows "unat (x + 1) = Suc (unat x)"
  using assms by (simp add: unat_word_ariths)

section \<open>Lists\<close>

lemma nth_update_iff:
  "i < length xs \<Longrightarrow> (xs[j := v]) ! i = (if i = j then v else xs ! i)"
  by (simp add: nth_list_update)

lemma mod_distinct_window:
  fixes a b n :: nat
  assumes "a < b" "b < a + n"
  shows "a mod n \<noteq> b mod n"
proof
  assume "a mod n = b mod n"
  then have "n dvd b - a"
    using assms(1) by (metis less_imp_le mod_eq_dvd_iff_nat)
  then have "n \<le> b - a"
    using assms(1) by (simp add: dvd_imp_le)
  with assms show False by simp
qed

lemma funpow_split: "n = k + m \<Longrightarrow> (f ^^ n) x = (f ^^ k) ((f ^^ m) x)"
  by (simp add: funpow_add)

section \<open>Bytes\<close>

type_synonym byte = u8

text \<open>A natural as its lowest bytes in the little-endian order of memory, and the value of such bytes.\<close>

fun le_bytes :: "nat \<Rightarrow> nat \<Rightarrow> byte list" where
  "le_bytes 0 x = []"
| "le_bytes (Suc n) x = of_nat (x mod 256) # le_bytes n (x div 256)"

fun le_value :: "byte list \<Rightarrow> nat" where
  "le_value [] = 0"
| "le_value (b # bs) = unat b + 256 * le_value bs"

lemma length_le_bytes [simp]: "length (le_bytes n x) = n"
  by (induction n arbitrary: x) auto

lemma le_value_le_bytes: "x < 256 ^ n \<Longrightarrow> le_value (le_bytes n x) = x"
proof (induction n arbitrary: x)
  case (Suc n)
  then have "x div 256 < 256 ^ n" by (simp add: less_mult_imp_div_less mult.commute)
  moreover have "unat (of_nat (x mod 256) :: byte) = x mod 256" by (simp add: unat_of_nat)
  ultimately show ?case using Suc.IH by simp
qed simp

end
