(* ===== verification/CanByte.thy ===== *)
theory CanByte
  imports Prelude
begin

text \<open>
  The class \<open>Byte\<close> of \<open>modules/drivers/canbus/common/byte.cc\<close>: reading and writing bit
  fields of one byte of a CAN frame. A \<open>Byte\<close> wraps a pointer to one \<open>uint8_t\<close>; every
  operation here takes the byte the pointer refers to and returns the new one (or the value
  read). Positions and lengths are the \<open>int32_t\<close> arguments of the code, as integers: every
  guard of the code is kept, and the only arithmetic before a guard has been passed is
  \<open>start_pos + length - 1\<close>, which stays inside 32 bits for every length below \<open>2^31 - 7\<close>.
\<close>

section \<open>Operations\<close>

definition BYTE_LENGTH :: int where
  "BYTE_LENGTH = 8"

definition RANG_MASK_1_L :: "u8 list" where
  "RANG_MASK_1_L = [0x01, 0x03, 0x07, 0x0F, 0x1F, 0x3F, 0x7F, 0xFF]"

definition RANG_MASK_0_L :: "u8 list" where
  "RANG_MASK_0_L = [0xFE, 0xFC, 0xF8, 0xF0, 0xE0, 0xC0, 0x80, 0x00]"

definition BIT_MASK_1 :: "u8 list" where
  "BIT_MASK_1 = [0x01, 0x02, 0x04, 0x08, 0x10, 0x20, 0x40, 0x80]"

definition BIT_MASK_0 :: "u8 list" where
  "BIT_MASK_0 = [0xFE, 0xFD, 0xFB, 0xF7, 0xEF, 0xDF, 0xBF, 0x7F]"

definition HEX :: string where
  "HEX = ''0123456789ABCDEF''"

definition byte_to_hex :: "u8 \<Rightarrow> string" where
  "byte_to_hex value =
     (let high = drop_bit 4 value; low = value AND 0x0F
      in [HEX ! unat high, HEX ! unat low])"

text \<open>\<open>std::bitset<8>::to_string\<close> prints the highest bit first.\<close>

definition byte_to_binary :: "u8 \<Rightarrow> string" where
  "byte_to_binary value =
     map (\<lambda>i. if bit value i then CHR ''1'' else CHR ''0'') [7, 6, 5, 4, 3, 2, 1, 0]"

definition set_bit_1 :: "u8 \<Rightarrow> int \<Rightarrow> u8" where
  "set_bit_1 v pos = (if 0 \<le> pos \<and> pos < BYTE_LENGTH then v OR BIT_MASK_1 ! nat pos else v)"

definition set_bit_0 :: "u8 \<Rightarrow> int \<Rightarrow> u8" where
  "set_bit_0 v pos = (if 0 \<le> pos \<and> pos < BYTE_LENGTH then v AND BIT_MASK_0 ! nat pos else v)"

definition is_bit_1 :: "u8 \<Rightarrow> int \<Rightarrow> bool" where
  "is_bit_1 v pos \<longleftrightarrow> 0 \<le> pos \<and> pos < BYTE_LENGTH \<and> drop_bit (nat pos) v mod 2 = 1"

text \<open>\<open>set_value(value)\<close> through a pointer that may be null: None is the null pointer.\<close>

definition set_value_whole :: "u8 option \<Rightarrow> u8 \<Rightarrow> u8 option" where
  "set_value_whole ptr value = (case ptr of None \<Rightarrow> None | Some _ \<Rightarrow> Some value)"

definition set_value :: "u8 \<Rightarrow> u8 \<Rightarrow> int \<Rightarrow> int \<Rightarrow> u8" where
  "set_value v value start_pos len =
     (if start_pos > BYTE_LENGTH - 1 \<or> start_pos < 0 \<or> len < 1 then v
      else
        let end_pos = min (start_pos + len - 1) (BYTE_LENGTH - 1);
            real_len = end_pos + 1 - start_pos;
            current_value_low =
              (if start_pos > 0 then v AND RANG_MASK_1_L ! nat (start_pos - 1) else 0);
            current_value_high = v AND RANG_MASK_0_L ! nat end_pos;
            middle_value = push_bit (nat start_pos) (value AND RANG_MASK_1_L ! nat (real_len - 1))
        in current_value_high + middle_value + current_value_low)"

definition set_value_high_4_bits :: "u8 \<Rightarrow> u8 \<Rightarrow> u8" where
  "set_value_high_4_bits v value = set_value v value 4 4"

definition set_value_low_4_bits :: "u8 \<Rightarrow> u8 \<Rightarrow> u8" where
  "set_value_low_4_bits v value = set_value v value 0 4"

definition get_byte :: "u8 \<Rightarrow> int \<Rightarrow> int \<Rightarrow> u8" where
  "get_byte v start_pos len =
     (if start_pos > BYTE_LENGTH - 1 \<or> start_pos < 0 \<or> len < 1 then 0
      else
        let end_pos = min (start_pos + len - 1) (BYTE_LENGTH - 1);
            real_len = end_pos + 1 - start_pos;
            result = drop_bit (nat start_pos) v
        in result AND RANG_MASK_1_L ! nat (real_len - 1))"

definition get_byte_high_4_bits :: "u8 \<Rightarrow> u8" where
  "get_byte_high_4_bits v = get_byte v 4 4"

definition get_byte_low_4_bits :: "u8 \<Rightarrow> u8" where
  "get_byte_low_4_bits v = get_byte v 0 4"

section \<open>What the mask tables contain\<close>

text \<open>
  Each table is compared with its specification entry by entry and bit by bit; bits beyond the
  width of a byte are zero in any case.
\<close>

lemma table_bits:
  fixes tab :: "u8 list"
  assumes "list_all (\<lambda>n. list_all (\<lambda>i. bit (tab ! n) i = P n i) [0..<8]) [0..<8]"
    and "n < 8"
  shows "bit (tab ! n) i \<longleftrightarrow> i < 8 \<and> P n i"
proof (cases "i < 8")
  case True
  with assms have "n \<in> set [0..<8]" and "i \<in> set [0..<8]" by simp_all
  with assms(1) True show ?thesis unfolding list_all_iff by blast
next
  case False
  then show ?thesis using bit_imp_le_length [of "tab ! n" i] by auto
qed

lemma bit_RANG_MASK_1_L: "n < 8 \<Longrightarrow> bit (RANG_MASK_1_L ! n) i \<longleftrightarrow> i < 8 \<and> i \<le> n"
  by (rule table_bits) code_simp

lemma bit_RANG_MASK_0_L: "n < 8 \<Longrightarrow> bit (RANG_MASK_0_L ! n) i \<longleftrightarrow> i < 8 \<and> n < i"
  by (rule table_bits) code_simp

lemma bit_BIT_MASK_1: "n < 8 \<Longrightarrow> bit (BIT_MASK_1 ! n) i \<longleftrightarrow> i < 8 \<and> i = n"
  by (rule table_bits) code_simp

lemma bit_BIT_MASK_0: "n < 8 \<Longrightarrow> bit (BIT_MASK_0 ! n) i \<longleftrightarrow> i < 8 \<and> i \<noteq> n"
  by (rule table_bits) code_simp

lemmas mask_bits = bit_RANG_MASK_1_L bit_RANG_MASK_0_L bit_BIT_MASK_1 bit_BIT_MASK_0

section \<open>Bit-level meaning of every operation\<close>

definition valid_field :: "int \<Rightarrow> int \<Rightarrow> bool" where
  "valid_field start_pos len \<longleftrightarrow> 0 \<le> start_pos \<and> start_pos \<le> 7 \<and> 1 \<le> len"

definition in_field :: "int \<Rightarrow> int \<Rightarrow> nat \<Rightarrow> bool" where
  "in_field start_pos len i \<longleftrightarrow> start_pos \<le> int i \<and> int i < start_pos + len \<and> i < 8"

lemma set_value_invalid: "\<not> valid_field s l \<Longrightarrow> set_value v x s l = v"
  by (auto simp: set_value_def valid_field_def BYTE_LENGTH_def)

lemma get_byte_invalid: "\<not> valid_field s l \<Longrightarrow> get_byte v s l = 0"
  by (auto simp: get_byte_def valid_field_def BYTE_LENGTH_def)

lemma bit_set_bit_1:
  "bit (set_bit_1 v pos) i \<longleftrightarrow> bit v i \<or> (0 \<le> pos \<and> pos < 8 \<and> int i = pos)"
  by (auto simp: set_bit_1_def BYTE_LENGTH_def mask_bits bit_simps)

lemma bit_set_bit_0:
  "bit (set_bit_0 v pos) i \<longleftrightarrow> bit v i \<and> \<not> (0 \<le> pos \<and> pos < 8 \<and> int i = pos)"
  using bit_imp_le_length [of v i]
  by (auto simp: set_bit_0_def BYTE_LENGTH_def mask_bits bit_simps)

lemma is_bit_1_iff: "is_bit_1 v pos \<longleftrightarrow> 0 \<le> pos \<and> pos < 8 \<and> bit v (nat pos)"
  by (auto simp: is_bit_1_def BYTE_LENGTH_def bit_iff_odd_drop_bit odd_iff_mod_2_eq_one)

lemma bit_get_byte:
  assumes "valid_field s l"
  shows "bit (get_byte v s l) i \<longleftrightarrow> bit v (nat s + i) \<and> int i < l"
  using assms bit_imp_le_length [of v "nat s + i"]
  by (auto simp: get_byte_def valid_field_def BYTE_LENGTH_def Let_def mask_bits bit_simps)

lemma bit_set_value:
  assumes "valid_field s l"
  shows "bit (set_value v x s l) i \<longleftrightarrow> (if in_field s l i then bit x (i - nat s) else bit v i)"
proof -
  define e where "e = min (s + l - 1) 7"
  define hi where "hi = v AND RANG_MASK_0_L ! nat e"
  define mid where "mid = push_bit (nat s) (x AND RANG_MASK_1_L ! nat (e - s))"
  define lo where "lo = (if s > 0 then v AND RANG_MASK_1_L ! nat (s - 1) else 0)"
  have rng: "0 \<le> s" "s \<le> e" "e \<le> 7" using assms by (auto simp: valid_field_def e_def)
  have hi: "bit hi n \<longleftrightarrow> bit v n \<and> n < 8 \<and> e < int n" for n
    using rng by (auto simp: hi_def mask_bits bit_simps)
  have mid: "bit mid n \<longleftrightarrow> bit x (n - nat s) \<and> s \<le> int n \<and> int n \<le> e" for n
    using rng by (auto simp: mid_def mask_bits bit_simps)
  have lo: "bit lo n \<longleftrightarrow> bit v n \<and> int n < s" for n
    using rng bit_imp_le_length [of v n] by (auto simp: lo_def mask_bits bit_simps)
  have "hi + mid = hi OR mid" by (rule disjoint_add_or) (auto simp: hi mid)
  moreover have "(hi OR mid) + lo = (hi OR mid) OR lo"
    using rng by (intro disjoint_add_or) (auto simp: hi mid lo bit_simps)
  moreover have "set_value v x s l = hi + mid + lo"
    using assms by (auto simp: set_value_def valid_field_def BYTE_LENGTH_def Let_def
        hi_def mid_def lo_def e_def algebra_simps)
  ultimately have "bit (set_value v x s l) i \<longleftrightarrow> bit hi i \<or> bit mid i \<or> bit lo i"
    by (simp add: bit_simps)
  then show ?thesis
    using rng bit_imp_le_length [of v i]
    by (auto simp: hi mid lo in_field_def e_def split: if_splits)
qed

lemmas byte_bits = bit_set_value bit_get_byte bit_set_bit_1 bit_set_bit_0

section \<open>Fields are independent\<close>

lemma get_set_same:
  assumes "valid_field s l"
  shows "get_byte (set_value v x s l) s l = x AND mask (nat (min l (8 - s)))"
proof (rule bit_word_eqI)
  fix n
  assume "n < LENGTH(8)"
  with assms show "bit (get_byte (set_value v x s l) s l) n
      = bit (x AND mask (nat (min l (8 - s)))) n"
    using bit_imp_le_length [of v "nat s + n"]
    by (auto simp: byte_bits in_field_def valid_field_def bit_simps)
qed

lemma get_set_other:
  assumes "s + l \<le> s' \<or> s' + l' \<le> s"
  shows "get_byte (set_value v x s l) s' l' = get_byte v s' l'"
proof (cases "valid_field s l \<and> valid_field s' l'")
  case True
  show ?thesis
  proof (rule bit_word_eqI)
    fix n
    assume "n < LENGTH(8)"
    with True assms show "bit (get_byte (set_value v x s l) s' l') n = bit (get_byte v s' l') n"
      by (auto simp: byte_bits in_field_def valid_field_def)
  qed
next
  case False
  then show ?thesis by (auto simp: set_value_invalid get_byte_invalid)
qed

lemma is_bit_1_set_bit_1: "is_bit_1 (set_bit_1 v p) q \<longleftrightarrow> is_bit_1 v q \<or> (p = q \<and> 0 \<le> q \<and> q < 8)"
  by (auto simp: is_bit_1_iff bit_set_bit_1)

lemma is_bit_1_set_bit_0: "is_bit_1 (set_bit_0 v p) q \<longleftrightarrow> is_bit_1 v q \<and> p \<noteq> q"
  by (auto simp: is_bit_1_iff bit_set_bit_0)

lemma set_value_full: "set_value v x 0 8 = x"
  by (rule bit_word_eqI) (auto simp: bit_set_value valid_field_def in_field_def)

lemma get_byte_full: "get_byte v 0 8 = v"
  by (rule bit_word_eqI) (auto simp: bit_get_byte valid_field_def)

text \<open>The two hexadecimal digits determine the byte.\<close>

definition hex_digit :: "char \<Rightarrow> nat" where
  "hex_digit c = (if of_char c < (65::nat) then of_char c - 48 else of_char c - 55)"

lemma hex_digit_HEX: "n < 16 \<Longrightarrow> hex_digit (HEX ! n) = n"
proof -
  have "list_all (\<lambda>n. hex_digit (HEX ! n) = n) [0..<16]" by code_simp
  then show "n < 16 \<Longrightarrow> hex_digit (HEX ! n) = n" by (simp add: list_all_iff)
qed

lemma byte_to_hex_decodes:
  "\<exists>h l. byte_to_hex v = [h, l] \<and> unat v = 16 * hex_digit h + hex_digit l"
proof -
  have low: "unat (v AND 0x0F) = unat v mod 16"
  proof -
    have "v AND 0x0F = take_bit 4 v" by (simp add: take_bit_eq_mask mask_eq_exp_minus_1)
    then have "unat (v AND 0x0F) = take_bit 4 (unat v)" by (simp only: unsigned_take_bit_eq)
    then show ?thesis by (simp add: take_bit_eq_mod)
  qed
  have high: "unat (drop_bit 4 v) = unat v div 16"
    by (simp only: unat_drop_bit_eq) (simp add: drop_bit_eq_div)
  have "unat v < 2 ^ 8" using unsigned_less [of v] by simp
  then show ?thesis by (simp add: byte_to_hex_def low high hex_digit_HEX)
qed

text \<open>
  Property C40. Writing a field of a byte and reading it back gives the written value cut to the
  field's width (a field that would run past bit 7 is cut there), and every bit outside the
  field keeps its value, so \<open>set_value\<close> calls on disjoint fields of one byte do not interfere.
\<close>

theorem byte_field_roundtrip:
  assumes "0 \<le> start_pos" and "start_pos \<le> 7" and "1 \<le> len"
  shows "get_byte (set_value v x start_pos len) start_pos len
           = x AND mask (nat (min len (8 - start_pos)))
       \<and> (\<forall>s' l'. start_pos + len \<le> s' \<or> s' + l' \<le> start_pos \<longrightarrow>
             get_byte (set_value v x start_pos len) s' l' = get_byte v s' l')"
  using assms get_set_same [of start_pos len v x]
  by (simp add: valid_field_def get_set_other)

theorem byte_field_roundtrip_witness:
  "get_byte (set_value 0xFF 0x2A 2 3) 2 3 = 2 \<and> get_byte (set_value 0xFF 0x2A 2 3) 5 3 = 7"
proof -
  have r: "get_byte (set_value 0xFF 0x2A 2 3) 2 3 = 0x2A AND mask (nat (min 3 (8 - 2)))"
    by (rule byte_field_roundtrip [THEN conjunct1]) simp_all
  have o: "\<forall>s' l'. (2::int) + 3 \<le> s' \<or> s' + l' \<le> 2 \<longrightarrow>
      get_byte (set_value 0xFF 0x2A 2 3) s' l' = get_byte 0xFF s' l'"
    by (rule byte_field_roundtrip [THEN conjunct2]) simp_all
  have "get_byte (set_value 0xFF 0x2A 2 3) 5 3 = get_byte 0xFF 5 3" by (rule o [rule_format]) simp
  moreover have "get_byte 0xFF 5 3 = 7" by code_simp
  ultimately show ?thesis using r by (simp add: mask_eq_exp_minus_1)
qed

end
