(* ===== verification/CanProtocol.thy ===== *)
theory CanProtocol
  imports CanByte
begin

text \<open>
  The protocol data base class (\<open>modules/drivers/canbus/can_comm/protocol_data.h\<close>), CAN frames
  (\<open>can_client/can_client.h\<close>) and the field accessors the protocol classes are written with.
  The data of a frame is the array \<open>uint8_t data[8]\<close>: a list of eight bytes, so that every
  index \<open>bytes + k\<close> the protocols use (\<open>k \<le> 7\<close>) is inside it.
\<close>

section \<open>Frames and the protocol data base class\<close>

definition CANBUS_MESSAGE_LENGTH :: nat where
  "CANBUS_MESSAGE_LENGTH = 8"

type_synonym frame_data = "u8 list"

record can_frame =
  frame_id :: u32
  frame_len :: u8
  frame_bytes :: frame_data

definition new_can_frame :: can_frame where
  "new_can_frame = \<lparr>frame_id = 0, frame_len = 0, frame_bytes = replicate 8 0\<rparr>"

definition frame_data_ok :: "frame_data \<Rightarrow> bool" where
  "frame_data_ok d \<longleftrightarrow> length d = CANBUS_MESSAGE_LENGTH"

definition BoundedValue :: "'a::linorder \<Rightarrow> 'a \<Rightarrow> 'a \<Rightarrow> 'a" where
  "BoundedValue lower upper val =
     (if lower > upper then val
      else if val < lower then lower
      else if val > upper then upper
      else val)"

text \<open>
  \<open>std::accumulate(input, input + length, 0) ^ 0xFF\<close> cut to a byte: the sum is an \<open>int\<close>, whose
  low byte is the sum of the bytes modulo 256 for any array short enough not to overflow it.
\<close>

definition CalculateCheckSum :: "u8 list \<Rightarrow> u8" where
  "CalculateCheckSum input = fold (\<lambda>b s. s + b) input 0 XOR 0xFF"

definition protocol_GetPeriod :: int where
  "protocol_GetPeriod = 100 * 1000"

definition protocol_GetLength :: nat where
  "protocol_GetLength = CANBUS_MESSAGE_LENGTH"

lemma BoundedValue_in_range: "lower \<le> upper \<Longrightarrow> lower \<le> BoundedValue lower upper v \<and> BoundedValue lower upper v \<le> upper"
  by (auto simp: BoundedValue_def)

lemma BoundedValue_id: "lower \<le> v \<Longrightarrow> v \<le> upper \<Longrightarrow> BoundedValue lower upper v = v"
  by (auto simp: BoundedValue_def)

text \<open>A receiver that adds the checksum to the bytes gets 0xFF back.\<close>

lemma CalculateCheckSum_complement:
  "CalculateCheckSum input + fold (\<lambda>b s. s + b) input 0 = 0xFF"
proof -
  have "(x XOR 0xFF) + x = (0xFF :: u8)" for x
  proof -
    have ff: "(0xFF :: u8) = mask 8" by (simp add: mask_eq_exp_minus_1)
    have "(x XOR 0xFF) + x = (x XOR 0xFF) OR x"
      by (rule disjoint_add_or) (auto simp: ff bit_simps)
    also have "\<dots> = 0xFF" by (rule bit_word_eqI) (auto simp: ff bit_simps)
    finally show ?thesis .
  qed
  then show ?thesis by (simp add: CalculateCheckSum_def)
qed

section \<open>Field access through a frame\<close>

text \<open>
  \<open>Byte frame(data + k); frame.set_value(x, s, l)\<close> and \<open>Byte t0(bytes + k); t0.get_byte(s, l)\<close>:
  the value written is the low byte of the integer \<open>x\<close>; the value read is extended to \<open>int32_t\<close>.
\<close>

definition put_field :: "nat \<Rightarrow> int \<Rightarrow> int \<Rightarrow> int \<Rightarrow> frame_data \<Rightarrow> frame_data" where
  "put_field k s l x d = d[k := set_value (d ! k) (word_of_int x) s l]"

definition get_field :: "nat \<Rightarrow> int \<Rightarrow> int \<Rightarrow> frame_data \<Rightarrow> int" where
  "get_field k s l d = uint (get_byte (d ! k) s l)"

definition put_bit :: "nat \<Rightarrow> int \<Rightarrow> bool \<Rightarrow> frame_data \<Rightarrow> frame_data" where
  "put_bit k pos b d = d[k := (if b then set_bit_1 (d ! k) pos else set_bit_0 (d ! k) pos)]"

definition get_bit :: "nat \<Rightarrow> int \<Rightarrow> frame_data \<Rightarrow> bool" where
  "get_bit k pos d = is_bit_1 (d ! k) pos"

lemma length_put_field [simp]: "length (put_field k s l x d) = length d"
  by (simp add: put_field_def)

lemma length_put_bit [simp]: "length (put_bit k pos b d) = length d"
  by (simp add: put_bit_def)

lemma nth_put_field_other [simp]: "j \<noteq> k \<Longrightarrow> put_field k s l x d ! j = d ! j"
  by (simp add: put_field_def)

lemma get_put_other_byte [simp]: "j \<noteq> k \<Longrightarrow> get_field j s' l' (put_field k s l x d) = get_field j s' l' d"
  by (simp add: get_field_def)

lemma get_put_disjoint [simp]:
  "s + l \<le> s' \<or> s' + l' \<le> s \<Longrightarrow> get_field k s' l' (put_field k s l x d) = get_field k s' l' d"
proof (cases "k < length d")
  case True
  assume "s + l \<le> s' \<or> s' + l' \<le> s"
  with True show ?thesis by (simp add: get_field_def put_field_def get_set_other)
next
  case False
  then show ?thesis by (simp add: get_field_def put_field_def list_update_beyond)
qed

lemma get_put_same [simp]:
  assumes "k < length d" "0 \<le> s" "1 \<le> l" "s + l \<le> 8"
  shows "get_field k s l (put_field k s l x d) = x mod 2 ^ nat l"
proof -
  have "get_byte (set_value (d ! k) (word_of_int x) s l) s l = word_of_int x AND mask (nat l)"
    using assms get_set_same [of s l "d ! k" "word_of_int x"] by (simp add: valid_field_def)
  also have "\<dots> = take_bit (nat l) (word_of_int x)" by (simp add: take_bit_eq_mask)
  finally have "get_field k s l (put_field k s l x d) = take_bit (nat l) (uint (word_of_int x :: u8))"
    using assms by (simp add: get_field_def put_field_def unsigned_take_bit_eq)
  also have "\<dots> = take_bit (min 8 (nat l)) x"
    by (simp add: uint_word_of_int_eq min.commute)
  also have "min 8 (nat l) = nat l" using assms by (simp add: min_absorb2 nat_le_iff)
  also have "take_bit (nat l) x = x mod 2 ^ nat l" by (simp add: take_bit_eq_mod)
  finally show ?thesis .
qed

lemma get_bit_put_bit [simp]:
  "k < length d \<Longrightarrow> 0 \<le> p \<Longrightarrow> p < 8 \<Longrightarrow> get_bit k p (put_bit k p b d) = b"
  by (auto simp: get_bit_def put_bit_def is_bit_1_set_bit_1 is_bit_1_set_bit_0)

lemma get_field_range:
  assumes "0 \<le> s" "s \<le> 7" "1 \<le> l"
  shows "0 \<le> get_field k s l d \<and> get_field k s l d < 2 ^ nat (min l (8 - s))"
proof -
  let ?m = "nat (min l (8 - s))"
  have "get_byte (d ! k) s l = take_bit ?m (get_byte (d ! k) s l)"
  proof (rule bit_word_eqI)
    fix n
    assume "n < LENGTH(8)"
    with assms show "bit (get_byte (d ! k) s l) n = bit (take_bit ?m (get_byte (d ! k) s l)) n"
      using bit_imp_le_length [of "d ! k" "nat s + n"]
      by (auto simp: byte_bits valid_field_def bit_simps)
  qed
  then have "uint (get_byte (d ! k) s l) = take_bit ?m (uint (get_byte (d ! k) s l))"
    by (metis unsigned_take_bit_eq)
  then show ?thesis unfolding get_field_def by (metis take_bit_nonnegative take_bit_int_less_exp)
qed

section \<open>The interface the sender relies on\<close>

text \<open>
  \<open>SenderMessage\<close> knows a protocol only through \<open>GetPeriod\<close>, \<open>GetLength\<close> and \<open>UpdateData\<close>. What it
  relies on is that \<open>UpdateData\<close> writes inside the eight data bytes and that the period is
  positive. \<open>UpdateData\<close> may also change the protocol object (rolling counters).
\<close>

locale protocol_data =
  fixes GetPeriod :: int
    and UpdateData :: "'p \<Rightarrow> frame_data \<Rightarrow> 'p \<times> frame_data"
  assumes period_pos: "0 < GetPeriod"
    and UpdateData_length: "length (snd (UpdateData p d)) = length d"
begin

lemma UpdateData_frame_ok: "frame_data_ok d \<Longrightarrow> frame_data_ok (snd (UpdateData p d))"
  by (simp add: frame_data_ok_def UpdateData_length)

end

end
