(* ===== verification/MkMiniFeedback.thy ===== *)
theory MkMiniFeedback
  imports CanProtocol
begin

text \<open>
  The report frames of the mk_mini chassis: \<open>Iofb18c4daef\<close> and \<open>Vehfbdiag18c4eaef\<close> of
  \<open>modules/canbus/vehicle/mk_mini/protocol\<close>. Every accessor of the classes is a definition of
  its own; \<open>Parse\<close> fills the sub-messages of the chassis detail, whose fields are the records
  below (\<open>m_\<close> and the name of the protobuf field). The layout each accessor is documented with
  (start bit and length of an Intel signal, in the comment above it) is the reference the
  accessors are proved equal to.
\<close>

section \<open>Intel signals of a frame\<close>

text \<open>The frame as one little-endian integer, and a signal of \<open>len\<close> bits from bit \<open>start\<close>.\<close>

fun frame_int :: "frame_data \<Rightarrow> int" where
  "frame_int [] = 0"
| "frame_int (b # bs) = uint b + 256 * frame_int bs"

definition intel_signal :: "nat \<Rightarrow> nat \<Rightarrow> frame_data \<Rightarrow> int" where
  "intel_signal start len d = (frame_int d div 2 ^ start) mod 2 ^ len"

section \<open>Accessors of \<open>Iofb18c4daef\<close>\<close>

record io_fb_msg =
  m_io_fb_scramst :: bool
  m_io_fb_chargeen :: bool
  m_io_fb_dischargeflg :: bool
  m_io_fb_check_bcc :: int
  m_io_fb_alive_cnt :: int
  m_io_fb_rr_drop_sensor :: bool
  m_io_fb_rm_drop_sensor :: bool
  m_io_fb_rl_drop_sensor :: bool
  m_io_fb_fr_drop_sensor :: bool
  m_io_fb_fm_drop_sensor :: bool
  m_io_fb_fl_drop_sensor :: bool
  m_io_fb_rr_impact_sensor :: bool
  m_io_fb_rm_impact_sensor :: bool
  m_io_fb_rl_impact_sensor :: bool
  m_io_fb_fr_impact_sensor :: bool
  m_io_fb_fm_impact_sensor :: bool
  m_io_fb_fl_impact_sensor :: bool
  m_io_fb_speaker :: bool
  m_io_fb_fog_lamp :: bool
  m_io_fb_clearance_lamp :: bool
  m_io_fb_braking_lamp :: bool
  m_io_fb_turn_lamp :: int
  m_io_fb_upper_beam_headlamp :: bool
  m_io_fb_lower_beam_headlamp :: bool
  m_io_fb_enable :: bool

definition io_fb_scramst :: "frame_data \<Rightarrow> bool" where
  "io_fb_scramst bytes \<longleftrightarrow> get_field 5 4 1 bytes \<noteq> 0"

definition io_fb_chargeen :: "frame_data \<Rightarrow> bool" where
  "io_fb_chargeen bytes \<longleftrightarrow> get_field 5 1 1 bytes \<noteq> 0"

definition io_fb_dischargeflg :: "frame_data \<Rightarrow> bool" where
  "io_fb_dischargeflg bytes \<longleftrightarrow> get_field 5 0 1 bytes \<noteq> 0"

definition io_fb_check_bcc :: "frame_data \<Rightarrow> int" where
  "io_fb_check_bcc bytes = get_field 7 0 8 bytes"

definition io_fb_alive_cnt :: "frame_data \<Rightarrow> int" where
  "io_fb_alive_cnt bytes = get_field 6 4 4 bytes"

definition io_fb_rr_drop_sensor :: "frame_data \<Rightarrow> bool" where
  "io_fb_rr_drop_sensor bytes \<longleftrightarrow> get_field 4 5 1 bytes \<noteq> 0"

definition io_fb_rm_drop_sensor :: "frame_data \<Rightarrow> bool" where
  "io_fb_rm_drop_sensor bytes \<longleftrightarrow> get_field 4 4 1 bytes \<noteq> 0"

definition io_fb_rl_drop_sensor :: "frame_data \<Rightarrow> bool" where
  "io_fb_rl_drop_sensor bytes \<longleftrightarrow> get_field 4 3 1 bytes \<noteq> 0"

definition io_fb_fr_drop_sensor :: "frame_data \<Rightarrow> bool" where
  "io_fb_fr_drop_sensor bytes \<longleftrightarrow> get_field 4 2 1 bytes \<noteq> 0"

definition io_fb_fm_drop_sensor :: "frame_data \<Rightarrow> bool" where
  "io_fb_fm_drop_sensor bytes \<longleftrightarrow> get_field 4 1 1 bytes \<noteq> 0"

definition io_fb_fl_drop_sensor :: "frame_data \<Rightarrow> bool" where
  "io_fb_fl_drop_sensor bytes \<longleftrightarrow> get_field 4 0 1 bytes \<noteq> 0"

definition io_fb_rr_impact_sensor :: "frame_data \<Rightarrow> bool" where
  "io_fb_rr_impact_sensor bytes \<longleftrightarrow> get_field 3 5 1 bytes \<noteq> 0"

definition io_fb_rm_impact_sensor :: "frame_data \<Rightarrow> bool" where
  "io_fb_rm_impact_sensor bytes \<longleftrightarrow> get_field 3 4 1 bytes \<noteq> 0"

definition io_fb_rl_impact_sensor :: "frame_data \<Rightarrow> bool" where
  "io_fb_rl_impact_sensor bytes \<longleftrightarrow> get_field 3 3 1 bytes \<noteq> 0"

definition io_fb_fr_impact_sensor :: "frame_data \<Rightarrow> bool" where
  "io_fb_fr_impact_sensor bytes \<longleftrightarrow> get_field 3 2 1 bytes \<noteq> 0"

definition io_fb_fm_impact_sensor :: "frame_data \<Rightarrow> bool" where
  "io_fb_fm_impact_sensor bytes \<longleftrightarrow> get_field 3 1 1 bytes \<noteq> 0"

definition io_fb_fl_impact_sensor :: "frame_data \<Rightarrow> bool" where
  "io_fb_fl_impact_sensor bytes \<longleftrightarrow> get_field 3 0 1 bytes \<noteq> 0"

definition io_fb_speaker :: "frame_data \<Rightarrow> bool" where
  "io_fb_speaker bytes \<longleftrightarrow> get_field 2 0 1 bytes \<noteq> 0"

definition io_fb_fog_lamp :: "frame_data \<Rightarrow> bool" where
  "io_fb_fog_lamp bytes \<longleftrightarrow> get_field 1 6 1 bytes \<noteq> 0"

definition io_fb_clearance_lamp :: "frame_data \<Rightarrow> bool" where
  "io_fb_clearance_lamp bytes \<longleftrightarrow> get_field 1 5 1 bytes \<noteq> 0"

definition io_fb_braking_lamp :: "frame_data \<Rightarrow> bool" where
  "io_fb_braking_lamp bytes \<longleftrightarrow> get_field 1 4 1 bytes \<noteq> 0"

definition io_fb_turn_lamp :: "frame_data \<Rightarrow> int" where
  "io_fb_turn_lamp bytes = get_field 1 2 2 bytes"

definition io_fb_upper_beam_headlamp :: "frame_data \<Rightarrow> bool" where
  "io_fb_upper_beam_headlamp bytes \<longleftrightarrow> get_field 1 1 1 bytes \<noteq> 0"

definition io_fb_lower_beam_headlamp :: "frame_data \<Rightarrow> bool" where
  "io_fb_lower_beam_headlamp bytes \<longleftrightarrow> get_field 1 0 1 bytes \<noteq> 0"

definition io_fb_enable :: "frame_data \<Rightarrow> bool" where
  "io_fb_enable bytes \<longleftrightarrow> get_field 0 0 1 bytes \<noteq> 0"

section \<open>Accessors of \<open>Vehfbdiag18c4eaef\<close>\<close>

record veh_fb_diag_msg =
  m_veh_fb_rdrvmcufault :: int
  m_veh_fb_ldrvmcufault :: int
  m_veh_fb_ehboilfault :: bool
  m_veh_fb_ehboilpresssensorfault :: bool
  m_veh_fb_ehbmotorfault :: bool
  m_veh_fb_ehbsensorabnomal :: bool
  m_veh_fb_ehbpowerfault :: bool
  m_veh_fb_ehbot :: bool
  m_veh_fb_ehbangulefault :: bool
  m_veh_fb_ehbdisen :: bool
  m_veh_fb_ehbworkmodelfault :: bool
  m_veh_fb_epsovercurrent :: bool
  m_veh_fb_epsdiswork :: bool
  m_veh_fb_epswarning :: bool
  m_veh_fb_auxremotedisonline :: bool
  m_veh_fb_auxremoteclose :: bool
  m_veh_fb_auxbmsdisonline :: bool
  m_veh_fb_autoiocancmd :: bool
  m_veh_fb_autocanctrlcmd :: bool
  m_veh_fb_infor_check_bcc :: int
  m_veh_fb_infor_alive_cnt :: int
  m_veh_fb_auxscram :: bool
  m_veh_fb_ehbdisonline :: bool
  m_veh_fb_ehbecufault :: bool
  m_veh_fb_epsmosfetot :: bool
  m_veh_fb_epsfault :: bool
  m_veh_fb_epsdisonline :: bool
  m_veh_fb_faultlevel :: int

definition veh_fb_rdrvmcufault :: "frame_data \<Rightarrow> int" where
  "veh_fb_rdrvmcufault bytes =
     (let x = get_field 5 0 4 bytes; t = get_field 4 6 2 bytes
      in push_bit 2 x OR t)"

definition veh_fb_ldrvmcufault :: "frame_data \<Rightarrow> int" where
  "veh_fb_ldrvmcufault bytes = get_field 4 0 6 bytes"

definition veh_fb_ehboilfault :: "frame_data \<Rightarrow> bool" where
  "veh_fb_ehboilfault bytes \<longleftrightarrow> get_field 3 6 1 bytes \<noteq> 0"

definition veh_fb_ehboilpresssensorfault :: "frame_data \<Rightarrow> bool" where
  "veh_fb_ehboilpresssensorfault bytes \<longleftrightarrow> get_field 3 5 1 bytes \<noteq> 0"

definition veh_fb_ehbmotorfault :: "frame_data \<Rightarrow> bool" where
  "veh_fb_ehbmotorfault bytes \<longleftrightarrow> get_field 3 4 1 bytes \<noteq> 0"

definition veh_fb_ehbsensorabnomal :: "frame_data \<Rightarrow> bool" where
  "veh_fb_ehbsensorabnomal bytes \<longleftrightarrow> get_field 3 3 1 bytes \<noteq> 0"

definition veh_fb_ehbpowerfault :: "frame_data \<Rightarrow> bool" where
  "veh_fb_ehbpowerfault bytes \<longleftrightarrow> get_field 3 2 1 bytes \<noteq> 0"

definition veh_fb_ehbot :: "frame_data \<Rightarrow> bool" where
  "veh_fb_ehbot bytes \<longleftrightarrow> get_field 3 1 1 bytes \<noteq> 0"

definition veh_fb_ehbangulefault :: "frame_data \<Rightarrow> bool" where
  "veh_fb_ehbangulefault bytes \<longleftrightarrow> get_field 3 0 1 bytes \<noteq> 0"

definition veh_fb_ehbdisen :: "frame_data \<Rightarrow> bool" where
  "veh_fb_ehbdisen bytes \<longleftrightarrow> get_field 2 7 1 bytes \<noteq> 0"

definition veh_fb_ehbworkmodelfault :: "frame_data \<Rightarrow> bool" where
  "veh_fb_ehbworkmodelfault bytes \<longleftrightarrow> get_field 2 6 1 bytes \<noteq> 0"

definition veh_fb_epsovercurrent :: "frame_data \<Rightarrow> bool" where
  "veh_fb_epsovercurrent bytes \<longleftrightarrow> get_field 1 5 1 bytes \<noteq> 0"

definition veh_fb_epsdiswork :: "frame_data \<Rightarrow> bool" where
  "veh_fb_epsdiswork bytes \<longleftrightarrow> get_field 1 4 1 bytes \<noteq> 0"

definition veh_fb_epswarning :: "frame_data \<Rightarrow> bool" where
  "veh_fb_epswarning bytes \<longleftrightarrow> get_field 1 3 1 bytes \<noteq> 0"

definition veh_fb_auxremotedisonline :: "frame_data \<Rightarrow> bool" where
  "veh_fb_auxremotedisonline bytes \<longleftrightarrow> get_field 5 7 1 bytes \<noteq> 0"

definition veh_fb_auxremoteclose :: "frame_data \<Rightarrow> bool" where
  "veh_fb_auxremoteclose bytes \<longleftrightarrow> get_field 5 6 1 bytes \<noteq> 0"

definition veh_fb_auxbmsdisonline :: "frame_data \<Rightarrow> bool" where
  "veh_fb_auxbmsdisonline bytes \<longleftrightarrow> get_field 5 4 1 bytes \<noteq> 0"

definition veh_fb_autoiocancmd :: "frame_data \<Rightarrow> bool" where
  "veh_fb_autoiocancmd bytes \<longleftrightarrow> get_field 0 5 1 bytes \<noteq> 0"

definition veh_fb_autocanctrlcmd :: "frame_data \<Rightarrow> bool" where
  "veh_fb_autocanctrlcmd bytes \<longleftrightarrow> get_field 0 4 1 bytes \<noteq> 0"

definition veh_fb_infor_check_bcc :: "frame_data \<Rightarrow> int" where
  "veh_fb_infor_check_bcc bytes = get_field 7 0 8 bytes"

definition veh_fb_infor_alive_cnt :: "frame_data \<Rightarrow> int" where
  "veh_fb_infor_alive_cnt bytes = get_field 6 4 4 bytes"

definition veh_fb_auxscram :: "frame_data \<Rightarrow> bool" where
  "veh_fb_auxscram bytes \<longleftrightarrow> get_field 5 5 1 bytes \<noteq> 0"

definition veh_fb_ehbdisonline :: "frame_data \<Rightarrow> bool" where
  "veh_fb_ehbdisonline bytes \<longleftrightarrow> get_field 2 5 1 bytes \<noteq> 0"

definition veh_fb_ehbecufault :: "frame_data \<Rightarrow> bool" where
  "veh_fb_ehbecufault bytes \<longleftrightarrow> get_field 2 4 1 bytes \<noteq> 0"

definition veh_fb_epsmosfetot :: "frame_data \<Rightarrow> bool" where
  "veh_fb_epsmosfetot bytes \<longleftrightarrow> get_field 1 2 1 bytes \<noteq> 0"

definition veh_fb_epsfault :: "frame_data \<Rightarrow> bool" where
  "veh_fb_epsfault bytes \<longleftrightarrow> get_field 1 1 1 bytes \<noteq> 0"

definition veh_fb_epsdisonline :: "frame_data \<Rightarrow> bool" where
  "veh_fb_epsdisonline bytes \<longleftrightarrow> get_field 1 0 1 bytes \<noteq> 0"

definition veh_fb_faultlevel :: "frame_data \<Rightarrow> int" where
  "veh_fb_faultlevel bytes = get_field 0 0 4 bytes"

section \<open>Parsing into the chassis detail\<close>

record check_response =
  is_eps_online :: bool
  is_vcu_online :: bool

record mk_mini_detail =
  io_fb_18c4daef :: "io_fb_msg option"
  veh_fb_diag_18c4eaef :: "veh_fb_diag_msg option"
  response :: check_response

definition new_detail :: mk_mini_detail where
  "new_detail = \<lparr>io_fb_18c4daef = None, veh_fb_diag_18c4eaef = None,
                 response = \<lparr>is_eps_online = False, is_vcu_online = False\<rparr>\<rparr>"

definition Iofb_GetPeriod :: int where
  "Iofb_GetPeriod = 50000"

definition Vehfbdiag_GetPeriod :: int where
  "Vehfbdiag_GetPeriod = 10000"

definition io_fb_fields :: "frame_data \<Rightarrow> io_fb_msg" where
  "io_fb_fields bytes = \<lparr>
     m_io_fb_scramst = io_fb_scramst bytes,
     m_io_fb_chargeen = io_fb_chargeen bytes,
     m_io_fb_dischargeflg = io_fb_dischargeflg bytes,
     m_io_fb_check_bcc = io_fb_check_bcc bytes,
     m_io_fb_alive_cnt = io_fb_alive_cnt bytes,
     m_io_fb_rr_drop_sensor = io_fb_rr_drop_sensor bytes,
     m_io_fb_rm_drop_sensor = io_fb_rm_drop_sensor bytes,
     m_io_fb_rl_drop_sensor = io_fb_rl_drop_sensor bytes,
     m_io_fb_fr_drop_sensor = io_fb_fr_drop_sensor bytes,
     m_io_fb_fm_drop_sensor = io_fb_fm_drop_sensor bytes,
     m_io_fb_fl_drop_sensor = io_fb_fl_drop_sensor bytes,
     m_io_fb_rr_impact_sensor = io_fb_rr_impact_sensor bytes,
     m_io_fb_rm_impact_sensor = io_fb_rm_impact_sensor bytes,
     m_io_fb_rl_impact_sensor = io_fb_rl_impact_sensor bytes,
     m_io_fb_fr_impact_sensor = io_fb_fr_impact_sensor bytes,
     m_io_fb_fm_impact_sensor = io_fb_fm_impact_sensor bytes,
     m_io_fb_fl_impact_sensor = io_fb_fl_impact_sensor bytes,
     m_io_fb_speaker = io_fb_speaker bytes,
     m_io_fb_fog_lamp = io_fb_fog_lamp bytes,
     m_io_fb_clearance_lamp = io_fb_clearance_lamp bytes,
     m_io_fb_braking_lamp = io_fb_braking_lamp bytes,
     m_io_fb_turn_lamp = io_fb_turn_lamp bytes,
     m_io_fb_upper_beam_headlamp = io_fb_upper_beam_headlamp bytes,
     m_io_fb_lower_beam_headlamp = io_fb_lower_beam_headlamp bytes,
     m_io_fb_enable = io_fb_enable bytes\<rparr>"

definition veh_fb_diag_fields :: "frame_data \<Rightarrow> veh_fb_diag_msg" where
  "veh_fb_diag_fields bytes = \<lparr>
     m_veh_fb_rdrvmcufault = veh_fb_rdrvmcufault bytes,
     m_veh_fb_ldrvmcufault = veh_fb_ldrvmcufault bytes,
     m_veh_fb_ehboilfault = veh_fb_ehboilfault bytes,
     m_veh_fb_ehboilpresssensorfault = veh_fb_ehboilpresssensorfault bytes,
     m_veh_fb_ehbmotorfault = veh_fb_ehbmotorfault bytes,
     m_veh_fb_ehbsensorabnomal = veh_fb_ehbsensorabnomal bytes,
     m_veh_fb_ehbpowerfault = veh_fb_ehbpowerfault bytes,
     m_veh_fb_ehbot = veh_fb_ehbot bytes,
     m_veh_fb_ehbangulefault = veh_fb_ehbangulefault bytes,
     m_veh_fb_ehbdisen = veh_fb_ehbdisen bytes,
     m_veh_fb_ehbworkmodelfault = veh_fb_ehbworkmodelfault bytes,
     m_veh_fb_epsovercurrent = veh_fb_epsovercurrent bytes,
     m_veh_fb_epsdiswork = veh_fb_epsdiswork bytes,
     m_veh_fb_epswarning = veh_fb_epswarning bytes,
     m_veh_fb_auxremotedisonline = veh_fb_auxremotedisonline bytes,
     m_veh_fb_auxremoteclose = veh_fb_auxremoteclose bytes,
     m_veh_fb_auxbmsdisonline = veh_fb_auxbmsdisonline bytes,
     m_veh_fb_autoiocancmd = veh_fb_autoiocancmd bytes,
     m_veh_fb_autocanctrlcmd = veh_fb_autocanctrlcmd bytes,
     m_veh_fb_infor_check_bcc = veh_fb_infor_check_bcc bytes,
     m_veh_fb_infor_alive_cnt = veh_fb_infor_alive_cnt bytes,
     m_veh_fb_auxscram = veh_fb_auxscram bytes,
     m_veh_fb_ehbdisonline = veh_fb_ehbdisonline bytes,
     m_veh_fb_ehbecufault = veh_fb_ehbecufault bytes,
     m_veh_fb_epsmosfetot = veh_fb_epsmosfetot bytes,
     m_veh_fb_epsfault = veh_fb_epsfault bytes,
     m_veh_fb_epsdisonline = veh_fb_epsdisonline bytes,
     m_veh_fb_faultlevel = veh_fb_faultlevel bytes\<rparr>"

definition Iofb_Parse :: "frame_data \<Rightarrow> 'a mk_mini_detail_scheme \<Rightarrow> 'a mk_mini_detail_scheme" where
  "Iofb_Parse bytes chassis = chassis\<lparr>io_fb_18c4daef := Some (io_fb_fields bytes)\<rparr>"

definition Vehfbdiag_Parse :: "frame_data \<Rightarrow> 'a mk_mini_detail_scheme \<Rightarrow> 'a mk_mini_detail_scheme" where
  "Vehfbdiag_Parse bytes chassis = chassis\<lparr>
     response := \<lparr>is_eps_online = \<not> veh_fb_epsdiswork bytes,
                 is_vcu_online = \<not> veh_fb_autocanctrlcmd bytes\<rparr>,
     veh_fb_diag_18c4eaef := Some (veh_fb_diag_fields bytes)\<rparr>"

section \<open>An accessor reads an Intel signal\<close>

lemma frame_int_nonneg: "0 \<le> frame_int d"
  by (induction d) auto

lemma frame_int_drop: "frame_int d div 2 ^ (8 * k) = frame_int (drop k d)"
proof (induction k arbitrary: d)
  case 0
  then show ?case by simp
next
  case (Suc k)
  show ?case
  proof (cases d)
    case Nil
    then show ?thesis by simp
  next
    case (Cons b bs)
    have "uint b < 256" using unsigned_less [of b] by simp
    then have "frame_int d div 256 = frame_int bs" using Cons by simp
    moreover have "frame_int d div 2 ^ (8 * Suc k) = frame_int d div 256 div 2 ^ (8 * k)"
      by (simp add: zdiv_zmult2_eq power_add)
    ultimately show ?thesis using Suc.IH [of bs] Cons by simp
  qed
qed

lemma get_byte_uint:
  assumes "0 \<le> s" "1 \<le> l" "s + l \<le> 8"
  shows "uint (get_byte v s l) = (uint v div 2 ^ nat s) mod 2 ^ nat l"
proof -
  have "uint (get_byte v s l) = take_bit (nat l) (drop_bit (nat s) (uint v))"
    using assms by (intro bit_eqI) (auto simp: byte_bits valid_field_def bit_simps)
  then show ?thesis by (simp only: take_bit_eq_mod drop_bit_eq_div)
qed

lemma mod_div_narrow:
  fixes a :: int
  assumes "s + l \<le> n"
  shows "((a mod 2 ^ n) div 2 ^ s) mod 2 ^ l = (a div 2 ^ s) mod 2 ^ l"
proof -
  have "take_bit l (drop_bit s (take_bit n a)) = take_bit l (drop_bit s a)"
    using assms by (intro bit_eqI) (auto simp: bit_simps)
  then show ?thesis by (simp only: take_bit_eq_mod drop_bit_eq_div)
qed

lemma get_field_signal:
  assumes "k < length d" "0 \<le> s" "1 \<le> l" "s + l \<le> 8"
  shows "get_field k s l d = intel_signal (8 * k + nat s) (nat l) d"
proof -
  have d: "drop k d = d ! k # drop (Suc k) d" using assms(1) by (simp add: Cons_nth_drop_Suc)
  have "uint (d ! k) < 2 ^ LENGTH(8)" by (rule unsigned_less)
  then have "frame_int (drop k d) mod 2 ^ 8 = uint (d ! k)" by (simp add: d)
  moreover have "((frame_int (drop k d) mod 2 ^ 8) div 2 ^ nat s) mod 2 ^ nat l
      = (frame_int (drop k d) div 2 ^ nat s) mod 2 ^ nat l"
    using assms by (intro mod_div_narrow) (simp add: nat_add_distrib [symmetric] nat_le_iff)
  ultimately have "get_field k s l d = (frame_int (drop k d) div 2 ^ nat s) mod 2 ^ nat l"
    using assms by (simp add: get_field_def get_byte_uint)
  also have "frame_int (drop k d) = frame_int d div 2 ^ (8 * k)" by (simp add: frame_int_drop)
  finally show ?thesis
    by (simp add: intel_signal_def power_add zdiv_zmult2_eq)
qed

text \<open>A signal that crosses one byte boundary is its high part shifted over its low part.\<close>

lemma signal_join:
  "push_bit l0 (intel_signal (b + l0) l1 d) OR intel_signal b l0 d = intel_signal b (l0 + l1) d"
proof -
  have s: "intel_signal b l d = take_bit l (drop_bit b (frame_int d))" for b l
    by (simp add: intel_signal_def take_bit_eq_mod drop_bit_eq_div)
  show ?thesis unfolding s
    by (rule bit_eqI) (auto simp: bit_simps ac_simps)
qed

lemmas io_fb_accessors =
  io_fb_scramst_def
  io_fb_chargeen_def
  io_fb_dischargeflg_def
  io_fb_check_bcc_def
  io_fb_alive_cnt_def
  io_fb_rr_drop_sensor_def
  io_fb_rm_drop_sensor_def
  io_fb_rl_drop_sensor_def
  io_fb_fr_drop_sensor_def
  io_fb_fm_drop_sensor_def
  io_fb_fl_drop_sensor_def
  io_fb_rr_impact_sensor_def
  io_fb_rm_impact_sensor_def
  io_fb_rl_impact_sensor_def
  io_fb_fr_impact_sensor_def
  io_fb_fm_impact_sensor_def
  io_fb_fl_impact_sensor_def
  io_fb_speaker_def
  io_fb_fog_lamp_def
  io_fb_clearance_lamp_def
  io_fb_braking_lamp_def
  io_fb_turn_lamp_def
  io_fb_upper_beam_headlamp_def
  io_fb_lower_beam_headlamp_def
  io_fb_enable_def

lemmas veh_fb_accessors =
  veh_fb_rdrvmcufault_def
  veh_fb_ldrvmcufault_def
  veh_fb_ehboilfault_def
  veh_fb_ehboilpresssensorfault_def
  veh_fb_ehbmotorfault_def
  veh_fb_ehbsensorabnomal_def
  veh_fb_ehbpowerfault_def
  veh_fb_ehbot_def
  veh_fb_ehbangulefault_def
  veh_fb_ehbdisen_def
  veh_fb_ehbworkmodelfault_def
  veh_fb_epsovercurrent_def
  veh_fb_epsdiswork_def
  veh_fb_epswarning_def
  veh_fb_auxremotedisonline_def
  veh_fb_auxremoteclose_def
  veh_fb_auxbmsdisonline_def
  veh_fb_autoiocancmd_def
  veh_fb_autocanctrlcmd_def
  veh_fb_infor_check_bcc_def
  veh_fb_infor_alive_cnt_def
  veh_fb_auxscram_def
  veh_fb_ehbdisonline_def
  veh_fb_ehbecufault_def
  veh_fb_epsmosfetot_def
  veh_fb_epsfault_def
  veh_fb_epsdisonline_def
  veh_fb_faultlevel_def

text \<open>
  Parsing a report frame of eight bytes sets every field of the message to the
  signal at the start bit and of the length the field is documented with, and leaves the rest of
  the chassis detail alone.
\<close>

theorem io_fb_parse_signals:
  assumes "length bytes = 8"
  shows "Iofb_Parse bytes chassis = chassis\<lparr>io_fb_18c4daef := Some \<lparr>
           m_io_fb_scramst = (intel_signal 44 1 bytes \<noteq> 0),
           m_io_fb_chargeen = (intel_signal 41 1 bytes \<noteq> 0),
           m_io_fb_dischargeflg = (intel_signal 40 1 bytes \<noteq> 0),
           m_io_fb_check_bcc = intel_signal 56 8 bytes,
           m_io_fb_alive_cnt = intel_signal 52 4 bytes,
           m_io_fb_rr_drop_sensor = (intel_signal 37 1 bytes \<noteq> 0),
           m_io_fb_rm_drop_sensor = (intel_signal 36 1 bytes \<noteq> 0),
           m_io_fb_rl_drop_sensor = (intel_signal 35 1 bytes \<noteq> 0),
           m_io_fb_fr_drop_sensor = (intel_signal 34 1 bytes \<noteq> 0),
           m_io_fb_fm_drop_sensor = (intel_signal 33 1 bytes \<noteq> 0),
           m_io_fb_fl_drop_sensor = (intel_signal 32 1 bytes \<noteq> 0),
           m_io_fb_rr_impact_sensor = (intel_signal 29 1 bytes \<noteq> 0),
           m_io_fb_rm_impact_sensor = (intel_signal 28 1 bytes \<noteq> 0),
           m_io_fb_rl_impact_sensor = (intel_signal 27 1 bytes \<noteq> 0),
           m_io_fb_fr_impact_sensor = (intel_signal 26 1 bytes \<noteq> 0),
           m_io_fb_fm_impact_sensor = (intel_signal 25 1 bytes \<noteq> 0),
           m_io_fb_fl_impact_sensor = (intel_signal 24 1 bytes \<noteq> 0),
           m_io_fb_speaker = (intel_signal 16 1 bytes \<noteq> 0),
           m_io_fb_fog_lamp = (intel_signal 14 1 bytes \<noteq> 0),
           m_io_fb_clearance_lamp = (intel_signal 13 1 bytes \<noteq> 0),
           m_io_fb_braking_lamp = (intel_signal 12 1 bytes \<noteq> 0),
           m_io_fb_turn_lamp = intel_signal 10 2 bytes,
           m_io_fb_upper_beam_headlamp = (intel_signal 9 1 bytes \<noteq> 0),
           m_io_fb_lower_beam_headlamp = (intel_signal 8 1 bytes \<noteq> 0),
           m_io_fb_enable = (intel_signal 0 1 bytes \<noteq> 0)\<rparr>\<rparr>"
  using assms
  by (simp add: Iofb_Parse_def io_fb_fields_def io_fb_accessors get_field_signal)

theorem io_fb_parse_signals_witness:
  "m_io_fb_alive_cnt (the (io_fb_18c4daef (Iofb_Parse [1, 0, 0, 0, 0, 0, 0xA0, 0] new_detail))) = 10"
proof -
  have l: "length [1, 0, 0, 0, 0, 0, 0xA0, 0 :: u8] = 8" by simp
  show ?thesis
    unfolding io_fb_parse_signals [OF l] by (simp add: intel_signal_def)
qed

text \<open>
  The same for the diagnosis frame, whose right motor fault code crosses a byte
  boundary; the check response reports the steering and the vehicle controller online exactly
  when their fault bits (12 and 4) are clear.
\<close>

theorem veh_fb_diag_parse_signals:
  assumes "length bytes = 8"
  shows "Vehfbdiag_Parse bytes chassis = chassis\<lparr>
       response := \<lparr>is_eps_online = (intel_signal 12 1 bytes = 0),
                   is_vcu_online = (intel_signal 4 1 bytes = 0)\<rparr>,
       veh_fb_diag_18c4eaef := Some \<lparr>
           m_veh_fb_rdrvmcufault = intel_signal 38 6 bytes,
           m_veh_fb_ldrvmcufault = intel_signal 32 6 bytes,
           m_veh_fb_ehboilfault = (intel_signal 30 1 bytes \<noteq> 0),
           m_veh_fb_ehboilpresssensorfault = (intel_signal 29 1 bytes \<noteq> 0),
           m_veh_fb_ehbmotorfault = (intel_signal 28 1 bytes \<noteq> 0),
           m_veh_fb_ehbsensorabnomal = (intel_signal 27 1 bytes \<noteq> 0),
           m_veh_fb_ehbpowerfault = (intel_signal 26 1 bytes \<noteq> 0),
           m_veh_fb_ehbot = (intel_signal 25 1 bytes \<noteq> 0),
           m_veh_fb_ehbangulefault = (intel_signal 24 1 bytes \<noteq> 0),
           m_veh_fb_ehbdisen = (intel_signal 23 1 bytes \<noteq> 0),
           m_veh_fb_ehbworkmodelfault = (intel_signal 22 1 bytes \<noteq> 0),
           m_veh_fb_epsovercurrent = (intel_signal 13 1 bytes \<noteq> 0),
           m_veh_fb_epsdiswork = (intel_signal 12 1 bytes \<noteq> 0),
           m_veh_fb_epswarning = (intel_signal 11 1 bytes \<noteq> 0),
           m_veh_fb_auxremotedisonline = (intel_signal 47 1 bytes \<noteq> 0),
           m_veh_fb_auxremoteclose = (intel_signal 46 1 bytes \<noteq> 0),
           m_veh_fb_auxbmsdisonline = (intel_signal 44 1 bytes \<noteq> 0),
           m_veh_fb_autoiocancmd = (intel_signal 5 1 bytes \<noteq> 0),
           m_veh_fb_autocanctrlcmd = (intel_signal 4 1 bytes \<noteq> 0),
           m_veh_fb_infor_check_bcc = intel_signal 56 8 bytes,
           m_veh_fb_infor_alive_cnt = intel_signal 52 4 bytes,
           m_veh_fb_auxscram = (intel_signal 45 1 bytes \<noteq> 0),
           m_veh_fb_ehbdisonline = (intel_signal 21 1 bytes \<noteq> 0),
           m_veh_fb_ehbecufault = (intel_signal 20 1 bytes \<noteq> 0),
           m_veh_fb_epsmosfetot = (intel_signal 10 1 bytes \<noteq> 0),
           m_veh_fb_epsfault = (intel_signal 9 1 bytes \<noteq> 0),
           m_veh_fb_epsdisonline = (intel_signal 8 1 bytes \<noteq> 0),
           m_veh_fb_faultlevel = intel_signal 0 4 bytes\<rparr>\<rparr>"
proof -
  have j: "push_bit 2 (intel_signal 40 4 bytes) OR intel_signal 38 2 bytes = intel_signal 38 6 bytes"
    using signal_join [of 2 38 4 bytes] by simp
  show ?thesis using assms
    by (simp add: Vehfbdiag_Parse_def veh_fb_diag_fields_def veh_fb_accessors get_field_signal Let_def j)
qed

theorem veh_fb_diag_parse_signals_witness:
  "m_veh_fb_rdrvmcufault (the (veh_fb_diag_18c4eaef
     (Vehfbdiag_Parse [0, 0, 0, 0, 0x40, 0x02, 0, 0] new_detail))) = 9"
proof -
  have l: "length [0, 0, 0, 0, 0x40, 0x02, 0, 0 :: u8] = 8" by simp
  show ?thesis
    unfolding veh_fb_diag_parse_signals [OF l] by (simp add: intel_signal_def)
qed

end
