(* ===== verification/MkMiniIoCmd.thy ===== *)
theory MkMiniIoCmd
  imports CanProtocol
begin

text \<open>
  The lamp and enable command frame of the mk_mini chassis, class \<open>Iocmd18c4d7d0\<close>
  (\<open>modules/canbus/vehicle/mk_mini/protocol/io_cmd_18c4d7d0.cc\<close>). The record holds the members
  of the class and the function-local static counter of \<open>set_p_io_cmd_alive_cnt\<close>, which the
  one instance of the class owns. \<open>UpdateData\<close> writes the members into the frame, in the
  order the code has.
\<close>

section \<open>The command object\<close>

record io_cmd =
  m_io_cmd_discharge :: bool
  m_io_cmd_check_bcc :: int
  m_io_cmd_alive_cnt :: int
  m_io_cmd_speaker :: bool
  m_io_cmd_fog_lamp :: bool
  m_io_cmd_clearance_lamp :: bool
  m_io_cmd_braking_lamp :: bool
  m_io_cmd_turn_lamp :: int
  m_io_cmd_upper_beam_headlamp :: bool
  m_io_cmd_lower_beam_headlamp :: bool
  m_io_cmd_enable :: bool
  alive_static :: u8

text \<open>The constructor runs \<open>Reset\<close>; the static counter starts at zero.\<close>

definition new_io_cmd :: io_cmd where
  "new_io_cmd = \<lparr>
     m_io_cmd_discharge = False,
     m_io_cmd_check_bcc = 0,
     m_io_cmd_alive_cnt = 0,
     m_io_cmd_speaker = False,
     m_io_cmd_fog_lamp = False,
     m_io_cmd_clearance_lamp = False,
     m_io_cmd_braking_lamp = False,
     m_io_cmd_turn_lamp = 0,
     m_io_cmd_upper_beam_headlamp = False,
     m_io_cmd_lower_beam_headlamp = False,
     m_io_cmd_enable = False,
     alive_static = 0\<rparr>"

definition Iocmd_GetPeriod :: int where
  "Iocmd_GetPeriod = 50 * 1000"

definition Iocmd_Reset :: "io_cmd \<Rightarrow> io_cmd" where
  "Iocmd_Reset c = c\<lparr>
     m_io_cmd_discharge := False,
     m_io_cmd_check_bcc := 0,
     m_io_cmd_alive_cnt := 0,
     m_io_cmd_speaker := False,
     m_io_cmd_fog_lamp := False,
     m_io_cmd_clearance_lamp := False,
     m_io_cmd_braking_lamp := False,
     m_io_cmd_turn_lamp := 0,
     m_io_cmd_upper_beam_headlamp := False,
     m_io_cmd_lower_beam_headlamp := False,
     m_io_cmd_enable := False\<rparr>"

definition set_io_cmd_discharge :: "bool \<Rightarrow> io_cmd \<Rightarrow> io_cmd" where
  "set_io_cmd_discharge v c = c\<lparr>m_io_cmd_discharge := v\<rparr>"

definition set_io_cmd_check_bcc :: "int \<Rightarrow> io_cmd \<Rightarrow> io_cmd" where
  "set_io_cmd_check_bcc v c = c\<lparr>m_io_cmd_check_bcc := v\<rparr>"

definition set_io_cmd_alive_cnt :: "int \<Rightarrow> io_cmd \<Rightarrow> io_cmd" where
  "set_io_cmd_alive_cnt v c = c\<lparr>m_io_cmd_alive_cnt := v\<rparr>"

definition set_io_cmd_speaker :: "bool \<Rightarrow> io_cmd \<Rightarrow> io_cmd" where
  "set_io_cmd_speaker v c = c\<lparr>m_io_cmd_speaker := v\<rparr>"

definition set_io_cmd_fog_lamp :: "bool \<Rightarrow> io_cmd \<Rightarrow> io_cmd" where
  "set_io_cmd_fog_lamp v c = c\<lparr>m_io_cmd_fog_lamp := v\<rparr>"

definition set_io_cmd_clearance_lamp :: "bool \<Rightarrow> io_cmd \<Rightarrow> io_cmd" where
  "set_io_cmd_clearance_lamp v c = c\<lparr>m_io_cmd_clearance_lamp := v\<rparr>"

definition set_io_cmd_braking_lamp :: "bool \<Rightarrow> io_cmd \<Rightarrow> io_cmd" where
  "set_io_cmd_braking_lamp v c = c\<lparr>m_io_cmd_braking_lamp := v\<rparr>"

definition set_io_cmd_turn_lamp :: "int \<Rightarrow> io_cmd \<Rightarrow> io_cmd" where
  "set_io_cmd_turn_lamp v c = c\<lparr>m_io_cmd_turn_lamp := v\<rparr>"

definition set_io_cmd_upper_beam_headlamp :: "bool \<Rightarrow> io_cmd \<Rightarrow> io_cmd" where
  "set_io_cmd_upper_beam_headlamp v c = c\<lparr>m_io_cmd_upper_beam_headlamp := v\<rparr>"

definition set_io_cmd_lower_beam_headlamp :: "bool \<Rightarrow> io_cmd \<Rightarrow> io_cmd" where
  "set_io_cmd_lower_beam_headlamp v c = c\<lparr>m_io_cmd_lower_beam_headlamp := v\<rparr>"

definition set_io_cmd_enable :: "bool \<Rightarrow> io_cmd \<Rightarrow> io_cmd" where
  "set_io_cmd_enable v c = c\<lparr>m_io_cmd_enable := v\<rparr>"

section \<open>Writing the frame\<close>

definition set_p_io_cmd_discharge :: "bool \<Rightarrow> frame_data \<Rightarrow> frame_data" where
  "set_p_io_cmd_discharge x d = put_field 5 0 1 (of_bool x) d"

definition set_p_io_cmd_check_bcc :: "frame_data \<Rightarrow> frame_data" where
  "set_p_io_cmd_check_bcc d =
     (let checksum = fold (\<lambda>i c. c XOR d ! i) [0..<7] (0 :: u8)
      in d[7 := set_value (d ! 7) checksum 0 8])"

definition set_p_io_cmd_alive_cnt :: "io_cmd \<Rightarrow> frame_data \<Rightarrow> io_cmd \<times> frame_data" where
  "set_p_io_cmd_alive_cnt c d =
     (let x = (alive_static c + 1) AND 0xF
      in (c\<lparr>alive_static := x\<rparr>, d[6 := set_value (d ! 6) x 4 4]))"

definition set_p_io_cmd_speaker :: "bool \<Rightarrow> frame_data \<Rightarrow> frame_data" where
  "set_p_io_cmd_speaker x d = put_field 2 0 1 (of_bool x) d"

definition set_p_io_cmd_fog_lamp :: "bool \<Rightarrow> frame_data \<Rightarrow> frame_data" where
  "set_p_io_cmd_fog_lamp x d = put_field 1 6 1 (of_bool x) d"

definition set_p_io_cmd_clearance_lamp :: "bool \<Rightarrow> frame_data \<Rightarrow> frame_data" where
  "set_p_io_cmd_clearance_lamp x d = put_field 1 5 1 (of_bool x) d"

definition set_p_io_cmd_braking_lamp :: "bool \<Rightarrow> frame_data \<Rightarrow> frame_data" where
  "set_p_io_cmd_braking_lamp x d = put_field 1 4 1 (of_bool x) d"

definition set_p_io_cmd_turn_lamp :: "int \<Rightarrow> frame_data \<Rightarrow> frame_data" where
  "set_p_io_cmd_turn_lamp io_cmd_turn_lamp d =
     put_field 1 2 2 (BoundedValue 0 0 io_cmd_turn_lamp) d"

definition set_p_io_cmd_upper_beam_headlamp :: "bool \<Rightarrow> frame_data \<Rightarrow> frame_data" where
  "set_p_io_cmd_upper_beam_headlamp x d = put_field 1 1 1 (of_bool x) d"

definition set_p_io_cmd_lower_beam_headlamp :: "bool \<Rightarrow> frame_data \<Rightarrow> frame_data" where
  "set_p_io_cmd_lower_beam_headlamp x d = put_field 1 0 1 (of_bool x) d"

definition set_p_io_cmd_enable :: "bool \<Rightarrow> frame_data \<Rightarrow> frame_data" where
  "set_p_io_cmd_enable x d = put_field 0 0 1 (of_bool x) d"

definition Iocmd_UpdateData :: "io_cmd \<Rightarrow> frame_data \<Rightarrow> io_cmd \<times> frame_data" where
  "Iocmd_UpdateData c d0 =
     (let d1 = set_p_io_cmd_discharge (m_io_cmd_discharge c) d0;
          (c', d2) = set_p_io_cmd_alive_cnt c d1;
          d3 = set_p_io_cmd_check_bcc d2;
          d4 = set_p_io_cmd_speaker (m_io_cmd_speaker c) d3;
          d5 = set_p_io_cmd_fog_lamp (m_io_cmd_fog_lamp c) d4;
          d6 = set_p_io_cmd_clearance_lamp (m_io_cmd_clearance_lamp c) d5;
          d7 = set_p_io_cmd_braking_lamp (m_io_cmd_braking_lamp c) d6;
          d8 = set_p_io_cmd_turn_lamp (m_io_cmd_turn_lamp c) d7;
          d9 = set_p_io_cmd_upper_beam_headlamp (m_io_cmd_upper_beam_headlamp c) d8;
          d10 = set_p_io_cmd_lower_beam_headlamp (m_io_cmd_lower_beam_headlamp c) d9;
          d11 = set_p_io_cmd_enable (m_io_cmd_enable c) d10
      in (c', d11))"

section \<open>Reading the frame\<close>

definition io_cmd_discharge :: "frame_data \<Rightarrow> bool" where
  "io_cmd_discharge bytes \<longleftrightarrow> get_field 5 0 1 bytes \<noteq> 0"

definition io_cmd_check_bcc :: "frame_data \<Rightarrow> int" where
  "io_cmd_check_bcc bytes = get_field 7 0 8 bytes"

definition io_cmd_alive_cnt :: "frame_data \<Rightarrow> int" where
  "io_cmd_alive_cnt bytes = get_field 6 4 4 bytes"

definition io_cmd_speaker :: "frame_data \<Rightarrow> bool" where
  "io_cmd_speaker bytes \<longleftrightarrow> get_field 2 0 1 bytes \<noteq> 0"

definition io_cmd_fog_lamp :: "frame_data \<Rightarrow> bool" where
  "io_cmd_fog_lamp bytes \<longleftrightarrow> get_field 1 6 1 bytes \<noteq> 0"

definition io_cmd_clearance_lamp :: "frame_data \<Rightarrow> bool" where
  "io_cmd_clearance_lamp bytes \<longleftrightarrow> get_field 1 5 1 bytes \<noteq> 0"

definition io_cmd_braking_lamp :: "frame_data \<Rightarrow> bool" where
  "io_cmd_braking_lamp bytes \<longleftrightarrow> get_field 1 4 1 bytes \<noteq> 0"

definition io_cmd_turn_lamp :: "frame_data \<Rightarrow> int" where
  "io_cmd_turn_lamp bytes = get_field 1 2 2 bytes"

definition io_cmd_upper_beam_headlamp :: "frame_data \<Rightarrow> bool" where
  "io_cmd_upper_beam_headlamp bytes \<longleftrightarrow> get_field 1 1 1 bytes \<noteq> 0"

definition io_cmd_lower_beam_headlamp :: "frame_data \<Rightarrow> bool" where
  "io_cmd_lower_beam_headlamp bytes \<longleftrightarrow> get_field 1 0 1 bytes \<noteq> 0"

definition io_cmd_enable :: "frame_data \<Rightarrow> bool" where
  "io_cmd_enable bytes \<longleftrightarrow> get_field 0 0 1 bytes \<noteq> 0"

lemmas io_cmd_writers [op_defs] =
  set_p_io_cmd_discharge_def set_p_io_cmd_alive_cnt_def set_p_io_cmd_check_bcc_def
  set_p_io_cmd_speaker_def set_p_io_cmd_fog_lamp_def set_p_io_cmd_clearance_lamp_def
  set_p_io_cmd_braking_lamp_def set_p_io_cmd_turn_lamp_def set_p_io_cmd_upper_beam_headlamp_def
  set_p_io_cmd_lower_beam_headlamp_def set_p_io_cmd_enable_def

lemmas io_cmd_readers =
  io_cmd_discharge_def io_cmd_check_bcc_def io_cmd_alive_cnt_def io_cmd_speaker_def
  io_cmd_fog_lamp_def io_cmd_clearance_lamp_def io_cmd_braking_lamp_def io_cmd_turn_lamp_def
  io_cmd_upper_beam_headlamp_def io_cmd_lower_beam_headlamp_def io_cmd_enable_def

section \<open>What the frame says after an update\<close>

lemma get_field_update_other [simp]:
  "j \<noteq> k \<Longrightarrow> get_field j s l (d[k := v]) = get_field j s l d"
  by (simp add: get_field_def)

lemma length_Iocmd_UpdateData: "length (snd (Iocmd_UpdateData c d)) = length d"
  by (simp add: Iocmd_UpdateData_def io_cmd_writers Let_def split_def)

lemma of_bool_mod_2 [simp]: "(of_bool b :: int) mod 2 = of_bool b"
  by (cases b) simp_all

lemma alive_written [simp]:
  assumes "6 < length d"
  shows "get_field 6 4 4 (d[6 := set_value v x 4 4]) = uint (x AND 0xF)"
proof -
  have "get_byte (set_value v x 4 4) 4 4 = x AND mask 4"
    using get_set_same [of 4 4 v x] by (simp add: valid_field_def)
  then show ?thesis using assms by (simp add: get_field_def mask_eq_exp_minus_1)
qed

interpretation io_cmd_frame: protocol_data Iocmd_GetPeriod Iocmd_UpdateData
  by unfold_locales (simp_all add: Iocmd_GetPeriod_def length_Iocmd_UpdateData)

text \<open>
  After \<open>UpdateData\<close> every lamp and enable accessor reads back the member, the alive
  counter field is the incremented rolling counter, and the frame keeps its eight bytes; the
  turn lamp field is always zero, whatever was commanded.
\<close>

theorem io_cmd_update_readback:
  assumes "length d = 8"
  shows "let (c', d') = Iocmd_UpdateData c d in
     io_cmd_discharge d' = m_io_cmd_discharge c
   \<and> io_cmd_speaker d' = m_io_cmd_speaker c
   \<and> io_cmd_fog_lamp d' = m_io_cmd_fog_lamp c
   \<and> io_cmd_clearance_lamp d' = m_io_cmd_clearance_lamp c
   \<and> io_cmd_braking_lamp d' = m_io_cmd_braking_lamp c
   \<and> io_cmd_upper_beam_headlamp d' = m_io_cmd_upper_beam_headlamp c
   \<and> io_cmd_lower_beam_headlamp d' = m_io_cmd_lower_beam_headlamp c
   \<and> io_cmd_enable d' = m_io_cmd_enable c
   \<and> alive_static c' = (alive_static c + 1) AND 0xF
   \<and> io_cmd_alive_cnt d' = uint (alive_static c')
   \<and> io_cmd_turn_lamp d' = 0
   \<and> length d' = 8"
  using assms
  by (simp add: Iocmd_UpdateData_def io_cmd_writers io_cmd_readers Let_def split_def
      and.assoc BoundedValue_def)

theorem io_cmd_update_readback_witness:
  "io_cmd_enable (snd (Iocmd_UpdateData (set_io_cmd_enable True new_io_cmd) (replicate 8 0)))
   \<and> io_cmd_turn_lamp (snd (Iocmd_UpdateData (set_io_cmd_turn_lamp 1 new_io_cmd) (replicate 8 0))) = 0"
  using io_cmd_update_readback [of "replicate 8 0" "set_io_cmd_enable True new_io_cmd"]
    io_cmd_update_readback [of "replicate 8 0" "set_io_cmd_turn_lamp 1 new_io_cmd"]
  by (simp add: Let_def split_def set_io_cmd_enable_def)

section \<open>The check byte\<close>

text \<open>The receiver accepts a frame whose last byte is the exclusive or of the first seven.\<close>

definition bcc_ok :: "frame_data \<Rightarrow> bool" where
  "bcc_ok d \<longleftrightarrow> d ! 7 = d ! 0 XOR d ! 1 XOR d ! 2 XOR d ! 3 XOR d ! 4 XOR d ! 5 XOR d ! 6"

lemma xor_cancel_right: "(a XOR z = b XOR z) = (a = (b :: u8))"
  by (metis xor.assoc xor.right_neutral xor_self_eq)

lemma upt_7: "[0..<7] = [0, 1, 2, 3, 4, 5, 6 :: nat]"
  by (simp add: upt_rec)

lemma set_p_bcc_byte:
  assumes "length d = 8"
  shows "set_p_io_cmd_check_bcc d =
    d[7 := d ! 0 XOR d ! 1 XOR d ! 2 XOR d ! 3 XOR d ! 4 XOR d ! 5 XOR d ! 6]"
  by (simp add: set_p_io_cmd_check_bcc_def upt_7 set_value_full xor.assoc)

lemma list_8: "length d = 8 \<Longrightarrow> \<exists>b0 b1 b2 b3 b4 b5 b6 b7. d = [b0, b1, b2, b3, b4, b5, b6, b7]"
  by (auto simp: numeral_eq_Suc length_Suc_conv)

text \<open>The bytes of an updated frame: 0 to 2 are written after the check byte was computed.\<close>

lemma Iocmd_UpdateData_bytes:
  assumes "length d = 8" and "snd (Iocmd_UpdateData c d) = d'"
  shows "d' ! 7 = d ! 0 XOR d ! 1 XOR d ! 2 XOR d ! 3 XOR d ! 4 XOR d' ! 5 XOR d' ! 6"
    and "d' ! 3 = d ! 3" and "d' ! 4 = d ! 4"
proof -
  define d2 where "d2 = snd (set_p_io_cmd_alive_cnt c
      (set_p_io_cmd_discharge (m_io_cmd_discharge c) d))"
  have len: "length d2 = 8"
    using assms(1) by (simp add: d2_def set_p_io_cmd_alive_cnt_def set_p_io_cmd_discharge_def Let_def)
  have same: "d2 ! i = d ! i" if "i < 5" for i
    using that by (simp add: d2_def set_p_io_cmd_alive_cnt_def set_p_io_cmd_discharge_def Let_def)
  have d': "d' = put_field 0 0 1 (of_bool (m_io_cmd_enable c))
      (put_field 1 0 1 (of_bool (m_io_cmd_lower_beam_headlamp c))
      (put_field 1 1 1 (of_bool (m_io_cmd_upper_beam_headlamp c))
      (put_field 1 2 2 (BoundedValue 0 0 (m_io_cmd_turn_lamp c))
      (put_field 1 4 1 (of_bool (m_io_cmd_braking_lamp c))
      (put_field 1 5 1 (of_bool (m_io_cmd_clearance_lamp c))
      (put_field 1 6 1 (of_bool (m_io_cmd_fog_lamp c))
      (put_field 2 0 1 (of_bool (m_io_cmd_speaker c))
      (set_p_io_cmd_check_bcc d2))))))))"
    using assms(2) unfolding d2_def
    by (simp add: Iocmd_UpdateData_def Let_def split_def set_p_io_cmd_speaker_def
        set_p_io_cmd_fog_lamp_def set_p_io_cmd_clearance_lamp_def set_p_io_cmd_braking_lamp_def
        set_p_io_cmd_turn_lamp_def set_p_io_cmd_upper_beam_headlamp_def
        set_p_io_cmd_lower_beam_headlamp_def set_p_io_cmd_enable_def)
  have hi: "d' ! i = set_p_io_cmd_check_bcc d2 ! i" if "2 < i" for i
    using that unfolding d' by simp
  show "d' ! 7 = d ! 0 XOR d ! 1 XOR d ! 2 XOR d ! 3 XOR d ! 4 XOR d' ! 5 XOR d' ! 6"
    by (simp add: hi set_p_bcc_byte len same)
  show "d' ! 3 = d ! 3" and "d' ! 4 = d ! 4"
    by (simp_all add: hi set_p_bcc_byte len same)
qed

text \<open>
  \<open>UpdateData\<close> computes the check byte before it writes bytes 0 to 2, so the frame it
  leaves is one the receiver accepts exactly when the exclusive or of those three bytes did not
  change: a frame that carries a changed lamp or enable command carries the check byte of the
  old command.
\<close>

theorem io_cmd_bcc_stale_iff:
  assumes "length d = 8" and "snd (Iocmd_UpdateData c d) = d'"
  shows "bcc_ok d' \<longleftrightarrow> d ! 0 XOR d ! 1 XOR d ! 2 = d' ! 0 XOR d' ! 1 XOR d' ! 2"
proof -
  let ?z = "d ! 3 XOR d ! 4 XOR d' ! 5 XOR d' ! 6"
  have "bcc_ok d' \<longleftrightarrow> (d ! 0 XOR d ! 1 XOR d ! 2) XOR ?z = (d' ! 0 XOR d' ! 1 XOR d' ! 2) XOR ?z"
    unfolding bcc_ok_def Iocmd_UpdateData_bytes [OF assms] by (simp add: xor.assoc)
  then show ?thesis by (simp only: xor_cancel_right)
qed

theorem io_cmd_bcc_stale_iff_witness:
  "\<not> bcc_ok (snd (Iocmd_UpdateData (set_io_cmd_enable True new_io_cmd) (replicate 8 0)))"
proof -
  have d: "snd (Iocmd_UpdateData (set_io_cmd_enable True new_io_cmd) (replicate 8 0))
      = [1, 0, 0, 0, 0, 0, 0x10, 0x10]" by code_simp
  show ?thesis
    unfolding io_cmd_bcc_stale_iff [OF length_replicate refl] unfolding d by simp
qed

end
