(* ===== verification/CanSender.thy ===== *)
theory CanSender
  imports CanProtocol
begin

text \<open>
  The CAN sender (\<open>modules/drivers/canbus/can_comm/can_sender.h\<close>): messages with a countdown in
  microseconds, and the sending thread that sleeps until the next countdown ends. A pointer to
  a protocol object is an optional object (None is \<open>nullptr\<close>); the objects stay outside the
  sender, as in the code, and \<open>Update\<close> takes them and returns them changed. Countdowns are
  \<open>int32_t\<close> values bounded by the periods, far from the ends of their range.
\<close>

section \<open>Messages\<close>

record sender_message =
  message_id :: u32
  period :: int
  curr_period :: int
  can_frame_to_send :: can_frame
  can_frame_to_update :: can_frame

definition SenderMessage_Update ::
  "('p \<Rightarrow> frame_data \<Rightarrow> 'p \<times> frame_data) \<Rightarrow> 'p option \<Rightarrow> sender_message \<Rightarrow> 'p option \<times> sender_message"
where
  "SenderMessage_Update UpdateData protocol m =
     (case protocol of
        None \<Rightarrow> (None, m)
      | Some p \<Rightarrow>
          let (p', d) = UpdateData p (frame_bytes (can_frame_to_update m));
              fr = (can_frame_to_update m)\<lparr>frame_bytes := d\<rparr>
          in (Some p', m\<lparr>can_frame_to_update := fr, can_frame_to_send := fr\<rparr>))"

text \<open>The constructor: the frame is zeroed by \<open>CanFrame()\<close>, filled with ones on request, updated.\<close>

definition new_SenderMessage ::
  "int \<Rightarrow> ('p \<Rightarrow> frame_data \<Rightarrow> 'p \<times> frame_data) \<Rightarrow> u32 \<Rightarrow> 'p \<Rightarrow> bool \<Rightarrow> 'p option \<times> sender_message"
where
  "new_SenderMessage GetPeriod UpdateData mid p init_with_one =
     (let len = protocol_GetLength;
          bytes = (if init_with_one then replicate len 0xFF @ drop len (frame_bytes new_can_frame)
                   else frame_bytes new_can_frame);
          fr = \<lparr>frame_id = mid, frame_len = of_nat len, frame_bytes = bytes\<rparr>
      in SenderMessage_Update UpdateData (Some p)
           \<lparr>message_id = mid, period = GetPeriod, curr_period = GetPeriod,
            can_frame_to_send = new_can_frame, can_frame_to_update = fr\<rparr>)"

definition UpdateCurrPeriod :: "int \<Rightarrow> sender_message \<Rightarrow> sender_message" where
  "UpdateCurrPeriod period_delta m =
     (let c = curr_period m - period_delta
      in m\<lparr>curr_period := (if c \<le> 0 then period m else c)\<rparr>)"

definition CanFrame :: "sender_message \<Rightarrow> can_frame" where
  "CanFrame m = can_frame_to_send m"

definition NeedSend :: "sender_message \<Rightarrow> int \<Rightarrow> bool" where
  "NeedSend m delta_period \<longleftrightarrow> curr_period m \<le> delta_period"

section \<open>The sending thread\<close>

definition INIT_PERIOD :: int where
  "INIT_PERIOD = 5000"

text \<open>
  The loop over \<open>send_messages_\<close>: the messages after the pass, the frames handed to
  \<open>SendSingleFrame\<close> (whose result is only logged), and the new \<open>new_delta_period\<close>.
\<close>

fun send_pass :: "int \<Rightarrow> int \<Rightarrow> sender_message list \<Rightarrow> sender_message list \<times> can_frame list \<times> int" where
  "send_pass delta new_delta [] = ([], [], new_delta)"
| "send_pass delta new_delta (m # ms) =
     (let need_send = NeedSend m delta;
          m' = UpdateCurrPeriod delta m;
          new_delta' = min new_delta (curr_period m');
          (ms', frames, d) = send_pass delta new_delta' ms
      in (m' # ms', (if need_send then CanFrame m' # frames else frames), d))"

definition send_iteration :: "int \<Rightarrow> sender_message list \<Rightarrow> sender_message list \<times> can_frame list \<times> int" where
  "send_iteration delta_period ms = send_pass delta_period INIT_PERIOD ms"

text \<open>How long an iteration sleeps: None when its work took longer than the period.\<close>

definition sleep_interval :: "int \<Rightarrow> int \<Rightarrow> int \<Rightarrow> int option" where
  "sleep_interval delta_period tm_start tm_end =
     (let s = delta_period - (tm_end - tm_start) in if s > 0 then Some s else None)"

section \<open>The sender object\<close>

datatype error_code = OK | CANBUS_ERROR

record can_sender =
  is_init :: bool
  is_running :: bool
  can_client_set :: bool
  send_messages :: "sender_message list"
  enable_log :: bool

definition new_can_sender :: can_sender where
  "new_can_sender = \<lparr>is_init = False, is_running = False, can_client_set = False,
     send_messages = [], enable_log = False\<rparr>"

definition CanSender_Init :: "bool \<Rightarrow> bool \<Rightarrow> can_sender \<Rightarrow> error_code \<times> can_sender" where
  "CanSender_Init can_client_not_null log s =
     (if is_init s then (CANBUS_ERROR, s)
      else if \<not> can_client_not_null then (CANBUS_ERROR, s)
      else (OK, s\<lparr>is_init := True, can_client_set := True, enable_log := log\<rparr>))"

definition CanSender_AddMessage ::
  "int \<Rightarrow> ('p \<Rightarrow> frame_data \<Rightarrow> 'p \<times> frame_data) \<Rightarrow> u32 \<Rightarrow> 'p option \<Rightarrow> bool \<Rightarrow> can_sender
     \<Rightarrow> 'p option \<times> can_sender"
where
  "CanSender_AddMessage GetPeriod UpdateData mid protocol init_with_one s =
     (case protocol of
        None \<Rightarrow> (None, s)
      | Some p \<Rightarrow>
          let (p', m) = new_SenderMessage GetPeriod UpdateData mid p init_with_one
          in (p', s\<lparr>send_messages := send_messages s @ [m]\<rparr>))"

definition CanSender_Start :: "can_sender \<Rightarrow> error_code \<times> can_sender" where
  "CanSender_Start s =
     (if is_running s then (CANBUS_ERROR, s) else (OK, s\<lparr>is_running := True\<rparr>))"

definition CanSender_Stop :: "can_sender \<Rightarrow> can_sender" where
  "CanSender_Stop s = (if is_running s then s\<lparr>is_running := False\<rparr> else s)"

text \<open>\<open>Update\<close> of the sender: every message from its protocol object, in order.\<close>

fun update_messages ::
  "('p \<Rightarrow> frame_data \<Rightarrow> 'p \<times> frame_data) \<Rightarrow> (u32 \<rightharpoonup> 'p) \<Rightarrow> sender_message list
     \<Rightarrow> (u32 \<rightharpoonup> 'p) \<times> sender_message list"
where
  "update_messages UpdateData objs [] = (objs, [])"
| "update_messages UpdateData objs (m # ms) =
     (let (p', m') = SenderMessage_Update UpdateData (objs (message_id m)) m;
          (objs', ms') = update_messages UpdateData (objs(message_id m := p')) ms
      in (objs', m' # ms'))"

lemmas sender_ops [op_defs] =
  UpdateCurrPeriod_def NeedSend_def CanFrame_def send_iteration_def

section \<open>Running the thread\<close>

text \<open>
  \<open>n\<close> iterations from a given \<open>delta_period\<close>; the time that passed is the sum of the deltas used,
  and \<open>sends i\<close> counts the iterations that send message \<open>i\<close>.
\<close>

fun run_thread :: "nat \<Rightarrow> int \<Rightarrow> sender_message list \<Rightarrow> sender_message list \<times> int" where
  "run_thread 0 delta ms = (ms, delta)"
| "run_thread (Suc n) delta ms =
     (let (ms', _, delta') = send_iteration delta ms in run_thread n delta' ms')"

fun elapsed :: "nat \<Rightarrow> int \<Rightarrow> sender_message list \<Rightarrow> int" where
  "elapsed 0 delta ms = 0"
| "elapsed (Suc n) delta ms =
     (let (ms', _, delta') = send_iteration delta ms in delta + elapsed n delta' ms')"

fun sends :: "nat \<Rightarrow> nat \<Rightarrow> int \<Rightarrow> sender_message list \<Rightarrow> nat" where
  "sends i 0 delta ms = 0"
| "sends i (Suc n) delta ms =
     (let (ms', _, delta') = send_iteration delta ms
      in (if NeedSend (ms ! i) delta then 1 else 0) + sends i n delta' ms')"

section \<open>One pass over the messages\<close>

lemma send_pass_messages: "fst (send_pass delta nd ms) = map (UpdateCurrPeriod delta) ms"
  by (induction ms arbitrary: nd) (auto simp: Let_def split_def)

lemma send_pass_frames:
  "fst (snd (send_pass delta nd ms)) = map CanFrame (filter (\<lambda>m. NeedSend m delta) ms)"
  by (induction ms arbitrary: nd) (auto simp: Let_def split_def CanFrame_def UpdateCurrPeriod_def)

lemma send_pass_delta:
  "snd (snd (send_pass delta nd ms)) = fold (\<lambda>m d. min d (curr_period (UpdateCurrPeriod delta m))) ms nd"
  by (induction ms arbitrary: nd) (auto simp: Let_def split_def)

lemma fold_min_le:
  "fold (\<lambda>m d. min d (f m)) ms nd \<le> (nd :: int)
   \<and> (\<forall>m \<in> set ms. fold (\<lambda>m d. min d (f m)) ms nd \<le> f m)"
proof (induction ms arbitrary: nd)
  case Nil
  then show ?case by simp
next
  case (Cons a ms)
  from Cons.IH [of "min nd (f a)"] show ?case by auto
qed

lemma fold_min_pos: "0 < (nd :: int) \<Longrightarrow> \<forall>m \<in> set ms. 0 < f m \<Longrightarrow> 0 < fold (\<lambda>m d. min d (f m)) ms nd"
  by (induction ms arbitrary: nd) auto

text \<open>
  The invariant of the thread: the next wake-up is not later than any countdown, and every
  countdown is between 1 and its period.
\<close>

definition on_time :: "int \<Rightarrow> sender_message list \<Rightarrow> bool" where
  "on_time delta ms \<longleftrightarrow> 0 < delta \<and> delta \<le> INIT_PERIOD \<and>
     (\<forall>m \<in> set ms. delta \<le> curr_period m \<and> curr_period m \<le> period m)"

lemma UpdateCurrPeriod_on_time:
  assumes "0 < delta" "delta \<le> curr_period m" "curr_period m \<le> period m"
  shows "0 < curr_period (UpdateCurrPeriod delta m)"
    and "curr_period (UpdateCurrPeriod delta m) \<le> period m"
    and "curr_period (UpdateCurrPeriod delta m)
           = curr_period m - delta + (if NeedSend m delta then period m else 0)"
  using assms by (auto simp: UpdateCurrPeriod_def NeedSend_def Let_def)

lemma period_UpdateCurrPeriod [simp]: "period (UpdateCurrPeriod delta m) = period m"
  by (simp add: UpdateCurrPeriod_def Let_def)

lemma send_iteration_on_time [inv_intros]:
  assumes "on_time delta ms" and "send_iteration delta ms = (ms', frames, delta')"
  shows "on_time delta' ms'"
proof -
  have ms': "ms' = map (UpdateCurrPeriod delta) ms"
    using assms(2) send_pass_messages [of delta INIT_PERIOD ms] by (simp add: send_iteration_def)
  have d': "delta' = fold (\<lambda>m d. min d (curr_period (UpdateCurrPeriod delta m))) ms INIT_PERIOD"
    using assms(2) send_pass_delta [of delta INIT_PERIOD ms] by (simp add: send_iteration_def)
  have pos: "\<forall>m \<in> set ms. 0 < curr_period (UpdateCurrPeriod delta m)"
    using assms(1) UpdateCurrPeriod_on_time(1) by (auto simp: on_time_def)
  have "0 < delta'" unfolding d' by (rule fold_min_pos) (use pos in \<open>simp_all add: INIT_PERIOD_def\<close>)
  moreover have "delta' \<le> INIT_PERIOD"
    unfolding d' by (rule fold_min_le [THEN conjunct1])
  moreover have "\<forall>m \<in> set ms. delta' \<le> curr_period (UpdateCurrPeriod delta m)"
    unfolding d' by (rule fold_min_le [THEN conjunct2])
  ultimately show ?thesis
    using assms(1) UpdateCurrPeriod_on_time(2) by (auto simp: on_time_def ms')
qed

lemma run_thread_on_time: "on_time delta ms \<Longrightarrow> run_thread n delta ms = (ms', delta') \<Longrightarrow> on_time delta' ms'"
proof (induction n arbitrary: delta ms)
  case 0
  then show ?case by simp
next
  case (Suc n)
  obtain ms1 fr d1 where it: "send_iteration delta ms = (ms1, fr, d1)" by (metis prod_cases3)
  with Suc show ?case using send_iteration_on_time [OF Suc.prems(1) it] by simp
qed

lemma send_iteration_nth:
  assumes "send_iteration delta ms = (ms', fr, d')" "i < length ms"
  shows "ms' ! i = UpdateCurrPeriod delta (ms ! i)" and "length ms' = length ms"
  using assms send_pass_messages [of delta INIT_PERIOD ms] by (auto simp: send_iteration_def)

lemma run_thread_length: "run_thread n delta ms = (ms', delta') \<Longrightarrow> length ms' = length ms"
proof (induction n arbitrary: delta ms)
  case 0
  then show ?case by simp
next
  case (Suc n)
  obtain ms1 fr d1 where it: "send_iteration delta ms = (ms1, fr, d1)" by (metis prod_cases3)
  have "length ms1 = length ms"
    using it send_pass_messages [of delta INIT_PERIOD ms] by (simp add: send_iteration_def)
  with Suc it show ?case by simp
qed

lemma schedule_balance:
  assumes "on_time delta ms" and "i < length ms" and "run_thread n delta ms = (ms', delta')"
  shows "int (sends i n delta ms) * period (ms ! i)
           = elapsed n delta ms + curr_period (ms' ! i) - curr_period (ms ! i)"
  using assms
proof (induction n arbitrary: delta ms)
  case 0
  then show ?case by simp
next
  case (Suc n)
  obtain ms1 fr d1 where it: "send_iteration delta ms = (ms1, fr, d1)" by (metis prod_cases3)
  note nth = send_iteration_nth [OF it Suc.prems(2)]
  have "on_time d1 ms1" using Suc.prems(1) it by (rule send_iteration_on_time)
  moreover have "run_thread n d1 ms1 = (ms', delta')" using Suc.prems(3) it by simp
  ultimately have IH: "int (sends i n d1 ms1) * period (ms1 ! i)
      = elapsed n d1 ms1 + curr_period (ms' ! i) - curr_period (ms1 ! i)"
    using Suc.IH Suc.prems(2) nth(2) by simp
  have m: "ms ! i \<in> set ms" using Suc.prems(2) by simp
  then have step: "curr_period (ms1 ! i)
      = curr_period (ms ! i) - delta + (if NeedSend (ms ! i) delta then period (ms ! i) else 0)"
    using Suc.prems(1) UpdateCurrPeriod_on_time(3) [of delta "ms ! i"] nth(1)
    by (auto simp: on_time_def)
  show ?case using IH step it nth(1) by (auto simp: algebra_simps)
qed

lemma run_thread_periods: "run_thread n delta ms = (ms', delta') \<Longrightarrow> map period ms' = map period ms"
proof (induction n arbitrary: delta ms)
  case 0
  then show ?case by simp
next
  case (Suc n)
  obtain ms1 fr d1 where it: "send_iteration delta ms = (ms1, fr, d1)" by (metis prod_cases3)
  then have "map period ms1 = map period ms"
    using send_pass_messages [of delta INIT_PERIOD ms] by (simp add: send_iteration_def)
  with Suc it show ?case by simp
qed

section \<open>Messages of a protocol with the interface's laws\<close>

context protocol_data
begin

lemma SenderMessage_Update_frame:
  assumes "frame_data_ok (frame_bytes (can_frame_to_update m))"
    and "SenderMessage_Update UpdateData (Some p) m = (p', m')"
  shows "can_frame_to_send m' = can_frame_to_update m'"
    and "frame_bytes (CanFrame m') = snd (UpdateData p (frame_bytes (can_frame_to_update m)))"
    and "frame_data_ok (frame_bytes (CanFrame m'))"
  using assms UpdateData_frame_ok by (auto simp: SenderMessage_Update_def CanFrame_def split_def Let_def)

lemma new_SenderMessage_frame:
  assumes "new_SenderMessage GetPeriod UpdateData mid p one = (p', m)"
  shows "frame_data_ok (frame_bytes (CanFrame m))"
    and "frame_id (CanFrame m) = mid" and "frame_len (CanFrame m) = 8"
    and "period m = GetPeriod" and "curr_period m = GetPeriod"
  using assms
  by (auto simp: new_SenderMessage_def SenderMessage_Update_def CanFrame_def split_def Let_def
      frame_data_ok_def UpdateData_length protocol_GetLength_def CANBUS_MESSAGE_LENGTH_def new_can_frame_def)

lemma AddMessage_on_time:
  assumes "on_time INIT_PERIOD (send_messages s)" and "INIT_PERIOD \<le> GetPeriod"
    and "CanSender_AddMessage GetPeriod UpdateData mid (Some p) one s = (p', s')"
  shows "on_time INIT_PERIOD (send_messages s')"
  using assms new_SenderMessage_frame(4,5) [of mid p one]
  by (auto simp: CanSender_AddMessage_def on_time_def split_def Let_def)
    (metis order_refl prod.collapse)+

end

text \<open>A sender starts with no message, so its thread starts on time.\<close>

lemma new_can_sender_on_time [inv_intros]: "on_time INIT_PERIOD (send_messages new_can_sender)"
  by (simp add: on_time_def new_can_sender_def INIT_PERIOD_def)

section \<open>The schedule\<close>

text \<open>
  Property C38. From the moment every countdown is at least the thread's wake-up interval (which
  holds at the start for periods of 5 ms and more), the number of times a message has been sent
  after any number of iterations is exactly the elapsed time plus the part of its period already
  counted down, divided by its period: it is sent once per period, with no drift and no loss,
  and the thread's next interval stays positive and at most 5 ms.
\<close>

theorem sender_keeps_periods:
  assumes "on_time delta ms" and "i < length ms" and "run_thread n delta ms = (ms', delta')"
  shows "0 < delta' \<and> delta' \<le> 5000 \<and>
    int (sends i n delta ms)
      = (elapsed n delta ms + (period (ms ! i) - curr_period (ms ! i))) div period (ms ! i)"
proof -
  have inv: "on_time delta' ms'" using assms(1,3) by (rule run_thread_on_time)
  let ?p = "period (ms ! i)" and ?c = "curr_period (ms' ! i)"
  have len: "i < length ms'" using assms(2,3) run_thread_length by metis
  then have "period (ms' ! i) = ?p"
    using run_thread_periods [OF assms(3)] assms(2) by (metis nth_map)
  then have c: "0 < ?c" "?c \<le> ?p"
    using inv nth_mem [OF len] by (auto simp: on_time_def)
  have "elapsed n delta ms + (?p - curr_period (ms ! i))
      = (?p - ?c) + int (sends i n delta ms) * ?p"
    using schedule_balance [OF assms] by arith
  also have "\<dots> div ?p = int (sends i n delta ms)"
    using c by simp
  finally show ?thesis using inv by (simp add: on_time_def INIT_PERIOD_def)
qed

theorem sender_keeps_periods_witness:
  "sends 0 2 5000 [\<lparr>message_id = 0x18C4D7D0, period = 6000, curr_period = 6000,
     can_frame_to_send = new_can_frame, can_frame_to_update = new_can_frame\<rparr>] = 1"
proof -
  let ?ms = "[\<lparr>message_id = 0x18C4D7D0, period = 6000, curr_period = 6000,
     can_frame_to_send = new_can_frame, can_frame_to_update = new_can_frame\<rparr>]"
  have ot: "on_time 5000 ?ms" by (simp add: on_time_def INIT_PERIOD_def)
  have i: "0 < length ?ms" by simp
  have el: "elapsed 2 5000 ?ms = 6000"
    by (simp add: numeral_2_eq_2 send_iteration_def NeedSend_def UpdateCurrPeriod_def INIT_PERIOD_def)
  have "int (sends 0 2 5000 ?ms) = 1"
    using sender_keeps_periods [OF ot i surjective_pairing [of "run_thread 2 5000 ?ms"]] el by simp
  then show ?thesis by simp
qed

end
