(* ===== verification/CanManager.thy ===== *)
theory CanManager
  imports Complex_Main CanSender
begin

text \<open>
  The receiving side: the message manager (\<open>modules/drivers/canbus/can_comm/message_manager.h\<close>)
  and the receiving thread (\<open>can_receiver.h\<close>). The manager owns protocol objects through
  \<open>unique_ptr\<close> vectors and reaches them through a map of raw pointers: the objects are a list of
  \<open>'o\<close> values and a pointer is an index in it, so that two ids, or an id and the list of the
  send messages, can name the same object. The virtual methods of an object are arguments.
  Times are the microseconds of the clock, read by the caller; \<open>double\<close> ratios are rationals.
\<close>

section \<open>State\<close>

record check_id_arg =
  arg_period :: int
  real_period :: int
  last_time :: int
  error_count :: int

record ('o, 's) message_manager =
  objects :: "'o list"
  send_protocol_data :: "nat list"
  recv_protocol_data :: "nat list"
  protocol_data_map :: "u32 \<rightharpoonup> nat"
  check_ids :: "u32 \<rightharpoonup> check_id_arg"
  received_ids :: "u32 set"
  sensor_data :: 's

definition new_message_manager :: "'s \<Rightarrow> ('o, 's) message_manager" where
  "new_message_manager s = \<lparr>objects = [], send_protocol_data = [], recv_protocol_data = [],
     protocol_data_map = (\<lambda>_. None), check_ids = (\<lambda>_. None), received_ids = {}, sensor_data = s\<rparr>"

section \<open>Operations\<close>

definition new_check_id_arg :: "int \<Rightarrow> check_id_arg" where
  "new_check_id_arg p = \<lparr>arg_period = p, real_period = 0, last_time = 0, error_count = 0\<rparr>"

definition AddRecvProtocolData ::
  "('o \<Rightarrow> int) \<Rightarrow> u32 \<Rightarrow> 'o \<Rightarrow> bool \<Rightarrow> ('o, 's) message_manager \<Rightarrow> ('o, 's) message_manager"
where
  "AddRecvProtocolData GetPeriod ID dt need_check m =
     (let p = length (objects m);
          m1 = m\<lparr>objects := objects m @ [dt],
                 recv_protocol_data := recv_protocol_data m @ [p],
                 protocol_data_map := (protocol_data_map m)(ID \<mapsto> p)\<rparr>
      in if need_check then m1\<lparr>check_ids := (check_ids m)(ID \<mapsto> new_check_id_arg (GetPeriod dt))\<rparr>
         else m1)"

definition AddSendProtocolData ::
  "('o \<Rightarrow> int) \<Rightarrow> u32 \<Rightarrow> 'o \<Rightarrow> bool \<Rightarrow> ('o, 's) message_manager \<Rightarrow> ('o, 's) message_manager"
where
  "AddSendProtocolData GetPeriod ID dt need_check m =
     (let p = length (objects m);
          m1 = m\<lparr>objects := objects m @ [dt],
                 send_protocol_data := send_protocol_data m @ [p],
                 protocol_data_map := (protocol_data_map m)(ID \<mapsto> p)\<rparr>
      in if need_check then m1\<lparr>check_ids := (check_ids m)(ID \<mapsto> new_check_id_arg (GetPeriod dt))\<rparr>
         else m1)"

definition GetMutableProtocolDataById :: "('o, 's) message_manager \<Rightarrow> u32 \<Rightarrow> nat option" where
  "GetMutableProtocolDataById m mid = protocol_data_map m mid"

text \<open>\<open>static_cast<double>(real_period) > static_cast<double>(period) * 1.5\<close>, in integers.\<close>

definition is_late :: "int \<Rightarrow> int \<Rightarrow> bool" where
  "is_late gap p \<longleftrightarrow> 2 * gap > 3 * p"

definition check_period :: "int \<Rightarrow> check_id_arg \<Rightarrow> check_id_arg" where
  "check_period time a =
     (let gap = time - last_time a
      in a\<lparr>real_period := gap,
           error_count := (if is_late gap (arg_period a) then error_count a + 1 else 0),
           last_time := time\<rparr>)"

definition MessageManager_Parse ::
  "('o \<Rightarrow> frame_data \<Rightarrow> int \<Rightarrow> 's \<Rightarrow> 'o \<times> 's) \<Rightarrow> int \<Rightarrow> u32 \<Rightarrow> frame_data \<Rightarrow> int
     \<Rightarrow> ('o, 's) message_manager \<Rightarrow> ('o, 's) message_manager"
where
  "MessageManager_Parse ParseData time mid data len m =
     (case GetMutableProtocolDataById m mid of
        None \<Rightarrow> m
      | Some p \<Rightarrow>
          let (o', s') = ParseData (objects m ! p) data len (sensor_data m);
              m1 = m\<lparr>objects := (objects m)[p := o'], sensor_data := s',
                     received_ids := insert mid (received_ids m)\<rparr>
          in case check_ids m mid of
               None \<Rightarrow> m1
             | Some a \<Rightarrow> m1\<lparr>check_ids := (check_ids m)(mid \<mapsto> check_period time a)\<rparr>)"

definition ClearSensorData :: "'s \<Rightarrow> ('o, 's) message_manager \<Rightarrow> ('o, 's) message_manager" where
  "ClearSensorData cleared m = m\<lparr>sensor_data := cleared\<rparr>"

text \<open>The destination is None when the caller passes \<open>nullptr\<close>; else it is overwritten.\<close>

definition GetSensorData :: "('o, 's) message_manager \<Rightarrow> 's option \<Rightarrow> error_code \<times> 's option" where
  "GetSensorData m dest =
     (case dest of None \<Rightarrow> (CANBUS_ERROR, None) | Some _ \<Rightarrow> (OK, Some (sensor_data m)))"

definition GetCurrentLatencyById :: "int \<Rightarrow> ('o, 's) message_manager \<Rightarrow> u32 \<Rightarrow> int" where
  "GetCurrentLatencyById now m mid =
     (case check_ids m mid of None \<Rightarrow> -1 | Some a \<Rightarrow> now - last_time a)"

definition GetPeriodById :: "('o, 's) message_manager \<Rightarrow> u32 \<Rightarrow> int" where
  "GetPeriodById m mid =
     (case check_ids m mid of None \<Rightarrow> -1 | Some a \<Rightarrow> arg_period a)"

definition CheckMessageTimeout :: "int \<Rightarrow> ('o, 's) message_manager \<Rightarrow> u32 \<Rightarrow> rat \<Rightarrow> bool" where
  "CheckMessageTimeout now m mid timeout_threshold_ratio =
     (let latency = GetCurrentLatencyById now m mid;
          p = GetPeriodById m mid
      in if latency < 0 \<or> p < 0 then False
         else if of_int (latency - p) > timeout_threshold_ratio * of_int p then False
         else True)"

definition ResetSendMessages :: "('o \<Rightarrow> 'o) \<Rightarrow> ('o, 's) message_manager \<Rightarrow> ('o, 's) message_manager" where
  "ResetSendMessages Reset m =
     m\<lparr>objects := fold (\<lambda>p os. os[p := Reset (os ! p)]) (send_protocol_data m) (objects m)\<rparr>"

section \<open>The receiving thread\<close>

text \<open>What \<open>can_client_->Receive\<close> gives: an error, or the frames and the number it reports.\<close>

datatype receive_result = ReceiveError | Received "can_frame list" int

record receiver_counts =
  receive_error_count :: int
  receive_none_count :: int

definition parse_frames ::
  "('o \<Rightarrow> frame_data \<Rightarrow> int \<Rightarrow> 's \<Rightarrow> 'o \<times> 's) \<Rightarrow> int \<Rightarrow> can_frame list
     \<Rightarrow> ('o, 's) message_manager \<Rightarrow> ('o, 's) message_manager"
where
  "parse_frames ParseData time buf m =
     fold (\<lambda>f. MessageManager_Parse ParseData time (frame_id f) (frame_bytes f) (uint (frame_len f))) buf m"

definition recv_iteration ::
  "('o \<Rightarrow> frame_data \<Rightarrow> int \<Rightarrow> 's \<Rightarrow> 'o \<times> 's) \<Rightarrow> int \<Rightarrow> receive_result
     \<Rightarrow> receiver_counts \<times> ('o, 's) message_manager \<Rightarrow> receiver_counts \<times> ('o, 's) message_manager"
where
  "recv_iteration ParseData time r st =
     (case st of (c, m) \<Rightarrow>
       case r of
         ReceiveError \<Rightarrow> (c\<lparr>receive_error_count := receive_error_count c + 1\<rparr>, m)
       | Received buf frame_num \<Rightarrow>
           let c1 = c\<lparr>receive_error_count := 0\<rparr>
           in if frame_num = 0 then (c1\<lparr>receive_none_count := receive_none_count c + 1\<rparr>, m)
              else (c1\<lparr>receive_none_count := 0\<rparr>, parse_frames ParseData time buf m))"

record can_receiver =
  recv_is_running :: bool
  recv_client_set :: bool
  recv_manager_set :: bool
  recv_enable_log :: bool
  recv_is_init :: bool

definition CanReceiver_Init :: "bool \<Rightarrow> bool \<Rightarrow> bool \<Rightarrow> can_receiver \<Rightarrow> error_code \<times> can_receiver" where
  "CanReceiver_Init can_client_not_null pt_manager_not_null do_log r =
     (let r1 = r\<lparr>recv_client_set := can_client_not_null, recv_manager_set := pt_manager_not_null,
                 recv_enable_log := do_log\<rparr>
      in if \<not> can_client_not_null then (CANBUS_ERROR, r1)
         else if \<not> pt_manager_not_null then (CANBUS_ERROR, r1)
         else (OK, r1\<lparr>recv_is_init := True\<rparr>))"

definition CanReceiver_Start :: "can_receiver \<Rightarrow> error_code \<times> can_receiver" where
  "CanReceiver_Start r =
     (if \<not> recv_is_init r then (CANBUS_ERROR, r) else (OK, r\<lparr>recv_is_running := True\<rparr>))"

definition CanReceiver_Stop :: "can_receiver \<Rightarrow> can_receiver" where
  "CanReceiver_Stop r = (if recv_is_running r then r\<lparr>recv_is_running := False\<rparr> else r)"

lemmas manager_ops [op_defs] =
  AddRecvProtocolData_def AddSendProtocolData_def GetMutableProtocolDataById_def
  MessageManager_Parse_def check_period_def ClearSensorData_def

section \<open>The manager's pointers stay valid\<close>

definition manager_ok :: "('o, 's) message_manager \<Rightarrow> bool" where
  "manager_ok m \<longleftrightarrow>
     (\<forall>i p. protocol_data_map m i = Some p \<longrightarrow> p < length (objects m)) \<and>
     (\<forall>p \<in> set (send_protocol_data m) \<union> set (recv_protocol_data m). p < length (objects m)) \<and>
     dom (check_ids m) \<subseteq> dom (protocol_data_map m) \<and>
     received_ids m \<subseteq> dom (protocol_data_map m)"

lemma new_message_manager_ok [inv_intros]: "manager_ok (new_message_manager s)"
  by (simp add: manager_ok_def new_message_manager_def)

lemma AddRecvProtocolData_ok [inv_intros]:
  "manager_ok m \<Longrightarrow> manager_ok (AddRecvProtocolData gp i dt nc m)"
  by (auto simp: manager_ok_def AddRecvProtocolData_def Let_def less_Suc_eq)

lemma AddSendProtocolData_ok [inv_intros]:
  "manager_ok m \<Longrightarrow> manager_ok (AddSendProtocolData gp i dt nc m)"
  by (auto simp: manager_ok_def AddSendProtocolData_def Let_def less_Suc_eq)

lemma MessageManager_Parse_ok [inv_intros]:
  "manager_ok m \<Longrightarrow> manager_ok (MessageManager_Parse pd t i d n m)"
  by (auto simp: manager_ok_def MessageManager_Parse_def GetMutableProtocolDataById_def Let_def
      split: option.splits prod.splits)

lemma ClearSensorData_ok [inv_intros]: "manager_ok m \<Longrightarrow> manager_ok (ClearSensorData s m)"
  by (simp add: manager_ok_def ClearSensorData_def)

lemma length_reset_fold: "length (fold (\<lambda>p os. os[p := Reset (os ! p)]) ps os) = length os"
  by (induction ps arbitrary: os) auto

lemma ResetSendMessages_ok [inv_intros]: "manager_ok m \<Longrightarrow> manager_ok (ResetSendMessages r m)"
  by (simp add: manager_ok_def ResetSendMessages_def length_reset_fold)

section \<open>Late frames\<close>

text \<open>
  The specification of \<open>error_count\<close>: for the arrival times of a checked message, newest first,
  the number of late arrivals since the last one that was in time. The very first arrival is
  compared with time 0, as \<open>last_time\<close> starts at 0.
\<close>

fun late_run :: "int \<Rightarrow> int list \<Rightarrow> int" where
  "late_run p [] = 0"
| "late_run p [t] = (if is_late t p then 1 else 0)"
| "late_run p (t # t' # ts) = (if is_late (t - t') p then late_run p (t' # ts) + 1 else 0)"

text \<open>A run of the manager: frames with the time they are parsed at.\<close>

definition parse_run ::
  "('o \<Rightarrow> frame_data \<Rightarrow> int \<Rightarrow> 's \<Rightarrow> 'o \<times> 's) \<Rightarrow> (int \<times> can_frame) list
     \<Rightarrow> ('o, 's) message_manager \<Rightarrow> ('o, 's) message_manager"
where
  "parse_run ParseData fs m =
     fold (\<lambda>(t, f). MessageManager_Parse ParseData t (frame_id f) (frame_bytes f) (uint (frame_len f))) fs m"

definition arrivals :: "u32 \<Rightarrow> (int \<times> can_frame) list \<Rightarrow> int list" where
  "arrivals i fs = rev (map fst (filter (\<lambda>(t, f). frame_id f = i) fs))"

lemma Parse_maps:
  "protocol_data_map (MessageManager_Parse pd t i d n m) = protocol_data_map m"
  "check_ids (MessageManager_Parse pd t i d n m) j
     = (if i = j \<and> protocol_data_map m i \<noteq> None then map_option (check_period t) (check_ids m j)
        else check_ids m j)"
  by (auto simp: MessageManager_Parse_def GetMutableProtocolDataById_def Let_def
      split: option.splits prod.splits)

lemma parse_run_map: "protocol_data_map (parse_run pd fs m) = protocol_data_map m"
  by (induction fs arbitrary: m) (auto simp: parse_run_def Parse_maps)

lemma parse_run_snoc:
  "parse_run pd (fs @ [(t, f)]) m
     = MessageManager_Parse pd t (frame_id f) (frame_bytes f) (uint (frame_len f)) (parse_run pd fs m)"
  by (simp add: parse_run_def)

lemma arrivals_snoc:
  "arrivals i (fs @ [(t, f)]) = (if frame_id f = i then t # arrivals i fs else arrivals i fs)"
  by (simp add: arrivals_def)

lemma parse_run_check:
  assumes "protocol_data_map m i \<noteq> None" and "check_ids m i = Some (new_check_id_arg p)"
  shows "\<exists>a. check_ids (parse_run pd fs m) i = Some a \<and> arg_period a = p
           \<and> error_count a = late_run p (arrivals i fs)
           \<and> last_time a = (case arrivals i fs of [] \<Rightarrow> 0 | t # _ \<Rightarrow> t)"
proof (induction fs rule: rev_induct)
  case Nil
  then show ?case using assms by (simp add: parse_run_def arrivals_def new_check_id_arg_def)
next
  case (snoc x fs)
  obtain t f where x: "x = (t, f)" by (cases x)
  from snoc obtain a where a: "check_ids (parse_run pd fs m) i = Some a" "arg_period a = p"
    "error_count a = late_run p (arrivals i fs)"
    "last_time a = (case arrivals i fs of [] \<Rightarrow> 0 | t # _ \<Rightarrow> t)" by blast
  show ?case
    using a assms(1)
    by (cases "arrivals i fs")
      (auto simp: x parse_run_snoc arrivals_snoc Parse_maps parse_run_map check_period_def Let_def)
qed

text \<open>
  Whatever frames of whatever messages the receiver parses, and whatever the
  protocol objects do with them, the error count of a checked message is the number of its
  frames that came later than 1.5 periods after the one before, counted since its last frame
  in time; the latency is measured from its own last frame.
\<close>

theorem error_count_is_late_run:
  assumes "protocol_data_map m i \<noteq> None" and "check_ids m i = Some (new_check_id_arg p)"
  shows "map_option error_count (check_ids (parse_run pd fs m) i) = Some (late_run p (arrivals i fs)) \<and>
         GetPeriodById (parse_run pd fs m) i = p \<and>
         GetCurrentLatencyById now (parse_run pd fs m) i
           = now - (case arrivals i fs of [] \<Rightarrow> 0 | t # _ \<Rightarrow> t)"
  using parse_run_check [OF assms, of pd fs] by (auto simp: GetPeriodById_def GetCurrentLatencyById_def)

theorem error_count_is_late_run_witness:
  "let m = AddRecvProtocolData (\<lambda>_. 10000) 0x18C4DAEF () True (new_message_manager ());
       f = \<lparr>frame_id = 0x18C4DAEF, frame_len = 8, frame_bytes = replicate 8 0\<rparr>;
       fs = [(1000000, f), (1010000, f), (1030000, f), (1050000, f)]
   in map_option error_count (check_ids (parse_run (\<lambda>x d n s. (x, s)) fs m) 0x18C4DAEF) = Some 2"
proof -
  let ?m = "AddRecvProtocolData (\<lambda>_. 10000) 0x18C4DAEF () True (new_message_manager ())"
  let ?f = "\<lparr>frame_id = 0x18C4DAEF, frame_len = 8, frame_bytes = replicate 8 0\<rparr>"
  let ?fs = "[(1000000 :: int, ?f), (1010000, ?f), (1030000, ?f), (1050000, ?f)]"
  have 1: "protocol_data_map ?m 0x18C4DAEF \<noteq> None"
    and 2: "check_ids ?m 0x18C4DAEF = Some (new_check_id_arg 10000)"
    by (simp_all add: AddRecvProtocolData_def new_message_manager_def)
  have "late_run 10000 (arrivals 0x18C4DAEF ?fs) = 2"
    by (simp add: arrivals_def is_late_def)
  with error_count_is_late_run [OF 1 2, of "\<lambda>x d n s. (x, s)" ?fs 0] show ?thesis
    by (simp add: Let_def)
qed

text \<open>
  A message passes the timeout check exactly when it is one of the checked ones, its
  period is not negative, its last frame is not in the future and the time since that frame is
  at most one period plus the given share of a period.
\<close>

theorem CheckMessageTimeout_iff:
  "CheckMessageTimeout now m i ratio \<longleftrightarrow>
     (\<exists>a. check_ids m i = Some a \<and> 0 \<le> arg_period a \<and> last_time a \<le> now \<and>
          of_int (now - last_time a) \<le> (1 + ratio) * of_int (arg_period a))"
  by (auto simp: CheckMessageTimeout_def GetCurrentLatencyById_def GetPeriodById_def Let_def
      algebra_simps split: option.splits)

section \<open>Reset of the send messages\<close>

lemma reset_fold_nth:
  assumes "distinct ps" "\<forall>p \<in> set ps. p < length os"
  shows "fold (\<lambda>p os. os[p := Reset (os ! p)]) ps os ! q
           = (if q \<in> set ps then Reset (os ! q) else os ! q)"
  using assms by (induction ps arbitrary: os) (auto simp: nth_list_update)

definition manager_distinct :: "('o, 's) message_manager \<Rightarrow> bool" where
  "manager_distinct m \<longleftrightarrow> distinct (send_protocol_data m) \<and> distinct (recv_protocol_data m) \<and>
     set (send_protocol_data m) \<inter> set (recv_protocol_data m) = {}"

lemma Add_distinct [inv_intros]:
  assumes "manager_ok m" "manager_distinct m"
  shows "manager_distinct (AddRecvProtocolData gp i dt nc m)"
    and "manager_distinct (AddSendProtocolData gp i dt nc m)"
  using assms
  by (auto simp: manager_distinct_def manager_ok_def AddRecvProtocolData_def AddSendProtocolData_def Let_def)

lemma ResetSendMessages_objects:
  assumes "manager_ok m" "manager_distinct m" "q < length (objects m)"
  shows "objects (ResetSendMessages r m) ! q
           = (if q \<in> set (send_protocol_data m) then r (objects m ! q) else objects m ! q)"
  using assms by (simp add: ResetSendMessages_def reset_fold_nth manager_ok_def manager_distinct_def)

end
