(* ===== verification/Interfaces.thy ===== *)
theory Interfaces
  imports Prelude
begin

text \<open>
  The contracts components of Cyber RT rely on each other for: a keyed store with lookup after
  insertion (the atomic hash map under the dispatchers), and the append-or-insert idiom its
  clients share.
\<close>

section \<open>A keyed store\<close>

text \<open>
  \<open>if (map.Get(key, &vec)) vec->emplace_back(x); else map.Set(key, {x});\<close> The vector is changed in
  place through the pointer \<open>Get\<close> returns, so the entry of the key afterwards holds the longer one.
\<close>

definition append_or_set ::
  "('m \<Rightarrow> 'k \<Rightarrow> 'v list option) \<Rightarrow> ('m \<Rightarrow> 'k \<Rightarrow> 'v list \<Rightarrow> 'm) \<Rightarrow> 'm \<Rightarrow> 'k \<Rightarrow> 'v \<Rightarrow> 'm"
where
  "append_or_set get put m k x =
     (case get m k of Some xs \<Rightarrow> put m k (xs @ [x]) | None \<Rightarrow> put m k [x])"

locale kv_map =
  fixes ok :: "'m \<Rightarrow> bool"
    and get :: "'m \<Rightarrow> 'k \<Rightarrow> 'v option"
    and put :: "'m \<Rightarrow> 'k \<Rightarrow> 'v \<Rightarrow> 'm"
    and has :: "'m \<Rightarrow> 'k \<Rightarrow> bool"
  assumes put_ok: "ok m \<Longrightarrow> ok (put m k v)"
    and get_put: "ok m \<Longrightarrow> get (put m k v) j = (if j = k then Some v else get m j)"
    and has_get: "ok m \<Longrightarrow> has m k \<longleftrightarrow> get m k \<noteq> None"
begin

fun put_all :: "'m \<Rightarrow> ('k \<times> 'v) list \<Rightarrow> 'm" where
  "put_all m [] = m"
| "put_all m ((k, v) # kvs) = put_all (put m k v) kvs"

lemma put_all_ok: "ok m \<Longrightarrow> ok (put_all m kvs)"
  by (induction m kvs rule: put_all.induct) (simp_all add: put_ok)

lemma get_put_all: "ok m \<Longrightarrow> get (put_all m kvs) = get m ++ map_of (rev kvs)"
proof (induction m kvs rule: put_all.induct)
  case (1 m)
  then show ?case by simp
next
  case (2 m k v kvs)
  then have "get (put_all m ((k, v) # kvs)) = get (put m k v) ++ map_of (rev kvs)"
    by (simp add: put_ok)
  also have "get (put m k v) = (get m)(k \<mapsto> v)"
    using 2 by (auto simp: get_put)
  finally show ?case by (auto simp: map_add_def split: option.splits)
qed

end

text \<open>The same store with vectors as values: what the append-or-insert idiom does.\<close>

locale multi_map = kv_map ok get put has
  for ok :: "'m \<Rightarrow> bool" and get :: "'m \<Rightarrow> 'k \<Rightarrow> 'v list option" and put and has
begin

definition entries :: "'m \<Rightarrow> 'k \<Rightarrow> 'v list" where
  "entries m k = (case get m k of None \<Rightarrow> [] | Some xs \<Rightarrow> xs)"

lemma append_ok: "ok m \<Longrightarrow> ok (append_or_set get put m k x)"
  by (simp add: append_or_set_def put_ok split: option.splits)

lemma entries_append:
  "ok m \<Longrightarrow> entries (append_or_set get put m k x) j = (if j = k then entries m j @ [x] else entries m j)"
  by (simp add: append_or_set_def entries_def get_put split: option.splits)

lemma get_append:
  "ok m \<Longrightarrow> get (append_or_set get put m k x) j
     = (if j = k then Some (entries m j @ [x]) else get m j)"
  by (simp add: append_or_set_def entries_def get_put split: option.splits)

end

end
