(* ===== verification/AtomicHashMap.thy ===== *)
theory AtomicHashMap
  imports Interfaces
begin

text \<open>
  The fixed-size hash map with sorted bucket chains, \<open>cyber/base/atomic_hash_map.h\<close>. A bucket is
  the list of entries after its dummy head; \<open>Find\<close> gives the position of the target in the chain
  (the chain's length when it is \<open>nullptr\<close>), \<open>prev\<close> being the entry before it. The operations are
  modelled as one thread runs them: every compare-and-swap then finds the value that was loaded
  and the retry loops run once.
\<close>

type_synonym 'v bucket = "(u64 \<times> 'v) list"

fun bucket_Has :: "u64 \<Rightarrow> 'v bucket \<Rightarrow> bool" where
  "bucket_Has key [] = False"
| "bucket_Has key ((k, v) # es) = (if k < key then bucket_Has key es else k = key)"

fun Find :: "u64 \<Rightarrow> 'v bucket \<Rightarrow> bool \<times> nat" where
  "Find key [] = (False, 0)"
| "Find key ((k, v) # es) =
     (if k = key then (True, 0)
      else if k > key then (False, 0)
      else (case Find key es of (found, n) \<Rightarrow> (found, Suc n)))"

definition bucket_Insert :: "u64 \<Rightarrow> 'v \<Rightarrow> 'v bucket \<Rightarrow> 'v bucket" where
  "bucket_Insert key v es =
     (case Find key es of
        (True, n) \<Rightarrow> es[n := (fst (es ! n), v)]
      | (False, n) \<Rightarrow> take n es @ (key, v) # drop n es)"

text \<open>\<open>Insert(K key)\<close> inserts a value-initialised \<open>V()\<close>, given as the argument \<open>dflt\<close>.\<close>

definition bucket_Insert_default :: "'v \<Rightarrow> u64 \<Rightarrow> 'v bucket \<Rightarrow> 'v bucket" where
  "bucket_Insert_default dflt key es =
     (case Find key es of
        (True, n) \<Rightarrow> es[n := (fst (es ! n), dflt)]
      | (False, n) \<Rightarrow> take n es @ (key, dflt) # drop n es)"

definition bucket_Get :: "u64 \<Rightarrow> 'v bucket \<Rightarrow> 'v option" where
  "bucket_Get key es = (case Find key es of (True, n) \<Rightarrow> Some (snd (es ! n)) | (False, n) \<Rightarrow> None)"

record 'v hash_map =
  table :: "'v bucket list"
  capacity :: u64
  mode_num :: u64

definition new_hash_map :: "nat \<Rightarrow> 'v hash_map" where
  "new_hash_map TableSize =
     \<lparr>table = replicate TableSize [], capacity = of_nat TableSize, mode_num = of_nat TableSize - 1\<rparr>"

definition hm_index :: "'v hash_map \<Rightarrow> u64 \<Rightarrow> nat" where
  "hm_index m key = unat (key AND mode_num m)"

definition hm_Has :: "'v hash_map \<Rightarrow> u64 \<Rightarrow> bool" where
  "hm_Has m key = bucket_Has key (table m ! hm_index m key)"

definition hm_Get :: "'v hash_map \<Rightarrow> u64 \<Rightarrow> 'v option" where
  "hm_Get m key = bucket_Get key (table m ! hm_index m key)"

definition hm_Set :: "'v hash_map \<Rightarrow> u64 \<Rightarrow> 'v \<Rightarrow> 'v hash_map" where
  "hm_Set m key v =
     m\<lparr>table := (table m)[hm_index m key := bucket_Insert key v (table m ! hm_index m key)]\<rparr>"

definition hm_Set_default :: "'v \<Rightarrow> 'v hash_map \<Rightarrow> u64 \<Rightarrow> 'v hash_map" where
  "hm_Set_default dflt m key =
     m\<lparr>table := (table m)[hm_index m key
                   := bucket_Insert_default dflt key (table m ! hm_index m key)]\<rparr>"

section \<open>Buckets\<close>

definition bucket_ok :: "'v bucket \<Rightarrow> bool" where
  "bucket_ok es \<longleftrightarrow> sorted_wrt (<) (map fst es)"

lemma bucket_ok_Cons:
  "bucket_ok ((k, v) # es) \<longleftrightarrow> (\<forall>j \<in> fst ` set es. k < j) \<and> bucket_ok es"
  by (simp add: bucket_ok_def)

lemma bucket_Get_Cons:
  "bucket_Get key ((k, v) # es) = (if k = key then Some v else if k > key then None else bucket_Get key es)"
  by (auto simp: bucket_Get_def split: prod.splits bool.splits)

lemma bucket_Get_Nil [simp]: "bucket_Get key [] = None"
  by (simp add: bucket_Get_def)

lemma bucket_Insert_Nil [simp]: "bucket_Insert key v [] = [(key, v)]"
  by (simp add: bucket_Insert_def)

lemma bucket_Insert_Cons:
  "bucket_Insert key v ((k, w) # es) =
     (if k = key then (k, v) # es else if k > key then (key, v) # (k, w) # es
      else (k, w) # bucket_Insert key v es)"
  by (auto simp: bucket_Insert_def split: prod.splits bool.splits)

lemma Insert_default_eq: "bucket_Insert_default d key es = bucket_Insert key d es"
  by (simp add: bucket_Insert_default_def bucket_Insert_def)

lemma bucket_Insert_keys: "fst ` set (bucket_Insert key v es) = insert key (fst ` set es)"
proof (induction es)
  case (Cons e es)
  obtain k w where e: "e = (k, w)" by (cases e)
  show ?case by (simp add: e bucket_Insert_Cons Cons.IH insert_commute)
qed simp

lemma bucket_Insert_ok [inv_intros]: "bucket_ok es \<Longrightarrow> bucket_ok (bucket_Insert key v es)"
proof (induction es)
  case Nil
  then show ?case by (simp add: bucket_ok_def)
next
  case (Cons e es)
  obtain k w where e: "e = (k, w)" by (cases e)
  from Cons show ?case
    by (auto simp: e bucket_Insert_Cons bucket_ok_Cons bucket_Insert_keys not_less_iff_gr_or_eq
        intro: less_trans)
qed

lemma bucket_Get_outside: "\<forall>j \<in> fst ` set es. key < j \<Longrightarrow> bucket_Get key es = None"
  by (cases es) (auto simp: bucket_Get_Cons)

lemma bucket_Get_map_of: "bucket_ok es \<Longrightarrow> bucket_Get key es = map_of es key"
proof (induction es)
  case Nil
  then show ?case by simp
next
  case (Cons e es)
  obtain k w where e: "e = (k, w)" by (cases e)
  have "key < k \<Longrightarrow> map_of es key = None"
    using Cons.prems by (force simp: e bucket_ok_Cons map_of_eq_None_iff)
  with Cons show ?case by (auto simp: e bucket_Get_Cons bucket_ok_Cons)
qed

lemma map_of_bucket_Insert: "bucket_ok es \<Longrightarrow> map_of (bucket_Insert key v es) = (map_of es)(key \<mapsto> v)"
  by (induction es) (auto simp: bucket_Insert_Cons bucket_ok_Cons fun_eq_iff)

lemma bucket_Has_Get: "bucket_Has key es \<longleftrightarrow> bucket_Get key es \<noteq> None"
  by (induction key es rule: bucket_Has.induct) (auto simp: bucket_Get_Cons)

section \<open>The table\<close>

definition hm_ok :: "'v hash_map \<Rightarrow> bool" where
  "hm_ok m \<longleftrightarrow> (\<exists>k < 64. length (table m) = 2 ^ k \<and> capacity m = 2 ^ k \<and> mode_num m = mask k)
     \<and> (\<forall>i < length (table m). bucket_ok (table m ! i) \<and>
          (\<forall>key \<in> fst ` set (table m ! i). hm_index m key = i))"

lemma new_hash_map_ok [inv_intros]: "k < 64 \<Longrightarrow> hm_ok (new_hash_map (2 ^ k))"
  by (auto simp: hm_ok_def new_hash_map_def bucket_ok_def mask_eq_exp_minus_1)

lemma hm_index_less: "hm_ok m \<Longrightarrow> hm_index m key < length (table m)"
proof -
  assume "hm_ok m"
  then obtain k where k: "k < 64" "length (table m) = 2 ^ k" "mode_num m = mask k"
    by (auto simp: hm_ok_def)
  have "key AND mask k = take_bit k key" by (simp add: take_bit_eq_mask)
  then have "hm_index m key = take_bit k (unat key)"
    by (simp add: hm_index_def k(3) unsigned_take_bit_eq)
  then show ?thesis by (simp add: k(2))
qed

lemma hm_index_Set [simp]: "hm_index (hm_Set m k v) key = hm_index m key"
  by (simp add: hm_Set_def hm_index_def)

lemma hm_Set_ok [inv_intros]:
  assumes "hm_ok m" shows "hm_ok (hm_Set m key v)"
proof -
  let ?m = "hm_Set m key v" and ?i = "hm_index m key"
  have len: "length (table ?m) = length (table m)" and cap: "capacity ?m = capacity m"
    and mn: "mode_num ?m = mode_num m"
    by (simp_all add: hm_Set_def)
  have nth: "table ?m ! j = (if ?i = j then bucket_Insert key v (table m ! ?i) else table m ! j)"
    if "j < length (table m)" for j
    using that hm_index_less [OF assms] by (simp add: hm_Set_def nth_update_iff)
  have "bucket_ok (table ?m ! j) \<and> (\<forall>k \<in> fst ` set (table ?m ! j). hm_index ?m k = j)"
    if "j < length (table m)" for j
  proof -
    have old: "bucket_ok (table m ! j)" "\<forall>k \<in> fst ` set (table m ! j). hm_index m k = j"
      using assms that by (auto simp: hm_ok_def)
    show ?thesis
    proof (cases "?i = j")
      case True
      then have "fst ` set (table ?m ! j) = insert key (fst ` set (table m ! j))"
        using nth [OF that] by (simp add: bucket_Insert_keys)
      with True old nth [OF that] show ?thesis by (simp add: bucket_Insert_ok)
    next
      case False
      with old nth [OF that] show ?thesis by simp
    qed
  qed
  then show ?thesis using assms unfolding hm_ok_def len cap mn by blast
qed

lemma hm_Get_Set:
  assumes "hm_ok m" shows "hm_Get (hm_Set m key v) j = (if j = key then Some v else hm_Get m j)"
proof -
  have ok: "bucket_ok (table m ! hm_index m j)" for j
    using assms hm_index_less [OF assms] by (auto simp: hm_ok_def)
  show ?thesis
    using hm_index_less [OF assms]
    by (auto simp: hm_Get_def hm_Set_def hm_index_def nth_update_iff bucket_Get_map_of
        bucket_Insert_ok map_of_bucket_Insert ok [unfolded hm_index_def])
qed

lemma hm_Has_Get: "hm_Has m key \<longleftrightarrow> hm_Get m key \<noteq> None"
  by (simp only: hm_Has_def hm_Get_def bucket_Has_Get)

interpretation hmap: kv_map hm_ok hm_Get hm_Set hm_Has
  by unfold_locales (simp_all add: hm_Set_ok hm_Get_Set hm_Has_Get)

interpretation hmulti: multi_map hm_ok hm_Get hm_Set hm_Has
  by unfold_locales

fun hm_run :: "'v hash_map \<Rightarrow> (u64 \<times> 'v) list \<Rightarrow> 'v hash_map" where
  "hm_run m [] = m"
| "hm_run m ((k, v) # kvs) = hm_run (hm_Set m k v) kvs"

lemma hm_run_put_all: "hm_run m kvs = hmap.put_all m kvs"
  by (induction m kvs rule: hm_run.induct) simp_all

text \<open>
  Property C34. Filling a map of \<open>2 ^ k\<close> buckets by any sequence of \<open>Set\<close> calls, \<open>Get\<close> returns for
  every key the value of the last \<open>Set\<close> of that key, and nothing for a key never set, and \<open>Has\<close>
  agrees with it, whatever keys share a bucket.
\<close>

theorem hash_map_is_map:
  fixes kvs :: "(u64 \<times> 'v) list"
  assumes "k < 64"
  shows "hm_Get (hm_run (new_hash_map (2 ^ k)) kvs) = map_of (rev kvs) \<and>
         hm_Has (hm_run (new_hash_map (2 ^ k)) kvs) key = (key \<in> fst ` set kvs)"
proof -
  let ?m = "new_hash_map (2 ^ k) :: 'v hash_map"
  have ok: "hm_ok ?m" using assms by (rule new_hash_map_ok)
  have "hm_Get ?m j = None" for j :: u64
    using hm_index_less [OF ok, of j]
    unfolding hm_Get_def by (simp add: new_hash_map_def del: One_nat_def)
  then have get: "hm_Get (hm_run ?m kvs) = map_of (rev kvs)"
    unfolding hm_run_put_all hmap.get_put_all [OF ok] by (auto simp: map_add_def split: option.splits)
  moreover have "hm_Has (hm_run ?m kvs) key \<longleftrightarrow> hm_Get (hm_run ?m kvs) key \<noteq> None"
    unfolding hm_run_put_all by (rule hmap.has_get [OF hmap.put_all_ok [OF ok]])
  ultimately show ?thesis by (force simp: map_of_eq_None_iff)
qed

theorem hash_map_is_map_witness:
  "hm_Get (hm_run (new_hash_map (2 ^ 7)) [(129, 10 :: int), (1, 20), (129, 30)]) 129 = Some 30"
proof -
  have k: "(7 :: nat) < 64" by simp
  show ?thesis
    using hash_map_is_map [OF k, of "[(129, 10 :: int), (1, 20), (129, 30)]" 1] by simp
qed

end
