(* ===== verification/ChannelBuffer.thy ===== *)
theory ChannelBuffer
  imports Prelude "HOL-Library.Sublist"
begin

text \<open>
  The per-reader message buffers of Cyber RT: the circular \<open>CacheBuffer\<close>
  (\<open>cyber/data/cache_buffer.h\<close>), reading it through \<open>ChannelBuffer\<close> (\<open>channel_buffer.h\<close>), the
  visitor that keeps a read index (\<open>data_visitor.h\<close>) and the four-channel fusion
  (\<open>fusion/all_latest.h\<close>). The \<open>uint64_t\<close> counters count messages and are naturals. Every
  operation runs under the buffer's mutex, so each is one step.
\<close>

section \<open>The circular buffer\<close>

record 'a cache_buffer =
  cb_head :: nat
  cb_tail :: nat
  cb_capacity :: nat
  cb_buffer :: "'a list"

text \<open>\<open>resize\<close> fills the vector with \<open>T()\<close>, the argument \<open>dflt\<close>.\<close>

definition new_cache_buffer :: "'a \<Rightarrow> nat \<Rightarrow> 'a cache_buffer" where
  "new_cache_buffer dflt sz =
     \<lparr>cb_head = 0, cb_tail = 0, cb_capacity = sz + 1, cb_buffer = replicate (sz + 1) dflt\<rparr>"

definition GetIndex :: "'a cache_buffer \<Rightarrow> nat \<Rightarrow> nat" where
  "GetIndex b pos = pos mod cb_capacity b"

definition at :: "'a cache_buffer \<Rightarrow> nat \<Rightarrow> 'a" where
  "at b pos = cb_buffer b ! GetIndex b pos"

definition Head :: "'a cache_buffer \<Rightarrow> nat" where
  "Head b = cb_head b + 1"

definition Tail :: "'a cache_buffer \<Rightarrow> nat" where
  "Tail b = cb_tail b"

definition Size :: "'a cache_buffer \<Rightarrow> nat" where
  "Size b = cb_tail b - cb_head b"

definition Front :: "'a cache_buffer \<Rightarrow> 'a" where
  "Front b = cb_buffer b ! GetIndex b (cb_head b + 1)"

definition Back :: "'a cache_buffer \<Rightarrow> 'a" where
  "Back b = cb_buffer b ! GetIndex b (cb_tail b)"

definition Empty :: "'a cache_buffer \<Rightarrow> bool" where
  "Empty b \<longleftrightarrow> cb_tail b = 0"

definition Full :: "'a cache_buffer \<Rightarrow> bool" where
  "Full b \<longleftrightarrow> cb_capacity b - 1 = cb_tail b - cb_head b"

text \<open>\<open>Fill\<close> of a buffer with no fusion callback.\<close>

definition Fill :: "'a cache_buffer \<Rightarrow> 'a \<Rightarrow> 'a cache_buffer" where
  "Fill b v =
     (if Full b then
        b\<lparr>cb_buffer := (cb_buffer b)[GetIndex b (cb_head b) := v],
          cb_head := cb_head b + 1, cb_tail := cb_tail b + 1\<rparr>
      else
        b\<lparr>cb_buffer := (cb_buffer b)[GetIndex b (cb_tail b + 1) := v], cb_tail := cb_tail b + 1\<rparr>)"

section \<open>Reading\<close>

text \<open>The new value of \<open>*index\<close>, and the message or None for \<open>false\<close>.\<close>

definition Fetch :: "nat \<Rightarrow> 'a cache_buffer \<Rightarrow> nat \<times> 'a option" where
  "Fetch index b =
     (if Empty b then (index, None)
      else if index = 0 then (Tail b, Some (at b (Tail b)))
      else if index = Tail b + 1 then (index, None)
      else if index < Head b then (Tail b, Some (at b (Tail b)))
      else (index, Some (at b index)))"

definition Latest :: "'a cache_buffer \<Rightarrow> 'a option" where
  "Latest b = (if Empty b then None else Some (Back b))"

definition FetchMulti :: "nat \<Rightarrow> 'a cache_buffer \<Rightarrow> 'a list option" where
  "FetchMulti fetch_size b =
     (if Empty b then None
      else let num = min (Size b) fetch_size
           in Some (map (at b) [Tail b - num + 1 ..< Tail b + 1]))"

text \<open>\<open>DataVisitor::TryFetch\<close> over the fetch operation of its buffer or fusion.\<close>

definition TryFetch :: "(nat \<Rightarrow> 'b \<Rightarrow> nat \<times> 'a option) \<Rightarrow> nat \<Rightarrow> 'b \<Rightarrow> nat \<times> 'a option" where
  "TryFetch fetch next_msg_index b =
     (case fetch next_msg_index b of
        (i, Some m) \<Rightarrow> (i + 1, Some m)
      | (i, None) \<Rightarrow> (i, None))"

text \<open>A writer and one visitor, interleaved; what the visitor receives.\<close>

datatype 'a visit_action = Write 'a | Visit

fun visit_run ::
  "('b \<Rightarrow> 'a \<Rightarrow> 'b) \<Rightarrow> (nat \<Rightarrow> 'b \<Rightarrow> nat \<times> 'a option) \<Rightarrow> 'a visit_action list \<Rightarrow> 'b \<Rightarrow> nat \<Rightarrow> 'a list"
where
  "visit_run fill fetch [] b i = []"
| "visit_run fill fetch (Write v # as) b i = visit_run fill fetch as (fill b v) i"
| "visit_run fill fetch (Visit # as) b i =
     (case TryFetch fetch i b of
        (i', Some m) \<Rightarrow> m # visit_run fill fetch as b i'
      | (i', None) \<Rightarrow> visit_run fill fetch as b i')"

fun writes :: "'a visit_action list \<Rightarrow> 'a list" where
  "writes [] = []"
| "writes (Write v # as) = v # writes as"
| "writes (Visit # as) = writes as"

lemma drop_pred: "0 < j \<Longrightarrow> j \<le> length l \<Longrightarrow> drop (j - 1) (l @ w) = l ! (j - 1) # drop j (l @ w)"
  by (cases j) (simp_all add: Cons_nth_drop_Suc)

section \<open>The contract of a message source\<close>

text \<open>
  \<open>rep b l\<close>: the buffer \<open>b\<close> stands for the log \<open>l\<close> of everything written, of which the last
  \<open>n\<close> messages can still be read. Positions in the log count from 1.
\<close>

locale message_source =
  fixes n :: nat
    and rep :: "'b \<Rightarrow> 'a list \<Rightarrow> bool"
    and fill :: "'b \<Rightarrow> 'a \<Rightarrow> 'b"
    and fetch :: "nat \<Rightarrow> 'b \<Rightarrow> nat \<times> 'a option"
  assumes rep_fill: "rep b l \<Longrightarrow> rep (fill b v) (l @ [v])"
    and fetch_none: "rep b l \<Longrightarrow> l = [] \<or> i = length l + 1 \<Longrightarrow> fetch i b = (i, None)"
    and fetch_last: "rep b l \<Longrightarrow> l \<noteq> [] \<Longrightarrow> i = 0 \<or> 0 < i \<and> i + n \<le> length l \<Longrightarrow>
          fetch i b = (length l, Some (last l))"
    and fetch_at: "rep b l \<Longrightarrow> 0 < i \<Longrightarrow> i \<le> length l \<Longrightarrow> length l < i + n \<Longrightarrow>
          fetch i b = (i, Some (l ! (i - 1)))"
begin

lemma fetch_cases:
  assumes "rep b l" "i \<le> length l + 1"
  obtains "fetch i b = (i, None)" "l = [] \<or> i = length l + 1"
  | j where "fetch i b = (j, Some (l ! (j - 1)))" "0 < j" "i \<le> j" "j \<le> length l"
      "0 < i \<and> length l < i + n \<longrightarrow> j = i"
proof (cases "l = [] \<or> i = length l + 1")
  case True
  with assms that(1) fetch_none show ?thesis by blast
next
  case False
  then have l: "0 < length l" "i \<le> length l" using assms(2) by auto
  show ?thesis
  proof (cases "0 < i \<and> length l < i + n")
    case True
    with assms l fetch_at that(2) [of i] show ?thesis by auto
  next
    case no: False
    have "fetch i b = (length l, Some (l ! (length l - 1)))"
    proof -
      have "i = 0 \<or> 0 < i \<and> i + n \<le> length l" using no l by auto
      with fetch_last [OF assms(1)] l show ?thesis by (auto simp: last_conv_nth)
    qed
    with l no show ?thesis by (intro that(2) [of "length l"]) auto
  qed
qed

text \<open>The visitor never sees a message twice or out of order.\<close>

lemma visit_subseq:
  assumes "rep b l" "i \<le> length l + 1" "i = 0 \<longrightarrow> k = 0" "0 < i \<longrightarrow> k = i - 1"
  shows "subseq (visit_run fill fetch as b i) (drop k (l @ writes as))"
  using assms
proof (induction as arbitrary: b l i k)
  case Nil
  then show ?case by simp
next
  case (Cons a as)
  show ?case
  proof (cases a)
    case (Write v)
    then show ?thesis
      using Cons.IH [OF rep_fill [OF Cons.prems(1), of v], of i k] Cons.prems by simp
  next
    case Visit
    from Cons.prems(1,2) show ?thesis
    proof (cases rule: fetch_cases)
      case 1
      then show ?thesis using Cons Visit by (auto simp: TryFetch_def)
    next
      case (2 j)
      have kj: "k \<le> j - 1" using Cons.prems(3,4) 2 by (cases "i = 0") auto
      have "subseq (visit_run fill fetch as b (j + 1)) (drop j (l @ writes as))"
        using Cons.IH [OF Cons.prems(1), of "j + 1" j] 2 by simp
      moreover have "drop (j - 1) (l @ writes as) = l ! (j - 1) # drop j (l @ writes as)"
        using 2 by (intro drop_pred)
      ultimately have "subseq (l ! (j - 1) # visit_run fill fetch as b (j + 1)) (drop (j - 1) (l @ writes as))"
        by simp
      moreover have "subseq (drop (j - 1) (l @ writes as)) (drop k (l @ writes as))"
      proof -
        have "drop (j - 1) ys = drop (j - 1 - k) (drop k ys)" for ys :: "'a list"
          using kj drop_drop [of "j - 1 - k" k ys] by (simp only: le_add_diff_inverse2)
        then show ?thesis by (metis suffix_drop suffix_imp_subseq)
      qed
      ultimately show ?thesis
        using 2 Visit by (simp add: TryFetch_def)
    qed
  qed
qed

text \<open>
  A visitor with a position that is never more than \<open>n\<close> messages behind when it reads: \<open>lag\<close>
  follows the difference of the writer's and the reader's positions.
\<close>

fun keeps_up :: "nat \<Rightarrow> 'c visit_action list \<Rightarrow> bool" where
  "keeps_up lag [] = True"
| "keeps_up lag (Write v # as) = keeps_up (lag + 1) as"
| "keeps_up lag (Visit # as) = (lag \<le> n \<and> keeps_up (lag - 1) as)"

lemma visit_contiguous:
  assumes "rep b l" "0 < i" "i \<le> length l + 1" "keeps_up (length l + 1 - i) as"
  shows "prefix (visit_run fill fetch as b i) (drop (i - 1) (l @ writes as))"
  using assms
proof (induction as arbitrary: b l i)
  case Nil
  then show ?case by simp
next
  case (Cons a as)
  show ?case
  proof (cases a)
    case (Write v)
    have "length (l @ [v]) + 1 - i = length l + 1 - i + 1" using Cons.prems(3) by simp
    then show ?thesis
      using Write Cons.IH [OF rep_fill [OF Cons.prems(1), of v], of i] Cons.prems by simp
  next
    case Visit
    from Cons.prems(1,3) show ?thesis
    proof (cases rule: fetch_cases)
      case 1
      then have "i = length l + 1" using Cons.prems(2,3) by auto
      then show ?thesis using 1 Cons.IH [OF Cons.prems(1), of i] Cons.prems Visit
        by (simp add: TryFetch_def)
    next
      case (2 j)
      then have j: "j = i" using Cons.prems Visit by auto
      have "prefix (visit_run fill fetch as b (i + 1)) (drop i (l @ writes as))"
        using Cons.IH [OF Cons.prems(1), of "i + 1"] Cons.prems 2 j Visit by simp
      moreover have "drop (i - 1) (l @ writes as) = l ! (i - 1) # drop i (l @ writes as)"
        using 2 j Cons.prems(2) by (intro drop_pred) simp_all
      ultimately show ?thesis using 2 j Visit by (simp add: TryFetch_def)
    qed
  qed
qed

end

section \<open>The circular buffer keeps the contract\<close>

text \<open>
  The abstraction: \<open>b\<close> has seen the messages \<open>l\<close>. All \<open>size + 1\<close> slots hold the last
  messages, of which \<open>Head .. Tail\<close> are the last \<open>size\<close>.
\<close>

definition buffer_rep :: "nat \<Rightarrow> 'a cache_buffer \<Rightarrow> 'a list \<Rightarrow> bool" where
  "buffer_rep sz b l \<longleftrightarrow>
     cb_capacity b = sz + 1 \<and> length (cb_buffer b) = sz + 1 \<and>
     cb_tail b = length l \<and> cb_head b = length l - sz \<and>
     (\<forall>p. 0 < p \<longrightarrow> p \<le> length l \<longrightarrow> length l < p + (sz + 1) \<longrightarrow>
        cb_buffer b ! (p mod (sz + 1)) = l ! (p - 1))"

lemma new_cache_buffer_rep [inv_intros]: "buffer_rep sz (new_cache_buffer d sz) []"
  by (simp add: buffer_rep_def new_cache_buffer_def)

lemma Fill_slot:
  assumes "buffer_rep sz b l"
  shows "Fill b v = b\<lparr>cb_buffer := (cb_buffer b)[(length l + 1) mod (sz + 1) := v],
                     cb_head := length l + 1 - sz, cb_tail := length l + 1\<rparr>"
proof (cases "Full b")
  case True
  then have "sz \<le> length l" using assms by (auto simp: Full_def buffer_rep_def)
  moreover from this have "(length l - sz) mod (sz + 1) = (length l + 1) mod (sz + 1)"
    using mod_add_self2 [of "length l - sz" "sz + 1"] by simp
  ultimately show ?thesis
    using True assms by (simp add: Fill_def buffer_rep_def GetIndex_def Suc_diff_le)
next
  case False
  then have "length l < sz" using assms by (auto simp: Full_def buffer_rep_def)
  then show ?thesis using False assms by (simp add: Fill_def buffer_rep_def GetIndex_def)
qed

lemma Fill_rep [inv_intros]:
  assumes "buffer_rep sz b l" shows "buffer_rep sz (Fill b v) (l @ [v])"
proof -
  let ?P = "sz + 1" and ?t = "length l + 1"
  have len: "length (cb_buffer b) = ?P" using assms by (simp add: buffer_rep_def)
  have slots: "(cb_buffer b)[?t mod ?P := v] ! (p mod ?P) = (l @ [v]) ! (p - 1)"
    if p: "0 < p" "p \<le> ?t" "?t < p + ?P" for p
  proof (cases "p = ?t")
    case True
    then show ?thesis using len by simp
  next
    case False
    then have "p mod ?P \<noteq> ?t mod ?P" using p by (intro mod_distinct_window) auto
    moreover have "cb_buffer b ! (p mod ?P) = l ! (p - 1)"
      using assms p False by (simp add: buffer_rep_def)
    moreover have "p - 1 < length l" using p False by arith
    ultimately show ?thesis by (simp add: nth_append)
  qed
  show ?thesis
    unfolding buffer_rep_def Fill_slot [OF assms] using assms slots by (simp add: buffer_rep_def)
qed

lemma at_rep:
  "buffer_rep sz b l \<Longrightarrow> 0 < p \<Longrightarrow> p \<le> length l \<Longrightarrow> length l < p + (sz + 1) \<Longrightarrow> at b p = l ! (p - 1)"
  by (simp add: at_def GetIndex_def buffer_rep_def)

lemmas buffer_views = Empty_def Tail_def Head_def Size_def Back_def

lemma Back_rep: "buffer_rep sz b l \<Longrightarrow> l \<noteq> [] \<Longrightarrow> at b (Tail b) = last l"
  using at_rep [of sz b l "length l"] by (simp add: Tail_def buffer_rep_def last_conv_nth)

interpretation visitor: message_source sz "buffer_rep sz" Fill Fetch for sz
proof unfold_locales
  show "buffer_rep sz (Fill b v) (l @ [v])" if "buffer_rep sz b l" for b l v
    using that by (rule Fill_rep)
  show "Fetch i b = (i, None)" if "buffer_rep sz b l" "l = [] \<or> i = length l + 1" for b l i
    using that by (auto simp: Fetch_def buffer_views buffer_rep_def)
  show "Fetch i b = (length l, Some (last l))"
    if "buffer_rep sz b l" "l \<noteq> []" "i = 0 \<or> 0 < i \<and> i + sz \<le> length l" for b l i
    using that Back_rep [OF that(1,2)] by (auto simp: Fetch_def buffer_views buffer_rep_def)
  show "Fetch i b = (i, Some (l ! (i - 1)))"
    if "buffer_rep sz b l" "0 < i" "i \<le> length l" "length l < i + sz" for b l i
    using that at_rep [OF that(1,2,3)] by (auto simp: Fetch_def buffer_views buffer_rep_def)
qed

lemma Latest_rep: "buffer_rep sz b l \<Longrightarrow> Latest b = (if l = [] then None else Some (last l))"
  using Back_rep [of sz b l] by (auto simp: Latest_def buffer_views at_def buffer_rep_def)

lemma map_nth_tail: "n \<le> length l \<Longrightarrow> map (\<lambda>p. l ! (p - 1)) [length l - n + 1 ..< length l + 1] = drop (length l - n) l"
  by (rule nth_equalityI) (auto simp del: upt_Suc)

lemma FetchMulti_rep:
  assumes "buffer_rep sz b l"
  shows "FetchMulti k b = (if l = [] then None else Some (drop (length l - min k (min sz (length l))) l))"
proof (cases "l = []")
  case True
  then show ?thesis using assms by (simp add: FetchMulti_def Empty_def buffer_rep_def)
next
  case False
  let ?n = "min k (min sz (length l))"
  have ne: "\<not> Empty b" and tail: "Tail b = length l" and size: "min (Size b) k = ?n"
    using False assms by (auto simp: buffer_views buffer_rep_def)
  have "map (at b) [length l - ?n + 1 ..< length l + 1]
      = map (\<lambda>p. l ! (p - 1)) [length l - ?n + 1 ..< length l + 1]"
    using assms by (intro map_cong refl at_rep) auto
  also have "\<dots> = drop (length l - ?n) l" by (rule map_nth_tail) simp
  finally show ?thesis
    using False ne unfolding FetchMulti_def Let_def size tail by simp
qed

section \<open>Fusion of four channels\<close>

text \<open>
  \<open>AllLatest\<close> of four channels: the constructor sets a fusion callback on the first buffer, so a
  message filled into it is not stored there but fused with the latest messages of the others
  and, when all three have one, filled into the fusion buffer, whose size is that of the first.
\<close>

record ('a, 'b, 'c, 'd) all_latest =
  buffer_m0 :: "'a cache_buffer"
  buffer_m1 :: "'b cache_buffer"
  buffer_m2 :: "'c cache_buffer"
  buffer_m3 :: "'d cache_buffer"
  buffer_fusion :: "('a \<times> 'b \<times> 'c \<times> 'd) cache_buffer"

definition new_all_latest ::
  "'a cache_buffer \<Rightarrow> 'b cache_buffer \<Rightarrow> 'c cache_buffer \<Rightarrow> 'd cache_buffer \<Rightarrow> 'a \<times> 'b \<times> 'c \<times> 'd
     \<Rightarrow> ('a, 'b, 'c, 'd) all_latest"
where
  "new_all_latest b0 b1 b2 b3 d =
     \<lparr>buffer_m0 = b0, buffer_m1 = b1, buffer_m2 = b2, buffer_m3 = b3,
      buffer_fusion = new_cache_buffer d (cb_capacity b0 - 1)\<rparr>"

definition fusion_callback :: "('a, 'b, 'c, 'd) all_latest \<Rightarrow> 'a \<Rightarrow> ('a, 'b, 'c, 'd) all_latest" where
  "fusion_callback f m0 =
     (case (Latest (buffer_m1 f), Latest (buffer_m2 f), Latest (buffer_m3 f)) of
        (Some m1, Some m2, Some m3) \<Rightarrow> f\<lparr>buffer_fusion := Fill (buffer_fusion f) (m0, m1, m2, m3)\<rparr>
      | _ \<Rightarrow> f)"

definition Fusion :: "nat \<Rightarrow> ('a, 'b, 'c, 'd) all_latest \<Rightarrow> nat \<times> ('a \<times> 'b \<times> 'c \<times> 'd) option" where
  "Fusion index f = Fetch index (buffer_fusion f)"

datatype ('a, 'b, 'c, 'd) channel_msg = M0 'a | M1 'b | M2 'c | M3 'd

text \<open>What \<open>Fill\<close> of the message's channel buffer does, callback included.\<close>

fun fuse_msg :: "('a, 'b, 'c, 'd) channel_msg \<Rightarrow> ('a, 'b, 'c, 'd) all_latest \<Rightarrow> ('a, 'b, 'c, 'd) all_latest" where
  "fuse_msg (M0 x) f = fusion_callback f x"
| "fuse_msg (M1 x) f = f\<lparr>buffer_m1 := Fill (buffer_m1 f) x\<rparr>"
| "fuse_msg (M2 x) f = f\<lparr>buffer_m2 := Fill (buffer_m2 f) x\<rparr>"
| "fuse_msg (M3 x) f = f\<lparr>buffer_m3 := Fill (buffer_m3 f) x\<rparr>"

text \<open>
  The specification, over the channel messages in order: each first-channel message after the
  first message of every other channel, with the newest message of each of them.
\<close>

fun fused ::
  "'b option \<Rightarrow> 'c option \<Rightarrow> 'd option \<Rightarrow> ('a, 'b, 'c, 'd) channel_msg list \<Rightarrow> ('a \<times> 'b \<times> 'c \<times> 'd) list"
where
  "fused b c d [] = []"
| "fused b c d (M1 x # ms) = fused (Some x) c d ms"
| "fused b c d (M2 x # ms) = fused b (Some x) d ms"
| "fused b c d (M3 x # ms) = fused b c (Some x) ms"
| "fused b c d (M0 x # ms) =
     (case (b, c, d) of
        (Some y, Some z, Some w) \<Rightarrow> (x, y, z, w) # fused b c d ms
      | _ \<Rightarrow> fused b c d ms)"

definition last_opt :: "'x list \<Rightarrow> 'x option" where
  "last_opt l = (if l = [] then None else Some (last l))"

lemma fuse_refines:
  assumes "buffer_rep s1 (buffer_m1 f) l1" "buffer_rep s2 (buffer_m2 f) l2"
    and "buffer_rep s3 (buffer_m3 f) l3" "buffer_rep s (buffer_fusion f) l"
  shows "buffer_rep s (buffer_fusion (fold fuse_msg ms f))
           (l @ fused (last_opt l1) (last_opt l2) (last_opt l3) ms)"
  using assms
proof (induction ms arbitrary: f l l1 l2 l3)
  case Nil
  then show ?case by simp
next
  case (Cons m ms)
  have lo: "last_opt (k @ [x]) = Some x" for k and x :: 'x by (simp add: last_opt_def)
  show ?case
  proof (cases m)
    case (M0 x)
    have latest: "Latest (buffer_m1 f) = last_opt l1" "Latest (buffer_m2 f) = last_opt l2"
      "Latest (buffer_m3 f) = last_opt l3"
      using Cons.prems(1-3) by (simp_all add: Latest_rep last_opt_def)
    show ?thesis
    proof (cases "l1 = [] \<or> l2 = [] \<or> l3 = []")
      case True
      then have "fuse_msg m f = f"
        using latest by (auto simp: M0 fusion_callback_def last_opt_def split: option.splits)
      moreover have "fused (last_opt l1) (last_opt l2) (last_opt l3) (m # ms)
          = fused (last_opt l1) (last_opt l2) (last_opt l3) ms"
        using True by (auto simp: M0 last_opt_def split: option.splits)
      ultimately show ?thesis using Cons.IH [OF Cons.prems] by simp
    next
      case False
      let ?t = "(x, last l1, last l2, last l3)"
      have "fuse_msg m f = f\<lparr>buffer_fusion := Fill (buffer_fusion f) ?t\<rparr>"
        using False latest by (simp add: M0 fusion_callback_def last_opt_def)
      moreover have "fused (last_opt l1) (last_opt l2) (last_opt l3) (m # ms)
          = ?t # fused (last_opt l1) (last_opt l2) (last_opt l3) ms"
        using False by (simp add: M0 last_opt_def)
      ultimately show ?thesis
        using Cons.IH [of "fuse_msg m f" l1 l2 l3 "l @ [?t]"] Cons.prems by (simp add: Fill_rep)
    qed
  next
    case (M1 x)
    then show ?thesis
      using Cons.IH [of "fuse_msg m f" "l1 @ [x]" l2 l3 l] Cons.prems by (simp add: Fill_rep lo)
  next
    case (M2 x)
    then show ?thesis
      using Cons.IH [of "fuse_msg m f" l1 "l2 @ [x]" l3 l] Cons.prems by (simp add: Fill_rep lo)
  next
    case (M3 x)
    then show ?thesis
      using Cons.IH [of "fuse_msg m f" l1 l2 "l3 @ [x]" l] Cons.prems by (simp add: Fill_rep lo)
  qed
qed

section \<open>Properties\<close>



text \<open>
  After any sequence of messages, \<open>FetchMulti\<close> gives the last messages written, as
  many as asked for, as the buffer keeps and as there are, oldest first; \<open>Latest\<close> gives the last.
\<close>

theorem FetchMulti_is_window:
  "let b = fold (\<lambda>v b. Fill b v) l (new_cache_buffer d sz)
   in FetchMulti k b = (if l = [] then None else Some (drop (length l - min k (min sz (length l))) l)) \<and>
      Latest b = (if l = [] then None else Some (last l))"
proof -
  have "buffer_rep sz (fold (\<lambda>v b. Fill b v) l (new_cache_buffer d sz)) l"
  proof (induction l rule: rev_induct)
    case Nil
    then show ?case by (simp add: new_cache_buffer_rep)
  next
    case (snoc x l)
    then show ?case by (simp add: Fill_rep)
  qed
  then show ?thesis by (simp add: FetchMulti_rep Latest_rep)
qed

text \<open>
  Property C18. The fusion buffer holds exactly the specified tuples: each message of the first
  channel with the newest of the other three at that moment, from the moment all three have one.
\<close>

theorem all_latest_fuses:
  assumes "f = new_all_latest (new_cache_buffer d0 n0) (new_cache_buffer d1 n1) (new_cache_buffer d2 n2)
                 (new_cache_buffer d3 n3) d"
    and "t = fused None None None ms"
  shows "FetchMulti k (buffer_fusion (fold fuse_msg ms f))
           = (if t = [] then None else Some (drop (length t - min k (min n0 (length t))) t))"
proof -
  have "cb_capacity (new_cache_buffer d0 n0) - 1 = n0" by (simp add: new_cache_buffer_def)
  then have "buffer_rep n0 (buffer_fusion (fold fuse_msg ms f))
          ([] @ fused (last_opt []) (last_opt []) (last_opt []) ms)"
    by (intro fuse_refines [of n1 _ _ n2 _ n3])
      (simp_all add: assms(1) new_all_latest_def new_cache_buffer_rep)
  then have "buffer_rep n0 (buffer_fusion (fold fuse_msg ms f)) t"
    by (simp add: assms(2) last_opt_def)
  then show ?thesis by (rule FetchMulti_rep)
qed

theorem all_latest_fuses_witness:
  "FetchMulti 5 (buffer_fusion (fold fuse_msg
      [M0 1, M1 CHR ''a'', M2 (), M3 True, M0 (2 :: int), M1 CHR ''b'', M0 3]
      (new_all_latest (new_cache_buffer 0 4) (new_cache_buffer CHR ''x'' 1) (new_cache_buffer () 1)
         (new_cache_buffer False 1) (0, CHR ''x'', (), False))))
   = Some [(2, CHR ''a'', (), True), (3, CHR ''b'', (), True)]"
  by (subst all_latest_fuses [OF refl refl]) simp

end
