(* ===== verification/DataDispatcher.thy ===== *)
theory DataDispatcher
  imports AtomicHashMap ChannelBuffer
begin

text \<open>
  The dispatcher that copies a channel's message into the buffer of every reader
  (\<open>cyber/data/data_dispatcher.h\<close>) and the notifier that wakes them (\<open>data_notifier.h\<close>). Both
  keep a vector per channel in an atomic hash map. A buffer or a notifier is an address: the
  buffers live in a heap whose entry is None once the last owner is gone (the dispatcher holds
  weak pointers), and \<open>callback_set\<close> says which notifiers are not null and have a callback.
\<close>

type_synonym channel = u64

section \<open>The notifier\<close>

definition AddNotifier :: "channel \<Rightarrow> nat \<Rightarrow> nat list hash_map \<Rightarrow> nat list hash_map" where
  "AddNotifier channel_id notifier m = append_or_set hm_Get hm_Set m channel_id notifier"

text \<open>The value returned and the notifiers whose callback runs, in order.\<close>

definition Notify :: "(nat \<Rightarrow> bool) \<Rightarrow> channel \<Rightarrow> nat list hash_map \<Rightarrow> bool \<times> nat list" where
  "Notify callback_set channel_id m =
     (case hm_Get m channel_id of
        Some ns \<Rightarrow> (True, filter callback_set ns)
      | None \<Rightarrow> (False, []))"

section \<open>The dispatcher\<close>

record 'b dispatcher =
  buffers_map :: "nat list hash_map"
  notifies_map :: "nat list hash_map"
  heap :: "nat \<rightharpoonup> 'b"

definition AddBuffer :: "channel \<Rightarrow> nat \<Rightarrow> 'b dispatcher \<Rightarrow> 'b dispatcher" where
  "AddBuffer channel_id buffer d =
     d\<lparr>buffers_map := append_or_set hm_Get hm_Set (buffers_map d) channel_id buffer\<rparr>"

definition fill_buffers :: "('b \<Rightarrow> 'a \<Rightarrow> 'b) \<Rightarrow> 'a \<Rightarrow> nat list \<Rightarrow> (nat \<rightharpoonup> 'b) \<Rightarrow> (nat \<rightharpoonup> 'b)" where
  "fill_buffers fill msg ps h =
     fold (\<lambda>p h. case h p of Some b \<Rightarrow> h(p \<mapsto> fill b msg) | None \<Rightarrow> h) ps h"

definition Dispatch ::
  "('b \<Rightarrow> 'a \<Rightarrow> 'b) \<Rightarrow> (nat \<Rightarrow> bool) \<Rightarrow> bool \<Rightarrow> channel \<Rightarrow> 'a \<Rightarrow> 'b dispatcher
     \<Rightarrow> bool \<times> nat list \<times> 'b dispatcher"
where
  "Dispatch fill callback_set shutdown channel_id msg d =
     (if shutdown then (False, [], d)
      else case hm_Get (buffers_map d) channel_id of
             Some ps \<Rightarrow>
               let d' = d\<lparr>heap := fill_buffers fill msg ps (heap d)\<rparr>;
                   (r, called) = Notify callback_set channel_id (notifies_map d)
               in (r, called, d')
           | None \<Rightarrow> (False, [], d))"

text \<open>What happens to a dispatcher: registrations, messages, and buffers that go away.\<close>

datatype 'a dispatch_event = Add channel nat | Msg channel 'a | Gone nat

fun dispatch_step :: "('b \<Rightarrow> 'a \<Rightarrow> 'b) \<Rightarrow> 'a dispatch_event \<Rightarrow> 'b dispatcher \<Rightarrow> 'b dispatcher" where
  "dispatch_step fill (Add c p) d = AddBuffer c p d"
| "dispatch_step fill (Msg c m) d = snd (snd (Dispatch fill (\<lambda>_. True) False c m d))"
| "dispatch_step fill (Gone p) d = d\<lparr>heap := (heap d)(p := None)\<rparr>"

text \<open>
  The specification: the messages buffer \<open>p\<close> gets, one copy for each time it is registered on
  the message's channel, given the registrations so far.
\<close>

fun delivered :: "nat \<Rightarrow> (channel \<times> nat) list \<Rightarrow> 'a dispatch_event list \<Rightarrow> 'a list" where
  "delivered p regs [] = []"
| "delivered p regs (Add c q # es) = delivered p (regs @ [(c, q)]) es"
| "delivered p regs (Msg c m # es) = replicate (count_list regs (c, p)) m @ delivered p regs es"
| "delivered p regs (Gone q # es) = delivered p regs es"

section \<open>Delivery\<close>

lemma fill_buffers_one:
  "h p = Some b \<Longrightarrow>
     fill_buffers fill msg ps h p = Some (((\<lambda>b. fill b msg) ^^ count_list ps p) b)"
proof (induction ps arbitrary: h b)
  case Nil
  then show ?case by (simp add: fill_buffers_def)
next
  case (Cons q ps)
  let ?h = "case h q of Some b \<Rightarrow> h(q \<mapsto> fill b msg) | None \<Rightarrow> h"
  have step: "fill_buffers fill msg (q # ps) h = fill_buffers fill msg ps ?h"
    by (simp add: fill_buffers_def)
  show ?case
  proof (cases "q = p")
    case True
    then have "?h p = Some (fill b msg)" using Cons.prems by simp
    from Cons.IH [of ?h "fill b msg", OF this] show ?thesis unfolding step using True by (simp add: funpow_swap1 [where f = "\<lambda>b. fill b msg"])
  next
    case False
    then have "?h p = Some b" using Cons.prems by (auto split: option.splits)
    from Cons.IH [of ?h b, OF this] show ?thesis unfolding step using False by simp
  qed
qed

text \<open>The registrations, as the buffer map holds them.\<close>

definition registered :: "'b dispatcher \<Rightarrow> (channel \<times> nat) list \<Rightarrow> bool" where
  "registered d regs \<longleftrightarrow> hm_ok (buffers_map d) \<and>
     (\<forall>c. hmulti.entries (buffers_map d) c = map snd (filter (\<lambda>r. fst r = c) regs))"

lemma count_list_registered:
  "count_list (map snd (filter (\<lambda>r. fst r = c) regs)) p = count_list regs (c, p)"
  by (induction regs) (auto simp: prod_eq_iff)

lemma registered_AddBuffer [inv_intros]:
  "registered d regs \<Longrightarrow> registered (AddBuffer c p d) (regs @ [(c, p)])"
  by (auto simp: registered_def AddBuffer_def hmulti.append_ok hmulti.entries_append)

lemma Dispatch_heap:
  "snd (snd (Dispatch fill cs False c m d))
     = d\<lparr>heap := fill_buffers fill m (hmulti.entries (buffers_map d) c) (heap d)\<rparr>"
  by (auto simp: Dispatch_def hmulti.entries_def fill_buffers_def Let_def split: option.splits prod.splits)

lemma Fill_funpow_rep:
  "buffer_rep sz b l \<Longrightarrow> buffer_rep sz (((\<lambda>b. Fill b m) ^^ k) b) (l @ replicate k m)"
proof (induction k)
  case 0
  then show ?case by simp
next
  case (Suc k)
  then have "buffer_rep sz (Fill (((\<lambda>b. Fill b m) ^^ k) b) m) ((l @ replicate k m) @ [m])"
    by (intro Fill_rep) simp
  then show ?case by (simp add: replicate_append_same)
qed

lemma dispatch_run_delivers:
  assumes "registered d regs" "heap d p = Some b" "buffer_rep sz b l" "Gone p \<notin> set es"
  shows "\<exists>b'. heap (fold (dispatch_step Fill) es d) p = Some b' \<and>
           buffer_rep sz b' (l @ delivered p regs es)"
  using assms
proof (induction es arbitrary: d regs b l)
  case Nil
  then show ?case by simp
next
  case (Cons e es)
  show ?case
  proof (cases e)
    case (Add c q)
    then show ?thesis
      using Cons.IH [OF registered_AddBuffer [OF Cons.prems(1), of c q], of b l] Cons.prems
      by (simp add: AddBuffer_def)
  next
    case (Msg c m)
    let ?ps = "hmulti.entries (buffers_map d) c"
    let ?d = "d\<lparr>heap := fill_buffers Fill m ?ps (heap d)\<rparr>"
    have n: "count_list ?ps p = count_list regs (c, p)"
      using Cons.prems(1) by (simp add: registered_def count_list_registered)
    have reg: "registered ?d regs" using Cons.prems(1) by (simp add: registered_def)
    have at: "heap ?d p = Some (((\<lambda>b. Fill b m) ^^ count_list regs (c, p)) b)"
      using fill_buffers_one [of "heap d" p b Fill m ?ps] Cons.prems(2) n by simp
    from Cons.IH [OF reg at Fill_funpow_rep [OF Cons.prems(3)]] Cons.prems(4) show ?thesis
      by (simp add: Msg Dispatch_heap)
  next
    case (Gone q)
    then have "q \<noteq> p" using Cons.prems(4) by auto
    then show ?thesis
      using Gone Cons.IH [of "d\<lparr>heap := (heap d)(q := None)\<rparr>" regs b l] Cons.prems
      by (simp add: registered_def)
  qed
qed

text \<open>
  Property C20. A buffer that stays alive and is read with \<open>FetchMulti\<close> shows, after any sequence
  of registrations, messages and destructions of other buffers, the last messages dispatched on
  the channels it was registered for since it was registered, once per registration, in order:
  no message of another channel, none lost and none delivered to the wrong buffer.
\<close>

theorem dispatch_delivers:
  assumes "heap d p = Some (new_cache_buffer x sz)" and "buffers_map d = new_hash_map 128"
    and "Gone p \<notin> set es" and "t = delivered p [] es"
  shows "map_option (FetchMulti k) (heap (fold (dispatch_step Fill) es d) p)
           = Some (if t = [] then None else Some (drop (length t - min k (min sz (length t))) t))"
proof -
  have ok: "hm_ok (new_hash_map 128 :: nat list hash_map)" using new_hash_map_ok [of 7] by simp
  then have "hm_Get (new_hash_map 128 :: nat list hash_map) c = None" for c
    using hm_index_less [OF ok, of c] unfolding hm_Get_def by (simp add: new_hash_map_def)
  then have "registered d []"
    using ok by (simp add: registered_def hmulti.entries_def assms(2))
  from dispatch_run_delivers [OF this assms(1) new_cache_buffer_rep assms(3)]
  obtain b where "heap (fold (dispatch_step Fill) es d) p = Some b" "buffer_rep sz b t"
    using assms(4) by auto
  with FetchMulti_rep [OF this(2), of k] show ?thesis by simp
qed

theorem dispatch_delivers_witness:
  "map_option (FetchMulti 3) (heap (fold (dispatch_step Fill)
      [Msg 5 0, Add 5 1, Msg 5 10, Msg 133 99, Add 133 2, Gone 2, Msg 5 (20 :: int)]
      \<lparr>buffers_map = new_hash_map 128, notifies_map = new_hash_map 128,
       heap = (\<lambda>p. Some (new_cache_buffer 0 4))\<rparr>) 1) = Some (Some [10, 20])"
  by (subst dispatch_delivers [where x = 0 and sz = 4, OF _ _ _ refl]) simp_all

end
