(* ===== verification/RWLocks.thy ===== *)
theory RWLocks
  imports Prelude
begin

text \<open>
  The reader-writer locks built on one atomic counter: \<open>AtomicRWLock\<close>
  (\<open>cyber/base/atomic_rw_lock.h\<close>), the lock of a shared-memory block
  (\<open>cyber/transport/shm/block.cc\<close>) and \<open>ReentrantRWLock\<close> (\<open>cyber/base/reentrant_rw_lock.h\<close>).
  Threads are numbered; each has a program counter with the values its code has loaded, and a
  step is one atomic access of one thread (sequentially consistent). A weak compare-and-swap may
  fail spuriously, which the \<open>spurious\<close> argument of a step says. The retry counter only decides
  when a thread yields and is left out, except in \<open>TryLockForRead\<close>, which gives up.
\<close>

definition RW_LOCK_FREE :: int where
  "RW_LOCK_FREE = 0"

definition WRITE_EXCLUSIVE :: int where
  "WRITE_EXCLUSIVE = -1"

lemmas lock_words = RW_LOCK_FREE_def WRITE_EXCLUSIVE_def

section \<open>What a counting lock does\<close>

text \<open>
  The abstract lock: the word and the sets of threads that hold it for reading and for writing.
\<close>

inductive lock_change :: "int \<times> nat set \<times> nat set \<Rightarrow> int \<times> nat set \<times> nat set \<Rightarrow> bool" where
  silent: "lock_change (w, R, W) (w, R, W)"
| read_acquire: "0 \<le> w \<Longrightarrow> i \<notin> R \<Longrightarrow> lock_change (w, R, W) (w + 1, insert i R, W)"
| write_acquire: "w = 0 \<Longrightarrow> lock_change (w, R, W) (-1, R, insert i W)"
| read_release: "i \<in> R \<Longrightarrow> lock_change (w, R, W) (w - 1, R - {i}, W)"
| write_release: "i \<in> W \<Longrightarrow> lock_change (w, R, W) (w + 1, R, W - {i})"

definition lock_inv :: "int \<times> nat set \<times> nat set \<Rightarrow> bool" where
  "lock_inv v = (case v of (w, R, W) \<Rightarrow>
     finite R \<and> (W = {} \<and> w = int (card R) \<or> R = {} \<and> (\<exists>i. W = {i}) \<and> w = -1))"

lemma lock_change_inv [inv_intros]: "lock_change v v' \<Longrightarrow> lock_inv v \<Longrightarrow> lock_inv v'"
proof (induction rule: lock_change.induct)
  case (silent w R W)
  then show ?case .
next
  case (read_acquire w i R W)
  then show ?case by (auto simp: lock_inv_def)
next
  case (write_acquire w R W i)
  then have "W = {}" "R = {}" by (auto simp: lock_inv_def)
  then show ?case by (simp add: lock_inv_def)
next
  case (read_release i R w W)
  then have "finite R" "W = {}" "w = int (card R)" by (auto simp: lock_inv_def)
  moreover from this read_release(1) have "0 < card R" by (auto simp: card_gt_0_iff)
  ultimately show ?case
    using read_release(1) by (simp add: lock_inv_def card_Diff_singleton of_nat_diff)
next
  case (write_release i W w R)
  then have "W = {i}" "R = {}" "w = -1" by (auto simp: lock_inv_def)
  then show ?case by (simp add: lock_inv_def)
qed

text \<open>
  The contract: a lock implementation whose every step is one of these changes, as long as its
  own invariant \<open>good\<close> holds.
\<close>

locale counting_lock =
  fixes init :: 's
    and step :: "'s \<Rightarrow> 's \<Rightarrow> bool"
    and good :: "'s \<Rightarrow> bool"
    and view :: "'s \<Rightarrow> int \<times> nat set \<times> nat set"
  assumes init_good: "good init"
    and init_view: "view init = (0, {}, {})"
    and step_good: "good s \<Longrightarrow> step s s' \<Longrightarrow> good s'"
    and step_change: "good s \<Longrightarrow> step s s' \<Longrightarrow> lock_change (view s) (view s')"
begin

lemma reach_inv: "step\<^sup>*\<^sup>* init s \<Longrightarrow> good s \<and> lock_inv (view s)"
proof (induction rule: rtranclp_induct)
  case base
  then show ?case by (simp add: init_good init_view lock_inv_def)
next
  case (step s s')
  then show ?case using step_good step_change lock_change_inv by blast
qed

lemma exclusion:
  assumes "step\<^sup>*\<^sup>* init s" "view s = (w, R, W)"
  shows "(W = {} \<or> R = {} \<and> (\<exists>i. W = {i})) \<and> w = (if W = {} then int (card R) else -1)"
  using reach_inv [OF assms(1)] assms(2) by (auto simp: lock_inv_def)

end

section \<open>AtomicRWLock\<close>

datatype rw_pc =
    Idle
  | RLoad                   \<comment> \<open>about to load \<open>lock_num_\<close>\<close>
  | RCheck int              \<comment> \<open>at the inner \<open>while\<close> with this \<open>lock_num\<close>\<close>
  | RCas int                \<comment> \<open>at the compare-and-swap of this \<open>lock_num\<close>\<close>
  | Reading
  | WInc                    \<comment> \<open>about to add itself to the waiting writers\<close>
  | WCas                    \<comment> \<open>at the compare-and-swap from \<open>RW_LOCK_FREE\<close>\<close>
  | WDec                    \<comment> \<open>lock taken, about to leave the waiting writers\<close>
  | Writing

record rw_lock =
  lock_num :: int
  write_lock_wait_num :: nat

definition AtomicRWLock_ReadLock :: "bool \<Rightarrow> bool \<Rightarrow> rw_pc \<Rightarrow> rw_lock \<Rightarrow> rw_pc \<times> rw_lock" where
  "AtomicRWLock_ReadLock write_first spurious pc l =
     (case pc of
        RLoad \<Rightarrow> (RCheck (lock_num l), l)
      | RCheck n \<Rightarrow>
          if n < RW_LOCK_FREE \<or> write_first \<and> write_lock_wait_num l > 0
          then (RLoad, l) else (RCas n, l)
      | RCas n \<Rightarrow>
          if lock_num l = n \<and> \<not> spurious then (Reading, l\<lparr>lock_num := n + 1\<rparr>)
          else (RCheck (lock_num l), l)
      | _ \<Rightarrow> (pc, l))"

definition AtomicRWLock_WriteLock :: "bool \<Rightarrow> rw_pc \<Rightarrow> rw_lock \<Rightarrow> rw_pc \<times> rw_lock" where
  "AtomicRWLock_WriteLock spurious pc l =
     (case pc of
        WInc \<Rightarrow> (WCas, l\<lparr>write_lock_wait_num := write_lock_wait_num l + 1\<rparr>)
      | WCas \<Rightarrow>
          if lock_num l = RW_LOCK_FREE \<and> \<not> spurious then (WDec, l\<lparr>lock_num := WRITE_EXCLUSIVE\<rparr>)
          else (WCas, l)
      | WDec \<Rightarrow> (Writing, l\<lparr>write_lock_wait_num := write_lock_wait_num l - 1\<rparr>)
      | _ \<Rightarrow> (pc, l))"

definition AtomicRWLock_ReadUnlock :: "rw_lock \<Rightarrow> rw_lock" where
  "AtomicRWLock_ReadUnlock l = l\<lparr>lock_num := lock_num l - 1\<rparr>"

definition AtomicRWLock_WriteUnlock :: "rw_lock \<Rightarrow> rw_lock" where
  "AtomicRWLock_WriteUnlock l = l\<lparr>lock_num := lock_num l + 1\<rparr>"

record rw_system =
  the_lock :: rw_lock
  pcs :: "nat \<Rightarrow> rw_pc"

definition rw_init :: rw_system where
  "rw_init = \<lparr>the_lock = \<lparr>lock_num = 0, write_lock_wait_num = 0\<rparr>, pcs = (\<lambda>_. Idle)\<rparr>"

text \<open>
  Threads use the lock through the guards of \<open>rw_lock_guard.h\<close>: lock in the constructor, unlock
  in the destructor, one guard at a time.
\<close>

inductive rw_step :: "bool \<Rightarrow> rw_system \<Rightarrow> rw_system \<Rightarrow> bool" for write_first :: bool where
  start_read: "pcs s i = Idle \<Longrightarrow> rw_step write_first s (s\<lparr>pcs := (pcs s)(i := RLoad)\<rparr>)"
| start_write: "pcs s i = Idle \<Longrightarrow> rw_step write_first s (s\<lparr>pcs := (pcs s)(i := WInc)\<rparr>)"
| read_lock: "AtomicRWLock_ReadLock write_first spurious (pcs s i) (the_lock s) = (pc', l') \<Longrightarrow>
    rw_step write_first s (s\<lparr>the_lock := l', pcs := (pcs s)(i := pc')\<rparr>)"
| write_lock: "AtomicRWLock_WriteLock spurious (pcs s i) (the_lock s) = (pc', l') \<Longrightarrow>
    rw_step write_first s (s\<lparr>the_lock := l', pcs := (pcs s)(i := pc')\<rparr>)"
| read_unlock: "pcs s i = Reading \<Longrightarrow>
    rw_step write_first s (s\<lparr>the_lock := AtomicRWLock_ReadUnlock (the_lock s), pcs := (pcs s)(i := Idle)\<rparr>)"
| write_unlock: "pcs s i = Writing \<Longrightarrow>
    rw_step write_first s (s\<lparr>the_lock := AtomicRWLock_WriteUnlock (the_lock s), pcs := (pcs s)(i := Idle)\<rparr>)"

definition rw_readers :: "rw_system \<Rightarrow> nat set" where
  "rw_readers s = {i. pcs s i = Reading}"

definition rw_writers :: "rw_system \<Rightarrow> nat set" where
  "rw_writers s = {i. pcs s i = WDec \<or> pcs s i = Writing}"

definition rw_view :: "rw_system \<Rightarrow> int \<times> nat set \<times> nat set" where
  "rw_view s = (lock_num (the_lock s), rw_readers s, rw_writers s)"

definition rw_good :: "rw_system \<Rightarrow> bool" where
  "rw_good s \<longleftrightarrow> (\<forall>i n. pcs s i = RCas n \<longrightarrow> 0 \<le> n)"


lemma Collect_fun_upd: "{j. P ((f(i := x)) j)} = (if P x then insert i {j. P (f j)} else {j. P (f j)} - {i})"
  by auto

lemmas rw_view_defs = rw_view_def rw_readers_def rw_writers_def

lemma rw_view_upd:
  "rw_view (s\<lparr>the_lock := l', pcs := (pcs s)(i := pc')\<rparr>)
     = (lock_num l',
        if pc' = Reading then insert i (rw_readers s) else rw_readers s - {i},
        if pc' = WDec \<or> pc' = Writing then insert i (rw_writers s) else rw_writers s - {i})"
  by (auto simp: rw_view_defs)

lemma rw_view_upd_pcs:
  "rw_view (s\<lparr>pcs := (pcs s)(i := pc')\<rparr>)
     = (lock_num (the_lock s),
        if pc' = Reading then insert i (rw_readers s) else rw_readers s - {i},
        if pc' = WDec \<or> pc' = Writing then insert i (rw_writers s) else rw_writers s - {i})"
  by (auto simp: rw_view_defs)

lemma rw_step_good: "rw_step write_first s s' \<Longrightarrow> rw_good s \<Longrightarrow> rw_good s'"
  by (induction rule: rw_step.induct)
    (auto simp: rw_good_def AtomicRWLock_ReadLock_def AtomicRWLock_WriteLock_def lock_words
       split: rw_pc.splits if_splits)

lemma rw_holders:
  "pcs s i = Reading \<Longrightarrow> i \<in> rw_readers s" "pcs s i \<noteq> Reading \<Longrightarrow> i \<notin> rw_readers s"
  "pcs s i = Writing \<Longrightarrow> i \<in> rw_writers s" "pcs s i = WDec \<Longrightarrow> i \<in> rw_writers s"
  "pcs s i \<noteq> WDec \<Longrightarrow> pcs s i \<noteq> Writing \<Longrightarrow> i \<notin> rw_writers s"
  by (auto simp: rw_readers_def rw_writers_def)

lemma rw_step_change: "rw_step write_first s s' \<Longrightarrow> rw_good s \<Longrightarrow> lock_change (rw_view s) (rw_view s')"
proof (induction rule: rw_step.induct)
  case (start_read s i)
  then show ?case unfolding rw_view_upd_pcs by (simp add: rw_view_def rw_holders lock_change.intros)
next
  case (start_write s i)
  then show ?case unfolding rw_view_upd_pcs by (simp add: rw_view_def rw_holders lock_change.intros)
next
  case (read_lock spurious s i pc' l')
  then show ?case unfolding rw_view_upd
    by (cases "pcs s i")
      (auto simp: AtomicRWLock_ReadLock_def rw_view_def rw_good_def rw_holders insert_absorb
        intro!: lock_change.intros split: if_splits)
next
  case (write_lock spurious s i pc' l')
  then show ?case unfolding rw_view_upd
    by (cases "pcs s i")
      (auto simp: AtomicRWLock_WriteLock_def rw_view_def lock_words rw_holders insert_absorb
        intro!: lock_change.intros split: if_splits)
next
  case (read_unlock s i)
  then show ?case unfolding rw_view_upd
    by (simp add: AtomicRWLock_ReadUnlock_def rw_view_def rw_holders lock_change.intros)
next
  case (write_unlock s i)
  then show ?case unfolding rw_view_upd
    by (simp add: AtomicRWLock_WriteUnlock_def rw_view_def rw_holders lock_change.intros)
qed

interpretation atomic_lock: counting_lock rw_init "rw_step write_first" rw_good rw_view for write_first
proof unfold_locales
  show "rw_good rw_init" by (simp add: rw_good_def rw_init_def)
  show "rw_view rw_init = (0, {}, {})" by (simp add: rw_view_defs rw_init_def)
qed (use rw_step_good rw_step_change in blast)+

text \<open>
  Property C33. In every reachable state of any number of threads using an \<open>AtomicRWLock\<close> through
  its guards, whatever the write preference, at most one thread holds it for writing, none holds
  it for reading then, and the lock word is -1 with a writer and else the number of readers: in
  particular it is free again once every guard is gone.
\<close>

theorem atomic_rw_lock_exclusion:
  assumes "(rw_step write_first)\<^sup>*\<^sup>* rw_init s"
  shows "(rw_writers s = {} \<or> rw_readers s = {} \<and> (\<exists>i. rw_writers s = {i})) \<and>
         lock_num (the_lock s) = (if rw_writers s = {} then int (card (rw_readers s)) else WRITE_EXCLUSIVE)"
  using atomic_lock.exclusion [OF assms rw_view_def] by (simp add: lock_words)

theorem atomic_rw_lock_exclusion_witness:
  "lock_num (the_lock \<lparr>the_lock = \<lparr>lock_num = 1, write_lock_wait_num = 0\<rparr>,
                        pcs = (\<lambda>_. Idle)(3 := Reading)\<rparr>) = 1"
proof -
  let ?s = "\<lambda>n pc. \<lparr>the_lock = \<lparr>lock_num = n, write_lock_wait_num = 0\<rparr>, pcs = (\<lambda>_. Idle)(3 := pc)\<rparr>"
  have 1: "rw_step True rw_init (?s 0 RLoad)"
    using rw_step.start_read [of rw_init 3 True] by (simp add: rw_init_def)
  have 2: "rw_step True (?s 0 RLoad) (?s 0 (RCheck 0))"
    using rw_step.read_lock [of True False "?s 0 RLoad" 3] by (simp add: AtomicRWLock_ReadLock_def)
  have 3: "rw_step True (?s 0 (RCheck 0)) (?s 0 (RCas 0))"
    using rw_step.read_lock [of True False "?s 0 (RCheck 0)" 3]
    by (simp add: AtomicRWLock_ReadLock_def lock_words)
  have 4: "rw_step True (?s 0 (RCas 0)) (?s 1 Reading)"
    using rw_step.read_lock [of True False "?s 0 (RCas 0)" 3] by (simp add: AtomicRWLock_ReadLock_def)
  have "(rw_step True)\<^sup>*\<^sup>* rw_init (?s 1 Reading)"
    using 1 2 3 4 by (meson r_into_rtranclp rtranclp_trans)
  from atomic_rw_lock_exclusion [OF this] show ?thesis by simp
qed

section \<open>The lock of a shared-memory block\<close>

datatype block_pc =
    BIdle
  | BRLoad nat              \<comment> \<open>about to load \<open>lock_num_\<close>, after this many failed tries\<close>
  | BRCas int nat
  | BReading
  | BWCas
  | BWriting

definition kMaxTryLockTimes :: nat where
  "kMaxTryLockTimes = 5"

definition Block_TryLockForWrite :: "bool \<Rightarrow> int \<Rightarrow> bool \<times> int" where
  "Block_TryLockForWrite spurious word =
     (if word = RW_LOCK_FREE \<and> \<not> spurious then (True, WRITE_EXCLUSIVE) else (False, word))"

definition Block_TryLockForRead :: "bool \<Rightarrow> block_pc \<Rightarrow> int \<Rightarrow> block_pc \<times> int" where
  "Block_TryLockForRead spurious pc word =
     (case pc of
        BRLoad try_times \<Rightarrow>
          if word < RW_LOCK_FREE then (BIdle, word) else (BRCas word try_times, word)
      | BRCas n try_times \<Rightarrow>
          if word = n \<and> \<not> spurious then (BReading, n + 1)
          else if try_times + 1 = kMaxTryLockTimes then (BIdle, word)
          else (BRLoad (try_times + 1), word)
      | _ \<Rightarrow> (pc, word))"

definition Block_ReleaseWriteLock :: "int \<Rightarrow> int" where
  "Block_ReleaseWriteLock word = word + 1"

definition Block_ReleaseReadLock :: "int \<Rightarrow> int" where
  "Block_ReleaseReadLock word = word - 1"

record block_system =
  block_num :: int
  block_pcs :: "nat \<Rightarrow> block_pc"

definition block_init :: block_system where
  "block_init = \<lparr>block_num = 0, block_pcs = (\<lambda>_. BIdle)\<rparr>"

inductive block_step :: "block_system \<Rightarrow> block_system \<Rightarrow> bool" where
  b_start_read: "block_pcs s i = BIdle \<Longrightarrow> block_step s (s\<lparr>block_pcs := (block_pcs s)(i := BRLoad 0)\<rparr>)"
| b_read: "Block_TryLockForRead spurious (block_pcs s i) (block_num s) = (pc', n') \<Longrightarrow>
    block_step s (s\<lparr>block_num := n', block_pcs := (block_pcs s)(i := pc')\<rparr>)"
| b_write: "block_pcs s i = BIdle \<Longrightarrow> Block_TryLockForWrite spurious (block_num s) = (ok, n') \<Longrightarrow>
    block_step s (s\<lparr>block_num := n', block_pcs := (block_pcs s)(i := if ok then BWriting else BIdle)\<rparr>)"
| b_read_release: "block_pcs s i = BReading \<Longrightarrow>
    block_step s (s\<lparr>block_num := Block_ReleaseReadLock (block_num s),
                    block_pcs := (block_pcs s)(i := BIdle)\<rparr>)"
| b_write_release: "block_pcs s i = BWriting \<Longrightarrow>
    block_step s (s\<lparr>block_num := Block_ReleaseWriteLock (block_num s),
                    block_pcs := (block_pcs s)(i := BIdle)\<rparr>)"

definition block_readers :: "block_system \<Rightarrow> nat set" where
  "block_readers s = {i. block_pcs s i = BReading}"

definition block_writers :: "block_system \<Rightarrow> nat set" where
  "block_writers s = {i. block_pcs s i = BWriting}"

definition block_view :: "block_system \<Rightarrow> int \<times> nat set \<times> nat set" where
  "block_view s = (block_num s, block_readers s, block_writers s)"

definition block_good :: "block_system \<Rightarrow> bool" where
  "block_good s \<longleftrightarrow> (\<forall>i n t. block_pcs s i = BRCas n t \<longrightarrow> 0 \<le> n \<and> t < kMaxTryLockTimes) \<and>
     (\<forall>i t. block_pcs s i = BRLoad t \<longrightarrow> t < kMaxTryLockTimes)"

lemma block_view_upd:
  "block_view (s\<lparr>block_num := n', block_pcs := (block_pcs s)(i := pc')\<rparr>)
     = (n', if pc' = BReading then insert i (block_readers s) else block_readers s - {i},
        if pc' = BWriting then insert i (block_writers s) else block_writers s - {i})"
  "block_view (s\<lparr>block_pcs := (block_pcs s)(i := pc')\<rparr>)
     = (block_num s, if pc' = BReading then insert i (block_readers s) else block_readers s - {i},
        if pc' = BWriting then insert i (block_writers s) else block_writers s - {i})"
  by (auto simp: block_view_def block_readers_def block_writers_def)

lemma block_holders:
  "block_pcs s i = BReading \<Longrightarrow> i \<in> block_readers s" "block_pcs s i \<noteq> BReading \<Longrightarrow> i \<notin> block_readers s"
  "block_pcs s i = BWriting \<Longrightarrow> i \<in> block_writers s" "block_pcs s i \<noteq> BWriting \<Longrightarrow> i \<notin> block_writers s"
  by (auto simp: block_readers_def block_writers_def)

lemma block_step_good: "block_step s s' \<Longrightarrow> block_good s \<Longrightarrow> block_good s'"
  by (induction rule: block_step.induct)
    (fastforce simp: block_good_def Block_TryLockForRead_def lock_words kMaxTryLockTimes_def
       split: block_pc.splits if_splits)+

lemma block_step_change: "block_step s s' \<Longrightarrow> block_good s \<Longrightarrow> lock_change (block_view s) (block_view s')"
proof (induction rule: block_step.induct)
  case (b_start_read s i)
  then show ?case unfolding block_view_upd by (simp add: block_view_def block_holders lock_change.silent)
next
  case (b_read spurious s i pc' n')
  then show ?case unfolding block_view_upd
    by (cases "block_pcs s i")
      (auto simp: Block_TryLockForRead_def block_view_def block_good_def block_holders insert_absorb
        intro!: lock_change.intros split: if_splits)
next
  case (b_write s i spurious ok n')
  then show ?case unfolding block_view_upd
    by (auto simp: Block_TryLockForWrite_def block_view_def lock_words block_holders
        intro!: lock_change.intros split: if_splits)
next
  case (b_read_release s i)
  then show ?case unfolding block_view_upd
    by (simp add: Block_ReleaseReadLock_def block_view_def block_holders lock_change.intros)
next
  case (b_write_release s i)
  then show ?case unfolding block_view_upd
    by (simp add: Block_ReleaseWriteLock_def block_view_def block_holders lock_change.intros)
qed

interpretation block_lock: counting_lock block_init block_step block_good block_view
proof unfold_locales
  show "block_good block_init" by (simp add: block_good_def block_init_def)
  show "block_view block_init = (0, {}, {})"
    by (simp add: block_view_def block_readers_def block_writers_def block_init_def)
qed (use block_step_good block_step_change in blast)+

text \<open>
  The lock of a shared-memory block never lets a writer in beside another writer or
  a reader, though attempts are given up after a failed try or five; a block with no holder has
  the word 0, so that it can be taken again.
\<close>

theorem block_lock_exclusion:
  assumes "block_step\<^sup>*\<^sup>* block_init s"
  shows "(block_writers s = {} \<or> block_readers s = {} \<and> (\<exists>i. block_writers s = {i})) \<and>
         block_num s = (if block_writers s = {} then int (card (block_readers s)) else WRITE_EXCLUSIVE)"
  using block_lock.exclusion [OF assms block_view_def] by (simp add: lock_words)

theorem block_lock_exclusion_witness:
  "block_num \<lparr>block_num = -1, block_pcs = (\<lambda>_. BIdle)(2 := BWriting)\<rparr> = WRITE_EXCLUSIVE"
proof -
  let ?s = "\<lparr>block_num = -1, block_pcs = (\<lambda>_. BIdle)(2 := BWriting)\<rparr>"
  have "block_step block_init ?s"
    using block_step.b_write [of block_init 2 False True "-1"]
    by (simp add: block_init_def Block_TryLockForWrite_def lock_words)
  then have "block_step\<^sup>*\<^sup>* block_init ?s" by (rule r_into_rtranclp)
  moreover have "block_writers ?s = {2}" by (auto simp: block_writers_def)
  ultimately show ?thesis using block_lock_exclusion [of ?s] by simp
qed

end
