(* ===== verification/ReentrantLock.thy ===== *)
theory ReentrantLock
  imports RWLocks
begin

text \<open>
  \<open>ReentrantRWLock\<close> (\<open>cyber/base/reentrant_rw_lock.h\<close>): the counting lock with the id of the
  thread that holds it for writing, which may then take it again. A thread's guards form a stack,
  as guards are scoped objects. A step is one atomic access of one thread; the accesses to the
  plain field \<open>write_thread_id_\<close> are steps of their own, as the code makes them outside the lock.
\<close>

section \<open>The lock\<close>

record re_lock =
  re_lock_num :: int
  re_wait_num :: nat
  write_thread_id :: "nat option"

datatype re_pc =
    ReIdle
  | ReRStart                \<comment> \<open>entering \<open>ReadLock\<close>\<close>
  | ReRLoad
  | ReRCheck int
  | ReRCas int
  | ReWStart                \<comment> \<open>entering \<open>WriteLock\<close>\<close>
  | ReWInc
  | ReWCas
  | ReWSet                  \<comment> \<open>lock taken, about to set \<open>write_thread_id_\<close>\<close>
  | ReWDec
  | ReRUnlock               \<comment> \<open>entering \<open>ReadUnlock\<close>\<close>
  | ReRSub
  | ReClear                 \<comment> \<open>\<open>fetch_add\<close> gave \<open>WRITE_EXCLUSIVE\<close>, about to reset \<open>write_thread_id_\<close>\<close>

datatype guard = ReadGuard | WriteGuard

text \<open>Each operation gives the next program counter, the lock and the thread's guards.\<close>

definition ReentrantRWLock_ReadLock ::
  "bool \<Rightarrow> bool \<Rightarrow> nat \<Rightarrow> re_pc \<Rightarrow> re_lock \<Rightarrow> guard list \<Rightarrow> re_pc \<times> re_lock \<times> guard list"
where
  "ReentrantRWLock_ReadLock write_first spurious i pc l gs =
     (case pc of
        ReRStart \<Rightarrow>
          if write_thread_id l = Some i then (ReIdle, l, ReadGuard # gs) else (ReRLoad, l, gs)
      | ReRLoad \<Rightarrow> (ReRCheck (re_lock_num l), l, gs)
      | ReRCheck n \<Rightarrow>
          if n < RW_LOCK_FREE \<or> write_first \<and> re_wait_num l > 0
          then (ReRLoad, l, gs) else (ReRCas n, l, gs)
      | ReRCas n \<Rightarrow>
          if re_lock_num l = n \<and> \<not> spurious
          then (ReIdle, l\<lparr>re_lock_num := n + 1\<rparr>, ReadGuard # gs)
          else (ReRCheck (re_lock_num l), l, gs)
      | _ \<Rightarrow> (pc, l, gs))"

definition ReentrantRWLock_WriteLock ::
  "bool \<Rightarrow> nat \<Rightarrow> re_pc \<Rightarrow> re_lock \<Rightarrow> guard list \<Rightarrow> re_pc \<times> re_lock \<times> guard list"
where
  "ReentrantRWLock_WriteLock spurious i pc l gs =
     (case pc of
        ReWStart \<Rightarrow>
          if write_thread_id l = Some i
          then (ReIdle, l\<lparr>re_lock_num := re_lock_num l - 1\<rparr>, WriteGuard # gs)
          else (ReWInc, l, gs)
      | ReWInc \<Rightarrow> (ReWCas, l\<lparr>re_wait_num := re_wait_num l + 1\<rparr>, gs)
      | ReWCas \<Rightarrow>
          if re_lock_num l = RW_LOCK_FREE \<and> \<not> spurious
          then (ReWSet, l\<lparr>re_lock_num := WRITE_EXCLUSIVE\<rparr>, WriteGuard # gs)
          else (ReWCas, l, gs)
      | ReWSet \<Rightarrow> (ReWDec, l\<lparr>write_thread_id := Some i\<rparr>, gs)
      | ReWDec \<Rightarrow> (ReIdle, l\<lparr>re_wait_num := re_wait_num l - 1\<rparr>, gs)
      | _ \<Rightarrow> (pc, l, gs))"

definition ReentrantRWLock_ReadUnlock ::
  "nat \<Rightarrow> re_pc \<Rightarrow> re_lock \<Rightarrow> guard list \<Rightarrow> re_pc \<times> re_lock \<times> guard list"
where
  "ReentrantRWLock_ReadUnlock i pc l gs =
     (case pc of
        ReRUnlock \<Rightarrow>
          if write_thread_id l = Some i then (ReIdle, l, tl gs) else (ReRSub, l, gs)
      | ReRSub \<Rightarrow> (ReIdle, l\<lparr>re_lock_num := re_lock_num l - 1\<rparr>, tl gs)
      | _ \<Rightarrow> (pc, l, gs))"

text \<open>The first step is the \<open>fetch_add\<close>, from the idle state with a write guard on top.\<close>

definition ReentrantRWLock_WriteUnlock ::
  "re_pc \<Rightarrow> re_lock \<Rightarrow> guard list \<Rightarrow> re_pc \<times> re_lock \<times> guard list"
where
  "ReentrantRWLock_WriteUnlock pc l gs =
     (case pc of
        ReIdle \<Rightarrow>
          (if re_lock_num l = WRITE_EXCLUSIVE then ReClear else ReIdle,
           l\<lparr>re_lock_num := re_lock_num l + 1\<rparr>, tl gs)
      | ReClear \<Rightarrow> (ReIdle, l\<lparr>write_thread_id := None\<rparr>, gs)
      | _ \<Rightarrow> (pc, l, gs))"

section \<open>Threads\<close>

record re_system =
  re_the_lock :: re_lock
  re_pcs :: "nat \<Rightarrow> re_pc"
  re_guards :: "nat \<Rightarrow> guard list"

definition re_init :: re_system where
  "re_init = \<lparr>re_the_lock = \<lparr>re_lock_num = 0, re_wait_num = 0, write_thread_id = None\<rparr>,
              re_pcs = (\<lambda>_. ReIdle), re_guards = (\<lambda>_. [])\<rparr>"

text \<open>
  What thread \<open>i\<close> does next: start a read or a write lock or drop its newest guard when it is
  idle, else go on with the operation it is in.
\<close>

datatype re_act = StartRead | StartWrite | Drop | Continue bool

definition re_thread ::
  "bool \<Rightarrow> nat \<Rightarrow> re_act \<Rightarrow> re_pc \<Rightarrow> re_lock \<Rightarrow> guard list \<Rightarrow> (re_pc \<times> re_lock \<times> guard list) option"
where
  "re_thread write_first i a pc l gs =
     (case a of
        StartRead \<Rightarrow> if pc = ReIdle then Some (ReRStart, l, gs) else None
      | StartWrite \<Rightarrow> if pc = ReIdle then Some (ReWStart, l, gs) else None
      | Drop \<Rightarrow>
          if pc = ReIdle then
            (case gs of
               [] \<Rightarrow> None
             | ReadGuard # _ \<Rightarrow> Some (ReRUnlock, l, gs)
             | WriteGuard # _ \<Rightarrow> Some (ReentrantRWLock_WriteUnlock pc l gs))
          else None
      | Continue spurious \<Rightarrow>
          (case pc of
             ReIdle \<Rightarrow> None
           | ReRUnlock \<Rightarrow> Some (ReentrantRWLock_ReadUnlock i pc l gs)
           | ReRSub \<Rightarrow> Some (ReentrantRWLock_ReadUnlock i pc l gs)
           | ReClear \<Rightarrow> Some (ReentrantRWLock_WriteUnlock pc l gs)
           | ReRStart \<Rightarrow> Some (ReentrantRWLock_ReadLock write_first spurious i pc l gs)
           | ReRLoad \<Rightarrow> Some (ReentrantRWLock_ReadLock write_first spurious i pc l gs)
           | ReRCheck n \<Rightarrow> Some (ReentrantRWLock_ReadLock write_first spurious i pc l gs)
           | ReRCas n \<Rightarrow> Some (ReentrantRWLock_ReadLock write_first spurious i pc l gs)
           | _ \<Rightarrow> Some (ReentrantRWLock_WriteLock spurious i pc l gs)))"

definition re_do :: "bool \<Rightarrow> nat \<times> re_act \<Rightarrow> re_system \<Rightarrow> re_system option" where
  "re_do write_first ia s =
     (case ia of (i, a) \<Rightarrow>
        case re_thread write_first i a (re_pcs s i) (re_the_lock s) (re_guards s i) of
          None \<Rightarrow> None
        | Some (pc', l', gs') \<Rightarrow>
            Some \<lparr>re_the_lock = l', re_pcs = (re_pcs s)(i := pc'), re_guards = (re_guards s)(i := gs')\<rparr>)"

inductive re_step :: "bool \<Rightarrow> nat \<Rightarrow> re_system \<Rightarrow> re_system \<Rightarrow> bool" for write_first :: bool and N :: nat where
  re_do: "i < N \<Longrightarrow> re_do write_first (i, a) s = Some s' \<Longrightarrow> re_step write_first N s s'"

fun re_run :: "bool \<Rightarrow> (nat \<times> re_act) list \<Rightarrow> re_system \<Rightarrow> re_system option" where
  "re_run write_first [] s = Some s"
| "re_run write_first (a # as) s =
     (case re_do write_first a s of None \<Rightarrow> None | Some s' \<Rightarrow> re_run write_first as s')"

lemma re_run_reach:
  "re_run wfirst as s = Some s' \<Longrightarrow> \<forall>a \<in> set as. fst a < N \<Longrightarrow> (re_step wfirst N)\<^sup>*\<^sup>* s s'"
proof (induction as arbitrary: s)
  case Nil
  then show ?case by simp
next
  case (Cons a as)
  obtain i b where a: "a = (i, b)" by (cases a)
  from Cons.prems(1) obtain t where t: "re_do wfirst a s = Some t" "re_run wfirst as t = Some s'"
    by (auto split: option.splits)
  have "re_step wfirst N s t" using t(1) Cons.prems(2) by (intro re_step.intros [of i]) (auto simp: a)
  moreover have "(re_step wfirst N)\<^sup>*\<^sup>* t s'" using Cons.IH [OF t(2)] Cons.prems(2) by simp
  ultimately show ?case by (rule converse_rtranclp_into_rtranclp)
qed

section \<open>Exclusion\<close>

definition holds_write :: "re_system \<Rightarrow> nat \<Rightarrow> bool" where
  "holds_write s i \<longleftrightarrow> WriteGuard \<in> set (re_guards s i)"

text \<open>
  The invariant. A thread with a write guard is alone and its outermost guard is a write guard;
  the word is then at most minus the number of its write guards, and equal to it as long as the
  lock knows its owner. With no write guard anywhere, the word counts the read guards, or
  is negative with no guard left. The stack of the thread is given by \<open>bottom_write\<close>.
\<close>

definition writes_of :: "guard list \<Rightarrow> int" where
  "writes_of gs = int (count_list gs WriteGuard)"

definition bottom_write :: "guard list \<Rightarrow> bool" where
  "bottom_write gs \<longleftrightarrow> (WriteGuard \<in> set gs \<longrightarrow> last gs = WriteGuard)"

definition pc_ok :: "nat \<Rightarrow> re_pc \<Rightarrow> re_lock \<Rightarrow> guard list \<Rightarrow> bool" where
  "pc_ok i pc l gs \<longleftrightarrow>
     (\<forall>n. pc = ReRCas n \<longrightarrow> 0 \<le> n) \<and>
     (pc \<in> {ReRUnlock, ReRSub} \<longrightarrow> gs \<noteq> [] \<and> hd gs = ReadGuard) \<and>
     (pc = ReRSub \<longrightarrow> write_thread_id l \<noteq> Some i) \<and>
     (pc = ReWSet \<longrightarrow> gs = [WriteGuard] \<and> re_lock_num l = -1) \<and>
     (write_thread_id l = Some i \<longrightarrow> WriteGuard \<in> set gs \<or> pc = ReClear) \<and>
     (write_thread_id l = Some i \<and> WriteGuard \<in> set gs \<longrightarrow> re_lock_num l = - writes_of gs)"

definition alone :: "re_system \<Rightarrow> nat \<Rightarrow> bool" where
  "alone s i \<longleftrightarrow> (\<forall>j. j \<noteq> i \<longrightarrow> re_guards s j = [])"

definition re_inv :: "nat \<Rightarrow> re_system \<Rightarrow> bool" where
  "re_inv N s \<longleftrightarrow>
     (\<forall>i. bottom_write (re_guards s i)) \<and>
     (\<forall>i. pc_ok i (re_pcs s i) (re_the_lock s) (re_guards s i)) \<and>
     (\<forall>i. N \<le> i \<longrightarrow> re_guards s i = []) \<and>
     (\<forall>i. holds_write s i \<longrightarrow> alone s i \<and> re_lock_num (re_the_lock s) \<le> - writes_of (re_guards s i)) \<and>
     ((\<forall>i. \<not> holds_write s i) \<longrightarrow>
        re_lock_num (re_the_lock s) = (\<Sum>i<N. int (length (re_guards s i))) \<or>
        re_lock_num (re_the_lock s) < 0 \<and> (\<forall>i. re_guards s i = []))"

definition others :: "nat \<Rightarrow> re_system \<Rightarrow> nat \<Rightarrow> int" where
  "others N s i = (\<Sum>j\<in>{..<N} - {i}. int (length (re_guards s j)))"

lemma writes_of_simps [simp]:
  "writes_of [] = 0" "writes_of (ReadGuard # gs) = writes_of gs" "writes_of (WriteGuard # gs) = writes_of gs + 1"
  by (simp_all add: writes_of_def)

lemma writes_of_pos: "WriteGuard \<in> set gs \<Longrightarrow> 1 \<le> writes_of gs"
  by (induction gs) (auto simp: writes_of_def)

lemma bottom_write_Cons:
  "bottom_write (g # gs) \<longleftrightarrow> (if gs = [] then True else bottom_write gs \<and> (g = WriteGuard \<longrightarrow> last gs = WriteGuard))"
  by (cases g) (auto simp: bottom_write_def)

lemma sum_guards_split:
  assumes "i < N"
  shows "(\<Sum>j<N. int (length (re_guards s j))) = others N s i + int (length (re_guards s i))"
  using assms sum.remove [of "{..<N}" i "\<lambda>j. int (length (re_guards s j))"]
  by (simp add: others_def)

text \<open>What the invariant says from the point of view of one thread.\<close>

lemma re_inv_view:
  assumes "re_inv N s" "i < N"
  obtains
    (own) "WriteGuard \<in> set (re_guards s i)" "alone s i"
      "re_lock_num (re_the_lock s) \<le> - writes_of (re_guards s i)"
  | (other) j where "j \<noteq> i" "holds_write s j" "re_guards s i = []" "re_lock_num (re_the_lock s) < 0"
  | (free) "\<forall>j. \<not> holds_write s j"
      "re_lock_num (re_the_lock s) = others N s i + int (length (re_guards s i))"
  | (dead) "\<forall>j. re_guards s j = []" "re_lock_num (re_the_lock s) < 0"
proof (cases "\<exists>j. holds_write s j")
  case True
  then obtain j where j: "holds_write s j" by blast
  then have inv: "alone s j" "re_lock_num (re_the_lock s) \<le> - writes_of (re_guards s j)"
    using assms(1) by (auto simp: re_inv_def)
  show ?thesis
  proof (cases "j = i")
    case True
    then show ?thesis using own j inv by (auto simp: holds_write_def)
  next
    case False
    moreover have "1 \<le> writes_of (re_guards s j)" using j writes_of_pos by (auto simp: holds_write_def)
    ultimately show ?thesis using other [of j] j inv by (auto simp: alone_def)
  qed
next
  case False
  then have "re_lock_num (re_the_lock s) = (\<Sum>j<N. int (length (re_guards s j)))
      \<or> re_lock_num (re_the_lock s) < 0 \<and> (\<forall>j. re_guards s j = [])"
    using assms(1) by (auto simp: re_inv_def)
  then show ?thesis using False free dead sum_guards_split [OF assms(2), of s] by auto
qed

lemma re_inv_update:
  assumes inv: "re_inv N s" and i: "i < N"
    and s': "s' = \<lparr>re_the_lock = l', re_pcs = (re_pcs s)(i := pc'), re_guards = (re_guards s)(i := gs')\<rparr>"
    and bot: "bottom_write gs'" and pc: "pc_ok i pc' l' gs'"
    and pcj: "\<And>j. j \<noteq> i \<Longrightarrow> pc_ok j (re_pcs s j) l' (re_guards s j)"
    and own: "WriteGuard \<in> set gs' \<Longrightarrow> alone s i \<and> re_lock_num l' \<le> - writes_of gs'"
    and oth: "\<And>j. j \<noteq> i \<Longrightarrow> holds_write s j \<Longrightarrow> gs' = [] \<and> re_lock_num l' = re_lock_num (re_the_lock s)"
    and none: "WriteGuard \<notin> set gs' \<Longrightarrow> \<forall>j. j \<noteq> i \<longrightarrow> \<not> holds_write s j \<Longrightarrow>
          re_lock_num l' = others N s i + int (length gs') \<or> re_lock_num l' < 0 \<and> gs' = [] \<and> alone s i"
  shows "re_inv N s'"
proof -
  have g: "re_guards s' j = (if j = i then gs' else re_guards s j)" for j by (simp add: s')
  have h: "holds_write s' j \<longleftrightarrow> (if j = i then WriteGuard \<in> set gs' else holds_write s j)" for j
    by (simp add: s' holds_write_def)
  have l: "re_the_lock s' = l'" by (simp add: s')
  have 1: "bottom_write (re_guards s' j)" for j using inv bot by (simp add: g re_inv_def)
  have 2: "pc_ok j (re_pcs s' j) (re_the_lock s') (re_guards s' j)" for j
    using pc pcj by (simp add: s')
  have 3: "re_guards s' j = []" if "N \<le> j" for j using inv i that by (auto simp: g re_inv_def)
  have 4: "alone s' j \<and> re_lock_num (re_the_lock s') \<le> - writes_of (re_guards s' j)"
    if "holds_write s' j" for j
  proof (cases "j = i")
    case True
    then show ?thesis using that own by (auto simp: g h l alone_def)
  next
    case False
    then have "holds_write s j" using that h by simp
    then show ?thesis using False oth [OF False] inv by (auto simp: g l re_inv_def alone_def)
  qed
  have "others N s' i = others N s i"
    unfolding others_def by (rule sum.cong) (auto simp: g)
  then have 5: "re_lock_num (re_the_lock s') = (\<Sum>j<N. int (length (re_guards s' j))) \<or>
      re_lock_num (re_the_lock s') < 0 \<and> (\<forall>j. re_guards s' j = [])"
    if "\<forall>j. \<not> holds_write s' j"
    using that none sum_guards_split [OF i, of s'] by (auto simp: g h l alone_def split: if_splits)
  show ?thesis unfolding re_inv_def using 1 2 3 4 5 by blast
qed

text \<open>Threads the step does not touch.\<close>

lemma pc_ok_other:
  assumes "pc_ok j pc l gs"
    and "re_lock_num l' = re_lock_num l \<or> WriteGuard \<notin> set gs"
    and "write_thread_id l' = write_thread_id l \<or> write_thread_id l' \<noteq> Some j"
  shows "pc_ok j pc l' gs"
  using assms by (auto simp: pc_ok_def)

lemma alone_no_write: "alone s i \<Longrightarrow> j \<noteq> i \<Longrightarrow> WriteGuard \<notin> set (re_guards s j)"
  by (simp add: alone_def)

lemma sum_others_nonneg: "0 \<le> others N s i"
  by (simp add: others_def sum_nonneg)

definition re_upd :: "re_system \<Rightarrow> nat \<Rightarrow> re_pc \<times> re_lock \<times> guard list \<Rightarrow> re_system" where
  "re_upd s i r = (case r of (pc', l', gs') \<Rightarrow>
     \<lparr>re_the_lock = l', re_pcs = (re_pcs s)(i := pc'), re_guards = (re_guards s)(i := gs')\<rparr>)"

lemma re_inv_thread:
  assumes "re_inv N s"
  shows "pc_ok i (re_pcs s i) (re_the_lock s) (re_guards s i)" "bottom_write (re_guards s i)"
  using assms by (auto simp: re_inv_def)

lemma keep_inv:
  assumes "re_inv N s" "i < N" "re_lock_num l' = re_lock_num (re_the_lock s)"
    and "pc_ok i pc' l' (re_guards s i)"
    and "write_thread_id l' \<in> {write_thread_id (re_the_lock s), None, Some i}"
  shows "re_inv N (re_upd s i (pc', l', re_guards s i))"
proof (rule re_inv_update [OF assms(1,2)])
  show "re_upd s i (pc', l', re_guards s i)
      = \<lparr>re_the_lock = l', re_pcs = (re_pcs s)(i := pc'), re_guards = (re_guards s)(i := re_guards s i)\<rparr>"
    by (simp add: re_upd_def)
  show "pc_ok j (re_pcs s j) l' (re_guards s j)" if "j \<noteq> i" for j
    using pc_ok_other [OF re_inv_thread(1) [OF assms(1)]] assms(3,5) that by auto
  from assms(1,2) show "re_lock_num l' = others N s i + int (length (re_guards s i)) \<or>
      re_lock_num l' < 0 \<and> re_guards s i = [] \<and> alone s i"
    if "WriteGuard \<notin> set (re_guards s i)" "\<forall>j. j \<noteq> i \<longrightarrow> \<not> holds_write s j"
    by (cases rule: re_inv_view) (use that assms(3) in \<open>auto simp: alone_def\<close>)
  show "alone s i \<and> re_lock_num l' \<le> - writes_of (re_guards s i)"
    if "WriteGuard \<in> set (re_guards s i)"
    using assms(1,3) that by (auto simp: re_inv_def holds_write_def)
  show "re_guards s i = [] \<and> re_lock_num l' = re_lock_num (re_the_lock s)"
    if "j \<noteq> i" "holds_write s j" for j
    using assms(1,3) that by (auto simp: re_inv_def alone_def)
qed (use assms(4) re_inv_thread(2) [OF assms(1)] in simp_all)

text \<open>The word is not negative: no write guard exists, and the thread takes a guard.\<close>

lemma acquire_inv:
  assumes "re_inv N s" "i < N" "0 \<le> re_lock_num (re_the_lock s)"
    and "write_thread_id l' = write_thread_id (re_the_lock s)" "pc_ok i pc' l' (g # re_guards s i)"
    and "g = ReadGuard \<and> re_lock_num l' = re_lock_num (re_the_lock s) + 1
       \<or> g = WriteGuard \<and> re_lock_num (re_the_lock s) = 0 \<and> re_lock_num l' = -1"
  shows "re_inv N (re_upd s i (pc', l', g # re_guards s i))"
proof -
  from assms(1,2) have "(\<forall>j. \<not> holds_write s j) \<and>
      re_lock_num (re_the_lock s) = others N s i + int (length (re_guards s i))"
  proof (cases rule: re_inv_view)
    case own
    then show ?thesis using writes_of_pos [OF own(1)] assms(3) by linarith
  qed (use assms(3) in auto)
  then have free: "\<forall>j. \<not> holds_write s j"
      "re_lock_num (re_the_lock s) = others N s i + int (length (re_guards s i))" by auto
  then have no: "WriteGuard \<notin> set (re_guards s j)" for j by (simp add: holds_write_def)
  have empty: "re_guards s j = []" if "re_lock_num (re_the_lock s) = 0" for j
  proof (cases "j < N")
    case True
    have "(\<Sum>j<N. int (length (re_guards s j))) = 0" using free(2) that sum_guards_split [OF assms(2)] by simp
    then show ?thesis using True by (simp add: sum_nonneg_eq_0_iff)
  next
    case False
    then show ?thesis using assms(1) by (simp add: re_inv_def)
  qed
  show ?thesis
  proof (rule re_inv_update [OF assms(1,2)])
    show "re_upd s i (pc', l', g # re_guards s i)
        = \<lparr>re_the_lock = l', re_pcs = (re_pcs s)(i := pc'), re_guards = (re_guards s)(i := g # re_guards s i)\<rparr>"
      by (simp add: re_upd_def)
    show "bottom_write (g # re_guards s i)"
      using assms(6) no empty by (auto simp: bottom_write_def)
    show "pc_ok j (re_pcs s j) l' (re_guards s j)" if "j \<noteq> i" for j
      using pc_ok_other [OF re_inv_thread(1) [OF assms(1)]] no assms(4) by blast
    show "alone s i \<and> re_lock_num l' \<le> - writes_of (g # re_guards s i)"
      if "WriteGuard \<in> set (g # re_guards s i)"
      using that assms(6) no empty by (auto simp: alone_def)
    show "re_lock_num l' = others N s i + int (length (g # re_guards s i)) \<or>
        re_lock_num l' < 0 \<and> g # re_guards s i = [] \<and> alone s i"
      if "WriteGuard \<notin> set (g # re_guards s i)"
      using that assms(6) free(2) by auto
  qed (use free assms(5) in auto)
qed

text \<open>The owner changes its guards and keeps a write guard.\<close>

lemma owner_inv:
  assumes "re_inv N s" "i < N" "holds_write s i" "WriteGuard \<in> set gs'" "bottom_write gs'"
    and "write_thread_id l' = write_thread_id (re_the_lock s)" "pc_ok i pc' l' gs'"
    and "re_lock_num (re_the_lock s) \<le> - writes_of (re_guards s i) \<Longrightarrow> re_lock_num l' \<le> - writes_of gs'"
  shows "re_inv N (re_upd s i (pc', l', gs'))"
proof -
  have alone: "alone s i" "re_lock_num (re_the_lock s) \<le> - writes_of (re_guards s i)"
    using assms(1,3) by (auto simp: re_inv_def)
  show ?thesis
  proof (rule re_inv_update [OF assms(1,2)])
    show "re_upd s i (pc', l', gs')
        = \<lparr>re_the_lock = l', re_pcs = (re_pcs s)(i := pc'), re_guards = (re_guards s)(i := gs')\<rparr>"
      by (simp add: re_upd_def)
    show "pc_ok j (re_pcs s j) l' (re_guards s j)" if "j \<noteq> i" for j
      using pc_ok_other [OF re_inv_thread(1) [OF assms(1)]] alone_no_write [OF alone(1) that] assms(6)
      by blast
  qed (use assms alone in \<open>auto simp: alone_def holds_write_def\<close>)
qed

text \<open>The last write guard goes.\<close>

lemma release_write_inv:
  assumes "re_inv N s" "i < N" "re_guards s i = [WriteGuard]"
    and "re_lock_num l' = re_lock_num (re_the_lock s) + 1"
    and "write_thread_id l' = write_thread_id (re_the_lock s)" "pc_ok i pc' l' []"
  shows "re_inv N (re_upd s i (pc', l', []))"
proof -
  have "holds_write s i" using assms(3) by (simp add: holds_write_def)
  then have alone: "alone s i" "re_lock_num (re_the_lock s) \<le> -1"
    using assms(1,3) by (auto simp: re_inv_def)
  have "others N s i = 0" using alone(1) by (simp add: others_def alone_def)
  show ?thesis
  proof (rule re_inv_update [OF assms(1,2)])
    show "re_upd s i (pc', l', [])
        = \<lparr>re_the_lock = l', re_pcs = (re_pcs s)(i := pc'), re_guards = (re_guards s)(i := [])\<rparr>"
      by (simp add: re_upd_def)
    show "pc_ok j (re_pcs s j) l' (re_guards s j)" if "j \<noteq> i" for j
      using pc_ok_other [OF re_inv_thread(1) [OF assms(1)]] alone_no_write [OF alone(1) that] assms(5)
      by blast
    show "re_lock_num l' = others N s i + int (length ([] :: guard list)) \<or>
        re_lock_num l' < 0 \<and> ([] :: guard list) = [] \<and> alone s i"
      using \<open>others N s i = 0\<close> alone assms(4) by auto
  qed (use assms alone in \<open>auto simp: alone_def holds_write_def bottom_write_def\<close>)
qed

text \<open>A read guard of a thread with no write guard goes.\<close>

lemma release_read_inv:
  assumes "re_inv N s" "i < N" "\<not> holds_write s i" "re_guards s i = ReadGuard # gs'"
    and "re_lock_num l' = re_lock_num (re_the_lock s) - 1"
    and "write_thread_id l' = write_thread_id (re_the_lock s)" "pc_ok i pc' l' gs'"
  shows "re_inv N (re_upd s i (pc', l', gs'))"
proof -
  from assms(1,2) have "(\<forall>j. \<not> holds_write s j) \<and>
      re_lock_num (re_the_lock s) = others N s i + int (length (re_guards s i))"
    by (cases rule: re_inv_view) (use assms(3,4) in \<open>auto simp: holds_write_def\<close>)
  then have free: "\<forall>j. \<not> holds_write s j"
      "re_lock_num (re_the_lock s) = others N s i + int (length (re_guards s i))" by auto
  then have no: "WriteGuard \<notin> set (re_guards s j)" for j by (simp add: holds_write_def)
  have no': "WriteGuard \<notin> set gs'" using no [of i] assms(4) by simp
  show ?thesis
  proof (rule re_inv_update [OF assms(1,2)])
    show "re_upd s i (pc', l', gs')
        = \<lparr>re_the_lock = l', re_pcs = (re_pcs s)(i := pc'), re_guards = (re_guards s)(i := gs')\<rparr>"
      by (simp add: re_upd_def)
    show "pc_ok j (re_pcs s j) l' (re_guards s j)" if "j \<noteq> i" for j
      using pc_ok_other [OF re_inv_thread(1) [OF assms(1)]] no assms(6) by blast
    show "re_lock_num l' = others N s i + int (length gs') \<or>
        re_lock_num l' < 0 \<and> gs' = [] \<and> alone s i"
      using free(2) assms(4,5) by simp
  qed (use assms free no' in \<open>auto simp: bottom_write_def\<close>)
qed

section \<open>Every operation keeps the invariant\<close>

lemma ReadLock_inv:
  assumes inv: "re_inv N s" and i: "i < N"
    and pcs: "re_pcs s i \<noteq> ReClear"
  shows "re_inv N (re_upd s i
           (ReentrantRWLock_ReadLock wfirst sp i (re_pcs s i) (re_the_lock s) (re_guards s i)))"
proof -
  let ?l = "re_the_lock s" and ?gs = "re_guards s i"
  note ok = re_inv_thread [OF inv, of i]
  have stay: "re_inv N (re_upd s i (pc', ?l, ?gs))"
    if "pc_ok i pc' ?l ?gs" for pc'
    using inv i that by (intro keep_inv) auto
  show ?thesis
  proof (cases "re_pcs s i")
    case ReRStart
    show ?thesis
    proof (cases "write_thread_id ?l = Some i")
      case True
      then have h: "holds_write s i" using ok(1) ReRStart by (auto simp: pc_ok_def holds_write_def)
      have "re_inv N (re_upd s i (ReIdle, ?l, ReadGuard # ?gs))"
        using inv i h ok True ReRStart
        by (intro owner_inv) (auto simp: holds_write_def bottom_write_def pc_ok_def)
      then show ?thesis using True ReRStart by (simp add: ReentrantRWLock_ReadLock_def)
    next
      case False
      then show ?thesis using ReRStart ok(1) stay [of ReRLoad]
        by (simp add: ReentrantRWLock_ReadLock_def pc_ok_def)
    qed
  next
    case ReRLoad
    then show ?thesis using ok(1) stay [of "ReRCheck (re_lock_num ?l)"]
      by (simp add: ReentrantRWLock_ReadLock_def pc_ok_def)
  next
    case (ReRCheck n)
    then show ?thesis using ok(1) stay [of ReRLoad] stay [of "ReRCas n"]
      by (auto simp: ReentrantRWLock_ReadLock_def pc_ok_def lock_words)
  next
    case (ReRCas n)
    show ?thesis
    proof (cases "re_lock_num ?l = n \<and> \<not> sp")
      case True
      have "0 \<le> re_lock_num ?l" using ok(1) ReRCas True by (auto simp: pc_ok_def)
      moreover from this have "WriteGuard \<notin> set ?gs"
        using inv writes_of_pos [of ?gs] by (fastforce simp: re_inv_def holds_write_def)
      ultimately have "re_inv N (re_upd s i (ReIdle, ?l\<lparr>re_lock_num := n + 1\<rparr>, ReadGuard # ?gs))"
        using inv i ok(1) ReRCas True by (intro acquire_inv) (auto simp: pc_ok_def)
      then show ?thesis using True ReRCas by (simp add: ReentrantRWLock_ReadLock_def)
    next
      case False
      then show ?thesis using ReRCas ok(1) stay [of "ReRCheck (re_lock_num ?l)"]
        by (auto simp: ReentrantRWLock_ReadLock_def pc_ok_def)
    qed
  qed (use pcs ok stay in \<open>auto simp: ReentrantRWLock_ReadLock_def\<close>)
qed

lemma WriteLock_inv:
  assumes inv: "re_inv N s" and i: "i < N"
  shows "re_inv N (re_upd s i
           (ReentrantRWLock_WriteLock sp i (re_pcs s i) (re_the_lock s) (re_guards s i)))"
proof -
  let ?l = "re_the_lock s" and ?gs = "re_guards s i"
  note ok = re_inv_thread [OF inv, of i]
  have stay: "re_inv N (re_upd s i (pc', l', ?gs))"
    if "pc_ok i pc' l' ?gs" "re_lock_num l' = re_lock_num ?l"
      "write_thread_id l' \<in> {write_thread_id ?l, None, Some i}" for pc' l'
    using inv i that by (intro keep_inv)
  show ?thesis
  proof (cases "re_pcs s i")
    case ReWStart
    show ?thesis
    proof (cases "write_thread_id ?l = Some i")
      case True
      then have h: "holds_write s i" using ok(1) ReWStart by (auto simp: pc_ok_def holds_write_def)
      have "re_inv N (re_upd s i (ReIdle, ?l\<lparr>re_lock_num := re_lock_num ?l - 1\<rparr>, WriteGuard # ?gs))"
        using inv i h ok True ReWStart
        by (intro owner_inv) (auto simp: holds_write_def bottom_write_def pc_ok_def)
      then show ?thesis using True ReWStart by (simp add: ReentrantRWLock_WriteLock_def)
    next
      case False
      then show ?thesis using ReWStart ok(1) stay [of ReWInc ?l]
        by (simp add: ReentrantRWLock_WriteLock_def pc_ok_def)
    qed
  next
    case ReWInc
    then show ?thesis using ok(1) stay [of ReWCas "?l\<lparr>re_wait_num := re_wait_num ?l + 1\<rparr>"]
      by (simp add: ReentrantRWLock_WriteLock_def pc_ok_def)
  next
    case ReWCas
    show ?thesis
    proof (cases "re_lock_num ?l = 0 \<and> \<not> sp")
      case True
      moreover from this have "WriteGuard \<notin> set ?gs"
        using inv writes_of_pos [of ?gs] by (fastforce simp: re_inv_def holds_write_def)
      moreover have "?gs = []"
      proof -
        from inv i show ?thesis
        proof (cases rule: re_inv_view)
          case own
          then show ?thesis using writes_of_pos [OF own(1)] True by linarith
        next
          case free
          then have "int (length ?gs) \<le> 0" using True sum_others_nonneg [of N s i] by linarith
          then show ?thesis by simp
        qed (use True in auto)
      qed
      ultimately have "re_inv N (re_upd s i (ReWSet, ?l\<lparr>re_lock_num := -1\<rparr>, WriteGuard # ?gs))"
        using inv i ok(1) ReWCas by (intro acquire_inv) (auto simp: pc_ok_def)
      then show ?thesis using True ReWCas by (simp add: ReentrantRWLock_WriteLock_def lock_words)
    next
      case False
      then show ?thesis using ReWCas ok(1) stay [of ReWCas ?l]
        by (auto simp: ReentrantRWLock_WriteLock_def pc_ok_def lock_words)
    qed
  next
    case ReWSet
    then show ?thesis using ok(1) stay [of ReWDec "?l\<lparr>write_thread_id := Some i\<rparr>"]
      by (simp add: ReentrantRWLock_WriteLock_def pc_ok_def)
  next
    case ReWDec
    then show ?thesis using ok(1) stay [of ReIdle "?l\<lparr>re_wait_num := re_wait_num ?l - 1\<rparr>"]
      by (simp add: ReentrantRWLock_WriteLock_def pc_ok_def)
  qed (use ok stay in \<open>auto simp: ReentrantRWLock_WriteLock_def\<close>)
qed

lemma ReadUnlock_inv:
  assumes inv: "re_inv N s" and i: "i < N" and pc: "re_pcs s i \<in> {ReRUnlock, ReRSub}"
  shows "re_inv N (re_upd s i
           (ReentrantRWLock_ReadUnlock i (re_pcs s i) (re_the_lock s) (re_guards s i)))"
proof -
  let ?l = "re_the_lock s"
  note ok = re_inv_thread [OF inv, of i]
  obtain gs' where gs: "re_guards s i = ReadGuard # gs'"
    using ok(1) pc by (cases "re_guards s i") (auto simp: pc_ok_def)
  have bot: "WriteGuard \<in> set gs' \<Longrightarrow> bottom_write gs'"
    using ok(2) by (auto simp: gs bottom_write_def split: if_splits)
  show ?thesis
  proof (cases "write_thread_id ?l = Some i")
    case True
    then have "re_pcs s i = ReRUnlock" and h: "holds_write s i"
      using pc ok(1) by (auto simp: pc_ok_def holds_write_def)
    moreover have "re_inv N (re_upd s i (ReIdle, ?l, gs'))"
      using inv i h ok True bot by (intro owner_inv) (auto simp: holds_write_def pc_ok_def gs)
    ultimately show ?thesis using True gs by (simp add: ReentrantRWLock_ReadUnlock_def)
  next
    case False
    let ?l' = "?l\<lparr>re_lock_num := re_lock_num ?l - 1\<rparr>"
    have sub: "re_inv N (re_upd s i (ReIdle, ?l', gs'))"
    proof (cases "holds_write s i")
      case True
      then show ?thesis
        using inv i ok False bot by (intro owner_inv) (auto simp: holds_write_def pc_ok_def gs)
    next
      case no: False
      then show ?thesis
        using inv i ok False by (intro release_read_inv) (auto simp: holds_write_def pc_ok_def gs)
    qed
    have "re_inv N (re_upd s i (ReRSub, ?l, ReadGuard # gs'))"
      using keep_inv [OF inv i refl, of ReRSub] ok(1) False pc by (auto simp: pc_ok_def gs)
    then show ?thesis using sub False pc gs by (auto simp: ReentrantRWLock_ReadUnlock_def)
  qed
qed

lemma WriteUnlock_inv:
  assumes inv: "re_inv N s" and i: "i < N"
    and pc: "re_pcs s i = ReIdle \<and> re_guards s i = WriteGuard # gs' \<or> re_pcs s i = ReClear"
  shows "re_inv N (re_upd s i
           (ReentrantRWLock_WriteUnlock (re_pcs s i) (re_the_lock s) (re_guards s i)))"
proof (cases "re_pcs s i = ReClear")
  let ?l = "re_the_lock s"
  note ok = re_inv_thread [OF inv, of i]
  case True
  have "re_inv N (re_upd s i (ReIdle, ?l\<lparr>write_thread_id := None\<rparr>, re_guards s i))"
    using inv i by (intro keep_inv) (auto simp: pc_ok_def)
  then show ?thesis using True by (simp add: ReentrantRWLock_WriteUnlock_def)
next
  let ?l = "re_the_lock s"
  note ok = re_inv_thread [OF inv, of i]
  case False
  then have idle: "re_pcs s i = ReIdle" and gs: "re_guards s i = WriteGuard # gs'" using pc by auto
  let ?l' = "?l\<lparr>re_lock_num := re_lock_num ?l + 1\<rparr>"
  let ?pc = "if re_lock_num ?l = -1 then ReClear else ReIdle"
  have h: "holds_write s i" by (simp add: holds_write_def gs)
  have le: "re_lock_num ?l \<le> - writes_of (re_guards s i)" using inv h by (auto simp: re_inv_def)
  have "re_inv N (re_upd s i (?pc, ?l', gs'))"
  proof (cases "gs' = []")
    case True
    then have "re_inv N (re_upd s i (?pc, ?l', []))"
      using inv i ok gs by (intro release_write_inv) (auto simp: pc_ok_def)
    then show ?thesis using True by simp
  next
    case ne: False
    then have last: "last gs' = WriteGuard" using ok(2) by (simp add: gs bottom_write_def)
    then have w: "WriteGuard \<in> set gs'" using ne by (metis last_in_set)
    have "re_lock_num ?l \<noteq> -1" using le writes_of_pos [OF w] by (simp add: gs)
    then show ?thesis
      using inv i h ok w last by (intro owner_inv) (auto simp: bottom_write_def pc_ok_def gs idle)
  qed
  then show ?thesis using idle gs by (simp add: ReentrantRWLock_WriteUnlock_def lock_words)
qed

lemma re_step_inv [inv_intros]: "re_step wfirst N s s' \<Longrightarrow> re_inv N s \<Longrightarrow> re_inv N s'"
proof (induction rule: re_step.induct)
  case (re_do i a s s')
  let ?l = "re_the_lock s" and ?gs = "re_guards s i" and ?pc = "re_pcs s i"
  note inv = re_do.prems and i = re_do.hyps(1)
  note ok = re_inv_thread(1) [OF inv, of i]
  obtain r where r: "re_thread wfirst i a ?pc ?l ?gs = Some r" and s': "s' = re_upd s i r"
    using re_do.hyps(2) by (auto simp: re_do_def re_upd_def split: option.splits prod.splits)
  have stay: "re_inv N (re_upd s i (pc', ?l, ?gs))" if "pc_ok i pc' ?l ?gs" for pc'
    using inv i that by (intro keep_inv) auto
  show ?case
  proof (cases a)
    case StartRead
    then show ?thesis using r s' ok stay [of ReRStart]
      by (auto simp: re_thread_def pc_ok_def split: if_splits)
  next
    case StartWrite
    then show ?thesis using r s' ok stay [of ReWStart]
      by (auto simp: re_thread_def pc_ok_def split: if_splits)
  next
    case Drop
    then have idle: "?pc = ReIdle" using r by (auto simp: re_thread_def split: if_splits)
    show ?thesis
    proof (cases ?gs)
      case Nil
      then show ?thesis using r Drop idle by (simp add: re_thread_def)
    next
      case (Cons g gs')
      show ?thesis
      proof (cases g)
        case ReadGuard
        then show ?thesis using r s' Drop idle Cons ok stay [of ReRUnlock]
          by (auto simp: re_thread_def pc_ok_def)
      next
        case WriteGuard
        then show ?thesis using r s' Drop idle Cons WriteUnlock_inv [OF inv i, of gs']
          by (simp add: re_thread_def)
      qed
    qed
  next
    case (Continue sp)
    then show ?thesis
      using r s' ReadLock_inv [OF inv i, of wfirst sp] WriteLock_inv [OF inv i, of sp]
        ReadUnlock_inv [OF inv i] WriteUnlock_inv [OF inv i]
      by (cases ?pc) (simp_all add: re_thread_def)
  qed
qed

lemma re_init_inv: "re_inv N re_init"
  by (simp add: re_inv_def re_init_def bottom_write_def pc_ok_def holds_write_def)

lemma re_reach_inv: "(re_step wfirst N)\<^sup>*\<^sup>* re_init s \<Longrightarrow> re_inv N s"
  by (induction rule: rtranclp_induct) (auto intro: re_init_inv re_step_inv)

text \<open>
  Property C17. A thread that holds a write guard of a \<open>ReentrantRWLock\<close> is the only one that
  holds any guard, in every reachable state of any number of threads, with guards nested in any
  way the code lets them be.
\<close>

theorem reentrant_exclusion:
  assumes "(re_step wfirst N)\<^sup>*\<^sup>* re_init s" and "holds_write s i" and "j \<noteq> i"
  shows "re_guards s j = []"
  using re_reach_inv [OF assms(1)] assms(2,3) by (auto simp: re_inv_def alone_def)

text \<open>Two threads; the first takes the lock for writing, twice, and reads inside.\<close>

definition nested_run :: "(nat \<times> re_act) list" where
  "nested_run = (0, StartWrite) # replicate 5 (0, Continue False)
     @ [(0, StartWrite), (0, Continue False), (0, StartRead), (0, Continue False)]"

theorem reentrant_exclusion_witness:
  "map_option (\<lambda>s. re_guards s 1) (re_run True nested_run re_init) = Some []"
proof -
  have r: "map_option (\<lambda>s. (re_guards s 0, re_guards s 1)) (re_run True nested_run re_init)
      = Some ([ReadGuard, WriteGuard, WriteGuard], [])" by code_simp
  then obtain s where s: "re_run True nested_run re_init = Some s" and g: "re_guards s 0 = [ReadGuard, WriteGuard, WriteGuard]"
    by auto
  have b: "\<forall>a \<in> set nested_run. fst a < 2" by (simp add: nested_run_def)
  have h: "holds_write s 0" by (simp add: holds_write_def g)
  have "re_guards s 1 = []"
    by (rule reentrant_exclusion [OF re_run_reach [OF s b] h]) simp
  with s show ?thesis by simp
qed

section \<open>The lock can be lost\<close>

text \<open>
  A negative word with no guard left, and no thread inside an operation that changes that.
\<close>

fun lost_pc :: "re_pc \<Rightarrow> bool" where
  "lost_pc (ReRCheck n) = (n < 0)"
| "lost_pc pc = (pc \<in> {ReIdle, ReRStart, ReRLoad, ReWStart, ReWInc, ReWCas})"

definition lock_lost :: "re_system \<Rightarrow> bool" where
  "lock_lost s \<longleftrightarrow> re_lock_num (re_the_lock s) < 0 \<and> write_thread_id (re_the_lock s) = None \<and>
     (\<forall>i. re_guards s i = [] \<and> lost_pc (re_pcs s i))"

lemma lost_thread:
  assumes "re_thread wfirst i a pc l [] = Some (pc', l', gs')"
    and "lost_pc pc" "re_lock_num l < 0" "write_thread_id l = None"
  shows "lost_pc pc' \<and> re_lock_num l' < 0 \<and> write_thread_id l' = None \<and> gs' = []"
proof (cases a)
  case (Continue sp)
  with assms show ?thesis
    by (cases pc) (auto simp: re_thread_def ReentrantRWLock_ReadLock_def
        ReentrantRWLock_WriteLock_def lock_words split: if_splits)
qed (use assms in \<open>auto simp: re_thread_def split: if_splits\<close>)

lemma lock_lost_step: "re_step wfirst N s s' \<Longrightarrow> lock_lost s \<Longrightarrow> lock_lost s'"
proof (induction rule: re_step.induct)
  case (re_do i a s s')
  then have lost: "re_lock_num (re_the_lock s) < 0" "write_thread_id (re_the_lock s) = None"
    "\<And>j. re_guards s j = [] \<and> lost_pc (re_pcs s j)"
    by (simp_all add: lock_lost_def)
  obtain pc' l' gs' where r: "re_thread wfirst i a (re_pcs s i) (re_the_lock s) [] = Some (pc', l', gs')"
    and s': "s' = re_upd s i (pc', l', gs')"
    using re_do.hyps(2) lost(3) by (auto simp: re_do_def re_upd_def split: option.splits)
  from lost_thread [OF r] lost show ?case by (simp add: lock_lost_def s' re_upd_def)
qed

lemma lock_lost_forever: "(re_step wfirst N)\<^sup>*\<^sup>* s s' \<Longrightarrow> lock_lost s \<Longrightarrow> lock_lost s'"
  by (induction rule: rtranclp_induct) (auto intro: lock_lost_step)

text \<open>
  Thread 0 drops its write guard but has not yet reset \<open>write_thread_id_\<close>; thread 1 takes the
  lock, sets the id and a nested read guard; thread 0 resets the id, now thread 1's; thread 1
  drops its guards: its \<open>ReadUnlock\<close> no longer knows the owner and takes 1 from the word.
\<close>

definition losing_run :: "(nat \<times> re_act) list" where
  "losing_run =
     (0, StartWrite) # replicate 5 (0, Continue False) @ [(0, Drop)]
     @ (1, StartWrite) # replicate 5 (1, Continue False) @ [(1, StartRead), (1, Continue False)]
     @ [(0, Continue False)]
     @ [(1, Drop), (1, Continue False), (1, Continue False), (1, Drop)]"

text \<open>
  Two threads that use the lock only through properly nested guards can reach a
  state in which no guard exists and both are done, and after which no thread ever gets the lock
  again, for reading or for writing: the reset of \<open>write_thread_id_\<close> after the releasing
  \<open>fetch_add\<close> can erase the id the next owner has set.
\<close>

theorem reentrant_lock_can_be_lost:
  "\<exists>s. (re_step True 2)\<^sup>*\<^sup>* re_init s \<and> re_pcs s 0 = ReIdle \<and> re_pcs s 1 = ReIdle \<and>
       {(s', i). (re_step True N)\<^sup>*\<^sup>* s s' \<and> re_guards s' i \<noteq> []} = {}"
proof -
  have "map_option (\<lambda>s. (re_lock_num (re_the_lock s), write_thread_id (re_the_lock s),
      re_guards s 0, re_guards s 1, re_pcs s 0, re_pcs s 1)) (re_run True losing_run re_init)
      = Some (-1, None, [], [], ReIdle, ReIdle)" by code_simp
  then obtain s where s: "re_run True losing_run re_init = Some s"
    and f: "re_lock_num (re_the_lock s) = -1" "write_thread_id (re_the_lock s) = None"
      "re_guards s 0 = []" "re_guards s 1 = []" "re_pcs s 0 = ReIdle" "re_pcs s 1 = ReIdle"
    by auto
  have b: "\<forall>a \<in> set losing_run. fst a < 2" by (simp add: losing_run_def)
  have reach: "(re_step True 2)\<^sup>*\<^sup>* re_init s" by (rule re_run_reach [OF s b])
  have "re_guards s i = []" for i
    using re_reach_inv [OF reach] f by (cases "i = 0 \<or> i = 1") (auto simp: re_inv_def)
  moreover have "re_pcs s i = ReIdle" for i
  proof (cases "i = 0 \<or> i = 1")
    case False
    have "(re_step True 2)\<^sup>*\<^sup>* re_init t \<Longrightarrow> re_pcs t i = ReIdle" for t
      by (induction rule: rtranclp_induct)
        (use False in \<open>auto simp: re_init_def re_do_def elim!: re_step.cases split: option.splits prod.splits\<close>)
    then show ?thesis using reach by simp
  qed (use f in auto)
  ultimately have "lock_lost s" using f by (simp add: lock_lost_def)
  then have "re_guards s' i = []" if "(re_step True N)\<^sup>*\<^sup>* s s'" for s' i
    using lock_lost_forever [OF that] by (simp add: lock_lost_def)
  then show ?thesis using reach f by blast
qed

end
