(* ===== verification/BoundedQueue.thy ===== *)
theory BoundedQueue
  imports Prelude "HOL-Library.Sublist"
begin

text \<open>
  The bounded multi-producer multi-consumer queue, \<open>cyber/base/bounded_queue.h\<close>. Threads are
  numbered; a step is one atomic access (or the access to one pool slot) of one thread. The
  64-bit counters only grow and are naturals. Two ghost logs, which no operation reads, record
  the elements in the order their slots were claimed and taken.
\<close>

section \<open>State\<close>

record 'a queue =
  q_head :: nat
  q_tail :: nat
  q_commit :: nat
  pool_size :: nat
  pool :: "'a list"
  enq_log :: "'a list"
  deq_log :: "'a list"

text \<open>\<open>Init\<close> allocates two slots more than the size; the pool holds default elements.\<close>

definition BoundedQueue_Init :: "'a \<Rightarrow> nat \<Rightarrow> 'a queue" where
  "BoundedQueue_Init dflt sz =
     \<lparr>q_head = 0, q_tail = 1, q_commit = 1, pool_size = sz + 2, pool = replicate (sz + 2) dflt,
      enq_log = [], deq_log = []\<rparr>"

definition GetIndex :: "'a queue \<Rightarrow> nat \<Rightarrow> nat" where
  "GetIndex q num = num - (num div pool_size q) * pool_size q"

definition Size :: "'a queue \<Rightarrow> nat" where
  "Size q = q_tail q - q_head q - 1"

definition Empty :: "'a queue \<Rightarrow> bool" where
  "Empty q \<longleftrightarrow> Size q = 0"

section \<open>The operations, one access at a time\<close>

text \<open>
  Where a thread is. The values are the locals: the element, \<open>old_tail\<close> or \<open>old_head\<close>, and the
  element read. \<open>EnqDone r\<close> and \<open>DeqDone r\<close> are the returns.
\<close>

datatype 'a q_pc =
    Idle
  | EnqStart 'a             \<comment> \<open>about to load \<open>tail_\<close>\<close>
  | EnqCheck 'a nat         \<comment> \<open>about to load \<open>head_\<close> and compare indices\<close>
  | EnqCas 'a nat           \<comment> \<open>about to compare-and-swap \<open>tail_\<close>\<close>
  | EnqWrite 'a nat         \<comment> \<open>slot claimed, about to write it\<close>
  | EnqCommit nat           \<comment> \<open>spinning on \<open>commit_\<close>\<close>
  | EnqDone bool
  | DeqStart                \<comment> \<open>about to load \<open>head_\<close>\<close>
  | DeqCheck nat            \<comment> \<open>about to load \<open>commit_\<close>\<close>
  | DeqRead nat             \<comment> \<open>about to read the slot\<close>
  | DeqCas nat 'a           \<comment> \<open>about to compare-and-swap \<open>head_\<close>\<close>
  | DeqDone "'a option"

definition Enqueue :: "bool \<Rightarrow> 'a q_pc \<Rightarrow> 'a queue \<Rightarrow> 'a q_pc \<times> 'a queue" where
  "Enqueue spurious pc q =
     (case pc of
        EnqStart x \<Rightarrow> (EnqCheck x (q_tail q), q)
      | EnqCheck x old_tail \<Rightarrow>
          if GetIndex q (old_tail + 1) = GetIndex q (q_head q) then (EnqDone False, q)
          else (EnqCas x old_tail, q)
      | EnqCas x old_tail \<Rightarrow>
          if q_tail q = old_tail \<and> \<not> spurious
          then (EnqWrite x old_tail, q\<lparr>q_tail := old_tail + 1, enq_log := enq_log q @ [x]\<rparr>)
          else (EnqCheck x (q_tail q), q)
      | EnqWrite x old_tail \<Rightarrow> (EnqCommit old_tail, q\<lparr>pool := (pool q)[GetIndex q old_tail := x]\<rparr>)
      | EnqCommit old_tail \<Rightarrow>
          if q_commit q = old_tail \<and> \<not> spurious
          then (EnqDone True, q\<lparr>q_commit := old_tail + 1\<rparr>)
          else (EnqCommit old_tail, q)
      | _ \<Rightarrow> (pc, q))"

definition Dequeue :: "bool \<Rightarrow> 'a q_pc \<Rightarrow> 'a queue \<Rightarrow> 'a q_pc \<times> 'a queue" where
  "Dequeue spurious pc q =
     (case pc of
        DeqStart \<Rightarrow> (DeqCheck (q_head q), q)
      | DeqCheck old_head \<Rightarrow>
          if old_head + 1 = q_commit q then (DeqDone None, q) else (DeqRead old_head, q)
      | DeqRead old_head \<Rightarrow> (DeqCas old_head (pool q ! GetIndex q (old_head + 1)), q)
      | DeqCas old_head x \<Rightarrow>
          if q_head q = old_head \<and> \<not> spurious
          then (DeqDone (Some x), q\<lparr>q_head := old_head + 1, deq_log := deq_log q @ [x]\<rparr>)
          else (DeqCheck (q_head q), q)
      | _ \<Rightarrow> (pc, q))"

section \<open>Threads\<close>

record 'a q_system =
  the_queue :: "'a queue"
  q_pcs :: "nat \<Rightarrow> 'a q_pc"

definition q_init :: "'a \<Rightarrow> nat \<Rightarrow> 'a q_system" where
  "q_init dflt sz = \<lparr>the_queue = BoundedQueue_Init dflt sz, q_pcs = (\<lambda>_. Idle)\<rparr>"

definition ready :: "'a q_pc \<Rightarrow> bool" where
  "ready pc \<longleftrightarrow> (case pc of Idle \<Rightarrow> True | EnqDone _ \<Rightarrow> True | DeqDone _ \<Rightarrow> True | _ \<Rightarrow> False)"

inductive q_step :: "'a q_system \<Rightarrow> 'a q_system \<Rightarrow> bool" where
  call_enqueue: "ready (q_pcs s i) \<Longrightarrow> q_step s (s\<lparr>q_pcs := (q_pcs s)(i := EnqStart x)\<rparr>)"
| call_dequeue: "ready (q_pcs s i) \<Longrightarrow> q_step s (s\<lparr>q_pcs := (q_pcs s)(i := DeqStart)\<rparr>)"
| enqueue: "Enqueue spurious (q_pcs s i) (the_queue s) = (pc', q') \<Longrightarrow>
    q_step s (s\<lparr>the_queue := q', q_pcs := (q_pcs s)(i := pc')\<rparr>)"
| dequeue: "Dequeue spurious (q_pcs s i) (the_queue s) = (pc', q') \<Longrightarrow>
    q_step s (s\<lparr>the_queue := q', q_pcs := (q_pcs s)(i := pc')\<rparr>)"

section \<open>The invariant\<close>

text \<open>
  Positions count from 1; position \<open>p\<close> is the \<open>p\<close>-th element claimed and lives in slot
  \<open>p mod P\<close>. Claimed positions not yet committed each belong to one thread.
\<close>

definition owns :: "'a q_pc \<Rightarrow> nat \<Rightarrow> bool" where
  "owns pc t \<longleftrightarrow> (case pc of EnqWrite x u \<Rightarrow> u = t | EnqCommit u \<Rightarrow> u = t | _ \<Rightarrow> False)"

definition queue_inv :: "'a queue \<Rightarrow> bool" where
  "queue_inv q \<longleftrightarrow>
     2 \<le> pool_size q \<and> length (pool q) = pool_size q \<and>
     q_head q < q_commit q \<and> q_commit q \<le> q_tail q \<and> q_tail q < q_head q + pool_size q \<and>
     q_tail q = length (enq_log q) + 1 \<and>
     deq_log q = take (q_head q) (enq_log q) \<and>
     (\<forall>p. q_head q < p \<and> p < q_commit q \<longrightarrow> pool q ! (p mod pool_size q) = enq_log q ! (p - 1))"

definition thread_inv :: "'a queue \<Rightarrow> 'a q_pc \<Rightarrow> bool" where
  "thread_inv q pc \<longleftrightarrow>
     (case pc of
        EnqCheck x t \<Rightarrow> t \<le> q_tail q
      | EnqCas x t \<Rightarrow> t \<le> q_tail q \<and> (t = q_tail q \<longrightarrow> t + 1 < q_head q + pool_size q)
      | EnqWrite x t \<Rightarrow> q_commit q \<le> t \<and> t < q_tail q \<and> enq_log q ! (t - 1) = x
      | EnqCommit t \<Rightarrow> q_commit q \<le> t \<and> t < q_tail q \<and>
          pool q ! (t mod pool_size q) = enq_log q ! (t - 1)
      | DeqCheck h \<Rightarrow> h \<le> q_head q
      | DeqRead h \<Rightarrow> h \<le> q_head q \<and> h + 1 < q_commit q
      | DeqCas h x \<Rightarrow> h \<le> q_head q \<and> h + 1 < q_commit q \<and> (h = q_head q \<longrightarrow> x = enq_log q ! h)
      | _ \<Rightarrow> True)"

definition q_inv :: "'a q_system \<Rightarrow> bool" where
  "q_inv s \<longleftrightarrow> queue_inv (the_queue s) \<and>
     (\<forall>i. thread_inv (the_queue s) (q_pcs s i)) \<and>
     (\<forall>i j t. owns (q_pcs s i) t \<and> owns (q_pcs s j) t \<longrightarrow> i = j) \<and>
     (\<forall>t. q_commit (the_queue s) \<le> t \<and> t < q_tail (the_queue s) \<longrightarrow> (\<exists>i. owns (q_pcs s i) t))"

lemma GetIndex_mod [simp]: "GetIndex q n = n mod pool_size q"
  by (simp add: GetIndex_def minus_div_mult_eq_mod)

lemma q_init_inv [inv_intros]: "q_inv (q_init d sz)"
  by (auto simp: q_inv_def q_init_def BoundedQueue_Init_def queue_inv_def thread_inv_def owns_def)

lemma owns_thread: "thread_inv q pc \<Longrightarrow> owns pc t \<Longrightarrow> q_commit q \<le> t \<and> t < q_tail q"
  by (auto simp: owns_def thread_inv_def split: q_pc.splits)

text \<open>What one thread's access does to the queue, and what the other threads need of it.\<close>

lemma thread_inv_head:
  assumes "thread_inv q pc" "queue_inv q" "q_head q + 1 < q_commit q"
  shows "thread_inv (q\<lparr>q_head := q_head q + 1, deq_log := dl\<rparr>) pc"
  using assms by (auto simp: thread_inv_def split: q_pc.splits)

lemma thread_inv_tail:
  assumes "thread_inv q pc" "queue_inv q"
  shows "thread_inv (q\<lparr>q_tail := q_tail q + 1, enq_log := enq_log q @ [x]\<rparr>) pc"
  using assms by (auto simp: thread_inv_def queue_inv_def nth_append split: q_pc.splits)

lemma thread_inv_commit:
  assumes "thread_inv q pc" "\<not> owns pc (q_commit q)"
  shows "thread_inv (q\<lparr>q_commit := q_commit q + 1\<rparr>) pc"
  using assms by (auto simp: thread_inv_def owns_def split: q_pc.splits)

lemma thread_inv_write:
  assumes inv: "thread_inv q pc" and q: "queue_inv q" and t: "q_commit q \<le> t" "t < q_tail q" "\<not> owns pc t"
  shows "thread_inv (q\<lparr>pool := (pool q)[t mod pool_size q := x]\<rparr>) pc"
proof (cases "\<exists>u. pc = EnqCommit u")
  case True
  then obtain u where pc: "pc = EnqCommit u" by blast
  with inv t have u: "q_commit q \<le> u" "u < q_tail q" "u \<noteq> t"
    by (auto simp: thread_inv_def owns_def)
  have "t mod pool_size q \<noteq> u mod pool_size q"
    using mod_distinct_window [of t u "pool_size q"] mod_distinct_window [of u t "pool_size q"]
      u t q by (cases "t < u") (auto simp: queue_inv_def)
  then show ?thesis using inv by (simp add: thread_inv_def pc)
next
  case False
  then show ?thesis using inv by (auto simp: thread_inv_def split: q_pc.splits)
qed

section \<open>Every step keeps it\<close>

definition q_upd :: "'a q_system \<Rightarrow> nat \<Rightarrow> 'a q_pc \<times> 'a queue \<Rightarrow> 'a q_system" where
  "q_upd s i r = s\<lparr>the_queue := snd r, q_pcs := (q_pcs s)(i := fst r)\<rparr>"

lemma q_upd_inv:
  assumes inv: "q_inv s" and q: "queue_inv q'" and pc: "thread_inv q' pc'"
    and pcs: "\<And>j. j \<noteq> i \<Longrightarrow> thread_inv q' (q_pcs s j)"
    and uniq: "\<And>t. owns pc' t \<Longrightarrow> owns (q_pcs s i) t \<or> q_tail (the_queue s) \<le> t"
    and cover: "\<And>t. q_commit q' \<le> t \<Longrightarrow> t < q_tail q' \<Longrightarrow> owns pc' t \<or>
        q_commit (the_queue s) \<le> t \<and> t < q_tail (the_queue s) \<and> \<not> owns (q_pcs s i) t"
  shows "q_inv (q_upd s i (pc', q'))"
proof -
  have f: "q_pcs (q_upd s i (pc', q')) j = (if j = i then pc' else q_pcs s j)" for j
    by (simp add: q_upd_def)
  have th: "thread_inv (the_queue s) (q_pcs s j)" for j using inv by (simp add: q_inv_def)
  have one: "j = k" if "owns (q_pcs s j) t" "owns (q_pcs s k) t" for j k t
    using inv that unfolding q_inv_def by blast
  have new: "\<not> owns (q_pcs s j) t" if "j \<noteq> i" "owns pc' t" for j t
  proof
    assume o: "owns (q_pcs s j) t"
    then have "t < q_tail (the_queue s)" using owns_thread [OF th] by blast
    then have "owns (q_pcs s i) t" using uniq [OF that(2)] by simp
    then show False using one [OF o] that(1) by simp
  qed
  have "j = k" if "owns (q_pcs (q_upd s i (pc', q')) j) t" "owns (q_pcs (q_upd s i (pc', q')) k) t" for j k t
    using that new [of j t] new [of k t] one [of j t k] unfolding f by (metis (full_types))
  moreover have "\<exists>j. owns (q_pcs (q_upd s i (pc', q')) j) t" if "q_commit q' \<le> t" "t < q_tail q'" for t
    using cover [OF that]
  proof
    assume "owns pc' t"
    then show ?thesis by (intro exI [of _ i]) (simp add: f)
  next
    assume t: "q_commit (the_queue s) \<le> t \<and> t < q_tail (the_queue s) \<and> \<not> owns (q_pcs s i) t"
    then obtain j where j: "owns (q_pcs s j) t" using inv unfolding q_inv_def by blast
    with t have "j \<noteq> i" by auto
    with j show ?thesis by (intro exI [of _ j]) (simp add: f)
  qed
  moreover have "thread_inv q' (q_pcs (q_upd s i (pc', q')) j)" for j using pc pcs f by simp
  moreover have "the_queue (q_upd s i (pc', q')) = q'" by (simp add: q_upd_def)
  ultimately show ?thesis unfolding q_inv_def using q by metis
qed

lemma q_keep:
  assumes "q_inv s" "queue_inv q'" "thread_inv q' pc'" "\<And>j. j \<noteq> i \<Longrightarrow> thread_inv q' (q_pcs s j)"
    and "q_tail q' = q_tail (the_queue s)" "q_commit q' = q_commit (the_queue s)"
    and "owns pc' = owns (q_pcs s i)"
  shows "q_inv (q_upd s i (pc', q'))"
  using assms by (intro q_upd_inv) auto

lemma q_stay:
  assumes "q_inv s" "thread_inv (the_queue s) pc'" "owns pc' = owns (q_pcs s i)"
  shows "q_inv (q_upd s i (pc', the_queue s))"
  using assms by (intro q_keep) (auto simp: q_inv_def)

lemma owns_simps [simp]:
  "owns Idle = (\<lambda>t. False)" "owns (EnqStart x) = (\<lambda>t. False)" "owns (EnqCheck x u) = (\<lambda>t. False)"
  "owns (EnqCas x u) = (\<lambda>t. False)" "owns (EnqDone b) = (\<lambda>t. False)" "owns DeqStart = (\<lambda>t. False)"
  "owns (DeqCheck u) = (\<lambda>t. False)" "owns (DeqRead u) = (\<lambda>t. False)" "owns (DeqCas u x) = (\<lambda>t. False)"
  "owns (DeqDone v) = (\<lambda>t. False)" "owns (EnqWrite x u) = (\<lambda>t. u = t)" "owns (EnqCommit u) = (\<lambda>t. u = t)"
  by (simp_all add: owns_def fun_eq_iff)

lemma Enqueue_inv:
  assumes inv: "q_inv s"
  shows "q_inv (q_upd s i (Enqueue sp (q_pcs s i) (the_queue s)))"
proof -
  let ?q = "the_queue s" and ?pc = "q_pcs s i"
  have q: "queue_inv ?q" and th: "\<And>j. thread_inv ?q (q_pcs s j)"
    using inv by (auto simp: q_inv_def)
  have uniq: "\<And>j t. j \<noteq> i \<Longrightarrow> owns ?pc t \<Longrightarrow> \<not> owns (q_pcs s j) t"
    using inv by (auto simp: q_inv_def)
  note thi = th [of i]
  show ?thesis
  proof (cases ?pc)
    case (EnqStart x)
    then show ?thesis
      using inv by (simp add: Enqueue_def q_stay thread_inv_def)
  next
    case (EnqCheck x t)
    have "t + 1 < q_head ?q + pool_size ?q"
      if "(t + 1) mod pool_size ?q \<noteq> q_head ?q mod pool_size ?q" "t = q_tail ?q"
    proof -
      have "t + 1 \<noteq> q_head ?q + pool_size ?q" using that(1) by auto
      then show ?thesis using q that(2) by (auto simp: queue_inv_def)
    qed
    then show ?thesis
      using EnqCheck inv thi by (auto simp: Enqueue_def thread_inv_def intro!: q_stay)
  next
    case (EnqCas x t)
    show ?thesis
    proof (cases "q_tail ?q = t \<and> \<not> sp")
      case True
      let ?q' = "?q\<lparr>q_tail := q_tail ?q + 1, enq_log := enq_log ?q @ [x]\<rparr>"
      have "queue_inv ?q'"
        using q thi EnqCas True by (auto simp: queue_inv_def thread_inv_def nth_append)
      moreover have "thread_inv ?q' (EnqWrite x t)"
        using q True by (auto simp: queue_inv_def thread_inv_def nth_append)
      moreover have "thread_inv ?q' (q_pcs s j)" for j using thread_inv_tail [OF th q] .
      ultimately have "q_inv (q_upd s i (EnqWrite x t, ?q'))"
        using inv EnqCas True by (intro q_upd_inv) auto
      then show ?thesis using EnqCas True by (simp add: Enqueue_def)
    next
      case False
      then show ?thesis using EnqCas inv by (auto simp: Enqueue_def thread_inv_def intro!: q_stay)
    qed
  next
    case (EnqWrite x t)
    let ?q' = "?q\<lparr>pool := (pool ?q)[t mod pool_size ?q := x]\<rparr>"
    have t: "q_commit ?q \<le> t" "t < q_tail ?q" "enq_log ?q ! (t - 1) = x"
      using thi EnqWrite by (auto simp: thread_inv_def)
    have "t mod pool_size ?q \<noteq> p mod pool_size ?q" if "q_head ?q < p" "p < q_commit ?q" for p
      using mod_distinct_window [of p t "pool_size ?q"] that t q by (auto simp: queue_inv_def)
    then have "queue_inv ?q'" using q by (auto simp: queue_inv_def)
    moreover have "thread_inv ?q' (EnqCommit t)" using t q by (auto simp: thread_inv_def queue_inv_def)
    moreover have "thread_inv ?q' (q_pcs s j)" if "j \<noteq> i" for j
      using thread_inv_write [OF th q t(1,2)] uniq [OF that, of t] EnqWrite by simp
    ultimately have "q_inv (q_upd s i (EnqCommit t, ?q'))"
      using inv EnqWrite by (intro q_keep) auto
    then show ?thesis using EnqWrite by (simp add: Enqueue_def)
  next
    case (EnqCommit t)
    show ?thesis
    proof (cases "q_commit ?q = t \<and> \<not> sp")
      case True
      let ?q' = "?q\<lparr>q_commit := q_commit ?q + 1\<rparr>"
      have t: "t < q_tail ?q" "pool ?q ! (t mod pool_size ?q) = enq_log ?q ! (t - 1)"
        using thi EnqCommit by (auto simp: thread_inv_def)
      have "queue_inv ?q'" using q t True by (auto simp: queue_inv_def less_Suc_eq)
      moreover have "thread_inv ?q' (q_pcs s j)" if "j \<noteq> i" for j
        using thread_inv_commit [OF th, of j] uniq [OF that, of t] EnqCommit True by simp
      ultimately have "q_inv (q_upd s i (EnqDone True, ?q'))"
        using inv EnqCommit True by (intro q_upd_inv) (auto simp: thread_inv_def)
      then show ?thesis using EnqCommit True by (simp add: Enqueue_def)
    next
      case False
      then show ?thesis using EnqCommit inv thi by (auto simp: Enqueue_def intro!: q_stay)
    qed
  qed (use inv thi in \<open>auto simp: Enqueue_def intro!: q_stay\<close>)
qed

lemma Dequeue_inv:
  assumes inv: "q_inv s"
  shows "q_inv (q_upd s i (Dequeue sp (q_pcs s i) (the_queue s)))"
proof -
  let ?q = "the_queue s" and ?pc = "q_pcs s i"
  have q: "queue_inv ?q" and th: "\<And>j. thread_inv ?q (q_pcs s j)"
    using inv by (auto simp: q_inv_def)
  note thi = th [of i]
  show ?thesis
  proof (cases ?pc)
    case DeqStart
    then show ?thesis using inv by (auto simp: Dequeue_def thread_inv_def intro!: q_stay)
  next
    case (DeqCheck h)
    then show ?thesis
      using inv thi q by (auto simp: Dequeue_def thread_inv_def queue_inv_def intro!: q_stay)
  next
    case (DeqRead h)
    have "pool ?q ! ((h + 1) mod pool_size ?q) = enq_log ?q ! h" if "h = q_head ?q"
    proof -
      have "q_head ?q < h + 1" "h + 1 < q_commit ?q"
        using that thi DeqRead by (auto simp: thread_inv_def)
      then show ?thesis using q unfolding queue_inv_def by (metis add_diff_cancel_right')
    qed
    then show ?thesis
      using DeqRead inv thi by (auto simp: Dequeue_def thread_inv_def intro!: q_stay)
  next
    case (DeqCas h x)
    show ?thesis
    proof (cases "q_head ?q = h \<and> \<not> sp")
      case True
      let ?q' = "?q\<lparr>q_head := q_head ?q + 1, deq_log := deq_log ?q @ [x]\<rparr>"
      have h: "q_head ?q + 1 < q_commit ?q" "x = enq_log ?q ! q_head ?q"
        using thi DeqCas True by (auto simp: thread_inv_def)
      have "q_head ?q < length (enq_log ?q)" using q h by (auto simp: queue_inv_def)
      then have "queue_inv ?q'" using q h by (auto simp: queue_inv_def take_Suc_conv_app_nth)
      moreover have "thread_inv ?q' (q_pcs s j)" for j using thread_inv_head [OF th q h(1)] .
      ultimately have "q_inv (q_upd s i (DeqDone (Some x), ?q'))"
        using inv DeqCas by (intro q_keep) (auto simp: thread_inv_def)
      then show ?thesis using DeqCas True by (simp add: Dequeue_def)
    next
      case False
      then show ?thesis using DeqCas inv by (auto simp: Dequeue_def thread_inv_def intro!: q_stay)
    qed
  qed (use inv thi in \<open>auto simp: Dequeue_def intro!: q_stay\<close>)
qed

lemma thread_inv_ready: "ready pc \<Longrightarrow> owns pc = (\<lambda>t. False)"
  by (auto simp: ready_def split: q_pc.splits)

lemma q_step_inv [inv_intros]: "q_step s s' \<Longrightarrow> q_inv s \<Longrightarrow> q_inv s'"
proof (induction rule: q_step.induct)
  case (call_enqueue s i x)
  then have "q_inv (q_upd s i (EnqStart x, the_queue s))"
    by (intro q_stay) (auto simp: thread_inv_def thread_inv_ready)
  then show ?case by (simp add: q_upd_def)
next
  case (call_dequeue s i)
  then have "q_inv (q_upd s i (DeqStart, the_queue s))"
    by (intro q_stay) (auto simp: thread_inv_def thread_inv_ready)
  then show ?case by (simp add: q_upd_def)
next
  case (enqueue spurious s i pc' q')
  then show ?case using Enqueue_inv [of s i spurious] by (simp add: q_upd_def)
next
  case (dequeue spurious s i pc' q')
  then show ?case using Dequeue_inv [of s i spurious] by (simp add: q_upd_def)
qed

lemma pool_size_step: "q_step s s' \<Longrightarrow> pool_size (the_queue s') = pool_size (the_queue s)"
  by (induction rule: q_step.induct)
    (auto simp: Enqueue_def Dequeue_def split: q_pc.splits if_splits)

lemma q_reach:
  "q_step\<^sup>*\<^sup>* (q_init d sz) s \<Longrightarrow> q_inv s \<and> pool_size (the_queue s) = sz + 2"
  by (induction rule: rtranclp_induct)
    (auto simp: q_init_inv q_step_inv pool_size_step, simp add: q_init_def BoundedQueue_Init_def)

section \<open>An operation with no other thread running\<close>

definition enqueue_alone :: "'a \<Rightarrow> 'a queue \<Rightarrow> 'a q_pc \<times> 'a queue" where
  "enqueue_alone x q = ((\<lambda>(pc, q). Enqueue False pc q) ^^ 5) (EnqStart x, q)"

definition dequeue_alone :: "'a queue \<Rightarrow> 'a q_pc \<times> 'a queue" where
  "dequeue_alone q = ((\<lambda>(pc, q). Dequeue False pc q) ^^ 4) (DeqStart, q)"

text \<open>The abstract queue: the elements claimed and not yet taken.\<close>

definition contents :: "'a queue \<Rightarrow> 'a list" where
  "contents q = drop (q_head q) (enq_log q)"

lemma index_full:
  assumes "queue_inv q"
  shows "(q_tail q + 1) mod pool_size q = q_head q mod pool_size q
    \<longleftrightarrow> q_tail q + 1 = q_head q + pool_size q"
proof (cases "q_tail q + 1 = q_head q + pool_size q")
  case True
  then show ?thesis by simp
next
  case False
  then have "q_head q < q_tail q + 1" "q_tail q + 1 < q_head q + pool_size q"
    using assms by (auto simp: queue_inv_def)
  then show ?thesis using False mod_distinct_window by metis
qed

lemma contents_length: "queue_inv q \<Longrightarrow> length (contents q) = Size q"
  by (auto simp: contents_def Size_def queue_inv_def)

text \<open>
  Refinement to the abstract queue: with nothing in progress (\<open>commit_ = tail_\<close>), an enqueue
  appends unless \<open>size\<close> elements are there, and a dequeue takes the first element if there is one.
\<close>

lemma enqueue_alone_spec:
  assumes inv: "queue_inv q" and quiet: "q_commit q = q_tail q"
  shows "if length (contents q) < pool_size q - 2
         then fst (enqueue_alone x q) = EnqDone True \<and> contents (snd (enqueue_alone x q)) = contents q @ [x]
         else enqueue_alone x q = (EnqDone False, q)"
proof -
  have len: "length (contents q) < pool_size q - 2 \<longleftrightarrow> q_tail q + 1 \<noteq> q_head q + pool_size q"
    using inv contents_length [OF inv] by (auto simp: queue_inv_def Size_def)
  have head: "q_head q \<le> length (enq_log q)" using inv by (auto simp: queue_inv_def)
  show ?thesis
    unfolding len enqueue_alone_def
    using index_full [OF inv] quiet head by (simp add: Enqueue_def contents_def eval_nat_numeral)
qed

lemma dequeue_alone_spec:
  assumes inv: "queue_inv q" and quiet: "q_commit q = q_tail q"
  shows "case contents q of
           [] \<Rightarrow> dequeue_alone q = (DeqDone None, q)
         | x # xs \<Rightarrow> fst (dequeue_alone q) = DeqDone (Some x) \<and> contents (snd (dequeue_alone q)) = xs"
proof (cases "contents q")
  case Nil
  then have "q_head q + 1 = q_commit q"
    using contents_length [OF inv] inv quiet by (auto simp: Size_def queue_inv_def)
  then show ?thesis using Nil
    unfolding dequeue_alone_def by (simp add: Dequeue_def eval_nat_numeral)
next
  case (Cons x xs)
  have "q_head q < length (enq_log q)" 
    using Cons by (cases "q_head q < length (enq_log q)") (auto simp: contents_def)
  then have x: "x = enq_log q ! q_head q" and xs: "xs = drop (q_head q + 1) (enq_log q)"
    using Cons by (auto simp: contents_def Cons_nth_drop_Suc [symmetric])
  have c: "q_head q + 1 < q_commit q" using \<open>q_head q < length (enq_log q)\<close> inv quiet
    by (auto simp: queue_inv_def)
  then have "pool q ! ((q_head q + 1) mod pool_size q) = enq_log q ! q_head q"
    using inv unfolding queue_inv_def by (metis add_diff_cancel_right' less_add_one)
  then show ?thesis using Cons c x xs
    unfolding dequeue_alone_def by (simp add: Dequeue_def contents_def eval_nat_numeral)
qed

section \<open>Properties\<close>

text \<open>
  Property C10. In every reachable state of any number of threads that enqueue and dequeue
  concurrently, the elements taken are, in order, the first elements claimed: nothing is lost,
  duplicated or overtaken, no claimed slot was overwritten before it was read, and at most
  \<open>size\<close> elements are in the queue.
\<close>

theorem bounded_queue_fifo:
  assumes "q_step\<^sup>*\<^sup>* (q_init d sz) s"
  shows "prefix (deq_log (the_queue s)) (enq_log (the_queue s)) \<and>
         length (enq_log (the_queue s)) \<le> length (deq_log (the_queue s)) + sz"
proof -
  have "queue_inv (the_queue s)" "pool_size (the_queue s) = sz + 2"
    using q_reach [OF assms] by (auto simp: q_inv_def)
  then show ?thesis by (auto simp: queue_inv_def take_is_prefix)
qed

theorem bounded_queue_fifo_witness:
  "prefix (deq_log (the_queue (q_init (0 :: int) 3))) (enq_log (the_queue (q_init (0 :: int) 3)))"
  using bounded_queue_fifo [OF rtranclp.rtrancl_refl, of "0 :: int" 3] by simp

text \<open>
  Whenever no operation is in progress, every claimed element is committed, and a
  queue operation run then behaves as on an abstract first-in first-out queue: it returns the
  oldest element not yet taken, or none exactly when all were taken, and an enqueue succeeds
  exactly when fewer than \<open>size\<close> elements are in the queue.
\<close>

theorem bounded_queue_quiescent:
  assumes "q_step\<^sup>*\<^sup>* (q_init d sz) s" and "\<forall>i. ready (q_pcs s i)" and "q = the_queue s"
  shows "q_commit q = q_tail q \<and>
    fst (dequeue_alone q) = DeqDone (if length (deq_log q) = length (enq_log q) then None
                                     else Some (enq_log q ! length (deq_log q))) \<and>
    fst (enqueue_alone x q) = EnqDone (length (enq_log q) < length (deq_log q) + sz)"
proof -
  have inv: "q_inv s" and P: "pool_size q = sz + 2" using q_reach [OF assms(1)] assms(3) by auto
  then have q: "queue_inv q" by (simp add: q_inv_def assms(3))
  have "\<not> owns (q_pcs s i) t" for i t
    using thread_inv_ready [of "q_pcs s i"] assms(2) by simp
  then have "\<not> q_commit q < q_tail q" using inv unfolding q_inv_def assms(3) by blast
  then have quiet: "q_commit q = q_tail q" using q by (simp add: queue_inv_def)
  have head: "length (deq_log q) = q_head q" "q_head q \<le> length (enq_log q)"
    using q by (auto simp: queue_inv_def)
  have "fst (dequeue_alone q) = DeqDone (if q_head q = length (enq_log q) then None
                                     else Some (enq_log q ! q_head q))"
  proof (cases "q_head q = length (enq_log q)")
    case True
    then have "contents q = []" by (simp add: contents_def)
    then show ?thesis using dequeue_alone_spec [OF q quiet] True by simp
  next
    case False
    then have "contents q = enq_log q ! q_head q # drop (Suc (q_head q)) (enq_log q)"
      using head(2) by (simp add: contents_def Cons_nth_drop_Suc)
    then show ?thesis using dequeue_alone_spec [OF q quiet] False by simp
  qed
  moreover have "fst (enqueue_alone x q) = EnqDone (length (contents q) < sz)"
    using enqueue_alone_spec [OF q quiet, of x] P by (auto split: if_splits)
  ultimately show ?thesis using quiet head by (simp add: contents_def less_diff_conv2 add.commute)
qed

theorem bounded_queue_quiescent_witness:
  "fst (dequeue_alone (BoundedQueue_Init (7 :: int) 3)) = DeqDone None"
  using bounded_queue_quiescent [OF rtranclp.rtrancl_refl [of q_step "q_init (7 :: int) 3"] _ refl]
  by (simp add: q_init_def ready_def BoundedQueue_Init_def)

end
