(* ===== verification/TimingWheel.thy ===== *)
theory TimingWheel
  imports Prelude
begin

text \<open>
  The two-level timing wheel of \<open>cyber/timer/timing_wheel.cc\<close> with its buckets
  (\<open>timer_bucket.h\<close>) and the timers that put themselves back on it (\<open>timer.cc\<close>). A bucket is a
  list of task ids (weak pointers); \<open>tasks\<close> holds the tasks still alive. A tick starts the
  callbacks of the tasks it finds; what they do is another step, so a tick gives their ids. The
  indices are \<open>uint64_t\<close> values kept in range by the masks, and naturals here.
\<close>

section \<open>State\<close>

definition WORK_WHEEL_SIZE :: nat where
  "WORK_WHEEL_SIZE = 512"

definition ASSISTANT_WHEEL_SIZE :: nat where
  "ASSISTANT_WHEEL_SIZE = 64"

definition TIMER_RESOLUTION_MS :: nat where
  "TIMER_RESOLUTION_MS = 2"

definition TIMER_MAX_INTERVAL_MS :: nat where
  "TIMER_MAX_INTERVAL_MS = WORK_WHEEL_SIZE * ASSISTANT_WHEEL_SIZE * TIMER_RESOLUTION_MS"

lemmas wheel_consts = WORK_WHEEL_SIZE_def ASSISTANT_WHEEL_SIZE_def TIMER_RESOLUTION_MS_def

record timer_task =
  remainder_interval_ms :: nat
  next_fire_duration_ms :: nat

record wheel =
  running :: bool
  tick_count :: nat
  work_wheel :: "nat list list"
  assistant_wheel :: "nat list list"
  current_work :: nat
  current_assistant :: nat
  tasks :: "nat \<rightharpoonup> timer_task"

definition new_wheel :: "(nat \<rightharpoonup> timer_task) \<Rightarrow> wheel" where
  "new_wheel ts = \<lparr>running = False, tick_count = 0,
     work_wheel = replicate WORK_WHEEL_SIZE [], assistant_wheel = replicate ASSISTANT_WHEEL_SIZE [],
     current_work = 0, current_assistant = 0, tasks = ts\<rparr>"

text \<open>\<open>index & (SIZE - 1)\<close>, the sizes being powers of two.\<close>

definition GetWorkWheelIndex :: "nat \<Rightarrow> nat" where
  "GetWorkWheelIndex index = index AND (WORK_WHEEL_SIZE - 1)"

definition GetAssistantWheelIndex :: "nat \<Rightarrow> nat" where
  "GetAssistantWheelIndex index = index AND (ASSISTANT_WHEEL_SIZE - 1)"

section \<open>Operations\<close>

definition Wheel_Start :: "wheel \<Rightarrow> wheel" where
  "Wheel_Start w = (if \<not> running w then w\<lparr>running := True\<rparr> else w)"

definition Wheel_Shutdown :: "wheel \<Rightarrow> wheel" where
  "Wheel_Shutdown w = (if running w then w\<lparr>running := False\<rparr> else w)"

definition bucket_AddTask :: "nat \<Rightarrow> nat \<Rightarrow> nat list list \<Rightarrow> nat list list" where
  "bucket_AddTask i task bs = bs[i := bs ! i @ [task]]"

text \<open>The callbacks started, and the wheel with the bucket emptied.\<close>

definition Tick :: "wheel \<Rightarrow> nat list \<times> wheel" where
  "Tick w =
     (let i = current_work w
      in (filter (\<lambda>t. tasks w t \<noteq> None) (work_wheel w ! i), w\<lparr>work_wheel := (work_wheel w)[i := []]\<rparr>))"

text \<open>\<open>std::ceil(static_cast<double>(ms) / TIMER_RESOLUTION_MS)\<close>.\<close>

definition fire_ticks :: "nat \<Rightarrow> nat" where
  "fire_ticks ms = (ms + TIMER_RESOLUTION_MS - 1) div TIMER_RESOLUTION_MS"

definition AddTask_at :: "nat \<Rightarrow> nat \<Rightarrow> wheel \<Rightarrow> wheel" where
  "AddTask_at task current_work_wheel_index w0 =
     (let w = (if \<not> running w0 then Wheel_Start w0 else w0) in
      case tasks w task of
        None \<Rightarrow> w
      | Some tk \<Rightarrow>
          let work_wheel_index = current_work_wheel_index + fire_ticks (next_fire_duration_ms tk)
          in if work_wheel_index \<ge> WORK_WHEEL_SIZE then
               let real_work_wheel_index = GetWorkWheelIndex work_wheel_index;
                   w1 = w\<lparr>tasks := (tasks w)(task \<mapsto> tk\<lparr>remainder_interval_ms := real_work_wheel_index\<rparr>)\<rparr>;
                   assistant_ticks = work_wheel_index div WORK_WHEEL_SIZE
               in if assistant_ticks = 1 \<and> real_work_wheel_index < current_work w
                  then w1\<lparr>work_wheel := bucket_AddTask real_work_wheel_index task (work_wheel w)\<rparr>
                  else let assistant_wheel_index = GetAssistantWheelIndex (current_assistant w + assistant_ticks)
                       in w1\<lparr>assistant_wheel := bucket_AddTask assistant_wheel_index task (assistant_wheel w)\<rparr>
             else w\<lparr>work_wheel := bucket_AddTask work_wheel_index task (work_wheel w)\<rparr>)"

definition AddTask :: "nat \<Rightarrow> wheel \<Rightarrow> wheel" where
  "AddTask task w = AddTask_at task (current_work w) w"

definition Cascade :: "nat \<Rightarrow> wheel \<Rightarrow> wheel" where
  "Cascade i w =
     w\<lparr>work_wheel := fold (\<lambda>t bs. case tasks w t of
                                    Some tk \<Rightarrow> bucket_AddTask (remainder_interval_ms tk) t bs
                                  | None \<Rightarrow> bs) (assistant_wheel w ! i) (work_wheel w),
       assistant_wheel := (assistant_wheel w)[i := []]\<rparr>"

text \<open>
  The pieces of the loop of \<open>TickFunc\<close> after \<open>Tick\<close>: count, move the work index, and when it came
  back to 0, move the assistant index and cascade.
\<close>

definition advance_work :: "wheel \<Rightarrow> wheel" where
  "advance_work w = w\<lparr>current_work := GetWorkWheelIndex (current_work w + 1)\<rparr>"

definition advance_assistant :: "wheel \<Rightarrow> wheel" where
  "advance_assistant w =
     w\<lparr>current_assistant := GetAssistantWheelIndex (current_assistant w + 1)\<rparr>"

definition Advance :: "wheel \<Rightarrow> wheel" where
  "Advance w =
     (let w1 = advance_work w
      in if current_work w1 = 0
         then let w2 = advance_assistant w1 in Cascade (current_assistant w2) w2
         else w1)"

definition TickFunc_iteration :: "wheel \<Rightarrow> nat list \<times> wheel" where
  "TickFunc_iteration w =
     (let (fired, w1) = Tick w in (fired, Advance (w1\<lparr>tick_count := tick_count w1 + 1\<rparr>)))"

text \<open>
  What happens to the wheel from the point where the tick thread sleeps: it wakes up, advances
  and ticks; tasks are added; a task dies when its timer is stopped.
\<close>

datatype wheel_act = Round | Add nat | Die nat

fun wheel_step :: "wheel_act \<Rightarrow> wheel \<Rightarrow> nat list list \<times> wheel" where
  "wheel_step Round w =
     (let (fired, w') = Tick ((Advance w)\<lparr>tick_count := tick_count w + 1\<rparr>) in ([fired], w'))"
| "wheel_step (Add t) w = ([], AddTask t w)"
| "wheel_step (Die t) w = ([], w\<lparr>tasks := (tasks w)(t := None)\<rparr>)"

fun wheel_run :: "wheel_act list \<Rightarrow> wheel \<Rightarrow> nat list list" where
  "wheel_run [] w = []"
| "wheel_run (a # as) w = (let (fired, w') = wheel_step a w in fired @ wheel_run as w')"

section \<open>Where a task waits\<close>

lemma work_index_mod [simp]: "GetWorkWheelIndex n = n mod 512"
  using take_bit_eq_mask [of 9 n] by (simp add: GetWorkWheelIndex_def wheel_consts take_bit_eq_mod mask_eq_exp_minus_1)

lemma assistant_index_mod [simp]: "GetAssistantWheelIndex n = n mod 64"
  using take_bit_eq_mask [of 6 n]
  by (simp add: GetAssistantWheelIndex_def wheel_consts take_bit_eq_mod mask_eq_exp_minus_1)

definition wheel_ok :: "wheel \<Rightarrow> bool" where
  "wheel_ok w \<longleftrightarrow> length (work_wheel w) = 512 \<and> length (assistant_wheel w) = 64 \<and>
     current_work w < 512 \<and> current_assistant w < 64 \<and>
     (\<forall>t tk. tasks w t = Some tk \<and> (\<exists>b \<in> set (assistant_wheel w). t \<in> set b) \<longrightarrow>
        remainder_interval_ms tk < 512)"

text \<open>
  The task is in one work bucket, or in one assistant bucket, and nowhere else. \<open>waits w t r\<close>:
  it fires after \<open>r\<close> more rounds.
\<close>

definition in_work :: "wheel \<Rightarrow> nat \<Rightarrow> nat set" where
  "in_work w t = {i. i < 512 \<and> t \<in> set (work_wheel w ! i)}"

definition in_assistant :: "wheel \<Rightarrow> nat \<Rightarrow> nat set" where
  "in_assistant w t = {j. j < 64 \<and> t \<in> set (assistant_wheel w ! j)}"

definition waits_work :: "wheel \<Rightarrow> nat \<Rightarrow> nat \<Rightarrow> bool" where
  "waits_work w t r \<longleftrightarrow> in_assistant w t = {} \<and> r < 512 \<and> in_work w t = {(current_work w + r) mod 512}"

definition waits_assistant :: "wheel \<Rightarrow> nat \<Rightarrow> nat \<Rightarrow> bool" where
  "waits_assistant w t r \<longleftrightarrow> in_work w t = {} \<and>
     (\<exists>m rem tk. 1 \<le> m \<and> m \<le> 64 \<and> rem < 512 \<and> in_assistant w t = {(current_assistant w + m) mod 64} \<and>
        tasks w t = Some tk \<and> remainder_interval_ms tk = rem \<and>
        r + current_work w = 512 * m + rem)"

definition waits :: "wheel \<Rightarrow> nat \<Rightarrow> nat \<Rightarrow> bool" where
  "waits w t r \<longleftrightarrow> wheel_ok w \<and> tasks w t \<noteq> None \<and> (waits_work w t r \<or> waits_assistant w t r)"

section \<open>Every operation moves it as it should\<close>

lemma length_bucket_AddTask [simp]: "length (bucket_AddTask i t bs) = length bs"
  by (simp add: bucket_AddTask_def)

lemma mem_bucket_AddTask:
  "j < length bs \<Longrightarrow> u \<in> set (bucket_AddTask i t bs ! j) \<longleftrightarrow> u \<in> set (bs ! j) \<or> u = t \<and> i = j"
  by (cases "i = j") (auto simp: bucket_AddTask_def)

lemma mem_update_empty:
  "j < length bs \<Longrightarrow> u \<in> set (bs[i := []] ! j) \<longleftrightarrow> u \<in> set (bs ! j) \<and> i \<noteq> j"
  by (cases "i = j") auto

definition cascade_one :: "(nat \<rightharpoonup> timer_task) \<Rightarrow> nat \<Rightarrow> nat list list \<Rightarrow> nat list list" where
  "cascade_one ts t bs = (case ts t of Some tk \<Rightarrow> bucket_AddTask (remainder_interval_ms tk) t bs | None \<Rightarrow> bs)"

lemma Cascade_eq:
  "Cascade i w = w\<lparr>work_wheel := fold (cascade_one (tasks w)) (assistant_wheel w ! i) (work_wheel w),
                   assistant_wheel := (assistant_wheel w)[i := []]\<rparr>"
  by (simp add: Cascade_def cascade_one_def [abs_def])

lemma length_cascade [simp]: "length (fold (cascade_one ts) us bs) = length bs"
  by (induction us arbitrary: bs) (auto simp: cascade_one_def split: option.splits)

lemma mem_cascade:
  "i < length bs \<Longrightarrow> t \<in> set (fold (cascade_one ts) us bs ! i) \<longleftrightarrow>
     t \<in> set (bs ! i) \<or> t \<in> set us \<and> (\<exists>tk. ts t = Some tk \<and> remainder_interval_ms tk = i)"
proof (induction us arbitrary: bs)
  case Nil
  then show ?case by simp
next
  case (Cons u us)
  have "length (cascade_one ts u bs) = length bs"
    by (simp add: cascade_one_def split: option.splits)
  then show ?case
    using Cons by (auto simp: cascade_one_def mem_bucket_AddTask split: option.splits)
qed

lemma wheel_ok_Tick [inv_intros]: "wheel_ok w \<Longrightarrow> wheel_ok (snd (Tick w))"
  by (simp add: wheel_ok_def Tick_def Let_def)

lemma wheel_ok_count [simp]:
  "wheel_ok (w\<lparr>tick_count := n\<rparr>) = wheel_ok w" "waits (w\<lparr>tick_count := n\<rparr>) = waits w"
  "in_work (w\<lparr>tick_count := n\<rparr>) = in_work w" "in_assistant (w\<lparr>tick_count := n\<rparr>) = in_assistant w"
  by (simp_all add: wheel_ok_def waits_def waits_work_def waits_assistant_def in_work_def
      in_assistant_def fun_eq_iff)

lemma wheel_ok_Die [inv_intros]: "wheel_ok w \<Longrightarrow> wheel_ok (w\<lparr>tasks := (tasks w)(t := None)\<rparr>)"
  by (auto simp: wheel_ok_def)

lemma in_set_update_empty: "b \<in> set (bs[i := []]) \<Longrightarrow> x \<in> set b \<Longrightarrow> \<exists>b \<in> set bs. x \<in> set b"
  by (metis empty_iff insertE list.set(1) set_update_subset_insert subsetD)

lemma wheel_ok_Advance [inv_intros]:
  assumes "wheel_ok w" shows "wheel_ok (Advance w)"
proof (cases "current_work (advance_work w) = 0")
  case False
  then show ?thesis using assms by (auto simp: wheel_ok_def Advance_def advance_work_def Let_def)
next
  case True
  let ?i = "(current_assistant w + 1) mod 64"
  have "\<exists>b \<in> set (assistant_wheel w). t \<in> set b" if "\<exists>b \<in> set ((assistant_wheel w)[?i := []]). t \<in> set b" for t
    using that in_set_update_empty by metis
  then show ?thesis
    using assms True
    by (auto simp: wheel_ok_def Advance_def advance_work_def advance_assistant_def Cascade_eq Let_def)
qed

lemma AddTask_fields:
  "current_work (AddTask t w) = current_work w" "current_assistant (AddTask t w) = current_assistant w"
  "length (work_wheel (AddTask t w)) = length (work_wheel w)"
  "length (assistant_wheel (AddTask t w)) = length (assistant_wheel w)"
  "u \<noteq> t \<Longrightarrow> tasks (AddTask t w) u = tasks w u"
  by (simp_all add: AddTask_def AddTask_at_def Wheel_Start_def Let_def split: option.splits)

lemma mem_AddTask_other:
  assumes "wheel_ok w" "u \<noteq> t"
  shows "in_work (AddTask t w) u = in_work w u" "in_assistant (AddTask t w) u = in_assistant w u"
  using assms
  by (auto simp: wheel_ok_def in_work_def in_assistant_def AddTask_def AddTask_at_def Wheel_Start_def
      Let_def mem_bucket_AddTask split: option.splits)

lemma wheel_ok_AddTask [inv_intros]:
  assumes "wheel_ok w" shows "wheel_ok (AddTask t w)"
proof -
  have len: "length (assistant_wheel w) = 64" using assms by (simp add: wheel_ok_def)
  have rem: "remainder_interval_ms tk < 512"
    if "tasks (AddTask t w) u = Some tk" "in_assistant (AddTask t w) u \<noteq> {}" for u tk
  proof (cases "u = t")
    case False
    then have "tasks w u = Some tk" "in_assistant w u \<noteq> {}"
      using that mem_AddTask_other [OF assms False] AddTask_fields(5) by auto
    then show ?thesis using assms len by (force simp: wheel_ok_def in_assistant_def in_set_conv_nth)
  next
    case True
    note alive = that(1)
    have "tasks (AddTask t w) t = None" if "tasks w t = None"
      using that by (simp add: AddTask_def AddTask_at_def Wheel_Start_def Let_def)
    then obtain tk0 where tk0: "tasks w t = Some tk0" using alive True by (cases "tasks w t") auto
    then show ?thesis
    proof (cases "current_work w + fire_ticks (next_fire_duration_ms tk0) \<ge> WORK_WHEEL_SIZE")
      case over: True
      then show ?thesis using that(1) True tk0
        by (auto simp: AddTask_def AddTask_at_def Wheel_Start_def Let_def split: if_splits)
    next
      case under: False
      then have "tasks w t = Some tk" "in_assistant w t \<noteq> {}"
        using that True tk0 by (auto simp: AddTask_def AddTask_at_def Wheel_Start_def Let_def in_assistant_def
            split: if_splits)
      then show ?thesis using assms len by (force simp: wheel_ok_def in_assistant_def in_set_conv_nth)
    qed
  qed
  have "in_assistant (AddTask t w) u \<noteq> {}" if "\<exists>b \<in> set (assistant_wheel (AddTask t w)). u \<in> set b" for u
  proof -
    from that obtain b where b: "b \<in> set (assistant_wheel (AddTask t w))" "u \<in> set b" by blast
    from b(1) obtain j where "j < length (assistant_wheel (AddTask t w))" "assistant_wheel (AddTask t w) ! j = b"
      unfolding in_set_conv_nth by blast
    then show ?thesis using b(2) len by (auto simp: in_assistant_def AddTask_fields)
  qed
  then show ?thesis using assms rem unfolding wheel_ok_def AddTask_fields by blast
qed

lemma in_work_AddTask_at:
  assumes "wheel_ok w"
  shows "in_work (w\<lparr>work_wheel := bucket_AddTask i t (work_wheel w), tasks := ts\<rparr>) t
           = (if i < 512 then insert i (in_work w t) else in_work w t)"
  using assms by (auto simp: in_work_def wheel_ok_def mem_bucket_AddTask)

lemma fire_ticks_alt: "fire_ticks d = (d + 1) div 2"
  by (simp add: fire_ticks_def wheel_consts)

text \<open>A task of 1 to 65535 ms that is nowhere waits for half its milliseconds, rounded up.\<close>

lemma AddTask_waits:
  assumes ok: "wheel_ok w" and nowhere: "in_work w t = {}" "in_assistant w t = {}"
    and tk: "tasks w t = Some tk" "1 \<le> next_fire_duration_ms tk" "next_fire_duration_ms tk < TIMER_MAX_INTERVAL_MS"
  shows "waits (AddTask t w) t (fire_ticks (next_fire_duration_ms tk))"
proof -
  let ?k = "fire_ticks (next_fire_duration_ms tk)" and ?c = "current_work w"
  have k: "1 \<le> ?k" "?k \<le> 32768" "?k < 32768 \<or> True"
    using tk(2,3) by (auto simp: fire_ticks_alt TIMER_MAX_INTERVAL_MS_def wheel_consts)
  have c: "?c < 512" and lens: "length (work_wheel w) = 512" "length (assistant_wheel w) = 64"
    using ok by (auto simp: wheel_ok_def)
  have ok': "wheel_ok (AddTask t w)" using ok by (rule wheel_ok_AddTask)
  have alive: "tasks (AddTask t w) t \<noteq> None"
    using tk(1) by (simp add: AddTask_def AddTask_at_def Wheel_Start_def Let_def)
  have w: "(if \<not> running w then Wheel_Start w else w) = w\<lparr>running := True\<rparr>"
    by (simp add: Wheel_Start_def)
  consider (near) "?c + ?k < 512"
    | (wrap) "512 \<le> ?c + ?k" "(?c + ?k) div 512 = 1" "(?c + ?k) mod 512 < ?c"
    | (far) "512 \<le> ?c + ?k" "\<not> ((?c + ?k) div 512 = 1 \<and> (?c + ?k) mod 512 < ?c)"
    by linarith
  then have "waits_work (AddTask t w) t ?k \<or> waits_assistant (AddTask t w) t ?k"
  proof cases
    case near
    then have "AddTask t w = w\<lparr>running := True, work_wheel := bucket_AddTask (?c + ?k) t (work_wheel w)\<rparr>"
      using tk(1) by (simp add: AddTask_def AddTask_at_def w wheel_consts Let_def)
    then have "waits_work (AddTask t w) t ?k"
      using near nowhere lens by (auto simp: waits_work_def in_work_def in_assistant_def mem_bucket_AddTask)
    then show ?thesis ..
  next
    case wrap
    let ?r = "(?c + ?k) mod 512"
    have "AddTask t w = w\<lparr>running := True, tasks := (tasks w)(t \<mapsto> tk\<lparr>remainder_interval_ms := ?r\<rparr>),
        work_wheel := bucket_AddTask ?r t (work_wheel w)\<rparr>"
      using wrap tk(1) by (simp add: AddTask_def AddTask_at_def w wheel_consts Let_def)
    moreover have "?c + ?k = 512 + ?r" using wrap(2) div_mult_mod_eq [of "?c + ?k" 512] by simp
    ultimately have "waits_work (AddTask t w) t ?k"
      using wrap(3) c nowhere lens
      by (auto simp: waits_work_def in_work_def in_assistant_def mem_bucket_AddTask)
    then show ?thesis ..
  next
    case far
    let ?r = "(?c + ?k) mod 512" and ?m = "(?c + ?k) div 512"
    let ?j = "(current_assistant w + ?m) mod 64"
    have w': "AddTask t w = w\<lparr>running := True, tasks := (tasks w)(t \<mapsto> tk\<lparr>remainder_interval_ms := ?r\<rparr>),
        assistant_wheel := bucket_AddTask ?j t (assistant_wheel w)\<rparr>"
      using far tk(1) by (auto simp: AddTask_def AddTask_at_def w wheel_consts Let_def)
    have m: "1 \<le> ?m" "?m \<le> 64" using far(1) k c by (auto simp: div_le_mono div_le_dividend less_eq_div_iff_mult_less_eq)
    have "?k + ?c = 512 * ?m + ?r" using div_mult_mod_eq [of "?c + ?k" 512] by simp
    moreover have "in_assistant (AddTask t w) t = {?j}" "in_work (AddTask t w) t = {}"
      using nowhere lens unfolding w' by (auto simp: in_work_def in_assistant_def mem_bucket_AddTask)
    ultimately have "waits_assistant (AddTask t w) t ?k"
      unfolding waits_assistant_def using m w' by (intro conjI exI [of _ ?m] exI [of _ ?r]) auto
    then show ?thesis ..
  qed
  with ok' alive show ?thesis by (simp add: waits_def)
qed

lemma in_work_Tick:
  assumes "wheel_ok w" shows "in_work (snd (Tick w)) u = in_work w u - {current_work w}"
  using assms by (auto simp: wheel_ok_def in_work_def Tick_def Let_def mem_update_empty)

lemma in_assistant_Tick: "in_assistant (snd (Tick w)) u = in_assistant w u"
  by (simp add: in_assistant_def Tick_def Let_def)

lemma Tick_waits:
  assumes "waits w t (Suc r)"
  shows "waits (snd (Tick w)) t (Suc r)" "t \<notin> set (fst (Tick w))"
proof -
  have ok: "wheel_ok w" "current_work w < 512" "length (work_wheel w) = 512"
    using assms by (auto simp: waits_def wheel_ok_def)
  note work = in_work_Tick [OF ok(1)] and assist = in_assistant_Tick
  have same: "current_work (snd (Tick w)) = current_work w" "tasks (snd (Tick w)) = tasks w"
    "current_assistant (snd (Tick w)) = current_assistant w" by (simp_all add: Tick_def Let_def)
  have here: "current_work w \<notin> in_work w t"
    using assms ok(2) mod_distinct_window [of "current_work w" "current_work w + Suc r" 512]
    by (auto simp: waits_def waits_work_def waits_assistant_def)
  then show "t \<notin> set (fst (Tick w))" using ok(2) by (auto simp: Tick_def Let_def in_work_def)
  have "wheel_ok (snd (Tick w))" using ok(1) by (rule wheel_ok_Tick)
  then show "waits (snd (Tick w)) t (Suc r)"
    using assms here unfolding waits_def waits_work_def waits_assistant_def work assist same by auto
qed

lemma Tick_fires:
  assumes "waits w t 0"
  shows "t \<in> set (fst (Tick w))" "in_work (snd (Tick w)) t = {}" "in_assistant (snd (Tick w)) t = {}"
proof -
  have ok: "wheel_ok w" "current_work w < 512" "length (work_wheel w) = 512" "tasks w t \<noteq> None"
    using assms by (auto simp: waits_def wheel_ok_def)
  have "waits_work w t 0" using assms ok(2) by (auto simp: waits_def waits_assistant_def)
  then have at: "in_work w t = {current_work w}" "in_assistant w t = {}"
    using ok(2) by (auto simp: waits_work_def)
  then have "t \<in> set (work_wheel w ! current_work w)" by (auto simp: in_work_def)
  then show "t \<in> set (fst (Tick w))" using ok(4) by (simp add: Tick_def Let_def)
  show "in_work (snd (Tick w)) t = {}"
    by (simp add: in_work_Tick [OF ok(1)] at(1))
  show "in_assistant (snd (Tick w)) t = {}"
    by (simp add: in_assistant_Tick at(2))
qed

lemma Advance_plain:
  assumes "wheel_ok w" "current_work w + 1 < 512"
  shows "Advance w = w\<lparr>current_work := current_work w + 1\<rparr>"
  using assms by (simp add: Advance_def advance_work_def Let_def)

lemma Advance_wrap:
  assumes "wheel_ok w" "current_work w + 1 = 512"
  shows "Advance w = Cascade ((current_assistant w + 1) mod 64)
           (w\<lparr>current_work := 0, current_assistant := (current_assistant w + 1) mod 64\<rparr>)"
  using assms by (simp add: Advance_def advance_work_def advance_assistant_def Let_def)

lemma window_mod_64:
  assumes "(a :: nat) < 64" "1 \<le> m" "m \<le> 64"
  shows "(a + m) mod 64 = (a + 1) mod 64 \<longleftrightarrow> m = 1"
  using assms mod_distinct_window [of "a + 1" "a + m" 64] by (cases "m = 1") auto

lemma Advance_waits:
  assumes wt: "waits w t (Suc r)"
  shows "waits (Advance w) t r"
proof -
  have ok: "wheel_ok w" "current_work w < 512" "current_assistant w < 64" "tasks w t \<noteq> None"
    and len: "length (work_wheel w) = 512" "length (assistant_wheel w) = 64"
    using wt by (auto simp: waits_def wheel_ok_def)
  have ok': "wheel_ok (Advance w)" using ok(1) by (rule wheel_ok_Advance)
  have alive: "tasks (Advance w) = tasks w"
    by (simp add: Advance_def advance_work_def advance_assistant_def Cascade_eq Let_def)
  show ?thesis
  proof (cases "current_work w + 1 < 512")
    case True
    have "waits_work w t (Suc r) \<Longrightarrow> waits_work (Advance w) t r"
      by (auto simp: Advance_plain [OF ok(1) True] waits_work_def in_work_def in_assistant_def)
    moreover have "waits_assistant w t (Suc r) \<Longrightarrow> waits_assistant (Advance w) t r"
      by (auto simp: Advance_plain [OF ok(1) True] waits_assistant_def in_work_def in_assistant_def)
    ultimately show ?thesis using wt ok' ok(4) alive by (auto simp: waits_def)
  next
    case False
    then have wrap: "current_work w + 1 = 512" using ok(2) by simp
    let ?a = "(current_assistant w + 1) mod 64"
    have a: "?a < 64" by simp
    note adv = Advance_wrap [OF ok(1) wrap]
    have cur: "current_work (Advance w) = 0" "current_assistant (Advance w) = ?a"
      by (simp_all add: adv Cascade_def)
    have assist: "in_assistant (Advance w) t = in_assistant w t - {?a}"
      using len by (auto simp: adv Cascade_eq in_assistant_def mem_update_empty)
    have work: "in_work (Advance w) t = in_work w t \<union>
        (if ?a \<in> in_assistant w t
         then {i. i < 512 \<and> (\<exists>tk. tasks w t = Some tk \<and> remainder_interval_ms tk = i)} else {})"
      using len a by (auto simp: adv Cascade_eq in_work_def in_assistant_def mem_cascade)
    show ?thesis
    proof (cases "waits_work w t (Suc r)")
      case True
      have "(current_work w + Suc r) mod 512 = r mod 512" using wrap by (simp add: mod_simps)
      then have "waits_work (Advance w) t r"
        using True unfolding waits_work_def assist work cur by auto
      then show ?thesis using ok' ok(4) alive by (simp add: waits_def)
    next
      case False
      then have "waits_assistant w t (Suc r)" using wt by (simp add: waits_def)
      then obtain m tk where m: "1 \<le> m" "m \<le> 64" "in_work w t = {}"
          "in_assistant w t = {(current_assistant w + m) mod 64}" "tasks w t = Some tk"
          "remainder_interval_ms tk < 512" "Suc r + current_work w = 512 * m + remainder_interval_ms tk"
        by (auto simp: waits_assistant_def)
      note here = window_mod_64 [OF ok(3) m(1,2)]
      show ?thesis
      proof (cases "m = 1")
        case True
        then have "r = remainder_interval_ms tk" using m(7) wrap by simp
        then have "waits_work (Advance w) t r"
          using True m(3-6) unfolding waits_work_def assist work cur by auto
        then show ?thesis using ok' ok(4) alive by (simp add: waits_def)
      next
        case no: False
        then have "r = 512 * (m - 1) + remainder_interval_ms tk"
          using m(1,7) wrap by (cases m) auto
        moreover have "(?a + (m - 1)) mod 64 = (current_assistant w + m) mod 64"
          using m(1) by (cases m) (simp_all add: mod_simps)
        ultimately have "waits_assistant (Advance w) t r"
          using no m here unfolding waits_assistant_def assist work cur alive
          by (intro conjI exI [of _ "m - 1"] exI [of _ "remainder_interval_ms tk"] exI [of _ tk]) auto
        then show ?thesis using ok' ok(4) alive by (simp add: waits_def)
      qed
    qed
  qed
qed

text \<open>A task that is nowhere stays nowhere, unless it is added.\<close>

definition nowhere :: "wheel \<Rightarrow> nat \<Rightarrow> bool" where
  "nowhere w t \<longleftrightarrow> wheel_ok w \<and> in_work w t = {} \<and> in_assistant w t = {}"

lemma nowhere_Advance: "nowhere w t \<Longrightarrow> nowhere (Advance w) t"
proof -
  assume n: "nowhere w t"
  then have ok: "wheel_ok w" and len: "length (work_wheel w) = 512" "length (assistant_wheel w) = 64"
    by (auto simp: nowhere_def wheel_ok_def)
  have "wheel_ok (Advance w)" using ok by (rule wheel_ok_Advance)
  then show ?thesis
    using n len
    by (auto simp: nowhere_def Advance_def advance_work_def advance_assistant_def Let_def Cascade_eq
        in_work_def in_assistant_def mem_cascade mem_update_empty)
qed

lemma nowhere_Tick:
  assumes "nowhere w t" shows "nowhere (snd (Tick w)) t" "t \<notin> set (fst (Tick w))"
proof -
  have ok: "wheel_ok w" "current_work w < 512" and none: "in_work w t = {}" "in_assistant w t = {}"
    using assms by (auto simp: nowhere_def wheel_ok_def)
  show "nowhere (snd (Tick w)) t"
    unfolding nowhere_def in_work_Tick [OF ok(1)] in_assistant_Tick none
    using wheel_ok_Tick [OF ok(1)] by simp
  show "t \<notin> set (fst (Tick w))" using none(1) ok(2) by (auto simp: in_work_def Tick_def Let_def)
qed

section \<open>When a task fires\<close>

lemma nowhere_run:
  "nowhere w t \<Longrightarrow> Add t \<notin> set as \<Longrightarrow> \<forall>f \<in> set (wheel_run as w). t \<notin> set f"
proof (induction as arbitrary: w)
  case Nil
  then show ?case by simp
next
  case (Cons a as)
  show ?case
  proof (cases a)
    case Round
    let ?w = "(Advance w)\<lparr>tick_count := tick_count w + 1\<rparr>"
    have n: "nowhere ?w t" using nowhere_Advance [OF Cons.prems(1)] by (simp add: nowhere_def)
    show ?thesis
      using nowhere_Tick [OF n] Cons.IH [OF nowhere_Tick(1) [OF n]] Cons.prems(2)
      by (simp add: Round split_def Let_def)
  next
    case (Add u)
    then have "u \<noteq> t" using Cons.prems(2) by auto
    then have "nowhere (AddTask u w) t"
      using Cons.prems(1) by (simp add: nowhere_def mem_AddTask_other wheel_ok_AddTask)
    then show ?thesis using Add Cons.IH [of "AddTask u w"] Cons.prems(2) by simp
  next
    case (Die u)
    have "nowhere (w\<lparr>tasks := (tasks w)(u := None)\<rparr>) t"
      using Cons.prems(1) wheel_ok_Die [of w u] by (simp add: nowhere_def in_work_def in_assistant_def)
    then show ?thesis using Die Cons.IH Cons.prems(2) by simp
  qed
qed

lemma waits_AddTask_other:
  assumes "waits w t r" "u \<noteq> t" shows "waits (AddTask u w) t r"
proof -
  have ok: "wheel_ok w" using assms(1) by (simp add: waits_def)
  show ?thesis
    using assms(1) mem_AddTask_other [OF ok, of t u] assms(2) wheel_ok_AddTask [OF ok, of u]
    unfolding waits_def waits_work_def waits_assistant_def
    by (simp add: AddTask_fields)
qed

lemma waits_Die_other:
  assumes "waits w t r" "u \<noteq> t" shows "waits (w\<lparr>tasks := (tasks w)(u := None)\<rparr>) t r"
  using assms wheel_ok_Die [of w u]
  by (simp add: waits_def waits_work_def waits_assistant_def in_work_def in_assistant_def)

lemma waits_run:
  "waits w t (Suc r) \<Longrightarrow> Add t \<notin> set as \<Longrightarrow> Die t \<notin> set as \<Longrightarrow> n < length (wheel_run as w) \<Longrightarrow>
     t \<in> set (wheel_run as w ! n) \<longleftrightarrow> n = r"
proof (induction as arbitrary: w r n)
  case Nil
  then show ?case by simp
next
  case (Cons a as)
  show ?case
  proof (cases a)
    case Round
    let ?w = "(Advance w)\<lparr>tick_count := tick_count w + 1\<rparr>"
    have run: "wheel_run (a # as) w = fst (Tick ?w) # wheel_run as (snd (Tick ?w))"
      by (simp add: Round split_def Let_def)
    have ww: "waits ?w t r" using Advance_waits [OF Cons.prems(1)] by simp
    show ?thesis
    proof (cases r)
      case 0
      have wok: "wheel_ok (snd (Tick ?w))" using ww wheel_ok_Tick by (auto simp: waits_def)
      have "nowhere (snd (Tick ?w)) t"
        using Tick_fires [of ?w t] ww 0 wok by (simp add: nowhere_def)
      then have "\<forall>f \<in> set (wheel_run as (snd (Tick ?w))). t \<notin> set f"
        by (rule nowhere_run) (use Cons.prems(2) in simp)
      then show ?thesis
        using Tick_fires(1) [of ?w t] ww 0 Cons.prems(4) unfolding run by (cases n) auto
    next
      case (Suc r')
      have "waits (snd (Tick ?w)) t (Suc r')" "t \<notin> set (fst (Tick ?w))"
        using Tick_waits [of ?w t r'] ww Suc by auto
      then show ?thesis
        using Cons.IH [of "snd (Tick ?w)" r' "n - 1"] Cons.prems Suc unfolding run by (cases n) auto
    qed
  next
    case (Add u)
    then have "waits (AddTask u w) t (Suc r)" using Cons.prems by (intro waits_AddTask_other) auto
    then show ?thesis using Add Cons.IH [of "AddTask u w" r n] Cons.prems by simp
  next
    case (Die u)
    then have "waits (w\<lparr>tasks := (tasks w)(u := None)\<rparr>) t (Suc r)"
      using Cons.prems by (intro waits_Die_other) auto
    then show ?thesis using Die Cons.IH [of "w\<lparr>tasks := (tasks w)(u := None)\<rparr>" r n] Cons.prems by simp
  qed
qed



section \<open>A task added while the wheel wraps around\<close>

text \<open>
  The tick thread moves the work index to 0 under one lock and the assistant index under another.
  The wheel below is between the two, with a task of 1200 ms being added by another thread.
\<close>

definition wrapping_wheel :: wheel where
  "wrapping_wheel = advance_work ((new_wheel (\<lambda>_. Some \<lparr>remainder_interval_ms = 0, next_fire_duration_ms = 1200\<rparr>))
                                    \<lparr>current_work := 511\<rparr>)"

definition finish_wrap :: "wheel \<Rightarrow> wheel" where
  "finish_wrap w = (let w2 = advance_assistant w in Cascade (current_assistant w2) w2)"

lemma wrapping_wheel_add:
  "AddTask 7 wrapping_wheel = wrapping_wheel\<lparr>running := True,
     tasks := (tasks wrapping_wheel)(7 \<mapsto> \<lparr>remainder_interval_ms = 88, next_fire_duration_ms = 1200\<rparr>),
     assistant_wheel := bucket_AddTask 1 7 (assistant_wheel wrapping_wheel)\<rparr>"
  by (simp add: AddTask_def AddTask_at_def Wheel_Start_def wrapping_wheel_def advance_work_def
      new_wheel_def wheel_consts fire_ticks_def Let_def)

lemma wrapping_wheel_waits: "waits (finish_wrap (AddTask 7 wrapping_wheel)) 7 88"
proof -
  let ?w = "AddTask 7 wrapping_wheel" and ?w' = "finish_wrap (AddTask 7 wrapping_wheel)"
  have lens: "length (work_wheel wrapping_wheel) = 512" "length (assistant_wheel wrapping_wheel) = 64"
    and cur: "current_work wrapping_wheel = 0" "current_assistant wrapping_wheel = 0"
    and empty: "\<And>i. i < 512 \<Longrightarrow> work_wheel wrapping_wheel ! i = []"
      "\<And>i. i < 64 \<Longrightarrow> assistant_wheel wrapping_wheel ! i = []"
    by (simp_all add: wrapping_wheel_def advance_work_def new_wheel_def wheel_consts)
  have "waits_work ?w' 7 88"
    using lens cur empty
    by (auto simp: waits_work_def finish_wrap_def advance_assistant_def Cascade_eq in_work_def in_assistant_def
        wrapping_wheel_add mem_cascade mem_update_empty mem_bucket_AddTask Let_def)
  moreover have "wheel_ok wrapping_wheel"
    by (simp add: wheel_ok_def wrapping_wheel_def advance_work_def new_wheel_def wheel_consts)
  then have "wheel_ok ?w" by (rule wheel_ok_AddTask)
  then have "wheel_ok ?w'"
    by (auto simp: finish_wrap_def advance_assistant_def Cascade_eq Let_def wheel_ok_def
        dest: in_set_update_empty) (metis in_set_update_empty)
  moreover have "tasks ?w' 7 \<noteq> None"
    by (simp add: finish_wrap_def advance_assistant_def Cascade_eq Let_def wrapping_wheel_add)
  ultimately show ?thesis by (simp add: waits_def)
qed

text \<open>
  A task of 1200 ms added between the two index updates fires after 88 more rounds,
  176 ms, instead of 600 rounds: it is put in the assistant bucket that is about to be emptied.
\<close>

theorem add_during_wrap_fires_early:
  "7 \<in> set (wheel_run (replicate 88 Round) (snd (Tick (finish_wrap (AddTask 7 wrapping_wheel)))) ! 87) \<and>
   fire_ticks 1200 = 600"
proof -
  have len: "length (wheel_run (replicate n Round) w) = n" for n w
    by (induction n arbitrary: w) (simp_all add: split_def Let_def)
  have "waits (snd (Tick (finish_wrap (AddTask 7 wrapping_wheel)))) 7 (Suc 87)"
    using Tick_waits(1) [of _ 7 87] wrapping_wheel_waits by simp
  from waits_run [OF this, of "replicate 88 Round" 87] len [of 88] show ?thesis
    by (simp add: fire_ticks_alt)
qed

section \<open>Timers\<close>

text \<open>
  A periodic timer measures its callback and puts its task back on the wheel. The fields are at
  their width: \<open>uint64_t\<close> milliseconds and nanoseconds, an \<open>int64_t\<close> accumulated error, read with
  \<open>sint\<close>. \<open>std::llround(x / 1e6)\<close> rounds halves away from zero; the conversions to \<open>double\<close> are
  taken as exact.
\<close>

record timer_option =
  opt_period :: u32
  opt_oneshot :: bool

record timer_fields =
  interval_ms :: u64
  next_fire_ms :: u64
  accumulated_error_ns :: u64
  last_execute_time_ns :: u64

record timer =
  timer_opt :: timer_option
  started :: bool
  task_fields :: "timer_fields option"

definition llround_ms :: "int \<Rightarrow> int" where
  "llround_ms ns = (if ns \<ge> 0 then (ns + 500000) div 1000000 else - ((- ns + 500000) div 1000000))"

definition InitTimerTask :: "timer \<Rightarrow> bool \<times> timer" where
  "InitTimerTask t =
     (if opt_period (timer_opt t) = 0 then (False, t)
      else if unat (opt_period (timer_opt t)) \<ge> TIMER_MAX_INTERVAL_MS then (False, t)
      else let i = ucast (opt_period (timer_opt t))
           in (True, t\<lparr>task_fields := Some \<lparr>interval_ms = i, next_fire_ms = i,
                          accumulated_error_ns = 0, last_execute_time_ns = 0\<rparr>\<rparr>))"

text \<open>The flag says whether the task is added to the wheel.\<close>

definition Timer_Start :: "bool \<Rightarrow> timer \<Rightarrow> bool \<times> timer" where
  "Timer_Start reality_mode t =
     (if \<not> reality_mode then (False, t)
      else if \<not> started t then InitTimerTask (t\<lparr>started := True\<rparr>)
      else (False, t\<lparr>started := True\<rparr>))"

definition Timer_Stop :: "timer \<Rightarrow> timer" where
  "Timer_Stop t =
     (if started t \<and> task_fields t \<noteq> None then t\<lparr>started := False, task_fields := None\<rparr>
      else t\<lparr>started := False\<rparr>)"

text \<open>The periodic callback, around the user's callback that ran from \<open>start\<close> to \<open>finish\<close>.\<close>

definition timer_rearm :: "u64 \<Rightarrow> u64 \<Rightarrow> timer_fields \<Rightarrow> timer_fields" where
  "timer_rearm start finish t =
     (let execute_time_ns = finish - start;
          execute_time_ms = word_of_int (llround_ms (uint execute_time_ns)) :: u64;
          t1 = (if last_execute_time_ns t = 0 then t
                else t\<lparr>accumulated_error_ns := accumulated_error_ns t
                         + (start - last_execute_time_ns t - interval_ms t * 1000000)\<rparr>);
          t2 = t1\<lparr>last_execute_time_ns := start\<rparr>
      in if execute_time_ms \<ge> interval_ms t2 then t2\<lparr>next_fire_ms := of_nat TIMER_RESOLUTION_MS\<rparr>
         else let accumulated_error_ms = llround_ms (sint (accumulated_error_ns t2))
              in if sint (interval_ms t2 - execute_time_ms - of_nat TIMER_RESOLUTION_MS) \<ge> accumulated_error_ms
                 then t2\<lparr>next_fire_ms := interval_ms t2 - execute_time_ms - word_of_int accumulated_error_ms\<rparr>
                 else t2\<lparr>next_fire_ms := of_nat TIMER_RESOLUTION_MS\<rparr>)"

lemma InitTimerTask_accepts:
  "fst (InitTimerTask t) \<longleftrightarrow> 1 \<le> unat (opt_period (timer_opt t)) \<and> unat (opt_period (timer_opt t)) \<le> 65535"
proof -
  let ?p = "opt_period (timer_opt t)"
  have "?p = 0 \<longleftrightarrow> unat ?p = 0" by (simp add: unat_eq_zero)
  moreover have "TIMER_MAX_INTERVAL_MS = 65536" by (simp add: TIMER_MAX_INTERVAL_MS_def wheel_consts)
  ultimately show ?thesis by (auto simp: InitTimerTask_def Let_def)
qed

lemma llround_ms_bound: "- (2 ^ 63) \<le> ns \<Longrightarrow> ns < 2 ^ 63 \<Longrightarrow> - (2 ^ 44) < llround_ms ns \<and> llround_ms ns < 2 ^ 44"
  by (auto simp: llround_ms_def)

lemma sint_of_small: "- (2 ^ 63) \<le> k \<Longrightarrow> k < 2 ^ 63 \<Longrightarrow> sint (word_of_int k :: u64) = k"
  by (simp add: signed_of_int signed_take_bit_int_eq_self)

text \<open>
  Property C39. Whatever the callback's start and end and whatever error has accumulated, a
  periodic timer's next delay is at least 2 ms, so its task never lands in the bucket being
  emptied; and a timer that is not early (the accumulated error rounds to 0 or more) is never
  delayed by more than its interval, or 2 ms.
\<close>

theorem timer_rearm_bounds:
  assumes "interval_ms t < 65536" and "timer_rearm start finish t = t'"
  shows "2 \<le> uint (next_fire_ms t') \<and>
         (0 \<le> llround_ms (sint (accumulated_error_ns t')) \<longrightarrow>
            uint (next_fire_ms t') \<le> max 2 (uint (interval_ms t)))"
proof -
  define E where "E = (word_of_int (llround_ms (uint (finish - start))) :: u64)"
  define err where "err = llround_ms (sint (accumulated_error_ns t'))"
  have I: "0 \<le> uint (interval_ms t)" "uint (interval_ms t) < 65536"
    using assms(1) by (simp_all add: word_less_def)
  have err: "- (2 ^ 44) < err" "err < 2 ^ 44"
    unfolding err_def using llround_ms_bound [of "sint (accumulated_error_ns t')"]
      sint_ge [of "accumulated_error_ns t'"] sint_lt [of "accumulated_error_ns t'"] by simp_all
  have same: "interval_ms t' = interval_ms t"
    using assms(2) by (auto simp: timer_rearm_def Let_def split: if_splits)
  have acc: "accumulated_error_ns t' = (if last_execute_time_ns t = 0 then accumulated_error_ns t
      else accumulated_error_ns t + (start - last_execute_time_ns t - interval_ms t * 1000000))"
    using assms(2) by (auto simp: timer_rearm_def Let_def split: if_splits)
  have next_fire: "next_fire_ms t' =
      (if E \<ge> interval_ms t then 2
       else if sint (interval_ms t - E - 2) \<ge> err then interval_ms t - E - word_of_int err else 2)"
    using assms(2) unfolding err_def acc
    by (auto simp: timer_rearm_def Let_def E_def wheel_consts split: if_splits)
  show ?thesis
  proof (cases "E < interval_ms t \<and> sint (interval_ms t - E - 2) \<ge> err")
    case False
    then show ?thesis unfolding next_fire by auto
  next
    case True
    then have E: "0 \<le> uint E" "uint E < uint (interval_ms t)" by (simp_all add: word_less_def)
    have "interval_ms t - E - 2 = word_of_int (uint (interval_ms t) - uint E - 2)" by simp
    then have s: "sint (interval_ms t - E - 2) = uint (interval_ms t) - uint E - 2"
      using sint_of_small [of "uint (interval_ms t) - uint E - 2"] E I by simp
    have "interval_ms t - E - word_of_int err = word_of_int (uint (interval_ms t) - uint E - err)" by simp
    then have "uint (interval_ms t - E - word_of_int err)
        = uint (word_of_int (uint (interval_ms t) - uint E - err) :: u64)" by (rule arg_cong)
    also have "\<dots> = (uint (interval_ms t) - uint E - err) mod 2 ^ 64"
      by (simp only: uint_word_of_int len_bit0 len_num1 mult_numeral_1_right) simp
    also have "\<dots> = uint (interval_ms t) - uint E - err"
    proof (rule mod_pos_pos_trivial)
      show "0 \<le> uint (interval_ms t) - uint E - err" using True s by linarith
      have "uint (interval_ms t) - uint E - err < 65536 + 2 ^ 44" using E I err by linarith
      then show "uint (interval_ms t) - uint E - err < 2 ^ 64" by simp
    qed
    finally have v: "uint (next_fire_ms t') = uint (interval_ms t) - uint E - err"
      using True by (auto simp: next_fire)
    have "0 \<le> err \<longrightarrow> uint (interval_ms t) - uint E - err \<le> uint (interval_ms t)"
      using E(1) by linarith
    then show ?thesis using True s unfolding v err_def [symmetric] by auto
  qed
qed

theorem timer_rearm_bounds_witness:
  "2 \<le> uint (next_fire_ms (timer_rearm 5000000000 5003000000
      \<lparr>interval_ms = 10, next_fire_ms = 10, accumulated_error_ns = 0, last_execute_time_ns = 4990000000\<rparr>))"
proof -
  have "interval_ms \<lparr>interval_ms = 10, next_fire_ms = 10, accumulated_error_ns = 0,
      last_execute_time_ns = 4990000000\<rparr> < (65536 :: u64)" by simp
  from timer_rearm_bounds [OF this refl, of 5000000000 5003000000] show ?thesis by blast
qed

end
