(* ===== verification/Roles.thy ===== *)
theory Roles
  imports Prelude
begin

text \<open>
  The roles of service discovery (\<open>cyber/service_discovery/role/role.cc\<close>): the attributes of a
  node, a writer or reader of a channel, or a server or client of a service. The attributes are
  the fields of the proto2 message \<open>RoleAttributes\<close> the code uses; an optional field is an option,
  and reading an absent one gives its default. Host addresses, QoS profiles and sockets are only
  carried around and left out.
\<close>

record role_attributes =
  host_name_of :: "string option"
  process_id_of :: "int option"
  node_name_of :: "string option"
  node_id_of :: "u64 option"
  channel_name_of :: "string option"
  channel_id_of :: "u64 option"
  message_type_of :: "string option"
  proto_desc_of :: "string option"
  id_of :: "u64 option"
  service_name_of :: "string option"
  service_id_of :: "u64 option"

definition no_attributes :: role_attributes where
  "no_attributes = \<lparr>host_name_of = None, process_id_of = None, node_name_of = None, node_id_of = None,
     channel_name_of = None, channel_id_of = None, message_type_of = None, proto_desc_of = None, id_of = None,
     service_name_of = None, service_id_of = None\<rparr>"

fun field :: "'a \<Rightarrow> 'a option \<Rightarrow> 'a" where
  "field d None = d"
| "field d (Some x) = x"

definition host_name :: "role_attributes \<Rightarrow> string" where
  "host_name a = field [] (host_name_of a)"

definition process_id :: "role_attributes \<Rightarrow> int" where
  "process_id a = field 0 (process_id_of a)"

definition node_name :: "role_attributes \<Rightarrow> string" where
  "node_name a = field [] (node_name_of a)"

definition node_id :: "role_attributes \<Rightarrow> u64" where
  "node_id a = field 0 (node_id_of a)"

definition channel_name :: "role_attributes \<Rightarrow> string" where
  "channel_name a = field [] (channel_name_of a)"

definition channel_id :: "role_attributes \<Rightarrow> u64" where
  "channel_id a = field 0 (channel_id_of a)"

definition message_type :: "role_attributes \<Rightarrow> string" where
  "message_type a = field [] (message_type_of a)"

definition proto_desc :: "role_attributes \<Rightarrow> string" where
  "proto_desc a = field [] (proto_desc_of a)"

definition role_id :: "role_attributes \<Rightarrow> u64" where
  "role_id a = field 0 (id_of a)"

definition service_id :: "role_attributes \<Rightarrow> u64" where
  "service_id a = field 0 (service_id_of a)"

lemmas attribute_readers = host_name_def process_id_def node_name_def node_id_def channel_name_def
  channel_id_def message_type_def proto_desc_def role_id_def service_id_def

text \<open>The classes \<open>RoleBase\<close>, \<open>RoleWriter\<close> (also a reader) and \<open>RoleServer\<close> (also a client).\<close>

datatype role_class = RoleBase | RoleWriter | RoleServer

record role =
  class_of :: role_class
  attributes :: role_attributes
  timestamp_ns :: u64

text \<open>\<open>if (target.has_f() && target.f() != attributes_.f()) return false;\<close>\<close>

definition field_matches :: "'a option \<Rightarrow> 'a \<Rightarrow> bool" where
  "field_matches target own = (case target of None \<Rightarrow> True | Some x \<Rightarrow> x = own)"

definition RoleBase_Match :: "role_attributes \<Rightarrow> role_attributes \<Rightarrow> bool" where
  "RoleBase_Match own target \<longleftrightarrow>
     field_matches (node_id_of target) (node_id own) \<and>
     field_matches (process_id_of target) (process_id own) \<and>
     field_matches (host_name_of target) (host_name own)"

definition RoleWriter_Match :: "role_attributes \<Rightarrow> role_attributes \<Rightarrow> bool" where
  "RoleWriter_Match own target \<longleftrightarrow>
     field_matches (channel_id_of target) (channel_id own) \<and>
     field_matches (id_of target) (role_id own) \<and>
     RoleBase_Match own target"

definition RoleServer_Match :: "role_attributes \<Rightarrow> role_attributes \<Rightarrow> bool" where
  "RoleServer_Match own target \<longleftrightarrow>
     field_matches (service_id_of target) (service_id own) \<and>
     RoleBase_Match own target"

definition Match :: "role \<Rightarrow> role_attributes \<Rightarrow> bool" where
  "Match r target =
     (case class_of r of
        RoleBase \<Rightarrow> RoleBase_Match (attributes r) target
      | RoleWriter \<Rightarrow> RoleWriter_Match (attributes r) target
      | RoleServer \<Rightarrow> RoleServer_Match (attributes r) target)"

definition IsEarlierThan :: "role \<Rightarrow> role \<Rightarrow> bool" where
  "IsEarlierThan r other \<longleftrightarrow> timestamp_ns r < timestamp_ns other"

lemmas match_defs [op_defs] = Match_def RoleBase_Match_def RoleWriter_Match_def RoleServer_Match_def

lemma field_matches_simps [simp]:
  "field_matches None x" "field_matches (Some y) x \<longleftrightarrow> y = x" "field_matches t (field d t)"
  by (simp_all add: field_matches_def split: option.split)

text \<open>A role matches its own attributes, whichever of them are set.\<close>

lemma Match_self: "Match r (attributes r)"
  by (simp add: match_defs attribute_readers split: role_class.split)

text \<open>The target a module leaving the topology is searched with: its host and process.\<close>

definition process_target :: "string \<Rightarrow> int \<Rightarrow> role_attributes" where
  "process_target host pid = no_attributes\<lparr>host_name_of := Some host, process_id_of := Some pid\<rparr>"

lemma Match_process_target:
  "Match r (process_target host pid) \<longleftrightarrow> host_name (attributes r) = host \<and> process_id (attributes r) = pid"
  by (auto simp: match_defs process_target_def no_attributes_def split: role_class.split)

text \<open>
  Two roles that match the attributes of a role with a host and a process set are of that process.
\<close>

lemma Match_same_process:
  assumes "Match r (attributes q)" "host_name_of (attributes q) \<noteq> None" "process_id_of (attributes q) \<noteq> None"
  shows "host_name (attributes r) = host_name (attributes q)"
    and "process_id (attributes r) = process_id (attributes q)"
  using assms by (auto simp: match_defs attribute_readers split: role_class.splits)

end
