(* ===== verification/Warehouse.thy ===== *)
theory Warehouse
  imports Roles "HOL-Library.AList"
begin

text \<open>
  The role stores of service discovery: one role per key
  (\<open>cyber/service_discovery/container/single_value_warehouse.cc\<close>) or many
  (\<open>multi_value_warehouse.cc\<close>). The hash map under each is the list of its entries in iteration
  order, which the library leaves open: what is proved does not depend on it. Every operation
  holds the warehouse's lock and is one step. An output pointer is None when it is \<open>nullptr\<close>.
\<close>

type_synonym role_map = "(u64 \<times> role) list"

definition write_out :: "'a option \<Rightarrow> ('a \<Rightarrow> bool \<times> 'a) \<Rightarrow> bool \<times> 'a option" where
  "write_out out f = (case out of None \<Rightarrow> (False, None) | Some x \<Rightarrow> (case f x of (b, y) \<Rightarrow> (b, Some y)))"

section \<open>One role per key\<close>

definition sv_Add :: "u64 \<Rightarrow> role \<Rightarrow> bool \<Rightarrow> role_map \<Rightarrow> bool \<times> role_map" where
  "sv_Add key r ignore_if_exist w =
     (if \<not> ignore_if_exist \<and> map_of w key \<noteq> None then (False, w) else (True, AList.update key r w))"

definition sv_Clear :: "role_map \<Rightarrow> role_map" where
  "sv_Clear w = []"

definition sv_Size :: "role_map \<Rightarrow> nat" where
  "sv_Size w = length w"

definition sv_Remove_key :: "u64 \<Rightarrow> role_map \<Rightarrow> role_map" where
  "sv_Remove_key key w = AList.delete key w"

definition sv_Remove_role :: "u64 \<Rightarrow> role \<Rightarrow> role_map \<Rightarrow> role_map" where
  "sv_Remove_role key r w =
     (case map_of w key of
        None \<Rightarrow> w
      | Some q \<Rightarrow> if \<not> Match q (attributes r) then w else AList.delete key w)"

text \<open>The loop \<open>for (it = begin; it != end;) if (match) it = erase(it); else ++it;\<close>\<close>

fun erase_matching :: "role_attributes \<Rightarrow> role_map \<Rightarrow> role_map" where
  "erase_matching target [] = []"
| "erase_matching target ((k, r) # w) =
     (if Match r target then erase_matching target w else (k, r) # erase_matching target w)"

definition sv_Remove_attr :: "role_attributes \<Rightarrow> role_map \<Rightarrow> role_map" where
  "sv_Remove_attr target w = erase_matching target w"

definition sv_Search_key_role :: "u64 \<Rightarrow> role option \<Rightarrow> role_map \<Rightarrow> bool \<times> role option" where
  "sv_Search_key_role key out w =
     write_out out (\<lambda>r. case map_of w key of None \<Rightarrow> (False, r) | Some q \<Rightarrow> (True, q))"

text \<open>A \<open>RolePtr\<close> declared locally and searched with: false, or the role.\<close>

definition sv_find_key :: "u64 \<Rightarrow> role_map \<Rightarrow> role option" where
  "sv_find_key key w = map_of w key"

definition sv_Search_key :: "u64 \<Rightarrow> role_map \<Rightarrow> bool" where
  "sv_Search_key key w \<longleftrightarrow> sv_find_key key w \<noteq> None"

definition sv_Search_key_attr :: "u64 \<Rightarrow> role_attributes option \<Rightarrow> role_map \<Rightarrow> bool \<times> role_attributes option" where
  "sv_Search_key_attr key out w =
     write_out out (\<lambda>a. case sv_find_key key w of None \<Rightarrow> (False, a) | Some q \<Rightarrow> (True, attributes q))"

definition sv_Search_key_roles :: "u64 \<Rightarrow> role list option \<Rightarrow> role_map \<Rightarrow> bool \<times> role list option" where
  "sv_Search_key_roles key out w =
     write_out out (\<lambda>rs. case sv_find_key key w of None \<Rightarrow> (False, rs) | Some q \<Rightarrow> (True, rs @ [q]))"

definition sv_Search_key_attrs ::
  "u64 \<Rightarrow> role_attributes list option \<Rightarrow> role_map \<Rightarrow> bool \<times> role_attributes list option" where
  "sv_Search_key_attrs key out w =
     write_out out (\<lambda>as. case sv_find_key key w of None \<Rightarrow> (False, as) | Some q \<Rightarrow> (True, as @ [attributes q]))"

text \<open>The loop that returns at the first matching role, and the one that collects them all.\<close>

fun first_match :: "role_attributes \<Rightarrow> role_map \<Rightarrow> role option" where
  "first_match target [] = None"
| "first_match target ((k, r) # w) = (if Match r target then Some r else first_match target w)"

fun collect_matching :: "role_attributes \<Rightarrow> role_map \<Rightarrow> role list \<Rightarrow> bool \<Rightarrow> bool \<times> role list" where
  "collect_matching target [] acc found = (found, acc)"
| "collect_matching target ((k, r) # w) acc found =
     (if Match r target then collect_matching target w (acc @ [r]) True
      else collect_matching target w acc found)"

fun collect_attributes ::
  "role_attributes \<Rightarrow> role_map \<Rightarrow> role_attributes list \<Rightarrow> bool \<Rightarrow> bool \<times> role_attributes list"
where
  "collect_attributes target [] acc found = (found, acc)"
| "collect_attributes target ((k, r) # w) acc found =
     (if Match r target then collect_attributes target w (acc @ [attributes r]) True
      else collect_attributes target w acc found)"

definition sv_Search_attr :: "role_attributes \<Rightarrow> role_map \<Rightarrow> bool" where
  "sv_Search_attr target w \<longleftrightarrow> first_match target w \<noteq> None"

definition sv_Search_attr_role :: "role_attributes \<Rightarrow> role option \<Rightarrow> role_map \<Rightarrow> bool \<times> role option" where
  "sv_Search_attr_role target out w =
     write_out out (\<lambda>r. case first_match target w of None \<Rightarrow> (False, r) | Some q \<Rightarrow> (True, q))"

definition sv_Search_attr_attr ::
  "role_attributes \<Rightarrow> role_attributes option \<Rightarrow> role_map \<Rightarrow> bool \<times> role_attributes option" where
  "sv_Search_attr_attr target out w =
     write_out out (\<lambda>a. case first_match target w of None \<Rightarrow> (False, a) | Some q \<Rightarrow> (True, attributes q))"

definition sv_Search_attr_roles :: "role_attributes \<Rightarrow> role list option \<Rightarrow> role_map \<Rightarrow> bool \<times> role list option" where
  "sv_Search_attr_roles target out w = write_out out (\<lambda>rs. collect_matching target w rs False)"

definition sv_Search_attr_attrs ::
  "role_attributes \<Rightarrow> role_attributes list option \<Rightarrow> role_map \<Rightarrow> bool \<times> role_attributes list option" where
  "sv_Search_attr_attrs target out w = write_out out (\<lambda>as. collect_attributes target w as False)"

definition sv_GetAllRoles :: "role list option \<Rightarrow> role_map \<Rightarrow> role list option" where
  "sv_GetAllRoles out w = map_option (\<lambda>rs. rs @ map snd w) out"

definition sv_GetAllRoles_attrs :: "role_attributes list option \<Rightarrow> role_map \<Rightarrow> role_attributes list option" where
  "sv_GetAllRoles_attrs out w = map_option (\<lambda>as. as @ map (\<lambda>e. attributes (snd e)) w) out"

section \<open>Many roles per key\<close>

text \<open>
  Entries of one key are adjacent in an \<open>unordered_multimap\<close>, in an order the library leaves
  open; a new entry is put last here. \<open>equal_range\<close> is the sublist of the key's entries.
\<close>

definition mv_Add :: "u64 \<Rightarrow> role \<Rightarrow> bool \<Rightarrow> role_map \<Rightarrow> bool \<times> role_map" where
  "mv_Add key r ignore_if_exist w =
     (if \<not> ignore_if_exist \<and> (\<exists>e \<in> set w. fst e = key) then (False, w) else (True, w @ [(key, r)]))"

definition mv_Clear :: "role_map \<Rightarrow> role_map" where
  "mv_Clear w = []"

definition mv_Size :: "role_map \<Rightarrow> nat" where
  "mv_Size w = length w"

definition mv_Remove_key :: "u64 \<Rightarrow> role_map \<Rightarrow> role_map" where
  "mv_Remove_key key w = filter (\<lambda>e. fst e \<noteq> key) w"

fun erase_in_range :: "u64 \<Rightarrow> role_attributes \<Rightarrow> role_map \<Rightarrow> role_map" where
  "erase_in_range key target [] = []"
| "erase_in_range key target ((k, r) # w) =
     (if k = key \<and> Match r target then erase_in_range key target w
      else (k, r) # erase_in_range key target w)"

definition mv_Remove_role :: "u64 \<Rightarrow> role \<Rightarrow> role_map \<Rightarrow> role_map" where
  "mv_Remove_role key r w = erase_in_range key (attributes r) w"

definition mv_Remove_attr :: "role_attributes \<Rightarrow> role_map \<Rightarrow> role_map" where
  "mv_Remove_attr target w = erase_matching target w"

definition mv_find_key :: "u64 \<Rightarrow> role_map \<Rightarrow> role option" where
  "mv_find_key key w = map_of w key"

definition mv_Search_key :: "u64 \<Rightarrow> role_map \<Rightarrow> bool" where
  "mv_Search_key key w \<longleftrightarrow> mv_find_key key w \<noteq> None"

definition mv_Search_key_role :: "u64 \<Rightarrow> role option \<Rightarrow> role_map \<Rightarrow> bool \<times> role option" where
  "mv_Search_key_role key out w =
     write_out out (\<lambda>r. case mv_find_key key w of None \<Rightarrow> (False, r) | Some q \<Rightarrow> (True, q))"

definition mv_Search_key_attr :: "u64 \<Rightarrow> role_attributes option \<Rightarrow> role_map \<Rightarrow> bool \<times> role_attributes option" where
  "mv_Search_key_attr key out w =
     write_out out (\<lambda>a. case mv_find_key key w of None \<Rightarrow> (False, a) | Some q \<Rightarrow> (True, attributes q))"

definition equal_range :: "u64 \<Rightarrow> role_map \<Rightarrow> role list" where
  "equal_range key w = map snd (filter (\<lambda>e. fst e = key) w)"

definition mv_Search_key_roles :: "u64 \<Rightarrow> role list option \<Rightarrow> role_map \<Rightarrow> bool \<times> role list option" where
  "mv_Search_key_roles key out w =
     write_out out (\<lambda>rs. (equal_range key w \<noteq> [], rs @ equal_range key w))"

definition mv_Search_key_attrs ::
  "u64 \<Rightarrow> role_attributes list option \<Rightarrow> role_map \<Rightarrow> bool \<times> role_attributes list option" where
  "mv_Search_key_attrs key out w =
     write_out out (\<lambda>as. (equal_range key w \<noteq> [], as @ map attributes (equal_range key w)))"

definition mv_Search_attr :: "role_attributes \<Rightarrow> role_map \<Rightarrow> bool" where
  "mv_Search_attr target w \<longleftrightarrow> first_match target w \<noteq> None"

definition mv_Search_attr_role :: "role_attributes \<Rightarrow> role option \<Rightarrow> role_map \<Rightarrow> bool \<times> role option" where
  "mv_Search_attr_role target out w =
     write_out out (\<lambda>r. case first_match target w of None \<Rightarrow> (False, r) | Some q \<Rightarrow> (True, q))"

definition mv_Search_attr_attr ::
  "role_attributes \<Rightarrow> role_attributes option \<Rightarrow> role_map \<Rightarrow> bool \<times> role_attributes option" where
  "mv_Search_attr_attr target out w =
     write_out out (\<lambda>a. case first_match target w of None \<Rightarrow> (False, a) | Some q \<Rightarrow> (True, attributes q))"

definition mv_Search_attr_roles :: "role_attributes \<Rightarrow> role list option \<Rightarrow> role_map \<Rightarrow> bool \<times> role list option" where
  "mv_Search_attr_roles target out w = write_out out (\<lambda>rs. collect_matching target w rs False)"

definition mv_Search_attr_attrs ::
  "role_attributes \<Rightarrow> role_attributes list option \<Rightarrow> role_map \<Rightarrow> bool \<times> role_attributes list option" where
  "mv_Search_attr_attrs target out w = write_out out (\<lambda>as. collect_attributes target w as False)"

definition mv_GetAllRoles :: "role list option \<Rightarrow> role_map \<Rightarrow> role list option" where
  "mv_GetAllRoles out w = map_option (\<lambda>rs. rs @ map snd w) out"

definition mv_GetAllRoles_attrs :: "role_attributes list option \<Rightarrow> role_map \<Rightarrow> role_attributes list option" where
  "mv_GetAllRoles_attrs out w = map_option (\<lambda>as. as @ map (\<lambda>e. attributes (snd e)) w) out"

section \<open>The contract of a warehouse\<close>

text \<open>
  What the topology managers rely on, whichever warehouse they use. \<open>ok\<close> is the warehouse's own
  invariant; the entries are a set here.
\<close>

locale warehouse =
  fixes ok :: "role_map \<Rightarrow> bool"
    and add :: "u64 \<Rightarrow> role \<Rightarrow> bool \<Rightarrow> role_map \<Rightarrow> bool \<times> role_map"
    and remove_key :: "u64 \<Rightarrow> role_map \<Rightarrow> role_map"
    and remove_role :: "u64 \<Rightarrow> role \<Rightarrow> role_map \<Rightarrow> role_map"
    and search_roles :: "role_attributes \<Rightarrow> role list option \<Rightarrow> role_map \<Rightarrow> bool \<times> role list option"
  assumes add_ok: "ok w \<Longrightarrow> ok (snd (add k r b w))"
    and add_entries: "ok w \<Longrightarrow> fst (add k r b w) \<Longrightarrow>
          (k, r) \<in> set (snd (add k r b w)) \<and>
          (\<forall>j q. j \<noteq> k \<longrightarrow> (j, q) \<in> set (snd (add k r b w)) \<longleftrightarrow> (j, q) \<in> set w) \<and>
          set (snd (add k r b w)) \<subseteq> insert (k, r) (set w)"
    and remove_key_ok: "ok w \<Longrightarrow> ok (remove_key k w)"
    and remove_key_entries: "ok w \<Longrightarrow> set (remove_key k w) = {(j, q) \<in> set w. j \<noteq> k}"
    and remove_role_ok: "ok w \<Longrightarrow> ok (remove_role k r w)"
    and remove_role_entries:
      "ok w \<Longrightarrow> set (remove_role k r w) = {(j, q) \<in> set w. \<not> (j = k \<and> Match q (attributes r))}"
    and search_roles_entries: "ok w \<Longrightarrow>
          fst (search_roles t (Some rs) w) = (\<exists>(j, q) \<in> set w. Match q t) \<and>
          (\<exists>ms. snd (search_roles t (Some rs) w) = Some (rs @ ms) \<and> set ms = {q. \<exists>j. (j, q) \<in> set w \<and> Match q t})"
begin

definition removes :: "(u64 \<times> role) list \<Rightarrow> role_map \<Rightarrow> role_map" where
  "removes krs w = fold (\<lambda>(k, r). remove_role k r) krs w"

lemma removes_ok: "ok w \<Longrightarrow> ok (removes krs w)"
  by (induction krs arbitrary: w) (auto simp: removes_def remove_role_ok)

lemma removes_entries:
  "ok w \<Longrightarrow> set (removes krs w)
     = {(j, q) \<in> set w. \<forall>(k, r) \<in> set krs. \<not> (j = k \<and> Match q (attributes r))}"
proof (induction krs arbitrary: w)
  case Nil
  then show ?case by (auto simp: removes_def)
next
  case (Cons kr krs)
  obtain k r where kr: "kr = (k, r)" by (cases kr)
  have "removes (kr # krs) w = removes krs (remove_role k r w)" by (simp add: removes_def kr)
  then show ?case using Cons.IH [OF remove_role_ok [OF Cons.prems]] remove_role_entries [OF Cons.prems]
    by (auto simp: kr)
qed

text \<open>
  Searching by a process and removing every role found, each under the key its attributes give,
  removes the roles of that process and no other.
\<close>

lemma remove_roles_of:
  assumes ok: "ok w" and keys: "\<forall>(j, q) \<in> set w. j = key q"
    and ms: "set ms = {q. \<exists>j. (j, q) \<in> set w \<and> Match q (process_target host pid)}"
    and set: "\<forall>(j, q) \<in> set w. host_name_of (attributes q) \<noteq> None \<and> process_id_of (attributes q) \<noteq> None"
  shows "set (removes (map (\<lambda>r. (key r, r)) ms) w)
    = {(j, q) \<in> set w. \<not> (host_name (attributes q) = host \<and> process_id (attributes q) = pid)}"
proof -
  have kept: "(\<forall>(k, r) \<in> set (map (\<lambda>r. (key r, r)) ms). \<not> (j = k \<and> Match q (attributes r)))
      \<longleftrightarrow> \<not> (host_name (attributes q) = host \<and> process_id (attributes q) = pid)"
    if jq: "(j, q) \<in> set w" for j q
  proof
    assume all: "\<forall>(k, r) \<in> set (map (\<lambda>r. (key r, r)) ms). \<not> (j = k \<and> Match q (attributes r))"
    show "\<not> (host_name (attributes q) = host \<and> process_id (attributes q) = pid)"
    proof
      assume "host_name (attributes q) = host \<and> process_id (attributes q) = pid"
      then have "q \<in> set ms" using jq unfolding ms Match_process_target by blast
      then have "\<not> (j = key q \<and> Match q (attributes q))" using all by auto
      then show False using keys jq Match_self by auto
    qed
  next
    assume other: "\<not> (host_name (attributes q) = host \<and> process_id (attributes q) = pid)"
    have "\<not> Match q (attributes r)" if "r \<in> set ms" for r
    proof
      assume m: "Match q (attributes r)"
      from that obtain i where i: "(i, r) \<in> set w"
        and r: "host_name (attributes r) = host" "process_id (attributes r) = pid"
        unfolding ms Match_process_target by blast
      have "host_name_of (attributes r) \<noteq> None" "process_id_of (attributes r) \<noteq> None"
        using set i by auto
      from Match_same_process [OF m this] r other show False by simp
    qed
    then show "\<forall>(k, r) \<in> set (map (\<lambda>r. (key r, r)) ms). \<not> (j = k \<and> Match q (attributes r))" by auto
  qed
  show ?thesis unfolding removes_entries [OF ok] using kept by blast
qed

lemma remove_process:
  assumes ok: "ok w" and found: "snd (search_roles (process_target host pid) (Some []) w) = Some ms"
    and keys: "\<forall>(j, q) \<in> set w. j = key q"
    and set: "\<forall>(j, q) \<in> set w. host_name_of (attributes q) \<noteq> None \<and> process_id_of (attributes q) \<noteq> None"
  shows "set (removes (map (\<lambda>r. (key r, r)) ms) w)
    = {(j, q) \<in> set w. \<not> (host_name (attributes q) = host \<and> process_id (attributes q) = pid)}"
proof -
  have "set ms = {q. \<exists>j. (j, q) \<in> set w \<and> Match q (process_target host pid)}"
    using search_roles_entries [OF ok, of "process_target host pid" "[]"] found by auto
  from remove_roles_of [OF ok keys this set] show ?thesis .
qed

text \<open>The same with the keys of the roles found, when every key has one role.\<close>

lemma remove_keys_entries:
  "ok w \<Longrightarrow> ok (fold (\<lambda>r. remove_key (key r)) ms w) \<and>
     set (fold (\<lambda>r. remove_key (key r)) ms w) = {(j, q) \<in> set w. j \<notin> key ` set ms}"
proof (induction ms arbitrary: w)
  case Nil
  then show ?case by auto
next
  case (Cons r ms)
  show ?case using Cons.IH [OF remove_key_ok [OF Cons.prems], of "key r"]
      remove_key_entries [OF Cons.prems, of "key r"] by auto
qed

lemma remove_process_keys:
  assumes ok: "ok w" and found: "snd (search_roles (process_target host pid) (Some []) w) = Some ms"
    and keys: "\<forall>(j, q) \<in> set w. j = key q"
    and uniq: "\<And>j q q'. (j, q) \<in> set w \<Longrightarrow> (j, q') \<in> set w \<Longrightarrow> q = q'"
  shows "set (fold (\<lambda>r. remove_key (key r)) ms w)
    = {(j, q) \<in> set w. \<not> (host_name (attributes q) = host \<and> process_id (attributes q) = pid)}"
proof -
  have ms: "set ms = {q. \<exists>j. (j, q) \<in> set w \<and> Match q (process_target host pid)}"
    using search_roles_entries [OF ok, of "process_target host pid" "[]"] found by auto
  have "j \<in> key ` set ms \<longleftrightarrow> host_name (attributes q) = host \<and> process_id (attributes q) = pid"
    if jq: "(j, q) \<in> set w" for j q
  proof
    assume "j \<in> key ` set ms"
    then obtain i r where r: "(i, r) \<in> set w" "j = key r" "Match r (process_target host pid)"
      unfolding ms by blast
    then have "(j, r) \<in> set w" using keys by auto
    with uniq [OF jq] r show "host_name (attributes q) = host \<and> process_id (attributes q) = pid"
      by (auto simp: Match_process_target)
  next
    assume "host_name (attributes q) = host \<and> process_id (attributes q) = pid"
    then have "q \<in> set ms" using jq unfolding ms Match_process_target by blast
    then show "j \<in> key ` set ms" using keys jq by auto
  qed
  then show ?thesis unfolding remove_keys_entries [OF ok, THEN conjunct2] by blast
qed

lemma found_process: "ok w \<Longrightarrow> \<exists>ms. snd (search_roles t (Some []) w) = Some ms \<and>
    set ms = {q. \<exists>j. (j, q) \<in> set w \<and> Match q t}"
  using search_roles_entries [of w t "[]"] by auto

end

section \<open>Both warehouses keep it\<close>

lemma erase_matching_filter: "erase_matching t w = filter (\<lambda>(k, r). \<not> Match r t) w"
  by (induction t w rule: erase_matching.induct) auto

lemma erase_in_range_filter: "erase_in_range k t w = filter (\<lambda>(j, r). \<not> (j = k \<and> Match r t)) w"
  by (induction k t w rule: erase_in_range.induct) auto

lemma first_match_iff: "first_match t w \<noteq> None \<longleftrightarrow> (\<exists>(k, r) \<in> set w. Match r t)"
  by (induction t w rule: first_match.induct) auto

lemma first_match_Some: "first_match t w = Some r \<Longrightarrow> Match r t \<and> (\<exists>k. (k, r) \<in> set w)"
  by (induction t w rule: first_match.induct) (auto split: if_splits)

lemma collect_matching_eq:
  "collect_matching t w acc b
     = (b \<or> (\<exists>(k, r) \<in> set w. Match r t), acc @ map snd (filter (\<lambda>(k, r). Match r t) w))"
  by (induction t w acc b rule: collect_matching.induct) auto

lemma collect_attributes_eq:
  "collect_attributes t w acc b
     = (b \<or> (\<exists>(k, r) \<in> set w. Match r t), acc @ map (\<lambda>e. attributes (snd e)) (filter (\<lambda>(k, r). Match r t) w))"
  by (induction t w acc b rule: collect_attributes.induct) auto

definition sv_ok :: "role_map \<Rightarrow> bool" where
  "sv_ok w \<longleftrightarrow> distinct (map fst w)"

lemma set_delete: "set (AList.delete k w) = {(j, q) \<in> set w. j \<noteq> k}"
  by (auto simp: AList.delete_eq)

lemma sv_Remove_role_set:
  assumes "sv_ok w"
  shows "set (sv_Remove_role k r w) = {(j, q) \<in> set w. \<not> (j = k \<and> Match q (attributes r))}"
proof (cases "map_of w k")
  case None
  then have "\<forall>q. (k, q) \<notin> set w" by (force simp: map_of_eq_None_iff)
  with None show ?thesis by (auto simp: sv_Remove_role_def)
next
  case (Some q)
  then have "(k, p) \<in> set w \<longleftrightarrow> p = q" for p
    using map_of_eq_Some_iff [of w k p] assms by (auto simp: sv_ok_def)
  then show ?thesis using Some by (auto simp: sv_Remove_role_def set_delete)
qed

interpretation single: warehouse sv_ok sv_Add sv_Remove_key sv_Remove_role sv_Search_attr_roles
proof unfold_locales
  fix w k r b t rs
  assume ok: "sv_ok w"
  show "sv_ok (snd (sv_Add k r b w))" using ok by (simp add: sv_ok_def sv_Add_def distinct_update)
  show "sv_ok (sv_Remove_key k w)" "sv_ok (sv_Remove_role k r w)"
    using ok by (auto simp: sv_ok_def sv_Remove_key_def sv_Remove_role_def distinct_delete split: option.split)
  show "set (sv_Remove_key k w) = {(j, q) \<in> set w. j \<noteq> k}"
    by (simp add: sv_Remove_key_def set_delete)
  show "set (sv_Remove_role k r w) = {(j, q) \<in> set w. \<not> (j = k \<and> Match q (attributes r))}"
    using ok by (rule sv_Remove_role_set)
  show "fst (sv_Search_attr_roles t (Some rs) w) = (\<exists>(j, q) \<in> set w. Match q t) \<and>
      (\<exists>ms. snd (sv_Search_attr_roles t (Some rs) w) = Some (rs @ ms) \<and>
            set ms = {q. \<exists>j. (j, q) \<in> set w \<and> Match q t})"
    by (force simp: sv_Search_attr_roles_def write_out_def collect_matching_eq)
  have ok': "distinct (map fst (AList.update k r w))" using ok by (simp add: sv_ok_def distinct_update)
  have upd: "(j, q) \<in> set (AList.update k r w) \<longleftrightarrow> (if j = k then q = r else (j, q) \<in> set w)" for j q
    using map_of_eq_Some_iff [OF ok', of j q] ok by (auto simp: update_conv' sv_ok_def)
  then show "(k, r) \<in> set (snd (sv_Add k r b w)) \<and>
      (\<forall>j q. j \<noteq> k \<longrightarrow> (j, q) \<in> set (snd (sv_Add k r b w)) \<longleftrightarrow> (j, q) \<in> set w) \<and>
      set (snd (sv_Add k r b w)) \<subseteq> insert (k, r) (set w)" if "fst (sv_Add k r b w)"
    using that by (auto simp: sv_Add_def split: if_splits)
qed

interpretation multi: warehouse "\<lambda>_. True" mv_Add mv_Remove_key mv_Remove_role mv_Search_attr_roles
  by unfold_locales
    (auto simp: mv_Add_def mv_Remove_key_def mv_Remove_role_def mv_Search_attr_roles_def write_out_def
       erase_in_range_filter collect_matching_eq image_iff Bex_def split: if_splits)

end
