(* ===== verification/TopologyBase.thy ===== *)
theory TopologyBase
  imports Warehouse
begin

text \<open>
  The base class \<open>Manager\<close> of the three topology managers
  (\<open>cyber/service_discovery/specific_manager/manager.cc\<close>) and the change messages they exchange
  (\<open>cyber/proto/topology_change.proto\<close>). The subclasses' \<open>Check\<close> and \<open>Dispose\<close> are arguments.
  What fast-rtps answers (publisher or subscriber created, message written) and what protobuf
  answers (serialised, parsed) are arguments too. The change signal is the list of the messages it
  was called with, the broadcast channel the list of the messages written to it.
\<close>

section \<open>Change messages\<close>

datatype change_type = CHANGE_NODE | CHANGE_CHANNEL | CHANGE_SERVICE | CHANGE_PARTICIPANT

datatype operate_type = OPT_JOIN | OPT_LEAVE

datatype role_type = ROLE_NODE | ROLE_WRITER | ROLE_READER | ROLE_SERVER | ROLE_CLIENT | ROLE_PARTICIPANT

fun role_number :: "role_type \<Rightarrow> nat" where
  "role_number ROLE_NODE = 1"
| "role_number ROLE_WRITER = 2"
| "role_number ROLE_READER = 3"
| "role_number ROLE_SERVER = 4"
| "role_number ROLE_CLIENT = 5"
| "role_number ROLE_PARTICIPANT = 6"

record change_msg =
  msg_timestamp :: u64
  msg_change_type :: change_type
  msg_operate_type :: operate_type
  msg_role_type :: role_type
  msg_attr :: role_attributes

section \<open>The manager\<close>

record manager =
  is_shutdown :: bool
  is_discovery_started :: bool
  allowed_role :: u32
  manager_change_type :: change_type
  my_host_name :: string
  my_process_id :: int
  publisher :: bool
  subscriber :: bool
  listener :: bool
  signalled :: "change_msg list"
  published :: "change_msg list"

definition new_manager :: "u32 \<Rightarrow> change_type \<Rightarrow> string \<Rightarrow> int \<Rightarrow> manager" where
  "new_manager allowed change host pid =
     \<lparr>is_shutdown = False, is_discovery_started = False, allowed_role = allowed,
      manager_change_type = change, my_host_name = host, my_process_id = pid, publisher = False,
      subscriber = False, listener = False, signalled = [], published = []\<rparr>"

text \<open>
  The answers of the environment: were the attributes filled in, and did fast-rtps create the
  object?
\<close>

definition CreatePublisher :: "bool \<Rightarrow> bool \<Rightarrow> 'a manager_scheme \<Rightarrow> bool \<times> 'a manager_scheme" where
  "CreatePublisher filled created m =
     (if \<not> filled then (False, m) else (created, m\<lparr>publisher := created\<rparr>))"

definition CreateSubscriber :: "bool \<Rightarrow> bool \<Rightarrow> 'a manager_scheme \<Rightarrow> bool \<times> 'a manager_scheme" where
  "CreateSubscriber filled created m =
     (if \<not> filled then (False, m) else (created, m\<lparr>listener := True, subscriber := created\<rparr>))"

definition StopDiscovery :: "'a manager_scheme \<Rightarrow> 'a manager_scheme" where
  "StopDiscovery m =
     (if \<not> is_discovery_started m then m
      else m\<lparr>is_discovery_started := False, publisher := False, subscriber := False, listener := False\<rparr>)"

definition StartDiscovery ::
  "bool \<Rightarrow> bool \<times> bool \<Rightarrow> bool \<times> bool \<Rightarrow> 'a manager_scheme \<Rightarrow> bool \<times> 'a manager_scheme"
where
  "StartDiscovery participant pub sub m =
     (if \<not> participant then (False, m)
      else if is_discovery_started m then (True, m)
      else case CreatePublisher (fst pub) (snd pub) (m\<lparr>is_discovery_started := True\<rparr>) of
             (False, m1) \<Rightarrow> (False, StopDiscovery m1)
           | (True, m1) \<Rightarrow>
               (case CreateSubscriber (fst sub) (snd sub) m1 of
                  (False, m2) \<Rightarrow> (False, StopDiscovery m2)
                | (True, m2) \<Rightarrow> (True, m2)))"

definition Shutdown :: "'a manager_scheme \<Rightarrow> 'a manager_scheme" where
  "Shutdown m = (if is_shutdown m then m else StopDiscovery (m\<lparr>is_shutdown := True\<rparr>))"

definition Convert ::
  "u64 \<Rightarrow> role_attributes \<Rightarrow> role_type \<Rightarrow> operate_type \<Rightarrow> 'a manager_scheme \<Rightarrow> change_msg"
where
  "Convert now attr role opt m =
     (let a = attr;
          a1 = (if host_name_of a = None then a\<lparr>host_name_of := Some (my_host_name m)\<rparr> else a);
          a2 = (if process_id_of a1 = None then a1\<lparr>process_id_of := Some (my_process_id m)\<rparr> else a1)
      in \<lparr>msg_timestamp = now, msg_change_type = manager_change_type m, msg_operate_type = opt,
          msg_role_type = role, msg_attr = a2\<rparr>)"

definition Notify :: "change_msg \<Rightarrow> 'a manager_scheme \<Rightarrow> 'a manager_scheme" where
  "Notify msg m = m\<lparr>signalled := signalled m @ [msg]\<rparr>"

text \<open>\<open>wire\<close>: could the message be serialised, and did the publisher write it?\<close>

definition Publish :: "bool \<times> bool \<Rightarrow> change_msg \<Rightarrow> 'a manager_scheme \<Rightarrow> bool \<times> 'a manager_scheme" where
  "Publish wire msg m =
     (if \<not> is_discovery_started m then (False, m)
      else if \<not> fst wire then (False, m)
      else if publisher m
           then (snd wire, if snd wire then m\<lparr>published := published m @ [msg]\<rparr> else m)
           else (True, m))"

definition NeedPublish :: "change_msg \<Rightarrow> 'a manager_scheme \<Rightarrow> bool" where
  "NeedPublish msg m = True"

definition role_allowed :: "role_type \<Rightarrow> 'a manager_scheme \<Rightarrow> bool" where
  "role_allowed role m \<longleftrightarrow> push_bit (role_number role) 1 AND allowed_role m \<noteq> 0"

definition Join ::
  "(role_attributes \<Rightarrow> bool) \<Rightarrow> (change_msg \<Rightarrow> 'a manager_scheme \<Rightarrow> 'a manager_scheme) \<Rightarrow>
   u64 \<Rightarrow> bool \<times> bool \<Rightarrow> role_attributes \<Rightarrow> role_type \<Rightarrow> bool \<Rightarrow> 'a manager_scheme \<Rightarrow> bool \<times> 'a manager_scheme"
where
  "Join Check Dispose now wire attr role need_publish m =
     (if is_shutdown m then (False, m)
      else if \<not> role_allowed role m then (False, m)
      else if \<not> Check attr then (False, m)
      else let msg = Convert now attr role OPT_JOIN m;
               m1 = Dispose msg m
           in if need_publish then Publish wire msg m1 else (True, m1))"

definition Leave ::
  "(role_attributes \<Rightarrow> bool) \<Rightarrow> (change_msg \<Rightarrow> 'a manager_scheme \<Rightarrow> 'a manager_scheme) \<Rightarrow>
   u64 \<Rightarrow> bool \<times> bool \<Rightarrow> role_attributes \<Rightarrow> role_type \<Rightarrow> 'a manager_scheme \<Rightarrow> bool \<times> 'a manager_scheme"
where
  "Leave Check Dispose now wire attr role m =
     (if is_shutdown m then (False, m)
      else if \<not> role_allowed role m then (False, m)
      else if \<not> Check attr then (False, m)
      else let msg = Convert now attr role OPT_LEAVE m;
               m1 = Dispose msg m
           in if NeedPublish msg m1 then Publish wire msg m1 else (True, m1))"

definition IsFromSameProcess :: "change_msg \<Rightarrow> 'a manager_scheme \<Rightarrow> bool" where
  "IsFromSameProcess msg m \<longleftrightarrow>
     \<not> (process_id (msg_attr msg) \<noteq> my_process_id m \<or> host_name (msg_attr msg) \<noteq> my_host_name m)"

text \<open>\<open>msg\<close> is None when the string does not parse.\<close>

definition OnRemoteChange ::
  "(role_attributes \<Rightarrow> bool) \<Rightarrow> (change_msg \<Rightarrow> 'a manager_scheme \<Rightarrow> 'a manager_scheme) \<Rightarrow>
   change_msg option \<Rightarrow> 'a manager_scheme \<Rightarrow> 'a manager_scheme"
where
  "OnRemoteChange Check Dispose parsed m =
     (if is_shutdown m then m
      else case parsed of
             None \<Rightarrow> m
           | Some msg \<Rightarrow>
               if IsFromSameProcess msg m then m
               else if \<not> Check (msg_attr msg) then m
               else Dispose msg m)"

text \<open>The leave messages \<open>OnTopoModuleLeave\<close> builds for the roles it found; \<open>clock\<close> gives the times.\<close>

fun leave_msgs :: "(nat \<Rightarrow> u64) \<Rightarrow> nat \<Rightarrow> role_type \<Rightarrow> role list \<Rightarrow> 'a manager_scheme \<Rightarrow> change_msg list" where
  "leave_msgs clock n role [] m = []"
| "leave_msgs clock n role (r # rs) m =
     Convert (clock n) (attributes r) role OPT_LEAVE m # leave_msgs clock (Suc n) role rs m"

lemmas manager_defs [op_defs] = Join_def Leave_def OnRemoteChange_def Publish_def NeedPublish_def
  Notify_def StopDiscovery_def StartDiscovery_def Shutdown_def

section \<open>What the base class guarantees\<close>

lemma Convert_simps [simp]:
  "msg_operate_type (Convert now a r opt m) = opt" "msg_role_type (Convert now a r opt m) = r"
  "msg_timestamp (Convert now a r opt m) = now"
  by (simp_all add: Convert_def Let_def)

lemma Convert_present:
  "host_name_of (msg_attr (Convert now a r opt m)) \<noteq> None"
  "process_id_of (msg_attr (Convert now a r opt m)) \<noteq> None"
  by (auto simp: Convert_def Let_def)

lemma Convert_id:
  "host_name_of a \<noteq> None \<Longrightarrow> process_id_of a \<noteq> None \<Longrightarrow> msg_attr (Convert now a r opt m) = a"
  by (auto simp: Convert_def Let_def)

lemma Convert_fields [simp]:
  "node_id_of (msg_attr (Convert now a r opt m)) = node_id_of a"
  "node_name_of (msg_attr (Convert now a r opt m)) = node_name_of a"
  "channel_id_of (msg_attr (Convert now a r opt m)) = channel_id_of a"
  "channel_name_of (msg_attr (Convert now a r opt m)) = channel_name_of a"
  "id_of (msg_attr (Convert now a r opt m)) = id_of a"
  "service_id_of (msg_attr (Convert now a r opt m)) = service_id_of a"
  by (auto simp: Convert_def Let_def)

text \<open>A \<open>Join\<close> of a role without host or process is made a role of this process.\<close>

lemma Convert_own:
  assumes "host_name_of a = None" "process_id_of a = None"
  shows "IsFromSameProcess (Convert now a r opt m) m"
  using assms by (simp add: IsFromSameProcess_def Convert_def Let_def host_name_def process_id_def)

lemma set_leave_msgs:
  assumes "\<forall>r \<in> set rs. host_name_of (attributes r) \<noteq> None \<and> process_id_of (attributes r) \<noteq> None"
  shows "map msg_attr (leave_msgs clock n role rs m) = map attributes rs"
  using assms by (induction rs arbitrary: n) (simp_all add: Convert_id)

lemma leave_msgs_types:
  "msg \<in> set (leave_msgs clock n role rs m) \<Longrightarrow> msg_role_type msg = role \<and> msg_operate_type msg = OPT_LEAVE"
  by (induction rs arbitrary: n) auto

lemma shutdown_inert:
  assumes "is_shutdown m"
  shows "Join Check Dispose now wire a role np m = (False, m)"
    and "Leave Check Dispose now wire a role m = (False, m)"
    and "OnRemoteChange Check Dispose parsed m = m"
    and "Shutdown m = m"
  using assms by (simp_all add: manager_defs)

lemma StartDiscovery_result:
  assumes "StartDiscovery participant pub sub m = (b, m')"
  shows "b \<Longrightarrow> is_discovery_started m'"
    and "\<not> b \<Longrightarrow> participant \<Longrightarrow> \<not> is_discovery_started m' \<and> \<not> publisher m' \<and> \<not> subscriber m' \<and> \<not> listener m'"
  using assms
  by (auto simp: StartDiscovery_def StopDiscovery_def CreatePublisher_def CreateSubscriber_def
        split: if_splits prod.splits bool.splits)

section \<open>The contract of a topology manager\<close>

text \<open>
  A manager is told of changes (\<open>Dispose\<close>) and of processes that left (\<open>OnTopoModuleLeave\<close>);
  \<open>table\<close> is the set of the roles it has.
\<close>

datatype topo_event = Change change_msg | ModuleLeft string int

definition of_process :: "string \<Rightarrow> int \<Rightarrow> role_attributes \<Rightarrow> bool" where
  "of_process host pid a \<longleftrightarrow> host_name a = host \<and> process_id a = pid"

fun topo_run ::
  "(change_msg \<Rightarrow> 'm \<Rightarrow> 'm) \<Rightarrow> (string \<Rightarrow> int \<Rightarrow> 'm \<Rightarrow> 'm) \<Rightarrow> topo_event list \<Rightarrow> 'm \<Rightarrow> 'm" where
  "topo_run dispose leave [] m = m"
| "topo_run dispose leave (Change msg # es) m = topo_run dispose leave es (dispose msg m)"
| "topo_run dispose leave (ModuleLeft h p # es) m = topo_run dispose leave es (leave h p m)"

lemma topo_run_append:
  "topo_run dispose leave (es @ es') m = topo_run dispose leave es' (topo_run dispose leave es m)"
  by (induction dispose leave es m rule: topo_run.induct) simp_all

locale topology_manager =
  fixes ok :: "'m \<Rightarrow> bool"
    and started :: "'m \<Rightarrow> bool"
    and table :: "'m \<Rightarrow> role set"
    and dispose :: "change_msg \<Rightarrow> 'm \<Rightarrow> 'm"
    and leave :: "string \<Rightarrow> int \<Rightarrow> 'm \<Rightarrow> 'm"
    and msg_ok :: "change_msg \<Rightarrow> bool"
  assumes dispose_ok: "ok m \<Longrightarrow> msg_ok msg \<Longrightarrow> ok (dispose msg m)"
    and dispose_started: "started (dispose msg m) = started m"
    and dispose_table: "ok m \<Longrightarrow> msg_ok msg \<Longrightarrow> q \<in> table (dispose msg m) \<Longrightarrow>
          q \<in> table m \<or> msg_operate_type msg = OPT_JOIN \<and> attributes q = msg_attr msg"
    and leave_ok: "ok m \<Longrightarrow> ok (leave h p m)"
    and leave_started: "started (leave h p m) = started m"
    and leave_table: "ok m \<Longrightarrow> started m \<Longrightarrow>
          table (leave h p m) = {q \<in> table m. \<not> of_process h p (attributes q)}"
begin

lemma run_ok:
  assumes "ok m" "\<forall>msg. Change msg \<in> set es \<longrightarrow> msg_ok msg"
  shows "ok (topo_run dispose leave es m) \<and> started (topo_run dispose leave es m) = started m"
  using assms
proof (induction es arbitrary: m)
  case Nil
  then show ?case by simp
next
  case (Cons e es)
  then show ?case by (cases e) (simp_all add: dispose_ok dispose_started leave_ok leave_started)
qed

lemma stays_gone_run:
  assumes "ok m" "started m" "\<forall>q \<in> table m. \<not> of_process h p (attributes q)"
    and "\<forall>msg. Change msg \<in> set es \<longrightarrow>
           msg_ok msg \<and> \<not> (msg_operate_type msg = OPT_JOIN \<and> of_process h p (msg_attr msg))"
  shows "\<forall>q \<in> table (topo_run dispose leave es m). \<not> of_process h p (attributes q)"
  using assms
proof (induction es arbitrary: m)
  case Nil
  then show ?case by simp
next
  case (Cons e es)
  show ?case
  proof (cases e)
    case (Change msg)
    have ok: "msg_ok msg" using Cons.prems(4) Change by simp
    have gone: "\<not> of_process h p (attributes q)" if q: "q \<in> table (dispose msg m)" for q
      using dispose_table [OF Cons.prems(1) ok q] Cons.prems(3,4) Change by auto
    have "\<forall>q \<in> table (topo_run dispose leave es (dispose msg m)). \<not> of_process h p (attributes q)"
      using Cons.prems(1,2,4) gone
      by (intro Cons.IH) (auto simp: dispose_ok [OF _ ok] dispose_started)
    then show ?thesis using Change by simp
  next
    case (ModuleLeft h' p')
    have "\<forall>q \<in> table (topo_run dispose leave es (leave h' p' m)). \<not> of_process h p (attributes q)"
      using Cons.prems by (intro Cons.IH) (auto simp: leave_ok leave_started leave_table)
    then show ?thesis using ModuleLeft by simp
  qed
qed

text \<open>
  A process that left is gone: right after, exactly its roles are missing, and none of them comes
  back before one of its join messages.
\<close>

lemma departed:
  assumes "ok m" "started m" "\<forall>msg. Change msg \<in> set (es @ es') \<longrightarrow> msg_ok msg"
    and "\<forall>msg. Change msg \<in> set es' \<longrightarrow> \<not> (msg_operate_type msg = OPT_JOIN \<and> of_process h p (msg_attr msg))"
  shows "table (topo_run dispose leave (es @ [ModuleLeft h p]) m)
           = {q \<in> table (topo_run dispose leave es m). \<not> of_process h p (attributes q)}"
    and "\<forall>q \<in> table (topo_run dispose leave (es @ ModuleLeft h p # es') m). \<not> of_process h p (attributes q)"
proof -
  let ?m = "topo_run dispose leave es m"
  have m: "ok ?m" "started ?m" using run_ok [OF assms(1), of es] assms(2,3) by auto
  then show 1: "table (topo_run dispose leave (es @ [ModuleLeft h p]) m)
      = {q \<in> table ?m. \<not> of_process h p (attributes q)}"
    by (simp add: topo_run_append leave_table)
  have "\<forall>q \<in> table (topo_run dispose leave es' (leave h p ?m)). \<not> of_process h p (attributes q)"
    using m assms(3,4) by (intro stays_gone_run) (auto simp: leave_ok leave_started leave_table)
  then show "\<forall>q \<in> table (topo_run dispose leave (es @ ModuleLeft h p # es') m). \<not> of_process h p (attributes q)"
    by (simp add: topo_run_append)
qed

end

end
