(* ===== verification/NodeServiceManagers.thy ===== *)
theory NodeServiceManagers
  imports TopologyBase
begin

text \<open>
  The managers of nodes and of services
  (\<open>cyber/service_discovery/specific_manager/node_manager.cc\<close>, \<open>service_manager.cc\<close>). The hash
  that gives a name its key is the argument \<open>register\<close>; \<open>AsyncShutdown\<close> is counted.
\<close>

section \<open>Nodes\<close>

record node_manager = manager +
  nodes :: role_map
  async_shutdowns :: nat

definition new_node_manager :: "string \<Rightarrow> int \<Rightarrow> node_manager" where
  "new_node_manager host pid =
     manager.extend (new_manager (push_bit (role_number ROLE_NODE) 1) CHANGE_NODE host pid)
       \<lparr>nodes = [], async_shutdowns = 0\<rparr>"

definition HasNode :: "(string \<Rightarrow> u64) \<Rightarrow> string \<Rightarrow> node_manager \<Rightarrow> bool" where
  "HasNode register name m = sv_Search_key (register name) (nodes m)"

definition GetNodes :: "role_attributes list option \<Rightarrow> node_manager \<Rightarrow> role_attributes list option" where
  "GetNodes out m = sv_GetAllRoles_attrs out (nodes m)"

definition Node_Check :: "role_attributes \<Rightarrow> bool" where
  "Node_Check a \<longleftrightarrow> node_name_of a \<noteq> None \<and> node_id_of a \<noteq> None"

definition node_role :: "change_msg \<Rightarrow> role" where
  "node_role msg = \<lparr>class_of = RoleBase, attributes = msg_attr msg, timestamp_ns = msg_timestamp msg\<rparr>"

definition Node_DisposeJoin :: "change_msg \<Rightarrow> node_manager \<Rightarrow> node_manager" where
  "Node_DisposeJoin msg m =
     (let node = node_role msg;
          key = node_id (attributes node)
      in case sv_Add key node False (nodes m) of
           (True, ns) \<Rightarrow> m\<lparr>nodes := ns\<rparr>
         | (False, _) \<Rightarrow>
             (case sv_find_key key (nodes m) of
                None \<Rightarrow> m\<lparr>nodes := snd (sv_Add key node True (nodes m))\<rparr>
              | Some existing_node \<Rightarrow>
                  let earlier = IsEarlierThan node existing_node;
                      newer_node = (if earlier then existing_node else node);
                      m1 = (if earlier then m\<lparr>nodes := snd (sv_Add key node True (nodes m))\<rparr> else m)
                  in if process_id (attributes newer_node) = my_process_id m \<and>
                        host_name (attributes newer_node) = my_host_name m
                     then m1\<lparr>async_shutdowns := async_shutdowns m + 1\<rparr> else m1))"

definition Node_DisposeLeave :: "change_msg \<Rightarrow> node_manager \<Rightarrow> node_manager" where
  "Node_DisposeLeave msg m = m\<lparr>nodes := sv_Remove_key (node_id (attributes (node_role msg))) (nodes m)\<rparr>"

definition Node_Dispose :: "change_msg \<Rightarrow> node_manager \<Rightarrow> node_manager" where
  "Node_Dispose msg m =
     Notify msg (if msg_operate_type msg = OPT_JOIN then Node_DisposeJoin msg m else Node_DisposeLeave msg m)"

definition Node_OnTopoModuleLeave :: "(nat \<Rightarrow> u64) \<Rightarrow> string \<Rightarrow> int \<Rightarrow> node_manager \<Rightarrow> node_manager" where
  "Node_OnTopoModuleLeave clock host pid m =
     (if \<not> is_discovery_started m then m
      else case snd (sv_Search_attr_roles (process_target host pid) (Some []) (nodes m)) of
             None \<Rightarrow> m
           | Some to_remove \<Rightarrow>
               fold Notify (leave_msgs clock 0 ROLE_NODE to_remove m)
                 (m\<lparr>nodes := fold (\<lambda>r. sv_Remove_key (node_id (attributes r))) to_remove (nodes m)\<rparr>))"

section \<open>Services\<close>

record service_manager = manager +
  servers :: role_map
  clients :: role_map

definition new_service_manager :: "string \<Rightarrow> int \<Rightarrow> service_manager" where
  "new_service_manager host pid =
     manager.extend
       (new_manager (push_bit (role_number ROLE_SERVER) 1 OR push_bit (role_number ROLE_CLIENT) 1)
          CHANGE_SERVICE host pid)
       \<lparr>servers = [], clients = []\<rparr>"

definition HasService :: "(string \<Rightarrow> u64) \<Rightarrow> string \<Rightarrow> service_manager \<Rightarrow> bool" where
  "HasService register name m = sv_Search_key (register name) (servers m)"

definition GetServers :: "role_attributes list option \<Rightarrow> service_manager \<Rightarrow> role_attributes list option" where
  "GetServers out m = sv_GetAllRoles_attrs out (servers m)"

definition GetClients ::
  "(string \<Rightarrow> u64) \<Rightarrow> string \<Rightarrow> role_attributes list option \<Rightarrow> service_manager \<Rightarrow> role_attributes list option"
where
  "GetClients register name out m = snd (mv_Search_key_attrs (register name) out (clients m))"

definition Service_Check :: "role_attributes \<Rightarrow> bool" where
  "Service_Check a \<longleftrightarrow> service_name_of a \<noteq> None \<and> service_id_of a \<noteq> None"

definition service_role :: "change_msg \<Rightarrow> role" where
  "service_role msg = \<lparr>class_of = RoleServer, attributes = msg_attr msg, timestamp_ns = 0\<rparr>"

definition Service_DisposeJoin :: "change_msg \<Rightarrow> service_manager \<Rightarrow> service_manager" where
  "Service_DisposeJoin msg m =
     (let r = service_role msg; key = service_id (attributes r)
      in if msg_role_type msg = ROLE_SERVER
         then m\<lparr>servers := snd (sv_Add key r True (servers m))\<rparr>
         else m\<lparr>clients := snd (mv_Add key r True (clients m))\<rparr>)"

definition Service_DisposeLeave :: "change_msg \<Rightarrow> service_manager \<Rightarrow> service_manager" where
  "Service_DisposeLeave msg m =
     (let r = service_role msg; key = service_id (attributes r)
      in if msg_role_type msg = ROLE_SERVER
         then m\<lparr>servers := sv_Remove_key key (servers m)\<rparr>
         else m\<lparr>clients := mv_Remove_role key r (clients m)\<rparr>)"

definition Service_Dispose :: "change_msg \<Rightarrow> service_manager \<Rightarrow> service_manager" where
  "Service_Dispose msg m =
     Notify msg (if msg_operate_type msg = OPT_JOIN then Service_DisposeJoin msg m else Service_DisposeLeave msg m)"

definition Service_OnTopoModuleLeave :: "(nat \<Rightarrow> u64) \<Rightarrow> string \<Rightarrow> int \<Rightarrow> service_manager \<Rightarrow> service_manager" where
  "Service_OnTopoModuleLeave clock host pid m =
     (if \<not> is_discovery_started m then m
      else case (snd (sv_Search_attr_roles (process_target host pid) (Some []) (servers m)),
                 snd (mv_Search_attr_roles (process_target host pid) (Some []) (clients m))) of
             (Some ss, Some cs) \<Rightarrow>
               fold Notify (leave_msgs clock 0 ROLE_SERVER ss m @ leave_msgs clock (length ss) ROLE_CLIENT cs m)
                 (m\<lparr>servers := fold (\<lambda>r. sv_Remove_key (service_id (attributes r))) ss (servers m),
                    clients := fold (\<lambda>r. mv_Remove_role (service_id (attributes r)) r) cs (clients m)\<rparr>)
           | _ \<Rightarrow> m)"

lemmas node_service_defs [op_defs] = Node_Dispose_def Node_DisposeJoin_def Node_DisposeLeave_def
  Node_OnTopoModuleLeave_def Service_Dispose_def Service_DisposeJoin_def Service_DisposeLeave_def
  Service_OnTopoModuleLeave_def
section \<open>The registered nodes\<close>

definition node_table :: "node_manager \<Rightarrow> role set" where
  "node_table m = snd ` set (nodes m)"

definition node_ok :: "node_manager \<Rightarrow> bool" where
  "node_ok m \<longleftrightarrow> sv_ok (nodes m) \<and> (\<forall>(k, q) \<in> set (nodes m). k = node_id (attributes q))"

lemma sv_uniq: "sv_ok w \<Longrightarrow> (j, q) \<in> set w \<Longrightarrow> (j, q') \<in> set w \<Longrightarrow> q = q'"
  by (simp add: sv_ok_def) (metis eq_key_imp_eq_value)

lemma snd_Collect: "snd ` {(j, q) \<in> S. P q} = {q \<in> snd ` S. P q}"
  by auto

lemma sv_Add_set:
  assumes "sv_ok w"
  shows "set (AList.update k r w) = insert (k, r) {(j, q) \<in> set w. j \<noteq> k}"
proof -
  have d: "distinct (map fst (AList.update k r w))" using assms by (simp add: sv_ok_def distinct_update)
  have "(j, q) \<in> set (AList.update k r w) \<longleftrightarrow> (if j = k then q = r else (j, q) \<in> set w)" for j q
    using map_of_eq_Some_iff [OF d, of j q] assms by (auto simp: update_conv' sv_ok_def)
  then show ?thesis by (auto split: if_splits)
qed

lemma node_role_attributes [simp]: "attributes (node_role msg) = msg_attr msg"
  by (simp add: node_role_def)

text \<open>The table of nodes after a join, with the manager's other fields.\<close>

lemma Node_DisposeJoin_fields [simp]:
  "is_discovery_started (Node_DisposeJoin msg m) = is_discovery_started m"
  "is_shutdown (Node_DisposeJoin msg m) = is_shutdown m"
  "my_host_name (Node_DisposeJoin msg m) = my_host_name m"
  "my_process_id (Node_DisposeJoin msg m) = my_process_id m"
  by (auto simp: Node_DisposeJoin_def Let_def split: prod.split bool.split option.split)

lemma Node_DisposeJoin_nodes:
  "nodes (Node_DisposeJoin msg m) =
     (case map_of (nodes m) (node_id (msg_attr msg)) of
        None \<Rightarrow> AList.update (node_id (msg_attr msg)) (node_role msg) (nodes m)
      | Some e \<Rightarrow> if IsEarlierThan (node_role msg) e
                  then AList.update (node_id (msg_attr msg)) (node_role msg) (nodes m) else nodes m)"
  by (simp add: Node_DisposeJoin_def sv_Add_def sv_find_key_def Let_def split: option.split)

lemma node_fold_Notify [simp]:
  "nodes (fold Notify msgs m) = nodes m" for m :: node_manager
  by (induction msgs arbitrary: m) (simp_all add: Notify_def)

lemma fold_Notify_started [simp]: "is_discovery_started (fold Notify msgs m) = is_discovery_started m"
  by (induction msgs arbitrary: m) (simp_all add: Notify_def)

lemma Node_join_set:
  assumes "node_ok m"
  shows "node_ok (Node_DisposeJoin msg m)"
    and "node_table (Node_DisposeJoin msg m) \<subseteq> insert (node_role msg) (node_table m)"
proof -
  have upd: "set (AList.update (node_id (msg_attr msg)) (node_role msg) (nodes m))
      = insert (node_id (msg_attr msg), node_role msg) {(j, q) \<in> set (nodes m). j \<noteq> node_id (msg_attr msg)}"
    using assms by (intro sv_Add_set) (simp add: node_ok_def)
  show "node_ok (Node_DisposeJoin msg m)"
    using assms by (auto simp: node_ok_def Node_DisposeJoin_nodes upd sv_ok_def distinct_update
        split: option.split)
  show "node_table (Node_DisposeJoin msg m) \<subseteq> insert (node_role msg) (node_table m)"
    by (auto simp: node_table_def Node_DisposeJoin_nodes upd split: option.split)
qed

lemma Node_module_leave:
  assumes "node_ok m"
  shows "node_ok (Node_OnTopoModuleLeave clock h p m)"
    and "is_discovery_started m \<Longrightarrow>
      node_table (Node_OnTopoModuleLeave clock h p m) = {q \<in> node_table m. \<not> of_process h p (attributes q)}"
proof -
  have ok: "sv_ok (nodes m)" and keys: "\<forall>(j, q) \<in> set (nodes m). j = node_id (attributes q)"
    using assms by (auto simp: node_ok_def)
  obtain rs where rs: "snd (sv_Search_attr_roles (process_target h p) (Some []) (nodes m)) = Some rs"
    using single.found_process [OF ok] by blast
  let ?ns = "fold (\<lambda>r. sv_Remove_key (node_id (attributes r))) rs (nodes m)"
  have set: "set ?ns = {(j, q) \<in> set (nodes m). \<not> (host_name (attributes q) = h \<and> process_id (attributes q) = p)}"
    by (rule single.remove_process_keys [OF ok rs keys sv_uniq [OF ok]])
  have ok': "sv_ok ?ns" by (rule single.remove_keys_entries [OF ok, THEN conjunct1])
  have n: "nodes (Node_OnTopoModuleLeave clock h p m) = (if is_discovery_started m then ?ns else nodes m)"
    by (simp add: Node_OnTopoModuleLeave_def rs)
  show "node_ok (Node_OnTopoModuleLeave clock h p m)" using assms ok' keys by (auto simp: node_ok_def n set)
  show "node_table (Node_OnTopoModuleLeave clock h p m) = {q \<in> node_table m. \<not> of_process h p (attributes q)}"
    if "is_discovery_started m"
  proof -
    have "node_table (Node_OnTopoModuleLeave clock h p m) = snd ` set ?ns"
      using that n by (simp add: node_table_def)
    also have "\<dots> = {q \<in> node_table m. \<not> of_process h p (attributes q)}"
      unfolding set node_table_def of_process_def by (rule snd_Collect)
    finally show ?thesis .
  qed
qed

lemma Notify_fields [simp]:
  "nodes (Notify msg n) = nodes n" "servers (Notify msg s) = servers s" "clients (Notify msg s) = clients s"
  "is_discovery_started (Notify msg m) = is_discovery_started m"
  "async_shutdowns (Notify msg n) = async_shutdowns n"
  by (simp_all add: Notify_def)

interpretation node_man: topology_manager node_ok is_discovery_started node_table Node_Dispose
  "Node_OnTopoModuleLeave clock" "\<lambda>_. True"
proof unfold_locales
  fix m msg q h p
  show "node_ok (Node_Dispose msg m)" if "node_ok m"
    using that Node_join_set(1) [OF that, of msg]
    by (auto simp: Node_Dispose_def node_ok_def Node_DisposeLeave_def sv_Remove_key_def sv_ok_def distinct_delete set_delete)
  show "is_discovery_started (Node_Dispose msg m) = is_discovery_started m"
    by (simp add: Node_Dispose_def Node_DisposeLeave_def)
  show "q \<in> node_table m \<or> msg_operate_type msg = OPT_JOIN \<and> attributes q = msg_attr msg"
    if "node_ok m" "q \<in> node_table (Node_Dispose msg m)"
  proof (cases "msg_operate_type msg")
    case OPT_JOIN
    then have "q \<in> insert (node_role msg) (node_table m)"
      using that Node_join_set(2) [OF that(1), of msg] by (auto simp: Node_Dispose_def node_table_def)
    then show ?thesis using OPT_JOIN by auto
  next
    case OPT_LEAVE
    then show ?thesis using that(2)
      by (auto simp: Node_Dispose_def node_table_def Node_DisposeLeave_def sv_Remove_key_def set_delete)
  qed
  show "node_ok (Node_OnTopoModuleLeave clock h p m)" if "node_ok m" using Node_module_leave(1) [OF that] .
  show "is_discovery_started (Node_OnTopoModuleLeave clock h p m) = is_discovery_started m"
    by (simp add: Node_OnTopoModuleLeave_def split: option.split)
  show "node_table (Node_OnTopoModuleLeave clock h p m) = {q \<in> node_table m. \<not> of_process h p (attributes q)}"
    if "node_ok m" "is_discovery_started m"
    using Node_module_leave(2) [OF that] .
qed
section \<open>Duplicated nodes\<close>

lemma new_node_manager_ok [inv_intros]: "node_ok (new_node_manager host pid)"
  by (simp add: new_node_manager_def node_ok_def sv_ok_def manager.defs)

definition registered :: "node_manager \<Rightarrow> u64 \<Rightarrow> role option" where
  "registered m k = map_of (nodes m) k"

lemma registered_join:
  "registered (Node_DisposeJoin msg m) k =
     (if k = node_id (msg_attr msg) then
        (case registered m k of
           None \<Rightarrow> Some (node_role msg)
         | Some e \<Rightarrow> if IsEarlierThan (node_role msg) e then Some (node_role msg) else Some e)
      else registered m k)"
  by (auto simp: registered_def Node_DisposeJoin_nodes update_conv' split: option.split)

text \<open>The earliest of the joins so far, or None.\<close>

definition earliest_of :: "change_msg set \<Rightarrow> role option \<Rightarrow> bool" where
  "earliest_of js r \<longleftrightarrow>
     (case r of
        None \<Rightarrow> js = {}
      | Some q \<Rightarrow> \<exists>j \<in> js. q = node_role j \<and> (\<forall>j' \<in> js. msg_timestamp j \<le> msg_timestamp j'))"

lemma earliest_step:
  assumes "earliest_of js r"
  shows "earliest_of (insert msg js)
     (case r of
        None \<Rightarrow> Some (node_role msg)
      | Some e \<Rightarrow> if IsEarlierThan (node_role msg) e then Some (node_role msg) else Some e)"
proof (cases r)
  case None
  then show ?thesis using assms by (simp add: earliest_of_def)
next
  case (Some q)
  then obtain j where j: "j \<in> js" "q = node_role j" "\<forall>j' \<in> js. msg_timestamp j \<le> msg_timestamp j'"
    using assms by (auto simp: earliest_of_def)
  have t: "IsEarlierThan (node_role msg) q \<longleftrightarrow> msg_timestamp msg < msg_timestamp j"
    by (simp add: IsEarlierThan_def j(2) node_role_def)
  show ?thesis
  proof (cases "msg_timestamp msg < msg_timestamp j")
    case True
    then have "\<forall>j' \<in> js. msg_timestamp msg \<le> msg_timestamp j'" using j(3) by force
    then show ?thesis using Some t True by (simp add: earliest_of_def)
  next
    case False
    then show ?thesis using Some t j by (auto simp: earliest_of_def)
  qed
qed

lemma joins_earliest:
  assumes "\<forall>msg \<in> set msgs. msg_operate_type msg = OPT_JOIN" "earliest_of js (registered m k)"
  shows "earliest_of (js \<union> {msg \<in> set msgs. node_id (msg_attr msg) = k}) (registered (fold Node_Dispose msgs m) k)"
  using assms
proof (induction msgs arbitrary: m js)
  case Nil
  then show ?case by simp
next
  case (Cons msg msgs)
  let ?js = "if node_id (msg_attr msg) = k then insert msg js else js"
  have reg: "registered (Node_Dispose msg m) k = registered (Node_DisposeJoin msg m) k"
    using Cons.prems(1) by (simp add: Node_Dispose_def registered_def)
  have "earliest_of ?js (registered (Node_Dispose msg m) k)"
    unfolding reg registered_join using earliest_step [OF Cons.prems(2), of msg] Cons.prems(2) by auto
  from Cons.IH [OF _ this] Cons.prems(1)
  have "earliest_of (?js \<union> {msg \<in> set msgs. node_id (msg_attr msg) = k}) (registered (fold Node_Dispose (msg # msgs) m) k)"
    by simp
  moreover have "?js \<union> {msg \<in> set msgs. node_id (msg_attr msg) = k}
      = js \<union> {m' \<in> set (msg # msgs). node_id (msg_attr m') = k}" by auto
  ultimately show ?case by simp
qed

text \<open>
  However many processes announce a node of the same id, and in whatever order the
  announcements arrive, the node registered is one with the earliest timestamp.
\<close>

theorem duplicate_node_keeps_earliest:
  assumes "\<forall>msg \<in> set msgs. msg_operate_type msg = OPT_JOIN"
    and "js = {msg \<in> set msgs. node_id (msg_attr msg) = k}"
  shows "case map_of (nodes (fold Node_Dispose msgs (new_node_manager host pid))) k of
           None \<Rightarrow> js = {}
         | Some r \<Rightarrow> \<exists>j \<in> js. r = node_role j \<and> (\<forall>j' \<in> js. msg_timestamp j \<le> msg_timestamp j')"
proof -
  have "earliest_of {} (registered (new_node_manager host pid) k)"
    by (simp add: earliest_of_def registered_def new_node_manager_def manager.defs)
  from joins_earliest [OF assms(1) this] show ?thesis
    unfolding assms(2) by (simp add: earliest_of_def registered_def)
qed

definition join_at :: "u64 \<Rightarrow> string \<Rightarrow> int \<Rightarrow> change_msg" where
  "join_at t host pid =
     \<lparr>msg_timestamp = t, msg_change_type = CHANGE_NODE, msg_operate_type = OPT_JOIN, msg_role_type = ROLE_NODE,
      msg_attr = no_attributes\<lparr>host_name_of := Some host, process_id_of := Some pid,
        node_name_of := Some ''camera'', node_id_of := Some 7\<rparr>\<rparr>"

lemma join_at_fields [simp]:
  "msg_timestamp (join_at t h p) = t" "msg_operate_type (join_at t h p) = OPT_JOIN"
  "node_id (msg_attr (join_at t h p)) = 7" "of_process h' p' (msg_attr (join_at t h p)) \<longleftrightarrow> h = h' \<and> p = p'"
  by (simp_all add: join_at_def node_id_def of_process_def host_name_def process_id_def)

theorem duplicate_node_keeps_earliest_witness:
  "map_of (nodes (fold Node_Dispose [join_at 9 ''b'' 2, join_at 4 ''a'' 1] (new_node_manager ''a'' 1))) 7
     = Some (node_role (join_at 4 ''a'' 1))"
proof -
  let ?msgs = "[join_at 9 ''b'' 2, join_at 4 ''a'' 1]"
  let ?r = "map_of (nodes (fold Node_Dispose ?msgs (new_node_manager ''a'' 1))) 7"
  have js: "set ?msgs = {msg \<in> set ?msgs. node_id (msg_attr msg) = 7}" by auto
  have "\<forall>msg \<in> set ?msgs. msg_operate_type msg = OPT_JOIN" by simp
  from duplicate_node_keeps_earliest [OF this js, of "''a''" 1]
  obtain r where "?r = Some r" "r = node_role (join_at 4 ''a'' 1) \<or> r = node_role (join_at 9 ''b'' 2)
      \<and> msg_timestamp (join_at 9 ''b'' 2) \<le> msg_timestamp (join_at 4 ''a'' 1)"
    by (cases ?r) auto
  then show ?thesis by simp
qed

text \<open>
  When two processes announce the same node, both orders of arrival leave the
  earlier one registered, and the manager that is shut down is that of the later one's process:
  it counts one \<open>AsyncShutdown\<close> if the later node is of its own process, and none otherwise.
\<close>

theorem duplicate_node_later_shuts_down:
  assumes "node_ok m" and "node_id (msg_attr a) = k" and "node_id (msg_attr b) = k"
    and "map_of (nodes m) k = None" and "msg_timestamp a < msg_timestamp b"
    and "msg_operate_type a = OPT_JOIN" and "msg_operate_type b = OPT_JOIN"
    and "late = of_bool (of_process (my_host_name m) (my_process_id m) (msg_attr b))"
    and "ma = Node_Dispose b (Node_Dispose a m)" and "mb = Node_Dispose a (Node_Dispose b m)"
  shows "map_of (nodes ma) k = Some (node_role a) \<and> map_of (nodes mb) k = Some (node_role a) \<and>
         async_shutdowns ma = async_shutdowns m + late \<and> async_shutdowns mb = async_shutdowns m + late"
proof -
  have fresh: "Node_DisposeJoin x m = m\<lparr>nodes := AList.update k (node_role x) (nodes m)\<rparr>"
    if "node_id (msg_attr x) = k" for x
    using that assms(4) by (simp add: Node_DisposeJoin_def sv_Add_def Let_def)
  have early: "IsEarlierThan (node_role a) (node_role b)" "\<not> IsEarlierThan (node_role b) (node_role a)"
    using assms(5) by (auto simp: IsEarlierThan_def node_role_def)
  have second: "map_of (nodes (Node_DisposeJoin x n)) k = Some (if IsEarlierThan (node_role x) e then node_role x else e) \<and>
      async_shutdowns (Node_DisposeJoin x n) = async_shutdowns n +
        of_bool (of_process (my_host_name n) (my_process_id n)
                   (attributes (if IsEarlierThan (node_role x) e then e else node_role x)))"
    if "node_id (msg_attr x) = k" "map_of (nodes n) k = Some e" for x e n
    using that by (auto simp: Node_DisposeJoin_def sv_Add_def sv_find_key_def Let_def update_conv' of_process_def)
  let ?a = "Notify a (Node_DisposeJoin a m)" and ?b = "Notify b (Node_DisposeJoin b m)"
  have n: "map_of (nodes ?a) k = Some (node_role a)" "map_of (nodes ?b) k = Some (node_role b)"
    "my_host_name ?a = my_host_name m" "my_process_id ?a = my_process_id m"
    "async_shutdowns (Node_DisposeJoin a m) = async_shutdowns m"
    "my_host_name ?b = my_host_name m" "my_process_id ?b = my_process_id m"
    "async_shutdowns (Node_DisposeJoin b m) = async_shutdowns m"
    by (simp_all add: fresh assms(2,3) update_conv' Notify_def)
  show ?thesis
    using second [OF assms(3) n(1)] second [OF assms(2) n(2)] early
    by (simp add: assms(6-10) Node_Dispose_def n)
qed

theorem duplicate_node_later_shuts_down_witness:
  "async_shutdowns (Node_Dispose (join_at 9 ''b'' 2) (Node_Dispose (join_at 4 ''a'' 1) (new_node_manager ''b'' 2))) = 1"
proof -
  let ?m = "new_node_manager ''b'' 2"
  have "map_of (nodes ?m) 7 = None" by (simp add: new_node_manager_def manager.defs)
  from duplicate_node_later_shuts_down [where a = "join_at 4 ''a'' 1" and b = "join_at 9 ''b'' 2",
      OF new_node_manager_ok join_at_fields(3) join_at_fields(3) this _ join_at_fields(2) join_at_fields(2)
      refl refl refl]
  show ?thesis by (simp add: new_node_manager_def new_manager_def manager.defs)
qed

section \<open>Services\<close>

definition service_table :: "service_manager \<Rightarrow> role set" where
  "service_table m = snd ` set (servers m) \<union> snd ` set (clients m)"

definition service_ok :: "service_manager \<Rightarrow> bool" where
  "service_ok m \<longleftrightarrow> sv_ok (servers m) \<and> (\<forall>(k, q) \<in> set (servers m). k = service_id (attributes q)) \<and>
     (\<forall>(k, q) \<in> set (clients m). k = service_id (attributes q)) \<and>
     (\<forall>(k, q) \<in> set (clients m). host_name_of (attributes q) \<noteq> None \<and> process_id_of (attributes q) \<noteq> None)"

definition from_a_process :: "change_msg \<Rightarrow> bool" where
  "from_a_process msg \<longleftrightarrow> host_name_of (msg_attr msg) \<noteq> None \<and> process_id_of (msg_attr msg) \<noteq> None"

lemma service_fold_Notify [simp]:
  "servers (fold Notify msgs m) = servers m" "clients (fold Notify msgs m) = clients m" for m :: service_manager
  by (induction msgs arbitrary: m) (simp_all add: Notify_def)

lemma service_role_attributes [simp]: "attributes (service_role msg) = msg_attr msg"
  by (simp add: service_role_def)

lemma Service_dispose:
  assumes ok: "service_ok m" and msg: "from_a_process msg"
  shows "service_ok (Service_Dispose msg m)"
    and "q \<in> service_table (Service_Dispose msg m) \<Longrightarrow>
      q \<in> service_table m \<or> msg_operate_type msg = OPT_JOIN \<and> attributes q = msg_attr msg"
proof -
  let ?k = "service_id (msg_attr msg)" and ?r = "service_role msg"
  have sv: "sv_ok (servers m)" using ok by (simp add: service_ok_def)
  have s: "servers (Service_Dispose msg m) =
      (if msg_role_type msg = ROLE_SERVER then
         (if msg_operate_type msg = OPT_JOIN then AList.update ?k ?r (servers m) else AList.delete ?k (servers m))
       else servers m)"
    by (simp add: Service_Dispose_def Service_DisposeJoin_def Service_DisposeLeave_def Let_def sv_Add_def sv_Remove_key_def)
  have c: "set (clients (Service_Dispose msg m)) \<subseteq>
      set (clients m) \<union> (if msg_operate_type msg = OPT_JOIN then {(?k, ?r)} else {})"
    by (auto simp: Service_Dispose_def Service_DisposeJoin_def Service_DisposeLeave_def Let_def mv_Add_def
        mv_Remove_role_def erase_in_range_filter split: if_splits)
  have sset: "set (servers (Service_Dispose msg m)) \<subseteq>
      set (servers m) \<union> (if msg_operate_type msg = OPT_JOIN then {(?k, ?r)} else {})"
    unfolding s using sv_Add_set [OF sv, of ?k ?r] by (auto simp: set_delete)
  have "sv_ok (servers (Service_Dispose msg m))"
    unfolding s using sv by (simp add: sv_ok_def distinct_update distinct_delete)
  moreover have cs: "(j, p) \<in> set (clients (Service_Dispose msg m)) \<Longrightarrow>
      (j, p) \<in> set (clients m) \<or> msg_operate_type msg = OPT_JOIN \<and> j = ?k \<and> p = ?r" for j p
    using c by (auto split: if_splits)
  moreover have ss: "(j, p) \<in> set (servers (Service_Dispose msg m)) \<Longrightarrow>
      (j, p) \<in> set (servers m) \<or> msg_operate_type msg = OPT_JOIN \<and> j = ?k \<and> p = ?r" for j p
    using sset by (auto split: if_splits)
  ultimately show "service_ok (Service_Dispose msg m)"
    using ok msg unfolding service_ok_def from_a_process_def by fastforce
  show "q \<in> service_table m \<or> msg_operate_type msg = OPT_JOIN \<and> attributes q = msg_attr msg"
    if "q \<in> service_table (Service_Dispose msg m)"
  proof -
    from that have "\<exists>j. (j, q) \<in> set (servers (Service_Dispose msg m)) \<or> (j, q) \<in> set (clients (Service_Dispose msg m))"
      by (auto simp: service_table_def)
    then have "\<exists>j. (j, q) \<in> set (servers m) \<union> set (clients m) \<or> msg_operate_type msg = OPT_JOIN \<and> q = ?r"
      using cs ss by blast
    then show ?thesis by (force simp: service_table_def)
  qed
qed

lemma Service_module_leave:
  assumes "service_ok m"
  shows "service_ok (Service_OnTopoModuleLeave clock h p m)"
    and "is_discovery_started m \<Longrightarrow>
      service_table (Service_OnTopoModuleLeave clock h p m) = {q \<in> service_table m. \<not> of_process h p (attributes q)}"
proof -
  have ok: "sv_ok (servers m)" and keys: "\<forall>(j, q) \<in> set (servers m). j = service_id (attributes q)"
    and ckeys: "\<forall>(j, q) \<in> set (clients m). j = service_id (attributes q)"
    and cset: "\<forall>(j, q) \<in> set (clients m). host_name_of (attributes q) \<noteq> None \<and> process_id_of (attributes q) \<noteq> None"
    using assms by (simp_all add: service_ok_def)
  obtain ss where ss: "snd (sv_Search_attr_roles (process_target h p) (Some []) (servers m)) = Some ss"
    using single.found_process [OF ok] by blast
  obtain cs where cs: "snd (mv_Search_attr_roles (process_target h p) (Some []) (clients m)) = Some cs"
    using multi.found_process [OF TrueI] by blast
  let ?ss = "fold (\<lambda>r. sv_Remove_key (service_id (attributes r))) ss (servers m)"
  let ?cs = "fold (\<lambda>r. mv_Remove_role (service_id (attributes r)) r) cs (clients m)"
  have set: "set ?ss = {(j, q) \<in> set (servers m). \<not> (host_name (attributes q) = h \<and> process_id (attributes q) = p)}"
    by (rule single.remove_process_keys [OF ok ss keys sv_uniq [OF ok]])
  have ok': "sv_ok ?ss" by (rule single.remove_keys_entries [OF ok, THEN conjunct1])
  have cs': "?cs = multi.removes (map (\<lambda>r. (service_id (attributes r), r)) cs) (clients m)"
    by (simp add: multi.removes_def fold_map comp_def)
  have cset': "set ?cs = {(j, q) \<in> set (clients m). \<not> (host_name (attributes q) = h \<and> process_id (attributes q) = p)}"
    unfolding cs' by (rule multi.remove_process [OF TrueI cs ckeys cset])
  have n: "servers (Service_OnTopoModuleLeave clock h p m) = (if is_discovery_started m then ?ss else servers m)"
    "clients (Service_OnTopoModuleLeave clock h p m) = (if is_discovery_started m then ?cs else clients m)"
    by (simp_all add: Service_OnTopoModuleLeave_def ss cs)
  have sub: "set (servers (Service_OnTopoModuleLeave clock h p m)) \<subseteq> set (servers m)"
    "set (clients (Service_OnTopoModuleLeave clock h p m)) \<subseteq> set (clients m)"
    by (auto simp: n set cset')
  have "sv_ok (servers (Service_OnTopoModuleLeave clock h p m))" using ok ok' by (simp add: n)
  then show "service_ok (Service_OnTopoModuleLeave clock h p m)"
    using sub keys ckeys cset unfolding service_ok_def by blast
  show "service_table (Service_OnTopoModuleLeave clock h p m) = {q \<in> service_table m. \<not> of_process h p (attributes q)}"
    if "is_discovery_started m"
  proof -
    have "service_table (Service_OnTopoModuleLeave clock h p m) = snd ` set ?ss \<union> snd ` set ?cs"
      using that n by (simp add: service_table_def)
    also have "\<dots> = {q \<in> service_table m. \<not> of_process h p (attributes q)}"
      unfolding set cset' snd_Collect service_table_def of_process_def by blast
    finally show ?thesis .
  qed
qed

interpretation service_man: topology_manager service_ok is_discovery_started service_table Service_Dispose
  "Service_OnTopoModuleLeave clock" from_a_process
proof unfold_locales
  fix m msg q h p
  show "service_ok (Service_Dispose msg m)" if "service_ok m" "from_a_process msg"
    using Service_dispose(1) [OF that] .
  show "is_discovery_started (Service_Dispose msg m) = is_discovery_started m"
    by (simp add: Service_Dispose_def Service_DisposeJoin_def Service_DisposeLeave_def Let_def)
  show "q \<in> service_table m \<or> msg_operate_type msg = OPT_JOIN \<and> attributes q = msg_attr msg"
    if "service_ok m" "from_a_process msg" "q \<in> service_table (Service_Dispose msg m)"
    using Service_dispose(2) [OF that] .
  show "service_ok (Service_OnTopoModuleLeave clock h p m)" if "service_ok m" using Service_module_leave(1) [OF that] .
  show "is_discovery_started (Service_OnTopoModuleLeave clock h p m) = is_discovery_started m"
    by (simp add: Service_OnTopoModuleLeave_def split: option.split)
  show "service_table (Service_OnTopoModuleLeave clock h p m) = {q \<in> service_table m. \<not> of_process h p (attributes q)}"
    if "service_ok m" "is_discovery_started m"
    using Service_module_leave(2) [OF that] .
qed

text \<open>
  When a process leaves the topology, exactly its nodes, servers and clients are
  removed, and none of them is registered again before a join of that process arrives: stated of
  the nodes and of the services, after any events on a started manager whose messages name the
  process they come from.
\<close>

theorem departed_process_is_gone:
  assumes "is_discovery_started n" and "node_ok n" and "is_discovery_started s" and "service_ok s"
    and "\<forall>msg. Change msg \<in> set (es @ es') \<longrightarrow> from_a_process msg"
    and "\<forall>msg. Change msg \<in> set es' \<longrightarrow> \<not> (msg_operate_type msg = OPT_JOIN \<and> of_process h p (msg_attr msg))"
    and "N = (\<lambda>es. node_table (topo_run Node_Dispose (Node_OnTopoModuleLeave clock) es n))"
    and "S = (\<lambda>es. service_table (topo_run Service_Dispose (Service_OnTopoModuleLeave clock) es s))"
  shows "N (es @ [ModuleLeft h p]) = {q \<in> N es. \<not> of_process h p (attributes q)} \<and>
         S (es @ [ModuleLeft h p]) = {q \<in> S es. \<not> of_process h p (attributes q)} \<and>
         (\<forall>q \<in> N (es @ ModuleLeft h p # es') \<union> S (es @ ModuleLeft h p # es'). \<not> of_process h p (attributes q))"
proof -
  have any: "\<forall>msg. Change msg \<in> set (es @ es') \<longrightarrow> True" by simp
  note node = node_man.departed [OF assms(2,1) any assms(6), where clock = clock]
    and service = service_man.departed [OF assms(4,3,5,6), where clock = clock]
  show ?thesis unfolding assms(7,8) ball_Un
    by (intro conjI node service)
qed

definition server_join :: change_msg where
  "server_join =
     \<lparr>msg_timestamp = 3, msg_change_type = CHANGE_SERVICE, msg_operate_type = OPT_JOIN, msg_role_type = ROLE_SERVER,
      msg_attr = no_attributes\<lparr>host_name_of := Some ''b'', process_id_of := Some 2,
        service_name_of := Some ''map'', service_id_of := Some 5\<rparr>\<rparr>"

theorem departed_process_is_gone_witness:
  "{q \<in> service_table (topo_run Service_Dispose (Service_OnTopoModuleLeave (\<lambda>_. 0))
      [Change server_join, ModuleLeft ''b'' 2] ((new_service_manager ''a'' 1)\<lparr>is_discovery_started := True\<rparr>)).
    of_process ''b'' 2 (attributes q)} = {}"
proof -
  let ?n = "(new_node_manager ''a'' 1)\<lparr>is_discovery_started := True\<rparr>"
  let ?s = "(new_service_manager ''a'' 1)\<lparr>is_discovery_started := True\<rparr>"
  have n: "is_discovery_started ?n" "is_discovery_started ?s" by simp_all
  have ok: "node_ok ?n" "service_ok ?s"
    by (simp_all add: new_node_manager_def new_service_manager_def node_ok_def service_ok_def sv_ok_def manager.defs)
  have msgs: "\<forall>msg. Change msg \<in> set ([Change server_join] @ []) \<longrightarrow> from_a_process msg"
    by (simp add: from_a_process_def server_join_def)
  have none: "\<forall>msg. Change msg \<in> set [] \<longrightarrow>
      \<not> (msg_operate_type msg = OPT_JOIN \<and> of_process ''b'' 2 (msg_attr msg))" by simp
  from departed_process_is_gone [OF n(1) ok(1) n(2) ok(2) msgs none refl refl, of "\<lambda>_. 0", THEN conjunct2, THEN conjunct2]
  have "\<forall>q \<in> service_table (topo_run Service_Dispose (Service_OnTopoModuleLeave (\<lambda>_. 0))
      [Change server_join, ModuleLeft ''b'' 2] ?s). \<not> of_process ''b'' 2 (attributes q)"
    unfolding append_Cons append_Nil ball_Un by (rule conjunct2)
  then show ?thesis by blast
qed

end
