(* ===== verification/DiscoveryGraph.thy ===== *)
theory DiscoveryGraph
  imports Prelude "HOL-Library.AList"
begin

text \<open>
  The graph of nodes and channels, \<open>cyber/service_discovery/container/graph.cc\<close>. A vertex is a
  node name (empty: a dummy), an edge's value is a channel name. The unordered maps are
  association lists; what is proved of them does not depend on the order of their entries. Every
  public operation holds the graph's lock and is one step.
\<close>

section \<open>Vertices, edges and the graph\<close>

type_synonym vertice = string

definition IsDummy :: "vertice \<Rightarrow> bool" where
  "IsDummy v \<longleftrightarrow> v = []"

record edge =
  e_src :: vertice
  e_dst :: vertice
  e_value :: string

definition Edge_IsValid :: "edge \<Rightarrow> bool" where
  "Edge_IsValid e = (if e_value e = [] then False
                     else if IsDummy (e_src e) \<and> IsDummy (e_dst e) then False else True)"

definition Edge_GetKey :: "edge \<Rightarrow> string" where
  "Edge_GetKey e = e_value e @ ''_'' @ e_dst e"

type_synonym vertice_set = "(string \<times> vertice) list"

record related_vertices =
  rv_src :: vertice_set
  rv_dst :: vertice_set

record graph =
  edges :: "(string \<times> related_vertices) list"
  adj :: "(string \<times> vertice_set) list"

definition new_graph :: graph where
  "new_graph = \<lparr>edges = [], adj = []\<rparr>"

datatype flow_direction = UNREACHABLE | UPSTREAM | DOWNSTREAM

text \<open>\<open>map[key]\<close>, with the value-initialised element for a missing key.\<close>

definition related :: "graph \<Rightarrow> string \<Rightarrow> related_vertices" where
  "related g c = (case map_of (edges g) c of None \<Rightarrow> \<lparr>rv_src = [], rv_dst = []\<rparr> | Some rv \<Rightarrow> rv)"

definition neighbours :: "graph \<Rightarrow> string \<Rightarrow> vertice_set" where
  "neighbours g v = (case map_of (adj g) v of None \<Rightarrow> [] | Some vs \<Rightarrow> vs)"

section \<open>Inserting and deleting\<close>

definition InsertCompleteEdge :: "edge \<Rightarrow> graph \<Rightarrow> graph" where
  "InsertCompleteEdge e g =
     (let g1 = (if map_of (adj g) (e_src e) = None then g\<lparr>adj := AList.update (e_src e) [] (adj g)\<rparr> else g);
          g2 = (if map_of (adj g1) (e_dst e) = None then g1\<lparr>adj := AList.update (e_dst e) [] (adj g1)\<rparr> else g1)
      in g2\<lparr>adj := AList.update (e_src e)
               (AList.update (Edge_GetKey e) (e_dst e) (neighbours g2 (e_src e))) (adj g2)\<rparr>)"

definition DeleteCompleteEdge :: "edge \<Rightarrow> graph \<Rightarrow> graph" where
  "DeleteCompleteEdge e g =
     g\<lparr>adj := AList.update (e_src e) (AList.delete (Edge_GetKey e) (neighbours g (e_src e))) (adj g)\<rparr>"

definition InsertOutgoingEdge :: "edge \<Rightarrow> graph \<Rightarrow> graph" where
  "InsertOutgoingEdge e g =
     (let rv = related g (e_value e) in
      if map_of (rv_src rv) (e_src e) \<noteq> None then g
      else let g1 = g\<lparr>edges := AList.update (e_value e)
                          (rv\<lparr>rv_src := AList.update (e_src e) (e_src e) (rv_src rv)\<rparr>) (edges g)\<rparr>
           in fold (\<lambda>d. InsertCompleteEdge \<lparr>e_src = e_src e, e_dst = d, e_value = e_value e\<rparr>)
                (map snd (rv_dst rv)) g1)"

definition InsertIncomingEdge :: "edge \<Rightarrow> graph \<Rightarrow> graph" where
  "InsertIncomingEdge e g =
     (let rv = related g (e_value e) in
      if map_of (rv_dst rv) (e_dst e) \<noteq> None then g
      else let g1 = g\<lparr>edges := AList.update (e_value e)
                          (rv\<lparr>rv_dst := AList.update (e_dst e) (e_dst e) (rv_dst rv)\<rparr>) (edges g)\<rparr>
           in fold (\<lambda>s. InsertCompleteEdge \<lparr>e_src = s, e_dst = e_dst e, e_value = e_value e\<rparr>)
                (map snd (rv_src rv)) g1)"

definition Graph_Insert :: "edge \<Rightarrow> graph \<Rightarrow> graph" where
  "Graph_Insert e g =
     (if \<not> Edge_IsValid e then g
      else let g1 = (if map_of (edges g) (e_value e) = None
                     then g\<lparr>edges := AList.update (e_value e) \<lparr>rv_src = [], rv_dst = []\<rparr> (edges g)\<rparr> else g);
               g2 = (if \<not> IsDummy (e_src e) then InsertOutgoingEdge e g1 else g1)
           in if \<not> IsDummy (e_dst e) then InsertIncomingEdge e g2 else g2)"

definition DeleteOutgoingEdge :: "edge \<Rightarrow> graph \<Rightarrow> graph" where
  "DeleteOutgoingEdge e g =
     (let rv = related g (e_value e) in
      if map_of (rv_src rv) (e_src e) = None then g
      else let g1 = g\<lparr>edges := AList.update (e_value e)
                          (rv\<lparr>rv_src := AList.delete (e_src e) (rv_src rv)\<rparr>) (edges g)\<rparr>
           in fold (\<lambda>d. DeleteCompleteEdge \<lparr>e_src = e_src e, e_dst = d, e_value = e_value e\<rparr>)
                (map snd (rv_dst rv)) g1)"

definition DeleteIncomingEdge :: "edge \<Rightarrow> graph \<Rightarrow> graph" where
  "DeleteIncomingEdge e g =
     (let rv = related g (e_value e) in
      if map_of (rv_dst rv) (e_dst e) = None then g
      else let g1 = g\<lparr>edges := AList.update (e_value e)
                          (rv\<lparr>rv_dst := AList.delete (e_dst e) (rv_dst rv)\<rparr>) (edges g)\<rparr>
           in fold (\<lambda>s. DeleteCompleteEdge \<lparr>e_src = s, e_dst = e_dst e, e_value = e_value e\<rparr>)
                (map snd (rv_src rv)) g1)"

definition Graph_Delete :: "edge \<Rightarrow> graph \<Rightarrow> graph" where
  "Graph_Delete e g =
     (if \<not> Edge_IsValid e then g
      else if map_of (edges g) (e_value e) = None then g
      else let g1 = (if \<not> IsDummy (e_src e) then DeleteOutgoingEdge e g else g)
           in if \<not> IsDummy (e_dst e) then DeleteIncomingEdge e g1 else g1)"

definition GetNumOfEdge :: "graph \<Rightarrow> nat" where
  "GetNumOfEdge g = sum_list (map (\<lambda>it. length (snd it)) (adj g))"

section \<open>Searching\<close>

text \<open>
  The breadth-first search of \<open>LevelTraverse\<close>: the map \<open>visited\<close> is the list of the keys set to
  true. \<open>list_[key]\<close> of a vertex with no entry would insert an empty one; the vertices reached
  have entries.
\<close>

definition targets :: "graph \<Rightarrow> vertice set" where
  "targets g = (\<Union>it \<in> set (adj g). snd ` set (snd it))"

lemma finite_targets [simp]: "finite (targets g)"
  by (simp add: targets_def)

lemma snd_neighbours: "set (map snd (neighbours g v)) \<subseteq> targets g"
proof (cases "map_of (adj g) v")
  case None
  then show ?thesis by (simp add: neighbours_def)
next
  case (Some vs)
  then have "(v, vs) \<in> set (adj g)" by (rule map_of_SomeD)
  then show ?thesis using Some by (force simp: neighbours_def targets_def)
qed

definition unseen :: "graph \<times> vertice \<times> vertice list \<times> vertice list \<Rightarrow> nat" where
  "unseen s = (case s of (g, e, vs, q) \<Rightarrow> card (targets g \<union> set q - set vs))"

function level_loop :: "graph \<Rightarrow> vertice \<Rightarrow> vertice list \<Rightarrow> vertice list \<Rightarrow> bool" where
  "level_loop g end visited [] = (end \<in> set visited)"
| "level_loop g end visited (cur # unvisited) =
     (if cur \<in> set visited then level_loop g end visited unvisited
      else if cur = end then True
      else level_loop g end (cur # visited) (unvisited @ map snd (neighbours g cur)))"
  by pat_completeness auto

termination level_loop
proof (relation "measures [unseen, \<lambda>(g, e, vs, q). length q]")
  show "wf (measures [unseen, \<lambda>(g, e, vs, q). length q])" by simp
next
  fix g :: graph and e c :: vertice and vs q
  assume "c \<in> set vs"
  have "unseen (g, e, vs, q) \<le> unseen (g, e, vs, c # q)"
    unfolding unseen_def by (auto intro: card_mono)
  then show "((g, e, vs, q), (g, e, vs, c # q)) \<in> measures [unseen, \<lambda>(g, e, vs, q). length q]"
    by (auto simp: le_less)
next
  fix g :: graph and e c :: vertice and vs q
  assume c: "c \<notin> set vs"
  have "targets g \<union> set (q @ map snd (neighbours g c)) - set (c # vs) \<subset> targets g \<union> set (c # q) - set vs"
    using c snd_neighbours [of g c] by auto
  then have "unseen (g, e, c # vs, q @ map snd (neighbours g c)) < unseen (g, e, vs, c # q)"
    unfolding unseen_def prod.case by (intro psubset_card_mono) auto
  then show "((g, e, c # vs, q @ map snd (neighbours g c)), (g, e, vs, c # q))
      \<in> measures [unseen, \<lambda>(g, e, vs, q). length q]"
    by simp
qed

definition LevelTraverse :: "graph \<Rightarrow> vertice \<Rightarrow> vertice \<Rightarrow> bool" where
  "LevelTraverse g start end = level_loop g end [] [start]"

definition GetDirectionOf :: "graph \<Rightarrow> vertice \<Rightarrow> vertice \<Rightarrow> flow_direction" where
  "GetDirectionOf g lhs rhs =
     (if IsDummy lhs \<or> IsDummy rhs then UNREACHABLE
      else if map_of (adj g) lhs = None \<or> map_of (adj g) rhs = None then UNREACHABLE
      else if LevelTraverse g lhs rhs then UPSTREAM
      else if LevelTraverse g rhs lhs then DOWNSTREAM
      else UNREACHABLE)"

section \<open>The search decides reachability\<close>

definition flows :: "graph \<Rightarrow> (vertice \<times> vertice) set" where
  "flows g = {(s, d). d \<in> snd ` set (neighbours g s)}"

lemma level_loop_sound:
  "level_loop g e vs q \<Longrightarrow> e \<notin> set vs \<Longrightarrow> \<exists>c \<in> set q. (c, e) \<in> (flows g)\<^sup>*"
proof (induction g e vs q rule: level_loop.induct)
  case (1 g e vs)
  then show ?case by simp
next
  case (2 g e vs c q)
  show ?case
  proof (cases "c \<in> set vs \<or> c = e")
    case True
    then show ?thesis using 2 by (auto split: if_splits)
  next
    case False
    then obtain d where d: "d \<in> set (q @ map snd (neighbours g c))" "(d, e) \<in> (flows g)\<^sup>*"
      using 2 by auto
    show ?thesis
    proof (cases "d \<in> set q")
      case True
      with d show ?thesis by auto
    next
      case False
      with d(1) have "(c, d) \<in> flows g" by (auto simp: flows_def)
      then have "(c, e) \<in> (flows g)\<^sup>*" using d(2) by (rule converse_rtrancl_into_rtrancl)
      then show ?thesis by simp
    qed
  qed
qed

text \<open>A visited vertex that reaches the end reaches it through the queue.\<close>

lemma through_queue:
  assumes "(v, e) \<in> (flows g)\<^sup>*" "v \<in> set vs" "e \<notin> set vs"
    and "\<forall>u \<in> set vs. \<forall>d. (u, d) \<in> flows g \<longrightarrow> d \<in> set vs \<union> set q"
  shows "\<exists>c \<in> set q. (c, e) \<in> (flows g)\<^sup>*"
  using assms
proof (induction rule: converse_rtrancl_induct)
  case base
  then show ?case by simp
next
  case (step u d)
  then show ?case by (cases "d \<in> set vs") auto
qed

lemma level_loop_complete:
  assumes "c \<in> set q" "(c, e) \<in> (flows g)\<^sup>*" "e \<notin> set vs"
    and "\<forall>u \<in> set vs. \<forall>d. (u, d) \<in> flows g \<longrightarrow> d \<in> set vs \<union> set q"
  shows "level_loop g e vs q"
  using assms
proof (induction g e vs q arbitrary: c rule: level_loop.induct)
  case (1 g e vs)
  then show ?case by simp
next
  case (2 g e vs x q)
  have closed: "\<forall>u \<in> set vs. \<forall>d. (u, d) \<in> flows g \<longrightarrow> d \<in> set vs \<union> set (x # q)" by (rule 2(6))
  show ?case
  proof (cases "x \<in> set vs")
    case True
    then have closed': "\<forall>u \<in> set vs. \<forall>d. (u, d) \<in> flows g \<longrightarrow> d \<in> set vs \<union> set q" using closed by auto
    obtain c' where "c' \<in> set q" "(c', e) \<in> (flows g)\<^sup>*"
    proof (cases "c \<in> set q")
      case True
      then show thesis using that 2(4) by blast
    next
      case False
      then have "c \<in> set vs" using 2(3) True by simp
      from through_queue [OF 2(4) this 2(5) closed'] that show thesis by blast
    qed
    from 2(1) [OF True this 2(5) closed'] True show ?thesis by simp
  next
    case new: False
    show ?thesis
    proof (cases "x = e")
      case True
      then show ?thesis using new by simp
    next
      case False
      have closed': "\<forall>u \<in> set (x # vs). \<forall>d. (u, d) \<in> flows g \<longrightarrow>
          d \<in> set (x # vs) \<union> set (q @ map snd (neighbours g x))"
        using closed by (auto simp: flows_def)
      have e: "e \<notin> set (x # vs)" using 2(5) False by simp
      obtain c' where "c' \<in> set (q @ map snd (neighbours g x))" "(c', e) \<in> (flows g)\<^sup>*"
      proof (cases "c \<in> set q")
        case True
        then show thesis using that [of c] 2(4) by simp
      next
        case False
        then have "c \<in> set (x # vs)" using 2(3) by simp
        from through_queue [OF 2(4) this e closed'] that show thesis by blast
      qed
      from 2(2) [OF new False this e closed'] new False show ?thesis by simp
    qed
  qed
qed

lemma LevelTraverse_iff: "LevelTraverse g s e \<longleftrightarrow> (s, e) \<in> (flows g)\<^sup>*"
  unfolding LevelTraverse_def
  using level_loop_sound [of g e "[]" "[s]"] level_loop_complete [of s "[s]" e g "[]"] by auto

section \<open>The graph refines who writes and who reads\<close>

text \<open>
  Abstractly the graph is two relations, the writers \<open>(channel, node)\<close> and the readers
  \<open>(channel, node)\<close>; the adjacency list is derived: node \<open>s\<close> has the entry \<open>channel_node\<close> for
  every reader \<open>node\<close> of every channel \<open>s\<close> writes. This needs the keys \<open>channel_node\<close> to be
  distinct, which node names without an underscore ensure.
\<close>

definition edge_key :: "string \<Rightarrow> vertice \<Rightarrow> string" where
  "edge_key c d = c @ ''_'' @ d"

definition entry :: "graph \<Rightarrow> vertice \<Rightarrow> string \<Rightarrow> vertice option" where
  "entry g s k = map_of (neighbours g s) k"

definition no_underscore :: "string \<Rightarrow> bool" where
  "no_underscore d \<longleftrightarrow> CHR ''_'' \<notin> set d"

lemma edge_key_inj:
  assumes "edge_key c d = edge_key c' d'" "no_underscore d" "no_underscore d'"
  shows "c = c' \<and> d = d'"
proof -
  have drop: "takeWhile (\<lambda>x. x \<noteq> CHR ''_'') (rev (edge_key b e)) = rev e" if "no_underscore e" for b e
  proof -
    have "x \<in> set (rev e) \<Longrightarrow> x \<noteq> CHR ''_''" for x using that by (auto simp: no_underscore_def)
    from takeWhile_append2 [of "rev e" "\<lambda>x. x \<noteq> CHR ''_''" "CHR ''_'' # rev b", OF this]
    show ?thesis by (simp add: edge_key_def)
  qed
  have "rev d = rev d'" using drop [OF assms(2)] drop [OF assms(3)] assms(1) by metis
  then show ?thesis using assms(1) by (simp add: edge_key_def)
qed

lemma neighbours_InsertCompleteEdge:
  "neighbours (InsertCompleteEdge \<lparr>e_src = s, e_dst = d, e_value = c\<rparr> g) v =
     (if v = s then AList.update (edge_key c d) d (neighbours g s) else neighbours g v)"
  by (auto simp: InsertCompleteEdge_def neighbours_def update_conv' Edge_GetKey_def edge_key_def Let_def
      split: option.splits)

lemma adj_dom_InsertCompleteEdge:
  "dom (map_of (adj (InsertCompleteEdge \<lparr>e_src = s, e_dst = d, e_value = c\<rparr> g))) = dom (map_of (adj g)) \<union> {s, d}"
  by (auto simp: InsertCompleteEdge_def update_conv' Let_def split: if_splits)

lemma edges_InsertCompleteEdge [simp]: "edges (InsertCompleteEdge e g) = edges g"
  by (simp add: InsertCompleteEdge_def Let_def)

lemma neighbours_DeleteCompleteEdge:
  "neighbours (DeleteCompleteEdge \<lparr>e_src = s, e_dst = d, e_value = c\<rparr> g) v =
     (if v = s then AList.delete (edge_key c d) (neighbours g s) else neighbours g v)"
  by (auto simp: DeleteCompleteEdge_def neighbours_def update_conv' Edge_GetKey_def edge_key_def)

lemma adj_dom_DeleteCompleteEdge:
  "dom (map_of (adj (DeleteCompleteEdge e g))) = dom (map_of (adj g)) \<union> {e_src e}"
  by (auto simp: DeleteCompleteEdge_def update_conv')

lemma edges_DeleteCompleteEdge [simp]: "edges (DeleteCompleteEdge e g) = edges g"
  by (simp add: DeleteCompleteEdge_def)

text \<open>The loops over the related vertices, as lists of pairs of source and destination.\<close>

definition insert_pairs :: "string \<Rightarrow> (vertice \<times> vertice) list \<Rightarrow> graph \<Rightarrow> graph" where
  "insert_pairs c ps = fold (\<lambda>(s, d). InsertCompleteEdge \<lparr>e_src = s, e_dst = d, e_value = c\<rparr>) ps"

definition delete_pairs :: "string \<Rightarrow> (vertice \<times> vertice) list \<Rightarrow> graph \<Rightarrow> graph" where
  "delete_pairs c ps = fold (\<lambda>(s, d). DeleteCompleteEdge \<lparr>e_src = s, e_dst = d, e_value = c\<rparr>) ps"

definition adj_ok :: "graph \<Rightarrow> bool" where
  "adj_ok g \<longleftrightarrow> (\<forall>s. distinct (map fst (neighbours g s))) \<and>
     (\<forall>s k d. entry g s k = Some d \<longrightarrow> {s, d} \<subseteq> dom (map_of (adj g)))"

lemma edge_key_inj_node [simp]: "edge_key c d = edge_key c d' \<longleftrightarrow> d = d'"
  by (simp add: edge_key_def)

lemma insert_pairs_props:
  "edges (insert_pairs c ps g) = edges g \<and> (adj_ok g \<longrightarrow> adj_ok (insert_pairs c ps g)) \<and>
   (\<forall>s k x. entry (insert_pairs c ps g) s k = Some x \<longleftrightarrow>
      (s, x) \<in> set ps \<and> k = edge_key c x \<or>
      entry g s k = Some x \<and> \<not> (\<exists>d. (s, d) \<in> set ps \<and> k = edge_key c d))"
proof (induction ps arbitrary: g)
  case Nil
  then show ?case by (simp add: insert_pairs_def)
next
  case (Cons p ps)
  obtain s d where p: "p = (s, d)" by (cases p)
  let ?g = "InsertCompleteEdge \<lparr>e_src = s, e_dst = d, e_value = c\<rparr> g"
  have run: "insert_pairs c (p # ps) g = insert_pairs c ps ?g" by (simp add: insert_pairs_def p)
  have e: "entry ?g s' k = (if s' = s \<and> k = edge_key c d then Some d else entry g s' k)" for s' k
    by (simp add: entry_def neighbours_InsertCompleteEdge update_conv')
  have "adj_ok ?g" if "adj_ok g"
    using that unfolding adj_ok_def e adj_dom_InsertCompleteEdge
    by (auto simp: neighbours_InsertCompleteEdge distinct_update split: if_splits)
  moreover have "(entry (insert_pairs c (p # ps) g) s' k = Some x) =
      ((s', x) \<in> set (p # ps) \<and> k = edge_key c x \<or>
       entry g s' k = Some x \<and> \<not> (\<exists>d. (s', d) \<in> set (p # ps) \<and> k = edge_key c d))" for s' k x
    using Cons.IH [of ?g] unfolding run e by (auto simp: p split: if_splits)
  ultimately show ?case using Cons.IH [of ?g] unfolding run by simp
qed

lemma delete_pairs_props:
  "edges (delete_pairs c ps g) = edges g \<and> (adj_ok g \<longrightarrow> adj_ok (delete_pairs c ps g)) \<and>
   (\<forall>s k x. entry (delete_pairs c ps g) s k = Some x \<longleftrightarrow>
      entry g s k = Some x \<and> \<not> (\<exists>d. (s, d) \<in> set ps \<and> k = edge_key c d))"
proof (induction ps arbitrary: g)
  case Nil
  then show ?case by (simp add: delete_pairs_def)
next
  case (Cons p ps)
  obtain s d where p: "p = (s, d)" by (cases p)
  let ?g = "DeleteCompleteEdge \<lparr>e_src = s, e_dst = d, e_value = c\<rparr> g"
  have run: "delete_pairs c (p # ps) g = delete_pairs c ps ?g" by (simp add: delete_pairs_def p)
  have e: "entry ?g s' k = (if s' = s \<and> k = edge_key c d then None else entry g s' k)" for s' k
    by (simp add: entry_def neighbours_DeleteCompleteEdge delete_conv')
  have "adj_ok ?g" if "adj_ok g"
    using that unfolding adj_ok_def e adj_dom_DeleteCompleteEdge
    by (auto simp: neighbours_DeleteCompleteEdge distinct_delete split: if_splits)
  moreover have "(entry (delete_pairs c (p # ps) g) s' k = Some x) =
      (entry g s' k = Some x \<and> \<not> (\<exists>d. (s', d) \<in> set (p # ps) \<and> k = edge_key c d))" for s' k x
    using Cons.IH [of ?g] unfolding run e by (auto simp: p split: if_splits)
  ultimately show ?case using Cons.IH [of ?g] unfolding run by simp
qed

definition vset_ok :: "vertice_set \<Rightarrow> bool" where
  "vset_ok vs \<longleftrightarrow> (\<forall>(k, v) \<in> set vs. k = v)"

type_synonym relation = "(string \<times> vertice) set"

definition graph_rep :: "graph \<Rightarrow> relation \<Rightarrow> relation \<Rightarrow> bool" where
  "graph_rep g W R \<longleftrightarrow> adj_ok g \<and>
     (\<forall>c. vset_ok (rv_src (related g c)) \<and> vset_ok (rv_dst (related g c)) \<and>
          fst ` set (rv_src (related g c)) = {s. (c, s) \<in> W} \<and>
          fst ` set (rv_dst (related g c)) = {d. (c, d) \<in> R}) \<and>
     (\<forall>(c, d) \<in> R. no_underscore d) \<and>
     (\<forall>s k x. entry g s k = Some x \<longleftrightarrow> (\<exists>c. k = edge_key c x \<and> (c, s) \<in> W \<and> (c, x) \<in> R))"

lemma vset_snd: "vset_ok vs \<Longrightarrow> set (map snd vs) = fst ` set vs"
  by (induction vs) (auto simp: vset_ok_def)

lemma vset_update: "vset_ok vs \<Longrightarrow> vset_ok (AList.update v v vs)"
  by (induction vs) (auto simp: vset_ok_def)

lemma vset_delete: "vset_ok vs \<Longrightarrow> vset_ok (AList.delete v vs)"
  by (auto simp: vset_ok_def AList.delete_eq)

lemma fst_update: "fst ` set (AList.update k v al) = insert k (fst ` set al)"
  by (induction al) auto

lemma fst_delete: "fst ` set (AList.delete k al) = fst ` set al - {k}"
  by (induction al) auto

lemma related_update:
  "related (g\<lparr>edges := AList.update c rv (edges g)\<rparr>) b = (if b = c then rv else related g b)"
  by (auto simp: related_def update_conv')

lemma adj_ok_edges [simp]: "adj_ok (g\<lparr>edges := E\<rparr>) = adj_ok g" "entry (g\<lparr>edges := E\<rparr>) = entry g"
  by (simp_all add: adj_ok_def entry_def neighbours_def fun_eq_iff)

lemma map_of_fst: "map_of al k = None \<longleftrightarrow> k \<notin> fst ` set al"
  by (simp add: map_of_eq_None_iff)

text \<open>
  A change of one side of one channel's vertices together with the change of the adjacency list:
  it is enough to look at the entries.
\<close>

lemma graph_rep_change:
  assumes rep: "graph_rep g W R" and ed: "edges g' = AList.update c rv (edges g)" and adj: "adj_ok g'"
    and vs: "vset_ok (rv_src rv)" "vset_ok (rv_dst rv)"
    and W': "\<And>b s. (b, s) \<in> W' \<longleftrightarrow> (if b = c then s \<in> fst ` set (rv_src rv) else (b, s) \<in> W)"
    and R': "\<And>b d. (b, d) \<in> R' \<longleftrightarrow> (if b = c then d \<in> fst ` set (rv_dst rv) else (b, d) \<in> R)"
    and names: "\<And>d. d \<in> fst ` set (rv_dst rv) \<Longrightarrow> no_underscore d"
    and en: "\<And>s k x. entry g' s k = Some x \<longleftrightarrow> (\<exists>b. k = edge_key b x \<and> (b, s) \<in> W' \<and> (b, x) \<in> R')"
  shows "graph_rep g' W' R'"
proof -
  have rel: "related g' b = (if b = c then rv else related g b)" for b
    by (simp add: related_def ed update_conv')
  have 1: "vset_ok (rv_src (related g' b)) \<and> vset_ok (rv_dst (related g' b)) \<and>
      fst ` set (rv_src (related g' b)) = {s. (b, s) \<in> W'} \<and>
      fst ` set (rv_dst (related g' b)) = {d. (b, d) \<in> R'}" for b
    using rep vs W' R' by (cases "b = c") (auto simp: graph_rep_def rel)
  have 2: "no_underscore d" if "(b, d) \<in> R'" for b d
    using that R' [of b d] names rep by (auto simp: graph_rep_def split: if_splits)
  have 3: "\<forall>(b, d) \<in> R'. no_underscore d" using 2 by auto
  show ?thesis unfolding graph_rep_def
    by (intro conjI allI adj 3) (use 1 in simp_all, rule en)
qed

text \<open>The entries after pairs were added, and after pairs were removed.\<close>

lemma entries_grow:
  assumes old: "\<And>s k x. E s k = Some x \<longleftrightarrow> (\<exists>b. k = edge_key b x \<and> (b, s) \<in> W \<and> (b, x) \<in> R)"
    and names: "\<And>b d. (b, d) \<in> R' \<Longrightarrow> no_underscore d"
    and new: "\<And>b s x. (b, s) \<in> W' \<and> (b, x) \<in> R' \<longleftrightarrow> (b, s) \<in> W \<and> (b, x) \<in> R \<or> b = c \<and> P s x"
  shows "(P s x \<and> k = edge_key c x \<or> E s k = Some x \<and> \<not> (\<exists>d. P s d \<and> k = edge_key c d)) \<longleftrightarrow>
     (\<exists>b. k = edge_key b x \<and> (b, s) \<in> W' \<and> (b, x) \<in> R')"
proof
  assume "P s x \<and> k = edge_key c x \<or> E s k = Some x \<and> \<not> (\<exists>d. P s d \<and> k = edge_key c d)"
  then show "\<exists>b. k = edge_key b x \<and> (b, s) \<in> W' \<and> (b, x) \<in> R'" using old new by blast
next
  assume "\<exists>b. k = edge_key b x \<and> (b, s) \<in> W' \<and> (b, x) \<in> R'"
  then obtain b where b: "k = edge_key b x" "(b, s) \<in> W'" "(b, x) \<in> R'" by blast
  show "P s x \<and> k = edge_key c x \<or> E s k = Some x \<and> \<not> (\<exists>d. P s d \<and> k = edge_key c d)"
  proof (cases "b = c \<and> P s x")
    case True
    then show ?thesis using b by simp
  next
    case False
    then have "(b, s) \<in> W \<and> (b, x) \<in> R" using new b(2,3) by blast
    then have "E s k = Some x" using old b(1) by blast
    moreover have "\<not> (P s d \<and> k = edge_key c d)" for d
    proof
      assume d: "P s d \<and> k = edge_key c d"
      then have "(c, d) \<in> R'" using new by blast
      then have "b = c \<and> x = d" using edge_key_inj [of b x c d] names b d by metis
      then show False using False d by simp
    qed
    ultimately show ?thesis by blast
  qed
qed

lemma entries_shrink:
  assumes old: "\<And>s k x. E s k = Some x \<longleftrightarrow> (\<exists>b. k = edge_key b x \<and> (b, s) \<in> W \<and> (b, x) \<in> R)"
    and names: "\<And>b d. (b, d) \<in> R \<Longrightarrow> no_underscore d"
    and new: "\<And>b s x. (b, s) \<in> W' \<and> (b, x) \<in> R' \<longleftrightarrow> (b, s) \<in> W \<and> (b, x) \<in> R \<and> \<not> (b = c \<and> P s x)"
    and gone: "\<And>s d. P s d \<Longrightarrow> (c, d) \<in> R"
  shows "(E s k = Some x \<and> \<not> (\<exists>d. P s d \<and> k = edge_key c d)) \<longleftrightarrow>
     (\<exists>b. k = edge_key b x \<and> (b, s) \<in> W' \<and> (b, x) \<in> R')"
proof
  assume "E s k = Some x \<and> \<not> (\<exists>d. P s d \<and> k = edge_key c d)"
  then show "\<exists>b. k = edge_key b x \<and> (b, s) \<in> W' \<and> (b, x) \<in> R'" using old new by blast
next
  assume "\<exists>b. k = edge_key b x \<and> (b, s) \<in> W' \<and> (b, x) \<in> R'"
  then obtain b where b: "k = edge_key b x" "(b, s) \<in> W" "(b, x) \<in> R" "\<not> (b = c \<and> P s x)"
    using new by blast
  then have "E s k = Some x" using old by blast
  moreover have "\<not> (P s d \<and> k = edge_key c d)" for d
  proof
    assume d: "P s d \<and> k = edge_key c d"
    then have "b = c \<and> x = d" using edge_key_inj [of b x c d] names b gone by metis
    then show False using b(4) d by simp
  qed
  ultimately show "E s k = Some x \<and> \<not> (\<exists>d. P s d \<and> k = edge_key c d)" by blast
qed

lemma InsertOutgoing_rep:
  assumes rep: "graph_rep g W R" and "map_of (edges g) (e_value e) \<noteq> None"
  shows "graph_rep (InsertOutgoingEdge e g) (insert (e_value e, e_src e) W) R"
proof -
  let ?c = "e_value e" and ?s = "e_src e"
  define rv where "rv = related g ?c"
  have rv: "vset_ok (rv_src rv)" "vset_ok (rv_dst rv)" "fst ` set (rv_src rv) = {s. (?c, s) \<in> W}"
    "fst ` set (rv_dst rv) = {d. (?c, d) \<in> R}"
    using rep by (auto simp: graph_rep_def rv_def)
  show ?thesis
  proof (cases "map_of (rv_src rv) ?s = None")
    case False
    then have "(?c, ?s) \<in> W" using rv(3) by (auto simp: map_of_fst)
    then show ?thesis using False rep by (simp add: InsertOutgoingEdge_def rv_def Let_def insert_absorb)
  next
    case True
    let ?rv = "rv\<lparr>rv_src := AList.update ?s ?s (rv_src rv)\<rparr>"
    let ?g1 = "g\<lparr>edges := AList.update ?c ?rv (edges g)\<rparr>"
    let ?ps = "map (\<lambda>d. (?s, d)) (map snd (rv_dst rv))"
    have run: "InsertOutgoingEdge e g = insert_pairs ?c ?ps ?g1"
      using True by (simp add: InsertOutgoingEdge_def rv_def [symmetric] Let_def insert_pairs_def fold_map comp_def)
    have ps: "(s', d) \<in> set ?ps \<longleftrightarrow> s' = ?s \<and> (?c, d) \<in> R" for s' d
      using vset_snd [OF rv(2)] rv(4) by auto
    note props = insert_pairs_props [of ?c ?ps ?g1]
    show ?thesis unfolding run
    proof (rule graph_rep_change [OF rep, of _ ?c ?rv])
      show "edges (insert_pairs ?c ?ps ?g1) = AList.update ?c ?rv (edges g)" using props by simp
      show "adj_ok (insert_pairs ?c ?ps ?g1)" using props rep by (simp add: graph_rep_def)
      show "no_underscore d" if "d \<in> fst ` set (rv_dst ?rv)" for d
        using that rv(4) rep by (auto simp: graph_rep_def)
      have names: "no_underscore d" if "(b, d) \<in> R" for b d using that rep by (auto simp: graph_rep_def)
      have old: "entry g s' k = Some x \<longleftrightarrow> (\<exists>b. k = edge_key b x \<and> (b, s') \<in> W \<and> (b, x) \<in> R)" for s' k x
        using rep by (simp add: graph_rep_def)
      have new: "(b, s') \<in> insert (?c, ?s) W \<and> (b, x) \<in> R \<longleftrightarrow>
          (b, s') \<in> W \<and> (b, x) \<in> R \<or> b = ?c \<and> (s' = ?s \<and> (?c, x) \<in> R)" for b s' x by auto
      show "entry (insert_pairs ?c ?ps ?g1) s' k = Some x \<longleftrightarrow>
          (\<exists>b. k = edge_key b x \<and> (b, s') \<in> insert (?c, ?s) W \<and> (b, x) \<in> R)" for s' k x
        unfolding conjunct2 [OF conjunct2 [OF props], rule_format] ps adj_ok_edges
        by (rule entries_grow [OF old names new])
    qed (use rv in \<open>auto simp: vset_update fst_update\<close>)
  qed
qed

lemma InsertIncoming_rep:
  assumes rep: "graph_rep g W R" and nu: "no_underscore (e_dst e)"
  shows "graph_rep (InsertIncomingEdge e g) W (insert (e_value e, e_dst e) R)"
proof -
  let ?c = "e_value e" and ?d = "e_dst e"
  define rv where "rv = related g ?c"
  have rv: "vset_ok (rv_src rv)" "vset_ok (rv_dst rv)" "fst ` set (rv_src rv) = {s. (?c, s) \<in> W}"
    "fst ` set (rv_dst rv) = {d. (?c, d) \<in> R}"
    using rep by (auto simp: graph_rep_def rv_def)
  show ?thesis
  proof (cases "map_of (rv_dst rv) ?d = None")
    case False
    then have "(?c, ?d) \<in> R" using rv(4) by (auto simp: map_of_fst)
    then show ?thesis using False rep by (simp add: InsertIncomingEdge_def rv_def Let_def insert_absorb)
  next
    case True
    let ?rv = "rv\<lparr>rv_dst := AList.update ?d ?d (rv_dst rv)\<rparr>"
    let ?g1 = "g\<lparr>edges := AList.update ?c ?rv (edges g)\<rparr>"
    let ?ps = "map (\<lambda>s. (s, ?d)) (map snd (rv_src rv))"
    let ?R = "insert (?c, ?d) R"
    have run: "InsertIncomingEdge e g = insert_pairs ?c ?ps ?g1"
      using True by (simp add: InsertIncomingEdge_def rv_def [symmetric] Let_def insert_pairs_def fold_map comp_def)
    have ps: "(s', d) \<in> set ?ps \<longleftrightarrow> d = ?d \<and> (?c, s') \<in> W" for s' d
      using vset_snd [OF rv(1)] rv(3) by auto
    note props = insert_pairs_props [of ?c ?ps ?g1]
    show ?thesis unfolding run
    proof (rule graph_rep_change [OF rep, of _ ?c ?rv])
      show "edges (insert_pairs ?c ?ps ?g1) = AList.update ?c ?rv (edges g)" using props by simp
      show "adj_ok (insert_pairs ?c ?ps ?g1)" using props rep by (simp add: graph_rep_def)
      show "no_underscore d" if "d \<in> fst ` set (rv_dst ?rv)" for d
        using that rv(4) rep nu by (auto simp: graph_rep_def fst_update)
      have names: "no_underscore d" if "(b, d) \<in> ?R" for b d using that rep nu by (auto simp: graph_rep_def)
      have old: "entry g s' k = Some x \<longleftrightarrow> (\<exists>b. k = edge_key b x \<and> (b, s') \<in> W \<and> (b, x) \<in> R)" for s' k x
        using rep by (simp add: graph_rep_def)
      have new: "(b, s') \<in> W \<and> (b, x) \<in> ?R \<longleftrightarrow>
          (b, s') \<in> W \<and> (b, x) \<in> R \<or> b = ?c \<and> (x = ?d \<and> (?c, s') \<in> W)" for b s' x by auto
      show "entry (insert_pairs ?c ?ps ?g1) s' k = Some x \<longleftrightarrow>
          (\<exists>b. k = edge_key b x \<and> (b, s') \<in> W \<and> (b, x) \<in> ?R)" for s' k x
        unfolding conjunct2 [OF conjunct2 [OF props], rule_format] ps adj_ok_edges
        by (rule entries_grow [OF old names new])
    qed (use rv in \<open>auto simp: vset_update fst_update\<close>)
  qed
qed

lemma DeleteOutgoing_rep:
  assumes rep: "graph_rep g W R"
  shows "graph_rep (DeleteOutgoingEdge e g) (W - {(e_value e, e_src e)}) R"
proof -
  let ?c = "e_value e" and ?s = "e_src e"
  define rv where "rv = related g ?c"
  have rv: "vset_ok (rv_src rv)" "vset_ok (rv_dst rv)" "fst ` set (rv_src rv) = {s. (?c, s) \<in> W}"
    "fst ` set (rv_dst rv) = {d. (?c, d) \<in> R}"
    using rep by (auto simp: graph_rep_def rv_def)
  show ?thesis
  proof (cases "map_of (rv_src rv) ?s = None")
    case True
    then have "(?c, ?s) \<notin> W" using rv(3) by (auto simp: map_of_fst)
    then show ?thesis using True rep by (simp add: DeleteOutgoingEdge_def rv_def Let_def)
  next
    case False
    let ?rv = "rv\<lparr>rv_src := AList.delete ?s (rv_src rv)\<rparr>"
    let ?g1 = "g\<lparr>edges := AList.update ?c ?rv (edges g)\<rparr>"
    let ?ps = "map (\<lambda>d. (?s, d)) (map snd (rv_dst rv))"
    let ?W = "W - {(?c, ?s)}"
    have run: "DeleteOutgoingEdge e g = delete_pairs ?c ?ps ?g1"
      using False by (auto simp: DeleteOutgoingEdge_def rv_def [symmetric] Let_def delete_pairs_def fold_map comp_def)
    have ps: "(s', d) \<in> set ?ps \<longleftrightarrow> s' = ?s \<and> (?c, d) \<in> R" for s' d
      using vset_snd [OF rv(2)] rv(4) by auto
    note props = delete_pairs_props [of ?c ?ps ?g1]
    show ?thesis unfolding run
    proof (rule graph_rep_change [OF rep, of _ ?c ?rv])
      show "edges (delete_pairs ?c ?ps ?g1) = AList.update ?c ?rv (edges g)" using props by simp
      show "adj_ok (delete_pairs ?c ?ps ?g1)" using props rep by (simp add: graph_rep_def)
      show "no_underscore d" if "d \<in> fst ` set (rv_dst ?rv)" for d
        using that rv(4) rep by (auto simp: graph_rep_def)
      have names: "no_underscore d" if "(b, d) \<in> R" for b d using that rep by (auto simp: graph_rep_def)
      have old: "entry g s' k = Some x \<longleftrightarrow> (\<exists>b. k = edge_key b x \<and> (b, s') \<in> W \<and> (b, x) \<in> R)" for s' k x
        using rep by (simp add: graph_rep_def)
      have new: "(b, s') \<in> ?W \<and> (b, x) \<in> R \<longleftrightarrow>
          (b, s') \<in> W \<and> (b, x) \<in> R \<and> \<not> (b = ?c \<and> (s' = ?s \<and> (?c, x) \<in> R))" for b s' x by auto
      have gone: "s' = ?s \<and> (?c, d) \<in> R \<Longrightarrow> (?c, d) \<in> R" for s' d by simp
      show "entry (delete_pairs ?c ?ps ?g1) s' k = Some x \<longleftrightarrow>
          (\<exists>b. k = edge_key b x \<and> (b, s') \<in> ?W \<and> (b, x) \<in> R)" for s' k x
        unfolding conjunct2 [OF conjunct2 [OF props], rule_format] ps adj_ok_edges
        by (rule entries_shrink [OF old names new gone])
    qed (use rv in \<open>auto simp: vset_delete fst_delete\<close>)
  qed
qed

lemma DeleteIncoming_rep:
  assumes rep: "graph_rep g W R"
  shows "graph_rep (DeleteIncomingEdge e g) W (R - {(e_value e, e_dst e)})"
proof -
  let ?c = "e_value e" and ?d = "e_dst e"
  define rv where "rv = related g ?c"
  have rv: "vset_ok (rv_src rv)" "vset_ok (rv_dst rv)" "fst ` set (rv_src rv) = {s. (?c, s) \<in> W}"
    "fst ` set (rv_dst rv) = {d. (?c, d) \<in> R}"
    using rep by (auto simp: graph_rep_def rv_def)
  show ?thesis
  proof (cases "map_of (rv_dst rv) ?d = None")
    case True
    then have "(?c, ?d) \<notin> R" using rv(4) by (auto simp: map_of_fst)
    then show ?thesis using True rep by (simp add: DeleteIncomingEdge_def rv_def Let_def)
  next
    case False
    then have mem: "(?c, ?d) \<in> R" using rv(4) by (auto simp: map_of_fst)
    let ?rv = "rv\<lparr>rv_dst := AList.delete ?d (rv_dst rv)\<rparr>"
    let ?g1 = "g\<lparr>edges := AList.update ?c ?rv (edges g)\<rparr>"
    let ?ps = "map (\<lambda>s. (s, ?d)) (map snd (rv_src rv))"
    let ?R = "R - {(?c, ?d)}"
    have run: "DeleteIncomingEdge e g = delete_pairs ?c ?ps ?g1"
      using False by (auto simp: DeleteIncomingEdge_def rv_def [symmetric] Let_def delete_pairs_def fold_map comp_def)
    have ps: "(s', d) \<in> set ?ps \<longleftrightarrow> d = ?d \<and> (?c, s') \<in> W" for s' d
      using vset_snd [OF rv(1)] rv(3) by auto
    note props = delete_pairs_props [of ?c ?ps ?g1]
    show ?thesis unfolding run
    proof (rule graph_rep_change [OF rep, of _ ?c ?rv])
      show "edges (delete_pairs ?c ?ps ?g1) = AList.update ?c ?rv (edges g)" using props by simp
      show "adj_ok (delete_pairs ?c ?ps ?g1)" using props rep by (simp add: graph_rep_def)
      show "no_underscore d" if "d \<in> fst ` set (rv_dst ?rv)" for d
        using that rv(4) rep by (auto simp: graph_rep_def fst_delete)
      have names: "no_underscore d" if "(b, d) \<in> R" for b d using that rep by (auto simp: graph_rep_def)
      have old: "entry g s' k = Some x \<longleftrightarrow> (\<exists>b. k = edge_key b x \<and> (b, s') \<in> W \<and> (b, x) \<in> R)" for s' k x
        using rep by (simp add: graph_rep_def)
      have new: "(b, s') \<in> W \<and> (b, x) \<in> ?R \<longleftrightarrow>
          (b, s') \<in> W \<and> (b, x) \<in> R \<and> \<not> (b = ?c \<and> (x = ?d \<and> (?c, s') \<in> W))" for b s' x by auto
      have gone: "d = ?d \<and> (?c, s') \<in> W \<Longrightarrow> (?c, d) \<in> R" for s' d using mem by simp
      show "entry (delete_pairs ?c ?ps ?g1) s' k = Some x \<longleftrightarrow>
          (\<exists>b. k = edge_key b x \<and> (b, s') \<in> W \<and> (b, x) \<in> ?R)" for s' k x
        unfolding conjunct2 [OF conjunct2 [OF props], rule_format] ps adj_ok_edges
        by (rule entries_shrink [OF old names new gone])
    qed (use rv in \<open>auto simp: vset_delete fst_delete\<close>)
  qed
qed

text \<open>What the public operations do to the two relations.\<close>

datatype graph_op = Insert edge | Delete edge

definition apply_op :: "graph_op \<Rightarrow> graph \<Rightarrow> graph" where
  "apply_op oper g = (case oper of Insert e \<Rightarrow> Graph_Insert e g | Delete e \<Rightarrow> Graph_Delete e g)"

definition out_of :: "edge \<Rightarrow> relation" where
  "out_of e = (if Edge_IsValid e \<and> e_src e \<noteq> [] then {(e_value e, e_src e)} else {})"

definition into :: "edge \<Rightarrow> relation" where
  "into e = (if Edge_IsValid e \<and> e_dst e \<noteq> [] then {(e_value e, e_dst e)} else {})"

fun abs_op :: "graph_op \<Rightarrow> relation \<times> relation \<Rightarrow> relation \<times> relation" where
  "abs_op (Insert e) (W, R) = (W \<union> out_of e, R \<union> into e)"
| "abs_op (Delete e) (W, R) = (W - out_of e, R - into e)"

lemma graph_rep_new_edge:
  assumes "graph_rep g W R" "map_of (edges g) c = None"
  shows "graph_rep (g\<lparr>edges := AList.update c \<lparr>rv_src = [], rv_dst = []\<rparr> (edges g)\<rparr>) W R"
proof -
  have "related (g\<lparr>edges := AList.update c \<lparr>rv_src = [], rv_dst = []\<rparr> (edges g)\<rparr>) b = related g b" for b
    using assms(2) by (simp add: related_update) (simp add: related_def)
  then show ?thesis using assms(1) by (simp add: graph_rep_def)
qed

lemma Graph_Insert_rep:
  assumes "graph_rep g W R" "no_underscore (e_dst e)"
  shows "graph_rep (Graph_Insert e g) (W \<union> out_of e) (R \<union> into e)"
proof (cases "Edge_IsValid e")
  case False
  then show ?thesis using assms by (simp add: Graph_Insert_def out_of_def into_def)
next
  case valid: True
  define g1 where "g1 = (if map_of (edges g) (e_value e) = None
      then g\<lparr>edges := AList.update (e_value e) \<lparr>rv_src = [], rv_dst = []\<rparr> (edges g)\<rparr> else g)"
  have g1: "graph_rep g1 W R" "map_of (edges g1) (e_value e) \<noteq> None"
    using assms graph_rep_new_edge by (auto simp: g1_def update_conv')
  define g2 where "g2 = (if \<not> IsDummy (e_src e) then InsertOutgoingEdge e g1 else g1)"
  have g2: "graph_rep g2 (W \<union> out_of e) R"
    using g1 InsertOutgoing_rep [OF g1] valid by (auto simp: g2_def out_of_def IsDummy_def)
  have "Graph_Insert e g = (if \<not> IsDummy (e_dst e) then InsertIncomingEdge e g2 else g2)"
    using valid by (simp add: Graph_Insert_def g1_def g2_def Let_def)
  then show ?thesis
    using g2 InsertIncoming_rep [OF g2 assms(2)] valid by (auto simp: into_def IsDummy_def)
qed

lemma Graph_Delete_rep:
  assumes rep: "graph_rep g W R"
  shows "graph_rep (Graph_Delete e g) (W - out_of e) (R - into e)"
proof (cases "Edge_IsValid e")
  case False
  then show ?thesis using assms by (simp add: Graph_Delete_def out_of_def into_def)
next
  case valid: True
  show ?thesis
  proof (cases "map_of (edges g) (e_value e) = None")
    case True
    then have "related g (e_value e) = \<lparr>rv_src = [], rv_dst = []\<rparr>" by (simp add: related_def)
    moreover have "fst ` set (rv_src (related g (e_value e))) = {s. (e_value e, s) \<in> W}"
      "fst ` set (rv_dst (related g (e_value e))) = {d. (e_value e, d) \<in> R}"
      using rep by (simp_all add: graph_rep_def)
    ultimately have "W - out_of e = W" "R - into e = R" by (auto simp: out_of_def into_def)
    then show ?thesis using True valid rep by (simp add: Graph_Delete_def)
  next
    case False
    define g1 where "g1 = (if \<not> IsDummy (e_src e) then DeleteOutgoingEdge e g else g)"
    have g1: "graph_rep g1 (W - out_of e) R"
      using rep DeleteOutgoing_rep [OF rep, of e] valid by (auto simp: g1_def out_of_def IsDummy_def)
    have "Graph_Delete e g = (if \<not> IsDummy (e_dst e) then DeleteIncomingEdge e g1 else g1)"
      unfolding Graph_Delete_def g1_def Let_def using valid False by auto
    then show ?thesis
      using g1 DeleteIncoming_rep [OF g1, of e] valid by (auto simp: into_def IsDummy_def)
  qed
qed

section \<open>Directions\<close>

lemma new_graph_rep [inv_intros]: "graph_rep new_graph {} {}"
  by (simp add: graph_rep_def adj_ok_def new_graph_def related_def entry_def neighbours_def vset_ok_def)

definition op_names_ok :: "graph_op \<Rightarrow> bool" where
  "op_names_ok oper = (case oper of Insert e \<Rightarrow> no_underscore (e_dst e) | Delete e \<Rightarrow> True)"

lemma graph_run_rep:
  assumes "graph_rep g W R" "\<forall>oper \<in> set ops. op_names_ok oper" "fold abs_op ops (W, R) = (W', R')"
  shows "graph_rep (fold apply_op ops g) W' R'"
  using assms
proof (induction ops arbitrary: g W R)
  case Nil
  then show ?case by simp
next
  case (Cons oper ops)
  obtain W1 R1 where a: "abs_op oper (W, R) = (W1, R1)" by (cases "abs_op oper (W, R)")
  have "graph_rep (apply_op oper g) W1 R1"
  proof (cases oper)
    case (Insert e)
    then show ?thesis using Graph_Insert_rep [OF Cons.prems(1), of e] Cons.prems(2) a
      by (simp add: apply_op_def op_names_ok_def)
  next
    case (Delete e)
    then show ?thesis using Graph_Delete_rep [OF Cons.prems(1), of e] a by (simp add: apply_op_def)
  qed
  then show ?case using Cons a by simp
qed

definition flow :: "relation \<Rightarrow> relation \<Rightarrow> (vertice \<times> vertice) set" where
  "flow W R = {(s, d). \<exists>c. (c, s) \<in> W \<and> (c, d) \<in> R}"

lemma flows_rep:
  assumes "graph_rep g W R" shows "flows g = flow W R"
proof -
  have "d \<in> snd ` set (neighbours g s) \<longleftrightarrow> (\<exists>c. (c, s) \<in> W \<and> (c, d) \<in> R)" for s d
  proof -
    have dist: "distinct (map fst (neighbours g s))" using assms by (simp add: graph_rep_def adj_ok_def)
    have "d \<in> snd ` set (neighbours g s) \<longleftrightarrow> (\<exists>k. (k, d) \<in> set (neighbours g s))" by force
    also have "\<dots> \<longleftrightarrow> (\<exists>k. entry g s k = Some d)"
      unfolding entry_def using map_of_eq_Some_iff [OF dist] by simp
    also have "\<dots> \<longleftrightarrow> (\<exists>c. (c, s) \<in> W \<and> (c, d) \<in> R)" using assms by (auto simp: graph_rep_def)
    finally show ?thesis .
  qed
  then show ?thesis by (auto simp: flows_def flow_def)
qed

lemma flow_in_adj:
  assumes "graph_rep g W R" "(s, d) \<in> flow W R"
  shows "map_of (adj g) s \<noteq> None \<and> map_of (adj g) d \<noteq> None"
proof -
  obtain c where "(c, s) \<in> W" "(c, d) \<in> R" using assms(2) unfolding flow_def by blast
  moreover have "\<forall>s k x. entry g s k = Some x \<longleftrightarrow> (\<exists>c. k = edge_key c x \<and> (c, s) \<in> W \<and> (c, x) \<in> R)"
    using assms(1) unfolding graph_rep_def by (elim conjE)
  ultimately have "entry g s (edge_key c d) = Some d" by blast
  moreover have "\<forall>s k d. entry g s k = Some d \<longrightarrow> {s, d} \<subseteq> dom (map_of (adj g))"
    using assms(1) unfolding graph_rep_def adj_ok_def by (elim conjE)
  ultimately have "{s, d} \<subseteq> dom (map_of (adj g))" by blast
  then show ?thesis by (simp add: domIff)
qed

lemma reach_in_adj:
  assumes "graph_rep g W R" "(s, d) \<in> (flow W R)\<^sup>*" "s \<noteq> d"
  shows "map_of (adj g) s \<noteq> None \<and> map_of (adj g) d \<noteq> None"
proof -
  have plus: "(s, d) \<in> (flow W R)\<^sup>+" using rtranclD [OF assms(2)] assms(3) by blast
  obtain x where "(s, x) \<in> flow W R" using tranclD [OF plus] by blast
  moreover obtain y where "(y, d) \<in> flow W R" using tranclD2 [OF plus] by blast
  ultimately show ?thesis using flow_in_adj [OF assms(1)] by blast
qed

lemma GetDirectionOf_rep:
  assumes rep: "graph_rep g W R" and "lhs \<noteq> rhs" "lhs \<noteq> []" "rhs \<noteq> []"
  shows "GetDirectionOf g lhs rhs =
     (if (lhs, rhs) \<in> (flow W R)\<^sup>* then UPSTREAM
      else if (rhs, lhs) \<in> (flow W R)\<^sup>* then DOWNSTREAM else UNREACHABLE)"
proof (cases "(lhs, rhs) \<in> (flow W R)\<^sup>* \<or> (rhs, lhs) \<in> (flow W R)\<^sup>*")
  case True
  then have "map_of (adj g) lhs \<noteq> None" "map_of (adj g) rhs \<noteq> None"
    using reach_in_adj [OF rep] assms(2) by (blast, blast)
  then have "GetDirectionOf g lhs rhs =
      (if LevelTraverse g lhs rhs then UPSTREAM
       else if LevelTraverse g rhs lhs then DOWNSTREAM else UNREACHABLE)"
    unfolding GetDirectionOf_def IsDummy_def using assms(3,4) by (simp only: simp_thms if_False)
  then show ?thesis unfolding LevelTraverse_iff flows_rep [OF rep] .
next
  case False
  then show ?thesis using assms
    unfolding GetDirectionOf_def IsDummy_def LevelTraverse_iff flows_rep [OF rep] by simp
qed



text \<open>
  With underscores in the names, two edges can share a key: below, \<open>cam\<close> writes
  \<open>a\<close> and \<open>a_b\<close>, \<open>b_c\<close> reads \<open>a\<close> and \<open>c\<close> reads \<open>a_b\<close>. When \<open>c\<close> stops reading, the graph also
  forgets that data flows from \<open>cam\<close> to \<open>b_c\<close>, which it still does.
\<close>

theorem underscore_loses_edge:
  "let ops = [Insert \<lparr>e_src = ''cam'', e_dst = ''b_c'', e_value = ''a''\<rparr>,
              Insert \<lparr>e_src = ''cam'', e_dst = ''c'', e_value = ''a_b''\<rparr>,
              Delete \<lparr>e_src = [], e_dst = ''c'', e_value = ''a_b''\<rparr>];
       (W, R) = fold abs_op ops ({}, {})
   in (''cam'', ''b_c'') \<in> flow W R \<and>
      GetDirectionOf (fold apply_op ops new_graph) ''cam'' ''b_c'' = UNREACHABLE"
proof -
  have "GetDirectionOf (fold apply_op
      [Insert \<lparr>e_src = ''cam'', e_dst = ''b_c'', e_value = ''a''\<rparr>,
       Insert \<lparr>e_src = ''cam'', e_dst = ''c'', e_value = ''a_b''\<rparr>,
       Delete \<lparr>e_src = [], e_dst = ''c'', e_value = ''a_b''\<rparr>] new_graph) ''cam'' ''b_c'' = UNREACHABLE"
    by code_simp
  moreover have "(''cam'', ''b_c'') \<in> flow {(''a'', ''cam''), (''a_b'', ''cam'')}
      ({(''a'', ''b_c''), (''a_b'', ''c'')} - {(''a_b'', ''c'')})"
    by (simp add: flow_def)
  ultimately show ?thesis
    by (simp add: Let_def out_of_def into_def Edge_IsValid_def IsDummy_def insert_commute)
qed

end
