(* ===== verification/ChannelManager.thy ===== *)
theory ChannelManager
  imports TopologyBase DiscoveryGraph
begin

text \<open>
  The manager of writers and readers
  (\<open>cyber/service_discovery/specific_manager/channel_manager.cc\<close>): four warehouses, by node and by
  channel, and the graph of the data flow between nodes. The keys of names are the arguments
  \<open>node_key\<close> and \<open>channel_key\<close> (\<open>RegisterNode\<close>, \<open>RegisterChannel\<close>); the registered descriptions
  and the type mismatches reported are kept as lists.
\<close>

section \<open>State\<close>

record channel_manager = manager +
  exempted_msg_types :: "string list"
  node_graph :: graph
  node_writers :: role_map
  node_readers :: role_map
  channel_writers :: role_map
  channel_readers :: role_map
  descriptions :: "string list"
  mismatches :: "(role_attributes \<times> role_attributes) list"

definition new_channel_manager :: "string \<Rightarrow> string \<Rightarrow> string \<Rightarrow> int \<Rightarrow> channel_manager" where
  "new_channel_manager raw_type py_type host pid =
     manager.extend
       (new_manager (push_bit (role_number ROLE_WRITER) 1 OR push_bit (role_number ROLE_READER) 1)
          CHANGE_CHANNEL host pid)
       \<lparr>exempted_msg_types = [raw_type, py_type], node_graph = new_graph, node_writers = [], node_readers = [],
        channel_writers = [], channel_readers = [], descriptions = [], mismatches = []\<rparr>"

section \<open>Queries\<close>

text \<open>
  An output vector is None when it is \<open>nullptr\<close>. The order of an unordered container is not
  specified; the names are listed by first occurrence.
\<close>

definition GetChannelNames :: "string list option \<Rightarrow> channel_manager \<Rightarrow> string list option" where
  "GetChannelNames out m =
     (case mv_GetAllRoles (mv_GetAllRoles (Some []) (channel_writers m)) (channel_readers m) of
        None \<Rightarrow> out
      | Some roles \<Rightarrow> map_option (\<lambda>cs. cs @ remdups (map (\<lambda>r. channel_name (attributes r)) roles)) out)"

definition GetProtoDesc :: "(string \<Rightarrow> u64) \<Rightarrow> string \<Rightarrow> string option \<Rightarrow> channel_manager \<Rightarrow> string option" where
  "GetProtoDesc channel_key channel out m =
     (case out of
        None \<Rightarrow> None
      | Some d \<Rightarrow>
          (case mv_find_key (channel_key channel) (channel_writers m) of
             None \<Rightarrow> Some d
           | Some w \<Rightarrow> if proto_desc_of (attributes w) \<noteq> None then Some (proto_desc (attributes w)) else Some d))"

definition GetMsgType :: "(string \<Rightarrow> u64) \<Rightarrow> string \<Rightarrow> string option \<Rightarrow> channel_manager \<Rightarrow> string option" where
  "GetMsgType channel_key channel out m =
     (case out of
        None \<Rightarrow> None
      | Some d \<Rightarrow>
          (case mv_find_key (channel_key channel) (channel_writers m) of
             None \<Rightarrow> Some d
           | Some w \<Rightarrow> if message_type_of (attributes w) \<noteq> None then Some (message_type (attributes w)) else Some d))"

definition HasWriter :: "(string \<Rightarrow> u64) \<Rightarrow> string \<Rightarrow> channel_manager \<Rightarrow> bool" where
  "HasWriter channel_key channel m = mv_Search_key (channel_key channel) (channel_writers m)"

definition GetWriters :: "role_attributes list option \<Rightarrow> channel_manager \<Rightarrow> role_attributes list option" where
  "GetWriters out m = mv_GetAllRoles_attrs out (channel_writers m)"

definition GetWritersOfNode ::
  "(string \<Rightarrow> u64) \<Rightarrow> string \<Rightarrow> role_attributes list option \<Rightarrow> channel_manager \<Rightarrow> role_attributes list option" where
  "GetWritersOfNode node_key node out m = snd (mv_Search_key_attrs (node_key node) out (node_writers m))"

definition GetWritersOfChannel ::
  "(string \<Rightarrow> u64) \<Rightarrow> string \<Rightarrow> role_attributes list option \<Rightarrow> channel_manager \<Rightarrow> role_attributes list option" where
  "GetWritersOfChannel channel_key channel out m =
     snd (mv_Search_key_attrs (channel_key channel) out (channel_writers m))"

definition HasReader :: "(string \<Rightarrow> u64) \<Rightarrow> string \<Rightarrow> channel_manager \<Rightarrow> bool" where
  "HasReader channel_key channel m = mv_Search_key (channel_key channel) (channel_readers m)"

definition GetReaders :: "role_attributes list option \<Rightarrow> channel_manager \<Rightarrow> role_attributes list option" where
  "GetReaders out m = mv_GetAllRoles_attrs out (channel_readers m)"

definition GetReadersOfNode ::
  "(string \<Rightarrow> u64) \<Rightarrow> string \<Rightarrow> role_attributes list option \<Rightarrow> channel_manager \<Rightarrow> role_attributes list option" where
  "GetReadersOfNode node_key node out m = snd (mv_Search_key_attrs (node_key node) out (node_readers m))"

definition GetReadersOfChannel ::
  "(string \<Rightarrow> u64) \<Rightarrow> string \<Rightarrow> role_attributes list option \<Rightarrow> channel_manager \<Rightarrow> role_attributes list option" where
  "GetReadersOfChannel channel_key channel out m =
     snd (mv_Search_key_attrs (channel_key channel) out (channel_readers m))"

text \<open>The attributes \<open>GetUpstreamOfNode\<close> builds, and the map by node name; later writes win.\<close>

definition node_attr :: "role_attributes \<Rightarrow> role_attributes" where
  "node_attr a = no_attributes\<lparr>host_name_of := Some (host_name a), process_id_of := Some (process_id a),
     node_name_of := Some (node_name a), node_id_of := Some (node_id a)\<rparr>"

definition collect_nodes :: "role_attributes list \<Rightarrow> (string \<times> role_attributes) list" where
  "collect_nodes as = fold (\<lambda>a ns. AList.update (node_name a) (node_attr a) ns) as []"

definition GetUpstreamOfNode ::
  "(string \<Rightarrow> u64) \<Rightarrow> (string \<Rightarrow> u64) \<Rightarrow> string \<Rightarrow> role_attributes list option \<Rightarrow> channel_manager
     \<Rightarrow> role_attributes list option"
where
  "GetUpstreamOfNode node_key channel_key node out m =
     (case out of
        None \<Rightarrow> None
      | Some us \<Rightarrow>
          (case GetReadersOfNode node_key node (Some []) m of
             None \<Rightarrow> Some us
           | Some readers \<Rightarrow>
               if readers = [] then Some us
               else let channels = remdups (map channel_name readers)
                    in case fold (\<lambda>c out. GetWritersOfChannel channel_key c out m) channels (Some []) of
                         None \<Rightarrow> Some us
                       | Some writers \<Rightarrow> Some (us @ map snd (collect_nodes writers))))"

definition GetDownstreamOfNode ::
  "(string \<Rightarrow> u64) \<Rightarrow> (string \<Rightarrow> u64) \<Rightarrow> string \<Rightarrow> role_attributes list option \<Rightarrow> channel_manager
     \<Rightarrow> role_attributes list option"
where
  "GetDownstreamOfNode node_key channel_key node out m =
     (case out of
        None \<Rightarrow> None
      | Some ds \<Rightarrow>
          (case GetWritersOfNode node_key node (Some []) m of
             None \<Rightarrow> Some ds
           | Some writers \<Rightarrow>
               if writers = [] then Some ds
               else let channels = remdups (map channel_name writers)
                    in case fold (\<lambda>c out. GetReadersOfChannel channel_key c out m) channels (Some []) of
                         None \<Rightarrow> Some ds
                       | Some readers \<Rightarrow> Some (ds @ map snd (collect_nodes readers))))"

definition GetFlowDirection :: "string \<Rightarrow> string \<Rightarrow> channel_manager \<Rightarrow> flow_direction" where
  "GetFlowDirection lhs rhs m = GetDirectionOf (node_graph m) lhs rhs"

definition IsMessageTypeMatching :: "string \<Rightarrow> string \<Rightarrow> channel_manager \<Rightarrow> bool" where
  "IsMessageTypeMatching lhs rhs m \<longleftrightarrow>
     lhs = rhs \<or> lhs \<in> set (exempted_msg_types m) \<or> rhs \<in> set (exempted_msg_types m)"

definition Channel_Check :: "role_attributes \<Rightarrow> bool" where
  "Channel_Check a \<longleftrightarrow> channel_name_of a \<noteq> None \<and> channel_id_of a \<noteq> None \<and> id_of a \<noteq> None"

section \<open>Changes\<close>

definition ScanMessageType :: "change_msg \<Rightarrow> channel_manager \<Rightarrow> channel_manager" where
  "ScanMessageType msg m =
     (let key = channel_id (msg_attr msg);
          bad = filter (\<lambda>a. \<not> IsMessageTypeMatching (message_type (msg_attr msg)) (message_type a) m);
          ws = bad (map attributes (equal_range key (channel_writers m)));
          rs = bad (map attributes (equal_range key (channel_readers m)))
      in m\<lparr>mismatches := mismatches m @ map (Pair (msg_attr msg)) (ws @ rs)\<rparr>)"

definition channel_role :: "u64 \<Rightarrow> change_msg \<Rightarrow> role" where
  "channel_role stamp msg = \<lparr>class_of = RoleWriter, attributes = msg_attr msg, timestamp_ns = stamp\<rparr>"

definition change_edge :: "change_msg \<Rightarrow> edge" where
  "change_edge msg =
     (let v = node_name (msg_attr msg) in
      \<lparr>e_src = (if msg_role_type msg = ROLE_WRITER then v else []),
       e_dst = (if msg_role_type msg = ROLE_WRITER then [] else v),
       e_value = channel_name (msg_attr msg)\<rparr>)"

definition Channel_DisposeJoin :: "change_msg \<Rightarrow> channel_manager \<Rightarrow> channel_manager" where
  "Channel_DisposeJoin msg m0 =
     (let m = ScanMessageType msg m0;
          a = msg_attr msg;
          r = channel_role (msg_timestamp msg) msg;
          m1 = (if msg_role_type msg = ROLE_WRITER then
                  m\<lparr>descriptions := (if proto_desc_of a \<noteq> None \<and> proto_desc a \<noteq> []
                                    then descriptions m @ [proto_desc a] else descriptions m),
                    node_writers := snd (mv_Add (node_id a) r True (node_writers m)),
                    channel_writers := snd (mv_Add (channel_id a) r True (channel_writers m))\<rparr>
                else
                  m\<lparr>node_readers := snd (mv_Add (node_id a) r True (node_readers m)),
                    channel_readers := snd (mv_Add (channel_id a) r True (channel_readers m))\<rparr>)
      in m1\<lparr>node_graph := Graph_Insert (change_edge msg) (node_graph m1)\<rparr>)"

definition Channel_DisposeLeave :: "change_msg \<Rightarrow> channel_manager \<Rightarrow> channel_manager" where
  "Channel_DisposeLeave msg m =
     (let a = msg_attr msg;
          r = channel_role 0 msg;
          m1 = (if msg_role_type msg = ROLE_WRITER then
                  m\<lparr>node_writers := mv_Remove_role (node_id a) r (node_writers m),
                    channel_writers := mv_Remove_role (channel_id a) r (channel_writers m)\<rparr>
                else
                  m\<lparr>node_readers := mv_Remove_role (node_id a) r (node_readers m),
                    channel_readers := mv_Remove_role (channel_id a) r (channel_readers m)\<rparr>)
      in m1\<lparr>node_graph := Graph_Delete (change_edge msg) (node_graph m1)\<rparr>)"

definition Channel_Dispose :: "change_msg \<Rightarrow> channel_manager \<Rightarrow> channel_manager" where
  "Channel_Dispose msg m =
     Notify msg (if msg_operate_type msg = OPT_JOIN then Channel_DisposeJoin msg m else Channel_DisposeLeave msg m)"

definition leave_and_notify :: "change_msg \<Rightarrow> channel_manager \<Rightarrow> channel_manager" where
  "leave_and_notify msg m = Notify msg (Channel_DisposeLeave msg m)"

definition Channel_OnTopoModuleLeave :: "(nat \<Rightarrow> u64) \<Rightarrow> string \<Rightarrow> int \<Rightarrow> channel_manager \<Rightarrow> channel_manager" where
  "Channel_OnTopoModuleLeave clock host pid m =
     (if \<not> is_discovery_started m then m
      else case (snd (mv_Search_attr_roles (process_target host pid) (Some []) (channel_writers m)),
                 snd (mv_Search_attr_roles (process_target host pid) (Some []) (channel_readers m))) of
             (Some ws, Some rs) \<Rightarrow>
               fold leave_and_notify (leave_msgs clock 0 ROLE_WRITER ws m @ leave_msgs clock (length ws) ROLE_READER rs m) m
           | _ \<Rightarrow> m)"
section \<open>The indices agree\<close>

text \<open>A message or role that names its process, its node and its channel by id.\<close>

definition complete :: "role_attributes \<Rightarrow> bool" where
  "complete a \<longleftrightarrow> host_name_of a \<noteq> None \<and> process_id_of a \<noteq> None \<and> node_id_of a \<noteq> None \<and> channel_id_of a \<noteq> None"

definition writers :: "channel_manager \<Rightarrow> role set" where
  "writers m = snd ` set (channel_writers m)"

definition readers :: "channel_manager \<Rightarrow> role set" where
  "readers m = snd ` set (channel_readers m)"

text \<open>A node index and a channel index of the same roles, each under its key.\<close>

definition agree :: "role_map \<Rightarrow> role_map \<Rightarrow> bool" where
  "agree nw cw \<longleftrightarrow>
     (\<forall>(k, q) \<in> set nw. k = node_id (attributes q)) \<and>
     (\<forall>(k, q) \<in> set cw. k = channel_id (attributes q)) \<and>
     snd ` set nw = snd ` set cw \<and>
     (\<forall>q \<in> snd ` set cw. class_of q = RoleWriter \<and> complete (attributes q))"

lemma keyed_set: "\<forall>(k, q) \<in> S. k = f q \<Longrightarrow> S = (\<lambda>q. (f q, q)) ` snd ` S"
  by force

lemma agree_Nil [simp]: "agree [] []"
  by (simp add: agree_def)

lemma agree_add:
  assumes "agree nw cw" "class_of r = RoleWriter" "complete (attributes r)"
  shows "agree (snd (mv_Add (node_id (attributes r)) r True nw)) (snd (mv_Add (channel_id (attributes r)) r True cw)) \<and>
         snd ` set (snd (mv_Add k r True cw)) = insert r (snd ` set cw)"
  using assms by (simp add: agree_def mv_Add_def)

lemma Match_keys:
  assumes "Match q a" "class_of q = RoleWriter" "complete a"
  shows "node_id (attributes q) = node_id a" "channel_id (attributes q) = channel_id a"
  using assms by (auto simp: match_defs complete_def attribute_readers)

lemma remove_by_match:
  assumes "\<forall>(k, q) \<in> set w. k = f (attributes q)" "\<forall>q \<in> snd ` set w. Match q (attributes r) \<longrightarrow> f (attributes q) = f (attributes r)"
  shows "set (mv_Remove_role (f (attributes r)) r w) = {(k, q) \<in> set w. \<not> Match q (attributes r)}"
  unfolding mv_Remove_role_def erase_in_range_filter using assms by force

lemma agree_remove:
  assumes a: "agree nw cw" and r: "complete (attributes r)"
  shows "agree (mv_Remove_role (node_id (attributes r)) r nw) (mv_Remove_role (channel_id (attributes r)) r cw)"
    and "snd ` set (mv_Remove_role (channel_id (attributes r)) r cw) = {q \<in> snd ` set cw. \<not> Match q (attributes r)}"
proof -
  have nk: "\<forall>(k, q) \<in> set nw. k = node_id (attributes q)" and ck: "\<forall>(k, q) \<in> set cw. k = channel_id (attributes q)"
    and same: "snd ` set nw = snd ` set cw"
    and q: "\<And>q. q \<in> snd ` set cw \<Longrightarrow> class_of q = RoleWriter \<and> complete (attributes q)"
    using a unfolding agree_def by blast+
  have n: "set (mv_Remove_role (node_id (attributes r)) r nw) = {(k, q) \<in> set nw. \<not> Match q (attributes r)}"
    using Match_keys(1) [OF _ _ r] q same by (intro remove_by_match [OF nk]) blast
  have c: "set (mv_Remove_role (channel_id (attributes r)) r cw) = {(k, q) \<in> set cw. \<not> Match q (attributes r)}"
    using Match_keys(2) [OF _ _ r] q by (intro remove_by_match [OF ck]) blast
  have sn: "snd ` {(k, q) \<in> set nw. \<not> Match q (attributes r)} = {q \<in> snd ` set nw. \<not> Match q (attributes r)}"
    and sc: "snd ` {(k, q) \<in> set cw. \<not> Match q (attributes r)} = {q \<in> snd ` set cw. \<not> Match q (attributes r)}"
    by auto
  show "snd ` set (mv_Remove_role (channel_id (attributes r)) r cw) = {q \<in> snd ` set cw. \<not> Match q (attributes r)}"
    unfolding c sc ..
  show "agree (mv_Remove_role (node_id (attributes r)) r nw) (mv_Remove_role (channel_id (attributes r)) r cw)"
    unfolding agree_def n c sn sc same using nk ck q by blast
qed

definition channel_ok :: "channel_manager \<Rightarrow> bool" where
  "channel_ok m \<longleftrightarrow> agree (node_writers m) (channel_writers m) \<and> agree (node_readers m) (channel_readers m)"

lemma new_channel_manager_ok [inv_intros]: "channel_ok (new_channel_manager rt pt host pid)"
  by (simp add: new_channel_manager_def channel_ok_def manager.defs)

definition complete_msg :: "change_msg \<Rightarrow> bool" where
  "complete_msg msg \<longleftrightarrow> complete (msg_attr msg)"

lemma channel_role_simps [simp]:
  "attributes (channel_role t msg) = msg_attr msg" "class_of (channel_role t msg) = RoleWriter"
  by (simp_all add: channel_role_def)

lemma Notify_channel [simp]:
  "node_writers (Notify msg m) = node_writers m" "channel_writers (Notify msg m) = channel_writers m"
  "node_readers (Notify msg m) = node_readers m" "channel_readers (Notify msg m) = channel_readers m"
  "node_graph (Notify msg m) = node_graph m" "is_discovery_started (Notify msg m) = is_discovery_started m"
  by (simp_all add: Notify_def)

lemma Channel_join:
  assumes "channel_ok m" "complete_msg msg"
  shows "channel_ok (Channel_DisposeJoin msg m)"
    and "writers (Channel_DisposeJoin msg m) =
      (if msg_role_type msg = ROLE_WRITER then insert (channel_role (msg_timestamp msg) msg) (writers m) else writers m)"
    and "readers (Channel_DisposeJoin msg m) =
      (if msg_role_type msg = ROLE_WRITER then readers m else insert (channel_role (msg_timestamp msg) msg) (readers m))"
    and "node_graph (Channel_DisposeJoin msg m) = Graph_Insert (change_edge msg) (node_graph m)"
    and "is_discovery_started (Channel_DisposeJoin msg m) = is_discovery_started m"
  using assms agree_add [of "node_writers m" "channel_writers m" "channel_role (msg_timestamp msg) msg"]
    agree_add [of "node_readers m" "channel_readers m" "channel_role (msg_timestamp msg) msg"]
  by (simp_all add: Channel_DisposeJoin_def ScanMessageType_def Let_def channel_ok_def complete_msg_def
      writers_def readers_def)

lemma Channel_leave:
  assumes "channel_ok m" "complete_msg msg"
  shows "channel_ok (Channel_DisposeLeave msg m)"
    and "writers (Channel_DisposeLeave msg m) =
      (if msg_role_type msg = ROLE_WRITER then {q \<in> writers m. \<not> Match q (msg_attr msg)} else writers m)"
    and "readers (Channel_DisposeLeave msg m) =
      (if msg_role_type msg = ROLE_WRITER then readers m else {q \<in> readers m. \<not> Match q (msg_attr msg)})"
    and "node_graph (Channel_DisposeLeave msg m) = Graph_Delete (change_edge msg) (node_graph m)"
    and "is_discovery_started (Channel_DisposeLeave msg m) = is_discovery_started m"
  using assms agree_remove [of "node_writers m" "channel_writers m" "channel_role 0 msg"]
    agree_remove [of "node_readers m" "channel_readers m" "channel_role 0 msg"]
  by (simp_all add: Channel_DisposeLeave_def Let_def channel_ok_def complete_msg_def writers_def readers_def)
text \<open>A run of leave messages, as \<open>OnTopoModuleLeave\<close> makes them.\<close>

lemma leave_and_notify_fold:
  assumes "channel_ok m" "\<forall>msg \<in> set msgs. complete_msg msg"
  shows "channel_ok (fold leave_and_notify msgs m) \<and>
    writers (fold leave_and_notify msgs m) =
      {q \<in> writers m. \<forall>msg \<in> set msgs. msg_role_type msg = ROLE_WRITER \<longrightarrow> \<not> Match q (msg_attr msg)} \<and>
    readers (fold leave_and_notify msgs m) =
      {q \<in> readers m. \<forall>msg \<in> set msgs. msg_role_type msg \<noteq> ROLE_WRITER \<longrightarrow> \<not> Match q (msg_attr msg)} \<and>
    is_discovery_started (fold leave_and_notify msgs m) = is_discovery_started m"
  using assms
proof (induction msgs arbitrary: m)
  case Nil
  then show ?case by simp
next
  case (Cons msg msgs)
  have c: "complete_msg msg" using Cons.prems(2) by simp
  note leave = Channel_leave [OF Cons.prems(1) c]
  have n: "channel_ok (leave_and_notify msg m)" "writers (leave_and_notify msg m) = writers (Channel_DisposeLeave msg m)"
    "readers (leave_and_notify msg m) = readers (Channel_DisposeLeave msg m)"
    "is_discovery_started (leave_and_notify msg m) = is_discovery_started m"
    using leave(1,5) by (simp_all add: leave_and_notify_def channel_ok_def writers_def readers_def)
  have "\<forall>msg \<in> set msgs. complete_msg msg" using Cons.prems(2) by simp
  from Cons.IH [OF n(1) this] show ?case unfolding n leave(2,3) by auto
qed

lemma leave_run_started: "is_discovery_started (fold leave_and_notify msgs m) = is_discovery_started m"
  by (induction msgs arbitrary: m) (simp_all add: leave_and_notify_def Channel_DisposeLeave_def Let_def)

definition found_roles :: "string \<Rightarrow> int \<Rightarrow> role_map \<Rightarrow> role list" where
  "found_roles h p w = map snd (filter (\<lambda>(k, r). Match r (process_target h p)) w)"

lemma search_found: "snd (mv_Search_attr_roles (process_target h p) (Some []) w) = Some (found_roles h p w)"
  by (simp add: mv_Search_attr_roles_def write_out_def collect_matching_eq found_roles_def)

lemma set_found_roles: "set (found_roles h p w) = {q \<in> snd ` set w. of_process h p (attributes q)}"
  by (force simp: found_roles_def Match_process_target of_process_def)

lemma left_behind:
  assumes "\<forall>q \<in> S. complete (attributes q)"
  shows "{q \<in> S. \<forall>a \<in> attributes ` {q \<in> S. of_process h p (attributes q)}. \<not> Match q a}
           = {q \<in> S. \<not> of_process h p (attributes q)}"
proof -
  have "of_process h p (attributes q)"
    if "r \<in> S" "of_process h p (attributes r)" "Match q (attributes r)" for q r
    using that assms Match_same_process [OF that(3)] by (auto simp: of_process_def complete_def)
  then show ?thesis using Match_self by blast
qed

definition module_leave_msgs :: "(nat \<Rightarrow> u64) \<Rightarrow> string \<Rightarrow> int \<Rightarrow> channel_manager \<Rightarrow> change_msg list" where
  "module_leave_msgs clock h p m =
     (let ws = found_roles h p (channel_writers m); rs = found_roles h p (channel_readers m)
      in leave_msgs clock 0 ROLE_WRITER ws m @ leave_msgs clock (length ws) ROLE_READER rs m)"

lemma Channel_OnTopoModuleLeave_eq:
  "Channel_OnTopoModuleLeave clock h p m =
     (if is_discovery_started m then fold leave_and_notify (module_leave_msgs clock h p m) m else m)"
  by (simp add: Channel_OnTopoModuleLeave_def search_found module_leave_msgs_def Let_def)

lemma channel_ok_complete:
  "channel_ok m \<Longrightarrow> q \<in> writers m \<union> readers m \<Longrightarrow> complete (attributes q)"
  by (auto simp: channel_ok_def agree_def writers_def readers_def)

text \<open>The leave messages name exactly the attributes of the roles of the process.\<close>

lemma module_leave_attrs:
  assumes "channel_ok m"
  shows "msg_attr ` {msg \<in> set (module_leave_msgs clock h p m). msg_role_type msg = ROLE_WRITER}
           = attributes ` {q \<in> writers m. of_process h p (attributes q)}"
    and "msg_attr ` {msg \<in> set (module_leave_msgs clock h p m). msg_role_type msg \<noteq> ROLE_WRITER}
           = attributes ` {q \<in> readers m. of_process h p (attributes q)}"
    and "\<forall>msg \<in> set (module_leave_msgs clock h p m). complete_msg msg"
proof -
  let ?ws = "found_roles h p (channel_writers m)" and ?rs = "found_roles h p (channel_readers m)"
  have ws: "set ?ws = {q \<in> writers m. of_process h p (attributes q)}"
    and rs: "set ?rs = {q \<in> readers m. of_process h p (attributes q)}"
    by (simp_all add: set_found_roles writers_def readers_def)
  have full: "\<forall>r \<in> set ?ws \<union> set ?rs. complete (attributes r)"
    using channel_ok_complete [OF assms] by (auto simp: ws rs)
  have attrs: "msg_attr ` set (leave_msgs clock n role xs m) = attributes ` set xs"
    if "\<forall>r \<in> set xs. complete (attributes r)" for n role xs
  proof -
    have "map msg_attr (leave_msgs clock n role xs m) = map attributes xs"
      using that by (intro set_leave_msgs) (simp add: complete_def)
    then have "set (map msg_attr (leave_msgs clock n role xs m)) = set (map attributes xs)" by (rule arg_cong)
    then show ?thesis by (simp only: set_map)
  qed
  let ?W = "leave_msgs clock 0 ROLE_WRITER ?ws m" and ?R = "leave_msgs clock (length ?ws) ROLE_READER ?rs m"
  have split: "set (module_leave_msgs clock h p m) = set ?W \<union> set ?R"
    by (simp add: module_leave_msgs_def Let_def)
  have "{msg \<in> set (module_leave_msgs clock h p m). msg_role_type msg = ROLE_WRITER} = set ?W"
    unfolding split using leave_msgs_types by fastforce
  then show "msg_attr ` {msg \<in> set (module_leave_msgs clock h p m). msg_role_type msg = ROLE_WRITER}
      = attributes ` {q \<in> writers m. of_process h p (attributes q)}"
    using attrs [of ?ws] full ws by simp
  have "{msg \<in> set (module_leave_msgs clock h p m). msg_role_type msg \<noteq> ROLE_WRITER} = set ?R"
    unfolding split using leave_msgs_types by fastforce
  then show "msg_attr ` {msg \<in> set (module_leave_msgs clock h p m). msg_role_type msg \<noteq> ROLE_WRITER}
      = attributes ` {q \<in> readers m. of_process h p (attributes q)}"
    using attrs [of ?rs] full rs by simp
  have "msg_attr msg \<in> attributes ` (set ?ws \<union> set ?rs)" if "msg \<in> set (module_leave_msgs clock h p m)" for msg
    using that attrs [of ?ws 0 ROLE_WRITER] attrs [of ?rs "length ?ws" ROLE_READER] full unfolding split by blast
  then show "\<forall>msg \<in> set (module_leave_msgs clock h p m). complete_msg msg"
    using full unfolding complete_msg_def by fastforce
qed

lemma Channel_module_leave:
  assumes "channel_ok m"
  shows "channel_ok (Channel_OnTopoModuleLeave clock h p m)"
    and "is_discovery_started m \<Longrightarrow>
      writers (Channel_OnTopoModuleLeave clock h p m) = {q \<in> writers m. \<not> of_process h p (attributes q)} \<and>
      readers (Channel_OnTopoModuleLeave clock h p m) = {q \<in> readers m. \<not> of_process h p (attributes q)}"
    and "is_discovery_started (Channel_OnTopoModuleLeave clock h p m) = is_discovery_started m"
proof -
  let ?msgs = "module_leave_msgs clock h p m"
  note attrs = module_leave_attrs [OF assms, of clock h p]
  note run = leave_and_notify_fold [OF assms attrs(3)]
  show "channel_ok (Channel_OnTopoModuleLeave clock h p m)"
    and "is_discovery_started (Channel_OnTopoModuleLeave clock h p m) = is_discovery_started m"
    using run assms by (simp_all add: Channel_OnTopoModuleLeave_eq)
  have full: "\<forall>q \<in> writers m. complete (attributes q)" "\<forall>q \<in> readers m. complete (attributes q)"
    using channel_ok_complete [OF assms] by blast+
  have w: "(\<forall>msg \<in> set ?msgs. msg_role_type msg = ROLE_WRITER \<longrightarrow> \<not> Match q (msg_attr msg))
      \<longleftrightarrow> (\<forall>a \<in> msg_attr ` {msg \<in> set ?msgs. msg_role_type msg = ROLE_WRITER}. \<not> Match q a)" for q
    by blast
  have r: "(\<forall>msg \<in> set ?msgs. msg_role_type msg \<noteq> ROLE_WRITER \<longrightarrow> \<not> Match q (msg_attr msg))
      \<longleftrightarrow> (\<forall>a \<in> msg_attr ` {msg \<in> set ?msgs. msg_role_type msg \<noteq> ROLE_WRITER}. \<not> Match q a)" for q
    by blast
  show "writers (Channel_OnTopoModuleLeave clock h p m) = {q \<in> writers m. \<not> of_process h p (attributes q)} \<and>
      readers (Channel_OnTopoModuleLeave clock h p m) = {q \<in> readers m. \<not> of_process h p (attributes q)}"
    if "is_discovery_started m"
    using run that unfolding w r attrs Channel_OnTopoModuleLeave_eq left_behind [OF full(1)] left_behind [OF full(2)]
    by simp
qed

interpretation channel_man: topology_manager channel_ok is_discovery_started "\<lambda>m. writers m \<union> readers m"
  Channel_Dispose "Channel_OnTopoModuleLeave clock" complete_msg
proof unfold_locales
  fix m msg q h p
  have n: "channel_ok (Notify msg m) = channel_ok m" "writers (Notify msg m) = writers m"
    "readers (Notify msg m) = readers m" for m
    by (simp_all add: channel_ok_def writers_def readers_def)
  show "channel_ok (Channel_Dispose msg m)" if "channel_ok m" "complete_msg msg"
    using Channel_join(1) [OF that] Channel_leave(1) [OF that] by (simp add: Channel_Dispose_def n)
  show "is_discovery_started (Channel_Dispose msg m) = is_discovery_started m"
    by (simp add: Channel_Dispose_def Channel_DisposeJoin_def Channel_DisposeLeave_def ScanMessageType_def Let_def)
  show "q \<in> writers m \<union> readers m \<or> msg_operate_type msg = OPT_JOIN \<and> attributes q = msg_attr msg"
    if "channel_ok m" "complete_msg msg" "q \<in> writers (Channel_Dispose msg m) \<union> readers (Channel_Dispose msg m)"
    using that(3) Channel_join(2,3) [OF that(1,2)] Channel_leave(2,3) [OF that(1,2)]
    by (auto simp: Channel_Dispose_def n split: if_splits)
  show "channel_ok (Channel_OnTopoModuleLeave clock h p m)" if "channel_ok m" using Channel_module_leave(1) [OF that] .
  show "is_discovery_started (Channel_OnTopoModuleLeave clock h p m) = is_discovery_started m"
    by (simp add: Channel_OnTopoModuleLeave_eq leave_run_started)
  show "writers (Channel_OnTopoModuleLeave clock h p m) \<union> readers (Channel_OnTopoModuleLeave clock h p m) =
      {q \<in> writers m \<union> readers m. \<not> of_process h p (attributes q)}" if "channel_ok m" "is_discovery_started m"
    using Channel_module_leave(2) [OF that] by auto
qed
text \<open>
  Property C28. After any joins, leaves and departures of processes, looking up writers or readers
  by node and by channel gives the registered ones of that node or channel: the two indices never
  disagree, as long as messages carry the ids of their process, node and channel.
\<close>

theorem channel_indices_agree:
  assumes "\<forall>msg. Change msg \<in> set es \<longrightarrow> complete_msg msg"
    and "m = topo_run Channel_Dispose (Channel_OnTopoModuleLeave clock) es
               ((new_channel_manager rt pt host pid)\<lparr>is_discovery_started := b\<rparr>)"
  shows "set (the (GetWritersOfNode nk x (Some []) m)) = {a \<in> set (the (GetWriters (Some []) m)). node_id a = nk x} \<and>
    set (the (GetWritersOfChannel ck y (Some []) m)) = {a \<in> set (the (GetWriters (Some []) m)). channel_id a = ck y} \<and>
    set (the (GetReadersOfNode nk x (Some []) m)) = {a \<in> set (the (GetReaders (Some []) m)). node_id a = nk x} \<and>
    set (the (GetReadersOfChannel ck y (Some []) m)) = {a \<in> set (the (GetReaders (Some []) m)). channel_id a = ck y}"
proof -
  have "channel_ok ((new_channel_manager rt pt host pid)\<lparr>is_discovery_started := b\<rparr>)"
    by (simp add: new_channel_manager_def channel_ok_def manager.defs)
  then have ok: "channel_ok m" unfolding assms(2) using channel_man.run_ok assms(1) by blast
  have found: "set (the (snd (mv_Search_key_attrs k (Some []) w))) = {a \<in> attributes ` snd ` set w. f a = k}"
    if "\<forall>(k, q) \<in> set w. k = f (attributes q)" for k w f
    using that by (force simp: mv_Search_key_attrs_def write_out_def equal_range_def)
  have all: "set (the (mv_GetAllRoles_attrs (Some []) w)) = attributes ` snd ` set w" for w
    by (force simp: mv_GetAllRoles_attrs_def)
  have w: "\<forall>(k, q) \<in> set (node_writers m). k = node_id (attributes q)"
    "\<forall>(k, q) \<in> set (channel_writers m). k = channel_id (attributes q)"
    "snd ` set (node_writers m) = snd ` set (channel_writers m)"
    and r: "\<forall>(k, q) \<in> set (node_readers m). k = node_id (attributes q)"
    "\<forall>(k, q) \<in> set (channel_readers m). k = channel_id (attributes q)"
    "snd ` set (node_readers m) = snd ` set (channel_readers m)"
    using ok by (simp_all add: channel_ok_def agree_def)
  show ?thesis
    unfolding GetWritersOfNode_def GetWritersOfChannel_def GetReadersOfNode_def GetReadersOfChannel_def
      GetWriters_def GetReaders_def all found [OF w(1)] found [OF w(2)] found [OF r(1)] found [OF r(2)] w(3) r(3)
    by (intro conjI refl)
qed

definition example_msg :: "operate_type \<Rightarrow> role_type \<Rightarrow> string \<Rightarrow> u64 \<Rightarrow> u64 \<Rightarrow> change_msg" where
  "example_msg opt role node nid wid =
     \<lparr>msg_timestamp = 1, msg_change_type = CHANGE_CHANNEL, msg_operate_type = opt, msg_role_type = role,
      msg_attr = no_attributes\<lparr>host_name_of := Some ''car'', process_id_of := Some (uint nid), node_name_of := Some node,
        node_id_of := Some nid, channel_name_of := Some ''/image'', channel_id_of := Some 3, id_of := Some wid\<rparr>\<rparr>"

lemma example_msg_fields [simp]:
  "msg_operate_type (example_msg opt role node nid wid) = opt"
  "msg_role_type (example_msg opt role node nid wid) = role"
  "complete_msg (example_msg opt role node nid wid)"
  "of_process h p (msg_attr (example_msg opt role node nid wid)) \<longleftrightarrow> h = ''car'' \<and> uint nid = p"
  "node_name (msg_attr (example_msg opt role node nid wid)) = node"
  "channel_name (msg_attr (example_msg opt role node nid wid)) = ''/image''"
  "node_id (msg_attr (example_msg opt role node nid wid)) = nid"
  "channel_id (msg_attr (example_msg opt role node nid wid)) = 3"
  by (auto simp: example_msg_def complete_msg_def complete_def of_process_def attribute_readers)

theorem channel_indices_agree_witness:
  "let m = topo_run Channel_Dispose (Channel_OnTopoModuleLeave (\<lambda>_. 0))
             [Change (example_msg OPT_JOIN ROLE_WRITER ''camera'' 1 10), ModuleLeft ''car'' 2]
             ((new_channel_manager [] [] ''car'' 9)\<lparr>is_discovery_started := True\<rparr>)
   in set (the (GetWritersOfNode (\<lambda>_. 1) ''camera'' (Some []) m))
        = {a \<in> set (the (GetWriters (Some []) m)). node_id a = 1}"
proof -
  let ?es = "[Change (example_msg OPT_JOIN ROLE_WRITER ''camera'' 1 10), ModuleLeft ''car'' 2]"
  have "\<forall>msg. Change msg \<in> set ?es \<longrightarrow> complete_msg msg" by simp
  from channel_indices_agree [OF this refl, where nk = "\<lambda>_. 1", THEN conjunct1]
  show ?thesis unfolding Let_def .
qed

text \<open>
  When a process leaves, exactly its writers and readers are removed, and none of
  them comes back before a join of that process.
\<close>

theorem departed_writers_are_gone:
  assumes "is_discovery_started m" and "channel_ok m"
    and "\<forall>msg. Change msg \<in> set (es @ es') \<longrightarrow> complete_msg msg"
    and "\<forall>msg. Change msg \<in> set es' \<longrightarrow> \<not> (msg_operate_type msg = OPT_JOIN \<and> of_process h p (msg_attr msg))"
    and "C = (\<lambda>es. let m' = topo_run Channel_Dispose (Channel_OnTopoModuleLeave clock) es m in writers m' \<union> readers m')"
  shows "C (es @ [ModuleLeft h p]) = {q \<in> C es. \<not> of_process h p (attributes q)} \<and>
         (\<forall>q \<in> C (es @ ModuleLeft h p # es'). \<not> of_process h p (attributes q))"
  unfolding assms(5) Let_def
  by (intro conjI channel_man.departed [OF assms(2,1,3,4)])

theorem departed_writers_are_gone_witness:
  "let m = topo_run Channel_Dispose (Channel_OnTopoModuleLeave (\<lambda>_. 0))
             [Change (example_msg OPT_JOIN ROLE_WRITER ''camera'' 1 10),
              ModuleLeft ''car'' 1,
              Change (example_msg OPT_JOIN ROLE_READER ''fusion'' 2 20)]
             ((new_channel_manager [] [] ''car'' 9)\<lparr>is_discovery_started := True\<rparr>)
   in {q \<in> writers m \<union> readers m. of_process ''car'' 1 (attributes q)} = {}"
proof -
  let ?m = "(new_channel_manager [] [] ''car'' 9)\<lparr>is_discovery_started := True\<rparr>"
  let ?es = "[Change (example_msg OPT_JOIN ROLE_WRITER ''camera'' 1 10)]"
  let ?es' = "[Change (example_msg OPT_JOIN ROLE_READER ''fusion'' 2 20)]"
  have st: "is_discovery_started ?m" by simp
  have ok: "channel_ok ?m" by (simp add: new_channel_manager_def channel_ok_def manager.defs)
  have "\<forall>msg. Change msg \<in> set (?es @ ?es') \<longrightarrow> complete_msg msg" by simp
  moreover have "\<forall>msg. Change msg \<in> set ?es' \<longrightarrow>
      \<not> (msg_operate_type msg = OPT_JOIN \<and> of_process ''car'' 1 (msg_attr msg))" by simp
  ultimately have "let m' = topo_run Channel_Dispose (Channel_OnTopoModuleLeave (\<lambda>_. 0)) (?es @ ModuleLeft ''car'' 1 # ?es') ?m
      in \<forall>q \<in> writers m' \<union> readers m'. \<not> of_process ''car'' 1 (attributes q)"
    using departed_writers_are_gone [OF st ok _ _ refl, of ?es ?es' "''car''" 1 "\<lambda>_. 0"] unfolding Let_def by blast
  then show ?thesis unfolding append_Cons append_Nil Let_def by blast
qed
section \<open>The graph follows the registered writers and readers\<close>

text \<open>
  \<open>nn\<close> and \<open>cn\<close> give the name of a node and of a channel id. A role is a link between its channel
  and its node; the graph keeps links, not roles, so it is right only while no node has two
  writers (or two readers) of one channel.
\<close>

definition link :: "role_attributes \<Rightarrow> string \<times> string" where
  "link a = (channel_name a, node_name a)"

definition links :: "role set \<Rightarrow> (string \<times> string) set" where
  "links S = (link \<circ> attributes) ` S"

definition named :: "(u64 \<Rightarrow> string) \<Rightarrow> (u64 \<Rightarrow> string) \<Rightarrow> role_attributes \<Rightarrow> bool" where
  "named nn cn a \<longleftrightarrow> node_name a = nn (node_id a) \<and> channel_name a = cn (channel_id a) \<and>
     node_name a \<noteq> [] \<and> channel_name a \<noteq> [] \<and> no_underscore (node_name a)"

definition single_links :: "role set \<Rightarrow> bool" where
  "single_links S \<longleftrightarrow>
     (\<forall>q \<in> S. \<forall>r \<in> S. link (attributes q) = link (attributes r) \<longrightarrow> attributes q = attributes r)"

definition flow_ok :: "(u64 \<Rightarrow> string) \<Rightarrow> (u64 \<Rightarrow> string) \<Rightarrow> channel_manager \<Rightarrow> bool" where
  "flow_ok nn cn m \<longleftrightarrow> channel_ok m \<and> graph_rep (node_graph m) (links (writers m)) (links (readers m)) \<and>
     (\<forall>q \<in> writers m \<union> readers m. named nn cn (attributes q)) \<and>
     single_links (writers m) \<and> single_links (readers m)"

definition side :: "role_type \<Rightarrow> channel_manager \<Rightarrow> role set" where
  "side role m = (if role = ROLE_WRITER then writers m else readers m)"

definition clean_msg :: "(u64 \<Rightarrow> string) \<Rightarrow> (u64 \<Rightarrow> string) \<Rightarrow> change_msg \<Rightarrow> channel_manager \<Rightarrow> bool" where
  "clean_msg nn cn msg m \<longleftrightarrow> complete_msg msg \<and> named nn cn (msg_attr msg) \<and>
     (\<forall>q \<in> side (msg_role_type msg) m. link (attributes q) = link (msg_attr msg) \<longrightarrow> attributes q = msg_attr msg)"

lemma change_edge_ends:
  assumes "named nn cn (msg_attr msg)"
  shows "out_of (change_edge msg) = (if msg_role_type msg = ROLE_WRITER then {link (msg_attr msg)} else {})"
    and "into (change_edge msg) = (if msg_role_type msg = ROLE_WRITER then {} else {link (msg_attr msg)})"
    and "no_underscore (e_dst (change_edge msg))"
  using assms by (auto simp: change_edge_def out_of_def into_def Edge_IsValid_def IsDummy_def link_def
      named_def Let_def no_underscore_def)

lemma links_insert: "links (insert r S) = links S \<union> {link (attributes r)}"
  by (simp add: links_def)

lemma links_remove:
  assumes "\<And>q. q \<in> S \<Longrightarrow> class_of q = RoleWriter \<and> named nn cn (attributes q)"
    and "complete a" "named nn cn a"
    and "\<And>q. q \<in> S \<Longrightarrow> link (attributes q) = link a \<Longrightarrow> attributes q = a"
  shows "links {q \<in> S. \<not> Match q a} = links S - {link a}"
proof -
  have "Match q a \<longleftrightarrow> link (attributes q) = link a" if q: "q \<in> S" for q
  proof
    assume m: "Match q a"
    then show "link (attributes q) = link a"
      using Match_keys [OF m _ assms(2)] assms(1) [OF q] assms(3) by (simp add: link_def named_def)
  next
    assume "link (attributes q) = link a"
    then show "Match q a" using assms(4) [OF q] Match_self by blast
  qed
  then show ?thesis by (auto simp: links_def)
qed

lemma channel_ok_class:
  "channel_ok m \<Longrightarrow> q \<in> writers m \<union> readers m \<Longrightarrow> class_of q = RoleWriter"
  by (auto simp: channel_ok_def agree_def writers_def readers_def)

lemma single_links_insert:
  assumes "single_links S" "\<forall>q \<in> S. link (attributes q) = link (attributes r) \<longrightarrow> attributes q = attributes r"
  shows "single_links (insert r S)"
  using assms unfolding single_links_def by (metis insert_iff)

lemma single_links_subset: "single_links S \<Longrightarrow> T \<subseteq> S \<Longrightarrow> single_links T"
  unfolding single_links_def by blast

lemma flow_ok_leave:
  assumes ok: "flow_ok nn cn m" and clean: "clean_msg nn cn msg m"
  shows "flow_ok nn cn (Channel_DisposeLeave msg m)"
proof -
  have c: "channel_ok m" "complete_msg msg" and nm: "named nn cn (msg_attr msg)"
    and rep: "graph_rep (node_graph m) (links (writers m)) (links (readers m))"
    and named: "\<And>q. q \<in> writers m \<union> readers m \<Longrightarrow> named nn cn (attributes q)"
    and one: "single_links (writers m)" "single_links (readers m)"
    using ok clean by (simp_all add: flow_ok_def clean_msg_def)
  note leave = Channel_leave [OF c] and edge = change_edge_ends [OF nm]
  have "links {q \<in> side (msg_role_type msg) m. \<not> Match q (msg_attr msg)}
      = links (side (msg_role_type msg) m) - {link (msg_attr msg)}"
  proof (rule links_remove)
    show "complete (msg_attr msg)" using c(2) by (simp add: complete_msg_def)
    show "named nn cn (msg_attr msg)" by (rule nm)
    show "class_of q = RoleWriter \<and> named nn cn (attributes q)" if "q \<in> side (msg_role_type msg) m" for q
      using that named channel_ok_class [OF c(1)] by (auto simp: side_def split: if_splits)
    show "attributes q = msg_attr msg"
      if "q \<in> side (msg_role_type msg) m" "link (attributes q) = link (msg_attr msg)" for q
      using clean that by (simp add: clean_msg_def)
  qed
  then have "links (writers (Channel_DisposeLeave msg m)) = links (writers m) - out_of (change_edge msg)"
    "links (readers (Channel_DisposeLeave msg m)) = links (readers m) - into (change_edge msg)"
    unfolding leave(2,3) edge(1,2) side_def
    by (cases "msg_role_type msg = ROLE_WRITER"; simp only: if_True if_False Diff_empty simp_thms)+
  then have "graph_rep (node_graph (Channel_DisposeLeave msg m)) (links (writers (Channel_DisposeLeave msg m)))
      (links (readers (Channel_DisposeLeave msg m)))"
    using Graph_Delete_rep [OF rep, of "change_edge msg"] unfolding leave(4) by simp
  moreover have sub: "writers (Channel_DisposeLeave msg m) \<subseteq> writers m" "readers (Channel_DisposeLeave msg m) \<subseteq> readers m"
    unfolding leave by auto
  moreover have "\<forall>q \<in> writers (Channel_DisposeLeave msg m) \<union> readers (Channel_DisposeLeave msg m). named nn cn (attributes q)"
    using named sub by (meson Un_iff subsetD)
  ultimately show ?thesis
    using leave(1) single_links_subset [OF one(1) sub(1)] single_links_subset [OF one(2) sub(2)]
    unfolding flow_ok_def by (intro conjI)
qed

lemma flow_ok_join:
  assumes ok: "flow_ok nn cn m" and clean: "clean_msg nn cn msg m"
  shows "flow_ok nn cn (Channel_DisposeJoin msg m)"
proof -
  have c: "channel_ok m" "complete_msg msg" and nm: "named nn cn (msg_attr msg)"
    and rep: "graph_rep (node_graph m) (links (writers m)) (links (readers m))"
    and named: "\<And>q. q \<in> writers m \<union> readers m \<Longrightarrow> named nn cn (attributes q)"
    and one: "single_links (writers m)" "single_links (readers m)"
    and new: "\<forall>q \<in> side (msg_role_type msg) m. link (attributes q) = link (msg_attr msg) \<longrightarrow> attributes q = msg_attr msg"
    using ok clean by (simp_all add: flow_ok_def clean_msg_def)
  note join = Channel_join [OF c] and edge = change_edge_ends [OF nm]
  have "links (writers (Channel_DisposeJoin msg m)) = links (writers m) \<union> out_of (change_edge msg)"
    "links (readers (Channel_DisposeJoin msg m)) = links (readers m) \<union> into (change_edge msg)"
    unfolding join(2,3) edge(1,2)
    by (cases "msg_role_type msg = ROLE_WRITER";
        simp only: if_True if_False links_insert Un_empty_right channel_role_simps simp_thms)+
  then have "graph_rep (node_graph (Channel_DisposeJoin msg m)) (links (writers (Channel_DisposeJoin msg m)))
      (links (readers (Channel_DisposeJoin msg m)))"
    using Graph_Insert_rep [OF rep edge(3)] unfolding join(4) by simp
  moreover have "single_links (writers (Channel_DisposeJoin msg m)) \<and> single_links (readers (Channel_DisposeJoin msg m))"
    unfolding join using one new by (auto simp: side_def intro!: single_links_insert split: if_splits)
  moreover have "\<forall>q \<in> writers (Channel_DisposeJoin msg m) \<union> readers (Channel_DisposeJoin msg m). named nn cn (attributes q)"
    unfolding join using named nm by auto
  ultimately show ?thesis using join(1) unfolding flow_ok_def by (elim conjE) (intro conjI)
qed
lemma flow_ok_Notify [simp]: "flow_ok nn cn (Notify msg m) = flow_ok nn cn m"
  by (simp add: flow_ok_def channel_ok_def writers_def readers_def)

lemma side_Notify [simp]: "side role (Notify msg m) = side role m"
  by (simp add: side_def writers_def readers_def)

lemma flow_ok_leaves:
  assumes "flow_ok nn cn m" "\<forall>msg \<in> set msgs. clean_msg nn cn msg m"
  shows "flow_ok nn cn (fold leave_and_notify msgs m)"
  using assms
proof (induction msgs arbitrary: m)
  case Nil
  then show ?case by simp
next
  case (Cons msg msgs)
  let ?m = "leave_and_notify msg m"
  have clean: "clean_msg nn cn msg m" using Cons.prems(2) by simp
  have ok: "flow_ok nn cn ?m" using flow_ok_leave [OF Cons.prems(1) clean] by (simp add: leave_and_notify_def)
  have c: "channel_ok m" "complete_msg msg" using Cons.prems(1) clean by (simp_all add: flow_ok_def clean_msg_def)
  have "side role ?m \<subseteq> side role m" for role
    unfolding leave_and_notify_def side_Notify unfolding side_def Channel_leave(2,3) [OF c] by auto
  then have "\<forall>msg \<in> set msgs. clean_msg nn cn msg ?m"
    using Cons.prems(2) unfolding clean_msg_def by (meson list.set_intros(2) subsetD)
  from Cons.IH [OF ok this] show ?case by simp
qed

lemma module_leave_clean:
  assumes ok: "flow_ok nn cn m" and msg: "msg \<in> set (module_leave_msgs clock h p m)"
  shows "clean_msg nn cn msg m"
proof -
  have c: "channel_ok m" using ok by (simp add: flow_ok_def)
  note attrs = module_leave_attrs [OF c, of clock h p]
  have "msg_attr msg \<in> attributes ` side (msg_role_type msg) m"
  proof (cases "msg_role_type msg = ROLE_WRITER")
    case True
    then have "msg_attr msg \<in> msg_attr ` {msg \<in> set (module_leave_msgs clock h p m). msg_role_type msg = ROLE_WRITER}"
      using msg by blast
    then show ?thesis unfolding attrs(1) using True by (auto simp: side_def)
  next
    case False
    then have "msg_attr msg \<in> msg_attr ` {msg \<in> set (module_leave_msgs clock h p m). msg_role_type msg \<noteq> ROLE_WRITER}"
      using msg by blast
    then show ?thesis unfolding attrs(2) using False by (auto simp: side_def)
  qed
  then obtain r where r: "r \<in> side (msg_role_type msg) m" "msg_attr msg = attributes r" by blast
  have "named nn cn (attributes r)" using ok r(1) by (auto simp: flow_ok_def side_def split: if_splits)
  moreover have "single_links (side (msg_role_type msg) m)" using ok by (auto simp: flow_ok_def side_def)
  ultimately show ?thesis using attrs(3) msg r unfolding clean_msg_def single_links_def by auto
qed

fun clean_run ::
  "(u64 \<Rightarrow> string) \<Rightarrow> (u64 \<Rightarrow> string) \<Rightarrow> (nat \<Rightarrow> u64) \<Rightarrow> topo_event list \<Rightarrow> channel_manager \<Rightarrow> bool" where
  "clean_run nn cn clock [] m = True"
| "clean_run nn cn clock (Change msg # es) m =
     (clean_msg nn cn msg m \<and> clean_run nn cn clock es (Channel_Dispose msg m))"
| "clean_run nn cn clock (ModuleLeft h p # es) m =
     clean_run nn cn clock es (Channel_OnTopoModuleLeave clock h p m)"

lemma flow_ok_run:
  assumes "flow_ok nn cn m" "clean_run nn cn clock es m"
  shows "flow_ok nn cn (topo_run Channel_Dispose (Channel_OnTopoModuleLeave clock) es m)"
  using assms
proof (induction es arbitrary: m)
  case Nil
  then show ?case by simp
next
  case (Cons e es)
  show ?case
  proof (cases e)
    case (Change msg)
    then have clean: "clean_msg nn cn msg m" and rest: "clean_run nn cn clock es (Channel_Dispose msg m)"
      using Cons.prems(2) by simp_all
    have "flow_ok nn cn (Channel_Dispose msg m)"
      using flow_ok_join [OF Cons.prems(1) clean] flow_ok_leave [OF Cons.prems(1) clean]
      by (simp add: Channel_Dispose_def)
    from Cons.IH [OF this rest] show ?thesis by (simp add: Change)
  next
    case (ModuleLeft h p)
    have "flow_ok nn cn (Channel_OnTopoModuleLeave clock h p m)"
      using flow_ok_leaves [OF Cons.prems(1)] module_leave_clean [OF Cons.prems(1)] Cons.prems(1)
      by (simp add: Channel_OnTopoModuleLeave_eq)
    from Cons.IH [OF this] Cons.prems(2) show ?thesis by (simp add: ModuleLeft)
  qed
qed

text \<open>Data flows from one node to another through a channel the first writes and the second reads.\<close>

definition node_flow :: "channel_manager \<Rightarrow> (string \<times> string) set" where
  "node_flow m =
     {(s, d). \<exists>w \<in> writers m. \<exists>r \<in> readers m. node_name (attributes w) = s \<and> node_name (attributes r) = d \<and>
        channel_name (attributes w) = channel_name (attributes r)}"

lemma flow_links: "flow (links (writers m)) (links (readers m)) = node_flow m"
  by (force simp: flow_def links_def link_def node_flow_def)

lemma new_flow_ok:
  "flow_ok nn cn ((new_channel_manager rt pt host pid)\<lparr>is_discovery_started := b\<rparr>)"
proof -
  let ?m = "(new_channel_manager rt pt host pid)\<lparr>is_discovery_started := b\<rparr>"
  have "channel_writers ?m = []" "channel_readers ?m = []" "node_writers ?m = []" "node_readers ?m = []"
    "node_graph ?m = new_graph"
    by (simp_all add: new_channel_manager_def manager.defs)
  then show ?thesis
    by (simp add: flow_ok_def channel_ok_def writers_def readers_def links_def single_links_def new_graph_rep)
qed

text \<open>
  While no node has two writers or two readers of one channel, the flow direction
  the manager reports between two nodes is what the writers and readers registered right now give:
  upstream exactly when data can flow from the first to the second, downstream exactly when only
  the other way. This holds through joins, leaves and departures of processes.
\<close>

theorem flow_direction_of_registered:
  assumes "clean_run nn cn clock es ((new_channel_manager rt pt host pid)\<lparr>is_discovery_started := b\<rparr>)"
    and "m = topo_run Channel_Dispose (Channel_OnTopoModuleLeave clock) es
               ((new_channel_manager rt pt host pid)\<lparr>is_discovery_started := b\<rparr>)"
    and "lhs \<noteq> rhs" and "lhs \<noteq> []" and "rhs \<noteq> []"
  shows "GetFlowDirection lhs rhs m =
     (if (lhs, rhs) \<in> (node_flow m)\<^sup>* then UPSTREAM
      else if (rhs, lhs) \<in> (node_flow m)\<^sup>* then DOWNSTREAM else UNREACHABLE)"
proof -
  have "flow_ok nn cn m" unfolding assms(2) by (rule flow_ok_run [OF new_flow_ok assms(1)])
  then have rep: "graph_rep (node_graph m) (links (writers m)) (links (readers m))" by (simp add: flow_ok_def)
  show ?thesis unfolding GetFlowDirection_def GetDirectionOf_rep [OF rep assms(3-5)] flow_links ..
qed
theorem flow_direction_of_registered_witness:
  "GetFlowDirection ''camera'' ''fusion''
     (topo_run Channel_Dispose (Channel_OnTopoModuleLeave (\<lambda>_. 0))
        [Change (example_msg OPT_JOIN ROLE_WRITER ''camera'' 1 10), Change (example_msg OPT_JOIN ROLE_READER ''fusion'' 2 20)]
        ((new_channel_manager [] [] ''car'' 9)\<lparr>is_discovery_started := True\<rparr>)) = UPSTREAM"
proof -
  let ?nn = "\<lambda>i. if i = 1 then ''camera'' else ''fusion''" and ?cn = "\<lambda>_. ''/image''"
  let ?w = "example_msg OPT_JOIN ROLE_WRITER ''camera'' 1 10" and ?r = "example_msg OPT_JOIN ROLE_READER ''fusion'' 2 20"
  let ?m = "(new_channel_manager [] [] ''car'' 9)\<lparr>is_discovery_started := True\<rparr>"
  let ?m1 = "Channel_Dispose ?w ?m" and ?m2 = "Channel_Dispose ?r (Channel_Dispose ?w ?m)"
  have ok: "channel_ok ?m" using new_flow_ok unfolding flow_ok_def by blast
  have e: "writers ?m = {}" "readers ?m = {}" by (simp_all add: new_channel_manager_def manager.defs writers_def readers_def)
  have n: "channel_ok (Notify msg m) = channel_ok m" "writers (Notify msg m) = writers m"
    "readers (Notify msg m) = readers m" for msg m
    by (simp_all add: channel_ok_def writers_def readers_def)
  have 1: "channel_ok ?m1" "writers ?m1 = {channel_role (msg_timestamp ?w) ?w}" "readers ?m1 = {}"
    using Channel_join [OF ok, of ?w] by (simp_all add: Channel_Dispose_def n e)
  have 2: "writers ?m2 = {channel_role (msg_timestamp ?w) ?w}" "readers ?m2 = {channel_role (msg_timestamp ?r) ?r}"
    using Channel_join [OF 1(1), of ?r] 1 by (simp_all add: Channel_Dispose_def n)
  have "clean_run ?nn ?cn (\<lambda>_. 0) [Change ?w, Change ?r] ?m"
    by (simp add: clean_msg_def side_def e 1 named_def no_underscore_def)
  note dir = flow_direction_of_registered [OF this refl, of "''camera''" "''fusion''"]
  have "(''camera'', ''fusion'') \<in> (node_flow ?m2)\<^sup>*"
    by (rule r_into_rtrancl) (simp add: node_flow_def 2)
  with dir show ?thesis by simp
qed

text \<open>
  Without that assumption the graph goes wrong: a node with two writers of a channel
  closes one, the other is still registered and still read, and the manager no longer sees any
  flow from the node to its reader.
\<close>

theorem closing_one_of_two_writers_cuts_flow:
  "let m = topo_run Channel_Dispose (Channel_OnTopoModuleLeave (\<lambda>_. 0))
        [Change (example_msg OPT_JOIN ROLE_WRITER ''camera'' 1 10),
         Change (example_msg OPT_JOIN ROLE_WRITER ''camera'' 1 11),
         Change (example_msg OPT_JOIN ROLE_READER ''fusion'' 2 20),
         Change (example_msg OPT_LEAVE ROLE_WRITER ''camera'' 1 10)]
        ((new_channel_manager [] [] ''car'' 9)\<lparr>is_discovery_started := True\<rparr>)
   in map node_name (the (GetWritersOfChannel (\<lambda>_. 3) ''/image'' (Some []) m)) = [''camera''] \<and>
      map node_name (the (GetReadersOfChannel (\<lambda>_. 3) ''/image'' (Some []) m)) = [''fusion''] \<and>
      GetFlowDirection ''camera'' ''fusion'' m = UNREACHABLE"
  by code_simp

end
