(* ===== verification/TopologyManager.thy ===== *)
theory TopologyManager
  imports NodeServiceManagers ChannelManager
begin

text \<open>
  The topology manager (\<open>cyber/service_discovery/topology_manager.cc\<close>): it learns from fast-rtps
  which participants come and go, and tells the three managers when a process has left. A
  participant's name is its host name, a plus sign and its process id.
\<close>

section \<open>Participant names\<close>

text \<open>\<open>std::to_string\<close> and \<open>std::stoi\<close> (None where it throws), on an \<open>int\<close> of 32 bits.\<close>

definition digit_char :: "nat \<Rightarrow> char" where
  "digit_char d = char_of (48 + d)"

fun nat_digits :: "nat \<Rightarrow> string" where
  "nat_digits n = (if n < 10 then [digit_char n] else nat_digits (n div 10) @ [digit_char (n mod 10)])"

definition to_string :: "int \<Rightarrow> string" where
  "to_string i = (if i < 0 then CHR ''-'' # nat_digits (nat (- i)) else nat_digits (nat i))"

definition is_space :: "char \<Rightarrow> bool" where
  "is_space c \<longleftrightarrow> (let n = of_char c :: nat in n = 32 \<or> 9 \<le> n \<and> n \<le> 13)"

definition is_digit :: "char \<Rightarrow> bool" where
  "is_digit c \<longleftrightarrow> (let n = of_char c :: nat in 48 \<le> n \<and> n \<le> 57)"

definition digit_value :: "char \<Rightarrow> int" where
  "digit_value c = int (of_char c) - 48"

definition stoi :: "string \<Rightarrow> int option" where
  "stoi s =
     (let s1 = dropWhile is_space s;
          (neg, s2) = (case s1 of
                         c # cs \<Rightarrow> if c = CHR ''-'' then (True, cs) else if c = CHR ''+'' then (False, cs) else (False, s1)
                       | [] \<Rightarrow> (False, []));
          ds = takeWhile is_digit s2;
          v = foldl (\<lambda>a c. 10 * a + digit_value c) 0 ds;
          i = (if neg then - v else v)
      in if ds = [] then None
         else if - (2 ^ 31) \<le> i \<and> i < 2 ^ 31 then Some i else None)"

definition participant_name :: "string \<Rightarrow> int \<Rightarrow> string" where
  "participant_name host pid = host @ CHR ''+'' # to_string pid"

text \<open>\<open>find('+')\<close>, then the two substrings around the first plus sign.\<close>

definition ParseParticipantName :: "string \<Rightarrow> (string \<times> int) option" where
  "ParseParticipantName name =
     (if CHR ''+'' \<notin> set name then None
      else let host = takeWhile (\<lambda>c. c \<noteq> CHR ''+'') name;
               pid_str = drop (length host + 1) name
           in map_option (Pair host) (stoi pid_str))"

section \<open>The manager\<close>

datatype rtps_status = DISCOVERED_RTPSPARTICIPANT | CHANGED_QOS_RTPSPARTICIPANT
  | REMOVED_RTPSPARTICIPANT | DROPPED_RTPSPARTICIPANT

record part_info =
  guid :: nat
  status :: rtps_status
  part_name :: string

record topology_manager =
  topo_init :: bool
  node_part :: node_manager
  channel_part :: channel_manager
  service_part :: service_manager
  participant_names :: "(nat \<times> string) list"
  change_signal :: "change_msg list"

text \<open>The message, and the manager with its table of participants' names.\<close>

definition Topo_Convert :: "u64 \<Rightarrow> part_info \<Rightarrow> topology_manager \<Rightarrow> change_msg option \<times> topology_manager" where
  "Topo_Convert now info t =
     (let (name, opt, t1) =
        (case status info of
           DISCOVERED_RTPSPARTICIPANT \<Rightarrow>
             (part_name info, OPT_JOIN,
              t\<lparr>participant_names := AList.update (guid info) (part_name info) (participant_names t)\<rparr>)
         | CHANGED_QOS_RTPSPARTICIPANT \<Rightarrow> ([], OPT_JOIN, t)
         | _ \<Rightarrow>
             (case map_of (participant_names t) (guid info) of
                Some name \<Rightarrow>
                  (name, OPT_LEAVE, t\<lparr>participant_names := AList.delete (guid info) (participant_names t)\<rparr>)
              | None \<Rightarrow> ([], OPT_LEAVE, t)))
      in (map_option (\<lambda>(host, pid).
            \<lparr>msg_timestamp = now, msg_change_type = CHANGE_PARTICIPANT, msg_operate_type = opt,
             msg_role_type = ROLE_PARTICIPANT,
             msg_attr = no_attributes\<lparr>host_name_of := Some host, process_id_of := Some pid\<rparr>\<rparr>)
            (ParseParticipantName name), t1))"

definition OnParticipantChange :: "(nat \<Rightarrow> u64) \<Rightarrow> u64 \<Rightarrow> part_info \<Rightarrow> topology_manager \<Rightarrow> topology_manager" where
  "OnParticipantChange clock now info t0 =
     (case Topo_Convert now info t0 of
        (None, t) \<Rightarrow> t
      | (Some msg, t) \<Rightarrow>
          if \<not> topo_init t then t
          else let t1 = (if msg_operate_type msg = OPT_LEAVE then
                 let host = host_name (msg_attr msg); pid = process_id (msg_attr msg)
                 in t\<lparr>node_part := Node_OnTopoModuleLeave clock host pid (node_part t),
                      channel_part := Channel_OnTopoModuleLeave clock host pid (channel_part t),
                      service_part := Service_OnTopoModuleLeave clock host pid (service_part t)\<rparr>
                 else t)
               in t1\<lparr>change_signal := change_signal t1 @ [msg]\<rparr>)"

definition Topo_Shutdown :: "topology_manager \<Rightarrow> topology_manager" where
  "Topo_Shutdown t =
     (if \<not> topo_init t then t
      else t\<lparr>topo_init := False, node_part := Shutdown (node_part t), channel_part := Shutdown (channel_part t),
             service_part := Shutdown (service_part t)\<rparr>)"

section \<open>Names parse back\<close>

lemma of_char_digit_char [simp]: "d < 10 \<Longrightarrow> (of_char (digit_char d) :: nat) = 48 + d"
  by (simp add: digit_char_def)

lemma is_digit_digit_char [simp]: "d < 10 \<Longrightarrow> is_digit (digit_char d)"
  by (simp add: is_digit_def Let_def)

lemma digit_value_digit_char [simp]: "d < 10 \<Longrightarrow> digit_value (digit_char d) = int d"
  by (simp add: digit_value_def)

declare nat_digits.simps [simp del]

lemma nat_digits_digits: "nat_digits n \<noteq> [] \<and> (\<forall>c \<in> set (nat_digits n). is_digit c)"
proof (induction n rule: nat_digits.induct)
  case (1 n)
  then show ?case by (simp add: nat_digits.simps [of n])
qed

lemma nat_digits_value: "foldl (\<lambda>a c. 10 * a + digit_value c) 0 (nat_digits n) = int n"
proof (induction n rule: nat_digits.induct)
  case (1 n)
  show ?case
  proof (cases "n < 10")
    case True
    then show ?thesis by (simp add: nat_digits.simps [of n])
  next
    case False
    have "10 * int (n div 10) + int (n mod 10) = int n" by presburger
    then show ?thesis using 1 False by (simp add: nat_digits.simps [of n])
  qed
qed

lemma digit_not: "is_digit c \<Longrightarrow> \<not> is_space c \<and> c \<noteq> CHR ''-'' \<and> c \<noteq> CHR ''+''"
  by (auto simp: is_digit_def is_space_def Let_def)

lemma stoi_nat_digits: "takeWhile is_digit (nat_digits n) = nat_digits n" "dropWhile is_space (nat_digits n) = nat_digits n"
proof -
  show "takeWhile is_digit (nat_digits n) = nat_digits n" using nat_digits_digits [of n] by simp
  have "hd (nat_digits n) \<in> set (nat_digits n)" using nat_digits_digits by simp
  then have "\<not> is_space (hd (nat_digits n))" using digit_not nat_digits_digits [of n] by blast
  then show "dropWhile is_space (nat_digits n) = nat_digits n"
    using nat_digits_digits [of n] by (cases "nat_digits n") simp_all
qed

lemma stoi_to_string:
  assumes "- (2 ^ 31) \<le> i" "i < 2 ^ 31"
  shows "stoi (to_string i) = Some i"
proof (cases "i < 0")
  case True
  have "stoi (CHR ''-'' # nat_digits (nat (- i))) = Some i"
    using True assms nat_digits_digits [of "nat (- i)"]
    by (simp add: stoi_def is_space_def stoi_nat_digits nat_digits_value Let_def)
  then show ?thesis using True by (simp add: to_string_def)
next
  case False
  obtain c cs where c: "nat_digits (nat i) = c # cs" using nat_digits_digits by (meson list.exhaust)
  then have "c \<noteq> CHR ''-''" "c \<noteq> CHR ''+''" using digit_not nat_digits_digits [of "nat i"] by auto
  then have "stoi (nat_digits (nat i)) = Some i"
    using False assms c stoi_nat_digits [of "nat i"] nat_digits_value [of "nat i"]
    by (simp add: stoi_def Let_def)
  then show ?thesis using False by (simp add: to_string_def)
qed

lemma take_host: "CHR ''+'' \<notin> set host \<Longrightarrow> takeWhile (\<lambda>c. c \<noteq> CHR ''+'') (host @ CHR ''+'' # s) = host"
  by (subst takeWhile_append2) auto

text \<open>
  The name a process gives its participant parses back to its host name and process
  id, for every host name without a plus sign and every \<open>int\<close>.
\<close>

theorem participant_name_roundtrip:
  assumes "CHR ''+'' \<notin> set host" and "- (2 ^ 31) \<le> pid" and "pid < 2 ^ 31"
  shows "ParseParticipantName (participant_name host pid) = Some (host, pid)"
  using take_host [OF assms(1)]
  by (simp add: ParseParticipantName_def participant_name_def stoi_to_string [OF assms(2,3)])

theorem participant_name_roundtrip_witness:
  "ParseParticipantName (participant_name ''car'' (- 42)) = Some (''car'', - 42)"
  by (rule participant_name_roundtrip) simp_all

section \<open>A participant leaves\<close>

definition topo_ok :: "topology_manager \<Rightarrow> bool" where
  "topo_ok t \<longleftrightarrow> topo_init t \<and>
     node_ok (node_part t) \<and> is_discovery_started (node_part t) \<and>
     channel_ok (channel_part t) \<and> is_discovery_started (channel_part t) \<and>
     service_ok (service_part t) \<and> is_discovery_started (service_part t)"

definition topo_roles :: "topology_manager \<Rightarrow> role set" where
  "topo_roles t = node_table (node_part t) \<union> (writers (channel_part t) \<union> readers (channel_part t)) \<union>
     service_table (service_part t)"

lemma Topo_Convert_left:
  assumes "status info \<in> {REMOVED_RTPSPARTICIPANT, DROPPED_RTPSPARTICIPANT}"
    and "map_of (participant_names t) (guid info) = Some name"
  shows "Topo_Convert now info t =
     (map_option (\<lambda>(host, pid).
            \<lparr>msg_timestamp = now, msg_change_type = CHANGE_PARTICIPANT, msg_operate_type = OPT_LEAVE,
             msg_role_type = ROLE_PARTICIPANT,
             msg_attr = no_attributes\<lparr>host_name_of := Some host, process_id_of := Some pid\<rparr>\<rparr>)
            (ParseParticipantName name),
      t\<lparr>participant_names := AList.delete (guid info) (participant_names t)\<rparr>)"
  using assms by (auto simp: Topo_Convert_def)

text \<open>
  When a participant that announced itself as \<open>host+pid\<close> is removed or dropped,
  exactly the nodes, writers, readers, servers and clients of that process disappear, the
  participant's entry with them, and the managers stay well formed.
\<close>

theorem participant_leaves_with_its_roles:
  assumes "topo_ok t" and "status info \<in> {REMOVED_RTPSPARTICIPANT, DROPPED_RTPSPARTICIPANT}"
    and "map_of (participant_names t) (guid info) = Some (participant_name host pid)"
    and "CHR ''+'' \<notin> set host" and "- (2 ^ 31) \<le> pid" and "pid < 2 ^ 31"
    and "t' = OnParticipantChange clock now info t"
  shows "topo_roles t' = {q \<in> topo_roles t. \<not> of_process host pid (attributes q)} \<and>
         map_of (participant_names t') (guid info) = None \<and> topo_ok t'"
proof -
  have parse: "ParseParticipantName (participant_name host pid) = Some (host, pid)"
    using take_host [OF assms(4)]
    by (simp add: ParseParticipantName_def participant_name_def stoi_to_string [OF assms(5,6)])
  have ok: "topo_init t" "node_ok (node_part t)" "is_discovery_started (node_part t)" "channel_ok (channel_part t)"
    "is_discovery_started (channel_part t)" "service_ok (service_part t)" "is_discovery_started (service_part t)"
    using assms(1) by (simp_all add: topo_ok_def)
  have t': "node_part t' = Node_OnTopoModuleLeave clock host pid (node_part t)"
    "channel_part t' = Channel_OnTopoModuleLeave clock host pid (channel_part t)"
    "service_part t' = Service_OnTopoModuleLeave clock host pid (service_part t)"
    "participant_names t' = AList.delete (guid info) (participant_names t)" "topo_init t'"
    unfolding assms(7) OnParticipantChange_def Topo_Convert_left [OF assms(2,3)] parse
    using ok(1) by (simp_all add: host_name_def process_id_def Let_def)
  have "topo_roles t' = {q \<in> topo_roles t. \<not> of_process host pid (attributes q)}"
    unfolding topo_roles_def t' node_man.leave_table [OF ok(2,3)] channel_man.leave_table [OF ok(4,5)]
      service_man.leave_table [OF ok(6,7)] by blast
  moreover have "map_of (participant_names t') (guid info) = None" unfolding t' by (simp add: delete_conv')
  moreover have "topo_ok t'"
    unfolding topo_ok_def t' node_man.leave_started channel_man.leave_started service_man.leave_started
    by (intro conjI t'(5) ok node_man.leave_ok channel_man.leave_ok service_man.leave_ok)
  ultimately show ?thesis by (intro conjI)
qed

theorem participant_leaves_with_its_roles_witness:
  "{q \<in> topo_roles (OnParticipantChange (\<lambda>_. 0) 0 \<lparr>guid = 3, status = DROPPED_RTPSPARTICIPANT, part_name = []\<rparr>
      \<lparr>topo_init = True, node_part = (new_node_manager ''a'' 1)\<lparr>is_discovery_started := True\<rparr>,
       channel_part = (new_channel_manager [] [] ''a'' 1)\<lparr>is_discovery_started := True\<rparr>,
       service_part = (new_service_manager ''a'' 1)\<lparr>is_discovery_started := True\<rparr>,
       participant_names = [(3, participant_name ''b'' 2)], change_signal = []\<rparr>).
     of_process ''b'' 2 (attributes q)} = {}"
proof -
  let ?i = "\<lparr>guid = 3, status = DROPPED_RTPSPARTICIPANT, part_name = []\<rparr>"
  let ?t = "\<lparr>topo_init = True, node_part = (new_node_manager ''a'' 1)\<lparr>is_discovery_started := True\<rparr>,
       channel_part = (new_channel_manager [] [] ''a'' 1)\<lparr>is_discovery_started := True\<rparr>,
       service_part = (new_service_manager ''a'' 1)\<lparr>is_discovery_started := True\<rparr>,
       participant_names = [(3, participant_name ''b'' 2)], change_signal = []\<rparr>"
  have ok: "topo_ok ?t"
    by (simp add: topo_ok_def new_node_manager_def new_service_manager_def new_channel_manager_def node_ok_def
        service_ok_def channel_ok_def sv_ok_def manager.defs)
  have st: "status ?i \<in> {REMOVED_RTPSPARTICIPANT, DROPPED_RTPSPARTICIPANT}" by simp
  have name: "map_of (participant_names ?t) (guid ?i) = Some (participant_name ''b'' 2)" by simp
  have "CHR ''+'' \<notin> set ''b''" "- (2 ^ 31) \<le> (2 :: int)" "(2 :: int) < 2 ^ 31" by simp_all
  from participant_leaves_with_its_roles [OF ok st name this refl, of "\<lambda>_. 0" 0, THEN conjunct1]
  show ?thesis by (simp only:) blast
qed

end
