(* ===== verification/Croutine.thy ===== *)
theory Croutine
  imports Prelude
begin

text \<open>
  Coroutines (\<open>cyber/croutine/croutine.h\<close>, \<open>croutine.cc\<close>) and the two run queues a processor takes
  them from: the shared multi-priority queues of a group
  (\<open>cyber/scheduler/policy/classic_context.cc\<close>) and a processor's own priority queue
  (\<open>choreography_context.cc\<close>). A run queue holds pointers; a pointer is a number, and the heap maps
  it to the coroutine. The steady clock is an argument.
\<close>

section \<open>Coroutines\<close>

datatype routine_state = READY | FINISHED | SLEEP | IO_WAIT | DATA_WAIT

record croutine =
  cr_id :: u64
  cr_name :: string
  cr_state :: routine_state
  cr_lock :: bool
  cr_updated :: bool
  force_stop :: bool
  cr_processor_id :: int
  cr_priority :: nat
  cr_group :: string
  wake_time :: int

definition new_croutine :: "int \<Rightarrow> croutine" where
  "new_croutine now =
     \<lparr>cr_id = 0, cr_name = [], cr_state = READY, cr_lock = False, cr_updated = True, force_stop = False,
      cr_processor_id = -1, cr_priority = 0, cr_group = [], wake_time = now\<rparr>"

text \<open>An \<open>atomic_flag\<close>: \<open>test_and_set\<close> gives the old value and sets it.\<close>

definition Acquire :: "croutine \<Rightarrow> bool \<times> croutine" where
  "Acquire c = (\<not> cr_lock c, c\<lparr>cr_lock := True\<rparr>)"

definition Release :: "croutine \<Rightarrow> croutine" where
  "Release c = c\<lparr>cr_lock := False\<rparr>"

definition SetUpdateFlag :: "croutine \<Rightarrow> croutine" where
  "SetUpdateFlag c = c\<lparr>cr_updated := False\<rparr>"

definition set_state :: "routine_state \<Rightarrow> croutine \<Rightarrow> croutine" where
  "set_state st c = c\<lparr>cr_state := st\<rparr>"

definition Wake :: "croutine \<Rightarrow> croutine" where
  "Wake c = c\<lparr>cr_state := READY\<rparr>"

definition Stop :: "croutine \<Rightarrow> croutine" where
  "Stop c = c\<lparr>force_stop := True\<rparr>"

definition UpdateState :: "int \<Rightarrow> croutine \<Rightarrow> routine_state \<times> croutine" where
  "UpdateState now c =
     (if cr_state c = SLEEP \<and> now > wake_time c then (READY, c\<lparr>cr_state := READY\<rparr>)
      else let old = cr_updated c;
               c1 = c\<lparr>cr_updated := True\<rparr>;
               c2 = (if \<not> old \<and> (cr_state c1 = DATA_WAIT \<or> cr_state c1 = IO_WAIT)
                     then c1\<lparr>cr_state := READY\<rparr> else c1)
           in (cr_state c2, c2))"

text \<open>\<open>run\<close> is what happens to the coroutine between the two context switches.\<close>

definition Resume :: "(croutine \<Rightarrow> croutine) \<Rightarrow> croutine \<Rightarrow> routine_state \<times> croutine" where
  "Resume run c =
     (if force_stop c then (FINISHED, c\<lparr>cr_state := FINISHED\<rparr>)
      else if cr_state c \<noteq> READY then (cr_state c, c)
      else let c' = run c in (cr_state c', c'))"

text \<open>The state a coroutine leaves behind when it switches back; \<open>CRoutineEntry\<close> ends with FINISHED.\<close>

definition Yield :: "routine_state option \<Rightarrow> croutine \<Rightarrow> croutine" where
  "Yield st c = (case st of None \<Rightarrow> c | Some s \<Rightarrow> set_state s c)"

definition HangUp :: "croutine \<Rightarrow> croutine" where
  "HangUp c = Yield (Some DATA_WAIT) c"

definition Sleep :: "int \<Rightarrow> int \<Rightarrow> croutine \<Rightarrow> croutine" where
  "Sleep now sleep_duration c = Yield (Some SLEEP) (c\<lparr>wake_time := now + sleep_duration\<rparr>)"

lemmas croutine_defs [op_defs] = Acquire_def Release_def SetUpdateFlag_def set_state_def Wake_def Stop_def
  UpdateState_def Resume_def Yield_def HangUp_def Sleep_def

section \<open>Taking the next coroutine\<close>

type_synonym routine_heap = "nat \<Rightarrow> croutine"

text \<open>
  The loop both contexts share: acquire, update, return the first that is ready. \<open>now r\<close> is the
  clock when \<open>r\<close> is looked at.
\<close>

fun first_ready :: "(nat \<Rightarrow> int) \<Rightarrow> nat list \<Rightarrow> routine_heap \<Rightarrow> nat option \<times> routine_heap" where
  "first_ready now [] h = (None, h)"
| "first_ready now (r # rs) h =
     (case Acquire (h r) of
        (False, c) \<Rightarrow> first_ready now rs (h(r := c))
      | (True, c) \<Rightarrow>
          (case UpdateState (now r) c of
             (st, c1) \<Rightarrow> if st = READY then (Some r, h(r := c1)) else first_ready now rs (h(r := Release c1))))"

definition MAX_PRIO :: nat where
  "MAX_PRIO = 20"

fun scan_prios :: "(nat \<Rightarrow> int) \<Rightarrow> (nat \<Rightarrow> nat list) \<Rightarrow> nat list \<Rightarrow> routine_heap \<Rightarrow> nat option \<times> routine_heap" where
  "scan_prios now rq [] h = (None, h)"
| "scan_prios now rq (i # is) h =
     (case first_ready now (rq i) h of
        (Some r, h1) \<Rightarrow> (Some r, h1)
      | (None, h1) \<Rightarrow> scan_prios now rq is h1)"

definition Classic_NextRoutine ::
  "bool \<Rightarrow> (nat \<Rightarrow> int) \<Rightarrow> (nat \<Rightarrow> nat list) \<Rightarrow> routine_heap \<Rightarrow> nat option \<times> routine_heap" where
  "Classic_NextRoutine stop now rq h =
     (if stop then (None, h) else scan_prios now rq (rev [0..<MAX_PRIO]) h)"

text \<open>The queue of a choreography context: a multimap ordered by descending priority.\<close>

type_synonym cr_queue = "(nat \<times> nat) list"

definition Choreo_NextRoutine :: "bool \<Rightarrow> (nat \<Rightarrow> int) \<Rightarrow> cr_queue \<Rightarrow> routine_heap \<Rightarrow> nat option \<times> routine_heap" where
  "Choreo_NextRoutine stop now q h = (if stop then (None, h) else first_ready now (map snd q) h)"

definition Choreo_Enqueue :: "nat \<Rightarrow> routine_heap \<Rightarrow> cr_queue \<Rightarrow> bool \<times> cr_queue" where
  "Choreo_Enqueue r h q =
     (let p = cr_priority (h r)
      in (True, takeWhile (\<lambda>e. fst e \<ge> p) q @ (p, r) # dropWhile (\<lambda>e. fst e \<ge> p) q))"

text \<open>
  Removing: stop the coroutine, wait until it can be acquired, erase it, release it. None means
  the call waits (the coroutine is held by a processor).
\<close>

fun Choreo_RemoveCRoutine :: "u64 \<Rightarrow> routine_heap \<Rightarrow> cr_queue \<Rightarrow> (bool \<times> routine_heap \<times> cr_queue) option" where
  "Choreo_RemoveCRoutine crid h [] = Some (False, h, [])"
| "Choreo_RemoveCRoutine crid h ((p, r) # q) =
     (if cr_id (h r) = crid then
        (case Acquire (Stop (h r)) of
           (False, c) \<Rightarrow> None
         | (True, c) \<Rightarrow> Some (True, h(r := Release c), q))
      else map_option (\<lambda>(b, h', q'). (b, h', (p, r) # q')) (Choreo_RemoveCRoutine crid h q))"

text \<open>Counting notifications: the processor waits while the count is 0, at most a second.\<close>

definition ctx_Notify :: "int \<Rightarrow> int" where
  "ctx_Notify n = n + 1"

definition ctx_Wait :: "int \<Rightarrow> int" where
  "ctx_Wait n = (if n > 0 then n - 1 else n)"

definition ctx_Shutdown :: "bool \<times> int \<Rightarrow> bool \<times> int" where
  "ctx_Shutdown s = (True, 255)"

section \<open>What is taken\<close>

definition runnable :: "(nat \<Rightarrow> int) \<Rightarrow> routine_heap \<Rightarrow> nat \<Rightarrow> bool" where
  "runnable now h r \<longleftrightarrow> \<not> cr_lock (h r) \<and> fst (UpdateState (now r) (h r)) = READY"

lemma UpdateState_lock [simp]:
  "cr_lock (snd (UpdateState now c)) = cr_lock c"
  "fst (UpdateState now (c\<lparr>cr_lock := b\<rparr>)) = fst (UpdateState now c)"
  "cr_state (snd (UpdateState now c)) = fst (UpdateState now c)"
  by (simp_all add: UpdateState_def Let_def)

lemma first_ready_Cons:
  "first_ready now (r # rs) h =
     (if runnable now h r then (Some r, h(r := snd (UpdateState (now r) ((h r)\<lparr>cr_lock := True\<rparr>))))
      else first_ready now rs
        (h(r := (if cr_lock (h r) then h r else Release (snd (UpdateState (now r) ((h r)\<lparr>cr_lock := True\<rparr>)))))))"
proof (cases "cr_lock (h r)")
  case True
  then have "(h r)\<lparr>cr_lock := True\<rparr> = h r" by (cases "h r") simp
  then have "h(r := (h r)\<lparr>cr_lock := True\<rparr>) = h" by (simp only: fun_upd_triv)
  then show ?thesis using True by (simp add: Acquire_def runnable_def)
next
  case False
  obtain st c1 where u: "UpdateState (now r) ((h r)\<lparr>cr_lock := True\<rparr>) = (st, c1)" by (rule prod.exhaust)
  have "fst (UpdateState (now r) (h r)) = st"
    using UpdateState_lock(2) [where now = "now r" and c = "h r" and b = True] u by simp
  then show ?thesis using False u by (simp add: Acquire_def runnable_def)
qed

lemma runnable_upd [simp]: "x \<noteq> r \<Longrightarrow> runnable now (h(r := c)) x = runnable now h x"
  by (simp add: runnable_def)

lemma first_ready_spec:
  assumes "distinct rs"
  shows "case first_ready now rs h of
     (None, h') \<Rightarrow> (\<forall>x \<in> set rs. \<not> runnable now h x) \<and> (\<forall>x. cr_lock (h' x) = cr_lock (h x))
   | (Some r, h') \<Rightarrow> r \<in> set rs \<and> runnable now h r \<and> cr_lock (h' r) \<and> cr_state (h' r) = READY \<and>
       (\<forall>x \<in> set (takeWhile (\<lambda>x. x \<noteq> r) rs). \<not> runnable now h x) \<and>
       (\<forall>x. x \<noteq> r \<longrightarrow> cr_lock (h' x) = cr_lock (h x))"
  using assms
proof (induction rs arbitrary: h)
  case Nil
  then show ?case by simp
next
  case (Cons r rs)
  show ?case
  proof (cases "runnable now h r")
    case True
    then show ?thesis unfolding first_ready_Cons by (simp add: runnable_def)
  next
    case False
    let ?h = "h(r := (if cr_lock (h r) then h r else Release (snd (UpdateState (now r) ((h r)\<lparr>cr_lock := True\<rparr>)))))"
    have same: "runnable now ?h x = runnable now h x" if "x \<in> set rs" for x
      using that Cons.prems by (intro runnable_upd) auto
    have locks: "cr_lock (?h x) = cr_lock (h x)" for x by (simp add: Release_def)
    have eq: "first_ready now (r # rs) h = first_ready now rs ?h" using False by (simp only: first_ready_Cons if_False)
    show ?thesis
    proof (cases "first_ready now rs ?h")
      case (Pair res h')
      have ih: "case first_ready now rs ?h of
           (None, h') \<Rightarrow> (\<forall>x \<in> set rs. \<not> runnable now ?h x) \<and> (\<forall>x. cr_lock (h' x) = cr_lock (?h x))
         | (Some r, h') \<Rightarrow> r \<in> set rs \<and> runnable now ?h r \<and> cr_lock (h' r) \<and> cr_state (h' r) = READY \<and>
             (\<forall>x \<in> set (takeWhile (\<lambda>x. x \<noteq> r) rs). \<not> runnable now ?h x) \<and>
             (\<forall>x. x \<noteq> r \<longrightarrow> cr_lock (h' x) = cr_lock (?h x))"
        using Cons by (intro Cons.IH) simp
      show ?thesis
      proof (cases res)
        case None
        then show ?thesis using ih False same locks unfolding eq Pair by auto
      next
        case (Some s)
        then have s: "s \<in> set rs" and rest: "runnable now ?h s" "cr_lock (h' s)" "cr_state (h' s) = READY"
          "\<forall>x \<in> set (takeWhile (\<lambda>x. x \<noteq> s) rs). \<not> runnable now ?h x"
          "\<forall>x. x \<noteq> s \<longrightarrow> cr_lock (h' x) = cr_lock (?h x)"
          using ih unfolding Pair by simp_all
        have sr: "s \<noteq> r" using s Cons.prems by auto
        have "\<not> runnable now h x" if "x \<in> set (takeWhile (\<lambda>x. x \<noteq> s) rs)" for x
          using rest(4) that same set_takeWhileD [OF that] by blast
        then show ?thesis using s rest same [OF s] locks False sr unfolding eq Pair Some by auto
      qed
    qed
  qed
qed

lemma scan_prios_concat: "scan_prios now rq is h = first_ready now (concat (map rq is)) h"
proof (induction "is" arbitrary: h)
  case Nil
  then show ?case by simp
next
  case (Cons i "is")
  have app: "first_ready now (xs @ ys) h =
      (case first_ready now xs h of (Some r, h1) \<Rightarrow> (Some r, h1) | (None, h1) \<Rightarrow> first_ready now ys h1)" for xs ys h
    by (induction xs arbitrary: h) (auto split: prod.split bool.split option.split)
  show ?case by (auto simp: app Cons.IH split: prod.split option.split)
qed

lemma higher_first:
  assumes "distinct (concat (map rq (rev [0..<n])))" "i < n" "r \<in> set (rq i)" "i < j" "j < n" "x \<in> set (rq j)"
  shows "x \<in> set (takeWhile (\<lambda>x. x \<noteq> r) (concat (map rq (rev [0..<n]))))"
  using assms
proof (induction n)
  case 0
  then show ?case by simp
next
  case (Suc n)
  have cat: "concat (map rq (rev [0..<Suc n])) = rq n @ concat (map rq (rev [0..<n]))" by simp
  have "r \<in> set (concat (map rq (rev [0..<n])))" using Suc.prems(2-5) by auto
  then have "r \<notin> set (rq n)" using Suc.prems(1) unfolding cat by auto
  then have take: "takeWhile (\<lambda>x. x \<noteq> r) (rq n @ ys) = rq n @ takeWhile (\<lambda>x. x \<noteq> r) ys" for ys
    by (intro takeWhile_append2) auto
  show ?case
  proof (cases "j = n")
    case True
    then show ?thesis unfolding cat take using Suc.prems(6) by simp
  next
    case False
    then have "x \<in> set (takeWhile (\<lambda>x. x \<noteq> r) (concat (map rq (rev [0..<n]))))"
      using Suc.prems by (intro Suc.IH) (auto simp: cat)
    then show ?thesis unfolding cat take by simp
  qed
qed

text \<open>
  A processor of the classic policy takes a coroutine that nobody else holds, makes
  it its own, finds it ready, and leaves no takeable coroutine of a higher priority behind; when it
  finds none, none was takeable. The locks of all other coroutines are as before.
\<close>

theorem next_routine_is_highest_ready:
  assumes "distinct (concat (map rq (rev [0..<MAX_PRIO])))"
  shows "case Classic_NextRoutine False now rq h of
     (None, h') \<Rightarrow> (\<forall>i < MAX_PRIO. \<forall>x \<in> set (rq i). \<not> runnable now h x) \<and> (\<forall>x. cr_lock (h' x) = cr_lock (h x))
   | (Some r, h') \<Rightarrow> (\<exists>i < MAX_PRIO. r \<in> set (rq i) \<and>
         (\<forall>j < MAX_PRIO. i < j \<longrightarrow> (\<forall>x \<in> set (rq j). \<not> runnable now h x))) \<and>
       runnable now h r \<and> cr_lock (h' r) \<and> cr_state (h' r) = READY \<and>
       (\<forall>x. x \<noteq> r \<longrightarrow> cr_lock (h' x) = cr_lock (h x))"
proof -
  let ?rs = "concat (map rq (rev [0..<MAX_PRIO]))"
  have eq: "Classic_NextRoutine False now rq h = first_ready now ?rs h"
    by (simp add: Classic_NextRoutine_def scan_prios_concat)
  note spec = first_ready_spec [OF assms, of now h]
  obtain res h' where res: "first_ready now ?rs h = (res, h')" by (rule prod.exhaust)
  show ?thesis
  proof (cases res)
    case None
    then show ?thesis using spec unfolding eq res by simp
  next
    case (Some r)
    then have "r \<in> set ?rs" and rest: "runnable now h r" "cr_lock (h' r)" "cr_state (h' r) = READY"
      "\<forall>x \<in> set (takeWhile (\<lambda>x. x \<noteq> r) ?rs). \<not> runnable now h x"
      "\<forall>x. x \<noteq> r \<longrightarrow> cr_lock (h' x) = cr_lock (h x)"
      using spec unfolding res by simp_all
    then obtain i where i: "i < MAX_PRIO" "r \<in> set (rq i)" by auto
    have "\<not> runnable now h x" if j: "i < j" "j < MAX_PRIO" and x: "x \<in> set (rq j)" for j x
    proof -
      have "x \<in> set (takeWhile (\<lambda>x. x \<noteq> r) ?rs)" by (rule higher_first [OF assms i j x])
      then show ?thesis using rest(4) by blast
    qed
    then show ?thesis using rest i unfolding eq res Some by auto
  qed
qed

theorem next_routine_is_highest_ready_witness:
  "fst (Classic_NextRoutine False (\<lambda>_. 0) (\<lambda>i. if i = 5 then [1, 2] else if i = 3 then [7] else [])
      ((\<lambda>_. new_croutine 0)(1 := (new_croutine 0)\<lparr>cr_lock := True\<rparr>))) = Some 2"
proof -
  let ?rq = "\<lambda>i. if i = 5 then [1, 2] else if i = 3 then [7] else [] :: nat list"
  let ?h = "(\<lambda>_. new_croutine 0)(1 := (new_croutine 0)\<lparr>cr_lock := True\<rparr>)"
  have d: "distinct (concat (map ?rq (rev [0..<MAX_PRIO])))" by code_simp
  obtain res h' where res: "Classic_NextRoutine False (\<lambda>_. 0) ?rq ?h = (res, h')" by (rule prod.exhaust)
  have two: "runnable (\<lambda>_. 0) ?h 2" "\<not> runnable (\<lambda>_. 0) ?h 1" and five: "5 < MAX_PRIO"
    by (simp_all add: runnable_def UpdateState_def new_croutine_def MAX_PRIO_def)
  note pick = next_routine_is_highest_ready [OF d, of "\<lambda>_. 0" ?h, unfolded res]
  have "res \<noteq> None"
  proof
    assume "res = None"
    then have "\<forall>x \<in> set (?rq 5). \<not> runnable (\<lambda>_. 0) ?h x" using pick five by auto
    then show False using two(1) by simp
  qed
  then obtain r where r: "res = Some r" by blast
  with pick obtain i where i: "r \<in> set (?rq i)" "\<forall>j < MAX_PRIO. i < j \<longrightarrow> (\<forall>x \<in> set (?rq j). \<not> runnable (\<lambda>_. 0) ?h x)"
    and run: "runnable (\<lambda>_. 0) ?h r" by auto
  have "\<not> i < 5" using i(2) [rule_format, of 5 2] five two(1) by auto
  then have "r = 1 \<or> r = 2" using i(1) by (auto split: if_splits)
  with run two(2) have "r = 2" by auto
  then show ?thesis using res r by simp
qed

end
