(* ===== verification/GlobalData.thy ===== *)
theory GlobalData
  imports AtomicHashMap
begin

text \<open>
  The process-wide registry of names (\<open>cyber/common/global_data.cc\<close>): nodes, channels, services and
  tasks get 64-bit ids by hashing and probing the next id on a collision. The hash
  (\<open>std::hash<std::string>\<close>) is the argument \<open>h\<close>.
\<close>

record global_data =
  node_id_map :: "string hash_map"
  channel_id_map :: "string hash_map"
  service_id_map :: "string hash_map"
  task_id_map :: "string hash_map"

definition new_global_data :: global_data where
  "new_global_data =
     \<lparr>node_id_map = new_hash_map 512, channel_id_map = new_hash_map 256,
      service_id_map = new_hash_map 256, task_id_map = new_hash_map 256\<rparr>"

text \<open>
  The loop \<open>while (map.Has(id)) { Get(id, &name); if (key == *name) break; ++id; }\<close>. None is a loop
  that does not end (or a null name, which \<open>Has\<close> excludes).
\<close>

partial_function (option) probe :: "string hash_map \<Rightarrow> string \<Rightarrow> u64 \<Rightarrow> u64 option" where
  "probe m key nid =
     (if hm_Has m nid then
        (case hm_Get m nid of
           None \<Rightarrow> None
         | Some name \<Rightarrow> if key = name then Some nid else probe m key (nid + 1))
      else Some nid)"

declare probe.simps [code]

definition register_name :: "(string \<Rightarrow> u64) \<Rightarrow> string \<Rightarrow> string hash_map \<Rightarrow> (u64 \<times> string hash_map) option" where
  "register_name h key m = map_option (\<lambda>nid. (nid, hm_Set m nid key)) (probe m key (h key))"

definition RegisterNode :: "(string \<Rightarrow> u64) \<Rightarrow> string \<Rightarrow> global_data \<Rightarrow> (u64 \<times> global_data) option" where
  "RegisterNode h key g = map_option (\<lambda>(nid, m). (nid, g\<lparr>node_id_map := m\<rparr>)) (register_name h key (node_id_map g))"

definition RegisterChannel :: "(string \<Rightarrow> u64) \<Rightarrow> string \<Rightarrow> global_data \<Rightarrow> (u64 \<times> global_data) option" where
  "RegisterChannel h key g =
     map_option (\<lambda>(nid, m). (nid, g\<lparr>channel_id_map := m\<rparr>)) (register_name h key (channel_id_map g))"

definition RegisterService :: "(string \<Rightarrow> u64) \<Rightarrow> string \<Rightarrow> global_data \<Rightarrow> (u64 \<times> global_data) option" where
  "RegisterService h key g =
     map_option (\<lambda>(nid, m). (nid, g\<lparr>service_id_map := m\<rparr>)) (register_name h key (service_id_map g))"

definition RegisterTaskName :: "(string \<Rightarrow> u64) \<Rightarrow> string \<Rightarrow> global_data \<Rightarrow> (u64 \<times> global_data) option" where
  "RegisterTaskName h key g =
     map_option (\<lambda>(nid, m). (nid, g\<lparr>task_id_map := m\<rparr>)) (register_name h key (task_id_map g))"

definition name_by_id :: "u64 \<Rightarrow> string hash_map \<Rightarrow> string" where
  "name_by_id nid m = (case hm_Get m nid of Some name \<Rightarrow> name | None \<Rightarrow> [])"

definition GetNodeById :: "u64 \<Rightarrow> global_data \<Rightarrow> string" where
  "GetNodeById nid g = name_by_id nid (node_id_map g)"

definition GetChannelById :: "u64 \<Rightarrow> global_data \<Rightarrow> string" where
  "GetChannelById nid g = name_by_id nid (channel_id_map g)"

definition GetServiceById :: "u64 \<Rightarrow> global_data \<Rightarrow> string" where
  "GetServiceById nid g = name_by_id nid (service_id_map g)"

definition GetTaskNameById :: "u64 \<Rightarrow> global_data \<Rightarrow> string" where
  "GetTaskNameById nid g = name_by_id nid (task_id_map g)"

section \<open>Probing\<close>

lemma probe_simps:
  "hm_Get m nid = None \<Longrightarrow> probe m key nid = Some nid"
  "hm_Get m nid = Some name \<Longrightarrow> probe m key nid = (if key = name then Some nid else probe m key (nid + 1))"
  by (simp_all add: probe.simps [of m key nid] hm_Has_Get)

text \<open>\<open>blocked k\<close>: the first \<open>k\<close> ids from the hash hold other names.\<close>

definition blocked :: "string hash_map \<Rightarrow> string \<Rightarrow> u64 \<Rightarrow> nat \<Rightarrow> bool" where
  "blocked m key start k \<longleftrightarrow> (\<forall>i < k. \<exists>name. hm_Get m (start + of_nat i) = Some name \<and> name \<noteq> key)"

lemma probe_blocked: "blocked m key start k \<Longrightarrow> probe m key start = probe m key (start + of_nat k)"
proof (induction k)
  case 0
  then show ?case by simp
next
  case (Suc k)
  then have "probe m key start = probe m key (start + of_nat k)" by (simp add: blocked_def)
  moreover obtain name where "hm_Get m (start + of_nat k) = Some name" "name \<noteq> key"
    using Suc.prems by (auto simp: blocked_def)
  ultimately show ?case using probe_simps(2) [of m "start + of_nat k" name key] by (simp add: ac_simps)
qed

text \<open>It stops at the first id that is free or has the name already.\<close>

lemma probe_stops:
  assumes "hm_Get m x = None"
  obtains k where "blocked m key start k" "probe m key start = Some (start + of_nat k)"
    "hm_Get m (start + of_nat k) = None \<or> hm_Get m (start + of_nat k) = Some key"
proof -
  let ?stop = "\<lambda>k. hm_Get m (start + of_nat k) = None \<or> hm_Get m (start + of_nat k) = Some key"
  have "?stop (unat (x - start))" using assms by simp
  then have stop: "?stop (LEAST k. ?stop k)" by (rule LeastI)
  let ?k = "LEAST k. ?stop k"
  have b: "blocked m key start ?k" unfolding blocked_def
  proof (intro allI impI)
    fix i
    assume "i < ?k"
    from not_less_Least [OF this] show "\<exists>name. hm_Get m (start + of_nat i) = Some name \<and> name \<noteq> key"
      by (cases "hm_Get m (start + of_nat i)") simp_all
  qed
  from stop have "probe m key (start + of_nat ?k) = Some (start + of_nat ?k)"
    by (rule disjE) (simp_all only: probe_simps simp_thms if_True)
  then have "probe m key start = Some (start + of_nat ?k)" using probe_blocked [OF b] by simp
  from that [OF b this stop] show thesis .
qed

text \<open>Every name is where probing finds it.\<close>

definition registry_ok :: "(string \<Rightarrow> u64) \<Rightarrow> string hash_map \<Rightarrow> bool" where
  "registry_ok h m \<longleftrightarrow> hm_ok m \<and>
     (\<forall>nid name. hm_Get m nid = Some name \<longrightarrow> (\<exists>k. nid = h name + of_nat k \<and> blocked m name (h name) k))"

lemma registered_probe:
  assumes "registry_ok h m" "hm_Get m nid = Some name"
  shows "probe m name (h name) = Some nid"
proof -
  obtain k where "nid = h name + of_nat k" "blocked m name (h name) k" using assms by (auto simp: registry_ok_def)
  then show ?thesis using probe_blocked [of m name "h name" k] assms(2) by (simp add: probe_simps)
qed

lemma blocked_Set:
  assumes "hm_ok m" "blocked m key start k" "hm_Get m nid = None \<or> hm_Get m nid = Some name"
  shows "blocked (hm_Set m nid name) key start k"
  using assms unfolding blocked_def by (auto simp: hmap.get_put)

lemma register_name_spec:
  assumes "registry_ok h m" "hm_Get m x = None"
  obtains nid where "register_name h key m = Some (nid, hm_Set m nid key)" "registry_ok h (hm_Set m nid key)"
    "hm_Get m nid = None \<or> hm_Get m nid = Some key"
proof -
  obtain k where k: "blocked m key (h key) k" "probe m key (h key) = Some (h key + of_nat k)"
    "hm_Get m (h key + of_nat k) = None \<or> hm_Get m (h key + of_nat k) = Some key"
    by (rule probe_stops [OF assms(2), of key "h key"])
  let ?nid = "h key + of_nat k"
  have ok: "hm_ok m" using assms(1) by (simp add: registry_ok_def)
  have "registry_ok h (hm_Set m ?nid key)"
    unfolding registry_ok_def
  proof (intro conjI allI impI)
    show "hm_ok (hm_Set m ?nid key)" using ok by (rule hmap.put_ok)
    fix nid name
    assume "hm_Get (hm_Set m ?nid key) nid = Some name"
    then have "nid = ?nid \<and> name = key \<or> hm_Get m nid = Some name"
      by (auto simp: hmap.get_put [OF ok] split: if_splits)
    then obtain j where "nid = h name + of_nat j" "blocked m name (h name) j"
      using k(1) assms(1) by (auto simp: registry_ok_def)
    then show "\<exists>j. nid = h name + of_nat j \<and> blocked (hm_Set m ?nid key) name (h name) j"
      using blocked_Set [OF ok _ k(3)] by blast
  qed
  then show thesis using that k(2,3) by (simp add: register_name_def)
qed

section \<open>Registering names\<close>

text \<open>A run of registrations, by any of the four operations.\<close>

fun register_all :: "(string \<Rightarrow> 'g \<Rightarrow> (u64 \<times> 'g) option) \<Rightarrow> string list \<Rightarrow> 'g \<Rightarrow> (u64 list \<times> 'g) option" where
  "register_all reg [] g = Some ([], g)"
| "register_all reg (x # xs) g =
     (case reg x g of
        None \<Rightarrow> None
      | Some (nid, g1) \<Rightarrow> map_option (\<lambda>(ids, g2). (nid # ids, g2)) (register_all reg xs g1))"

definition taken :: "string hash_map \<Rightarrow> u64 set" where
  "taken m = {i. hm_Get m i \<noteq> None}"

lemma taken_Set: "hm_ok m \<Longrightarrow> taken (hm_Set m nid key) = insert nid (taken m)"
  by (auto simp: taken_def hmap.get_put)

lemma free_id:
  assumes "card (taken m) < 2 ^ 64" obtains x where "hm_Get m x = None"
proof -
  have "card (UNIV :: u64 set) = 2 ^ 64" by (simp add: card_word)
  then have "taken m \<noteq> UNIV" using assms by auto
  then show thesis using that by (auto simp: taken_def)
qed

lemma register_all_spec:
  assumes "registry_ok h m" "card (taken m) + length xs < 2 ^ 64"
  shows "\<exists>ids m'. register_all (register_name h) xs m = Some (ids, m') \<and> registry_ok h m' \<and>
    list_all2 (\<lambda>x i. hm_Get m' i = Some x) xs ids \<and> (\<forall>i x. hm_Get m i = Some x \<longrightarrow> hm_Get m' i = Some x)"
  using assms
proof (induction xs arbitrary: m)
  case Nil
  then show ?case by simp
next
  case (Cons x xs)
  obtain y where y: "hm_Get m y = None" using Cons.prems(2) by (auto intro: free_id [of m])
  obtain nid where r: "register_name h x m = Some (nid, hm_Set m nid x)" "registry_ok h (hm_Set m nid x)"
    "hm_Get m nid = None \<or> hm_Get m nid = Some x"
    by (rule register_name_spec [OF Cons.prems(1) y, of x])
  have ok: "hm_ok m" using Cons.prems(1) by (simp add: registry_ok_def)
  have "card (taken (hm_Set m nid x)) \<le> card (taken m) + 1"
    by (simp add: taken_Set [OF ok] card_insert_if)
  then have "card (taken (hm_Set m nid x)) + length xs < 2 ^ 64" using Cons.prems(2) by simp
  from Cons.IH [OF r(2) this] obtain ids m' where m': "register_all (register_name h) xs (hm_Set m nid x) = Some (ids, m')"
    "registry_ok h m'" "list_all2 (\<lambda>x i. hm_Get m' i = Some x) xs ids"
    "\<forall>i z. hm_Get (hm_Set m nid x) i = Some z \<longrightarrow> hm_Get m' i = Some z" by blast
  have "hm_Get m' nid = Some x" using m'(4) by (simp add: hmap.get_put [OF ok])
  moreover have "\<forall>i z. hm_Get m i = Some z \<longrightarrow> hm_Get m' i = Some z"
  proof (intro allI impI)
    fix i z
    assume "hm_Get m i = Some z"
    then have "hm_Get (hm_Set m nid x) i = Some z" using r(3) by (auto simp: hmap.get_put [OF ok])
    then show "hm_Get m' i = Some z" using m'(4) by blast
  qed
  ultimately show ?case using m' r(1) by auto
qed

lemma register_all_node:
  "register_all (RegisterNode h) xs g =
     map_option (\<lambda>(ids, m). (ids, g\<lparr>node_id_map := m\<rparr>)) (register_all (register_name h) xs (node_id_map g))"
proof (induction xs arbitrary: g)
  case Nil
  then show ?case by simp
next
  case (Cons x xs)
  then show ?case 
    by (auto simp: RegisterNode_def option.map_comp comp_def case_prod_unfold split: option.split)
qed

lemma new_registry_ok: "registry_ok h (new_hash_map (2 ^ k))" "hm_Get (new_hash_map (2 ^ k) :: string hash_map) i = None"
  if "k < 64"
proof -
  have ok: "hm_ok (new_hash_map (2 ^ k) :: string hash_map)" using that by (rule new_hash_map_ok)
  show none: "hm_Get (new_hash_map (2 ^ k) :: string hash_map) i = None" for i
    using hm_index_less [OF ok, of i] unfolding hm_Get_def by (simp add: new_hash_map_def del: One_nat_def)
  show "registry_ok h (new_hash_map (2 ^ k))" using ok by (simp add: registry_ok_def none)
qed

text \<open>
  Property C37. Registering any fewer than \<open>2 ^ 64\<close> names terminates, whatever the hash; two names
  get the same id exactly when they are the same name, registering a name again gives the id it
  has, and looking an id up gives the name it was given for.
\<close>

theorem registered_names_have_own_ids:
  assumes "length names < 2 ^ 64"
  shows "\<exists>ids g. register_all (RegisterNode h) names new_global_data = Some (ids, g) \<and> length ids = length names \<and>
    (\<forall>i < length names. GetNodeById (ids ! i) g = names ! i) \<and>
    (\<forall>i < length names. \<forall>j < length names. ids ! i = ids ! j \<longleftrightarrow> names ! i = names ! j)"
proof -
  have m0: "node_id_map new_global_data = new_hash_map (2 ^ 9)" by (simp add: new_global_data_def)
  have n: "(9 :: nat) < 64" by simp
  have "card (taken (new_hash_map (2 ^ 9))) + length names < 2 ^ 64"
  proof -
    have "taken (new_hash_map (2 ^ 9)) = {}" by (simp only: taken_def new_registry_ok(2) [OF n]) simp
    then show ?thesis using assms by (simp only: card.empty add_0)
  qed
  from register_all_spec [OF new_registry_ok(1) [OF n] this] obtain ids m where
    r: "register_all (register_name h) names (new_hash_map (2 ^ 9)) = Some (ids, m)" "registry_ok h m"
      "list_all2 (\<lambda>x i. hm_Get m i = Some x) names ids" by blast
  have get: "hm_Get m (ids ! i) = Some (names ! i)" if "i < length names" for i
    using r(3) that by (rule list_all2_nthD)
  have "ids ! i = ids ! j \<longleftrightarrow> names ! i = names ! j" if "i < length names" "j < length names" for i j
    using get [OF that(1)] get [OF that(2)] registered_probe [OF r(2)] by (metis option.inject)
  moreover have "GetNodeById (ids ! i) (new_global_data\<lparr>node_id_map := m\<rparr>) = names ! i" if "i < length names" for i
    by (simp add: GetNodeById_def name_by_id_def get [OF that])
  moreover have "register_all (RegisterNode h) names new_global_data = Some (ids, new_global_data\<lparr>node_id_map := m\<rparr>)"
    unfolding register_all_node m0 r(1) by simp
  moreover have "length ids = length names" using list_all2_lengthD [OF r(3)] by simp
  ultimately show ?thesis by blast
qed

theorem registered_names_have_own_ids_witness:
  "\<exists>ids g. register_all (RegisterNode (\<lambda>_. 5)) [''camera'', ''fusion'', ''camera''] new_global_data = Some (ids, g) \<and>
     ids ! 0 \<noteq> ids ! 1 \<and> ids ! 0 = ids ! 2 \<and> GetNodeById (ids ! 1) g = ''fusion''"
proof -
  let ?names = "[''camera'', ''fusion'', ''camera'']"
  have len: "length ?names < 2 ^ 64" by simp
  obtain ids g where r: "register_all (RegisterNode (\<lambda>_. 5)) ?names new_global_data = Some (ids, g)"
    and get: "\<forall>i < length ?names. GetNodeById (ids ! i) g = ?names ! i"
    and same: "\<forall>i < length ?names. \<forall>j < length ?names. ids ! i = ids ! j \<longleftrightarrow> ?names ! i = ?names ! j"
    using registered_names_have_own_ids [OF len, of "\<lambda>_. 5"] by blast
  have "ids ! 0 \<noteq> ids ! 1" using same [rule_format, of 0 1] by simp
  moreover have "ids ! 0 = ids ! 2" using same [rule_format, of 0 2] by simp
  moreover have "GetNodeById (ids ! 1) g = ''fusion''" using get [rule_format, of 1] by simp
  ultimately show ?thesis using r by blast
qed

end
