(* ===== verification/SchedulerClassic.thy ===== *)
theory SchedulerClassic
  imports Croutine GlobalData "HOL-Library.AList"
begin

text \<open>
  The classic scheduling policy (\<open>cyber/scheduler/policy/scheduler_classic.cc\<close>,
  \<open>classic_context.cc\<close>, \<open>cyber/scheduler/scheduler.cc\<close>): registering a task's coroutine under its
  id, queueing it by group and priority, notifying and removing it. The per-id mutex makes each
  operation one step; None is an operation that waits for a coroutine a processor holds.
\<close>

record classic_sched =
  sched_stop :: bool
  id_cr :: "(u64 \<times> nat) list"
  cr_confs :: "string \<Rightarrow> (nat \<times> string) option"
  first_group :: string
  ctx_groups :: "string list"
  cr_queues :: "string \<Rightarrow> nat \<Rightarrow> nat list"
  notify_grp :: "string \<Rightarrow> int"
  routines :: routine_heap

definition new_classic_sched :: "(string \<Rightarrow> (nat \<times> string) option) \<Rightarrow> string list \<Rightarrow> classic_sched" where
  "new_classic_sched confs groups =
     \<lparr>sched_stop = False, id_cr = [], cr_confs = confs, first_group = hd groups, ctx_groups = groups,
      cr_queues = (\<lambda>_ _. []), notify_grp = (\<lambda>_. 0), routines = (\<lambda>_. new_croutine 0)\<rparr>"

definition Classic_Notify :: "string \<Rightarrow> classic_sched \<Rightarrow> classic_sched" where
  "Classic_Notify g s = s\<lparr>notify_grp := (notify_grp s)(g := ctx_Notify (notify_grp s g))\<rparr>"

definition Classic_Shutdown :: "string \<Rightarrow> classic_sched \<Rightarrow> classic_sched" where
  "Classic_Shutdown g s = s\<lparr>notify_grp := (notify_grp s)(g := snd (ctx_Shutdown (sched_stop s, notify_grp s g)))\<rparr>"

text \<open>The configuration of a task: its priority and group; then the clamp.\<close>

definition configure :: "classic_sched \<Rightarrow> croutine \<Rightarrow> croutine" where
  "configure s c =
     (let c1 = (case cr_confs s (cr_name c) of
                  Some (prio, g) \<Rightarrow> c\<lparr>cr_priority := prio, cr_group := g\<rparr>
                | None \<Rightarrow> c\<lparr>cr_group := first_group s\<rparr>)
      in if cr_priority c1 \<ge> MAX_PRIO then c1\<lparr>cr_priority := MAX_PRIO - 1\<rparr> else c1)"

definition enqueue :: "nat \<Rightarrow> classic_sched \<Rightarrow> classic_sched" where
  "enqueue r s =
     (let c = routines s r; q = cr_queues s
      in s\<lparr>cr_queues := q(cr_group c := (q (cr_group c))(cr_priority c := q (cr_group c) (cr_priority c) @ [r]))\<rparr>)"

definition DispatchTask :: "nat \<Rightarrow> classic_sched \<Rightarrow> bool \<times> classic_sched" where
  "DispatchTask r s =
     (let i = cr_id (routines s r)
      in if map_of (id_cr s) i \<noteq> None then (False, s)
         else let c = configure s (routines s r);
                  s1 = s\<lparr>id_cr := AList.update i r (id_cr s), routines := (routines s)(r := c)\<rparr>
              in (True, Classic_Notify (cr_group c) (enqueue r s1)))"

definition NotifyProcessor :: "u64 \<Rightarrow> classic_sched \<Rightarrow> bool \<times> classic_sched" where
  "NotifyProcessor crid s =
     (if sched_stop s then (True, s)
      else case map_of (id_cr s) crid of
             None \<Rightarrow> (False, s)
           | Some r \<Rightarrow>
               let c = routines s r;
                   c' = (if cr_state c = DATA_WAIT \<or> cr_state c = IO_WAIT then SetUpdateFlag c else c)
               in (True, Classic_Notify (cr_group c) (s\<lparr>routines := (routines s)(r := c')\<rparr>)))"

text \<open>The loop over the queue: the first coroutine with the id is stopped, acquired and erased.\<close>

fun erase_routine :: "u64 \<Rightarrow> routine_heap \<Rightarrow> nat list \<Rightarrow> (bool \<times> routine_heap \<times> nat list) option" where
  "erase_routine crid h [] = Some (False, h, [])"
| "erase_routine crid h (r # rs) =
     (if cr_id (h r) = crid then
        (case Acquire (Stop (h r)) of
           (False, c) \<Rightarrow> None
         | (True, c) \<Rightarrow> Some (True, h(r := Release c), rs))
      else map_option (\<lambda>(b, h', rs'). (b, h', r # rs')) (erase_routine crid h rs))"

definition Classic_RemoveCRoutine :: "nat \<Rightarrow> classic_sched \<Rightarrow> (bool \<times> classic_sched) option" where
  "Classic_RemoveCRoutine r s =
     (let c = routines s r; g = cr_group c; p = cr_priority c; q = cr_queues s
      in map_option (\<lambda>(b, h, rs). (b, s\<lparr>routines := h, cr_queues := q(g := (q g)(p := rs))\<rparr>))
           (erase_routine (cr_id c) (routines s) (q g p)))"

definition RemoveCRoutine :: "u64 \<Rightarrow> classic_sched \<Rightarrow> (bool \<times> classic_sched) option" where
  "RemoveCRoutine crid s =
     (case map_of (id_cr s) crid of
        None \<Rightarrow> Some (False, s)
      | Some r \<Rightarrow>
          Classic_RemoveCRoutine r
            (s\<lparr>routines := (routines s)(r := Stop (routines s r)), id_cr := AList.delete crid (id_cr s)\<rparr>))"

text \<open>\<open>GenerateHashId\<close> is the hash \<open>h\<close> itself, \<open>RegisterTaskName\<close> probes from it.\<close>

definition RemoveTask :: "(string \<Rightarrow> u64) \<Rightarrow> string \<Rightarrow> classic_sched \<Rightarrow> (bool \<times> classic_sched) option" where
  "RemoveTask h name s = (if sched_stop s then Some (True, s) else RemoveCRoutine (h name) s)"

text \<open>\<open>r\<close> is the address of the new coroutine; registering the visitor's callback is left out.\<close>

definition CreateTask ::
  "(string \<Rightarrow> u64) \<Rightarrow> int \<Rightarrow> nat \<Rightarrow> string \<Rightarrow> classic_sched \<times> global_data
     \<Rightarrow> (bool \<times> classic_sched \<times> global_data) option"
where
  "CreateTask h now r name sg =
     (case sg of (s, g) \<Rightarrow>
        if sched_stop s then Some (False, s, g)
        else case RegisterTaskName h name g of
               None \<Rightarrow> None
             | Some (task_id, g1) \<Rightarrow>
                 let c = (new_croutine now)\<lparr>cr_id := task_id, cr_name := name\<rparr>;
                     (b, s1) = DispatchTask r (s\<lparr>routines := (routines s)(r := c)\<rparr>)
                 in Some (b, s1, g1))"

definition NotifyTask :: "u64 \<Rightarrow> classic_sched \<Rightarrow> bool \<times> classic_sched" where
  "NotifyTask crid s = (if sched_stop s then (True, s) else NotifyProcessor crid s)"

fun remove_ids :: "u64 list \<Rightarrow> classic_sched \<Rightarrow> classic_sched option" where
  "remove_ids [] s = Some s"
| "remove_ids (i # is) s = (case RemoveCRoutine i s of None \<Rightarrow> None | Some (b, s1) \<Rightarrow> remove_ids is s1)"

text \<open>Joining the processors' threads is left out.\<close>

definition Sched_Shutdown :: "classic_sched \<Rightarrow> classic_sched option" where
  "Sched_Shutdown s =
     (if sched_stop s then Some s
      else let s1 = fold Classic_Shutdown (ctx_groups s) (s\<lparr>sched_stop := True\<rparr>)
           in remove_ids (map (\<lambda>e. cr_id (routines s1 (snd e))) (id_cr s1)) s1)"

text \<open>A processor of a group takes a coroutine; when it comes back it is released.\<close>

definition take_next :: "(nat \<Rightarrow> int) \<Rightarrow> string \<Rightarrow> classic_sched \<Rightarrow> nat option \<times> classic_sched" where
  "take_next now g s =
     (case Classic_NextRoutine (sched_stop s) now (cr_queues s g) (routines s) of
        (res, h) \<Rightarrow> (res, s\<lparr>routines := h\<rparr>))"

definition resume_and_release :: "(croutine \<Rightarrow> croutine) \<Rightarrow> nat \<Rightarrow> classic_sched \<Rightarrow> classic_sched" where
  "resume_and_release body r s =
     s\<lparr>routines := (routines s)(r := Release (snd (Resume body (routines s r))))\<rparr>"

section \<open>Every registered coroutine is queued once\<close>

definition same_place :: "croutine \<Rightarrow> croutine \<Rightarrow> bool" where
  "same_place c d \<longleftrightarrow> cr_id c = cr_id d \<and> cr_priority c = cr_priority d \<and> cr_group c = cr_group d"

definition sched_ok :: "classic_sched \<Rightarrow> bool" where
  "sched_ok s \<longleftrightarrow> distinct (map fst (id_cr s)) \<and>
     (\<forall>(i, r) \<in> set (id_cr s). cr_id (routines s r) = i \<and> cr_priority (routines s r) < MAX_PRIO) \<and>
     (\<forall>g p. distinct (cr_queues s g p)) \<and>
     (\<forall>g p r. r \<in> set (cr_queues s g p) \<longleftrightarrow>
        (cr_id (routines s r), r) \<in> set (id_cr s) \<and> cr_group (routines s r) = g \<and>
        cr_priority (routines s r) = p)"

lemma sched_ok_distinct: "sched_ok s \<Longrightarrow> distinct (map fst (id_cr s))" "sched_ok s \<Longrightarrow> distinct (cr_queues s g p)"
  unfolding sched_ok_def by simp_all

lemma sched_ok_reg:
  assumes "sched_ok s" "(i, r) \<in> set (id_cr s)"
  shows "cr_id (routines s r) = i" "cr_priority (routines s r) < MAX_PRIO"
  using assms unfolding sched_ok_def by fast+

lemma sched_ok_queue:
  assumes "sched_ok s"
  shows "r \<in> set (cr_queues s g p) \<longleftrightarrow>
    (cr_id (routines s r), r) \<in> set (id_cr s) \<and> cr_group (routines s r) = g \<and> cr_priority (routines s r) = p"
  using assms unfolding sched_ok_def by simp

lemma same_place_refl [simp]: "same_place c c"
  by (simp add: same_place_def)

lemma same_place_trans: "same_place a b \<Longrightarrow> same_place b c \<Longrightarrow> same_place a c"
  by (simp add: same_place_def)

lemma sched_ok_heap:
  assumes "sched_ok s" "\<And>r. same_place (h r) (routines s r)"
  shows "sched_ok (s\<lparr>routines := h\<rparr>)"
  using assms by (simp add: sched_ok_def same_place_def)

lemma sched_ok_notify [simp]: "sched_ok (s\<lparr>notify_grp := n\<rparr>) = sched_ok s" "sched_ok (s\<lparr>sched_stop := b\<rparr>) = sched_ok s"
  by (simp_all add: sched_ok_def)

lemma new_sched_ok: "sched_ok (new_classic_sched confs groups)"
  by (simp add: sched_ok_def new_classic_sched_def)

lemma update_new: "map_of l k = None \<Longrightarrow> AList.update k v l = l @ [(k, v)]"
  by (induction l) (auto split: if_splits)

lemma configure_props:
  "cr_id (configure s c) = cr_id c" "cr_priority (configure s c) < MAX_PRIO"
  by (auto simp: configure_def Let_def MAX_PRIO_def split: option.split)

lemma DispatchTask_ok:
  assumes ok: "sched_ok s" and new: "r \<notin> snd ` set (id_cr s)"
  shows "sched_ok (snd (DispatchTask r s))"
proof (cases "map_of (id_cr s) (cr_id (routines s r))")
  case (Some x)
  then show ?thesis using ok by (simp add: DispatchTask_def Let_def)
next
  case None
  define c where "c = configure s (routines s r)"
  let ?i = "cr_id (routines s r)" and ?s = "snd (DispatchTask r s)"
  have c: "cr_id c = ?i" "cr_priority c < MAX_PRIO" by (simp_all add: c_def configure_props)
  have f: "id_cr ?s = id_cr s @ [(?i, r)]" "routines ?s = (routines s)(r := c)"
    "cr_queues ?s g p = (if g = cr_group c \<and> p = cr_priority c then cr_queues s g p @ [r] else cr_queues s g p)" for g p
    using None by (simp_all add: DispatchTask_def Let_def update_new enqueue_def Classic_Notify_def c_def)
  have old: "distinct (map fst (id_cr s))"
    "\<And>i x. (i, x) \<in> set (id_cr s) \<Longrightarrow> cr_id (routines s x) = i \<and> cr_priority (routines s x) < MAX_PRIO"
    "\<And>g p. distinct (cr_queues s g p)"
    "\<And>g p x. x \<in> set (cr_queues s g p) \<longleftrightarrow> (cr_id (routines s x), x) \<in> set (id_cr s) \<and>
        cr_group (routines s x) = g \<and> cr_priority (routines s x) = p"
    using ok by (auto simp: sched_ok_def)
  have i: "?i \<notin> fst ` set (id_cr s)" using None by (simp add: map_of_eq_None_iff)
  have r: "(j, r) \<notin> set (id_cr s)" for j using new by force
  have d: "distinct (map fst (id_cr ?s))" unfolding f using old(1) i by auto
  have ids: "\<forall>(i, x) \<in> set (id_cr ?s). cr_id (routines ?s x) = i \<and> cr_priority (routines ?s x) < MAX_PRIO"
    unfolding f using old(2) c r by auto
  have qd: "\<forall>g p. distinct (cr_queues ?s g p)"
    unfolding f using old(3,4) r by auto
  have q: "\<forall>g p x. x \<in> set (cr_queues ?s g p) \<longleftrightarrow> (cr_id (routines ?s x), x) \<in> set (id_cr ?s) \<and>
        cr_group (routines ?s x) = g \<and> cr_priority (routines ?s x) = p"
    unfolding f using old(4) c r by auto
  show ?thesis unfolding sched_ok_def by (intro conjI d ids qd q)
qed

lemma erase_routine_spec:
  assumes "erase_routine crid h rs = Some (b, h', rs')" "r \<in> set rs" "\<And>x. x \<in> set rs \<Longrightarrow> cr_id (h x) = crid \<longleftrightarrow> x = r"
    "distinct rs"
  shows "b \<and> rs' = remove1 r rs \<and> h' = h(r := Release (snd (Acquire (Stop (h r)))))"
  using assms
proof (induction rs arbitrary: rs')
  case Nil
  then show ?case by simp
next
  case (Cons x rs)
  show ?case
  proof (cases "x = r")
    case True
    then show ?thesis using Cons.prems(1) Cons.prems(3) [of r] by (auto split: prod.splits bool.splits)
  next
    case False
    then have "cr_id (h x) \<noteq> crid" using Cons.prems(3) [of x] by simp
    then obtain rs'' where e: "erase_routine crid h rs = Some (b, h', rs'')" "rs' = x # rs''"
      using Cons.prems(1) by auto
    have "b \<and> rs'' = remove1 r rs \<and> h' = h(r := Release (snd (Acquire (Stop (h r)))))"
      using e(1) Cons.prems(2-4) False by (intro Cons.IH) auto
    then show ?thesis using e(2) False by simp
  qed
qed

lemma RemoveCRoutine_ok:
  assumes ok: "sched_ok s" and rm: "RemoveCRoutine crid s = Some (b, s')"
  shows "sched_ok s' \<and> b = (map_of (id_cr s) crid \<noteq> None) \<and> id_cr s' = AList.delete crid (id_cr s)"
proof (cases "map_of (id_cr s) crid")
  case None
  then have "s' = s" "\<not> b" using rm by (simp_all add: RemoveCRoutine_def)
  then show ?thesis using ok None by (simp add: delete_idem map_of_eq_None_iff)
next
  case (Some r)
  have old: "distinct (map fst (id_cr s))"
    "\<And>i x. (i, x) \<in> set (id_cr s) \<Longrightarrow> cr_id (routines s x) = i \<and> cr_priority (routines s x) < MAX_PRIO"
    "\<And>g p. distinct (cr_queues s g p)"
    "\<And>g p x. x \<in> set (cr_queues s g p) \<longleftrightarrow> (cr_id (routines s x), x) \<in> set (id_cr s) \<and>
        cr_group (routines s x) = g \<and> cr_priority (routines s x) = p"
    using ok by (auto simp: sched_ok_def)
  have rin: "(crid, r) \<in> set (id_cr s)" using Some by (rule map_of_SomeD)
  let ?c = "routines s r" and ?h = "(routines s)(r := Stop (routines s r))"
  let ?g = "cr_group ?c" and ?p = "cr_priority ?c"
  have cid: "cr_id ?c = crid" using old(2) [OF rin] by simp
  have uniq: "x = r" if "(crid, x) \<in> set (id_cr s)" for x
    using that rin old(1) by (metis eq_key_imp_eq_value)
  obtain h' rs' where e: "erase_routine crid ?h (cr_queues s ?g ?p) = Some (b, h', rs')"
    and s': "s' = s\<lparr>routines := h', id_cr := AList.delete crid (id_cr s),
                cr_queues := (cr_queues s)(?g := (cr_queues s ?g)(?p := rs'))\<rparr>"
    using rm Some cid by (auto simp: RemoveCRoutine_def Classic_RemoveCRoutine_def Let_def Stop_def)
  have rq: "r \<in> set (cr_queues s ?g ?p)" using old(4) rin cid by simp
  have only: "cr_id (?h x) = crid \<longleftrightarrow> x = r" if "x \<in> set (cr_queues s ?g ?p)" for x
    using that old(4) [of x ?g ?p] uniq cid by (auto simp: Stop_def)
  have er: "b" "rs' = remove1 r (cr_queues s ?g ?p)" "h' = ?h(r := Release (snd (Acquire (Stop (?h r)))))"
    using erase_routine_spec [OF e rq only old(3)] by auto
  have place: "same_place (h' x) (routines s x)" for x
    by (simp add: er(3) same_place_def Release_def Acquire_def Stop_def)
  have q': "set (cr_queues s' g p) = set (cr_queues s g p) - (if g = ?g \<and> p = ?p then {r} else {})" for g p
    using old(3) by (simp add: s' er(2))
  have del: "set (id_cr s') = {(i, x) \<in> set (id_cr s). i \<noteq> crid}" by (auto simp: s' AList.delete_eq)
  have r1: "routines s' = h'" by (simp add: s')
  have d: "distinct (map fst (id_cr s'))" unfolding s' using old(1) by (simp add: distinct_delete)
  have ids: "\<forall>(i, x) \<in> set (id_cr s'). cr_id (routines s' x) = i \<and> cr_priority (routines s' x) < MAX_PRIO"
    unfolding r1 del using old(2) place by (auto simp: same_place_def)
  have qd: "\<forall>g p. distinct (cr_queues s' g p)" using old(3) by (simp add: s' er(2))
  have q: "\<forall>g p x. x \<in> set (cr_queues s' g p) \<longleftrightarrow> (cr_id (routines s' x), x) \<in> set (id_cr s') \<and>
        cr_group (routines s' x) = g \<and> cr_priority (routines s' x) = p"
  proof (intro allI)
    fix g p x
    have pl: "cr_id (h' x) = cr_id (routines s x)" "cr_group (h' x) = cr_group (routines s x)"
      "cr_priority (h' x) = cr_priority (routines s x)" using place by (simp_all add: same_place_def)
    show "x \<in> set (cr_queues s' g p) \<longleftrightarrow> (cr_id (routines s' x), x) \<in> set (id_cr s') \<and>
        cr_group (routines s' x) = g \<and> cr_priority (routines s' x) = p"
    proof (cases "x = r")
      case True
      then show ?thesis unfolding r1 del q' pl using old(4) [of r g p] cid by auto
    next
      case False
      then have "cr_id (routines s x) \<noteq> crid \<or> (cr_id (routines s x), x) \<notin> set (id_cr s)" using uniq by auto
      then show ?thesis unfolding r1 del q' pl using old(4) [of x g p] False by auto
    qed
  qed
  have "sched_ok s'" unfolding sched_ok_def by (intro conjI d ids qd q)
  then show ?thesis using er(1) Some by (simp add: s')
qed

lemma first_ready_place:
  "same_place (snd (first_ready now rs h) x) (h x)"
proof (induction rs arbitrary: h)
  case Nil
  then show ?case by simp
next
  case (Cons r rs)
  have u: "same_place (snd (UpdateState t c)) c" for t c
    by (simp add: same_place_def UpdateState_def Let_def)
  let ?c = "snd (UpdateState (now r) ((h r)\<lparr>cr_lock := True\<rparr>))"
  have c: "same_place ?c (h r)" using u [of "now r" "(h r)\<lparr>cr_lock := True\<rparr>"] by (simp add: same_place_def)
  let ?h = "h(r := (if cr_lock (h r) then h r else Release ?c))"
  have "same_place (?h x) (h x)" using c by (simp add: same_place_def Release_def)
  with Cons.IH [of ?h] have rest: "same_place (snd (first_ready now rs ?h) x) (h x)"
    by (rule same_place_trans)
  show ?case
  proof (cases "runnable now h r")
    case True
    then show ?thesis using c by (simp only: first_ready_Cons if_True snd_conv) (simp add: same_place_def)
  next
    case False
    then show ?thesis using rest by (simp only: first_ready_Cons if_False)
  qed
qed

section \<open>Runs\<close>

text \<open>
  What happens to a scheduler: tasks dispatched (a new coroutine at a new address), notified and
  removed, coroutines taken by processors and released after a run that changes neither its id nor
  its place. A removal that has to wait has not happened yet.
\<close>

datatype sched_event = Dispatch nat croutine | Notified u64 | Remove u64 | Taken string "nat \<Rightarrow> int"
  | Ran "croutine \<Rightarrow> croutine" nat

fun sched_step :: "sched_event \<Rightarrow> classic_sched \<Rightarrow> classic_sched" where
  "sched_step (Dispatch r c) s =
     (if r \<in> snd ` set (id_cr s) then s else snd (DispatchTask r (s\<lparr>routines := (routines s)(r := c)\<rparr>)))"
| "sched_step (Notified i) s = snd (NotifyProcessor i s)"
| "sched_step (Remove i) s = (case RemoveCRoutine i s of None \<Rightarrow> s | Some (b, s') \<Rightarrow> s')"
| "sched_step (Taken g now) s = snd (take_next now g s)"
| "sched_step (Ran body r) s = resume_and_release body r s"

definition event_ok :: "sched_event \<Rightarrow> bool" where
  "event_ok e = (case e of Ran body r \<Rightarrow> \<forall>c. same_place (body c) c | _ \<Rightarrow> True)"

lemma sched_step_ok:
  assumes ok: "sched_ok s" and e: "event_ok e"
  shows "sched_ok (sched_step e s)"
proof (cases e)
  case (Dispatch r c)
  show ?thesis
  proof (cases "r \<in> snd ` set (id_cr s)")
    case True
    then show ?thesis using ok Dispatch by simp
  next
    case False
    have "sched_ok (s\<lparr>routines := (routines s)(r := c)\<rparr>)"
    proof -
      have "(i, r) \<notin> set (id_cr s)" for i using False by force
      then show ?thesis using ok unfolding sched_ok_def by (auto split: if_splits)
    qed
    from DispatchTask_ok [OF this, of r] show ?thesis using Dispatch False by simp
  qed
next
  case (Notified i)
  have "sched_ok (s\<lparr>routines := (routines s)(r := c)\<rparr>)" if "same_place c (routines s r)" for r c
    using ok that by (intro sched_ok_heap) auto
  then show ?thesis using ok Notified
    by (auto simp: NotifyProcessor_def Classic_Notify_def Let_def same_place_def SetUpdateFlag_def split: option.split)
next
  case (Remove i)
  then show ?thesis using ok RemoveCRoutine_ok [OF ok, of i] by (auto split: option.split)
next
  case (Taken g now)
  have "sched_ok (s\<lparr>routines := snd (Classic_NextRoutine b now q (routines s))\<rparr>)" for b q
    using ok by (intro sched_ok_heap) (auto simp: Classic_NextRoutine_def scan_prios_concat first_ready_place)
  then show ?thesis using Taken by (simp add: take_next_def split: prod.split) (metis snd_conv)
next
  case (Ran body r)
  have "same_place (Release (snd (Resume body (routines s r)))) (routines s r)"
    using e Ran by (simp add: event_ok_def same_place_def Release_def Resume_def Let_def)
  then have "sched_ok (resume_and_release body r s)"
    unfolding resume_and_release_def using ok by (intro sched_ok_heap) auto
  then show ?thesis by (simp add: Ran)
qed

lemma sched_run_ok: "sched_ok s \<Longrightarrow> \<forall>e \<in> set es. event_ok e \<Longrightarrow> sched_ok (fold sched_step es s)"
  by (induction es arbitrary: s) (simp_all add: sched_step_ok)

text \<open>
  Property C13. After any dispatches, notifications, removals and runs of coroutines, every
  registered task is in the queue of its group and priority, exactly once, and in no other queue;
  what is not registered is in none.
\<close>

theorem registered_tasks_are_queued_once:
  assumes "\<forall>e \<in> set es. event_ok e"
    and "s = fold sched_step es (new_classic_sched confs groups)"
  shows "distinct (cr_queues s g p) \<and>
    {(g, p). r \<in> set (cr_queues s g p)}
      = (if r \<in> snd ` set (id_cr s) then {(cr_group (routines s r), cr_priority (routines s r))} else {}) \<and>
    (r \<in> snd ` set (id_cr s) \<longrightarrow> cr_priority (routines s r) < MAX_PRIO \<and> map_of (id_cr s) (cr_id (routines s r)) = Some r)"
proof -
  have ok: "sched_ok s" unfolding assms(2) by (rule sched_run_ok [OF new_sched_ok assms(1)])
  have reg: "r \<in> snd ` set (id_cr s) \<longleftrightarrow> (cr_id (routines s r), r) \<in> set (id_cr s)"
  proof
    assume "r \<in> snd ` set (id_cr s)"
    then obtain i where i: "(i, r) \<in> set (id_cr s)" by auto
    from sched_ok_reg(1) [OF ok this] i show "(cr_id (routines s r), r) \<in> set (id_cr s)" by simp
  qed (rule image_eqI [rotated], assumption, simp)
  note q = sched_ok_queue [OF ok, of r]
  have "{(g, p). r \<in> set (cr_queues s g p)}
      = (if r \<in> snd ` set (id_cr s) then {(cr_group (routines s r), cr_priority (routines s r))} else {})"
    unfolding q reg by (cases "(cr_id (routines s r), r) \<in> set (id_cr s)") simp_all
  moreover have "r \<in> snd ` set (id_cr s) \<longrightarrow>
      cr_priority (routines s r) < MAX_PRIO \<and> map_of (id_cr s) (cr_id (routines s r)) = Some r"
    unfolding reg using sched_ok_reg(2) [OF ok] map_of_is_SomeI [OF sched_ok_distinct(1) [OF ok]] by simp
  ultimately show ?thesis using sched_ok_distinct(2) [OF ok] by (intro conjI)
qed

definition task :: "u64 \<Rightarrow> string \<Rightarrow> croutine" where
  "task i name = (new_croutine 0)\<lparr>cr_id := i, cr_name := name\<rparr>"

theorem registered_tasks_are_queued_once_witness:
  "distinct (cr_queues (fold sched_step [Dispatch 1 (task 10 ''a''), Dispatch 2 (task 20 ''b''), Remove 10]
     (new_classic_sched (\<lambda>_. Some (30, ''grp'')) [''default_grp''])) ''grp'' 19)"
proof -
  let ?es = "[Dispatch 1 (task 10 ''a''), Dispatch 2 (task 20 ''b''), Remove 10]"
  have "\<forall>e \<in> set ?es. event_ok e" by (simp add: event_ok_def)
  from registered_tasks_are_queued_once [where es = ?es and g = "''grp''" and p = 19 and r = 2, OF this refl]
  show ?thesis by (rule conjunct1)
qed

text \<open>
  A task is created under the id \<open>RegisterTaskName\<close> gives it, which is not its hash when
  another name had that hash first; \<open>RemoveTask\<close> looks the hash up. With two names of one hash,
  removing the second task by its name removes the first and leaves the second running.
\<close>

theorem remove_task_takes_colliding_one:
  "(case CreateTask (\<lambda>_. 5) 0 1 ''a'' (new_classic_sched (\<lambda>_. None) [''grp''], new_global_data) of
      None \<Rightarrow> False
    | Some (b1, s1, g1) \<Rightarrow>
        (case CreateTask (\<lambda>_. 5) 0 2 ''b'' (s1, g1) of
           None \<Rightarrow> False
         | Some (b2, s2, g2) \<Rightarrow>
             (case RemoveTask (\<lambda>_. 5) ''b'' s2 of
                None \<Rightarrow> False
              | Some (b3, s3) \<Rightarrow>
                  b1 \<and> b2 \<and> b3 \<and> map (\<lambda>e. cr_name (routines s3 (snd e))) (id_cr s3) = [''b''] \<and>
                  cr_queues s3 ''grp'' 0 = [2])))"
  by code_simp

end
