(* ===== verification/SchedulerChoreography.thy ===== *)
theory SchedulerChoreography
  imports SchedulerClassic "HOL-Library.Multiset"
begin

text \<open>
  The choreography scheduling policy (\<open>cyber/scheduler/policy/scheduler_choreography.cc\<close>,
  \<open>choreography_context.cc\<close>): a task whose configuration names a processor is queued at that processor
  by priority, every other one in the pool, which the classic contexts of the default group share. The
  per-id mutex makes each operation one step; None is an operation that waits for a coroutine a
  processor holds.
\<close>

record choreo_sched =
  ch_stop :: bool
  ch_id_cr :: "(u64 \<times> nat) list"
  ch_confs :: "string \<Rightarrow> (nat \<times> int option) option"   \<comment> \<open>priority, and the processor if one is set\<close>
  proc_num :: nat
  ctx_queues :: "nat \<Rightarrow> cr_queue"
  ctx_notify :: "nat \<Rightarrow> int"
  pool_queues :: "nat \<Rightarrow> nat list"
  pool_notify :: "string \<Rightarrow> int"
  ch_routines :: routine_heap

text \<open>
  The constructor, for the number of processors and the tasks of the configuration; without a number of
  processors the default of the global configuration or 2 is taken.
\<close>

definition choose_proc_num :: "nat \<Rightarrow> nat option \<Rightarrow> nat" where
  "choose_proc_num n dflt = (if n = 0 then (case dflt of Some d \<Rightarrow> d | None \<Rightarrow> 2) else n)"

definition new_choreo_sched :: "(string \<Rightarrow> (nat \<times> int option) option) \<Rightarrow> nat \<Rightarrow> nat option \<Rightarrow> choreo_sched" where
  "new_choreo_sched confs n dflt =
     \<lparr>ch_stop = False, ch_id_cr = [], ch_confs = confs, proc_num = choose_proc_num n dflt, ctx_queues = (\<lambda>_. []),
      ctx_notify = (\<lambda>_. 0), pool_queues = (\<lambda>_. []), pool_notify = (\<lambda>_. 0), ch_routines = (\<lambda>_. new_croutine 0)\<rparr>"

definition DEFAULT_GROUP_NAME :: string where
  "DEFAULT_GROUP_NAME = ''default_grp''"

text \<open>The processor id as the \<open>uint32_t\<close> it is compared as.\<close>

definition pid_of :: "croutine \<Rightarrow> nat" where
  "pid_of c = nat (cr_processor_id c mod 2 ^ 32)"

definition choreo_configure :: "choreo_sched \<Rightarrow> croutine \<Rightarrow> croutine" where
  "choreo_configure s c =
     (case ch_confs s (cr_name c) of
        None \<Rightarrow> c
      | Some (prio, proc) \<Rightarrow>
          let c1 = c\<lparr>cr_priority := prio\<rparr>
          in case proc of Some p \<Rightarrow> c1\<lparr>cr_processor_id := p\<rparr> | None \<Rightarrow> c1)"

definition to_pool :: "croutine \<Rightarrow> croutine" where
  "to_pool c =
     (let c1 = (if cr_priority c \<ge> MAX_PRIO then c\<lparr>cr_priority := MAX_PRIO - 1\<rparr> else c)
      in c1\<lparr>cr_group := DEFAULT_GROUP_NAME\<rparr>)"

definition Choreo_DispatchTask :: "nat \<Rightarrow> choreo_sched \<Rightarrow> bool \<times> choreo_sched" where
  "Choreo_DispatchTask r s =
     (let c = choreo_configure s (ch_routines s r);
          s1 = s\<lparr>ch_routines := (ch_routines s)(r := c)\<rparr>
      in if map_of (ch_id_cr s1) (cr_id c) \<noteq> None then (False, s1)
         else
           let s2 = s1\<lparr>ch_id_cr := AList.update (cr_id c) r (ch_id_cr s1)\<rparr>; pid = pid_of c in
           if pid < proc_num s2 then
             (True, s2\<lparr>ctx_queues := (ctx_queues s2)(pid := snd (Choreo_Enqueue r (ch_routines s2) (ctx_queues s2 pid)))\<rparr>)
           else
             let c1 = to_pool c; p = cr_priority c1
             in (True, s2\<lparr>ch_routines := (ch_routines s2)(r := c1), pool_queues := (pool_queues s2)(p := pool_queues s2 p @ [r])\<rparr>))"

definition Choreo_NotifyProcessor :: "u64 \<Rightarrow> choreo_sched \<Rightarrow> bool \<times> choreo_sched" where
  "Choreo_NotifyProcessor crid s =
     (if ch_stop s then (True, s)
      else case map_of (ch_id_cr s) crid of
             None \<Rightarrow> (False, s)
           | Some r \<Rightarrow>
               let c = ch_routines s r; pid = pid_of c;
                   c1 = (if cr_state c = DATA_WAIT \<or> cr_state c = IO_WAIT then SetUpdateFlag c else c);
                   s1 = s\<lparr>ch_routines := (ch_routines s)(r := c1)\<rparr>
               in if pid < proc_num s
                  then (True, s1\<lparr>ctx_notify := (ctx_notify s1)(pid := ctx_Notify (ctx_notify s1 pid))\<rparr>)
                  else (True, s1\<lparr>pool_notify := (pool_notify s1)(cr_group c1 := ctx_Notify (pool_notify s1 (cr_group c1)))\<rparr>))"

text \<open>\<open>ClassicContext::RemoveCRoutine\<close> looks in the queue of the group, which is the pool's.\<close>

definition Choreo_Sched_RemoveCRoutine :: "u64 \<Rightarrow> choreo_sched \<Rightarrow> (bool \<times> choreo_sched) option" where
  "Choreo_Sched_RemoveCRoutine crid s =
     (case map_of (ch_id_cr s) crid of
        None \<Rightarrow> Some (False, s)
      | Some r \<Rightarrow>
          let pid = pid_of (ch_routines s r);
              s1 = s\<lparr>ch_routines := (ch_routines s)(r := Stop (ch_routines s r)), ch_id_cr := AList.delete crid (ch_id_cr s)\<rparr>
          in if pid < proc_num s1 then
               map_option (\<lambda>(b, h, q). (b, s1\<lparr>ch_routines := h, ctx_queues := (ctx_queues s1)(pid := q)\<rparr>))
                 (Choreo_RemoveCRoutine crid (ch_routines s1) (ctx_queues s1 pid))
             else
               let c = ch_routines s1 r; p = cr_priority c in
               map_option (\<lambda>(b, h, q). (b, s1\<lparr>ch_routines := h, pool_queues := (pool_queues s1)(p := q)\<rparr>))
                 (erase_routine (cr_id c) (ch_routines s1) (pool_queues s1 p)))"

definition Choreo_RemoveTask :: "(string \<Rightarrow> u64) \<Rightarrow> string \<Rightarrow> choreo_sched \<Rightarrow> (bool \<times> choreo_sched) option" where
  "Choreo_RemoveTask h name s = (if ch_stop s then Some (True, s) else Choreo_Sched_RemoveCRoutine (h name) s)"

text \<open>A processor with a context of its own takes a coroutine, or one of the pool does.\<close>

definition choreo_take :: "(nat \<Rightarrow> int) \<Rightarrow> nat \<Rightarrow> choreo_sched \<Rightarrow> nat option \<times> choreo_sched" where
  "choreo_take now pid s =
     (if pid < proc_num s then
        (case Choreo_NextRoutine (ch_stop s) now (ctx_queues s pid) (ch_routines s) of (res, h) \<Rightarrow> (res, s\<lparr>ch_routines := h\<rparr>))
      else
        (case Classic_NextRoutine (ch_stop s) now (pool_queues s) (ch_routines s) of (res, h) \<Rightarrow> (res, s\<lparr>ch_routines := h\<rparr>)))"

definition choreo_ran :: "(croutine \<Rightarrow> croutine) \<Rightarrow> nat \<Rightarrow> choreo_sched \<Rightarrow> choreo_sched" where
  "choreo_ran body r s = s\<lparr>ch_routines := (ch_routines s)(r := Release (snd (Resume body (ch_routines s r))))\<rparr>"

section \<open>Every task has one place\<close>

text \<open>The place of a coroutine: the queue of its processor or the pool's queue of its priority.\<close>

datatype place = At_processor nat | In_pool nat

definition place_of :: "choreo_sched \<Rightarrow> croutine \<Rightarrow> place" where
  "place_of s c = (if pid_of c < proc_num s then At_processor (pid_of c) else In_pool (cr_priority c))"

fun queue_at :: "choreo_sched \<Rightarrow> place \<Rightarrow> nat list" where
  "queue_at s (At_processor p) = (if p < proc_num s then map snd (ctx_queues s p) else [])"
| "queue_at s (In_pool p) = pool_queues s p"

definition same_spot :: "croutine \<Rightarrow> croutine \<Rightarrow> bool" where
  "same_spot c d \<longleftrightarrow> same_place c d \<and> cr_processor_id c = cr_processor_id d"

definition choreo_ok :: "choreo_sched \<Rightarrow> bool" where
  "choreo_ok s \<longleftrightarrow> distinct (map fst (ch_id_cr s)) \<and>
     (\<forall>(i, r)\<in>set (ch_id_cr s). cr_id (ch_routines s r) = i \<and>
        (\<not> pid_of (ch_routines s r) < proc_num s \<longrightarrow> cr_priority (ch_routines s r) < MAX_PRIO)) \<and>
     (\<forall>x. distinct (queue_at s x)) \<and>
     (\<forall>x r. r \<in> set (queue_at s x) \<longleftrightarrow> (cr_id (ch_routines s r), r) \<in> set (ch_id_cr s) \<and> place_of s (ch_routines s r) = x) \<and>
     (\<forall>p<proc_num s. sorted_wrt (\<ge>) (map fst (ctx_queues s p)) \<and>
        (\<forall>(i, r)\<in>set (ctx_queues s p). i = cr_priority (ch_routines s r)))"

lemma choreo_ok_parts:
  assumes "choreo_ok s"
  shows "distinct (map fst (ch_id_cr s))"
    "(i, r) \<in> set (ch_id_cr s) \<Longrightarrow> cr_id (ch_routines s r) = i"
    "(i, r) \<in> set (ch_id_cr s) \<Longrightarrow> \<not> pid_of (ch_routines s r) < proc_num s \<Longrightarrow> cr_priority (ch_routines s r) < MAX_PRIO"
    "distinct (queue_at s x)"
    "r \<in> set (queue_at s x) \<longleftrightarrow> (cr_id (ch_routines s r), r) \<in> set (ch_id_cr s) \<and> place_of s (ch_routines s r) = x"
    "p < proc_num s \<Longrightarrow> sorted_wrt (\<ge>) (map fst (ctx_queues s p))"
    "p < proc_num s \<Longrightarrow> (j, r) \<in> set (ctx_queues s p) \<Longrightarrow> j = cr_priority (ch_routines s r)"
  using assms unfolding choreo_ok_def by (simp_all, fast+)

lemma same_spot_refl [simp]: "same_spot c c"
  by (simp add: same_spot_def)

lemma same_spot_trans: "same_spot a b \<Longrightarrow> same_spot b c \<Longrightarrow> same_spot a c"
  using same_place_trans by (auto simp: same_spot_def)

lemma queue_at_heap [simp]: "queue_at (s\<lparr>ch_routines := h\<rparr>) x = queue_at s x"
  by (cases x) simp_all

lemma choreo_ok_heap:
  assumes "choreo_ok s" "\<And>r. same_spot (h r) (ch_routines s r)"
  shows "choreo_ok (s\<lparr>ch_routines := h\<rparr>)"
  using assms by (simp add: choreo_ok_def same_spot_def same_place_def pid_of_def place_of_def)

lemma queue_at_notify [simp]:
  "queue_at (s\<lparr>ctx_notify := n\<rparr>) x = queue_at s x" "queue_at (s\<lparr>pool_notify := m\<rparr>) x = queue_at s x"
  by (cases x; simp)+

lemma choreo_ok_notify [simp]:
  "choreo_ok (s\<lparr>ctx_notify := n\<rparr>) = choreo_ok s" "choreo_ok (s\<lparr>pool_notify := m\<rparr>) = choreo_ok s"
  by (simp_all add: choreo_ok_def place_of_def)

lemma new_choreo_ok: "choreo_ok (new_choreo_sched confs n dflt)"
proof -
  have "queue_at (new_choreo_sched confs n dflt) x = []" for x by (cases x) (simp_all add: new_choreo_sched_def)
  then show ?thesis by (simp add: choreo_ok_def) (simp add: new_choreo_sched_def)
qed

section \<open>Every operation keeps it\<close>

lemma Choreo_Enqueue_queue:
  assumes "sorted_wrt (\<ge>) (map fst q)"
  shows "set (snd (Choreo_Enqueue r h q)) = insert (cr_priority (h r), r) (set q)"
    "sorted_wrt (\<ge>) (map fst (snd (Choreo_Enqueue r h q)))"
    "mset (snd (Choreo_Enqueue r h q)) = add_mset (cr_priority (h r), r) (mset q)"
proof -
  let ?P = "\<lambda>e :: nat \<times> nat. fst e \<ge> cr_priority (h r)"
  have e: "snd (Choreo_Enqueue r h q) = takeWhile ?P q @ (cr_priority (h r), r) # dropWhile ?P q"
    by (simp add: Choreo_Enqueue_def Let_def)
  show "mset (snd (Choreo_Enqueue r h q)) = add_mset (cr_priority (h r), r) (mset q)"
  proof -
    have "mset q = mset (takeWhile ?P q) + mset (dropWhile ?P q)" by (metis mset_append takeWhile_dropWhile_id)
    then show ?thesis by (simp add: e)
  qed
  then show "set (snd (Choreo_Enqueue r h q)) = insert (cr_priority (h r), r) (set q)"
    by (metis set_mset_add_mset_insert set_mset_mset)
  have "sorted_wrt (\<ge>) (map fst (takeWhile ?P q) @ map fst (dropWhile ?P q))"
    using assms by (metis map_append takeWhile_dropWhile_id)
  then have s: "sorted_wrt (\<ge>) (map fst (takeWhile ?P q))" "sorted_wrt (\<ge>) (map fst (dropWhile ?P q))"
    "\<forall>x\<in>set (takeWhile ?P q). \<forall>y\<in>set (dropWhile ?P q). fst x \<ge> fst y"
    unfolding sorted_wrt_append by auto
  have big: "\<forall>x\<in>set (takeWhile ?P q). fst x \<ge> cr_priority (h r)" by (auto dest: set_takeWhileD)
  have small: "\<forall>y\<in>set (dropWhile ?P q). fst y \<le> cr_priority (h r)"
  proof (cases "dropWhile ?P q")
    case (Cons y ys)
    then have "fst y < cr_priority (h r)" using hd_dropWhile [of ?P q] by simp
    then show ?thesis using s(2) unfolding Cons by auto
  next
    case Nil
    show ?thesis unfolding Nil by simp
  qed
  show "sorted_wrt (\<ge>) (map fst (snd (Choreo_Enqueue r h q)))"
    using s big small by (simp add: e sorted_wrt_append)
qed

text \<open>Adding a new coroutine at its place.\<close>

lemma choreo_ok_add:
  assumes ok: "choreo_ok s" and new: "r \<notin> snd ` set (ch_id_cr s)" "cr_id c \<notin> fst ` set (ch_id_cr s)"
    and s': "ch_id_cr s' = ch_id_cr s @ [(cr_id c, r)]" "ch_routines s' = (ch_routines s)(r := c)" "proc_num s' = proc_num s"
    and q: "\<And>x. mset (queue_at s' x) = (if x = place_of s c then add_mset r (mset (queue_at s x)) else mset (queue_at s x))"
    and prio: "\<not> pid_of c < proc_num s \<longrightarrow> cr_priority c < MAX_PRIO"
    and sorted: "\<And>p. p < proc_num s \<Longrightarrow> sorted_wrt (\<ge>) (map fst (ctx_queues s' p)) \<and>
      (\<forall>(i, x)\<in>set (ctx_queues s' p). i = cr_priority (((ch_routines s)(r := c)) x))"
  shows "choreo_ok s'"
proof -
  have nr: "(j, r) \<notin> set (ch_id_cr s)" for j using new(1) by force
  note old = choreo_ok_parts [OF ok]
  have pl: "place_of s' x = place_of s x" for x by (simp add: place_of_def s'(3))
  have set: "set (queue_at s' x) = (if x = place_of s c then insert r (set (queue_at s x)) else set (queue_at s x))" for x
    using q [of x] by (metis set_mset_add_mset_insert set_mset_mset)
  have nq: "r \<notin> set (queue_at s x)" for x using old(5) [of r x] nr by auto
  have d: "distinct (map fst (ch_id_cr s'))" using old(1) new(2) by (simp add: s'(1))
  have ids: "\<forall>(i, x)\<in>set (ch_id_cr s'). cr_id (ch_routines s' x) = i \<and>
      (\<not> pid_of (ch_routines s' x) < proc_num s' \<longrightarrow> cr_priority (ch_routines s' x) < MAX_PRIO)"
    using old(2,3) nr prio by (auto simp: s')
  have qd: "\<forall>x. distinct (queue_at s' x)"
  proof
    fix x
    have "distinct (queue_at s x)" by (rule old(4))
    moreover have "mset (queue_at s' x) = mset (if x = place_of s c then r # queue_at s x else queue_at s x)"
      using q [of x] by simp
    ultimately show "distinct (queue_at s' x)" using nq [of x] by (metis distinct.simps(2) mset_eq_imp_distinct_iff)
  qed
  have mem: "\<forall>x y. y \<in> set (queue_at s' x) \<longleftrightarrow>
      (cr_id (ch_routines s' y), y) \<in> set (ch_id_cr s') \<and> place_of s' (ch_routines s' y) = x"
    using old(5) nr nq by (auto simp: set s'(1,2) pl)
  show ?thesis unfolding choreo_ok_def using d ids qd mem sorted by (simp add: s'(2,3))
qed

lemma configure_spot: "cr_id (choreo_configure s c) = cr_id c"
  by (simp add: choreo_configure_def Let_def split: option.split)

lemma Choreo_DispatchTask_ok:
  assumes ok: "choreo_ok s" and new: "r \<notin> snd ` set (ch_id_cr s)"
  shows "choreo_ok (snd (Choreo_DispatchTask r s))"
proof -
  define c where "c = choreo_configure s (ch_routines s r)"
  have id: "cr_id c = cr_id (ch_routines s r)" by (simp add: c_def configure_spot)
  have nr: "(j, r) \<notin> set (ch_id_cr s)" for j using new by force
  note old = choreo_ok_parts [OF ok]
  have nq: "r \<notin> set (queue_at s x)" for x using old(5) [of r x] nr by auto
  show ?thesis
  proof (cases "map_of (ch_id_cr s) (cr_id c)")
    case (Some x)
    have "choreo_ok (s\<lparr>ch_routines := (ch_routines s)(r := c)\<rparr>)"
      unfolding choreo_ok_def using old nr nq
      by (auto simp: place_of_def pid_of_def) (metis nq queue_at.simps(1) image_eqI snd_conv list.set_map)+
    then show ?thesis using Some by (simp add: Choreo_DispatchTask_def c_def [symmetric] Let_def)
  next
    case None
    then have ni: "cr_id c \<notin> fst ` set (ch_id_cr s)" by (simp add: map_of_eq_None_iff)
    have u: "AList.update (cr_id c) r (ch_id_cr s) = ch_id_cr s @ [(cr_id c, r)]" by (rule update_new [OF None])
    show ?thesis
    proof (cases "pid_of c < proc_num s")
      case True
      let ?p = "pid_of c" let ?h = "(ch_routines s)(r := c)"
      let ?q = "snd (Choreo_Enqueue r ?h (ctx_queues s ?p))"
      note E = Choreo_Enqueue_queue [OF old(6) [OF True], of r ?h]
      have nc: "(j, r) \<notin> set (ctx_queues s p)" if "p < proc_num s" for p j
        using nq [of "At_processor p"] that by force
      show ?thesis
      proof (rule choreo_ok_add [OF ok new, of c])
        show "mset (queue_at (snd (Choreo_DispatchTask r s)) x) =
          (if x = place_of s c then add_mset r (mset (queue_at s x)) else mset (queue_at s x))" for x
          using None True E(3) by (cases x) (auto simp: Choreo_DispatchTask_def c_def [symmetric] Let_def place_of_def)
        show "sorted_wrt (\<ge>) (map fst (ctx_queues (snd (Choreo_DispatchTask r s)) p)) \<and>
          (\<forall>(i, x)\<in>set (ctx_queues (snd (Choreo_DispatchTask r s)) p). i = cr_priority (?h x))" if "p < proc_num s" for p
          using None True E(1,2) old(6,7) [OF that] nc [OF that] by (auto simp: Choreo_DispatchTask_def c_def [symmetric] Let_def)
      qed (use None True ni u in \<open>simp_all add: Choreo_DispatchTask_def c_def [symmetric] Let_def\<close>)
    next
      case False
      let ?c = "to_pool c"
      have tp: "cr_id ?c = cr_id c" "pid_of ?c = pid_of c" "cr_priority ?c < MAX_PRIO"
        by (simp_all add: to_pool_def Let_def pid_of_def MAX_PRIO_def)
      have nc: "(j, r) \<notin> set (ctx_queues s p)" if "p < proc_num s" for p j
        using nq [of "At_processor p"] that by force
      show ?thesis
      proof (rule choreo_ok_add [OF ok new, of ?c])
        show "mset (queue_at (snd (Choreo_DispatchTask r s)) x) =
          (if x = place_of s ?c then add_mset r (mset (queue_at s x)) else mset (queue_at s x))" for x
          using None False tp(2) by (cases x) (auto simp: Choreo_DispatchTask_def c_def [symmetric] Let_def place_of_def)
        show "sorted_wrt (\<ge>) (map fst (ctx_queues (snd (Choreo_DispatchTask r s)) p)) \<and>
          (\<forall>(i, x)\<in>set (ctx_queues (snd (Choreo_DispatchTask r s)) p). i = cr_priority (((ch_routines s)(r := ?c)) x))"
          if "p < proc_num s" for p
          using None False old(6,7) [OF that] nc [OF that] by (auto simp: Choreo_DispatchTask_def c_def [symmetric] Let_def)
      qed (use None False ni u tp in \<open>simp_all add: Choreo_DispatchTask_def c_def [symmetric] Let_def\<close>)
    qed
  qed
qed

lemma Choreo_RemoveCRoutine_spec:
  assumes "Choreo_RemoveCRoutine crid h q = Some (b, h', q')" "r \<in> snd ` set q"
    "\<And>x. x \<in> snd ` set q \<Longrightarrow> cr_id (h x) = crid \<longleftrightarrow> x = r" "distinct (map snd q)"
  shows "b \<and> q' = filter (\<lambda>e. snd e \<noteq> r) q \<and> h' = h(r := Release (snd (Acquire (Stop (h r)))))"
  using assms
proof (induction q arbitrary: q')
  case (Cons e q)
  obtain p x where e: "e = (p, x)" by fastforce
  show ?case
  proof (cases "x = r")
    case True
    have "filter (\<lambda>e. snd e \<noteq> r) q = q"
      using Cons.prems(4) True by (intro filter_True) (auto simp: e)
    then show ?thesis using Cons.prems(1) Cons.prems(3) [of r] True by (auto simp: e split: prod.splits bool.splits)
  next
    case False
    then have "cr_id (h x) \<noteq> crid" using Cons.prems(3) [of x] by (simp add: e)
    then obtain q'' where r: "Choreo_RemoveCRoutine crid h q = Some (b, h', q'')" "q' = (p, x) # q''"
      using Cons.prems(1) by (auto simp: e)
    have "b \<and> q'' = filter (\<lambda>e. snd e \<noteq> r) q \<and> h' = h(r := Release (snd (Acquire (Stop (h r)))))"
      using Cons.prems(2-4) False by (intro Cons.IH [OF r(1)]) (auto simp: e)
    then show ?thesis using r(2) False by (simp add: e)
  qed
qed simp

text \<open>Taking a coroutine out of its place.\<close>

lemma choreo_ok_remove:
  assumes ok: "choreo_ok s" and r: "(crid, r) \<in> set (ch_id_cr s)"
    and s': "ch_id_cr s' = AList.delete crid (ch_id_cr s)" "proc_num s' = proc_num s"
      "\<And>x. same_spot (ch_routines s' x) (ch_routines s x)"
    and q: "\<And>x. queue_at s' x = (if x = place_of s (ch_routines s r) then remove1 r (queue_at s x) else queue_at s x)"
    and sub: "\<And>p. p < proc_num s \<Longrightarrow> \<exists>P. ctx_queues s' p = filter P (ctx_queues s p)"
  shows "choreo_ok s'"
proof -
  note old = choreo_ok_parts [OF ok]
  have same: "cr_id (ch_routines s' x) = cr_id (ch_routines s x)" "cr_priority (ch_routines s' x) = cr_priority (ch_routines s x)"
    "pid_of (ch_routines s' x) = pid_of (ch_routines s x)" "place_of s' (ch_routines s' x) = place_of s (ch_routines s x)" for x
    using s'(3) [of x] by (auto simp: same_spot_def same_place_def pid_of_def place_of_def s'(2))
  have id: "cr_id (ch_routines s r) = crid" by (rule old(2) [OF r])
  have uniq: "x = r" if "(crid, x) \<in> set (ch_id_cr s)" for x using that r old(1) by (metis eq_key_imp_eq_value)
  have del: "set (ch_id_cr s') = {(i, x) \<in> set (ch_id_cr s). i \<noteq> crid}" by (auto simp: s'(1) AList.delete_eq)
  have d: "distinct (map fst (ch_id_cr s'))" using old(1) by (simp add: s'(1) distinct_delete)
  have ids: "\<forall>(i, x)\<in>set (ch_id_cr s'). cr_id (ch_routines s' x) = i \<and>
      (\<not> pid_of (ch_routines s' x) < proc_num s' \<longrightarrow> cr_priority (ch_routines s' x) < MAX_PRIO)"
    using old(2,3) by (auto simp: del same s'(2))
  have qd: "\<forall>x. distinct (queue_at s' x)" using old(4) by (simp add: q)
  have mem: "\<forall>x y. y \<in> set (queue_at s' x) \<longleftrightarrow>
      (cr_id (ch_routines s' y), y) \<in> set (ch_id_cr s') \<and> place_of s' (ch_routines s' y) = x"
  proof (intro allI)
    fix x y
    show "y \<in> set (queue_at s' x) \<longleftrightarrow>
      (cr_id (ch_routines s' y), y) \<in> set (ch_id_cr s') \<and> place_of s' (ch_routines s' y) = x"
    proof (cases "y = r")
      case True
      then show ?thesis using old(4) [of x] old(5) [of r x] id by (auto simp: q del same)
    next
      case False
      then have "cr_id (ch_routines s y) \<noteq> crid \<or> (cr_id (ch_routines s y), y) \<notin> set (ch_id_cr s)" using uniq by auto
      then show ?thesis using old(4) [of x] old(5) [of y x] False by (auto simp: q del same)
    qed
  qed
  have "sorted_wrt (\<ge>) (map fst (ctx_queues s' p)) \<and> (\<forall>(i, x)\<in>set (ctx_queues s' p). i = cr_priority (ch_routines s' x))"
    if p: "p < proc_num s" for p
  proof -
    obtain P where P: "ctx_queues s' p = filter P (ctx_queues s p)" using sub [OF p] by blast
    have "sorted_wrt (\<lambda>a b. fst a \<ge> fst b) (ctx_queues s p)" using old(6) [OF p] by (simp add: sorted_wrt_map)
    then have "sorted_wrt (\<lambda>a b. fst a \<ge> fst b) (filter P (ctx_queues s p))" by (rule sorted_wrt_filter)
    then show ?thesis using old(7) [OF p] by (auto simp: P sorted_wrt_map same)
  qed
  then show ?thesis unfolding choreo_ok_def using d ids qd mem by (simp add: s'(2))
qed

lemma remove1_filter: "distinct (map snd q) \<Longrightarrow> map snd (filter (\<lambda>e. snd e \<noteq> r) q) = remove1 r (map snd q)"
  by (induction q) (auto simp: filter_id_conv remove1_idem)

lemma Choreo_Sched_RemoveCRoutine_ok:
  assumes ok: "choreo_ok s" and rm: "Choreo_Sched_RemoveCRoutine crid s = Some (b, s')"
  shows "choreo_ok s' \<and> b = (map_of (ch_id_cr s) crid \<noteq> None)"
proof (cases "map_of (ch_id_cr s) crid")
  case None
  then show ?thesis using rm ok by (simp add: Choreo_Sched_RemoveCRoutine_def)
next
  case (Some r)
  note old = choreo_ok_parts [OF ok]
  have rin: "(crid, r) \<in> set (ch_id_cr s)" using Some by (rule map_of_SomeD)
  let ?c = "ch_routines s r" and ?h = "(ch_routines s)(r := Stop (ch_routines s r))"
  have cid: "cr_id ?c = crid" by (rule old(2) [OF rin])
  have uniq: "x = r" if "(crid, x) \<in> set (ch_id_cr s)" for x using that rin old(1) by (metis eq_key_imp_eq_value)
  have rq: "r \<in> set (queue_at s (place_of s ?c))" using old(5) rin cid by simp
  have only: "cr_id (?h x) = crid \<longleftrightarrow> x = r" if "x \<in> set (queue_at s y)" for x y
    using that old(5) [of x y] uniq cid by (auto simp: Stop_def)
  let ?h' = "?h(r := Release (snd (Acquire (Stop (?h r)))))"
  have spot: "same_spot (?h' x) (ch_routines s x)" for x
    by (simp add: same_spot_def same_place_def Release_def Acquire_def Stop_def)
  show ?thesis
  proof (cases "pid_of ?c < proc_num s")
    case True
    let ?p = "pid_of ?c"
    have pl: "place_of s ?c = At_processor ?p" using True by (simp add: place_of_def)
    obtain h' q' where e: "Choreo_RemoveCRoutine crid ?h (ctx_queues s ?p) = Some (b, h', q')"
      and s': "s' = s\<lparr>ch_routines := h', ch_id_cr := AList.delete crid (ch_id_cr s), ctx_queues := (ctx_queues s)(?p := q')\<rparr>"
      using rm Some True by (auto simp: Choreo_Sched_RemoveCRoutine_def Let_def)
    have dq: "distinct (map snd (ctx_queues s ?p))" using old(4) [of "At_processor ?p"] True by simp
    have E: "b" "q' = filter (\<lambda>e. snd e \<noteq> r) (ctx_queues s ?p)" "h' = ?h'"
      using Choreo_RemoveCRoutine_spec [OF e, of r] rq only [of _ "At_processor ?p"] dq True pl by auto
    have "choreo_ok s'"
    proof (rule choreo_ok_remove [OF ok rin])
      show "queue_at s' x = (if x = place_of s ?c then remove1 r (queue_at s x) else queue_at s x)" for x
        unfolding pl using True remove1_filter [OF dq, of r] by (cases x) (auto simp: s' E(2))
      show "\<exists>P. ctx_queues s' p = filter P (ctx_queues s p)" for p
        by (cases "p = ?p") (auto simp: s' E(2) intro: exI [of _ "\<lambda>_. True"])
    qed (use spot in \<open>simp_all add: s' E(3)\<close>)
    then show ?thesis using E(1) Some by simp
  next
    case False
    let ?p = "cr_priority ?c"
    have pl: "place_of s ?c = In_pool ?p" using False by (simp add: place_of_def)
    have pid: "pid_of (Stop ?c) = pid_of ?c" "cr_priority (Stop ?c) = ?p" "cr_id (Stop ?c) = crid" using cid by (simp_all add: Stop_def pid_of_def)
    obtain h' q' where e: "erase_routine crid ?h (pool_queues s ?p) = Some (b, h', q')"
      and s': "s' = s\<lparr>ch_routines := h', ch_id_cr := AList.delete crid (ch_id_cr s), pool_queues := (pool_queues s)(?p := q')\<rparr>"
      using rm Some False pid by (auto simp: Choreo_Sched_RemoveCRoutine_def Let_def)
    have E: "b" "q' = remove1 r (pool_queues s ?p)" "h' = ?h'"
      using erase_routine_spec [OF e, of r] rq only [of _ "In_pool ?p"] old(4) [of "In_pool ?p"] pl by auto
    have "choreo_ok s'"
    proof (rule choreo_ok_remove [OF ok rin])
      show "queue_at s' x = (if x = place_of s ?c then remove1 r (queue_at s x) else queue_at s x)" for x
        unfolding pl by (cases x) (auto simp: s' E(2))
      show "\<exists>P. ctx_queues s' p = filter P (ctx_queues s p)" for p
        by (rule exI [of _ "\<lambda>_. True"]) (simp add: s')
    qed (use spot in \<open>simp_all add: s' E(3)\<close>)
    then show ?thesis using E(1) Some by simp
  qed
qed

section \<open>Runs\<close>

lemma first_ready_spot: "same_spot (snd (first_ready now rs h) x) (h x)"
proof -
  have u: "cr_processor_id (snd (UpdateState t c)) = cr_processor_id c" for t c
    by (simp add: UpdateState_def Let_def)
  have "cr_processor_id (snd (first_ready now rs h) x) = cr_processor_id (h x)"
  proof (induction rs arbitrary: h)
    case (Cons r rs)
    show ?case
    proof (cases "runnable now h r")
      case True
      then show ?thesis by (simp only: first_ready_Cons if_True snd_conv) (simp add: u)
    next
      case False
      then show ?thesis by (simp only: first_ready_Cons if_False Cons.IH) (simp add: u Release_def)
    qed
  qed simp
  then show ?thesis using first_ready_place by (simp add: same_spot_def)
qed

text \<open>
  What happens to a scheduler: new coroutines dispatched, tasks notified and removed, coroutines taken
  by the processors and given back after a run that changes neither their id nor their place.
\<close>

datatype choreo_event = Dispatched nat croutine | Notify_task u64 | Remove_task u64 | Take "nat \<Rightarrow> int" nat
  | Ran_task "croutine \<Rightarrow> croutine" nat

fun choreo_step :: "choreo_event \<Rightarrow> choreo_sched \<Rightarrow> choreo_sched" where
  "choreo_step (Dispatched r c) s =
     (if r \<in> snd ` set (ch_id_cr s) then s else snd (Choreo_DispatchTask r (s\<lparr>ch_routines := (ch_routines s)(r := c)\<rparr>)))"
| "choreo_step (Notify_task i) s = snd (Choreo_NotifyProcessor i s)"
| "choreo_step (Remove_task i) s = (case Choreo_Sched_RemoveCRoutine i s of None \<Rightarrow> s | Some (b, s') \<Rightarrow> s')"
| "choreo_step (Take now p) s = snd (choreo_take now p s)"
| "choreo_step (Ran_task body r) s = choreo_ran body r s"

definition keeps_spot :: "choreo_event \<Rightarrow> bool" where
  "keeps_spot e = (case e of Ran_task body r \<Rightarrow> \<forall>c. same_spot (body c) c | _ \<Rightarrow> True)"

lemma choreo_step_ok:
  assumes ok: "choreo_ok s" and e: "keeps_spot e"
  shows "choreo_ok (choreo_step e s)"
proof (cases e)
  case (Dispatched r c)
  show ?thesis
  proof (cases "r \<in> snd ` set (ch_id_cr s)")
    case True
    then show ?thesis using ok Dispatched by simp
  next
    case False
    note old = choreo_ok_parts [OF ok]
    have nr: "(i, r) \<notin> set (ch_id_cr s)" for i using False by force
    then have nq: "r \<notin> set (queue_at s x)" for x using old(5) [of r x] by auto
    have nc: "(j, r) \<notin> set (ctx_queues s p)" if "p < proc_num s" for p j
      using nq [of "At_processor p"] that by force
    have "choreo_ok (s\<lparr>ch_routines := (ch_routines s)(r := c)\<rparr>)"
      unfolding choreo_ok_def using old nr nq nc by (auto simp: place_of_def)
    from Choreo_DispatchTask_ok [OF this, of r] show ?thesis using Dispatched False by simp
  qed
next
  case (Notify_task i)
  have "choreo_ok (s\<lparr>ch_routines := (ch_routines s)(r := c)\<rparr>)" if "same_spot c (ch_routines s r)" for r c
    using ok that by (intro choreo_ok_heap) auto
  then show ?thesis using ok Notify_task
    by (auto simp: Choreo_NotifyProcessor_def Let_def same_spot_def same_place_def SetUpdateFlag_def split: option.split)
next
  case (Remove_task i)
  then show ?thesis using ok Choreo_Sched_RemoveCRoutine_ok [OF ok, of i] by (auto split: option.split)
next
  case (Take now p)
  have "choreo_ok (s\<lparr>ch_routines := snd (Classic_NextRoutine b now q (ch_routines s))\<rparr>)" for b q
    using ok by (intro choreo_ok_heap) (auto simp: Classic_NextRoutine_def scan_prios_concat first_ready_spot)
  moreover have "choreo_ok (s\<lparr>ch_routines := snd (Choreo_NextRoutine b now q (ch_routines s))\<rparr>)" for b q
    using ok by (intro choreo_ok_heap) (auto simp: Choreo_NextRoutine_def first_ready_spot)
  ultimately show ?thesis using Take by (simp add: choreo_take_def split: prod.split) (metis snd_conv)
next
  case (Ran_task body r)
  have "same_spot (Release (snd (Resume body (ch_routines s r)))) (ch_routines s r)"
    using e Ran_task by (simp add: keeps_spot_def same_spot_def same_place_def Release_def Resume_def Let_def)
  then have "choreo_ok (choreo_ran body r s)"
    unfolding choreo_ran_def using ok by (intro choreo_ok_heap) auto
  then show ?thesis by (simp add: Ran_task)
qed

lemma choreo_run_ok: "choreo_ok s \<Longrightarrow> \<forall>e \<in> set es. keeps_spot e \<Longrightarrow> choreo_ok (fold choreo_step es s)"
  by (induction es arbitrary: s) (simp_all add: choreo_step_ok)

text \<open>In a queue kept by priority, what stands before the first occurrence of an entry is what beats it.\<close>

lemma before_in_prio_queue:
  fixes prio :: "nat \<Rightarrow> nat"
  assumes q: "sorted_wrt (\<ge>) (map fst q)" "\<forall>(i, r) \<in> set q. i = prio r"
    and y: "y \<in> set (map snd q)" and z: "z \<in> set (map snd q)" "prio y < prio z"
  shows "z \<in> set (takeWhile (\<lambda>x. x \<noteq> y) (map snd q))"
  using assms
proof (induction q)
  case (Cons e q)
  obtain i x where e: "e = (i, x)" by (cases e)
  show ?case
  proof (cases "x = y")
    case True
    have "x \<noteq> z" using True Cons.prems(5) by auto
    then obtain j where j: "(j, z) \<in> set q" using Cons.prems(4) e by auto
    then show ?thesis using Cons.prems(1,2,5) True e by fastforce
  next
    case False
    then show ?thesis using Cons e by auto
  qed
qed simp

lemma choreo_take_highest:
  assumes ok: "choreo_ok s" and p: "pid < proc_num s" "\<not> ch_stop s"
  shows "case choreo_take now pid s of
         (None, s') \<Rightarrow> \<forall>y\<in>set (queue_at s (At_processor pid)). \<not> runnable now (ch_routines s) y
       | (Some y, s') \<Rightarrow> y \<in> set (queue_at s (At_processor pid)) \<and> runnable now (ch_routines s) y \<and> cr_lock (ch_routines s' y) \<and>
           (\<forall>z\<in>set (queue_at s (At_processor pid)). cr_priority (ch_routines s y) < cr_priority (ch_routines s z) \<longrightarrow>
              \<not> runnable now (ch_routines s) z)"
proof -
  note old = choreo_ok_parts [OF ok]
  let ?rs = "map snd (ctx_queues s pid)"
  have d: "distinct ?rs" using old(4) [of "At_processor pid"] p by simp
  obtain res h' where F: "first_ready now ?rs (ch_routines s) = (res, h')" by fastforce
  note S = first_ready_spec [OF d, of now "ch_routines s", unfolded F]
  have t: "choreo_take now pid s = (res, s\<lparr>ch_routines := h'\<rparr>)"
    using p F by (simp add: choreo_take_def Choreo_NextRoutine_def)
  have at: "set (queue_at s (At_processor pid)) = set ?rs" using p by simp
  have pr: "\<forall>(i, r) \<in> set (ctx_queues s pid). i = cr_priority (ch_routines s r)" using old(7) [OF p(1)] by auto
  show ?thesis
  proof (cases res)
    case None
    then show ?thesis using S unfolding t at by auto
  next
    case (Some y)
    then have y: "y \<in> set ?rs" "runnable now (ch_routines s) y" "cr_lock (h' y)"
      "\<forall>z\<in>set (takeWhile (\<lambda>x. x \<noteq> y) ?rs). \<not> runnable now (ch_routines s) z" using S by simp_all
    have "\<not> runnable now (ch_routines s) z"
      if "z \<in> set ?rs" "cr_priority (ch_routines s y) < cr_priority (ch_routines s z)" for z
      using y(4) before_in_prio_queue [OF old(6) [OF p(1)] pr y(1) that] by blast
    then show ?thesis using y(1-3) Some unfolding t at by simp
  qed
qed

lemma choreo_one_queue:
  assumes "choreo_ok s"
  shows "{y. r \<in> set (queue_at s y)} = (if r \<in> snd ` set (ch_id_cr s) then {place_of s (ch_routines s r)} else {})"
proof -
  note old = choreo_ok_parts [OF assms]
  have reg: "r \<in> snd ` set (ch_id_cr s) \<longleftrightarrow> (cr_id (ch_routines s r), r) \<in> set (ch_id_cr s)"
    using old(2) by force
  show ?thesis unfolding reg old(5) by auto
qed

text \<open>
  Property C14. After any dispatches, notifications, removals and runs, every registered task of the
  choreography policy is in exactly one queue, once: the one of the processor it is assigned to, or
  the pool's of its priority; what is not registered is in none. A processor of its own takes
  the coroutine of the highest priority among those of its queue that can run.
\<close>

theorem choreography_places_and_takes:
  assumes "\<forall>e\<in>set es. keeps_spot e" "s = fold choreo_step es (new_choreo_sched confs n dflt)"
  shows "distinct (queue_at s x) \<and>
    {y. r \<in> set (queue_at s y)} = (if r \<in> snd ` set (ch_id_cr s) then {place_of s (ch_routines s r)} else {}) \<and>
    (pid < proc_num s \<and> \<not> ch_stop s \<longrightarrow>
      (case choreo_take now pid s of
         (None, s') \<Rightarrow> \<forall>y\<in>set (queue_at s (At_processor pid)). \<not> runnable now (ch_routines s) y
       | (Some y, s') \<Rightarrow> y \<in> set (queue_at s (At_processor pid)) \<and> runnable now (ch_routines s) y \<and> cr_lock (ch_routines s' y) \<and>
           (\<forall>z\<in>set (queue_at s (At_processor pid)). cr_priority (ch_routines s y) < cr_priority (ch_routines s z) \<longrightarrow>
              \<not> runnable now (ch_routines s) z)))"
proof -
  have ok: "choreo_ok s" unfolding assms(2) by (rule choreo_run_ok [OF new_choreo_ok assms(1)])
  show ?thesis
    using choreo_ok_parts(4) [OF ok, of x] choreo_one_queue [OF ok, of r]
    by (intro conjI impI) (assumption | (elim conjE, rule choreo_take_highest [OF ok]))+
qed

theorem choreography_places_and_takes_witness:
  "distinct (queue_at (fold choreo_step [Dispatched 1 (task 10 ''a''), Dispatched 2 (task 20 ''b''), Remove_task 10]
     (new_choreo_sched (\<lambda>n. if n = ''a'' then Some (3, Some 1) else None) 2 None)) (At_processor 1))"
proof -
  let ?es = "[Dispatched 1 (task 10 ''a''), Dispatched 2 (task 20 ''b''), Remove_task 10]"
  have e: "\<forall>e\<in>set ?es. keeps_spot e" by (simp add: keeps_spot_def)
  show ?thesis by (rule choreography_places_and_takes [OF e refl, THEN conjunct1])
qed

end
