(* ===== verification/ShmMessages.thy ===== *)
theory ShmMessages
  imports Prelude
begin

text \<open>
  What the transport sends beside a message (\<open>cyber/transport/message\<close>, \<open>common/identity.cc\<close>,
  \<open>shm/readable_info.cc\<close>): identities, the message info and the readable info as the bytes they are
  copied to, and the history a transmitter keeps for late joiners. The string hash \<open>common::Hash\<close> is an
  argument.
\<close>

section \<open>Identities and message infos\<close>

definition ID_SIZE :: nat where "ID_SIZE = 8"

record identity =
  id_data :: "byte list"
  id_hash :: u64

text \<open>An identity without a generated UUID keeps the hash 0; \<open>set_data\<close> computes the hash of its bytes.\<close>

definition new_identity :: "(byte list \<Rightarrow> u64) \<Rightarrow> byte list option \<Rightarrow> identity" where
  "new_identity h uuid =
     (case uuid of
        Some bs \<Rightarrow> \<lparr>id_data = take ID_SIZE bs, id_hash = h (take ID_SIZE bs)\<rparr>
      | None \<Rightarrow> \<lparr>id_data = replicate ID_SIZE 0, id_hash = 0\<rparr>)"

definition set_data :: "(byte list \<Rightarrow> u64) \<Rightarrow> byte list \<Rightarrow> identity \<Rightarrow> identity" where
  "set_data h bs i = i\<lparr>id_data := take ID_SIZE bs, id_hash := h (take ID_SIZE bs)\<rparr>"

definition identity_eq :: "identity \<Rightarrow> identity \<Rightarrow> bool" where
  "identity_eq i j \<longleftrightarrow> id_data i = id_data j"

record message_info =
  mi_sender :: identity
  mi_channel :: u64
  mi_seq :: u64
  mi_spare :: identity

definition new_message_info :: "(byte list \<Rightarrow> u64) \<Rightarrow> message_info" where
  "new_message_info h = \<lparr>mi_sender = new_identity h None, mi_channel = 0, mi_seq = 0, mi_spare = new_identity h None\<rparr>"

definition message_info_eq :: "message_info \<Rightarrow> message_info \<Rightarrow> bool" where
  "message_info_eq m n \<longleftrightarrow>
     identity_eq (mi_sender m) (mi_sender n) \<and> mi_channel m = mi_channel n \<and> mi_seq m = mi_seq n \<and>
     identity_eq (mi_spare m) (mi_spare n)"

definition mi_kSize :: nat where "mi_kSize = 2 * ID_SIZE + 8"

definition mi_SerializeTo :: "message_info \<Rightarrow> byte list" where
  "mi_SerializeTo m = id_data (mi_sender m) @ le_bytes 8 (unat (mi_seq m)) @ id_data (mi_spare m)"

text \<open>The overload that writes to a buffer of \<open>len\<close> bytes: None when the buffer is too small.\<close>

definition mi_SerializeTo_buf :: "message_info \<Rightarrow> nat \<Rightarrow> byte list option" where
  "mi_SerializeTo_buf m len =
     (if len < mi_kSize then None
      else Some (id_data (mi_sender m) @ le_bytes 8 (unat (mi_seq m)) @ id_data (mi_spare m)))"

text \<open>The bytes at the source are as many as are in reach; the given length must be the size of an info.\<close>

definition mi_DeserializeFrom :: "(byte list \<Rightarrow> u64) \<Rightarrow> byte list \<Rightarrow> nat \<Rightarrow> message_info \<Rightarrow> bool \<times> message_info" where
  "mi_DeserializeFrom h src len m =
     (if len \<noteq> mi_kSize then (False, m)
      else
        let m1 = m\<lparr>mi_sender := set_data h src (mi_sender m)\<rparr>;
            ptr = drop ID_SIZE src;
            m2 = m1\<lparr>mi_seq := of_nat (le_value (take 8 ptr))\<rparr>;
            ptr = drop 8 ptr
        in (True, m2\<lparr>mi_spare := set_data h ptr (mi_spare m2)\<rparr>))"

section \<open>Readable infos\<close>

text \<open>What a notifier passes on: the host, the block of the segment and the channel of a message.\<close>

record readable_info =
  ri_host :: u64
  ri_block :: u32
  ri_channel :: u64

definition new_readable_info :: readable_info where
  "new_readable_info = \<lparr>ri_host = 0, ri_block = 0, ri_channel = 0\<rparr>"

definition ri_kSize :: nat where "ri_kSize = 8 * 2 + 4"

definition ri_SerializeTo :: "readable_info \<Rightarrow> byte list" where
  "ri_SerializeTo r = le_bytes 8 (unat (ri_host r)) @ le_bytes 4 (unat (ri_block r)) @ le_bytes 8 (unat (ri_channel r))"

definition ri_DeserializeFrom :: "byte list \<Rightarrow> readable_info \<Rightarrow> bool \<times> readable_info" where
  "ri_DeserializeFrom src r =
     (if length src \<noteq> ri_kSize then (False, r)
      else
        let r1 = r\<lparr>ri_host := of_nat (le_value (take 8 src))\<rparr>;
            ptr = drop 8 src;
            r2 = r1\<lparr>ri_block := of_nat (le_value (take 4 ptr))\<rparr>;
            ptr = drop 4 ptr
        in (True, r2\<lparr>ri_channel := of_nat (le_value (take 8 ptr))\<rparr>))"

section \<open>Round trips\<close>

text \<open>The identities the code makes: eight bytes, with their hash or, never generated, zeros.\<close>

definition identity_ok :: "(byte list \<Rightarrow> u64) \<Rightarrow> identity \<Rightarrow> bool" where
  "identity_ok h i \<longleftrightarrow> length (id_data i) = ID_SIZE \<and> id_hash i = h (id_data i)"

lemma le_value_word [simp]: "of_nat (le_value (le_bytes 8 (unat (x :: u64)))) = x"
  using unsigned_less [of x, where 'a = nat] by (subst le_value_le_bytes) simp_all

lemma le_value_word32 [simp]: "of_nat (le_value (le_bytes 4 (unat (x :: u32)))) = x"
  using unsigned_less [of x, where 'a = nat] by (subst le_value_le_bytes) simp_all

lemma mi_roundtrip:
  assumes "length (id_data (mi_sender m)) = ID_SIZE" "length (id_data (mi_spare m)) = ID_SIZE"
  shows "mi_DeserializeFrom h (mi_SerializeTo m @ rest) mi_kSize n =
    (True, \<lparr>mi_sender = \<lparr>id_data = id_data (mi_sender m), id_hash = h (id_data (mi_sender m))\<rparr>,
            mi_channel = mi_channel n, mi_seq = mi_seq m,
            mi_spare = \<lparr>id_data = id_data (mi_spare m), id_hash = h (id_data (mi_spare m))\<rparr>\<rparr>)"
  using assms by (simp add: mi_DeserializeFrom_def mi_SerializeTo_def set_data_def)

lemma length_mi_SerializeTo:
  "length (id_data (mi_sender m)) = ID_SIZE \<Longrightarrow> length (id_data (mi_spare m)) = ID_SIZE \<Longrightarrow>
   length (mi_SerializeTo m) = mi_kSize"
  by (simp add: mi_SerializeTo_def mi_kSize_def)

lemma ri_roundtrip: "ri_DeserializeFrom (ri_SerializeTo r) q = (True, r)"
  by (simp add: ri_DeserializeFrom_def ri_SerializeTo_def ri_kSize_def)

text \<open>
  What goes beside a message comes back: a readable info is read back as it was written,
  and a message info as it was but for its channel, which is not sent, so it compares equal
  exactly when the reader knew the channel; bytes of any other length are refused without a change.
\<close>

theorem transport_infos_roundtrip:
  assumes "identity_ok h (mi_sender m)" "identity_ok h (mi_spare m)"
  shows "mi_DeserializeFrom h (mi_SerializeTo m @ rest) (length (mi_SerializeTo m)) n = (True, m\<lparr>mi_channel := mi_channel n\<rparr>) \<and>
    (message_info_eq (snd (mi_DeserializeFrom h (mi_SerializeTo m) mi_kSize n)) m \<longleftrightarrow> mi_channel n = mi_channel m) \<and>
    ri_DeserializeFrom (ri_SerializeTo r) q = (True, r) \<and>
    (len \<noteq> mi_kSize \<longrightarrow> mi_DeserializeFrom h bs len n = (False, n)) \<and>
    (length bs \<noteq> ri_kSize \<longrightarrow> ri_DeserializeFrom bs q = (False, q))"
proof -
  have l: "length (id_data (mi_sender m)) = ID_SIZE" "length (id_data (mi_spare m)) = ID_SIZE"
    using assms by (simp_all add: identity_ok_def)
  have "mi_DeserializeFrom h (mi_SerializeTo m @ rest) mi_kSize n = (True, m\<lparr>mi_channel := mi_channel n\<rparr>)" for rest
    using assms unfolding mi_roundtrip [OF l] by (simp add: identity_ok_def)
  note rt = this [of rest] this [of "[]", unfolded append_Nil2]
  have "mi_DeserializeFrom h bs len n = (False, n)" if "len \<noteq> mi_kSize" using that by (simp add: mi_DeserializeFrom_def)
  moreover have "ri_DeserializeFrom bs q = (False, q)" if "length bs \<noteq> ri_kSize" using that by (simp add: ri_DeserializeFrom_def)
  ultimately show ?thesis unfolding length_mi_SerializeTo [OF l] rt
    by (simp add: message_info_eq_def identity_eq_def ri_roundtrip)
qed

theorem transport_infos_roundtrip_witness:
  "mi_DeserializeFrom (\<lambda>_. 5)
     (mi_SerializeTo \<lparr>mi_sender = new_identity (\<lambda>_. 5) (Some [1, 2, 3, 4, 5, 6, 7, 8]), mi_channel = 9, mi_seq = 77,
                      mi_spare = new_identity (\<lambda>_. 5) (Some [8, 7, 6, 5, 4, 3, 2, 1])\<rparr> @ [0]) 24 (new_message_info (\<lambda>_. 5))
   = (True, \<lparr>mi_sender = new_identity (\<lambda>_. 5) (Some [1, 2, 3, 4, 5, 6, 7, 8]), mi_channel = 0, mi_seq = 77,
             mi_spare = new_identity (\<lambda>_. 5) (Some [8, 7, 6, 5, 4, 3, 2, 1])\<rparr>)"
proof -
  let ?m = "\<lparr>mi_sender = new_identity (\<lambda>_. 5) (Some [1, 2, 3, 4, 5, 6, 7, 8]), mi_channel = 9, mi_seq = 77,
             mi_spare = new_identity (\<lambda>_. 5) (Some [8, 7, 6, 5, 4, 3, 2, 1])\<rparr>"
  have ok: "identity_ok (\<lambda>_. 5) (mi_sender ?m)" "identity_ok (\<lambda>_. 5) (mi_spare ?m)"
    by (simp_all add: identity_ok_def new_identity_def ID_SIZE_def)
  then have "length (mi_SerializeTo ?m) = 24"
    by (subst length_mi_SerializeTo) (simp_all add: identity_ok_def mi_kSize_def ID_SIZE_def)
  with transport_infos_roundtrip [OF ok, of "[0]" "new_message_info (\<lambda>_. 5)" undefined undefined 0 "[]", THEN conjunct1]
  show ?thesis by (simp add: new_message_info_def)
qed

section \<open>The history of a transmitter\<close>

datatype history_policy = HISTORY_KEEP_LAST | HISTORY_KEEP_ALL

record history_attributes =
  ha_policy :: history_policy
  ha_depth :: nat

definition new_history_attributes :: history_attributes where
  "new_history_attributes = \<lparr>ha_policy = HISTORY_KEEP_LAST, ha_depth = 1000\<rparr>"

record 'm history =
  h_enabled :: bool
  h_depth :: nat
  h_max_depth :: nat
  h_msgs :: "('m \<times> message_info) list"

text \<open>The constructor; the resource limit of the global configuration is an input.\<close>

definition new_history :: "nat option \<Rightarrow> history_attributes \<Rightarrow> 'm history" where
  "new_history limit attr =
     (let max_depth = (case limit of Some n \<Rightarrow> n | None \<Rightarrow> 1000);
          depth = (if ha_policy attr = HISTORY_KEEP_ALL then max_depth
                   else if ha_depth attr > max_depth then max_depth else ha_depth attr)
      in \<lparr>h_enabled = False, h_depth = depth, h_max_depth = max_depth, h_msgs = []\<rparr>)"

definition History_Enable :: "'m history \<Rightarrow> 'm history" where
  "History_Enable s = s\<lparr>h_enabled := True\<rparr>"

definition History_Disable :: "'m history \<Rightarrow> 'm history" where
  "History_Disable s = s\<lparr>h_enabled := False\<rparr>"

function pop_front_until :: "nat \<Rightarrow> 'a list \<Rightarrow> 'a list" where
  "pop_front_until d xs = (if length xs > d then pop_front_until d (tl xs) else xs)"
  by auto
termination by (relation "measure (\<lambda>(d, xs). length xs)") auto

declare pop_front_until.simps [simp del]

definition History_Add :: "'m \<Rightarrow> message_info \<Rightarrow> 'm history \<Rightarrow> 'm history" where
  "History_Add m i s =
     (if \<not> h_enabled s then s else s\<lparr>h_msgs := pop_front_until (h_depth s) (h_msgs s @ [(m, i)])\<rparr>)"

definition History_Clear :: "'m history \<Rightarrow> 'm history" where
  "History_Clear s = s\<lparr>h_msgs := []\<rparr>"

text \<open>The cached messages are put before what the vector holds already.\<close>

definition GetCachedMessage :: "'m history \<Rightarrow> ('m \<times> message_info) list \<Rightarrow> ('m \<times> message_info) list" where
  "GetCachedMessage s msgs = h_msgs s @ msgs"

definition History_GetSize :: "'m history \<Rightarrow> nat" where
  "History_GetSize s = length (h_msgs s)"

lemma pop_front_until_drop: "pop_front_until d xs = drop (length xs - d) xs"
proof (induction d xs rule: pop_front_until.induct)
  case (1 d xs)
  show ?case
  proof (cases "length xs > d")
    case True
    then have "length xs - d = Suc (length (tl xs) - d)" by simp
    then show ?thesis using 1 [OF True] True by (subst pop_front_until.simps) (simp add: drop_Suc)
  qed (subst pop_front_until.simps, simp)
qed

datatype 'm history_op = H_add 'm message_info | H_enable | H_disable | H_clear

fun history_do :: "'m history_op \<Rightarrow> 'm history \<Rightarrow> 'm history" where
  "history_do (H_add m i) s = History_Add m i s"
| "history_do H_enable s = History_Enable s"
| "history_do H_disable s = History_Disable s"
| "history_do H_clear s = History_Clear s"

text \<open>What was added while the history was enabled, since it was cleared last.\<close>

fun recorded :: "bool \<Rightarrow> ('m \<times> message_info) list \<Rightarrow> 'm history_op list \<Rightarrow> ('m \<times> message_info) list" where
  "recorded e xs [] = xs"
| "recorded e xs (H_add m i # ops) = recorded e (if e then xs @ [(m, i)] else xs) ops"
| "recorded e xs (H_enable # ops) = recorded True xs ops"
| "recorded e xs (H_disable # ops) = recorded False xs ops"
| "recorded e xs (H_clear # ops) = recorded e [] ops"

lemma history_run:
  "h_msgs s = drop (length xs - h_depth s) xs \<Longrightarrow>
   h_msgs (fold history_do ops s) = drop (length (recorded (h_enabled s) xs ops) - h_depth s) (recorded (h_enabled s) xs ops) \<and>
   h_depth (fold history_do ops s) = h_depth s"
proof (induction ops arbitrary: s xs)
  case (Cons op ops)
  show ?case
  proof (cases op)
    case (H_add m i)
    let ?d = "h_depth s" and ?ys = "xs @ [(m, i)]"
    have d: "drop (length (drop (length xs - ?d) xs @ [(m, i)]) - ?d) (drop (length xs - ?d) xs @ [(m, i)])
      = drop (length (xs @ [(m, i)]) - ?d) (xs @ [(m, i)])"
      by (cases "?d = 0"; cases "length xs < ?d") (auto simp: Suc_diff_le not_less)
    show ?thesis
    proof (cases "h_enabled s")
      case True
      then have s: "history_do op s = s\<lparr>h_msgs := drop (length ?ys - ?d) ?ys\<rparr>"
        using d Cons.prems H_add by (simp add: History_Add_def pop_front_until_drop)
      show ?thesis using Cons.IH [of "s\<lparr>h_msgs := drop (length ?ys - ?d) ?ys\<rparr>" ?ys] s H_add True by simp
    next
      case False
      then show ?thesis using Cons.IH [OF Cons.prems] H_add by (simp add: History_Add_def)
    qed
  next
    case H_clear
    then show ?thesis using Cons.IH [of "history_do op s" "[]"] by (simp add: History_Clear_def)
  qed (use Cons.IH [of "history_do op s" xs] Cons.prems in \<open>simp_all add: History_Enable_def History_Disable_def\<close>)
qed simp

text \<open>
  Whatever is done with it, a transmitter's history holds the latest of the messages added
  while it was enabled since it was cleared, in order, as many as its depth, which
  is never above the configured limit.
\<close>

theorem history_keeps_latest:
  fixes ops :: "'m history_op list"
  shows "let s = fold history_do ops (new_history limit attr); all = recorded False [] ops
   in GetCachedMessage s msgs = drop (length all - h_depth s) all @ msgs \<and>
      History_GetSize s = min (length all) (h_depth s) \<and>
      h_depth s \<le> (case limit of Some n \<Rightarrow> n | None \<Rightarrow> 1000)"
proof -
  let ?s = "new_history limit attr :: 'm history"
  have "h_msgs ?s = []" "h_enabled ?s = False" "h_depth ?s \<le> (case limit of Some n \<Rightarrow> n | None \<Rightarrow> 1000)"
    by (simp_all add: new_history_def Let_def)
  then show ?thesis using history_run [of ?s "[]" ops]
    by (simp add: GetCachedMessage_def History_GetSize_def Let_def)
qed

end
