(* ===== verification/ShmSegment.thy ===== *)
theory ShmSegment
  imports RWLocks ShmMessages
begin

text \<open>
  The shared-memory segment of a channel (\<open>cyber/transport/shm\<close>: \<open>shm_conf.cc\<close>, \<open>state.h\<close>,
  \<open>block.cc\<close>, \<open>segment.cc\<close>, \<open>posix_segment.cc\<close>). A segment object of a process maps a POSIX
  shared-memory object that all processes find under the channel's name; the operating system is the
  table of names and the objects, and its failures are inputs. The calls of a segment are taken as single
  steps (the block lock, whose steps interleave, is in \<open>RWLocks\<close>). A call ends in an
  error value where the code follows a null pointer, goes past the mapping or never comes back.
\<close>

section \<open>Sizes\<close>

definition EXTRA_SIZE :: nat where "EXTRA_SIZE = 1024 * 4"
definition STATE_SIZE :: nat where "STATE_SIZE = 1024"
definition BLOCK_SIZE :: nat where "BLOCK_SIZE = 1024"
definition MESSAGE_INFO_SIZE :: nat where "MESSAGE_INFO_SIZE = 1024"

definition BLOCK_NUM_16K :: nat where "BLOCK_NUM_16K = 512"
definition MESSAGE_SIZE_16K :: nat where "MESSAGE_SIZE_16K = 1024 * 16"
definition BLOCK_NUM_128K :: nat where "BLOCK_NUM_128K = 128"
definition MESSAGE_SIZE_128K :: nat where "MESSAGE_SIZE_128K = 1024 * 128"
definition BLOCK_NUM_1M :: nat where "BLOCK_NUM_1M = 64"
definition MESSAGE_SIZE_1M :: nat where "MESSAGE_SIZE_1M = 1024 * 1024"
definition BLOCK_NUM_8M :: nat where "BLOCK_NUM_8M = 32"
definition MESSAGE_SIZE_8M :: nat where "MESSAGE_SIZE_8M = 1024 * 1024 * 8"
definition BLOCK_NUM_16M :: nat where "BLOCK_NUM_16M = 16"
definition MESSAGE_SIZE_16M :: nat where "MESSAGE_SIZE_16M = 1024 * 1024 * 16"
definition BLOCK_NUM_MORE :: nat where "BLOCK_NUM_MORE = 8"
definition MESSAGE_SIZE_MORE :: nat where "MESSAGE_SIZE_MORE = 1024 * 1024 * 32"

lemmas shm_sizes = EXTRA_SIZE_def STATE_SIZE_def BLOCK_SIZE_def MESSAGE_INFO_SIZE_def
  BLOCK_NUM_16K_def MESSAGE_SIZE_16K_def BLOCK_NUM_128K_def MESSAGE_SIZE_128K_def BLOCK_NUM_1M_def MESSAGE_SIZE_1M_def
  BLOCK_NUM_8M_def MESSAGE_SIZE_8M_def BLOCK_NUM_16M_def MESSAGE_SIZE_16M_def BLOCK_NUM_MORE_def MESSAGE_SIZE_MORE_def

record shm_conf =
  ceiling_msg_size :: nat
  block_buf_size :: nat
  conf_block_num :: nat
  managed_shm_size :: nat

definition GetCeilingMessageSize :: "nat \<Rightarrow> nat" where
  "GetCeilingMessageSize real_msg_size =
     (if real_msg_size \<le> MESSAGE_SIZE_16K then MESSAGE_SIZE_16K
      else if real_msg_size \<le> MESSAGE_SIZE_128K then MESSAGE_SIZE_128K
      else if real_msg_size \<le> MESSAGE_SIZE_1M then MESSAGE_SIZE_1M
      else if real_msg_size \<le> MESSAGE_SIZE_8M then MESSAGE_SIZE_8M
      else if real_msg_size \<le> MESSAGE_SIZE_16M then MESSAGE_SIZE_16M
      else MESSAGE_SIZE_MORE)"

definition GetBlockBufSize :: "nat \<Rightarrow> nat" where
  "GetBlockBufSize ceiling = ceiling + MESSAGE_INFO_SIZE"

definition GetBlockNum :: "nat \<Rightarrow> nat" where
  "GetBlockNum ceiling =
     (if ceiling = MESSAGE_SIZE_16K then BLOCK_NUM_16K
      else if ceiling = MESSAGE_SIZE_128K then BLOCK_NUM_128K
      else if ceiling = MESSAGE_SIZE_1M then BLOCK_NUM_1M
      else if ceiling = MESSAGE_SIZE_8M then BLOCK_NUM_8M
      else if ceiling = MESSAGE_SIZE_16M then BLOCK_NUM_16M
      else if ceiling = MESSAGE_SIZE_MORE then BLOCK_NUM_MORE
      else 0)"

definition conf_Update :: "nat \<Rightarrow> shm_conf" where
  "conf_Update real_msg_size =
     (let c = GetCeilingMessageSize real_msg_size; b = GetBlockBufSize c; n = GetBlockNum c
      in \<lparr>ceiling_msg_size = c, block_buf_size = b, conf_block_num = n,
          managed_shm_size = EXTRA_SIZE + STATE_SIZE + (BLOCK_SIZE + b) * n\<rparr>)"

definition new_shm_conf :: shm_conf where
  "new_shm_conf = conf_Update MESSAGE_SIZE_16K"

text \<open>The sizes of the C++ objects at the start of the mapping.\<close>

definition sizeof_State :: nat where "sizeof_State = 32"
definition sizeof_Block :: nat where "sizeof_Block = 32"

section \<open>Shared memory\<close>

record shm_block =
  bk_lock :: int
  bk_msg_size :: nat
  bk_info_size :: nat

definition new_shm_block :: shm_block where
  "new_shm_block = \<lparr>bk_lock = RW_LOCK_FREE, bk_msg_size = 0, bk_info_size = 0\<rparr>"

text \<open>
  A shared-memory object: its size in bytes (0 until it is truncated to one), the \<open>State\<close>, the blocks, and
  the bytes behind them, where the buffers lie one after the other.
\<close>

record shm_object =
  so_size :: nat
  need_remap :: bool
  so_seq :: u32
  reference_count :: u32
  so_ceiling :: nat
  so_blocks :: "nat \<Rightarrow> shm_block"
  so_mem :: "nat \<Rightarrow> byte"

definition blank_object :: shm_object where
  "blank_object = \<lparr>so_size = 0, need_remap = False, so_seq = 0, reference_count = 0, so_ceiling = 0,
     so_blocks = (\<lambda>_. new_shm_block), so_mem = (\<lambda>_. 0)\<rparr>"

definition IncreaseReferenceCounts :: "shm_object \<Rightarrow> shm_object" where
  "IncreaseReferenceCounts b = b\<lparr>reference_count := reference_count b + 1\<rparr>"

definition DecreaseReferenceCounts :: "shm_object \<Rightarrow> shm_object" where
  "DecreaseReferenceCounts b = (if reference_count b = 0 then b else b\<lparr>reference_count := reference_count b - 1\<rparr>)"

definition FetchAddSeq :: "u32 \<Rightarrow> shm_object \<Rightarrow> u32 \<times> shm_object" where
  "FetchAddSeq diff b = (so_seq b, b\<lparr>so_seq := so_seq b + diff\<rparr>)"

record shm_os =
  os_objects :: "nat \<Rightarrow> shm_object"
  os_next :: nat
  os_names :: "u64 \<Rightarrow> nat option"

definition set_object :: "nat \<Rightarrow> shm_object \<Rightarrow> shm_os \<Rightarrow> shm_os" where
  "set_object a b w = w\<lparr>os_objects := (os_objects w)(a := b)\<rparr>"

text \<open>The system calls of one opening that fail.\<close>

record os_faults =
  create_fails :: bool
  truncate_fails :: bool
  open_fails :: bool
  stat_fails :: bool
  map_fails :: bool

definition no_faults :: os_faults where
  "no_faults = \<lparr>create_fails = False, truncate_fails = False, open_fails = False, stat_fails = False, map_fails = False\<rparr>"

section \<open>A segment of a process\<close>

text \<open>\<open>sg_shm\<close> is the object the state and block pointers point into, None when they are null.\<close>

record segment =
  sg_init :: bool
  sg_conf :: shm_conf
  sg_channel :: u64
  sg_shm :: "nat option"
  block_buf_addrs :: "nat \<Rightarrow> nat option"

definition new_segment :: "u64 \<Rightarrow> segment" where
  "new_segment channel_id = \<lparr>sg_init = False, sg_conf = new_shm_conf, sg_channel = channel_id, sg_shm = None,
     block_buf_addrs = (\<lambda>_. None)\<rparr>"

definition buf_addrs_of :: "shm_conf \<Rightarrow> nat \<Rightarrow> nat option" where
  "buf_addrs_of conf i = (if i < conf_block_num conf then Some (i * block_buf_size conf) else None)"

datatype shm_error =
    Null_pointer
  | Past_the_blocks    \<comment> \<open>the block array is accessed behind its end\<close>
  | Past_the_mapping
  | Spins              \<comment> \<open>no block can be locked: the call never comes back\<close>

subsection \<open>Opening\<close>

definition Segment_OpenOnly :: "os_faults \<Rightarrow> segment \<Rightarrow> shm_os \<Rightarrow> bool \<times> segment \<times> shm_os" where
  "Segment_OpenOnly f g w =
     (if sg_init g then (True, g, w)
      else case os_names w (sg_channel g) of
             None \<Rightarrow> (False, g, w)
           | Some a \<Rightarrow>
               let b = os_objects w a
               in if open_fails f \<or> stat_fails f \<or> map_fails f \<or> so_size b = 0 then (False, g, w)
                  else let conf = conf_Update (so_ceiling b)
                       in (True, g\<lparr>sg_init := True, sg_conf := conf, sg_shm := Some a, block_buf_addrs := buf_addrs_of conf\<rparr>,
                           set_object a (IncreaseReferenceCounts b) w))"

definition Segment_OpenOrCreate :: "os_faults \<Rightarrow> segment \<Rightarrow> shm_os \<Rightarrow> bool \<times> segment \<times> shm_os" where
  "Segment_OpenOrCreate f g w =
     (if sg_init g then (True, g, w)
      else if os_names w (sg_channel g) \<noteq> None then Segment_OpenOnly f g w
      else if create_fails f then (False, g, w)
      else
        let a = os_next w;
            w1 = set_object a blank_object (w\<lparr>os_next := a + 1, os_names := (os_names w)(sg_channel g := Some a)\<rparr>)
        in if truncate_fails f then (False, g, w1)
           else
             let b = blank_object\<lparr>so_size := managed_shm_size (sg_conf g)\<rparr>;
                 w2 = set_object a b w1
             in if map_fails f then (False, g, w2\<lparr>os_names := (os_names w2)(sg_channel g := None)\<rparr>)
                else
                  let b = b\<lparr>so_ceiling := ceiling_msg_size (sg_conf g)\<rparr>;
                      conf = conf_Update (so_ceiling b)
                  in (True, g\<lparr>sg_init := True, sg_conf := conf, sg_shm := Some a, block_buf_addrs := buf_addrs_of conf\<rparr>,
                      set_object a (IncreaseReferenceCounts b) w2))"

definition Segment_Remove :: "segment \<Rightarrow> shm_os \<Rightarrow> bool \<times> shm_os" where
  "Segment_Remove g w =
     (if os_names w (sg_channel g) = None then (False, w)
      else (True, w\<lparr>os_names := (os_names w)(sg_channel g := None)\<rparr>))"

definition Segment_Reset :: "segment \<Rightarrow> segment" where
  "Segment_Reset g = g\<lparr>sg_shm := None, block_buf_addrs := (\<lambda>_. None)\<rparr>"

definition Segment_Remap :: "os_faults \<Rightarrow> segment \<Rightarrow> shm_os \<Rightarrow> bool \<times> segment \<times> shm_os" where
  "Segment_Remap f g w = Segment_OpenOnly f (Segment_Reset (g\<lparr>sg_init := False\<rparr>)) w"

definition Segment_Recreate :: "os_faults \<Rightarrow> nat \<Rightarrow> segment \<Rightarrow> shm_os \<Rightarrow> shm_error + bool \<times> segment \<times> shm_os" where
  "Segment_Recreate f msg_size g w =
     (case sg_shm g of
        None \<Rightarrow> Inl Null_pointer
      | Some a \<Rightarrow>
          let w1 = set_object a ((os_objects w a)\<lparr>need_remap := True\<rparr>) w;
              g1 = Segment_Reset (g\<lparr>sg_init := False\<rparr>);
              w2 = snd (Segment_Remove g1 w1)
          in Inr (Segment_OpenOrCreate f (g1\<lparr>sg_conf := conf_Update msg_size\<rparr>) w2))"

definition Segment_Destroy :: "segment \<Rightarrow> shm_os \<Rightarrow> shm_error + bool \<times> segment \<times> shm_os" where
  "Segment_Destroy g w =
     (if \<not> sg_init g then Inr (True, g, w)
      else case sg_shm g of
             None \<Rightarrow> Inl Null_pointer
           | Some a \<Rightarrow>
               let g1 = g\<lparr>sg_init := False\<rparr>;
                   b = DecreaseReferenceCounts (os_objects w a);
                   w1 = set_object a b w
               in if reference_count b = 0 then (case Segment_Remove g1 w1 of (ok, w2) \<Rightarrow> Inr (ok, g1, w2))
                  else Inr (True, g1, w1))"

subsection \<open>Acquiring and releasing blocks\<close>

text \<open>\<open>GetNextWritableBlockIndex\<close>: tries block after block until one can be locked; None is a loop without an end.\<close>

definition try_lock_block_for_write :: "nat \<Rightarrow> shm_object \<Rightarrow> bool \<times> shm_object" where
  "try_lock_block_for_write i b =
     (let (ok, n) = Block_TryLockForWrite False (bk_lock (so_blocks b i))
      in (ok, b\<lparr>so_blocks := (so_blocks b)(i := (so_blocks b i)\<lparr>bk_lock := n\<rparr>)\<rparr>))"

partial_function (option) GetNextWritableBlockIndex :: "nat \<Rightarrow> shm_object \<Rightarrow> (nat \<times> shm_object) option" where
  "GetNextWritableBlockIndex num b =
     (let (s, b1) = FetchAddSeq 1 b;
          try_idx = unat s mod num;
          (ok, b2) = try_lock_block_for_write try_idx b1
      in if ok then Some (try_idx, b2) else GetNextWritableBlockIndex num b2)"

text \<open>A writable or readable block: its index and the address of its buffer.\<close>

record writable_block =
  wb_index :: nat
  wb_buf :: "nat option"

type_synonym seg_state = "segment \<times> shm_os"

text \<open>The first part of \<open>AcquireBlockToWrite\<close>: the segment is opened, mapped again or made anew for a larger message.\<close>

definition open_for_write :: "(nat \<Rightarrow> os_faults) \<Rightarrow> nat \<Rightarrow> segment \<Rightarrow> shm_os \<Rightarrow> shm_error + bool \<times> segment \<times> shm_os" where
  "open_for_write f msg_size g w =
     (case Segment_OpenOrCreate (f 0) g w of
        (False, g, w) \<Rightarrow> Inr (False, g, w)
      | (True, g, w) \<Rightarrow>
          (case sg_shm g of
             None \<Rightarrow> Inl Null_pointer
           | Some a \<Rightarrow>
               let (result, g, w) = (if need_remap (os_objects w a) then Segment_Remap (f 1) g w else (True, g, w))
               in if msg_size > ceiling_msg_size (sg_conf g) then Segment_Recreate (f 2) msg_size g w
                  else Inr (result, g, w)))"

definition AcquireBlockToWrite :: "(nat \<Rightarrow> os_faults) \<Rightarrow> nat \<Rightarrow> segment \<Rightarrow> shm_os \<Rightarrow>
    shm_error + writable_block option \<times> segment \<times> shm_os" where
  "AcquireBlockToWrite f msg_size g w =
     (case open_for_write f msg_size g w of
        Inl e \<Rightarrow> Inl e
      | Inr (False, g, w) \<Rightarrow> Inr (None, g, w)
      | Inr (True, g, w) \<Rightarrow>
          (case sg_shm g of
             None \<Rightarrow> Inl Null_pointer
           | Some a \<Rightarrow>
               (case GetNextWritableBlockIndex (conf_block_num (sg_conf g)) (os_objects w a) of
                  None \<Rightarrow> Inl Spins
                | Some (index, b) \<Rightarrow>
                    Inr (Some \<lparr>wb_index = index, wb_buf = block_buf_addrs g index\<rparr>, g, set_object a b w))))"

definition set_block :: "nat \<Rightarrow> nat \<Rightarrow> (shm_block \<Rightarrow> shm_block) \<Rightarrow> shm_os \<Rightarrow> shm_os" where
  "set_block a i h w =
     (let b = os_objects w a in set_object a (b\<lparr>so_blocks := (so_blocks b)(i := h (so_blocks b i))\<rparr>) w)"

definition ReleaseWrittenBlock :: "writable_block \<Rightarrow> segment \<Rightarrow> shm_os \<Rightarrow> shm_error + shm_os" where
  "ReleaseWrittenBlock wb g w =
     (if wb_index wb \<ge> conf_block_num (sg_conf g) then Inr w
      else case sg_shm g of
             None \<Rightarrow> Inl Null_pointer
           | Some a \<Rightarrow> Inr (set_block a (wb_index wb) (\<lambda>k. k\<lparr>bk_lock := Block_ReleaseWriteLock (bk_lock k)\<rparr>) w))"

text \<open>
  The index is compared with the number of blocks before the segment is mapped again. Taken as one step,
  \<open>TryLockForRead\<close> fails only on a block that is being written.
\<close>

definition try_lock_block_for_read :: "nat \<Rightarrow> shm_object \<Rightarrow> bool \<times> shm_object" where
  "try_lock_block_for_read i b =
     (let n = bk_lock (so_blocks b i)
      in if n < RW_LOCK_FREE then (False, b)
         else (True, b\<lparr>so_blocks := (so_blocks b)(i := (so_blocks b i)\<lparr>bk_lock := n + 1\<rparr>)\<rparr>))"

definition open_for_read :: "(nat \<Rightarrow> os_faults) \<Rightarrow> nat \<Rightarrow> segment \<Rightarrow> shm_os \<Rightarrow> shm_error + bool \<times> segment \<times> shm_os" where
  "open_for_read f index g w =
     (case Segment_OpenOnly (f 0) g w of
        (False, g, w) \<Rightarrow> Inr (False, g, w)
      | (True, g, w) \<Rightarrow>
          if index \<ge> conf_block_num (sg_conf g) then Inr (False, g, w)
          else
            (case sg_shm g of
               None \<Rightarrow> Inl Null_pointer
             | Some a \<Rightarrow> Inr (if need_remap (os_objects w a) then Segment_Remap (f 1) g w else (True, g, w))))"

definition AcquireBlockToRead :: "(nat \<Rightarrow> os_faults) \<Rightarrow> nat \<Rightarrow> segment \<Rightarrow> shm_os \<Rightarrow>
    shm_error + writable_block option \<times> segment \<times> shm_os" where
  "AcquireBlockToRead f index g w =
     (case open_for_read f index g w of
        Inl e \<Rightarrow> Inl e
      | Inr (False, g, w) \<Rightarrow> Inr (None, g, w)
      | Inr (True, g, w) \<Rightarrow>
          (case sg_shm g of
             None \<Rightarrow> Inl Null_pointer
           | Some a \<Rightarrow>
               if index \<ge> conf_block_num (sg_conf g) then Inl Past_the_blocks
               else
                 (case try_lock_block_for_read index (os_objects w a) of
                    (False, b) \<Rightarrow> Inr (None, g, w)
                  | (True, b) \<Rightarrow>
                      Inr (Some \<lparr>wb_index = index, wb_buf = block_buf_addrs g index\<rparr>, g, set_object a b w))))"

definition ReleaseReadBlock :: "writable_block \<Rightarrow> segment \<Rightarrow> shm_os \<Rightarrow> shm_error + shm_os" where
  "ReleaseReadBlock rb g w =
     (if wb_index rb \<ge> conf_block_num (sg_conf g) then Inr w
      else case sg_shm g of
             None \<Rightarrow> Inl Null_pointer
           | Some a \<Rightarrow> Inr (set_block a (wb_index rb) (\<lambda>k. k\<lparr>bk_lock := Block_ReleaseReadLock (bk_lock k)\<rparr>) w))"

subsection \<open>Reading and writing the mapping\<close>

text \<open>Bytes the buffers may take: the mapping less the \<open>State\<close> and the blocks in front of them.\<close>

definition buffer_space :: "shm_conf \<Rightarrow> shm_object \<Rightarrow> nat" where
  "buffer_space conf b = so_size b - (sizeof_State + conf_block_num conf * sizeof_Block)"

definition write_mem :: "nat \<Rightarrow> byte list \<Rightarrow> (nat \<Rightarrow> byte) \<Rightarrow> nat \<Rightarrow> byte" where
  "write_mem p bs m i = (if p \<le> i \<and> i < p + length bs then bs ! (i - p) else m i)"

definition read_mem :: "nat \<Rightarrow> nat \<Rightarrow> (nat \<Rightarrow> byte) \<Rightarrow> byte list" where
  "read_mem p n m = map (\<lambda>i. m (p + i)) [0..<n]"

definition copy_to :: "nat \<Rightarrow> byte list \<Rightarrow> nat \<Rightarrow> segment \<Rightarrow> shm_os \<Rightarrow> shm_error + shm_os" where
  "copy_to p bs a g w =
     (let b = os_objects w a
      in if p + length bs > buffer_space (sg_conf g) b then Inl Past_the_mapping
         else Inr (set_object a (b\<lparr>so_mem := write_mem p bs (so_mem b)\<rparr>) w))"

definition copy_from :: "nat \<Rightarrow> nat \<Rightarrow> nat \<Rightarrow> segment \<Rightarrow> shm_os \<Rightarrow> shm_error + byte list" where
  "copy_from p n a g w =
     (let b = os_objects w a
      in if p + n > buffer_space (sg_conf g) b then Inl Past_the_mapping else Inr (read_mem p n (so_mem b)))"

section \<open>The search for a block to write\<close>

definition block_free :: "shm_object \<Rightarrow> nat \<Rightarrow> bool" where
  "block_free b i \<longleftrightarrow> bk_lock (so_blocks b i) = RW_LOCK_FREE"

text \<open>The object after the search passed over \<open>t\<close> blocks and locked the next.\<close>

definition after_search :: "nat \<Rightarrow> nat \<Rightarrow> shm_object \<Rightarrow> shm_object" where
  "after_search num t b =
     (let i = unat (so_seq b + of_nat t) mod num
      in b\<lparr>so_seq := so_seq b + of_nat t + 1, so_blocks := (so_blocks b)(i := (so_blocks b i)\<lparr>bk_lock := WRITE_EXCLUSIVE\<rparr>)\<rparr>)"

lemma search_step:
  "GetNextWritableBlockIndex num b =
     (let i = unat (so_seq b) mod num
      in if block_free b i then Some (i, after_search num 0 b) else GetNextWritableBlockIndex num (b\<lparr>so_seq := so_seq b + 1\<rparr>))"
  by (subst GetNextWritableBlockIndex.simps)
    (simp add: FetchAddSeq_def try_lock_block_for_write_def Block_TryLockForWrite_def block_free_def after_search_def Let_def)

lemma block_free_seq [simp]: "block_free (b\<lparr>so_seq := s\<rparr>) i = block_free b i"
  by (simp add: block_free_def)

lemma search_finds:
  assumes "block_free b (unat (so_seq b + of_nat t) mod num)"
    "\<forall>u<t. \<not> block_free b (unat (so_seq b + of_nat u) mod num)"
  shows "GetNextWritableBlockIndex num b = Some (unat (so_seq b + of_nat t) mod num, after_search num t b)"
  using assms
proof (induction t arbitrary: b)
  case 0
  then show ?case by (subst search_step) (simp add: Let_def)
next
  case (Suc t)
  let ?b = "b\<lparr>so_seq := so_seq b + 1\<rparr>"
  have e: "so_seq b + of_nat (Suc t) = so_seq ?b + of_nat t" by simp
  have "\<forall>u<t. \<not> block_free ?b (unat (so_seq ?b + of_nat u) mod num)"
  proof (intro allI impI)
    fix u assume "u < t"
    then show "\<not> block_free ?b (unat (so_seq ?b + of_nat u) mod num)"
      using Suc.prems(2) [rule_format, of "Suc u"] by (simp add: ac_simps)
  qed
  moreover have "block_free ?b (unat (so_seq ?b + of_nat t) mod num)" using Suc.prems(1) unfolding e by simp
  ultimately have "GetNextWritableBlockIndex num ?b = Some (unat (so_seq ?b + of_nat t) mod num, after_search num t ?b)"
    by (rule Suc.IH [rotated])
  moreover have "after_search num t ?b = after_search num (Suc t) b" by (simp add: after_search_def Let_def ac_simps)
  moreover have "\<not> block_free b (unat (so_seq b) mod num)" using Suc.prems(2) [rule_format, of 0] by simp
  ultimately show ?case by (subst search_step) (simp add: Let_def ac_simps)
qed

lemma search_needs_free:
  "GetNextWritableBlockIndex num b = Some r \<Longrightarrow> num > 0 \<Longrightarrow> \<exists>i<num. block_free b i"
proof -
  have "num > 0 \<longrightarrow> (\<exists>i<num. block_free b i)" if "GetNextWritableBlockIndex num b = Some r"
    using that
  proof (rule GetNextWritableBlockIndex.raw_induct [where P = "\<lambda>num b r. num > 0 \<longrightarrow> (\<exists>i<num. block_free b i)", rotated])
    fix f :: "nat \<Rightarrow> shm_object \<Rightarrow> (nat \<times> shm_object) option" and num b r
    assume 1: "\<And>num b r. f num b = Some r \<Longrightarrow> num > 0 \<longrightarrow> (\<exists>i<num. block_free b i)"
      "(let (s, b1) = FetchAddSeq 1 b; try_idx = unat s mod num; (ok, b2) = try_lock_block_for_write try_idx b1
        in if ok then Some (try_idx, b2) else f num b2) = Some r"
    show "num > 0 \<longrightarrow> (\<exists>i<num. block_free b i)"
    proof (cases "block_free b (unat (so_seq b) mod num)")
      case True
      then show ?thesis by (metis mod_less_divisor)
    next
      case False
      then have "f num (b\<lparr>so_seq := so_seq b + 1\<rparr>) = Some r"
        using 1(2) by (simp add: FetchAddSeq_def try_lock_block_for_write_def Block_TryLockForWrite_def block_free_def Let_def)
      from 1(1) [OF this] show ?thesis by simp
    qed
  qed
  then show "GetNextWritableBlockIndex num b = Some r \<Longrightarrow> num > 0 \<Longrightarrow> \<exists>i<num. block_free b i" by blast
qed

text \<open>The number of blocks divides \<open>2 ^ 32\<close>, so that the wrap of the sequence number keeps the round.\<close>

lemma seq_index:
  assumes "num dvd 2 ^ 32"
  shows "unat (s + of_nat t :: u32) mod num = (unat s + t) mod num"
proof -
  have "unat (s + of_nat t :: u32) = (unat s + t) mod 2 ^ 32"
    by (simp add: unat_word_ariths unat_of_nat mod_simps)
  then show ?thesis using assms by (simp add: mod_mod_cancel)
qed

lemma cyclic_reaches:
  fixes k s num :: nat
  assumes "k < num"
  shows "\<exists>t<num. (s + t) mod num = k"
proof -
  let ?t = "(k + num - s mod num) mod num"
  have n: "0 < num" using assms by simp
  have "s mod num < num" using n by simp
  have "(s + ?t) mod num = (s mod num + (k + num - s mod num)) mod num" by (simp add: mod_simps)
  also have "s mod num + (k + num - s mod num) = k + num" using \<open>s mod num < num\<close> by simp
  also have "\<dots> mod num = k" using assms by simp
  finally show ?thesis using n mod_less_divisor by blast
qed



end
