(* ===== verification/ShmProcesses.thy ===== *)
theory ShmProcesses
  imports ShmSegment
begin

text \<open>
  Messages through shared memory: \<open>ShmTransmitter::Transmit\<close> up to the block it hands to the notifier and
  \<open>ShmDispatcher::ReadMessage\<close>, over the segments of the processes of a channel. A message is the bytes
  it serializes to; its codec is not modelled. The processes' calls are taken one after the other.
\<close>

section \<open>Transmitting and reading\<close>

text \<open>\<open>Transmit\<close>: the index of the block to notify of; \<open>ser_ok\<close> tells whether the message can be serialized.\<close>

definition Shm_Transmit :: "(nat \<Rightarrow> os_faults) \<Rightarrow> bool \<Rightarrow> byte list \<Rightarrow> message_info \<Rightarrow> segment \<Rightarrow> shm_os \<Rightarrow>
    shm_error + nat option \<times> segment \<times> shm_os" where
  "Shm_Transmit f ser_ok msg info g w =
     (case AcquireBlockToWrite f (length msg) g w of
        Inl e \<Rightarrow> Inl e
      | Inr (None, g, w) \<Rightarrow> Inr (None, g, w)
      | Inr (Some wb, g, w) \<Rightarrow>
          (case (wb_buf wb, sg_shm g) of
             (Some p, Some a) \<Rightarrow>
               if \<not> ser_ok then
                 (case ReleaseWrittenBlock wb g w of Inl e \<Rightarrow> Inl e | Inr w \<Rightarrow> Inr (None, g, w))
               else
                 (case copy_to p msg a g w of
                    Inl e \<Rightarrow> Inl e
                  | Inr w \<Rightarrow>
                      let w = set_block a (wb_index wb) (\<lambda>k. k\<lparr>bk_msg_size := length msg\<rparr>) w
                      in (case mi_SerializeTo_buf info mi_kSize of
                            None \<Rightarrow> (case ReleaseWrittenBlock wb g w of Inl e \<Rightarrow> Inl e | Inr w \<Rightarrow> Inr (None, g, w))
                          | Some bs \<Rightarrow>
                              (case copy_to (p + length msg) bs a g w of
                                 Inl e \<Rightarrow> Inl e
                               | Inr w \<Rightarrow>
                                   let w = set_block a (wb_index wb) (\<lambda>k. k\<lparr>bk_info_size := mi_kSize\<rparr>) w
                                   in (case ReleaseWrittenBlock wb g w of
                                         Inl e \<Rightarrow> Inl e
                                       | Inr w \<Rightarrow> Inr (Some (wb_index wb), g, w)))))
           | _ \<Rightarrow> Inl Null_pointer))"

text \<open>\<open>ReadMessage\<close>: what \<open>OnMessage\<close> is called with, the message as the bytes the listeners parse.\<close>

definition Shm_ReadMessage :: "(byte list \<Rightarrow> u64) \<Rightarrow> (nat \<Rightarrow> os_faults) \<Rightarrow> nat \<Rightarrow> segment \<Rightarrow> shm_os \<Rightarrow>
    shm_error + (byte list \<times> message_info) option \<times> segment \<times> shm_os" where
  "Shm_ReadMessage h f index g w =
     (case AcquireBlockToRead f index g w of
        Inl e \<Rightarrow> Inl e
      | Inr (None, g, w) \<Rightarrow> Inr (None, g, w)
      | Inr (Some rb, g, w) \<Rightarrow>
          (case (wb_buf rb, sg_shm g) of
             (Some p, Some a) \<Rightarrow>
               let k = so_blocks (os_objects w a) (wb_index rb);
                   n = bk_msg_size k;
                   len = bk_info_size k
               in (case copy_from (p + n) (if len = mi_kSize then len else 0) a g w of
                     Inl e \<Rightarrow> Inl e
                   | Inr src \<Rightarrow>
                       (case mi_DeserializeFrom h src len (new_message_info h) of
                          (False, _) \<Rightarrow>
                            (case ReleaseReadBlock rb g w of Inl e \<Rightarrow> Inl e | Inr w \<Rightarrow> Inr (None, g, w))
                        | (True, info) \<Rightarrow>
                            (case copy_from p n a g w of
                               Inl e \<Rightarrow> Inl e
                             | Inr msg \<Rightarrow>
                                 (case ReleaseReadBlock rb g w of
                                    Inl e \<Rightarrow> Inl e
                                  | Inr w \<Rightarrow> Inr (Some (msg, info), g, w)))))
           | _ \<Rightarrow> Inl Null_pointer))"

section \<open>The processes of a channel\<close>

record shm_system =
  sy_os :: shm_os
  sy_segs :: "nat \<Rightarrow> segment"

definition new_shm_system :: "u64 \<Rightarrow> shm_system" where
  "new_shm_system channel = \<lparr>sy_os = \<lparr>os_objects = (\<lambda>_. blank_object), os_next = 0, os_names = (\<lambda>_. None)\<rparr>,
     sy_segs = (\<lambda>_. new_segment channel)\<rparr>"

datatype shm_event =
    Send nat "nat \<Rightarrow> os_faults" bool "byte list" message_info
  | Recv nat "nat \<Rightarrow> os_faults" nat
  | Close nat

datatype shm_reply = Sent "nat option" | Got "(byte list \<times> message_info) option" | Closed bool

definition shm_put :: "nat \<Rightarrow> (shm_error + 'r \<times> segment \<times> shm_os) \<Rightarrow> ('r \<Rightarrow> shm_reply) \<Rightarrow> shm_system \<Rightarrow>
    shm_error + shm_reply \<times> shm_system" where
  "shm_put i res c s =
     (case res of
        Inl e \<Rightarrow> Inl e
      | Inr (r, g, w) \<Rightarrow> Inr (c r, \<lparr>sy_os = w, sy_segs = (sy_segs s)(i := g)\<rparr>))"

fun shm_step :: "(byte list \<Rightarrow> u64) \<Rightarrow> shm_event \<Rightarrow> shm_system \<Rightarrow> shm_error + shm_reply \<times> shm_system" where
  "shm_step h (Send i f ser_ok msg info) s = shm_put i (Shm_Transmit f ser_ok msg info (sy_segs s i) (sy_os s)) Sent s"
| "shm_step h (Recv i f index) s = shm_put i (Shm_ReadMessage h f index (sy_segs s i) (sy_os s)) Got s"
| "shm_step h (Close i) s = shm_put i (Segment_Destroy (sy_segs s i) (sy_os s)) Closed s"

fun shm_run :: "(byte list \<Rightarrow> u64) \<Rightarrow> shm_event list \<Rightarrow> shm_system \<Rightarrow> shm_error + shm_system" where
  "shm_run h [] s = Inr s"
| "shm_run h (e # es) s = (case shm_step h e s of Inl x \<Rightarrow> Inl x | Inr (_, s') \<Rightarrow> shm_run h es s')"

fun event_process :: "shm_event \<Rightarrow> nat" where
  "event_process (Send i _ _ _ _) = i"
| "event_process (Recv i _ _) = i"
| "event_process (Close i) = i"

section \<open>The invariant\<close>

definition attached :: "nat \<Rightarrow> (nat \<Rightarrow> segment) \<Rightarrow> nat \<Rightarrow> nat set" where
  "attached n gs a = {i. i < n \<and> sg_init (gs i) \<and> sg_shm (gs i) = Some a}"

definition made :: "shm_object \<Rightarrow> bool" where
  "made b \<longleftrightarrow> so_size b > 0 \<and> so_ceiling b > 0"

definition seg_ok :: "shm_os \<Rightarrow> segment \<Rightarrow> bool" where
  "seg_ok w g \<longleftrightarrow>
     (sg_init g \<longrightarrow>
        (case sg_shm g of
           None \<Rightarrow> False
         | Some a \<Rightarrow> a < os_next w \<and> made (os_objects w a) \<and>
             sg_conf g = conf_Update (so_ceiling (os_objects w a)) \<and> block_buf_addrs g = buf_addrs_of (sg_conf g))) \<and>
     (\<exists>x. sg_conf g = conf_Update x)"

definition object_ok :: "shm_object \<Rightarrow> bool" where
  "object_ok b \<longleftrightarrow> made b \<longrightarrow>
     (\<exists>x. so_ceiling b = GetCeilingMessageSize x) \<and> so_size b = managed_shm_size (conf_Update (so_ceiling b)) \<and>
     (\<forall>k. bk_lock (so_blocks b k) = RW_LOCK_FREE)"

text \<open>Of the objects, only the one with the channel's name is current; all others with a process are marked.\<close>

definition count_ok :: "nat \<Rightarrow> u64 \<Rightarrow> (nat \<Rightarrow> segment) \<Rightarrow> shm_os \<Rightarrow> nat \<Rightarrow> bool" where
  "count_ok n c gs w a \<longleftrightarrow>
     (let b = os_objects w a
      in if need_remap b then os_names w c \<noteq> Some a \<and> card (attached n gs a) < unat (reference_count b)
         else unat (reference_count b) = card (attached n gs a) \<and> (attached n gs a \<noteq> {} \<longrightarrow> os_names w c = Some a))"

definition shm_ok :: "nat \<Rightarrow> u64 \<Rightarrow> (nat \<Rightarrow> segment) \<Rightarrow> shm_os \<Rightarrow> bool" where
  "shm_ok n c gs w \<longleftrightarrow>
     (\<forall>i<n. sg_channel (gs i) = c \<and> seg_ok w (gs i)) \<and>
     (\<forall>a. os_names w c = Some a \<longrightarrow> a < os_next w \<and> (so_size (os_objects w a) = 0 \<or> made (os_objects w a))) \<and>
     (\<forall>a<os_next w. object_ok (os_objects w a) \<and> count_ok n c gs w a)"

lemma shm_okI:
  assumes "\<And>i. i < n \<Longrightarrow> sg_channel (gs i) = c" "\<And>i. i < n \<Longrightarrow> seg_ok w (gs i)"
    "\<And>a. os_names w c = Some a \<Longrightarrow> a < os_next w \<and> (so_size (os_objects w a) = 0 \<or> made (os_objects w a))"
    "\<And>a. a < os_next w \<Longrightarrow> object_ok (os_objects w a)" "\<And>a. a < os_next w \<Longrightarrow> count_ok n c gs w a"
  shows "shm_ok n c gs w"
  using assms unfolding shm_ok_def by blast

lemma shm_okD:
  assumes "shm_ok n c gs w"
  shows "i < n \<Longrightarrow> sg_channel (gs i) = c" "i < n \<Longrightarrow> seg_ok w (gs i)"
    "os_names w c = Some a \<Longrightarrow> a < os_next w"
    "os_names w c = Some a \<Longrightarrow> so_size (os_objects w a) = 0 \<or> made (os_objects w a)"
    "a < os_next w \<Longrightarrow> object_ok (os_objects w a)" "a < os_next w \<Longrightarrow> count_ok n c gs w a"
  using assms unfolding shm_ok_def by blast+

lemma finite_attached [simp]: "finite (attached n gs a)"
  by (rule finite_subset [of _ "{..<n}"]) (auto simp: attached_def)

lemma attached_upd:
  "i < n \<Longrightarrow> attached n (gs(i := g)) a =
     (if sg_init g \<and> sg_shm g = Some a then insert i (attached n gs a) else attached n gs a - {i})"
  by (auto simp: attached_def)

lemma card_attached: "card (attached n gs a) \<le> n"
  using card_mono [of "{..<n}" "attached n gs a"] by (auto simp: attached_def)

lemma card_attached_less: "i < n \<Longrightarrow> i \<notin> attached n gs a \<Longrightarrow> card (attached n gs a) < n"
  using psubset_card_mono [of "{..<n}" "attached n gs a"] by (auto simp: attached_def)

lemma attached_segD: "i \<in> attached n gs a \<Longrightarrow> i < n \<and> sg_init (gs i) \<and> sg_shm (gs i) = Some a"
  by (simp add: attached_def)

lemma named_not_marked:
  assumes "shm_ok n c gs w" "os_names w c = Some a"
  shows "\<not> need_remap (os_objects w a)" "unat (reference_count (os_objects w a)) = card (attached n gs a)"
  using shm_okD(6) [OF assms(1) shm_okD(3) [OF assms]] assms(2) by (auto simp: count_ok_def Let_def split: if_splits)

lemma set_object_sel [simp]:
  "os_objects (set_object a b w) = (os_objects w)(a := b)" "os_next (set_object a b w) = os_next w"
  "os_names (set_object a b w) = os_names w"
  by (simp_all add: set_object_def)

text \<open>A process leaves a marked object, or was attached to none.\<close>

lemma shm_ok_leave:
  assumes ok: "shm_ok n c gs w" and i: "i < n"
    and g: "sg_init g = False" "sg_channel g = c" "\<exists>x. sg_conf g = conf_Update x"
    and old: "\<And>a. sg_init (gs i) \<Longrightarrow> sg_shm (gs i) = Some a \<Longrightarrow> need_remap (os_objects w a)"
  shows "shm_ok n c (gs(i := g)) w"
proof (rule shm_okI)
  fix a assume a: "a < os_next w"
  have att: "attached n (gs(i := g)) a = attached n gs a - {i}" using g(1) by (simp add: attached_upd [OF i])
  show "count_ok n c (gs(i := g)) w a"
  proof (cases "i \<in> attached n gs a")
    case True
    then have "need_remap (os_objects w a)" using old attached_segD by blast
    moreover have "card (attached n gs a - {i}) \<le> card (attached n gs a)" by (simp add: card_Diff1_le)
    ultimately show ?thesis using shm_okD(6) [OF ok a] by (auto simp: count_ok_def Let_def att split: if_splits)
  next
    case False
    then show ?thesis using shm_okD(6) [OF ok a] by (simp add: count_ok_def Let_def att)
  qed
qed (use shm_okD [OF ok] g in \<open>auto simp: seg_ok_def\<close>)

text \<open>What a call writes into an object leaves the rest as it is.\<close>

lemma shm_ok_content:
  assumes ok: "shm_ok n c gs w"
    and b: "so_size b = so_size (os_objects w a)" "need_remap b = need_remap (os_objects w a)"
      "reference_count b = reference_count (os_objects w a)" "so_ceiling b = so_ceiling (os_objects w a)"
      "\<And>k. bk_lock (so_blocks b k) = bk_lock (so_blocks (os_objects w a) k)"
  shows "shm_ok n c gs (set_object a b w)"
proof -
  have m: "made b = made (os_objects w a)" using b by (simp add: made_def)
  show ?thesis
  proof (rule shm_okI)
    fix i assume i: "i < n"
    show "seg_ok (set_object a b w) (gs i)"
      using shm_okD(2) [OF ok i] m b(4) by (auto simp: seg_ok_def split: option.splits)
  next
    fix a' assume "os_names (set_object a b w) c = Some a'"
    then show "a' < os_next (set_object a b w) \<and> (so_size (os_objects (set_object a b w) a') = 0 \<or>
        made (os_objects (set_object a b w) a'))"
      using shm_okD(3,4) [OF ok, of a'] m b(1) by auto
  next
    fix a' assume a': "a' < os_next (set_object a b w)"
    then show "object_ok (os_objects (set_object a b w) a')"
      using shm_okD(5) [OF ok, of a'] m b by (auto simp: object_ok_def)
    show "count_ok n c gs (set_object a b w) a'"
      using shm_okD(6) [OF ok, of a'] a' b by (auto simp: count_ok_def Let_def)
  qed (use shm_okD(1) [OF ok] in simp)
qed

subsection \<open>Opening\<close>

lemma conf_Update_idem [simp]: "conf_Update (GetCeilingMessageSize x) = conf_Update x"
  by (simp add: conf_Update_def GetCeilingMessageSize_def shm_sizes)

lemma ceiling_idem [simp]: "GetCeilingMessageSize (GetCeilingMessageSize x) = GetCeilingMessageSize x"
  by (simp add: GetCeilingMessageSize_def shm_sizes)

lemma ceiling_pos [simp]: "GetCeilingMessageSize x > 0"
  by (simp add: GetCeilingMessageSize_def shm_sizes)

lemma conf_ceiling [simp]: "ceiling_msg_size (conf_Update x) = GetCeilingMessageSize x"
  by (simp add: conf_Update_def Let_def)

lemma managed_pos [simp]: "managed_shm_size (conf_Update x) > 0"
  by (simp add: conf_Update_def Let_def shm_sizes)

definition attach_to :: "nat \<Rightarrow> shm_object \<Rightarrow> segment \<Rightarrow> segment" where
  "attach_to a b g =
     (let conf = conf_Update (so_ceiling b)
      in g\<lparr>sg_init := True, sg_conf := conf, sg_shm := Some a, block_buf_addrs := buf_addrs_of conf\<rparr>)"

lemma attach_to_sel [simp]:
  "sg_init (attach_to a b g)" "sg_shm (attach_to a b g) = Some a" "sg_channel (attach_to a b g) = sg_channel g"
  "sg_conf (attach_to a b g) = conf_Update (so_ceiling b)"
  "block_buf_addrs (attach_to a b g) = buf_addrs_of (conf_Update (so_ceiling b))"
  by (simp_all add: attach_to_def Let_def)

lemma Segment_OpenOnly_cases:
  assumes ok: "shm_ok n c gs w" and i: "i < n" and g: "\<not> sg_init g" "sg_channel g = c"
  obtains "Segment_OpenOnly f g w = (False, g, w)" "f = no_faults \<longrightarrow> os_names w c = None \<or>
      (\<exists>a. os_names w c = Some a \<and> so_size (os_objects w a) = 0)"
  | a where "os_names w c = Some a" "a < os_next w" "made (os_objects w a)"
      "Segment_OpenOnly f g w =
         (True, attach_to a (os_objects w a) g, set_object a (IncreaseReferenceCounts (os_objects w a)) w)"
proof (cases "os_names w c")
  case None
  then show ?thesis using that(1) g by (simp add: Segment_OpenOnly_def)
next
  case (Some a)
  show ?thesis
  proof (cases "open_fails f \<or> stat_fails f \<or> map_fails f \<or> so_size (os_objects w a) = 0")
    case True
    show ?thesis by (rule that(1)) (use True g Some in \<open>auto simp: Segment_OpenOnly_def no_faults_def\<close>)
  next
    case False
    then have "made (os_objects w a)" using shm_okD(4) [OF ok Some] by simp
    then show ?thesis using that(2) [OF Some shm_okD(3) [OF ok Some]] False g Some
      by (simp add: Segment_OpenOnly_def attach_to_def Let_def)
  qed
qed

lemma shm_ok_attach:
  assumes ok: "shm_ok n c gs w" and i: "i < n" and n: "n < 2 ^ 32" and g: "sg_init (gs i) = False" "sg_channel g = c"
    and a: "os_names w c = Some a" "made (os_objects w a)"
  shows "shm_ok n c (gs(i := attach_to a (os_objects w a) g)) (set_object a (IncreaseReferenceCounts (os_objects w a)) w)"
    (is "shm_ok n c (gs(i := ?g)) ?w")
proof -
  note an = shm_okD(3) [OF ok a(1)] and nm = named_not_marked [OF ok a(1)]
  have ia: "i \<notin> attached n gs a'" for a' using g(1) by (auto simp: attached_def)
  have "card (attached n gs a) < n" using card_attached_less [OF i ia] .
  then have rc: "unat (reference_count (os_objects w a) + 1) = Suc (card (attached n gs a))"
    using nm(2) n by (subst unat_add_one) simp_all
  have m: "made (IncreaseReferenceCounts (os_objects w a))" using a(2) by (simp add: made_def IncreaseReferenceCounts_def)
  show ?thesis
  proof (rule shm_okI)
    fix j assume j: "j < n"
    have "\<exists>x. so_ceiling (os_objects w a) = GetCeilingMessageSize x"
      using shm_okD(5) [OF ok an] a(2) by (simp add: object_ok_def)
    then show "seg_ok ?w ((gs(i := ?g)) j)"
      using shm_okD(2) [OF ok j] an m a(2)
      by (auto simp: seg_ok_def IncreaseReferenceCounts_def split: option.splits if_splits)
    show "sg_channel ((gs(i := ?g)) j) = c" using shm_okD(1) [OF ok j] g(2) by simp
  next
    fix a' assume "os_names ?w c = Some a'"
    then show "a' < os_next ?w \<and> (so_size (os_objects ?w a') = 0 \<or> made (os_objects ?w a'))"
      using a(1) an m by simp
  next
    fix a' assume a': "a' < os_next ?w"
    then show "object_ok (os_objects ?w a')"
      using shm_okD(5) [OF ok, of a'] by (auto simp: object_ok_def made_def IncreaseReferenceCounts_def)
    show "count_ok n c (gs(i := ?g)) ?w a'"
      using shm_okD(6) [OF ok, of a'] a' nm(1) rc a(1) ia
      by (auto simp: count_ok_def Let_def attached_upd [OF i] IncreaseReferenceCounts_def)
  qed
qed

text \<open>A new object that no process is attached to yet.\<close>

lemma shm_ok_new:
  assumes ok: "shm_ok n c gs w" and c: "os_names w c = None"
    and b: "object_ok b" "\<not> need_remap b" "reference_count b = 0" "nm = Some (os_next w) \<longrightarrow> so_size b = 0 \<or> made b"
    and w': "os_objects w' = (os_objects w)(os_next w := b)" "os_next w' = os_next w + 1" "os_names w' c = nm"
    and nm: "nm = None \<or> nm = Some (os_next w)"
  shows "shm_ok n c gs w'"
proof -
  have lt: "a < os_next w" if "j < n" "sg_init (gs j)" "sg_shm (gs j) = Some a" for j a
    using shm_okD(2) [OF ok that(1)] that by (simp add: seg_ok_def)
  have e: "attached n gs (os_next w) = {}" using lt by (fastforce simp: attached_def)
  show ?thesis
  proof (rule shm_okI)
    fix j assume j: "j < n"
    show "seg_ok w' (gs j)" using shm_okD(2) [OF ok j] lt [OF j] w'(1,2)
      by (auto simp: seg_ok_def less_Suc_eq split: option.splits)
  next
    fix a assume "os_names w' c = Some a"
    then show "a < os_next w' \<and> (so_size (os_objects w' a) = 0 \<or> made (os_objects w' a))"
      using nm w' b(4) by auto
  next
    fix a assume a: "a < os_next w'"
    then show "object_ok (os_objects w' a)" using shm_okD(5) [OF ok, of a] b(1) w' by (auto simp: less_Suc_eq)
    show "count_ok n c gs w' a"
      using shm_okD(6) [OF ok, of a] a b w' e c nm by (auto simp: count_ok_def Let_def less_Suc_eq)
  qed (use shm_okD(1) [OF ok] in simp)
qed

definition fresh_object :: "nat \<Rightarrow> shm_object" where
  "fresh_object x = blank_object\<lparr>so_size := managed_shm_size (conf_Update x), so_ceiling := GetCeilingMessageSize x\<rparr>"

lemma blank_ok [simp]: "object_ok blank_object" "\<not> made blank_object" "\<not> need_remap blank_object"
  "reference_count blank_object = 0" "so_size blank_object = 0"
  by (simp_all add: object_ok_def made_def blank_object_def)

lemma fresh_ok [simp]: "object_ok (fresh_object x)" "made (fresh_object x)" "\<not> need_remap (fresh_object x)"
  "reference_count (fresh_object x) = 0" "so_ceiling (fresh_object x) = GetCeilingMessageSize x" "so_seq (fresh_object x) = 0"
  by (auto simp: object_ok_def made_def fresh_object_def blank_object_def new_shm_block_def)

text \<open>Opening or creating, by a process that is not attached.\<close>

lemma Segment_OpenOrCreate_ok:
  assumes ok: "shm_ok n c (gs(i := g)) w" and i: "i < n" and n: "n < 2 ^ 32" and g: "\<not> sg_init g"
    and r: "Segment_OpenOrCreate f g w = (r, g', w')"
  shows "shm_ok n c (gs(i := g')) w'"
    "r \<Longrightarrow> \<exists>a b. os_names w' c = Some a \<and> made b \<and> g' = attach_to a b g \<and> os_objects w' a = IncreaseReferenceCounts b \<and>
       (if os_names w c = None then b = fresh_object (ceiling_msg_size (sg_conf g))
        else os_names w c = Some a \<and> b = os_objects w a \<and> w' = set_object a (IncreaseReferenceCounts b) w)"
    "\<not> r \<Longrightarrow> g' = g \<and> (f = no_faults \<longrightarrow> (\<exists>a. os_names w c = Some a \<and> so_size (os_objects w a) = 0))"
proof -
  have gc: "sg_channel g = c" using shm_okD(1) [OF ok i] by simp
  obtain x where x: "sg_conf g = conf_Update x" using shm_okD(2) [OF ok i] by (auto simp: seg_ok_def)
  have all: "shm_ok n c (gs(i := g')) w' \<and>
    (r \<longrightarrow> (\<exists>a b. os_names w' c = Some a \<and> made b \<and> g' = attach_to a b g \<and> os_objects w' a = IncreaseReferenceCounts b \<and>
       (if os_names w c = None then b = fresh_object (ceiling_msg_size (sg_conf g))
        else os_names w c = Some a \<and> b = os_objects w a \<and> w' = set_object a (IncreaseReferenceCounts b) w))) \<and>
    (\<not> r \<longrightarrow> g' = g \<and> (f = no_faults \<longrightarrow> (\<exists>a. os_names w c = Some a \<and> so_size (os_objects w a) = 0)))"
  proof (cases "os_names w c")
    case (Some a)
    then have o: "Segment_OpenOnly f g w = (r, g', w')" using r g gc by (simp add: Segment_OpenOrCreate_def)
    show ?thesis
    proof (cases rule: Segment_OpenOnly_cases [OF ok i g gc, of f])
      case 1
      then show ?thesis using o ok Some by auto
    next
      case (2 a')
      then show ?thesis using o shm_ok_attach [OF ok i n _ gc 2(1,3)] g Some by auto
    qed
  next
    case None
    let ?a = "os_next w"
    let ?w = "\<lambda>b nm. w\<lparr>os_objects := (os_objects w)(?a := b), os_next := ?a + 1, os_names := (os_names w)(c := nm)\<rparr>"
    have sized: "object_ok (blank_object\<lparr>so_size := s\<rparr>)" for s by (simp add: object_ok_def made_def blank_object_def)
    have new: "shm_ok n c (gs(i := g)) (?w b nm)"
      if "object_ok b" "\<not> need_remap b" "reference_count b = 0" "nm = Some ?a \<longrightarrow> so_size b = 0 \<or> made b" "nm = None \<or> nm = Some ?a"
      for b nm
      by (rule shm_ok_new [OF ok None that(1-4) _ _ _ that(5)]) simp_all
    consider "create_fails f" | "\<not> create_fails f" "truncate_fails f" | "\<not> create_fails f" "\<not> truncate_fails f" "map_fails f"
      | "\<not> create_fails f" "\<not> truncate_fails f" "\<not> map_fails f" by blast
    then show ?thesis
    proof cases
      case 1
      then show ?thesis using r g gc None ok by (auto simp: Segment_OpenOrCreate_def no_faults_def)
    next
      case 2
      then have "r = False \<and> g' = g \<and> w' = ?w blank_object (Some ?a)"
        using r g gc None by (auto simp: Segment_OpenOrCreate_def set_object_def Let_def)
      then show ?thesis using new [of blank_object "Some ?a"] 2 by (auto simp: no_faults_def)
    next
      case 3
      then have "r = False \<and> g' = g \<and> w' = ?w (blank_object\<lparr>so_size := managed_shm_size (sg_conf g)\<rparr>) None"
        using r g gc None by (auto simp: Segment_OpenOrCreate_def set_object_def Let_def)
      then show ?thesis using new [of "blank_object\<lparr>so_size := managed_shm_size (sg_conf g)\<rparr>" None] 3 sized
        by (auto simp: no_faults_def blank_object_def)
    next
      case 4
      let ?b = "fresh_object x" let ?w1 = "?w ?b (Some ?a)"
      have w': "r = True \<and> g' = attach_to ?a ?b g \<and> w' = set_object ?a (IncreaseReferenceCounts ?b) ?w1"
        using 4 r g gc None by (auto simp: Segment_OpenOrCreate_def set_object_def Let_def x attach_to_def fresh_object_def
            blank_object_def)
      have "shm_ok n c (gs(i := g)) ?w1" by (rule new) simp_all
      from shm_ok_attach [OF this i n _ gc, of ?a] have "shm_ok n c (gs(i := g')) w'" using w' g by simp
      moreover have "fresh_object (ceiling_msg_size (sg_conf g)) = ?b" by (simp add: x fresh_object_def)
      ultimately show ?thesis using w' None by auto
    qed
  qed
  then show "shm_ok n c (gs(i := g')) w'"
    "r \<Longrightarrow> \<exists>a b. os_names w' c = Some a \<and> made b \<and> g' = attach_to a b g \<and> os_objects w' a = IncreaseReferenceCounts b \<and>
       (if os_names w c = None then b = fresh_object (ceiling_msg_size (sg_conf g))
        else os_names w c = Some a \<and> b = os_objects w a \<and> w' = set_object a (IncreaseReferenceCounts b) w)"
    "\<not> r \<Longrightarrow> g' = g \<and> (f = no_faults \<longrightarrow> (\<exists>a. os_names w c = Some a \<and> so_size (os_objects w a) = 0))" by blast+
qed

definition on_current :: "u64 \<Rightarrow> shm_os \<Rightarrow> segment \<Rightarrow> nat \<Rightarrow> bool" where
  "on_current c w g a \<longleftrightarrow> os_names w c = Some a \<and> made (os_objects w a) \<and> sg_init g \<and> sg_shm g = Some a \<and>
     sg_conf g = conf_Update (so_ceiling (os_objects w a)) \<and> block_buf_addrs g = buf_addrs_of (sg_conf g)"

lemma made_inc [simp]: "made (IncreaseReferenceCounts b) = made b"
  "so_ceiling (IncreaseReferenceCounts b) = so_ceiling b" "need_remap (IncreaseReferenceCounts b) = need_remap b"
  "so_size (IncreaseReferenceCounts b) = so_size b" "so_seq (IncreaseReferenceCounts b) = so_seq b"
  "so_blocks (IncreaseReferenceCounts b) = so_blocks b" "so_mem (IncreaseReferenceCounts b) = so_mem b"
  by (simp_all add: made_def IncreaseReferenceCounts_def)

lemma init_attached:
  assumes ok: "shm_ok n c gs w" and i: "i < n" "sg_init (gs i)"
  obtains a where "sg_shm (gs i) = Some a" "a < os_next w" "need_remap (os_objects w a) \<or> on_current c w (gs i) a"
proof -
  from shm_okD(2) [OF ok i(1)] i(2) obtain a where a: "sg_shm (gs i) = Some a" "a < os_next w" "made (os_objects w a)"
    "sg_conf (gs i) = conf_Update (so_ceiling (os_objects w a))" "block_buf_addrs (gs i) = buf_addrs_of (sg_conf (gs i))"
    by (auto simp: seg_ok_def split: option.splits)
  moreover have "i \<in> attached n gs a" using i a(1) by (simp add: attached_def)
  ultimately show ?thesis using that [OF a(1,2)] shm_okD(6) [OF ok a(2)] i(2)
    by (auto simp: on_current_def count_ok_def Let_def split: if_splits)
qed

lemma Segment_Reset_sel [simp]:
  "sg_init (Segment_Reset g) = sg_init g" "sg_channel (Segment_Reset g) = sg_channel g"
  "sg_conf (Segment_Reset g) = sg_conf g" "sg_shm (Segment_Reset g) = None"
  by (simp_all add: Segment_Reset_def)

text \<open>A process attached to a marked object maps the current one, if that can be opened.\<close>

lemma Segment_Remap_ok:
  assumes ok: "shm_ok n c (gs(i := g)) w" and i: "i < n" and n: "n < 2 ^ 32"
    and a: "sg_shm g = Some a" "need_remap (os_objects w a)"
    and r: "Segment_Remap f g w = (r, g', w')"
  shows "shm_ok n c (gs(i := g')) w'"
    "r \<Longrightarrow> \<exists>a. on_current c w' g' a \<and> os_names w c = Some a \<and> w' = set_object a (IncreaseReferenceCounts (os_objects w a)) w"
    "\<not> r \<Longrightarrow> w' = w \<and> sg_init g' = False \<and> sg_shm g' = None \<and> (f = no_faults \<longrightarrow> (\<forall>a. os_names w c = Some a \<longrightarrow> so_size (os_objects w a) = 0))"
proof -
  let ?g = "Segment_Reset (g\<lparr>sg_init := False\<rparr>)"
  have gc: "sg_channel g = c" using shm_okD(1) [OF ok i] by simp
  have x: "\<exists>x. sg_conf g = conf_Update x" using shm_okD(2) [OF ok i] by (auto simp: seg_ok_def)
  have "shm_ok n c ((gs(i := g))(i := ?g)) w"
    by (rule shm_ok_leave [OF ok i]) (use gc x a in simp_all)
  then have ok2: "shm_ok n c (gs(i := ?g)) w" by simp
  have o: "Segment_OpenOnly f ?g w = (r, g', w')" using r by (simp add: Segment_Remap_def)
  have "shm_ok n c (gs(i := g')) w' \<and>
    (r \<longrightarrow> (\<exists>a. on_current c w' g' a \<and> os_names w c = Some a \<and> w' = set_object a (IncreaseReferenceCounts (os_objects w a)) w)) \<and>
    (\<not> r \<longrightarrow> w' = w \<and> sg_init g' = False \<and> sg_shm g' = None \<and> (f = no_faults \<longrightarrow> (\<forall>a. os_names w c = Some a \<longrightarrow> so_size (os_objects w a) = 0)))"
  proof (cases rule: Segment_OpenOnly_cases [OF ok2 i, of ?g f])
    case 3
    then show ?thesis using o ok2 by auto
  next
    case (4 b)
    have "shm_ok n c ((gs(i := ?g))(i := attach_to b (os_objects w b) ?g)) (set_object b (IncreaseReferenceCounts (os_objects w b)) w)"
      by (rule shm_ok_attach [OF ok2 i n]) (use gc 4 in simp_all)
    moreover have "r" "g' = attach_to b (os_objects w b) ?g" "w' = set_object b (IncreaseReferenceCounts (os_objects w b)) w"
      using o 4 by simp_all
    ultimately show ?thesis using 4 by (auto simp: on_current_def)
  qed (use gc in simp_all)
  then show "shm_ok n c (gs(i := g')) w'"
    "r \<Longrightarrow> \<exists>a. on_current c w' g' a \<and> os_names w c = Some a \<and> w' = set_object a (IncreaseReferenceCounts (os_objects w a)) w"
    "\<not> r \<Longrightarrow> w' = w \<and> sg_init g' = False \<and> sg_shm g' = None \<and> (f = no_faults \<longrightarrow> (\<forall>a. os_names w c = Some a \<longrightarrow> so_size (os_objects w a) = 0))"
    by blast+
qed

text \<open>A process marks the current object, gives up its name and leaves it.\<close>

lemma shm_ok_mark:
  assumes ok: "shm_ok n c (gs(i := g)) w" and i: "i < n" and a: "on_current c w g a"
    and g': "sg_init g' = False" "sg_channel g' = c" "\<exists>x. sg_conf g' = conf_Update x"
    and w': "os_objects w' = (os_objects w)(a := (os_objects w a)\<lparr>need_remap := True\<rparr>)" "os_next w' = os_next w" "os_names w' c = None"
  shows "shm_ok n c (gs(i := g')) w'"
proof (rule shm_okI)
  have m: "made (b\<lparr>need_remap := True\<rparr>) = made b" for b by (simp add: made_def)
  fix j assume j: "j < n"
  show "sg_channel ((gs(i := g')) j) = c" using shm_okD(1) [OF ok j] g' by (cases "j = i") simp_all
  show "seg_ok w' ((gs(i := g')) j)" using shm_okD(2) [OF ok j] g' w' m
    by (cases "j = i") (auto simp: seg_ok_def split: option.splits)
next
  fix a' assume "os_names w' c = Some a'"
  then show "a' < os_next w' \<and> (so_size (os_objects w' a') = 0 \<or> made (os_objects w' a'))" using w' by simp
next
  fix b assume b: "b < os_next w'"
  then show "object_ok (os_objects w' b)" using shm_okD(5) [OF ok, of b] w' by (auto simp: object_ok_def made_def)
  have iA: "i \<in> attached n (gs(i := g)) a" using a i by (simp add: attached_def on_current_def)
  have att: "attached n (gs(i := g')) b = attached n (gs(i := g)) b - {i}" using g'(1) by (auto simp: attached_def)
  have nb: "b = a" if "\<not> need_remap (os_objects w b)" "attached n (gs(i := g)) b \<noteq> {}"
    using shm_okD(6) [OF ok, of b] b w' a that by (auto simp: count_ok_def Let_def on_current_def)
  have le: "card (attached n (gs(i := g)) b - {i}) \<le> card (attached n (gs(i := g)) b)" by (simp add: card_Diff1_le)
  show "count_ok n c (gs(i := g')) w' b"
  proof (cases "b = a")
    case True
    have "card (attached n (gs(i := g)) a - {i}) < card (attached n (gs(i := g)) a)" by (rule card_Diff1_less [OF finite_attached iA])
    moreover have "unat (reference_count (os_objects w a)) = card (attached n (gs(i := g)) a)"
      using named_not_marked [OF ok, of a] a by (simp add: on_current_def)
    ultimately show ?thesis using True w' att by (simp add: count_ok_def Let_def)
  next
    case False
    have C: "count_ok n c (gs(i := g)) w b" using shm_okD(6) [OF ok, of b] b w'(2) by simp
    show ?thesis
    proof (cases "need_remap (os_objects w b)")
      case True
      then show ?thesis using C le False by (simp add: count_ok_def Let_def w'(1,3) att)
    next
      case unmarked: False
      then have "attached n (gs(i := g)) b = {}" using nb False by blast
      then show ?thesis using C False unmarked by (simp add: count_ok_def Let_def w'(1,3) att)
    qed
  qed
qed

lemma Segment_Recreate_ok:
  assumes ok: "shm_ok n c (gs(i := g)) w" and i: "i < n" and n: "n < 2 ^ 32" and a: "on_current c w g a"
  obtains g' w' where "Segment_Recreate f m g w = Inr (True, g', w')" "shm_ok n c (gs(i := g')) w'"
      "on_current c w' g' (os_next w)" "sg_conf g' = conf_Update m"
  | g' w' where "Segment_Recreate f m g w = Inr (False, g', w')" "shm_ok n c (gs(i := g')) w'" "f \<noteq> no_faults"
proof -
  have gc: "sg_channel g = c" using shm_okD(1) [OF ok i] by simp
  let ?w1 = "set_object a ((os_objects w a)\<lparr>need_remap := True\<rparr>) w"
  let ?w2 = "?w1\<lparr>os_names := (os_names ?w1)(c := None)\<rparr>"
  let ?g = "Segment_Reset (g\<lparr>sg_init := False\<rparr>)\<lparr>sg_conf := conf_Update m\<rparr>"
  have ok2: "shm_ok n c (gs(i := ?g)) ?w2"
    by (rule shm_ok_mark [OF ok i a]) (use gc in \<open>auto simp: set_object_def Segment_Reset_def\<close>)
  obtain r g' w' where o: "Segment_OpenOrCreate f ?g ?w2 = (r, g', w')" using prod_cases3 by blast
  have nm: "os_names w c = Some a" "sg_shm g = Some a" using a by (simp_all add: on_current_def)
  have R: "Segment_Recreate f m g w = Inr (r, g', w')"
    using o nm by (simp add: Segment_Recreate_def Segment_Remove_def Let_def gc)
  note C = Segment_OpenOrCreate_ok [OF ok2 i n _ o]
  show ?thesis
  proof (cases r)
    case True
    from C(2) [OF _ this] obtain b where b: "os_names w' c = Some b" "g' = attach_to b (fresh_object (ceiling_msg_size (sg_conf ?g))) ?g"
      "os_objects w' b = IncreaseReferenceCounts (fresh_object (ceiling_msg_size (sg_conf ?g)))"
      by (auto simp: Segment_Reset_def)
    then have "on_current c w' g' b" "sg_conf g' = conf_Update m" by (simp_all add: on_current_def)
    moreover have "b = os_next w"
      using o True b(1) gc by (auto simp: Segment_OpenOrCreate_def Segment_Reset_def Let_def split: if_splits)
    ultimately show ?thesis using that(1) R True C(1) by (simp add: Segment_Reset_def)
  next
    case False
    have "f \<noteq> no_faults" using C(3) [OF _ False] by (auto simp: Segment_Reset_def)
    then show ?thesis using that(2) R False C(1) by (simp add: Segment_Reset_def)
  qed
qed

lemma ceiling_enough: "m \<le> MESSAGE_SIZE_MORE \<Longrightarrow> m \<le> GetCeilingMessageSize m"
  by (simp add: GetCeilingMessageSize_def)

text \<open>The first two thirds: the process is attached to the current object, or to none.\<close>

lemma open_and_remap_ok:
  assumes ok: "shm_ok n c gs w" and i: "i < n" and n: "n < 2 ^ 32"
    and o: "Segment_OpenOrCreate f0 (gs i) w = (True, g1, w1)" and a: "sg_shm g1 = Some a1"
    and r: "(if need_remap (os_objects w1 a1) then Segment_Remap f1 g1 w1 else (True, g1, w1)) = (r, g2, w2)"
  shows "shm_ok n c (gs(i := g2)) w2" "r \<Longrightarrow> \<exists>a. on_current c w2 g2 a" "\<not> r \<Longrightarrow> sg_init g2 = False \<and> sg_shm g2 = None"
proof -
  have ok1: "shm_ok n c (gs(i := g1)) w1"
  proof (cases "sg_init (gs i)")
    case True
    then show ?thesis using o ok by (auto simp: Segment_OpenOrCreate_def)
  next
    case False
    show ?thesis by (rule Segment_OpenOrCreate_ok(1) [OF _ i n _ o]) (use ok False in simp_all)
  qed
  have i1: "sg_init g1"
  proof (cases "sg_init (gs i)")
    case True
    then show ?thesis using o by (auto simp: Segment_OpenOrCreate_def)
  next
    case False
    have "shm_ok n c (gs(i := gs i)) w" using ok by simp
    from Segment_OpenOrCreate_ok(2) [OF this i n False o] show ?thesis by auto
  qed
  obtain a where "sg_shm g1 = Some a" "need_remap (os_objects w1 a) \<or> on_current c w1 g1 a"
    using init_attached [OF ok1 i] i1 by auto
  then have cur: "on_current c w1 g1 a1" if "\<not> need_remap (os_objects w1 a1)" using a that by simp
  show "shm_ok n c (gs(i := g2)) w2" "r \<Longrightarrow> \<exists>a. on_current c w2 g2 a" "\<not> r \<Longrightarrow> sg_init g2 = False \<and> sg_shm g2 = None"
  proof -
    show "shm_ok n c (gs(i := g2)) w2"
      using Segment_Remap_ok(1) [OF ok1 i n a, of f1 r g2 w2] r ok1 by (auto split: if_splits)
    show "\<exists>a. on_current c w2 g2 a" if r
      using Segment_Remap_ok(2) [OF ok1 i n a, of f1 r g2 w2] r cur that by (auto split: if_splits)
    show "sg_init g2 = False \<and> sg_shm g2 = None" if "\<not> r"
      using Segment_Remap_ok(3) [OF ok1 i n a, of f1 r g2 w2] r that by (auto split: if_splits)
  qed
qed

lemma open_for_write_ok:
  assumes ok: "shm_ok n c gs w" and i: "i < n" and n: "n < 2 ^ 32"
    and r: "open_for_write f m (gs i) w = Inr (r, g', w')"
  shows "shm_ok n c (gs(i := g')) w'"
    "r \<Longrightarrow> \<exists>a. on_current c w' g' a \<and> (m \<le> MESSAGE_SIZE_MORE \<longrightarrow> m \<le> ceiling_msg_size (sg_conf g'))"
proof -
  have ok': "shm_ok n c (gs(i := gs i)) w" using ok by simp
  obtain r1 g1 w1 where o: "Segment_OpenOrCreate (f 0) (gs i) w = (r1, g1, w1)" using prod_cases3 by blast
  have "shm_ok n c (gs(i := g')) w' \<and>
    (r \<longrightarrow> (\<exists>a. on_current c w' g' a \<and> (m \<le> MESSAGE_SIZE_MORE \<longrightarrow> m \<le> ceiling_msg_size (sg_conf g'))))"
  proof (cases r1)
    case False
    then have "r = False" "g' = g1" "w' = w1" using r o by (simp_all add: open_for_write_def)
    moreover have "\<not> sg_init (gs i)" using o False by (auto simp: Segment_OpenOrCreate_def)
    ultimately show ?thesis using Segment_OpenOrCreate_ok(1) [OF ok' i n _ o] by simp
  next
    case True
    then obtain a1 where a1: "sg_shm g1 = Some a1" using r o by (auto simp: open_for_write_def split: option.splits)
    obtain r2 g2 w2 where o2: "(if need_remap (os_objects w1 a1) then Segment_Remap (f 1) g1 w1 else (True, g1, w1)) = (r2, g2, w2)"
      using prod_cases3 by blast
    note S = open_and_remap_ok [OF ok i n o [unfolded True[THEN eqTrueI]] a1 o2]
    have R: "(if m > ceiling_msg_size (sg_conf g2) then Segment_Recreate (f 2) m g2 w2 else Inr (r2, g2, w2)) = Inr (r, g', w')"
      using r o True a1 o2 by (simp add: open_for_write_def split del: if_split)
    show ?thesis
    proof (cases "m > ceiling_msg_size (sg_conf g2)")
      case big: True
      then have "sg_shm g2 \<noteq> None" using R by (cases "sg_shm g2") (simp_all add: Segment_Recreate_def)
      then have r2: r2 using S(3) by (cases r2) simp_all
      then obtain a2 where "on_current c w2 g2 a2" using S(2) by blast
      from Segment_Recreate_ok [OF S(1) i n this, of "f 2" m] R big ceiling_enough [of m] show ?thesis by fastforce
    next
      case False
      then show ?thesis using R S by auto
    qed
  qed
  then show "shm_ok n c (gs(i := g')) w'"
    "r \<Longrightarrow> \<exists>a. on_current c w' g' a \<and> (m \<le> MESSAGE_SIZE_MORE \<longrightarrow> m \<le> ceiling_msg_size (sg_conf g'))" by blast+
qed

lemma open_for_read_ok:
  assumes ok: "shm_ok n c gs w" and i: "i < n" and n: "n < 2 ^ 32"
    and r: "open_for_read f k (gs i) w = Inr (r, g', w')"
  shows "shm_ok n c (gs(i := g')) w'" "r \<Longrightarrow> \<exists>a. on_current c w' g' a"
proof -
  have gc: "sg_channel (gs i) = c" using shm_okD(1) [OF ok i] .
  obtain r1 g1 w1 where o: "Segment_OpenOnly (f 0) (gs i) w = (r1, g1, w1)" using prod_cases3 by blast
  have S1: "shm_ok n c (gs(i := g1)) w1 \<and> (r1 \<longrightarrow> sg_init g1)"
  proof (cases "sg_init (gs i)")
    case True
    then show ?thesis using o ok by (auto simp: Segment_OpenOnly_def)
  next
    case False
    show ?thesis
    proof (cases rule: Segment_OpenOnly_cases [OF ok i False gc, of "f 0"])
      case 1
      then show ?thesis using o ok by auto
    next
      case (2 a)
      then show ?thesis using o shm_ok_attach [OF ok i n _ gc 2(1,3)] False by auto
    qed
  qed
  have "shm_ok n c (gs(i := g')) w' \<and> (r \<longrightarrow> (\<exists>a. on_current c w' g' a))"
  proof (cases "r1 \<and> k < conf_block_num (sg_conf g1)")
    case True
    then have i1: "sg_init ((gs(i := g1)) i)" using S1 by simp
    from S1 have ok1: "shm_ok n c (gs(i := g1)) w1" by simp
    obtain a where a: "sg_shm g1 = Some a" "need_remap (os_objects w1 a) \<or> on_current c w1 g1 a"
      using init_attached [OF ok1 i i1] by auto
    have R: "(if need_remap (os_objects w1 a) then Segment_Remap (f 1) g1 w1 else (True, g1, w1)) = (r, g', w')"
      using r o True a(1) by (simp add: open_for_read_def split del: if_split)
    show ?thesis
    proof (cases "need_remap (os_objects w1 a)")
      case nr: True
      then have rm: "Segment_Remap (f 1) g1 w1 = (r, g', w')" using R by simp
      show ?thesis using Segment_Remap_ok(1,2) [OF ok1 i n a(1) nr rm] by blast
    next
      case False
      then show ?thesis using R a(2) ok1 by auto
    qed
  next
    case False
    then have "r = False \<and> g' = g1 \<and> w' = w1" using r o by (cases r1) (auto simp: open_for_read_def)
    then show ?thesis using S1 by simp
  qed
  then show "shm_ok n c (gs(i := g')) w'" "r \<Longrightarrow> \<exists>a. on_current c w' g' a" by blast+
qed

subsection \<open>The effect of the calls\<close>

lemma set_object_idem [simp]: "b = os_objects w a \<Longrightarrow> set_object a b w = w"
  by (simp add: set_object_def)

lemma set_object_twice [simp]: "set_object a b (set_object a b' w) = set_object a b w"
  by (simp add: set_object_def)

lemma num_blocks:
  "conf_block_num (conf_Update x) > 0" "conf_block_num (conf_Update x) dvd 2 ^ 32" "BLOCK_NUM_MORE \<le> conf_block_num (conf_Update x)"
  by (simp_all add: conf_Update_def GetBlockNum_def GetCeilingMessageSize_def shm_sizes Let_def)

text \<open>An object after a message was written into its next block.\<close>

definition written :: "shm_conf \<Rightarrow> byte list \<Rightarrow> message_info \<Rightarrow> shm_object \<Rightarrow> shm_object" where
  "written conf msg info b =
     (let k = unat (so_seq b) mod conf_block_num conf; p = k * block_buf_size conf
      in b\<lparr>so_seq := so_seq b + 1,
           so_mem := write_mem (p + length msg) (mi_SerializeTo info) (write_mem p msg (so_mem b)),
           so_blocks := (so_blocks b)(k := \<lparr>bk_lock = RW_LOCK_FREE, bk_msg_size = length msg, bk_info_size = mi_kSize\<rparr>)\<rparr>)"

lemma Acquire_current:
  assumes o: "open_for_write f m g w = Inr (True, g', w')" and a: "on_current c w' g' a" and ob: "object_ok (os_objects w' a)"
  shows "AcquireBlockToWrite f m g w =
    (let b = os_objects w' a; k = unat (so_seq b) mod conf_block_num (sg_conf g')
     in Inr (Some \<lparr>wb_index = k, wb_buf = Some (k * block_buf_size (sg_conf g'))\<rparr>, g',
          set_object a (after_search (conf_block_num (sg_conf g')) 0 b) w'))"
proof -
  let ?num = "conf_block_num (sg_conf g')"
  have c: "sg_conf g' = conf_Update (so_ceiling (os_objects w' a))" using a by (simp add: on_current_def)
  have "block_free (os_objects w' a) (unat (so_seq (os_objects w' a)) mod ?num)"
    using ob a by (simp add: object_ok_def on_current_def block_free_def)
  then have "GetNextWritableBlockIndex ?num (os_objects w' a) =
      Some (unat (so_seq (os_objects w' a)) mod ?num, after_search ?num 0 (os_objects w' a))"
    using search_finds [of "os_objects w' a" 0 ?num] by simp
  then show ?thesis using a num_blocks(1)
    by (simp add: AcquireBlockToWrite_def o on_current_def Let_def buf_addrs_of_def c)
qed

lemma Shm_Transmit_current:
  assumes o: "open_for_write f (length msg) g w = Inr (True, g', w')" and a: "on_current c w' g' a" and ob: "object_ok (os_objects w' a)"
  shows "Shm_Transmit f ser_ok msg info g w =
    (let b = os_objects w' a; k = unat (so_seq b) mod conf_block_num (sg_conf g'); p = k * block_buf_size (sg_conf g')
     in if \<not> ser_ok then Inr (None, g', set_object a (b\<lparr>so_seq := so_seq b + 1\<rparr>) w')
        else if p + length msg > buffer_space (sg_conf g') b \<or> p + length msg + length (mi_SerializeTo info) > buffer_space (sg_conf g') b
        then Inl Past_the_mapping
        else Inr (Some k, g', set_object a (written (sg_conf g') msg info b) w'))"
proof -
  have c: "sg_conf g' = conf_Update (so_ceiling (os_objects w' a))" "sg_shm g' = Some a" using a by (simp_all add: on_current_def)
  have num: "\<not> conf_block_num (sg_conf g') \<le> x mod conf_block_num (sg_conf g')" for x
    using num_blocks(1) unfolding c(1) by (simp add: not_le)
  have lock: "bk_lock (so_blocks (os_objects w' a) k) = RW_LOCK_FREE" for k using ob a by (simp add: object_ok_def on_current_def)
  have blk: "(so_blocks (os_objects w' a) k)\<lparr>bk_lock := 0\<rparr> = so_blocks (os_objects w' a) k" for k
    using lock [of k] by (simp add: lock_words)
  have blk2: "(so_blocks (os_objects w' a) k)\<lparr>bk_msg_size := m, bk_info_size := l\<rparr> = \<lparr>bk_lock = 0, bk_msg_size = m, bk_info_size = l\<rparr>"
    for k m l using lock [of k] by (cases "so_blocks (os_objects w' a) k") (simp add: lock_words)
  show ?thesis unfolding Shm_Transmit_def Acquire_current [OF o a ob] Let_def
    by (simp add: c(2) num ReleaseWrittenBlock_def set_block_def after_search_def Let_def Block_ReleaseWriteLock_def lock_words blk blk2
        copy_to_def buffer_space_def written_def mi_SerializeTo_buf_def mi_SerializeTo_def)
qed

lemma Shm_ReadMessage_current:
  assumes o: "open_for_read f k g w = Inr (True, g', w')" and a: "on_current c w' g' a" and ob: "object_ok (os_objects w' a)"
  shows "Shm_ReadMessage h f k g w =
    (let b = os_objects w' a; p = k * block_buf_size (sg_conf g'); m = bk_msg_size (so_blocks b k); l = bk_info_size (so_blocks b k);
         src = read_mem (p + m) (if l = mi_kSize then l else 0) (so_mem b)
     in if k \<ge> conf_block_num (sg_conf g') then Inl Past_the_blocks
        else if p + m + (if l = mi_kSize then l else 0) > buffer_space (sg_conf g') b then Inl Past_the_mapping
        else if l \<noteq> mi_kSize then Inr (None, g', w')
        else Inr (Some (read_mem p m (so_mem b), snd (mi_DeserializeFrom h src l (new_message_info h))), g', w'))"
proof (cases "k \<ge> conf_block_num (sg_conf g')")
  case True
  then show ?thesis using a o by (simp add: Shm_ReadMessage_def AcquireBlockToRead_def on_current_def Let_def)
next
  case False
  have c: "sg_conf g' = conf_Update (so_ceiling (os_objects w' a))" "sg_shm g' = Some a"
    "block_buf_addrs g' = buf_addrs_of (sg_conf g')" using a by (simp_all add: on_current_def)
  have lock: "bk_lock (so_blocks (os_objects w' a) k) = RW_LOCK_FREE" using ob a by (simp add: object_ok_def on_current_def)
  let ?b = "os_objects w' a"
  let ?b1 = "?b\<lparr>so_blocks := (so_blocks ?b)(k := (so_blocks ?b k)\<lparr>bk_lock := 1\<rparr>)\<rparr>"
  have A: "AcquireBlockToRead f k g w = Inr (Some \<lparr>wb_index = k, wb_buf = Some (k * block_buf_size (sg_conf g'))\<rparr>, g', set_object a ?b1 w')"
    using False lock by (simp add: AcquireBlockToRead_def o c(2,3) try_lock_block_for_read_def Let_def lock_words buf_addrs_of_def)
  have blk: "(so_blocks ?b k)\<lparr>bk_lock := 0\<rparr> = so_blocks ?b k" using lock by (simp add: lock_words)
  have R: "ReleaseReadBlock \<lparr>wb_index = k, wb_buf = p\<rparr> g' (set_object a ?b1 w') = Inr w'" for p
    using False c(2) by (simp add: ReleaseReadBlock_def set_block_def Block_ReleaseReadLock_def blk Let_def)
  show ?thesis
  proof (cases "bk_info_size (so_blocks ?b k) = mi_kSize")
    case True
    then show ?thesis using False
      by (simp add: Shm_ReadMessage_def A c(2) R copy_from_def buffer_space_def mi_DeserializeFrom_def Let_def)
  next
    case no: False
    then show ?thesis using False
      by (simp add: Shm_ReadMessage_def A c(2) R copy_from_def buffer_space_def mi_DeserializeFrom_def Let_def)
  qed
qed

lemma Segment_Destroy_ok:
  assumes ok: "shm_ok n c gs w" and i: "i < n" and r: "Segment_Destroy (gs i) w = Inr (r, g', w')"
  shows "shm_ok n c (gs(i := g')) w'"
proof (cases "sg_init (gs i)")
  case False
  then have "g' = gs i" "w' = w" using r by (simp_all add: Segment_Destroy_def)
  then show ?thesis using ok by simp
next
  case True
  obtain a where a: "sg_shm (gs i) = Some a" "a < os_next w" "need_remap (os_objects w a) \<or> on_current c w (gs i) a"
    using init_attached [OF ok i True] by blast
  let ?b = "os_objects w a" let ?b' = "DecreaseReferenceCounts ?b" let ?A = "attached n gs a"
  have iA: "i \<in> ?A" using i True a(1) by (simp add: attached_def)
  have gc: "sg_channel (gs i) = c" using shm_okD(1) [OF ok i] .
  note C = shm_okD(6) [OF ok a(2)]
  have pos: "card ?A > 0" using iA by (auto simp: card_gt_0_iff)
  have le: "card ?A \<le> unat (reference_count ?b)" using C by (auto simp: count_ok_def Let_def split: if_splits)
  have "unat (reference_count ?b) \<noteq> 0" using pos le by simp
  then have "reference_count ?b \<noteq> 0" by auto
  then have b': "unat (reference_count ?b') = unat (reference_count ?b) - 1" "made ?b' = made ?b" "need_remap ?b' = need_remap ?b"
    "so_ceiling ?b' = so_ceiling ?b" "so_size ?b' = so_size ?b" "so_blocks ?b' = so_blocks ?b"
    by (simp_all add: DecreaseReferenceCounts_def made_def unat_minus_one)
  have cA: "card (?A - {i}) = card ?A - 1" using iA by simp
  have w': "g' = (gs i)\<lparr>sg_init := False\<rparr>" "os_objects w' = (os_objects w)(a := ?b')" "os_next w' = os_next w"
    "os_names w' c = (if reference_count ?b' = 0 then None else os_names w c)"
    using r True a(1) gc by (auto simp: Segment_Destroy_def Segment_Remove_def Let_def split: if_splits)
  have att: "attached n (gs(i := g')) d = attached n gs d - {i}" for d using w'(1) by (simp add: attached_upd [OF i])
  have last: "need_remap ?b = False \<and> ?A - {i} = {}" if "reference_count ?b' = 0"
  proof -
    have "unat (reference_count ?b) \<le> 1" using that b'(1) by simp
    then show ?thesis using C pos le cA by (auto simp: count_ok_def Let_def split: if_splits)
  qed
  show ?thesis
  proof (rule shm_okI)
    fix j assume j: "j < n"
    show "sg_channel ((gs(i := g')) j) = c" using shm_okD(1) [OF ok j] gc w'(1) by simp
    show "seg_ok w' ((gs(i := g')) j)" using shm_okD(2) [OF ok j] w' b'
      by (auto simp: seg_ok_def split: option.splits)
  next
    fix d assume "os_names w' c = Some d"
    then show "d < os_next w' \<and> (so_size (os_objects w' d) = 0 \<or> made (os_objects w' d))"
      using shm_okD(3,4) [OF ok, of d] w' b' by (auto split: if_splits)
  next
    fix d assume d: "d < os_next w'"
    then show "object_ok (os_objects w' d)" using shm_okD(5) [OF ok, of d] w' b' by (auto simp: object_ok_def)
    have Cd: "count_ok n c gs w d" using shm_okD(6) [OF ok, of d] d w'(3) by simp
    show "count_ok n c (gs(i := g')) w' d"
    proof (cases "d = a")
      case True
      then show ?thesis using C b' cA att w' pos le last by (auto simp: count_ok_def Let_def split: if_splits)
    next
      case False
      have "i \<notin> attached n gs d" using a(1) False by (simp add: attached_def)
      moreover have "os_names w c = Some a" if "reference_count ?b' = 0" using last [OF that] C iA by (auto simp: count_ok_def Let_def)
      ultimately show ?thesis using Cd False by (auto simp: count_ok_def Let_def att w'(2,4))
    qed
  qed
qed

lemma on_current_lt: "shm_ok n c gs w \<Longrightarrow> on_current c w g a \<Longrightarrow> a < os_next w \<and> object_ok (os_objects w a)"
  using shm_okD(3,5) by (auto simp: on_current_def)

lemma written_sel [simp]:
  "so_size (written conf msg info b) = so_size b" "need_remap (written conf msg info b) = need_remap b"
  "reference_count (written conf msg info b) = reference_count b" "so_ceiling (written conf msg info b) = so_ceiling b"
  "so_seq (written conf msg info b) = so_seq b + 1" "made (written conf msg info b) = made b"
  by (simp_all add: written_def Let_def made_def)

lemma shm_step_ok:
  assumes ok: "shm_ok n c (sy_segs s) (sy_os s)" and i: "event_process e < n" and n: "n < 2 ^ 32"
    and r: "shm_step h e s = Inr (x, s')"
  shows "shm_ok n c (sy_segs s') (sy_os s')"
proof (cases e)
  case (Send i f ser_ok msg info)
  then have i: "i < n" using assms(2) by simp
  let ?T = "Shm_Transmit f ser_ok msg info (sy_segs s i) (sy_os s)"
  from r Send obtain y g' w' where T: "?T = Inr (y, g', w')" and s': "s' = \<lparr>sy_os = w', sy_segs = (sy_segs s)(i := g')\<rparr>"
    by (auto simp: shm_put_def split: sum.splits)
  obtain r1 g1 w1 where o: "open_for_write f (length msg) (sy_segs s i) (sy_os s) = Inr (r1, g1, w1)"
    using T by (cases "open_for_write f (length msg) (sy_segs s i) (sy_os s)") (auto simp: Shm_Transmit_def AcquireBlockToWrite_def)
  note O = open_for_write_ok [OF ok i n o]
  show ?thesis
  proof (cases r1)
    case False
    then show ?thesis using T o O(1) s' by (simp add: Shm_Transmit_def AcquireBlockToWrite_def)
  next
    case True
    then obtain a where a: "on_current c w1 g1 a" using O(2) by blast
    note lt = on_current_lt [OF O(1) a]
    have lock: "bk_lock (so_blocks (os_objects w1 a) k) = RW_LOCK_FREE" for k
      using lt a by (simp add: object_ok_def on_current_def)
    let ?b = "os_objects w1 a"
    have K: "shm_ok n c ((sy_segs s)(i := g1)) (set_object a (written (sg_conf g1) msg info ?b) w1)"
      "shm_ok n c ((sy_segs s)(i := g1)) (set_object a (?b\<lparr>so_seq := so_seq ?b + 1\<rparr>) w1)"
      by (rule shm_ok_content [OF O(1)]; simp add: written_def Let_def lock)+
    have "g' = g1 \<and> (w' = set_object a (written (sg_conf g1) msg info ?b) w1 \<or> w' = set_object a (?b\<lparr>so_seq := so_seq ?b + 1\<rparr>) w1)"
      using T unfolding Shm_Transmit_current [OF o [unfolded True[THEN eqTrueI]] a lt [THEN conjunct2]]
      by (auto simp: Let_def simp del: set_object_idem split: if_splits)
    then show ?thesis using s' K by auto
  qed
next
  case (Recv i f k)
  then have i: "i < n" using assms(2) by simp
  let ?T = "Shm_ReadMessage h f k (sy_segs s i) (sy_os s)"
  from r Recv obtain y g' w' where T: "?T = Inr (y, g', w')" and s': "s' = \<lparr>sy_os = w', sy_segs = (sy_segs s)(i := g')\<rparr>"
    by (auto simp: shm_put_def split: sum.splits)
  obtain r1 g1 w1 where o: "open_for_read f k (sy_segs s i) (sy_os s) = Inr (r1, g1, w1)"
    using T by (cases "open_for_read f k (sy_segs s i) (sy_os s)") (auto simp: Shm_ReadMessage_def AcquireBlockToRead_def)
  note O = open_for_read_ok [OF ok i n o]
  show ?thesis
  proof (cases r1)
    case False
    then show ?thesis using T o O(1) s' by (simp add: Shm_ReadMessage_def AcquireBlockToRead_def)
  next
    case True
    then obtain a where a: "on_current c w1 g1 a" using O(2) by blast
    have "g' = g1 \<and> w' = w1"
      using T unfolding Shm_ReadMessage_current [OF o [unfolded True[THEN eqTrueI]] a on_current_lt [OF O(1) a, THEN conjunct2]]
      by (auto simp: Let_def split: if_splits)
    then show ?thesis using s' O(1) by simp
  qed
next
  case (Close i)
  then show ?thesis using r i Segment_Destroy_ok [OF ok, of i] by (auto simp: shm_put_def split: sum.splits)
qed

lemma shm_run_ok:
  "shm_ok n c (sy_segs s) (sy_os s) \<Longrightarrow> \<forall>e\<in>set es. event_process e < n \<Longrightarrow> n < 2 ^ 32 \<Longrightarrow> shm_run h es s = Inr s' \<Longrightarrow>
   shm_ok n c (sy_segs s') (sy_os s')"
proof (induction es arbitrary: s)
  case (Cons e es)
  then obtain x s1 where 1: "shm_step h e s = Inr (x, s1)" "shm_run h es s1 = Inr s'" by (auto split: sum.splits)
  then show ?case using Cons.IH [of s1] shm_step_ok [OF Cons.prems(1) _ Cons.prems(3) 1(1)] Cons.prems by simp
qed simp

lemma new_shm_ok: "shm_ok n c (sy_segs (new_shm_system c)) (sy_os (new_shm_system c))"
  by (auto simp: shm_ok_def new_shm_system_def new_segment_def seg_ok_def new_shm_conf_def)

end
