(* ===== verification/ShmTransport.thy ===== *)
theory ShmTransport
  imports ShmProcesses
begin

text \<open>
  What the segments promise: a message written into a block is read back by every process that reads the
  block before it is written again, and the cases in which a segment that was made anew fails the
  processes that still map the old one.
\<close>

section \<open>A message in its block\<close>

lemma on_current_ceiling:
  assumes "shm_ok n c gs w" "on_current c w g a"
  shows "ceiling_msg_size (sg_conf g) = so_ceiling (os_objects w a)"
  using on_current_lt [OF assms] assms(2) by (auto simp: object_ok_def on_current_def)

text \<open>Without faults a process that finds the named object usable is attached to it by the next call.\<close>

lemma open_and_remap_quiet:
  assumes ok: "shm_ok n c gs w" and i: "i < n" and n: "n < 2 ^ 32"
    and a: "os_names w c = Some a" "made (os_objects w a)"
  shows "\<exists>g1 w1 a1 g2 w2. Segment_OpenOrCreate no_faults (gs i) w = (True, g1, w1) \<and> Segment_OpenOnly no_faults (gs i) w = (True, g1, w1) \<and>
    sg_shm g1 = Some a1 \<and>
    (if need_remap (os_objects w1 a1) then Segment_Remap no_faults g1 w1 else (True, g1, w1)) = (True, g2, w2) \<and>
    on_current c w2 g2 a \<and> (w2 = w \<or> w2 = set_object a (IncreaseReferenceCounts (os_objects w a)) w) \<and>
    (if sg_init (gs i) then g1 = gs i \<and> w1 = w else g1 = g2 \<and> w1 = w2)"
proof (cases "sg_init (gs i)")
  case True
  obtain a1 where a1: "sg_shm (gs i) = Some a1" "need_remap (os_objects w a1) \<or> on_current c w (gs i) a1"
    using init_attached [OF ok i True] by blast
  have o: "Segment_OpenOrCreate no_faults (gs i) w = (True, gs i, w)" "Segment_OpenOnly no_faults (gs i) w = (True, gs i, w)"
    using True by (simp_all add: Segment_OpenOrCreate_def Segment_OpenOnly_def)
  show ?thesis
  proof (cases "need_remap (os_objects w a1)")
    case nr: True
    obtain r g2 w2 where R: "Segment_Remap no_faults (gs i) w = (r, g2, w2)" using prod_cases3 by blast
    have ok': "shm_ok n c (gs(i := gs i)) w" using ok by simp
    note P = Segment_Remap_ok [OF ok' i n a1(1) nr R]
    have r: r using P(3) a by (cases r) (auto simp: made_def)
    then show ?thesis using P(2) o a1(1) nr R a(1) True by auto
  next
    case False
    then have "on_current c w (gs i) a" using a1 a(1) by (auto simp: on_current_def)
    then show ?thesis using o a1(1) False True by auto
  qed
next
  case False
  have gc: "sg_channel (gs i) = c" using shm_okD(1) [OF ok i] .
  have nr: "\<not> need_remap (os_objects w a)" using named_not_marked [OF ok a(1)] by simp
  let ?g = "attach_to a (os_objects w a) (gs i)" let ?w = "set_object a (IncreaseReferenceCounts (os_objects w a)) w"
  have o: "Segment_OpenOnly no_faults (gs i) w = (True, ?g, ?w)"
    using False gc a by (simp add: Segment_OpenOnly_def no_faults_def made_def attach_to_def Let_def)
  then have "Segment_OpenOrCreate no_faults (gs i) w = (True, ?g, ?w)" using False gc a(1) by (simp add: Segment_OpenOrCreate_def)
  moreover have "on_current c ?w ?g a" using a by (simp add: on_current_def)
  ultimately show ?thesis using o nr False by fastforce
qed

lemma open_for_write_quiet:
  assumes ok: "shm_ok n c gs w" and i: "i < n" and n: "n < 2 ^ 32"
    and a: "os_names w c = Some a" "made (os_objects w a)" and m: "m \<le> so_ceiling (os_objects w a)"
  shows "\<exists>g' w'. open_for_write (\<lambda>_. no_faults) m (gs i) w = Inr (True, g', w') \<and> on_current c w' g' a \<and>
    (w' = w \<or> w' = set_object a (IncreaseReferenceCounts (os_objects w a)) w)"
proof -
  obtain g1 w1 a1 g2 w2 where Q: "Segment_OpenOrCreate no_faults (gs i) w = (True, g1, w1)" "sg_shm g1 = Some a1"
    "(if need_remap (os_objects w1 a1) then Segment_Remap no_faults g1 w1 else (True, g1, w1)) = (True, g2, w2)"
    "on_current c w2 g2 a" "w2 = w \<or> w2 = set_object a (IncreaseReferenceCounts (os_objects w a)) w"
    using open_and_remap_quiet [OF ok i n a] by blast
  have "so_ceiling (os_objects w2 a) = so_ceiling (os_objects w a)" using Q(5) by auto
  moreover have "ceiling_msg_size (sg_conf g2) = so_ceiling (os_objects w2 a)"
    using on_current_ceiling [OF _ Q(4)] open_and_remap_ok(1) [OF ok i n Q(1-3)] by blast
  ultimately show ?thesis using Q m by (auto simp: open_for_write_def split del: if_split)
qed

lemma open_for_read_quiet:
  assumes ok: "shm_ok n c gs w" and i: "i < n" and n: "n < 2 ^ 32"
    and a: "os_names w c = Some a" "made (os_objects w a)"
  shows "\<exists>r g' w'. open_for_read (\<lambda>_. no_faults) k (gs i) w = Inr (r, g', w') \<and>
    (r \<longrightarrow> on_current c w' g' a) \<and> (w' = w \<or> w' = set_object a (IncreaseReferenceCounts (os_objects w a)) w) \<and>
    (k < conf_block_num (conf_Update (so_ceiling (os_objects w a))) \<and> (sg_init (gs i) \<longrightarrow> k < conf_block_num (sg_conf (gs i))) \<longrightarrow> r)"
proof -
  obtain g1 w1 a1 g2 w2 where Q: "Segment_OpenOnly no_faults (gs i) w = (True, g1, w1)" "sg_shm g1 = Some a1"
    "(if need_remap (os_objects w1 a1) then Segment_Remap no_faults g1 w1 else (True, g1, w1)) = (True, g2, w2)"
    "on_current c w2 g2 a" "w2 = w \<or> w2 = set_object a (IncreaseReferenceCounts (os_objects w a)) w"
    "if sg_init (gs i) then g1 = gs i \<and> w1 = w else g1 = g2 \<and> w1 = w2"
    using open_and_remap_quiet [OF ok i n a] by blast
  have "so_ceiling (os_objects w2 a) = so_ceiling (os_objects w a)" using Q(5) by auto
  then have c2: "sg_conf g2 = conf_Update (so_ceiling (os_objects w a))" using Q(4) by (simp add: on_current_def)
  show ?thesis
  proof (cases "k < conf_block_num (sg_conf g1)")
    case True
    then have "open_for_read (\<lambda>_. no_faults) k (gs i) w = Inr (True, g2, w2)"
      using Q(1-3) by (simp add: open_for_read_def split del: if_split)
    then show ?thesis using Q(4,5) by blast
  next
    case False
    then have o: "open_for_read (\<lambda>_. no_faults) k (gs i) w = Inr (False, g1, w1)" using Q(1) by (simp add: open_for_read_def)
    show ?thesis using o Q(5,6) False c2 by (auto split: if_splits)
  qed
qed

text \<open>The message lies in block \<open>k\<close> of the current object, \<open>t\<close> blocks behind the next one to write.\<close>

definition holds_message :: "u64 \<Rightarrow> nat \<Rightarrow> nat \<Rightarrow> byte list \<Rightarrow> message_info \<Rightarrow> nat \<Rightarrow> shm_os \<Rightarrow> bool" where
  "holds_message c a k msg info t w \<longleftrightarrow>
     (let b = os_objects w a; conf = conf_Update (so_ceiling b); num = conf_block_num conf
      in os_names w c = Some a \<and> made b \<and> k < num \<and> t < num \<and> unat (so_seq b) mod num = (k + 1 + t) mod num \<and>
         length msg \<le> so_ceiling b \<and>
         so_blocks b k = \<lparr>bk_lock = RW_LOCK_FREE, bk_msg_size = length msg, bk_info_size = mi_kSize\<rparr> \<and>
         read_mem (k * block_buf_size conf) (length msg + mi_kSize) (so_mem b) = msg @ mi_SerializeTo info)"

lemma holds_inc:
  "holds_message c a k msg info t w \<Longrightarrow> holds_message c a k msg info t (set_object a (IncreaseReferenceCounts (os_objects w a)) w)"
  by (simp add: holds_message_def Let_def)

lemma read_write_same: "read_mem p (length bs) (write_mem p bs m) = bs"
  by (rule nth_equalityI) (simp_all add: read_mem_def write_mem_def)

lemma read_write_other:
  "p + length bs \<le> q \<or> q + n \<le> p \<Longrightarrow> read_mem q n (write_mem p bs m) = read_mem q n m"
  by (auto simp: read_mem_def write_mem_def)

lemma read_mem_add: "read_mem p (m + n) mm = read_mem p m mm @ read_mem (p + m) n mm"
  by (rule nth_equalityI) (auto simp: read_mem_def nth_append)

lemma length_read_mem [simp]: "length (read_mem p n m) = n"
  by (simp add: read_mem_def)

lemma block_room:
  assumes "i < (num :: nat)" "len \<le> B"
  shows "i * B + len \<le> num * B"
proof -
  have "i * B + len \<le> (i + 1) * B" using assms(2) by simp
  also have "\<dots> \<le> num * B" by (rule mult_right_mono) (use assms(1) in simp_all)
  finally show ?thesis .
qed

lemma blocks_apart:
  assumes "(i :: nat) \<noteq> j" "m \<le> B" "n \<le> B"
  shows "i * B + m \<le> j * B \<or> j * B + n \<le> i * B"
  using block_room [of i j m B] block_room [of j i n B] assms by (cases i j rule: linorder_cases) auto

lemma buf_size: "block_buf_size (conf_Update x) = GetCeilingMessageSize x + 1024"
  by (simp add: conf_Update_def GetBlockBufSize_def shm_sizes Let_def)

lemma mi_kSize_24: "mi_kSize = 24"
  by (simp add: mi_kSize_def ID_SIZE_def)

lemma object_ceiling:
  assumes "object_ok b" "made b"
  shows "GetCeilingMessageSize (so_ceiling b) = so_ceiling b"
  using assms by (auto simp: object_ok_def)

text \<open>Every block, with a message that is not larger than the ceiling and its info, is within the mapping.\<close>

lemma block_in_mapping:
  assumes "object_ok b" "made b" "k < conf_block_num (conf_Update (so_ceiling b))" "l \<le> so_ceiling b + 1024"
  shows "k * block_buf_size (conf_Update (so_ceiling b)) + l \<le> buffer_space (conf_Update (so_ceiling b)) b"
proof -
  let ?c = "conf_Update (so_ceiling b)" let ?num = "conf_block_num ?c" let ?B = "block_buf_size ?c"
  have s: "so_size b = 5120 + (1024 + ?B) * ?num"
    using assms(1,2) by (simp add: object_ok_def) (simp add: conf_Update_def shm_sizes Let_def)
  have B: "?B = so_ceiling b + 1024" using object_ceiling [OF assms(1,2)] by (simp add: buf_size)
  have "k * ?B + l \<le> ?num * ?B" by (rule block_room [OF assms(3)]) (simp add: B assms(4))
  moreover have "so_size b - (32 + ?num * 32) = 5088 + ?num * 992 + ?num * ?B" unfolding s by (simp add: algebra_simps)
  ultimately show ?thesis by (simp add: buffer_space_def sizeof_State_def sizeof_Block_def)
qed

definition info_ok :: "message_info \<Rightarrow> bool" where
  "info_ok info \<longleftrightarrow> length (id_data (mi_sender info)) = ID_SIZE \<and> length (id_data (mi_spare info)) = ID_SIZE"

lemma length_info: "info_ok info \<Longrightarrow> length (mi_SerializeTo info) = mi_kSize"
  by (simp add: info_ok_def length_mi_SerializeTo)

text \<open>A message that fits is written.\<close>

lemma Shm_Transmit_writes:
  assumes ok: "shm_ok n c (gs(i := g')) w'" and o: "open_for_write f (length msg) g w = Inr (True, g', w')"
    and a: "on_current c w' g' a" and m: "length msg \<le> so_ceiling (os_objects w' a)" and info: "info_ok info"
  shows "Shm_Transmit f ser_ok msg info g w =
    (let b = os_objects w' a
     in if ser_ok then Inr (Some (unat (so_seq b) mod conf_block_num (sg_conf g')), g', set_object a (written (sg_conf g') msg info b) w')
        else Inr (None, g', set_object a (b\<lparr>so_seq := so_seq b + 1\<rparr>) w'))"
proof -
  let ?b = "os_objects w' a"
  have c: "sg_conf g' = conf_Update (so_ceiling ?b)" "made ?b" using a by (simp_all add: on_current_def)
  have ob: "object_ok ?b" using on_current_lt [OF ok a] by blast
  have "unat (so_seq ?b) mod conf_block_num (sg_conf g') < conf_block_num (sg_conf g')" using num_blocks(1) unfolding c(1) by simp
  from block_in_mapping [OF ob c(2), OF this [unfolded c(1)], of "length msg + mi_kSize"] m
  show ?thesis unfolding Shm_Transmit_current [OF o a ob] length_info [OF info] Let_def c(1) by (auto simp: mi_kSize_24)
qed

lemma seq_next: "unat (s + 1 :: u32) mod num = (unat s + 1) mod num" if "num dvd 2 ^ 32"
  using seq_index [OF that, of s 1] by simp

lemma written_holds:
  assumes ob: "object_ok b" "made b" and m: "length msg \<le> so_ceiling b" and info: "info_ok info" and nm: "os_names w c = Some a"
  shows "holds_message c a (unat (so_seq b) mod conf_block_num (conf_Update (so_ceiling b))) msg info 0
    (set_object a (written (conf_Update (so_ceiling b)) msg info b) w)"
proof -
  let ?conf = "conf_Update (so_ceiling b)" let ?k = "unat (so_seq b) mod conf_block_num ?conf"
  let ?p = "?k * block_buf_size ?conf"
  have "read_mem ?p (length msg + mi_kSize) (write_mem (?p + length msg) (mi_SerializeTo info) (write_mem ?p msg (so_mem b)))
      = msg @ mi_SerializeTo info"
    unfolding read_mem_add length_info [OF info, symmetric] by (simp add: read_write_same read_write_other)
  moreover have "?k < conf_block_num ?conf" using num_blocks(1) by simp
  ultimately show ?thesis using m ob(2) nm num_blocks(1,2)
    by (simp add: holds_message_def Let_def seq_next [OF num_blocks(2)] mod_simps) (simp add: written_def Let_def)
qed

lemma holds_skip:
  assumes "holds_message c a k msg info t w" "t + 1 < conf_block_num (conf_Update (so_ceiling (os_objects w a)))"
  shows "holds_message c a k msg info (t + 1) (set_object a ((os_objects w a)\<lparr>so_seq := so_seq (os_objects w a) + 1\<rparr>) w)"
proof -
  let ?num = "conf_block_num (conf_Update (so_ceiling (os_objects w a)))"
  have "unat (so_seq (os_objects w a)) mod ?num = (k + 1 + t) mod ?num" using assms(1) by (simp add: holds_message_def Let_def)
  then have "(unat (so_seq (os_objects w a)) + 1) mod ?num = (k + 1 + (t + 1)) mod ?num"
    by (metis add.assoc mod_add_left_eq)
  then show ?thesis using assms by (simp add: holds_message_def Let_def seq_next [OF num_blocks(2)] made_def)
qed

lemma holds_written:
  assumes H: "holds_message c a k msg info t w" and t: "t + 1 < conf_block_num (conf_Update (so_ceiling (os_objects w a)))"
    and ob: "object_ok (os_objects w a)" and m: "length msg' \<le> so_ceiling (os_objects w a)" and info': "info_ok info'"
  shows "holds_message c a k msg info (t + 1)
    (set_object a (written (conf_Update (so_ceiling (os_objects w a))) msg' info' (os_objects w a)) w)"
proof -
  let ?b = "os_objects w a" let ?conf = "conf_Update (so_ceiling ?b)" let ?num = "conf_block_num ?conf" let ?B = "block_buf_size ?conf"
  let ?j = "unat (so_seq ?b) mod ?num"
  have h: "k < ?num" "unat (so_seq ?b) mod ?num = (k + 1 + t) mod ?num" "length msg \<le> so_ceiling ?b" "made ?b"
    using H by (simp_all add: holds_message_def Let_def)
  have "k mod ?num \<noteq> (k + 1 + t) mod ?num" by (rule mod_distinct_window) (use t in simp_all)
  then have ne: "?j \<noteq> k" using h(1,2) by simp
  have B: "?B = so_ceiling ?b + 1024" using object_ceiling [OF ob h(4)] by (simp add: buf_size)
  have "k * ?B + (length msg + mi_kSize) \<le> ?j * ?B \<or> ?j * ?B + (length msg' + mi_kSize) \<le> k * ?B"
    by (rule blocks_apart [OF ne [symmetric]]) (use h(3) m B in \<open>simp_all add: mi_kSize_24\<close>)
  then have "read_mem (k * ?B) (length msg + mi_kSize)
      (write_mem (?j * ?B + length msg') (mi_SerializeTo info') (write_mem (?j * ?B) msg' (so_mem ?b)))
    = read_mem (k * ?B) (length msg + mi_kSize) (so_mem ?b)"
    using length_info [OF info'] by (subst read_write_other, simp, linarith, subst read_write_other) auto
  then show ?thesis using holds_skip [OF H t] ne h(4) by (simp add: holds_message_def Let_def) (simp add: written_def Let_def)
qed

text \<open>Events that neither fail nor outgrow the segment nor leave it.\<close>

fun quiet_event :: "nat \<Rightarrow> shm_event \<Rightarrow> bool" where
  "quiet_event ceiling (Send j f ser_ok msg info) \<longleftrightarrow> f = (\<lambda>_. no_faults) \<and> length msg \<le> ceiling \<and> info_ok info"
| "quiet_event ceiling (Recv j f index) \<longleftrightarrow> f = (\<lambda>_. no_faults)"
| "quiet_event ceiling (Close j) \<longleftrightarrow> False"

fun is_send :: "shm_event \<Rightarrow> bool" where
  "is_send (Send j f ser_ok msg info) = True"
| "is_send _ = False"

definition block_count :: "shm_os \<Rightarrow> nat \<Rightarrow> nat" where
  "block_count w a = conf_block_num (conf_Update (so_ceiling (os_objects w a)))"

lemma holds_parts:
  "holds_message c a k msg info t w \<Longrightarrow> os_names w c = Some a" "holds_message c a k msg info t w \<Longrightarrow> made (os_objects w a)"
  by (simp_all add: holds_message_def Let_def)

lemma quiet_step:
  assumes ok: "shm_ok n c (sy_segs s) (sy_os s)" and n: "n < 2 ^ 32" and e: "event_process e < n" "quiet_event ceil e"
    and H: "holds_message c a k msg info t (sy_os s)" and ceil: "so_ceiling (os_objects (sy_os s) a) = ceil"
    and t: "is_send e \<Longrightarrow> t + 1 < block_count (sy_os s) a" and r: "shm_step h e s = Inr (x, s')"
  shows "holds_message c a k msg info (if is_send e then t + 1 else t) (sy_os s') \<and> so_ceiling (os_objects (sy_os s') a) = ceil"
proof (cases e)
  case (Send j f ser_ok msg' info')
  then have j: "j < n" and q: "f = (\<lambda>_. no_faults)" "length msg' \<le> so_ceiling (os_objects (sy_os s) a)" "info_ok info'"
    using e ceil by auto
  obtain g1 w1 where O: "open_for_write (\<lambda>_. no_faults) (length msg') (sy_segs s j) (sy_os s) = Inr (True, g1, w1)"
    "on_current c w1 g1 a" "w1 = sy_os s \<or> w1 = set_object a (IncreaseReferenceCounts (os_objects (sy_os s) a)) (sy_os s)"
    using open_for_write_quiet [OF ok j n holds_parts [OF H] q(2)] by blast
  have H1: "holds_message c a k msg info t w1" and c1: "so_ceiling (os_objects w1 a) = ceil"
    using O(3) H holds_inc [OF H] ceil by auto
  note ok1 = open_for_write_ok(1) [OF ok j n O(1)]
  note ob = on_current_lt [OF ok1 O(2), THEN conjunct2]
  have conf: "sg_conf g1 = conf_Update (so_ceiling (os_objects w1 a))" using O(2) by (simp add: on_current_def)
  have l: "length msg' \<le> so_ceiling (os_objects w1 a)" using q(2) ceil c1 by simp
  have t1: "t + 1 < conf_block_num (conf_Update (so_ceiling (os_objects w1 a)))" using t Send ceil c1 by (simp add: block_count_def)
  note T = Shm_Transmit_writes [OF ok1 O(1,2) l q(3), of ser_ok]
  show ?thesis
  proof (cases ser_ok)
    case True
    then have "sy_os s' = set_object a (written (conf_Update (so_ceiling (os_objects w1 a))) msg' info' (os_objects w1 a)) w1"
      using r Send q(1) T by (auto simp: shm_put_def Let_def conf)
    then show ?thesis using holds_written [OF H1 t1 ob l q(3)] Send c1 by simp
  next
    case False
    then have "sy_os s' = set_object a ((os_objects w1 a)\<lparr>so_seq := so_seq (os_objects w1 a) + 1\<rparr>) w1"
      using r Send q(1) T by (auto simp: shm_put_def Let_def)
    then show ?thesis using holds_skip [OF H1 t1] Send c1 by simp
  qed
next
  case (Recv j f index)
  then have j: "j < n" and q: "f = (\<lambda>_. no_faults)" using e by auto
  obtain r1 g1 w1 where O: "open_for_read (\<lambda>_. no_faults) index (sy_segs s j) (sy_os s) = Inr (r1, g1, w1)"
    "r1 \<longrightarrow> on_current c w1 g1 a" "w1 = sy_os s \<or> w1 = set_object a (IncreaseReferenceCounts (os_objects (sy_os s) a)) (sy_os s)"
    using open_for_read_quiet [OF ok j n holds_parts [OF H]] by blast
  have "sy_os s' = w1"
  proof (cases r1)
    case True
    then have a: "on_current c w1 g1 a" using O(2) by blast
    note ok1 = open_for_read_ok(1) [OF ok j n O(1)]
    from r Recv q Shm_ReadMessage_current [OF O(1) [unfolded True[THEN eqTrueI]] a on_current_lt [OF ok1 a, THEN conjunct2]]
    show ?thesis by (auto simp: shm_put_def Let_def split: if_splits)
  next
    case False
    then show ?thesis using r Recv q O(1) by (auto simp: Shm_ReadMessage_def AcquireBlockToRead_def shm_put_def)
  qed
  then show ?thesis using O(3) H holds_inc [OF H] ceil Recv by auto
next
  case (Close j)
  then show ?thesis using e by simp
qed

lemma quiet_run:
  assumes "shm_ok n c (sy_segs s) (sy_os s)" "n < 2 ^ 32" "\<forall>e\<in>set es. event_process e < n \<and> quiet_event ceil e"
    "holds_message c a k msg info t (sy_os s)" "so_ceiling (os_objects (sy_os s) a) = ceil"
    "t + length (filter is_send es) < conf_block_num (conf_Update ceil)" "shm_run h es s = Inr s'"
  shows "holds_message c a k msg info (t + length (filter is_send es)) (sy_os s') \<and>
    shm_ok n c (sy_segs s') (sy_os s') \<and> so_ceiling (os_objects (sy_os s') a) = ceil"
  using assms
proof (induction es arbitrary: s t)
  case (Cons e es)
  then obtain x s1 where 1: "shm_step h e s = Inr (x, s1)" "shm_run h es s1 = Inr s'" by (auto split: sum.splits)
  have S: "holds_message c a k msg info (if is_send e then t + 1 else t) (sy_os s1) \<and> so_ceiling (os_objects (sy_os s1) a) = ceil"
    by (rule quiet_step [OF Cons.prems(1,2) _ _ Cons.prems(4,5) _ 1(1)]) (use Cons.prems in \<open>simp_all add: block_count_def\<close>)
  have "shm_ok n c (sy_segs s1) (sy_os s1)" by (rule shm_step_ok [OF Cons.prems(1) _ Cons.prems(2) 1(1)]) (use Cons.prems(3) in simp)
  from Cons.IH [OF this Cons.prems(2) _ S[THEN conjunct1] S[THEN conjunct2] _ 1(2)] Cons.prems(3,6) show ?case
    by (auto split: if_splits)
qed simp

lemma holds_read:
  assumes ok: "shm_ok n c (sy_segs s) (sy_os s)" and n: "n < 2 ^ 32" and j: "j < n"
    and H: "holds_message c a k msg info t (sy_os s)" and info: "info_ok info"
    and k: "sg_init (sy_segs s j) \<Longrightarrow> k < conf_block_num (sg_conf (sy_segs s j))"
  shows "\<exists>s'. shm_step h (Recv j (\<lambda>_. no_faults) k) s =
    Inr (Got (Some (msg, snd (mi_DeserializeFrom h (mi_SerializeTo info) mi_kSize (new_message_info h)))), s')"
proof -
  have kn: "k < conf_block_num (conf_Update (so_ceiling (os_objects (sy_os s) a)))" using H by (simp add: holds_message_def Let_def)
  obtain r1 g1 w1 where R: "open_for_read (\<lambda>_. no_faults) k (sy_segs s j) (sy_os s) = Inr (r1, g1, w1)"
    "r1 \<longrightarrow> on_current c w1 g1 a" "w1 = sy_os s \<or> w1 = set_object a (IncreaseReferenceCounts (os_objects (sy_os s) a)) (sy_os s)"
    "r1 = True"
    using open_for_read_quiet [OF ok j n holds_parts [OF H], of k] kn k by blast
  then have O: "open_for_read (\<lambda>_. no_faults) k (sy_segs s j) (sy_os s) = Inr (True, g1, w1)"
    "on_current c w1 g1 a" "w1 = sy_os s \<or> w1 = set_object a (IncreaseReferenceCounts (os_objects (sy_os s) a)) (sy_os s)"
    by simp_all
  note ob = on_current_lt [OF open_for_read_ok(1) [OF ok j n O(1)] O(2), THEN conjunct2]
  have H1: "holds_message c a k msg info t w1" using O(3) H holds_inc [OF H] by auto
  let ?b = "os_objects w1 a" let ?conf = "conf_Update (so_ceiling ?b)" let ?p = "k * block_buf_size ?conf"
  have conf: "sg_conf g1 = ?conf" using O(2) by (simp add: on_current_def)
  have h: "k < conf_block_num ?conf" "length msg \<le> so_ceiling ?b" "so_blocks ?b k = \<lparr>bk_lock = RW_LOCK_FREE, bk_msg_size = length msg, bk_info_size = mi_kSize\<rparr>"
    "read_mem ?p (length msg) (so_mem ?b) @ read_mem (?p + length msg) mi_kSize (so_mem ?b) = msg @ mi_SerializeTo info"
    using H1 by (simp_all add: holds_message_def Let_def read_mem_add)
  have sp: "?p + (length msg + mi_kSize) \<le> buffer_space ?conf ?b"
    by (rule block_in_mapping [OF ob _ h(1)]) (use O(2) h(2) in \<open>simp_all add: on_current_def mi_kSize_24\<close>)
  have "Shm_ReadMessage h (\<lambda>_. no_faults) k (sy_segs s j) (sy_os s) =
      Inr (Some (msg, snd (mi_DeserializeFrom h (mi_SerializeTo info) mi_kSize (new_message_info h))), g1, w1)"
    unfolding Shm_ReadMessage_current [OF O(1,2) ob] conf using h sp by (simp add: Let_def)
  then show ?thesis by (simp add: shm_put_def)
qed

lemma holds_send:
  assumes ok: "shm_ok n c (sy_segs s) (sy_os s)" and n: "n < 2 ^ 32" and j: "j < n"
    and H: "holds_message c a k msg info t (sy_os s)" and m: "length msg' \<le> so_ceiling (os_objects (sy_os s) a)" and info: "info_ok info'"
  shows "\<exists>k' s'. shm_step h (Send j (\<lambda>_. no_faults) True msg' info') s = Inr (Sent (Some k'), s')"
proof -
  obtain g1 w1 where O: "open_for_write (\<lambda>_. no_faults) (length msg') (sy_segs s j) (sy_os s) = Inr (True, g1, w1)"
    "on_current c w1 g1 a" "w1 = sy_os s \<or> w1 = set_object a (IncreaseReferenceCounts (os_objects (sy_os s) a)) (sy_os s)"
    using open_for_write_quiet [OF ok j n holds_parts [OF H] m] by blast
  have l: "length msg' \<le> so_ceiling (os_objects w1 a)" using O(3) m by auto
  from Shm_Transmit_writes [OF open_for_write_ok(1) [OF ok j n O(1)] O(1,2) l info, of True] show ?thesis
    by (simp add: shm_put_def Let_def)
qed

lemma send_holds:
  assumes ok: "shm_ok n c (sy_segs s) (sy_os s)" and n: "n < 2 ^ 32" and i: "i < n"
    and r: "shm_step h (Send i f True msg info) s = Inr (Sent (Some k), s')" and m: "length msg \<le> MESSAGE_SIZE_MORE" and info: "info_ok info"
  shows "\<exists>a. holds_message c a k msg info 0 (sy_os s') \<and> sg_conf (sy_segs s' i) = conf_Update (so_ceiling (os_objects (sy_os s') a)) \<and>
    shm_ok n c (sy_segs s') (sy_os s') \<and> ceiling_msg_size (sg_conf (sy_segs s' i)) = so_ceiling (os_objects (sy_os s') a)"
proof -
  have ok': "shm_ok n c (sy_segs s') (sy_os s')" by (rule shm_step_ok [OF ok _ n r]) (use i in simp)
  obtain g1 w1 where O: "open_for_write f (length msg) (sy_segs s i) (sy_os s) = Inr (True, g1, w1)"
    using r by (auto simp: shm_put_def Shm_Transmit_def AcquireBlockToWrite_def split: sum.splits bool.splits)
  note ok1 = open_for_write_ok(1) [OF ok i n O]
  obtain a where a: "on_current c w1 g1 a" "length msg \<le> ceiling_msg_size (sg_conf g1)"
    using open_for_write_ok(2) [OF ok i n O] m by blast
  have conf: "sg_conf g1 = conf_Update (so_ceiling (os_objects w1 a))" "made (os_objects w1 a)" "os_names w1 c = Some a"
    using a(1) by (simp_all add: on_current_def)
  have l: "length msg \<le> so_ceiling (os_objects w1 a)" using a(2) on_current_ceiling [OF ok1 a(1)] by simp
  note ob = on_current_lt [OF ok1 a(1), THEN conjunct2]
  from r Shm_Transmit_writes [OF ok1 O a(1) l info, of True]
  have s': "k = unat (so_seq (os_objects w1 a)) mod conf_block_num (sg_conf g1)"
    "sy_os s' = set_object a (written (sg_conf g1) msg info (os_objects w1 a)) w1" "sy_segs s' i = g1"
    by (auto simp: shm_put_def Let_def)
  have "holds_message c a k msg info 0 (sy_os s')"
    unfolding s' conf(1) by (rule written_holds [OF ob conf(2) l info conf(3)])
  then show ?thesis using ok' conf(1) on_current_ceiling [OF ok1 a(1)] s' by auto
qed


text \<open>
  Whatever the processes of a channel did before and whatever system calls failed, a message of at most
  32 MB that \<open>Transmit\<close> wrote into block \<open>k\<close> reaches every process that reads block \<open>k\<close>, byte for
  byte and with its info, as long as fewer messages than there are blocks followed, none of them
  larger than the segment, and nothing fails or leaves meanwhile; until then every such message can be sent.
\<close>

theorem shm_message_is_received:
  assumes procs: "\<forall>e\<in>set es \<union> set ds. event_process e < n" "i < n" "j < n" "n < 2 ^ 32"
    and before: "shm_run h es (new_shm_system c) = Inr s1"
    and send: "shm_step h (Send i f True msg info) s1 = Inr (Sent (Some k), s2)"
      "length msg \<le> MESSAGE_SIZE_MORE" "info_ok info"
    and after: "shm_run h ds s2 = Inr s3" "\<forall>e\<in>set ds. quiet_event (ceiling_msg_size (sg_conf (sy_segs s2 i))) e"
      "length (filter is_send ds) < conf_block_num (sg_conf (sy_segs s2 i))"
    and reader: "sg_init (sy_segs s3 j) \<Longrightarrow> k < conf_block_num (sg_conf (sy_segs s3 j))"
  shows "(\<exists>s4. shm_step h (Recv j (\<lambda>_. no_faults) k) s3 =
      Inr (Got (Some (msg, snd (mi_DeserializeFrom h (mi_SerializeTo info) mi_kSize (new_message_info h)))), s4)) \<and>
    (\<forall>msg' info'. length msg' \<le> ceiling_msg_size (sg_conf (sy_segs s2 i)) \<and> info_ok info' \<longrightarrow>
      (\<exists>k' s4. shm_step h (Send j (\<lambda>_. no_faults) True msg' info') s3 = Inr (Sent (Some k'), s4)))"
proof -
  have ok1: "shm_ok n c (sy_segs s1) (sy_os s1)"
    by (rule shm_run_ok [OF new_shm_ok _ procs(4) before]) (use procs(1) in simp)
  obtain a where a: "holds_message c a k msg info 0 (sy_os s2)" "sg_conf (sy_segs s2 i) = conf_Update (so_ceiling (os_objects (sy_os s2) a))"
    "shm_ok n c (sy_segs s2) (sy_os s2)" "ceiling_msg_size (sg_conf (sy_segs s2 i)) = so_ceiling (os_objects (sy_os s2) a)"
    using send_holds [OF ok1 procs(4,2) send] by blast
  have "holds_message c a k msg info (0 + length (filter is_send ds)) (sy_os s3) \<and> shm_ok n c (sy_segs s3) (sy_os s3) \<and>
      so_ceiling (os_objects (sy_os s3) a) = so_ceiling (os_objects (sy_os s2) a)"
    by (rule quiet_run [OF a(3) procs(4) _ a(1) refl _ after(1)]) (use procs(1) after(2,3) a(2,4) in simp_all)
  then show ?thesis using holds_read [OF _ procs(4,3) _ send(3) reader] holds_send [OF _ procs(4,3)] a(4) by auto
qed

section \<open>A segment from its first message on\<close>

lemma MORE_num: "MESSAGE_SIZE_MORE = 33554432" "MESSAGE_SIZE_16K = 16384"
  by (simp_all add: shm_sizes)

lemma ceiling_small: "m \<le> 16384 \<Longrightarrow> GetCeilingMessageSize m = 16384"
  by (simp add: GetCeilingMessageSize_def shm_sizes)

text \<open>The first process creates the segment for small messages.\<close>

lemma open_for_write_first:
  assumes "m \<le> 16384"
  shows "\<exists>g1 w1. open_for_write (\<lambda>_. no_faults) m (sy_segs (new_shm_system c) i) (sy_os (new_shm_system c)) = Inr (True, g1, w1) \<and>
    on_current c w1 g1 0 \<and> so_ceiling (os_objects w1 0) = 16384 \<and> so_seq (os_objects w1 0) = 0 \<and> os_next w1 = 1"
  using assms
  by (simp add: open_for_write_def new_shm_system_def new_segment_def Segment_OpenOrCreate_def no_faults_def Let_def new_shm_conf_def
      on_current_def made_def IncreaseReferenceCounts_def blank_object_def ceiling_small MORE_num)

lemma send_first:
  assumes m: "length msg \<le> 16384" and info: "info_ok info" and i: "i < n" and n: "n < 2 ^ 32"
  shows "\<exists>s'. shm_step h (Send i (\<lambda>_. no_faults) True msg info) (new_shm_system c) = Inr (Sent (Some 0), s') \<and>
    on_current c (sy_os s') (sy_segs s' i) 0 \<and> so_ceiling (os_objects (sy_os s') 0) = 16384 \<and>
    shm_ok n c (sy_segs s') (sy_os s') \<and> (\<forall>j. j \<noteq> i \<longrightarrow> sy_segs s' j = new_segment c)"
proof -
  obtain g1 w1 where O: "open_for_write (\<lambda>_. no_faults) (length msg) (sy_segs (new_shm_system c) i) (sy_os (new_shm_system c)) = Inr (True, g1, w1)"
    "on_current c w1 g1 0" "so_ceiling (os_objects w1 0) = 16384" "so_seq (os_objects w1 0) = 0"
    using open_for_write_first [OF m, of c i] by blast
  note ok1 = open_for_write_ok(1) [OF new_shm_ok i n O(1)]
  have "length msg \<le> so_ceiling (os_objects w1 0)" using m O(3) by simp
  note T = Shm_Transmit_writes [OF ok1 O(1,2) this info, of True]
  let ?s = "\<lparr>sy_os = set_object 0 (written (sg_conf g1) msg info (os_objects w1 0)) w1, sy_segs = (sy_segs (new_shm_system c))(i := g1)\<rparr>"
  have st: "shm_step h (Send i (\<lambda>_. no_faults) True msg info) (new_shm_system c) = Inr (Sent (Some 0), ?s)"
    using T O(4) by (simp add: shm_put_def Let_def)
  moreover have "shm_ok n c (sy_segs ?s) (sy_os ?s)" by (rule shm_step_ok [OF new_shm_ok _ n st]) (use i in simp)
  moreover have "on_current c (sy_os ?s) (sy_segs ?s i) 0" using O(2) by (simp add: on_current_def)
  ultimately show ?thesis using O(3) by (fastforce simp: new_shm_system_def)
qed


theorem shm_message_is_received_witness:
  "\<exists>k s2 s4. shm_step (\<lambda>_. 3) (Send 0 (\<lambda>_. no_faults) True [1, 2] (new_message_info (\<lambda>_. 3))) (new_shm_system 7) = Inr (Sent (Some k), s2) \<and>
     shm_step (\<lambda>_. 3) (Recv 1 (\<lambda>_. no_faults) k) s2 = Inr (Got (Some ([1, 2], snd (mi_DeserializeFrom (\<lambda>_. 3)
       (mi_SerializeTo (new_message_info (\<lambda>_. 3))) mi_kSize (new_message_info (\<lambda>_. 3))))), s4)"
proof -
  have info: "info_ok (new_message_info (\<lambda>_. 3))" by (simp add: info_ok_def new_message_info_def new_identity_def)
  obtain s2 where s2: "shm_step (\<lambda>_. 3) (Send 0 (\<lambda>_. no_faults) True [1, 2] (new_message_info (\<lambda>_. 3))) (new_shm_system 7) = Inr (Sent (Some 0), s2)"
    "sg_conf (sy_segs s2 0) = conf_Update (so_ceiling (os_objects (sy_os s2) 0))" "sy_segs s2 1 = new_segment 7"
    using send_first [OF _ info, of "[1, 2]" 0 2 "\<lambda>_. 3" 7] by (auto simp: on_current_def)
  have "(\<exists>s4. shm_step (\<lambda>_. 3) (Recv 1 (\<lambda>_. no_faults) 0) s2 =
      Inr (Got (Some ([1, 2], snd (mi_DeserializeFrom (\<lambda>_. 3) (mi_SerializeTo (new_message_info (\<lambda>_. 3))) mi_kSize (new_message_info (\<lambda>_. 3))))), s4))"
    by (rule shm_message_is_received [where es = "[]" and ds = "[]" and n = 2 and i = 0 and j = 1 and c = 7, OF _ _ _ _ _ s2(1), THEN conjunct1])
      (use info s2 num_blocks(1) in \<open>simp_all add: shm_sizes new_segment_def\<close>)
  then show ?thesis using s2(1) by blast
qed

section \<open>Where the segment breaks\<close>

lemma shm_put_Inr: "shm_put i (Inr (r, g, w)) f s = Inr (f r, \<lparr>sy_os = w, sy_segs = (sy_segs s)(i := g)\<rparr>)"
  by (simp add: shm_put_def)

lemma ceiling_large: "16384 < m \<Longrightarrow> m \<le> 33554432 \<Longrightarrow> m \<le> GetCeilingMessageSize m \<and> 16384 < GetCeilingMessageSize m"
  by (simp add: GetCeilingMessageSize_def shm_sizes)

text \<open>A process attached to the current object sends a message that is too large for it.\<close>

lemma send_grows:
  assumes ok: "shm_ok n c (sy_segs s) (sy_os s)" and n: "n < 2 ^ 32" and i: "i < n"
    and a: "on_current c (sy_os s) (sy_segs s i) a" and info: "info_ok info"
    and m: "so_ceiling (os_objects (sy_os s) a) < length msg" "length msg \<le> MESSAGE_SIZE_MORE"
  shows "\<exists>s'. shm_step h (Send i (\<lambda>_. no_faults) True msg info) s = Inr (Sent (Some 0), s') \<and>
    on_current c (sy_os s') (sy_segs s' i) (os_next (sy_os s)) \<and>
    so_ceiling (os_objects (sy_os s') (os_next (sy_os s))) = GetCeilingMessageSize (length msg) \<and>
    shm_ok n c (sy_segs s') (sy_os s') \<and> (\<forall>j. j \<noteq> i \<longrightarrow> sy_segs s' j = sy_segs s j)"
proof -
  have st: "sg_init (sy_segs s i)" "sg_shm (sy_segs s i) = Some a" "os_names (sy_os s) c = Some a" using a by (simp_all add: on_current_def)
  have nr: "\<not> need_remap (os_objects (sy_os s) a)" using named_not_marked [OF ok st(3)] by simp
  have big: "length msg > ceiling_msg_size (sg_conf (sy_segs s i))" using on_current_ceiling [OF ok a] m(1) by simp
  have ok': "shm_ok n c ((sy_segs s)(i := sy_segs s i)) (sy_os s)" using ok by simp
  obtain g1 w1 where R: "Segment_Recreate no_faults (length msg) (sy_segs s i) (sy_os s) = Inr (True, g1, w1)"
    "on_current c w1 g1 (os_next (sy_os s))" "sg_conf g1 = conf_Update (length msg)"
    using Segment_Recreate_ok [OF ok' i n a, of no_faults "length msg"] by blast
  have O: "open_for_write (\<lambda>_. no_faults) (length msg) (sy_segs s i) (sy_os s) = Inr (True, g1, w1)"
    using st nr big R(1) by (simp add: open_for_write_def Segment_OpenOrCreate_def)
  note ok1 = open_for_write_ok(1) [OF ok i n O]
  let ?a = "os_next (sy_os s)"
  have ceil: "so_ceiling (os_objects w1 ?a) = GetCeilingMessageSize (length msg)"
    using on_current_ceiling [OF ok1 R(2)] R(3) by simp
  have l: "length msg \<le> so_ceiling (os_objects w1 ?a)" using ceiling_enough [OF m(2)] ceil by simp
  have seq: "so_seq (os_objects w1 ?a) = 0"
    using R(1) st shm_okD(1) [OF ok i]
    by (auto simp: Segment_Recreate_def Segment_Remove_def Segment_OpenOrCreate_def Segment_Reset_def Let_def no_faults_def
        blank_object_def)
  let ?s = "\<lparr>sy_os = set_object ?a (written (sg_conf g1) msg info (os_objects w1 ?a)) w1, sy_segs = (sy_segs s)(i := g1)\<rparr>"
  have step: "shm_step h (Send i (\<lambda>_. no_faults) True msg info) s = Inr (Sent (Some 0), ?s)"
    using Shm_Transmit_writes [OF ok1 O R(2) l info, of True] seq by (simp add: shm_put_Inr Let_def)
  moreover have "shm_ok n c (sy_segs ?s) (sy_os ?s)" by (rule shm_step_ok [OF ok _ n step]) (use i in simp)
  moreover have "on_current c (sy_os ?s) (sy_segs ?s i) ?a" using R(2) by (simp add: on_current_def)
  ultimately show ?thesis using ceil by fastforce
qed

text \<open>A second process attaches by sending a small message too.\<close>

lemma send_small:
  assumes ok: "shm_ok n c (sy_segs s) (sy_os s)" and n: "n < 2 ^ 32" and i: "i < n"
    and a: "os_names (sy_os s) c = Some a" "made (os_objects (sy_os s) a)" and info: "info_ok info"
    and m: "length msg \<le> so_ceiling (os_objects (sy_os s) a)"
  shows "\<exists>k s'. shm_step h (Send i (\<lambda>_. no_faults) True msg info) s = Inr (Sent (Some k), s') \<and>
    on_current c (sy_os s') (sy_segs s' i) a \<and> so_ceiling (os_objects (sy_os s') a) = so_ceiling (os_objects (sy_os s) a) \<and>
    shm_ok n c (sy_segs s') (sy_os s') \<and> (\<forall>j. j \<noteq> i \<longrightarrow> sy_segs s' j = sy_segs s j)"
proof -
  obtain g1 w1 where O: "open_for_write (\<lambda>_. no_faults) (length msg) (sy_segs s i) (sy_os s) = Inr (True, g1, w1)"
    "on_current c w1 g1 a" "w1 = sy_os s \<or> w1 = set_object a (IncreaseReferenceCounts (os_objects (sy_os s) a)) (sy_os s)"
    using open_for_write_quiet [OF ok i n a m] by blast
  note ok1 = open_for_write_ok(1) [OF ok i n O(1)]
  have ceil: "so_ceiling (os_objects w1 a) = so_ceiling (os_objects (sy_os s) a)" using O(3) by auto
  have l: "length msg \<le> so_ceiling (os_objects w1 a)" using m ceil by simp
  let ?s = "\<lparr>sy_os = set_object a (written (sg_conf g1) msg info (os_objects w1 a)) w1, sy_segs = (sy_segs s)(i := g1)\<rparr>"
  have step: "shm_step h (Send i (\<lambda>_. no_faults) True msg info) s =
      Inr (Sent (Some (unat (so_seq (os_objects w1 a)) mod conf_block_num (sg_conf g1))), ?s)"
    using Shm_Transmit_writes [OF ok1 O(1,2) l info, of True] by (simp add: shm_put_Inr Let_def)
  moreover have "shm_ok n c (sy_segs ?s) (sy_os ?s)" by (rule shm_step_ok [OF ok _ n step]) (use i in simp)
  moreover have "on_current c (sy_os ?s) (sy_segs ?s i) a" using O(2) by (simp add: on_current_def)
  ultimately show ?thesis using ceil by fastforce
qed

text \<open>Two processes use a segment, and then the first outgrows it: the second is left on the marked object.\<close>

lemma segment_outgrown:
  assumes m: "length m1 \<le> 16384" "length m2 \<le> 16384" "16384 < length m3" "length m3 \<le> MESSAGE_SIZE_MORE" and info: "info_ok info"
  shows "\<exists>s a. shm_run h [Send 0 (\<lambda>_. no_faults) True m1 info, Send 1 (\<lambda>_. no_faults) True m2 info, Send 0 (\<lambda>_. no_faults) True m3 info]
      (new_shm_system c) = Inr s \<and>
    shm_ok 2 c (sy_segs s) (sy_os s) \<and> on_current c (sy_os s) (sy_segs s 0) a \<and>
    so_ceiling (os_objects (sy_os s) a) = GetCeilingMessageSize (length m3) \<and>
    sg_init (sy_segs s 1) \<and> sg_shm (sy_segs s 1) = Some 0 \<and> need_remap (os_objects (sy_os s) 0) \<and> sg_conf (sy_segs s 1) = conf_Update 16384"
proof -
  obtain s1 where s1: "shm_step h (Send 0 (\<lambda>_. no_faults) True m1 info) (new_shm_system c) = Inr (Sent (Some 0), s1)"
    "on_current c (sy_os s1) (sy_segs s1 0) 0" "so_ceiling (os_objects (sy_os s1) 0) = 16384" "shm_ok 2 c (sy_segs s1) (sy_os s1)"
    using send_first [OF m(1) info, of 0 2] by auto
  obtain k s2 where s2: "shm_step h (Send 1 (\<lambda>_. no_faults) True m2 info) s1 = Inr (Sent (Some k), s2)"
    "on_current c (sy_os s2) (sy_segs s2 1) 0" "so_ceiling (os_objects (sy_os s2) 0) = 16384" "shm_ok 2 c (sy_segs s2) (sy_os s2)"
    "sy_segs s2 0 = sy_segs s1 0"
    using send_small [OF s1(4), of 1 0 info m2 h] s1(2,3) m(2) info by (auto simp: on_current_def)
  have c0: "on_current c (sy_os s2) (sy_segs s2 0) 0" using s1(2,3) s2(2,3,5) by (simp add: on_current_def)
  have n0: "os_next (sy_os s2) \<noteq> 0" using on_current_lt [OF s2(4) c0] by simp
  obtain s3 where s3: "shm_step h (Send 0 (\<lambda>_. no_faults) True m3 info) s2 = Inr (Sent (Some 0), s3)"
    "on_current c (sy_os s3) (sy_segs s3 0) (os_next (sy_os s2))"
    "so_ceiling (os_objects (sy_os s3) (os_next (sy_os s2))) = GetCeilingMessageSize (length m3)"
    "shm_ok 2 c (sy_segs s3) (sy_os s3)" "sy_segs s3 1 = sy_segs s2 1"
    using send_grows [OF s2(4) _ _ c0 info, of m3 h] s2(3) m(3,4) by auto
  have i1: "sg_init (sy_segs s3 1)" "sg_shm (sy_segs s3 1) = Some 0" "sg_conf (sy_segs s3 1) = conf_Update 16384"
    using s2(2,3) s3(5) by (simp_all add: on_current_def)
  have "need_remap (os_objects (sy_os s3) 0)"
    using init_attached [OF s3(4), of 1] i1(1,2) s3(2) n0 by (auto simp: on_current_def)
  then show ?thesis using s1(1) s2(1) s3 i1 by auto
qed

text \<open>
  The index of a block is compared with the number of blocks before the segment is mapped again, so an old
  index goes past the blocks of the smaller array.
\<close>

lemma outgrown_read:
  assumes ok: "shm_ok n c (sy_segs s) (sy_os s)" and n: "n < 2 ^ 32" "i < n" and a: "os_names (sy_os s) c = Some a" "made (os_objects (sy_os s) a)"
    and i: "sg_init (sy_segs s i)" "sg_shm (sy_segs s i) = Some b" "need_remap (os_objects (sy_os s) b)"
    and k: "k < conf_block_num (sg_conf (sy_segs s i))" "block_count (sy_os s) a \<le> k"
  shows "shm_step h (Recv i (\<lambda>_. no_faults) k) s = Inl Past_the_blocks"
proof -
  obtain r g w where R: "Segment_Remap no_faults (sy_segs s i) (sy_os s) = (r, g, w)" using prod_cases3 by blast
  have ok': "shm_ok n c ((sy_segs s)(i := sy_segs s i)) (sy_os s)" using ok by simp
  note P = Segment_Remap_ok [OF ok' n(2,1) i(2,3) R]
  have r: r using P(3) a by (cases r) (auto simp: made_def)
  then have w: "on_current c w g a" "so_ceiling (os_objects w a) = so_ceiling (os_objects (sy_os s) a)" using P(2) a(1) by auto
  have "open_for_read (\<lambda>_. no_faults) k (sy_segs s i) (sy_os s) = Inr (True, g, w)"
    using i k(1) R r by (simp add: open_for_read_def Segment_OpenOnly_def)
  then show ?thesis using w k(2) by (simp add: Shm_ReadMessage_def AcquireBlockToRead_def shm_put_def on_current_def block_count_def)
qed

text \<open>A process whose object is marked while the name is gone follows a null pointer with the next larger message.\<close>

lemma outgrown_send:
  assumes a: "os_names (sy_os s) (sg_channel (sy_segs s i)) = None"
    and i: "sg_init (sy_segs s i)" "sg_shm (sy_segs s i) = Some b" "need_remap (os_objects (sy_os s) b)"
    and m: "ceiling_msg_size (sg_conf (sy_segs s i)) < length msg"
  shows "shm_step h (Send i f ser_ok msg info) s = Inl Null_pointer"
proof -
  have "Segment_Remap (f 1) (sy_segs s i) (sy_os s) = (False, Segment_Reset ((sy_segs s i)\<lparr>sg_init := False\<rparr>), sy_os s)"
    using a by (simp add: Segment_Remap_def Segment_OpenOnly_def)
  then have "open_for_write f (length msg) (sy_segs s i) (sy_os s) = Inl Null_pointer"
    using i m by (simp add: open_for_write_def Segment_OpenOrCreate_def Segment_Recreate_def)
  then show ?thesis by (simp add: shm_put_def Shm_Transmit_def AcquireBlockToWrite_def)
qed

text \<open>The last process of an object takes the name away.\<close>

lemma last_close:
  assumes ok: "shm_ok n c (sy_segs s) (sy_os s)" and i: "i < n" and a: "on_current c (sy_os s) (sy_segs s i) a"
    and alone: "attached n (sy_segs s) a = {i}"
  shows "\<exists>x s'. shm_step h (Close i) s = Inr (x, s') \<and> os_names (sy_os s') c = None \<and>
    (\<forall>j. j \<noteq> i \<longrightarrow> sy_segs s' j = sy_segs s j) \<and> (\<forall>b. b \<noteq> a \<longrightarrow> os_objects (sy_os s') b = os_objects (sy_os s) b)"
proof -
  have st: "sg_init (sy_segs s i)" "sg_shm (sy_segs s i) = Some a" "os_names (sy_os s) c = Some a" using a by (simp_all add: on_current_def)
  have "unat (reference_count (os_objects (sy_os s) a)) = 1" using named_not_marked(2) [OF ok st(3)] alone by simp
  then have "reference_count (os_objects (sy_os s) a) = 1" by (metis unat_1 unsigned_word_eqI)
  then show ?thesis using st shm_okD(1) [OF ok i]
    by (simp add: Segment_Destroy_def DecreaseReferenceCounts_def Segment_Remove_def Let_def shm_put_def)
qed

text \<open>
  Property C35. What happens to a process whose segment another one outgrew: if it still has a notification of a
  block the new, smaller array does not have, reading it goes past the blocks; if the other process leaves first,
  its own next larger message follows a null pointer. No system call fails in either case.
\<close>

theorem outgrown_segment_fails:
  assumes "length m1 \<le> 16384" "length m2 \<le> 16384" "16384 < length m3" "length m3 \<le> MESSAGE_SIZE_MORE" "16384 < length m4" "info_ok info"
    and "128 \<le> k" "k < 512"
  shows "\<exists>s. shm_run h [Send 0 (\<lambda>_. no_faults) True m1 info, Send 1 (\<lambda>_. no_faults) True m2 info, Send 0 (\<lambda>_. no_faults) True m3 info]
      (new_shm_system c) = Inr s \<and> shm_step h (Recv 1 (\<lambda>_. no_faults) k) s = Inl Past_the_blocks \<and>
      shm_run h [Close 0, Send 1 (\<lambda>_. no_faults) True m4 info] s = Inl Null_pointer"
proof -
  obtain s a where s: "shm_run h [Send 0 (\<lambda>_. no_faults) True m1 info, Send 1 (\<lambda>_. no_faults) True m2 info, Send 0 (\<lambda>_. no_faults) True m3 info]
      (new_shm_system c) = Inr s"
    "shm_ok 2 c (sy_segs s) (sy_os s)" "on_current c (sy_os s) (sy_segs s 0) a" "so_ceiling (os_objects (sy_os s) a) = GetCeilingMessageSize (length m3)"
    "sg_init (sy_segs s 1)" "sg_shm (sy_segs s 1) = Some 0" "need_remap (os_objects (sy_os s) 0)" "sg_conf (sy_segs s 1) = conf_Update 16384"
    using segment_outgrown [OF assms(1-4,6)] by blast
  have cur: "os_names (sy_os s) c = Some a" "made (os_objects (sy_os s) a)" "sg_shm (sy_segs s 0) = Some a" "sg_init (sy_segs s 0)"
    using s(3) by (simp_all add: on_current_def)
  have k: "k < conf_block_num (sg_conf (sy_segs s 1))" "block_count (sy_os s) a \<le> k" using assms(3,7,8) s(4) unfolding s(8)
    by (simp_all add: block_count_def conf_Update_def GetBlockNum_def GetCeilingMessageSize_def shm_sizes Let_def)
  have read: "shm_step h (Recv 1 (\<lambda>_. no_faults) k) s = Inl Past_the_blocks"
    by (rule outgrown_read [OF s(2) _ _ cur(1,2) s(5-7) k]) simp_all
  have a0: "a \<noteq> 0" using named_not_marked(1) [OF s(2) cur(1)] s(7) by (cases "a = 0") simp_all
  have "attached 2 (sy_segs s) a = {0}" using cur(3,4) s(6) a0 by (auto simp: attached_def less_2_cases_iff)
  from last_close [OF s(2) _ s(3) this] obtain x s' where s': "shm_step h (Close 0) s = Inr (x, s')" "os_names (sy_os s') c = None"
    "sy_segs s' 1 = sy_segs s 1" "os_objects (sy_os s') 0 = os_objects (sy_os s) 0" using a0 by auto
  have "shm_step h (Send 1 (\<lambda>_. no_faults) True m4 info) s' = Inl Null_pointer"
    by (rule outgrown_send [where b = 0]) (use s(5-8) s'(2-4) assms(5) shm_okD(1) [OF s(2), of 1] in \<open>simp_all add: ceiling_small\<close>)
  then show ?thesis using s(1) read s'(1) by auto
qed

theorem outgrown_segment_fails_witness:
  "\<exists>s. shm_run (\<lambda>_. 3) [Send 0 (\<lambda>_. no_faults) True [1] (new_message_info (\<lambda>_. 3)), Send 1 (\<lambda>_. no_faults) True [2] (new_message_info (\<lambda>_. 3)),
        Send 0 (\<lambda>_. no_faults) True (replicate 20000 3) (new_message_info (\<lambda>_. 3))] (new_shm_system 7) = Inr s \<and>
      shm_step (\<lambda>_. 3) (Recv 1 (\<lambda>_. no_faults) 300) s = Inl Past_the_blocks \<and>
      shm_run (\<lambda>_. 3) [Close 0, Send 1 (\<lambda>_. no_faults) True (replicate 20000 4) (new_message_info (\<lambda>_. 3))] s = Inl Null_pointer"
  by (rule outgrown_segment_fails)
    (simp_all add: info_ok_def new_message_info_def new_identity_def shm_sizes)

text \<open>A message above 32 MB is written all the same: it runs over the next block's buffer.\<close>

theorem oversized_message_overruns_block:
  assumes "33555456 < length msg" "length msg \<le> 2 * 33555456" "info_ok info"
  shows "\<exists>s a. shm_step h (Send 0 (\<lambda>_. no_faults) True msg info) (new_shm_system c) = Inr (Sent (Some 0), s) \<and>
    sg_shm (sy_segs s 0) = Some a \<and> block_buf_addrs (sy_segs s 0) 1 = Some 33555456 \<and>
    so_mem (os_objects (sy_os s) a) 33555456 = msg ! 33555456"
proof -
  let ?s = "new_shm_system c"
  have ok: "shm_ok 1 c (sy_segs ?s) (sy_os ?s)" by (rule new_shm_ok)
  let ?g = "attach_to 0 (fresh_object 16384) (new_segment c)"
  let ?w = "\<lparr>os_objects = (\<lambda>_. blank_object)(0 := IncreaseReferenceCounts (fresh_object 16384)), os_next = 1, os_names = (\<lambda>_. None)(c := Some 0)\<rparr>"
  have O1: "Segment_OpenOrCreate no_faults (sy_segs ?s 0) (sy_os ?s) = (True, ?g, ?w)"
    by (simp add: new_shm_system_def new_segment_def Segment_OpenOrCreate_def no_faults_def Let_def new_shm_conf_def attach_to_def
        fresh_object_def ceiling_small MORE_num set_object_def blank_object_def)
  have ok': "shm_ok 1 c ((sy_segs ?s)(0 := sy_segs ?s 0)) (sy_os ?s)" using ok by simp
  have ok1: "shm_ok 1 c ((sy_segs ?s)(0 := ?g)) ?w"
    by (rule Segment_OpenOrCreate_ok(1) [OF ok' _ _ _ O1]) (simp_all add: new_shm_system_def new_segment_def)
  have cur: "on_current c ?w ?g 0" by (simp add: on_current_def)
  obtain g1 w1 where R: "Segment_Recreate no_faults (length msg) ?g ?w = Inr (True, g1, w1)"
    "shm_ok 1 c ((sy_segs ?s)(0 := g1)) w1" "on_current c w1 g1 1" "sg_conf g1 = conf_Update (length msg)"
    using Segment_Recreate_ok [OF ok1 _ _ cur, of no_faults "length msg"] by auto
  have big: "GetCeilingMessageSize (length msg) = 33554432" using assms(1) by (simp add: GetCeilingMessageSize_def shm_sizes)
  have O: "open_for_write (\<lambda>_. no_faults) (length msg) (sy_segs ?s 0) (sy_os ?s) = Inr (True, g1, w1)"
    using O1 R(1) assms(1) by (simp add: open_for_write_def ceiling_small)
  have ceil: "so_ceiling (os_objects w1 1) = 33554432" using on_current_ceiling [OF R(2,3)] R(4) big by simp
  have seq: "so_seq (os_objects w1 1) = 0"
    using R(1) by (auto simp: Segment_Recreate_def Segment_Remove_def Segment_OpenOrCreate_def Segment_Reset_def Let_def no_faults_def
        blank_object_def new_segment_def attach_to_def)
  have conf: "conf_block_num (sg_conf g1) = 8" "block_buf_size (sg_conf g1) = 33555456" "block_buf_addrs g1 = buf_addrs_of (sg_conf g1)"
    using R(3,4) big by (simp_all add: on_current_def conf_Update_def GetBlockNum_def GetBlockBufSize_def shm_sizes Let_def)
  have "so_size (os_objects w1 1) = managed_shm_size (conf_Update 33554432)"
    using on_current_lt [OF R(2,3)] R(3) ceil by (simp add: object_ok_def on_current_def)
  then have room: "buffer_space (sg_conf g1) (os_objects w1 1) = 8 * 33555456 + 13024"
    unfolding buffer_space_def conf(1) by (simp add: conf_Update_def GetBlockNum_def GetBlockBufSize_def GetCeilingMessageSize_def shm_sizes Let_def
        sizeof_State_def sizeof_Block_def)
  have "Shm_Transmit (\<lambda>_. no_faults) True msg info (sy_segs ?s 0) (sy_os ?s) =
      Inr (Some 0, g1, set_object 1 (written (sg_conf g1) msg info (os_objects w1 1)) w1)"
    unfolding Shm_Transmit_current [OF O R(3) on_current_lt [OF R(2,3), THEN conjunct2]] Let_def room
    using seq assms(2) length_info [OF assms(3)] by (simp add: mi_kSize_24)
  moreover have "so_mem (written (sg_conf g1) msg info (os_objects w1 1)) 33555456 = msg ! 33555456"
    using assms(1) seq by (simp add: written_def Let_def write_mem_def)
  ultimately show ?thesis using R(3) conf by (auto simp: shm_put_Inr on_current_def buf_addrs_of_def)
qed

theorem oversized_message_overruns_block_witness:
  "\<exists>s a. shm_step (\<lambda>_. 3) (Send 0 (\<lambda>_. no_faults) True (replicate 40000000 9) (new_message_info (\<lambda>_. 3))) (new_shm_system 7) = Inr (Sent (Some 0), s) \<and>
    sg_shm (sy_segs s 0) = Some a \<and> block_buf_addrs (sy_segs s 0) 1 = Some 33555456 \<and> so_mem (os_objects (sy_os s) a) 33555456 = 9"
proof -
  have "33555456 < length (replicate 40000000 (9 :: byte))" "length (replicate 40000000 (9 :: byte)) \<le> 2 * 33555456" "info_ok (new_message_info (\<lambda>_. 3))"
    by (simp_all add: info_ok_def new_message_info_def new_identity_def)
  from oversized_message_overruns_block [OF this] show ?thesis by simp
qed

end
