(* ===== verification/ShmNotifier.thy ===== *)
theory ShmNotifier
  imports ShmMessages
begin

text \<open>
  The condition notifier (\<open>cyber/transport/shm/condition_notifier.cc\<close>): a ring of readable infos in shared
  memory that every process writes and every process listens to, without locks. Notifiers and the listener
  are step relations with one step per access to the ring; copying an info is taken as one access. How
  the ring comes to be mapped is not modelled.
\<close>

section \<open>The ring\<close>

definition kBufLength :: nat where "kBufLength = 4096"

record indicator =
  next_seq :: u64
  infos :: "nat \<Rightarrow> readable_info"
  seqs :: "nat \<Rightarrow> u64"

definition new_indicator :: indicator where
  "new_indicator = \<lparr>next_seq = 0, infos = (\<lambda>_. new_readable_info), seqs = (\<lambda>_. 0)\<rparr>"

definition slot :: "u64 \<Rightarrow> nat" where
  "slot s = unat s mod kBufLength"

text \<open>\<open>Notify\<close>: the sequence number is taken, then the info is stored, then the number.\<close>

datatype notify_pc = N_idle | N_claimed u64 readable_info | N_stored u64

fun Notify_step :: "bool \<Rightarrow> readable_info \<Rightarrow> notify_pc \<Rightarrow> indicator \<Rightarrow> notify_pc \<times> indicator" where
  "Notify_step is_shutdown info N_idle m =
     (if is_shutdown then (N_idle, m) else (N_claimed (next_seq m) info, m\<lparr>next_seq := next_seq m + 1\<rparr>))"
| "Notify_step is_shutdown info (N_claimed s i) m = (N_stored s, m\<lparr>infos := (infos m)(slot s := i)\<rparr>)"
| "Notify_step is_shutdown info (N_stored s) m = (N_idle, m\<lparr>seqs := (seqs m)(slot s := s)\<rparr>)"

definition Notify :: "bool \<Rightarrow> readable_info \<Rightarrow> indicator \<Rightarrow> bool \<times> indicator" where
  "Notify is_shutdown info m =
     (if is_shutdown then (False, m)
      else let s = next_seq m; m1 = m\<lparr>next_seq := next_seq m + 1\<rparr>;
               m2 = m1\<lparr>infos := (infos m1)(slot s := info)\<rparr>
           in (True, m2\<lparr>seqs := (seqs m2)(slot s := s)\<rparr>))"

text \<open>
  The body of the loop of \<open>Listen\<close>: the next number is read, then that of the slot, then the info. An info
  comes out of the last step.
\<close>

datatype listen_pc = L_top | L_seq | L_info nat

record listener =
  ls_next :: u64
  ls_pc :: listen_pc

fun Listen_step :: "indicator \<Rightarrow> listener \<Rightarrow> readable_info option \<times> listener" where
  "Listen_step m l =
     (case ls_pc l of
        L_top \<Rightarrow> (None, if next_seq m \<noteq> ls_next l then l\<lparr>ls_pc := L_seq\<rparr> else l)
      | L_seq \<Rightarrow>
          let idx = slot (ls_next l); actual_seq = seqs m idx
          in (None, if actual_seq \<ge> ls_next l then l\<lparr>ls_next := actual_seq, ls_pc := L_info idx\<rparr> else l\<lparr>ls_pc := L_top\<rparr>)
      | L_info idx \<Rightarrow> (Some (infos m idx), l\<lparr>ls_next := ls_next l + 1, ls_pc := L_top\<rparr>))"

text \<open>
  The loop of \<open>Listen\<close> over the ring as it is in each round, until an info came or the time is over;
  the listener keeps only \<open>ls_next\<close> between calls.
\<close>

definition listen_round :: "indicator \<Rightarrow> u64 \<Rightarrow> readable_info option \<times> u64" where
  "listen_round m n =
     (if next_seq m \<noteq> n then
        let idx = slot n; actual_seq = seqs m idx
        in if actual_seq \<ge> n then (Some (infos m idx), actual_seq + 1) else (None, n)
      else (None, n))"

function Listen_loop :: "(int \<Rightarrow> bool \<times> indicator) \<Rightarrow> int \<Rightarrow> u64 \<Rightarrow> readable_info option \<times> u64" where
  "Listen_loop ring timeout_us n =
     (case ring timeout_us of
        (True, _) \<Rightarrow> (None, n)
      | (False, m) \<Rightarrow>
          (case listen_round m n of
             (Some i, n') \<Rightarrow> (Some i, n')
           | (None, n') \<Rightarrow> if timeout_us > 0 then Listen_loop ring (timeout_us - 50) n' else (None, n')))"
  by auto
termination by (relation "measure (\<lambda>(_, t, _). nat t)") auto

declare Listen_loop.simps [simp del]

definition Listen :: "bool \<Rightarrow> (int \<Rightarrow> bool \<times> indicator) \<Rightarrow> int \<Rightarrow> u64 \<Rightarrow> readable_info option \<times> u64" where
  "Listen is_shutdown ring timeout_ms n = (if is_shutdown then (None, n) else Listen_loop ring (timeout_ms * 1000) n)"

section \<open>Interleavings\<close>

text \<open>
  \<open>claimed\<close> are the infos in the order of their numbers, \<open>heard\<close> what the listener was given since it was
  constructed, when \<open>since\<close> numbers were taken.
\<close>

record notify_system =
  ring :: indicator
  pcs :: "nat \<Rightarrow> notify_pc"
  claimed :: "readable_info list"
  ear :: "listener option"
  since :: nat
  heard :: "readable_info list"

definition notify_init :: notify_system where
  "notify_init = \<lparr>ring = new_indicator, pcs = (\<lambda>_. N_idle), claimed = [], ear = None, since = 0, heard = []\<rparr>"

inductive notify_system_step :: "notify_system \<Rightarrow> notify_system \<Rightarrow> bool" where
  n_notify: "Notify_step is_shutdown info (pcs s i) (ring s) = (pc', m') \<Longrightarrow>
    c' = (if pcs s i = N_idle \<and> \<not> is_shutdown then claimed s @ [info] else claimed s) \<Longrightarrow>
    notify_system_step s (s\<lparr>ring := m', pcs := (pcs s)(i := pc'), claimed := c'\<rparr>)"
| n_construct: "ear s = None \<Longrightarrow>
    notify_system_step s (s\<lparr>ear := Some \<lparr>ls_next = next_seq (ring s), ls_pc = L_top\<rparr>, since := length (claimed s)\<rparr>)"
| n_listen: "ear s = Some l \<Longrightarrow> Listen_step (ring s) l = (res, l') \<Longrightarrow>
    notify_system_step s (s\<lparr>ear := Some l', heard := heard s @ (case res of Some i \<Rightarrow> [i] | None \<Rightarrow> [])\<rparr>)"

fun in_flight :: "notify_pc \<Rightarrow> u64 option" where
  "in_flight N_idle = None"
| "in_flight (N_claimed s i) = Some s"
| "in_flight (N_stored s) = Some s"

text \<open>No notifier and not the listener is a whole ring behind, and the numbers have not wrapped around.\<close>

definition calm :: "notify_system \<Rightarrow> bool" where
  "calm s \<longleftrightarrow> length (claimed s) < 2 ^ 64 \<and>
     (\<forall>i q. in_flight (pcs s i) = Some q \<longrightarrow> length (claimed s) \<le> unat q + kBufLength) \<and>
     (ear s \<noteq> None \<longrightarrow> length (claimed s) \<le> since s + length (heard s) + kBufLength)"

definition calm_step :: "notify_system \<Rightarrow> notify_system \<Rightarrow> bool" where
  "calm_step s s' \<longleftrightarrow> notify_system_step s s' \<and> calm s'"

lemma Notify_steps:
  "Notify False info m = (True, snd (Notify_step False info (N_stored (next_seq m))
     (snd (Notify_step False info (N_claimed (next_seq m) info) (snd (Notify_step False info N_idle m))))))"
  by (simp add: Notify_def Let_def)

section \<open>The invariant\<close>

text \<open>Number \<open>q\<close> is done: taken and no longer under way.\<close>

definition done_with :: "notify_system \<Rightarrow> nat \<Rightarrow> bool" where
  "done_with s q \<longleftrightarrow> q < length (claimed s) \<and> (\<forall>i. in_flight (pcs s i) \<noteq> Some (of_nat q))"

definition ring_ok :: "notify_system \<Rightarrow> bool" where
  "ring_ok s \<longleftrightarrow>
     next_seq (ring s) = of_nat (length (claimed s)) \<and>
     (\<forall>i q. in_flight (pcs s i) = Some q \<longrightarrow> unat q < length (claimed s)) \<and>
     (\<forall>i j q. in_flight (pcs s i) = Some q \<and> in_flight (pcs s j) = Some q \<longrightarrow> i = j) \<and>
     (\<forall>i q info. pcs s i = N_claimed q info \<longrightarrow> info = claimed s ! unat q) \<and>
     (\<forall>i q. pcs s i = N_stored q \<longrightarrow> infos (ring s) (slot q) = claimed s ! unat q) \<and>
     (\<forall>q. done_with s q \<and> length (claimed s) \<le> q + kBufLength \<longrightarrow>
        seqs (ring s) (q mod kBufLength) = of_nat q \<and> infos (ring s) (q mod kBufLength) = claimed s ! q) \<and>
     (\<forall>j. seqs (ring s) j = 0 \<or> done_with s (unat (seqs (ring s) j)) \<and> unat (seqs (ring s) j) mod kBufLength = j)"

definition ear_ok :: "notify_system \<Rightarrow> bool" where
  "ear_ok s \<longleftrightarrow>
     (case ear s of
        None \<Rightarrow> heard s = []
      | Some l \<Rightarrow> since s + length (heard s) \<le> length (claimed s) \<and> ls_next l = of_nat (since s + length (heard s)) \<and>
          heard s = take (length (heard s)) (drop (since s) (claimed s)) \<and>
          (case ls_pc l of
             L_top \<Rightarrow> True
           | L_seq \<Rightarrow> since s + length (heard s) < length (claimed s)
           | L_info idx \<Rightarrow> done_with s (since s + length (heard s)) \<and> idx = (since s + length (heard s)) mod kBufLength))"

lemma ring_okD:
  assumes "ring_ok s"
  shows "next_seq (ring s) = of_nat (length (claimed s))"
    "in_flight (pcs s i) = Some q \<Longrightarrow> unat q < length (claimed s)"
    "in_flight (pcs s i) = Some q \<Longrightarrow> in_flight (pcs s j) = Some q \<Longrightarrow> i = j"
    "pcs s i = N_claimed q info \<Longrightarrow> info = claimed s ! unat q"
    "pcs s i = N_stored q \<Longrightarrow> infos (ring s) (slot q) = claimed s ! unat q"
    "done_with s k \<Longrightarrow> length (claimed s) \<le> k + kBufLength \<Longrightarrow> seqs (ring s) (k mod kBufLength) = of_nat k"
    "done_with s k \<Longrightarrow> length (claimed s) \<le> k + kBufLength \<Longrightarrow> infos (ring s) (k mod kBufLength) = claimed s ! k"
    "seqs (ring s) j = 0 \<or> done_with s (unat (seqs (ring s) j)) \<and> unat (seqs (ring s) j) mod kBufLength = j"
  using assms unfolding ring_ok_def by blast+

text \<open>Two numbers that share a slot are at least a ring apart.\<close>

lemma same_slot_far:
  assumes "(a :: nat) mod kBufLength = b mod kBufLength" "a \<noteq> b"
  shows "a + kBufLength \<le> b \<or> b + kBufLength \<le> a"
  using assms mod_distinct_window [of a b kBufLength] mod_distinct_window [of b a kBufLength] by (metis linorder_not_le nat_neq_iff)

lemma unat_small: "(k :: nat) < 2 ^ 64 \<Longrightarrow> unat (of_nat k :: u64) = k"
  by (simp add: unat_of_nat)

lemma in_flight_far:
  assumes ok: "ring_ok s" and c: "calm s" and q: "in_flight (pcs s i) = Some q"
    and k: "k \<noteq> unat q" "k mod kBufLength = slot q" "k < length (claimed s)" "length (claimed s) \<le> k + kBufLength"
  shows False
proof -
  have "unat q < length (claimed s)" using ring_okD(2) [OF ok q] .
  moreover have "length (claimed s) \<le> unat q + kBufLength" using c q by (auto simp: calm_def)
  moreover have "k + kBufLength \<le> unat q \<or> unat q + kBufLength \<le> k"
    using same_slot_far [of k "unat q"] k by (simp add: slot_def)
  ultimately show False using k by linarith
qed

lemma ring_okI:
  assumes "next_seq (ring s) = of_nat (length (claimed s))"
    "\<And>i q. in_flight (pcs s i) = Some q \<Longrightarrow> unat q < length (claimed s)"
    "\<And>i j q. in_flight (pcs s i) = Some q \<Longrightarrow> in_flight (pcs s j) = Some q \<Longrightarrow> i = j"
    "\<And>i q info. pcs s i = N_claimed q info \<Longrightarrow> info = claimed s ! unat q"
    "\<And>i q. pcs s i = N_stored q \<Longrightarrow> infos (ring s) (slot q) = claimed s ! unat q"
    "\<And>k. done_with s k \<Longrightarrow> length (claimed s) \<le> k + kBufLength \<Longrightarrow>
       seqs (ring s) (k mod kBufLength) = of_nat k \<and> infos (ring s) (k mod kBufLength) = claimed s ! k"
    "\<And>j. seqs (ring s) j = 0 \<or> done_with s (unat (seqs (ring s) j)) \<and> unat (seqs (ring s) j) mod kBufLength = j"
  shows "ring_ok s"
  using assms unfolding ring_ok_def by blast

lemma claim_ok:
  assumes ok: "ring_ok s" and i: "pcs s i = N_idle"
    and s': "s' = s\<lparr>ring := (ring s)\<lparr>next_seq := next_seq (ring s) + 1\<rparr>, pcs := (pcs s)(i := N_claimed (next_seq (ring s)) info),
      claimed := claimed s @ [info]\<rparr>" and c': "calm s'"
  shows "ring_ok s' \<and> (\<forall>k. done_with s k \<longrightarrow> done_with s' k)"
proof -
  let ?N = "length (claimed s)"
  have N: "Suc ?N < 2 ^ 64" using c' by (simp add: calm_def s')
  then have uN: "unat (of_nat ?N :: u64) = ?N" by (simp add: unat_small)
  have nx: "next_seq (ring s) = of_nat ?N" using ring_okD(1) [OF ok] .
  have fl: "in_flight (pcs s' j) = (if j = i then Some (of_nat ?N) else in_flight (pcs s j))" for j by (simp add: s' nx)
  have new: "in_flight (pcs s j) \<noteq> Some (of_nat ?N)" for j using ring_okD(2) [OF ok, of j "of_nat ?N"] uN by auto
  have ne: "(of_nat ?N :: u64) \<noteq> of_nat k" if "k < ?N" for k using that N unat_small [of k] uN by (metis less_irrefl_nat less_trans lessI)
  have dn: "done_with s' k \<longleftrightarrow> done_with s k" for k
  proof
    assume d: "done_with s' k"
    then have "k \<noteq> ?N" using fl [of i] by (auto simp: done_with_def)
    moreover have "k < Suc ?N" using d by (simp add: done_with_def s')
    ultimately have "k < ?N" by simp
    moreover have "in_flight (pcs s j) \<noteq> Some (of_nat k)" for j using d fl [of j] i by (cases "j = i") (auto simp: done_with_def)
    ultimately show "done_with s k" by (simp add: done_with_def)
  next
    assume "done_with s k"
    then show "done_with s' k" using fl ne by (auto simp: done_with_def s' nx split: if_splits)
  qed
  have lt: "k < ?N" if "done_with s k" for k using that by (simp add: done_with_def)
  have "ring_ok s'"
  proof (rule ring_okI)
    show "next_seq (ring s') = of_nat (length (claimed s'))" by (simp add: s' nx)
  next
    fix j q assume "in_flight (pcs s' j) = Some q"
    then show "unat q < length (claimed s')" using ring_okD(2) [OF ok, of j q] uN nx by (auto simp: fl s' split: if_splits)
  next
    fix j k q assume "in_flight (pcs s' j) = Some q" "in_flight (pcs s' k) = Some q"
    then show "j = k" using ring_okD(3) [OF ok, of j q k] new by (auto simp: fl split: if_splits)
  next
    fix j q x assume "pcs s' j = N_claimed q x"
    then show "x = claimed s' ! unat q" using ring_okD(2) [OF ok, of j q] ring_okD(4) [OF ok, of j q x] uN
      by (cases "j = i") (auto simp: s' nx nth_append)
  next
    fix j q assume "pcs s' j = N_stored q"
    then show "infos (ring s') (slot q) = claimed s' ! unat q"
      using ring_okD(2,5) [OF ok, of j q] by (auto simp: s' nth_append split: if_splits)
  next
    fix k assume k: "done_with s' k" "length (claimed s') \<le> k + kBufLength"
    have d: "done_with s k" using k(1) unfolding dn .
    show "seqs (ring s') (k mod kBufLength) = of_nat k \<and> infos (ring s') (k mod kBufLength) = claimed s' ! k"
      using ring_okD(6,7) [OF ok d] lt [OF d] k(2) by (simp add: s' nth_append)
  next
    fix j show "seqs (ring s') j = 0 \<or> done_with s' (unat (seqs (ring s') j)) \<and> unat (seqs (ring s') j) mod kBufLength = j"
      using ring_okD(8) [OF ok, of j] unfolding dn by (simp add: s')
  qed
  then show ?thesis using dn by blast
qed

lemma store_ok:
  assumes ok: "ring_ok s" and c: "calm s" and i: "pcs s i = N_claimed q x"
    and s': "s' = s\<lparr>ring := (ring s)\<lparr>infos := (infos (ring s))(slot q := x)\<rparr>, pcs := (pcs s)(i := N_stored q)\<rparr>"
  shows "ring_ok s' \<and> (\<forall>k. done_with s k \<longrightarrow> done_with s' k)"
proof -
  have fl: "in_flight (pcs s' j) = in_flight (pcs s j)" for j using i by (simp add: s')
  have dn: "done_with s' k \<longleftrightarrow> done_with s k" for k by (simp add: done_with_def fl) (simp add: s')
  have iq: "in_flight (pcs s i) = Some q" using i by simp
  have other: "k mod kBufLength \<noteq> slot q" if "done_with s k" "length (claimed s) \<le> k + kBufLength" for k
  proof
    assume "k mod kBufLength = slot q"
    moreover have "k \<noteq> unat q" "k < length (claimed s)" using that(1) iq by (auto simp: done_with_def)
    ultimately show False using in_flight_far [OF ok c iq] that(2) by blast
  qed
  have stored: "slot p \<noteq> slot q" if "pcs s j = N_stored p" for j p
  proof
    assume e: "slot p = slot q"
    have p: "in_flight (pcs s j) = Some p" using that by simp
    have "p \<noteq> q" using ring_okD(3) [OF ok p, of i] iq i that by auto
    then have "unat p \<noteq> unat q" by (metis unsigned_word_eqI)
    then show False using in_flight_far [OF ok c iq, of "unat p"] e ring_okD(2) [OF ok p] c p by (auto simp: slot_def calm_def)
  qed
  have "ring_ok s'"
  proof (rule ring_okI)
    show "next_seq (ring s') = of_nat (length (claimed s'))" using ring_okD(1) [OF ok] by (simp add: s')
  next
    fix j q' assume "in_flight (pcs s' j) = Some q'"
    then show "unat q' < length (claimed s')" using ring_okD(2) [OF ok, of j q'] unfolding fl by (simp add: s')
  next
    fix j k q' assume "in_flight (pcs s' j) = Some q'" "in_flight (pcs s' k) = Some q'"
    then show "j = k" using ring_okD(3) [OF ok] unfolding fl by blast
  next
    fix j q' y assume "pcs s' j = N_claimed q' y"
    then show "y = claimed s' ! unat q'" using ring_okD(4) [OF ok, of j q' y] by (auto simp: s' split: if_splits)
  next
    fix j q' assume "pcs s' j = N_stored q'"
    then show "infos (ring s') (slot q') = claimed s' ! unat q'"
      using ring_okD(5) [OF ok, of j q'] ring_okD(4) [OF ok i] stored [of j q'] by (auto simp: s' split: if_splits)
  next
    fix k assume "done_with s' k" "length (claimed s') \<le> k + kBufLength"
    then show "seqs (ring s') (k mod kBufLength) = of_nat k \<and> infos (ring s') (k mod kBufLength) = claimed s' ! k"
      using ring_okD(6,7) [OF ok, of k] other [of k] unfolding dn by (simp add: s')
  next
    fix j show "seqs (ring s') j = 0 \<or> done_with s' (unat (seqs (ring s') j)) \<and> unat (seqs (ring s') j) mod kBufLength = j"
      using ring_okD(8) [OF ok, of j] unfolding dn by (simp add: s')
  qed
  then show ?thesis using dn by blast
qed

lemma finish_ok:
  assumes ok: "ring_ok s" and c: "calm s" and i: "pcs s i = N_stored q"
    and s': "s' = s\<lparr>ring := (ring s)\<lparr>seqs := (seqs (ring s))(slot q := q)\<rparr>, pcs := (pcs s)(i := N_idle)\<rparr>"
  shows "ring_ok s' \<and> (\<forall>k. done_with s k \<longrightarrow> done_with s' k)"
proof -
  have iq: "in_flight (pcs s i) = Some q" using i by simp
  note qN = ring_okD(2) [OF ok iq]
  have fl: "in_flight (pcs s' j) = (if j = i then None else in_flight (pcs s j))" for j by (simp add: s')
  have N: "length (claimed s) < 2 ^ 64" using c by (simp add: calm_def)
  have dn: "done_with s' k \<longleftrightarrow> done_with s k \<or> k = unat q" for k
  proof
    assume d: "done_with s' k"
    then have k: "k < length (claimed s)" by (simp add: done_with_def s')
    have ot: "in_flight (pcs s j) \<noteq> Some (of_nat k)" if "j \<noteq> i" for j using d fl [of j] that by (auto simp: done_with_def)
    show "done_with s k \<or> k = unat q"
    proof (cases "of_nat k = q")
      case True
      then have "k = unat q" using unat_small [of k] k N by auto
      then show ?thesis ..
    next
      case False
      then have "in_flight (pcs s j) \<noteq> Some (of_nat k)" for j using ot [of j] iq by (cases "j = i") auto
      then show ?thesis using k by (simp add: done_with_def)
    qed
  next
    assume "done_with s k \<or> k = unat q"
    then show "done_with s' k"
    proof
      assume "done_with s k"
      then show ?thesis using fl by (auto simp: done_with_def s')
    next
      assume k: "k = unat q"
      have "in_flight (pcs s j) \<noteq> Some q" if "j \<noteq> i" for j using ring_okD(3) [OF ok iq, of j] that by blast
      then show ?thesis using k qN fl by (auto simp: done_with_def s')
    qed
  qed
  have other: "k mod kBufLength \<noteq> slot q" if "done_with s k" "length (claimed s) \<le> k + kBufLength" for k
  proof
    assume "k mod kBufLength = slot q"
    moreover have "k \<noteq> unat q" "k < length (claimed s)" using that(1) iq by (auto simp: done_with_def)
    ultimately show False using in_flight_far [OF ok c iq] that(2) by blast
  qed
  have "ring_ok s'"
  proof (rule ring_okI)
    show "next_seq (ring s') = of_nat (length (claimed s'))" using ring_okD(1) [OF ok] by (simp add: s')
  next
    fix j q' assume "in_flight (pcs s' j) = Some q'"
    then show "unat q' < length (claimed s')" using ring_okD(2) [OF ok, of j q'] unfolding fl by (simp add: s' split: if_splits)
  next
    fix j k q' assume "in_flight (pcs s' j) = Some q'" "in_flight (pcs s' k) = Some q'"
    then show "j = k" using ring_okD(3) [OF ok, of j q' k] unfolding fl by (simp split: if_splits)
  next
    fix j q' y assume "pcs s' j = N_claimed q' y"
    then show "y = claimed s' ! unat q'" using ring_okD(4) [OF ok, of j q' y] by (auto simp: s' split: if_splits)
  next
    fix j q' assume "pcs s' j = N_stored q'"
    then show "infos (ring s') (slot q') = claimed s' ! unat q'"
      using ring_okD(5) [OF ok, of j q'] by (auto simp: s' split: if_splits)
  next
    fix k assume k: "done_with s' k" "length (claimed s') \<le> k + kBufLength"
    have le: "length (claimed s) \<le> k + kBufLength" using k(2) by (simp add: s')
    from k(1) consider "done_with s k" | "k = unat q" unfolding dn by blast
    then show "seqs (ring s') (k mod kBufLength) = of_nat k \<and> infos (ring s') (k mod kBufLength) = claimed s' ! k"
    proof cases
      case 1
      then show ?thesis using ring_okD(6,7) [OF ok 1 le] other [OF 1 le] by (simp add: s')
    next
      case 2
      then show ?thesis using ring_okD(5) [OF ok i] by (simp add: s' slot_def)
    qed
  next
    fix j show "seqs (ring s') j = 0 \<or> done_with s' (unat (seqs (ring s') j)) \<and> unat (seqs (ring s') j) mod kBufLength = j"
    proof (cases "j = slot q")
      case True
      then show ?thesis unfolding dn by (simp add: s' slot_def)
    next
      case False
      then show ?thesis using ring_okD(8) [OF ok, of j] unfolding dn by (auto simp: s')
    qed
  qed
  then show ?thesis using dn by blast
qed

text \<open>Steps of notifiers keep what the listener relies on.\<close>

lemma ear_ok_notify:
  assumes e: "ear_ok s" and c: "claimed s' = claimed s @ xs" "ear s' = ear s" "heard s' = heard s" "since s' = since s"
    and d: "\<And>k. done_with s k \<Longrightarrow> done_with s' k"
  shows "ear_ok s'"
proof (cases "ear s")
  case None
  then show ?thesis using e c by (simp add: ear_ok_def)
next
  case (Some l)
  have "drop (since s) (claimed s') = drop (since s) (claimed s) @ drop (since s - length (claimed s)) xs" by (simp add: c)
  then have "take (length (heard s)) (drop (since s) (claimed s')) = take (length (heard s)) (drop (since s) (claimed s))"
    using e Some by (simp add: ear_ok_def)
  then show ?thesis using e c Some d by (auto simp: ear_ok_def split: listen_pc.splits)
qed

lemma done_cong: "pcs s' = pcs s \<Longrightarrow> claimed s' = claimed s \<Longrightarrow> done_with s' k = done_with s k"
  by (simp add: done_with_def)

lemma done_with_ear [simp]:
  "done_with (s\<lparr>ear := e\<rparr>) k = done_with s k" "done_with (s\<lparr>heard := xs\<rparr>) k = done_with s k"
  by (simp_all add: done_with_def)

lemma ring_ok_cong: "ring_ok s \<Longrightarrow> ring s' = ring s \<Longrightarrow> pcs s' = pcs s \<Longrightarrow> claimed s' = claimed s \<Longrightarrow> ring_ok s'"
  unfolding ring_ok_def by (simp add: done_with_def)

text \<open>The number the listener finds in the slot of its next number is that number.\<close>

lemma found_seq:
  assumes ok: "ring_ok s" and c: "length (claimed s) \<le> L + kBufLength" and L: "0 < L" "L < length (claimed s)" "L < 2 ^ 64"
    and ge: "seqs (ring s) (L mod kBufLength) \<ge> of_nat L"
  shows "seqs (ring s) (L mod kBufLength) = of_nat L \<and> done_with s L"
proof -
  let ?q = "seqs (ring s) (L mod kBufLength)"
  have qL: "L \<le> unat ?q" using ge L(3) by (simp add: word_le_nat_alt unat_small)
  then have "?q \<noteq> 0" using L(1) by auto
  then have d: "done_with s (unat ?q)" "unat ?q mod kBufLength = L mod kBufLength" using ring_okD(8) [OF ok] by blast+
  have "unat ?q < length (claimed s)" using d(1) by (simp add: done_with_def)
  then have "unat ?q = L" using same_slot_far [OF d(2)] qL c by linarith
  then show ?thesis using d(1) by (metis of_nat_unat ucast_id)
qed

lemma take_one_more:
  assumes "xs = take (length xs) ys" "length xs < length ys"
  shows "xs @ [ys ! length xs] = take (length (xs @ [y])) ys"
proof -
  have "take (Suc (length xs)) ys = take (length xs) ys @ [ys ! length xs]" by (rule take_Suc_conv_app_nth [OF assms(2)])
  then show ?thesis using assms(1) by simp
qed

lemma slot_of_nat: "(k :: nat) < 2 ^ 64 \<Longrightarrow> slot (of_nat k) = k mod kBufLength"
  by (simp add: slot_def unat_small)

lemma listen_ok:
  assumes ok: "ring_ok s" and c: "calm s" and e: "ear_ok s" and l: "ear s = Some l" and since: "0 < since s"
    and st: "Listen_step (ring s) l = (res, l')"
    and s': "s' = s\<lparr>ear := Some l', heard := heard s @ (case res of Some i \<Rightarrow> [i] | None \<Rightarrow> [])\<rparr>"
  shows "ear_ok s'"
proof -
  let ?L = "since s + length (heard s)" let ?N = "length (claimed s)"
  have E: "?L \<le> ?N" "ls_next l = of_nat ?L" "heard s = take (length (heard s)) (drop (since s) (claimed s))"
    using e l by (simp_all add: ear_ok_def)
  have N: "?N < 2 ^ 64" "?N \<le> ?L + kBufLength" using c l by (simp_all add: calm_def)
  then have L: "?L < 2 ^ 64" using E(1) by linarith
  then have sl: "slot (ls_next l) = ?L mod kBufLength" unfolding E(2) by (rule slot_of_nat)
  have dn: "done_with s' k = done_with s k" for k by (rule done_cong) (simp_all add: s')
  show ?thesis
  proof (cases "ls_pc l")
    case L_top
    have "?L < ?N" if "next_seq (ring s) \<noteq> ls_next l" using that ring_okD(1) [OF ok] E(1,2) by (cases "?L = ?N") auto
    then show ?thesis using st L_top E by (auto simp: s' ear_ok_def)
  next
    case L_seq
    then have lt: "?L < ?N" using e l by (simp add: ear_ok_def)
    show ?thesis
    proof (cases "seqs (ring s) (?L mod kBufLength) \<ge> of_nat ?L")
      case True
      then have "seqs (ring s) (?L mod kBufLength) = of_nat ?L \<and> done_with s ?L"
        using found_seq [OF ok N(2) _ lt L] since by simp
      then show ?thesis using st L_seq E sl True by (auto simp: s' ear_ok_def dn [unfolded s'] Let_def)
    next
      case False
      then show ?thesis using st L_seq E sl by (auto simp: s' ear_ok_def Let_def)
    qed
  next
    case (L_info idx)
    then have d: "done_with s ?L" "idx = ?L mod kBufLength" using e l by (simp_all add: ear_ok_def)
    have lt: "?L < ?N" using d(1) by (simp add: done_with_def)
    have "infos (ring s) idx = claimed s ! ?L" using ring_okD(7) [OF ok d(1) N(2)] d(2) by simp
    then have r: "res = Some (claimed s ! ?L)" "l' = l\<lparr>ls_next := ls_next l + 1, ls_pc := L_top\<rparr>" using st L_info by auto
    have "heard s @ [drop (since s) (claimed s) ! length (heard s)] =
        take (length (heard s @ [claimed s ! ?L])) (drop (since s) (claimed s))"
      by (rule take_one_more [OF E(3)]) (use lt in simp)
    then show ?thesis using r E(1,2) lt by (simp add: s' ear_ok_def add.commute)
  qed
qed

definition notify_ok :: "notify_system \<Rightarrow> bool" where
  "notify_ok s \<longleftrightarrow> ring_ok s \<and> calm s \<and> (ear s = None \<longrightarrow> heard s = [] \<and> since s = 0) \<and> (0 < since s \<longrightarrow> ear_ok s)"

lemma notify_init_ok: "notify_ok notify_init"
proof -
  have "ring_ok notify_init" by (rule ring_okI) (auto simp: notify_init_def new_indicator_def done_with_def)
  then show ?thesis by (simp add: notify_ok_def) (simp add: calm_def notify_init_def)
qed

lemma calm_step_ok:
  assumes "calm_step s s'" "notify_ok s"
  shows "notify_ok s'"
proof -
  have st: "notify_system_step s s'" and c': "calm s'" using assms(1) by (simp_all add: calm_step_def)
  have ok: "ring_ok s" and c: "calm s" and e: "ear s = None \<longrightarrow> heard s = [] \<and> since s = 0" "0 < since s \<longrightarrow> ear_ok s"
    using assms(2) by (simp_all add: notify_ok_def)
  from st show ?thesis
  proof cases
    case (n_notify is_shutdown info i pc' m' cl)
    have K: "(ring_ok s' \<and> (\<forall>k. done_with s k \<longrightarrow> done_with s' k)) \<and> (\<exists>xs. claimed s' = claimed s @ xs)"
    proof (cases "pcs s i")
      case N_idle
      show ?thesis
      proof (cases is_shutdown)
        case True
        then have "s' = s" using n_notify N_idle by (simp add: fun_upd_idem)
        then show ?thesis using ok by simp
      next
        case False
        then show ?thesis using n_notify N_idle claim_ok [OF ok N_idle _ c', of info] by auto
      qed
    next
      case (N_claimed q x)
      then show ?thesis using n_notify store_ok [OF ok c N_claimed, of s'] by auto
    next
      case (N_stored q)
      then show ?thesis using n_notify finish_ok [OF ok c N_stored, of s'] by auto
    qed
    then obtain xs where "claimed s' = claimed s @ xs" by blast
    moreover have "ear s' = ear s" "heard s' = heard s" "since s' = since s" using n_notify by simp_all
    ultimately show ?thesis using K c' e ear_ok_notify [of s s' xs] by (auto simp: notify_ok_def)
  next
    case n_construct
    have "ring_ok s'" by (rule ring_ok_cong [OF ok]) (use n_construct in simp_all)
    then show ?thesis using c' e n_construct ring_okD(1) [OF ok] by (simp add: notify_ok_def ear_ok_def)
  next
    case (n_listen l res l')
    have "ring_ok s'" by (rule ring_ok_cong [OF ok]) (use n_listen in simp_all)
    then show ?thesis using c' e n_listen listen_ok [OF ok c _ n_listen(2) _ n_listen(3,1)] by (simp add: notify_ok_def)
  qed
qed

lemma calm_reach_ok: "calm_step\<^sup>*\<^sup>* notify_init s \<Longrightarrow> notify_ok s"
  by (induction rule: rtranclp_induct) (simp_all add: notify_init_ok calm_step_ok)

text \<open>
  Property C26. In every interleaving of any number of notifying processes with a listener constructed after the
  first notification, as long as none of them falls a whole ring of 4096 behind and fewer than \<open>2 ^ 64\<close>
  numbers are taken, the listener hears exactly the notifications made since, in the order of their numbers, and
  when none is under way its next call returns the next of them.
\<close>

theorem listener_hears_in_order:
  assumes "calm_step\<^sup>*\<^sup>* notify_init s" "ear s = Some l" "0 < since s"
  shows "heard s = take (length (heard s)) (drop (since s) (claimed s)) \<and>
    ((\<forall>i. pcs s i = N_idle) \<and> ls_pc l = L_top \<and> since s + length (heard s) < length (claimed s) \<longrightarrow>
      fst (Listen False (\<lambda>_. (False, ring s)) timeout_ms (ls_next l)) = Some (claimed s ! (since s + length (heard s))))"
proof -
  have ok: "ring_ok s" "calm s" "ear_ok s" using calm_reach_ok [OF assms(1)] assms(3) by (simp_all add: notify_ok_def)
  let ?L = "since s + length (heard s)"
  have E: "ls_next l = of_nat ?L" "heard s = take (length (heard s)) (drop (since s) (claimed s))"
    using ok(3) assms(2) by (simp_all add: ear_ok_def)
  have "fst (Listen False (\<lambda>_. (False, ring s)) timeout_ms (ls_next l)) = Some (claimed s ! ?L)"
    if idle: "\<forall>i. pcs s i = N_idle" and lt: "?L < length (claimed s)"
  proof -
    have N: "length (claimed s) < 2 ^ 64" "length (claimed s) \<le> ?L + kBufLength" using ok(2) assms(2) by (simp_all add: calm_def)
    have d: "done_with s ?L" using idle lt by (simp add: done_with_def)
    have L: "?L < 2 ^ 64" using lt N(1) by linarith
    then have sl: "slot (ls_next l) = ?L mod kBufLength" unfolding E(1) by (rule slot_of_nat)
    have "unat (of_nat (length (claimed s)) :: u64) \<noteq> unat (of_nat ?L :: u64)"
      unfolding unat_small [OF N(1)] unat_small [OF L] using lt by simp
    then have "next_seq (ring s) \<noteq> ls_next l" using ring_okD(1) [OF ok(1)] E(1) by auto
    then have "listen_round (ring s) (ls_next l) = (Some (claimed s ! ?L), ls_next l + 1)"
      using ring_okD(6,7) [OF ok(1) d N(2)] E(1) sl by (simp add: listen_round_def Let_def)
    then show ?thesis by (simp add: Listen_def Listen_loop.simps)
  qed
  then show ?thesis using E(2) by blast
qed

text \<open>Steps for concrete runs.\<close>

lemma calm_stepI: "notify_system_step s s' \<Longrightarrow> calm s' \<Longrightarrow> calm_step s s'"
  by (simp add: calm_step_def)

lemma run_on: "calm_step\<^sup>*\<^sup>* a s \<Longrightarrow> notify_system_step s s' \<Longrightarrow> calm s' \<Longrightarrow> calm_step\<^sup>*\<^sup>* a s'"
  by (metis calm_stepI rtranclp.rtrancl_into_rtrancl)

lemma whole_notification:
  assumes r: "calm_step\<^sup>*\<^sup>* a s" and idle: "\<forall>i. pcs s i = N_idle" and N: "length (claimed s) + 1 < 2 ^ 64"
    and e: "ear s \<noteq> None \<longrightarrow> length (claimed s) < since s + length (heard s) + kBufLength" and nx: "next_seq (ring s) = of_nat (length (claimed s))"
  shows "calm_step\<^sup>*\<^sup>* a (s\<lparr>ring := snd (Notify False info (ring s)), claimed := claimed s @ [info]\<rparr>)"
proof -
  let ?q = "next_seq (ring s)" let ?m1 = "(ring s)\<lparr>next_seq := ?q + 1\<rparr>"
  let ?m2 = "?m1\<lparr>infos := (infos ?m1)(slot ?q := info)\<rparr>" let ?m3 = "?m2\<lparr>seqs := (seqs ?m2)(slot ?q := ?q)\<rparr>"
  let ?s = "\<lambda>m pc. s\<lparr>ring := m, pcs := (pcs s)(0 := pc), claimed := claimed s @ [info]\<rparr>"
  have c: "calm (?s m pc)" if "in_flight pc = None \<or> in_flight pc = Some ?q" for m pc
  proof -
    have fl: "q = ?q" if "in_flight (pcs (?s m pc) i) = Some q" for i q using that idle \<open>in_flight pc = None \<or> _\<close> by (auto split: if_splits)
    have u: "unat ?q = length (claimed s)" using N unfolding nx by (intro unat_small) simp
    have "length (claimed (?s m pc)) \<le> unat q + kBufLength" if "in_flight (pcs (?s m pc) i) = Some q" for i q
      using fl [OF that] u by (simp add: kBufLength_def)
    then show ?thesis unfolding calm_def using N e by (intro conjI allI impI) simp_all
  qed
  have 1: "notify_system_step s (?s ?m1 (N_claimed ?q info))"
    using notify_system_step.n_notify [of False info s 0] idle by simp
  have 2: "notify_system_step (?s ?m1 (N_claimed ?q info)) (?s ?m2 (N_stored ?q))"
    using notify_system_step.n_notify [of False info "?s ?m1 (N_claimed ?q info)" 0] by simp
  have 3: "notify_system_step (?s ?m2 (N_stored ?q)) (?s ?m3 N_idle)"
    using notify_system_step.n_notify [of False info "?s ?m2 (N_stored ?q)" 0] by simp
  have "calm_step\<^sup>*\<^sup>* a (?s ?m3 N_idle)"
    by (rule run_on [OF run_on [OF run_on [OF r 1 c] 2 c] 3 c]) simp_all
  moreover have "?s ?m3 N_idle = s\<lparr>ring := snd (Notify False info (ring s)), claimed := claimed s @ [info]\<rparr>"
    using idle by (simp add: Notify_def Let_def fun_upd_idem)
  ultimately show ?thesis by simp
qed

theorem listener_hears_in_order_witness:
  "fst (Listen False (\<lambda>_. (False, snd (Notify False \<lparr>ri_host = 5, ri_block = 1, ri_channel = 6\<rparr>
      (snd (Notify False \<lparr>ri_host = 5, ri_block = 0, ri_channel = 6\<rparr> new_indicator))))) 100 1)
   = Some \<lparr>ri_host = 5, ri_block = 1, ri_channel = 6\<rparr>"
proof -
  let ?a = "\<lparr>ri_host = 5, ri_block = 0, ri_channel = 6\<rparr>" let ?b = "\<lparr>ri_host = 5, ri_block = 1, ri_channel = 6\<rparr>"
  let ?s1 = "notify_init\<lparr>ring := snd (Notify False ?a new_indicator), claimed := [?a]\<rparr>"
  let ?s2 = "?s1\<lparr>ear := Some \<lparr>ls_next = 1, ls_pc = L_top\<rparr>, since := 1\<rparr>"
  let ?s3 = "?s2\<lparr>ring := snd (Notify False ?b (ring ?s2)), claimed := [?a, ?b]\<rparr>"
  have n1: "next_seq (snd (Notify False ?a new_indicator)) = 1" by (simp add: Notify_def new_indicator_def Let_def)
  have 1: "calm_step\<^sup>*\<^sup>* notify_init ?s1"
    using whole_notification [OF rtranclp.rtrancl_refl [of calm_step notify_init], of ?a] by (simp add: notify_init_def new_indicator_def)
  have c2: "calm ?s2" by (simp add: calm_def notify_init_def kBufLength_def)
  have "notify_system_step ?s1 ?s2" using notify_system_step.n_construct [of ?s1] n1 by (simp add: notify_init_def)
  from run_on [OF 1 this c2] have 2: "calm_step\<^sup>*\<^sup>* notify_init ?s2" .
  have 3: "calm_step\<^sup>*\<^sup>* notify_init ?s3"
    using whole_notification [OF 2, of ?b] n1 by (simp add: notify_init_def kBufLength_def)
  have "fst (Listen False (\<lambda>_. (False, ring ?s3)) 100 (ls_next \<lparr>ls_next = 1, ls_pc = L_top\<rparr>)) =
      Some (claimed ?s3 ! (since ?s3 + length (heard ?s3)))"
    using listener_hears_in_order [OF 3, of "\<lparr>ls_next = 1, ls_pc = L_top\<rparr>" 100] by (simp add: notify_init_def)
  then show ?thesis by (simp add: notify_init_def)
qed

text \<open>
  The very first notification: a number 0 that is taken but not yet stored looks stored, because the numbers
  of the ring start at 0. A listener constructed before it hears an empty info and never the one notified.
\<close>

theorem first_notification_is_lost:
  "\<exists>s l. calm_step\<^sup>*\<^sup>* notify_init s \<and> ear s = Some l \<and> (\<forall>i. pcs s i = N_idle) \<and> claimed s = [info] \<and>
     heard s = [new_readable_info] \<and> Listen False (\<lambda>_. (False, ring s)) 0 (ls_next l) = (None, ls_next l)"
proof -
  let ?l = "\<lambda>n pc. \<lparr>ls_next = n, ls_pc = pc\<rparr>"
  let ?m1 = "new_indicator\<lparr>next_seq := 1\<rparr>" let ?m2 = "?m1\<lparr>infos := (infos ?m1)(0 := info)\<rparr>"
  let ?m3 = "?m2\<lparr>seqs := (seqs ?m2)(0 := 0)\<rparr>"
  let ?s = "\<lambda>m pc l c hs. \<lparr>ring = m, pcs = (\<lambda>_. N_idle)(0 := pc), claimed = c, ear = Some l, since = 0, heard = hs\<rparr>"
  have c: "calm (?s m pc l xs hs)" if "length xs \<le> 1" "in_flight pc = None \<or> in_flight pc = Some 0" for m pc l xs hs
    using that by (auto simp: calm_def kBufLength_def split: if_splits)
  note R = rtranclp.rtrancl_refl [of calm_step notify_init]
  have s0: "slot 0 = 0" by (simp add: slot_def)
  have same: "(\<lambda>_ :: nat. N_idle)(0 := N_idle) = (\<lambda>_. N_idle)" by auto
  have 1: "notify_system_step notify_init (?s new_indicator N_idle (?l 0 L_top) [] [])"
    using notify_system_step.n_construct [of notify_init] unfolding same by (simp add: notify_init_def new_indicator_def)
  have 2: "notify_system_step (?s new_indicator N_idle (?l 0 L_top) [] []) (?s ?m1 (N_claimed 0 info) (?l 0 L_top) [info] [])"
    using notify_system_step.n_notify [of False info "?s new_indicator N_idle (?l 0 L_top) [] []" 0] by (simp add: new_indicator_def)
  have 3: "notify_system_step (?s ?m1 (N_claimed 0 info) (?l 0 L_top) [info] []) (?s ?m1 (N_claimed 0 info) (?l 0 L_seq) [info] [])"
    using notify_system_step.n_listen [of "?s ?m1 (N_claimed 0 info) (?l 0 L_top) [info] []" "?l 0 L_top"] by simp
  have 4: "notify_system_step (?s ?m1 (N_claimed 0 info) (?l 0 L_seq) [info] []) (?s ?m1 (N_claimed 0 info) (?l 0 (L_info 0)) [info] [])"
    using notify_system_step.n_listen [of "?s ?m1 (N_claimed 0 info) (?l 0 L_seq) [info] []" "?l 0 L_seq"]
    by (simp add: s0 new_indicator_def Let_def)
  have 5: "notify_system_step (?s ?m1 (N_claimed 0 info) (?l 0 (L_info 0)) [info] []) (?s ?m1 (N_claimed 0 info) (?l 1 L_top) [info] [new_readable_info])"
    using notify_system_step.n_listen [of "?s ?m1 (N_claimed 0 info) (?l 0 (L_info 0)) [info] []" "?l 0 (L_info 0)"]
    by (simp add: new_indicator_def)
  have 6: "notify_system_step (?s ?m1 (N_claimed 0 info) (?l 1 L_top) [info] [new_readable_info]) (?s ?m2 (N_stored 0) (?l 1 L_top) [info] [new_readable_info])"
    using notify_system_step.n_notify [of False info "?s ?m1 (N_claimed 0 info) (?l 1 L_top) [info] [new_readable_info]" 0] by (simp add: s0)
  have 7: "notify_system_step (?s ?m2 (N_stored 0) (?l 1 L_top) [info] [new_readable_info]) (?s ?m3 N_idle (?l 1 L_top) [info] [new_readable_info])"
    using notify_system_step.n_notify [of False info "?s ?m2 (N_stored 0) (?l 1 L_top) [info] [new_readable_info]" 0] by (simp add: s0)
  have "calm_step\<^sup>*\<^sup>* notify_init (?s ?m3 N_idle (?l 1 L_top) [info] [new_readable_info])"
    by (rule run_on [OF run_on [OF run_on [OF run_on [OF run_on [OF run_on [OF run_on [OF R 1 c] 2 c] 3 c] 4 c] 5 c] 6 c] 7 c]) simp_all
  moreover have "Listen False (\<lambda>_. (False, ?m3)) 0 1 = (None, 1)"
    by (simp add: Listen_def Listen_loop.simps listen_round_def)
  ultimately show ?thesis by (intro exI [of _ "?s ?m3 N_idle (?l 1 L_top) [info] [new_readable_info]"] exI [of _ "?l 1 L_top"]) simp
qed

end
