(* ===== verification/Listeners.thy ===== *)
theory Listeners
  imports AtomicHashMap ShmMessages
begin

text \<open>
  How a message reaches its listeners (\<open>cyber/base/signal.h\<close>,
  \<open>cyber/transport/message/listener_handler.h\<close>, \<open>cyber/transport/dispatcher/dispatcher.h\<close>). A
  slot is shared by a signal and a connection, so the slots of a handler lie in a heap of its own and signals and
  connections name them; a callback is a value, and running a handler gives the callbacks in the order they are called.
  Callbacks are never empty and do not touch the handler.
\<close>

section \<open>Signals\<close>

record 'c slot =
  sl_cb :: 'c
  sl_connected :: bool

record 'c slots =
  sl_heap :: "nat \<Rightarrow> 'c slot"
  sl_next :: nat

type_synonym signal = "nat list"   \<comment> \<open>\<open>slots_\<close>\<close>

definition ClearDisconnectedSlots :: "'c slots \<Rightarrow> signal \<Rightarrow> signal" where
  "ClearDisconnectedSlots h sig = filter (\<lambda>r. sl_connected (sl_heap h r)) sig"

text \<open>\<open>operator()\<close>: the callbacks of the connected slots, and the signal after.\<close>

definition signal_call :: "'c slots \<Rightarrow> signal \<Rightarrow> 'c list \<times> signal" where
  "signal_call h sig =
     (let local = sig
      in (map (\<lambda>r. sl_cb (sl_heap h r)) (filter (\<lambda>r. sl_connected (sl_heap h r)) local), ClearDisconnectedSlots h sig))"

definition signal_Connect :: "'c \<Rightarrow> 'c slots \<Rightarrow> signal \<Rightarrow> nat \<times> 'c slots \<times> signal" where
  "signal_Connect cb h sig =
     (let r = sl_next h
      in (r, h\<lparr>sl_heap := (sl_heap h)(r := \<lparr>sl_cb = cb, sl_connected = True\<rparr>), sl_next := r + 1\<rparr>, sig @ [r]))"

definition slot_Disconnect :: "nat \<Rightarrow> 'c slots \<Rightarrow> 'c slots" where
  "slot_Disconnect r h = h\<lparr>sl_heap := (sl_heap h)(r := (sl_heap h r)\<lparr>sl_connected := False\<rparr>)\<rparr>"

definition signal_Disconnect :: "nat \<Rightarrow> 'c slots \<Rightarrow> signal \<Rightarrow> bool \<times> 'c slots \<times> signal" where
  "signal_Disconnect r h sig =
     (let found = r \<in> set sig;
          h1 = (if found then slot_Disconnect r h else h)
      in (found, h1, if found then ClearDisconnectedSlots h1 sig else sig))"

definition DisconnectAllSlots :: "'c slots \<Rightarrow> signal \<Rightarrow> 'c slots \<times> signal" where
  "DisconnectAllSlots h sig = (fold slot_Disconnect sig h, [])"

text \<open>\<open>Connection\<close>: the slot it holds, if any.\<close>

definition IsConnected :: "'c slots \<Rightarrow> nat option \<Rightarrow> bool" where
  "IsConnected h conn = (case conn of Some r \<Rightarrow> sl_connected (sl_heap h r) | None \<Rightarrow> False)"

section \<open>Listener handlers\<close>

record 'c handler =
  lh_slots :: "'c slots"
  lh_signal :: signal
  lh_conns :: "u64 \<Rightarrow> nat option"
  lh_signals :: "u64 \<Rightarrow> signal option"
  lh_oppo_conns :: "u64 \<Rightarrow> (u64 \<Rightarrow> nat option) option"

definition new_handler :: "'c \<Rightarrow> 'c handler" where
  "new_handler dflt = \<lparr>lh_slots = \<lparr>sl_heap = (\<lambda>_. \<lparr>sl_cb = dflt, sl_connected = False\<rparr>), sl_next = 0\<rparr>, lh_signal = [],
     lh_conns = (\<lambda>_. None), lh_signals = (\<lambda>_. None), lh_oppo_conns = (\<lambda>_. None)\<rparr>"

definition handler_Connect :: "u64 \<Rightarrow> 'c \<Rightarrow> 'c handler \<Rightarrow> 'c handler" where
  "handler_Connect self_id listener s =
     (let (connection, h, sig) = signal_Connect listener (lh_slots s) (lh_signal s);
          s1 = s\<lparr>lh_slots := h, lh_signal := sig\<rparr>
      in if \<not> IsConnected h (Some connection) then s1
         else s1\<lparr>lh_conns := (lh_conns s1)(self_id := Some connection)\<rparr>)"

definition handler_Connect_oppo :: "u64 \<Rightarrow> u64 \<Rightarrow> 'c \<Rightarrow> 'c handler \<Rightarrow> 'c handler" where
  "handler_Connect_oppo self_id oppo_id listener s =
     (let sig = (case lh_signals s oppo_id of None \<Rightarrow> [] | Some g \<Rightarrow> g);
          (connection, h, sig') = signal_Connect listener (lh_slots s) sig;
          s1 = s\<lparr>lh_slots := h, lh_signals := (lh_signals s)(oppo_id := Some sig')\<rparr>
      in if \<not> IsConnected h (Some connection) then s1
         else let conns = (case lh_oppo_conns s1 oppo_id of None \<Rightarrow> (\<lambda>_. None) | Some m \<Rightarrow> m)
              in s1\<lparr>lh_oppo_conns := (lh_oppo_conns s1)(oppo_id := Some (conns(self_id := Some connection)))\<rparr>)"

definition handler_Disconnect :: "u64 \<Rightarrow> 'c handler \<Rightarrow> 'c handler" where
  "handler_Disconnect self_id s =
     (case lh_conns s self_id of
        None \<Rightarrow> s
      | Some r \<Rightarrow>
          let (_, h, sig) = signal_Disconnect r (lh_slots s) (lh_signal s)
          in s\<lparr>lh_slots := h, lh_signal := sig, lh_conns := (lh_conns s)(self_id := None)\<rparr>)"

definition handler_Disconnect_oppo :: "u64 \<Rightarrow> u64 \<Rightarrow> 'c handler \<Rightarrow> 'c handler" where
  "handler_Disconnect_oppo self_id oppo_id s =
     (case lh_oppo_conns s oppo_id of
        None \<Rightarrow> s
      | Some conns \<Rightarrow>
          (case conns self_id of
             None \<Rightarrow> s
           | Some r \<Rightarrow>
               let (_, h, sig) = signal_Disconnect r (lh_slots s) (case lh_signals s oppo_id of Some g \<Rightarrow> g | None \<Rightarrow> [])
               in s\<lparr>lh_slots := h, lh_signals := (lh_signals s)(oppo_id := Some sig),
                    lh_oppo_conns := (lh_oppo_conns s)(oppo_id := Some (conns(self_id := None)))\<rparr>))"

text \<open>\<open>Run\<close>: the callbacks that are called with a message from the given sender.\<close>

definition handler_Run :: "u64 \<Rightarrow> 'c handler \<Rightarrow> 'c list \<times> 'c handler" where
  "handler_Run oppo_id s =
     (let (cs, sig) = signal_call (lh_slots s) (lh_signal s);
          s1 = s\<lparr>lh_signal := sig\<rparr>
      in case lh_signals s1 oppo_id of
           None \<Rightarrow> (cs, s1)
         | Some g \<Rightarrow>
             let (ds, g') = signal_call (lh_slots s1) g
             in (cs @ ds, s1\<lparr>lh_signals := (lh_signals s1)(oppo_id := Some g')\<rparr>))"

section \<open>The dispatcher\<close>

text \<open>
  \<open>msg_listeners_\<close> maps a channel to the handler it shares; a handler carries the message type of its template. A
  listener of a role is registered for a channel, for one sender or for all.
\<close>

record 'c dispatcher =
  dp_shutdown :: bool
  dp_listeners :: "nat hash_map"
  dp_handlers :: "nat \<Rightarrow> string \<times> 'c handler"
  dp_next :: nat

definition new_dispatcher :: "'c \<Rightarrow> 'c dispatcher" where
  "new_dispatcher dflt = \<lparr>dp_shutdown = False, dp_listeners = new_hash_map 128, dp_handlers = (\<lambda>_. ([], new_handler dflt)), dp_next = 0\<rparr>"

definition dispatcher_Shutdown :: "'c dispatcher \<Rightarrow> 'c dispatcher" where
  "dispatcher_Shutdown d = d\<lparr>dp_shutdown := True\<rparr>"

definition HasChannel :: "u64 \<Rightarrow> 'c dispatcher \<Rightarrow> bool" where
  "HasChannel channel_id d = hm_Has (dp_listeners d) channel_id"

text \<open>The handler of a channel, made when there is none; None when it is one of another message type.\<close>

definition get_handler :: "'c \<Rightarrow> string \<Rightarrow> u64 \<Rightarrow> 'c dispatcher \<Rightarrow> (nat \<times> 'c dispatcher) option" where
  "get_handler dflt ty channel_id d =
     (case hm_Get (dp_listeners d) channel_id of
        Some r \<Rightarrow> if fst (dp_handlers d r) = ty then Some (r, d) else None
      | None \<Rightarrow>
          let r = dp_next d
          in Some (r, d\<lparr>dp_handlers := (dp_handlers d)(r := (ty, new_handler dflt)), dp_next := r + 1,
                        dp_listeners := hm_Set (dp_listeners d) channel_id r\<rparr>))"

definition on_handler :: "nat \<Rightarrow> ('c handler \<Rightarrow> 'c handler) \<Rightarrow> 'c dispatcher \<Rightarrow> 'c dispatcher" where
  "on_handler r f d = d\<lparr>dp_handlers := (dp_handlers d)(r := (fst (dp_handlers d r), f (snd (dp_handlers d r))))\<rparr>"

definition AddListener :: "'c \<Rightarrow> string \<Rightarrow> u64 \<Rightarrow> u64 \<Rightarrow> 'c \<Rightarrow> 'c dispatcher \<Rightarrow> 'c dispatcher" where
  "AddListener dflt ty channel_id self_id listener d =
     (if dp_shutdown d then d
      else case get_handler dflt ty channel_id d of
             None \<Rightarrow> d
           | Some (r, d) \<Rightarrow> on_handler r (handler_Connect self_id listener) d)"

definition AddListener_oppo :: "'c \<Rightarrow> string \<Rightarrow> u64 \<Rightarrow> u64 \<Rightarrow> u64 \<Rightarrow> 'c \<Rightarrow> 'c dispatcher \<Rightarrow> 'c dispatcher" where
  "AddListener_oppo dflt ty channel_id self_id oppo_id listener d =
     (if dp_shutdown d then d
      else case get_handler dflt ty channel_id d of
             None \<Rightarrow> d
           | Some (r, d) \<Rightarrow> on_handler r (handler_Connect_oppo self_id oppo_id listener) d)"

definition RemoveListener :: "u64 \<Rightarrow> u64 \<Rightarrow> 'c dispatcher \<Rightarrow> 'c dispatcher" where
  "RemoveListener channel_id self_id d =
     (if dp_shutdown d then d
      else case hm_Get (dp_listeners d) channel_id of
             None \<Rightarrow> d
           | Some r \<Rightarrow> on_handler r (handler_Disconnect self_id) d)"

definition RemoveListener_oppo :: "u64 \<Rightarrow> u64 \<Rightarrow> u64 \<Rightarrow> 'c dispatcher \<Rightarrow> 'c dispatcher" where
  "RemoveListener_oppo channel_id self_id oppo_id d =
     (if dp_shutdown d then d
      else case hm_Get (dp_listeners d) channel_id of
             None \<Rightarrow> d
           | Some r \<Rightarrow> on_handler r (handler_Disconnect_oppo self_id oppo_id) d)"

text \<open>\<open>OnMessage\<close> of a dispatcher: the handler of the channel runs, if there is one of the dispatcher's message type.\<close>

definition OnMessage :: "u64 \<Rightarrow> u64 \<Rightarrow> 'c dispatcher \<Rightarrow> 'c list \<times> 'c dispatcher" where
  "OnMessage channel_id sender d =
     (if dp_shutdown d then ([], d)
      else case hm_Get (dp_listeners d) channel_id of
             None \<Rightarrow> ([], d)
           | Some r \<Rightarrow>
               let (cs, h) = handler_Run sender (snd (dp_handlers d r))
               in (cs, d\<lparr>dp_handlers := (dp_handlers d)(r := (fst (dp_handlers d r), h))\<rparr>))"

section \<open>What a handler holds\<close>

text \<open>The signal of all senders and those of single ones, as one family.\<close>

definition sig_of :: "'c handler \<Rightarrow> u64 option \<Rightarrow> signal" where
  "sig_of s x = (case x of None \<Rightarrow> lh_signal s | Some i \<Rightarrow> (case lh_signals s i of Some g \<Rightarrow> g | None \<Rightarrow> []))"

definition conn_of :: "'c handler \<Rightarrow> u64 option \<Rightarrow> u64 \<Rightarrow> nat option" where
  "conn_of s x i =
     (case x of None \<Rightarrow> lh_conns s i | Some j \<Rightarrow> (case lh_oppo_conns s j of Some m \<Rightarrow> m i | None \<Rightarrow> None))"

definition handler_add :: "u64 option \<Rightarrow> u64 \<Rightarrow> 'c \<Rightarrow> 'c handler \<Rightarrow> 'c handler" where
  "handler_add x i c s = (case x of None \<Rightarrow> handler_Connect i c s | Some j \<Rightarrow> handler_Connect_oppo i j c s)"

definition handler_remove :: "u64 option \<Rightarrow> u64 \<Rightarrow> 'c handler \<Rightarrow> 'c handler" where
  "handler_remove x i s = (case x of None \<Rightarrow> handler_Disconnect i s | Some j \<Rightarrow> handler_Disconnect_oppo i j s)"

lemma handler_add_view:
  "sl_heap (lh_slots (handler_add x i c s)) = (sl_heap (lh_slots s))(sl_next (lh_slots s) := \<lparr>sl_cb = c, sl_connected = True\<rparr>)"
  "sl_next (lh_slots (handler_add x i c s)) = Suc (sl_next (lh_slots s))"
  "sig_of (handler_add x i c s) y = (if y = x then sig_of s x @ [sl_next (lh_slots s)] else sig_of s y)"
  "conn_of (handler_add x i c s) y j = (if y = x \<and> j = i then Some (sl_next (lh_slots s)) else conn_of s y j)"
  by (cases x; simp add: handler_add_def handler_Connect_def handler_Connect_oppo_def signal_Connect_def IsConnected_def Let_def
      sig_of_def conn_of_def split: option.split)+

lemma handler_remove_none: "conn_of s x i = None \<Longrightarrow> handler_remove x i s = s"
  by (cases x) (auto simp: handler_remove_def handler_Disconnect_def handler_Disconnect_oppo_def conn_of_def split: option.splits)

lemma handler_remove_view:
  assumes "conn_of s x i = Some r" "r \<in> set (sig_of s x)"
  shows "lh_slots (handler_remove x i s) = slot_Disconnect r (lh_slots s)"
    "sig_of (handler_remove x i s) y =
      (if y = x then filter (\<lambda>q. q \<noteq> r \<and> sl_connected (sl_heap (lh_slots s) q)) (sig_of s x) else sig_of s y)"
    "conn_of (handler_remove x i s) y j = (if y = x \<and> j = i then None else conn_of s y j)"
proof -
  have f: "filter (\<lambda>q. sl_connected (((sl_heap h)(r := (sl_heap h r)\<lparr>sl_connected := False\<rparr>)) q)) g = filter (\<lambda>q. q \<noteq> r \<and> sl_connected (sl_heap h q)) g"
    for h :: "'a slots" and g by (rule filter_cong) auto
  show "lh_slots (handler_remove x i s) = slot_Disconnect r (lh_slots s)"
    "sig_of (handler_remove x i s) y =
      (if y = x then filter (\<lambda>q. q \<noteq> r \<and> sl_connected (sl_heap (lh_slots s) q)) (sig_of s x) else sig_of s y)"
    "conn_of (handler_remove x i s) y j = (if y = x \<and> j = i then None else conn_of s y j)"
  proof -
    note defs = handler_remove_def handler_Disconnect_def handler_Disconnect_oppo_def signal_Disconnect_def
      slot_Disconnect_def ClearDisconnectedSlots_def Let_def sig_of_def conn_of_def f
    consider "x = None" "lh_conns s i = Some r" "r \<in> set (lh_signal s)"
      | o' m g where "x = Some o'" "lh_oppo_conns s o' = Some m" "m i = Some r" "lh_signals s o' = Some g" "r \<in> set g"
    proof (cases x)
      case (Some o')
      then show ?thesis using assms that(2) [of o'] by (cases "lh_oppo_conns s o'"; cases "lh_signals s o'") (auto simp: sig_of_def conn_of_def)
    qed (use assms that(1) in \<open>simp add: sig_of_def conn_of_def\<close>)
    then have "lh_slots (handler_remove x i s) = slot_Disconnect r (lh_slots s) \<and>
      sig_of (handler_remove x i s) y =
        (if y = x then filter (\<lambda>q. q \<noteq> r \<and> sl_connected (sl_heap (lh_slots s) q)) (sig_of s x) else sig_of s y) \<and>
      conn_of (handler_remove x i s) y j = (if y = x \<and> j = i then None else conn_of s y j)"
    proof cases
      case 1
      then show ?thesis by (cases y) (simp_all add: defs cong: conj_cong)
    next
      case 2
      then show ?thesis by (cases y) (simp_all add: defs cong: conj_cong)
    qed
    then show "lh_slots (handler_remove x i s) = slot_Disconnect r (lh_slots s)"
      "sig_of (handler_remove x i s) y =
        (if y = x then filter (\<lambda>q. q \<noteq> r \<and> sl_connected (sl_heap (lh_slots s) q)) (sig_of s x) else sig_of s y)"
      "conn_of (handler_remove x i s) y j = (if y = x \<and> j = i then None else conn_of s y j)" by blast+
  qed
qed

text \<open>The registrations of a handler: slot, owner and callback, in the order of the signals.\<close>

type_synonym 'c regs = "u64 option \<Rightarrow> (nat \<times> u64 \<times> 'c) list"

definition handler_ok :: "'c handler \<Rightarrow> 'c regs \<Rightarrow> bool" where
  "handler_ok s L \<longleftrightarrow>
     (\<forall>x. sig_of s x = map fst (L x) \<and> distinct (map fst (L x)) \<and> distinct (map (fst \<circ> snd) (L x)) \<and>
        (\<forall>(r, i, c) \<in> set (L x). r < sl_next (lh_slots s) \<and> sl_heap (lh_slots s) r = \<lparr>sl_cb = c, sl_connected = True\<rparr> \<and>
           conn_of s x i = Some r) \<and>
        (\<forall>i r. conn_of s x i = Some r \<longrightarrow> (\<exists>c. (r, i, c) \<in> set (L x)))) \<and>
     (\<forall>x y. x \<noteq> y \<longrightarrow> fst ` set (L x) \<inter> fst ` set (L y) = {})"

lemma handler_okD:
  assumes "handler_ok s L"
  shows "sig_of s x = map fst (L x)" "distinct (map fst (L x))" "distinct (map (fst \<circ> snd) (L x))"
    "(r, i, c) \<in> set (L x) \<Longrightarrow> r < sl_next (lh_slots s)"
    "(r, i, c) \<in> set (L x) \<Longrightarrow> sl_heap (lh_slots s) r = \<lparr>sl_cb = c, sl_connected = True\<rparr>"
    "(r, i, c) \<in> set (L x) \<Longrightarrow> conn_of s x i = Some r"
    "conn_of s x i = Some r \<Longrightarrow> \<exists>c. (r, i, c) \<in> set (L x)"
    "x \<noteq> y \<Longrightarrow> fst ` set (L x) \<inter> fst ` set (L y) = {}"
  using assms unfolding handler_ok_def by (blast, blast, blast, fast, fast, fast, blast, blast)

lemma new_handler_ok: "handler_ok (new_handler dflt) (\<lambda>_. [])"
  by (auto simp: handler_ok_def new_handler_def sig_of_def conn_of_def split: option.split)

lemma handler_add_ok:
  assumes ok: "handler_ok s L" and new: "i \<notin> (fst \<circ> snd) ` set (L x)"
  shows "handler_ok (handler_add x i c s) (L(x := L x @ [(sl_next (lh_slots s), i, c)]))"
proof -
  have lt: "r < sl_next (lh_slots s)" if "(r, j, d) \<in> set (L y)" for r j d y using handler_okD(4) [OF ok that] .
  have fr: "sl_next (lh_slots s) \<notin> fst ` set (L y)" for y using lt by fastforce
  have none: "conn_of s x i = None" using handler_okD(7) [OF ok, of x i] new by (cases "conn_of s x i") force+
  show ?thesis unfolding handler_ok_def
  proof (intro conjI allI impI)
    fix y
    let ?s = "handler_add x i c s" let ?L = "L(x := L x @ [(sl_next (lh_slots s), i, c)])"
    show "sig_of ?s y = map fst (?L y)" using handler_okD(1) [OF ok] by (simp add: handler_add_view)
    show "distinct (map fst (?L y))" using handler_okD(2) [OF ok] fr by simp
    show "distinct (map (fst \<circ> snd) (?L y))" using handler_okD(3) [OF ok] new by simp
    show "\<forall>(r, j, d) \<in> set (?L y). r < sl_next (lh_slots ?s) \<and> sl_heap (lh_slots ?s) r = \<lparr>sl_cb = d, sl_connected = True\<rparr> \<and> conn_of ?s y j = Some r"
      using lt handler_okD(5,6) [OF ok] none by (fastforce simp: handler_add_view split: if_splits)
    show "\<exists>d. (r, j, d) \<in> set (?L y)" if "conn_of ?s y j = Some r" for j r
      using that handler_okD(7) [OF ok, of y j r] by (auto simp: handler_add_view split: if_splits)
    show "fst ` set (?L y) \<inter> fst ` set (?L z) = {}" if "y \<noteq> z" for z
      using handler_okD(8) [OF ok that] fr that by auto
  qed
qed

lemma handler_remove_ok:
  assumes ok: "handler_ok s L"
  shows "handler_ok (handler_remove x i s) (L(x := filter (\<lambda>(r, j, c). j \<noteq> i) (L x)))"
proof (cases "conn_of s x i")
  case None
  then have "filter (\<lambda>(r, j, c). j \<noteq> i) (L x) = L x" using handler_okD(6) [OF ok] by (fastforce simp: filter_id_conv)
  then show ?thesis using None ok by (simp add: handler_remove_none)
next
  case (Some r)
  obtain c where c: "(r, i, c) \<in> set (L x)" using handler_okD(7) [OF ok Some] by blast
  then have rs: "r \<in> set (sig_of s x)" using handler_okD(1) [OF ok, of x] by force
  note V = handler_remove_view [OF Some rs]
  have same: "j = i \<longleftrightarrow> q = r" if "(q, j, d) \<in> set (L x)" for q j d
    using that c handler_okD(6) [OF ok that] Some handler_okD(2) [OF ok, of x] by (fastforce simp: distinct_map inj_on_def)
  have other: "q \<noteq> r" if "(q, j, d) \<in> set (L y)" "y \<noteq> x" for q j d y
    using handler_okD(8) [OF ok that(2)] that(1) c by force
  have F: "map fst (filter (\<lambda>(q, j, d). j \<noteq> i) (L x)) = filter (\<lambda>q. q \<noteq> r \<and> sl_connected (sl_heap (lh_slots s) q)) (map fst (L x))"
    unfolding filter_map by (rule arg_cong [where f = "map fst"], rule filter_cong) (use same handler_okD(5) [OF ok] in fastforce)+
  show ?thesis unfolding handler_ok_def
  proof (intro conjI allI impI)
    fix y
    let ?s = "handler_remove x i s" let ?L = "L(x := filter (\<lambda>(r, j, c). j \<noteq> i) (L x))"
    show "sig_of ?s y = map fst (?L y)" using handler_okD(1) [OF ok] by (simp add: V F)
    show "distinct (map fst (?L y))" using handler_okD(2) [OF ok, of x] handler_okD(2) [OF ok, of y] by (auto simp: distinct_map_filter)
    show "distinct (map (fst \<circ> snd) (?L y))" using handler_okD(3) [OF ok, of x] handler_okD(3) [OF ok, of y] by (auto simp: distinct_map_filter)
    show "\<forall>(q, j, d) \<in> set (?L y). q < sl_next (lh_slots ?s) \<and> sl_heap (lh_slots ?s) q = \<lparr>sl_cb = d, sl_connected = True\<rparr> \<and> conn_of ?s y j = Some q"
      using handler_okD(4-6) [OF ok] same other by (fastforce simp: V slot_Disconnect_def split: if_splits)
    show "\<exists>d. (q, j, d) \<in> set (?L y)" if "conn_of ?s y j = Some q" for j q
      using that handler_okD(7) [OF ok, of y j q] by (auto simp: V split: if_splits)
    show "fst ` set (?L y) \<inter> fst ` set (?L z) = {}" if "y \<noteq> z" for z
      using handler_okD(8) [OF ok that] by (auto split: if_splits)
  qed
qed

lemma all_connected: "handler_ok s L \<Longrightarrow> filter (\<lambda>r. sl_connected (sl_heap (lh_slots s) r)) (map fst (L x)) = map fst (L x)"
  using handler_okD(5) by (fastforce simp: filter_id_conv)

lemma callbacks: "handler_ok s L \<Longrightarrow> map (\<lambda>r. sl_cb (sl_heap (lh_slots s) r)) (map fst (L x)) = map (snd \<circ> snd) (L x)"
  using handler_okD(5) by fastforce

lemma handler_Run_ok:
  assumes "handler_ok s L"
  shows "handler_Run o' s = (map (snd \<circ> snd) (L None) @ map (snd \<circ> snd) (L (Some o')), s)"
proof -
  have c: "signal_call (lh_slots s) (map fst (L x)) = (map (snd \<circ> snd) (L x), map fst (L x))" for x
    by (simp only: signal_call_def ClearDisconnectedSlots_def Let_def all_connected [OF assms] callbacks [OF assms])
  have m: "lh_signal s = map fst (L None)" using handler_okD(1) [OF assms, of None] by (simp add: sig_of_def)
  show ?thesis
  proof (cases "lh_signals s o'")
    case None
    then have "L (Some o') = []" using handler_okD(1) [OF assms, of "Some o'"] by (simp add: sig_of_def)
    then show ?thesis using None m by (simp add: handler_Run_def c)
  next
    case (Some g)
    then have "g = map fst (L (Some o'))" using handler_okD(1) [OF assms, of "Some o'"] by (simp add: sig_of_def)
    then show ?thesis using Some m by (simp add: handler_Run_def c fun_upd_idem)
  qed
qed

section \<open>The dispatcher against its registrations\<close>

datatype 'c dispatch_op =
    D_add u64 string "u64 option" u64 'c    \<comment> \<open>channel, message type, sender, owner, callback\<close>
  | D_remove u64 "u64 option" u64
  | D_message u64 u64

fun dispatch_do :: "'c \<Rightarrow> 'c dispatch_op \<Rightarrow> 'c dispatcher \<Rightarrow> 'c dispatcher" where
  "dispatch_do dflt (D_add ch ty x i c) d =
     (case x of None \<Rightarrow> AddListener dflt ty ch i c d | Some j \<Rightarrow> AddListener_oppo dflt ty ch i j c d)"
| "dispatch_do dflt (D_remove ch x i) d = (case x of None \<Rightarrow> RemoveListener ch i d | Some j \<Rightarrow> RemoveListener_oppo ch i j d)"
| "dispatch_do dflt (D_message ch sender) d = snd (OnMessage ch sender d)"

text \<open>The specification: for each channel its message type and, for each sender or all, its owners' callbacks in order.\<close>

type_synonym 'c registry = "u64 \<Rightarrow> (string \<times> (u64 option \<Rightarrow> (u64 \<times> 'c) list)) option"

fun registry_do :: "'c dispatch_op \<Rightarrow> 'c registry \<Rightarrow> 'c registry" where
  "registry_do (D_add ch ty x i c) R =
     (case R ch of
        None \<Rightarrow> R(ch := Some (ty, (\<lambda>_. [])(x := [(i, c)])))
      | Some (ty', f) \<Rightarrow> if ty' = ty then R(ch := Some (ty', f(x := f x @ [(i, c)]))) else R)"
| "registry_do (D_remove ch x i) R =
     (case R ch of None \<Rightarrow> R | Some (ty, f) \<Rightarrow> R(ch := Some (ty, f(x := filter (\<lambda>(j, c). j \<noteq> i) (f x)))))"
| "registry_do (D_message ch sender) R = R"

definition registered :: "'c registry \<Rightarrow> u64 \<Rightarrow> u64 option \<Rightarrow> (u64 \<times> 'c) list" where
  "registered R ch x = (case R ch of None \<Rightarrow> [] | Some (ty, f) \<Rightarrow> f x)"

text \<open>No owner is registered twice for the same sender of a channel.\<close>

fun no_double :: "'c dispatch_op list \<Rightarrow> 'c registry \<Rightarrow> bool" where
  "no_double [] R \<longleftrightarrow> True"
| "no_double (D_add ch ty x i c # ops) R \<longleftrightarrow> i \<notin> fst ` set (registered R ch x) \<and> no_double ops (registry_do (D_add ch ty x i c) R)"
| "no_double (e # ops) R \<longleftrightarrow> no_double ops (registry_do e R)"

text \<open>The handler of every channel holds the registrations of the specification.\<close>

definition dispatcher_ok :: "'c dispatcher \<Rightarrow> 'c registry \<Rightarrow> bool" where
  "dispatcher_ok d R \<longleftrightarrow>
     hm_ok (dp_listeners d) \<and> \<not> dp_shutdown d \<and>
     (\<forall>ch. (hm_Get (dp_listeners d) ch = None \<longleftrightarrow> R ch = None)) \<and>
     (\<forall>ch r. hm_Get (dp_listeners d) ch = Some r \<longrightarrow> r < dp_next d \<and>
        (\<exists>L. handler_ok (snd (dp_handlers d r)) L \<and> R ch = Some (fst (dp_handlers d r), \<lambda>x. map snd (L x)))) \<and>
     (\<forall>ch ch' r. hm_Get (dp_listeners d) ch = Some r \<and> hm_Get (dp_listeners d) ch' = Some r \<longrightarrow> ch = ch')"

lemma dispatcher_okD:
  assumes "dispatcher_ok d R"
  shows "hm_ok (dp_listeners d)" "\<not> dp_shutdown d" "hm_Get (dp_listeners d) ch = None \<longleftrightarrow> R ch = None"
    "hm_Get (dp_listeners d) ch = Some r \<Longrightarrow> r < dp_next d"
    "hm_Get (dp_listeners d) ch = Some r \<Longrightarrow>
       \<exists>L. handler_ok (snd (dp_handlers d r)) L \<and> R ch = Some (fst (dp_handlers d r), \<lambda>x. map snd (L x))"
    "hm_Get (dp_listeners d) ch = Some r \<Longrightarrow> hm_Get (dp_listeners d) ch' = Some r \<Longrightarrow> ch = ch'"
  using assms unfolding dispatcher_ok_def by blast+

lemma dispatcher_okI:
  assumes "hm_ok (dp_listeners d)" "\<not> dp_shutdown d" "\<And>ch. hm_Get (dp_listeners d) ch = None \<longleftrightarrow> R ch = None"
    "\<And>ch r. hm_Get (dp_listeners d) ch = Some r \<Longrightarrow> r < dp_next d"
    "\<And>ch r. hm_Get (dp_listeners d) ch = Some r \<Longrightarrow>
       \<exists>L. handler_ok (snd (dp_handlers d r)) L \<and> R ch = Some (fst (dp_handlers d r), \<lambda>x. map snd (L x))"
    "\<And>ch ch' r. hm_Get (dp_listeners d) ch = Some r \<Longrightarrow> hm_Get (dp_listeners d) ch' = Some r \<Longrightarrow> ch = ch'"
  shows "dispatcher_ok d R"
  using assms unfolding dispatcher_ok_def by blast

lemma new_dispatcher_ok: "dispatcher_ok (new_dispatcher dflt) (\<lambda>_. None)"
proof -
  have ok: "hm_ok (new_hash_map 128 :: nat hash_map)" using new_hash_map_ok [of 7] by simp
  have "hm_Get (new_hash_map 128 :: nat hash_map) ch = None" for ch :: u64
    using hm_index_less [OF ok, of ch] unfolding hm_Get_def by (simp add: new_hash_map_def del: One_nat_def)
  then show ?thesis using ok by (simp add: dispatcher_ok_def new_dispatcher_def)
qed

text \<open>An operation on the handler of one channel.\<close>

lemma on_handler_ok:
  assumes ok: "dispatcher_ok d R" and r: "hm_Get (dp_listeners d) ch = Some r"
    and h: "\<And>L. handler_ok (snd (dp_handlers d r)) L \<Longrightarrow> R ch = Some (fst (dp_handlers d r), \<lambda>x. map snd (L x)) \<Longrightarrow>
       \<exists>L'. handler_ok (g (snd (dp_handlers d r))) L' \<and> Q = Some (fst (dp_handlers d r), \<lambda>x. map snd (L' x))"
  shows "dispatcher_ok (on_handler r g d) (R(ch := Q))"
proof -
  note D = dispatcher_okD [OF ok]
  obtain L where L: "handler_ok (snd (dp_handlers d r)) L" "R ch = Some (fst (dp_handlers d r), \<lambda>x. map snd (L x))"
    using D(5) [OF r] by blast
  obtain L' where L': "handler_ok (g (snd (dp_handlers d r))) L'" "Q = Some (fst (dp_handlers d r), \<lambda>x. map snd (L' x))"
    using h [OF L] by blast
  show ?thesis
  proof (rule dispatcher_okI)
    fix c
    show "hm_Get (dp_listeners (on_handler r g d)) c = None \<longleftrightarrow> (R(ch := Q)) c = None" using D(3) [of c] r L(2) L'(2) by (auto simp: on_handler_def)
  next
    fix c q assume q: "hm_Get (dp_listeners (on_handler r g d)) c = Some q"
    then have q': "hm_Get (dp_listeners d) c = Some q" by (simp add: on_handler_def)
    show "\<exists>L. handler_ok (snd (dp_handlers (on_handler r g d) q)) L \<and> (R(ch := Q)) c = Some (fst (dp_handlers (on_handler r g d) q), \<lambda>x. map snd (L x))"
    proof (cases "c = ch")
      case True
      then show ?thesis using L' q' r by (auto simp: on_handler_def)
    next
      case False
      then have "q \<noteq> r" using D(6) [OF q'] r by blast
      then show ?thesis using D(5) [OF q'] False by (simp add: on_handler_def)
    qed
  qed (use D(1,2,4,6) in \<open>simp_all add: on_handler_def\<close>)
qed

lemma get_handler_ok:
  assumes ok: "dispatcher_ok d R" and g: "get_handler dflt ty ch d = Some (r, d')"
  shows "dispatcher_ok d' (R(ch := Some (ty, case R ch of None \<Rightarrow> (\<lambda>_. []) | Some (t, f) \<Rightarrow> f))) \<and> hm_Get (dp_listeners d') ch = Some r \<and>
    fst (dp_handlers d' r) = ty \<and> (\<forall>t f. R ch = Some (t, f) \<longrightarrow> t = ty)"
proof (cases "hm_Get (dp_listeners d) ch")
  case None
  then have d': "r = dp_next d" "d' = d\<lparr>dp_handlers := (dp_handlers d)(r := (ty, new_handler dflt)), dp_next := r + 1,
      dp_listeners := hm_Set (dp_listeners d) ch r\<rparr>" using g None by (auto simp: get_handler_def Let_def)
  note D = dispatcher_okD [OF ok]
  have R: "R ch = None" using D(3) None by blast
  have L0: "\<exists>L. handler_ok (new_handler dflt) L \<and> (\<lambda>_ :: u64 option. []) = (\<lambda>x. map snd (L x))"
    using new_handler_ok by (intro exI [of _ "\<lambda>_. []"]) simp
  have "dispatcher_ok d' (R(ch := Some (ty, \<lambda>_. [])))"
  proof (rule dispatcher_okI)
    show "hm_ok (dp_listeners d')" using hm_Set_ok [OF D(1)] d' by simp
    show "\<not> dp_shutdown d'" using D(2) d' by simp
    fix c
    show "hm_Get (dp_listeners d') c = None \<longleftrightarrow> (R(ch := Some (ty, \<lambda>_. []))) c = None"
      using D(3) [of c] d' by (simp add: hm_Get_Set [OF D(1)])
  next
    fix c q assume q: "hm_Get (dp_listeners d') c = Some q"
    then have q': "if c = ch then q = r else hm_Get (dp_listeners d) c = Some q" using d' by (simp add: hm_Get_Set [OF D(1)] split: if_splits)
    then show lt: "q < dp_next d'" using D(4) [of c q] d' by (auto split: if_splits)
    show "\<exists>L. handler_ok (snd (dp_handlers d' q)) L \<and> (R(ch := Some (ty, \<lambda>_. []))) c = Some (fst (dp_handlers d' q), \<lambda>x. map snd (L x))"
    proof (cases "c = ch")
      case True
      then show ?thesis using q' d' L0 by simp
    next
      case False
      then have "hm_Get (dp_listeners d) c = Some q" using q' by simp
      then show ?thesis using D(4,5) [of c q] d' False by fastforce
    qed
    fix c' assume "hm_Get (dp_listeners d') c' = Some q"
    then have "if c' = ch then q = r else hm_Get (dp_listeners d) c' = Some q" using d' by (simp add: hm_Get_Set [OF D(1)] split: if_splits)
    then show "c = c'" using q' D(6) [of c q c'] D(4) [of c q] D(4) [of c' q] d'(1) by (auto split: if_splits)
  qed
  then show ?thesis using R d' by (simp add: hm_Get_Set [OF D(1)])
next
  case (Some q)
  then have d': "q = r" "d' = d" "fst (dp_handlers d r) = ty" using g by (auto simp: get_handler_def split: if_splits)
  have "hm_Get (dp_listeners d) ch = Some r" using Some d'(1) by simp
  from dispatcher_okD(5) [OF ok this] obtain L :: "u64 option \<Rightarrow> (nat \<times> u64 \<times> 'a) list"
    where L: "R ch = Some (ty, \<lambda>x. map snd (L x))" unfolding d'(3) by blast
  then have "R(ch := Some (ty, case R ch of None \<Rightarrow> (\<lambda>_. []) | Some (t, f) \<Rightarrow> f)) = R" by auto
  then show ?thesis using ok Some d' L by simp
qed

lemma get_handler_none:
  assumes ok: "dispatcher_ok d R" and g: "get_handler dflt ty ch d = None"
  shows "\<exists>t f. R ch = Some (t, f) \<and> t \<noteq> ty"
proof -
  obtain r where r: "hm_Get (dp_listeners d) ch = Some r" "fst (dp_handlers d r) \<noteq> ty"
    using g by (auto simp: get_handler_def Let_def split: option.splits if_splits)
  then show ?thesis using ok unfolding dispatcher_ok_def by blast
qed

lemma add_on_registry:
  assumes ok: "dispatcher_ok d R" and new: "i \<notin> fst ` set (registered R ch x)"
  shows "dispatcher_ok (dispatch_do dflt (D_add ch ty x i c) d) (registry_do (D_add ch ty x i c) R)"
proof -
  have run: "\<not> dp_shutdown d" using ok by (simp add: dispatcher_ok_def)
  show ?thesis
  proof (cases "get_handler dflt ty ch d")
    case None
    then have "dispatch_do dflt (D_add ch ty x i c) d = d" using run
      by (cases x) (simp_all add: AddListener_def AddListener_oppo_def)
    moreover have "registry_do (D_add ch ty x i c) R = R" using get_handler_none [OF ok None] by auto
    ultimately show ?thesis using ok by simp
  next
    case (Some p)
    then obtain r d' where g: "get_handler dflt ty ch d = Some (r, d')" by (cases p) auto
    have D: "dispatch_do dflt (D_add ch ty x i c) d = on_handler r (handler_add x i c) d'" using run g
      by (cases x) (simp_all add: AddListener_def AddListener_oppo_def handler_add_def on_handler_def)
    let ?f = "case R ch of None \<Rightarrow> (\<lambda>_. []) | Some (t, f) \<Rightarrow> f"
    note G = get_handler_ok [OF ok g]
    then have G1: "dispatcher_ok d' (R(ch := Some (ty, ?f)))" "hm_Get (dp_listeners d') ch = Some r" by blast+
    have f: "registered R ch x = ?f x" by (simp add: registered_def split: option.split)
    have "dispatcher_ok (on_handler r (handler_add x i c) d') ((R(ch := Some (ty, ?f)))(ch := Some (ty, ?f(x := ?f x @ [(i, c)]))))"
    proof (rule on_handler_ok [OF G1])
      fix L assume L: "handler_ok (snd (dp_handlers d' r)) L"
        "(R(ch := Some (ty, ?f))) ch = Some (fst (dp_handlers d' r), \<lambda>x. map snd (L x))"
      then have fe: "?f = (\<lambda>x. map snd (L x))" "fst (dp_handlers d' r) = ty" by auto
      then have "i \<notin> (fst \<circ> snd) ` set (L x)" using new unfolding f by (auto simp: image_image)
      from handler_add_ok [OF L(1) this] fe show "\<exists>L'. handler_ok (handler_add x i c (snd (dp_handlers d' r))) L' \<and>
          Some (ty, ?f(x := ?f x @ [(i, c)])) = Some (fst (dp_handlers d' r), \<lambda>x. map snd (L' x))" by fastforce
    qed
    moreover have "registry_do (D_add ch ty x i c) R = (R(ch := Some (ty, ?f)))(ch := Some (ty, ?f(x := ?f x @ [(i, c)])))"
      using G by (auto split: option.split)
    ultimately show ?thesis using D by simp
  qed
qed

lemma remove_on_registry:
  assumes ok: "dispatcher_ok d R"
  shows "dispatcher_ok (dispatch_do dflt (D_remove ch x i) d) (registry_do (D_remove ch x i) R)"
proof (cases "hm_Get (dp_listeners d) ch")
  case None
  then have "R ch = None" using ok unfolding dispatcher_ok_def by blast
  then show ?thesis using None ok by (cases x) (simp_all add: RemoveListener_def RemoveListener_oppo_def)
next
  case (Some r)
  have D: "dispatch_do dflt (D_remove ch x i) d = on_handler r (handler_remove x i) d" using ok Some
    by (cases x) (simp_all add: RemoveListener_def RemoveListener_oppo_def handler_remove_def on_handler_def dispatcher_ok_def)
  obtain ty f where R: "R ch = Some (ty, f)" using ok Some unfolding dispatcher_ok_def by blast
  have "dispatcher_ok (on_handler r (handler_remove x i) d) (R(ch := Some (ty, f(x := filter (\<lambda>(j, c). j \<noteq> i) (f x)))))"
  proof (rule on_handler_ok [OF ok Some])
    fix L assume L: "handler_ok (snd (dp_handlers d r)) L" "R ch = Some (fst (dp_handlers d r), \<lambda>x. map snd (L x))"
    have "map snd (filter (\<lambda>(q, j, c). j \<noteq> i) (L x)) = filter (\<lambda>(j, c). j \<noteq> i) (map snd (L x))"
      by (simp add: filter_map case_prod_unfold comp_def)
    then show "\<exists>L'. handler_ok (handler_remove x i (snd (dp_handlers d r))) L' \<and>
        Some (ty, f(x := filter (\<lambda>(j, c). j \<noteq> i) (f x))) = Some (fst (dp_handlers d r), \<lambda>x. map snd (L' x))"
      using handler_remove_ok [OF L(1), of x i] L(2) R by (intro exI [of _ "L(x := filter (\<lambda>(q, j, c). j \<noteq> i) (L x))"]) auto
  qed
  then show ?thesis using D R by simp
qed

lemma message_on_registry:
  assumes ok: "dispatcher_ok d R"
  shows "OnMessage ch sender d = (map snd (registered R ch None) @ map snd (registered R ch (Some sender)), d)"
proof (cases "hm_Get (dp_listeners d) ch")
  case None
  then have "R ch = None" using dispatcher_okD(3) [OF ok] by blast
  then show ?thesis using None dispatcher_okD(2) [OF ok] by (simp add: OnMessage_def registered_def)
next
  case (Some r)
  obtain L where L: "handler_ok (snd (dp_handlers d r)) L" "R ch = Some (fst (dp_handlers d r), \<lambda>x. map snd (L x))"
    using ok Some unfolding dispatcher_ok_def by blast
  have "\<not> dp_shutdown d" using ok by (simp add: dispatcher_ok_def)
  then show ?thesis using Some L(2) by (simp add: OnMessage_def handler_Run_ok [OF L(1)] registered_def fun_upd_idem)
qed

lemma dispatch_run_ok:
  "dispatcher_ok d R \<Longrightarrow> no_double ops R \<Longrightarrow> dispatcher_ok (fold (dispatch_do dflt) ops d) (fold registry_do ops R)"
proof (induction ops arbitrary: d R)
  case (Cons e ops)
  have "dispatcher_ok (dispatch_do dflt e d) (registry_do e R) \<and> no_double ops (registry_do e R)"
  proof (cases e)
    case (D_add ch ty x i c)
    then show ?thesis using Cons.prems add_on_registry [OF Cons.prems(1), of i ch x dflt ty c] by simp
  next
    case (D_remove ch x i)
    then show ?thesis using Cons.prems remove_on_registry [OF Cons.prems(1), of dflt ch x i] by simp
  next
    case (D_message ch sender)
    then show ?thesis using Cons.prems message_on_registry [OF Cons.prems(1), of ch sender] by simp
  qed
  then show ?case using Cons.IH by simp
qed simp

text \<open>
  Property C27. Whatever listeners were added and removed, none twice for the same owner, a message on a channel
  calls exactly the listeners registered for the channel and all senders and then those registered for its
  sender, each once, in the order they were added; a listener of another message type than the first is not registered.
\<close>

theorem dispatcher_calls_registered:
  assumes "no_double ops (\<lambda>_. None)"
  shows "fst (OnMessage ch sender (fold (dispatch_do dflt) ops (new_dispatcher dflt))) =
    (let R = fold registry_do ops (\<lambda>_. None) in map snd (registered R ch None) @ map snd (registered R ch (Some sender)))"
  using message_on_registry [OF dispatch_run_ok [OF new_dispatcher_ok assms]] by (simp add: Let_def)

theorem dispatcher_calls_registered_witness:
  "fst (OnMessage 7 5 (fold (dispatch_do 0) [D_add 7 ''A'' None 1 (10 :: nat), D_add 7 ''A'' (Some 5) 2 20, D_add 7 ''B'' None 3 30,
     D_add 7 ''A'' None 4 40, D_remove 7 None 1] (new_dispatcher 0))) = [40, 20]"
  by (subst dispatcher_calls_registered) (simp_all add: registered_def Let_def)

text \<open>
  An owner that is registered twice: its connection is overwritten, so that removing it leaves the first
  listener, which no call reaches any more.
\<close>

theorem double_listener_stays:
  "fst (OnMessage ch sender (RemoveListener ch i (RemoveListener ch i
     (AddListener dflt ty ch i c2 (AddListener dflt ty ch i c1 (new_dispatcher dflt)))))) = [c1]"
proof -
  let ?h = "handler_Disconnect i (handler_Disconnect i (handler_Connect i c2 (handler_Connect i c1 (new_handler dflt))))"
  have h: "fst (handler_Run sender ?h) = [c1]"
    by (simp add: handler_Run_def handler_Disconnect_def handler_Connect_def signal_Connect_def signal_Disconnect_def new_handler_def
        IsConnected_def slot_Disconnect_def ClearDisconnectedSlots_def signal_call_def Let_def)
  have g: "get_handler dflt ty ch (new_dispatcher dflt) = Some (0, (new_dispatcher dflt)\<lparr>dp_handlers := (\<lambda>_. ([], new_handler dflt))(0 := (ty, new_handler dflt)),
      dp_next := 1, dp_listeners := hm_Set (new_hash_map 128) ch 0\<rparr>)"
    and nd: "hm_Get (new_hash_map 128 :: nat hash_map) ch = None"
  proof -
    show nd: "hm_Get (new_hash_map 128 :: nat hash_map) ch = None" using new_dispatcher_ok [of dflt] unfolding dispatcher_ok_def
      by (simp add: new_dispatcher_def)
    show "get_handler dflt ty ch (new_dispatcher dflt) = Some (0, (new_dispatcher dflt)\<lparr>dp_handlers := (\<lambda>_. ([], new_handler dflt))(0 := (ty, new_handler dflt)),
      dp_next := 1, dp_listeners := hm_Set (new_hash_map 128) ch 0\<rparr>)"
      using nd by (simp add: get_handler_def new_dispatcher_def Let_def)
  qed
  have ok: "hm_ok (new_hash_map 128 :: nat hash_map)" using new_hash_map_ok [of 7] by simp
  show ?thesis using h
    by (simp add: AddListener_def g) (simp add: get_handler_def RemoveListener_def OnMessage_def on_handler_def hm_Get_Set [OF ok]
        new_dispatcher_def case_prod_unfold Let_def)
qed

end
