(* ===== verification/ShmDispatcher.thy ===== *)
theory ShmDispatcher
  imports ShmTransport ShmNotifier Listeners
begin

text \<open>
  The shared-memory transmitter and dispatcher (\<open>cyber/transport/transmitter/shm_transmitter.h\<close>,
  \<open>dispatcher/shm_dispatcher.cc\<close>), which put the segment, the notifier and the listeners together: a
  message goes through a block, its place through the ring, and the thread of the dispatcher hands it to the
  listeners of its channel. Serialisation and parsing of messages are given: a message is its bytes, and
  a listener comes with the parser of its message type. Callbacks do not call back into the dispatcher.
\<close>

section \<open>The transmitter\<close>

text \<open>The segment and the notifier are there while the transmitter is enabled.\<close>

record shm_transmitter =
  tx_enabled :: bool
  tx_segment :: "segment option"
  tx_channel :: u64
  tx_host :: u64

definition new_shm_transmitter :: "u64 \<Rightarrow> u64 \<Rightarrow> shm_transmitter" where
  "new_shm_transmitter channel_id host_id = \<lparr>tx_enabled = False, tx_segment = None, tx_channel = channel_id, tx_host = host_id\<rparr>"

definition tx_Enable :: "shm_transmitter \<Rightarrow> shm_transmitter" where
  "tx_Enable t = (if tx_enabled t then t else t\<lparr>tx_segment := Some (new_segment (tx_channel t)), tx_enabled := True\<rparr>)"

text \<open>The segment is destroyed with its last owner.\<close>

definition tx_Disable :: "shm_transmitter \<Rightarrow> shm_os \<Rightarrow> shm_error + shm_transmitter \<times> shm_os" where
  "tx_Disable t w =
     (if \<not> tx_enabled t then Inr (t, w)
      else case tx_segment t of
             None \<Rightarrow> Inr (t\<lparr>tx_enabled := False\<rparr>, w)
           | Some g \<Rightarrow>
               (case Segment_Destroy g w of
                  Inl e \<Rightarrow> Inl e
                | Inr (_, _, w) \<Rightarrow> Inr (t\<lparr>tx_segment := None, tx_enabled := False\<rparr>, w)))"

text \<open>\<open>Transmit\<close>: the block is written, then its index is notified.\<close>

definition tx_Transmit :: "(nat \<Rightarrow> os_faults) \<Rightarrow> bool \<Rightarrow> bool \<Rightarrow> byte list \<Rightarrow> message_info \<Rightarrow>
    shm_transmitter \<Rightarrow> indicator \<Rightarrow> shm_os \<Rightarrow> shm_error + bool \<times> shm_transmitter \<times> indicator \<times> shm_os" where
  "tx_Transmit f ser_ok nt_shutdown msg info t m w =
     (if \<not> tx_enabled t then Inr (False, t, m, w)
      else case tx_segment t of
             None \<Rightarrow> Inl Null_pointer
           | Some g \<Rightarrow>
               (case Shm_Transmit f ser_ok msg info g w of
                  Inl e \<Rightarrow> Inl e
                | Inr (None, g, w) \<Rightarrow> Inr (False, t\<lparr>tx_segment := Some g\<rparr>, m, w)
                | Inr (Some k, g, w) \<Rightarrow>
                    let (ok, m) = Notify nt_shutdown \<lparr>ri_host = tx_host t, ri_block = of_nat k, ri_channel = tx_channel t\<rparr> m
                    in Inr (ok, t\<lparr>tx_segment := Some g\<rparr>, m, w)))"

section \<open>The dispatcher\<close>

text \<open>A listener: the parser of its message type and what is called with the message it made.\<close>

type_synonym ('m, 'l) adapter = "(byte list \<Rightarrow> 'm option) \<times> 'l"

record ('m, 'l) shm_dispatcher =
  sd_base :: "('m, 'l) adapter dispatcher"
  sd_host :: u64
  sd_segments :: "u64 \<Rightarrow> segment option"
  sd_previous :: "u64 \<Rightarrow> u32 option"
  sd_next_seq :: u64

definition new_shm_dispatcher :: "('m, 'l) adapter \<Rightarrow> u64 \<Rightarrow> indicator \<Rightarrow> ('m, 'l) shm_dispatcher" where
  "new_shm_dispatcher dflt host m =
     \<lparr>sd_base = new_dispatcher dflt, sd_host = host, sd_segments = (\<lambda>_. None), sd_previous = (\<lambda>_. None), sd_next_seq = next_seq m\<rparr>"

definition AddSegment :: "u64 \<Rightarrow> ('m, 'l) shm_dispatcher \<Rightarrow> ('m, 'l) shm_dispatcher" where
  "AddSegment channel_id d =
     (if sd_segments d channel_id \<noteq> None then d
      else d\<lparr>sd_segments := (sd_segments d)(channel_id := Some (new_segment channel_id)),
             sd_previous := (sd_previous d)(channel_id := Some (- 1))\<rparr>)"

text \<open>Both overloads of \<open>AddListener\<close>; every handler is one of readable blocks.\<close>

definition sd_AddListener :: "('m, 'l) adapter \<Rightarrow> u64 \<Rightarrow> u64 \<Rightarrow> ('m, 'l) adapter \<Rightarrow> ('m, 'l) shm_dispatcher \<Rightarrow> ('m, 'l) shm_dispatcher" where
  "sd_AddListener dflt channel_id self_id listener d =
     AddSegment channel_id (d\<lparr>sd_base := AddListener dflt ''ReadableBlock'' channel_id self_id listener (sd_base d)\<rparr>)"

definition sd_AddListener_oppo :: "('m, 'l) adapter \<Rightarrow> u64 \<Rightarrow> u64 \<Rightarrow> u64 \<Rightarrow> ('m, 'l) adapter \<Rightarrow> ('m, 'l) shm_dispatcher \<Rightarrow> ('m, 'l) shm_dispatcher" where
  "sd_AddListener_oppo dflt channel_id self_id oppo_id listener d =
     AddSegment channel_id (d\<lparr>sd_base := AddListener_oppo dflt ''ReadableBlock'' channel_id self_id oppo_id listener (sd_base d)\<rparr>)"

text \<open>The adapter of a listener: a block that does not parse is passed over.\<close>

fun run_adapters :: "byte list \<Rightarrow> message_info \<Rightarrow> ('m, 'l) adapter list \<Rightarrow> ('l \<times> 'm \<times> message_info) list" where
  "run_adapters bs info [] = []"
| "run_adapters bs info ((parse, l) # cs) =
     (case parse bs of None \<Rightarrow> run_adapters bs info cs | Some m \<Rightarrow> (l, m, info) # run_adapters bs info cs)"

definition sd_ReadMessage :: "(byte list \<Rightarrow> u64) \<Rightarrow> (nat \<Rightarrow> os_faults) \<Rightarrow> u64 \<Rightarrow> u32 \<Rightarrow> ('m, 'l) shm_dispatcher \<Rightarrow> shm_os \<Rightarrow>
    shm_error + ('l \<times> 'm \<times> message_info) list \<times> ('m, 'l) shm_dispatcher \<times> shm_os" where
  "sd_ReadMessage h f channel_id block_index d w =
     (case sd_segments d channel_id of
        None \<Rightarrow> Inl Null_pointer
      | Some g \<Rightarrow>
          (case Shm_ReadMessage h f (unat block_index) g w of
             Inl e \<Rightarrow> Inl e
           | Inr (None, g, w) \<Rightarrow> Inr ([], d\<lparr>sd_segments := (sd_segments d)(channel_id := Some g)\<rparr>, w)
           | Inr (Some (msg, info), g, w) \<Rightarrow>
               let (cs, b) = OnMessage channel_id (id_hash (mi_sender info)) (sd_base d)
               in Inr (run_adapters msg info cs, d\<lparr>sd_base := b, sd_segments := (sd_segments d)(channel_id := Some g)\<rparr>, w)))"

text \<open>
  One round of \<open>ThreadFunc\<close>, with the rings its \<open>Listen\<close> sees; what the comparison with the
  previous index writes to the log is left out.
\<close>

definition ThreadFunc_round :: "(byte list \<Rightarrow> u64) \<Rightarrow> (nat \<Rightarrow> os_faults) \<Rightarrow> bool \<Rightarrow> (int \<Rightarrow> bool \<times> indicator) \<Rightarrow>
    ('m, 'l) shm_dispatcher \<Rightarrow> shm_os \<Rightarrow> shm_error + ('l \<times> 'm \<times> message_info) list \<times> ('m, 'l) shm_dispatcher \<times> shm_os" where
  "ThreadFunc_round h f nt_shutdown rings d w =
     (case Listen nt_shutdown rings 100 (sd_next_seq d) of
        (None, n) \<Rightarrow> Inr ([], d\<lparr>sd_next_seq := n\<rparr>, w)
      | (Some info, n) \<Rightarrow>
          let d = d\<lparr>sd_next_seq := n\<rparr>
          in if ri_host info \<noteq> sd_host d then Inr ([], d, w)
             else if sd_segments d (ri_channel info) = None then Inr ([], d, w)
             else sd_ReadMessage h f (ri_channel info) (ri_block info)
                    (d\<lparr>sd_previous := (sd_previous d)(ri_channel info := Some (ri_block info))\<rparr>) w)"

text \<open>The loop for as many rounds as are given, each with what other threads and processes do before it.\<close>

fun ThreadFunc :: "(byte list \<Rightarrow> u64) \<Rightarrow>
    ((nat \<Rightarrow> os_faults) \<times> bool \<times> (int \<Rightarrow> bool \<times> indicator) \<times> (('m, 'l) shm_dispatcher \<times> shm_os \<Rightarrow> ('m, 'l) shm_dispatcher \<times> shm_os)) list \<Rightarrow>
    ('m, 'l) shm_dispatcher \<Rightarrow> shm_os \<Rightarrow> shm_error + ('l \<times> 'm \<times> message_info) list \<times> ('m, 'l) shm_dispatcher \<times> shm_os" where
  "ThreadFunc h [] d w = Inr ([], d, w)"
| "ThreadFunc h ((f, nt_shutdown, rings, others) # rounds) d w =
     (let (d, w) = others (d, w)
      in if dp_shutdown (sd_base d) then Inr ([], d, w)
         else case ThreadFunc_round h f nt_shutdown rings d w of
                Inl e \<Rightarrow> Inl e
              | Inr (out, d, w) \<Rightarrow>
                  (case ThreadFunc h rounds d w of Inl e \<Rightarrow> Inl e | Inr (outs, d, w) \<Rightarrow> Inr (out @ outs, d, w)))"

definition sd_Shutdown :: "('m, 'l) shm_dispatcher \<Rightarrow> ('m, 'l) shm_dispatcher" where
  "sd_Shutdown d =
     (if dp_shutdown (sd_base d) then d else d\<lparr>sd_base := dispatcher_Shutdown (sd_base d), sd_segments := (\<lambda>_. None)\<rparr>)"

section \<open>From a transmitter to the listeners\<close>

text \<open>A notification stays in the ring while fewer others than the ring has places follow it.\<close>

definition Notify_all :: "readable_info list \<Rightarrow> indicator \<Rightarrow> indicator" where
  "Notify_all later m = fold (\<lambda>i m. snd (Notify False i m)) later m"

lemma slot_add: "slot (q + of_nat n) = (unat q + n) mod kBufLength"
  by (simp add: slot_def unat_word_ariths unat_of_nat kBufLength_def mod_mod_cancel mod_simps)

lemma Notify_later:
  assumes "next_seq m = q + of_nat n" "0 < n" "n < kBufLength"
  shows "next_seq (snd (Notify False i m)) = q + of_nat (Suc n) \<and>
    infos (snd (Notify False i m)) (slot q) = infos m (slot q) \<and> seqs (snd (Notify False i m)) (slot q) = seqs m (slot q)"
proof -
  have "unat q mod kBufLength \<noteq> (unat q + n) mod kBufLength" by (rule mod_distinct_window) (use assms in simp_all)
  then have "slot q \<noteq> slot (q + of_nat n)" unfolding slot_add by (simp add: slot_def)
  then show ?thesis using assms(1) by (simp add: Notify_def Let_def algebra_simps)
qed

lemma Notify_all_later:
  "next_seq m = q + of_nat n \<Longrightarrow> 0 < n \<Longrightarrow> n + length later \<le> kBufLength \<Longrightarrow>
   next_seq (Notify_all later m) = q + of_nat (n + length later) \<and>
   infos (Notify_all later m) (slot q) = infos m (slot q) \<and> seqs (Notify_all later m) (slot q) = seqs m (slot q)"
proof (induction later arbitrary: m n)
  case (Cons i later)
  show ?case using Cons.IH [of "snd (Notify False i m)" "Suc n"] Notify_later [of m q n i] Cons.prems
    by (simp add: Notify_all_def)
qed (simp add: Notify_all_def)

lemma Listen_hears:
  assumes "length later < kBufLength"
  shows "Listen False (\<lambda>_. (False, Notify_all later (snd (Notify False info m)))) timeout_ms (next_seq m) = (Some info, next_seq m + 1)"
proof -
  let ?m1 = "snd (Notify False info m)" let ?m2 = "Notify_all later ?m1"
  have 1: "next_seq ?m1 = next_seq m + of_nat 1" "infos ?m1 (slot (next_seq m)) = info" "seqs ?m1 (slot (next_seq m)) = next_seq m"
    by (simp_all add: Notify_def Let_def)
  from Notify_all_later [OF 1(1)] assms
  have 2: "next_seq ?m2 = next_seq m + of_nat (Suc (length later))" "infos ?m2 (slot (next_seq m)) = info"
    "seqs ?m2 (slot (next_seq m)) = next_seq m" using 1(2,3) by simp_all
  have "(of_nat (Suc (length later)) :: u64) \<noteq> 0" using assms unat_small [of "Suc (length later)"] by (auto simp: kBufLength_def simp del: of_nat_Suc)
  then have "next_seq ?m2 \<noteq> next_seq m" unfolding 2(1) by simp
  then have "listen_round ?m2 (next_seq m) = (Some info, next_seq m + 1)" using 2(2,3) by (simp add: listen_round_def Let_def)
  then show ?thesis by (simp add: Listen_def Listen_loop.simps)
qed

lemma holds_index: "holds_message c a k msg info t w \<Longrightarrow> unat (of_nat k :: u32) = k"
proof -
  let ?num = "conf_block_num (conf_Update (so_ceiling (os_objects w a)))"
  assume "holds_message c a k msg info t w"
  then have "k < ?num" by (simp add: holds_message_def Let_def)
  moreover have "?num \<le> 2 ^ 32" using num_blocks(2) by (rule dvd_imp_le) simp
  ultimately show ?thesis by (simp add: unat_of_nat)
qed

lemma Transmit_sends:
  assumes "tx_enabled t" "tx_segment t = Some (sy_segs s i)"
    and "tx_Transmit f True False msg info t m (sy_os s) = Inr (True, t', m', w')"
  shows "\<exists>k g. shm_step h (Send i f True msg info) s = Inr (Sent (Some k), \<lparr>sy_os = w', sy_segs = (sy_segs s)(i := g)\<rparr>) \<and>
    t' = t\<lparr>tx_segment := Some g\<rparr> \<and>
    m' = snd (Notify False \<lparr>ri_host = tx_host t, ri_block = of_nat k, ri_channel = tx_channel t\<rparr> m)"
  using assms by (auto simp: tx_Transmit_def shm_put_def Notify_def Let_def split: sum.splits option.splits)

text \<open>The info as the reader has it.\<close>

definition received_info :: "(byte list \<Rightarrow> u64) \<Rightarrow> message_info \<Rightarrow> message_info" where
  "received_info h info = snd (mi_DeserializeFrom h (mi_SerializeTo info) mi_kSize (new_message_info h))"

lemma received_sender: "info_ok info \<Longrightarrow> id_hash (mi_sender (received_info h info)) = h (id_data (mi_sender info))"
  using mi_roundtrip [of info h "[]"] by (simp add: received_info_def info_ok_def)

lemma round_reads:
  assumes L: "Listen False rings 100 (sd_next_seq d) = (Some \<lparr>ri_host = sd_host d, ri_block = of_nat k, ri_channel = c\<rparr>, n)"
    and g: "sd_segments d c = Some (sy_segs s j)" and k: "unat (of_nat k :: u32) = k"
    and R: "shm_step h (Recv j f k) s = Inr (Got (Some (msg, info)), s')"
    and b: "OnMessage c (id_hash (mi_sender info)) (sd_base d) = (cs, sd_base d)"
  shows "\<exists>d' w'. ThreadFunc_round h f False rings d (sy_os s) = Inr (run_adapters msg info cs, d', w') \<and> sd_base d' = sd_base d"
  using R b g k by (auto simp: ThreadFunc_round_def L sd_ReadMessage_def shm_put_def split: sum.splits)



end
