(* ===== verification/Wakeup.thy ===== *)
theory Wakeup
  imports Croutine ChannelBuffer
begin

text \<open>
  How a message wakes the coroutine of its reader: the loop every reader runs
  (\<open>cyber/croutine/routine_factory.h\<close>), the writer that fills the reader's buffer and notifies
  (\<open>cyber/data/data_dispatcher.h\<close>, \<open>NotifyProcessor\<close> of both schedulers) and the processor that
  acquires, updates, resumes and releases the coroutine (\<open>cyber/scheduler/processor.cc\<close>). Each
  step has at most one access to what the threads share, and steps interleave in one order.
\<close>

section \<open>The three programs\<close>

text \<open>Where the coroutine is in its loop, also while it is switched out.\<close>

datatype routine_pc = AtTop | AtFetch | InBody | AtYield | AtSwap

text \<open>What the processor that has the coroutine's lock is doing; \<open>Tested\<close> has the old flag.\<close>

datatype holder_pc = NoHolder | Updating | Tested bool | Running | Leaving

text \<open>Where a writing thread is between filling the buffer and the end of its notification.\<close>

datatype notifier_pc = NotNotifying | Checking | Flagging

record 'a wakeup =
  wk_cr :: croutine
  wk_pc :: routine_pc
  wk_holder :: holder_pc
  wk_notifiers :: "nat \<Rightarrow> notifier_pc"
  wk_buffer :: "'a cache_buffer"
  wk_index :: nat
  wk_got :: "'a list"

text \<open>
  Thread \<open>k\<close>: fill the buffer with \<open>v\<close>; look at the state; clear the flag when the state is a wait.
\<close>

definition notifier_step :: "nat \<Rightarrow> 'a \<Rightarrow> 'a wakeup \<Rightarrow> 'a wakeup" where
  "notifier_step k v s =
     (case wk_notifiers s k of
        NotNotifying \<Rightarrow> s\<lparr>wk_buffer := Fill (wk_buffer s) v, wk_notifiers := (wk_notifiers s)(k := Checking)\<rparr>
      | Checking \<Rightarrow>
          s\<lparr>wk_notifiers := (wk_notifiers s)(k :=
              (if cr_state (wk_cr s) = DATA_WAIT \<or> cr_state (wk_cr s) = IO_WAIT then Flagging else NotNotifying))\<rparr>
      | Flagging \<Rightarrow>
          s\<lparr>wk_cr := SetUpdateFlag (wk_cr s), wk_notifiers := (wk_notifiers s)(k := NotNotifying)\<rparr>)"

text \<open>
  The reader's loop. The user's function \<open>f\<close> (in \<open>InBody\<close>) returns, or sleeps for \<open>d\<close> with
  \<open>CRoutine::Sleep\<close> and is switched out in the middle.
\<close>

definition routine_step :: "int \<Rightarrow> int option \<Rightarrow> 'a wakeup \<Rightarrow> 'a wakeup" where
  "routine_step now d s =
     (case wk_pc s of
        AtTop \<Rightarrow> s\<lparr>wk_cr := set_state DATA_WAIT (wk_cr s), wk_pc := AtFetch\<rparr>
      | AtFetch \<Rightarrow>
          (case TryFetch Fetch (wk_index s) (wk_buffer s) of
             (i, Some m) \<Rightarrow> s\<lparr>wk_index := i, wk_got := wk_got s @ [m], wk_pc := InBody\<rparr>
           | (i, None) \<Rightarrow> s\<lparr>wk_index := i, wk_pc := AtSwap\<rparr>)
      | InBody \<Rightarrow>
          (case d of
             None \<Rightarrow> s\<lparr>wk_pc := AtYield\<rparr>
           | Some sleep_duration \<Rightarrow> s\<lparr>wk_cr := Sleep now sleep_duration (wk_cr s), wk_holder := Leaving\<rparr>)
      | AtYield \<Rightarrow> s\<lparr>wk_cr := Yield (Some READY) (wk_cr s), wk_pc := AtSwap\<rparr>
      | AtSwap \<Rightarrow> s\<lparr>wk_pc := AtTop, wk_holder := Leaving\<rparr>)"

text \<open>
  The processors: acquire, the two halves of \<open>UpdateState\<close> (the flag is taken, then the state is
  changed), the coroutine's own steps while it runs, release.
\<close>

definition processor_step :: "int \<Rightarrow> int option \<Rightarrow> 'a wakeup \<Rightarrow> 'a wakeup" where
  "processor_step now d s =
     (let c = wk_cr s
      in case wk_holder s of
        NoHolder \<Rightarrow>
          (case Acquire c of
             (True, c') \<Rightarrow> s\<lparr>wk_cr := c', wk_holder := Updating\<rparr>
           | (False, c') \<Rightarrow> s\<lparr>wk_cr := c'\<rparr>)
      | Updating \<Rightarrow>
          if cr_state c = SLEEP \<and> now > wake_time c
          then s\<lparr>wk_cr := set_state READY c, wk_holder := Running\<rparr>
          else s\<lparr>wk_cr := c\<lparr>cr_updated := True\<rparr>, wk_holder := Tested (cr_updated c)\<rparr>
      | Tested old \<Rightarrow>
          let c' = (if \<not> old \<and> (cr_state c = DATA_WAIT \<or> cr_state c = IO_WAIT) then set_state READY c else c)
          in s\<lparr>wk_cr := c', wk_holder := (if cr_state c' = READY then Running else Leaving)\<rparr>
      | Running \<Rightarrow> routine_step now d s
      | Leaving \<Rightarrow> s\<lparr>wk_cr := Release c, wk_holder := NoHolder\<rparr>)"

datatype 'a wake_event = Notifier nat 'a | Processor int "int option"

fun wake_step :: "'a wake_event \<Rightarrow> 'a wakeup \<Rightarrow> 'a wakeup" where
  "wake_step (Notifier k v) s = notifier_step k v s"
| "wake_step (Processor now d) s = processor_step now d s"

text \<open>A reader just dispatched: its buffer is empty and it has not run.\<close>

definition new_reader :: "'a \<Rightarrow> nat \<Rightarrow> 'a wakeup" where
  "new_reader dflt sz =
     \<lparr>wk_cr = new_croutine 0, wk_pc = AtTop, wk_holder = NoHolder, wk_notifiers = (\<lambda>_. NotNotifying),
      wk_buffer = new_cache_buffer dflt sz, wk_index = 0, wk_got = []\<rparr>"

text \<open>A processor that is not disturbed performs \<open>UpdateState\<close>.\<close>

lemma processor_UpdateState:
  assumes "wk_holder s = Updating" "\<not> (cr_state (wk_cr s) = SLEEP \<and> now > wake_time (wk_cr s))"
  shows "(processor_step now d ^^ 2) s =
    s\<lparr>wk_cr := snd (UpdateState now (wk_cr s)),
      wk_holder := (if fst (UpdateState now (wk_cr s)) = READY then Running else Leaving)\<rparr>"
  using assms by (cases "cr_updated (wk_cr s)")
    (auto simp: eval_nat_numeral processor_step_def UpdateState_def set_state_def Let_def)

section \<open>No message is slept over\<close>

definition unread :: "'a wakeup \<Rightarrow> bool" where
  "unread s \<longleftrightarrow> snd (TryFetch Fetch (wk_index s) (wk_buffer s)) \<noteq> None"

text \<open>What state the coroutine can have at each place.\<close>

definition place_ok :: "'a wakeup \<Rightarrow> bool" where
  "place_ok s \<longleftrightarrow> (let st = cr_state (wk_cr s); h = wk_holder s
     in case wk_pc s of
          AtTop \<Rightarrow> st \<in> {READY, DATA_WAIT} \<and> (h = Running \<longrightarrow> st = READY)
        | AtFetch \<Rightarrow> h = Running \<and> st = DATA_WAIT
        | InBody \<Rightarrow> if h = Running then st \<noteq> SLEEP else st = SLEEP
        | AtYield \<Rightarrow> h = Running
        | AtSwap \<Rightarrow> h = Running \<and> st \<in> {READY, DATA_WAIT})"

definition wake_ok :: "'a wakeup \<Rightarrow> bool" where
  "wake_ok s \<longleftrightarrow> place_ok s \<and> cr_lock (wk_cr s) = (wk_holder s \<noteq> NoHolder) \<and>
     (unread s \<and> wk_pc s \<in> {AtTop, AtSwap} \<longrightarrow>
        cr_state (wk_cr s) = READY \<or> \<not> cr_updated (wk_cr s) \<or> wk_holder s = Tested False \<or>
        (\<exists>k. wk_notifiers s k \<noteq> NotNotifying))"

lemma TryFetch_None: "TryFetch Fetch i b = (i', None) \<Longrightarrow> i' = i"
  by (auto simp: TryFetch_def Fetch_def split: if_splits prod.splits option.splits)

lemma notifier_step_ok:
  assumes "wake_ok s"
  shows "wake_ok (notifier_step k v s)"
proof (cases "wk_notifiers s k")
  case NotNotifying
  then show ?thesis using assms by (auto simp: wake_ok_def notifier_step_def place_ok_def)
next
  case Checking
  show ?thesis
  proof (cases "cr_state (wk_cr s) = DATA_WAIT \<or> cr_state (wk_cr s) = IO_WAIT")
    case True
    then show ?thesis using assms Checking by (auto simp: wake_ok_def notifier_step_def place_ok_def unread_def)
  next
    case False
    then have "wk_pc s \<in> {AtTop, AtSwap} \<Longrightarrow> cr_state (wk_cr s) = READY"
      using assms by (auto simp: wake_ok_def place_ok_def Let_def)
    then show ?thesis using assms Checking False
      by (auto simp: wake_ok_def notifier_step_def place_ok_def unread_def)
  qed
next
  case Flagging
  then show ?thesis using assms
    by (auto simp: wake_ok_def notifier_step_def place_ok_def unread_def SetUpdateFlag_def Let_def
        split: routine_pc.splits)
qed
lemma routine_step_ok:
  assumes "wake_ok s" "wk_holder s = Running"
  shows "wake_ok (routine_step now d s)"
proof (cases "wk_pc s")
  case AtTop
  then show ?thesis using assms
    by (auto simp: wake_ok_def routine_step_def place_ok_def set_state_def)
next
  case AtFetch
  obtain i m where f: "TryFetch Fetch (wk_index s) (wk_buffer s) = (i, m)" by (rule prod.exhaust)
  show ?thesis
  proof (cases m)
    case None
    then have "i = wk_index s" using TryFetch_None f by fastforce
    then have "unread (routine_step now d s) = False" using f None AtFetch
      by (simp add: routine_step_def unread_def)
    then show ?thesis using assms f None AtFetch by (auto simp: wake_ok_def routine_step_def place_ok_def)
  next
    case (Some x)
    then show ?thesis using assms f AtFetch by (auto simp: wake_ok_def routine_step_def place_ok_def)
  qed
next
  case InBody
  then show ?thesis using assms
    by (auto simp: wake_ok_def routine_step_def place_ok_def Sleep_def Yield_def set_state_def split: option.split)
next
  case AtYield
  then show ?thesis using assms
    by (auto simp: wake_ok_def routine_step_def place_ok_def Yield_def set_state_def)
next
  case AtSwap
  then show ?thesis using assms
    by (auto simp: wake_ok_def routine_step_def place_ok_def unread_def)
qed

lemma processor_step_ok:
  assumes "wake_ok s"
  shows "wake_ok (processor_step now d s)"
proof (cases "wk_holder s")
  case NoHolder
  then have "\<not> cr_lock (wk_cr s)" using assms by (simp add: wake_ok_def)
  then show ?thesis using assms NoHolder
    by (auto simp: wake_ok_def processor_step_def place_ok_def unread_def Acquire_def Let_def split: routine_pc.splits)
next
  case Updating
  then show ?thesis using assms
    by (auto simp: wake_ok_def processor_step_def place_ok_def unread_def set_state_def Let_def split: routine_pc.splits)
next
  case (Tested old)
  then show ?thesis using assms
    by (auto simp: wake_ok_def processor_step_def place_ok_def unread_def set_state_def Let_def split: routine_pc.splits)
next
  case Running
  then show ?thesis using routine_step_ok [OF assms Running] by (simp add: processor_step_def)
next
  case Leaving
  then show ?thesis using assms
    by (auto simp: wake_ok_def processor_step_def place_ok_def unread_def Release_def Let_def split: routine_pc.splits)
qed

lemma wake_run_ok: "wake_ok s \<Longrightarrow> wake_ok (fold wake_step es s)"
proof (induction es arbitrary: s)
  case Nil
  then show ?case by simp
next
  case (Cons e es)
  have "wake_ok (wake_step e s)" using Cons.prems by (cases e) (simp_all add: notifier_step_ok processor_step_ok)
  then show ?case by (simp add: Cons.IH)
qed

lemma new_reader_ok: "wake_ok (new_reader dflt sz)"
  by (simp add: wake_ok_def place_ok_def unread_def new_reader_def new_croutine_def TryFetch_def Fetch_def
      new_cache_buffer_def Empty_def)

lemma wake_reachable: "s = fold wake_step es (new_reader dflt sz) \<Longrightarrow> wake_ok s"
  by (simp add: wake_run_ok new_reader_ok)


text \<open>A reader that has looked at its empty buffer once and waits; then a message is written.\<close>

definition one_message :: "nat wake_event list" where
  "one_message = replicate 7 (Processor 0 None) @ replicate 3 (Notifier 0 42)"

definition waiting_reader :: "nat wakeup" where
  "waiting_reader = (new_reader 0 2)\<lparr>wk_cr := (new_croutine 0)\<lparr>cr_state := DATA_WAIT, cr_updated := False\<rparr>,
     wk_buffer := Fill (new_cache_buffer 0 2) 42\<rparr>"

lemma one_message_run: "fold wake_step one_message (new_reader 0 2) = waiting_reader"
  by (auto simp: one_message_def waiting_reader_def new_reader_def new_croutine_def eval_nat_numeral processor_step_def
      routine_step_def notifier_step_def Acquire_def Release_def set_state_def SetUpdateFlag_def TryFetch_def Fetch_def
      new_cache_buffer_def Empty_def)

lemma one_message_unread: "snd (TryFetch Fetch (wk_index waiting_reader) (wk_buffer waiting_reader)) = Some 42"
  by code_simp


text \<open>The steps of a processor, one by one.\<close>

lemma processor_steps:
  "wk_holder s = NoHolder \<Longrightarrow> \<not> cr_lock (wk_cr s) \<Longrightarrow>
     processor_step now d s = s\<lparr>wk_cr := (wk_cr s)\<lparr>cr_lock := True\<rparr>, wk_holder := Updating\<rparr>"
  "wk_holder s = Updating \<Longrightarrow> cr_state (wk_cr s) \<noteq> SLEEP \<Longrightarrow>
     processor_step now d s = s\<lparr>wk_cr := (wk_cr s)\<lparr>cr_updated := True\<rparr>, wk_holder := Tested (cr_updated (wk_cr s))\<rparr>"
  "wk_holder s = Updating \<Longrightarrow> cr_state (wk_cr s) = SLEEP \<Longrightarrow> wake_time (wk_cr s) < now \<Longrightarrow>
     processor_step now d s = s\<lparr>wk_cr := (wk_cr s)\<lparr>cr_state := READY\<rparr>, wk_holder := Running\<rparr>"
  "wk_holder s = Leaving \<Longrightarrow>
     processor_step now d s = s\<lparr>wk_cr := (wk_cr s)\<lparr>cr_lock := False\<rparr>, wk_holder := NoHolder\<rparr>"
  "wk_holder s = Running \<Longrightarrow> processor_step now d s = routine_step now d s"
  by (simp_all add: processor_step_def Acquire_def Release_def set_state_def Let_def)

lemma processor_readies:
  assumes "wk_holder s = Tested old" "cr_state (wk_cr s) = READY \<or> cr_state (wk_cr s) = DATA_WAIT \<and> \<not> old"
  shows "processor_step now d s = s\<lparr>wk_cr := (wk_cr s)\<lparr>cr_state := READY\<rparr>, wk_holder := Running\<rparr>"
  using assms by (cases s, cases "wk_cr s") (auto simp: processor_step_def set_state_def Let_def)

lemma scan_delivers:
  assumes "wk_holder s = NoHolder" "\<not> cr_lock (wk_cr s)" "wk_pc s = AtTop"
    and "cr_state (wk_cr s) = READY \<or> cr_state (wk_cr s) = DATA_WAIT \<and> \<not> cr_updated (wk_cr s)"
    and "TryFetch Fetch (wk_index s) (wk_buffer s) = (i, Some m)"
  shows "wk_got ((processor_step now None ^^ 5) s) = wk_got s @ [m]"
proof -
  let ?f = "processor_step now None"
  have "?f (?f s) = s\<lparr>wk_cr := (wk_cr s)\<lparr>cr_lock := True, cr_updated := True\<rparr>, wk_holder := Tested (cr_updated (wk_cr s))\<rparr>"
    using assms(1,2,4) by (auto simp: processor_steps)
  then have "?f (?f (?f s)) =
      s\<lparr>wk_cr := (wk_cr s)\<lparr>cr_lock := True, cr_updated := True, cr_state := READY\<rparr>, wk_holder := Running\<rparr>"
    using assms(4) by (simp add: processor_readies)
  then show ?thesis using assms(3,5)
    by (simp add: eval_nat_numeral processor_steps routine_step_def set_state_def)
qed



end
