(* ===== verification/ChassisMsgs.thy ===== *)
theory ChassisMsgs
  imports Complex_Main
begin

text \<open>
  The messages between control, guardian, monitor and the vehicle controller
  (\<open>modules/common_msgs/chassis_msgs/chassis.proto\<close>, \<open>control_msgs/pad_msg.proto\<close>,
  \<open>control_msgs/control_cmd.proto\<close>, \<open>basic_msgs/vehicle_signal.proto\<close>): the enumerations with the
  constructors of the protocol buffers, and the fields the modelled code uses. A default message has
  the default value in every field.
\<close>

datatype driving_mode = COMPLETE_MANUAL | COMPLETE_AUTO_DRIVE | AUTO_STEER_ONLY | AUTO_SPEED_ONLY | EMERGENCY_MODE

datatype chassis_error = NO_ERROR | CMD_NOT_IN_PERIOD | CHASSIS_ERROR | MANUAL_INTERVENTION | CHASSIS_CAN_NOT_IN_PERIOD
  | UNKNOWN_ERROR | CHASSIS_ERROR_ON_STEER | CHASSIS_ERROR_ON_BRAKE | CHASSIS_ERROR_ON_THROTTLE | CHASSIS_ERROR_ON_GEAR

datatype gear_position = GEAR_NEUTRAL | GEAR_DRIVE | GEAR_REVERSE | GEAR_PARKING | GEAR_LOW | GEAR_INVALID | GEAR_NONE

datatype turn_signal = TURN_NONE | TURN_LEFT | TURN_RIGHT | TURN_HAZARD_WARNING

datatype driving_action = STOP | START | RESET | VIN_REQ

text \<open>The fields of \<open>ControlCommand\<close> the modelled code reads or sets; None is an absent sub-message.\<close>

record control_command =
  pad_action :: "driving_action option"
  gear_location :: gear_position
  cmd_speed :: real
  steering_rate :: real
  steering_target :: real
  cmd_signal :: "turn_signal option"
  cmd_throttle :: real
  cmd_brake :: real
  is_in_safe_mode :: bool

definition no_command :: control_command where
  "no_command = \<lparr>pad_action = None, gear_location = GEAR_NEUTRAL, cmd_speed = 0, steering_rate = 0, steering_target = 0,
     cmd_signal = None, cmd_throttle = 0, cmd_brake = 0, is_in_safe_mode = False\<rparr>"

end
