(* ===== verification/SystemMonitor.thy ===== *)
theory SystemMonitor
  imports Prelude ChassisMsgs "HOL-Library.Sublist" "HOL-Library.Monad_Syntax"
begin

text \<open>
  The system monitor (\<open>modules/monitor\<close>): a frame of \<open>Monitor::Proc\<close> reads the HMI's mode, runs the
  monitors whose interval has passed, summarises the status of every component, and enters the
  safety mode when a component the mode requires is down. What the monitors read from the machine
  (processes, disks, CAN devices, latest messages) is the argument \<open>readings\<close>. A failed
  \<open>at\<close> on a protobuf map aborts the process; it is the value None.
\<close>

section \<open>Status messages\<close>

datatype status = S_UNKNOWN | S_OK | S_WARN | S_ERROR | S_FATAL

fun status_number :: "status \<Rightarrow> nat" where
  "status_number S_UNKNOWN = 0"
| "status_number S_OK = 1"
| "status_number S_WARN = 2"
| "status_number S_ERROR = 3"
| "status_number S_FATAL = 4"

lemma status_number_inj [simp]: "status_number a = status_number b \<longleftrightarrow> a = b"
  by (cases a; cases b) simp_all

instantiation status :: linorder
begin

definition less_eq_status :: "status \<Rightarrow> status \<Rightarrow> bool" where
  "less_eq_status a b \<longleftrightarrow> status_number a \<le> status_number b"

definition less_status :: "status \<Rightarrow> status \<Rightarrow> bool" where
  "less_status a b \<longleftrightarrow> status_number a < status_number b"

instance
  by standard (auto simp: less_eq_status_def less_status_def)

end

record component_status =
  st :: status
  message :: "string option"

definition clear_status :: "component_status \<Rightarrow> component_status" where
  "clear_status s = s\<lparr>st := S_UNKNOWN\<rparr>"

definition empty_status :: component_status where
  "empty_status = \<lparr>st = S_UNKNOWN, message = None\<rparr>"

record component =
  summary :: component_status
  process_status :: component_status
  channel_status :: component_status
  resource_status :: component_status
  other_status :: component_status
  module_status :: component_status

definition new_component :: component where
  "new_component = \<lparr>summary = empty_status, process_status = empty_status, channel_status = empty_status,
     resource_status = empty_status, other_status = empty_status, module_status = empty_status\<rparr>"

record system_status =
  hmi_modules :: "string \<Rightarrow> component_status option"
  components :: "string \<Rightarrow> component option"
  other_components :: "string \<Rightarrow> component_status option"
  passenger_msg :: "string option"
  safety_mode_trigger_time :: "real option"
  require_emergency_stop :: bool

section \<open>Modes of the HMI\<close>

record channel_config =
  channel_name :: string
  delay_fatal :: real
  mandatory_fields :: "string list"
  min_frequency_allowed :: real
  max_frequency_allowed :: real

text \<open>Disk spaces with path, warning and error; usages and loads with name, warning and error.\<close>

record resource_config =
  disk_spaces :: "(string \<times> int \<times> int) list"
  cpu_usages :: "(string \<times> real \<times> real) list"
  memory_usages :: "(string \<times> int \<times> int) list"
  disk_load_usages :: "(string \<times> int \<times> int) list"

record hmi_module =
  process_monitor_config :: "string list"
  module_required :: bool

record monitored_component =
  mc_process :: "string list option"
  mc_channel :: "channel_config option"
  mc_resource :: "resource_config option"
  mc_required :: bool
  mc_module :: "string list option"

record hmi_mode =
  mode_modules :: "(string \<times> hmi_module) list"
  mode_components :: "(string \<times> monitored_component) list"
  mode_others :: "(string \<times> string list) list"

definition no_mode :: hmi_mode where
  "no_mode = \<lparr>mode_modules = [], mode_components = [], mode_others = []\<rparr>"

section \<open>Escalation\<close>

definition EscalateStatus :: "status \<Rightarrow> string \<Rightarrow> component_status \<Rightarrow> component_status" where
  "EscalateStatus new_status msg s =
     (if new_status > st s then s\<lparr>st := new_status, message := (if msg \<noteq> '''' then Some msg else None)\<rparr> else s)"

text \<open>\<open>at(key)\<close> for every configured entry, and the guarded and the single lookups.\<close>

fun at_each :: "('c \<Rightarrow> ('a \<Rightarrow> 'a) option) \<Rightarrow> (string \<times> 'c) list \<Rightarrow> (string \<Rightarrow> 'a option) \<Rightarrow> (string \<Rightarrow> 'a option) option" where
  "at_each f [] m = Some m"
| "at_each f ((k, c) # cs) m =
     (case f c of None \<Rightarrow> at_each f cs m
      | Some g \<Rightarrow> (case m k of None \<Rightarrow> None | Some v \<Rightarrow> at_each f cs (m(k \<mapsto> g v))))"

fun if_present :: "(string \<Rightarrow> 'c \<Rightarrow> ('a \<Rightarrow> 'a) option) \<Rightarrow> (string \<times> 'c) list \<Rightarrow> (string \<Rightarrow> 'a option) \<Rightarrow> (string \<Rightarrow> 'a option)" where
  "if_present f [] m = m"
| "if_present f ((k, c) # cs) m =
     (case f k c of None \<Rightarrow> if_present f cs m
      | Some g \<Rightarrow> (case m k of None \<Rightarrow> if_present f cs m | Some v \<Rightarrow> if_present f cs (m(k \<mapsto> g v))))"

definition find_or_skip :: "string \<Rightarrow> ('a \<Rightarrow> 'a) \<Rightarrow> (string \<Rightarrow> 'a option) \<Rightarrow> (string \<Rightarrow> 'a option)" where
  "find_or_skip k g m = (case m k of None \<Rightarrow> m | Some v \<Rightarrow> m(k \<mapsto> g v))"
section \<open>What the monitors read\<close>

datatype measure_state = LOC_OK | LOC_WARNNING | LOC_ERROR | LOC_CRITICAL_ERROR | LOC_FATAL_ERROR

datatype recording_state = STOPPED | RECORDING | TERMINATING

text \<open>
  A message as reflection sees it: for each field in the order of the descriptor its name and whether a
  scalar is set, how long a repeated field is, or the message inside (the default one when unset).
\<close>

datatype proto_value = Scalar bool | Repeated nat | Message "(string \<times> proto_value) list"

text \<open>A channel \<open>ChannelMonitor\<close> knows: the latest message with its size, and the delay of the reader.\<close>

record channel_reading =
  latest :: "((string \<times> proto_value) list \<times> nat) option"
  delay_sec :: real

text \<open>The latency records a module published; the reader's history has the latest message first.\<close>

record latency_record =
  begin_time :: u64
  end_time :: u64

record latency_record_map =
  lr_module_name :: string
  sequence_num :: u32
  latency_records :: "latency_record list"

record readings =
  running_processes :: "string list"
  has_node :: "string \<Rightarrow> bool"
  localization_msg :: "(measure_state \<times> string) option"
  recorder_msg :: "(recording_state \<times> string) option"
  gnss_sol_type :: "int option"
  socket_can_test :: "bool \<times> string"
  camera_frames :: "string option option list"
  channels :: "string \<Rightarrow> channel_reading option"
  latency_history :: "latency_record_map list"
  path_space :: "string \<Rightarrow> (string \<times> u64) list"
  cpu_usage :: "string \<Rightarrow> real"
  memory_usage :: "string \<Rightarrow> real"
  disk_load :: "string \<Rightarrow> real"

text \<open>How \<open>StrCat\<close> prints a number is an argument, \<open>num\<close>.\<close>

section \<open>The monitors\<close>

definition Process_UpdateStatus :: "string list \<Rightarrow> string list \<Rightarrow> component_status \<Rightarrow> component_status" where
  "Process_UpdateStatus running keywords s =
     (case List.find (\<lambda>command. list_all (\<lambda>keyword. sublist keyword command) keywords) running of
        Some command \<Rightarrow> EscalateStatus S_OK command (clear_status s)
      | None \<Rightarrow> EscalateStatus S_FATAL '''' (clear_status s))"

definition Process_RunOnce :: "readings \<Rightarrow> hmi_mode \<Rightarrow> system_status \<Rightarrow> system_status option" where
  "Process_RunOnce r mode s = do {
     hs \<leftarrow> at_each (\<lambda>m. Some (Process_UpdateStatus (running_processes r) (process_monitor_config m))) (mode_modules mode) (hmi_modules s);
     let cs = if_present (\<lambda>_ mc. map_option (\<lambda>kw c. c\<lparr>process_status :=
                Process_UpdateStatus (running_processes r) kw (process_status c)\<rparr>) (mc_process mc)) (mode_components mode) (components s);
     os \<leftarrow> at_each (\<lambda>kw. Some (Process_UpdateStatus (running_processes r) kw)) (mode_others mode) (other_components s);
     Some (s\<lparr>hmi_modules := hs, components := cs, other_components := os\<rparr>) }"

definition Module_UpdateStatus :: "(string \<Rightarrow> bool) \<Rightarrow> string list \<Rightarrow> string \<Rightarrow> component_status \<Rightarrow> component_status" where
  "Module_UpdateStatus node_exists node_names module_name s =
     (if list_all node_exists node_names then EscalateStatus S_OK module_name (clear_status s)
      else EscalateStatus S_FATAL '''' (clear_status s))"

definition Module_RunOnce :: "readings \<Rightarrow> hmi_mode \<Rightarrow> system_status \<Rightarrow> system_status" where
  "Module_RunOnce r mode s = s\<lparr>components := if_present (\<lambda>name mc. map_option (\<lambda>nodes c. c\<lparr>module_status :=
     Module_UpdateStatus (has_node r) nodes name (module_status c)\<rparr>) (mc_module mc)) (mode_components mode) (components s)\<rparr>"

definition on_other_status :: "(component_status \<Rightarrow> component_status) \<Rightarrow> component \<Rightarrow> component" where
  "on_other_status f c = c\<lparr>other_status := f (other_status c)\<rparr>"

definition Localization_status :: "(measure_state \<times> string) option \<Rightarrow> component_status \<Rightarrow> component_status" where
  "Localization_status msg s = (case msg of
      None \<Rightarrow> EscalateStatus S_ERROR ''No LocalizationStatus received'' (clear_status s)
    | Some (state, text) \<Rightarrow> (case state of
          LOC_OK \<Rightarrow> EscalateStatus S_OK '''' (clear_status s)
        | LOC_WARNNING \<Rightarrow> EscalateStatus S_WARN (''WARNNING: '' @ text) (clear_status s)
        | LOC_ERROR \<Rightarrow> EscalateStatus S_WARN (''ERROR: '' @ text) (clear_status s)
        | LOC_CRITICAL_ERROR \<Rightarrow> EscalateStatus S_ERROR (''CRITICAL_ERROR: '' @ text) (clear_status s)
        | LOC_FATAL_ERROR \<Rightarrow> EscalateStatus S_FATAL (''FATAL_ERROR: '' @ text) (clear_status s)))"

definition Localization_RunOnce :: "readings \<Rightarrow> system_status \<Rightarrow> system_status" where
  "Localization_RunOnce r s = s\<lparr>components :=
     find_or_skip ''Localization'' (on_other_status (Localization_status (localization_msg r))) (components s)\<rparr>"

definition Recorder_status :: "(recording_state \<times> string) option \<Rightarrow> component_status \<Rightarrow> component_status" where
  "Recorder_status msg s = (case msg of
      None \<Rightarrow> EscalateStatus S_ERROR ''No SmartRecorderStatus received'' (clear_status s)
    | Some (state, text) \<Rightarrow> (case state of
          RECORDING \<Rightarrow> EscalateStatus S_OK '''' (clear_status s)
        | TERMINATING \<Rightarrow> EscalateStatus S_WARN (''WARNNING: '' @ text) (clear_status s)
        | STOPPED \<Rightarrow> EscalateStatus S_OK (''STOPPED: '' @ text) (clear_status s)))"

definition Recorder_RunOnce :: "readings \<Rightarrow> system_status \<Rightarrow> system_status" where
  "Recorder_RunOnce r s = s\<lparr>components :=
     find_or_skip ''SmartRecorder'' (on_other_status (Recorder_status (recorder_msg r))) (components s)\<rparr>"

text \<open>\<open>SolutionType\<close> by its numbers: \<open>NARROW_INT\<close> is 50, \<open>SINGLE\<close> is 16.\<close>

definition Gps_status :: "int option \<Rightarrow> component_status \<Rightarrow> component_status" where
  "Gps_status sol s = (case sol of
      None \<Rightarrow> EscalateStatus S_ERROR ''No GnssBestPose message'' (clear_status s)
    | Some n \<Rightarrow>
        if n = 50 then EscalateStatus S_OK '''' (clear_status s)
        else if n = 16 then EscalateStatus S_WARN ''SolutionType is SINGLE'' (clear_status s)
        else EscalateStatus S_ERROR ''SolutionType is wrong'' (clear_status s))"

definition Gps_RunOnce :: "readings \<Rightarrow> system_status \<Rightarrow> system_status" where
  "Gps_RunOnce r s = s\<lparr>components := find_or_skip ''GPS'' (on_other_status (Gps_status (gnss_sol_type r))) (components s)\<rparr>"

definition SocketCan_RunOnce :: "readings \<Rightarrow> system_status \<Rightarrow> system_status" where
  "SocketCan_RunOnce r s = s\<lparr>components := find_or_skip ''SocketCAN'' (on_other_status (\<lambda>cs. case socket_can_test r of
     (ret, msg) \<Rightarrow> EscalateStatus (if ret then S_OK else S_ERROR) msg (clear_status cs))) (components s)\<rparr>"

text \<open>Without the vendor library the ESD-CAN test always fails.\<close>

definition EsdCan_RunOnce :: "system_status \<Rightarrow> system_status" where
  "EsdCan_RunOnce s = s\<lparr>components := find_or_skip ''ESD-CAN'' (on_other_status (\<lambda>cs.
     EscalateStatus S_ERROR ''USE_ESD_CAN is not defined during compiling'' (clear_status cs))) (components s)\<rparr>"

text \<open>The latest image of each topic, if there is one, by the frame id in its header, if it has one.\<close>

fun camera_loop :: "string option option list \<Rightarrow> string \<Rightarrow> component_status \<Rightarrow> string \<times> component_status" where
  "camera_loop [] frame s = (frame, s)"
| "camera_loop (None # ms) frame s = camera_loop ms frame s"
| "camera_loop (Some fid # ms) frame s =
     (if frame = '''' then camera_loop ms (case fid of Some f \<Rightarrow> f | None \<Rightarrow> frame) s
      else camera_loop ms frame (EscalateStatus S_ERROR ''Only one camera is permitted'' s))"

definition Camera_UpdateStatus :: "string option option list \<Rightarrow> component_status \<Rightarrow> component_status" where
  "Camera_UpdateStatus ms s =
     (case camera_loop ms '''' (clear_status s) of (frame, s1) \<Rightarrow>
        if frame = '''' then EscalateStatus S_ERROR ''No camera is detected'' s1
        else EscalateStatus S_OK (''Detected one camera: '' @ frame) s1)"

definition Camera_RunOnce :: "readings \<Rightarrow> system_status \<Rightarrow> system_status" where
  "Camera_RunOnce r s = s\<lparr>components := find_or_skip ''Camera'' (on_other_status (Camera_UpdateStatus (camera_frames r))) (components s)\<rparr>"
text \<open>\<open>StrSplit(field, ".")\<close>.\<close>

fun split_dots :: "string \<Rightarrow> string list" where
  "split_dots [] = [[]]"
| "split_dots (c # cs) = (if c = CHR ''.'' then [] # split_dots cs else (c # hd (split_dots cs)) # tl (split_dots cs))"

fun ValidateFields :: "(string \<times> proto_value) list \<Rightarrow> string list \<Rightarrow> bool" where
  "ValidateFields msg [] = True"
| "ValidateFields msg (f # fs) =
     (case map_of msg f of
        None \<Rightarrow> False
      | Some (Repeated n) \<Rightarrow> n > 0 \<and> fs = []
      | Some (Scalar has) \<Rightarrow> has \<and> fs = []
      | Some (Message inner) \<Rightarrow> ValidateFields inner fs)"

definition Channel_UpdateStatus ::
  "(real \<Rightarrow> string) \<Rightarrow> channel_config \<Rightarrow> channel_reading option \<Rightarrow> real option \<Rightarrow> component_status \<Rightarrow> component_status" where
  "Channel_UpdateStatus num config reading freq s =
     (let s0 = clear_status s in
      case reading of
        None \<Rightarrow> EscalateStatus S_UNKNOWN (channel_name config @ '' is not registered in ChannelMonitor.'') s0
      | Some rd \<Rightarrow>
          (case latest rd of
             None \<Rightarrow> EscalateStatus S_FATAL (''the message '' @ channel_name config @ '' reseived is empty.'') s0
           | Some (msg, byte_size) \<Rightarrow>
               if byte_size = 0 then EscalateStatus S_FATAL (''the message '' @ channel_name config @ '' reseived is empty.'') s0
               else
                 let delay = delay_sec rd;
                     s1 = (if delay < 0 \<or> delay > delay_fatal config
                           then EscalateStatus S_FATAL (channel_name config @ '' delayed for '' @ num delay @ '' seconds.'') s0 else s0);
                     s2 = fold (\<lambda>field s. if \<not> ValidateFields msg (split_dots field)
                                  then EscalateStatus S_ERROR (channel_name config @ '' missing field '' @ field) s else s)
                            (mandatory_fields config) s1;
                     s3 = (case freq of None \<Rightarrow> s2 | Some q \<Rightarrow>
                             let s' = (if q > max_frequency_allowed config
                                   then EscalateStatus S_WARN (channel_name config @ '' has frequency '' @ num q @ '' > max allowed ''
                                          @ num (max_frequency_allowed config)) s2 else s2)
                             in if q < min_frequency_allowed config
                                then EscalateStatus S_WARN (channel_name config @ '' has frequency '' @ num q @ '' < min allowed ''
                                          @ num (max_frequency_allowed config)) s' else s')
                 in EscalateStatus S_OK '''' s3))"

record latency_monitor =
  last_processed_key :: string
  freq_map :: "string \<Rightarrow> real option"

definition GetFrequency :: "string \<Rightarrow> latency_monitor \<Rightarrow> real option" where
  "GetFrequency name lm = freq_map lm name"

text \<open>
  The part of \<open>UpdateStat\<close> the frequencies come from; \<open>Time(n).ToSecond()\<close> divides nanoseconds by 1e9.
  The statistics of the periodic latency report are left out.
\<close>

definition Latency_UpdateStat :: "(real \<Rightarrow> real) \<Rightarrow> latency_record_map \<Rightarrow> (string \<Rightarrow> real option) \<Rightarrow> (string \<Rightarrow> real option)" where
  "Latency_UpdateStat rnd recs freq =
     (if latency_records recs = [] then freq
      else let b = begin_time (hd (latency_records recs)); e = end_time (last (latency_records recs))
           in if e > b
              then freq(lr_module_name recs \<mapsto>
                     rnd (real (length (latency_records recs)) / rnd (rnd (real (unat (e - b))) / 1000000000)))
              else freq)"

fun latency_loop ::
  "(real \<Rightarrow> real) \<Rightarrow> (real \<Rightarrow> string) \<Rightarrow> string \<Rightarrow> latency_record_map list \<Rightarrow> (string \<Rightarrow> real option) \<Rightarrow> (string \<Rightarrow> real option)" where
  "latency_loop rnd num last_key [] freq = freq"
| "latency_loop rnd num last_key (m # ms) freq =
     (if lr_module_name m @ num (real (unat (sequence_num m))) = last_key then freq
      else latency_loop rnd num last_key ms (Latency_UpdateStat rnd m freq))"

definition Latency_RunOnce :: "(real \<Rightarrow> real) \<Rightarrow> (real \<Rightarrow> string) \<Rightarrow> readings \<Rightarrow> latency_monitor \<Rightarrow> latency_monitor" where
  "Latency_RunOnce rnd num r lm =
     \<lparr>last_processed_key = (case latency_history r of [] \<Rightarrow> '''' | m # _ \<Rightarrow> lr_module_name m @ num (real (unat (sequence_num m)))),
      freq_map = latency_loop rnd num (last_processed_key lm) (latency_history r) (freq_map lm)\<rparr>"

definition Channel_RunOnce ::
  "(real \<Rightarrow> string) \<Rightarrow> readings \<Rightarrow> latency_monitor \<Rightarrow> hmi_mode \<Rightarrow> system_status \<Rightarrow> system_status option" where
  "Channel_RunOnce num r lm mode s = do {
     cs \<leftarrow> at_each (\<lambda>mc. map_option (\<lambda>cfg c. c\<lparr>channel_status :=
             Channel_UpdateStatus num cfg (channels r (channel_name cfg)) (GetFrequency (channel_name cfg) lm) (channel_status c)\<rparr>)
             (mc_channel mc)) (mode_components mode) (components s);
     Some (s\<lparr>components := cs\<rparr>) }"

text \<open>A limit with an error and a warning threshold; \<open>worse\<close> compares the value with one of them.\<close>

definition check_limit :: "('a \<Rightarrow> bool) \<Rightarrow> ('a \<Rightarrow> string) \<Rightarrow> 'a \<Rightarrow> 'a \<Rightarrow> component_status \<Rightarrow> component_status" where
  "check_limit worse text warning error s =
     (if worse error then EscalateStatus S_ERROR (text error) s
      else if worse warning then EscalateStatus S_WARN (text warning) s else s)"

text \<open>\<open>static_cast<int>(space.available >> 30)\<close>.\<close>

definition available_gb :: "u64 \<Rightarrow> int" where
  "available_gb available = signed_take_bit 31 (uint (drop_bit 30 available))"

definition CheckDiskSpace :: "(real \<Rightarrow> string) \<Rightarrow> readings \<Rightarrow> resource_config \<Rightarrow> component_status \<Rightarrow> component_status" where
  "CheckDiskSpace num r config =
     fold (\<lambda>(pattern, warning, error).
       fold (\<lambda>(path, available).
         check_limit (\<lambda>limit. available_gb available < limit)
           (\<lambda>limit. path @ '' has insufficient space: '' @ num (of_int (available_gb available)) @ ''GB < '' @ num (of_int limit))
           warning error) (path_space r pattern)) (disk_spaces config)"

definition CheckCPUUsage :: "(real \<Rightarrow> string) \<Rightarrow> readings \<Rightarrow> resource_config \<Rightarrow> component_status \<Rightarrow> component_status" where
  "CheckCPUUsage num r config =
     fold (\<lambda>(name, warning, error).
       check_limit (\<lambda>limit. cpu_usage r name > limit)
         (\<lambda>limit. name @ '' has high cpu usage: '' @ num (cpu_usage r name) @ ''% > '' @ num limit @ ''%'')
         warning error) (cpu_usages config)"

definition CheckMemoryUsage :: "(real \<Rightarrow> string) \<Rightarrow> readings \<Rightarrow> resource_config \<Rightarrow> component_status \<Rightarrow> component_status" where
  "CheckMemoryUsage num r config =
     fold (\<lambda>(name, warning, error).
       check_limit (\<lambda>limit. memory_usage r name > of_int limit)
         (\<lambda>limit. name @ '' has high memory usage: '' @ num (memory_usage r name) @ '' > '' @ num (of_int limit))
         warning error) (memory_usages config)"

definition CheckDiskLoads :: "(real \<Rightarrow> string) \<Rightarrow> readings \<Rightarrow> resource_config \<Rightarrow> component_status \<Rightarrow> component_status" where
  "CheckDiskLoads num r config =
     fold (\<lambda>(device, warning, error).
       check_limit (\<lambda>limit. disk_load r device > of_int limit)
         (\<lambda>limit. device @ '' has high disk load: '' @ num (disk_load r device) @ '' > '' @ num (of_int limit))
         warning error) (disk_load_usages config)"

definition Resource_UpdateStatus :: "(real \<Rightarrow> string) \<Rightarrow> readings \<Rightarrow> resource_config \<Rightarrow> component_status \<Rightarrow> component_status" where
  "Resource_UpdateStatus num r config s =
     EscalateStatus S_OK '''' (CheckDiskLoads num r config (CheckMemoryUsage num r config
       (CheckCPUUsage num r config (CheckDiskSpace num r config (clear_status s)))))"

definition Resource_RunOnce :: "(real \<Rightarrow> string) \<Rightarrow> readings \<Rightarrow> hmi_mode \<Rightarrow> system_status \<Rightarrow> system_status option" where
  "Resource_RunOnce num r mode s = do {
     cs \<leftarrow> at_each (\<lambda>mc. map_option (\<lambda>cfg c. c\<lparr>resource_status := Resource_UpdateStatus num r cfg (resource_status c)\<rparr>)
             (mc_resource mc)) (mode_components mode) (components s);
     Some (s\<lparr>components := cs\<rparr>) }"

section \<open>The manager\<close>

text \<open>The chassis message as the manager reads it: the module that sent it, its time, the driving mode.\<close>

record chassis_report =
  sender_name :: string
  timestamp_sec :: real
  report_mode :: driving_mode

record monitor_manager =
  sys_status :: system_status
  current_mode :: string
  mode_config :: hmi_mode
  in_autonomous_driving :: bool

definition CheckAutonomousDriving :: "(real \<Rightarrow> real) \<Rightarrow> bool \<Rightarrow> real \<Rightarrow> chassis_report option \<Rightarrow> real \<Rightarrow> bool" where
  "CheckAutonomousDriving rnd use_sim_time lifetime chassis current_time =
     (if use_sim_time then False
      else case chassis of
        None \<Rightarrow> False
      | Some c \<Rightarrow>
          if sender_name c = ''SimControl'' then False
          else if rnd (timestamp_sec c + lifetime) < current_time then False
          else report_mode c = COMPLETE_AUTO_DRIVE)"

text \<open>
  \<open>hmi\<close> is the mode in the HMI's status, \<open>load_mode\<close> the modes of the configuration with \<open>LoadMode\<close>
  applied; the keys of a protobuf map are distinct. Nothing happens without an HMI status.
\<close>

definition clear_summary :: "component \<Rightarrow> component" where
  "clear_summary c = c\<lparr>summary := empty_status\<rparr>"

definition StartFrame ::
  "(real \<Rightarrow> real) \<Rightarrow> bool \<Rightarrow> real \<Rightarrow> (string \<Rightarrow> hmi_mode option) \<Rightarrow> string option \<Rightarrow> chassis_report option \<Rightarrow> real \<Rightarrow>
   monitor_manager \<Rightarrow> (bool \<times> monitor_manager) option" where
  "StartFrame rnd use_sim_time lifetime load_mode hmi chassis current_time m =
     (case hmi of
        None \<Rightarrow> Some (False, m)
      | Some mode_name \<Rightarrow> do {
          m1 \<leftarrow> (if current_mode m \<noteq> mode_name then do {
                   mode \<leftarrow> load_mode mode_name;
                   Some (m\<lparr>current_mode := mode_name, mode_config := mode,
                     sys_status := (sys_status m)\<lparr>
                       hmi_modules := map_of (map (\<lambda>(k, _). (k, empty_status)) (mode_modules mode)),
                       components := map_of (map (\<lambda>(k, _). (k, new_component)) (mode_components mode)),
                       other_components := map_of (map (\<lambda>(k, _). (k, empty_status)) (mode_others mode))\<rparr>\<rparr>) }
                 else Some (m\<lparr>sys_status := (sys_status m)\<lparr>components := map_option clear_summary \<circ> components (sys_status m)\<rparr>\<rparr>));
          Some (True, m1\<lparr>in_autonomous_driving := CheckAutonomousDriving rnd use_sim_time lifetime chassis current_time\<rparr>) })"
section \<open>Summary and functional safety\<close>

definition summarize :: "component \<Rightarrow> component" where
  "summarize c = c\<lparr>summary :=
     fold (\<lambda>s. EscalateStatus (st s) (case message s of Some text \<Rightarrow> text | None \<Rightarrow> ''''))
       [process_status c, module_status c, channel_status c, resource_status c, other_status c] (summary c)\<rparr>"

record summary_monitor =
  system_status_fp :: u64
  last_broadcast :: real

text \<open>\<open>hash\<close> is the hash of the serialised status; a status that is broadcast is added to the output.\<close>

definition Summary_RunOnce ::
  "(real \<Rightarrow> real) \<Rightarrow> (system_status \<Rightarrow> u64) \<Rightarrow> real \<Rightarrow> system_status \<Rightarrow> summary_monitor \<Rightarrow>
   system_status \<times> summary_monitor \<times> system_status list" where
  "Summary_RunOnce rnd hash current_time s sm =
     (let s1 = s\<lparr>components := map_option summarize \<circ> components s\<rparr>;
          new_fp = hash s1
      in if system_status_fp sm \<noteq> new_fp \<or> rnd (current_time - last_broadcast sm) > 1
         then (s1, \<lparr>system_status_fp = new_fp, last_broadcast = current_time\<rparr>, [s1])
         else (s1, sm, []))"

definition IsSafe :: "component_status \<Rightarrow> bool" where
  "IsSafe s \<longleftrightarrow> \<not> (st s = S_ERROR \<or> st s = S_FATAL)"

fun check_entries :: "('c \<Rightarrow> bool) \<Rightarrow> ('a \<Rightarrow> component_status) \<Rightarrow> (string \<times> 'c) list \<Rightarrow> (string \<Rightarrow> 'a option) \<Rightarrow> bool option" where
  "check_entries required get [] m = Some True"
| "check_entries required get ((k, c) # cs) m =
     (if required c
      then (case m k of None \<Rightarrow> None | Some v \<Rightarrow> if \<not> IsSafe (get v) then Some False else check_entries required get cs m)
      else check_entries required get cs m)"

definition CheckSafety :: "monitor_manager \<Rightarrow> bool option" where
  "CheckSafety m =
     (if \<not> in_autonomous_driving m then Some True
      else do {
        safe \<leftarrow> check_entries module_required id (mode_modules (mode_config m)) (hmi_modules (sys_status m));
        if \<not> safe then Some False
        else check_entries mc_required summary (mode_components (mode_config m)) (components (sys_status m)) })"

definition safety_mode_seconds_before_estop :: real where
  "safety_mode_seconds_before_estop = 10"

definition FunctionalSafety_RunOnce :: "(real \<Rightarrow> real) \<Rightarrow> real \<Rightarrow> monitor_manager \<Rightarrow> system_status option" where
  "FunctionalSafety_RunOnce rnd current_time m = do {
     safe \<leftarrow> CheckSafety m;
     let s = sys_status m;
     Some (if safe then s\<lparr>passenger_msg := None, safety_mode_trigger_time := None, require_emergency_stop := False\<rparr>
           else if require_emergency_stop s then s
           else let s1 = s\<lparr>passenger_msg := Some ''Error! Please disengage.''\<rparr>
                in case safety_mode_trigger_time s1 of
                     None \<Rightarrow> s1\<lparr>safety_mode_trigger_time := Some current_time\<rparr>
                   | Some t \<Rightarrow> if rnd (t + safety_mode_seconds_before_estop) < current_time
                       then s1\<lparr>require_emergency_stop := True\<rparr> else s1) }"

section \<open>A frame\<close>

datatype runner_kind = EsdCanMonitor | SocketCanMonitor | GpsMonitor | LocalizationMonitor | CameraMonitor | ProcessMonitor
  | ModuleMonitor | LatencyMonitor | ChannelMonitor | ResourceMonitor | SummaryMonitor | FunctionalSafetyMonitor

record runner =
  kind :: runner_kind
  run_interval :: real
  next_round :: real
  round_count :: u32

record monitor =
  mgr :: monitor_manager
  smon :: summary_monitor
  lmon :: latency_monitor
  runners :: "runner list"
  broadcasts :: "system_status list"

definition new_runner :: "runner_kind \<Rightarrow> real \<Rightarrow> runner" where
  "new_runner k iv = \<lparr>kind = k, run_interval = iv, next_round = 0, round_count = 0\<rparr>"

definition Monitor_Init :: "bool \<Rightarrow> runner list" where
  "Monitor_Init enable_functional_safety =
     [new_runner EsdCanMonitor 3, new_runner SocketCanMonitor 3, new_runner GpsMonitor 3, new_runner LocalizationMonitor 5,
      new_runner CameraMonitor 5, new_runner ProcessMonitor (3 / 2), new_runner ModuleMonitor (3 / 2),
      new_runner LatencyMonitor (3 / 2), new_runner ChannelMonitor 5,
      new_runner ResourceMonitor 5, new_runner SummaryMonitor 0] @
     (if enable_functional_safety then [new_runner FunctionalSafetyMonitor 0] else [])"

definition new_monitor :: "bool \<Rightarrow> monitor" where
  "new_monitor enable_functional_safety =
     \<lparr>mgr = \<lparr>sys_status = \<lparr>hmi_modules = Map.empty, components = Map.empty, other_components = Map.empty, passenger_msg = None,
               safety_mode_trigger_time = None, require_emergency_stop = False\<rparr>,
             current_mode = '''', mode_config = no_mode, in_autonomous_driving = False\<rparr>,
      smon = \<lparr>system_status_fp = 0, last_broadcast = 0\<rparr>, lmon = \<lparr>last_processed_key = '''', freq_map = Map.empty\<rparr>,
      runners = Monitor_Init enable_functional_safety, broadcasts = []\<rparr>"

text \<open>The arguments that do not change from frame to frame.\<close>

record environment =
  rounding :: "real \<Rightarrow> real"
  number_text :: "real \<Rightarrow> string"
  status_hash :: "system_status \<Rightarrow> u64"
  modes :: "string \<Rightarrow> hmi_mode option"
  sim_time :: bool
  status_lifetime :: real

definition on_status :: "system_status \<Rightarrow> monitor \<Rightarrow> monitor" where
  "on_status s m = m\<lparr>mgr := (mgr m)\<lparr>sys_status := s\<rparr>\<rparr>"

definition RunOnce :: "environment \<Rightarrow> readings \<Rightarrow> real \<Rightarrow> runner_kind \<Rightarrow> monitor \<Rightarrow> monitor option" where
  "RunOnce env r current_time k m =
     (let s = sys_status (mgr m); mode = mode_config (mgr m) in
      case k of
        EsdCanMonitor \<Rightarrow> Some (on_status (EsdCan_RunOnce s) m)
      | SocketCanMonitor \<Rightarrow> Some (on_status (SocketCan_RunOnce r s) m)
      | GpsMonitor \<Rightarrow> Some (on_status (Gps_RunOnce r s) m)
      | LocalizationMonitor \<Rightarrow> Some (on_status (Localization_RunOnce r s) m)
      | CameraMonitor \<Rightarrow> Some (on_status (Camera_RunOnce r s) m)
      | ProcessMonitor \<Rightarrow> map_option (\<lambda>s'. on_status s' m) (Process_RunOnce r mode s)
      | ModuleMonitor \<Rightarrow> Some (on_status (Module_RunOnce r mode s) m)
      | LatencyMonitor \<Rightarrow> Some (m\<lparr>lmon := Latency_RunOnce (rounding env) (number_text env) r (lmon m)\<rparr>)
      | ChannelMonitor \<Rightarrow> map_option (\<lambda>s'. on_status s' m) (Channel_RunOnce (number_text env) r (lmon m) mode s)
      | ResourceMonitor \<Rightarrow> map_option (\<lambda>s'. on_status s' m) (Resource_RunOnce (number_text env) r mode s)
      | SummaryMonitor \<Rightarrow>
          (case Summary_RunOnce (rounding env) (status_hash env) current_time s (smon m) of
             (s', sm', out) \<Rightarrow> Some ((on_status s' m)\<lparr>smon := sm', broadcasts := broadcasts m @ out\<rparr>))
      | FunctionalSafetyMonitor \<Rightarrow>
          map_option (\<lambda>s'. on_status s' m) (FunctionalSafety_RunOnce (rounding env) current_time (mgr m)))"

definition Tick :: "environment \<Rightarrow> readings \<Rightarrow> real \<Rightarrow> runner \<Rightarrow> monitor \<Rightarrow> (runner \<times> monitor) option" where
  "Tick env r current_time w m =
     (if next_round w \<le> current_time
      then map_option (Pair (w\<lparr>round_count := round_count w + 1, next_round := rounding env (current_time + run_interval w)\<rparr>))
             (RunOnce env r current_time (kind w) m)
      else Some (w, m))"

fun tick_all :: "environment \<Rightarrow> readings \<Rightarrow> real \<Rightarrow> runner list \<Rightarrow> monitor \<Rightarrow> (runner list \<times> monitor) option" where
  "tick_all env r current_time [] m = Some ([], m)"
| "tick_all env r current_time (w # ws) m = do {
     (w', m1) \<leftarrow> Tick env r current_time w m;
     (ws', m2) \<leftarrow> tick_all env r current_time ws m1;
     Some (w' # ws', m2) }"

text \<open>The mode in the latest HMI status, the latest chassis message, and what the monitors read.\<close>

record frame_input =
  hmi_current_mode :: "string option"
  latest_chassis :: "chassis_report option"
  frame_readings :: readings
  frame_time :: real

definition Monitor_Proc :: "environment \<Rightarrow> frame_input \<Rightarrow> monitor \<Rightarrow> (bool \<times> monitor) option" where
  "Monitor_Proc env i m = do {
     (ok, g) \<leftarrow> StartFrame (rounding env) (sim_time env) (status_lifetime env) (modes env) (hmi_current_mode i)
                  (latest_chassis i) (frame_time i) (mgr m);
     if \<not> ok then Some (False, m\<lparr>mgr := g\<rparr>)
     else do {
       (ws, m1) \<leftarrow> tick_all env (frame_readings i) (frame_time i) (runners m) (m\<lparr>mgr := g\<rparr>);
       Some (True, m1\<lparr>runners := ws\<rparr>) } }"

end
