(* ===== verification/SafetyMonitor.thy ===== *)
theory SafetyMonitor
  imports SystemMonitor
begin

text \<open>
  What the system monitor guarantees: when a frame aborts, that the published summary is the worst
  status of each component, and when the safety mode and the emergency stop are on.
\<close>

section \<open>Lookups that cannot fail\<close>

definition entries_all :: "('a \<Rightarrow> bool) \<Rightarrow> (string \<Rightarrow> 'a option) \<Rightarrow> bool" where
  "entries_all P m \<longleftrightarrow> (\<forall>k v. m k = Some v \<longrightarrow> P v)"

lemma entries_all_upd: "entries_all P m \<Longrightarrow> P v \<Longrightarrow> entries_all P (m(k \<mapsto> v))"
  by (simp add: entries_all_def)

lemma entries_allD: "entries_all P m \<Longrightarrow> m k = Some v \<Longrightarrow> P v"
  by (simp add: entries_all_def)

lemma at_each_succeeds: "fst ` set cs \<subseteq> dom m \<Longrightarrow> \<exists>m'. at_each f cs m = Some m' \<and> dom m' = dom m"
proof (induction cs arbitrary: m)
  case (Cons kc cs)
  obtain k c where kc: "kc = (k, c)" by (rule prod.exhaust)
  with Cons.prems obtain v where v: "m k = Some v" by auto
  show ?case
  proof (cases "f c")
    case None
    then show ?thesis using Cons by (simp add: kc)
  next
    case (Some g)
    define m1 where "m1 = m(k \<mapsto> g v)"
    have d: "dom m1 = dom m" using v by (simp add: m1_def insert_absorb domI)
    have "at_each f (kc # cs) m = at_each f cs m1" by (simp add: kc Some v m1_def)
    then show ?thesis using Cons.IH [of m1] Cons.prems by (simp add: d)
  qed
qed simp

lemma at_each_all:
  assumes "\<And>c g v. f c = Some g \<Longrightarrow> P v \<Longrightarrow> P (g v)"
  shows "at_each f cs m = Some m' \<Longrightarrow> entries_all P m \<Longrightarrow> entries_all P m'"
proof (induction cs arbitrary: m)
  case (Cons kc cs)
  obtain k c where kc: "kc = (k, c)" by (rule prod.exhaust)
  show ?case
  proof (cases "f c")
    case None
    then show ?thesis using Cons by (simp add: kc)
  next
    case (Some g)
    then obtain v where v: "m k = Some v" using Cons.prems by (simp add: kc split: option.splits)
    define m1 where "m1 = m(k \<mapsto> g v)"
    have "entries_all P m1"
      unfolding m1_def using assms [OF Some] entries_allD [OF Cons.prems(2) v] entries_all_upd [OF Cons.prems(2)] by blast
    moreover have "at_each f (kc # cs) m = at_each f cs m1" by (simp add: kc Some v m1_def)
    ultimately show ?thesis using Cons.IH [of m1] Cons.prems(1) by simp
  qed
qed simp

lemma if_present_step:
  "if_present f ((k, c) # cs) m = if_present f cs (case (f k c, m k) of (Some g, Some v) \<Rightarrow> m(k \<mapsto> g v) | _ \<Rightarrow> m)"
  by (simp split: option.split)

lemma if_present_dom: "dom (if_present f cs m) = dom m"
proof (induction cs arbitrary: m)
  case (Cons kc cs)
  obtain k c where kc: "kc = (k, c)" by (rule prod.exhaust)
  have "dom (case (f k c, m k) of (Some g, Some v) \<Rightarrow> m(k \<mapsto> g v) | _ \<Rightarrow> m) = dom m"
    by (auto split: option.split)
  then show ?case unfolding kc if_present_step Cons.IH .
qed simp

lemma if_present_all:
  assumes "\<And>k c g v. f k c = Some g \<Longrightarrow> P v \<Longrightarrow> P (g v)"
  shows "entries_all P m \<Longrightarrow> entries_all P (if_present f cs m)"
proof (induction cs arbitrary: m)
  case (Cons kc cs)
  obtain k c where kc: "kc = (k, c)" by (rule prod.exhaust)
  have "entries_all P (case (f k c, m k) of (Some g, Some v) \<Rightarrow> m(k \<mapsto> g v) | _ \<Rightarrow> m)"
    using assms Cons.prems by (auto simp: entries_all_def split: option.split)
  then show ?case unfolding kc if_present_step by (rule Cons.IH)
qed simp

lemma find_or_skip_dom: "dom (find_or_skip k g m) = dom m"
  by (auto simp: find_or_skip_def split: option.split)

lemma find_or_skip_all: "(\<And>v. P v \<Longrightarrow> P (g v)) \<Longrightarrow> entries_all P m \<Longrightarrow> entries_all P (find_or_skip k g m)"
  by (auto simp: find_or_skip_def entries_all_def split: option.split)

lemma check_entries_succeeds: "fst ` set cs \<subseteq> dom m \<Longrightarrow> check_entries req get cs m \<noteq> None"
  by (induction req get cs m rule: check_entries.induct) (auto split: option.split)

section \<open>The keys of the status are those of the mode\<close>

definition keys_of :: "hmi_mode \<Rightarrow> system_status \<Rightarrow> bool" where
  "keys_of mode s \<longleftrightarrow> dom (hmi_modules s) = fst ` set (mode_modules mode) \<and>
     dom (components s) = fst ` set (mode_components mode) \<and> dom (other_components s) = fst ` set (mode_others mode)"

text \<open>The status runner \<open>k\<close> leaves from \<open>s\<close>, without the other state.\<close>

definition fresh_summaries :: "system_status \<Rightarrow> bool" where
  "fresh_summaries s \<longleftrightarrow> entries_all (\<lambda>c. summary c = empty_status) (components s)"

definition safety_fields :: "system_status \<Rightarrow> string option \<times> real option \<times> bool" where
  "safety_fields s = (passenger_msg s, safety_mode_trigger_time s, require_emergency_stop s)"

text \<open>A runner before the summary: it succeeds, keeps the keys, the summaries and the safety fields.\<close>

definition quiet :: "system_status \<Rightarrow> system_status \<Rightarrow> bool" where
  "quiet s s' \<longleftrightarrow> (\<forall>mode. keys_of mode s \<longrightarrow> keys_of mode s') \<and> (fresh_summaries s \<longrightarrow> fresh_summaries s') \<and>
     safety_fields s' = safety_fields s"

lemma quiet_refl: "quiet s s"
  by (simp add: quiet_def)

lemma quiet_components:
  assumes "dom cs = dom (components s)"
    and "entries_all (\<lambda>c. summary c = empty_status) (components s) \<Longrightarrow> entries_all (\<lambda>c. summary c = empty_status) cs"
  shows "quiet s (s\<lparr>components := cs\<rparr>)"
  using assms unfolding quiet_def keys_of_def fresh_summaries_def safety_fields_def by simp

lemma quiet_other: "quiet s (s\<lparr>components := find_or_skip k (on_other_status f) (components s)\<rparr>)"
  by (rule quiet_components)
    (simp_all add: find_or_skip_dom find_or_skip_all on_other_status_def)

lemma quiet_Module: "quiet s (Module_RunOnce r mode s)"
  unfolding Module_RunOnce_def
  by (rule quiet_components)
    (auto simp: if_present_dom intro!: if_present_all)

lemma quiet_Channel:
  assumes "keys_of mode s"
  shows "\<exists>s'. Channel_RunOnce num r lm mode s = Some s' \<and> quiet s s'"
proof -
  let ?f = "\<lambda>mc. map_option (\<lambda>cfg c. c\<lparr>channel_status :=
             Channel_UpdateStatus num cfg (channels r (channel_name cfg)) (GetFrequency (channel_name cfg) lm) (channel_status c)\<rparr>)
             (mc_channel mc)"
  have "fst ` set (mode_components mode) \<subseteq> dom (components s)" using assms by (simp add: keys_of_def)
  then obtain cs where cs: "at_each ?f (mode_components mode) (components s) = Some cs" "dom cs = dom (components s)"
    using at_each_succeeds [of "mode_components mode" "components s" ?f] by blast
  have "quiet s (s\<lparr>components := cs\<rparr>)"
    by (rule quiet_components [OF cs(2)]) (rule at_each_all [OF _ cs(1)], auto)
  then show ?thesis by (simp add: Channel_RunOnce_def cs(1))
qed

lemma quiet_Resource:
  assumes "keys_of mode s"
  shows "\<exists>s'. Resource_RunOnce num r mode s = Some s' \<and> quiet s s'"
proof -
  let ?f = "\<lambda>mc. map_option (\<lambda>cfg c. c\<lparr>resource_status := Resource_UpdateStatus num r cfg (resource_status c)\<rparr>) (mc_resource mc)"
  have "fst ` set (mode_components mode) \<subseteq> dom (components s)" using assms by (simp add: keys_of_def)
  then obtain cs where cs: "at_each ?f (mode_components mode) (components s) = Some cs" "dom cs = dom (components s)"
    using at_each_succeeds [of "mode_components mode" "components s" ?f] by blast
  have "quiet s (s\<lparr>components := cs\<rparr>)"
    by (rule quiet_components [OF cs(2)]) (rule at_each_all [OF _ cs(1)], auto)
  then show ?thesis by (simp add: Resource_RunOnce_def cs(1))
qed

lemma quiet_Process:
  assumes "keys_of mode s"
  shows "\<exists>s'. Process_RunOnce r mode s = Some s' \<and> quiet s s'"
proof -
  let ?f = "\<lambda>m. Some (Process_UpdateStatus (running_processes r) (process_monitor_config m))"
  let ?g = "\<lambda>kw. Some (Process_UpdateStatus (running_processes r) kw)"
  let ?h = "\<lambda>_ mc. map_option (\<lambda>kw c. c\<lparr>process_status := Process_UpdateStatus (running_processes r) kw (process_status c)\<rparr>)
     (mc_process mc)"
  have "fst ` set (mode_modules mode) \<subseteq> dom (hmi_modules s)" "fst ` set (mode_others mode) \<subseteq> dom (other_components s)"
    using assms by (simp_all add: keys_of_def)
  then obtain hs os where hs: "at_each ?f (mode_modules mode) (hmi_modules s) = Some hs" "dom hs = dom (hmi_modules s)"
    and os: "at_each ?g (mode_others mode) (other_components s) = Some os" "dom os = dom (other_components s)"
    using at_each_succeeds [of "mode_modules mode" "hmi_modules s" ?f] at_each_succeeds [of "mode_others mode" "other_components s" ?g]
    by blast
  have "quiet s (s\<lparr>components := if_present ?h (mode_components mode) (components s)\<rparr>)"
    by (rule quiet_components)
      (auto simp: if_present_dom intro!: if_present_all)
  then have "quiet s (s\<lparr>hmi_modules := hs, components := if_present ?h (mode_components mode) (components s), other_components := os\<rparr>)"
    using hs(2) os(2) unfolding quiet_def keys_of_def fresh_summaries_def safety_fields_def by simp
  then show ?thesis by (simp add: Process_RunOnce_def hs(1) os(1))
qed
section \<open>Frames\<close>

text \<open>Only the status of the manager and the frequencies differ.\<close>

definition same_rest :: "monitor \<Rightarrow> monitor \<Rightarrow> bool" where
  "same_rest m m' \<longleftrightarrow> current_mode (mgr m') = current_mode (mgr m) \<and> mode_config (mgr m') = mode_config (mgr m) \<and>
     in_autonomous_driving (mgr m') = in_autonomous_driving (mgr m) \<and> runners m' = runners m \<and> smon m' = smon m \<and>
     broadcasts m' = broadcasts m"

definition quiet_kind :: "runner_kind \<Rightarrow> bool" where
  "quiet_kind k \<longleftrightarrow> k \<noteq> SummaryMonitor \<and> k \<noteq> FunctionalSafetyMonitor"

definition mgr_keys :: "monitor_manager \<Rightarrow> bool" where
  "mgr_keys g \<longleftrightarrow> keys_of (mode_config g) (sys_status g)"

lemma quiet_trans: "quiet a b \<Longrightarrow> quiet b c \<Longrightarrow> quiet a c"
  by (simp add: quiet_def)

lemma RunOnce_quiet:
  assumes "mgr_keys (mgr m)" and "quiet_kind k"
  shows "\<exists>m'. RunOnce env r t k m = Some m' \<and> quiet (sys_status (mgr m)) (sys_status (mgr m')) \<and> same_rest m m'"
proof -
  have k: "keys_of (mode_config (mgr m)) (sys_status (mgr m))" using assms(1) by (simp add: mgr_keys_def)
  note q = quiet_Process [OF k, of r] quiet_Channel [OF k, of "number_text env" r "lmon m"] quiet_Resource [OF k, of "number_text env" r]
  show ?thesis
    using assms(2) q
    by (cases k)
      (auto simp: RunOnce_def on_status_def same_rest_def quiet_kind_def quiet_refl quiet_other quiet_Module EsdCan_RunOnce_def
        SocketCan_RunOnce_def Gps_RunOnce_def Localization_RunOnce_def Camera_RunOnce_def Let_def)
qed

lemma same_rest_keys: "mgr_keys (mgr m) \<Longrightarrow> quiet (sys_status (mgr m)) (sys_status (mgr m')) \<Longrightarrow> same_rest m m' \<Longrightarrow> mgr_keys (mgr m')"
  by (simp add: mgr_keys_def quiet_def same_rest_def)

lemma same_rest_trans: "same_rest a b \<Longrightarrow> same_rest b c \<Longrightarrow> same_rest a c"
  by (simp add: same_rest_def)

lemma same_rest_refl: "same_rest m m"
  by (simp add: same_rest_def)

lemma tick_all_quiet:
  "mgr_keys (mgr m) \<Longrightarrow> \<forall>w \<in> set ws. quiet_kind (kind w) \<Longrightarrow>
   \<exists>ws' m'. tick_all env r t ws m = Some (ws', m') \<and> map kind ws' = map kind ws \<and>
     quiet (sys_status (mgr m)) (sys_status (mgr m')) \<and> same_rest m m'"
proof (induction ws arbitrary: m)
  case Nil
  then show ?case by (simp add: quiet_refl same_rest_refl)
next
  case (Cons w ws)
  have "quiet_kind (kind w)" using Cons.prems(2) by simp
  from RunOnce_quiet [OF Cons.prems(1) this, of env r t]
  have "\<exists>w' m1. Tick env r t w m = Some (w', m1) \<and> kind w' = kind w \<and> quiet (sys_status (mgr m)) (sys_status (mgr m1)) \<and> same_rest m m1"
    by (auto simp: Tick_def quiet_refl same_rest_refl)
  then obtain w' m1 where w: "Tick env r t w m = Some (w', m1)" "kind w' = kind w" "quiet (sys_status (mgr m)) (sys_status (mgr m1))"
    "same_rest m m1" by blast
  from same_rest_keys [OF Cons.prems(1) w(3,4)] have "mgr_keys (mgr m1)" .
  then obtain ws' m2 where ws: "tick_all env r t ws m1 = Some (ws', m2)" "map kind ws' = map kind ws"
    "quiet (sys_status (mgr m1)) (sys_status (mgr m2))" "same_rest m1 m2"
    using Cons.IH [of m1] Cons.prems(2) by auto
  show ?case
    using w(1,2) ws(1,2) quiet_trans [OF w(3) ws(3)] same_rest_trans [OF w(4) ws(4)] by simp
qed

lemma tick_all_append:
  "tick_all env r t (xs @ ys) m = do {
     (xs', m1) \<leftarrow> tick_all env r t xs m;
     (ys', m2) \<leftarrow> tick_all env r t ys m1;
     Some (xs' @ ys', m2) }"
proof (induction xs arbitrary: m)
  case Nil
  show ?case by (cases "tick_all env r t ys m") auto
next
  case (Cons x xs)
  show ?case
  proof (cases "Tick env r t x m")
    case (Some p)
    obtain x' m1 where p: "p = (x', m1)" by (rule prod.exhaust)
    show ?thesis by (cases "tick_all env r t xs m1") (auto simp: Some p Cons split: option.split bind_splits)
  qed simp
qed

text \<open>The runners of \<open>Init\<close>, the last ones due at \<open>T\<close>.\<close>

definition due :: "runner_kind \<Rightarrow> real \<Rightarrow> runner \<Rightarrow> bool" where
  "due k T w \<longleftrightarrow> kind w = k \<and> run_interval w = 0 \<and> next_round w \<le> T"

definition shape :: "bool \<Rightarrow> real \<Rightarrow> runner list \<Rightarrow> bool" where
  "shape b T rs \<longleftrightarrow> (\<exists>ws w fs. rs = ws @ w # fs \<and> (\<forall>x \<in> set ws. quiet_kind (kind x)) \<and> due SummaryMonitor T w \<and>
     (if b then (\<exists>f. fs = [f] \<and> due FunctionalSafetyMonitor T f) else fs = []))"

lemma Init_shape: "shape b 0 (Monitor_Init b)"
proof -
  let ?ws = "butlast (Monitor_Init False)"
  have 1: "Monitor_Init b = ?ws @ new_runner SummaryMonitor 0 # (if b then [new_runner FunctionalSafetyMonitor 0] else [])"
    by (simp add: Monitor_Init_def)
  show ?thesis unfolding 1 shape_def
    by (intro exI conjI, rule refl) (auto simp: Monitor_Init_def new_runner_def quiet_kind_def due_def)
qed

lemma CheckSafety_succeeds:
  assumes "mgr_keys g"
  shows "CheckSafety g \<noteq> None"
proof -
  have "check_entries module_required id (mode_modules (mode_config g)) (hmi_modules (sys_status g)) \<noteq> None"
    "check_entries mc_required summary (mode_components (mode_config g)) (components (sys_status g)) \<noteq> None"
    using assms check_entries_succeeds [of "mode_modules (mode_config g)" "hmi_modules (sys_status g)" module_required id]
      check_entries_succeeds [of "mode_components (mode_config g)" "components (sys_status g)" mc_required summary]
    by (simp_all add: mgr_keys_def keys_of_def)
  then show ?thesis by (auto simp: CheckSafety_def)
qed

lemma FunctionalSafety_succeeds:
  assumes "mgr_keys g"
  shows "\<exists>s'. FunctionalSafety_RunOnce rnd t g = Some s' \<and> hmi_modules s' = hmi_modules (sys_status g) \<and>
    components s' = components (sys_status g) \<and> other_components s' = other_components (sys_status g)"
proof -
  obtain b where "CheckSafety g = Some b" using CheckSafety_succeeds [OF assms] by blast
  then show ?thesis by (auto simp: FunctionalSafety_RunOnce_def Let_def split: option.split)
qed

lemma StartFrame_keys:
  assumes "mgr_keys g" and "StartFrame rnd sim lt ld hmi ch t g = Some (ok, g')"
  shows "mgr_keys g' \<and> (ok \<longrightarrow> fresh_summaries (sys_status g')) \<and> safety_fields (sys_status g') = safety_fields (sys_status g) \<and>
    (\<not> ok \<longrightarrow> g' = g)"
proof (cases hmi)
  case None
  then show ?thesis using assms by (simp add: StartFrame_def)
next
  case (Some name)
  have dom: "dom (map_of (map (\<lambda>(k, _). (k, v)) xs)) = fst ` set xs" for v :: 'a and xs :: "(string \<times> 'b) list"
    by (force simp: dom_map_of_conv_image_fst)
  have new: "entries_all (\<lambda>c. summary c = empty_status) (map_of (map (\<lambda>(k, _). (k, new_component)) xs))" for xs :: "(string \<times> 'b) list"
    by (auto simp: entries_all_def new_component_def dest!: map_of_SomeD)
  show ?thesis
  proof (cases "current_mode g = name")
    case True
    then have g': "ok" "g' = g\<lparr>sys_status := (sys_status g)\<lparr>components := map_option clear_summary \<circ> components (sys_status g)\<rparr>,
        in_autonomous_driving := CheckAutonomousDriving rnd sim lt ch t\<rparr>"
      using assms(2) by (simp_all add: StartFrame_def Some)
    then show ?thesis using assms(1)
      by (auto simp: mgr_keys_def keys_of_def fresh_summaries_def safety_fields_def entries_all_def clear_summary_def dom_map_option_comp)
  next
    case False
    then obtain mode where "ld name = Some mode" "ok" and g': "mode_config g' = mode"
      "hmi_modules (sys_status g') = map_of (map (\<lambda>(k, _). (k, empty_status)) (mode_modules mode))"
      "components (sys_status g') = map_of (map (\<lambda>(k, _). (k, new_component)) (mode_components mode))"
      "other_components (sys_status g') = map_of (map (\<lambda>(k, _). (k, empty_status)) (mode_others mode))"
      "safety_fields (sys_status g') = safety_fields (sys_status g)"
      using assms(2) by (auto simp: StartFrame_def Some safety_fields_def split: bind_splits)
    then show ?thesis by (simp add: mgr_keys_def keys_of_def fresh_summaries_def dom new)
  qed
qed

lemma StartFrame_fails_iff:
  "StartFrame rnd sim lt ld hmi ch t g = None \<longleftrightarrow> (\<exists>name. hmi = Some name \<and> name \<noteq> current_mode g \<and> ld name = None)"
  by (auto simp: StartFrame_def split: option.split bind_splits)

text \<open>A frame that runs: the quiet monitors, the summary, the safety check.\<close>

lemma Tick_due:
  "due k T w \<Longrightarrow> T \<le> t \<Longrightarrow> rounding env t = t \<Longrightarrow> RunOnce env r t k m = Some m' \<Longrightarrow>
    \<exists>w'. Tick env r t w m = Some (w', m') \<and> due k t w'"
  by (simp add: Tick_def due_def)

lemma Monitor_Proc_runs:
  assumes "mgr_keys (mgr m)" and "shape b T (runners m)" and "T \<le> t" and "rounding env t = t" and "frame_time i = t"
    and "StartFrame (rounding env) (sim_time env) (status_lifetime env) (modes env) (hmi_current_mode i) (latest_chassis i) t (mgr m)
      = Some (True, g)"
  shows "\<exists>m' s1. Monitor_Proc env i m = Some (True, m') \<and> shape b t (runners m') \<and> quiet (sys_status g) s1 \<and>
    (let g1 = g\<lparr>sys_status := s1\<lparr>components := map_option summarize \<circ> components s1\<rparr>\<rparr>
     in mgr m' = g1\<lparr>sys_status := if b then the (FunctionalSafety_RunOnce (rounding env) t g1) else sys_status g1\<rparr> \<and> mgr_keys (mgr m'))"
proof -
  obtain ws w fs where rs: "runners m = ws @ w # fs" "\<forall>x \<in> set ws. quiet_kind (kind x)" "due SummaryMonitor T w"
    "if b then (\<exists>f. fs = [f] \<and> due FunctionalSafetyMonitor T f) else fs = []" using assms(2) unfolding shape_def by blast
  let ?m = "m\<lparr>mgr := g\<rparr>" and ?r = "frame_readings i"
  have "mgr_keys (mgr ?m)" using StartFrame_keys [OF assms(1,6)] by simp
  from tick_all_quiet [OF this rs(2), of env ?r t] obtain ws' m1 where q: "tick_all env ?r t ws ?m = Some (ws', m1)"
    "map kind ws' = map kind ws" "quiet (sys_status g) (sys_status (mgr m1))" "same_rest ?m m1" by auto
  have ws': "\<forall>x \<in> set ws'. quiet_kind (kind x)"
    using rs(2) arg_cong [OF q(2), of set] by (metis (no_types, lifting) image_iff list.set_map)
  define s1 where "s1 = sys_status (mgr m1)"
  define g1 where "g1 = g\<lparr>sys_status := s1\<lparr>components := map_option summarize \<circ> components s1\<rparr>\<rparr>"
  have m1: "mgr m1 = g\<lparr>sys_status := s1\<rparr>" using q(4) by (simp add: same_rest_def s1_def)
  have keys1: "mgr_keys g1"
    using same_rest_keys [OF \<open>mgr_keys (mgr ?m)\<close> _ q(4)] q(3)
    by (simp add: mgr_keys_def keys_of_def g1_def m1 dom_map_option_comp)
  obtain m2 where m2: "RunOnce env ?r t SummaryMonitor m1 = Some m2" "mgr m2 = g1"
  proof -
    obtain s' sm' out where e: "Summary_RunOnce (rounding env) (status_hash env) t s1 (smon m1) = (s', sm', out)"
      by (rule prod_cases3)
    moreover from e have "s' = sys_status g1" by (auto simp: Summary_RunOnce_def g1_def Let_def split: if_splits)
    ultimately have "Summary_RunOnce (rounding env) (status_hash env) t s1 (smon m1) = (sys_status g1, sm', out)" by simp
    then show thesis
      by (intro that [of "(on_status (sys_status g1) m1)\<lparr>smon := sm', broadcasts := broadcasts m1 @ out\<rparr>"])
        (simp_all add: RunOnce_def on_status_def m1 g1_def Let_def)
  qed
  obtain w' where w': "Tick env ?r t w m1 = Some (w', m2)" "due SummaryMonitor t w'"
    using Tick_due [OF rs(3) assms(3,4) m2(1)] by blast
  show ?thesis
  proof (cases b)
    case False
    then have "tick_all env ?r t (runners m) ?m = Some (ws' @ [w'], m2)"
      using rs(1,4) by (simp add: tick_all_append q(1) w'(1))
    then have "Monitor_Proc env i m = Some (True, m2\<lparr>runners := ws' @ [w']\<rparr>)"
      using assms(5,6) by (simp add: Monitor_Proc_def)
    moreover have "shape b t (ws' @ [w'])" unfolding shape_def using False ws' w'(2)
      by (intro exI [of _ ws'] exI [of _ w'] exI [of _ "[]"]) auto
    ultimately show ?thesis using False m2(2) keys1 q(3)
      by (intro exI [of _ "m2\<lparr>runners := ws' @ [w']\<rparr>"] exI [of _ s1]) (simp add: s1_def [symmetric] g1_def [symmetric])
  next
    case True
    then obtain f where f: "fs = [f]" "due FunctionalSafetyMonitor T f" using rs(4) by auto
    obtain s3 where s3: "FunctionalSafety_RunOnce (rounding env) t g1 = Some s3" "hmi_modules s3 = hmi_modules (sys_status g1)"
      "components s3 = components (sys_status g1)" "other_components s3 = other_components (sys_status g1)"
      using FunctionalSafety_succeeds [OF keys1] by blast
    define m3 where "m3 = on_status s3 m2"
    have m3: "RunOnce env ?r t FunctionalSafetyMonitor m2 = Some m3" "mgr m3 = g1\<lparr>sys_status := s3\<rparr>"
      by (simp_all add: RunOnce_def m2(2) s3(1) m3_def on_status_def)
    obtain f' where f': "Tick env ?r t f m2 = Some (f', m3)" "due FunctionalSafetyMonitor t f'"
      using Tick_due [OF f(2) assms(3,4) m3(1)] by blast
    have "tick_all env ?r t (runners m) ?m = Some (ws' @ [w', f'], m3)"
      using rs(1) f(1) by (simp add: tick_all_append q(1) w'(1) f'(1))
    then have "Monitor_Proc env i m = Some (True, m3\<lparr>runners := ws' @ [w', f']\<rparr>)"
      using assms(5,6) by (simp add: Monitor_Proc_def)
    moreover have "shape b t (ws' @ [w', f'])" unfolding shape_def
      using True ws' w'(2) f'(2) by (intro exI [of _ ws'] exI [of _ w'] exI [of _ "[f']"]) auto
    moreover have "mgr_keys (g1\<lparr>sys_status := s3\<rparr>)" using keys1 s3(2-4) by (simp add: mgr_keys_def keys_of_def)
    ultimately show ?thesis using True m3(2) q(3) s3(1)
      by (intro exI [of _ "m3\<lparr>runners := ws' @ [w', f']\<rparr>"] exI [of _ s1])
        (simp add: s1_def [symmetric] g1_def [symmetric])
  qed
qed

section \<open>Every run of frames\<close>

text \<open>The monitor after frames, None when one aborted.\<close>

fun proc_all :: "environment \<Rightarrow> frame_input list \<Rightarrow> monitor \<Rightarrow> monitor option" where
  "proc_all env [] m = Some m"
| "proc_all env (i # is) m = Option.bind (Monitor_Proc env i m) (\<lambda>(_, m1). proc_all env is m1)"

text \<open>The times are doubles, not negative, and do not go back.\<close>

definition good_times :: "environment \<Rightarrow> real \<Rightarrow> frame_input list \<Rightarrow> bool" where
  "good_times env T is \<longleftrightarrow> sorted (T # map frame_time is) \<and> list_all (\<lambda>i. rounding env (frame_time i) = frame_time i) is"

lemma good_times_Cons:
  "good_times env T (i # is) \<longleftrightarrow> T \<le> frame_time i \<and> rounding env (frame_time i) = frame_time i \<and> good_times env (frame_time i) is"
  by (auto simp: good_times_def)

lemma shape_later: "shape b T rs \<Longrightarrow> T \<le> t \<Longrightarrow> shape b t rs"
proof -
  assume s: "shape b T rs" and t: "T \<le> t"
  from s obtain ws w fs where rs: "rs = ws @ w # fs" "\<forall>x \<in> set ws. quiet_kind (kind x)" "due SummaryMonitor T w"
    "if b then (\<exists>f. fs = [f] \<and> due FunctionalSafetyMonitor T f) else fs = []" unfolding shape_def by blast
  have "due k T x \<Longrightarrow> due k t x" for k x using t by (simp add: due_def)
  then show "shape b t rs" unfolding shape_def using rs by (intro exI [of _ ws] exI [of _ w] exI [of _ fs]) auto
qed

lemma Monitor_Proc_cases:
  assumes "mgr_keys (mgr m)" "shape b T (runners m)" "T \<le> frame_time i" "rounding env (frame_time i) = frame_time i"
    and "Monitor_Proc env i m = Some (ok, m')"
  shows "mgr_keys (mgr m')" and "shape b (frame_time i) (runners m')"
proof -
  obtain g where sf: "StartFrame (rounding env) (sim_time env) (status_lifetime env) (modes env) (hmi_current_mode i) (latest_chassis i)
      (frame_time i) (mgr m) = Some (ok, g)"
    using assms(5) by (auto simp: Monitor_Proc_def split: bind_splits if_splits)
  have "mgr_keys (mgr m') \<and> shape b (frame_time i) (runners m')"
  proof (cases ok)
    case False
    then have "m' = m\<lparr>mgr := g\<rparr>" using assms(5) sf by (simp add: Monitor_Proc_def)
    then show ?thesis using StartFrame_keys [OF assms(1) sf] shape_later [OF assms(2,3)] by simp
  next
    case True
    then have "StartFrame (rounding env) (sim_time env) (status_lifetime env) (modes env) (hmi_current_mode i) (latest_chassis i)
      (frame_time i) (mgr m) = Some (True, g)" using sf by simp
    from Monitor_Proc_runs [OF assms(1-4) refl this] obtain m2 where "Monitor_Proc env i m = Some (True, m2)"
      "shape b (frame_time i) (runners m2)" "mgr_keys (mgr m2)" unfolding Let_def by blast
    then show ?thesis using assms(5) by simp
  qed
  then show "mgr_keys (mgr m')" "shape b (frame_time i) (runners m')" by simp_all
qed

lemma new_monitor_ok: "mgr_keys (mgr (new_monitor b))" "shape b 0 (runners (new_monitor b))"
  using Init_shape by (simp_all add: new_monitor_def mgr_keys_def keys_of_def no_mode_def)

lemma proc_all_ok:
  "proc_all env is m = Some m' \<Longrightarrow> mgr_keys (mgr m) \<Longrightarrow> shape b T (runners m) \<Longrightarrow> good_times env T is \<Longrightarrow>
     mgr_keys (mgr m') \<and> shape b (last (T # map frame_time is)) (runners m')"
proof (induction "is" arbitrary: m T)
  case Nil
  then show ?case by simp
next
  case (Cons i "is")
  obtain ok m1 where m1: "Monitor_Proc env i m = Some (ok, m1)" "proc_all env is m1 = Some m'"
    using Cons.prems(1) by (auto split: bind_splits)
  have g: "T \<le> frame_time i" "rounding env (frame_time i) = frame_time i" "good_times env (frame_time i) is"
    using Cons.prems(4) by (simp_all add: good_times_Cons)
  note k = Monitor_Proc_cases [OF Cons.prems(2,3) g(1,2) m1(1)]
  from Cons.IH [OF m1(2) k g(3)] show ?case by (cases "is") simp_all
qed
lemma good_times_append:
  "good_times env T (is @ [i]) \<longleftrightarrow>
     good_times env T is \<and> last (T # map frame_time is) \<le> frame_time i \<and> rounding env (frame_time i) = frame_time i"
proof (induction "is" arbitrary: T)
  case Nil
  show ?case by (auto simp: good_times_def)
next
  case (Cons j "is")
  then show ?case by (cases "is") (auto simp: good_times_Cons)
qed

lemma Monitor_Proc_fails_iff:
  assumes "mgr_keys (mgr m)" "shape b T (runners m)" "T \<le> frame_time i" "rounding env (frame_time i) = frame_time i"
  shows "Monitor_Proc env i m = None \<longleftrightarrow>
    (\<exists>name. hmi_current_mode i = Some name \<and> name \<noteq> current_mode (mgr m) \<and> modes env name = None)"
proof (cases "StartFrame (rounding env) (sim_time env) (status_lifetime env) (modes env) (hmi_current_mode i) (latest_chassis i)
      (frame_time i) (mgr m)")
  case None
  then show ?thesis
    using StartFrame_fails_iff [of "rounding env" "sim_time env" "status_lifetime env" "modes env" "hmi_current_mode i"
        "latest_chassis i" "frame_time i" "mgr m"] by (simp add: Monitor_Proc_def)
next
  case (Some p)
  obtain ok g where p: "p = (ok, g)" by (rule prod.exhaust)
  have "Monitor_Proc env i m \<noteq> None"
  proof (cases ok)
    case True
    have "StartFrame (rounding env) (sim_time env) (status_lifetime env) (modes env) (hmi_current_mode i) (latest_chassis i)
      (frame_time i) (mgr m) = Some (True, g)" using Some p True by simp
    from Monitor_Proc_runs [OF assms refl this] show ?thesis by auto
  next
    case False
    then show ?thesis by (simp add: Monitor_Proc_def Some p)
  qed
  then show ?thesis using Some StartFrame_fails_iff [of _ _ _ _ "hmi_current_mode i"] by (metis option.distinct(1))
qed


section \<open>The summary is the worst status\<close>

text \<open>Of several statuses the first of the worst ones; a text that is empty is none.\<close>

definition normal_text :: "component_status \<Rightarrow> component_status" where
  "normal_text s = s\<lparr>message := (if message s = Some '''' then None else message s)\<rparr>"

definition worst_of :: "component_status list \<Rightarrow> component_status" where
  "worst_of ss = (let w = Max (st ` set ss) in
     if w = S_UNKNOWN then empty_status else normal_text (the (find (\<lambda>s. st s = w) ss)))"

definition escalate_to :: "component_status \<Rightarrow> component_status \<Rightarrow> component_status" where
  "escalate_to s = EscalateStatus (st s) (case message s of Some text \<Rightarrow> text | None \<Rightarrow> '''')"

lemma S_UNKNOWN_least [simp]: "S_UNKNOWN \<le> s"
  by (simp add: less_eq_status_def)

lemma escalate_to: "escalate_to s cur = (if st cur < st s then normal_text s else cur)"
  by (cases s; cases cur) (auto simp: escalate_to_def EscalateStatus_def normal_text_def split: option.split)

lemma st_normal_text [simp]: "st (normal_text s) = st s"
  by (simp add: normal_text_def)

lemma fold_escalate:
  "fold escalate_to ss cur = (let w = Max (insert (st cur) (st ` set ss)) in
     if w = st cur then cur else normal_text (the (find (\<lambda>s. st s = w) ss)))"
proof (induction ss arbitrary: cur)
  case (Cons s ss)
  define M where "M = (\<lambda>c :: component_status. Max (insert (st c) (st ` set ss)))"
  define w where "w = Max (insert (st cur) (st ` set (s # ss)))"
  have IH: "fold escalate_to ss c = (if M c = st c then c else normal_text (the (find (\<lambda>s. st s = M c) ss)))" for c
    using Cons.IH [of c] by (simp add: M_def Let_def)
  have w: "w = max (st s) (M cur)"
    unfolding w_def M_def by (cases "ss = []") (simp_all add: max.commute max.left_commute)
  have ge: "st c \<le> M c" for c unfolding M_def by (rule Max_ge) simp_all
  have "fold escalate_to (s # ss) cur = (if w = st cur then cur else normal_text (the (find (\<lambda>s. st s = w) (s # ss))))"
  proof (cases "st cur < st s")
    case True
    then have "M (normal_text s) = w"
      unfolding w M_def by (cases "ss = []") (simp_all, (metis less_imp_le max.absorb2 max.assoc max.commute)+)
    moreover have "w \<noteq> st cur" using True by (auto simp: w max_def not_le)
    ultimately show ?thesis using True IH [of "normal_text s"] by (simp add: escalate_to)
  next
    case False
    then have "st s \<le> M cur" using ge [of cur] by (metis not_less order_trans)
    then have "M cur = w" by (simp add: w max_def)
    moreover have "w = st s \<Longrightarrow> w = st cur" using False ge [of cur] \<open>M cur = w\<close> by (metis not_less order_antisym)
    ultimately show ?thesis using False IH [of cur] by (auto simp: escalate_to)
  qed
  then show ?case by (simp add: w_def Let_def)
qed simp

definition reports :: "component \<Rightarrow> component_status list" where
  "reports c = [process_status c, module_status c, channel_status c, resource_status c, other_status c]"

lemma summarize_fresh: "summary c = empty_status \<Longrightarrow> summary (summarize c) = worst_of (reports c)"
proof -
  assume fresh: "summary c = empty_status"
  have "Max (insert S_UNKNOWN A) = Max A" if "finite A" "A \<noteq> {}" for A :: "status set"
    using that by (simp add: max_def)
  then have "Max (insert (st empty_status) (st ` set (reports c))) = Max (st ` set (reports c))"
    by (simp add: empty_status_def reports_def)
  moreover have "summary (summarize c) = fold escalate_to (reports c) empty_status"
    by (simp add: summarize_def reports_def fresh escalate_to_def)
  ultimately show ?thesis unfolding fold_escalate worst_of_def by (simp add: empty_status_def)
qed

text \<open>
  Property C29. After a frame that ran, in any run, the summary of every component is the worst of its five
  statuses (FATAL over ERROR over WARN over OK over UNKNOWN), with the text of the first of them that is
  that bad, whatever the order the monitors escalated in.
\<close>

theorem summary_is_worst_status:
  assumes "proc_all env is (new_monitor b) = Some m" and "good_times env 0 (is @ [i])"
    and "Monitor_Proc env i m = Some (True, m')" and "components (sys_status (mgr m')) name = Some c"
  shows "summary c = worst_of [process_status c, module_status c, channel_status c, resource_status c, other_status c]"
proof -
  have g: "good_times env 0 is" "last (0 # map frame_time is) \<le> frame_time i" "rounding env (frame_time i) = frame_time i"
    using assms(2) by (simp_all add: good_times_append)
  from proc_all_ok [OF assms(1) new_monitor_ok g(1)]
  have k: "mgr_keys (mgr m)" "shape b (last (0 # map frame_time is)) (runners m)" by simp_all
  obtain gm where sf: "StartFrame (rounding env) (sim_time env) (status_lifetime env) (modes env) (hmi_current_mode i)
      (latest_chassis i) (frame_time i) (mgr m) = Some (True, gm)"
    using assms(3) by (auto simp: Monitor_Proc_def split: bind_splits if_splits)
  define step where "step = (\<lambda>s1. gm\<lparr>sys_status := s1\<lparr>components := map_option summarize \<circ> components s1\<rparr>\<rparr>)"
  obtain s1 where s1: "quiet (sys_status gm) s1" "mgr m' = (step s1)\<lparr>sys_status :=
      if b then the (FunctionalSafety_RunOnce (rounding env) (frame_time i) (step s1)) else sys_status (step s1)\<rparr>"
    using Monitor_Proc_runs [OF k g(2,3) refl sf] assms(3) unfolding Let_def step_def by auto
  have fresh: "fresh_summaries s1" using s1(1) StartFrame_keys [OF k(1) sf] by (simp add: quiet_def)
  have keys: "mgr_keys (step s1)"
    using s1(1) StartFrame_keys [OF k(1) sf]
    by (simp add: step_def mgr_keys_def quiet_def keys_of_def dom_map_option_comp)
  have "components (sys_status (mgr m')) = map_option summarize \<circ> components s1"
    using FunctionalSafety_succeeds [OF keys, of "rounding env" "frame_time i"] unfolding s1(2) by (auto simp: step_def)
  then obtain c0 where "components s1 name = Some c0" "c = summarize c0" using assms(4) by auto
  moreover from this fresh have "summary c0 = empty_status" by (auto simp: fresh_summaries_def entries_all_def)
  ultimately show ?thesis using summarize_fresh [of c0] by (simp add: reports_def summarize_def)
qed
section \<open>When the safety mode is on\<close>

text \<open>The frames that ran, with their times and whether the vehicle was safe in them.\<close>

fun safety_history :: "environment \<Rightarrow> frame_input list \<Rightarrow> monitor \<Rightarrow> (real \<times> bool) list option" where
  "safety_history env [] m = Some []"
| "safety_history env (i # is) m = do {
     (did, m1) \<leftarrow> Monitor_Proc env i m;
     safe \<leftarrow> CheckSafety (mgr m1);
     h \<leftarrow> safety_history env is m1;
     Some (if did then (frame_time i, safe) # h else h) }"

text \<open>The unsafe frames since the last safe one, the latest first.\<close>

definition unsafe_since :: "(real \<times> bool) list \<Rightarrow> real list" where
  "unsafe_since p = map fst (takeWhile (\<lambda>(t, safe). \<not> safe) p)"

definition safety_mode :: "(real \<Rightarrow> real) \<Rightarrow> real list \<Rightarrow> system_status \<Rightarrow> bool" where
  "safety_mode rnd u s \<longleftrightarrow>
     safety_mode_trigger_time s = (if u = [] then None else Some (last u)) \<and>
     (require_emergency_stop s \<longleftrightarrow> (\<exists>t \<in> set (butlast u). rnd (last u + safety_mode_seconds_before_estop) < t))"

lemma CheckSafety_cong:
  "mode_config g = mode_config g' \<Longrightarrow> in_autonomous_driving g = in_autonomous_driving g' \<Longrightarrow>
   hmi_modules (sys_status g) = hmi_modules (sys_status g') \<Longrightarrow> components (sys_status g) = components (sys_status g') \<Longrightarrow>
   CheckSafety g = CheckSafety g'"
  unfolding CheckSafety_def by (simp only:)

lemma FunctionalSafety_step:
  assumes "CheckSafety g = Some safe" and "safety_mode rnd u (sys_status g)"
  shows "\<exists>s'. FunctionalSafety_RunOnce rnd t g = Some s' \<and> safety_mode rnd (if safe then [] else t # u) s'"
  using assms
  by (auto simp: FunctionalSafety_RunOnce_def safety_mode_def Let_def split: if_splits option.split)

lemma safety_mode_cong: "safety_fields s = safety_fields s' \<Longrightarrow> safety_mode rnd u s = safety_mode rnd u s'"
  by (simp add: safety_fields_def safety_mode_def)

lemma unsafe_since_Cons: "unsafe_since ((t, safe) # p) = (if safe then [] else t # unsafe_since p)"
  by (simp add: unsafe_since_def)

lemma frame_safety:
  assumes "mgr_keys (mgr m)" "shape True T (runners m)" "T \<le> frame_time i" "rounding env (frame_time i) = frame_time i"
    and "Monitor_Proc env i m = Some (did, m')" and "safety_mode (rounding env) (unsafe_since p) (sys_status (mgr m))"
  shows "\<exists>safe. CheckSafety (mgr m') = Some safe \<and>
    safety_mode (rounding env) (unsafe_since (if did then (frame_time i, safe) # p else p)) (sys_status (mgr m'))"
proof -
  obtain gm where sf: "StartFrame (rounding env) (sim_time env) (status_lifetime env) (modes env) (hmi_current_mode i)
      (latest_chassis i) (frame_time i) (mgr m) = Some (did, gm)"
    using assms(5) by (auto simp: Monitor_Proc_def split: bind_splits if_splits)
  note start = StartFrame_keys [OF assms(1) sf]
  show ?thesis
  proof (cases did)
    case False
    then have "mgr m' = mgr m" using assms(5) sf start by (simp add: Monitor_Proc_def)
    then show ?thesis using False assms(6) CheckSafety_succeeds [OF assms(1)] by auto
  next
    case True
    have sf': "StartFrame (rounding env) (sim_time env) (status_lifetime env) (modes env) (hmi_current_mode i)
      (latest_chassis i) (frame_time i) (mgr m) = Some (True, gm)" using sf True by simp
    define step where "step = (\<lambda>s1. gm\<lparr>sys_status := s1\<lparr>components := map_option summarize \<circ> components s1\<rparr>\<rparr>)"
    obtain s1 where s1: "quiet (sys_status gm) s1" "mgr m' = (step s1)\<lparr>sys_status :=
        the (FunctionalSafety_RunOnce (rounding env) (frame_time i) (step s1))\<rparr>" "mgr_keys (mgr m')"
      using Monitor_Proc_runs [OF assms(1-4) refl sf'] assms(5) True unfolding Let_def step_def by auto
    have keys: "mgr_keys (step s1)"
      using s1(1) start by (simp add: step_def mgr_keys_def quiet_def keys_of_def dom_map_option_comp)
    obtain safe where safe: "CheckSafety (step s1) = Some safe" using CheckSafety_succeeds [OF keys] by blast
    have "safety_mode (rounding env) (unsafe_since p) (sys_status (step s1))"
      using assms(6) s1(1) start safety_mode_cong [of "sys_status (step s1)" "sys_status (mgr m)"]
      by (simp add: quiet_def step_def safety_fields_def)
    from FunctionalSafety_step [OF safe this] obtain s3
      where s3: "FunctionalSafety_RunOnce (rounding env) (frame_time i) (step s1) = Some s3"
        "safety_mode (rounding env) (unsafe_since ((frame_time i, safe) # p)) s3" by (auto simp: unsafe_since_Cons)
    have "CheckSafety (mgr m') = CheckSafety (step s1)"
      by (rule CheckSafety_cong)
        (use FunctionalSafety_succeeds [OF keys, of "rounding env" "frame_time i"] s3(1) in \<open>auto simp: s1(2)\<close>)
    then show ?thesis using True safe s3 by (simp add: s1(2))
  qed
qed

lemma run_safety:
  "proc_all env is m = Some m' \<Longrightarrow> mgr_keys (mgr m) \<Longrightarrow> shape True T (runners m) \<Longrightarrow> good_times env T is \<Longrightarrow>
   safety_mode (rounding env) (unsafe_since p) (sys_status (mgr m)) \<Longrightarrow>
   \<exists>h. safety_history env is m = Some h \<and> safety_mode (rounding env) (unsafe_since (rev h @ p)) (sys_status (mgr m'))"
proof (induction "is" arbitrary: m T p)
  case Nil
  then show ?case by simp
next
  case (Cons i "is")
  obtain did m1 where m1: "Monitor_Proc env i m = Some (did, m1)" "proc_all env is m1 = Some m'"
    using Cons.prems(1) by (auto split: bind_splits)
  have g: "T \<le> frame_time i" "rounding env (frame_time i) = frame_time i" "good_times env (frame_time i) is"
    using Cons.prems(4) by (simp_all add: good_times_Cons)
  note k = Monitor_Proc_cases [OF Cons.prems(2,3) g(1,2) m1(1)]
  obtain safe where s: "CheckSafety (mgr m1) = Some safe"
    "safety_mode (rounding env) (unsafe_since (if did then (frame_time i, safe) # p else p)) (sys_status (mgr m1))"
    using frame_safety [OF Cons.prems(2,3) g(1,2) m1(1) Cons.prems(5)] by blast
  from Cons.IH [OF m1(2) k g(3) s(2)] show ?case by (auto simp: m1(1) s(1) split: if_splits)
qed

text \<open>
  Property C7. In every run of frames, the safety mode is on exactly when the vehicle was unsafe in the last
  frame, its trigger time is the time of the first unsafe frame since the last safe one, and the
  emergency stop is required exactly when a later unsafe frame came more than ten seconds after it.
\<close>

theorem safety_mode_follows_history:
  assumes "proc_all env is (new_monitor True) = Some m" and "good_times env 0 is"
  shows "\<exists>h. safety_history env is (new_monitor True) = Some h \<and>
    (let unsafe = map fst (takeWhile (\<lambda>(t, safe). \<not> safe) (rev h)) in
       safety_mode_trigger_time (sys_status (mgr m)) = (if unsafe = [] then None else Some (last unsafe)) \<and>
       (require_emergency_stop (sys_status (mgr m)) \<longleftrightarrow>
          (\<exists>t \<in> set (butlast unsafe). rounding env (last unsafe + 10) < t)))"
proof -
  have "safety_mode (rounding env) (unsafe_since []) (sys_status (mgr (new_monitor True)))"
    by (simp add: safety_mode_def unsafe_since_def new_monitor_def)
  from run_safety [OF assms(1) new_monitor_ok assms(2) this] show ?thesis
    by (simp add: safety_mode_def unsafe_since_def safety_mode_seconds_before_estop_def Let_def)
qed

section \<open>A monitored vehicle\<close>

text \<open>One mode whose only component must have a GPS solution; the vehicle drives automatically.\<close>

definition gps_mode :: hmi_mode where
  "gps_mode = no_mode\<lparr>mode_components := [(''GPS'',
     \<lparr>mc_process = None, mc_channel = None, mc_resource = None, mc_required = True, mc_module = None\<rparr>)]\<rparr>"

definition gps_env :: environment where
  "gps_env = \<lparr>rounding = (\<lambda>x. x), number_text = (\<lambda>_. ''''), status_hash = (\<lambda>_. 1),
     modes = (\<lambda>name. if name = ''drive'' then Some gps_mode else None), sim_time = False, status_lifetime = 30\<rparr>"

definition gps_frame :: "int option \<Rightarrow> real \<Rightarrow> frame_input" where
  "gps_frame sol t = \<lparr>hmi_current_mode = Some ''drive'',
     latest_chassis = Some \<lparr>sender_name = ''canbus'', timestamp_sec = t, report_mode = COMPLETE_AUTO_DRIVE\<rparr>,
     frame_readings = \<lparr>running_processes = [], has_node = (\<lambda>_. False), localization_msg = None, recorder_msg = None,
       gnss_sol_type = sol, socket_can_test = (True, ''''), camera_frames = [], channels = (\<lambda>_. None), latency_history = [],
       path_space = (\<lambda>_. []), cpu_usage = (\<lambda>_. 0), memory_usage = (\<lambda>_. 0), disk_load = (\<lambda>_. 0)\<rparr>,
     frame_time = t\<rparr>"

lemmas run_defs = Monitor_Proc_def StartFrame_def new_monitor_def gps_env_def gps_frame_def gps_mode_def no_mode_def
  Monitor_Init_def new_runner_def Tick_def RunOnce_def on_status_def CheckAutonomousDriving_def new_component_def empty_status_def
  EsdCan_RunOnce_def SocketCan_RunOnce_def Gps_RunOnce_def Localization_RunOnce_def Camera_RunOnce_def Process_RunOnce_def
  Module_RunOnce_def Channel_RunOnce_def Resource_RunOnce_def Latency_RunOnce_def Summary_RunOnce_def
  FunctionalSafety_RunOnce_def CheckSafety_def find_or_skip_def on_other_status_def Gps_status_def EscalateStatus_def
  clear_status_def summarize_def IsSafe_def safety_mode_seconds_before_estop_def less_status_def clear_summary_def

lemma gps_first_frame:
  "\<exists>m c. Monitor_Proc gps_env (gps_frame None 1) (new_monitor True) = Some (True, m) \<and> components (sys_status (mgr m)) ''GPS'' = Some c"
  by (simp add: run_defs Let_def)

theorem summary_is_worst_status_witness:
  "\<exists>m c. Monitor_Proc gps_env (gps_frame None 1) (new_monitor True) = Some (True, m) \<and>
     components (sys_status (mgr m)) ''GPS'' = Some c \<and>
     summary c = worst_of [process_status c, module_status c, channel_status c, resource_status c, other_status c]"
proof -
  have g: "good_times gps_env 0 ([] @ [gps_frame None 1])" by (simp add: good_times_def gps_env_def gps_frame_def)
  obtain m c where "Monitor_Proc gps_env (gps_frame None 1) (new_monitor True) = Some (True, m)"
    "components (sys_status (mgr m)) ''GPS'' = Some c" using gps_first_frame by blast
  moreover from this have "summary c = worst_of [process_status c, module_status c, channel_status c, resource_status c, other_status c]"
    by (rule summary_is_worst_status [OF _ g, where b = True, rotated 1]) simp
  ultimately show ?thesis by blast
qed

lemma gps_two_frames:
  "\<exists>m. proc_all gps_env [gps_frame None 1, gps_frame None 12] (new_monitor True) = Some m \<and> require_emergency_stop (sys_status (mgr m))"
  by (simp add: run_defs Let_def)

theorem safety_mode_follows_history_witness:
  "\<exists>m h. proc_all gps_env [gps_frame None 1, gps_frame None 12] (new_monitor True) = Some m \<and>
     require_emergency_stop (sys_status (mgr m)) \<and>
     safety_history gps_env [gps_frame None 1, gps_frame None 12] (new_monitor True) = Some h"
proof -
  have g: "good_times gps_env 0 [gps_frame None 1, gps_frame None 12]" by (simp add: good_times_def gps_env_def gps_frame_def)
  obtain m where m: "proc_all gps_env [gps_frame None 1, gps_frame None 12] (new_monitor True) = Some m"
    "require_emergency_stop (sys_status (mgr m))" using gps_two_frames by blast
  then show ?thesis using safety_mode_follows_history [OF m(1) g] by blast
qed

end
