(* ===== verification/Doubles.thy ===== *)
theory Doubles
  imports Complex_Main
begin

text \<open>
  The \<open>double\<close> values the code computes with. A finite \<open>double\<close> is the real number it stands for, and
  every operation the source writes is the exact operation followed by rounding: the function
  \<open>rnd\<close>, an argument of the definitions, applied where the source rounds (a literal, a product, a
  quotient, a sum). What is relied on is \<open>close_rounding\<close>, which binary64 rounding to nearest
  satisfies for results in range; infinities and NaN are not modelled.
\<close>

definition close_rounding :: "(real \<Rightarrow> real) \<Rightarrow> bool" where
  "close_rounding rnd \<longleftrightarrow> mono rnd \<and> rnd 0 = 0 \<and> (\<forall>x. \<bar>rnd x - x\<bar> \<le> \<bar>x\<bar> / 2 ^ 53 + 1 / 2 ^ 1074)"

text \<open>\<open>int x = v;\<close> cuts the fraction off.\<close>

definition int_of_double :: "real \<Rightarrow> int" where
  "int_of_double v = (if 0 \<le> v then \<lfloor>v\<rfloor> else \<lceil>v\<rceil>)"

lemma exact_rounding: "close_rounding (\<lambda>x. x)"
  by (simp add: close_rounding_def mono_def)

lemma int_of_double_close: "\<bar>of_int (int_of_double v) - v\<bar> < 1"
  by (cases "0 \<le> v") (simp_all add: int_of_double_def, linarith+)

lemma int_of_double_mono: "u \<le> v \<Longrightarrow> int_of_double u \<le> int_of_double v"
proof (cases "0 \<le> u")
  case True
  moreover assume "u \<le> v"
  ultimately show ?thesis by (simp add: int_of_double_def floor_mono)
next
  case False
  moreover assume "u \<le> v"
  moreover have "\<lceil>u\<rceil> \<le> \<lfloor>v\<rfloor>" if "0 \<le> v"
  proof -
    have "\<lceil>u\<rceil> \<le> 0" using False by (simp add: ceiling_le_zero)
    also have "0 \<le> \<lfloor>v\<rfloor>" using that by simp
    finally show ?thesis .
  qed
  ultimately show ?thesis by (simp add: int_of_double_def ceiling_mono)
qed

lemma int_of_double_of_int [simp]: "int_of_double (of_int n) = n"
  by (simp add: int_of_double_def)

lemma rounding_close:
  assumes "close_rounding rnd" "\<bar>x\<bar> \<le> M" "M / 2 ^ 53 + 1 / 2 ^ 1074 \<le> e"
  shows "\<bar>rnd x - x\<bar> \<le> e"
proof -
  have "\<bar>rnd x - x\<bar> \<le> \<bar>x\<bar> / 2 ^ 53 + 1 / 2 ^ 1074" using assms(1) by (simp add: close_rounding_def)
  also have "\<dots> \<le> M / 2 ^ 53 + 1 / 2 ^ 1074" using assms(2) by (simp add: divide_right_mono)
  finally show ?thesis using assms(3) by linarith
qed

text \<open>
  A value \<open>b\<close> sent in whole units of \<open>u\<close> and scaled back by the receiver: the value read is within one
  unit, and the number of units is small.
\<close>

lemma scaled_units:
  assumes r: "close_rounding rnd" and u: "1 / 1000 \<le> u" "u \<le> 1" and b: "\<bar>b\<bar> \<le> 40"
    and x: "x = int_of_double (rnd (b / rnd u))"
  shows "\<bar>rnd (of_int x * rnd u) - b\<bar> \<le> u + 1 / 1000000000" and "\<bar>of_int x\<bar> \<le> 2 * \<bar>b\<bar> / u + 2"
    and "0 \<le> b \<Longrightarrow> 0 \<le> x"
proof -
  define k where "k = rnd u"
  define q where "q = b / k"
  have "\<bar>u\<bar> \<le> 1" using u by simp
  then have k: "\<bar>k - u\<bar> \<le> 1 / 1000000000000000" unfolding k_def by (rule rounding_close [OF r]) (simp add: field_simps)
  then have kpos: "u / 2 \<le> k" "0 < k" "k \<le> u + 1 / 1000000000000000" using k u by linarith+
  have bq: "b = q * k" using kpos by (simp add: q_def)
  have qk: "\<bar>q\<bar> \<le> 2 * \<bar>b\<bar> / u"
  proof -
    have "\<bar>q\<bar> = \<bar>b\<bar> / k" using kpos by (simp add: q_def)
    also have "\<dots> \<le> \<bar>b\<bar> / (u / 2)" using kpos(1) u by (intro divide_left_mono) auto
    finally show ?thesis by (simp add: mult.commute)
  qed
  have "2 * \<bar>b\<bar> / u \<le> 80 / (1 / 1000)" using b u by (intro frac_le) auto
  then have "\<bar>q\<bar> \<le> 80000" using qk by simp
  then have rq: "\<bar>rnd q - q\<bar> \<le> 1 / 10000000000" by (rule rounding_close [OF r]) (simp add: field_simps)
  have xr: "\<bar>of_int x - rnd q\<bar> < 1" unfolding x q_def k_def by (rule int_of_double_close)
  then have xq: "\<bar>of_int x - q\<bar> \<le> 1 + 1 / 10000000000" using rq by linarith
  then show "\<bar>of_int x\<bar> \<le> 2 * \<bar>b\<bar> / u + 2" using qk by linarith
  have "\<bar>of_int x * k - b\<bar> = \<bar>of_int x - q\<bar> * k" using kpos by (simp add: bq abs_mult flip: left_diff_distrib)
  also have "\<dots> \<le> (1 + 1 / 10000000000) * (u + 1 / 1000000000000000)" using xq kpos by (intro mult_mono) auto
  also have "\<dots> \<le> u + 2 / 10000000000" using u by (simp add: field_simps)
  finally have xk: "\<bar>of_int x * k - b\<bar> \<le> u + 2 / 10000000000" .
  then have "\<bar>of_int x * k\<bar> \<le> 50" using b u by linarith
  then have "\<bar>rnd (of_int x * k) - of_int x * k\<bar> \<le> 1 / 1000000000000"
    by (rule rounding_close [OF r]) (simp add: field_simps)
  then show "\<bar>rnd (of_int x * rnd u) - b\<bar> \<le> u + 1 / 1000000000"
    using xk unfolding k_def [symmetric] by linarith
  assume "0 \<le> b"
  then have "0 \<le> q" using kpos by (simp add: q_def)
  moreover have "mono rnd" "rnd 0 = 0" using r unfolding close_rounding_def by simp_all
  ultimately have "0 \<le> rnd q" using monoD [of rnd 0 q] by simp
  then show "0 \<le> x" unfolding x q_def k_def by (simp add: int_of_double_def)
qed

end
