(* ===== verification/MkMiniCtrlCmd.thy ===== *)
theory MkMiniCtrlCmd
  imports MkMiniIoCmd Doubles
begin

text \<open>
  The driving command frame of the mk_mini chassis, class \<open>Ctrlcmd18c4d2d0\<close>
  (\<open>modules/canbus/vehicle/mk_mini/protocol/ctrl_cmd_18c4d2d0.cc\<close>): velocity, steering, gear and
  brake packed into nibbles and bytes, a rolling counter and a check byte. \<open>rnd\<close> rounds the
  \<open>double\<close> operations.
\<close>

section \<open>The command object\<close>

record ctrl_cmd =
  m_ctrl_cmd_check_bcc :: int
  m_ctrl_cmd_alive_cnt :: int
  m_ctrl_cmd_brake :: int
  m_ctrl_cmd_steering :: real
  m_ctrl_cmd_velocity :: real
  m_ctrl_cmd_gear :: int
  ctrl_alive_static :: u8

definition Ctrlcmd_Reset :: "ctrl_cmd \<Rightarrow> ctrl_cmd" where
  "Ctrlcmd_Reset c = c\<lparr>m_ctrl_cmd_check_bcc := 0, m_ctrl_cmd_alive_cnt := 0, m_ctrl_cmd_brake := 0,
     m_ctrl_cmd_steering := 0, m_ctrl_cmd_velocity := 0, m_ctrl_cmd_gear := 0\<rparr>"

text \<open>The constructor runs \<open>Reset\<close>; the static counter starts at zero.\<close>

definition new_ctrl_cmd :: ctrl_cmd where
  "new_ctrl_cmd = \<lparr>m_ctrl_cmd_check_bcc = 0, m_ctrl_cmd_alive_cnt = 0, m_ctrl_cmd_brake = 0,
     m_ctrl_cmd_steering = 0, m_ctrl_cmd_velocity = 0, m_ctrl_cmd_gear = 0, ctrl_alive_static = 0\<rparr>"

definition Ctrlcmd_GetPeriod :: int where
  "Ctrlcmd_GetPeriod = 10 * 1000"

definition set_ctrl_cmd_check_bcc :: "int \<Rightarrow> ctrl_cmd \<Rightarrow> ctrl_cmd" where
  "set_ctrl_cmd_check_bcc v c = c\<lparr>m_ctrl_cmd_check_bcc := v\<rparr>"

definition set_ctrl_cmd_alive_cnt :: "int \<Rightarrow> ctrl_cmd \<Rightarrow> ctrl_cmd" where
  "set_ctrl_cmd_alive_cnt v c = c\<lparr>m_ctrl_cmd_alive_cnt := v\<rparr>"

definition set_ctrl_cmd_brake :: "int \<Rightarrow> ctrl_cmd \<Rightarrow> ctrl_cmd" where
  "set_ctrl_cmd_brake v c = c\<lparr>m_ctrl_cmd_brake := v\<rparr>"

definition set_ctrl_cmd_steering :: "real \<Rightarrow> ctrl_cmd \<Rightarrow> ctrl_cmd" where
  "set_ctrl_cmd_steering v c = c\<lparr>m_ctrl_cmd_steering := v\<rparr>"

definition set_ctrl_cmd_velocity :: "real \<Rightarrow> ctrl_cmd \<Rightarrow> ctrl_cmd" where
  "set_ctrl_cmd_velocity v c = c\<lparr>m_ctrl_cmd_velocity := v\<rparr>"

definition set_ctrl_cmd_gear :: "int \<Rightarrow> ctrl_cmd \<Rightarrow> ctrl_cmd" where
  "set_ctrl_cmd_gear v c = c\<lparr>m_ctrl_cmd_gear := v\<rparr>"

section \<open>Writing the frame\<close>

definition set_p_ctrl_cmd_check_bcc :: "frame_data \<Rightarrow> frame_data" where
  "set_p_ctrl_cmd_check_bcc d =
     (let checksum = fold (\<lambda>i c. c XOR d ! i) [0..<7] (0 :: u8)
      in d[7 := set_value (d ! 7) checksum 0 8])"

definition set_p_ctrl_cmd_alive_cnt :: "ctrl_cmd \<Rightarrow> frame_data \<Rightarrow> ctrl_cmd \<times> frame_data" where
  "set_p_ctrl_cmd_alive_cnt c d =
     (let x = (ctrl_alive_static c + 1) AND 0xF
      in (c\<lparr>ctrl_alive_static := x\<rparr>, d[6 := set_value (d ! 6) x 4 4]))"

definition set_p_ctrl_cmd_brake :: "int \<Rightarrow> frame_data \<Rightarrow> frame_data" where
  "set_p_ctrl_cmd_brake ctrl_cmd_brake d =
     (let x = BoundedValue 0 127 ctrl_cmd_brake;
          d1 = put_field 4 4 4 (x AND 0xF) d;
          x1 = drop_bit 4 x
      in put_field 5 0 4 (x1 AND 0xF) d1)"

definition set_p_ctrl_cmd_steering :: "(real \<Rightarrow> real) \<Rightarrow> real \<Rightarrow> frame_data \<Rightarrow> frame_data" where
  "set_p_ctrl_cmd_steering rnd ctrl_cmd_steering d =
     (let x = int_of_double (rnd (BoundedValue (-32) 32 ctrl_cmd_steering / rnd (1 / 100)));
          d1 = put_field 2 4 4 (x AND 0xF) d;
          x1 = drop_bit 4 x;
          d2 = put_field 3 0 8 (x1 AND 0xFF) d1;
          x2 = drop_bit 8 x1
      in put_field 4 0 4 (x2 AND 0xF) d2)"

definition set_p_ctrl_cmd_velocity :: "(real \<Rightarrow> real) \<Rightarrow> real \<Rightarrow> frame_data \<Rightarrow> frame_data" where
  "set_p_ctrl_cmd_velocity rnd ctrl_cmd_velocity d =
     (let x = int_of_double (rnd (BoundedValue 0 (5 / 2) ctrl_cmd_velocity / rnd (1 / 1000)));
          d1 = put_field 0 4 4 (x AND 0xF) d;
          x1 = drop_bit 4 x;
          d2 = put_field 1 0 8 (x1 AND 0xFF) d1;
          x2 = drop_bit 8 x1
      in put_field 2 0 4 (x2 AND 0xF) d2)"

definition set_p_ctrl_cmd_gear :: "int \<Rightarrow> frame_data \<Rightarrow> frame_data" where
  "set_p_ctrl_cmd_gear ctrl_cmd_gear d = put_field 0 0 4 (BoundedValue 0 4 ctrl_cmd_gear) d"

definition Ctrlcmd_UpdateData :: "(real \<Rightarrow> real) \<Rightarrow> ctrl_cmd \<Rightarrow> frame_data \<Rightarrow> ctrl_cmd \<times> frame_data" where
  "Ctrlcmd_UpdateData rnd c d0 =
     (let d1 = set_p_ctrl_cmd_brake (m_ctrl_cmd_brake c) d0;
          d2 = set_p_ctrl_cmd_steering rnd (m_ctrl_cmd_steering c) d1;
          d3 = set_p_ctrl_cmd_velocity rnd (m_ctrl_cmd_velocity c) d2;
          d4 = set_p_ctrl_cmd_gear (m_ctrl_cmd_gear c) d3;
          (c', d5) = set_p_ctrl_cmd_alive_cnt c d4
      in (c', set_p_ctrl_cmd_check_bcc d5))"

section \<open>Reading the frame\<close>

text \<open>\<open>x <<= n; x |= t\<close> and \<open>x <<= n; x >>= n\<close> on \<open>int32_t\<close>.\<close>

definition shift_or :: "nat \<Rightarrow> int \<Rightarrow> int \<Rightarrow> int" where
  "shift_or n x t = signed_take_bit 31 (push_bit n x) OR t"

definition shift_back :: "nat \<Rightarrow> int \<Rightarrow> int" where
  "shift_back n x = drop_bit n (signed_take_bit 31 (push_bit n x))"

definition ctrl_cmd_check_bcc :: "frame_data \<Rightarrow> int" where
  "ctrl_cmd_check_bcc bytes = get_field 7 0 8 bytes"

definition ctrl_cmd_alive_cnt :: "frame_data \<Rightarrow> int" where
  "ctrl_cmd_alive_cnt bytes = get_field 6 4 4 bytes"

definition ctrl_cmd_brake :: "frame_data \<Rightarrow> int" where
  "ctrl_cmd_brake bytes = shift_or 4 (get_field 5 0 4 bytes) (get_field 4 4 4 bytes)"

definition ctrl_cmd_steering :: "(real \<Rightarrow> real) \<Rightarrow> frame_data \<Rightarrow> real" where
  "ctrl_cmd_steering rnd bytes =
     (let x = get_field 4 0 4 bytes;
          x1 = shift_or 8 x (get_field 3 0 8 bytes);
          x2 = shift_or 4 x1 (get_field 2 4 4 bytes);
          x3 = shift_back 16 x2
      in rnd (of_int x3 * rnd (1 / 100)))"

definition ctrl_cmd_velocity :: "(real \<Rightarrow> real) \<Rightarrow> frame_data \<Rightarrow> real" where
  "ctrl_cmd_velocity rnd bytes =
     (let x = get_field 2 0 4 bytes;
          x1 = shift_or 8 x (get_field 1 0 8 bytes);
          x2 = shift_or 4 x1 (get_field 0 4 4 bytes)
      in rnd (of_int x2 * rnd (1 / 1000)))"

definition ctrl_cmd_gear :: "frame_data \<Rightarrow> int" where
  "ctrl_cmd_gear bytes = get_field 0 0 4 bytes"

lemmas ctrl_cmd_writers [op_defs] =
  set_p_ctrl_cmd_check_bcc_def set_p_ctrl_cmd_alive_cnt_def set_p_ctrl_cmd_brake_def
  set_p_ctrl_cmd_steering_def set_p_ctrl_cmd_velocity_def set_p_ctrl_cmd_gear_def

lemmas ctrl_cmd_readers =
  ctrl_cmd_check_bcc_def ctrl_cmd_alive_cnt_def ctrl_cmd_brake_def ctrl_cmd_steering_def
  ctrl_cmd_velocity_def ctrl_cmd_gear_def

lemma length_Ctrlcmd_UpdateData: "length (snd (Ctrlcmd_UpdateData rnd c d)) = length d"
  by (simp add: Ctrlcmd_UpdateData_def ctrl_cmd_writers Let_def split_def)

interpretation ctrl_cmd_frame: protocol_data Ctrlcmd_GetPeriod "Ctrlcmd_UpdateData rnd"
  by unfold_locales (simp_all add: Ctrlcmd_GetPeriod_def length_Ctrlcmd_UpdateData)

section \<open>What the frame says after an update\<close>

text \<open>Sixteen bits written as nibble, byte, nibble are read back as the sixteen bits.\<close>

lemma three_parts:
  "shift_or 4 (shift_or 8 (drop_bit 12 x AND 0xF) (drop_bit 4 x AND 0xFF)) (x AND 0xF) = take_bit 16 x"
proof (rule bit_eqI)
  fix n
  have m: "(0xF :: int) = mask 4" "(0xFF :: int) = mask 8" by (simp_all add: mask_eq_exp_minus_1)
  show "bit (shift_or 4 (shift_or 8 (drop_bit 12 x AND 0xF) (drop_bit 4 x AND 0xFF)) (x AND 0xF)) n = bit (take_bit 16 x) n"
  proof (cases "n < 12")
    case True
    then show ?thesis unfolding shift_or_def m by (auto simp: bit_simps min_def)
  next
    case False
    then obtain k where n: "n = k + 12" by (metis add.commute le_Suc_ex not_less)
    show ?thesis unfolding n shift_or_def m by (auto simp: bit_simps min_def ac_simps)
  qed
qed

lemma shift_back_16: "shift_back 16 (take_bit 16 x) = signed_take_bit 15 x"
  unfolding shift_back_def by (rule bit_eqI) (auto simp: bit_simps min_def)
lemma and_nibble_mod [simp]: "(x AND 15 :: int) mod 16 = x AND 15" "(x AND 255 :: int) mod 256 = x AND 255"
proof -
  have m: "(15 :: int) = mask 4" "(255 :: int) = mask 8" by (simp_all add: mask_eq_exp_minus_1)
  have "take_bit 4 (take_bit 4 x) = take_bit 4 x" "take_bit 8 (take_bit 8 x) = take_bit 8 x" by simp_all
  then show "(x AND 15) mod 16 = x AND 15" "(x AND 255) mod 256 = x AND 255"
    unfolding m by (simp_all add: take_bit_eq_mod and_mask_dvd flip: take_bit_eq_mask)
qed

lemma two_nibbles: "0 \<le> x \<Longrightarrow> x < 256 \<Longrightarrow> shift_or 4 (drop_bit 4 x AND 15) (x AND 15) = x"
proof -
  assume "0 \<le> x" "x < 256"
  then have "take_bit 8 x = x" by (simp add: take_bit_int_eq_self_iff)
  moreover have "shift_or 4 (drop_bit 4 x AND 15) (x AND 15) = take_bit 8 x"
  proof (rule bit_eqI)
    fix n
    have m: "(15 :: int) = mask 4" by (simp add: mask_eq_exp_minus_1)
    show "bit (shift_or 4 (drop_bit 4 x AND 15) (x AND 15)) n = bit (take_bit 8 x) n"
      unfolding shift_or_def m by (auto simp: bit_simps min_def)
  qed
  ultimately show ?thesis by simp
qed

lemma Ctrlcmd_fields:
  assumes "length d = 8" and "Ctrlcmd_UpdateData rnd c d = (c', d')"
    and "v = int_of_double (rnd (BoundedValue 0 (5 / 2) (m_ctrl_cmd_velocity c) / rnd (1 / 1000)))"
    and "s = int_of_double (rnd (BoundedValue (-32) 32 (m_ctrl_cmd_steering c) / rnd (1 / 100)))"
  shows "ctrl_cmd_velocity rnd d' = rnd (of_int (take_bit 16 v) * rnd (1 / 1000))"
    and "ctrl_cmd_steering rnd d' = rnd (of_int (signed_take_bit 15 s) * rnd (1 / 100))"
    and "ctrl_cmd_gear d' = BoundedValue 0 4 (m_ctrl_cmd_gear c) mod 16"
    and "ctrl_cmd_brake d' = BoundedValue 0 127 (m_ctrl_cmd_brake c)"
    and "ctrl_cmd_alive_cnt d' = uint (ctrl_alive_static c')"
    and "ctrl_alive_static c' = (ctrl_alive_static c + 1) AND 0xF"
proof -
  have d': "d' = snd (Ctrlcmd_UpdateData rnd c d)" and c': "c' = fst (Ctrlcmd_UpdateData rnd c d)"
    using assms(2) by simp_all
  note upd = Ctrlcmd_UpdateData_def ctrl_cmd_writers Let_def split_def
  show "ctrl_cmd_velocity rnd d' = rnd (of_int (take_bit 16 v) * rnd (1 / 1000))"
    unfolding d' assms(3) using assms(1) three_parts
    by (simp add: upd ctrl_cmd_velocity_def flip: three_parts)
  show "ctrl_cmd_steering rnd d' = rnd (of_int (signed_take_bit 15 s) * rnd (1 / 100))"
    unfolding d' assms(4) using assms(1) three_parts
    by (simp add: upd ctrl_cmd_steering_def flip: shift_back_16 three_parts)
  have "0 \<le> BoundedValue 0 127 (m_ctrl_cmd_brake c)" "BoundedValue 0 127 (m_ctrl_cmd_brake c) < 256"
    using BoundedValue_in_range [of 0 127 "m_ctrl_cmd_brake c"] by simp_all
  then show "ctrl_cmd_brake d' = BoundedValue 0 127 (m_ctrl_cmd_brake c)"
    unfolding d' using assms(1) by (simp add: upd ctrl_cmd_brake_def two_nibbles)
  show "ctrl_cmd_gear d' = BoundedValue 0 4 (m_ctrl_cmd_gear c) mod 16"
    unfolding d' using assms(1) by (simp add: upd ctrl_cmd_gear_def)
  show "ctrl_cmd_alive_cnt d' = uint (ctrl_alive_static c')"
    unfolding d' c' using assms(1) by (simp add: upd ctrl_cmd_alive_cnt_def and.assoc)
  show "ctrl_alive_static c' = (ctrl_alive_static c + 1) AND 0xF"
    unfolding c' by (simp add: upd)
qed
lemma Ctrlcmd_bcc: "length d = 8 \<Longrightarrow> bcc_ok (snd (Ctrlcmd_UpdateData rnd c d))"
proof -
  assume d: "length d = 8"
  have "bcc_ok (set_p_ctrl_cmd_check_bcc e)" if "length e = 8" for e
    using that by (simp add: bcc_ok_def set_p_ctrl_cmd_check_bcc_def upt_7 set_value_full xor.assoc)
  then show ?thesis using d by (simp add: Ctrlcmd_UpdateData_def ctrl_cmd_writers(2-) Let_def split_def)
qed

text \<open>Velocity and steering as read are within one unit of what was commanded, clamped.\<close>

lemma Ctrlcmd_close:
  assumes "length d = 8" and "close_rounding rnd" and "Ctrlcmd_UpdateData rnd c d = (c', d')"
  shows "\<bar>ctrl_cmd_velocity rnd d' - BoundedValue 0 (5 / 2) (m_ctrl_cmd_velocity c)\<bar> \<le> 0.001 + 1 / 1000000000"
    and "\<bar>ctrl_cmd_steering rnd d' - BoundedValue (-32) 32 (m_ctrl_cmd_steering c)\<bar> \<le> 0.01 + 1 / 1000000000"
proof -
  define bv where "bv = BoundedValue 0 (5 / 2) (m_ctrl_cmd_velocity c)"
  define bs where "bs = BoundedValue (-32) 32 (m_ctrl_cmd_steering c)"
  define v where "v = int_of_double (rnd (bv / rnd (1 / 1000)))"
  define s where "s = int_of_double (rnd (bs / rnd (1 / 100)))"
  note f = Ctrlcmd_fields [OF assms(1,3) v_def [unfolded bv_def] s_def [unfolded bs_def]]
  have bv: "0 \<le> bv" "\<bar>bv\<bar> \<le> 40" "\<bar>bv\<bar> \<le> 5 / 2"
    using BoundedValue_in_range [of 0 "5 / 2" "m_ctrl_cmd_velocity c"] by (simp_all add: bv_def)
  have bs: "\<bar>bs\<bar> \<le> 40" "\<bar>bs\<bar> \<le> 32"
    using BoundedValue_in_range [of "-32" 32 "m_ctrl_cmd_steering c"] by (simp_all add: bs_def abs_le_iff)
  have uv: "1 / 1000 \<le> (1 / 1000 :: real)" "(1 / 1000 :: real) \<le> 1"
    and us: "1 / 1000 \<le> (1 / 100 :: real)" "(1 / 100 :: real) \<le> 1" by simp_all
  note V = scaled_units [OF assms(2) uv bv(2) v_def] and S = scaled_units [OF assms(2) us bs(1) s_def]
  have "\<bar>real_of_int v\<bar> < 65536" using V(2) bv(3) by simp
  then have "\<bar>v\<bar> < 2 ^ 16" by simp
  then have v: "take_bit 16 v = v" using V(3) bv(1) by (simp add: take_bit_int_eq_self_iff)
  have "\<bar>real_of_int s\<bar> < 32768" using S(2) bs(2) by simp
  then have "\<bar>s\<bar> < 2 ^ 15" by simp
  then have s: "signed_take_bit 15 s = s" by (simp add: signed_take_bit_int_eq_self_iff abs_less_iff)
  show "\<bar>ctrl_cmd_velocity rnd d' - BoundedValue 0 (5 / 2) (m_ctrl_cmd_velocity c)\<bar> \<le> 0.001 + 1 / 1000000000"
    "\<bar>ctrl_cmd_steering rnd d' - BoundedValue (-32) 32 (m_ctrl_cmd_steering c)\<bar> \<le> 0.01 + 1 / 1000000000"
    using V(1) S(1) f(1,2) unfolding v s bv_def [symmetric] bs_def [symmetric] by simp_all
qed

text \<open>
  After \<open>UpdateData\<close> the velocity and the steering the chassis reads are within one unit
  (1 mm/s, 0.01 degrees) of what was commanded, clamped to 0..2.5 m/s and 32 degrees either way; gear
  and brake are those commanded, clamped; the rolling counter has advanced; and the last byte is the
  exclusive or of the others, so the chassis accepts the frame.
\<close>

theorem ctrl_cmd_update_readback:
  assumes "length d = 8" and "close_rounding rnd"
  shows "let (c', d') = Ctrlcmd_UpdateData rnd c d in
     \<bar>ctrl_cmd_velocity rnd d' - BoundedValue 0 (5 / 2) (m_ctrl_cmd_velocity c)\<bar> \<le> 0.001 + 1 / 1000000000
   \<and> \<bar>ctrl_cmd_steering rnd d' - BoundedValue (-32) 32 (m_ctrl_cmd_steering c)\<bar> \<le> 0.01 + 1 / 1000000000
   \<and> ctrl_cmd_gear d' = BoundedValue 0 4 (m_ctrl_cmd_gear c)
   \<and> ctrl_cmd_brake d' = BoundedValue 0 127 (m_ctrl_cmd_brake c)
   \<and> ctrl_alive_static c' = (ctrl_alive_static c + 1) AND 0xF
   \<and> ctrl_cmd_alive_cnt d' = uint (ctrl_alive_static c')
   \<and> bcc_ok d'"
proof -
  obtain c' d' where u: "Ctrlcmd_UpdateData rnd c d = (c', d')" by (rule prod.exhaust)
  note f = Ctrlcmd_fields [OF assms(1) u refl refl]
  have "BoundedValue 0 4 (m_ctrl_cmd_gear c) mod 16 = BoundedValue 0 4 (m_ctrl_cmd_gear c)"
    using BoundedValue_in_range [of 0 4 "m_ctrl_cmd_gear c"] by simp
  moreover have "bcc_ok d'" using Ctrlcmd_bcc [OF assms(1), of rnd c] u by simp
  ultimately show ?thesis using Ctrlcmd_close [OF assms u] f(3-6) by (simp add: u)
qed

theorem ctrl_cmd_update_readback_witness:
  "ctrl_cmd_gear (snd (Ctrlcmd_UpdateData (\<lambda>x. x) (set_ctrl_cmd_gear 4 new_ctrl_cmd) (replicate 8 0))) = 4"
  using ctrl_cmd_update_readback [OF _ exact_rounding, of "replicate 8 0" "set_ctrl_cmd_gear 4 new_ctrl_cmd"]
  by (simp add: Let_def split_def set_ctrl_cmd_gear_def BoundedValue_def)

end
