(* ===== verification/MkMiniFrames.thy ===== *)
theory MkMiniFrames
  imports MkMiniFeedback MkMiniCtrlCmd
begin

text \<open>
  The other report frames of the mk_mini chassis (\<open>modules/canbus/vehicle/mk_mini/protocol\<close>): driving
  feedback, rear wheels, odometer, battery and ultrasonic sensors. Accessors join up to four parts
  of the frame with \<open>x <<= n; x |= t\<close>, extend signs with \<open>x <<= n; x >>= n\<close> and scale by the
  precision; \<open>rnd\<close> rounds the products.
\<close>

section \<open>Accessors of \<open>Ctrlfb18c4d2ef\<close>\<close>

record ctrl_fb_msg =
  m_ctrl_fb_remotest :: bool
  m_ctrl_fb_check_bcc :: int
  m_ctrl_fb_alive_cnt :: int
  m_ctrl_fb_mode :: int
  m_ctrl_fb_brake :: int
  m_ctrl_fb_steering :: real
  m_ctrl_fb_velocity :: real
  m_ctrl_fb_gear :: int

definition ctrl_fb_remotest :: "frame_data \<Rightarrow> bool" where
  "ctrl_fb_remotest bytes \<longleftrightarrow> get_field 5 7 1 bytes \<noteq> 0"

definition ctrl_fb_check_bcc :: "frame_data \<Rightarrow> int" where
  "ctrl_fb_check_bcc bytes = get_field 7 0 8 bytes"

definition ctrl_fb_alive_cnt :: "frame_data \<Rightarrow> int" where
  "ctrl_fb_alive_cnt bytes = get_field 6 4 4 bytes"

definition ctrl_fb_mode :: "frame_data \<Rightarrow> int" where
  "ctrl_fb_mode bytes = get_field 5 4 2 bytes"

definition ctrl_fb_brake :: "frame_data \<Rightarrow> int" where
  "ctrl_fb_brake bytes =
     (let x0 = get_field 5 0 4 bytes;
          x1 = shift_or 4 x0 (get_field 4 4 4 bytes)
      in x1)"

definition ctrl_fb_steering :: "(real \<Rightarrow> real) \<Rightarrow> frame_data \<Rightarrow> real" where
  "ctrl_fb_steering rnd bytes =
     (let x0 = get_field 4 0 4 bytes;
          x1 = shift_or 8 x0 (get_field 3 0 8 bytes);
          x2 = shift_or 4 x1 (get_field 2 4 4 bytes);
          x3 = shift_back 16 x2
      in rnd (of_int x3 * rnd (1 / 100)))"

definition ctrl_fb_velocity :: "(real \<Rightarrow> real) \<Rightarrow> frame_data \<Rightarrow> real" where
  "ctrl_fb_velocity rnd bytes =
     (let x0 = get_field 2 0 4 bytes;
          x1 = shift_or 8 x0 (get_field 1 0 8 bytes);
          x2 = shift_or 4 x1 (get_field 0 4 4 bytes)
      in rnd (of_int x2 * rnd (1 / 1000)))"

definition ctrl_fb_gear :: "frame_data \<Rightarrow> int" where
  "ctrl_fb_gear bytes = get_field 0 0 4 bytes"

section \<open>Accessors of \<open>Lrwheelfb18c4d7ef\<close>\<close>

record lr_wheel_fb_msg =
  m_lr_wheel_fb_check_bcc :: int
  m_lr_wheel_fb_alive_cnt :: int
  m_lr_wheel_fb_pulse :: int
  m_lr_wheel_fb_velocity :: real

definition lr_wheel_fb_check_bcc :: "frame_data \<Rightarrow> int" where
  "lr_wheel_fb_check_bcc bytes = get_field 7 0 8 bytes"

definition lr_wheel_fb_alive_cnt :: "frame_data \<Rightarrow> int" where
  "lr_wheel_fb_alive_cnt bytes = get_field 6 4 4 bytes"

definition lr_wheel_fb_pulse :: "frame_data \<Rightarrow> int" where
  "lr_wheel_fb_pulse bytes =
     (let x0 = get_field 5 0 8 bytes;
          x1 = shift_or 8 x0 (get_field 4 0 8 bytes);
          x2 = shift_or 8 x1 (get_field 3 0 8 bytes);
          x3 = shift_or 8 x2 (get_field 2 0 8 bytes);
          x4 = shift_back 0 x3
      in x4)"

definition lr_wheel_fb_velocity :: "(real \<Rightarrow> real) \<Rightarrow> frame_data \<Rightarrow> real" where
  "lr_wheel_fb_velocity rnd bytes =
     (let x0 = get_field 1 0 8 bytes;
          x1 = shift_or 8 x0 (get_field 0 0 8 bytes);
          x2 = shift_back 16 x1
      in rnd (of_int x2 * rnd (1 / 1000)))"

section \<open>Accessors of \<open>Rrwheelfb18c4d8ef\<close>\<close>

record rr_wheel_fb_msg =
  m_rr_wheel_fb_velocity :: real
  m_rr_wheel_fb_pulse :: int
  m_rr_wheel_fb_check_bcc :: int
  m_rr_wheel_fb_alive_cnt :: int

definition rr_wheel_fb_velocity :: "(real \<Rightarrow> real) \<Rightarrow> frame_data \<Rightarrow> real" where
  "rr_wheel_fb_velocity rnd bytes =
     (let x0 = get_field 1 0 8 bytes;
          x1 = shift_or 8 x0 (get_field 0 0 8 bytes);
          x2 = shift_back 16 x1
      in rnd (of_int x2 * rnd (1 / 1000)))"

definition rr_wheel_fb_pulse :: "frame_data \<Rightarrow> int" where
  "rr_wheel_fb_pulse bytes =
     (let x0 = get_field 5 0 8 bytes;
          x1 = shift_or 8 x0 (get_field 4 0 8 bytes);
          x2 = shift_or 8 x1 (get_field 3 0 8 bytes);
          x3 = shift_or 8 x2 (get_field 2 0 8 bytes);
          x4 = shift_back 0 x3
      in x4)"

definition rr_wheel_fb_check_bcc :: "frame_data \<Rightarrow> int" where
  "rr_wheel_fb_check_bcc bytes = get_field 7 0 8 bytes"

definition rr_wheel_fb_alive_cnt :: "frame_data \<Rightarrow> int" where
  "rr_wheel_fb_alive_cnt bytes = get_field 6 4 4 bytes"

section \<open>Accessors of \<open>Odofb18c4deef\<close>\<close>

record odo_fb_msg =
  m_odo_fb_accumulative_angular :: real
  m_odo_fb_accumulative_mileage :: real

definition odo_fb_accumulative_angular :: "(real \<Rightarrow> real) \<Rightarrow> frame_data \<Rightarrow> real" where
  "odo_fb_accumulative_angular rnd bytes =
     (let x0 = get_field 7 0 8 bytes;
          x1 = shift_or 8 x0 (get_field 6 0 8 bytes);
          x2 = shift_or 8 x1 (get_field 5 0 8 bytes);
          x3 = shift_or 8 x2 (get_field 4 0 8 bytes);
          x4 = shift_back 0 x3
      in rnd (of_int x4 * rnd (1 / 1000)))"

definition odo_fb_accumulative_mileage :: "(real \<Rightarrow> real) \<Rightarrow> frame_data \<Rightarrow> real" where
  "odo_fb_accumulative_mileage rnd bytes =
     (let x0 = get_field 3 0 8 bytes;
          x1 = shift_or 8 x0 (get_field 2 0 8 bytes);
          x2 = shift_or 8 x1 (get_field 1 0 8 bytes);
          x3 = shift_or 8 x2 (get_field 0 0 8 bytes);
          x4 = shift_back 0 x3
      in rnd (of_int x4 * rnd (1 / 1000)))"

section \<open>Accessors of \<open>Bmsinfor18c4e1ef\<close>\<close>

record bms_infor_msg =
  m_bms_infor_check_bcc :: int
  m_bms_infor_alive_cnt :: int
  m_bms_infor_remaining_capacity :: real
  m_bms_infor_current :: real
  m_bms_infor_voltage :: real

definition bms_infor_check_bcc :: "frame_data \<Rightarrow> int" where
  "bms_infor_check_bcc bytes = get_field 7 0 8 bytes"

definition bms_infor_alive_cnt :: "frame_data \<Rightarrow> int" where
  "bms_infor_alive_cnt bytes = get_field 6 4 4 bytes"

definition bms_infor_remaining_capacity :: "(real \<Rightarrow> real) \<Rightarrow> frame_data \<Rightarrow> real" where
  "bms_infor_remaining_capacity rnd bytes =
     (let x0 = get_field 5 0 8 bytes;
          x1 = shift_or 8 x0 (get_field 4 0 8 bytes)
      in rnd (of_int x1 * rnd (1 / 100)))"

definition bms_infor_current :: "(real \<Rightarrow> real) \<Rightarrow> frame_data \<Rightarrow> real" where
  "bms_infor_current rnd bytes =
     (let x0 = get_field 3 0 8 bytes;
          x1 = shift_or 8 x0 (get_field 2 0 8 bytes);
          x2 = shift_back 16 x1
      in rnd (of_int x2 * rnd (1 / 100)))"

definition bms_infor_voltage :: "(real \<Rightarrow> real) \<Rightarrow> frame_data \<Rightarrow> real" where
  "bms_infor_voltage rnd bytes =
     (let x0 = get_field 1 0 8 bytes;
          x1 = shift_or 8 x0 (get_field 0 0 8 bytes)
      in rnd (of_int x1 * rnd (1 / 100)))"

section \<open>Accessors of \<open>Bmsflaginfor18c4e2ef\<close>\<close>

record bms_flag_infor_msg =
  m_bms_flag_infor_soclowprotection :: bool
  m_bms_flag_infor_check_bcc :: int
  m_bms_flag_infor_alive_cnt :: int
  m_bms_flag_infor_socwarning :: bool
  m_bms_flag_infor_low_temperature :: real
  m_bms_flag_infor_hight_temperature :: real
  m_bms_flag_infor_charge_st :: int
  m_bms_flag_infor_lock_mos :: bool
  m_bms_flag_infor_ic_error :: bool
  m_bms_flag_infor_short :: bool
  m_bms_flag_infor_discharge_oc :: bool
  m_bms_flag_infor_charge_oc :: bool
  m_bms_flag_infor_discharge_ut :: bool
  m_bms_flag_infor_discharge_ot :: bool
  m_bms_flag_infor_charge_ut :: bool
  m_bms_flag_infor_charge_ot :: bool
  m_bms_flag_infor_uv :: bool
  m_bms_flag_infor_ov :: bool
  m_bms_flag_infor_single_uv :: bool
  m_bms_flag_infor_single_ov :: bool
  m_bms_flag_infor_soc :: int

definition bms_flag_infor_soclowprotection :: "frame_data \<Rightarrow> bool" where
  "bms_flag_infor_soclowprotection bytes \<longleftrightarrow> get_field 3 0 1 bytes \<noteq> 0"

definition bms_flag_infor_check_bcc :: "frame_data \<Rightarrow> int" where
  "bms_flag_infor_check_bcc bytes = get_field 7 0 8 bytes"

definition bms_flag_infor_alive_cnt :: "frame_data \<Rightarrow> int" where
  "bms_flag_infor_alive_cnt bytes = get_field 6 4 4 bytes"

definition bms_flag_infor_socwarning :: "frame_data \<Rightarrow> bool" where
  "bms_flag_infor_socwarning bytes \<longleftrightarrow> get_field 2 7 1 bytes \<noteq> 0"

definition bms_flag_infor_low_temperature :: "(real \<Rightarrow> real) \<Rightarrow> frame_data \<Rightarrow> real" where
  "bms_flag_infor_low_temperature rnd bytes =
     (let x0 = get_field 6 0 4 bytes;
          x1 = shift_or 8 x0 (get_field 5 0 8 bytes);
          x2 = shift_back 20 x1
      in rnd (of_int x2 * rnd (1 / 10)))"

definition bms_flag_infor_hight_temperature :: "(real \<Rightarrow> real) \<Rightarrow> frame_data \<Rightarrow> real" where
  "bms_flag_infor_hight_temperature rnd bytes =
     (let x0 = get_field 4 0 8 bytes;
          x1 = shift_or 4 x0 (get_field 3 4 4 bytes);
          x2 = shift_back 20 x1
      in rnd (of_int x2 * rnd (1 / 10)))"

definition bms_flag_infor_charge_st :: "frame_data \<Rightarrow> int" where
  "bms_flag_infor_charge_st bytes = get_field 2 5 2 bytes"

definition bms_flag_infor_lock_mos :: "frame_data \<Rightarrow> bool" where
  "bms_flag_infor_lock_mos bytes \<longleftrightarrow> get_field 2 4 1 bytes \<noteq> 0"

definition bms_flag_infor_ic_error :: "frame_data \<Rightarrow> bool" where
  "bms_flag_infor_ic_error bytes \<longleftrightarrow> get_field 2 3 1 bytes \<noteq> 0"

definition bms_flag_infor_short :: "frame_data \<Rightarrow> bool" where
  "bms_flag_infor_short bytes \<longleftrightarrow> get_field 2 2 1 bytes \<noteq> 0"

definition bms_flag_infor_discharge_oc :: "frame_data \<Rightarrow> bool" where
  "bms_flag_infor_discharge_oc bytes \<longleftrightarrow> get_field 2 1 1 bytes \<noteq> 0"

definition bms_flag_infor_charge_oc :: "frame_data \<Rightarrow> bool" where
  "bms_flag_infor_charge_oc bytes \<longleftrightarrow> get_field 2 0 1 bytes \<noteq> 0"

definition bms_flag_infor_discharge_ut :: "frame_data \<Rightarrow> bool" where
  "bms_flag_infor_discharge_ut bytes \<longleftrightarrow> get_field 1 7 1 bytes \<noteq> 0"

definition bms_flag_infor_discharge_ot :: "frame_data \<Rightarrow> bool" where
  "bms_flag_infor_discharge_ot bytes \<longleftrightarrow> get_field 1 6 1 bytes \<noteq> 0"

definition bms_flag_infor_charge_ut :: "frame_data \<Rightarrow> bool" where
  "bms_flag_infor_charge_ut bytes \<longleftrightarrow> get_field 1 5 1 bytes \<noteq> 0"

definition bms_flag_infor_charge_ot :: "frame_data \<Rightarrow> bool" where
  "bms_flag_infor_charge_ot bytes \<longleftrightarrow> get_field 1 4 1 bytes \<noteq> 0"

definition bms_flag_infor_uv :: "frame_data \<Rightarrow> bool" where
  "bms_flag_infor_uv bytes \<longleftrightarrow> get_field 1 3 1 bytes \<noteq> 0"

definition bms_flag_infor_ov :: "frame_data \<Rightarrow> bool" where
  "bms_flag_infor_ov bytes \<longleftrightarrow> get_field 1 2 1 bytes \<noteq> 0"

definition bms_flag_infor_single_uv :: "frame_data \<Rightarrow> bool" where
  "bms_flag_infor_single_uv bytes \<longleftrightarrow> get_field 1 1 1 bytes \<noteq> 0"

definition bms_flag_infor_single_ov :: "frame_data \<Rightarrow> bool" where
  "bms_flag_infor_single_ov bytes \<longleftrightarrow> get_field 1 0 1 bytes \<noteq> 0"

definition bms_flag_infor_soc :: "frame_data \<Rightarrow> int" where
  "bms_flag_infor_soc bytes = get_field 0 0 8 bytes"

section \<open>Accessors of \<open>Ultrasonic1fb18c4e8ef\<close>\<close>

record ultrasonic_1_fb_msg =
  m_ultrasonic_fb_01_check_bcc :: int
  m_ultrasonic_fb_01_alive_cnt :: int
  m_ultrasonic_fb_04 :: int
  m_ultrasonic_fb_03 :: int
  m_ultrasonic_fb_02 :: int
  m_ultrasonic_fb_01 :: int

definition ultrasonic_fb_01_check_bcc :: "frame_data \<Rightarrow> int" where
  "ultrasonic_fb_01_check_bcc bytes = get_field 7 0 8 bytes"

definition ultrasonic_fb_01_alive_cnt :: "frame_data \<Rightarrow> int" where
  "ultrasonic_fb_01_alive_cnt bytes = get_field 6 4 4 bytes"

definition ultrasonic_fb_04 :: "frame_data \<Rightarrow> int" where
  "ultrasonic_fb_04 bytes =
     (let x0 = get_field 5 0 8 bytes;
          x1 = shift_or 4 x0 (get_field 4 4 4 bytes)
      in x1)"

definition ultrasonic_fb_03 :: "frame_data \<Rightarrow> int" where
  "ultrasonic_fb_03 bytes =
     (let x0 = get_field 4 0 4 bytes;
          x1 = shift_or 8 x0 (get_field 3 0 8 bytes)
      in x1)"

definition ultrasonic_fb_02 :: "frame_data \<Rightarrow> int" where
  "ultrasonic_fb_02 bytes =
     (let x0 = get_field 2 0 8 bytes;
          x1 = shift_or 4 x0 (get_field 1 4 4 bytes)
      in x1)"

definition ultrasonic_fb_01 :: "frame_data \<Rightarrow> int" where
  "ultrasonic_fb_01 bytes =
     (let x0 = get_field 1 0 4 bytes;
          x1 = shift_or 8 x0 (get_field 0 0 8 bytes)
      in x1)"

section \<open>Accessors of \<open>Ultrasonic2fb18c4e9ef\<close>\<close>

record ultrasonic_2_fb_msg =
  m_ultrasonic_fb_02_check_bcc :: int
  m_ultrasonic_fb_02_alive_cnt :: int
  m_ultrasonic_fb_08 :: int
  m_ultrasonic_fb_07 :: int
  m_ultrasonic_fb_06 :: int
  m_ultrasonic_fb_05 :: int

definition ultrasonic_fb_02_check_bcc :: "frame_data \<Rightarrow> int" where
  "ultrasonic_fb_02_check_bcc bytes = get_field 7 0 8 bytes"

definition ultrasonic_fb_02_alive_cnt :: "frame_data \<Rightarrow> int" where
  "ultrasonic_fb_02_alive_cnt bytes = get_field 6 4 4 bytes"

definition ultrasonic_fb_08 :: "frame_data \<Rightarrow> int" where
  "ultrasonic_fb_08 bytes =
     (let x0 = get_field 5 0 8 bytes;
          x1 = shift_or 4 x0 (get_field 4 4 4 bytes)
      in x1)"

definition ultrasonic_fb_07 :: "frame_data \<Rightarrow> int" where
  "ultrasonic_fb_07 bytes =
     (let x0 = get_field 4 0 4 bytes;
          x1 = shift_or 8 x0 (get_field 3 0 8 bytes)
      in x1)"

definition ultrasonic_fb_06 :: "frame_data \<Rightarrow> int" where
  "ultrasonic_fb_06 bytes =
     (let x0 = get_field 2 0 8 bytes;
          x1 = shift_or 4 x0 (get_field 1 4 4 bytes)
      in x1)"

definition ultrasonic_fb_05 :: "frame_data \<Rightarrow> int" where
  "ultrasonic_fb_05 bytes =
     (let x0 = get_field 1 0 4 bytes;
          x1 = shift_or 8 x0 (get_field 0 0 8 bytes)
      in x1)"

section \<open>Parsing into the chassis detail\<close>

text \<open>The sub-messages of these frames, beside the two the earlier theory has.\<close>

record mk_mini_chassis = mk_mini_detail +
  ctrl_fb_18c4d2ef :: "ctrl_fb_msg option"
  lr_wheel_fb_18c4d7ef :: "lr_wheel_fb_msg option"
  rr_wheel_fb_18c4d8ef :: "rr_wheel_fb_msg option"
  odo_fb_18c4deef :: "odo_fb_msg option"
  bms_infor_18c4e1ef :: "bms_infor_msg option"
  bms_flag_infor_18c4e2ef :: "bms_flag_infor_msg option"
  ultrasonic_1_fb_18c4e8ef :: "ultrasonic_1_fb_msg option"
  ultrasonic_2_fb_18c4e9ef :: "ultrasonic_2_fb_msg option"

definition ctrl_fb_fields :: "(real \<Rightarrow> real) \<Rightarrow> frame_data \<Rightarrow> ctrl_fb_msg" where
  "ctrl_fb_fields rnd bytes = \<lparr>
     m_ctrl_fb_remotest = ctrl_fb_remotest bytes,
     m_ctrl_fb_check_bcc = ctrl_fb_check_bcc bytes,
     m_ctrl_fb_alive_cnt = ctrl_fb_alive_cnt bytes,
     m_ctrl_fb_mode = ctrl_fb_mode bytes,
     m_ctrl_fb_brake = ctrl_fb_brake bytes,
     m_ctrl_fb_steering = ctrl_fb_steering rnd bytes,
     m_ctrl_fb_velocity = ctrl_fb_velocity rnd bytes,
     m_ctrl_fb_gear = ctrl_fb_gear bytes\<rparr>"

definition Ctrlfb_Parse :: "(real \<Rightarrow> real) \<Rightarrow> frame_data \<Rightarrow> mk_mini_chassis \<Rightarrow> mk_mini_chassis" where
  "Ctrlfb_Parse rnd bytes chassis = chassis\<lparr>ctrl_fb_18c4d2ef := Some (ctrl_fb_fields rnd bytes)\<rparr>"

definition lr_wheel_fb_fields :: "(real \<Rightarrow> real) \<Rightarrow> frame_data \<Rightarrow> lr_wheel_fb_msg" where
  "lr_wheel_fb_fields rnd bytes = \<lparr>
     m_lr_wheel_fb_check_bcc = lr_wheel_fb_check_bcc bytes,
     m_lr_wheel_fb_alive_cnt = lr_wheel_fb_alive_cnt bytes,
     m_lr_wheel_fb_pulse = lr_wheel_fb_pulse bytes,
     m_lr_wheel_fb_velocity = lr_wheel_fb_velocity rnd bytes\<rparr>"

definition Lrwheelfb_Parse :: "(real \<Rightarrow> real) \<Rightarrow> frame_data \<Rightarrow> mk_mini_chassis \<Rightarrow> mk_mini_chassis" where
  "Lrwheelfb_Parse rnd bytes chassis = chassis\<lparr>lr_wheel_fb_18c4d7ef := Some (lr_wheel_fb_fields rnd bytes)\<rparr>"

definition rr_wheel_fb_fields :: "(real \<Rightarrow> real) \<Rightarrow> frame_data \<Rightarrow> rr_wheel_fb_msg" where
  "rr_wheel_fb_fields rnd bytes = \<lparr>
     m_rr_wheel_fb_velocity = rr_wheel_fb_velocity rnd bytes,
     m_rr_wheel_fb_pulse = rr_wheel_fb_pulse bytes,
     m_rr_wheel_fb_check_bcc = rr_wheel_fb_check_bcc bytes,
     m_rr_wheel_fb_alive_cnt = rr_wheel_fb_alive_cnt bytes\<rparr>"

definition Rrwheelfb_Parse :: "(real \<Rightarrow> real) \<Rightarrow> frame_data \<Rightarrow> mk_mini_chassis \<Rightarrow> mk_mini_chassis" where
  "Rrwheelfb_Parse rnd bytes chassis = chassis\<lparr>rr_wheel_fb_18c4d8ef := Some (rr_wheel_fb_fields rnd bytes)\<rparr>"

definition odo_fb_fields :: "(real \<Rightarrow> real) \<Rightarrow> frame_data \<Rightarrow> odo_fb_msg" where
  "odo_fb_fields rnd bytes = \<lparr>
     m_odo_fb_accumulative_angular = odo_fb_accumulative_angular rnd bytes,
     m_odo_fb_accumulative_mileage = odo_fb_accumulative_mileage rnd bytes\<rparr>"

definition Odofb_Parse :: "(real \<Rightarrow> real) \<Rightarrow> frame_data \<Rightarrow> mk_mini_chassis \<Rightarrow> mk_mini_chassis" where
  "Odofb_Parse rnd bytes chassis = chassis\<lparr>odo_fb_18c4deef := Some (odo_fb_fields rnd bytes)\<rparr>"

definition bms_infor_fields :: "(real \<Rightarrow> real) \<Rightarrow> frame_data \<Rightarrow> bms_infor_msg" where
  "bms_infor_fields rnd bytes = \<lparr>
     m_bms_infor_check_bcc = bms_infor_check_bcc bytes,
     m_bms_infor_alive_cnt = bms_infor_alive_cnt bytes,
     m_bms_infor_remaining_capacity = bms_infor_remaining_capacity rnd bytes,
     m_bms_infor_current = bms_infor_current rnd bytes,
     m_bms_infor_voltage = bms_infor_voltage rnd bytes\<rparr>"

definition Bmsinfor_Parse :: "(real \<Rightarrow> real) \<Rightarrow> frame_data \<Rightarrow> mk_mini_chassis \<Rightarrow> mk_mini_chassis" where
  "Bmsinfor_Parse rnd bytes chassis = chassis\<lparr>bms_infor_18c4e1ef := Some (bms_infor_fields rnd bytes)\<rparr>"

definition bms_flag_infor_fields :: "(real \<Rightarrow> real) \<Rightarrow> frame_data \<Rightarrow> bms_flag_infor_msg" where
  "bms_flag_infor_fields rnd bytes = \<lparr>
     m_bms_flag_infor_soclowprotection = bms_flag_infor_soclowprotection bytes,
     m_bms_flag_infor_check_bcc = bms_flag_infor_check_bcc bytes,
     m_bms_flag_infor_alive_cnt = bms_flag_infor_alive_cnt bytes,
     m_bms_flag_infor_socwarning = bms_flag_infor_socwarning bytes,
     m_bms_flag_infor_low_temperature = bms_flag_infor_low_temperature rnd bytes,
     m_bms_flag_infor_hight_temperature = bms_flag_infor_hight_temperature rnd bytes,
     m_bms_flag_infor_charge_st = bms_flag_infor_charge_st bytes,
     m_bms_flag_infor_lock_mos = bms_flag_infor_lock_mos bytes,
     m_bms_flag_infor_ic_error = bms_flag_infor_ic_error bytes,
     m_bms_flag_infor_short = bms_flag_infor_short bytes,
     m_bms_flag_infor_discharge_oc = bms_flag_infor_discharge_oc bytes,
     m_bms_flag_infor_charge_oc = bms_flag_infor_charge_oc bytes,
     m_bms_flag_infor_discharge_ut = bms_flag_infor_discharge_ut bytes,
     m_bms_flag_infor_discharge_ot = bms_flag_infor_discharge_ot bytes,
     m_bms_flag_infor_charge_ut = bms_flag_infor_charge_ut bytes,
     m_bms_flag_infor_charge_ot = bms_flag_infor_charge_ot bytes,
     m_bms_flag_infor_uv = bms_flag_infor_uv bytes,
     m_bms_flag_infor_ov = bms_flag_infor_ov bytes,
     m_bms_flag_infor_single_uv = bms_flag_infor_single_uv bytes,
     m_bms_flag_infor_single_ov = bms_flag_infor_single_ov bytes,
     m_bms_flag_infor_soc = bms_flag_infor_soc bytes\<rparr>"

definition Bmsflaginfor_Parse :: "(real \<Rightarrow> real) \<Rightarrow> frame_data \<Rightarrow> mk_mini_chassis \<Rightarrow> mk_mini_chassis" where
  "Bmsflaginfor_Parse rnd bytes chassis = chassis\<lparr>bms_flag_infor_18c4e2ef := Some (bms_flag_infor_fields rnd bytes)\<rparr>"

definition ultrasonic_1_fb_fields :: "frame_data \<Rightarrow> ultrasonic_1_fb_msg" where
  "ultrasonic_1_fb_fields bytes = \<lparr>
     m_ultrasonic_fb_01_check_bcc = ultrasonic_fb_01_check_bcc bytes,
     m_ultrasonic_fb_01_alive_cnt = ultrasonic_fb_01_alive_cnt bytes,
     m_ultrasonic_fb_04 = ultrasonic_fb_04 bytes,
     m_ultrasonic_fb_03 = ultrasonic_fb_03 bytes,
     m_ultrasonic_fb_02 = ultrasonic_fb_02 bytes,
     m_ultrasonic_fb_01 = ultrasonic_fb_01 bytes\<rparr>"

definition Ultrasonic1fb_Parse :: "frame_data \<Rightarrow> mk_mini_chassis \<Rightarrow> mk_mini_chassis" where
  "Ultrasonic1fb_Parse bytes chassis = chassis\<lparr>ultrasonic_1_fb_18c4e8ef := Some (ultrasonic_1_fb_fields bytes)\<rparr>"

definition ultrasonic_2_fb_fields :: "frame_data \<Rightarrow> ultrasonic_2_fb_msg" where
  "ultrasonic_2_fb_fields bytes = \<lparr>
     m_ultrasonic_fb_02_check_bcc = ultrasonic_fb_02_check_bcc bytes,
     m_ultrasonic_fb_02_alive_cnt = ultrasonic_fb_02_alive_cnt bytes,
     m_ultrasonic_fb_08 = ultrasonic_fb_08 bytes,
     m_ultrasonic_fb_07 = ultrasonic_fb_07 bytes,
     m_ultrasonic_fb_06 = ultrasonic_fb_06 bytes,
     m_ultrasonic_fb_05 = ultrasonic_fb_05 bytes\<rparr>"

definition Ultrasonic2fb_Parse :: "frame_data \<Rightarrow> mk_mini_chassis \<Rightarrow> mk_mini_chassis" where
  "Ultrasonic2fb_Parse bytes chassis = chassis\<lparr>ultrasonic_2_fb_18c4e9ef := Some (ultrasonic_2_fb_fields bytes)\<rparr>"

lemmas ctrl_fb_accessors =
  ctrl_fb_remotest_def
  ctrl_fb_check_bcc_def
  ctrl_fb_alive_cnt_def
  ctrl_fb_mode_def
  ctrl_fb_brake_def
  ctrl_fb_steering_def
  ctrl_fb_velocity_def
  ctrl_fb_gear_def

lemmas lr_wheel_fb_accessors =
  lr_wheel_fb_check_bcc_def
  lr_wheel_fb_alive_cnt_def
  lr_wheel_fb_pulse_def
  lr_wheel_fb_velocity_def

lemmas rr_wheel_fb_accessors =
  rr_wheel_fb_velocity_def
  rr_wheel_fb_pulse_def
  rr_wheel_fb_check_bcc_def
  rr_wheel_fb_alive_cnt_def

lemmas odo_fb_accessors =
  odo_fb_accumulative_angular_def
  odo_fb_accumulative_mileage_def

lemmas bms_infor_accessors =
  bms_infor_check_bcc_def
  bms_infor_alive_cnt_def
  bms_infor_remaining_capacity_def
  bms_infor_current_def
  bms_infor_voltage_def

lemmas bms_flag_infor_accessors =
  bms_flag_infor_soclowprotection_def
  bms_flag_infor_check_bcc_def
  bms_flag_infor_alive_cnt_def
  bms_flag_infor_socwarning_def
  bms_flag_infor_low_temperature_def
  bms_flag_infor_hight_temperature_def
  bms_flag_infor_charge_st_def
  bms_flag_infor_lock_mos_def
  bms_flag_infor_ic_error_def
  bms_flag_infor_short_def
  bms_flag_infor_discharge_oc_def
  bms_flag_infor_charge_oc_def
  bms_flag_infor_discharge_ut_def
  bms_flag_infor_discharge_ot_def
  bms_flag_infor_charge_ut_def
  bms_flag_infor_charge_ot_def
  bms_flag_infor_uv_def
  bms_flag_infor_ov_def
  bms_flag_infor_single_uv_def
  bms_flag_infor_single_ov_def
  bms_flag_infor_soc_def

lemmas ultrasonic_1_fb_accessors =
  ultrasonic_fb_01_check_bcc_def
  ultrasonic_fb_01_alive_cnt_def
  ultrasonic_fb_04_def
  ultrasonic_fb_03_def
  ultrasonic_fb_02_def
  ultrasonic_fb_01_def

lemmas ultrasonic_2_fb_accessors =
  ultrasonic_fb_02_check_bcc_def
  ultrasonic_fb_02_alive_cnt_def
  ultrasonic_fb_08_def
  ultrasonic_fb_07_def
  ultrasonic_fb_06_def
  ultrasonic_fb_05_def

section \<open>Joined and signed signals\<close>

definition signed_signal :: "nat \<Rightarrow> nat \<Rightarrow> frame_data \<Rightarrow> int" where
  "signed_signal start len d = signed_take_bit (len - 1) (frame_int d div 2 ^ start)"

lemma intel_signal_bits: "intel_signal b l d = take_bit l (drop_bit b (frame_int d))"
  by (simp add: intel_signal_def take_bit_eq_mod drop_bit_eq_div)

lemma signed_signal_bits: "signed_signal b l d = signed_take_bit (l - 1) (drop_bit b (frame_int d))"
  by (simp add: signed_signal_def drop_bit_eq_div)

lemma join_signals:
  assumes "l + n \<le> 31"
  shows "shift_or n (intel_signal (b + n) l d) (intel_signal b n d) = intel_signal b (n + l) d"
  unfolding shift_or_def intel_signal_bits
  by (rule bit_eqI) (use assms in \<open>auto simp: bit_simps min_def ac_simps\<close>)

lemma join_signals_32:
  assumes "l + n = 32" "0 < l" "0 < n"
  shows "shift_or n (intel_signal (b + n) l d) (intel_signal b n d) = signed_signal b 32 d"
  unfolding shift_or_def intel_signal_bits signed_signal_bits
  by (rule bit_eqI) (use assms in \<open>auto simp: bit_simps min_def ac_simps\<close>)

lemma extend_signal:
  assumes "l + n = 32" "0 < l"
  shows "shift_back n (intel_signal b l d) = signed_signal b l d"
proof -
  obtain j where j: "31 = n + j" "l = Suc j" using assms by (cases l) simp_all
  show ?thesis unfolding shift_back_def intel_signal_bits signed_signal_bits j
    by (rule bit_eqI) (auto simp: bit_simps min_def ac_simps)
qed

lemma shift_back_0: "shift_back 0 (signed_signal b 32 d) = signed_signal b 32 d"
  by (simp add: shift_back_def signed_signal_bits)

lemma signal_rules:
  "c = b + n \<Longrightarrow> l + n \<le> 31 \<Longrightarrow> shift_or n (intel_signal c l d) (intel_signal b n d) = intel_signal b (n + l) d"
  "c = b + n \<Longrightarrow> l + n = 32 \<Longrightarrow> 0 < l \<Longrightarrow> 0 < n \<Longrightarrow> shift_or n (intel_signal c l d) (intel_signal b n d) = signed_signal b 32 d"
  "l + n = 32 \<Longrightarrow> 0 < l \<Longrightarrow> shift_back n (intel_signal b l d) = signed_signal b l d"
  "shift_back 0 (signed_signal b 32 d) = signed_signal b 32 d"
  by (simp_all add: join_signals join_signals_32 extend_signal shift_back_0)

lemma ctrl_fb_parse_signals:
  assumes "length bytes = 8"
  shows "Ctrlfb_Parse rnd bytes chassis = chassis\<lparr>ctrl_fb_18c4d2ef := Some \<lparr>
           m_ctrl_fb_remotest = (intel_signal 47 1 bytes \<noteq> 0),
           m_ctrl_fb_check_bcc = intel_signal 56 8 bytes,
           m_ctrl_fb_alive_cnt = intel_signal 52 4 bytes,
           m_ctrl_fb_mode = intel_signal 44 2 bytes,
           m_ctrl_fb_brake = intel_signal 36 8 bytes,
           m_ctrl_fb_steering = rnd (of_int (signed_signal 20 16 bytes) * rnd (1 / 100)),
           m_ctrl_fb_velocity = rnd (of_int (intel_signal 4 16 bytes) * rnd (1 / 1000)),
           m_ctrl_fb_gear = intel_signal 0 4 bytes\<rparr>\<rparr>"
  using assms
  by (simp add: Ctrlfb_Parse_def ctrl_fb_fields_def ctrl_fb_accessors get_field_signal signal_rules Let_def)

lemma lr_wheel_fb_parse_signals:
  assumes "length bytes = 8"
  shows "Lrwheelfb_Parse rnd bytes chassis = chassis\<lparr>lr_wheel_fb_18c4d7ef := Some \<lparr>
           m_lr_wheel_fb_check_bcc = intel_signal 56 8 bytes,
           m_lr_wheel_fb_alive_cnt = intel_signal 52 4 bytes,
           m_lr_wheel_fb_pulse = signed_signal 16 32 bytes,
           m_lr_wheel_fb_velocity = rnd (of_int (signed_signal 0 16 bytes) * rnd (1 / 1000))\<rparr>\<rparr>"
  using assms
  by (simp add: Lrwheelfb_Parse_def lr_wheel_fb_fields_def lr_wheel_fb_accessors get_field_signal signal_rules Let_def)

lemma rr_wheel_fb_parse_signals:
  assumes "length bytes = 8"
  shows "Rrwheelfb_Parse rnd bytes chassis = chassis\<lparr>rr_wheel_fb_18c4d8ef := Some \<lparr>
           m_rr_wheel_fb_velocity = rnd (of_int (signed_signal 0 16 bytes) * rnd (1 / 1000)),
           m_rr_wheel_fb_pulse = signed_signal 16 32 bytes,
           m_rr_wheel_fb_check_bcc = intel_signal 56 8 bytes,
           m_rr_wheel_fb_alive_cnt = intel_signal 52 4 bytes\<rparr>\<rparr>"
  using assms
  by (simp add: Rrwheelfb_Parse_def rr_wheel_fb_fields_def rr_wheel_fb_accessors get_field_signal signal_rules Let_def)

lemma odo_fb_parse_signals:
  assumes "length bytes = 8"
  shows "Odofb_Parse rnd bytes chassis = chassis\<lparr>odo_fb_18c4deef := Some \<lparr>
           m_odo_fb_accumulative_angular = rnd (of_int (signed_signal 32 32 bytes) * rnd (1 / 1000)),
           m_odo_fb_accumulative_mileage = rnd (of_int (signed_signal 0 32 bytes) * rnd (1 / 1000))\<rparr>\<rparr>"
  using assms
  by (simp add: Odofb_Parse_def odo_fb_fields_def odo_fb_accessors get_field_signal signal_rules Let_def)

lemma bms_infor_parse_signals:
  assumes "length bytes = 8"
  shows "Bmsinfor_Parse rnd bytes chassis = chassis\<lparr>bms_infor_18c4e1ef := Some \<lparr>
           m_bms_infor_check_bcc = intel_signal 56 8 bytes,
           m_bms_infor_alive_cnt = intel_signal 52 4 bytes,
           m_bms_infor_remaining_capacity = rnd (of_int (intel_signal 32 16 bytes) * rnd (1 / 100)),
           m_bms_infor_current = rnd (of_int (signed_signal 16 16 bytes) * rnd (1 / 100)),
           m_bms_infor_voltage = rnd (of_int (intel_signal 0 16 bytes) * rnd (1 / 100))\<rparr>\<rparr>"
  using assms
  by (simp add: Bmsinfor_Parse_def bms_infor_fields_def bms_infor_accessors get_field_signal signal_rules Let_def)

lemma bms_flag_infor_parse_signals:
  assumes "length bytes = 8"
  shows "Bmsflaginfor_Parse rnd bytes chassis = chassis\<lparr>bms_flag_infor_18c4e2ef := Some \<lparr>
           m_bms_flag_infor_soclowprotection = (intel_signal 24 1 bytes \<noteq> 0),
           m_bms_flag_infor_check_bcc = intel_signal 56 8 bytes,
           m_bms_flag_infor_alive_cnt = intel_signal 52 4 bytes,
           m_bms_flag_infor_socwarning = (intel_signal 23 1 bytes \<noteq> 0),
           m_bms_flag_infor_low_temperature = rnd (of_int (signed_signal 40 12 bytes) * rnd (1 / 10)),
           m_bms_flag_infor_hight_temperature = rnd (of_int (signed_signal 28 12 bytes) * rnd (1 / 10)),
           m_bms_flag_infor_charge_st = intel_signal 21 2 bytes,
           m_bms_flag_infor_lock_mos = (intel_signal 20 1 bytes \<noteq> 0),
           m_bms_flag_infor_ic_error = (intel_signal 19 1 bytes \<noteq> 0),
           m_bms_flag_infor_short = (intel_signal 18 1 bytes \<noteq> 0),
           m_bms_flag_infor_discharge_oc = (intel_signal 17 1 bytes \<noteq> 0),
           m_bms_flag_infor_charge_oc = (intel_signal 16 1 bytes \<noteq> 0),
           m_bms_flag_infor_discharge_ut = (intel_signal 15 1 bytes \<noteq> 0),
           m_bms_flag_infor_discharge_ot = (intel_signal 14 1 bytes \<noteq> 0),
           m_bms_flag_infor_charge_ut = (intel_signal 13 1 bytes \<noteq> 0),
           m_bms_flag_infor_charge_ot = (intel_signal 12 1 bytes \<noteq> 0),
           m_bms_flag_infor_uv = (intel_signal 11 1 bytes \<noteq> 0),
           m_bms_flag_infor_ov = (intel_signal 10 1 bytes \<noteq> 0),
           m_bms_flag_infor_single_uv = (intel_signal 9 1 bytes \<noteq> 0),
           m_bms_flag_infor_single_ov = (intel_signal 8 1 bytes \<noteq> 0),
           m_bms_flag_infor_soc = intel_signal 0 8 bytes\<rparr>\<rparr>"
  using assms
  by (simp add: Bmsflaginfor_Parse_def bms_flag_infor_fields_def bms_flag_infor_accessors get_field_signal signal_rules Let_def)

lemma ultrasonic_1_fb_parse_signals:
  assumes "length bytes = 8"
  shows "Ultrasonic1fb_Parse bytes chassis = chassis\<lparr>ultrasonic_1_fb_18c4e8ef := Some \<lparr>
           m_ultrasonic_fb_01_check_bcc = intel_signal 56 8 bytes,
           m_ultrasonic_fb_01_alive_cnt = intel_signal 52 4 bytes,
           m_ultrasonic_fb_04 = intel_signal 36 12 bytes,
           m_ultrasonic_fb_03 = intel_signal 24 12 bytes,
           m_ultrasonic_fb_02 = intel_signal 12 12 bytes,
           m_ultrasonic_fb_01 = intel_signal 0 12 bytes\<rparr>\<rparr>"
  using assms
  by (simp add: Ultrasonic1fb_Parse_def ultrasonic_1_fb_fields_def ultrasonic_1_fb_accessors get_field_signal signal_rules Let_def)

lemma ultrasonic_2_fb_parse_signals:
  assumes "length bytes = 8"
  shows "Ultrasonic2fb_Parse bytes chassis = chassis\<lparr>ultrasonic_2_fb_18c4e9ef := Some \<lparr>
           m_ultrasonic_fb_02_check_bcc = intel_signal 56 8 bytes,
           m_ultrasonic_fb_02_alive_cnt = intel_signal 52 4 bytes,
           m_ultrasonic_fb_08 = intel_signal 36 12 bytes,
           m_ultrasonic_fb_07 = intel_signal 24 12 bytes,
           m_ultrasonic_fb_06 = intel_signal 12 12 bytes,
           m_ultrasonic_fb_05 = intel_signal 0 12 bytes\<rparr>\<rparr>"
  using assms
  by (simp add: Ultrasonic2fb_Parse_def ultrasonic_2_fb_fields_def ultrasonic_2_fb_accessors get_field_signal signal_rules Let_def)
text \<open>The default chassis message, with no report.\<close>

definition new_chassis :: mk_mini_chassis where
  "new_chassis = \<lparr>io_fb_18c4daef = None, veh_fb_diag_18c4eaef = None,
     response = \<lparr>is_eps_online = False, is_vcu_online = False\<rparr>, ctrl_fb_18c4d2ef = None, lr_wheel_fb_18c4d7ef = None,
     rr_wheel_fb_18c4d8ef = None, odo_fb_18c4deef = None, bms_infor_18c4e1ef = None, bms_flag_infor_18c4e2ef = None,
     ultrasonic_1_fb_18c4e8ef = None, ultrasonic_2_fb_18c4e9ef = None\<rparr>"

text \<open>
  Parsing a driving feedback, wheel or odometer frame of eight bytes sets every field to the
  signal it is documented with: joined from its parts, signed where the documentation says so, and
  scaled by the documented precision.
\<close>

theorem motion_reports_parse_signals:
  assumes "length bytes = 8"
  shows "Ctrlfb_Parse rnd bytes chassis = chassis\<lparr>ctrl_fb_18c4d2ef := Some \<lparr>
           m_ctrl_fb_remotest = (intel_signal 47 1 bytes \<noteq> 0),
           m_ctrl_fb_check_bcc = intel_signal 56 8 bytes,
           m_ctrl_fb_alive_cnt = intel_signal 52 4 bytes,
           m_ctrl_fb_mode = intel_signal 44 2 bytes,
           m_ctrl_fb_brake = intel_signal 36 8 bytes,
           m_ctrl_fb_steering = rnd (of_int (signed_signal 20 16 bytes) * rnd (1 / 100)),
           m_ctrl_fb_velocity = rnd (of_int (intel_signal 4 16 bytes) * rnd (1 / 1000)),
           m_ctrl_fb_gear = intel_signal 0 4 bytes\<rparr>\<rparr> \<and>
    Lrwheelfb_Parse rnd bytes chassis = chassis\<lparr>lr_wheel_fb_18c4d7ef := Some \<lparr>
           m_lr_wheel_fb_check_bcc = intel_signal 56 8 bytes,
           m_lr_wheel_fb_alive_cnt = intel_signal 52 4 bytes,
           m_lr_wheel_fb_pulse = signed_signal 16 32 bytes,
           m_lr_wheel_fb_velocity = rnd (of_int (signed_signal 0 16 bytes) * rnd (1 / 1000))\<rparr>\<rparr> \<and>
    Rrwheelfb_Parse rnd bytes chassis = chassis\<lparr>rr_wheel_fb_18c4d8ef := Some \<lparr>
           m_rr_wheel_fb_velocity = rnd (of_int (signed_signal 0 16 bytes) * rnd (1 / 1000)),
           m_rr_wheel_fb_pulse = signed_signal 16 32 bytes,
           m_rr_wheel_fb_check_bcc = intel_signal 56 8 bytes,
           m_rr_wheel_fb_alive_cnt = intel_signal 52 4 bytes\<rparr>\<rparr> \<and>
    Odofb_Parse rnd bytes chassis = chassis\<lparr>odo_fb_18c4deef := Some \<lparr>
           m_odo_fb_accumulative_angular = rnd (of_int (signed_signal 32 32 bytes) * rnd (1 / 1000)),
           m_odo_fb_accumulative_mileage = rnd (of_int (signed_signal 0 32 bytes) * rnd (1 / 1000))\<rparr>\<rparr>"
  by (intro conjI ctrl_fb_parse_signals [OF assms] lr_wheel_fb_parse_signals [OF assms]
      rr_wheel_fb_parse_signals [OF assms] odo_fb_parse_signals [OF assms])

theorem motion_reports_parse_signals_witness:
  "m_lr_wheel_fb_velocity (the (lr_wheel_fb_18c4d7ef (Lrwheelfb_Parse (\<lambda>x. x) [0x18, 0xFC, 0, 0, 0, 0, 0, 0] new_chassis))) = - 1"
proof -
  have l: "length [0x18, 0xFC, 0, 0, 0, 0, 0, 0 :: u8] = 8" by simp
  have s: "signed_signal 0 16 [0x18, 0xFC, 0, 0, 0, 0, 0, 0] = - 1000" by code_simp
  show ?thesis
    unfolding motion_reports_parse_signals [OF l, THEN conjunct2, THEN conjunct1] by (simp add: s)
qed

end
