(* ===== verification/MkMiniController.thy ===== *)
theory MkMiniController
  imports MkMiniFrames CanManager ChassisMsgs
begin

text \<open>
  The mk_mini vehicle controller (\<open>modules/canbus/vehicle/mk_mini/mk_mini_controller.cc\<close>) on its base
  class (\<open>modules/canbus/vehicle/vehicle_controller.cc\<close>), with the message manager of the chassis
  (\<open>mk_mini_message_manager.cc\<close>) and the command callback of the canbus component
  (\<open>modules/canbus/canbus_component.cc\<close>). The controller reaches its two command frames through
  pointers into the manager, as in the code; the sender copies them into CAN frames on \<open>Update\<close>.
  A command, an iteration of the security thread and a publication are one step each.
\<close>

section \<open>The message manager of the chassis\<close>

datatype mk_object = CtrlcmdObj ctrl_cmd | IocmdObj io_cmd | BmsflaginforObj | BmsinforObj | CtrlfbObj | IofbObj
  | LrwheelfbObj | OdofbObj | RrwheelfbObj | Ultrasonic1fbObj | Ultrasonic2fbObj | VehfbdiagObj

definition Ctrlcmd_ID :: u32 where "Ctrlcmd_ID = 0x98c4d2d0"
definition Iocmd_ID :: u32 where "Iocmd_ID = 0x98c4d7d0"
definition Bmsflaginfor_ID :: u32 where "Bmsflaginfor_ID = 0x98c4e2ef"
definition Bmsinfor_ID :: u32 where "Bmsinfor_ID = 0x98c4e1ef"
definition Ctrlfb_ID :: u32 where "Ctrlfb_ID = 0x98c4d2ef"
definition Iofb_ID :: u32 where "Iofb_ID = 0x98c4daef"
definition Lrwheelfb_ID :: u32 where "Lrwheelfb_ID = 0x98c4d7ef"
definition Odofb_ID :: u32 where "Odofb_ID = 0x98c4deef"
definition Rrwheelfb_ID :: u32 where "Rrwheelfb_ID = 0x98c4d8ef"
definition Ultrasonic1fb_ID :: u32 where "Ultrasonic1fb_ID = 0x98c4e8ef"
definition Ultrasonic2fb_ID :: u32 where "Ultrasonic2fb_ID = 0x98c4e9ef"
definition Vehfbdiag_ID :: u32 where "Vehfbdiag_ID = 0x98c4eaef"

lemmas mk_ids = Ctrlcmd_ID_def Iocmd_ID_def Bmsflaginfor_ID_def Bmsinfor_ID_def Ctrlfb_ID_def Iofb_ID_def
  Lrwheelfb_ID_def Odofb_ID_def Rrwheelfb_ID_def Ultrasonic1fb_ID_def Ultrasonic2fb_ID_def Vehfbdiag_ID_def

text \<open>\<open>GetPeriod\<close> where the class overrides it, else the one of \<open>ProtocolData\<close>.\<close>

definition mk_GetPeriod :: "mk_object \<Rightarrow> int" where
  "mk_GetPeriod ob = (case ob of
      CtrlcmdObj _ \<Rightarrow> Ctrlcmd_GetPeriod | IocmdObj _ \<Rightarrow> Iocmd_GetPeriod | IofbObj \<Rightarrow> Iofb_GetPeriod
    | CtrlfbObj \<Rightarrow> 10000 | VehfbdiagObj \<Rightarrow> Vehfbdiag_GetPeriod | _ \<Rightarrow> protocol_GetPeriod)"

definition mk_UpdateData :: "(real \<Rightarrow> real) \<Rightarrow> mk_object \<Rightarrow> frame_data \<Rightarrow> mk_object \<times> frame_data" where
  "mk_UpdateData rnd ob d = (case ob of
      CtrlcmdObj c \<Rightarrow> (case Ctrlcmd_UpdateData rnd c d of (c', d') \<Rightarrow> (CtrlcmdObj c', d'))
    | IocmdObj c \<Rightarrow> (case Iocmd_UpdateData c d of (c', d') \<Rightarrow> (IocmdObj c', d'))
    | _ \<Rightarrow> (ob, d))"

definition mk_Reset :: "mk_object \<Rightarrow> mk_object" where
  "mk_Reset ob = (case ob of CtrlcmdObj c \<Rightarrow> CtrlcmdObj (Ctrlcmd_Reset c) | IocmdObj c \<Rightarrow> IocmdObj (Iocmd_Reset c) | _ \<Rightarrow> ob)"

definition mk_Parse :: "(real \<Rightarrow> real) \<Rightarrow> mk_object \<Rightarrow> frame_data \<Rightarrow> int \<Rightarrow> mk_mini_chassis \<Rightarrow> mk_object \<times> mk_mini_chassis" where
  "mk_Parse rnd ob bytes len chassis = (ob, case ob of
      BmsflaginforObj \<Rightarrow> Bmsflaginfor_Parse rnd bytes chassis
    | BmsinforObj \<Rightarrow> Bmsinfor_Parse rnd bytes chassis
    | CtrlfbObj \<Rightarrow> Ctrlfb_Parse rnd bytes chassis
    | IofbObj \<Rightarrow> Iofb_Parse bytes chassis
    | LrwheelfbObj \<Rightarrow> Lrwheelfb_Parse rnd bytes chassis
    | OdofbObj \<Rightarrow> Odofb_Parse rnd bytes chassis
    | RrwheelfbObj \<Rightarrow> Rrwheelfb_Parse rnd bytes chassis
    | Ultrasonic1fbObj \<Rightarrow> Ultrasonic1fb_Parse bytes chassis
    | Ultrasonic2fbObj \<Rightarrow> Ultrasonic2fb_Parse bytes chassis
    | VehfbdiagObj \<Rightarrow> Vehfbdiag_Parse bytes chassis
    | _ \<Rightarrow> chassis)"

type_synonym mk_manager = "(mk_object, mk_mini_chassis) message_manager"

definition new_mk_manager :: mk_manager where
  "new_mk_manager =
     (let m = new_message_manager new_chassis;
          m = AddSendProtocolData mk_GetPeriod Ctrlcmd_ID (CtrlcmdObj new_ctrl_cmd) True m;
          m = AddSendProtocolData mk_GetPeriod Iocmd_ID (IocmdObj new_io_cmd) True m;
          m = AddRecvProtocolData mk_GetPeriod Bmsflaginfor_ID BmsflaginforObj True m;
          m = AddRecvProtocolData mk_GetPeriod Bmsinfor_ID BmsinforObj True m;
          m = AddRecvProtocolData mk_GetPeriod Ctrlfb_ID CtrlfbObj True m;
          m = AddRecvProtocolData mk_GetPeriod Iofb_ID IofbObj True m;
          m = AddRecvProtocolData mk_GetPeriod Lrwheelfb_ID LrwheelfbObj True m;
          m = AddRecvProtocolData mk_GetPeriod Odofb_ID OdofbObj True m;
          m = AddRecvProtocolData mk_GetPeriod Rrwheelfb_ID RrwheelfbObj True m;
          m = AddRecvProtocolData mk_GetPeriod Ultrasonic1fb_ID Ultrasonic1fbObj True m;
          m = AddRecvProtocolData mk_GetPeriod Ultrasonic2fb_ID Ultrasonic2fbObj True m
      in AddRecvProtocolData mk_GetPeriod Vehfbdiag_ID VehfbdiagObj True m)"

section \<open>The controller\<close>

record mk_controller =
  ctl_initialized :: bool
  driving_mode :: driving_mode
  max_steer_angle :: real
  ctrl_ptr :: "nat option"
  io_ptr :: "nat option"
  manager :: mk_manager
  sender :: can_sender
  chassis_error_code :: chassis_error
  chassis_error_mask :: int
  vcu_ctrl_fail :: int
  eps_ctrl_fail :: int
  chassis_error_cnt :: int
  last_timestamp :: int
  dog_thread :: bool

definition new_mk_controller :: "real \<Rightarrow> mk_controller" where
  "new_mk_controller max_angle =
     \<lparr>ctl_initialized = False, driving_mode = COMPLETE_MANUAL, max_steer_angle = max_angle, ctrl_ptr = None, io_ptr = None,
      manager = new_mk_manager, sender = new_can_sender, chassis_error_code = NO_ERROR, chassis_error_mask = 0,
      vcu_ctrl_fail = 0, eps_ctrl_fail = 0, chassis_error_cnt = 0, last_timestamp = 0,
      dog_thread = False\<rparr>"

text \<open>The pointers \<open>dynamic_cast\<close> gives, and changing the object one points to.\<close>

definition cast_ctrl :: "mk_manager \<Rightarrow> nat option \<Rightarrow> nat option" where
  "cast_ctrl m p = (case p of None \<Rightarrow> None | Some i \<Rightarrow> (case objects m ! i of CtrlcmdObj _ \<Rightarrow> Some i | _ \<Rightarrow> None))"

definition cast_io :: "mk_manager \<Rightarrow> nat option \<Rightarrow> nat option" where
  "cast_io m p = (case p of None \<Rightarrow> None | Some i \<Rightarrow> (case objects m ! i of IocmdObj _ \<Rightarrow> Some i | _ \<Rightarrow> None))"

definition on_ctrl :: "(ctrl_cmd \<Rightarrow> ctrl_cmd) \<Rightarrow> mk_controller \<Rightarrow> mk_controller" where
  "on_ctrl f s = (case ctrl_ptr s of None \<Rightarrow> s | Some i \<Rightarrow>
     (case objects (manager s) ! i of
        CtrlcmdObj c \<Rightarrow> s\<lparr>manager := (manager s)\<lparr>objects := (objects (manager s))[i := CtrlcmdObj (f c)]\<rparr>\<rparr>
      | _ \<Rightarrow> s))"

definition on_io :: "(io_cmd \<Rightarrow> io_cmd) \<Rightarrow> mk_controller \<Rightarrow> mk_controller" where
  "on_io f s = (case io_ptr s of None \<Rightarrow> s | Some i \<Rightarrow>
     (case objects (manager s) ! i of
        IocmdObj c \<Rightarrow> s\<lparr>manager := (manager s)\<lparr>objects := (objects (manager s))[i := IocmdObj (f c)]\<rparr>\<rparr>
      | _ \<Rightarrow> s))"

text \<open>\<open>can_sender_.AddMessage\<close> with a pointer into the manager.\<close>

definition add_message :: "(real \<Rightarrow> real) \<Rightarrow> u32 \<Rightarrow> nat \<Rightarrow> mk_controller \<Rightarrow> mk_controller" where
  "add_message rnd mid i s =
     (let ob = objects (manager s) ! i
      in case CanSender_AddMessage (mk_GetPeriod ob) (mk_UpdateData rnd) mid (Some ob) False (sender s) of
           (None, snd') \<Rightarrow> s\<lparr>sender := snd'\<rparr>
         | (Some ob', snd') \<Rightarrow> s\<lparr>sender := snd', manager := (manager s)\<lparr>objects := (objects (manager s))[i := ob']\<rparr>\<rparr>)"

definition Mk_Init :: "(real \<Rightarrow> real) \<Rightarrow> bool \<Rightarrow> bool \<Rightarrow> bool \<Rightarrow> mk_controller \<Rightarrow> error_code \<times> mk_controller" where
  "Mk_Init rnd has_driving_mode can_sender_set message_manager_set s =
     (if ctl_initialized s then (CANBUS_ERROR, s)
      else if \<not> has_driving_mode then (CANBUS_ERROR, s)
      else if \<not> can_sender_set then (CANBUS_ERROR, s)
      else if \<not> message_manager_set then (CANBUS_ERROR, s)
      else let c = cast_ctrl (manager s) (GetMutableProtocolDataById (manager s) Ctrlcmd_ID);
               s1 = s\<lparr>ctrl_ptr := c\<rparr>
           in case c of None \<Rightarrow> (CANBUS_ERROR, s1)
              | Some ci \<Rightarrow>
                  let i = cast_io (manager s) (GetMutableProtocolDataById (manager s) Iocmd_ID);
                      s2 = s1\<lparr>io_ptr := i\<rparr>
                  in case i of None \<Rightarrow> (CANBUS_ERROR, s2)
                     | Some ii \<Rightarrow>
                         (OK, (add_message rnd Iocmd_ID ii (add_message rnd Ctrlcmd_ID ci s2))\<lparr>ctl_initialized := True\<rparr>))"

text \<open>The security thread is started, and joined once the sender has stopped.\<close>

definition Mk_Start :: "mk_controller \<Rightarrow> bool \<times> mk_controller" where
  "Mk_Start s = (if \<not> ctl_initialized s then (False, s) else (True, s\<lparr>dog_thread := True\<rparr>))"

definition Mk_Stop :: "mk_controller \<Rightarrow> mk_controller" where
  "Mk_Stop s = (if \<not> ctl_initialized s then s else if dog_thread s then s\<lparr>dog_thread := False\<rparr> else s)"

text \<open>\<open>can_sender_.Update\<close>: every message from the object with its id, written back where it is.\<close>

definition sender_Update :: "(real \<Rightarrow> real) \<Rightarrow> mk_controller \<Rightarrow> mk_controller" where
  "sender_Update rnd s =
     (let m = manager s;
          (objs, ms) = update_messages (mk_UpdateData rnd)
             (\<lambda>i. map_option ((!) (objects m)) (protocol_data_map m i)) (send_messages (sender s));
          write = (\<lambda>msg os. case (protocol_data_map m (message_id msg), objs (message_id msg)) of
                     (Some i, Some ob) \<Rightarrow> os[i := ob] | _ \<Rightarrow> os)
      in s\<lparr>sender := (sender s)\<lparr>send_messages := ms\<rparr>,
           manager := m\<lparr>objects := fold write (send_messages (sender s)) (objects m)\<rparr>\<rparr>)"

definition ResetProtocol :: "mk_controller \<Rightarrow> mk_controller" where
  "ResetProtocol s = s\<lparr>manager := ResetSendMessages mk_Reset (manager s)\<rparr>"

definition set_chassis_error_code :: "chassis_error \<Rightarrow> mk_controller \<Rightarrow> mk_controller" where
  "set_chassis_error_code e s = s\<lparr>chassis_error_code := e\<rparr>"

definition set_chassis_error_mask :: "int \<Rightarrow> mk_controller \<Rightarrow> mk_controller" where
  "set_chassis_error_mask v s = s\<lparr>chassis_error_mask := v\<rparr>"

definition set_driving_mode :: "driving_mode \<Rightarrow> mk_controller \<Rightarrow> mk_controller" where
  "set_driving_mode md s = s\<lparr>driving_mode := md\<rparr>"

definition Emergency :: "mk_controller \<Rightarrow> mk_controller" where
  "Emergency s =
     (let s1 = ResetProtocol (set_driving_mode EMERGENCY_MODE s)
      in if chassis_error_code s1 = NO_ERROR then set_chassis_error_code CHASSIS_ERROR s1 else s1)"

definition EnableAutoMode :: "mk_controller \<Rightarrow> error_code \<times> mk_controller" where
  "EnableAutoMode s =
     (if driving_mode s = COMPLETE_AUTO_DRIVE then (OK, s)
      else (OK, set_driving_mode COMPLETE_AUTO_DRIVE (on_io (set_io_cmd_enable True) s)))"

definition DisableAutoMode :: "(real \<Rightarrow> real) \<Rightarrow> mk_controller \<Rightarrow> error_code \<times> mk_controller" where
  "DisableAutoMode rnd s =
     (OK, set_chassis_error_code NO_ERROR (set_driving_mode COMPLETE_MANUAL (sender_Update rnd (ResetProtocol s))))"

definition EnableSteeringOnlyMode :: "mk_controller \<Rightarrow> error_code \<times> mk_controller" where
  "EnableSteeringOnlyMode s = (OK, s)"

definition EnableSpeedOnlyMode :: "mk_controller \<Rightarrow> error_code \<times> mk_controller" where
  "EnableSpeedOnlyMode s = (OK, s)"
definition Gear :: "gear_position \<Rightarrow> mk_controller \<Rightarrow> mk_controller" where
  "Gear gear s =
     (if driving_mode s \<noteq> COMPLETE_AUTO_DRIVE \<and> driving_mode s \<noteq> AUTO_SPEED_ONLY then s
      else case gear of
             GEAR_NEUTRAL \<Rightarrow> on_ctrl (set_ctrl_cmd_gear 3) s
           | GEAR_REVERSE \<Rightarrow> on_ctrl (set_ctrl_cmd_gear 2) s
           | GEAR_DRIVE \<Rightarrow> on_ctrl (set_ctrl_cmd_gear 4) s
           | GEAR_PARKING \<Rightarrow> on_ctrl (set_ctrl_cmd_gear 1) s
           | GEAR_INVALID \<Rightarrow> on_ctrl (set_ctrl_cmd_gear 0) s
           | _ \<Rightarrow> on_ctrl (set_ctrl_cmd_gear 0) s)"

definition Speed :: "real \<Rightarrow> mk_controller \<Rightarrow> mk_controller" where
  "Speed v s =
     (if driving_mode s \<noteq> COMPLETE_AUTO_DRIVE \<and> driving_mode s \<noteq> AUTO_SPEED_ONLY then s
      else on_ctrl (set_ctrl_cmd_velocity v) s)"

text \<open>\<open>max_steer_angle / M_PI * 180 * angle / 100.0\<close>, with the constants \<open>pi\<close> as it is rounded.\<close>

definition real_steer_angle :: "(real \<Rightarrow> real) \<Rightarrow> real \<Rightarrow> real \<Rightarrow> real" where
  "real_steer_angle rnd max_angle angle = rnd (rnd (rnd (rnd (max_angle / rnd pi) * 180) * angle) / 100)"

definition Steer :: "(real \<Rightarrow> real) \<Rightarrow> real \<Rightarrow> mk_controller \<Rightarrow> mk_controller" where
  "Steer rnd angle s =
     (if driving_mode s \<noteq> COMPLETE_AUTO_DRIVE \<and> driving_mode s \<noteq> AUTO_STEER_ONLY then s
      else on_ctrl (set_ctrl_cmd_steering (real_steer_angle rnd (max_steer_angle s) angle)) s)"

definition Steer_spd :: "(real \<Rightarrow> real) \<Rightarrow> real \<Rightarrow> real \<Rightarrow> mk_controller \<Rightarrow> mk_controller" where
  "Steer_spd rnd angle angle_spd s =
     on_ctrl (set_ctrl_cmd_steering (real_steer_angle rnd (max_steer_angle s) angle)) s"

definition SetTurningSignal :: "turn_signal \<Rightarrow> mk_controller \<Rightarrow> mk_controller" where
  "SetTurningSignal sig s =
     (if sig = TURN_LEFT then on_io (set_io_cmd_turn_lamp 1) s
      else if sig = TURN_RIGHT then on_io (set_io_cmd_turn_lamp 2) s
      else on_io (set_io_cmd_turn_lamp 0) s)"

definition SetDrivingMode :: "(real \<Rightarrow> real) \<Rightarrow> driving_mode \<Rightarrow> mk_controller \<Rightarrow> error_code \<times> mk_controller" where
  "SetDrivingMode rnd md s =
     (if md = EMERGENCY_MODE then (CANBUS_ERROR, s)
      else if driving_mode s = EMERGENCY_MODE \<and> md \<noteq> COMPLETE_MANUAL then (CANBUS_ERROR, s)
      else if driving_mode s = md then (OK, s)
      else case (case md of
                   COMPLETE_AUTO_DRIVE \<Rightarrow> EnableAutoMode s
                 | COMPLETE_MANUAL \<Rightarrow> DisableAutoMode rnd s
                 | AUTO_STEER_ONLY \<Rightarrow> EnableSteeringOnlyMode s
                 | AUTO_SPEED_ONLY \<Rightarrow> EnableSpeedOnlyMode s
                 | _ \<Rightarrow> (OK, s)) of
             (CANBUS_ERROR, s') \<Rightarrow> (CANBUS_ERROR, s')
           | (OK, s') \<Rightarrow> (OK, s'))"

text \<open>
  \<open>VehicleController::Update\<close>. \<open>Throttle\<close>, \<open>Acceleration\<close>, \<open>Brake\<close>, \<open>SetEpbBreak\<close>, \<open>SetLimits\<close>,
  \<open>SetHorn\<close> and \<open>SetBeam\<close> are empty for this chassis. An action that is none of START, STOP and RESET
  is logged as having no response, but the mode it is given is still set.
\<close>

definition pad_mode :: "driving_action \<Rightarrow> driving_mode" where
  "pad_mode a = (case a of START \<Rightarrow> COMPLETE_AUTO_DRIVE | _ \<Rightarrow> COMPLETE_MANUAL)"

definition Update_pad :: "(real \<Rightarrow> real) \<Rightarrow> control_command \<Rightarrow> mk_controller \<Rightarrow> mk_controller" where
  "Update_pad rnd cmd s = (case pad_action cmd of None \<Rightarrow> s | Some a \<Rightarrow> snd (SetDrivingMode rnd (pad_mode a) s))"

definition Update_speed :: "control_command \<Rightarrow> mk_controller \<Rightarrow> mk_controller" where
  "Update_speed cmd s =
     (if driving_mode s = COMPLETE_AUTO_DRIVE \<or> driving_mode s = AUTO_SPEED_ONLY
      then Speed (cmd_speed cmd) (Gear (gear_location cmd) s) else s)"

definition Update_steer :: "(real \<Rightarrow> real) \<Rightarrow> control_command \<Rightarrow> mk_controller \<Rightarrow> mk_controller" where
  "Update_steer rnd cmd s =
     (if driving_mode s = COMPLETE_AUTO_DRIVE \<or> driving_mode s = AUTO_STEER_ONLY
      then if steering_rate cmd > 1 then Steer_spd rnd (steering_target cmd) (steering_rate cmd) s
           else Steer rnd (steering_target cmd) s
      else s)"

definition Update_signal :: "control_command \<Rightarrow> mk_controller \<Rightarrow> mk_controller" where
  "Update_signal cmd s =
     (if driving_mode s \<in> {COMPLETE_AUTO_DRIVE, AUTO_SPEED_ONLY, AUTO_STEER_ONLY}
      then case cmd_signal cmd of None \<Rightarrow> s | Some sig \<Rightarrow> SetTurningSignal sig s
      else s)"

definition Update :: "(real \<Rightarrow> real) \<Rightarrow> control_command \<Rightarrow> mk_controller \<Rightarrow> error_code \<times> mk_controller" where
  "Update rnd cmd s =
     (if \<not> ctl_initialized s then (CANBUS_ERROR, s)
      else (OK, Update_signal cmd (Update_steer rnd cmd (Update_speed cmd (Update_pad rnd cmd s)))))"

text \<open>The callback of the component; \<open>min_cmd_interval\<close> is the flag, in milliseconds.\<close>

definition OnControlCommand :: "(real \<Rightarrow> real) \<Rightarrow> int \<Rightarrow> int \<Rightarrow> control_command \<Rightarrow> mk_controller \<Rightarrow> mk_controller" where
  "OnControlCommand rnd min_cmd_interval current_timestamp cmd s =
     (if current_timestamp - last_timestamp s < min_cmd_interval * 1000 then s
      else case Update rnd cmd (s\<lparr>last_timestamp := current_timestamp\<rparr>) of
             (CANBUS_ERROR, s') \<Rightarrow> s'
           | (OK, s') \<Rightarrow> sender_Update rnd s')"

section \<open>The security thread\<close>

definition kMaxFailAttempt :: int where
  "kMaxFailAttempt = 10"

definition CHECK_RESPONSE_VCU_UNIT_FLAG :: int where
  "CHECK_RESPONSE_VCU_UNIT_FLAG = 1"

definition CHECK_RESPONSE_EPS_UNIT_FLAG :: int where
  "CHECK_RESPONSE_EPS_UNIT_FLAG = 2"

text \<open>The diagnosis message, or the default one when none was received.\<close>

definition no_diag :: veh_fb_diag_msg where
  "no_diag = veh_fb_diag_fields (replicate 8 0)"

definition error_report :: "mk_mini_chassis \<Rightarrow> veh_fb_diag_msg" where
  "error_report d = (case veh_fb_diag_18c4eaef d of None \<Rightarrow> no_diag | Some r \<Rightarrow> r)"

definition eps_faults :: "veh_fb_diag_msg \<Rightarrow> bool list" where
  "eps_faults r = [m_veh_fb_epsdisonline r, m_veh_fb_epsmosfetot r, m_veh_fb_epsfault r, m_veh_fb_epsdiswork r,
     m_veh_fb_epswarning r, m_veh_fb_epsovercurrent r]"

definition ehb_faults :: "veh_fb_diag_msg \<Rightarrow> bool list" where
  "ehb_faults r = [m_veh_fb_ehboilfault r, m_veh_fb_ehboilpresssensorfault r, m_veh_fb_ehbmotorfault r,
     m_veh_fb_ehbsensorabnomal r, m_veh_fb_ehbpowerfault r, m_veh_fb_ehbot r, m_veh_fb_ehbangulefault r,
     m_veh_fb_ehbdisen r, m_veh_fb_ehbworkmodelfault r, m_veh_fb_ehbdisonline r, m_veh_fb_ehbecufault r]"

text \<open>One try of \<open>CheckResponse\<close>.\<close>

definition response_ok :: "int \<Rightarrow> veh_fb_diag_msg \<Rightarrow> bool" where
  "response_ok flags r =
     (let check_ok = True;
          check_ok = (if flags AND CHECK_RESPONSE_VCU_UNIT_FLAG \<noteq> 0
                      then check_ok \<and> (\<not> m_veh_fb_rdrvmcufault r \<noteq> 0 \<and> \<not> m_veh_fb_ldrvmcufault r \<noteq> 0) else check_ok);
          check_ok = (if flags AND CHECK_RESPONSE_EPS_UNIT_FLAG \<noteq> 0
                      then check_ok \<and> list_all (\<lambda>b. \<not> b) (eps_faults r) else check_ok)
      in check_ok)"

text \<open>The chassis detail each try reads is an element of the list; without waiting there is one try.\<close>

fun CheckResponse :: "int \<Rightarrow> bool \<Rightarrow> int \<Rightarrow> mk_mini_chassis list \<Rightarrow> bool" where
  "CheckResponse flags need_wait retry_num [] = False"
| "CheckResponse flags need_wait retry_num (d # ds) =
     (if response_ok flags (error_report d) then True
      else let retry_num = (if need_wait then retry_num - 1 else retry_num)
           in if need_wait \<and> retry_num \<noteq> 0 then CheckResponse flags need_wait retry_num ds else False)"

text \<open>The bits of the error mask, from bit 0.\<close>

definition mask_parts :: "veh_fb_diag_msg \<Rightarrow> int list" where
  "mask_parts r = map of_bool (eps_faults r) @ [m_veh_fb_ldrvmcufault r, m_veh_fb_rdrvmcufault r] @
     map of_bool (ehb_faults r @ [m_veh_fb_autoiocancmd r, m_veh_fb_autocanctrlcmd r, m_veh_fb_faultlevel r \<noteq> 0,
       m_veh_fb_auxscram r, m_veh_fb_auxbmsdisonline r, m_veh_fb_auxremotedisonline r, m_veh_fb_auxremoteclose r])"

definition CheckChassisError :: "mk_mini_chassis \<Rightarrow> mk_controller \<Rightarrow> bool \<times> mk_controller" where
  "CheckChassisError d s =
     (let r = error_report d;
          steer_fault = list_ex (\<lambda>b. b) (eps_faults r);
          motor_fault = (m_veh_fb_ldrvmcufault r OR m_veh_fb_rdrvmcufault r \<noteq> 0);
          ehb_fault = list_ex (\<lambda>b. b) (ehb_faults r);
          can_fault = (m_veh_fb_autoiocancmd r \<or> m_veh_fb_autocanctrlcmd r);
          system_fault = (m_veh_fb_faultlevel r \<noteq> 0);
          emergency_stopped = m_veh_fb_auxscram r;
          parts = mask_parts r;
          msk = fold (\<lambda>k msk. msk OR push_bit k (parts ! k)) [0..<length parts] 0
      in (system_fault \<or> emergency_stopped \<or> can_fault \<or> ehb_fault \<or> motor_fault \<or> steer_fault,
          set_chassis_error_mask msk s))"

text \<open>
  One iteration of \<open>SecurityDogThreadFunc\<close>; \<open>d1\<close>, \<open>d2\<close> and \<open>d3\<close> are the chassis details its three
  checks read while the receiving thread may parse more frames. Each check gives whether it asks for
  the emergency mode.
\<close>

definition vcu_check :: "driving_mode \<Rightarrow> mk_mini_chassis \<Rightarrow> mk_controller \<Rightarrow> bool \<times> mk_controller" where
  "vcu_check md d s =
     (if (md = COMPLETE_AUTO_DRIVE \<or> md = AUTO_SPEED_ONLY) \<and> \<not> CheckResponse CHECK_RESPONSE_VCU_UNIT_FLAG False 20 [d]
      then let s1 = s\<lparr>vcu_ctrl_fail := vcu_ctrl_fail s + 1\<rparr>
           in if vcu_ctrl_fail s1 \<ge> kMaxFailAttempt then (True, set_chassis_error_code MANUAL_INTERVENTION s1) else (False, s1)
      else (False, s\<lparr>vcu_ctrl_fail := 0\<rparr>))"

definition eps_check :: "driving_mode \<Rightarrow> mk_mini_chassis \<Rightarrow> mk_controller \<Rightarrow> bool \<times> mk_controller" where
  "eps_check md d s =
     (if (md = COMPLETE_AUTO_DRIVE \<or> md = AUTO_STEER_ONLY) \<and> \<not> CheckResponse CHECK_RESPONSE_EPS_UNIT_FLAG False 20 [d]
      then let s1 = s\<lparr>eps_ctrl_fail := eps_ctrl_fail s + 1\<rparr>
           in if eps_ctrl_fail s1 \<ge> kMaxFailAttempt then (True, set_chassis_error_code MANUAL_INTERVENTION s1) else (False, s1)
      else (False, s\<lparr>eps_ctrl_fail := 0\<rparr>))"

definition chassis_check :: "mk_mini_chassis \<Rightarrow> mk_controller \<Rightarrow> bool \<times> mk_controller" where
  "chassis_check d s =
     (case CheckChassisError d s of
        (True, t) \<Rightarrow>
          let s1 = t\<lparr>chassis_error_cnt := chassis_error_cnt t + 1\<rparr>
          in if chassis_error_cnt s1 \<ge> kMaxFailAttempt then (True, set_chassis_error_code CHASSIS_ERROR s1) else (False, s1)
      | (False, t) \<Rightarrow> (False, t\<lparr>chassis_error_cnt := 0\<rparr>))"

definition security_dog_iteration ::
  "mk_mini_chassis \<Rightarrow> mk_mini_chassis \<Rightarrow> mk_mini_chassis \<Rightarrow> mk_controller \<Rightarrow> mk_controller" where
  "security_dog_iteration d1 d2 d3 s =
     (let md = driving_mode s;
          (em1, s1) = vcu_check md d1 s;
          (em2, s2) = eps_check md d2 s1;
          (em3, s3) = chassis_check d3 s2
      in if (em1 \<or> em2 \<or> em3) \<and> md \<noteq> EMERGENCY_MODE then Emergency s3 else s3)"

section \<open>Publishing the chassis\<close>

datatype wheel_direction = FORWARD | BACKWARD | STANDSTILL | INVALID

text \<open>The fields \<open>chassis()\<close> sets; None is a field it leaves unset.\<close>

record chassis_msg =
  ch_driving_mode :: driving_mode
  ch_error_code :: chassis_error
  ch_engine_started :: bool
  ch_speed_mps :: "real option"
  ch_steering_percentage :: "real option"
  ch_gear_location :: "gear_position option"
  ch_rl :: "(bool \<times> wheel_direction \<times> real) option"
  ch_rr :: "(bool \<times> wheel_direction \<times> real) option"
  ch_battery_soc :: "int option"

definition has_mk_mini :: "mk_mini_chassis \<Rightarrow> bool" where
  "has_mk_mini d \<longleftrightarrow> io_fb_18c4daef d \<noteq> None \<or> veh_fb_diag_18c4eaef d \<noteq> None \<or> ctrl_fb_18c4d2ef d \<noteq> None \<or>
     lr_wheel_fb_18c4d7ef d \<noteq> None \<or> rr_wheel_fb_18c4d8ef d \<noteq> None \<or> odo_fb_18c4deef d \<noteq> None \<or>
     bms_infor_18c4e1ef d \<noteq> None \<or> bms_flag_infor_18c4e2ef d \<noteq> None \<or> ultrasonic_1_fb_18c4e8ef d \<noteq> None \<or>
     ultrasonic_2_fb_18c4e9ef d \<noteq> None"

definition gear_of_feedback :: "int \<Rightarrow> gear_position" where
  "gear_of_feedback current_gear =
     (if current_gear = 0 then GEAR_INVALID else if current_gear = 1 then GEAR_PARKING
      else if current_gear = 2 then GEAR_REVERSE else if current_gear = 3 then GEAR_NEUTRAL
      else if current_gear = 4 then GEAR_DRIVE else GEAR_NONE)"

definition wheel_of_feedback :: "(real \<Rightarrow> real) \<Rightarrow> real option \<Rightarrow> bool \<times> wheel_direction \<times> real" where
  "wheel_of_feedback rnd v = (case v of
      None \<Rightarrow> (False, INVALID, 0)
    | Some x \<Rightarrow> (True, if x > rnd (1 / 1000) then FORWARD else if x < - rnd (1 / 1000) then BACKWARD else STANDSTILL, x))"

text \<open>\<open>rndf\<close> rounds to \<open>float\<close>.\<close>

definition Mk_chassis :: "(real \<Rightarrow> real) \<Rightarrow> (real \<Rightarrow> real) \<Rightarrow> mk_controller \<Rightarrow> chassis_msg \<times> mk_controller" where
  "Mk_chassis rnd rndf s =
     (let d = sensor_data (manager s);
          s1 = (if driving_mode s = EMERGENCY_MODE then set_chassis_error_code NO_ERROR s else s);
          c = \<lparr>ch_driving_mode = driving_mode s1, ch_error_code = chassis_error_code s1, ch_engine_started = True,
               ch_speed_mps = None, ch_steering_percentage = None, ch_gear_location = None, ch_rl = None, ch_rr = None,
               ch_battery_soc = None\<rparr>
      in if \<not> has_mk_mini d then (c, s1)
         else (c\<lparr>
           ch_speed_mps := Some (case ctrl_fb_18c4d2ef d of Some f \<Rightarrow> rndf (m_ctrl_fb_velocity f) | None \<Rightarrow> 0),
           ch_steering_percentage := Some (case ctrl_fb_18c4d2ef d of
               Some f \<Rightarrow> rndf (rnd (rnd (rnd (rnd (m_ctrl_fb_steering f * rnd pi) / 180) * 100) / max_steer_angle s))
             | None \<Rightarrow> 0),
           ch_gear_location := map_option (\<lambda>f. gear_of_feedback (m_ctrl_fb_gear f)) (ctrl_fb_18c4d2ef d),
           ch_rl := Some (wheel_of_feedback rnd (map_option m_lr_wheel_fb_velocity (lr_wheel_fb_18c4d7ef d))),
           ch_rr := Some (wheel_of_feedback rnd (map_option m_rr_wheel_fb_velocity (rr_wheel_fb_18c4d8ef d))),
           ch_battery_soc := map_option m_bms_flag_infor_soc (bms_flag_infor_18c4e2ef d)\<rparr>, s1))"
section \<open>Runs\<close>

text \<open>
  What reaches the controller: control commands with their arrival times, iterations of the security
  thread, publications of the chassis, and CAN frames parsed by the receiving thread.
\<close>

datatype mk_event = Command int control_command | SecurityDog mk_mini_chassis mk_mini_chassis mk_mini_chassis
  | Publish | FrameIn int can_frame

definition Mk_receive :: "(real \<Rightarrow> real) \<Rightarrow> int \<Rightarrow> can_frame \<Rightarrow> mk_controller \<Rightarrow> mk_controller" where
  "Mk_receive rnd time f s =
     s\<lparr>manager := MessageManager_Parse (mk_Parse rnd) time (frame_id f) (frame_bytes f) (uint (frame_len f)) (manager s)\<rparr>"

fun mk_step :: "(real \<Rightarrow> real) \<Rightarrow> (real \<Rightarrow> real) \<Rightarrow> int \<Rightarrow> mk_event \<Rightarrow> mk_controller \<Rightarrow> mk_controller" where
  "mk_step rnd rndf interval (Command t cmd) s = OnControlCommand rnd interval t cmd s"
| "mk_step rnd rndf interval (SecurityDog d1 d2 d3) s = security_dog_iteration d1 d2 d3 s"
| "mk_step rnd rndf interval Publish s = snd (Mk_chassis rnd rndf s)"
| "mk_step rnd rndf interval (FrameIn t f) s = Mk_receive rnd t f s"

section \<open>Driving modes\<close>

lemma mode_frame [simp]:
  "driving_mode (on_ctrl f s) = driving_mode s" "driving_mode (on_io g s) = driving_mode s"
  "driving_mode (ResetProtocol s) = driving_mode s" "driving_mode (sender_Update rnd s) = driving_mode s"
  "driving_mode (set_chassis_error_code e s) = driving_mode s"
  "driving_mode (set_chassis_error_mask v s) = driving_mode s"
  by (simp_all add: on_ctrl_def on_io_def ResetProtocol_def sender_Update_def set_chassis_error_code_def
      set_chassis_error_mask_def Let_def split: option.split mk_object.split prod.split)

lemma mode_commands [simp]:
  "driving_mode (Gear gp s) = driving_mode s" "driving_mode (Speed v s) = driving_mode s"
  "driving_mode (Steer rnd a s) = driving_mode s" "driving_mode (Steer_spd rnd a b s) = driving_mode s"
  "driving_mode (SetTurningSignal sig s) = driving_mode s"
  by (cases gp; simp add: Gear_def) (simp_all add: Speed_def Steer_def Steer_spd_def SetTurningSignal_def)

lemma mode_updates [simp]:
  "driving_mode (Update_speed cmd s) = driving_mode s" "driving_mode (Update_steer rnd cmd s) = driving_mode s"
  "driving_mode (Update_signal cmd s) = driving_mode s"
  by (simp_all add: Update_speed_def Update_steer_def Update_signal_def split: option.split)

lemma SetDrivingMode_mode:
  "driving_mode (snd (SetDrivingMode rnd (pad_mode a) s)) =
     (if a = START then if driving_mode s = EMERGENCY_MODE then EMERGENCY_MODE else COMPLETE_AUTO_DRIVE else COMPLETE_MANUAL)"
  by (cases a; cases "driving_mode s")
    (simp_all add: SetDrivingMode_def pad_mode_def EnableAutoMode_def DisableAutoMode_def set_driving_mode_def
      set_chassis_error_code_def)

lemma Update_mode:
  "driving_mode (snd (Update rnd cmd s)) =
     (if ctl_initialized s then case pad_action cmd of None \<Rightarrow> driving_mode s
        | Some a \<Rightarrow> driving_mode (snd (SetDrivingMode rnd (pad_mode a) s))
      else driving_mode s)"
  by (simp add: Update_def Update_pad_def split: option.split)

lemma CheckChassisError_mode: "CheckChassisError d s = (b, t) \<Longrightarrow> driving_mode t = driving_mode s"
  by (auto simp: CheckChassisError_def Let_def)

lemma check_modes [simp]:
  "driving_mode (snd (vcu_check md d s)) = driving_mode s" "driving_mode (snd (eps_check md d s)) = driving_mode s"
  "driving_mode (snd (chassis_check d s)) = driving_mode s" "driving_mode (Emergency s) = EMERGENCY_MODE"
  by (auto dest: CheckChassisError_mode simp: vcu_check_def eps_check_def chassis_check_def Emergency_def set_driving_mode_def Let_def
      split: prod.split bool.split)

lemma dog_mode: "driving_mode (security_dog_iteration d1 d2 d3 s) \<in> {driving_mode s, EMERGENCY_MODE}"
proof -
  obtain em1 s1 where 1: "vcu_check (driving_mode s) d1 s = (em1, s1)" by (rule prod.exhaust)
  obtain em2 s2 where 2: "eps_check (driving_mode s) d2 s1 = (em2, s2)" by (rule prod.exhaust)
  obtain em3 s3 where 3: "chassis_check d3 s2 = (em3, s3)" by (rule prod.exhaust)
  have "driving_mode s3 = driving_mode s"
    using check_modes(1) [of "driving_mode s" d1 s] check_modes(2) [of "driving_mode s" d2 s1] check_modes(3) [of d3 s2]
    by (simp add: 1 2 3)
  then show ?thesis by (simp add: security_dog_iteration_def 1 2 3)
qed

lemma OnControlCommand_mode:
  "driving_mode (OnControlCommand rnd interval t cmd s) =
     (if ctl_initialized s \<and> interval * 1000 \<le> t - last_timestamp s
      then case pad_action cmd of None \<Rightarrow> driving_mode s
        | Some a \<Rightarrow> if a = START then if driving_mode s = EMERGENCY_MODE then EMERGENCY_MODE else COMPLETE_AUTO_DRIVE
            else COMPLETE_MANUAL
      else driving_mode s)"
proof -
  obtain ec s' where u: "Update rnd cmd (s\<lparr>last_timestamp := t\<rparr>) = (ec, s')" by (rule prod.exhaust)
  have "driving_mode s' = (if ctl_initialized s then case pad_action cmd of None \<Rightarrow> driving_mode s
        | Some a \<Rightarrow> if a = START then if driving_mode s = EMERGENCY_MODE then EMERGENCY_MODE else COMPLETE_AUTO_DRIVE
            else COMPLETE_MANUAL else driving_mode s)"
    using Update_mode [of rnd cmd "s\<lparr>last_timestamp := t\<rparr>"] unfolding u
    by (simp add: SetDrivingMode_mode split: option.split)
  then show ?thesis unfolding OnControlCommand_def u by (cases ec) (simp_all split: option.split)
qed

section \<open>The objects behind the pointers\<close>

definition mk_reports :: "mk_object list" where
  "mk_reports = [BmsflaginforObj, BmsinforObj, CtrlfbObj, IofbObj, LrwheelfbObj, OdofbObj, RrwheelfbObj, Ultrasonic1fbObj,
     Ultrasonic2fbObj, VehfbdiagObj]"

definition manager_holds :: "mk_manager \<Rightarrow> ctrl_cmd \<Rightarrow> io_cmd \<Rightarrow> bool" where
  "manager_holds m c i \<longleftrightarrow> objects m = CtrlcmdObj c # IocmdObj i # mk_reports \<and> send_protocol_data m = [0, 1] \<and>
     protocol_data_map m Ctrlcmd_ID = Some 0 \<and> protocol_data_map m Iocmd_ID = Some 1"

text \<open>An initialised controller whose command objects are \<open>c\<close> and \<open>i\<close> and whose sender has their frames.\<close>

definition holds :: "mk_controller \<Rightarrow> ctrl_cmd \<Rightarrow> io_cmd \<Rightarrow> bool" where
  "holds s c i \<longleftrightarrow> manager_holds (manager s) c i \<and> ctl_initialized s \<and> ctrl_ptr s = Some 0 \<and> io_ptr s = Some 1 \<and>
     map message_id (send_messages (sender s)) = [Ctrlcmd_ID, Iocmd_ID] \<and>
     (\<forall>m \<in> set (send_messages (sender s)). length (frame_bytes (can_frame_to_update m)) = 8)"

lemma new_mk_manager_holds: "manager_holds new_mk_manager new_ctrl_cmd new_io_cmd"
  by (simp add: manager_holds_def new_mk_manager_def new_message_manager_def AddSendProtocolData_def
      AddRecvProtocolData_def mk_reports_def mk_ids Let_def)

lemma on_ctrl_holds: "holds s c i \<Longrightarrow> holds (on_ctrl f s) (f c) i"
  by (simp add: holds_def manager_holds_def on_ctrl_def)

lemma on_io_holds: "holds s c i \<Longrightarrow> holds (on_io f s) c (f i)"
  by (simp add: holds_def manager_holds_def on_io_def)

lemma ResetProtocol_holds: "holds s c i \<Longrightarrow> holds (ResetProtocol s) (Ctrlcmd_Reset c) (Iocmd_Reset i)"
  by (simp add: holds_def manager_holds_def ResetProtocol_def ResetSendMessages_def mk_Reset_def)

lemma holds_fields [simp]:
  "holds (s\<lparr>driving_mode := md\<rparr>) c i = holds s c i" "holds (s\<lparr>chassis_error_code := e\<rparr>) c i = holds s c i"
  "holds (s\<lparr>chassis_error_mask := v\<rparr>) c i = holds s c i" "holds (s\<lparr>vcu_ctrl_fail := n\<rparr>) c i = holds s c i"
  "holds (s\<lparr>eps_ctrl_fail := n\<rparr>) c i = holds s c i" "holds (s\<lparr>chassis_error_cnt := n\<rparr>) c i = holds s c i"
  "holds (s\<lparr>last_timestamp := n\<rparr>) c i = holds s c i"
  by (simp_all add: holds_def)

lemma mk_ids_distinct: "Ctrlcmd_ID \<noteq> Iocmd_ID"
  by (simp add: mk_ids)

text \<open>An update of the sender: both frames are written from their objects, which keep their members.\<close>

lemma sender_Update_holds:
  assumes "holds s c i"
  obtains m0 m1 where "send_messages (sender s) = [m0, m1]"
    and "holds (sender_Update rnd s) (fst (Ctrlcmd_UpdateData rnd c (frame_bytes (can_frame_to_update m0))))
           (fst (Iocmd_UpdateData i (frame_bytes (can_frame_to_update m1))))"
    and "map (frame_bytes \<circ> can_frame_to_send) (send_messages (sender (sender_Update rnd s))) =
           [snd (Ctrlcmd_UpdateData rnd c (frame_bytes (can_frame_to_update m0))),
            snd (Iocmd_UpdateData i (frame_bytes (can_frame_to_update m1)))]"
    and "length (frame_bytes (can_frame_to_update m0)) = 8" "length (frame_bytes (can_frame_to_update m1)) = 8"
proof -
  from assms obtain m0 m1 where ms: "send_messages (sender s) = [m0, m1]" "message_id m0 = Ctrlcmd_ID" "message_id m1 = Iocmd_ID"
    by (auto simp: holds_def map_eq_Cons_conv)
  have len: "length (frame_bytes (can_frame_to_update m0)) = 8" "length (frame_bytes (can_frame_to_update m1)) = 8"
    using assms ms(1) by (simp_all add: holds_def)
  obtain c' d0 where c: "Ctrlcmd_UpdateData rnd c (frame_bytes (can_frame_to_update m0)) = (c', d0)" by (rule prod.exhaust)
  obtain i' d1 where i: "Iocmd_UpdateData i (frame_bytes (can_frame_to_update m1)) = (i', d1)" by (rule prod.exhaust)
  have l: "length d0 = 8" "length d1 = 8"
    using length_Ctrlcmd_UpdateData [of rnd c "frame_bytes (can_frame_to_update m0)"]
      length_Iocmd_UpdateData [of i "frame_bytes (can_frame_to_update m1)"] len by (simp_all add: c i)
  have o: "objects (manager s) = CtrlcmdObj c # IocmdObj i # mk_reports" "protocol_data_map (manager s) Ctrlcmd_ID = Some 0"
    "protocol_data_map (manager s) Iocmd_ID = Some 1" using assms by (simp_all add: holds_def manager_holds_def)
  have u: "sender_Update rnd s = s\<lparr>sender := (sender s)\<lparr>send_messages :=
        [m0\<lparr>can_frame_to_update := (can_frame_to_update m0)\<lparr>frame_bytes := d0\<rparr>,
            can_frame_to_send := (can_frame_to_update m0)\<lparr>frame_bytes := d0\<rparr>\<rparr>,
         m1\<lparr>can_frame_to_update := (can_frame_to_update m1)\<lparr>frame_bytes := d1\<rparr>,
            can_frame_to_send := (can_frame_to_update m1)\<lparr>frame_bytes := d1\<rparr>\<rparr>]\<rparr>,
      manager := (manager s)\<lparr>objects := CtrlcmdObj c' # IocmdObj i' # mk_reports\<rparr>\<rparr>"
    using mk_ids_distinct
    by (simp add: sender_Update_def ms o SenderMessage_Update_def mk_UpdateData_def c i Let_def)
  show thesis
    by (rule that [OF ms(1) _ _ len])
      (use assms ms l in \<open>simp_all add: u c i holds_def manager_holds_def\<close>)
qed
section \<open>Out of automatic driving the commands are idle\<close>

definition idle :: "ctrl_cmd \<Rightarrow> io_cmd \<Rightarrow> bool" where
  "idle c i \<longleftrightarrow> m_ctrl_cmd_velocity c = 0 \<and> m_ctrl_cmd_steering c = 0 \<and> m_ctrl_cmd_gear c = 0 \<and> m_ctrl_cmd_brake c = 0 \<and>
     \<not> m_io_cmd_enable i \<and> m_io_cmd_turn_lamp i = 0"

definition ctl_ok :: "mk_controller \<Rightarrow> bool" where
  "ctl_ok s \<longleftrightarrow> driving_mode s \<in> {COMPLETE_MANUAL, COMPLETE_AUTO_DRIVE, EMERGENCY_MODE} \<and>
     (\<exists>c i. holds s c i \<and> (driving_mode s \<noteq> COMPLETE_AUTO_DRIVE \<longrightarrow> idle c i))"

lemma ctl_okI: "holds s c i \<Longrightarrow> driving_mode s \<in> {COMPLETE_MANUAL, COMPLETE_AUTO_DRIVE, EMERGENCY_MODE} \<Longrightarrow>
    (driving_mode s \<noteq> COMPLETE_AUTO_DRIVE \<Longrightarrow> idle c i) \<Longrightarrow> ctl_ok s"
  by (auto simp: ctl_ok_def)

lemma UpdateData_idle: "idle (fst (Ctrlcmd_UpdateData rnd c d)) (fst (Iocmd_UpdateData i e)) = idle c i"
  by (simp add: idle_def Ctrlcmd_UpdateData_def set_p_ctrl_cmd_alive_cnt_def Iocmd_UpdateData_def
      set_p_io_cmd_alive_cnt_def Let_def split_def)

lemma Reset_idle: "idle (Ctrlcmd_Reset c) (Iocmd_Reset i)"
  by (simp add: idle_def Ctrlcmd_Reset_def Iocmd_Reset_def)

lemma sender_Update_ok:
  assumes "ctl_ok s"
  shows "ctl_ok (sender_Update rnd s)"
proof -
  from assms obtain c i where h: "holds s c i" "driving_mode s \<noteq> COMPLETE_AUTO_DRIVE \<longrightarrow> idle c i"
    and md: "driving_mode s \<in> {COMPLETE_MANUAL, COMPLETE_AUTO_DRIVE, EMERGENCY_MODE}" by (auto simp: ctl_ok_def)
  obtain d e where "holds (sender_Update rnd s) (fst (Ctrlcmd_UpdateData rnd c d)) (fst (Iocmd_UpdateData i e))"
    by (rule sender_Update_holds [OF h(1), of rnd])
  then show ?thesis by (rule ctl_okI) (use h(2) md in \<open>simp_all add: UpdateData_idle\<close>)
qed

lemma Emergency_ok: "ctl_ok s \<Longrightarrow> ctl_ok (Emergency s)"
proof -
  assume "ctl_ok s"
  then obtain c i where "holds s c i" by (auto simp: ctl_ok_def)
  then have "holds (set_driving_mode EMERGENCY_MODE s) c i" by (simp add: set_driving_mode_def)
  from ResetProtocol_holds [OF this] have "holds (Emergency s) (Ctrlcmd_Reset c) (Iocmd_Reset i)"
    by (simp add: Emergency_def set_chassis_error_code_def Let_def)
  then show ?thesis by (rule ctl_okI) (simp_all add: Reset_idle)
qed

lemma SetDrivingMode_ok: "ctl_ok s \<Longrightarrow> ctl_ok (snd (SetDrivingMode rnd (pad_mode a) s))"
proof -
  assume ok: "ctl_ok s"
  then obtain c i where h: "holds s c i" by (auto simp: ctl_ok_def)
  have "ctl_ok (snd (EnableAutoMode s))"
    using ok on_io_holds [OF h, of "set_io_cmd_enable True"]
    by (auto simp: EnableAutoMode_def set_driving_mode_def intro: ctl_okI)
  moreover have "ctl_ok (snd (DisableAutoMode rnd s))"
  proof -
    obtain m0 m1 where "holds (sender_Update rnd (ResetProtocol s)) (fst (Ctrlcmd_UpdateData rnd (Ctrlcmd_Reset c) m0))
        (fst (Iocmd_UpdateData (Iocmd_Reset i) m1))" by (rule sender_Update_holds [OF ResetProtocol_holds [OF h], of rnd])
    then show ?thesis
      by (auto simp: DisableAutoMode_def set_driving_mode_def set_chassis_error_code_def UpdateData_idle Reset_idle
          intro!: ctl_okI)
  qed
  ultimately show ?thesis using ok
    by (cases a) (auto simp: SetDrivingMode_def pad_mode_def EnableAutoMode_def DisableAutoMode_def split: error_code.split)
qed

lemma on_ctrl_ok: "ctl_ok s \<Longrightarrow> driving_mode s = COMPLETE_AUTO_DRIVE \<Longrightarrow> ctl_ok (on_ctrl f s)"
  unfolding ctl_ok_def by (auto dest: on_ctrl_holds [where f = f])

lemma on_io_ok: "ctl_ok s \<Longrightarrow> driving_mode s = COMPLETE_AUTO_DRIVE \<Longrightarrow> ctl_ok (on_io f s)"
  unfolding ctl_ok_def by (auto dest: on_io_holds [where f = f])

lemma ctl_ok_mode: "ctl_ok s \<Longrightarrow> driving_mode s \<noteq> AUTO_STEER_ONLY \<and> driving_mode s \<noteq> AUTO_SPEED_ONLY"
  by (auto simp: ctl_ok_def)

lemma Gear_ok: "ctl_ok s \<Longrightarrow> ctl_ok (Gear g s)"
  using ctl_ok_mode [of s] by (cases g; cases "driving_mode s"; simp add: Gear_def on_ctrl_ok)

lemma Update_parts_ok:
  "ctl_ok s \<Longrightarrow> ctl_ok (Update_speed cmd s)" "ctl_ok s \<Longrightarrow> ctl_ok (Update_steer rnd cmd s)"
  "ctl_ok s \<Longrightarrow> ctl_ok (Update_signal cmd s)" "ctl_ok s \<Longrightarrow> ctl_ok (Update_pad rnd cmd s)"
  using ctl_ok_mode [of s] Gear_ok [of s "gear_location cmd"]
  by (auto simp: Update_speed_def Update_steer_def Update_signal_def Update_pad_def Speed_def Steer_def Steer_spd_def
      SetTurningSignal_def on_ctrl_ok on_io_ok SetDrivingMode_ok split: option.split)

lemma Update_ok: "ctl_ok s \<Longrightarrow> ctl_ok (snd (Update rnd cmd s))"
  by (simp add: Update_def Update_parts_ok)

lemma ctl_ok_fields [simp]:
  "ctl_ok (s\<lparr>chassis_error_code := e\<rparr>) = ctl_ok s" "ctl_ok (s\<lparr>chassis_error_mask := v\<rparr>) = ctl_ok s"
  "ctl_ok (s\<lparr>vcu_ctrl_fail := n\<rparr>) = ctl_ok s" "ctl_ok (s\<lparr>eps_ctrl_fail := n\<rparr>) = ctl_ok s"
  "ctl_ok (s\<lparr>chassis_error_cnt := n\<rparr>) = ctl_ok s" "ctl_ok (s\<lparr>last_timestamp := n\<rparr>) = ctl_ok s"
  by (simp_all add: ctl_ok_def)

lemma checks_ok:
  "vcu_check md d s = (em, s') \<Longrightarrow> ctl_ok s' = ctl_ok s" "eps_check md d s = (em, s') \<Longrightarrow> ctl_ok s' = ctl_ok s"
  "chassis_check d s = (em, s') \<Longrightarrow> ctl_ok s' = ctl_ok s"
  by (auto simp: vcu_check_def eps_check_def chassis_check_def CheckChassisError_def set_chassis_error_code_def
      set_chassis_error_mask_def Let_def split: if_splits prod.splits bool.splits)

lemma mk_step_ok:
  assumes "ctl_ok s"
  shows "ctl_ok (mk_step rnd rndf interval e s)"
proof (cases e)
  case (Command t cmd)
  have "ctl_ok (snd (Update rnd cmd (s\<lparr>last_timestamp := t\<rparr>)))" using assms by (simp add: Update_ok)
  then show ?thesis using assms sender_Update_ok [of "snd (Update rnd cmd (s\<lparr>last_timestamp := t\<rparr>))" rnd]
    by (auto simp: Command OnControlCommand_def split: prod.split error_code.split)
next
  case (SecurityDog d1 d2 d3)
  then show ?thesis using assms
    by (auto simp: security_dog_iteration_def Let_def checks_ok Emergency_ok split: prod.split)
next
  case Publish
  then show ?thesis using assms by (simp add: Mk_chassis_def set_chassis_error_code_def Let_def)
next
  case (FrameIn t f)
  have "manager_holds (MessageManager_Parse (mk_Parse rnd) t i d n m) c j = manager_holds m c j" for i d n m c j
    by (auto simp: MessageManager_Parse_def manager_holds_def mk_Parse_def GetMutableProtocolDataById_def Let_def
        split: option.split)
  then show ?thesis using assms by (simp add: FrameIn Mk_receive_def ctl_ok_def holds_def)
qed
lemma Init_ok: "Mk_Init rnd True True True (new_mk_controller a) = (OK, s) \<Longrightarrow> ctl_ok s"
proof -
  assume init: "Mk_Init rnd True True True (new_mk_controller a) = (OK, s)"
  note h = new_mk_manager_holds [unfolded manager_holds_def]
  have cast: "cast_ctrl new_mk_manager (GetMutableProtocolDataById new_mk_manager Ctrlcmd_ID) = Some 0"
    "cast_io new_mk_manager (GetMutableProtocolDataById new_mk_manager Iocmd_ID) = Some 1"
    using h by (simp_all add: cast_ctrl_def cast_io_def GetMutableProtocolDataById_def)
  let ?s = "(new_mk_controller a)\<lparr>ctrl_ptr := Some 0, io_ptr := Some 1\<rparr>"
  have s: "s = (add_message rnd Iocmd_ID 1 (add_message rnd Ctrlcmd_ID 0 ?s))\<lparr>ctl_initialized := True\<rparr>"
    using init cast by (simp add: Mk_Init_def new_mk_controller_def)
  define z where "z = frame_bytes new_can_frame"
  have z: "length z = 8" by (simp add: z_def new_can_frame_def)
  obtain c d where c: "Ctrlcmd_UpdateData rnd new_ctrl_cmd z = (c, d)" by (rule prod.exhaust)
  obtain i e where i: "Iocmd_UpdateData new_io_cmd z = (i, e)" by (rule prod.exhaust)
  have len: "length d = 8" "length e = 8"
    using length_Ctrlcmd_UpdateData [of rnd new_ctrl_cmd z] length_Iocmd_UpdateData [of new_io_cmd z] z
    by (simp_all add: c i)
  have "idle c i" using UpdateData_idle [of rnd new_ctrl_cmd z new_io_cmd z]
    by (simp add: c i) (simp add: idle_def new_ctrl_cmd_def new_io_cmd_def)
  moreover have "holds s c i"
    using h len unfolding s
    by (simp add: holds_def manager_holds_def add_message_def CanSender_AddMessage_def new_SenderMessage_def
        SenderMessage_Update_def mk_UpdateData_def new_mk_controller_def new_can_sender_def c i Let_def
        flip: z_def)
  moreover have "driving_mode s = COMPLETE_MANUAL"
    unfolding s by (simp add: add_message_def new_mk_controller_def Let_def split: option.split prod.split)
  ultimately show ?thesis by (simp add: ctl_okI)
qed

lemma mk_run_ok: "ctl_ok s \<Longrightarrow> ctl_ok (fold (mk_step rnd rndf interval) es s)"
  by (induction es arbitrary: s) (simp_all add: mk_step_ok)


lemma Init_succeeds: "\<exists>s. Mk_Init rnd True True True (new_mk_controller a) = (OK, s)"
proof -
  note h = new_mk_manager_holds [unfolded manager_holds_def]
  have "cast_ctrl new_mk_manager (GetMutableProtocolDataById new_mk_manager Ctrlcmd_ID) = Some 0"
    "cast_io new_mk_manager (GetMutableProtocolDataById new_mk_manager Iocmd_ID) = Some 1"
    using h by (simp_all add: cast_ctrl_def cast_io_def GetMutableProtocolDataById_def)
  then show ?thesis by (simp add: Mk_Init_def new_mk_controller_def)
qed

definition sample_command :: "driving_action \<Rightarrow> control_command" where
  "sample_command a = \<lparr>pad_action = Some a, gear_location = GEAR_DRIVE, cmd_speed = 1, steering_rate = 0,
     steering_target = 10, cmd_signal = Some TURN_LEFT, cmd_throttle = 0, cmd_brake = 0, is_in_safe_mode = False\<rparr>"

definition sample_start :: mk_controller where
  "sample_start = snd (Mk_Init (\<lambda>x. x) True True True (new_mk_controller 1))"

lemma sample_start: "Mk_Init (\<lambda>x. x) True True True (new_mk_controller 1) = (OK, sample_start)" "ctl_ok sample_start"
proof -
  show "Mk_Init (\<lambda>x. x) True True True (new_mk_controller 1) = (OK, sample_start)"
    using Init_succeeds [of "\<lambda>x. x" 1] by (auto simp: sample_start_def)
  then show "ctl_ok sample_start" by (rule Init_ok)
qed

lemma stamp_frame [simp]:
  "last_timestamp (on_ctrl f s) = last_timestamp s" "last_timestamp (on_io g s) = last_timestamp s"
  "last_timestamp (ResetProtocol s) = last_timestamp s" "last_timestamp (sender_Update rnd s) = last_timestamp s"
  "last_timestamp (set_chassis_error_code e s) = last_timestamp s" "last_timestamp (set_driving_mode md s) = last_timestamp s"
  by (simp_all add: on_ctrl_def on_io_def ResetProtocol_def sender_Update_def set_chassis_error_code_def
      set_driving_mode_def Let_def split: option.split mk_object.split prod.split)

lemma stamp_commands [simp]:
  "last_timestamp (Gear gp s) = last_timestamp s" "last_timestamp (Speed v s) = last_timestamp s"
  "last_timestamp (Steer rnd a s) = last_timestamp s" "last_timestamp (Steer_spd rnd a b s) = last_timestamp s"
  "last_timestamp (SetTurningSignal sig s) = last_timestamp s"
  "last_timestamp (snd (SetDrivingMode rnd (pad_mode ac) s)) = last_timestamp s"
  by (cases gp; simp add: Gear_def)
    (simp_all add: Speed_def Steer_def Steer_spd_def SetTurningSignal_def SetDrivingMode_def EnableAutoMode_def
      DisableAutoMode_def pad_mode_def split: driving_action.split)

lemma Update_stamp: "last_timestamp (snd (Update rnd cmd s)) = last_timestamp s"
  by (simp add: Update_def Update_pad_def Update_speed_def Update_steer_def Update_signal_def split: option.split)

lemma OnControlCommand_stamp:
  "last_timestamp (OnControlCommand rnd interval t cmd s) =
     (if interval * 1000 \<le> t - last_timestamp s then t else last_timestamp s)"
  using Update_stamp [of rnd cmd "s\<lparr>last_timestamp := t\<rparr>"]
  by (auto simp: OnControlCommand_def split: prod.split error_code.split)

lemma add_message_stamp [simp]: "last_timestamp (add_message rnd i n s) = last_timestamp s"
  by (simp add: add_message_def Let_def split: option.split prod.split)

lemma Mk_Init_stamp: "last_timestamp (snd (Mk_Init rnd a b c s)) = last_timestamp s"
  by (simp add: Mk_Init_def Let_def split: option.split)

lemma Init_mode: "driving_mode (snd (Mk_Init rnd a b c s)) = driving_mode s"
  by (simp add: Mk_Init_def add_message_def Let_def split: option.split prod.split)

lemma sample_start_stamp: "last_timestamp sample_start = 0"
  unfolding sample_start_def Mk_Init_stamp by (simp add: new_mk_controller_def)

lemma sample_run_mode:
  "driving_mode (fold (mk_step (\<lambda>x. x) (\<lambda>x. x) 0) [Command 5 (sample_command START), Command 9 (sample_command STOP)]
     sample_start) \<noteq> COMPLETE_AUTO_DRIVE"
proof -
  let ?s = "OnControlCommand (\<lambda>x. x) 0 5 (sample_command START) sample_start"
  have "ctl_ok ?s" using mk_step_ok [OF sample_start(2), of "\<lambda>x. x" "\<lambda>x. x" 0 "Command 5 (sample_command START)"] by simp
  then have "ctl_initialized ?s" by (auto simp: ctl_ok_def holds_def)
  then show ?thesis
    using OnControlCommand_stamp [of "\<lambda>x. x" 0 5 "sample_command START" sample_start] sample_start_stamp
    by (simp add: OnControlCommand_mode [of _ 0 9] sample_command_def)
qed


end
