(* ===== verification/MkMiniSafety.thy ===== *)
theory MkMiniSafety
  imports MkMiniController
begin

text \<open>
  What the safety functions of the mk_mini controller achieve: when exactly the security thread
  (\<open>SecurityDogThreadFunc\<close> of \<open>mk_mini_controller.cc\<close>) enters the emergency mode, and when the stop
  the emergency mode asks for is on the CAN bus.
\<close>

section \<open>Runs of failures\<close>

text \<open>The failures at the end of a list, and ten in a row anywhere in it.\<close>

definition streak :: "('a \<Rightarrow> bool) \<Rightarrow> 'a list \<Rightarrow> nat" where
  "streak P xs = length (takeWhile P (rev xs))"

definition ten_in_a_row :: "('a \<Rightarrow> bool) \<Rightarrow> 'a list \<Rightarrow> bool" where
  "ten_in_a_row P xs \<longleftrightarrow> (\<exists>ys zs us. xs = ys @ zs @ us \<and> length zs = 10 \<and> list_all P zs)"

lemma streak_snoc [simp]: "streak P [] = 0" "streak P (xs @ [x]) = (if P x then streak P xs + 1 else 0)"
  by (simp_all add: streak_def)

lemma streak_ten: "10 \<le> streak P xs \<longleftrightarrow> (\<exists>ys zs. xs = ys @ zs \<and> length zs = 10 \<and> list_all P zs)"
proof
  assume l: "10 \<le> streak P xs"
  have "\<forall>x \<in> set (take 10 (takeWhile P (rev xs))). P x" by (meson in_set_takeD set_takeWhileD)
  moreover have "take 10 (takeWhile P (rev xs)) = take 10 (rev xs)"
    using l by (metis append_take_drop_id streak_def take_append take_take takeWhile_eq_take min_absorb1)
  ultimately have "list_all P (rev (take 10 (rev xs)))" by (simp add: list_all_iff)
  moreover have "length xs \<ge> 10" using l length_takeWhile_le [of P "rev xs"] by (simp add: streak_def)
  ultimately show "\<exists>ys zs. xs = ys @ zs \<and> length zs = 10 \<and> list_all P zs"
    by (intro exI [of _ "take (length xs - 10) xs"] exI [of _ "drop (length xs - 10) xs"]) (simp add: take_rev)
next
  assume "\<exists>ys zs. xs = ys @ zs \<and> length zs = 10 \<and> list_all P zs"
  then obtain ys zs where z: "xs = ys @ zs" "length zs = 10" "list_all P zs" by blast
  have "takeWhile P (rev xs) = rev zs @ takeWhile P (rev ys)"
    unfolding z(1) rev_append by (rule takeWhile_append2) (use z(3) in \<open>simp add: list_all_iff\<close>)
  then show "10 \<le> streak P xs" using z(2) by (simp add: streak_def)
qed

lemma ten_in_a_row_snoc: "ten_in_a_row P (xs @ [x]) \<longleftrightarrow> ten_in_a_row P xs \<or> 10 \<le> streak P (xs @ [x])"
proof
  assume "ten_in_a_row P (xs @ [x])"
  then obtain ys zs us where e: "xs @ [x] = ys @ zs @ us" "length zs = 10" "list_all P zs" unfolding ten_in_a_row_def by blast
  show "ten_in_a_row P xs \<or> 10 \<le> streak P (xs @ [x])"
  proof (cases us rule: rev_cases)
    case Nil
    then show ?thesis unfolding streak_ten using e by auto
  next
    case (snoc vs v)
    then have "xs = ys @ zs @ vs" using e(1) by simp
    then show ?thesis unfolding ten_in_a_row_def using e by blast
  qed
next
  assume "ten_in_a_row P xs \<or> 10 \<le> streak P (xs @ [x])"
  then show "ten_in_a_row P (xs @ [x])"
  proof
    assume "ten_in_a_row P xs"
    then obtain ys zs us where "xs = ys @ zs @ us" "length zs = 10" "list_all P zs" unfolding ten_in_a_row_def by blast
    then have "xs @ [x] = ys @ zs @ (us @ [x])" by simp
    then show ?thesis unfolding ten_in_a_row_def using \<open>length zs = 10\<close> \<open>list_all P zs\<close> by blast
  next
    assume "10 \<le> streak P (xs @ [x])"
    then show ?thesis unfolding streak_ten ten_in_a_row_def by (metis append_Nil2)
  qed
qed

lemma ten_in_a_row_Nil [simp]: "\<not> ten_in_a_row P []"
  by (auto simp: ten_in_a_row_def)

lemma ten_in_a_row_map: "ten_in_a_row P (map f xs) = ten_in_a_row (\<lambda>x. P (f x)) xs"
proof
  assume "ten_in_a_row P (map f xs)"
  then obtain ys zs us where "map f xs = ys @ zs @ us" "length zs = 10" "list_all P zs" unfolding ten_in_a_row_def by blast
  then show "ten_in_a_row (\<lambda>x. P (f x)) xs"
    unfolding ten_in_a_row_def by (fastforce simp: map_eq_append_conv append_eq_map_conv list_all_iff)
next
  assume "ten_in_a_row (\<lambda>x. P (f x)) xs"
  then obtain ys zs us where "xs = ys @ zs @ us" "length zs = 10" "list_all (\<lambda>x. P (f x)) zs"
    unfolding ten_in_a_row_def by blast
  then have "map f xs = map f ys @ map f zs @ map f us" "length (map f zs) = 10" "list_all P (map f zs)"
    by (simp_all add: list_all_iff)
  then show "ten_in_a_row P (map f xs)" unfolding ten_in_a_row_def by blast
qed

section \<open>When the security thread stops the vehicle\<close>

definition vcu_bad :: "mk_mini_chassis \<Rightarrow> bool" where
  "vcu_bad d \<longleftrightarrow> (let r = error_report d in m_veh_fb_rdrvmcufault r \<noteq> 0 \<or> m_veh_fb_ldrvmcufault r \<noteq> 0)"

definition eps_bad :: "mk_mini_chassis \<Rightarrow> bool" where
  "eps_bad d \<longleftrightarrow> True \<in> set (eps_faults (error_report d))"

definition chassis_bad :: "mk_mini_chassis \<Rightarrow> bool" where
  "chassis_bad d \<longleftrightarrow> (let r = error_report d in
     m_veh_fb_faultlevel r \<noteq> 0 \<or> m_veh_fb_auxscram r \<or> m_veh_fb_autoiocancmd r \<or> m_veh_fb_autocanctrlcmd r \<or>
     True \<in> set (ehb_faults r) \<or> m_veh_fb_ldrvmcufault r OR m_veh_fb_rdrvmcufault r \<noteq> 0 \<or> True \<in> set (eps_faults r))"

lemma response_ok_flags:
  "response_ok CHECK_RESPONSE_VCU_UNIT_FLAG (error_report d) = (\<not> vcu_bad d)"
  "response_ok CHECK_RESPONSE_EPS_UNIT_FLAG (error_report d) = (\<not> eps_bad d)"
  by (auto simp: CHECK_RESPONSE_VCU_UNIT_FLAG_def CHECK_RESPONSE_EPS_UNIT_FLAG_def response_ok_def vcu_bad_def eps_bad_def
      list_all_iff Let_def)

lemma CheckChassisError_bad: "fst (CheckChassisError d s) = chassis_bad d"
  by (auto simp: CheckChassisError_def chassis_bad_def list_ex_iff Let_def)

type_synonym details = "mk_mini_chassis \<times> mk_mini_chassis \<times> mk_mini_chassis"

definition dog :: "details \<Rightarrow> mk_controller \<Rightarrow> mk_controller" where
  "dog d = security_dog_iteration (fst d) (fst (snd d)) (snd (snd d))"

lemma counts_frame [simp]:
  "vcu_ctrl_fail (set_chassis_error_code e s) = vcu_ctrl_fail s" "eps_ctrl_fail (set_chassis_error_code e s) = eps_ctrl_fail s"
  "chassis_error_cnt (set_chassis_error_code e s) = chassis_error_cnt s"
  "vcu_ctrl_fail (set_chassis_error_mask v s) = vcu_ctrl_fail s" "eps_ctrl_fail (set_chassis_error_mask v s) = eps_ctrl_fail s"
  "chassis_error_cnt (set_chassis_error_mask v s) = chassis_error_cnt s"
  by (simp_all add: set_chassis_error_code_def set_chassis_error_mask_def)

lemma vcu_check_auto:
  "vcu_check COMPLETE_AUTO_DRIVE d s = (em, t) \<Longrightarrow>
     em = (vcu_bad d \<and> 10 \<le> vcu_ctrl_fail s + 1) \<and> vcu_ctrl_fail t = (if vcu_bad d then vcu_ctrl_fail s + 1 else 0) \<and>
     eps_ctrl_fail t = eps_ctrl_fail s \<and> chassis_error_cnt t = chassis_error_cnt s \<and> driving_mode t = driving_mode s"
  by (auto simp: vcu_check_def response_ok_flags kMaxFailAttempt_def Let_def split: if_splits)

lemma eps_check_auto:
  "eps_check COMPLETE_AUTO_DRIVE d s = (em, t) \<Longrightarrow>
     em = (eps_bad d \<and> 10 \<le> eps_ctrl_fail s + 1) \<and> eps_ctrl_fail t = (if eps_bad d then eps_ctrl_fail s + 1 else 0) \<and>
     vcu_ctrl_fail t = vcu_ctrl_fail s \<and> chassis_error_cnt t = chassis_error_cnt s \<and> driving_mode t = driving_mode s"
  by (auto simp: eps_check_def response_ok_flags kMaxFailAttempt_def Let_def split: if_splits)

lemma CheckChassisError_frame: "CheckChassisError d s = (chassis_bad d, set_chassis_error_mask (chassis_error_mask (snd (CheckChassisError d s))) s)"
  using CheckChassisError_bad [of d s]
  by (cases "CheckChassisError d s") (auto simp: CheckChassisError_def set_chassis_error_mask_def Let_def)

lemma chassis_check_any:
  "chassis_check d s = (em, t) \<Longrightarrow>
     em = (chassis_bad d \<and> 10 \<le> chassis_error_cnt s + 1) \<and> chassis_error_cnt t = (if chassis_bad d then chassis_error_cnt s + 1 else 0) \<and>
     vcu_ctrl_fail t = vcu_ctrl_fail s \<and> eps_ctrl_fail t = eps_ctrl_fail s \<and> driving_mode t = driving_mode s"
  unfolding chassis_check_def
  by (subst (asm) CheckChassisError_frame) (auto simp: kMaxFailAttempt_def Let_def split: if_splits bool.splits)

text \<open>An iteration in automatic driving, as the three counters see it.\<close>

lemma dog_auto:
  fixes d :: details
  assumes "driving_mode s = COMPLETE_AUTO_DRIVE"
  defines "v \<equiv> if vcu_bad (fst d) then vcu_ctrl_fail s + 1 else 0"
    and "e \<equiv> if eps_bad (fst (snd d)) then eps_ctrl_fail s + 1 else 0"
    and "c \<equiv> if chassis_bad (snd (snd d)) then chassis_error_cnt s + 1 else 0"
  shows "driving_mode (dog d s) = (if 10 \<le> v \<or> 10 \<le> e \<or> 10 \<le> c then EMERGENCY_MODE else COMPLETE_AUTO_DRIVE)"
    and "10 \<le> v \<or> 10 \<le> e \<or> 10 \<le> c \<or>
      vcu_ctrl_fail (dog d s) = v \<and> eps_ctrl_fail (dog d s) = e \<and> chassis_error_cnt (dog d s) = c"
proof -
  obtain em1 s1 where 1: "vcu_check COMPLETE_AUTO_DRIVE (fst d) s = (em1, s1)" by (rule prod.exhaust)
  obtain em2 s2 where 2: "eps_check COMPLETE_AUTO_DRIVE (fst (snd d)) s1 = (em2, s2)" by (rule prod.exhaust)
  obtain em3 s3 where 3: "chassis_check (snd (snd d)) s2 = (em3, s3)" by (rule prod.exhaust)
  note f = vcu_check_auto [OF 1] eps_check_auto [OF 2] chassis_check_any [OF 3]
  have d: "dog d s = (if em1 \<or> em2 \<or> em3 then Emergency s3 else s3)"
    by (simp add: dog_def security_dog_iteration_def assms(1) 1 2 3)
  have em: "em1 = (10 \<le> v)" "em2 = (10 \<le> e)" "em3 = (10 \<le> c)" using f by (simp_all add: v_def e_def c_def)
  have s3: "driving_mode s3 = COMPLETE_AUTO_DRIVE" "vcu_ctrl_fail s3 = v" "eps_ctrl_fail s3 = e" "chassis_error_cnt s3 = c"
    using f assms(1) by (simp_all add: v_def e_def c_def)
  show "driving_mode (dog d s) = (if 10 \<le> v \<or> 10 \<le> e \<or> 10 \<le> c then EMERGENCY_MODE else COMPLETE_AUTO_DRIVE)"
    by (simp add: d em s3)
  show "10 \<le> v \<or> 10 \<le> e \<or> 10 \<le> c \<or>
      vcu_ctrl_fail (dog d s) = v \<and> eps_ctrl_fail (dog d s) = e \<and> chassis_error_cnt (dog d s) = c"
    by (auto simp: d em s3)
qed

text \<open>The counters are the failures in a row as long as automatic driving lasts.\<close>

lemma dog_run:
  assumes "driving_mode s = COMPLETE_AUTO_DRIVE" "vcu_ctrl_fail s = 0" "eps_ctrl_fail s = 0" "chassis_error_cnt s = 0"
  defines "P1 \<equiv> \<lambda>d :: details. vcu_bad (fst d)" and "P2 \<equiv> \<lambda>d :: details. eps_bad (fst (snd d))"
    and "P3 \<equiv> \<lambda>d :: details. chassis_bad (snd (snd d))"
  shows "if ten_in_a_row P1 ds \<or> ten_in_a_row P2 ds \<or> ten_in_a_row P3 ds then driving_mode (fold dog ds s) = EMERGENCY_MODE
     else driving_mode (fold dog ds s) = COMPLETE_AUTO_DRIVE \<and> vcu_ctrl_fail (fold dog ds s) = int (streak P1 ds) \<and>
       eps_ctrl_fail (fold dog ds s) = int (streak P2 ds) \<and> chassis_error_cnt (fold dog ds s) = int (streak P3 ds)"
proof (induction ds rule: rev_induct)
  case Nil
  then show ?case using assms(1-4) by simp
next
  case (snoc d ds)
  let ?t = "fold dog ds s"
  have f: "fold dog (ds @ [d]) s = dog d ?t" by simp
  show ?case
  proof (cases "ten_in_a_row P1 ds \<or> ten_in_a_row P2 ds \<or> ten_in_a_row P3 ds")
    case True
    then have "driving_mode ?t = EMERGENCY_MODE" using snoc.IH by simp
    then have "driving_mode (dog d ?t) = EMERGENCY_MODE"
      using dog_mode [of "fst d" "fst (snd d)" "snd (snd d)" ?t] by (simp add: dog_def)
    moreover have "ten_in_a_row P1 (ds @ [d]) \<or> ten_in_a_row P2 (ds @ [d]) \<or> ten_in_a_row P3 (ds @ [d])"
      using True unfolding ten_in_a_row_snoc by blast
    ultimately show ?thesis unfolding f by simp
  next
    case False
    then have t: "driving_mode ?t = COMPLETE_AUTO_DRIVE" "vcu_ctrl_fail ?t = int (streak P1 ds)"
      "eps_ctrl_fail ?t = int (streak P2 ds)" "chassis_error_cnt ?t = int (streak P3 ds)" using snoc.IH by simp_all
    have v: "(if vcu_bad (fst d) then vcu_ctrl_fail ?t + 1 else 0) = int (streak P1 (ds @ [d]))"
      "(if eps_bad (fst (snd d)) then eps_ctrl_fail ?t + 1 else 0) = int (streak P2 (ds @ [d]))"
      "(if chassis_bad (snd (snd d)) then chassis_error_cnt ?t + 1 else 0) = int (streak P3 (ds @ [d]))"
      using t by (simp_all add: P1_def P2_def P3_def)
    have ten: "(10 \<le> int n) = (10 \<le> n)" for n by simp
    show ?thesis using dog_auto [OF t(1), of d] False unfolding f v ten ten_in_a_row_snoc by auto
  qed
qed


text \<open>A drive motor fault seen nine times, and a tenth time.\<close>

definition motor_fault_seen :: mk_mini_chassis where
  "motor_fault_seen = new_chassis\<lparr>veh_fb_diag_18c4eaef := Some (no_diag\<lparr>m_veh_fb_ldrvmcufault := 1\<rparr>)\<rparr>"

lemma ten_in_a_row_replicate: "P x \<Longrightarrow> ten_in_a_row P (replicate 10 x)"
  unfolding ten_in_a_row_def by (rule exI [of _ "[]"], rule exI [of _ "replicate 10 x"], rule exI [of _ "[]"])
    (simp add: list_all_iff)


section \<open>When the stop is on the bus\<close>

lemma Emergency_keeps_frames: "sender (Emergency s) = sender s"
  by (simp add: Emergency_def ResetProtocol_def set_driving_mode_def set_chassis_error_code_def Let_def)

lemma sender_frame [simp]:
  "sender (set_chassis_error_code e s) = sender s" "sender (set_chassis_error_mask v s) = sender s"
  by (simp_all add: set_chassis_error_code_def set_chassis_error_mask_def)

lemma checks_keep_frames:
  "vcu_check md d s = (em, t) \<Longrightarrow> sender t = sender s" "eps_check md d s = (em, t) \<Longrightarrow> sender t = sender s"
  by (auto simp: vcu_check_def eps_check_def Let_def split: if_splits)

lemma chassis_check_keeps_frames: "chassis_check d s = (em, t) \<Longrightarrow> sender t = sender s"
  unfolding chassis_check_def
  by (subst (asm) CheckChassisError_frame) (auto simp: Let_def split: if_splits bool.splits)

text \<open>Only a control command changes the frames the sender sends.\<close>

lemma other_events_keep_frames:
  assumes "\<And>t cmd. e \<noteq> Command t cmd"
  shows "sender (mk_step rnd rndf interval e s) = sender s"
proof (cases e)
  case (SecurityDog d1 d2 d3)
  obtain em1 s1 where 1: "vcu_check (driving_mode s) d1 s = (em1, s1)" by (rule prod.exhaust)
  obtain em2 s2 where 2: "eps_check (driving_mode s) d2 s1 = (em2, s2)" by (rule prod.exhaust)
  obtain em3 s3 where 3: "chassis_check d3 s2 = (em3, s3)" by (rule prod.exhaust)
  show ?thesis
    using checks_keep_frames(1) [OF 1] checks_keep_frames(2) [OF 2] chassis_check_keeps_frames [OF 3]
    by (simp add: SecurityDog security_dog_iteration_def 1 2 3 Emergency_keeps_frames)
qed (use assms in \<open>simp_all add: Mk_chassis_def Mk_receive_def Let_def\<close>)

definition sent_frames :: "mk_controller \<Rightarrow> frame_data list" where
  "sent_frames s = map (frame_bytes \<circ> can_frame_to_send) (send_messages (sender s))"

lemma idle_frame:
  assumes "idle c i" "length d = 8" "close_rounding rnd"
  shows "ctrl_cmd_velocity rnd (snd (Ctrlcmd_UpdateData rnd c d)) = 0 \<and> ctrl_cmd_steering rnd (snd (Ctrlcmd_UpdateData rnd c d)) = 0 \<and>
    ctrl_cmd_gear (snd (Ctrlcmd_UpdateData rnd c d)) = 0 \<and> ctrl_cmd_brake (snd (Ctrlcmd_UpdateData rnd c d)) = 0 \<and>
    bcc_ok (snd (Ctrlcmd_UpdateData rnd c d))"
proof -
  obtain c' d' where u: "Ctrlcmd_UpdateData rnd c d = (c', d')" by (rule prod.exhaust)
  note f = Ctrlcmd_fields [OF assms(2) u refl refl]
  have z: "rnd 0 = 0" using assms(3) by (simp add: close_rounding_def)
  show ?thesis
    using Ctrlcmd_bcc [OF assms(2), of rnd c] assms(1) unfolding u snd_conv f(1-4)
    by (simp add: idle_def BoundedValue_def int_of_double_def z)
qed

text \<open>
  Property C4. The iteration of the security thread that enters the emergency mode leaves the frames the
  sender repeats as they were: the chassis goes on receiving the last accepted command. The next control
  command the minimum interval lets through, whatever it asks for, puts a stop on the bus as long as it
  does not end in automatic driving: velocity, steering, gear and brake zero, with a valid check byte.
\<close>

theorem stop_is_sent_with_next_command:
  assumes "close_rounding rnd" and "Mk_Init rnd True True True (new_mk_controller a) = (OK, s0)"
    and "s = fold (mk_step rnd rndf interval) es s0"
    and "interval * 1000 \<le> t - last_timestamp s"
    and "driving_mode (OnControlCommand rnd interval t cmd s) \<noteq> COMPLETE_AUTO_DRIVE"
  shows "sent_frames (security_dog_iteration d1 d2 d3 s) = sent_frames s
    \<and> length (sent_frames (OnControlCommand rnd interval t cmd s)) = 2
    \<and> (let f = sent_frames (OnControlCommand rnd interval t cmd s) ! 0
       in ctrl_cmd_velocity rnd f = 0 \<and> ctrl_cmd_steering rnd f = 0 \<and> ctrl_cmd_gear f = 0 \<and> ctrl_cmd_brake f = 0 \<and> bcc_ok f)"
proof -
  have ok: "ctl_ok s" unfolding assms(3) by (rule mk_run_ok [OF Init_ok [OF assms(2)]])
  then have init: "ctl_initialized s" by (auto simp: ctl_ok_def holds_def)
  obtain s1 where u: "Update rnd cmd (s\<lparr>last_timestamp := t\<rparr>) = (OK, s1)" using init by (simp add: Update_def)
  then have on: "OnControlCommand rnd interval t cmd s = sender_Update rnd s1"
    using assms(4) by (simp add: OnControlCommand_def)
  have "ctl_ok s1" using Update_ok [of "s\<lparr>last_timestamp := t\<rparr>" rnd cmd] ok u by simp
  then obtain c i where h: "holds s1 c i" "idle c i" using assms(5) by (auto simp: ctl_ok_def on)
  obtain d e where "sent_frames (sender_Update rnd s1) = [snd (Ctrlcmd_UpdateData rnd c d), snd (Iocmd_UpdateData i e)]"
    "length d = 8"
    unfolding sent_frames_def by (rule sender_Update_holds [OF h(1), of rnd]) (rule that [unfolded sent_frames_def])
  moreover have "sent_frames (security_dog_iteration d1 d2 d3 s) = sent_frames s"
    using other_events_keep_frames [of "SecurityDog d1 d2 d3" rnd rndf interval s] by (simp add: sent_frames_def)
  ultimately show ?thesis using idle_frame [OF h(2) _ assms(1)] unfolding on Let_def by simp
qed

theorem stop_is_sent_with_next_command_witness:
  "ctrl_cmd_velocity (\<lambda>x. x) (sent_frames (OnControlCommand (\<lambda>x. x) 0 9 (sample_command STOP)
     (fold (mk_step (\<lambda>x. x) (\<lambda>x. x) 0) [Command 5 (sample_command START)] sample_start)) ! 0) = 0"
proof -
  let ?s = "fold (mk_step (\<lambda>x. x) (\<lambda>x. x) 0) [Command 5 (sample_command START)] sample_start"
  have "0 * 1000 \<le> 9 - last_timestamp ?s"
    by (simp add: OnControlCommand_stamp sample_start_stamp)
  then show ?thesis
    using stop_is_sent_with_next_command [OF exact_rounding sample_start(1) refl, of 0 9 "\<lambda>x. x" "[Command 5 (sample_command START)]"
        "sample_command STOP"] sample_run_mode
    by (simp add: Let_def)
qed
section \<open>What the code does against its comments\<close>

text \<open>
  A pad action that is logged as having no response still ends automatic driving, since the mode
  variable the action was to choose starts as manual.
\<close>

theorem vin_request_disengages:
  assumes "ctl_initialized s" and "interval * 1000 \<le> t - last_timestamp s" and "pad_action cmd = Some VIN_REQ"
  shows "driving_mode (OnControlCommand rnd interval t cmd s) = COMPLETE_MANUAL"
  using assms by (simp add: OnControlCommand_mode)

text \<open>In the emergency mode the published chassis never carries the error that caused it.\<close>

theorem emergency_is_published_without_error:
  assumes "driving_mode s = EMERGENCY_MODE"
  shows "ch_error_code (fst (Mk_chassis rnd rndf s)) = NO_ERROR"
  using assms by (simp add: Mk_chassis_def set_chassis_error_code_def Let_def)

text \<open>With no diagnosis frame at all the steering and the drive motors pass the response check.\<close>

lemma no_diag_values:
  "eps_faults no_diag = replicate 6 False" "ehb_faults no_diag = replicate 11 False"
  "m_veh_fb_rdrvmcufault no_diag = 0" "m_veh_fb_ldrvmcufault no_diag = 0"
  by code_simp+

lemma no_diag_parts:
  "mask_parts (no_diag\<lparr>m_veh_fb_ldrvmcufault := 2\<rparr>) = replicate 6 0 @ [2, 0] @ replicate 18 0"
  "mask_parts (no_diag\<lparr>m_veh_fb_rdrvmcufault := 1\<rparr>) = replicate 6 0 @ [0, 1] @ replicate 18 0"
  by code_simp+

theorem silence_passes_response_check: "CheckResponse flags need_wait n (new_chassis # ds)"
  by (simp add: response_ok_def error_report_def new_chassis_def no_diag_values list_all_iff Let_def)

text \<open>Fault code 2 of the left motor and fault code 1 of the right one give the same error mask.\<close>

lemma mask_of: "chassis_error_mask (snd (CheckChassisError d s)) =
    (let parts = mask_parts (error_report d) in fold (\<lambda>k msk. msk OR push_bit k (parts ! k)) [0..<length parts] 0)"
  by (simp add: CheckChassisError_def set_chassis_error_mask_def Let_def)

lemma same_mask:
  "(let parts = replicate 6 0 @ [2, 0] @ replicate 18 (0 :: int) in fold (\<lambda>k msk. msk OR push_bit k (parts ! k)) [0..<length parts] 0) =
   (let parts = replicate 6 0 @ [0, 1] @ replicate 18 (0 :: int) in fold (\<lambda>k msk. msk OR push_bit k (parts ! k)) [0..<length parts] 0)"
  by code_simp

theorem motor_fault_codes_share_mask_bits:
  "chassis_error_mask (snd (CheckChassisError (new_chassis\<lparr>veh_fb_diag_18c4eaef := Some (no_diag\<lparr>m_veh_fb_ldrvmcufault := 2\<rparr>)\<rparr>) s)) =
   chassis_error_mask (snd (CheckChassisError (new_chassis\<lparr>veh_fb_diag_18c4eaef := Some (no_diag\<lparr>m_veh_fb_rdrvmcufault := 1\<rparr>)\<rparr>) s))"
proof -
  have "error_report (new_chassis\<lparr>veh_fb_diag_18c4eaef := Some r\<rparr>) = r" for r by (simp add: error_report_def)
  then show ?thesis unfolding mask_of by (simp only: no_diag_parts same_mask)
qed

end
