(* ===== verification/Guardian.thy ===== *)
theory Guardian
  imports SafetyMonitor MkMiniSafety
begin

text \<open>
  The guardian (\<open>modules/guardian/guardian_component.cc\<close>): it passes the control commands on to the canbus
  component, or, when the monitor has set the safety mode or has been silent, a stop command of its own. The last section
  follows that command into the mk_mini controller (\<open>CanbusComponent::OnGuardianCommand\<close>).
\<close>

section \<open>The component\<close>

text \<open>The chassis message as the guardian reads it.\<close>

record surround =
  sonar_enabled :: bool
  sonar_fault :: bool
  sonar_range :: "real list"

record guardian =
  guardian_enable :: bool
  emergency_stop_percentage :: real
  soft_stop_percentage :: real
  g_surround :: surround
  g_status :: system_status
  g_control_cmd :: control_command
  guardian_cmd :: control_command
  last_status_received_s :: real

definition no_status :: system_status where
  "no_status = \<lparr>hmi_modules = Map.empty, components = Map.empty, other_components = Map.empty, passenger_msg = None,
     safety_mode_trigger_time = None, require_emergency_stop = False\<rparr>"

definition new_guardian :: "bool \<Rightarrow> real \<Rightarrow> real \<Rightarrow> guardian" where
  "new_guardian enable emergency soft =
     \<lparr>guardian_enable = enable, emergency_stop_percentage = emergency, soft_stop_percentage = soft,
      g_surround = \<lparr>sonar_enabled = False, sonar_fault = False, sonar_range = []\<rparr>, g_status = no_status,
      g_control_cmd = no_command, guardian_cmd = no_command, last_status_received_s = 0\<rparr>"

text \<open>The callbacks of the three readers.\<close>

definition on_chassis :: "surround \<Rightarrow> guardian \<Rightarrow> guardian" where
  "on_chassis c g = g\<lparr>g_surround := c\<rparr>"

definition on_control_cmd :: "control_command \<Rightarrow> guardian \<Rightarrow> guardian" where
  "on_control_cmd c g = g\<lparr>g_control_cmd := c\<rparr>"

definition on_system_status :: "real \<Rightarrow> system_status \<Rightarrow> guardian \<Rightarrow> guardian" where
  "on_system_status now s g = g\<lparr>last_status_received_s := now, g_status := s\<rparr>"

definition PassThroughControlCommand :: "guardian \<Rightarrow> guardian" where
  "PassThroughControlCommand g = g\<lparr>guardian_cmd := g_control_cmd g\<rparr>"

definition TriggerSafetyMode :: "guardian \<Rightarrow> guardian" where
  "TriggerSafetyMode g =
     (let sensor_malfunction = (\<not> sonar_enabled (g_surround g) \<or> sonar_fault (g_surround g));
          obstacle_detected = (\<not> sensor_malfunction \<and> list_ex (\<lambda>d. (d > 0 \<and> d < 5 / 2) \<or> d > 30) (sonar_range (g_surround g)));
          cmd = (guardian_cmd g)\<lparr>cmd_throttle := 0, steering_target := 0, steering_rate := 25, is_in_safe_mode := True\<rparr>;
          sensor_malfunction = False;
          obstacle_detected = False
      in if require_emergency_stop (g_status g) \<or> sensor_malfunction \<or> obstacle_detected
         then g\<lparr>guardian_cmd := cmd\<lparr>cmd_brake := emergency_stop_percentage g\<rparr>\<rparr>
         else g\<lparr>guardian_cmd := cmd\<lparr>cmd_brake := soft_stop_percentage g\<rparr>\<rparr>)"

definition kSecondsTillTimeout :: real where
  "kSecondsTillTimeout = 5 / 2"

text \<open>An invocation by the timer: the command written, and the component.\<close>

definition Guardian_Proc :: "(real \<Rightarrow> real) \<Rightarrow> real \<Rightarrow> guardian \<Rightarrow> control_command \<times> guardian" where
  "Guardian_Proc rnd now g =
     (let safety_mode_triggered =
            (if guardian_enable g
             then rnd (now - last_status_received_s g) > kSecondsTillTimeout \<or> safety_mode_trigger_time (g_status g) \<noteq> None
             else False);
          g' = (if safety_mode_triggered then TriggerSafetyMode g else PassThroughControlCommand g)
      in (guardian_cmd g', g'))"

section \<open>What it sends\<close>

datatype guardian_event = GChassis surround | GControl control_command | GStatus real system_status | GTimer real

fun guardian_step :: "(real \<Rightarrow> real) \<Rightarrow> guardian_event \<Rightarrow> guardian \<Rightarrow> guardian" where
  "guardian_step rnd (GChassis c) g = on_chassis c g"
| "guardian_step rnd (GControl c) g = on_control_cmd c g"
| "guardian_step rnd (GStatus now s) g = on_system_status now s g"
| "guardian_step rnd (GTimer now) g = snd (Guardian_Proc rnd now g)"

definition triggered :: "(real \<Rightarrow> real) \<Rightarrow> real \<Rightarrow> guardian \<Rightarrow> bool" where
  "triggered rnd now g \<longleftrightarrow> guardian_enable g \<and>
     (rnd (now - last_status_received_s g) > 5 / 2 \<or> safety_mode_trigger_time (g_status g) \<noteq> None)"

lemma Guardian_Proc_passes: "\<not> triggered rnd now g \<Longrightarrow> fst (Guardian_Proc rnd now g) = g_control_cmd g"
  by (auto simp: Guardian_Proc_def triggered_def PassThroughControlCommand_def kSecondsTillTimeout_def Let_def)

lemma Guardian_Proc_stops:
  assumes "triggered rnd now g"
  shows "fst (Guardian_Proc rnd now g) = (guardian_cmd g)\<lparr>cmd_throttle := 0, steering_target := 0, steering_rate := 25,
    is_in_safe_mode := True,
    cmd_brake := if require_emergency_stop (g_status g) then emergency_stop_percentage g else soft_stop_percentage g\<rparr>"
  using assms by (auto simp: Guardian_Proc_def triggered_def TriggerSafetyMode_def kSecondsTillTimeout_def Let_def)

text \<open>While the mode is on, the command keeps what the guardian does not set from the last one passed on.\<close>

fun timer_run :: "(real \<Rightarrow> real) \<Rightarrow> guardian_event list \<Rightarrow> guardian \<Rightarrow> bool" where
  "timer_run rnd [] g = True"
| "timer_run rnd (GTimer now # es) g = (triggered rnd now g \<and> timer_run rnd es (guardian_step rnd (GTimer now) g))"
| "timer_run rnd (e # es) g = timer_run rnd es (guardian_step rnd e g)"

definition kept_fields :: "control_command \<Rightarrow> driving_action option \<times> gear_position \<times> real \<times> turn_signal option" where
  "kept_fields c = (pad_action c, gear_location c, cmd_speed c, cmd_signal c)"

lemma stop_keeps_fields: "timer_run rnd es g \<Longrightarrow> kept_fields (guardian_cmd (fold (guardian_step rnd) es g)) = kept_fields (guardian_cmd g)"
proof (induction rnd es g rule: timer_run.induct)
  case (2 rnd now es g)
  then have "triggered rnd now g" by simp
  then have "kept_fields (guardian_cmd (guardian_step rnd (GTimer now) g)) = kept_fields (guardian_cmd g)"
    by (simp add: Guardian_Proc_def triggered_def TriggerSafetyMode_def kSecondsTillTimeout_def kept_fields_def Let_def)
  then show ?case using 2 by simp
qed (simp_all add: on_chassis_def on_control_cmd_def on_system_status_def)
text \<open>The latest of each message, after the initial ones.\<close>

fun last_control :: "control_command \<Rightarrow> guardian_event list \<Rightarrow> control_command" where
  "last_control c [] = c"
| "last_control c (GControl c' # es) = last_control c' es"
| "last_control c (e # es) = last_control c es"

fun last_status :: "real \<times> system_status \<Rightarrow> guardian_event list \<Rightarrow> real \<times> system_status" where
  "last_status s [] = s"
| "last_status s (GStatus now s' # es) = last_status (now, s') es"
| "last_status s (e # es) = last_status s es"

lemma Guardian_Proc_frame:
  "g_control_cmd (snd (Guardian_Proc rnd now g)) = g_control_cmd g" "g_status (snd (Guardian_Proc rnd now g)) = g_status g"
  "last_status_received_s (snd (Guardian_Proc rnd now g)) = last_status_received_s g"
  "guardian_enable (snd (Guardian_Proc rnd now g)) = guardian_enable g"
  "emergency_stop_percentage (snd (Guardian_Proc rnd now g)) = emergency_stop_percentage g"
  "soft_stop_percentage (snd (Guardian_Proc rnd now g)) = soft_stop_percentage g"
  by (simp_all add: Guardian_Proc_def TriggerSafetyMode_def PassThroughControlCommand_def Let_def)

lemma guardian_memory:
  "g_control_cmd (fold (guardian_step rnd) es g) = last_control (g_control_cmd g) es"
  "(last_status_received_s (fold (guardian_step rnd) es g), g_status (fold (guardian_step rnd) es g)) =
     last_status (last_status_received_s g, g_status g) es"
proof (induction es arbitrary: g)
  case (Cons e es)
  {
    case 1
    show ?case using Cons.IH(1) by (cases e) (simp_all add: on_chassis_def on_control_cmd_def on_system_status_def Guardian_Proc_frame)
  next
    case 2
    show ?case using Cons.IH(2) by (cases e) (simp_all add: on_chassis_def on_control_cmd_def on_system_status_def Guardian_Proc_frame)
  }
qed simp_all

lemma guardian_config:
  "guardian_enable (fold (guardian_step rnd) es g) = guardian_enable g \<and>
   emergency_stop_percentage (fold (guardian_step rnd) es g) = emergency_stop_percentage g \<and>
   soft_stop_percentage (fold (guardian_step rnd) es g) = soft_stop_percentage g"
proof (induction es arbitrary: g)
  case (Cons e es)
  then show ?case by (cases e) (simp_all add: on_chassis_def on_control_cmd_def on_system_status_def Guardian_Proc_frame)
qed simp

text \<open>
  Property C5. After any messages, an enabled guardian passes on the latest control command exactly as long as
  the latest status of the system is at most 2.5 seconds old and carries no trigger time; otherwise it sends a
  command without throttle and steering that brakes with the emergency percentage if the status requires
  the emergency stop, else with the soft one. A disabled guardian always passes on.
\<close>

theorem guardian_stops_when_told_or_blind:
  "let g = fold (guardian_step rnd) es (new_guardian enable emergency soft);
       (received, s) = last_status (0, no_status) es;
       cmd = fst (Guardian_Proc rnd now g)
   in if enable \<and> \<not> (rnd (now - received) \<le> 5 / 2 \<and> safety_mode_trigger_time s = None)
      then cmd_throttle cmd = 0 \<and> steering_target cmd = 0 \<and> steering_rate cmd = 25 \<and> is_in_safe_mode cmd \<and>
        cmd_brake cmd = (if require_emergency_stop s then emergency else soft)
      else cmd = last_control no_command es"
proof -
  define g where "g = fold (guardian_step rnd) es (new_guardian enable emergency soft)"
  obtain received s where r: "last_status (0, no_status) es = (received, s)" by (rule prod.exhaust)
  have f: "g_control_cmd g = last_control no_command es" "last_status_received_s g = received" "g_status g = s"
    "guardian_enable g = enable" "emergency_stop_percentage g = emergency" "soft_stop_percentage g = soft"
    using guardian_memory [of rnd es "new_guardian enable emergency soft"] guardian_config [of rnd es "new_guardian enable emergency soft"]
    by (simp_all add: new_guardian_def r g_def)
  have t: "triggered rnd now g \<longleftrightarrow> enable \<and> \<not> (rnd (now - received) \<le> 5 / 2 \<and> safety_mode_trigger_time s = None)"
    by (simp only: triggered_def f not_le not_less de_Morgan_conj)
  show ?thesis
    unfolding g_def [symmetric] r Let_def prod.case t [symmetric]
    using Guardian_Proc_stops [of rnd now g] Guardian_Proc_passes [of rnd now g] by (simp add: f)
qed

section \<open>The stop command on this chassis\<close>

text \<open>\<open>CanbusComponent::OnGuardianCommand\<close>.\<close>

definition OnGuardianCommand :: "(real \<Rightarrow> real) \<Rightarrow> int \<Rightarrow> int \<Rightarrow> control_command \<Rightarrow> mk_controller \<Rightarrow> mk_controller" where
  "OnGuardianCommand rnd min_cmd_interval current_timestamp cmd s = OnControlCommand rnd min_cmd_interval current_timestamp cmd s"

lemma Update_pad_stays:
  "driving_mode s = COMPLETE_AUTO_DRIVE \<Longrightarrow> pad_action cmd = None \<or> pad_action cmd = Some START \<Longrightarrow> Update_pad rnd cmd s = s"
  by (auto simp: Update_pad_def SetDrivingMode_def pad_mode_def split: option.split)

lemma Gear_holds:
  assumes "holds s c i" "driving_mode s = COMPLETE_AUTO_DRIVE"
  shows "\<exists>n. holds (Gear g s) (set_ctrl_cmd_gear n c) i"
  using assms by (cases g) (auto simp: Gear_def intro: on_ctrl_holds)

lemma Update_auto_holds:
  assumes "holds s c i" and "driving_mode s = COMPLETE_AUTO_DRIVE" and "pad_action cmd = None \<or> pad_action cmd = Some START"
    and "steering_target cmd = 0" "rnd 0 = 0"
  shows "\<exists>s' c' i'. Update rnd cmd s = (OK, s') \<and> holds s' c' i' \<and> driving_mode s' = COMPLETE_AUTO_DRIVE \<and>
    m_ctrl_cmd_velocity c' = cmd_speed cmd \<and> m_ctrl_cmd_steering c' = 0"
proof -
  have init: "ctl_initialized s" using assms(1) by (simp add: holds_def)
  obtain n where g: "holds (Gear (gear_location cmd) s) (set_ctrl_cmd_gear n c) i"
    using Gear_holds [OF assms(1,2)] by blast
  let ?c1 = "set_ctrl_cmd_velocity (cmd_speed cmd) (set_ctrl_cmd_gear n c)"
  have 1: "holds (Update_speed cmd s) ?c1 i"
    using on_ctrl_holds [OF g, of "set_ctrl_cmd_velocity (cmd_speed cmd)"] assms(2) by (simp add: Update_speed_def Speed_def)
  have z: "real_steer_angle rnd a (steering_target cmd) = 0" for a using assms(4,5) by (simp add: real_steer_angle_def)
  have 2: "holds (Update_steer rnd cmd (Update_speed cmd s)) (set_ctrl_cmd_steering 0 ?c1) i"
    using on_ctrl_holds [OF 1, of "set_ctrl_cmd_steering 0"] assms(2)
    by (simp add: Update_steer_def Steer_def Steer_spd_def z)
  have "\<exists>j. holds (Update_signal cmd (Update_steer rnd cmd (Update_speed cmd s))) (set_ctrl_cmd_steering 0 ?c1) j"
    using 2 by (auto simp: Update_signal_def SetTurningSignal_def intro: on_io_holds split: option.split)
  then show ?thesis
    using init assms(2) Update_pad_stays [OF assms(2,3), of rnd]
    by (auto simp: Update_def set_ctrl_cmd_steering_def set_ctrl_cmd_velocity_def)
qed

definition sample_guardian :: guardian where
  "sample_guardian = (new_guardian True 50 25)\<lparr>guardian_cmd := sample_command START,
     g_status := no_status\<lparr>safety_mode_trigger_time := Some 3, require_emergency_stop := True\<rparr>\<rparr>"


end
