(* ===== verification/LruCache.thy ===== *)
theory LruCache
  imports Prelude
begin

text \<open>
  The least-recently-used cache, \<open>modules/common/util/lru_cache.h\<close>: a \<open>std::map\<close> from keys to nodes
  and a doubly linked list through the nodes, from the most to the least recently used, between
  two sentinels. A node's address is the sentinel or the key under which the map holds it;
  \<open>nullptr\<close> is \<open>None\<close>. Following an address the map no longer holds is undefined in C++; it reads
  as \<open>nullptr\<close> here, and the invariant shows that no operation but \<open>Remove\<close> can lead to one.
\<close>

section \<open>Nodes and addresses\<close>

datatype 'k ref = Head | Tail | Elem 'k

record ('k, 'v) lru_node =
  n_key :: 'k
  n_val :: 'v
  n_prev :: "'k ref option"
  n_next :: "'k ref option"

definition Node :: "'k \<Rightarrow> 'v \<Rightarrow> ('k, 'v) lru_node" where
  "Node k v = \<lparr>n_key = k, n_val = v, n_prev = None, n_next = None\<rparr>"

record ('k, 'v) lru =
  lru_capacity :: u64
  lru_size :: u64
  lru_map :: "'k \<rightharpoonup> ('k, 'v) lru_node"
  head_node :: "('k, 'v) lru_node"
  tail_node :: "('k, 'v) lru_node"

definition node_at :: "('k, 'v) lru \<Rightarrow> 'k ref \<Rightarrow> ('k, 'v) lru_node option" where
  "node_at l r = (case r of Head \<Rightarrow> Some (head_node l) | Tail \<Rightarrow> Some (tail_node l) | Elem k \<Rightarrow> lru_map l k)"

definition update_at ::
  "'k ref \<Rightarrow> (('k, 'v) lru_node \<Rightarrow> ('k, 'v) lru_node) \<Rightarrow> ('k, 'v) lru \<Rightarrow> ('k, 'v) lru"
where
  "update_at r f l =
     (case r of
        Head \<Rightarrow> l\<lparr>head_node := f (head_node l)\<rparr>
      | Tail \<Rightarrow> l\<lparr>tail_node := f (tail_node l)\<rparr>
      | Elem k \<Rightarrow> l\<lparr>lru_map := (lru_map l)(k := map_option f (lru_map l k))\<rparr>)"

definition prev_of :: "('k, 'v) lru \<Rightarrow> 'k ref \<Rightarrow> 'k ref option" where
  "prev_of l r = Option.bind (node_at l r) n_prev"

definition next_of :: "('k, 'v) lru \<Rightarrow> 'k ref \<Rightarrow> 'k ref option" where
  "next_of l r = Option.bind (node_at l r) n_next"

definition set_prev :: "'k ref \<Rightarrow> 'k ref option \<Rightarrow> ('k, 'v) lru \<Rightarrow> ('k, 'v) lru" where
  "set_prev r p = update_at r (\<lambda>n. n\<lparr>n_prev := p\<rparr>)"

definition set_next :: "'k ref \<Rightarrow> 'k ref option \<Rightarrow> ('k, 'v) lru \<Rightarrow> ('k, 'v) lru" where
  "set_next r p = update_at r (\<lambda>n. n\<lparr>n_next := p\<rparr>)"

section \<open>The operations\<close>

definition lru_Init :: "('k, 'v) lru \<Rightarrow> ('k, 'v) lru" where
  "lru_Init l =
     l\<lparr>head_node := (head_node l)\<lparr>n_prev := None, n_next := Some Tail\<rparr>,
       tail_node := (tail_node l)\<lparr>n_prev := Some Head, n_next := None\<rparr>,
       lru_size := 0, lru_map := Map.empty\<rparr>"

text \<open>The constructor; \<open>dk\<close> and \<open>dv\<close> are the default key and value of the two sentinels.\<close>

definition LRUCache :: "'k \<Rightarrow> 'v \<Rightarrow> u64 \<Rightarrow> ('k, 'v) lru" where
  "LRUCache dk dv capacity =
     lru_Init \<lparr>lru_capacity = capacity, lru_size = 0, lru_map = Map.empty, head_node = Node dk dv, tail_node = Node dk dv\<rparr>"

definition lru_Contains :: "('k, 'v) lru \<Rightarrow> 'k \<Rightarrow> bool" where
  "lru_Contains l k \<longleftrightarrow> lru_map l k \<noteq> None"

definition lru_Full :: "('k, 'v) lru \<Rightarrow> bool" where
  "lru_Full l \<longleftrightarrow> lru_size l > 0 \<and> lru_size l \<ge> lru_capacity l"

definition lru_Empty :: "('k, 'v) lru \<Rightarrow> bool" where
  "lru_Empty l \<longleftrightarrow> lru_size l = 0"

definition First :: "('k, 'v) lru \<Rightarrow> 'k ref option" where
  "First l = (if lru_size l \<noteq> 0 then n_next (head_node l) else None)"

definition Last :: "('k, 'v) lru \<Rightarrow> 'k ref option" where
  "Last l = (if lru_size l \<noteq> 0 then n_prev (tail_node l) else None)"

definition Detach :: "'k ref \<Rightarrow> ('k, 'v) lru \<Rightarrow> ('k, 'v) lru" where
  "Detach r l =
     (let l1 = (case prev_of l r of None \<Rightarrow> l | Some p \<Rightarrow> set_next p (next_of l r) l);
          l2 = (case next_of l1 r of None \<Rightarrow> l1 | Some q \<Rightarrow> set_prev q (prev_of l1 r) l1);
          l3 = set_next r None (set_prev r None l2)
      in l3\<lparr>lru_size := lru_size l3 - 1\<rparr>)"

definition Attach :: "'k ref \<Rightarrow> ('k, 'v) lru \<Rightarrow> ('k, 'v) lru" where
  "Attach r l =
     (let l1 = set_prev r (Some Head) l;
          l2 = set_next r (next_of l1 Head) l1;
          l3 = set_next Head (Some r) l2;
          l4 = (case next_of l3 r of None \<Rightarrow> l3 | Some q \<Rightarrow> set_prev q (Some r) l3)
      in l4\<lparr>lru_size := lru_size l4 + 1\<rparr>)"

text \<open>
  \<open>GetObsolete\<close> drops the least recently used node and gives its key. \<open>None\<close> is the crash of
  following \<open>tail_.prev\<close> when it is \<open>nullptr\<close>.
\<close>

definition GetObsolete :: "('k, 'v) lru \<Rightarrow> ('k option \<times> ('k, 'v) lru) option" where
  "GetObsolete l =
     (if lru_Full l then
        case n_prev (tail_node l) of
          None \<Rightarrow> None
        | Some r \<Rightarrow>
            let l1 = Detach r l in
            (case node_at l1 r of
               None \<Rightarrow> None
             | Some n \<Rightarrow> Some (Some (n_key n), l1\<lparr>lru_map := (lru_map l1)(n_key n := None)\<rparr>))
      else Some (None, l))"

definition touch :: "'k \<Rightarrow> ('k, 'v) lru \<Rightarrow> ('k, 'v) lru" where
  "touch k l = Attach (Elem k) (Detach (Elem k) l)"

text \<open>
  The private \<open>Update\<close>. The results are the returned flag, the key written to \<open>obs\<close> if any, and
  the cache; the map's \<open>emplace\<close> of a new key inserts the node.
\<close>

definition lru_Update_impl ::
  "'k \<Rightarrow> 'v \<Rightarrow> bool \<Rightarrow> bool \<Rightarrow> ('k, 'v) lru \<Rightarrow> (bool \<times> 'k option \<times> ('k, 'v) lru) option"
where
  "lru_Update_impl k v add_only silent_update l =
     (if lru_Contains l k then
        if \<not> add_only then
          let l1 = update_at (Elem k) (\<lambda>n. n\<lparr>n_val := v\<rparr>) l in
          if \<not> silent_update then Some (True, None, touch k l1) else Some (False, None, l1)
        else Some (True, None, l)
      else
        case (if lru_Full l then GetObsolete l else Some (None, l)) of
          None \<Rightarrow> None
        | Some (obs, l1) \<Rightarrow>
            if lru_Full l \<and> obs = None then Some (False, obs, l1)
            else Some (True, obs, Attach (Elem k) (l1\<lparr>lru_map := (lru_map l1)(k \<mapsto> Node k v)\<rparr>)))"

definition lru_Put :: "'k \<Rightarrow> 'v \<Rightarrow> ('k, 'v) lru \<Rightarrow> (bool \<times> 'k option \<times> ('k, 'v) lru) option" where
  "lru_Put k v l = lru_Update_impl k v False False l"

definition lru_Update :: "'k \<Rightarrow> 'v \<Rightarrow> ('k, 'v) lru \<Rightarrow> (bool \<times> 'k option \<times> ('k, 'v) lru) option" where
  "lru_Update k v l = (if \<not> lru_Contains l k then Some (False, None, l) else lru_Update_impl k v True False l)"

definition lru_UpdateSilently :: "'k \<Rightarrow> 'v \<Rightarrow> ('k, 'v) lru \<Rightarrow> (bool \<times> 'k option \<times> ('k, 'v) lru) option" where
  "lru_UpdateSilently k v l =
     (if \<not> lru_Contains l k then Some (False, None, l) else lru_Update_impl k v True True l)"

definition lru_Add :: "'k \<Rightarrow> 'v \<Rightarrow> ('k, 'v) lru \<Rightarrow> (bool \<times> 'k option \<times> ('k, 'v) lru) option" where
  "lru_Add k v l = lru_Update_impl k v True False l"

definition PutAndGetObsolete :: "'k \<Rightarrow> 'v \<Rightarrow> ('k, 'v) lru \<Rightarrow> (bool \<times> 'k option \<times> ('k, 'v) lru) option" where
  "PutAndGetObsolete k v l = lru_Update_impl k v False False l"

definition AddAndGetObsolete :: "'k \<Rightarrow> 'v \<Rightarrow> ('k, 'v) lru \<Rightarrow> (bool \<times> 'k option \<times> ('k, 'v) lru) option" where
  "AddAndGetObsolete k v l = lru_Update_impl k v True False l"

text \<open>\<open>Get\<close> returns a pointer to the value in the node; here the value it points to.\<close>

definition lru_Get_impl :: "'k \<Rightarrow> bool \<Rightarrow> ('k, 'v) lru \<Rightarrow> 'v option \<times> ('k, 'v) lru" where
  "lru_Get_impl k silent l =
     (if lru_Contains l k then
        let l1 = (if \<not> silent then touch k l else l) in (map_option n_val (lru_map l1 k), l1)
      else (None, l))"

definition lru_GetSilently :: "'k \<Rightarrow> ('k, 'v) lru \<Rightarrow> 'v option \<times> ('k, 'v) lru" where
  "lru_GetSilently k l = lru_Get_impl k True l"

definition lru_Get :: "'k \<Rightarrow> ('k, 'v) lru \<Rightarrow> 'v option \<times> ('k, 'v) lru" where
  "lru_Get k l = lru_Get_impl k False l"

text \<open>\<open>GetCopy\<close> assigns to \<open>*val\<close> and returns whether it did.\<close>

definition lru_GetCopy_impl :: "'k \<Rightarrow> 'v \<Rightarrow> bool \<Rightarrow> ('k, 'v) lru \<Rightarrow> bool \<times> 'v \<times> ('k, 'v) lru" where
  "lru_GetCopy_impl k val silent l =
     (if lru_Contains l k then
        let l1 = (if \<not> silent then touch k l else l) in
        (True, (case lru_map l1 k of Some n \<Rightarrow> n_val n | None \<Rightarrow> val), l1)
      else (False, val, l))"

definition GetCopySilently :: "'k \<Rightarrow> 'v \<Rightarrow> ('k, 'v) lru \<Rightarrow> bool \<times> 'v \<times> ('k, 'v) lru" where
  "GetCopySilently k val l = lru_GetCopy_impl k val True l"

definition GetCopy :: "'k \<Rightarrow> 'v \<Rightarrow> ('k, 'v) lru \<Rightarrow> bool \<times> 'v \<times> ('k, 'v) lru" where
  "GetCopy k val l = lru_GetCopy_impl k val False l"

definition Prioritize :: "'k \<Rightarrow> ('k, 'v) lru \<Rightarrow> bool \<times> ('k, 'v) lru" where
  "Prioritize k l = (if lru_Contains l k then (True, touch k l) else (False, l))"

definition lru_Clear :: "('k, 'v) lru \<Rightarrow> ('k, 'v) lru" where
  "lru_Clear l = lru_Init (l\<lparr>lru_map := Map.empty\<rparr>)"

definition lru_Remove :: "'k \<Rightarrow> ('k, 'v) lru \<Rightarrow> bool \<times> ('k, 'v) lru" where
  "lru_Remove k l = (if \<not> lru_Contains l k then (False, l) else (True, Detach (Elem k) l))"

text \<open>What \<open>ChangeCapacity\<close> says; \<open>capacity_\<close> is declared const, so using it does not compile.\<close>

definition ChangeCapacity :: "u64 \<Rightarrow> ('k, 'v) lru \<Rightarrow> bool \<times> ('k, 'v) lru" where
  "ChangeCapacity capacity l =
     (if lru_size l > capacity then (False, l) else (True, l\<lparr>lru_capacity := capacity\<rparr>))"

text \<open>\<open>operator[]\<close> inserts a default node into the map, without linking it, when the key is new.\<close>

definition lru_index :: "'k \<Rightarrow> 'v \<Rightarrow> 'k \<Rightarrow> ('k, 'v) lru \<Rightarrow> ('v \<times> ('k, 'v) lru) option" where
  "lru_index dk dv k l =
     (case (if \<not> lru_Contains l k then map_option snd (GetObsolete l) else Some l) of
        None \<Rightarrow> None
      | Some l1 \<Rightarrow>
          (case lru_map l1 k of
             Some n \<Rightarrow> Some (n_val n, l1)
           | None \<Rightarrow> Some (dv, l1\<lparr>lru_map := (lru_map l1)(k \<mapsto> Node dk dv)\<rparr>)))"

text \<open>\<open>GetCache\<close> emplaces every entry into a map of the caller: its own entries stay.\<close>

definition GetCache :: "('k, 'v) lru \<Rightarrow> ('k \<rightharpoonup> 'v) \<Rightarrow> ('k \<rightharpoonup> 'v)" where
  "GetCache l cache = (\<lambda>k. map_option n_val (lru_map l k)) ++ cache"

definition GetAllSilently :: "('k::linorder, 'v) lru \<Rightarrow> 'v list \<Rightarrow> 'v list" where
  "GetAllSilently l ret = ret @ map (\<lambda>k. n_val (the (lru_map l k))) (sorted_list_of_set (dom (lru_map l)))"

section \<open>Linked lists\<close>

text \<open>The pointers lead along a list of addresses, forwards and backwards.\<close>

fun linked :: "('r \<Rightarrow> 'r option) \<Rightarrow> ('r \<Rightarrow> 'r option) \<Rightarrow> 'r list \<Rightarrow> bool" where
  "linked nx pv (a # b # xs) \<longleftrightarrow> nx a = Some b \<and> pv b = Some a \<and> linked nx pv (b # xs)"
| "linked nx pv _ \<longleftrightarrow> True"

lemma linked_append: "linked nx pv (xs @ a # ys) \<longleftrightarrow> linked nx pv (xs @ [a]) \<and> linked nx pv (a # ys)"
proof (induction xs)
  case (Cons x xs)
  then show ?case by (cases xs) auto
qed simp

lemma linked_cong:
  assumes "\<And>s. s \<in> set (butlast xs) \<Longrightarrow> nx' s = nx s" "\<And>s. s \<in> set (tl xs) \<Longrightarrow> pv' s = pv s"
  shows "linked nx' pv' xs \<longleftrightarrow> linked nx pv xs"
  using assms
proof (induction nx pv xs rule: linked.induct)
  case (1 nx pv a b xs)
  have "linked nx' pv' (b # xs) \<longleftrightarrow> linked nx pv (b # xs)"
  proof (rule 1(1))
    show "nx' s = nx s" if "s \<in> set (butlast (b # xs))" for s using that 1(2) by simp
    show "pv' s = pv s" if "s \<in> set (tl (b # xs))" for s using that 1(3) by simp
  qed
  then show ?case using 1(2) [of a] 1(3) [of b] by simp
qed auto

lemma linked_remove:
  assumes "linked nx pv (xs @ p # r # q # ys)" "distinct (xs @ p # r # q # ys)"
  shows "linked (nx(p := Some q, r := None)) (pv(q := Some p, r := None)) (xs @ p # q # ys)"
proof -
  have l: "linked nx pv (xs @ [p])" "linked nx pv (q # ys)"
    using assms(1) linked_append [of nx pv xs p "r # q # ys"] by auto
  let ?nx = "nx(p := Some q, r := None)" and ?pv = "pv(q := Some p, r := None)"
  have "linked ?nx ?pv (xs @ [p]) \<longleftrightarrow> linked nx pv (xs @ [p])"
    using assms(2) by (intro linked_cong) (auto dest: list.set_sel(2) [rotated] simp: tl_append split: list.splits)
  moreover have "linked ?nx ?pv (q # ys) \<longleftrightarrow> linked nx pv (q # ys)"
    using assms(2) by (intro linked_cong) (auto dest: in_set_butlastD split: if_splits)
  moreover have "?nx p = Some q" "?pv q = Some p" using assms(2) by auto
  ultimately show ?thesis using l linked_append [of ?nx ?pv xs p "q # ys"] by auto
qed

lemma linked_insert:
  assumes "linked nx pv (p # q # ys)" "distinct (p # q # ys)" "r \<notin> set (p # q # ys)"
  shows "linked (nx(r := Some q, p := Some r)) (pv(r := Some p, q := Some r)) (p # r # q # ys)"
proof -
  let ?nx = "nx(r := Some q, p := Some r)" and ?pv = "pv(r := Some p, q := Some r)"
  have "linked ?nx ?pv (q # ys) \<longleftrightarrow> linked nx pv (q # ys)"
    using assms by (intro linked_cong) (auto dest: in_set_butlastD split: if_splits)
  then show ?thesis using assms by auto
qed

lemma linked_last:
  assumes "linked nx pv (xs @ [a, b])"
  shows "pv b = Some a"
  using assms linked_append [of nx pv xs a "[b]"] by simp

section \<open>What the assignments to nodes do\<close>

definition live :: "('k, 'v) lru \<Rightarrow> 'k ref \<Rightarrow> bool" where
  "live l r \<longleftrightarrow> node_at l r \<noteq> None"

lemma node_at_update: "node_at (update_at r f l) s = (if s = r then map_option f (node_at l r) else node_at l s)"
  by (auto simp: node_at_def update_at_def split: ref.splits)

lemma update_at_frame [simp]:
  "lru_size (update_at r f l) = lru_size l" "lru_capacity (update_at r f l) = lru_capacity l"
  "node_at (l\<lparr>lru_size := n\<rparr>) = node_at l"
  "prev_of (l\<lparr>lru_size := n\<rparr>) = prev_of l" "next_of (l\<lparr>lru_size := n\<rparr>) = next_of l"
  by (auto simp: update_at_def node_at_def prev_of_def next_of_def fun_eq_iff split: ref.splits)

lemma set_links [simp]:
  "live l r \<Longrightarrow> next_of (set_next r q l) = (next_of l)(r := q)" "next_of (set_prev r q l) = next_of l"
  "live l r \<Longrightarrow> prev_of (set_prev r q l) = (prev_of l)(r := q)" "prev_of (set_next r q l) = prev_of l"
  by (auto simp: live_def next_of_def prev_of_def set_next_def set_prev_def node_at_update fun_eq_iff bind_eq_Some_conv
      split: if_splits)
    (auto split: option.splits bind_splits)

lemma set_live [simp]: "live (set_next r q l) s \<longleftrightarrow> live l s" "live (set_prev r q l) s \<longleftrightarrow> live l s"
  by (auto simp: live_def set_next_def set_prev_def node_at_update)

lemma live_size [simp]: "live (l\<lparr>lru_size := n\<rparr>) = live l"
  by (simp add: live_def fun_eq_iff)

lemma set_frame [simp]:
  "lru_size (set_next r q l) = lru_size l" "lru_capacity (set_next r q l) = lru_capacity l"
  "lru_size (set_prev r q l) = lru_size l" "lru_capacity (set_prev r q l) = lru_capacity l"
  by (simp_all add: set_next_def set_prev_def)

text \<open>The keys and values the map holds: what no link assignment changes.\<close>

definition payload :: "('k, 'v) lru \<Rightarrow> 'k \<Rightarrow> ('k \<times> 'v) option" where
  "payload l k = map_option (\<lambda>n. (n_key n, n_val n)) (lru_map l k)"

lemma set_payload [simp]:
  "payload (set_next r q l) = payload l" "payload (set_prev r q l) = payload l"
  "payload (l\<lparr>lru_size := n\<rparr>) = payload l"
  by (auto simp: payload_def set_next_def set_prev_def update_at_def fun_eq_iff option.map_comp comp_def
      split: ref.splits)

lemma live_payload: "live l (Elem k) \<longleftrightarrow> payload l k \<noteq> None" "live l Head" "live l Tail"
  by (simp_all add: live_def payload_def node_at_def)

lemma Detach_links:
  assumes "live l r" "prev_of l r = Some p" "next_of l r = Some q" "live l p" "live l q" "p \<noteq> r" "q \<noteq> r"
  shows "next_of (Detach r l) = (next_of l)(p := Some q, r := None)"
    and "prev_of (Detach r l) = (prev_of l)(q := Some p, r := None)"
  using assms by (simp_all add: Detach_def Let_def)

lemma Detach_frame [simp]:
  "payload (Detach r l) = payload l" "lru_size (Detach r l) = lru_size l - 1"
  "lru_capacity (Detach r l) = lru_capacity l" "live (Detach r l) s \<longleftrightarrow> live l s"
  by (simp_all add: Detach_def Let_def split: option.splits)

lemma Attach_links:
  assumes "live l r" "next_of l Head = Some q" "live l q" "r \<noteq> Head" "q \<noteq> r"
  shows "next_of (Attach r l) = (next_of l)(r := Some q, Head := Some r)"
    and "prev_of (Attach r l) = (prev_of l)(r := Some Head, q := Some r)"
  using assms by (simp_all add: Attach_def Let_def live_payload)

lemma Attach_frame [simp]:
  "payload (Attach r l) = payload l" "lru_size (Attach r l) = lru_size l + 1"
  "lru_capacity (Attach r l) = lru_capacity l" "live (Attach r l) s \<longleftrightarrow> live l s"
  by (simp_all add: Attach_def Let_def split: option.splits)

section \<open>The invariant\<close>

text \<open>
  The list through the nodes is \<open>ks\<close>; \<open>zs\<close> are the keys \<open>Remove\<close> has unlinked, which the map
  still holds.
\<close>

abbreviation chain :: "'k list \<Rightarrow> 'k ref list" where
  "chain ks \<equiv> Head # map Elem ks @ [Tail]"

definition lru_inv :: "('k, 'v) lru \<Rightarrow> 'k list \<Rightarrow> 'k set \<Rightarrow> bool" where
  "lru_inv l ks zs \<longleftrightarrow>
     distinct ks \<and> set ks \<inter> zs = {} \<and>
     (\<forall>k. payload l k \<noteq> None \<longleftrightarrow> k \<in> set ks \<union> zs) \<and> (\<forall>k j v. payload l k = Some (j, v) \<longrightarrow> j = k) \<and>
     linked (next_of l) (prev_of l) (chain ks) \<and>
     (\<forall>z\<in>zs. prev_of l (Elem z) = None \<and> next_of l (Elem z) = None) \<and>
     lru_size l = of_nat (length ks) \<and> length ks < 2 ^ 64"

named_theorems lru_ops \<open>what an operation of the cache does under the invariant\<close>

lemma lru_inv_live: "lru_inv l ks zs \<Longrightarrow> live l (Elem k) \<longleftrightarrow> k \<in> set ks \<union> zs"
  by (simp add: live_payload lru_inv_def)

lemma distinct_chain [simp]: "distinct (chain ks) \<longleftrightarrow> distinct ks"
  by (auto simp: distinct_map inj_on_def)

lemma lru_Contains_iff: "lru_inv l ks zs \<Longrightarrow> lru_Contains l k \<longleftrightarrow> k \<in> set ks \<union> zs"
  unfolding lru_inv_def lru_Contains_def payload_def by (metis option.map_disc_iff)

lemma LRUCache_inv: "lru_inv (LRUCache dk dv c) [] {}"
  by (simp add: lru_inv_def LRUCache_def lru_Init_def Node_def payload_def next_of_def prev_of_def node_at_def)

text \<open>Unlinking the node of a key between two others.\<close>

lemma linked_at:
  assumes "linked nx pv (xs @ p # r # q # ys)"
  shows "nx p = Some r" "pv r = Some p" "nx r = Some q" "pv q = Some r"
  using assms linked_append [of nx pv xs p "r # q # ys"] by auto

lemma chain_split:
  obtains xs p q ys where "chain (as @ k # bs) = xs @ p # Elem k # q # ys" "chain (as @ bs) = xs @ p # q # ys"
proof -
  let ?l = "Head # map Elem as" and ?r = "map Elem bs @ [Tail]"
  have "?l = butlast ?l @ [last ?l]" "?r = hd ?r # tl ?r" by (simp_all del: map_append)
  then have "chain (as @ k # bs) = butlast ?l @ last ?l # Elem k # hd ?r # tl ?r"
    "chain (as @ bs) = butlast ?l @ last ?l # hd ?r # tl ?r"
    by (smt (verit) append.assoc append_Cons append_Nil list.simps(9) map_append)+
  then show ?thesis by (rule that)
qed

lemma chain_live: "lru_inv l ks zs \<Longrightarrow> r \<in> set (chain ks) \<Longrightarrow> live l r"
  by (auto simp: lru_inv_live live_payload(2,3))

lemma Detach_inv:
  assumes "lru_inv l (as @ k # bs) zs"
  shows "lru_inv (Detach (Elem k) l) (as @ bs) (insert k zs)"
    and "payload (Detach (Elem k) l) = payload l"
proof -
  obtain xs p q ys where c: "chain (as @ k # bs) = xs @ p # Elem k # q # ys" "chain (as @ bs) = xs @ p # q # ys"
    by (rule chain_split)
  have d: "distinct (xs @ p # Elem k # q # ys)"
    using assms distinct_chain [of "as @ k # bs"] unfolding c lru_inv_def by blast
  have lk: "linked (next_of l) (prev_of l) (xs @ p # Elem k # q # ys)"
    using assms unfolding lru_inv_def c by blast
  have "live l r" if "r \<in> set (xs @ p # Elem k # q # ys)" for r
    using chain_live [OF assms] that unfolding c by blast
  then have lv: "live l (Elem k)" "live l p" "live l q" by simp_all
  have ne: "p \<noteq> Elem k" "q \<noteq> Elem k" using d by auto
  have "next_of (Detach (Elem k) l) = (next_of l)(p := Some q, Elem k := None)"
    "prev_of (Detach (Elem k) l) = (prev_of l)(q := Some p, Elem k := None)"
    using Detach_links [OF lv(1) linked_at(2,3) [OF lk] lv(2,3) ne] by blast+
  note dl = this
  have "linked (next_of (Detach (Elem k) l)) (prev_of (Detach (Elem k) l)) (chain (as @ bs))"
    unfolding dl c by (rule linked_remove [OF lk d])
  moreover have "\<forall>z\<in>insert k zs. prev_of (Detach (Elem k) l) (Elem z) = None \<and> next_of (Detach (Elem k) l) (Elem z) = None"
  proof -
    have "r \<in> set (chain (as @ bs))" if "r = p \<or> r = q" for r using that unfolding c by auto
    then have "\<And>z. z \<in> zs \<Longrightarrow> p \<noteq> Elem z \<and> q \<noteq> Elem z"
      using assms unfolding lru_inv_def by fastforce
    then show ?thesis using assms unfolding dl lru_inv_def by auto
  qed
  ultimately show "lru_inv (Detach (Elem k) l) (as @ bs) (insert k zs)"
    using assms by (auto simp: lru_inv_def)
qed simp

lemma Attach_inv:
  assumes "lru_inv l ks (insert k zs)" "k \<notin> zs" "k \<notin> set ks" "Suc (length ks) < 2 ^ 64"
  shows "lru_inv (Attach (Elem k) l) (k # ks) zs"
    and "payload (Attach (Elem k) l) = payload l"
proof -
  obtain q ys where c: "map Elem ks @ [Tail] = q # ys" by (cases "map Elem ks @ [Tail]") auto
  have d: "distinct (Head # q # ys)" using assms(1) distinct_chain [of ks] unfolding c lru_inv_def by blast
  have lk: "linked (next_of l) (prev_of l) (Head # q # ys)" using assms(1) unfolding lru_inv_def c by blast
  have "q \<in> set (chain ks)" unfolding c by simp
  then have lv: "live l q" "live l (Elem k)" using assms(1) chain_live lru_inv_live by fastforce+
  have ks: "Elem k \<notin> set (Head # q # ys)" using assms(3) unfolding c [symmetric] by auto
  have "next_of (Attach (Elem k) l) = (next_of l)(Elem k := Some q, Head := Some (Elem k))"
    "prev_of (Attach (Elem k) l) = (prev_of l)(Elem k := Some Head, q := Some (Elem k))"
    using Attach_links [of l "Elem k" q] lv lk ks by auto
  note al = this
  have "linked (next_of (Attach (Elem k) l)) (prev_of (Attach (Elem k) l)) (Head # Elem k # q # ys)"
    unfolding al by (rule linked_insert [OF lk d ks])
  then have "linked (next_of (Attach (Elem k) l)) (prev_of (Attach (Elem k) l)) (chain (k # ks))"
    by (simp add: c)
  moreover have "\<forall>z\<in>zs. prev_of (Attach (Elem k) l) (Elem z) = None \<and> next_of (Attach (Elem k) l) (Elem z) = None"
  proof -
    have "q \<in> set (map Elem ks @ [Tail])" unfolding c by simp
    then have "\<And>z. z \<in> zs \<Longrightarrow> q \<noteq> Elem z" using assms(1) unfolding lru_inv_def by auto
    then show ?thesis using assms(1,2) unfolding al lru_inv_def by auto
  qed
  ultimately show "lru_inv (Attach (Elem k) l) (k # ks) zs"
    using assms by (auto simp: lru_inv_def)
qed simp

lemma touch_inv [lru_ops]:
  assumes "lru_inv l ks zs" "k \<in> set ks"
  shows "lru_inv (touch k l) (k # remove1 k ks) zs" and "payload (touch k l) = payload l"
proof -
  obtain as bs where s: "ks = as @ k # bs" "k \<notin> set as" using assms(2) by (meson split_list_first)
  have "lru_inv (Detach (Elem k) l) (as @ bs) (insert k zs)" by (rule Detach_inv(1) [OF assms(1) [unfolded s(1)]])
  then have "lru_inv (touch k l) (k # as @ bs) zs"
    unfolding touch_def using assms(1) by (intro Attach_inv) (auto simp: lru_inv_def s)
  then show "lru_inv (touch k l) (k # remove1 k ks) zs" by (simp add: s remove1_append)
qed (simp add: touch_def)

section \<open>Each operation on the list of keys\<close>

lemma erase_links [simp]:
  assumes "prev_of l (Elem z) = None" "next_of l (Elem z) = None"
  shows "next_of (l\<lparr>lru_map := (lru_map l)(z := None)\<rparr>) = next_of l"
    and "prev_of (l\<lparr>lru_map := (lru_map l)(z := None)\<rparr>) = prev_of l"
  using assms by (auto simp: next_of_def prev_of_def node_at_def fun_eq_iff split: ref.splits)

lemma erase_inv:
  assumes "lru_inv l ks (insert z zs)" "z \<notin> zs"
  shows "lru_inv (l\<lparr>lru_map := (lru_map l)(z := None)\<rparr>) ks zs"
    and "payload (l\<lparr>lru_map := (lru_map l)(z := None)\<rparr>) = (payload l)(z := None)"
proof -
  show p: "payload (l\<lparr>lru_map := (lru_map l)(z := None)\<rparr>) = (payload l)(z := None)"
    by (auto simp: payload_def)
  have "prev_of l (Elem z) = None" "next_of l (Elem z) = None" "z \<notin> set ks"
    using assms(1) by (auto simp: lru_inv_def)
  then show "lru_inv (l\<lparr>lru_map := (lru_map l)(z := None)\<rparr>) ks zs"
    using assms unfolding lru_inv_def p by auto
qed

lemma emplace_inv:
  assumes "lru_inv l ks zs" "k \<notin> set ks" "k \<notin> zs"
  shows "lru_inv (l\<lparr>lru_map := (lru_map l)(k \<mapsto> Node k v)\<rparr>) ks (insert k zs)"
    and "payload (l\<lparr>lru_map := (lru_map l)(k \<mapsto> Node k v)\<rparr>) = (payload l)(k := Some (k, v))"
proof -
  let ?l = "l\<lparr>lru_map := (lru_map l)(k \<mapsto> Node k v)\<rparr>"
  show p: "payload ?l = (payload l)(k := Some (k, v))" by (auto simp: payload_def Node_def)
  have "lru_map l k = None" using assms by (auto simp: lru_inv_def payload_def)
  then have "next_of ?l = next_of l" "prev_of ?l = prev_of l"
    by (auto simp: next_of_def prev_of_def node_at_def Node_def fun_eq_iff split: ref.splits)
  moreover have "prev_of l (Elem k) = None" "next_of l (Elem k) = None"
    using \<open>lru_map l k = None\<close> by (simp_all add: prev_of_def next_of_def node_at_def)
  ultimately show "lru_inv ?l ks (insert k zs)"
    using assms unfolding lru_inv_def p by auto
qed

lemma set_val_inv:
  assumes "lru_inv l ks zs" "k \<in> set ks"
  shows "lru_inv (update_at (Elem k) (\<lambda>n. n\<lparr>n_val := v\<rparr>) l) ks zs"
    and "payload (update_at (Elem k) (\<lambda>n. n\<lparr>n_val := v\<rparr>) l) = (payload l)(k := Some (k, v))"
proof -
  let ?l = "update_at (Elem k) (\<lambda>n. n\<lparr>n_val := v\<rparr>) l"
  have "payload l k \<noteq> None" and key: "\<And>j v. payload l k = Some (j, v) \<Longrightarrow> j = k"
    using assms by (auto simp: lru_inv_def)
  then obtain n where n: "lru_map l k = Some n" "n_key n = k" by (auto simp: payload_def)
  then show p: "payload ?l = (payload l)(k := Some (k, v))" by (auto simp: payload_def update_at_def)
  have "next_of ?l = next_of l" "prev_of ?l = prev_of l"
    using n by (auto simp: next_of_def prev_of_def node_at_def update_at_def fun_eq_iff split: ref.splits)
  then show "lru_inv ?l ks zs" using assms unfolding lru_inv_def p by auto
qed

lemma unat_lru_size: "lru_inv l ks zs \<Longrightarrow> unat (lru_size l) = length ks"
  by (simp add: lru_inv_def unat_of_nat)

lemma lru_size_0: "lru_inv l ks zs \<Longrightarrow> lru_size l = 0 \<longleftrightarrow> ks = []"
  using unat_lru_size [of l ks zs] by (simp add: unat_eq_0 [symmetric])

lemma lru_Full_iff: "lru_inv l ks zs \<Longrightarrow> lru_Full l \<longleftrightarrow> ks \<noteq> [] \<and> unat (lru_capacity l) \<le> length ks"
  using unat_lru_size [of l ks zs] lru_size_0 [of l ks zs] unfolding lru_Full_def
  by (auto simp: word_le_nat_alt word_gt_0)

lemma First_eq: "lru_inv l ks zs \<Longrightarrow> First l = (case ks of [] \<Rightarrow> None | k # _ \<Rightarrow> Some (Elem k))"
  using lru_size_0 [of l ks zs]
  by (auto simp: First_def lru_inv_def next_of_def node_at_def split: list.splits)

lemma tail_prev: "lru_inv l (ks @ [k]) zs \<Longrightarrow> n_prev (tail_node l) = Some (Elem k)"
  using linked_last [of "next_of l" "prev_of l" "Head # map Elem ks" "Elem k" Tail]
  by (simp add: lru_inv_def prev_of_def node_at_def)

lemma Last_eq: "lru_inv l ks zs \<Longrightarrow> Last l = (if ks = [] then None else Some (Elem (last ks)))"
  using lru_size_0 [of l ks zs] tail_prev [of l "butlast ks" "last ks" zs] by (simp add: Last_def)

lemma GetObsolete_not_full: "\<not> lru_Full l \<Longrightarrow> GetObsolete l = Some (None, l)"
  by (simp add: GetObsolete_def)

lemma GetObsolete_full:
  assumes "lru_inv l (ks @ [k]) zs" "lru_Full l"
  obtains l' where "GetObsolete l = Some (Some k, l')" "lru_inv l' ks zs" "payload l' = (payload l)(k := None)"
    "lru_capacity l' = lru_capacity l"
proof -
  let ?l1 = "Detach (Elem k) l"
  have i: "lru_inv ?l1 ks (insert k zs)" using Detach_inv(1) [of l ks k "[]" zs] assms(1) by simp
  have k: "k \<notin> zs" using assms(1) by (auto simp: lru_inv_def)
  obtain j v where "payload ?l1 k = Some (j, v)" "j = k"
    using i unfolding lru_inv_def by fastforce
  then obtain n where n: "lru_map ?l1 k = Some n" "n_key n = k"
    unfolding payload_def by (metis (mono_tags, lifting) fst_conv map_option_eq_Some)
  show thesis
  proof (rule that)
    show "GetObsolete l = Some (Some k, ?l1\<lparr>lru_map := (lru_map ?l1)(k := None)\<rparr>)"
      using assms(2) tail_prev [OF assms(1)] n by (simp add: GetObsolete_def Let_def node_at_def)
    show "lru_inv (?l1\<lparr>lru_map := (lru_map ?l1)(k := None)\<rparr>) ks zs" by (rule erase_inv(1) [OF i k])
    show "payload (?l1\<lparr>lru_map := (lru_map ?l1)(k := None)\<rparr>) = (payload l)(k := None)"
      by (simp add: erase_inv(2) [OF i k])
  qed simp
qed

text \<open>A new key goes to the front; the last one leaves when the cache is full.\<close>

lemma emplace_Attach_inv:
  assumes "lru_inv l ks zs" "k \<notin> set ks" "k \<notin> zs" "Suc (length ks) < 2 ^ 64"
  shows "lru_inv (Attach (Elem k) (l\<lparr>lru_map := (lru_map l)(k \<mapsto> Node k v)\<rparr>)) (k # ks) zs"
    and "payload (Attach (Elem k) (l\<lparr>lru_map := (lru_map l)(k \<mapsto> Node k v)\<rparr>)) = (payload l)(k := Some (k, v))"
  using Attach_inv [OF emplace_inv(1) [OF assms(1-3)] assms(3,2,4)] emplace_inv(2) [OF assms(1-3)] by simp_all

lemma insert_full:
  assumes "lru_inv l (ks @ [j]) zs" "unat (lru_capacity l) \<le> Suc (length ks)" "k \<notin> set (ks @ [j])" "k \<notin> zs"
  obtains l' where "lru_Update_impl k v a b l = Some (True, Some j, l')" "lru_inv l' (k # ks) zs"
    "payload l' = (payload l)(j := None, k := Some (k, v))" "lru_capacity l' = lru_capacity l"
proof -
  have f: "lru_Full l" using lru_Full_iff [OF assms(1)] assms(2) by simp
  obtain l1 where l1: "GetObsolete l = Some (Some j, l1)" "lru_inv l1 ks zs" "payload l1 = (payload l)(j := None)"
    "lru_capacity l1 = lru_capacity l"
    by (rule GetObsolete_full [OF assms(1) f])
  have k: "k \<notin> set ks" "Suc (length ks) < 2 ^ 64" using assms(1,3) by (auto simp: lru_inv_def)
  show thesis
  proof (rule that)
    show "lru_Update_impl k v a b l = Some (True, Some j, Attach (Elem k) (l1\<lparr>lru_map := (lru_map l1)(k \<mapsto> Node k v)\<rparr>))"
      using lru_Contains_iff [OF assms(1), of k] assms(3,4) f l1(1) by (simp add: lru_Update_impl_def)
  qed (use emplace_Attach_inv [OF l1(2) k(1) assms(4) k(2)] l1(3,4) in simp_all)
qed

lemma insert_room:
  assumes "lru_inv l ks zs" "k \<notin> set ks" "k \<notin> zs" "\<not> (ks \<noteq> [] \<and> unat (lru_capacity l) \<le> length ks)"
  obtains l' where "lru_Update_impl k v a b l = Some (True, None, l')" "lru_inv l' (k # ks) zs"
    "payload l' = (payload l)(k := Some (k, v))" "lru_capacity l' = lru_capacity l"
proof -
  have f: "\<not> lru_Full l" using lru_Full_iff [OF assms(1)] assms(4) by simp
  have len: "Suc (length ks) < 2 ^ 64"
  proof (cases "ks = []")
    case False
    have "unat (lru_capacity l) < 2 ^ 64" by (rule order.strict_trans2 [OF unsigned_less]) simp
    then show ?thesis using assms(4) False by linarith
  qed simp
  show thesis
  proof (rule that)
    show "lru_Update_impl k v a b l = Some (True, None, Attach (Elem k) (l\<lparr>lru_map := (lru_map l)(k \<mapsto> Node k v)\<rparr>))"
      using lru_Contains_iff [OF assms(1), of k] assms(2,3) f by (simp add: lru_Update_impl_def)
  qed (use emplace_Attach_inv [OF assms(1-3) len] in simp_all)
qed

section \<open>The abstract cache\<close>

text \<open>
  What the cache promises: the entries from the most to the least recently used. A command that
  uses a key moves it to the front, and a new key pushes the last one out of a full cache. A
  cache of capacity 0 keeps one entry.
\<close>

definition to_front :: "'k \<Rightarrow> 'v \<Rightarrow> ('k \<times> 'v) list \<Rightarrow> ('k \<times> 'v) list" where
  "to_front k v es = (k, v) # filter (\<lambda>e. fst e \<noteq> k) es"

definition push :: "nat \<Rightarrow> 'k \<Rightarrow> 'v \<Rightarrow> ('k \<times> 'v) list \<Rightarrow> 'k option \<times> ('k \<times> 'v) list" where
  "push cap k v es =
     (if es \<noteq> [] \<and> cap \<le> length es then (Some (fst (last es)), (k, v) # butlast es) else (None, (k, v) # es))"

text \<open>The commands of a client, \<open>Remove\<close> aside, and what each answers.\<close>

datatype ('k, 'v) lru_cmd =
    CPut 'k 'v | CAdd 'k 'v | CUpdate 'k 'v | CUpdateSilently 'k 'v
  | CGet 'k | CGetSilently 'k | CPrioritize 'k | CClear

type_synonym ('k, 'v) lru_answer = "bool \<times> 'k option \<times> 'v option"

definition lru_exec :: "('k, 'v) lru_cmd \<Rightarrow> ('k, 'v) lru \<Rightarrow> (('k, 'v) lru_answer \<times> ('k, 'v) lru) option" where
  "lru_exec c l =
     (let answer = map_option (\<lambda>(b, obs, l'). ((b, obs, None), l')) in
      case c of
        CPut k v \<Rightarrow> answer (PutAndGetObsolete k v l)
      | CAdd k v \<Rightarrow> answer (AddAndGetObsolete k v l)
      | CUpdate k v \<Rightarrow> answer (lru_Update k v l)
      | CUpdateSilently k v \<Rightarrow> answer (lru_UpdateSilently k v l)
      | CGet k \<Rightarrow> (case lru_Get k l of (v, l') \<Rightarrow> Some ((v \<noteq> None, None, v), l'))
      | CGetSilently k \<Rightarrow> (case lru_GetSilently k l of (v, l') \<Rightarrow> Some ((v \<noteq> None, None, v), l'))
      | CPrioritize k \<Rightarrow> (case Prioritize k l of (b, l') \<Rightarrow> Some ((b, None, None), l'))
      | CClear \<Rightarrow> Some ((True, None, None), lru_Clear l))"

definition spec_exec :: "nat \<Rightarrow> ('k, 'v) lru_cmd \<Rightarrow> ('k \<times> 'v) list \<Rightarrow> ('k, 'v) lru_answer \<times> ('k \<times> 'v) list" where
  "spec_exec cap c es =
     (let known = (\<lambda>k. map_of es k \<noteq> None);
          add = (\<lambda>k v. case push cap k v es of (obs, es') \<Rightarrow> ((True, obs, None), es')) in
      case c of
        CPut k v \<Rightarrow> if known k then ((True, None, None), to_front k v es) else add k v
      | CAdd k v \<Rightarrow> if known k then ((True, None, None), es) else add k v
      | CUpdate k v \<Rightarrow> ((known k, None, None), es)
      | CUpdateSilently k v \<Rightarrow> ((known k, None, None), es)
      | CGet k \<Rightarrow>
          (case map_of es k of None \<Rightarrow> ((False, None, None), es) | Some v \<Rightarrow> ((True, None, Some v), to_front k v es))
      | CGetSilently k \<Rightarrow> ((known k, None, map_of es k), es)
      | CPrioritize k \<Rightarrow>
          (case map_of es k of None \<Rightarrow> ((False, None, None), es) | Some v \<Rightarrow> ((True, None, None), to_front k v es))
      | CClear \<Rightarrow> ((True, None, None), []))"

fun exec_all ::
  "('c \<Rightarrow> 's \<Rightarrow> ('a \<times> 's) option) \<Rightarrow> 'c list \<Rightarrow> 's \<Rightarrow> ('a list \<times> 's) option"
where
  "exec_all ex [] s = Some ([], s)"
| "exec_all ex (c # cs) s =
     (case ex c s of
        None \<Rightarrow> None
      | Some (a, s1) \<Rightarrow> map_option (\<lambda>(as, s'). (a # as, s')) (exec_all ex cs s1))"

definition lru_abs :: "('k, 'v) lru \<Rightarrow> ('k \<times> 'v) list \<Rightarrow> bool" where
  "lru_abs l es \<longleftrightarrow> lru_inv l (map fst es) {} \<and> payload l = (\<lambda>k. map_option (Pair k) (map_of es k))"

lemma lru_abs_LRUCache: "lru_abs (LRUCache dk dv c) []"
  using LRUCache_inv [of dk dv c]
  by (simp add: lru_abs_def) (simp add: payload_def LRUCache_def lru_Init_def fun_eq_iff)

lemma remove1_keys: "distinct (map fst es) \<Longrightarrow> remove1 k (map fst es) = map fst (filter (\<lambda>e. fst e \<noteq> k) es)"
  by (simp add: distinct_remove1_removeAll removeAll_filter_not_eq filter_map comp_def neq_commute)

lemma map_of_filter_key: "map_of (filter (\<lambda>e. fst e \<noteq> k) es) j = (if j = k then None else map_of es j)"
  by (induction es) auto

lemma map_of_butlast:
  assumes "distinct (map fst (es @ [e]))"
  shows "map_of es = (map_of (es @ [e]))(fst e := None)"
  using assms by (cases e) (auto simp: fun_eq_iff map_add_def map_of_eq_None_iff split: option.splits)

lemma abs_touch:
  assumes "lru_abs l es" "map_of es k = Some v"
  shows "lru_abs (touch k l) (to_front k v es)"
proof -
  have i: "lru_inv l (map fst es) {}" and p: "payload l = (\<lambda>k. map_option (Pair k) (map_of es k))"
    using assms(1) by (simp_all add: lru_abs_def)
  have k: "k \<in> set (map fst es)" using assms(2) by (metis domI dom_map_of_conv_image_fst list.set_map)
  have "distinct (map fst es)" using i by (simp add: lru_inv_def)
  then show ?thesis
    using touch_inv [OF i k] assms(2) p
    by (auto simp: lru_abs_def to_front_def remove1_keys map_of_filter_key)
qed

lemma abs_push:
  assumes "lru_abs l es" "map_of es k = None" "push (unat (lru_capacity l)) k v es = (obs, es')"
  obtains l' where "lru_Update_impl k v a b l = Some (True, obs, l')" "lru_abs l' es'" "lru_capacity l' = lru_capacity l"
proof -
  have i: "lru_inv l (map fst es) {}" and p: "payload l = (\<lambda>k. map_option (Pair k) (map_of es k))"
    using assms(1) by (simp_all add: lru_abs_def)
  have k: "k \<notin> set (map fst es)" using assms(2) by (simp add: map_of_eq_None_iff)
  show thesis
  proof (cases "es \<noteq> [] \<and> unat (lru_capacity l) \<le> length es")
    case True
    define e bs where "e = last es" and "bs = butlast es"
    have es: "es = bs @ [e]" using True by (simp add: e_def bs_def)
    have ob: "obs = Some (fst e)" "es' = (k, v) # bs" using assms(3) True by (simp_all add: push_def e_def bs_def)
    obtain l' where l': "lru_Update_impl k v a b l = Some (True, Some (fst e), l')" "lru_inv l' (k # map fst bs) {}"
      "payload l' = (payload l)(fst e := None, k := Some (k, v))" "lru_capacity l' = lru_capacity l"
      by (rule insert_full [of l "map fst bs" "fst e" "{}" k v a b]) (use i k True in \<open>simp_all add: es\<close>)
    have "distinct (map fst (bs @ [e]))" using i by (simp add: lru_inv_def es)
    from map_of_butlast [OF this] have m: "map_of bs = (map_of es)(fst e := None)" by (simp only: es)
    have "lru_abs l' es'"
      using l'(2) by (auto simp: lru_abs_def ob l'(3) p m fun_eq_iff)
    then show thesis using that l'(1,4) ob(1) by blast
  next
    case False
    then have ob: "obs = None" "es' = (k, v) # es" using assms(3) by (auto simp: push_def)
    obtain l' where l': "lru_Update_impl k v a b l = Some (True, None, l')" "lru_inv l' (k # map fst es) {}"
      "payload l' = (payload l)(k := Some (k, v))" "lru_capacity l' = lru_capacity l"
      by (rule insert_room [of l "map fst es" "{}" k v a b]) (use i k False in auto)
    have "lru_abs l' es'" using l'(2) by (auto simp: lru_abs_def ob l'(3) p fun_eq_iff)
    then show thesis using that l'(1,4) ob(1) by blast
  qed
qed

lemma abs_Contains: "lru_abs l es \<Longrightarrow> lru_Contains l k \<longleftrightarrow> map_of es k \<noteq> None"
  using lru_Contains_iff [of l "map fst es" "{}" k]
  by (auto simp: lru_abs_def map_of_eq_None_iff)

lemma abs_val: "lru_abs l es \<Longrightarrow> map_option n_val (lru_map l k) = map_of es k"
proof -
  assume "lru_abs l es"
  then have "map_option snd (payload l k) = map_of es k"
    by (simp add: lru_abs_def option.map_comp comp_def option.map_ident)
  then show ?thesis by (simp add: payload_def option.map_comp comp_def)
qed

lemma abs_Clear: "lru_abs (lru_Clear l) []"
  by (auto simp: lru_abs_def lru_inv_def lru_Clear_def lru_Init_def payload_def next_of_def prev_of_def node_at_def fun_eq_iff)

lemma touch_capacity [simp]: "lru_capacity (touch k l) = lru_capacity l"
  by (simp add: touch_def)

lemma abs_Update_known:
  assumes "lru_abs l es" "map_of es k \<noteq> None"
  obtains l' where "lru_Update_impl k v False False l = Some (True, None, l')" "lru_abs l' (to_front k v es)"
    "lru_capacity l' = lru_capacity l"
proof -
  let ?l1 = "update_at (Elem k) (\<lambda>n. n\<lparr>n_val := v\<rparr>) l"
  have i: "lru_inv l (map fst es) {}" and p: "payload l = (\<lambda>k. map_option (Pair k) (map_of es k))"
    using assms(1) by (simp_all add: lru_abs_def)
  have k: "k \<in> set (map fst es)" using assms(2) by (auto simp: map_of_eq_None_iff)
  have d: "distinct (map fst es)" using i by (simp add: lru_inv_def)
  note s = set_val_inv [OF i k, of v]
  have "lru_abs (touch k ?l1) (to_front k v es)"
    using touch_inv [OF s(1) k] p
    by (auto simp: lru_abs_def to_front_def remove1_keys [OF d] map_of_filter_key s(2))
  moreover have "lru_Update_impl k v False False l = Some (True, None, touch k ?l1)"
    using abs_Contains [OF assms(1), of k] assms(2) by (simp add: lru_Update_impl_def Let_def)
  ultimately show thesis using that by simp
qed

text \<open>One command: the cache answers as the abstract one and stays its representation.\<close>

lemma lru_exec_refines:
  assumes "lru_abs l es"
  obtains l' where "lru_exec c l = Some (fst (spec_exec (unat (lru_capacity l)) c es), l')"
    "lru_abs l' (snd (spec_exec (unat (lru_capacity l)) c es))" "lru_capacity l' = lru_capacity l"
proof -
  note K = abs_Contains [OF assms] and V = abs_val [OF assms]
  note out = that
  have upd: thesis if kn: "map_of es k = None" "c = CPut k v \<or> c = CAdd k v" for k v
  proof -
    obtain obs es' where p: "push (unat (lru_capacity l)) k v es = (obs, es')" by fastforce
    obtain l1 where l1: "lru_Update_impl k v False False l = Some (True, obs, l1)" "lru_abs l1 es'"
      "lru_capacity l1 = lru_capacity l"
      by (rule abs_push [OF assms kn(1) p])
    obtain l2 where l2: "lru_Update_impl k v True False l = Some (True, obs, l2)" "lru_abs l2 es'"
      "lru_capacity l2 = lru_capacity l"
      by (rule abs_push [OF assms kn(1) p])
    show thesis
      using kn(2) by (elim disjE; intro out [of "if c = CPut k v then l1 else l2"])
        (simp_all add: lru_exec_def spec_exec_def PutAndGetObsolete_def AddAndGetObsolete_def l1 l2 p kn(1))
  qed
  show thesis
  proof (cases c)
    case (CPut k v)
    show thesis
    proof (cases "map_of es k")
      case None
      then show thesis using upd CPut by blast
    next
      case (Some w)
      then obtain l' where "lru_Update_impl k v False False l = Some (True, None, l')" "lru_abs l' (to_front k v es)"
        "lru_capacity l' = lru_capacity l"
        using abs_Update_known [OF assms, of k v] by blast
      then show thesis by (intro that [of l']) (simp_all add: CPut Some lru_exec_def spec_exec_def PutAndGetObsolete_def)
    qed
  next
    case (CAdd k v)
    show thesis
    proof (cases "map_of es k")
      case None
      then show thesis using upd CAdd by blast
    next
      case (Some w)
      then show thesis using assms K
        by (intro that [of l]) (simp_all add: CAdd lru_exec_def spec_exec_def AddAndGetObsolete_def lru_Update_impl_def)
    qed
  next
    case (CGet k)
    show thesis
    proof (cases "map_of es k")
      case None
      then show thesis using assms K
        by (intro that [of l]) (simp_all add: CGet lru_exec_def spec_exec_def lru_Get_def lru_Get_impl_def)
    next
      case (Some v)
      note a = abs_touch [OF assms Some]
      then have "map_option n_val (lru_map (touch k l) k) = Some v"
        using abs_val [OF a, of k] by (simp add: to_front_def)
      then show thesis using a K Some
        by (intro that [of "touch k l"]) (auto simp: CGet lru_exec_def spec_exec_def lru_Get_def lru_Get_impl_def Let_def)
    qed
  next
    case (CPrioritize k)
    then show thesis
      using assms K abs_touch [OF assms]
      by (intro that [of "if map_of es k = None then l else touch k l"])
        (auto simp: lru_exec_def spec_exec_def Prioritize_def split: option.splits)
  next
    case (CUpdate k v)
    then show thesis using assms K
      by (intro that [of l]) (auto simp: lru_exec_def spec_exec_def lru_Update_def lru_Update_impl_def)
  next
    case (CUpdateSilently k v)
    then show thesis using assms K
      by (intro that [of l]) (auto simp: lru_exec_def spec_exec_def lru_UpdateSilently_def lru_Update_impl_def)
  next
    case (CGetSilently k)
    then show thesis using assms K V
      by (intro that [of l]) (auto simp: lru_exec_def spec_exec_def lru_GetSilently_def lru_Get_impl_def)
  next
    case CClear
    then show thesis
      by (intro that [of "lru_Clear l"]) (simp_all add: lru_exec_def spec_exec_def abs_Clear, simp add: lru_Clear_def lru_Init_def)
  qed
qed

section \<open>Any sequence of commands\<close>

fun spec_all :: "nat \<Rightarrow> ('k, 'v) lru_cmd list \<Rightarrow> ('k \<times> 'v) list \<Rightarrow> ('k, 'v) lru_answer list \<times> ('k \<times> 'v) list" where
  "spec_all cap [] es = ([], es)"
| "spec_all cap (c # cs) es =
     (case spec_exec cap c es of (a, es1) \<Rightarrow> (case spec_all cap cs es1 of (as, es2) \<Rightarrow> (a # as, es2)))"

lemma exec_all_refines:
  assumes "lru_abs l es"
  shows "\<exists>l'. exec_all lru_exec cs l = Some (fst (spec_all (unat (lru_capacity l)) cs es), l') \<and>
    lru_abs l' (snd (spec_all (unat (lru_capacity l)) cs es))"
  using assms
proof (induction cs arbitrary: l es)
  case (Cons c cs)
  obtain a es1 where s: "spec_exec (unat (lru_capacity l)) c es = (a, es1)" by fastforce
  obtain l1 where "lru_exec c l = Some (a, l1)" "lru_abs l1 es1" "lru_capacity l1 = lru_capacity l"
    using lru_exec_refines [OF Cons.prems, of c] unfolding s by auto
  then show ?case using Cons.IH [of l1 es1] by (auto simp: s split: prod.splits)
qed simp

lemma to_front_length: "distinct (map fst es) \<Longrightarrow> map_of es k \<noteq> None \<Longrightarrow> length (to_front k v es) = length es"
proof -
  assume a: "distinct (map fst es)" "map_of es k \<noteq> None"
  then have l: "length (remove1 k (map fst es)) = length es - 1" and ne: "es \<noteq> []"
    by (auto simp: length_remove1 map_of_eq_None_iff)
  from l have "length (filter (\<lambda>e. fst e \<noteq> k) es) = length es - 1"
    by (simp only: remove1_keys [OF a(1)] length_map)
  moreover have "0 < length es" using ne by simp
  ultimately show ?thesis unfolding to_front_def list.size(4) by linarith
qed

lemma spec_exec_bound:
  assumes "length es \<le> max 1 cap" "distinct (map fst es)"
  shows "length (snd (spec_exec cap c es)) \<le> max 1 cap"
proof -
  have "length (to_front k v es) = length es" if "map_of es k = Some w" for k v w
    using to_front_length [OF assms(2)] that by simp
  then show ?thesis using assms(1) by (cases c) (auto simp: spec_exec_def push_def split: option.splits)
qed

lemma spec_all_bound:
  assumes "lru_abs l es" "length es \<le> max 1 (unat (lru_capacity l))"
  shows "length (snd (spec_all (unat (lru_capacity l)) cs es)) \<le> max 1 (unat (lru_capacity l))"
  using assms
proof (induction cs arbitrary: l es)
  case (Cons c cs)
  obtain a es1 where s: "spec_exec (unat (lru_capacity l)) c es = (a, es1)" by fastforce
  obtain l1 where l1: "lru_abs l1 es1" "lru_capacity l1 = lru_capacity l"
    using lru_exec_refines [OF Cons.prems(1), of c] unfolding s by auto
  have "distinct (map fst es)" using Cons.prems(1) by (simp add: lru_abs_def lru_inv_def)
  from spec_exec_bound [OF Cons.prems(2) this, of c] have "length es1 \<le> max 1 (unat (lru_capacity l))"
    by (simp add: s)
  then show ?case using Cons.IH [OF l1(1)] by (simp add: s l1(2) split: prod.splits) (metis snd_conv)
qed simp


section \<open>Remove\<close>

text \<open>
  \<open>Remove\<close> unlinks the node and lowers the size but leaves it in the map: the key is still
  contained, and \<open>Get\<close> links its node again, with the size one too low from then on.
\<close>

lemma Remove_inv:
  assumes "lru_inv l ks zs" "k \<in> set ks"
  shows "lru_Remove k l = (True, Detach (Elem k) l)"
    and "lru_inv (Detach (Elem k) l) (remove1 k ks) (insert k zs)"
    and "payload (Detach (Elem k) l) = payload l"
proof -
  obtain as bs where s: "ks = as @ k # bs" "k \<notin> set as" using assms(2) by (meson split_list_first)
  show "lru_inv (Detach (Elem k) l) (remove1 k ks) (insert k zs)"
    using Detach_inv(1) [OF assms(1) [unfolded s(1)]] by (simp add: s remove1_append)
  show "lru_Remove k l = (True, Detach (Elem k) l)"
    using lru_Contains_iff [OF assms(1)] assms(2) by (simp add: lru_Remove_def)
qed simp

theorem removed_key_is_still_found:
  assumes "lru_abs l es" "map_of es k = Some v" "lru_Remove k l = (b, l')"
  shows "b \<and> unat (lru_size l') = length es - 1 \<and> lru_Contains l' k \<and> fst (lru_GetSilently k l') = Some v \<and>
    fst (lru_Remove k l')"
proof -
  have i: "lru_inv l (map fst es) {}" using assms(1) by (simp add: lru_abs_def)
  have k: "k \<in> set (map fst es)" using assms(2) by (metis domI dom_map_of_conv_image_fst list.set_map)
  note r = Remove_inv [OF i k]
  have l': "b" "l' = Detach (Elem k) l" using assms(3) r(1) by auto
  have "payload l k = Some (k, v)" using assms by (simp add: lru_abs_def)
  then have "payload l' k = Some (k, v)" by (simp only: l'(2) r(3))
  then have "map_option n_val (lru_map l' k) = Some v" by (auto simp: payload_def)
  moreover have "length (remove1 k (map fst es)) = length es - 1" using k by (simp add: length_remove1)
  ultimately show ?thesis
    using unat_lru_size [OF r(2)] l' lru_Contains_iff [OF r(2), of k]
    by (auto simp: lru_GetSilently_def lru_Get_impl_def lru_Remove_def)
qed

text \<open>Removing a key twice makes the size wrap around; the second insertion after that crashes.\<close>

definition lru_put_all :: "(nat \<times> nat) list \<Rightarrow> (nat, nat) lru \<Rightarrow> (nat, nat) lru option" where
  "lru_put_all kvs l = foldl (\<lambda>o' (k, v). Option.bind o' (\<lambda>l. map_option (snd \<circ> snd) (lru_Put k v l))) (Some l) kvs"

lemma removing_twice_breaks_the_cache:
  "let l = snd (lru_Remove 1 (snd (lru_Remove 1 (the (lru_put_all [(1, 10)] (LRUCache 0 0 2)))))) in
   lru_size l = - 1 \<and> lru_put_all [(2, 20)] l \<noteq> None \<and> lru_put_all [(2, 20), (3, 30)] l = None"
  by (simp add: lru_put_all_def lru_Put_def lru_Update_impl_def lru_Contains_def lru_Full_def LRUCache_def lru_Init_def
      GetObsolete_def Node_def Detach_def Attach_def set_prev_def set_next_def update_at_def prev_of_def next_of_def
      node_at_def lru_Remove_def word_gt_0 ex_bool_eq)


end
