(* ===== verification/MapNodeCache.thy ===== *)
theory MapNodeCache
  imports LruCache
begin

text \<open>
  The cache of map nodes over the least-recently-used cache,
  \<open>modules/localization/msf/common/util/base_map_cache.h\<close>. Elements are pointers, here addresses
  of a heap of nodes; the destroy functions read or change the reserved flag of the element they
  are asked about. The outer \<open>None\<close> is a null pointer followed.
\<close>

section \<open>Nodes and destroy functions\<close>

text \<open>The state of a \<open>BaseMapNode\<close> the caches and the pool use; the map data itself is left out.\<close>

record 'i map_node =
  node_index :: 'i
  is_changed :: bool
  data_is_ready :: bool
  is_reserved :: bool

type_synonym 'i node_heap = "nat \<Rightarrow> 'i map_node"

definition SetIsReserved :: "nat \<Rightarrow> bool \<Rightarrow> 'i node_heap \<Rightarrow> 'i node_heap" where
  "SetIsReserved n b h = h(n := (h n)\<lparr>is_reserved := b\<rparr>)"

definition CacheL1Destroy :: "nat \<Rightarrow> 'i node_heap \<Rightarrow> bool \<times> 'i node_heap" where
  "CacheL1Destroy n h = (True, SetIsReserved n False h)"

definition CacheL2Destroy :: "nat \<Rightarrow> 'i node_heap \<Rightarrow> bool \<times> 'i node_heap" where
  "CacheL2Destroy n h = (\<not> is_reserved (h n), h)"

type_synonym ('e, 'h) destroy_func = "'e \<Rightarrow> 'h \<Rightarrow> bool \<times> 'h"

section \<open>The operations\<close>

definition cache_Get :: "'k \<Rightarrow> ('k, 'e) lru \<Rightarrow> 'e option \<times> ('k, 'e) lru" where
  "cache_Get k c = lru_Get k c"

definition cache_GetSilent :: "'k \<Rightarrow> ('k, 'e) lru \<Rightarrow> 'e option \<times> ('k, 'e) lru" where
  "cache_GetSilent k c = lru_GetSilently k c"

text \<open>\<open>Put\<close> returns the element that left: the old one of the key, the last one, or the new one.\<close>

definition cache_Put ::
  "('e, 'h) destroy_func \<Rightarrow> 'k \<Rightarrow> 'e option \<Rightarrow> ('k, 'e) lru \<Rightarrow> 'h \<Rightarrow> ('e option \<times> ('k, 'e) lru \<times> 'h) option"
where
  "cache_Put destroy k value c h =
     (case value of
        None \<Rightarrow> Some (None, c, h)
      | Some v \<Rightarrow>
          (case lru_Get k c of
             (Some old, c1) \<Rightarrow>
               (case destroy old h of
                  (True, h1) \<Rightarrow> Some (Some old, update_at (Elem k) (\<lambda>n. n\<lparr>n_val := v\<rparr>) c1, h1)
                | (False, h1) \<Rightarrow> Some (Some v, c1, h1))
           | (None, c1) \<Rightarrow>
               if lru_size c1 \<ge> lru_capacity c1 then
                 (case Option.bind (Last c1) (node_at c1) of
                    None \<Rightarrow> None
                  | Some node \<Rightarrow>
                      map_option (\<lambda>(_, _, c2). (Some (n_val node), c2, h)) (PutAndGetObsolete k v c1))
               else map_option (\<lambda>(_, _, c2). (None, c2, h)) (lru_Put k v c1)))"

definition cache_Remove :: "'k \<Rightarrow> ('k, 'e) lru \<Rightarrow> 'e option \<times> ('k, 'e) lru" where
  "cache_Remove k c =
     (case lru_GetSilently k c of
        (Some e, c1) \<Rightarrow> (case lru_Remove k c1 of (b, c2) \<Rightarrow> (if b then Some e else None, c2))
      | (None, c1) \<Rightarrow> (None, c1))"

text \<open>
  \<open>ClearOne\<close> walks from the last node towards the first and removes the first one the destroy
  function releases. The walk follows pointers, so that it ends is proved, not assumed.
\<close>

partial_function (option) ClearOne_loop ::
  "('e, 'h) destroy_func \<Rightarrow> 'k ref \<Rightarrow> ('k, 'e) lru \<Rightarrow> 'h \<Rightarrow> ('e option \<times> ('k, 'e) lru \<times> 'h) option"
where
  "ClearOne_loop destroy r c h =
     (case node_at c r of
        None \<Rightarrow> None
      | Some n \<Rightarrow>
          (case destroy (n_val n) h of
             (released, h1) \<Rightarrow>
               if released then Some (Some (n_val n), snd (lru_Remove (n_key n) c), h1)
               else if Some r = First c then Some (None, c, h1)
               else (case n_prev n of None \<Rightarrow> None | Some p \<Rightarrow> ClearOne_loop destroy p c h1)))"

definition ClearOne :: "('e, 'h) destroy_func \<Rightarrow> ('k, 'e) lru \<Rightarrow> 'h \<Rightarrow> ('e option \<times> ('k, 'e) lru \<times> 'h) option" where
  "ClearOne destroy c h =
     (case Last c of None \<Rightarrow> Some (None, c, h) | Some r \<Rightarrow> ClearOne_loop destroy r c h)"

definition IsExist :: "'k \<Rightarrow> ('k, 'e) lru \<Rightarrow> bool \<times> ('k, 'e) lru" where
  "IsExist k c = Prioritize k c"

definition cache_ChangeCapacity :: "u64 \<Rightarrow> ('k, 'e) lru \<Rightarrow> bool \<times> ('k, 'e) lru" where
  "cache_ChangeCapacity capacity c = ChangeCapacity capacity c"

definition cache_Size :: "('k, 'e) lru \<Rightarrow> u32" where
  "cache_Size c = ucast (lru_size c)"

definition cache_Capacity :: "('k, 'e) lru \<Rightarrow> u32" where
  "cache_Capacity c = ucast (lru_capacity c)"

section \<open>Putting\<close>

lemma abs_Get:
  assumes "lru_abs c es"
  shows "fst (lru_Get k c) = map_of es k" and "map_of es k = None \<Longrightarrow> snd (lru_Get k c) = c"
    and "map_of es k = Some v \<Longrightarrow> lru_abs (snd (lru_Get k c)) (to_front k v es)"
    and "lru_capacity (snd (lru_Get k c)) = lru_capacity c"
proof -
  show "fst (lru_Get k c) = map_of es k"
  proof (cases "map_of es k")
    case None
    then show ?thesis using abs_Contains [OF assms, of k] by (simp add: lru_Get_def lru_Get_impl_def)
  next
    case (Some v)
    have "map_option n_val (lru_map (touch k c) k) = Some v"
      using abs_val [OF abs_touch [OF assms Some], of k] by (simp add: to_front_def)
    then show ?thesis using abs_Contains [OF assms, of k] Some by (auto simp: lru_Get_def lru_Get_impl_def Let_def)
  qed
qed (use abs_Contains [OF assms, of k] abs_touch [OF assms, of k v] in \<open>simp_all add: lru_Get_def lru_Get_impl_def Let_def\<close>)

lemma abs_set_val:
  assumes "lru_abs c ((k, w) # es)"
  shows "lru_abs (update_at (Elem k) (\<lambda>n. n\<lparr>n_val := v\<rparr>) c) ((k, v) # es)"
proof -
  have i: "lru_inv c (map fst ((k, w) # es)) {}" "payload c = (\<lambda>j. map_option (Pair j) (map_of ((k, w) # es) j))"
    using assms by (simp_all only: lru_abs_def)
  have "k \<in> set (map fst ((k, w) # es))" by simp
  note s = set_val_inv [OF i(1) this, of v]
  then show ?thesis unfolding lru_abs_def s(2) i(2) by (auto simp: fun_eq_iff)
qed

text \<open>Evicting from a full cache takes the last entry, reserved or not.\<close>

definition put_spec :: "('e, 'h) destroy_func \<Rightarrow> nat \<Rightarrow> 'k \<Rightarrow> 'e \<Rightarrow> ('k \<times> 'e) list \<Rightarrow> 'h \<Rightarrow> 'e option \<times> ('k \<times> 'e) list \<times> 'h" where
  "put_spec destroy cap k v es h =
     (case map_of es k of
        Some old \<Rightarrow>
          (case destroy old h of
             (True, h1) \<Rightarrow> (Some old, to_front k v es, h1)
           | (False, h1) \<Rightarrow> (Some v, to_front k old es, h1))
      | None \<Rightarrow>
          if cap \<le> length es then (Some (snd (last es)), (k, v) # butlast es, h) else (None, (k, v) # es, h))"

lemma cache_Put_spec:
  assumes "lru_abs c es" "0 < unat (lru_capacity c)"
  obtains c' where
    "cache_Put destroy k (Some v) c h =
       (case put_spec destroy (unat (lru_capacity c)) k v es h of (r, es', h') \<Rightarrow> Some (r, c', h'))"
    "lru_abs c' (fst (snd (put_spec destroy (unat (lru_capacity c)) k v es h)))" "lru_capacity c' = lru_capacity c"
proof (cases "map_of es k")
  case (Some old)
  note g = abs_Get [OF assms(1), of k]
  obtain c1 where c1: "lru_Get k c = (Some old, c1)" using g(1) Some by (metis prod.collapse)
  have a: "lru_abs c1 (to_front k old es)" "lru_capacity c1 = lru_capacity c" using g(3) [of old] g(4) Some c1 by simp_all
  obtain d h1 where d: "destroy old h = (d, h1)" by fastforce
  show thesis
  proof (cases d)
    case True
    have "lru_abs (update_at (Elem k) (\<lambda>n. n\<lparr>n_val := v\<rparr>) c1) (to_front k v es)"
      using abs_set_val [of c1 k old _ v] a(1) by (simp add: to_front_def)
    then show thesis
      using a(2) d True by (intro that [of "update_at (Elem k) (\<lambda>n. n\<lparr>n_val := v\<rparr>) c1"]) (simp_all add: cache_Put_def put_spec_def c1 Some)
  next
    case False
    then show thesis using a d by (intro that [of c1]) (simp_all add: cache_Put_def put_spec_def c1 Some)
  qed
next
  case None
  note g = abs_Get [OF assms(1), of k]
  have c1: "lru_Get k c = (None, c)" using g(1,2) None by (metis prod.collapse)
  have i: "lru_inv c (map fst es) {}" using assms(1) by (simp add: lru_abs_def)
  have f: "lru_size c \<ge> lru_capacity c \<longleftrightarrow> unat (lru_capacity c) \<le> length es"
    using unat_lru_size [OF i] by (simp add: word_le_nat_alt)
  obtain obs es' where p: "push (unat (lru_capacity c)) k v es = (obs, es')" by fastforce
  obtain c2 where c2: "lru_Update_impl k v False False c = Some (True, obs, c2)" "lru_abs c2 es'" "lru_capacity c2 = lru_capacity c"
    by (rule abs_push [OF assms(1) None p])
  show thesis
  proof (cases "unat (lru_capacity c) \<le> length es")
    case True
    then have ne: "es \<noteq> []" using assms(2) by auto
    then have l: "Last c = Some (Elem (fst (last es)))" using Last_eq [OF i] by (simp add: last_map)
    have "map_of es (fst (last es)) = Some (snd (last es))"
      using ne i by (simp add: lru_inv_def map_of_eq_Some_iff)
    then obtain n where n: "lru_map c (fst (last es)) = Some n" "n_val n = snd (last es)"
      using abs_val [OF assms(1), of "fst (last es)"] by auto
    show thesis
      using c2 p True f ne
      by (intro that [of c2]) (auto simp: cache_Put_def put_spec_def c1 None l node_at_def n PutAndGetObsolete_def push_def)
  next
    case False
    show thesis
      using c2 p False f by (intro that [of c2]) (auto simp: cache_Put_def put_spec_def c1 None lru_Put_def push_def)
  qed
qed

section \<open>Clearing one\<close>

abbreviation val_of :: "('k, 'e) lru \<Rightarrow> 'k \<Rightarrow> 'e" where
  "val_of c k \<equiv> n_val (the (lru_map c k))"

lemma node_of_key:
  assumes "lru_inv c ks zs" "k \<in> set ks \<union> zs"
  obtains n where "lru_map c k = Some n" "n_key n = k" "n_val n = val_of c k"
  using assms unfolding lru_inv_def payload_def by fastforce

lemma prev_in_list:
  assumes "lru_inv c (as @ k # bs) zs"
  shows "prev_of c (Elem k) = Some (if as = [] then Head else Elem (last as))"
proof -
  have l: "linked (next_of c) (prev_of c) (chain (as @ k # bs))" using assms by (simp add: lru_inv_def)
  have "chain (as @ k # bs) = butlast (Head # map Elem as) @ last (Head # map Elem as) # Elem k # (map Elem bs @ [Tail])"
    using append_butlast_last_id [of "Head # map Elem as"]
    by (metis append.assoc append_Cons append_Nil list.simps(3,9) map_append)
  then have "prev_of c (Elem k) = Some (last (Head # map Elem as))"
    using l linked_append [of "next_of c" "prev_of c" _ "last (Head # map Elem as)"] by (metis linked.simps(1))
  then show ?thesis by (simp add: last_map)
qed

text \<open>
  The walk of the level 2 cache ends: it removes the least recently used node that is not
  reserved, if there is one.
\<close>

lemma ClearOne_loop_spec:
  assumes "lru_inv c (as @ k # bs) zs"
  shows "ClearOne_loop CacheL2Destroy (Elem k) c h =
    (case find (\<lambda>j. \<not> is_reserved (h (val_of c j))) (rev (as @ [k])) of
       None \<Rightarrow> Some (None, c, h)
     | Some j \<Rightarrow> Some (Some (val_of c j), Detach (Elem j) c, h))"
  using assms
proof (induction as arbitrary: k bs rule: rev_induct)
  case Nil
  then obtain n where n: "lru_map c k = Some n" "n_key n = k" "n_val n = val_of c k"
    using node_of_key [of c "[] @ k # bs" zs k] by auto
  have "First c = Some (Elem k)" using First_eq [OF Nil.prems] by simp
  moreover have "lru_Contains c k" using lru_Contains_iff [OF Nil.prems] by simp
  ultimately show ?case
    using n by (subst ClearOne_loop.simps) (simp add: node_at_def CacheL2Destroy_def lru_Remove_def)
next
  case (snoc j as)
  then obtain n where n: "lru_map c k = Some n" "n_key n = k" "n_val n = val_of c k"
    using node_of_key [of c "(as @ [j]) @ k # bs" zs k] by auto
  have "First c \<noteq> Some (Elem k)"
    using First_eq [OF snoc.prems] snoc.prems by (cases as) (auto simp: lru_inv_def)
  moreover have "lru_Contains c k" using lru_Contains_iff [OF snoc.prems] by simp
  moreover have "n_prev n = Some (Elem j)"
    using prev_in_list [OF snoc.prems] n(1) by (simp add: prev_of_def node_at_def)
  moreover have "ClearOne_loop CacheL2Destroy (Elem j) c h =
    (case find (\<lambda>j. \<not> is_reserved (h (val_of c j))) (rev (as @ [j])) of
       None \<Rightarrow> Some (None, c, h)
     | Some j \<Rightarrow> Some (Some (val_of c j), Detach (Elem j) c, h))"
    using snoc.IH [of j "k # bs"] snoc.prems by simp
  ultimately show ?case
    using n by (subst ClearOne_loop.simps) (simp add: node_at_def CacheL2Destroy_def lru_Remove_def)
qed

lemma ClearOne_spec:
  assumes "lru_abs c es"
  shows "ClearOne CacheL2Destroy c h =
    (case find (\<lambda>e. \<not> is_reserved (h (snd e))) (rev es) of
       None \<Rightarrow> Some (None, c, h)
     | Some e \<Rightarrow> Some (Some (snd e), Detach (Elem (fst e)) c, h))"
proof (cases "es = []")
  case True
  then show ?thesis using assms Last_eq [of c "[]" "{}"] by (simp add: ClearOne_def lru_abs_def)
next
  case False
  have i: "lru_inv c (map fst es) {}" using assms by (simp add: lru_abs_def)
  have d: "distinct (map fst es)" using i by (simp add: lru_inv_def)
  have v: "val_of c (fst e) = snd e" if "e \<in> set es" for e
  proof -
    have "map_of es (fst e) = Some (snd e)" using d that by (simp add: map_of_eq_Some_iff)
    then have "map_option n_val (lru_map c (fst e)) = Some (snd e)" by (simp only: abs_val [OF assms])
    then show ?thesis by (auto simp del: not_None_eq)
  qed
  have f: "find (\<lambda>j. \<not> is_reserved (h (val_of c j))) (map fst xs) =
    map_option fst (find (\<lambda>e. \<not> is_reserved (h (snd e))) xs)" if "set xs \<subseteq> set es" for xs
    using that v by (induction xs) auto
  have mem: "e \<in> set es" if "find (\<lambda>e. \<not> is_reserved (h (snd e))) (rev es) = Some e" for e
    using that by (metis find_Some_iff nth_mem set_rev)
  have s: "map fst es = butlast (map fst es) @ last (map fst es) # []" using False by simp
  have "ClearOne CacheL2Destroy c h = ClearOne_loop CacheL2Destroy (Elem (last (map fst es))) c h"
    using Last_eq [OF i] False by (simp add: ClearOne_def)
  also have "\<dots> = (case find (\<lambda>j. \<not> is_reserved (h (val_of c j))) (map fst (rev es)) of
       None \<Rightarrow> Some (None, c, h)
     | Some j \<Rightarrow> Some (Some (val_of c j), Detach (Elem j) c, h))"
  proof -
    have i2: "lru_inv c (butlast (map fst es) @ last (map fst es) # []) {}" using i s by simp
    have "butlast (map fst es) @ [last (map fst es)] = map fst es" using s by simp
    then show ?thesis using ClearOne_loop_spec [OF i2, of h] by (simp only: rev_map)
  qed
  also have "\<dots> = (case find (\<lambda>e. \<not> is_reserved (h (snd e))) (rev es) of
       None \<Rightarrow> Some (None, c, h)
     | Some e \<Rightarrow> Some (Some (snd e), Detach (Elem (fst e)) c, h))"
    using f [of "rev es"] v mem by (auto split: option.splits)
  finally show ?thesis .
qed

end
