(* ===== verification/BaseMap.thy ===== *)
theory BaseMap
  imports MapNodeCache "HOL-Library.Multiset"
begin

text \<open>
  The tiled localization map, \<open>base_map.cc\<close>, and its pool of nodes, \<open>base_map_pool.cc\<close>, both of
  \<open>modules/localization/msf/local_pyramid_map/base_map\<close>. Two caches of node addresses: level 1 holds
  the nodes in use, level 2 everything in memory; nodes come from the pool and go back to it
  through an asynchronous task. Asynchronous tasks wait in lists of the state and run as steps of
  their own; what the disk holds for an index is an argument. The outer \<open>None\<close> of a result is a null
  pointer followed, an exception thrown by a task, or a loop that never ends.
\<close>

section \<open>Nodes on disk\<close>

datatype disk_entry = NoDirectory | NoFile | File bool \<comment> \<open>whether the file is read without error\<close>

text \<open>\<open>BaseMapNode::Load\<close>: the directories are checked before the ready flag is cleared.\<close>

definition Node_Load :: "disk_entry \<Rightarrow> 'i map_node \<Rightarrow> bool \<times> 'i map_node" where
  "Node_Load d n =
     (case d of
        NoDirectory \<Rightarrow> (False, n)
      | NoFile \<Rightarrow> (False, n\<lparr>data_is_ready := False\<rparr>)
      | File success \<Rightarrow> (success, n\<lparr>is_changed := False, data_is_ready := success\<rparr>))"

text \<open>\<open>Finalize\<close> saves a changed node; whether the file could be opened is the argument.\<close>

definition Node_Finalize :: "bool \<Rightarrow> 'i map_node \<Rightarrow> 'i map_node" where
  "Node_Finalize opened n = (if is_changed n \<and> opened then n\<lparr>is_changed := False\<rparr> else n)"

definition ResetMapNode :: "'i map_node \<Rightarrow> 'i map_node" where
  "ResetMapNode n = n\<lparr>is_changed := False, data_is_ready := False, is_reserved := False\<rparr>"

section \<open>The pool\<close>

record 'i base_map =
  lvl1 :: "('i, nat) lru"
  lvl2 :: "('i, nat) lru"
  nodes :: "'i node_heap"
  pool_size :: nat
  is_fixed_size :: bool
  free_list :: "nat list"
  busy_nodes :: "nat set"
  frees :: "nat list"      \<comment> \<open>nodes whose \<open>FreeMapNodeTask\<close> has not run, in the order of the calls\<close>
  preloading :: "'i set"
  loads :: "'i list"       \<comment> \<open>preloading tasks that have not run\<close>

definition Pool_Initial :: "nat \<Rightarrow> bool \<Rightarrow> 'i base_map \<Rightarrow> 'i base_map" where
  "Pool_Initial sz fixed m =
     m\<lparr>pool_size := sz, is_fixed_size := fixed, free_list := [0..<sz], busy_nodes := {}, frees := []\<rparr>"

text \<open>\<open>FreeMapNodeTask\<close> throws when the node is not busy.\<close>

definition FreeMapNodeTask :: "nat \<Rightarrow> 'i base_map \<Rightarrow> 'i base_map option" where
  "FreeMapNodeTask n m =
     (let m1 = m\<lparr>nodes := (nodes m)(n := ResetMapNode (Node_Finalize True (nodes m n)))\<rparr> in
      if n \<in> busy_nodes m1 then Some (m1\<lparr>free_list := free_list m1 @ [n], busy_nodes := busy_nodes m1 - {n}\<rparr>)
      else None)"

definition FreeMapNode :: "nat \<Rightarrow> 'i base_map \<Rightarrow> 'i base_map" where
  "FreeMapNode n m = m\<lparr>frees := frees m @ [n]\<rparr>"

text \<open>A task thread runs one of the waiting free tasks.\<close>

definition run_free :: "nat \<Rightarrow> 'i base_map \<Rightarrow> 'i base_map option" where
  "run_free i m =
     (if i < length (frees m) then
        FreeMapNodeTask (frees m ! i) (m\<lparr>frees := take i (frees m) @ drop (Suc i) (frees m)\<rparr>)
      else Some m)"

text \<open>
  \<open>AllocMapNode\<close> waits for the last free task when the list is empty. A pool that is not fixed
  grows by a new node.
\<close>

definition AllocMapNode :: "'i base_map \<Rightarrow> (nat option \<times> 'i base_map) option" where
  "AllocMapNode m =
     (case (if free_list m = [] \<and> frees m \<noteq> [] then run_free (length (frees m) - 1) m else Some m) of
        None \<Rightarrow> None
      | Some m1 \<Rightarrow>
          (case free_list m1 of
             [] \<Rightarrow>
               if is_fixed_size m1 then Some (None, m1)
               else Some (Some (pool_size m1),
                      m1\<lparr>pool_size := pool_size m1 + 1, busy_nodes := insert (pool_size m1) (busy_nodes m1)\<rparr>)
           | n # ns \<Rightarrow> Some (Some n, m1\<lparr>free_list := ns, busy_nodes := insert n (busy_nodes m1)\<rparr>)))"

section \<open>The map\<close>

definition InitMapNodeCaches :: "'i \<Rightarrow> u64 \<Rightarrow> u64 \<Rightarrow> 'i base_map \<Rightarrow> 'i base_map" where
  "InitMapNodeCaches di cacheL1_size cacheL2_size m =
     m\<lparr>lvl1 := LRUCache di 0 cacheL1_size, lvl2 := LRUCache di 0 cacheL2_size\<rparr>"

definition GetMapNode :: "'i \<Rightarrow> 'i base_map \<Rightarrow> nat option \<times> 'i base_map" where
  "GetMapNode i m = (case cache_Get i (lvl1 m) of (n, c) \<Rightarrow> (n, m\<lparr>lvl1 := c\<rparr>))"

definition put1 :: "'i \<Rightarrow> nat option \<Rightarrow> 'i base_map \<Rightarrow> 'i base_map option" where
  "put1 i n m =
     map_option (\<lambda>(_, c, h). m\<lparr>lvl1 := c, nodes := h\<rparr>) (cache_Put CacheL1Destroy i n (lvl1 m) (nodes m))"

text \<open>The loop that waits for a node, clearing the level 2 cache while the pool has none.\<close>

partial_function (option) alloc_loop :: "'i base_map \<Rightarrow> (nat \<times> 'i base_map) option" where
  "alloc_loop m =
     (case AllocMapNode m of
        None \<Rightarrow> None
      | Some (r, m1) \<Rightarrow>
          (case r of
             Some n \<Rightarrow> Some (n, m1)
           | None \<Rightarrow>
               (case ClearOne CacheL2Destroy (lvl2 m1) (nodes m1) of
                  None \<Rightarrow> None
                | Some (removed, c, h) \<Rightarrow>
                    alloc_loop
                      (let m2 = m1\<lparr>lvl2 := c, nodes := h\<rparr> in
                       case removed of None \<Rightarrow> m2 | Some n \<Rightarrow> FreeMapNode n m2))))"

definition LoadMapNodeThreadSafety :: "('i \<Rightarrow> disk_entry) \<Rightarrow> 'i \<Rightarrow> bool \<Rightarrow> 'i base_map \<Rightarrow> 'i base_map option" where
  "LoadMapNodeThreadSafety disk i reserved m =
     (case alloc_loop m of
        None \<Rightarrow> None
      | Some (n, m1) \<Rightarrow>
          let node = (snd (Node_Load (disk i) ((nodes m1 n)\<lparr>node_index := i\<rparr>)))\<lparr>is_reserved := reserved\<rparr>;
              m2 = m1\<lparr>nodes := (nodes m1)(n := node)\<rparr> in
          (case cache_Put CacheL2Destroy i (Some n) (lvl2 m2) (nodes m2) of
             None \<Rightarrow> None
           | Some (removed, c, h) \<Rightarrow>
               let m3 = m2\<lparr>lvl2 := c, nodes := h, preloading := preloading m2 - {i}\<rparr> in
               Some (case removed of None \<Rightarrow> m3 | Some r \<Rightarrow> FreeMapNode r m3)))"

definition GetMapNodeSafe :: "('i \<Rightarrow> disk_entry) \<Rightarrow> 'i \<Rightarrow> 'i base_map \<Rightarrow> (nat option \<times> 'i base_map) option" where
  "GetMapNodeSafe disk i m =
     (case cache_Get i (lvl1 m) of
        (Some n, c) \<Rightarrow> Some (Some n, m\<lparr>lvl1 := c\<rparr>)
      | (None, c) \<Rightarrow>
          let m1 = m\<lparr>lvl1 := c\<rparr> in
          (case cache_Get i (lvl2 m1) of
             (Some n, c2) \<Rightarrow>
               map_option (Pair (Some n)) (put1 i (Some n) (m1\<lparr>lvl2 := c2, nodes := SetIsReserved n True (nodes m1)\<rparr>))
           | (None, c2) \<Rightarrow>
               (case LoadMapNodeThreadSafety disk i True (m1\<lparr>lvl2 := c2\<rparr>) of
                  None \<Rightarrow> None
                | Some m2 \<Rightarrow>
                    (case cache_Get i (lvl2 m2) of
                       (n, c3) \<Rightarrow> map_option (Pair n) (put1 i n (m2\<lparr>lvl2 := c3\<rparr>))))))"

definition IsMapNodeExist :: "'i \<Rightarrow> 'i base_map \<Rightarrow> bool \<times> 'i base_map" where
  "IsMapNodeExist i m = (case IsExist i (lvl1 m) of (b, c) \<Rightarrow> (b, m\<lparr>lvl1 := c\<rparr>))"

text \<open>The first loop of \<open>LoadMapNodes\<close>: what level 1 has is used in both levels and left out.\<close>

fun refresh_used :: "'i list \<Rightarrow> 'i base_map \<Rightarrow> 'i list \<times> 'i base_map" where
  "refresh_used [] m = ([], m)"
| "refresh_used (i # is) m =
     (case IsExist i (lvl1 m) of
        (True, c) \<Rightarrow> refresh_used is (m\<lparr>lvl1 := c, lvl2 := snd (IsExist i (lvl2 m))\<rparr>)
      | (False, c) \<Rightarrow> (case refresh_used is (m\<lparr>lvl1 := c\<rparr>) of (rest, m1) \<Rightarrow> (i # rest, m1)))"

fun CheckAndUpdateCache :: "'i list \<Rightarrow> 'i base_map \<Rightarrow> ('i list \<times> 'i base_map) option" where
  "CheckAndUpdateCache [] m = Some ([], m)"
| "CheckAndUpdateCache (i # is) m =
     (case cache_Get i (lvl2 m) of
        (Some n, c) \<Rightarrow>
          Option.bind (put1 i (Some n) (m\<lparr>lvl2 := c, nodes := SetIsReserved n True (nodes m)\<rparr>)) (CheckAndUpdateCache is)
      | (None, c) \<Rightarrow> map_option (\<lambda>(rest, m1). (i # rest, m1)) (CheckAndUpdateCache is (m\<lparr>lvl2 := c\<rparr>)))"

fun load_all :: "('i \<Rightarrow> disk_entry) \<Rightarrow> bool \<Rightarrow> 'i list \<Rightarrow> 'i base_map \<Rightarrow> 'i base_map option" where
  "load_all disk reserved [] m = Some m"
| "load_all disk reserved (i # is) m = Option.bind (LoadMapNodeThreadSafety disk i reserved m) (load_all disk reserved is)"

text \<open>
  \<open>LoadMapNodes\<close>. The set of indices is given as the sorted list its iterator follows. The loading
  tasks it waits for run here in the order they were started.
\<close>

definition LoadMapNodes :: "('i \<Rightarrow> disk_entry) \<Rightarrow> 'i list \<Rightarrow> 'i base_map \<Rightarrow> 'i base_map option" where
  "LoadMapNodes disk ids m =
     (if length ids > unat (cache_Capacity (lvl1 m)) then Some m
      else
        case refresh_used ids m of
          (ids1, m1) \<Rightarrow>
            Option.bind (CheckAndUpdateCache ids1 m1)
              (\<lambda>(ids2, m2). Option.bind (load_all disk True ids2 m2)
                (\<lambda>m3. map_option snd (CheckAndUpdateCache ids2 m3))))"

fun refresh_loaded :: "'i list \<Rightarrow> 'i base_map \<Rightarrow> 'i list \<times> 'i base_map" where
  "refresh_loaded [] m = ([], m)"
| "refresh_loaded (i # is) m =
     (case IsExist i (lvl2 m) of
        (found, c) \<Rightarrow>
          (case refresh_loaded is (m\<lparr>lvl2 := c\<rparr>) of (rest, m1) \<Rightarrow> (if found then rest else i # rest, m1)))"

definition PreloadMapNodes :: "'i list \<Rightarrow> 'i base_map \<Rightarrow> 'i base_map" where
  "PreloadMapNodes ids m =
     (if length ids > unat (cache_Capacity (lvl2 m)) then m
      else
        case refresh_loaded ids m of
          (ids1, m1) \<Rightarrow>
            let ids2 = filter (\<lambda>i. i \<notin> preloading m1) ids1 in
            m1\<lparr>preloading := preloading m1 \<union> set ids2, loads := loads m1 @ ids2\<rparr>)"

text \<open>A task thread runs one of the preloading tasks.\<close>

definition run_load :: "('i \<Rightarrow> disk_entry) \<Rightarrow> nat \<Rightarrow> 'i base_map \<Rightarrow> 'i base_map option" where
  "run_load disk k m =
     (if k < length (loads m) then
        LoadMapNodeThreadSafety disk (loads m ! k) False (m\<lparr>loads := take k (loads m) @ drop (Suc k) (loads m)\<rparr>)
      else Some m)"

definition new_base_map :: "'i \<Rightarrow> u64 \<Rightarrow> u64 \<Rightarrow> nat \<Rightarrow> bool \<Rightarrow> 'i base_map" where
  "new_base_map di cap1 cap2 sz fixed =
     \<lparr>lvl1 = LRUCache di 0 cap1, lvl2 = LRUCache di 0 cap2,
      nodes = (\<lambda>_. \<lparr>node_index = di, is_changed = False, data_is_ready = False, is_reserved = False\<rparr>),
      pool_size = sz, is_fixed_size = fixed, free_list = [0..<sz], busy_nodes = {}, frees = [],
      preloading = {}, loads = []\<rparr>"

text \<open>
  \<open>CheckMap\<close> compares the checksum of every node file, as computed, with the one the configuration
  records for its path.
\<close>

fun CheckMap :: "(string \<rightharpoonup> string) \<Rightarrow> (string \<times> string) list \<Rightarrow> bool" where
  "CheckMap node_md5_map [] = True"
| "CheckMap node_md5_map ((path, md5) # files) =
     (case node_md5_map path of
        None \<Rightarrow> False
      | Some recorded \<Rightarrow> if recorded \<noteq> md5 then False else CheckMap node_md5_map files)"

section \<open>The pool keeps its nodes apart\<close>

text \<open>
  Every node of the pool is exactly one of: used by level 2, waiting to be freed, free. \<open>us\<close> are
  the used ones.
\<close>

definition pool_inv :: "nat list \<Rightarrow> 'i base_map \<Rightarrow> bool" where
  "pool_inv us m \<longleftrightarrow>
     distinct (us @ frees m @ free_list m) \<and> busy_nodes m = set us \<union> set (frees m) \<and>
     set (us @ frees m @ free_list m) = {..<pool_size m}"

definition same_caches :: "'i base_map \<Rightarrow> 'i base_map \<Rightarrow> bool" where
  "same_caches m m' \<longleftrightarrow>
     lvl1 m' = lvl1 m \<and> lvl2 m' = lvl2 m \<and> is_fixed_size m' = is_fixed_size m \<and> pool_size m \<le> pool_size m' \<and>
     preloading m' = preloading m \<and> loads m' = loads m"

lemma pool_inv_mset: "mset us = mset vs \<Longrightarrow> pool_inv us m \<longleftrightarrow> pool_inv vs m"
  unfolding pool_inv_def distinct_append set_append
  using mset_eq_imp_distinct_iff [of us vs] mset_eq_setD [of us vs] by simp

lemma pool_inv_Free: "pool_inv (r # us) m \<Longrightarrow> pool_inv us (FreeMapNode r m)"
  unfolding pool_inv_def FreeMapNode_def by auto

lemma run_free_ok:
  assumes "pool_inv us m"
  obtains m' where "run_free i m = Some m'" "pool_inv us m'" "same_caches m m'"
    "pool_size m' = pool_size m" "\<And>n. n \<in> set us \<Longrightarrow> nodes m' n = nodes m n"
    "i < length (frees m) \<Longrightarrow> free_list m' \<noteq> []"
proof (cases "i < length (frees m)")
  case False
  then show thesis using assms by (intro that [of m]) (simp_all add: run_free_def same_caches_def)
next
  case True
  let ?n = "frees m ! i" and ?rest = "take i (frees m) @ drop (Suc i) (frees m)"
  have s: "frees m = take i (frees m) @ ?n # drop (Suc i) (frees m)" using True by (rule id_take_nth_drop)
  have f: "mset (frees m) = mset (?n # ?rest)" by (subst s) simp
  have n: "?n \<in> set (frees m)" using True by simp
  have "distinct (frees m)" using assms by (simp add: pool_inv_def)
  then have d1: "distinct (?n # ?rest)" by (simp only: mset_eq_imp_distinct_iff [OF f])
  have d2: "set (frees m) = insert ?n (set ?rest)" using mset_eq_setD [OF f] by (simp only: list.set(2))
  let ?m = "m\<lparr>frees := ?rest, nodes := (nodes m)(?n := ResetMapNode (Node_Finalize True (nodes m ?n))),
    free_list := free_list m @ [?n], busy_nodes := busy_nodes m - {?n}\<rparr>"
  show thesis
  proof (rule that)
    show "run_free i m = Some ?m"
      using True n assms by (simp add: run_free_def FreeMapNodeTask_def pool_inv_def)
    show "pool_inv us ?m"
    proof -
      define rest n where "rest = ?rest" and "n = ?n"
      have "distinct (us @ frees m @ free_list m)" "busy_nodes m = set us \<union> insert n (set rest)"
        "set us \<union> insert n (set rest) \<union> set (free_list m) = {..<pool_size m}" "distinct (n # rest)"
        "set (frees m) = insert n (set rest)"
        using assms d1 d2 unfolding pool_inv_def rest_def n_def set_append by blast+
      then show ?thesis unfolding pool_inv_def rest_def [symmetric] n_def [symmetric] by auto
    qed
    show "nodes ?m k = nodes m k" if "k \<in> set us" for k
      using that n assms by (auto simp: pool_inv_def)
  qed (simp_all add: same_caches_def)
qed

lemma AllocMapNode_ok:
  assumes "pool_inv us m" "is_fixed_size m \<Longrightarrow> length us < pool_size m"
  obtains n m' where "AllocMapNode m = Some (Some n, m')" "pool_inv (n # us) m'" "same_caches m m'"
    "\<And>n. n \<in> set us \<Longrightarrow> nodes m' n = nodes m n"
proof -
  obtain m1 where m1: "(if free_list m = [] \<and> frees m \<noteq> [] then run_free (length (frees m) - 1) m else Some m) = Some m1"
    "pool_inv us m1" "same_caches m m1" "pool_size m1 = pool_size m" "\<And>n. n \<in> set us \<Longrightarrow> nodes m1 n = nodes m n"
    "free_list m = [] \<Longrightarrow> frees m \<noteq> [] \<Longrightarrow> free_list m1 \<noteq> []" "free_list m \<noteq> [] \<or> frees m = [] \<Longrightarrow> m1 = m"
  proof (cases "free_list m = [] \<and> frees m \<noteq> []")
    case True
    show thesis by (rule run_free_ok [OF assms(1), of "length (frees m) - 1"]) (use True that in auto)
  next
    case False
    then show thesis using that [of m] assms(1) by (auto simp: same_caches_def)
  qed
  show thesis
  proof (cases "free_list m1")
    case (Cons n ns)
    let ?m = "m1\<lparr>free_list := ns, busy_nodes := insert n (busy_nodes m1)\<rparr>"
    show thesis
    proof (rule that)
      show "AllocMapNode m = Some (Some n, ?m)" by (simp add: AllocMapNode_def m1(1) Cons)
      show "pool_inv (n # us) ?m" using m1(2) unfolding pool_inv_def Cons by auto
      show "same_caches m ?m" using m1(3) by (simp add: same_caches_def)
    qed (use m1(5) in simp)
  next
    case Nil
    then have e: "free_list m = []" "frees m = []" "m1 = m" using m1(6,7) by auto
    have us: "distinct us" "set us = {..<pool_size m}" using assms(1) e by (auto simp: pool_inv_def)
    then have "length us = pool_size m" using distinct_card [of us] by simp
    then have nf: "\<not> is_fixed_size m" using assms(2) by auto
    let ?m = "m\<lparr>pool_size := pool_size m + 1, busy_nodes := insert (pool_size m) (busy_nodes m)\<rparr>"
    show thesis
    proof (rule that)
      show "AllocMapNode m = Some (Some (pool_size m), ?m)" using nf by (simp add: AllocMapNode_def e)
      show "pool_inv (pool_size m # us) ?m" using us unfolding pool_inv_def by (simp add: e lessThan_Suc assms(1) [unfolded pool_inv_def e])
      show "same_caches m ?m" by (simp add: same_caches_def)
    qed simp
  qed
qed

lemma alloc_loop_ok:
  assumes "pool_inv us m" "is_fixed_size m \<Longrightarrow> length us < pool_size m"
  obtains n m' where "alloc_loop m = Some (n, m')" "pool_inv (n # us) m'" "same_caches m m'"
    "\<And>n. n \<in> set us \<Longrightarrow> nodes m' n = nodes m n"
  by (rule AllocMapNode_ok [OF assms]) (auto intro: that simp: alloc_loop.simps)

section \<open>Loading keeps the level 2 cache and the pool together\<close>

lemma put_spec_accounts:
  assumes "distinct (map fst es)" "0 < cap" "length es \<le> cap" "put_spec destroy cap k v es h = (r, es', h')"
  shows "mset (case r of None \<Rightarrow> [] | Some x \<Rightarrow> [x]) + mset (map snd es') = add_mset v (mset (map snd es))"
    and "length es' \<le> cap" and "set es' \<subseteq> insert (k, v) (set es)" and "map_of es' k \<noteq> None"
proof -
  have "mset (case r of None \<Rightarrow> [] | Some x \<Rightarrow> [x]) + mset (map snd es') = add_mset v (mset (map snd es)) \<and>
    length es' \<le> cap \<and> set es' \<subseteq> insert (k, v) (set es) \<and> map_of es' k \<noteq> None"
  proof (cases "map_of es k")
    case None
    show ?thesis
    proof (cases "cap \<le> length es")
      case True
      then obtain bs e where es: "es = bs @ [e]" using assms(2) by (cases es rule: rev_cases) auto
      have "r = Some (snd e)" "es' = (k, v) # bs"
        using assms(4) unfolding put_spec_def None option.case if_P [OF True] by (simp_all add: es)
      then show ?thesis using assms(3) by (auto simp: es)
    next
      case False
      then show ?thesis using assms(4) None by (auto simp: put_spec_def)
    qed
  next
    case (Some old)
    then obtain as bs where es: "es = as @ (k, old) # bs" by (metis map_of_SomeD split_list)
    have nk: "\<forall>e\<in>set (as @ bs). fst e \<noteq> k" using assms(1) unfolding es by force
    then have "filter (\<lambda>e. fst e \<noteq> k) (as @ bs) = as @ bs" by (simp only: filter_id_conv)
    then have f: "filter (\<lambda>e. fst e \<noteq> k) es = as @ bs" by (simp add: es)
    have tf: "to_front k x es = (k, x) # as @ bs" for x by (simp add: to_front_def f)
    obtain d h1 where d: "destroy old h = (d, h1)" by fastforce
    have "(r = Some old \<and> es' = (k, v) # as @ bs) \<or> (r = Some v \<and> es' = (k, old) # as @ bs)"
      using assms(4) unfolding put_spec_def Some option.case d prod.case tf by (cases d) simp_all
    then show ?thesis using assms(3) unfolding es by auto
  qed
  then show "mset (case r of None \<Rightarrow> [] | Some x \<Rightarrow> [x]) + mset (map snd es') = add_mset v (mset (map snd es))"
    "length es' \<le> cap" "set es' \<subseteq> insert (k, v) (set es)" "map_of es' k \<noteq> None" by blast+
qed

section \<open>The invariant\<close>

definition map_inv :: "'i base_map \<Rightarrow> ('i \<times> nat) list \<Rightarrow> bool" where
  "map_inv m es \<longleftrightarrow>
     (\<exists>es1. lru_abs (lvl1 m) es1) \<and> 0 < unat (lru_capacity (lvl1 m)) \<and>
     lru_abs (lvl2 m) es \<and> 0 < unat (lru_capacity (lvl2 m)) \<and> length es \<le> unat (lru_capacity (lvl2 m)) \<and>
     pool_inv (map snd es) m \<and> (\<forall>e\<in>set es. node_index (nodes m (snd e)) = fst e) \<and>
     (is_fixed_size m \<longrightarrow> unat (lru_capacity (lvl2 m)) < pool_size m)"

text \<open>Changes that leave level 2, the pool and the indices of the nodes alone.\<close>

lemma map_inv_frame:
  assumes "map_inv m es" "lvl2 m' = lvl2 m" "frees m' = frees m" "free_list m' = free_list m" "busy_nodes m' = busy_nodes m"
    "pool_size m' = pool_size m" "is_fixed_size m' = is_fixed_size m"
    "\<And>n. node_index (nodes m' n) = node_index (nodes m n)"
    "lru_abs (lvl1 m') es1" "lru_capacity (lvl1 m') = lru_capacity (lvl1 m)"
  shows "map_inv m' es"
  using assms unfolding map_inv_def pool_inv_def by auto

lemma map_inv_perm:
  assumes "map_inv m es" "mset es' = mset es" "lru_abs c es'" "lru_capacity c = lru_capacity (lvl2 m)"
  shows "map_inv (m\<lparr>lvl2 := c\<rparr>) es'"
proof -
  have "pool_inv (map snd es') m" "set es' = set es" "length es' = length es"
    using assms(1) pool_inv_mset [of "map snd es'" "map snd es" m] assms(2)
    by (auto simp: map_inv_def dest: mset_eq_setD mset_eq_length)
  then show ?thesis using assms(1,3,4) by (simp add: map_inv_def pool_inv_def)
qed

lemma mset_to_front:
  assumes "distinct (map fst es)" "map_of es k = Some v"
  shows "mset (to_front k v es) = mset es"
proof -
  obtain as bs where es: "es = as @ (k, v) # bs" using assms(2) by (metis map_of_SomeD split_list)
  have "\<forall>e\<in>set (as @ bs). fst e \<noteq> k" using assms(1) unfolding es by force
  then have "filter (\<lambda>e. fst e \<noteq> k) (as @ bs) = as @ bs" by (simp only: filter_id_conv)
  then show ?thesis by (simp add: to_front_def es)
qed

lemma abs_distinct: "lru_abs c es \<Longrightarrow> distinct (map fst es)"
  by (simp add: lru_abs_def lru_inv_def)

lemma abs_Prioritize:
  assumes "lru_abs c es"
  obtains es' where "lru_abs (snd (Prioritize k c)) es'" "mset es' = mset es" "lru_capacity (snd (Prioritize k c)) = lru_capacity c"
proof (cases "map_of es k")
  case None
  then show thesis using that [of es] assms abs_Contains [OF assms, of k] by (simp add: Prioritize_def)
next
  case (Some v)
  then show thesis
    using that [of "to_front k v es"] abs_touch [OF assms Some] mset_to_front [OF abs_distinct [OF assms] Some]
      abs_Contains [OF assms, of k] by (simp add: Prioritize_def)
qed

lemma abs_Get_perm:
  assumes "lru_abs c es"
  obtains es' where "lru_abs (snd (lru_Get k c)) es'" "mset es' = mset es"
proof (cases "map_of es k")
  case None
  then show thesis using that [of es] assms abs_Get(2) [OF assms None] by simp
next
  case (Some v)
  then show thesis
    using that [of "to_front k v es"] abs_Get(3) [OF assms Some] mset_to_front [OF abs_distinct [OF assms] Some] by simp
qed

lemma map_inv_abs1: "map_inv m es \<Longrightarrow> \<exists>es1. lru_abs (lvl1 m) es1" "map_inv m es \<Longrightarrow> lru_abs (lvl2 m) es"
  by (auto simp: map_inv_def)

lemma map_inv_get1:
  assumes "map_inv m es"
  shows "map_inv (m\<lparr>lvl1 := snd (lru_Get i (lvl1 m))\<rparr>) es" "map_inv (m\<lparr>lvl1 := snd (Prioritize i (lvl1 m))\<rparr>) es"
proof -
  obtain es1 where a: "lru_abs (lvl1 m) es1" using map_inv_abs1(1) [OF assms] by blast
  obtain es' where "lru_abs (snd (lru_Get i (lvl1 m))) es'" by (rule abs_Get_perm [OF a])
  then show "map_inv (m\<lparr>lvl1 := snd (lru_Get i (lvl1 m))\<rparr>) es"
    by (intro map_inv_frame [OF assms, of _ es']) (simp_all add: abs_Get(4) [OF a])
  obtain es'' where "lru_abs (snd (Prioritize i (lvl1 m))) es''"
    "lru_capacity (snd (Prioritize i (lvl1 m))) = lru_capacity (lvl1 m)" by (rule abs_Prioritize [OF a])
  then show "map_inv (m\<lparr>lvl1 := snd (Prioritize i (lvl1 m))\<rparr>) es"
    by (intro map_inv_frame [OF assms, of _ es'']) simp_all
qed

lemma map_inv_get2:
  assumes "map_inv m es"
  obtains es' where "map_inv (m\<lparr>lvl2 := snd (lru_Get i (lvl2 m))\<rparr>) es'" "mset es' = mset es"
  using abs_Get_perm [OF map_inv_abs1(2) [OF assms], of i] map_inv_perm [OF assms] abs_Get(4) [OF map_inv_abs1(2) [OF assms]]
  by metis

lemma map_inv_prioritize2:
  assumes "map_inv m es"
  obtains es' where "map_inv (m\<lparr>lvl2 := snd (Prioritize i (lvl2 m))\<rparr>) es'" "mset es' = mset es"
  using abs_Prioritize [OF map_inv_abs1(2) [OF assms], of i] map_inv_perm [OF assms] by metis

lemma map_inv_reserve: "map_inv m es \<Longrightarrow> map_inv (m\<lparr>nodes := SetIsReserved n b (nodes m)\<rparr>) es"
  using map_inv_abs1(1) [of m es]
  by (auto intro!: map_inv_frame [of m es] simp: SetIsReserved_def)

lemma map_inv_task_lists [simp]:
  "map_inv (m\<lparr>loads := l\<rparr>) es \<longleftrightarrow> map_inv m es" "map_inv (m\<lparr>preloading := p\<rparr>) es \<longleftrightarrow> map_inv m es"
  "map_inv (m\<lparr>preloading := p, loads := l\<rparr>) es \<longleftrightarrow> map_inv m es"
  by (simp_all add: map_inv_def pool_inv_def)

lemma put1_ok:
  assumes "map_inv m es"
  obtains m' where "put1 i n m = Some m'" "map_inv m' es" "lvl2 m' = lvl2 m" "loads m' = loads m"
    "\<And>x. node_index (nodes m' x) = node_index (nodes m x)"
proof -
  obtain es1 where a: "lru_abs (lvl1 m) es1" "0 < unat (lru_capacity (lvl1 m))" using assms by (auto simp: map_inv_def)
  show thesis
  proof (cases n)
    case None
    then show thesis using assms that [of m] by (simp add: put1_def cache_Put_def)
  next
    case (Some v)
    obtain r es1' h' where s: "put_spec CacheL1Destroy (unat (lru_capacity (lvl1 m))) i v es1 (nodes m) = (r, es1', h')"
      by (metis prod.exhaust)
    have h: "node_index (h' x) = node_index (nodes m x)" for x
      using s by (auto simp: put_spec_def CacheL1Destroy_def SetIsReserved_def split: option.splits if_splits)
    obtain c' where c': "cache_Put CacheL1Destroy i (Some v) (lvl1 m) (nodes m) = Some (r, c', h')" "lru_abs c' es1'"
      "lru_capacity c' = lru_capacity (lvl1 m)"
      by (rule cache_Put_spec [OF a, of CacheL1Destroy i v "nodes m"]) (simp add: s)
    show thesis
    proof (rule that)
      show "put1 i n m = Some (m\<lparr>lvl1 := c', nodes := h'\<rparr>)" by (simp add: put1_def Some c')
      show "map_inv (m\<lparr>lvl1 := c', nodes := h'\<rparr>) es"
        by (rule map_inv_frame [OF assms, of _ es1']) (simp_all add: c' h)
    qed (simp_all add: h)
  qed
qed

lemma LoadMapNode_ok:
  assumes "map_inv m es"
  obtains m' es' where "LoadMapNodeThreadSafety disk i b m = Some m'" "map_inv m' es'" "map_of es' i \<noteq> None"
    "loads m' = loads m" "lvl1 m' = lvl1 m"
proof -
  have p: "pool_inv (map snd es) m" and l2: "lru_abs (lvl2 m) es" "0 < unat (lru_capacity (lvl2 m))" "length es \<le> unat (lru_capacity (lvl2 m))"
    and x: "\<And>e. e \<in> set es \<Longrightarrow> node_index (nodes m (snd e)) = fst e"
    using assms by (auto simp: map_inv_def)
  have room: "is_fixed_size m \<Longrightarrow> length (map snd es) < pool_size m" using assms by (auto simp: map_inv_def)
  obtain n m1 where m1: "alloc_loop m = Some (n, m1)" "pool_inv (n # map snd es) m1" "same_caches m m1"
    "\<And>k. k \<in> set (map snd es) \<Longrightarrow> nodes m1 k = nodes m k" by (rule alloc_loop_ok [OF p room]) auto
  define node where "node = (snd (Node_Load (disk i) ((nodes m1 n)\<lparr>node_index := i\<rparr>)))\<lparr>is_reserved := b\<rparr>"
  define h where "h = (nodes m1)(n := node)"
  have ni: "node_index node = i" by (simp add: node_def Node_Load_def split: disk_entry.splits)
  obtain r es' h' where s: "put_spec CacheL2Destroy (unat (lru_capacity (lvl2 m))) i n es h = (r, es', h')"
    by (metis prod.exhaust)
  have h': "h' = h" using s by (auto simp: put_spec_def CacheL2Destroy_def split: option.splits if_splits bool.splits)
  obtain c' where c': "cache_Put CacheL2Destroy i (Some n) (lvl2 m) h = Some (r, c', h)" "lru_abs c' es'"
    "lru_capacity c' = lru_capacity (lvl2 m)"
    by (rule cache_Put_spec [OF l2(1,2), of CacheL2Destroy i n h]) (simp add: s h')
  note a = put_spec_accounts [OF abs_distinct [OF l2(1)] l2(2,3) s]
  let ?m = "m1\<lparr>lvl2 := c', nodes := h, preloading := preloading m1 - {i}\<rparr>"
  let ?m' = "case r of None \<Rightarrow> ?m | Some r \<Rightarrow> FreeMapNode r ?m"
  have sc: "lvl1 m1 = lvl1 m" "lvl2 m1 = lvl2 m" "is_fixed_size m1 = is_fixed_size m" "pool_size m \<le> pool_size m1" "loads m1 = loads m"
    using m1(3) by (simp_all add: same_caches_def)
  have idx: "node_index (h (snd e)) = fst e" if "e \<in> set es'" for e
  proof (cases "e = (i, n)")
    case False
    then have e: "e \<in> set es" using that a(3) by auto
    then have "snd e \<noteq> n" using m1(2) by (auto simp: pool_inv_def)
    then show ?thesis using e m1(4) [of "snd e"] x [OF e] by (simp add: h_def)
  qed (simp add: h_def ni)
  have pm: "pool_inv (map snd es') ?m'"
  proof (cases r)
    case None
    then have "mset (map snd es') = mset (n # map snd es)" using a(1) by simp
    from pool_inv_mset [OF this, of ?m] show ?thesis using m1(2) None by (simp add: pool_inv_def)
  next
    case (Some q)
    then have "mset (q # map snd es') = mset (n # map snd es)" using a(1) by simp
    from pool_inv_mset [OF this, of ?m] have "pool_inv (q # map snd es') ?m" using m1(2) by (simp add: pool_inv_def)
    then show ?thesis using Some by (simp add: pool_inv_Free)
  qed
  show thesis
  proof (rule that)
    show "LoadMapNodeThreadSafety disk i b m = Some ?m'"
      unfolding LoadMapNodeThreadSafety_def m1(1) by (simp add: node_def [symmetric] h_def [symmetric] sc c' Let_def)
    show "map_inv ?m' es'"
      using assms pm idx a(2) c'(2,3) sc
      by (auto simp: map_inv_def FreeMapNode_def split: option.splits)
  qed (use a(4) sc in \<open>auto simp: FreeMapNode_def split: option.splits\<close>)
qed

section \<open>The operations of the map\<close>

lemma GetMapNodeSafe_ok:
  assumes "map_inv m es"
  obtains n m' es' where "GetMapNodeSafe disk i m = Some (Some n, m')" "map_inv m' es'"
    "fst (cache_Get i (lvl1 m)) = None \<longrightarrow> node_index (nodes m' n) = i"
proof -
  obtain v c where g: "lru_Get i (lvl1 m) = (v, c)" by fastforce
  have m1: "map_inv (m\<lparr>lvl1 := c\<rparr>) es" using map_inv_get1(1) [OF assms, of i] by (simp add: g)
  have l2: "lru_abs (lvl2 m) es" using assms by (simp add: map_inv_def)
  note G = abs_Get [OF l2, of i]
  show thesis
  proof (cases v)
    case (Some n)
    then show thesis using that [of n "m\<lparr>lvl1 := c\<rparr>" es] m1 by (simp add: GetMapNodeSafe_def cache_Get_def g)
  next
    case None
    show thesis
    proof (cases "map_of es i")
      case (Some n)
      obtain c2 where g2: "lru_Get i (lvl2 m) = (Some n, c2)" using G(1) Some by (metis prod.collapse)
      obtain es' where es': "map_inv (m\<lparr>lvl1 := c, lvl2 := c2\<rparr>) es'"
        by (rule map_inv_get2 [OF m1, of i]) (simp add: g2)
      obtain m' where m':
        "put1 i (Some n) (m\<lparr>lvl1 := c, lvl2 := c2, nodes := SetIsReserved n True (nodes m)\<rparr>) = Some m'"
        "map_inv m' es'" "\<And>x. node_index (nodes m' x) = node_index (SetIsReserved n True (nodes m) x)"
        by (rule put1_ok [OF map_inv_reserve [OF es', of n True], of i "Some n"]) simp
      have "(i, n) \<in> set es" using Some by (rule map_of_SomeD)
      then have "node_index (nodes m n) = i" using assms by (fastforce simp: map_inv_def)
      then have "node_index (nodes m' n) = i" using m'(3) by (simp add: SetIsReserved_def)
      moreover have "GetMapNodeSafe disk i m = Some (Some n, m')"
        using m'(1) None by (simp add: GetMapNodeSafe_def cache_Get_def g g2)
      ultimately show thesis using that m'(2) by blast
    next
      case n2: None
      have c2: "lru_Get i (lvl2 m) = (None, lvl2 m)" using G(1,2) n2 by (metis prod.collapse)
      obtain m2 es2 where m2: "LoadMapNodeThreadSafety disk i True (m\<lparr>lvl1 := c\<rparr>) = Some m2" "map_inv m2 es2" "map_of es2 i \<noteq> None"
        by (rule LoadMapNode_ok [OF m1])
      then obtain n where n: "map_of es2 i = Some n" by blast
      have a2: "lru_abs (lvl2 m2) es2" using m2(2) by (simp add: map_inv_def)
      obtain c3 where c3: "lru_Get i (lvl2 m2) = (Some n, c3)" using abs_Get(1) [OF a2, of i] n by (metis prod.collapse)
      obtain es3 where "map_inv (m2\<lparr>lvl2 := c3\<rparr>) es3" by (rule map_inv_get2 [OF m2(2), of i]) (simp add: c3)
      then obtain m' where m': "put1 i (Some n) (m2\<lparr>lvl2 := c3\<rparr>) = Some m'" "map_inv m' es3"
        "\<And>x. node_index (nodes m' x) = node_index (nodes m2 x)"
        by (rule put1_ok [where i = i and n = "Some n"]) simp
      have "(i, n) \<in> set es2" using n by (rule map_of_SomeD)
      then have "node_index (nodes m2 n) = i" using m2(2) by (fastforce simp: map_inv_def)
      then show thesis
        using that [of n m' es3] m' m2(1) c3 None c2
        by (simp add: GetMapNodeSafe_def cache_Get_def g Let_def)
    qed
  qed
qed

lemma refresh_used_ok:
  assumes "map_inv m es"
  shows "\<exists>es'. map_inv (snd (refresh_used is m)) es' \<and> loads (snd (refresh_used is m)) = loads m"
  using assms
proof (induction "is" arbitrary: m es)
  case (Cons i "is")
  obtain b c where p: "Prioritize i (lvl1 m) = (b, c)" by fastforce
  have m1: "map_inv (m\<lparr>lvl1 := c\<rparr>) es" using map_inv_get1(2) [OF Cons.prems, of i] by (simp add: p)
  obtain es' where m2: "map_inv (m\<lparr>lvl1 := c, lvl2 := snd (Prioritize i (lvl2 m))\<rparr>) es'"
    by (rule map_inv_prioritize2 [OF m1, of i]) simp
  show ?case using Cons.IH [OF m1] Cons.IH [OF m2] by (cases b) (auto simp: IsExist_def p split: prod.splits)
qed auto

lemma CheckAndUpdateCache_ok:
  assumes "map_inv m es"
  obtains r m' es' where "CheckAndUpdateCache is m = Some (r, m')" "map_inv m' es'" "loads m' = loads m"
  using assms
proof (induction "is" arbitrary: m es thesis)
  case (Cons i "is")
  obtain v c where g: "lru_Get i (lvl2 m) = (v, c)" by fastforce
  obtain es1 where m1: "map_inv (m\<lparr>lvl2 := c\<rparr>) es1" by (rule map_inv_get2 [OF Cons.prems(2), of i]) (simp add: g)
  show ?case
  proof (cases v)
    case None
    obtain r m' es' where "CheckAndUpdateCache is (m\<lparr>lvl2 := c\<rparr>) = Some (r, m')" "map_inv m' es'" "loads m' = loads m"
      using Cons.IH [OF _ m1] by simp blast
    then show thesis using Cons.prems(1) None by (simp add: cache_Get_def g)
  next
    case (Some n)
    obtain m2 where m2:
      "put1 i (Some n) (m\<lparr>lvl2 := c, nodes := SetIsReserved n True (nodes m)\<rparr>) = Some m2" "map_inv m2 es1" "loads m2 = loads m"
      by (rule put1_ok [OF map_inv_reserve [OF m1, of n True], of i "Some n"]) simp
    obtain r m' es' where "CheckAndUpdateCache is m2 = Some (r, m')" "map_inv m' es'" "loads m' = loads m2"
      using Cons.IH [OF _ m2(2)] by blast
    then show thesis using Cons.prems(1) Some m2(1,3) by (simp add: cache_Get_def g)
  qed
qed simp

lemma load_all_ok:
  assumes "map_inv m es"
  obtains m' es' where "load_all disk b is m = Some m'" "map_inv m' es'" "loads m' = loads m"
  using assms
proof (induction "is" arbitrary: m es thesis)
  case (Cons i "is")
  obtain m1 es1 where m1: "LoadMapNodeThreadSafety disk i b m = Some m1" "map_inv m1 es1" "loads m1 = loads m"
    by (rule LoadMapNode_ok [OF Cons.prems(2)])
  obtain m' es' where "load_all disk b is m1 = Some m'" "map_inv m' es'" "loads m' = loads m1"
    using Cons.IH [OF _ m1(2)] by blast
  then show ?case using Cons.prems(1) m1(1,3) by simp
qed simp

lemma LoadMapNodes_ok:
  assumes "map_inv m es"
  obtains m' es' where "LoadMapNodes disk ids m = Some m'" "map_inv m' es'"
proof (cases "length ids > unat (cache_Capacity (lvl1 m))")
  case True
  then show thesis using that assms by (simp add: LoadMapNodes_def)
next
  case False
  obtain ids1 m1 where u: "refresh_used ids m = (ids1, m1)" by fastforce
  then obtain es1 where m1: "map_inv m1 es1" using refresh_used_ok [OF assms, of ids] by auto
  obtain ids2 m2 es2 where m2: "CheckAndUpdateCache ids1 m1 = Some (ids2, m2)" "map_inv m2 es2"
    by (rule CheckAndUpdateCache_ok [OF m1])
  obtain m3 es3 where m3: "load_all disk True ids2 m2 = Some m3" "map_inv m3 es3" by (rule load_all_ok [OF m2(2)])
  obtain r m4 es4 where m4: "CheckAndUpdateCache ids2 m3 = Some (r, m4)" "map_inv m4 es4"
    by (rule CheckAndUpdateCache_ok [OF m3(2)])
  show thesis using that [of m4 es4] m4 False by (simp add: LoadMapNodes_def u m2 m3)
qed

lemma refresh_loaded_ok:
  assumes "map_inv m es"
  shows "\<exists>es'. map_inv (snd (refresh_loaded is m)) es'"
  using assms
proof (induction "is" arbitrary: m es)
  case (Cons i "is")
  obtain b c where p: "Prioritize i (lvl2 m) = (b, c)" by fastforce
  obtain es' where "map_inv (m\<lparr>lvl2 := c\<rparr>) es'" by (rule map_inv_prioritize2 [OF Cons.prems, of i]) (simp add: p)
  from Cons.IH [OF this] show ?case by (auto simp: IsExist_def p split: prod.splits)
qed auto

lemma PreloadMapNodes_ok:
  assumes "map_inv m es"
  shows "\<exists>es'. map_inv (PreloadMapNodes ids m) es'"
  using assms refresh_loaded_ok [OF assms, of ids] by (auto simp: PreloadMapNodes_def Let_def split: prod.splits)

lemma run_free_inv:
  assumes "map_inv m es"
  obtains m' where "run_free k m = Some m'" "map_inv m' es"
proof -
  have "pool_inv (map snd es) m" using assms by (simp add: map_inv_def)
  then obtain m' where m': "run_free k m = Some m'" "pool_inv (map snd es) m'" "same_caches m m'" "pool_size m' = pool_size m"
    "\<And>n. n \<in> set (map snd es) \<Longrightarrow> nodes m' n = nodes m n"
    by (rule run_free_ok) blast
  then have "map_inv m' es" using assms by (auto simp: map_inv_def same_caches_def)
  then show thesis using that m'(1) by blast
qed

section \<open>Any run of the map\<close>

datatype 'i map_event =
    Want 'i                 \<comment> \<open>\<open>GetMapNodeSafe\<close>\<close>
  | Peek 'i                 \<comment> \<open>\<open>GetMapNode\<close>\<close>
  | Exists 'i               \<comment> \<open>\<open>IsMapNodeExist\<close>\<close>
  | LoadArea "'i list"
  | PreloadArea "'i list"
  | RunLoad nat             \<comment> \<open>a task thread runs a preloading task\<close>
  | RunFree nat             \<comment> \<open>a task thread runs a free task\<close>

definition map_event :: "('i \<Rightarrow> disk_entry) \<Rightarrow> 'i map_event \<Rightarrow> 'i base_map \<Rightarrow> 'i base_map option" where
  "map_event disk e m =
     (case e of
        Want i \<Rightarrow> map_option snd (GetMapNodeSafe disk i m)
      | Peek i \<Rightarrow> Some (snd (GetMapNode i m))
      | Exists i \<Rightarrow> Some (snd (IsMapNodeExist i m))
      | LoadArea ids \<Rightarrow> LoadMapNodes disk ids m
      | PreloadArea ids \<Rightarrow> Some (PreloadMapNodes ids m)
      | RunLoad k \<Rightarrow> run_load disk k m
      | RunFree k \<Rightarrow> run_free k m)"

fun map_run :: "('i \<Rightarrow> disk_entry) \<Rightarrow> 'i map_event list \<Rightarrow> 'i base_map \<Rightarrow> 'i base_map option" where
  "map_run disk [] m = Some m"
| "map_run disk (e # es) m = Option.bind (map_event disk e m) (map_run disk es)"

lemma map_event_ok:
  assumes "map_inv m es"
  obtains m' es' where "map_event disk e m = Some m'" "map_inv m' es'"
proof (cases e)
  case (Want i)
  obtain n m' es' where "GetMapNodeSafe disk i m = Some (Some n, m')" "map_inv m' es'"
    by (rule GetMapNodeSafe_ok [OF assms])
  then show thesis using that by (simp add: map_event_def Want)
next
  case (Peek i)
  then show thesis
    using map_inv_get1(1) [OF assms, of i] by (intro that) (simp_all add: map_event_def GetMapNode_def cache_Get_def split: prod.splits)
next
  case (Exists i)
  then show thesis
    using map_inv_get1(2) [OF assms, of i] by (intro that) (simp_all add: map_event_def IsMapNodeExist_def IsExist_def split: prod.splits)
next
  case (LoadArea ids)
  obtain m' es' where "LoadMapNodes disk ids m = Some m'" "map_inv m' es'" by (rule LoadMapNodes_ok [OF assms])
  then show thesis using that by (simp add: map_event_def LoadArea)
next
  case (PreloadArea ids)
  then show thesis using that PreloadMapNodes_ok [OF assms, of ids] by (auto simp: map_event_def)
next
  case (RunLoad k)
  have "map_inv (m\<lparr>loads := take k (loads m) @ drop (Suc k) (loads m)\<rparr>) es" using assms by simp
  then obtain m' es' where "LoadMapNodeThreadSafety disk (loads m ! k) False (m\<lparr>loads := take k (loads m) @ drop (Suc k) (loads m)\<rparr>) = Some m'"
    "map_inv m' es'" by (rule LoadMapNode_ok)
  then show thesis using that assms RunLoad by (cases "k < length (loads m)") (simp_all add: map_event_def run_load_def)
next
  case (RunFree k)
  obtain m' where "run_free k m = Some m'" "map_inv m' es" by (rule run_free_inv [OF assms])
  then show thesis using that by (simp add: map_event_def RunFree)
qed

lemma map_run_ok:
  assumes "map_inv m es"
  shows "\<exists>m' es'. map_run disk evs m = Some m' \<and> map_inv m' es'"
  using assms
proof (induction evs arbitrary: m es)
  case (Cons e evs)
  obtain m1 es1 where "map_event disk e m = Some m1" "map_inv m1 es1" by (rule map_event_ok [OF Cons.prems])
  then show ?case using Cons.IH by simp
qed auto

lemma map_inv_new:
  assumes "0 < unat cap1" "0 < unat cap2" "fixed \<Longrightarrow> unat cap2 < sz"
  shows "map_inv (new_base_map di cap1 cap2 sz fixed) []"
  using assms lru_abs_LRUCache [of di 0 cap1] lru_abs_LRUCache [of di 0 cap2]
  by (auto simp: map_inv_def new_base_map_def pool_inv_def LRUCache_def lru_Init_def)



section \<open>Where it goes wrong\<close>

lemmas cache_ops = lru_Get_def lru_Get_impl_def lru_Put_def PutAndGetObsolete_def lru_Update_impl_def lru_Contains_def
  lru_Full_def GetObsolete_def Detach_def Attach_def touch_def set_prev_def set_next_def update_at_def prev_of_def
  next_of_def node_at_def lru_Remove_def Last_def First_def Node_def LRUCache_def lru_Init_def cache_Get_def
  cache_Put_def ClearOne_def cache_Capacity_def CacheL1Destroy_def CacheL2Destroy_def SetIsReserved_def IsExist_def
  Prioritize_def

lemmas map_ops = map_event_def GetMapNodeSafe_def LoadMapNodeThreadSafety_def put1_def run_load_def run_free_def
  FreeMapNodeTask_def FreeMapNode_def AllocMapNode_def PreloadMapNodes_def Node_Load_def new_base_map_def

text \<open>
  Level 2 evicts its last node even when it is reserved. Here tile 1 is in use in level 1 when two
  preloaded tiles push it out of level 2; its node is freed, reused for tile 4, and level 1 then
  answers the request for tile 1 with tile 4.
\<close>

lemma upt_3: "[0..<3] = [0, 1, 2 :: nat]" by (simp add: upt_rec)

theorem level_1_serves_a_reused_tile:
  "case map_run (\<lambda>_. File True)
      [Want 1, PreloadArea [2], RunLoad 0, PreloadArea [3], RunLoad 0, RunFree 0, PreloadArea [4], RunLoad 0]
      (new_base_map (0 :: nat) 2 2 3 True) of
     None \<Rightarrow> False
   | Some m \<Rightarrow>
       (case GetMapNodeSafe (\<lambda>_. File True) 1 m of
          None \<Rightarrow> False
        | Some (r, m') \<Rightarrow> r = Some 0 \<and> node_index (nodes m' 0) = 4)"
  by (simp add: map_ops cache_ops alloc_loop.simps Let_def upt_3)

text \<open>
  A node \<open>ClearOne\<close> takes out of level 2 stays in its map, because \<open>Remove\<close> does not erase it: level
  2 still answers for its index.
\<close>

theorem cleared_tile_is_still_found:
  assumes "lru_abs c es" "ClearOne CacheL2Destroy c h = Some (Some n, c', h')"
  shows "\<exists>k. map_of es k = Some n \<and> \<not> is_reserved (h n) \<and> fst (cache_GetSilent k c') = Some n"
proof -
  obtain e where e: "find (\<lambda>e. \<not> is_reserved (h (snd e))) (rev es) = Some e" "n = snd e" "c' = Detach (Elem (fst e)) c"
    using ClearOne_spec [OF assms(1), of h] assms(2) by (auto split: option.splits)
  then have m: "e \<in> set es" "\<not> is_reserved (h n)" by (metis find_Some_iff nth_mem set_rev)+
  then have k: "map_of es (fst e) = Some n"
    using abs_distinct [OF assms(1)] e(2) by (simp add: map_of_eq_Some_iff)
  have "lru_Remove (fst e) c = (True, c')"
    using abs_Contains [OF assms(1), of "fst e"] k by (simp add: lru_Remove_def e(3))
  from removed_key_is_still_found [OF assms(1) k this] show ?thesis
    using k m(2) by (auto simp: cache_GetSilent_def)
qed

text \<open>With a pool as large as level 2, a request for the cleared tile 1 gets the node that is tile 3 now.\<close>

theorem cleared_tile_is_served_as_another:
  "case map_run (\<lambda>_. File True)
      [PreloadArea [1], RunLoad 0, PreloadArea [2], RunLoad 0, PreloadArea [3], RunLoad 0]
      (new_base_map (0 :: nat) 2 2 2 True) of
     None \<Rightarrow> False
   | Some m \<Rightarrow>
       (case GetMapNodeSafe (\<lambda>_. File True) 1 m of
          None \<Rightarrow> False
        | Some (r, m') \<Rightarrow> r = Some 0 \<and> node_index (nodes m' 0) = 3)"
proof -
  have "[0..<2] = [0, 1 :: nat]" by (simp add: upt_rec)
  moreover have "\<not> (2 :: u64) \<le> 1" by (simp add: word_le_nat_alt)
  ultimately show ?thesis by (simp add: map_ops cache_ops alloc_loop.simps ClearOne_loop.simps Let_def)
qed

end
