(* ===== verification/RecordFile.thy ===== *)
theory RecordFile
  imports Prelude
begin

text \<open>
  Record files of Cyber RT, \<open>cyber/record/file\<close>: the messages of \<open>cyber/proto/record.proto\<close>, the file
  as bytes with a position, and the sections a file is made of. The protobuf library is a
  parameter: a \<open>codec\<close> serialises and parses the five message types and stands for what the input
  stream does. The numbers of a header and all times are 64-bit words; the sizes, counts and positions
  the writer keeps are naturals (a file is far below \<open>2 ^ 63\<close> bytes).
\<close>

section \<open>The messages\<close>


datatype section_type =
  SECTION_HEADER | SECTION_CHUNK_HEADER | SECTION_CHUNK_BODY | SECTION_INDEX | SECTION_CHANNEL

fun section_number :: "section_type \<Rightarrow> nat" where
  "section_number SECTION_HEADER = 0"
| "section_number SECTION_CHUNK_HEADER = 1"
| "section_number SECTION_CHUNK_BODY = 2"
| "section_number SECTION_INDEX = 3"
| "section_number SECTION_CHANNEL = 4"

lemma section_number_eq [simp]: "section_number a = section_number b \<longleftrightarrow> a = b"
  by (cases a; cases b) simp_all

record single_message =
  sm_channel_name :: string
  sm_time :: u64
  sm_content :: "byte list"

record channel =
  c_name :: string
  c_message_type :: string
  c_proto_desc :: string

record chunk_header =
  ch_begin_time :: u64
  ch_end_time :: u64
  ch_message_number :: nat
  ch_raw_size :: nat

type_synonym chunk_body = "single_message list"

datatype index_cache =
    ChannelCache nat string string string   \<comment> \<open>message number, name, message type, description\<close>
  | ChunkHeaderCache nat u64 u64 nat        \<comment> \<open>message number, begin, end, raw size\<close>
  | ChunkBodyCache nat                      \<comment> \<open>message number\<close>

record single_index =
  si_type :: section_type
  si_position :: nat
  si_cache :: index_cache

record header =
  h_chunk_interval :: u64
  h_segment_interval :: u64
  h_index_position :: u64
  h_chunk_number :: u64
  h_channel_number :: u64
  h_begin_time :: u64
  h_end_time :: u64
  h_message_number :: u64
  h_size :: u64
  h_is_complete :: bool
  h_chunk_raw_size :: u64
  h_segment_raw_size :: u64

datatype pb =
    PbHeader header
  | PbChannel channel
  | PbChunkHeader chunk_header
  | PbChunkBody chunk_body
  | PbIndex "single_index list"

fun type_of :: "pb \<Rightarrow> section_type" where
  "type_of (PbHeader _) = SECTION_HEADER"
| "type_of (PbChannel _) = SECTION_CHANNEL"
| "type_of (PbChunkHeader _) = SECTION_CHUNK_HEADER"
| "type_of (PbChunkBody _) = SECTION_CHUNK_BODY"
| "type_of (PbIndex _) = SECTION_INDEX"

text \<open>
  \<open>HeaderBuilder\<close>: versions and compression are constants and left out.
\<close>

definition CHUNK_INTERVAL :: u64 where "CHUNK_INTERVAL = 20 * 1000 * 1000 * 1000"
definition SEGMENT_INTERVAL :: u64 where "SEGMENT_INTERVAL = 60 * 1000 * 1000 * 1000"
definition CHUNK_RAW_SIZE :: u64 where "CHUNK_RAW_SIZE = 200 * 1024 * 1024"
definition SEGMENT_RAW_SIZE :: u64 where "SEGMENT_RAW_SIZE = 2048 * 1024 * 1024"

definition GetHeader :: header where
  "GetHeader =
     \<lparr>h_chunk_interval = CHUNK_INTERVAL, h_segment_interval = SEGMENT_INTERVAL, h_index_position = 0,
      h_chunk_number = 0, h_channel_number = 0, h_begin_time = 0, h_end_time = 0, h_message_number = 0,
      h_size = 0, h_is_complete = False, h_chunk_raw_size = CHUNK_RAW_SIZE, h_segment_raw_size = SEGMENT_RAW_SIZE\<rparr>"

definition GetHeaderWithSegmentParams :: "u64 \<Rightarrow> u64 \<Rightarrow> header" where
  "GetHeaderWithSegmentParams interval raw_size =
     \<lparr>h_chunk_interval = CHUNK_INTERVAL, h_segment_interval = interval, h_index_position = 0,
      h_chunk_number = 0, h_channel_number = 0, h_begin_time = 0, h_end_time = 0, h_message_number = 0,
      h_size = 0, h_is_complete = False, h_chunk_raw_size = CHUNK_RAW_SIZE, h_segment_raw_size = raw_size\<rparr>"

definition GetHeaderWithChunkParams :: "u64 \<Rightarrow> u64 \<Rightarrow> header" where
  "GetHeaderWithChunkParams interval raw_size =
     \<lparr>h_chunk_interval = interval, h_segment_interval = SEGMENT_INTERVAL, h_index_position = 0,
      h_chunk_number = 0, h_channel_number = 0, h_begin_time = 0, h_end_time = 0, h_message_number = 0,
      h_size = 0, h_is_complete = False, h_chunk_raw_size = raw_size, h_segment_raw_size = SEGMENT_RAW_SIZE\<rparr>"

section \<open>The protobuf library\<close>

text \<open>
  \<open>parse ty bs\<close> is the message the coded stream parses from the bytes before its limit, if it
  consumes them all; \<open>at_end\<close> what \<open>ExpectAtEnd\<close> says when the parser fails (\<open>None\<close> when it stops early
  without an error); \<open>default_block\<close> the block size
  of a file input stream that is created with block size 0.
\<close>

record codec =
  ser :: "pb \<Rightarrow> byte list"
  parse :: "section_type \<Rightarrow> byte list \<Rightarrow> pb option"
  at_end :: "section_type \<Rightarrow> byte list \<Rightarrow> bool option"
  default_block :: nat

text \<open>
  What the code relies on: parsing is inverse to serialising, a message with a field set is not
  empty, and a header, whose fields are numbers, fits its block.
\<close>

definition HEADER_LENGTH :: nat where "HEADER_LENGTH = 2048"

definition good_codec :: "codec \<Rightarrow> bool" where
  "good_codec k \<longleftrightarrow>
     (\<forall>m. parse k (type_of m) (ser k m) = Some m) \<and> (\<forall>m. ser k m = [] \<longrightarrow> m = PbIndex []) \<and>
     (\<forall>h. length (ser k (PbHeader h)) \<le> HEADER_LENGTH)"

section \<open>Files\<close>

text \<open>
  A file with the position of its descriptor. \<open>room\<close> bounds its length when the disk is nearly
  full. Writing past the end leaves a gap of zeros. \<open>file_write\<close> returns the count \<open>write\<close> does: short at the bound, and -1 when nothing fits.
\<close>

record os_file =
  bytes :: "byte list"
  pos :: nat
  room :: "nat option"

definition write_count :: "os_file \<Rightarrow> nat \<Rightarrow> nat" where
  "write_count f n = (case room f of None \<Rightarrow> n | Some r \<Rightarrow> min n (r - pos f))"

definition put_bytes :: "byte list \<Rightarrow> os_file \<Rightarrow> os_file" where
  "put_bytes bs f =
     f\<lparr>bytes := take (pos f) (bytes f @ replicate (pos f - length (bytes f)) 0) @ bs @
         drop (pos f + length bs) (bytes f),
       pos := pos f + length bs\<rparr>"

definition file_write :: "byte list \<Rightarrow> os_file \<Rightarrow> int \<times> os_file" where
  "file_write bs f =
     (let n = write_count f (length bs) in
      if n = 0 \<and> bs \<noteq> [] then (-1, f) else (int n, put_bytes (take n bs) f))"

definition file_read :: "nat \<Rightarrow> os_file \<Rightarrow> byte list \<times> os_file" where
  "file_read n f = (let bs = take n (drop (pos f) (bytes f)) in (bs, f\<lparr>pos := pos f + length bs\<rparr>))"

definition CurrentPosition :: "os_file \<Rightarrow> nat" where
  "CurrentPosition f = pos f"

definition SetPosition :: "nat \<Rightarrow> os_file \<Rightarrow> os_file" where
  "SetPosition p f = f\<lparr>pos := p\<rparr>"

section \<open>The section struct\<close>

text \<open>
  \<open>struct Section\<close> as it lies in memory: a 32-bit type, four bytes of padding, a 64-bit size, all
  little-endian. The size is read back as a signed number.
\<close>

record section_struct =
  s_type :: nat
  s_size :: int

definition sizeof_Section :: nat where "sizeof_Section = 16"

definition section_bytes :: "section_struct \<Rightarrow> byte list" where
  "section_bytes s = le_bytes 4 (s_type s) @ replicate 4 0 @ le_bytes 8 (nat (s_size s mod 2 ^ 64))"

definition section_of_bytes :: "byte list \<Rightarrow> section_struct" where
  "section_of_bytes bs =
     \<lparr>s_type = le_value (take 4 bs),
      s_size = (let v = int (le_value (take 8 (drop 8 bs))) in if v < 2 ^ 63 then v else v - 2 ^ 64)\<rparr>"

lemma length_section_bytes [simp]: "length (section_bytes s) = sizeof_Section"
  by (simp add: section_bytes_def sizeof_Section_def)

lemma section_bytes_ne [simp]: "section_bytes s \<noteq> []"
  by (rule notI, drule arg_cong [where f = length], simp add: sizeof_Section_def)

lemma section_roundtrip:
  assumes "s_type s < 2 ^ 32" "0 \<le> s_size s" "s_size s < 2 ^ 63"
  shows "section_of_bytes (section_bytes s) = s"
proof -
  define z where "z = nat (s_size s mod 2 ^ 64)"
  have z: "int z = s_size s" "z < 256 ^ 8" using assms(2,3) by (simp_all add: z_def)
  have b: "section_bytes s = le_bytes 4 (s_type s) @ replicate 4 0 @ le_bytes 8 z" by (simp add: section_bytes_def z_def)
  have "le_value (take 4 (section_bytes s)) = s_type s" using assms(1) by (simp add: b le_value_le_bytes)
  moreover have "le_value (take 8 (drop 8 (section_bytes s))) = z" using z(2) by (simp add: b le_value_le_bytes)
  ultimately show ?thesis using assms(3) by (simp add: section_of_bytes_def z(1) Let_def)
qed

lemma file_read_append:
  assumes "bytes f = xs @ bs @ ys" "pos f = length xs" "length bs = n"
  shows "file_read n f = (bs, f\<lparr>pos := length xs + n\<rparr>)"
  using assms by (simp add: file_read_def Let_def)

lemma put_bytes_append:
  assumes "bytes f = xs" "pos f = length xs"
  shows "put_bytes bs f = f\<lparr>bytes := xs @ bs, pos := length (xs @ bs)\<rparr>"
  using assms by (simp add: put_bytes_def)

lemma file_write_all: "room f = None \<Longrightarrow> file_write bs f = (int (length bs), put_bytes bs f)"
  by (auto simp: file_write_def write_count_def Let_def put_bytes_def)

end
