(* ===== verification/RecordFileWriter.thy ===== *)
theory RecordFileWriter
  imports RecordFile "HOL-Library.Multiset"
begin

text \<open>
  Writing a record file, \<open>cyber/record/file/record_file_writer.{h,cc}\<close>: channels go to the file at
  once, messages collect in the active chunk, a full chunk is swapped with the flush chunk, and a
  flush thread writes that one. One iteration of the flush thread is a step of its own; the locks
  make it and the swap atomic. Failures of the file system come from the bound of the file.
\<close>

section \<open>Chunks\<close>

record chunk =
  chunk_hdr :: chunk_header
  chunk_msgs :: chunk_body

definition new_chunk :: chunk where
  "new_chunk =
     \<lparr>chunk_hdr = \<lparr>ch_begin_time = 0, ch_end_time = 0, ch_message_number = 0, ch_raw_size = 0\<rparr>, chunk_msgs = []\<rparr>"

definition chunk_clear :: "chunk \<Rightarrow> chunk" where
  "chunk_clear c =
     c\<lparr>chunk_msgs := [],
       chunk_hdr := (chunk_hdr c)\<lparr>ch_begin_time := 0, ch_end_time := 0, ch_message_number := 0, ch_raw_size := 0\<rparr>\<rparr>"

definition chunk_add :: "single_message \<Rightarrow> chunk \<Rightarrow> chunk" where
  "chunk_add m c =
     (let h0 = chunk_hdr c;
          h1 = (if ch_begin_time h0 = 0 then h0\<lparr>ch_begin_time := sm_time m\<rparr> else h0);
          h2 = (if ch_begin_time h1 > sm_time m then h1\<lparr>ch_begin_time := sm_time m\<rparr> else h1);
          h3 = (if ch_end_time h2 < sm_time m then h2\<lparr>ch_end_time := sm_time m\<rparr> else h2);
          h4 = h3\<lparr>ch_message_number := ch_message_number h3 + 1\<rparr>;
          h5 = h4\<lparr>ch_raw_size := ch_raw_size h4 + length (sm_content m)\<rparr>
      in c\<lparr>chunk_msgs := chunk_msgs c @ [m], chunk_hdr := h5\<rparr>)"

definition chunk_empty :: "chunk \<Rightarrow> bool" where
  "chunk_empty c \<longleftrightarrow> ch_message_number (chunk_hdr c) = 0"

section \<open>The writer\<close>

record file_writer =
  fw_file :: os_file
  fw_header :: header
  fw_index :: "single_index list"
  chunk_active :: chunk
  chunk_flush :: chunk
  is_writing :: bool
  message_numbers :: "string \<rightharpoonup> nat"

text \<open>A default \<open>Header\<close> message reads as zeros.\<close>

definition empty_header :: header where
  "empty_header =
     \<lparr>h_chunk_interval = 0, h_segment_interval = 0, h_index_position = 0, h_chunk_number = 0,
      h_channel_number = 0, h_begin_time = 0, h_end_time = 0, h_message_number = 0, h_size = 0,
      h_is_complete = False, h_chunk_raw_size = 0, h_segment_raw_size = 0\<rparr>"

text \<open>
  \<open>Open\<close>. The file is opened without truncating it: \<open>f\<close> is the file with the bytes it had and the
  position at its start.
\<close>

definition fw_Open :: "os_file \<Rightarrow> file_writer" where
  "fw_Open f =
     \<lparr>fw_file = f, fw_header = empty_header, fw_index = [], chunk_active = new_chunk, chunk_flush = new_chunk,
      is_writing = True, message_numbers = Map.empty\<rparr>"

text \<open>
  \<open>WriteSection\<close>. The result of serialising to the file is not looked at. A header is followed by
  filling up to its length; the static array starts with the character \<open>'0'\<close>. A header longer than
  its block makes the count wrap around, and \<open>write\<close> fails.
\<close>

definition blank :: "byte list" where
  "blank = 48 # replicate (HEADER_LENGTH - 1) 0"

definition note_size :: "file_writer \<Rightarrow> file_writer" where
  "note_size w = w\<lparr>fw_header := (fw_header w)\<lparr>h_size := of_nat (CurrentPosition (fw_file w))\<rparr>\<rparr>"

definition WriteSection :: "codec \<Rightarrow> pb \<Rightarrow> file_writer \<Rightarrow> bool \<times> file_writer" where
  "WriteSection k m w =
     (let ty = type_of m;
          f0 = (if ty = SECTION_HEADER then SetPosition 0 (fw_file w) else fw_file w);
          len = length (ser k m);
          (count, f1) = file_write (section_bytes \<lparr>s_type = section_number ty, s_size = int len\<rparr>) f0
      in if count < 0 then (False, w\<lparr>fw_file := f1\<rparr>)
         else if count \<noteq> int sizeof_Section then (False, w\<lparr>fw_file := f1\<rparr>)
         else
           let (_, f2) = file_write (ser k m) f1 in
           if ty = SECTION_HEADER then
             if len > HEADER_LENGTH then (False, w\<lparr>fw_file := f2\<rparr>)
             else
               let (filled, f3) = file_write (take (HEADER_LENGTH - len) blank) f2 in
               if filled < 0 then (False, w\<lparr>fw_file := f3\<rparr>)
               else if nat filled \<noteq> HEADER_LENGTH - len then (False, w\<lparr>fw_file := f3\<rparr>)
               else (True, note_size (w\<lparr>fw_file := f3\<rparr>))
           else (True, note_size (w\<lparr>fw_file := f2\<rparr>)))"

definition fw_WriteHeader :: "codec \<Rightarrow> header \<Rightarrow> file_writer \<Rightarrow> bool \<times> file_writer" where
  "fw_WriteHeader k h w = WriteSection k (PbHeader h) (w\<lparr>fw_header := h\<rparr>)"

definition add_index :: "section_type \<Rightarrow> nat \<Rightarrow> index_cache \<Rightarrow> file_writer \<Rightarrow> file_writer" where
  "add_index ty p cache w = w\<lparr>fw_index := fw_index w @ [\<lparr>si_type = ty, si_position = p, si_cache = cache\<rparr>]\<rparr>"

definition fw_WriteChannel :: "codec \<Rightarrow> channel \<Rightarrow> file_writer \<Rightarrow> bool \<times> file_writer" where
  "fw_WriteChannel k c w =
     (let p = CurrentPosition (fw_file w);
          (ok, w1) = WriteSection k (PbChannel c) w
      in if \<not> ok then (False, w1)
         else
           let w2 = w1\<lparr>fw_header := (fw_header w1)\<lparr>h_channel_number := h_channel_number (fw_header w1) + 1\<rparr>\<rparr> in
           (True, add_index SECTION_CHANNEL p (ChannelCache 0 (c_name c) (c_message_type c) (c_proto_desc c)) w2))"

definition WriteChunk :: "codec \<Rightarrow> chunk_header \<Rightarrow> chunk_body \<Rightarrow> file_writer \<Rightarrow> bool \<times> file_writer" where
  "WriteChunk k ch body w =
     (let p = CurrentPosition (fw_file w);
          (ok, w1) = WriteSection k (PbChunkHeader ch) w
      in if \<not> ok then (False, w1)
         else
           let w2 = add_index SECTION_CHUNK_HEADER p
                 (ChunkHeaderCache (ch_message_number ch) (ch_begin_time ch) (ch_end_time ch) (ch_raw_size ch)) w1;
               p2 = CurrentPosition (fw_file w2);
               (ok2, w3) = WriteSection k (PbChunkBody body) w2
           in if \<not> ok2 then (False, w3)
              else
                let h = fw_header w3;
                    h1 = h\<lparr>h_chunk_number := h_chunk_number h + 1\<rparr>;
                    h2 = (if h_begin_time h1 = 0 then h1\<lparr>h_begin_time := ch_begin_time ch\<rparr> else h1);
                    h3 = h2\<lparr>h_end_time := ch_end_time ch\<rparr>;
                    h4 = h3\<lparr>h_message_number := h_message_number h3 + of_nat (ch_message_number ch)\<rparr>
                in (True, add_index SECTION_CHUNK_BODY p2 (ChunkBodyCache (length body)) (w3\<lparr>fw_header := h4\<rparr>)))"

definition swap_chunks :: "file_writer \<Rightarrow> file_writer" where
  "swap_chunks w = w\<lparr>chunk_flush := chunk_active w, chunk_active := chunk_flush w\<rparr>"

definition need_flush :: "header \<Rightarrow> single_message \<Rightarrow> chunk \<Rightarrow> bool" where
  "need_flush h m c \<longleftrightarrow>
     (h_chunk_interval h > 0 \<and> sm_time m - ch_begin_time (chunk_hdr c) > h_chunk_interval h) \<or>
     (h_chunk_raw_size h > 0 \<and> ch_raw_size (chunk_hdr c) > unat (h_chunk_raw_size h))"

definition fw_WriteMessage :: "single_message \<Rightarrow> file_writer \<Rightarrow> bool \<times> file_writer" where
  "fw_WriteMessage m w =
     (let w1 = w\<lparr>chunk_active := chunk_add m (chunk_active w)\<rparr>;
          nums = message_numbers w1;
          w2 = w1\<lparr>message_numbers :=
                 (case nums (sm_channel_name m) of
                    Some n \<Rightarrow> nums(sm_channel_name m \<mapsto> n + 1)
                  | None \<Rightarrow> nums(sm_channel_name m \<mapsto> 1))\<rparr>
      in if \<not> need_flush (fw_header w2) m (chunk_active w2) then (True, w2) else (True, swap_chunks w2))"

text \<open>One round of the flush thread; a failure to write the chunk is logged.\<close>

definition Flush_step :: "codec \<Rightarrow> file_writer \<Rightarrow> file_writer" where
  "Flush_step k w =
     (if \<not> is_writing w then w
      else if chunk_empty (chunk_flush w) then w
      else
        let w1 = snd (WriteChunk k (chunk_hdr (chunk_flush w)) (chunk_msgs (chunk_flush w)) w) in
        w1\<lparr>chunk_flush := chunk_clear (chunk_flush w1)\<rparr>)"

fun set_message_number :: "(string \<rightharpoonup> nat) \<Rightarrow> single_index \<Rightarrow> single_index" where
  "set_message_number nums si =
     (if si_type si = SECTION_CHANNEL then
        case si_cache si of
          ChannelCache n name ty desc \<Rightarrow>
            (case nums name of Some x \<Rightarrow> si\<lparr>si_cache := ChannelCache x name ty desc\<rparr> | None \<Rightarrow> si)
        | _ \<Rightarrow> si
      else si)"

definition WriteIndex :: "codec \<Rightarrow> file_writer \<Rightarrow> bool \<times> file_writer" where
  "WriteIndex k w =
     (let w1 = w\<lparr>fw_index := map (set_message_number (message_numbers w)) (fw_index w)\<rparr>;
          w2 = w1\<lparr>fw_header := (fw_header w1)\<lparr>h_index_position := of_nat (CurrentPosition (fw_file w1))\<rparr>\<rparr>
      in WriteSection k (PbIndex (fw_index w2)) w2)"

text \<open>
  \<open>Close\<close> waits for the flush thread twice, around the last swap; failures are logged. The two waits
  are one round of the flush thread each, after which the flush chunk is empty.
\<close>

definition fw_Close :: "codec \<Rightarrow> file_writer \<Rightarrow> file_writer" where
  "fw_Close k w =
     (if is_writing w then
        let w1 = Flush_step k w;
            w2 = Flush_step k (swap_chunks w1);
            w3 = snd (WriteIndex k (w2\<lparr>is_writing := False\<rparr>));
            w4 = w3\<lparr>fw_header := (fw_header w3)\<lparr>h_is_complete := True\<rparr>\<rparr>
        in snd (fw_WriteHeader k (fw_header w4) w4)
      else w)"

definition fw_GetMessageNumber :: "string \<Rightarrow> file_writer \<Rightarrow> nat" where
  "fw_GetMessageNumber name w = (case message_numbers w name of Some n \<Rightarrow> n | None \<Rightarrow> 0)"

section \<open>What is on the file\<close>

text \<open>The bytes of a section, and of a header with its filling.\<close>

definition enc :: "codec \<Rightarrow> pb \<Rightarrow> byte list" where
  "enc k m = section_bytes \<lparr>s_type = section_number (type_of m), s_size = int (length (ser k m))\<rparr> @ ser k m"

definition enc_header :: "codec \<Rightarrow> header \<Rightarrow> byte list" where
  "enc_header k h = enc k (PbHeader h) @ take (HEADER_LENGTH - length (ser k (PbHeader h))) blank"

definition enc_all :: "codec \<Rightarrow> pb list \<Rightarrow> byte list" where
  "enc_all k ms = concat (map (enc k) ms)"

lemma length_enc: "length (enc k m) = sizeof_Section + length (ser k m)"
  by (simp add: enc_def)

lemma length_blank [simp]: "length blank = HEADER_LENGTH"
  by (simp add: blank_def HEADER_LENGTH_def)

lemma length_enc_header: "good_codec k \<Longrightarrow> length (enc_header k h) = sizeof_Section + HEADER_LENGTH"
  by (simp add: enc_header_def length_enc good_codec_def)

lemma put_bytes_put_bytes: "put_bytes ys (put_bytes xs f) = put_bytes (xs @ ys) f"
proof -
  define P where "P = take (pos f) (bytes f @ replicate (pos f - length (bytes f)) 0)"
  have P: "length P = pos f" by (simp add: P_def)
  show ?thesis unfolding put_bytes_def P_def [symmetric] by (simp add: P ac_simps)
qed

lemma put_bytes_room [simp]: "room (put_bytes xs f) = room f" "room (SetPosition p f) = room f"
  by (simp_all add: put_bytes_def SetPosition_def)

text \<open>With room on the disk a section goes to the file whole.\<close>

lemma WriteSection_ok:
  assumes "room (fw_file w) = None" "type_of m \<noteq> SECTION_HEADER"
  shows "WriteSection k m w = (True, note_size (w\<lparr>fw_file := put_bytes (enc k m) (fw_file w)\<rparr>))"
  using assms by (simp add: WriteSection_def Let_def file_write_all enc_def put_bytes_put_bytes)

lemma WriteHeader_ok:
  assumes "room (fw_file w) = None" "good_codec k"
  shows "fw_WriteHeader k h w =
    (True, note_size (w\<lparr>fw_header := h, fw_file := put_bytes (enc_header k h) (SetPosition 0 (fw_file w))\<rparr>))"
  using assms by (simp add: fw_WriteHeader_def WriteSection_def Let_def file_write_all enc_header_def enc_def
      put_bytes_put_bytes good_codec_def not_less)

section \<open>The writer's invariant\<close>

text \<open>
  The sections of a file come from items: a channel, or a chunk of messages with its header.
\<close>

datatype item = IChannel channel | IChunk chunk_body

definition chunk_of :: "chunk_body \<Rightarrow> chunk" where
  "chunk_of ms = fold chunk_add ms new_chunk"

fun item_sections :: "item \<Rightarrow> pb list" where
  "item_sections (IChannel c) = [PbChannel c]"
| "item_sections (IChunk b) = [PbChunkHeader (chunk_hdr (chunk_of b)), PbChunkBody b]"

definition sections :: "item list \<Rightarrow> pb list" where
  "sections its = concat (map item_sections its)"

fun item_messages :: "item \<Rightarrow> single_message list" where
  "item_messages (IChannel c) = []"
| "item_messages (IChunk b) = b"

definition messages :: "item list \<Rightarrow> single_message list" where
  "messages its = concat (map item_messages its)"

text \<open>The index entry of a section at a position, and the header after an item.\<close>

fun index_entry :: "nat \<Rightarrow> pb \<Rightarrow> single_index" where
  "index_entry p (PbChannel c) =
     \<lparr>si_type = SECTION_CHANNEL, si_position = p, si_cache = ChannelCache 0 (c_name c) (c_message_type c) (c_proto_desc c)\<rparr>"
| "index_entry p (PbChunkHeader ch) =
     \<lparr>si_type = SECTION_CHUNK_HEADER, si_position = p,
      si_cache = ChunkHeaderCache (ch_message_number ch) (ch_begin_time ch) (ch_end_time ch) (ch_raw_size ch)\<rparr>"
| "index_entry p (PbChunkBody b) =
     \<lparr>si_type = SECTION_CHUNK_BODY, si_position = p, si_cache = ChunkBodyCache (length b)\<rparr>"
| "index_entry p m = \<lparr>si_type = type_of m, si_position = p, si_cache = ChunkBodyCache 0\<rparr>"

fun index_from :: "codec \<Rightarrow> nat \<Rightarrow> pb list \<Rightarrow> single_index list" where
  "index_from k p [] = []"
| "index_from k p (m # ms) = index_entry p m # index_from k (p + length (enc k m)) ms"

fun header_item :: "header \<Rightarrow> item \<Rightarrow> header" where
  "header_item h (IChannel c) = h\<lparr>h_channel_number := h_channel_number h + 1\<rparr>"
| "header_item h (IChunk b) =
     (let ch = chunk_hdr (chunk_of b) in
      h\<lparr>h_chunk_number := h_chunk_number h + 1,
        h_begin_time := (if h_begin_time h = 0 then ch_begin_time ch else h_begin_time h),
        h_end_time := ch_end_time ch,
        h_message_number := h_message_number h + of_nat (length b)\<rparr>)"

definition first_position :: nat where
  "first_position = sizeof_Section + HEADER_LENGTH"

definition on_file :: "codec \<Rightarrow> header \<Rightarrow> pb list \<Rightarrow> byte list \<Rightarrow> os_file \<Rightarrow> bool" where
  "on_file k h ms old f \<longleftrightarrow>
     room f = None \<and> pos f = first_position + length (enc_all k ms) \<and>
     bytes f = enc_header k h @ enc_all k ms @ drop (first_position + length (enc_all k ms)) old"

definition count_name :: "string \<Rightarrow> single_message list \<Rightarrow> nat" where
  "count_name name ms = length (filter (\<lambda>m. sm_channel_name m = name) ms)"

definition counts :: "single_message list \<Rightarrow> string \<Rightarrow> nat option" where
  "counts ms name = (if count_name name ms = 0 then None else Some (count_name name ms))"

definition chunk_ok :: "chunk \<Rightarrow> bool" where
  "chunk_ok c \<longleftrightarrow> c = chunk_of (chunk_msgs c)"

definition fw_inv :: "codec \<Rightarrow> header \<Rightarrow> byte list \<Rightarrow> file_writer \<Rightarrow> item list \<Rightarrow> single_message list \<Rightarrow> bool" where
  "fw_inv k h old w its written \<longleftrightarrow>
     on_file k h (sections its) old (fw_file w) \<and>
     fw_header w = (foldl header_item h its)\<lparr>h_size := of_nat (pos (fw_file w))\<rparr> \<and>
     fw_index w = index_from k first_position (sections its) \<and>
     chunk_ok (chunk_active w) \<and> chunk_ok (chunk_flush w) \<and> is_writing w \<and>
     message_numbers w = counts written \<and>
     mset written = mset (messages its) + mset (chunk_msgs (chunk_flush w)) + mset (chunk_msgs (chunk_active w)) \<and>
     IChunk [] \<notin> set its"

lemma chunk_of_simps [simp]: "chunk_of [] = new_chunk" "chunk_of (ms @ [m]) = chunk_add m (chunk_of ms)"
  by (simp_all add: chunk_of_def)

lemma chunk_add_fields [simp]:
  "chunk_msgs (chunk_add m c) = chunk_msgs c @ [m]"
  "ch_message_number (chunk_hdr (chunk_add m c)) = ch_message_number (chunk_hdr c) + 1"
  by (simp_all add: chunk_add_def Let_def)

lemma chunk_of_fields [simp]: "chunk_msgs (chunk_of ms) = ms" "ch_message_number (chunk_hdr (chunk_of ms)) = length ms"
  by (induction ms rule: rev_induct) (simp_all add: new_chunk_def)

lemma chunk_ok_new [simp]: "chunk_ok new_chunk" "chunk_ok (chunk_clear c)" "chunk_msgs (chunk_clear c) = []" "chunk_msgs new_chunk = []"
  by (simp_all add: chunk_ok_def chunk_clear_def new_chunk_def)

lemma chunk_ok_add [simp]: "chunk_ok c \<Longrightarrow> chunk_ok (chunk_add m c)"
  by (simp add: chunk_ok_def)

lemma chunk_empty_iff: "chunk_ok c \<Longrightarrow> chunk_empty c \<longleftrightarrow> chunk_msgs c = []"
  using chunk_of_fields(2) [of "chunk_msgs c"] by (simp add: chunk_ok_def chunk_empty_def)

lemma sections_simps [simp]:
  "sections [] = []" "sections (a @ b) = sections a @ sections b" "sections [i] = item_sections i"
  by (simp_all add: sections_def)

lemma messages_simps [simp]:
  "messages [] = []" "messages (a @ b) = messages a @ messages b" "messages [i] = item_messages i"
  by (simp_all add: messages_def)

lemma enc_all_simps [simp]:
  "enc_all k [] = []" "enc_all k (a @ b) = enc_all k a @ enc_all k b" "enc_all k (m # ms) = enc k m @ enc_all k ms"
  by (simp_all add: enc_all_def)

lemma index_from_append:
  "index_from k p (a @ b) = index_from k p a @ index_from k (p + length (enc_all k a)) b"
  by (induction a arbitrary: p) (simp_all add: add.assoc)

lemma put_on_file:
  assumes "on_file k h ms old f" "good_codec k"
  shows "on_file k h (ms @ [m]) old (put_bytes (enc k m) f)" "pos (put_bytes (enc k m) f) = pos f + length (enc k m)"
proof -
  let ?P = "enc_header k h @ enc_all k ms"
  have p: "pos f = length ?P" and b: "bytes f = ?P @ drop (length ?P) old" and r: "room f = None"
    using assms length_enc_header [OF assms(2), of h] by (simp_all add: on_file_def first_position_def)
  have "put_bytes (enc k m) f =
    f\<lparr>bytes := (?P @ enc k m) @ drop (length (?P @ enc k m)) old, pos := length (?P @ enc k m)\<rparr>"
    unfolding put_bytes_def p b by (simp add: ac_simps)
  then show "on_file k h (ms @ [m]) old (put_bytes (enc k m) f)" "pos (put_bytes (enc k m) f) = pos f + length (enc k m)"
    using r length_enc_header [OF assms(2), of h]
    by (simp_all add: on_file_def first_position_def p add.assoc)
qed

section \<open>Every operation keeps the invariant\<close>

lemma fw_inv_file: "fw_inv k h old w its written \<Longrightarrow> on_file k h (sections its) old (fw_file w)"
  by (simp add: fw_inv_def)

lemma on_file_room: "on_file k h ms old f \<Longrightarrow> room f = None"
  by (simp add: on_file_def)

lemma fw_inv_open:
  assumes "good_codec k" "room f = None" "pos f = 0" "bytes f = old"
  shows "fst (fw_WriteHeader k h (fw_Open f))" "fw_inv k h old (snd (fw_WriteHeader k h (fw_Open f))) [] []"
proof -
  have r: "room (fw_file (fw_Open f)) = None" using assms by (simp add: fw_Open_def)
  have "put_bytes (enc_header k h) (SetPosition 0 f) =
    f\<lparr>bytes := enc_header k h @ drop first_position old, pos := first_position\<rparr>"
    using assms length_enc_header [OF assms(1), of h] by (simp add: put_bytes_def SetPosition_def first_position_def)
  then show "fst (fw_WriteHeader k h (fw_Open f))" "fw_inv k h old (snd (fw_WriteHeader k h (fw_Open f))) [] []"
    using assms WriteHeader_ok [OF r assms(1), of h]
    by (simp_all add: fw_inv_def on_file_def note_size_def fw_Open_def CurrentPosition_def counts_def count_name_def fun_eq_iff)
qed

lemma fw_WriteChannel_inv:
  assumes "good_codec k" "fw_inv k h old w its written"
  shows "fst (fw_WriteChannel k c w)" "fw_inv k h old (snd (fw_WriteChannel k c w)) (its @ [IChannel c]) written"
proof -
  note f = fw_inv_file [OF assms(2)]
  note p = put_on_file [OF f assms(1), of "PbChannel c"]
  have "pos (fw_file w) = first_position + length (enc_all k (sections its))" using f by (simp add: on_file_def)
  then show "fst (fw_WriteChannel k c w)" "fw_inv k h old (snd (fw_WriteChannel k c w)) (its @ [IChannel c]) written"
    using assms(2) WriteSection_ok [OF on_file_room [OF f], of "PbChannel c" k] p
    by (simp_all add: fw_WriteChannel_def Let_def fw_inv_def add_index_def note_size_def CurrentPosition_def index_from_append)
qed

lemma WriteChunk_inv:
  assumes "good_codec k" "fw_inv k h old w its written" "b \<noteq> []"
  defines "w' \<equiv> snd (WriteChunk k (chunk_hdr (chunk_of b)) b w)"
  shows "on_file k h (sections (its @ [IChunk b])) old (fw_file w')"
    "fw_header w' = (foldl header_item h (its @ [IChunk b]))\<lparr>h_size := of_nat (pos (fw_file w'))\<rparr>"
    "fw_index w' = index_from k first_position (sections (its @ [IChunk b]))"
    "chunk_active w' = chunk_active w" "chunk_flush w' = chunk_flush w" "is_writing w' = is_writing w"
    "message_numbers w' = message_numbers w"
proof -
  let ?ch = "chunk_hdr (chunk_of b)"
  note f = fw_inv_file [OF assms(2)]
  note p1 = put_on_file [OF f assms(1), of "PbChunkHeader ?ch"]
  note p2 = put_on_file [OF p1(1) assms(1), of "PbChunkBody b"]
  have q: "pos (fw_file w) = first_position + length (enc_all k (sections its))" using f by (simp add: on_file_def)
  note ws = WriteSection_ok [OF on_file_room [OF f], of "PbChunkHeader ?ch" k]
  define w1 where "w1 = add_index SECTION_CHUNK_HEADER (pos (fw_file w))
    (ChunkHeaderCache (ch_message_number ?ch) (ch_begin_time ?ch) (ch_end_time ?ch) (ch_raw_size ?ch))
    (note_size (w\<lparr>fw_file := put_bytes (enc k (PbChunkHeader ?ch)) (fw_file w)\<rparr>))"
  have w1: "fw_file w1 = put_bytes (enc k (PbChunkHeader ?ch)) (fw_file w)" by (simp add: w1_def add_index_def note_size_def)
  note ws2 = WriteSection_ok [of w1 "PbChunkBody b" k]
  have r: "room (fw_file w1) = None" using on_file_room [OF p1(1)] w1 by simp
  have w': "fw_file w' = put_bytes (enc k (PbChunkBody b)) (fw_file w1)"
    "fw_index w' = fw_index w @ [index_entry (pos (fw_file w)) (PbChunkHeader ?ch), index_entry (pos (fw_file w1)) (PbChunkBody b)]"
    "fw_header w' = (header_item (fw_header w) (IChunk b))\<lparr>h_size := of_nat (pos (fw_file w'))\<rparr>"
    "chunk_active w' = chunk_active w" "chunk_flush w' = chunk_flush w" "is_writing w' = is_writing w"
    "message_numbers w' = message_numbers w"
    using ws ws2 [OF r] unfolding w'_def WriteChunk_def
    by (simp_all add: Let_def CurrentPosition_def w1_def add_index_def note_size_def)
  show "on_file k h (sections (its @ [IChunk b])) old (fw_file w')" using p2(1) by (simp add: w'(1) w1)
  have "header_item (x\<lparr>h_size := n\<rparr>) i = (header_item x i)\<lparr>h_size := n\<rparr>" for x n i
    by (cases i) (simp_all add: Let_def)
  then show "fw_header w' = (foldl header_item h (its @ [IChunk b]))\<lparr>h_size := of_nat (pos (fw_file w'))\<rparr>"
    using assms(2) by (simp add: w'(3) fw_inv_def del: header_item.simps)
  show "fw_index w' = index_from k first_position (sections (its @ [IChunk b]))"
    using assms(2) q p1(2) by (simp add: w'(2) w1 fw_inv_def index_from_append)
qed (use assms in \<open>simp_all add: WriteChunk_def WriteSection_def Let_def note_size_def add_index_def split: prod.splits\<close>)

definition flushed :: "chunk \<Rightarrow> item list" where
  "flushed c = (if chunk_msgs c = [] then [] else [IChunk (chunk_msgs c)])"

lemma flushed_messages [simp]: "messages (flushed c) = chunk_msgs c"
  by (simp add: flushed_def)

lemma Flush_step_inv:
  assumes "good_codec k" "fw_inv k h old w its written"
  shows "fw_inv k h old (Flush_step k w) (its @ flushed (chunk_flush w)) written"
    and "chunk_msgs (chunk_flush (Flush_step k w)) = []" and "chunk_active (Flush_step k w) = chunk_active w"
proof -
  have ok: "chunk_ok (chunk_flush w)" and wr: "is_writing w" using assms(2) by (simp_all add: fw_inv_def)
  have "fw_inv k h old (Flush_step k w) (its @ flushed (chunk_flush w)) written \<and>
    chunk_msgs (chunk_flush (Flush_step k w)) = [] \<and> chunk_active (Flush_step k w) = chunk_active w"
  proof (cases "chunk_msgs (chunk_flush w) = []")
    case True
    then show ?thesis using assms(2) chunk_empty_iff [OF ok] wr by (simp add: Flush_step_def flushed_def)
  next
    case False
    let ?b = "chunk_msgs (chunk_flush w)"
    have c: "chunk_hdr (chunk_flush w) = chunk_hdr (chunk_of ?b)" using ok by (simp add: chunk_ok_def)
    note W = WriteChunk_inv [OF assms False]
    show ?thesis
      using assms(2) W False chunk_empty_iff [OF ok] wr
      by (simp add: Flush_step_def Let_def c fw_inv_def flushed_def)
  qed
  then show "fw_inv k h old (Flush_step k w) (its @ flushed (chunk_flush w)) written"
    "chunk_msgs (chunk_flush (Flush_step k w)) = []" "chunk_active (Flush_step k w) = chunk_active w" by blast+
qed

lemma counts_snoc: "counts (ms @ [m]) = (counts ms)(sm_channel_name m := Some (count_name (sm_channel_name m) ms + 1))"
  by (auto simp: counts_def count_name_def fun_eq_iff)

lemma swap_inv: "fw_inv k h old w its written \<Longrightarrow> fw_inv k h old (swap_chunks w) its written"
  by (simp add: fw_inv_def swap_chunks_def)

lemma fw_WriteMessage_inv:
  assumes "fw_inv k h old w its written"
  shows "fst (fw_WriteMessage m w)" "fw_inv k h old (snd (fw_WriteMessage m w)) its (written @ [m])"
proof -
  define w2 where "w2 = w\<lparr>chunk_active := chunk_add m (chunk_active w), message_numbers := counts (written @ [m])\<rparr>"
  have n: "message_numbers w = counts written" using assms by (simp add: fw_inv_def)
  have i: "fw_inv k h old w2 its (written @ [m])" using assms by (simp add: fw_inv_def w2_def)
  have "fw_WriteMessage m w = (True, w2) \<or> fw_WriteMessage m w = (True, swap_chunks w2)"
  proof -
    have "(case counts written (sm_channel_name m) of
       Some x \<Rightarrow> (message_numbers (w\<lparr>chunk_active := c\<rparr>))(sm_channel_name m \<mapsto> x + 1)
     | None \<Rightarrow> (message_numbers (w\<lparr>chunk_active := c\<rparr>))(sm_channel_name m \<mapsto> 1)) = counts (written @ [m])" for c
      unfolding counts_snoc by (simp add: counts_def n)
    then show ?thesis by (simp add: fw_WriteMessage_def Let_def n w2_def)
  qed
  then show "fst (fw_WriteMessage m w)" "fw_inv k h old (snd (fw_WriteMessage m w)) its (written @ [m])"
    using i swap_inv [OF i] by auto
qed

section \<open>Any run of the writer\<close>

datatype fw_event = Channel_written channel | Message_written single_message | Flush_round

fun fw_event_step :: "codec \<Rightarrow> fw_event \<Rightarrow> file_writer \<Rightarrow> file_writer" where
  "fw_event_step k (Channel_written c) w = snd (fw_WriteChannel k c w)"
| "fw_event_step k (Message_written m) w = snd (fw_WriteMessage m w)"
| "fw_event_step k Flush_round w = Flush_step k w"

definition fw_run :: "codec \<Rightarrow> header \<Rightarrow> os_file \<Rightarrow> fw_event list \<Rightarrow> file_writer" where
  "fw_run k h f es = fold (fw_event_step k) es (snd (fw_WriteHeader k h (fw_Open f)))"

fun written_messages :: "fw_event list \<Rightarrow> single_message list" where
  "written_messages [] = []"
| "written_messages (Message_written m # es) = m # written_messages es"
| "written_messages (_ # es) = written_messages es"

fun written_channels :: "fw_event list \<Rightarrow> channel list" where
  "written_channels [] = []"
| "written_channels (Channel_written c # es) = c # written_channels es"
| "written_channels (_ # es) = written_channels es"

fun item_channels :: "item \<Rightarrow> channel list" where
  "item_channels (IChannel c) = [c]"
| "item_channels (IChunk b) = []"

lemma fw_run_inv_from:
  assumes "good_codec k" "fw_inv k h old w its written"
  shows "\<exists>its'. fw_inv k h old (fold (fw_event_step k) es w) its' (written @ written_messages es) \<and>
    concat (map item_channels its') = concat (map item_channels its) @ written_channels es"
  using assms(2)
proof (induction es arbitrary: w its written)
  case (Cons e es)
  show ?case
  proof (cases e)
    case (Channel_written c)
    then show ?thesis using Cons.IH [OF fw_WriteChannel_inv(2) [OF assms(1) Cons.prems, of c]] by auto
  next
    case (Message_written m)
    then show ?thesis using Cons.IH [OF fw_WriteMessage_inv(2) [OF Cons.prems, of m]] by auto
  next
    case Flush_round
    have "concat (map item_channels (flushed c)) = []" for c by (simp add: flushed_def)
    then show ?thesis using Flush_round Cons.IH [OF Flush_step_inv(1) [OF assms(1) Cons.prems]] by auto
  qed
qed auto

section \<open>The closed file\<close>

text \<open>
  What a closed file holds: the final header, the sections of the items, the index, and what is
  left of the bytes an older, longer file had.
\<close>

definition final_index :: "codec \<Rightarrow> item list \<Rightarrow> single_message list \<Rightarrow> single_index list" where
  "final_index k its written = map (set_message_number (counts written)) (index_from k first_position (sections its))"

definition index_at :: "codec \<Rightarrow> item list \<Rightarrow> nat" where
  "index_at k its = first_position + length (enc_all k (sections its))"

definition final_header :: "codec \<Rightarrow> header \<Rightarrow> item list \<Rightarrow> single_message list \<Rightarrow> header" where
  "final_header k h its written =
     (foldl header_item h its)\<lparr>h_index_position := of_nat (index_at k its),
        h_size := of_nat (index_at k its + length (enc k (PbIndex (final_index k its written)))), h_is_complete := True\<rparr>"

definition closed_bytes :: "codec \<Rightarrow> header \<Rightarrow> item list \<Rightarrow> single_message list \<Rightarrow> byte list \<Rightarrow> byte list" where
  "closed_bytes k h its written old =
     enc_header k (final_header k h its written) @
     enc_all k (sections its @ [PbIndex (final_index k its written)]) @
     drop (index_at k its + length (enc k (PbIndex (final_index k its written)))) old"

lemma fw_Close_file:
  assumes "good_codec k" "fw_inv k h old w its written"
  obtains its' where "bytes (fw_file (fw_Close k w)) = closed_bytes k h its' written old"
    "mset (messages its') = mset written" "IChunk [] \<notin> set its'"
    "its' = its @ flushed (chunk_flush w) @ flushed (chunk_active w)"
proof -
  define w1 where "w1 = Flush_step k w"
  note F = Flush_step_inv [OF assms, folded w1_def]
  define w2 where "w2 = Flush_step k (swap_chunks w1)"
  note F2 = Flush_step_inv [OF assms(1) swap_inv [OF F(1)], folded w2_def]
  let ?its = "its @ flushed (chunk_flush w) @ flushed (chunk_active w)"
  have i: "fw_inv k h old w2 ?its written" using F2(1) F(3) by (simp add: swap_chunks_def)
  have e: "chunk_msgs (chunk_active w2) = []" "chunk_msgs (chunk_flush w2) = []"
    using F(2) F2(2,3) by (simp_all add: swap_chunks_def)
  have ms: "mset (messages ?its) = mset written" and ne: "IChunk [] \<notin> set ?its" using i e by (simp_all add: fw_inv_def)
  have wr: "is_writing w" using assms(2) by (simp add: fw_inv_def)
  let ?idx = "final_index k ?its written"
  note f = fw_inv_file [OF i]
  have p: "pos (fw_file w2) = index_at k ?its" using f by (simp add: on_file_def index_at_def)
  define w3 where "w3 = snd (WriteIndex k (w2\<lparr>is_writing := False\<rparr>))"
  note P = put_on_file [OF f assms(1), of "PbIndex ?idx"]
  have W: "WriteSection k (PbIndex ?idx) x = (True, note_size (x\<lparr>fw_file := put_bytes (enc k (PbIndex ?idx)) (fw_file x)\<rparr>))"
    if "fw_file x = fw_file w2" for x
    using WriteSection_ok [of x "PbIndex ?idx" k] on_file_room [OF f] that by simp
  have x: "fw_index w2 = index_from k first_position (sections ?its)" "message_numbers w2 = counts written"
    "fw_header w2 = (foldl header_item h ?its)\<lparr>h_size := of_nat (pos (fw_file w2))\<rparr>"
    using i by (simp_all add: fw_inv_def)
  have idx: "map (set_message_number (message_numbers w2)) (fw_index w2) = ?idx"
    by (simp only: x final_index_def)
  have w3: "fw_file w3 = put_bytes (enc k (PbIndex ?idx)) (fw_file w2)"
    "(fw_header w3)\<lparr>h_is_complete := True\<rparr> = final_header k h ?its written"
    unfolding w3_def WriteIndex_def Let_def
    using idx W P(2) p
    by (simp_all add: note_size_def CurrentPosition_def final_header_def x(3))
  let ?P = "enc_all k (sections ?its @ [PbIndex ?idx])"
  have b: "bytes (fw_file w3) = enc_header k h @ ?P @ drop (first_position + length ?P) old" "room (fw_file w3) = None"
    using P(1) by (simp_all add: on_file_def w3(1))
  have "fw_Close k w = snd (fw_WriteHeader k (final_header k h ?its written)
    (w3\<lparr>fw_header := final_header k h ?its written\<rparr>))"
    using wr w3(2) by (simp add: fw_Close_def Let_def w1_def [symmetric] w2_def [symmetric] w3_def [symmetric])
  then have "fw_file (fw_Close k w) = put_bytes (enc_header k (final_header k h ?its written)) (SetPosition 0 (fw_file w3))"
    using WriteHeader_ok [of "w3\<lparr>fw_header := final_header k h ?its written\<rparr>" k] b(2) assms(1) by (simp add: note_size_def)
  then have "bytes (fw_file (fw_Close k w)) = closed_bytes k h ?its written old"
    using length_enc_header [OF assms(1)] b(1)
    by (simp add: put_bytes_def SetPosition_def closed_bytes_def index_at_def first_position_def add.assoc)
  then show thesis using that ms ne by blast
qed

text \<open>The header counts the messages, chunks and channels.\<close>

lemma foldl_header_item:
  "h_message_number (foldl header_item h its) = h_message_number h + of_nat (length (messages its))"
  "h_channel_number (foldl header_item h its) = h_channel_number h + of_nat (length (concat (map item_channels its)))"
  "h_begin_time h = 0 \<Longrightarrow> its = [] \<Longrightarrow> h_begin_time (foldl header_item h its) = 0"
proof -
  have "h_message_number (foldl header_item h its) = h_message_number h + of_nat (length (messages its)) \<and>
    h_channel_number (foldl header_item h its) = h_channel_number h + of_nat (length (concat (map item_channels its)))"
  proof (induction its rule: rev_induct)
    case (snoc i its)
    then show ?case by (cases i) (simp_all add: Let_def)
  qed simp
  then show "h_message_number (foldl header_item h its) = h_message_number h + of_nat (length (messages its))"
    "h_channel_number (foldl header_item h its) = h_channel_number h + of_nat (length (concat (map item_channels its)))" by blast+
qed simp

end
