(* ===== verification/RecordReader.thy ===== *)
theory RecordReader
  imports RecordFileWriter
begin

text \<open>
  Reading record files: \<open>cyber/record/file/record_file_reader.{h,cc}\<close> and
  \<open>cyber/record/record_reader.cc\<close>. A loop over the sections of a file is a \<open>partial_function\<close>, whose
  result \<open>None\<close> means that it never ends.
\<close>

section \<open>The file reader\<close>

record file_reader =
  fr_file :: os_file
  fr_header :: header
  fr_index :: "single_index list"
  end_of_file :: bool

definition ReadSection_struct :: "file_reader \<Rightarrow> section_struct option \<times> file_reader" where
  "ReadSection_struct r =
     (let (bs, f) = file_read sizeof_Section (fr_file r); r1 = r\<lparr>fr_file := f\<rparr> in
      if length bs = 0 then (None, r1\<lparr>end_of_file := True\<rparr>)
      else if length bs \<noteq> sizeof_Section then (None, r1)
      else (Some (section_of_bytes bs), r1))"

text \<open>
  \<open>ReadSection<T>\<close>. The stream reads one block of the size of the message, or of its default size
  when that is 0. A negative size never gives a message; where it leaves the position is not
  modelled.
\<close>

definition ReadSection_message :: "codec \<Rightarrow> section_type \<Rightarrow> int \<Rightarrow> file_reader \<Rightarrow> pb option \<times> file_reader" where
  "ReadSection_message k ty sz r =
     (if sz < - (2 ^ 31) \<or> sz > 2 ^ 31 - 1 then (None, r)
      else if sz < 0 then (None, r)
      else
        let n = nat sz;
            (block, f) = file_read (if n = 0 then default_block k else n) (fr_file r);
            r1 = r\<lparr>fr_file := f\<rparr>
        in case parse k ty (take n block) of
             None \<Rightarrow> (None, r1\<lparr>end_of_file := (case at_end k ty (take n block) of Some b \<Rightarrow> b | None \<Rightarrow> end_of_file r1)\<rparr>)
           | Some m \<Rightarrow> if int (length (ser k m)) \<noteq> sz then (None, r1) else (Some m, r1))"

definition fr_SetPosition :: "int \<Rightarrow> file_reader \<Rightarrow> bool \<times> file_reader" where
  "fr_SetPosition p r = (if p < 0 then (False, r) else (True, r\<lparr>fr_file := SetPosition (nat p) (fr_file r)\<rparr>))"

definition SkipSection :: "int \<Rightarrow> file_reader \<Rightarrow> bool \<times> file_reader" where
  "SkipSection sz r =
     (let p = int (CurrentPosition (fr_file r)) in
      if sz > (2 ^ 63 - 1) - p then (False, r) else fr_SetPosition (p + sz) r)"

definition fr_Reset :: "file_reader \<Rightarrow> bool \<times> file_reader" where
  "fr_Reset r =
     (case fr_SetPosition (int (sizeof_Section + HEADER_LENGTH)) r of
        (False, r1) \<Rightarrow> (False, r1)
      | (True, r1) \<Rightarrow> (True, r1\<lparr>end_of_file := False\<rparr>))"

definition ReadHeader :: "codec \<Rightarrow> file_reader \<Rightarrow> bool \<times> file_reader" where
  "ReadHeader k r =
     (case ReadSection_struct r of
        (None, r1) \<Rightarrow> (False, r1)
      | (Some s, r1) \<Rightarrow>
          if s_type s \<noteq> section_number SECTION_HEADER then (False, r1)
          else
            (case ReadSection_message k SECTION_HEADER (s_size s) r1 of
               (Some (PbHeader h), r2) \<Rightarrow> fr_SetPosition (int (sizeof_Section + HEADER_LENGTH)) (r2\<lparr>fr_header := h\<rparr>)
             | (_, r2) \<Rightarrow> (False, r2)))"

text \<open>\<open>Open\<close>: \<open>None\<close> stands for a path that does not exist or cannot be opened.\<close>

definition fr_Open :: "codec \<Rightarrow> byte list option \<Rightarrow> bool \<times> file_reader" where
  "fr_Open k content =
     (let r = \<lparr>fr_file = \<lparr>bytes = [], pos = 0, room = None\<rparr>, fr_header = empty_header, fr_index = [], end_of_file = False\<rparr> in
      case content of
        None \<Rightarrow> (False, r)
      | Some bs \<Rightarrow> ReadHeader k (r\<lparr>fr_file := \<lparr>bytes = bs, pos = 0, room = None\<rparr>\<rparr>))"

definition ReadIndex :: "codec \<Rightarrow> file_reader \<Rightarrow> bool \<times> file_reader" where
  "ReadIndex k r =
     (if \<not> h_is_complete (fr_header r) then (False, r)
      else
        case fr_SetPosition (sint (h_index_position (fr_header r))) r of
          (False, r1) \<Rightarrow> (False, r1)
        | (True, r1) \<Rightarrow>
            (case ReadSection_struct r1 of
               (None, r2) \<Rightarrow> (False, r2)
             | (Some s, r2) \<Rightarrow>
                 if s_type s \<noteq> section_number SECTION_INDEX then (False, r2)
                 else
                   (case ReadSection_message k SECTION_INDEX (s_size s) r2 of
                      (Some (PbIndex idx), r3) \<Rightarrow> (True, snd (fr_Reset (r3\<lparr>fr_index := idx\<rparr>)))
                    | (_, r3) \<Rightarrow> (False, r3))))"

section \<open>The record reader\<close>

record record_reader =
  rr_file :: file_reader
  rr_valid :: bool
  rr_header :: header
  channel_info :: "string \<rightharpoonup> nat \<times> string \<times> string"   \<comment> \<open>number, type, description\<close>
  rr_chunk :: chunk_body
  message_index :: nat
  reach_end :: bool

fun insert_channel :: "single_index \<Rightarrow> (string \<rightharpoonup> nat \<times> string \<times> string) \<Rightarrow> (string \<rightharpoonup> nat \<times> string \<times> string)" where
  "insert_channel si info =
     (if si_type si \<noteq> SECTION_CHANNEL then info
      else
        case si_cache si of
          ChannelCache n name ty desc \<Rightarrow> (if info name = None then info(name \<mapsto> (n, ty, desc)) else info)
        | _ \<Rightarrow> info)"

definition new_record_reader :: "codec \<Rightarrow> byte list option \<Rightarrow> record_reader" where
  "new_record_reader k content =
     (case fr_Open k content of
        (ok, fr) \<Rightarrow>
          let r = \<lparr>rr_file = fr, rr_valid = False, rr_header = empty_header, channel_info = Map.empty,
                   rr_chunk = [], message_index = 0, reach_end = False\<rparr> in
          if \<not> ok then r
          else
            case ReadIndex k fr of
              (found, fr1) \<Rightarrow>
                r\<lparr>rr_valid := True, rr_header := fr_header fr,
                  channel_info := (if found then fold insert_channel (fr_index fr1) Map.empty else Map.empty),
                  rr_file := snd (fr_Reset fr1)\<rparr>)"

definition rr_Reset :: "record_reader \<Rightarrow> record_reader" where
  "rr_Reset r = r\<lparr>rr_file := snd (fr_Reset (rr_file r)), reach_end := False, message_index := 0, rr_chunk := []\<rparr>"

definition rr_GetMessageNumber :: "string \<Rightarrow> record_reader \<Rightarrow> nat" where
  "rr_GetMessageNumber name r = (case channel_info r name of Some (n, _, _) \<Rightarrow> n | None \<Rightarrow> 0)"

definition rr_GetMessageType :: "string \<Rightarrow> record_reader \<Rightarrow> string" where
  "rr_GetMessageType name r = (case channel_info r name of Some (_, ty, _) \<Rightarrow> ty | None \<Rightarrow> [])"

definition rr_GetProtoDesc :: "string \<Rightarrow> record_reader \<Rightarrow> string" where
  "rr_GetProtoDesc name r = (case channel_info r name of Some (_, _, desc) \<Rightarrow> desc | None \<Rightarrow> [])"

definition rr_GetChannelList :: "record_reader \<Rightarrow> string set" where
  "rr_GetChannelList r = dom (channel_info r)"

text \<open>
  The loop of \<open>ReadNextChunk\<close>; \<open>skip\<close> is \<open>skip_next_chunk_body\<close>. A body that fails to parse leaves an
  empty chunk here; the library may leave a part of its messages in it.
\<close>

partial_function (option) chunk_loop ::
  "codec \<Rightarrow> u64 \<Rightarrow> u64 \<Rightarrow> bool \<Rightarrow> record_reader \<Rightarrow> (bool \<times> record_reader) option"
where
  "chunk_loop k begin_time end_time skip r =
     (if reach_end r then Some (False, r)
      else
        case ReadSection_struct (rr_file r) of
          (sec, fr) \<Rightarrow>
            let r1 = r\<lparr>rr_file := fr\<rparr> in
            (case sec of
               None \<Rightarrow> Some (False, r1)
             | Some s \<Rightarrow>
                 if s_type s = section_number SECTION_INDEX then
                   chunk_loop k begin_time end_time skip (r1\<lparr>rr_file := snd (SkipSection (s_size s) fr), reach_end := True\<rparr>)
                 else if s_type s = section_number SECTION_CHANNEL then
                   (case ReadSection_message k SECTION_CHANNEL (s_size s) fr of
                      (msg, fr1) \<Rightarrow>
                        if msg = None then Some (False, r1\<lparr>rr_file := fr1\<rparr>)
                        else chunk_loop k begin_time end_time skip (r1\<lparr>rr_file := fr1\<rparr>))
                 else if s_type s = section_number SECTION_CHUNK_HEADER then
                   (case ReadSection_message k SECTION_CHUNK_HEADER (s_size s) fr of
                      (msg, fr1) \<Rightarrow>
                        (case msg of
                           Some (PbChunkHeader h) \<Rightarrow>
                             if ch_begin_time h > end_time then Some (False, r1\<lparr>rr_file := fr1\<rparr>)
                             else chunk_loop k begin_time end_time (if ch_end_time h < begin_time then True else skip)
                                    (r1\<lparr>rr_file := fr1\<rparr>)
                         | _ \<Rightarrow> Some (False, r1\<lparr>rr_file := fr1\<rparr>)))
                 else if s_type s = section_number SECTION_CHUNK_BODY then
                   (if skip then
                      chunk_loop k begin_time end_time False (r1\<lparr>rr_file := snd (SkipSection (s_size s) fr)\<rparr>)
                    else
                      (case ReadSection_message k SECTION_CHUNK_BODY (s_size s) fr of
                         (msg, fr1) \<Rightarrow>
                           (case msg of
                              Some (PbChunkBody b) \<Rightarrow> Some (True, r1\<lparr>rr_file := fr1, rr_chunk := b\<rparr>)
                            | _ \<Rightarrow> Some (False, r1\<lparr>rr_file := fr1, rr_chunk := []\<rparr>))))
                 else Some (False, r1)))"

definition ReadNextChunk :: "codec \<Rightarrow> u64 \<Rightarrow> u64 \<Rightarrow> record_reader \<Rightarrow> (bool \<times> record_reader) option" where
  "ReadNextChunk k begin_time end_time r = chunk_loop k begin_time end_time False r"

text \<open>The loop of \<open>ReadMessage\<close> over the messages left in the chunk, with the message index after it.\<close>

datatype scan_result = Exhausted | Beyond | Found single_message

fun scan_chunk :: "u64 \<Rightarrow> u64 \<Rightarrow> single_message list \<Rightarrow> nat \<Rightarrow> scan_result \<times> nat" where
  "scan_chunk begin_time end_time [] i = (Exhausted, i)"
| "scan_chunk begin_time end_time (m # ms) i =
     (if sm_time m > end_time then (Beyond, i)
      else if sm_time m < begin_time then scan_chunk begin_time end_time ms (i + 1)
      else (Found m, i + 1))"

partial_function (option) ReadMessage ::
  "codec \<Rightarrow> u64 \<Rightarrow> u64 \<Rightarrow> record_reader \<Rightarrow> (single_message option \<times> record_reader) option"
where
  "ReadMessage k begin_time end_time r =
     (if \<not> rr_valid r then Some (None, r)
      else if begin_time > h_end_time (rr_header r) \<or> end_time < h_begin_time (rr_header r) then Some (None, r)
      else
        case scan_chunk begin_time end_time (drop (message_index r) (rr_chunk r)) (message_index r) of
          (res, i) \<Rightarrow>
            (case res of
               Found m \<Rightarrow> Some (Some m, r\<lparr>message_index := i\<rparr>)
             | Beyond \<Rightarrow> Some (None, r\<lparr>message_index := i\<rparr>)
             | Exhausted \<Rightarrow>
                 (case ReadNextChunk k begin_time end_time (r\<lparr>message_index := i\<rparr>) of
                    None \<Rightarrow> None
                  | Some (ok, r1) \<Rightarrow>
                      if ok then ReadMessage k begin_time end_time (r1\<lparr>message_index := 0\<rparr>)
                      else Some (None, r1))))"

text \<open>A client that reads until there is no message, at most \<open>n\<close> times.\<close>

fun read_upto :: "codec \<Rightarrow> u64 \<Rightarrow> u64 \<Rightarrow> nat \<Rightarrow> record_reader \<Rightarrow> (single_message list \<times> record_reader) option" where
  "read_upto k b e 0 r = Some ([], r)"
| "read_upto k b e (Suc n) r =
     (case ReadMessage k b e r of
        None \<Rightarrow> None
      | Some (None, r1) \<Rightarrow> Some ([], r1)
      | Some (Some m, r1) \<Rightarrow> map_option (\<lambda>(ms, r2). (m # ms, r2)) (read_upto k b e n r1))"

section \<open>Reading what was written\<close>

text \<open>The position of a file is before the sections \<open>ms\<close>, with \<open>rest\<close> after them.\<close>

definition at_sections :: "codec \<Rightarrow> pb list \<Rightarrow> byte list \<Rightarrow> os_file \<Rightarrow> bool" where
  "at_sections k ms rest f \<longleftrightarrow> (\<exists>pre. bytes f = pre @ enc_all k ms @ rest \<and> pos f = length pre)"

definition readable :: "codec \<Rightarrow> pb \<Rightarrow> bool" where
  "readable k m \<longleftrightarrow> length (ser k m) < 2 ^ 31"

lemma at_sections_advance:
  assumes "bytes f = pre @ enc k m @ enc_all k ms @ rest"
  shows "at_sections k ms rest (f\<lparr>pos := length pre + length (enc k m)\<rparr>)"
  using assms unfolding at_sections_def by (intro exI [of _ "pre @ enc k m"]) simp

lemma ReadSection_struct_ok:
  assumes "bytes (fr_file r) = pre @ enc k m @ post" "pos (fr_file r) = length pre" "readable k m"
  shows "ReadSection_struct r =
    (Some \<lparr>s_type = section_number (type_of m), s_size = int (length (ser k m))\<rparr>,
     r\<lparr>fr_file := (fr_file r)\<lparr>pos := length pre + sizeof_Section\<rparr>\<rparr>)"
proof -
  let ?s = "\<lparr>s_type = section_number (type_of m), s_size = int (length (ser k m))\<rparr>"
  have "section_number (type_of m) < 2 ^ 32" by (cases "type_of m") simp_all
  then have "section_of_bytes (section_bytes ?s) = ?s"
    using assms(3) by (intro section_roundtrip) (simp_all add: readable_def)
  moreover have "file_read sizeof_Section (fr_file r) = (section_bytes ?s, (fr_file r)\<lparr>pos := length pre + sizeof_Section\<rparr>)"
    using assms(1,2) by (intro file_read_append [of _ pre _ "ser k m @ post"]) (simp_all add: enc_def)
  ultimately show ?thesis by (simp add: ReadSection_struct_def Let_def)
qed

lemma ReadSection_message_ok:
  assumes "good_codec k" "bytes (fr_file r) = pre @ enc k m @ post" "pos (fr_file r) = length pre + sizeof_Section" "readable k m"
    "ser k m \<noteq> []"
  shows "ReadSection_message k (type_of m) (int (length (ser k m))) r =
    (Some m, r\<lparr>fr_file := (fr_file r)\<lparr>pos := length pre + length (enc k m)\<rparr>\<rparr>)"
proof -
  let ?s = "\<lparr>s_type = section_number (type_of m), s_size = int (length (ser k m))\<rparr>"
  have "file_read (length (ser k m)) (fr_file r) =
      (ser k m, (fr_file r)\<lparr>pos := length (pre @ section_bytes ?s) + length (ser k m)\<rparr>)"
    using assms(2,3) by (intro file_read_append [of _ "pre @ section_bytes ?s" _ post]) (simp_all add: enc_def)
  moreover have "parse k (type_of m) (ser k m) = Some m" using assms(1) by (simp add: good_codec_def)
  ultimately show ?thesis
    using assms(4,5) by (simp add: ReadSection_message_def Let_def readable_def length_enc add.assoc)
qed

lemma ReadSection_message_fst:
  assumes "good_codec k" "bytes (fr_file r) = pre @ enc k m @ post" "pos (fr_file r) = length pre + sizeof_Section" "readable k m"
  shows "\<exists>f'. bytes f' = bytes (fr_file r) \<and> room f' = room (fr_file r) \<and>
    ReadSection_message k (type_of m) (int (length (ser k m))) r = (Some m, r\<lparr>fr_file := f'\<rparr>)"
proof (cases "ser k m = []")
  case False
  show ?thesis
    unfolding ReadSection_message_ok [OF assms False]
    by (rule exI [of _ "(fr_file r)\<lparr>pos := length pre + length (enc k m)\<rparr>"]) simp
next
  case True
  have "parse k (type_of m) [] = Some m" using assms(1) True by (metis good_codec_def)
  then show ?thesis
    using True by (intro exI [of _ "snd (file_read (default_block k) (fr_file r))"])
      (simp add: ReadSection_message_def Let_def file_read_def)
qed

text \<open>The reader is before sections, which an index follows, and has not reached the end.\<close>

definition before :: "codec \<Rightarrow> pb list \<Rightarrow> byte list \<Rightarrow> record_reader \<Rightarrow> bool" where
  "before k ms rest r \<longleftrightarrow>
     \<not> reach_end r \<and> (\<exists>idx. at_sections k (ms @ [PbIndex idx]) rest (fr_file (rr_file r)) \<and> readable k (PbIndex idx)) \<and>
     (\<forall>m\<in>set ms. readable k m) \<and> length (bytes (fr_file (rr_file r))) < 2 ^ 63"

abbreviation reading :: "codec \<Rightarrow> item list \<Rightarrow> byte list \<Rightarrow> record_reader \<Rightarrow> bool" where
  "reading k its \<equiv> before k (sections its)"

text \<open>The next chunk a window wants, and the items after it.\<close>

fun next_chunk :: "u64 \<Rightarrow> u64 \<Rightarrow> item list \<Rightarrow> (chunk_body \<times> item list) option" where
  "next_chunk b e [] = None"
| "next_chunk b e (IChannel c # its) = next_chunk b e its"
| "next_chunk b e (IChunk ms # its) =
     (let ch = chunk_hdr (chunk_of ms) in
      if ch_begin_time ch > e then None
      else if ch_end_time ch < b then next_chunk b e its
      else Some (ms, its))"

lemma SkipSection_file: "bytes (fr_file (snd (SkipSection n r))) = bytes (fr_file r)"
  by (simp add: SkipSection_def fr_SetPosition_def SetPosition_def Let_def)

text \<open>A section read in the loop: its struct, and its message unless it is the index.\<close>

lemma section_step:
  assumes "good_codec k" "at_sections k (m # ms) rest (fr_file fr)" "readable k m"
  obtains fr1 where "ReadSection_struct fr = (Some \<lparr>s_type = section_number (type_of m), s_size = int (length (ser k m))\<rparr>, fr1)"
    "ser k m \<noteq> [] \<Longrightarrow> \<exists>fr2. ReadSection_message k (type_of m) (int (length (ser k m))) fr1 = (Some m, fr2) \<and> at_sections k ms rest (fr_file fr2)"
    "length (bytes (fr_file fr)) < 2 ^ 63 \<Longrightarrow> \<exists>fr2. SkipSection (int (length (ser k m))) fr1 = (True, fr2) \<and> at_sections k ms rest (fr_file fr2)"
proof -
  obtain pre where p: "bytes (fr_file fr) = pre @ enc k m @ enc_all k ms @ rest" "pos (fr_file fr) = length pre"
    using assms(2) by (auto simp: at_sections_def)
  define fr1 where "fr1 = fr\<lparr>fr_file := (fr_file fr)\<lparr>pos := length pre + sizeof_Section\<rparr>\<rparr>"
  have p1: "bytes (fr_file fr1) = pre @ enc k m @ enc_all k ms @ rest" "pos (fr_file fr1) = length pre + sizeof_Section"
    using p by (simp_all add: fr1_def)
  show thesis
  proof (rule that)
    show "ReadSection_struct fr = (Some \<lparr>s_type = section_number (type_of m), s_size = int (length (ser k m))\<rparr>, fr1)"
      unfolding fr1_def by (rule ReadSection_struct_ok [OF p assms(3)])
    show "\<exists>fr2. ReadSection_message k (type_of m) (int (length (ser k m))) fr1 = (Some m, fr2) \<and> at_sections k ms rest (fr_file fr2)"
      if "ser k m \<noteq> []"
      using ReadSection_message_ok [OF assms(1) p1 assms(3) that] at_sections_advance [OF p1(1)] by simp
    show "\<exists>fr2. SkipSection (int (length (ser k m))) fr1 = (True, fr2) \<and> at_sections k ms rest (fr_file fr2)"
      if "length (bytes (fr_file fr)) < 2 ^ 63"
    proof -
      have l: "length pre + sizeof_Section + length (ser k m) < 2 ^ 63" using that by (simp add: p(1) length_enc)
      then have "int (length pre + sizeof_Section + length (ser k m)) < 2 ^ 63" by simp
      then have n: "\<not> int (length (ser k m)) > 2 ^ 63 - 1 - int (pos (fr_file fr1))" by (simp add: p1(2))
      have "nat (int (pos (fr_file fr1)) + int (length (ser k m))) = length pre + length (enc k m)"
        by (simp add: p1(2) length_enc)
      then have "SkipSection (int (length (ser k m))) fr1 =
        (True, fr1\<lparr>fr_file := (fr_file fr1)\<lparr>pos := length pre + length (enc k m)\<rparr>\<rparr>)"
        using n by (simp add: SkipSection_def fr_SetPosition_def SetPosition_def CurrentPosition_def Let_def)
      then show ?thesis using at_sections_advance [OF p1(1)] by simp
    qed
  qed
qed

lemma ser_nonempty: "good_codec k \<Longrightarrow> (\<And>i. m \<noteq> PbIndex i) \<Longrightarrow> ser k m \<noteq> []"
  by (auto simp: good_codec_def)

lemma ReadSection_bytes:
  "ReadSection_struct fr = (x, fr1) \<Longrightarrow> bytes (fr_file fr1) = bytes (fr_file fr)"
  "ReadSection_message k ty n fr = (y, fr1) \<Longrightarrow> bytes (fr_file fr1) = bytes (fr_file fr)"
  by (auto simp: ReadSection_struct_def ReadSection_message_def file_read_def Let_def split: if_splits option.splits)

lemma before_fields [simp]:
  "before k ms rest (r\<lparr>rr_chunk := c\<rparr>) = before k ms rest r" "before k ms rest (r\<lparr>message_index := i\<rparr>) = before k ms rest r"
  by (simp_all add: before_def)

text \<open>One round of the loop for each kind of section.\<close>

lemma loop_section:
  assumes "good_codec k" "before k (m # ms) rest r" "\<And>i. m \<noteq> PbIndex i"
  obtains fr1 fr2 fr3 where "ReadSection_struct (rr_file r) = (Some \<lparr>s_type = section_number (type_of m), s_size = int (length (ser k m))\<rparr>, fr1)"
    "ReadSection_message k (type_of m) (int (length (ser k m))) fr1 = (Some m, fr2)" "before k ms rest (r\<lparr>rr_file := fr2\<rparr>)"
    "SkipSection (int (length (ser k m))) fr1 = (True, fr3)" "before k ms rest (r\<lparr>rr_file := fr3\<rparr>)" "\<not> reach_end r"
proof -
  obtain idx where a: "at_sections k (m # ms @ [PbIndex idx]) rest (fr_file (rr_file r))" "readable k (PbIndex idx)"
    and rd: "readable k m" "\<forall>m\<in>set ms. readable k m" and r: "\<not> reach_end r" "length (bytes (fr_file (rr_file r))) < 2 ^ 63"
    using assms(2) by (auto simp: before_def)
  have ne: "ser k m \<noteq> []" by (rule ser_nonempty [OF assms(1,3)])
  obtain fr1 where s: "ReadSection_struct (rr_file r) = (Some \<lparr>s_type = section_number (type_of m), s_size = int (length (ser k m))\<rparr>, fr1)"
    and m: "\<exists>fr2. ReadSection_message k (type_of m) (int (length (ser k m))) fr1 = (Some m, fr2) \<and> at_sections k (ms @ [PbIndex idx]) rest (fr_file fr2)"
    and n: "\<exists>fr2. SkipSection (int (length (ser k m))) fr1 = (True, fr2) \<and> at_sections k (ms @ [PbIndex idx]) rest (fr_file fr2)"
    by (rule section_step [OF assms(1) a(1) rd(1)]) (use ne r(2) in blast)
  obtain fr2 where m: "ReadSection_message k (type_of m) (int (length (ser k m))) fr1 = (Some m, fr2)"
    "at_sections k (ms @ [PbIndex idx]) rest (fr_file fr2)" using m by blast
  obtain fr3 where n: "SkipSection (int (length (ser k m))) fr1 = (True, fr3)"
    "at_sections k (ms @ [PbIndex idx]) rest (fr_file fr3)" using n by blast
  have "bytes (fr_file fr1) = bytes (fr_file (rr_file r))" using ReadSection_bytes(1) s by blast
  then have bs: "bytes (fr_file fr2) = bytes (fr_file (rr_file r))" "bytes (fr_file fr3) = bytes (fr_file (rr_file r))"
    using ReadSection_bytes(2) [OF m(1)] SkipSection_file [of "int (length (ser k m))" fr1] n(1) by simp_all
  have "before k ms rest (r\<lparr>rr_file := fr2\<rparr>)" "before k ms rest (r\<lparr>rr_file := fr3\<rparr>)"
    using m(2) n(2) a(2) rd(2) r bs by (auto simp: before_def)
  then show thesis using that s m(1) n(1) r(1) by blast
qed

lemma loop_channel:
  assumes "good_codec k" "before k (PbChannel c # ms) rest r"
  obtains fr where "chunk_loop k b e skip r = chunk_loop k b e skip (r\<lparr>rr_file := fr\<rparr>)" "before k ms rest (r\<lparr>rr_file := fr\<rparr>)"
proof -
  obtain fr1 fr2 where s: "ReadSection_struct (rr_file r) = (Some \<lparr>s_type = section_number SECTION_CHANNEL, s_size = int (length (ser k (PbChannel c)))\<rparr>, fr1)"
    "ReadSection_message k SECTION_CHANNEL (int (length (ser k (PbChannel c)))) fr1 = (Some (PbChannel c), fr2)"
    "before k ms rest (r\<lparr>rr_file := fr2\<rparr>)" "\<not> reach_end r"
    by (rule loop_section [OF assms]) simp_all
  have "chunk_loop k b e skip r = chunk_loop k b e skip (r\<lparr>rr_file := fr2\<rparr>)"
    using s by (subst chunk_loop.simps) (simp add: Let_def)
  then show thesis using that s(3) by blast
qed

lemma loop_header:
  assumes "good_codec k" "before k (PbChunkHeader ch # ms) rest r"
  obtains fr where "chunk_loop k b e skip r =
      (if ch_begin_time ch > e then Some (False, r\<lparr>rr_file := fr\<rparr>)
       else chunk_loop k b e (if ch_end_time ch < b then True else skip) (r\<lparr>rr_file := fr\<rparr>))"
    "before k ms rest (r\<lparr>rr_file := fr\<rparr>)"
proof -
  obtain fr1 fr2 where s: "ReadSection_struct (rr_file r) = (Some \<lparr>s_type = section_number SECTION_CHUNK_HEADER, s_size = int (length (ser k (PbChunkHeader ch)))\<rparr>, fr1)"
    "ReadSection_message k SECTION_CHUNK_HEADER (int (length (ser k (PbChunkHeader ch)))) fr1 = (Some (PbChunkHeader ch), fr2)"
    "before k ms rest (r\<lparr>rr_file := fr2\<rparr>)" "\<not> reach_end r"
    by (rule loop_section [OF assms]) simp_all
  have "chunk_loop k b e skip r =
      (if ch_begin_time ch > e then Some (False, r\<lparr>rr_file := fr2\<rparr>)
       else chunk_loop k b e (if ch_end_time ch < b then True else skip) (r\<lparr>rr_file := fr2\<rparr>))"
    using s by (subst chunk_loop.simps) (simp add: Let_def)
  then show thesis using that s(3) by blast
qed

lemma loop_body:
  assumes "good_codec k" "before k (PbChunkBody c # ms) rest r"
  obtains fr fr' where "chunk_loop k b e True r = chunk_loop k b e False (r\<lparr>rr_file := fr\<rparr>)" "before k ms rest (r\<lparr>rr_file := fr\<rparr>)"
    "chunk_loop k b e False r = Some (True, r\<lparr>rr_file := fr', rr_chunk := c\<rparr>)" "before k ms rest (r\<lparr>rr_file := fr'\<rparr>)"
proof -
  obtain fr1 fr2 fr3 where s: "ReadSection_struct (rr_file r) = (Some \<lparr>s_type = section_number SECTION_CHUNK_BODY, s_size = int (length (ser k (PbChunkBody c)))\<rparr>, fr1)"
    "ReadSection_message k SECTION_CHUNK_BODY (int (length (ser k (PbChunkBody c)))) fr1 = (Some (PbChunkBody c), fr2)"
    "before k ms rest (r\<lparr>rr_file := fr2\<rparr>)" "SkipSection (int (length (ser k (PbChunkBody c)))) fr1 = (True, fr3)"
    "before k ms rest (r\<lparr>rr_file := fr3\<rparr>)" "\<not> reach_end r"
    by (rule loop_section [OF assms]) simp_all
  have "chunk_loop k b e True r = chunk_loop k b e False (r\<lparr>rr_file := fr3\<rparr>)"
    using s by (subst chunk_loop.simps) (simp add: Let_def)
  moreover have "chunk_loop k b e False r = Some (True, r\<lparr>rr_file := fr2, rr_chunk := c\<rparr>)"
    using s by (subst chunk_loop.simps) (simp add: Let_def)
  ultimately show thesis using that s(3,5) by blast
qed

lemma loop_index:
  assumes "good_codec k" "before k [] rest r"
  obtains fr where "chunk_loop k b e skip r = Some (False, r\<lparr>rr_file := fr, reach_end := True\<rparr>)"
    "bytes (fr_file fr) = bytes (fr_file (rr_file r))"
proof -
  obtain idx where i: "at_sections k (PbIndex idx # []) rest (fr_file (rr_file r))" "readable k (PbIndex idx)" "\<not> reach_end r"
    using assms(2) by (auto simp: before_def)
  obtain fr1 where s: "ReadSection_struct (rr_file r) =
      (Some \<lparr>s_type = section_number (type_of (PbIndex idx)), s_size = int (length (ser k (PbIndex idx)))\<rparr>, fr1)"
    by (rule section_step [OF assms(1) i(1,2)]) blast
  let ?fr = "snd (SkipSection (int (length (ser k (PbIndex idx)))) fr1)"
  have "chunk_loop k b e skip r = Some (False, r\<lparr>rr_file := ?fr, reach_end := True\<rparr>)"
    using i(3) s by (subst chunk_loop.simps) (simp add: chunk_loop.simps Let_def)
  moreover have "bytes (fr_file ?fr) = bytes (fr_file (rr_file r))"
    using ReadSection_bytes(1) [OF s] SkipSection_file by simp
  ultimately show thesis using that by blast
qed

definition same_reader :: "record_reader \<Rightarrow> record_reader \<Rightarrow> bool" where
  "same_reader r r' \<longleftrightarrow> rr_valid r' = rr_valid r \<and> rr_header r' = rr_header r"

lemma sections_Cons: "sections (i # its) = item_sections i @ sections its"
  by (simp add: sections_def)

text \<open>The loop finds the next chunk the window wants, or returns false.\<close>

lemma chunk_loop_spec:
  assumes "good_codec k" "reading k its rest r"
  shows "case next_chunk b e its of
      None \<Rightarrow> \<exists>r'. chunk_loop k b e False r = Some (False, r')
    | Some (c, its') \<Rightarrow> \<exists>r'. chunk_loop k b e False r = Some (True, r') \<and> rr_chunk r' = c \<and> reading k its' rest r' \<and> same_reader r r'"
  using assms(2)
proof (induction its arbitrary: r)
  case Nil
  then have "before k [] rest r" by simp
  then obtain fr where "chunk_loop k b e False r = Some (False, r\<lparr>rr_file := fr, reach_end := True\<rparr>)"
    by (rule loop_index [OF assms(1)])
  then show ?case by simp
next
  case (Cons i its)
  show ?case
  proof (cases i)
    case (IChannel c)
    have "before k (PbChannel c # sections its) rest r" using Cons.prems by (simp add: IChannel sections_Cons)
    then obtain fr where fr: "chunk_loop k b e False r = chunk_loop k b e False (r\<lparr>rr_file := fr\<rparr>)" "reading k its rest (r\<lparr>rr_file := fr\<rparr>)"
      by (rule loop_channel [OF assms(1)])
    show ?thesis using Cons.IH [OF fr(2)] by (auto simp: fr(1) IChannel same_reader_def split: option.splits)
  next
    case (IChunk ms)
    let ?ch = "chunk_hdr (chunk_of ms)"
    have "before k (PbChunkHeader ?ch # PbChunkBody ms # sections its) rest r" using Cons.prems by (simp add: IChunk sections_Cons)
    then obtain fr where fr: "chunk_loop k b e False r =
        (if ch_begin_time ?ch > e then Some (False, r\<lparr>rr_file := fr\<rparr>)
         else chunk_loop k b e (if ch_end_time ?ch < b then True else False) (r\<lparr>rr_file := fr\<rparr>))"
      "before k (PbChunkBody ms # sections its) rest (r\<lparr>rr_file := fr\<rparr>)"
      by (rule loop_header [OF assms(1)])
    obtain fr2 fr3 where body: "chunk_loop k b e True (r\<lparr>rr_file := fr\<rparr>) = chunk_loop k b e False (r\<lparr>rr_file := fr2\<rparr>)"
      "reading k its rest (r\<lparr>rr_file := fr2\<rparr>)"
      "chunk_loop k b e False (r\<lparr>rr_file := fr\<rparr>) = Some (True, r\<lparr>rr_file := fr3, rr_chunk := ms\<rparr>)"
      "reading k its rest (r\<lparr>rr_file := fr3\<rparr>)"
      by (rule loop_body [OF assms(1) fr(2)]) simp
    consider "ch_begin_time ?ch > e" | "\<not> ch_begin_time ?ch > e" "ch_end_time ?ch < b" | "\<not> ch_begin_time ?ch > e" "\<not> ch_end_time ?ch < b"
      by blast
    then show ?thesis
    proof cases
      case 1
      then show ?thesis by (simp add: IChunk fr(1) Let_def)
    next
      case 2
      have "chunk_loop k b e False r = chunk_loop k b e False (r\<lparr>rr_file := fr2\<rparr>)" using 2 fr(1) body(1) by simp
      then show ?thesis using Cons.IH [OF body(2)] 2 by (auto simp: IChunk same_reader_def Let_def split: option.splits)
    next
      case 3
      have "chunk_loop k b e False r = Some (True, r\<lparr>rr_file := fr3, rr_chunk := ms\<rparr>)" using 3 fr(1) body(3) by simp
      moreover have "reading k its rest (r\<lparr>rr_file := fr3, rr_chunk := ms\<rparr>)" using body(4) by (simp add: before_def)
      ultimately show ?thesis using 3 by (simp add: IChunk same_reader_def Let_def)
    qed
  qed
qed

section \<open>Reading the messages of a window\<close>

text \<open>
  What reading a window yields, as a function of the items: a chunk that ends before the window is
  passed over, one that begins after it ends the reading, and so does a message after the window;
  messages before it are left out.
\<close>

fun chunk_window :: "u64 \<Rightarrow> u64 \<Rightarrow> single_message list \<Rightarrow> single_message list \<times> bool" where
  "chunk_window b e [] = ([], False)"
| "chunk_window b e (m # ms) =
     (if sm_time m > e then ([], True)
      else if sm_time m < b then chunk_window b e ms
      else case chunk_window b e ms of (out, beyond) \<Rightarrow> (m # out, beyond))"

fun window :: "u64 \<Rightarrow> u64 \<Rightarrow> item list \<Rightarrow> single_message list" where
  "window b e [] = []"
| "window b e (IChannel c # its) = window b e its"
| "window b e (IChunk ms # its) =
     (let ch = chunk_hdr (chunk_of ms) in
      if ch_begin_time ch > e then []
      else if ch_end_time ch < b then window b e its
      else case chunk_window b e ms of (out, beyond) \<Rightarrow> out @ (if beyond then [] else window b e its))"

definition pending :: "u64 \<Rightarrow> u64 \<Rightarrow> single_message list \<Rightarrow> item list \<Rightarrow> single_message list" where
  "pending b e ms its = (case chunk_window b e ms of (out, beyond) \<Rightarrow> out @ (if beyond then [] else window b e its))"

lemma window_next_chunk:
  "window b e its = (case next_chunk b e its of None \<Rightarrow> [] | Some (ms, its') \<Rightarrow> pending b e ms its')"
proof (induction its)
  case (Cons i its)
  then show ?case by (cases i) (auto simp: pending_def Let_def)
qed simp

lemma next_chunk_shorter: "next_chunk b e its = Some (ms, its') \<Longrightarrow> length its' < length its"
proof (induction its)
  case (Cons i its)
  then show ?case by (cases i) (auto simp: Let_def split: if_splits)
qed simp

definition rr_state :: "codec \<Rightarrow> u64 \<Rightarrow> u64 \<Rightarrow> single_message list \<Rightarrow> item list \<Rightarrow> byte list \<Rightarrow> record_reader \<Rightarrow> bool" where
  "rr_state k b e ms its rest r \<longleftrightarrow>
     rr_valid r \<and> \<not> (b > h_end_time (rr_header r) \<or> e < h_begin_time (rr_header r)) \<and>
     drop (message_index r) (rr_chunk r) = ms \<and> reading k its rest r"

lemma scan_chunk_spec:
  assumes "drop i c = ms"
  shows "case scan_chunk b e ms i of
      (Found m, j) \<Rightarrow> \<exists>out beyond ms'. drop j c = ms' \<and> chunk_window b e ms' = (out, beyond) \<and> chunk_window b e ms = (m # out, beyond)
    | (Beyond, j) \<Rightarrow> chunk_window b e ms = ([], True)
    | (Exhausted, j) \<Rightarrow> chunk_window b e ms = ([], False)"
  using assms
proof (induction b e ms i rule: scan_chunk.induct)
  case (2 b e m ms i)
  have d: "drop (Suc i) c = ms" using 2(2) by (metis drop_Suc list.sel(3) tl_drop)
  show ?case
    using 2(1) d by (auto split: prod.splits scan_result.splits)
qed simp

lemma ReadMessage_spec:
  assumes "good_codec k" "rr_state k b e ms its rest r"
  shows "\<exists>r'. ReadMessage k b e r =
      Some (case pending b e ms its of [] \<Rightarrow> None | m # _ \<Rightarrow> Some m, r') \<and>
    (pending b e ms its \<noteq> [] \<longrightarrow>
       (\<exists>ms' its'. rr_state k b e ms' its' rest r' \<and> pending b e ms' its' = tl (pending b e ms its)))"
  using assms(2)
proof (induction its arbitrary: ms r rule: length_induct)
  case (1 its)
  have v: "rr_valid r" "\<not> (b > h_end_time (rr_header r) \<or> e < h_begin_time (rr_header r))" "drop (message_index r) (rr_chunk r) = ms"
    and rd: "reading k its rest r"
    using 1(2) by (simp_all add: rr_state_def)
  obtain res j where s: "scan_chunk b e ms (message_index r) = (res, j)" by fastforce
  note S = scan_chunk_spec [OF v(3), of b e, unfolded s]
  show ?case
  proof (cases res)
    case (Found m)
    obtain out beyond where o: "chunk_window b e (drop j (rr_chunk r)) = (out, beyond)" "chunk_window b e ms = (m # out, beyond)"
      using S Found by auto
    have st: "rr_state k b e (drop j (rr_chunk r)) its rest (r\<lparr>message_index := j\<rparr>)"
      using 1(2) by (simp add: rr_state_def)
    have eq: "ReadMessage k b e r = Some (Some m, r\<lparr>message_index := j\<rparr>)"
      using v s Found by (subst ReadMessage.simps) auto
    show ?thesis
    proof -
      have "pending b e ms its = m # pending b e (drop j (rr_chunk r)) its" using o by (simp add: pending_def)
      then show ?thesis using eq st by auto
    qed
  next
    case Beyond
    have "ReadMessage k b e r = Some (None, r\<lparr>message_index := j\<rparr>)"
      using v s Beyond by (subst ReadMessage.simps) auto
    then show ?thesis using S Beyond by (simp add: pending_def)
  next
    case Exhausted
    have p: "pending b e ms its = window b e its" using S Exhausted by (simp add: pending_def)
    have r1: "reading k its rest (r\<lparr>message_index := j\<rparr>)" using rd by simp
    note C = chunk_loop_spec [OF assms(1) r1, of b e]
    show ?thesis
    proof (cases "next_chunk b e its")
      case None
      then obtain r' where "chunk_loop k b e False (r\<lparr>message_index := j\<rparr>) = Some (False, r')" using C by auto
      then have "ReadMessage k b e r = Some (None, r')"
        using v s Exhausted by (subst ReadMessage.simps) (auto simp: ReadNextChunk_def)
      then show ?thesis using None by (simp add: p window_next_chunk)
    next
      case (Some x)
      obtain c its' where x: "x = (c, its')" by fastforce
      obtain r' where r': "chunk_loop k b e False (r\<lparr>message_index := j\<rparr>) = Some (True, r')" "rr_chunk r' = c"
        "reading k its' rest r'" "same_reader (r\<lparr>message_index := j\<rparr>) r'"
        using C Some x by auto
      have st: "rr_state k b e c its' rest (r'\<lparr>message_index := 0\<rparr>)"
        using r' v rd by (auto simp: rr_state_def same_reader_def)
      have "ReadMessage k b e r = ReadMessage k b e (r'\<lparr>message_index := 0\<rparr>)"
        using v s Exhausted r'(1) by (subst ReadMessage.simps) (auto simp: ReadNextChunk_def)
      moreover have "pending b e c its' = pending b e ms its" using Some x by (simp add: p window_next_chunk)
      ultimately show ?thesis using 1(1) next_chunk_shorter [of b e its c its'] Some x st by metis
    qed
  qed
qed

lemma read_upto_spec:
  assumes "good_codec k" "rr_state k b e ms its rest r"
  shows "\<exists>r'. read_upto k b e n r = Some (take n (pending b e ms its), r')"
  using assms(2)
proof (induction n arbitrary: ms its r)
  case (Suc n)
  obtain r1 where r1: "ReadMessage k b e r = Some (case pending b e ms its of [] \<Rightarrow> None | m # _ \<Rightarrow> Some m, r1)"
    and next': "pending b e ms its \<noteq> [] \<Longrightarrow> \<exists>ms' its'. rr_state k b e ms' its' rest r1 \<and> pending b e ms' its' = tl (pending b e ms its)"
    using ReadMessage_spec [OF assms(1) Suc.prems] by blast
  show ?case
  proof (cases "pending b e ms its")
    case Nil
    then show ?thesis using r1 by simp
  next
    case (Cons m out)
    then obtain ms' its' where st: "rr_state k b e ms' its' rest r1" "pending b e ms' its' = out" using next' by auto
    then show ?thesis using Suc.IH [OF st(1)] r1 Cons by auto
  qed
qed simp

section \<open>Opening a closed file\<close>

lemma fr_Reset_eq:
  "fr_Reset r = (True, r\<lparr>fr_file := (fr_file r)\<lparr>pos := first_position\<rparr>, end_of_file := False\<rparr>)"
  by (simp add: fr_Reset_def fr_SetPosition_def SetPosition_def first_position_def)

lemma readable_in_file:
  assumes "bytes f = pre @ enc_all k ms @ rest" "m \<in> set ms" "length (bytes f) < 2 ^ 31"
  shows "readable k m"
proof -
  obtain as bs where "ms = as @ m # bs" using assms(2) by (meson split_list)
  then show ?thesis using assms(1,3) by (simp add: readable_def length_enc)
qed

lemma enc_header_readable: "length (enc_header k h) < 2 ^ 31 \<Longrightarrow> readable k (PbHeader h)"
  by (simp add: enc_header_def length_enc readable_def)

lemma ReadHeader_ok:
  assumes "good_codec k" "bytes (fr_file r) = enc_header k h @ post" "pos (fr_file r) = 0" "length (bytes (fr_file r)) < 2 ^ 31"
  shows "ReadHeader k r = (True, r\<lparr>fr_file := (fr_file r)\<lparr>pos := first_position\<rparr>, fr_header := h\<rparr>)"
proof -
  define blk where "blk = take (HEADER_LENGTH - length (ser k (PbHeader h))) blank @ post"
  have b: "bytes (fr_file r) = [] @ enc k (PbHeader h) @ blk" using assms(2) by (simp add: enc_header_def blk_def)
  have rd: "readable k (PbHeader h)" using assms(2,4) by (simp add: enc_header_def length_enc readable_def)
  have p0: "pos (fr_file r) = length []" using assms(3) by simp
  note s = ReadSection_struct_ok [OF b p0 rd]
  define r1 where "r1 = r\<lparr>fr_file := (fr_file r)\<lparr>pos := length [] + sizeof_Section\<rparr>\<rparr>"
  have b1: "bytes (fr_file r1) = [] @ enc k (PbHeader h) @ blk" "pos (fr_file r1) = length [] + sizeof_Section"
    using b by (simp_all add: r1_def)
  have "ser k (PbHeader h) \<noteq> []" using ser_nonempty [OF assms(1)] by blast
  note m = ReadSection_message_ok [OF assms(1) b1 rd this]
  show ?thesis
    using s m unfolding ReadHeader_def
    by (simp add: r1_def [symmetric]) (simp add: r1_def fr_SetPosition_def SetPosition_def first_position_def)
qed

lemma ReadIndex_ok:
  assumes "good_codec k" "bytes (fr_file r) = pre @ enc k (PbIndex idx) @ post" "h_is_complete (fr_header r)"
    "h_index_position (fr_header r) = of_nat (length pre)" "length pre < 2 ^ 63" "readable k (PbIndex idx)"
  shows "ReadIndex k r = (True, r\<lparr>fr_file := (fr_file r)\<lparr>pos := first_position\<rparr>, fr_index := idx, end_of_file := False\<rparr>)"
proof -
  have sint: "sint (of_nat (length pre) :: u64) = int (length pre)"
    using assms(5) by (simp add: signed_of_nat signed_take_bit_int_eq_self)
  define r1 where "r1 = r\<lparr>fr_file := (fr_file r)\<lparr>pos := length pre\<rparr>\<rparr>"
  have b1: "bytes (fr_file r1) = pre @ enc k (PbIndex idx) @ post" "pos (fr_file r1) = length pre" using assms(2) by (simp_all add: r1_def)
  note s = ReadSection_struct_ok [OF b1 assms(6)]
  define r2 where "r2 = r1\<lparr>fr_file := (fr_file r1)\<lparr>pos := length pre + sizeof_Section\<rparr>\<rparr>"
  have b2: "bytes (fr_file r2) = pre @ enc k (PbIndex idx) @ post" "pos (fr_file r2) = length pre + sizeof_Section"
    using b1 by (simp_all add: r2_def)
  obtain f' where m: "bytes f' = bytes (fr_file r2)" and rm: "room f' = room (fr_file r2)" and m2:
    "ReadSection_message k (type_of (PbIndex idx)) (int (length (ser k (PbIndex idx)))) r2 = (Some (PbIndex idx), r2\<lparr>fr_file := f'\<rparr>)"
    using ReadSection_message_fst [OF assms(1) b2 assms(6)] by blast
  have "f'\<lparr>pos := first_position\<rparr> = (fr_file r)\<lparr>pos := first_position\<rparr>"
    using m rm by (simp add: r2_def r1_def)
  then show ?thesis
    using assms(3,4) s m2 sint unfolding ReadIndex_def
    by (simp add: fr_SetPosition_def SetPosition_def r1_def [symmetric] r2_def [symmetric])
      (simp add: r2_def r1_def fr_Reset_eq)
qed

lemma new_record_reader_ok:
  assumes "good_codec k" "length (closed_bytes k h its written old) < 2 ^ 31"
  defines "r \<equiv> new_record_reader k (Some (closed_bytes k h its written old))"
  shows "rr_valid r" "rr_header r = final_header k h its written"
    "channel_info r = fold insert_channel (final_index k its written) Map.empty"
    "rr_chunk r = []" "message_index r = 0"
    "\<exists>rest. reading k its rest r" "rr_Reset r = r"
proof -
  define hf idx where "hf = final_header k h its written" and "idx = final_index k its written"
  define post where "post = drop (index_at k its + length (enc k (PbIndex idx))) old"
  have bs: "closed_bytes k h its written old = enc_header k hf @ enc_all k (sections its) @ enc k (PbIndex idx) @ post"
    by (simp add: closed_bytes_def hf_def idx_def post_def)
  define f where "f = \<lparr>bytes = closed_bytes k h its written old, pos = 0, room = None :: nat option\<rparr>"
  define fr where "fr = \<lparr>fr_file = f, fr_header = empty_header, fr_index = [], end_of_file = False\<rparr>"
  have o1: "fr_Open k (Some (closed_bytes k h its written old)) = (True, fr\<lparr>fr_file := f\<lparr>pos := first_position\<rparr>, fr_header := hf\<rparr>)"
    using ReadHeader_ok [of k fr hf, OF assms(1)] assms(2) unfolding fr_def f_def
    by (simp add: fr_Open_def bs)
  let ?fr = "fr\<lparr>fr_file := f\<lparr>pos := first_position\<rparr>, fr_header := hf\<rparr>"
  have l: "length (enc_header k hf @ enc_all k (sections its)) = index_at k its"
    by (simp add: length_enc_header [OF assms(1)] index_at_def first_position_def)
  have "length (closed_bytes k h its written old) = length (enc_header k hf @ enc_all k (sections its)) + length (enc k (PbIndex idx) @ post)"
    by (simp add: bs)
  then have "index_at k its < 2 ^ 31" using assms(2) l by linarith
  moreover have "(2::nat) ^ 31 < 2 ^ 63" by simp
  ultimately have li: "index_at k its < 2 ^ 63" by (rule less_trans)
  have rdi: "readable k m" if "m \<in> set (sections its @ [PbIndex idx])" for m
    by (rule readable_in_file [OF _ that, of f "enc_header k hf" k post]) (use assms(2) in \<open>simp_all add: f_def bs\<close>)
  let ?pre = "enc_header k hf @ enc_all k (sections its)"
  have o2: "ReadIndex k ?fr = (True, ?fr\<lparr>fr_file := f\<lparr>pos := first_position\<rparr>, fr_index := idx, end_of_file := False\<rparr>)"
  proof -
    have "bytes (fr_file ?fr) = ?pre @ enc k (PbIndex idx) @ post" by (simp add: f_def bs)
    moreover have "h_is_complete (fr_header ?fr)" by (simp add: hf_def final_header_def)
    moreover have "h_index_position (fr_header ?fr) = of_nat (length ?pre)" unfolding l by (simp add: hf_def final_header_def)
    moreover have "length ?pre < 2 ^ 63" unfolding l by (rule li)
    moreover have "readable k (PbIndex idx)" by (rule rdi) simp
    ultimately have "ReadIndex k ?fr = (True, ?fr\<lparr>fr_file := (fr_file ?fr)\<lparr>pos := first_position\<rparr>, fr_index := idx, end_of_file := False\<rparr>)"
      by (rule ReadIndex_ok [OF assms(1)])
    then show ?thesis by simp
  qed
  have r: "r = \<lparr>rr_file = ?fr\<lparr>fr_file := f\<lparr>pos := first_position\<rparr>, fr_index := idx, end_of_file := False\<rparr>, rr_valid = True,
      rr_header = hf, channel_info = fold insert_channel idx Map.empty, rr_chunk = [], message_index = 0, reach_end = False\<rparr>"
    unfolding r_def new_record_reader_def o1 by (simp add: o2 fr_Reset_eq Let_def del: insert_channel.simps)
  show "rr_Reset r = r" by (simp add: r rr_Reset_def fr_Reset_eq)
  show "rr_valid r" "rr_header r = final_header k h its written" "rr_chunk r = []" "message_index r = 0"
    "channel_info r = fold insert_channel (final_index k its written) Map.empty"
    by (simp_all add: r hf_def idx_def del: insert_channel.simps)
  have "at_sections k (sections its @ [PbIndex idx]) post (f\<lparr>pos := first_position\<rparr>)"
    unfolding at_sections_def
    by (intro exI [of _ "enc_header k hf"]) (simp add: f_def bs length_enc_header [OF assms(1)] first_position_def)
  then show "\<exists>rest. reading k its rest r" using rdi assms(2) by (intro exI [of _ post]) (auto simp: before_def r f_def)
qed

section \<open>Counts in the index\<close>

lemma insert_channel_index_entry:
  "insert_channel (set_message_number nums (index_entry p m)) info =
    (case m of PbChannel c \<Rightarrow>
       if info (c_name c) = None
       then info(c_name c \<mapsto> (case nums (c_name c) of Some n \<Rightarrow> n | None \<Rightarrow> 0, c_message_type c, c_proto_desc c)) else info
     | _ \<Rightarrow> info)"
  by (cases m) (auto split: option.splits)

fun section_channels :: "pb list \<Rightarrow> channel list" where
  "section_channels [] = []"
| "section_channels (PbChannel c # ms) = c # section_channels ms"
| "section_channels (_ # ms) = section_channels ms"

lemma channel_info_fold:
  "fold insert_channel (map (set_message_number nums) (index_from k p ms)) info name =
    (case info name of
       Some x \<Rightarrow> Some x
     | None \<Rightarrow>
         map_option (\<lambda>c. (case nums name of Some n \<Rightarrow> n | None \<Rightarrow> 0, c_message_type c, c_proto_desc c))
           (find (\<lambda>c. c_name c = name) (section_channels ms)))"
proof (induction ms arbitrary: p info)
  case Nil
  then show ?case by (simp split: option.splits)
next
  case (Cons m ms)
  show ?case
    by (cases m) (auto simp: insert_channel_index_entry Cons.IH simp del: insert_channel.simps set_message_number.simps index_entry.simps
        split: option.splits)
qed

lemma section_channels_append: "section_channels (a @ b) = section_channels a @ section_channels b"
  by (induction a rule: section_channels.induct) simp_all

lemma section_channels_sections: "section_channels (sections its) = concat (map item_channels its)"
proof (induction its)
  case (Cons i its)
  then show ?case by (cases i) (simp_all add: sections_def)
qed (simp add: sections_def)

lemma counts_value: "(case counts ms name of Some n \<Rightarrow> n | None \<Rightarrow> 0) = count_name name ms"
  by (simp add: counts_def)

end
