(* ===== verification/RecordCodec.thy ===== *)
theory RecordCodec
  imports RecordFile
begin

text \<open>
  A concrete codec for the messages of a record file, which has what the code relies on: the
  parameter of the record file theories has an instance, and their theorems are applied to it. A codec
  of a type is a pair of a printer and a reader of a prefix.
\<close>

type_synonym 'a prefix_reader = "byte list \<Rightarrow> ('a \<times> byte list) option"

definition codes :: "('a \<Rightarrow> byte list) \<Rightarrow> 'a prefix_reader \<Rightarrow> bool" where
  "codes e p \<longleftrightarrow> (\<forall>x rest. p (e x @ rest) = Some (x, rest))"

definition map_reader :: "('a \<Rightarrow> 'b) \<Rightarrow> 'a prefix_reader \<Rightarrow> 'b prefix_reader" where
  "map_reader g p bs = map_option (\<lambda>(x, rest). (g x, rest)) (p bs)"

lemma codes_map: "codes e p \<Longrightarrow> (\<And>x. g (f x) = x) \<Longrightarrow> codes (\<lambda>x. e (f x)) (map_reader g p)"
  by (simp add: codes_def map_reader_def)

definition e_nat :: "nat \<Rightarrow> byte list" where
  "e_nat n = replicate n 1 @ [0]"

fun p_nat :: "nat prefix_reader" where
  "p_nat [] = None"
| "p_nat (b # bs) = (if b = 0 then Some (0, bs) else map_option (\<lambda>(n, rest). (Suc n, rest)) (p_nat bs))"

lemma codes_nat: "codes e_nat p_nat"
proof -
  have "p_nat (replicate n 1 @ [0] @ rest) = Some (n, rest)" for n rest
    by (induction n) simp_all
  then show ?thesis by (simp add: codes_def e_nat_def)
qed

definition e_u64 :: "u64 \<Rightarrow> byte list" where
  "e_u64 x = le_bytes 8 (unat x)"

definition p_u64 :: "u64 prefix_reader" where
  "p_u64 bs = (if length bs < 8 then None else Some (of_nat (le_value (take 8 bs)), drop 8 bs))"

lemma codes_u64: "codes e_u64 p_u64"
proof -
  have "unat x < 256 ^ 8" for x :: u64
  proof -
    have "unat x < 2 ^ LENGTH(64)" by (rule unsigned_less)
    then show ?thesis by simp
  qed
  then show ?thesis by (simp add: codes_def e_u64_def p_u64_def le_value_le_bytes)
qed

definition e_byte :: "byte \<Rightarrow> byte list" where
  "e_byte b = [b]"

fun p_byte :: "byte prefix_reader" where
  "p_byte [] = None"
| "p_byte (b # bs) = Some (b, bs)"

lemma codes_byte: "codes e_byte p_byte"
  by (simp add: codes_def e_byte_def)

definition byte_of_char :: "char \<Rightarrow> byte" where
  "byte_of_char c = of_nat (of_char c)"

definition char_of_byte :: "byte \<Rightarrow> char" where
  "char_of_byte b = char_of (unat b)"

lemma char_of_byte_of_char: "char_of_byte (byte_of_char c) = c"
proof -
  have "of_char c < (256 :: nat)" by simp
  then show ?thesis by (simp add: char_of_byte_def byte_of_char_def unat_of_nat)
qed

definition e_pair :: "('a \<Rightarrow> byte list) \<Rightarrow> ('b \<Rightarrow> byte list) \<Rightarrow> 'a \<times> 'b \<Rightarrow> byte list" where
  "e_pair e1 e2 xy = e1 (fst xy) @ e2 (snd xy)"

definition p_pair :: "'a prefix_reader \<Rightarrow> 'b prefix_reader \<Rightarrow> ('a \<times> 'b) prefix_reader" where
  "p_pair p1 p2 bs =
     (case p1 bs of None \<Rightarrow> None | Some (x, rest) \<Rightarrow> map_option (\<lambda>(y, rest'). ((x, y), rest')) (p2 rest))"

lemma codes_pair: "codes e1 p1 \<Longrightarrow> codes e2 p2 \<Longrightarrow> codes (e_pair e1 e2) (p_pair p1 p2)"
  by (simp add: codes_def e_pair_def p_pair_def)

primrec p_times :: "'a prefix_reader \<Rightarrow> nat \<Rightarrow> 'a list prefix_reader" where
  "p_times p 0 bs = Some ([], bs)"
| "p_times p (Suc n) bs =
     (case p bs of None \<Rightarrow> None | Some (x, rest) \<Rightarrow> map_option (\<lambda>(xs, rest'). (x # xs, rest')) (p_times p n rest))"

definition e_list :: "('a \<Rightarrow> byte list) \<Rightarrow> 'a list \<Rightarrow> byte list" where
  "e_list e xs = e_nat (length xs) @ concat (map e xs)"

definition p_list :: "'a prefix_reader \<Rightarrow> 'a list prefix_reader" where
  "p_list p bs = (case p_nat bs of None \<Rightarrow> None | Some (n, rest) \<Rightarrow> p_times p n rest)"

lemma codes_list:
  assumes "codes e p"
  shows "codes (e_list e) (p_list p)"
proof -
  have "p_times p (length xs) (concat (map e xs) @ rest) = Some (xs, rest)" for xs rest
    using assms by (induction xs) (simp_all add: codes_def)
  moreover have "p_nat (e_nat n @ rest) = Some (n, rest)" for n rest using codes_nat by (simp add: codes_def)
  ultimately show ?thesis by (simp add: codes_def e_list_def p_list_def)
qed

abbreviation e_char :: "char \<Rightarrow> byte list" where
  "e_char c \<equiv> e_byte (byte_of_char c)"

abbreviation e_string :: "string \<Rightarrow> byte list" where
  "e_string \<equiv> e_list e_char"

abbreviation p_string :: "string prefix_reader" where
  "p_string \<equiv> p_list (map_reader char_of_byte p_byte)"

lemma codes_string: "codes e_string p_string"
  by (intro codes_list codes_map codes_byte char_of_byte_of_char)

section \<open>The messages\<close>

definition sm_tuple :: "single_message \<Rightarrow> string \<times> u64 \<times> byte list" where
  "sm_tuple m = (sm_channel_name m, sm_time m, sm_content m)"

definition tuple_sm :: "string \<times> u64 \<times> byte list \<Rightarrow> single_message" where
  "tuple_sm = (\<lambda>(n, t, c). \<lparr>sm_channel_name = n, sm_time = t, sm_content = c\<rparr>)"

definition channel_tuple :: "channel \<Rightarrow> string \<times> string \<times> string" where
  "channel_tuple c = (c_name c, c_message_type c, c_proto_desc c)"

definition tuple_channel :: "string \<times> string \<times> string \<Rightarrow> channel" where
  "tuple_channel = (\<lambda>(n, t, d). \<lparr>c_name = n, c_message_type = t, c_proto_desc = d\<rparr>)"

definition ch_tuple :: "chunk_header \<Rightarrow> u64 \<times> u64 \<times> nat \<times> nat" where
  "ch_tuple c = (ch_begin_time c, ch_end_time c, ch_message_number c, ch_raw_size c)"

definition tuple_ch :: "u64 \<times> u64 \<times> nat \<times> nat \<Rightarrow> chunk_header" where
  "tuple_ch = (\<lambda>(b, e, n, s). \<lparr>ch_begin_time = b, ch_end_time = e, ch_message_number = n, ch_raw_size = s\<rparr>)"

fun cache_tuple :: "index_cache \<Rightarrow> nat \<times> nat \<times> (string \<times> string \<times> string) \<times> u64 \<times> u64 \<times> nat" where
  "cache_tuple (ChannelCache n a b c) = (0, n, (a, b, c), 0, 0, 0)"
| "cache_tuple (ChunkHeaderCache n b e s) = (1, n, ([], [], []), b, e, s)"
| "cache_tuple (ChunkBodyCache n) = (2, n, ([], [], []), 0, 0, 0)"

definition tuple_cache :: "nat \<times> nat \<times> (string \<times> string \<times> string) \<times> u64 \<times> u64 \<times> nat \<Rightarrow> index_cache" where
  "tuple_cache = (\<lambda>(tag, n, (a, b, c), bt, et, s).
     if tag = 0 then ChannelCache n a b c else if tag = 1 then ChunkHeaderCache n bt et s else ChunkBodyCache n)"

fun section_of_number :: "nat \<Rightarrow> section_type" where
  "section_of_number n =
     (if n = 0 then SECTION_HEADER else if n = 1 then SECTION_CHUNK_HEADER else if n = 2 then SECTION_CHUNK_BODY
      else if n = 3 then SECTION_INDEX else SECTION_CHANNEL)"

definition index_tuple :: "single_index \<Rightarrow> nat \<times> nat \<times> nat \<times> nat \<times> (string \<times> string \<times> string) \<times> u64 \<times> u64 \<times> nat" where
  "index_tuple i = (section_number (si_type i), si_position i, cache_tuple (si_cache i))"

definition tuple_index :: "nat \<times> nat \<times> nat \<times> nat \<times> (string \<times> string \<times> string) \<times> u64 \<times> u64 \<times> nat \<Rightarrow> single_index" where
  "tuple_index = (\<lambda>(t, p, c). \<lparr>si_type = section_of_number t, si_position = p, si_cache = tuple_cache c\<rparr>)"

text \<open>A header is eleven words and a flag, which is a byte here.\<close>

definition header_words :: "header \<Rightarrow> u64 list" where
  "header_words h =
     [h_chunk_interval h, h_segment_interval h, h_index_position h, h_chunk_number h, h_channel_number h,
      h_begin_time h, h_end_time h, h_message_number h, h_size h, h_chunk_raw_size h, h_segment_raw_size h,
      if h_is_complete h then 1 else 0]"

definition words_header :: "u64 list \<Rightarrow> header" where
  "words_header ws =
     \<lparr>h_chunk_interval = ws ! 0, h_segment_interval = ws ! 1, h_index_position = ws ! 2, h_chunk_number = ws ! 3,
      h_channel_number = ws ! 4, h_begin_time = ws ! 5, h_end_time = ws ! 6, h_message_number = ws ! 7,
      h_size = ws ! 8, h_is_complete = (ws ! 11 = 1), h_chunk_raw_size = ws ! 9, h_segment_raw_size = ws ! 10\<rparr>"

lemma tuples_inverse:
  "tuple_sm (sm_tuple m) = m" "tuple_channel (channel_tuple c) = c" "tuple_ch (ch_tuple h) = h"
  "tuple_index (index_tuple i) = i"
proof -
  have "tuple_cache (cache_tuple x) = x" for x by (cases x) (simp_all add: tuple_cache_def)
  moreover have "section_of_number (section_number t) = t" for t by (cases t) simp_all
  ultimately show "tuple_index (index_tuple i) = i" by (simp add: tuple_index_def index_tuple_def del: section_of_number.simps)
qed (simp_all add: tuple_sm_def sm_tuple_def tuple_channel_def channel_tuple_def tuple_ch_def ch_tuple_def)

lemma words_header_words: "words_header (header_words h) = h"
  by (simp add: words_header_def header_words_def)

abbreviation e_bytes :: "byte list \<Rightarrow> byte list" where
  "e_bytes \<equiv> e_list e_byte"

definition e_header :: "header \<Rightarrow> byte list" where
  "e_header h = e_list e_u64 (header_words h)"

definition e_sm :: "single_message \<Rightarrow> byte list" where
  "e_sm m = e_pair e_string (e_pair e_u64 e_bytes) (sm_tuple m)"

definition e_channel :: "channel \<Rightarrow> byte list" where
  "e_channel c = e_pair e_string (e_pair e_string e_string) (channel_tuple c)"

definition e_ch :: "chunk_header \<Rightarrow> byte list" where
  "e_ch c = e_pair e_u64 (e_pair e_u64 (e_pair e_nat e_nat)) (ch_tuple c)"

definition e_index :: "single_index \<Rightarrow> byte list" where
  "e_index i =
     e_pair e_nat (e_pair e_nat (e_pair e_nat (e_pair e_nat
       (e_pair (e_pair e_string (e_pair e_string e_string)) (e_pair e_u64 (e_pair e_u64 e_nat)))))) (index_tuple i)"

definition p_header :: "header prefix_reader" where
  "p_header = map_reader words_header (p_list p_u64)"

definition p_sm :: "single_message prefix_reader" where
  "p_sm = map_reader tuple_sm (p_pair p_string (p_pair p_u64 (p_list p_byte)))"

definition p_channel :: "channel prefix_reader" where
  "p_channel = map_reader tuple_channel (p_pair p_string (p_pair p_string p_string))"

definition p_ch :: "chunk_header prefix_reader" where
  "p_ch = map_reader tuple_ch (p_pair p_u64 (p_pair p_u64 (p_pair p_nat p_nat)))"

definition p_index :: "single_index prefix_reader" where
  "p_index = map_reader tuple_index
     (p_pair p_nat (p_pair p_nat (p_pair p_nat (p_pair p_nat
       (p_pair (p_pair p_string (p_pair p_string p_string)) (p_pair p_u64 (p_pair p_u64 p_nat)))))))"

lemmas codes_intros = codes_map codes_pair codes_list codes_string codes_nat codes_u64 codes_byte
  tuples_inverse words_header_words

lemma codes_messages:
  "codes e_header p_header" "codes e_sm p_sm" "codes e_channel p_channel" "codes e_ch p_ch" "codes e_index p_index"
  unfolding p_header_def p_sm_def p_channel_def p_ch_def p_index_def
    e_header_def [abs_def] e_sm_def [abs_def] e_channel_def [abs_def] e_ch_def [abs_def] e_index_def [abs_def]
  by (rule codes_map; intro codes_intros)+

section \<open>The codec\<close>

fun simple_ser :: "pb \<Rightarrow> byte list" where
  "simple_ser (PbHeader h) = e_header h"
| "simple_ser (PbChannel c) = e_channel c"
| "simple_ser (PbChunkHeader c) = e_ch c"
| "simple_ser (PbChunkBody b) = e_list e_sm b"
| "simple_ser (PbIndex i) = e_list e_index i"

definition read_all :: "'a prefix_reader \<Rightarrow> byte list \<Rightarrow> 'a option" where
  "read_all p bs = (case p bs of Some (x, []) \<Rightarrow> Some x | _ \<Rightarrow> None)"

fun simple_parse :: "section_type \<Rightarrow> byte list \<Rightarrow> pb option" where
  "simple_parse SECTION_HEADER bs = map_option PbHeader (read_all p_header bs)"
| "simple_parse SECTION_CHANNEL bs = map_option PbChannel (read_all p_channel bs)"
| "simple_parse SECTION_CHUNK_HEADER bs = map_option PbChunkHeader (read_all p_ch bs)"
| "simple_parse SECTION_CHUNK_BODY bs = map_option PbChunkBody (read_all (p_list p_sm) bs)"
| "simple_parse SECTION_INDEX bs = map_option PbIndex (read_all (p_list p_index) bs)"

definition simple_codec :: codec where
  "simple_codec = \<lparr>ser = simple_ser, parse = simple_parse, at_end = (\<lambda>_ _. None), default_block = 4096\<rparr>"

lemma read_all_codes: "codes e p \<Longrightarrow> read_all p (e x) = Some x"
  unfolding codes_def read_all_def by (metis append_Nil2 case_prod_conv list.simps(4) option.simps(5))

lemma length_codes [simp]:
  "length (e_nat n) = n + 1" "length (e_u64 x) = 8" "length (e_byte b) = 1"
  "length (e_pair e1 e2 xy) = length (e1 (fst xy)) + length (e2 (snd xy))"
  "length (e_list e xs) = length xs + 1 + sum_list (map (\<lambda>x. length (e x)) xs)"
  by (simp_all add: e_nat_def e_u64_def e_byte_def e_pair_def e_list_def length_concat comp_def)

lemma length_e_header [simp]: "length (e_header h) = 109"
  by (simp add: e_header_def header_words_def)

lemma length_e_messages:
  "length (e_channel c) = 2 * (length (c_name c) + length (c_message_type c) + length (c_proto_desc c)) + 3"
  "length (e_ch h) = 18 + ch_message_number h + ch_raw_size h"
  "length (e_sm m) = 2 * (length (sm_channel_name m) + length (sm_content m)) + 10"
  by (simp_all add: e_channel_def channel_tuple_def e_ch_def ch_tuple_def e_sm_def sm_tuple_def sum_list_triv)

lemma simple_codec_good: "good_codec simple_codec"
proof -
  have "parse simple_codec (type_of m) (ser simple_codec m) = Some m" for m
    by (cases m) (simp_all add: simple_codec_def read_all_codes [OF codes_messages(1)]
        read_all_codes [OF codes_messages(3)] read_all_codes [OF codes_messages(4)]
        read_all_codes [OF codes_list [OF codes_messages(2)]] read_all_codes [OF codes_list [OF codes_messages(5)]])
  moreover have "0 < length (ser simple_codec m)" for m
    by (cases m) (simp_all add: simple_codec_def length_e_messages)
  moreover have "length (ser simple_codec (PbHeader h)) \<le> HEADER_LENGTH" for h
    by (simp add: simple_codec_def HEADER_LENGTH_def)
  ultimately show ?thesis unfolding good_codec_def by auto
qed

end
