(* ===== verification/RecordRoundtrip.thy ===== *)
theory RecordRoundtrip
  imports RecordReader RecordCodec
begin

text \<open>
  A record file read back after it was written: whatever the flush thread does in between, reading
  the whole of a closed file yields the messages that were written, and the counts of its header and
  of its channels are theirs. Their order is the order of writing if the flush thread empties its
  chunk before the next swap, and is lost otherwise.
\<close>

section \<open>Everything that was written is read\<close>

lemma chunk_window_all: "chunk_window 0 (- 1) ms = (ms, False)"
proof (induction ms)
  case (Cons m ms)
  have "\<not> sm_time m > - 1" by (metis word_order.extremum not_less)
  then show ?case using Cons.IH by simp
qed simp

lemma window_all: "window 0 (- 1) its = messages its"
proof (induction its)
  case (Cons i its)
  have top: "\<not> (x :: u64) > - 1" "\<not> (x :: u64) < 0" for x
    by (metis word_order.extremum not_less, simp)
  show ?case
    using Cons.IH by (cases i) (simp_all add: top chunk_window_all messages_def Let_def)
qed simp

lemma fw_run_inv:
  assumes "good_codec k" "pos f = 0" "room f = None"
  obtains its where "fw_inv k h (bytes f) (fw_run k h f es) its (written_messages es)"
    "concat (map item_channels its) = written_channels es"
  using fw_run_inv_from [OF assms(1) fw_inv_open(2) [OF assms(1,3,2) refl], of h es]
  unfolding fw_run_def by auto

lemma closed_file_read:
  assumes "good_codec k" "length (closed_bytes k h its written old) < 2 ^ 31" "length (window b e its) \<le> n"
    "\<not> b > h_end_time (final_header k h its written)" "\<not> e < h_begin_time (final_header k h its written)"
  shows "\<exists>r'. read_upto k b e n (new_record_reader k (Some (closed_bytes k h its written old))) = Some (window b e its, r')"
proof -
  let ?r = "new_record_reader k (Some (closed_bytes k h its written old))"
  note N = new_record_reader_ok [OF assms(1,2)]
  obtain rest where rest: "reading k its rest ?r" using N(6) by blast
  have p: "pending b e [] its = window b e its" by (simp add: pending_def)
  have "rr_state k b e [] its rest ?r"
    using N(1-5) rest assms(4,5) by (simp add: rr_state_def)
  then show ?thesis using read_upto_spec [OF assms(1), of b e "[]" its rest ?r n] assms(3) by (simp add: p)
qed

lemma closed_file_outside:
  assumes "good_codec k" "length (closed_bytes k h its written old) < 2 ^ 31"
    "b > h_end_time (final_header k h its written) \<or> e < h_begin_time (final_header k h its written)"
  shows "\<exists>r'. read_upto k b e n (new_record_reader k (Some (closed_bytes k h its written old))) = Some ([], r')"
proof (cases n)
  case (Suc n')
  note N = new_record_reader_ok [OF assms(1,2)]
  show ?thesis unfolding Suc using N(1,2) assms(3) by (simp add: ReadMessage.simps)
qed simp

lemma closed_file_counts:
  assumes "good_codec k" "length (closed_bytes k h its written old) < 2 ^ 31"
  defines "r \<equiv> new_record_reader k (Some (closed_bytes k h its written old))"
    and "cs \<equiv> concat (map item_channels its)"
  shows "rr_GetChannelList r = c_name ` set cs"
    "name \<in> c_name ` set cs \<Longrightarrow> rr_GetMessageNumber name r = count_name name written"
    "rr_valid r" "h_is_complete (rr_header r)"
    "h_message_number (rr_header r) = h_message_number h + of_nat (length (messages its))"
    "h_channel_number (rr_header r) = h_channel_number h + of_nat (length cs)"
proof -
  note N = new_record_reader_ok [OF assms(1,2), folded r_def]
  have info: "channel_info r name =
      map_option (\<lambda>c. (case counts written name of Some n \<Rightarrow> n | None \<Rightarrow> 0, c_message_type c, c_proto_desc c))
        (find (\<lambda>c. c_name c = name) cs)" for name
    unfolding N(3) final_index_def cs_def by (simp add: channel_info_fold section_channels_sections)
  show "rr_GetChannelList r = c_name ` set cs"
    unfolding rr_GetChannelList_def dom_def by (auto simp: info find_None_iff)
  show "rr_GetMessageNumber name r = count_name name written" if nm: "name \<in> c_name ` set cs"
  proof -
    obtain c where c: "find (\<lambda>c. c_name c = name) cs = Some c"
      using nm by (cases "find (\<lambda>c. c_name c = name) cs") (auto simp: find_None_iff)
    then show ?thesis by (simp add: rr_GetMessageNumber_def info counts_value)
  qed
  show "rr_valid r" "h_is_complete (rr_header r)" by (simp_all add: N(1,2) final_header_def)
  show "h_message_number (rr_header r) = h_message_number h + of_nat (length (messages its))"
    "h_channel_number (rr_header r) = h_channel_number h + of_nat (length cs)"
    by (simp_all add: N(2) final_header_def foldl_header_item(1,2) cs_def)
qed

text \<open>
  Property C21. The round trip of a record file. For any run of a file writer on an empty place or on
  an older file of any content, with any interleaving of the flush thread, closing the file and
  opening it again gives a complete file whose header counts all messages and channels, whose channel
  list is the channels written, each with the number of its messages, and reading it with an open
  window ends and yields exactly the messages written.
\<close>

theorem record_roundtrip:
  assumes "good_codec k" "pos f = 0" "room f = None"
    and "closed = bytes (fw_file (fw_Close k (fw_run k h f es)))" "length closed < 2 ^ 31"
    and "r = new_record_reader k (Some closed)" "length (written_messages es) \<le> n"
  shows "rr_valid r \<and> h_is_complete (rr_header r) \<and>
    h_message_number (rr_header r) = h_message_number h + of_nat (length (written_messages es)) \<and>
    h_channel_number (rr_header r) = h_channel_number h + of_nat (length (written_channels es)) \<and>
    rr_GetChannelList r = c_name ` set (written_channels es) \<and>
    (\<forall>c\<in>set (written_channels es). rr_GetMessageNumber (c_name c) r = count_name (c_name c) (written_messages es)) \<and>
    (\<exists>ms r'. read_upto k 0 (- 1) n r = Some (ms, r') \<and> mset ms = mset (written_messages es))"
proof -
  obtain its where i: "fw_inv k h (bytes f) (fw_run k h f es) its (written_messages es)"
    "concat (map item_channels its) = written_channels es"
    using fw_run_inv assms(1-3) by blast
  obtain its' where c: "closed = closed_bytes k h its' (written_messages es) (bytes f)"
    "mset (messages its') = mset (written_messages es)"
    "its' = its @ flushed (chunk_flush (fw_run k h f es)) @ flushed (chunk_active (fw_run k h f es))"
    using fw_Close_file [OF assms(1) i(1)] assms(4) by metis
  have ch: "concat (map item_channels its') = written_channels es"
    using i(2) by (simp add: c(3) flushed_def)
  have len: "length (messages its') = length (written_messages es)" using c(2) by (metis size_mset)
  note l = assms(5) [unfolded c(1)]
  note C = closed_file_counts [OF assms(1) l, folded c(1), folded assms(6), unfolded ch len]
  have "\<exists>ms r'. read_upto k 0 (- 1) n r = Some (ms, r') \<and> mset ms = mset (written_messages es)"
    using closed_file_read [OF assms(1) l, of 0 "- 1" n] len assms(7) c(2)
    by (auto simp: window_all c(1) assms(6) not_less)
  then show ?thesis using C by simp
qed

section \<open>The order of the messages\<close>

text \<open>The flush thread keeps up with a run if its chunk is empty whenever the chunks are swapped.\<close>

fun keeps_up :: "codec \<Rightarrow> fw_event list \<Rightarrow> file_writer \<Rightarrow> bool" where
  "keeps_up k [] w = True"
| "keeps_up k (e # es) w =
     ((case e of
         Message_written m \<Rightarrow>
           need_flush (fw_header w) m (chunk_add m (chunk_active w)) \<longrightarrow> chunk_empty (chunk_flush w)
       | _ \<Rightarrow> True) \<and> keeps_up k es (fw_event_step k e w))"

definition in_order :: "file_writer \<Rightarrow> item list \<Rightarrow> single_message list \<Rightarrow> bool" where
  "in_order w its written \<longleftrightarrow> written = messages its @ chunk_msgs (chunk_flush w) @ chunk_msgs (chunk_active w)"

lemma fw_WriteChannel_chunks:
  "chunk_flush (snd (fw_WriteChannel k c w)) = chunk_flush w" "chunk_active (snd (fw_WriteChannel k c w)) = chunk_active w"
  by (simp_all add: fw_WriteChannel_def WriteSection_def note_size_def add_index_def Let_def split: prod.splits)

lemma fw_WriteMessage_order:
  assumes "in_order w its written" "chunk_ok (chunk_flush w)"
    "need_flush (fw_header w) m (chunk_add m (chunk_active w)) \<longrightarrow> chunk_empty (chunk_flush w)"
  shows "in_order (snd (fw_WriteMessage m w)) its (written @ [m])"
  using assms chunk_empty_iff [OF assms(2)] by (auto simp: fw_WriteMessage_def in_order_def swap_chunks_def Let_def)

lemma keeps_up_run:
  assumes "good_codec k" "fw_inv k h old w its written" "in_order w its written" "keeps_up k es w"
  shows "\<exists>its'. fw_inv k h old (fold (fw_event_step k) es w) its' (written @ written_messages es) \<and>
    in_order (fold (fw_event_step k) es w) its' (written @ written_messages es)"
  using assms(2-4)
proof (induction es arbitrary: w its written)
  case (Cons e es)
  show ?case
  proof (cases e)
    case (Channel_written c)
    have "in_order (snd (fw_WriteChannel k c w)) (its @ [IChannel c]) written"
      using Cons.prems(2) by (simp add: in_order_def fw_WriteChannel_chunks)
    then show ?thesis
      using Channel_written Cons.IH [OF fw_WriteChannel_inv(2) [OF assms(1) Cons.prems(1), of c]] Cons.prems(3) by simp
  next
    case (Message_written m)
    have "in_order (snd (fw_WriteMessage m w)) its (written @ [m])"
      using Cons.prems Message_written by (intro fw_WriteMessage_order) (simp_all add: fw_inv_def)
    then show ?thesis
      using Message_written Cons.IH [OF fw_WriteMessage_inv(2) [OF Cons.prems(1), of m]] Cons.prems(3) by simp
  next
    case Flush_round
    note F = Flush_step_inv [OF assms(1) Cons.prems(1)]
    have "in_order (Flush_step k w) (its @ flushed (chunk_flush w)) written"
      using F(2,3) Cons.prems(2) by (simp add: in_order_def)
    then show ?thesis using Flush_round Cons.IH [OF F(1)] Cons.prems(3) by simp
  qed
qed auto

lemma keeps_up_closed:
  assumes "good_codec k" "pos f = 0" "room f = None" "keeps_up k es (snd (fw_WriteHeader k h (fw_Open f)))"
  obtains its where "bytes (fw_file (fw_Close k (fw_run k h f es))) = closed_bytes k h its (written_messages es) (bytes f)"
    "messages its = written_messages es" "IChunk [] \<notin> set its"
proof -
  let ?w = "snd (fw_WriteHeader k h (fw_Open f))"
  have "in_order ?w [] []"
    by (simp add: in_order_def fw_WriteHeader_def WriteSection_def note_size_def fw_Open_def Let_def split: prod.splits)
  then obtain its where i: "fw_inv k h (bytes f) (fw_run k h f es) its (written_messages es)"
    "in_order (fw_run k h f es) its (written_messages es)"
    using keeps_up_run [OF assms(1) fw_inv_open(2) [OF assms(1,3,2) refl] _ assms(4)] unfolding fw_run_def by auto
  obtain its' where c: "bytes (fw_file (fw_Close k (fw_run k h f es))) = closed_bytes k h its' (written_messages es) (bytes f)"
    "IChunk [] \<notin> set its'"
    "its' = its @ flushed (chunk_flush (fw_run k h f es)) @ flushed (chunk_active (fw_run k h f es))"
    using fw_Close_file [OF assms(1) i(1)] by metis
  have "messages its' = written_messages es" using i(2) by (simp add: c(3) in_order_def)
  then show thesis using that c(1,2) by blast
qed

text \<open>
  Order. If the flush thread keeps up, reading the closed file with an open window yields
  the messages in the order in which they were written.
\<close>

theorem record_keeps_order:
  assumes "good_codec k" "pos f = 0" "room f = None"
    and "keeps_up k es (snd (fw_WriteHeader k h (fw_Open f)))"
    and "closed = bytes (fw_file (fw_Close k (fw_run k h f es)))" "length closed < 2 ^ 31"
    and "length (written_messages es) \<le> n"
  shows "\<exists>r'. read_upto k 0 (- 1) n (new_record_reader k (Some closed)) = Some (written_messages es, r')"
proof -
  obtain its where c: "closed = closed_bytes k h its (written_messages es) (bytes f)" and ms: "messages its = written_messages es"
    using keeps_up_closed [OF assms(1-4)] assms(5) by metis
  show ?thesis
    using closed_file_read [OF assms(1) assms(6) [unfolded c], of 0 "- 1" n] assms(7)
    by (simp add: window_all c ms not_less)
qed

text \<open>
  A flush thread that is late. Two messages, each larger than a chunk may be, are written before the
  flush thread runs; each of them swaps the chunks, so the newer one is written first, and the
  header takes the end of the older one for the end of the record. The newer message is on the file,
  and no window that starts at its time finds it.
\<close>

definition late_header :: header where
  "late_header = GetHeaderWithChunkParams 0 1"

theorem late_flush_loses_a_message:
  assumes "good_codec k" "pos f = 0" "room f = None"
    and "1 < length (sm_content m1)" "1 < length (sm_content m2)" "0 < sm_time m1" "sm_time m1 < sm_time m2"
    and "closed = bytes (fw_file (fw_Close k (fw_run k late_header f [Message_written m1, Message_written m2])))"
    and "length closed < 2 ^ 31" "sm_time m2 \<le> e"
  shows "(\<exists>r'. read_upto k 0 (- 1) 2 (new_record_reader k (Some closed)) = Some ([m2, m1], r')) \<and>
    (\<exists>r'. read_upto k (sm_time m2) e n (new_record_reader k (Some closed)) = Some ([], r'))"
proof -
  define w where "w = snd (fw_WriteHeader k late_header (fw_Open f))"
  have i: "fw_inv k late_header (bytes f) w [] []" unfolding w_def by (rule fw_inv_open(2) [OF assms(1,3,2) refl])
  have w: "chunk_active w = new_chunk" "chunk_flush w = new_chunk" "h_chunk_raw_size (fw_header w) = 1"
    using i unfolding w_def
    by (simp_all add: fw_WriteHeader_def WriteSection_def note_size_def fw_Open_def Let_def late_header_def
        GetHeaderWithChunkParams_def split: prod.splits)
  have nf: "need_flush x m (chunk_add m new_chunk)" if "h_chunk_raw_size x = 1" "1 < length (sm_content m)" for x m
    using that by (simp add: need_flush_def chunk_add_def new_chunk_def Let_def)
  let ?w1 = "snd (fw_WriteMessage m1 w)" let ?w2 = "snd (fw_WriteMessage m2 ?w1)"
  have w1: "chunk_flush ?w1 = chunk_of [m1]" "chunk_active ?w1 = new_chunk" "fw_header ?w1 = fw_header w"
    using w nf [of "fw_header w" m1] assms(4) by (simp_all add: fw_WriteMessage_def swap_chunks_def Let_def chunk_of_def)
  have w2: "chunk_flush ?w2 = chunk_of [m2]" "chunk_active ?w2 = chunk_of [m1]"
    using w w1 nf [of "fw_header w" m2] assms(5) by (simp_all add: fw_WriteMessage_def swap_chunks_def Let_def chunk_of_def)
  have i2: "fw_inv k late_header (bytes f) ?w2 [] [m1, m2]"
    using fw_WriteMessage_inv(2) [OF fw_WriteMessage_inv(2) [OF i, of m1], of m2] by simp
  let ?its = "[IChunk [m2], IChunk [m1]]"
  have c: "closed = closed_bytes k late_header ?its [m1, m2] (bytes f)"
    using fw_Close_file [OF assms(1) i2] assms(8) w2 unfolding fw_run_def
    by (auto simp: w_def [symmetric] flushed_def)
  have e: "h_end_time (final_header k late_header ?its [m1, m2]) = sm_time m1"
    using assms(6) by (simp add: final_header_def Let_def chunk_add_def new_chunk_def chunk_of_def)
  show ?thesis
    using closed_file_read [OF assms(1) assms(9) [unfolded c], of 0 "- 1" 2]
      closed_file_outside [OF assms(1) assms(9) [unfolded c], of "sm_time m2" e n] assms(7)
    by (simp add: c window_all messages_def e not_less)
qed

section \<open>A concrete run\<close>

definition sample_channel :: channel where
  "sample_channel = \<lparr>c_name = ''/a'', c_message_type = ''T'', c_proto_desc = []\<rparr>"

definition sample_message :: "u64 \<Rightarrow> single_message" where
  "sample_message t = \<lparr>sm_channel_name = ''/a'', sm_time = t, sm_content = [1, 2]\<rparr>"

definition no_file :: os_file where
  "no_file = \<lparr>bytes = [], pos = 0, room = None\<rparr>"

lemma simple_lengths:
  "length (enc simple_codec (PbChannel c)) =
     2 * (length (c_name c) + length (c_message_type c) + length (c_proto_desc c)) + 19"
  "length (enc simple_codec (PbChunkHeader h)) = 34 + ch_message_number h + ch_raw_size h"
  "length (enc simple_codec (PbChunkBody b)) = 17 + length b + sum_list (map (\<lambda>m. length (e_sm m)) b)"
  "length (enc simple_codec (PbIndex i)) = 17 + length i + sum_list (map (\<lambda>m. length (e_index m)) i)"
  by (simp_all add: length_enc simple_codec_def sizeof_Section_def length_e_messages)

lemma length_closed_bytes:
  "good_codec k \<Longrightarrow> length (closed_bytes k h its written []) =
    first_position + length (enc_all k (sections its)) + length (enc k (PbIndex (final_index k its written)))"
  by (simp add: closed_bytes_def length_enc_header first_position_def)

definition sample_events :: "fw_event list" where
  "sample_events = [Channel_written sample_channel, Message_written (sample_message 1), Message_written (sample_message 2)]"

definition sample_items :: "item list" where
  "sample_items = [IChannel sample_channel, IChunk [sample_message 1, sample_message 2]]"

lemma sample_length:
  "length (closed_bytes simple_codec h sample_items [sample_message 1, sample_message 2] []) < 2 ^ 31"
  by (simp add: length_closed_bytes [OF simple_codec_good] sections_def simple_lengths sample_channel_def sample_message_def
      sample_items_def final_index_def first_position_def sizeof_Section_def HEADER_LENGTH_def length_e_messages chunk_of_def
      chunk_add_def new_chunk_def Let_def e_index_def index_tuple_def counts_def count_name_def)

lemma fw_WriteMessage_quiet:
  "\<not> need_flush (fw_header w) m (chunk_add m (chunk_active w)) \<Longrightarrow>
    chunk_active (snd (fw_WriteMessage m w)) = chunk_add m (chunk_active w) \<and>
    chunk_flush (snd (fw_WriteMessage m w)) = chunk_flush w \<and> fw_header (snd (fw_WriteMessage m w)) = fw_header w"
  by (simp add: fw_WriteMessage_def Let_def)

lemma sample_closed:
  "bytes (fw_file (fw_Close simple_codec (fw_run simple_codec GetHeader no_file sample_events))) =
    closed_bytes simple_codec GetHeader sample_items [sample_message 1, sample_message 2] []"
proof -
  let ?k = simple_codec
  define w where "w = snd (fw_WriteChannel ?k sample_channel (snd (fw_WriteHeader ?k GetHeader (fw_Open no_file))))"
  have i: "fw_inv ?k GetHeader [] w [IChannel sample_channel] []"
    using fw_WriteChannel_inv(2) [OF simple_codec_good fw_inv_open(2) [OF simple_codec_good, of no_file]]
    by (simp add: w_def no_file_def)
  have c: "chunk_active w = new_chunk" "chunk_flush w = new_chunk"
    by (simp_all add: w_def fw_WriteChannel_chunks)
      (simp_all add: fw_WriteHeader_def WriteSection_def note_size_def fw_Open_def Let_def split: prod.splits)
  have h: "h_chunk_interval (fw_header w) = CHUNK_INTERVAL" "h_chunk_raw_size (fw_header w) = CHUNK_RAW_SIZE"
    using i by (simp_all add: fw_inv_def GetHeader_def)
  let ?w1 = "snd (fw_WriteMessage (sample_message 1) w)" let ?w2 = "snd (fw_WriteMessage (sample_message 2) ?w1)"
  have q: "\<not> need_flush (fw_header w) (sample_message 1) (chunk_add (sample_message 1) new_chunk)"
    "\<not> need_flush (fw_header w) (sample_message 2) (chunk_add (sample_message 2) (chunk_add (sample_message 1) new_chunk))"
    by (simp_all add: need_flush_def h CHUNK_INTERVAL_def CHUNK_RAW_SIZE_def chunk_add_def new_chunk_def sample_message_def Let_def)
  have w1: "chunk_active ?w1 = chunk_of [sample_message 1]" "chunk_flush ?w1 = new_chunk" "fw_header ?w1 = fw_header w"
    using fw_WriteMessage_quiet [of w "sample_message 1"] q(1) c by (simp_all add: chunk_of_def)
  have w2: "chunk_active ?w2 = chunk_of [sample_message 1, sample_message 2]" "chunk_flush ?w2 = new_chunk"
    using fw_WriteMessage_quiet [of ?w1 "sample_message 2"] q(2) w1 by (simp_all add: chunk_of_def)
  have "fw_inv ?k GetHeader [] ?w2 [IChannel sample_channel] [sample_message 1, sample_message 2]"
    using fw_WriteMessage_inv(2) [OF fw_WriteMessage_inv(2) [OF i, of "sample_message 1"], of "sample_message 2"] by simp
  then obtain its' where "bytes (fw_file (fw_Close ?k ?w2)) = closed_bytes ?k GetHeader its' [sample_message 1, sample_message 2] []"
    "its' = [IChannel sample_channel] @ flushed (chunk_flush ?w2) @ flushed (chunk_active ?w2)"
    using fw_Close_file [OF simple_codec_good] by metis
  moreover have "fw_run ?k GetHeader no_file sample_events = ?w2" by (simp add: fw_run_def sample_events_def w_def)
  ultimately show ?thesis using w2 by (simp add: flushed_def sample_items_def)
qed

lemma sample_written: "written_messages sample_events = [sample_message 1, sample_message 2]" "pos no_file = 0" "room no_file = None"
  by (simp_all add: sample_events_def no_file_def)

theorem record_roundtrip_witness:
  "\<exists>ms r'. read_upto simple_codec 0 (- 1) 2 (new_record_reader simple_codec
      (Some (bytes (fw_file (fw_Close simple_codec (fw_run simple_codec GetHeader no_file sample_events)))))) = Some (ms, r') \<and>
    mset ms = mset [sample_message 1, sample_message 2]"
  using record_roundtrip [of simple_codec no_file _ GetHeader sample_events _ 2, OF simple_codec_good sample_written(2,3) refl _ refl]
    sample_length [of GetHeader] by (simp add: sample_closed sample_written)

lemma sample_keeps_up: "keeps_up simple_codec sample_events (snd (fw_WriteHeader simple_codec GetHeader (fw_Open no_file)))"
proof -
  let ?w = "snd (fw_WriteHeader simple_codec GetHeader (fw_Open no_file))"
  have q: "\<not> need_flush h m c" if "h_chunk_interval h = CHUNK_INTERVAL" "h_chunk_raw_size h = CHUNK_RAW_SIZE"
    "sm_time m \<in> {1, 2}" "ch_begin_time (chunk_hdr c) = 1" "ch_raw_size (chunk_hdr c) < 5" for h m c
    using that by (auto simp: need_flush_def CHUNK_INTERVAL_def CHUNK_RAW_SIZE_def)
  have h: "h_chunk_interval (fw_header ?w) = CHUNK_INTERVAL" "h_chunk_raw_size (fw_header ?w) = CHUNK_RAW_SIZE"
    "chunk_active ?w = new_chunk"
    by (simp_all add: fw_WriteHeader_def WriteSection_def note_size_def fw_Open_def Let_def GetHeader_def split: prod.splits)
  have hc: "h_chunk_interval (fw_header (snd (fw_WriteChannel k c w))) = h_chunk_interval (fw_header w)"
    "h_chunk_raw_size (fw_header (snd (fw_WriteChannel k c w))) = h_chunk_raw_size (fw_header w)" for k c w
    by (simp_all add: fw_WriteChannel_def WriteSection_def note_size_def add_index_def Let_def split: prod.splits)
  let ?w1 = "snd (fw_WriteChannel simple_codec sample_channel ?w)"
  have q1: "\<not> need_flush (fw_header ?w1) (sample_message 1) (chunk_add (sample_message 1) new_chunk)"
    by (rule q) (simp_all add: h hc sample_message_def chunk_add_def new_chunk_def Let_def)
  have q2: "\<not> need_flush (fw_header ?w1) (sample_message 2) (chunk_add (sample_message 2) (chunk_add (sample_message 1) new_chunk))"
    by (rule q) (simp_all add: h hc sample_message_def chunk_add_def new_chunk_def Let_def)
  show ?thesis
    using q1 q2 fw_WriteMessage_quiet [of ?w1 "sample_message 1"]
    by (simp add: sample_events_def fw_WriteChannel_chunks h)
qed

theorem record_keeps_order_witness:
  "\<exists>r'. read_upto simple_codec 0 (- 1) 2 (new_record_reader simple_codec
      (Some (bytes (fw_file (fw_Close simple_codec (fw_run simple_codec GetHeader no_file sample_events)))))) =
    Some ([sample_message 1, sample_message 2], r')"
  using record_keeps_order [of simple_codec no_file sample_events GetHeader _ 2, OF simple_codec_good sample_written(2,3) sample_keeps_up refl]
    sample_length [of GetHeader] by (simp add: sample_closed sample_written)

end
