(* ===== verification/RecordWriter.thy ===== *)
theory RecordWriter
  imports RecordRoundtrip
begin

text \<open>
  The record writer of \<open>cyber/record/record_writer.{h,cc}\<close>, which splits a recording into segment
  files. Files that have been closed are kept as a log, the latest entry of a path is its content; a
  path that is opened again keeps the bytes it had. Which paths can be opened is a parameter. A result
  \<open>None\<close> is a call whose behaviour is undefined: it dereferences a null pointer, or uses a file
  writer after its file was closed.
\<close>

section \<open>State and operations\<close>

text \<open>
  \<open>file_writer_\<close>: a null pointer, a file writer whose file could not be opened, or an open one with its
  path; after \<open>Close\<close> the file writer is one that is not used any more.
\<close>

datatype writer_ptr = Null_writer | Unopened_writer | Open_writer string file_writer

record channel_data =
  cd_number :: nat
  cd_type :: string
  cd_desc :: string

record record_writer =
  rw_file :: string
  rw_path :: string
  is_opened :: bool
  rw_header :: header
  segment_raw_size :: u64
  segment_begin_time :: u64
  file_index :: nat
  rw_channels :: "(string \<times> channel_data) list"   \<comment> \<open>the three maps, in the order of their iteration\<close>
  rw_writer :: writer_ptr
  closed_files :: "(string \<times> byte list) list"

definition new_record_writer :: "header \<Rightarrow> record_writer" where
  "new_record_writer h =
     \<lparr>rw_file = [], rw_path = [], is_opened = False, rw_header = h, segment_raw_size = 0, segment_begin_time = 0,
      file_index = 0, rw_channels = [], rw_writer = Null_writer, closed_files = []\<rparr>"

text \<open>\<open>"." << setw(5) << setfill('0') << file_index_\<close>; the index is at most 99999.\<close>

definition index_suffix :: "nat \<Rightarrow> string" where
  "index_suffix i = CHR ''.'' # map (\<lambda>j. char_of (48 + i div 10 ^ j mod 10)) [4, 3, 2, 1, 0]"

definition disk_bytes :: "(string \<Rightarrow> byte list) \<Rightarrow> (string \<times> byte list) list \<Rightarrow> string \<Rightarrow> byte list" where
  "disk_bytes disk log p = (case map_of (rev log) p of None \<Rightarrow> disk p | Some bs \<Rightarrow> bs)"

text \<open>The destructor and \<open>Close\<close> of a file writer: its file becomes an entry of the log.\<close>

fun close_file_writer :: "codec \<Rightarrow> writer_ptr \<Rightarrow> (string \<times> byte list) list" where
  "close_file_writer k (Open_writer p f) = (if is_writing f then [(p, bytes (fw_file (fw_Close k f)))] else [])"
| "close_file_writer k _ = []"

text \<open>
  A new file writer that opens \<open>rw_path\<close> and writes the header. \<open>reset\<close> destroys the old file
  writer, which closes its file.
\<close>

definition open_path :: "codec \<Rightarrow> (string \<Rightarrow> bool) \<Rightarrow> (string \<Rightarrow> byte list) \<Rightarrow> record_writer \<Rightarrow> bool \<times> record_writer" where
  "open_path k openable disk w =
     (let w1 = w\<lparr>closed_files := closed_files w @ close_file_writer k (rw_writer w), rw_writer := Unopened_writer\<rparr> in
      if \<not> openable (rw_path w) then (False, w1)
      else
        let f = \<lparr>bytes = disk_bytes disk (closed_files w1) (rw_path w), pos = 0, room = None\<rparr>;
            (ok, fw) = fw_WriteHeader k (rw_header w) (fw_Open f)
        in (ok, w1\<lparr>rw_writer := Open_writer (rw_path w) fw\<rparr>))"

definition rw_Open :: "codec \<Rightarrow> (string \<Rightarrow> bool) \<Rightarrow> (string \<Rightarrow> byte list) \<Rightarrow> string \<Rightarrow> record_writer \<Rightarrow> bool \<times> record_writer" where
  "rw_Open k openable disk name w =
     (let w1 = w\<lparr>rw_file := name, file_index := 0\<rparr>;
          suffix = index_suffix (file_index w1);
          w2 = w1\<lparr>file_index := file_index w1 + 1\<rparr>;
          w3 = (if h_segment_interval (rw_header w2) > 0 \<or> h_segment_raw_size (rw_header w2) > 0
                then w2\<lparr>rw_path := rw_file w2 @ suffix\<rparr> else w2\<lparr>rw_path := rw_file w2\<rparr>);
          (ok, w4) = open_path k openable disk w3
      in case rw_writer w4 of
           Open_writer p f \<Rightarrow>
             if \<not> ok then (False, w4\<lparr>closed_files := closed_files w4 @ close_file_writer k (rw_writer w4),
                                     rw_writer := Open_writer p (fw_Close k f)\<rparr>)
             else (True, w4\<lparr>is_opened := True\<rparr>)
         | _ \<Rightarrow> (False, w4))"

definition rw_Close :: "codec \<Rightarrow> record_writer \<Rightarrow> record_writer" where
  "rw_Close k w =
     (if is_opened w then
        w\<lparr>closed_files := closed_files w @ close_file_writer k (rw_writer w),
          rw_writer := (case rw_writer w of Open_writer p f \<Rightarrow> Open_writer p (fw_Close k f) | x \<Rightarrow> x),
          is_opened := False\<rparr>
      else w)"

definition channel_of :: "string \<times> channel_data \<Rightarrow> channel" where
  "channel_of x = \<lparr>c_name = fst x, c_message_type = cd_type (snd x), c_proto_desc = cd_desc (snd x)\<rparr>"

fun write_channels :: "codec \<Rightarrow> (string \<times> channel_data) list \<Rightarrow> file_writer \<Rightarrow> bool \<times> file_writer" where
  "write_channels k [] f = (True, f)"
| "write_channels k (x # xs) f =
     (let (ok, f1) = fw_WriteChannel k (channel_of x) f in if \<not> ok then (False, f1) else write_channels k xs f1)"

definition SplitOutfile :: "codec \<Rightarrow> (string \<Rightarrow> bool) \<Rightarrow> (string \<Rightarrow> byte list) \<Rightarrow> record_writer \<Rightarrow> bool \<times> record_writer" where
  "SplitOutfile k openable disk w =
     (let w1 = w\<lparr>rw_writer := Unopened_writer\<rparr>;
          w2 = (if file_index w1 > 99999 then w1\<lparr>file_index := 0\<rparr> else w1);
          suffix = index_suffix (file_index w2);
          w3 = w2\<lparr>file_index := file_index w2 + 1, rw_path := rw_file w2 @ suffix,
                  segment_raw_size := 0, segment_begin_time := 0\<rparr>;
          (ok, w4) = open_path k openable disk w3
      in case rw_writer w4 of
           Open_writer p f \<Rightarrow>
             if \<not> ok then (False, w4)
             else let (ok', f') = write_channels k (rw_channels w4) f in (ok', w4\<lparr>rw_writer := Open_writer p f'\<rparr>)
         | _ \<Rightarrow> (False, w4))"

definition IsNewChannel :: "string \<Rightarrow> record_writer \<Rightarrow> bool" where
  "IsNewChannel name w \<longleftrightarrow> map_of (rw_channels w) name = None"

definition OnNewChannel :: "string \<Rightarrow> string \<Rightarrow> string \<Rightarrow> record_writer \<Rightarrow> record_writer" where
  "OnNewChannel name ty desc w =
     w\<lparr>rw_channels := rw_channels w @ [(name, \<lparr>cd_number = 0, cd_type = ty, cd_desc = desc\<rparr>)]\<rparr>"

definition OnNewMessage :: "string \<Rightarrow> record_writer \<Rightarrow> record_writer" where
  "OnNewMessage name w =
     w\<lparr>rw_channels := map (\<lambda>(n, d). (n, if n = name then d\<lparr>cd_number := cd_number d + 1\<rparr> else d)) (rw_channels w)\<rparr>"

definition rw_WriteChannel ::
  "codec \<Rightarrow> string \<Rightarrow> string \<Rightarrow> string \<Rightarrow> record_writer \<Rightarrow> (bool \<times> record_writer) option"
where
  "rw_WriteChannel k name ty desc w =
     (if IsNewChannel name w then
        let w1 = OnNewChannel name ty desc w in
        case rw_writer w1 of
          Null_writer \<Rightarrow> None
        | Unopened_writer \<Rightarrow> Some (False, w1)
        | Open_writer p f \<Rightarrow>
            if \<not> is_writing f then None
            else
              let (ok, f1) = fw_WriteChannel k \<lparr>c_name = name, c_message_type = ty, c_proto_desc = desc\<rparr> f
              in Some (ok, w1\<lparr>rw_writer := Open_writer p f1\<rparr>)
      else Some (True, w))"

definition need_split :: "record_writer \<Rightarrow> single_message \<Rightarrow> bool" where
  "need_split w m \<longleftrightarrow>
     (h_segment_interval (rw_header w) > 0 \<and> sm_time m - segment_begin_time w > h_segment_interval (rw_header w)) \<or>
     (h_segment_raw_size (rw_header w) > 0 \<and> segment_raw_size w > h_segment_raw_size (rw_header w))"

definition count_segment :: "single_message \<Rightarrow> record_writer \<Rightarrow> record_writer" where
  "count_segment m w =
     (let w1 = w\<lparr>segment_raw_size := segment_raw_size w + of_nat (length (sm_content m))\<rparr>;
          w2 = (if segment_begin_time w1 = 0 then w1\<lparr>segment_begin_time := sm_time m\<rparr> else w1)
      in if segment_begin_time w2 > sm_time m then w2\<lparr>segment_begin_time := sm_time m\<rparr> else w2)"

definition rw_WriteMessage ::
  "codec \<Rightarrow> (string \<Rightarrow> bool) \<Rightarrow> (string \<Rightarrow> byte list) \<Rightarrow> single_message \<Rightarrow> record_writer \<Rightarrow> (bool \<times> record_writer) option"
where
  "rw_WriteMessage k openable disk m w =
     (let w1 = OnNewMessage (sm_channel_name m) w in
      case rw_writer w1 of
        Open_writer p f \<Rightarrow>
          if \<not> is_writing f then None
          else
            let (ok, f1) = fw_WriteMessage m f; w2 = w1\<lparr>rw_writer := Open_writer p f1\<rparr> in
            if \<not> ok then Some (False, w2)
            else
              let w3 = count_segment m w2 in
              if need_split w3 m then
                let w4 = w3\<lparr>closed_files := closed_files w3 @ close_file_writer k (rw_writer w3)\<rparr>
                in Some (SplitOutfile k openable disk w4)
              else Some (True, w3)
      | _ \<Rightarrow> None)"

text \<open>The flush thread of the file writer.\<close>

definition rw_flush :: "codec \<Rightarrow> record_writer \<Rightarrow> record_writer" where
  "rw_flush k w = (case rw_writer w of Open_writer p f \<Rightarrow> w\<lparr>rw_writer := Open_writer p (Flush_step k f)\<rparr> | _ \<Rightarrow> w)"

definition SetSizeOfFileSegmentation :: "u64 \<Rightarrow> record_writer \<Rightarrow> bool \<times> record_writer" where
  "SetSizeOfFileSegmentation kilobytes w =
     (if is_opened w then (False, w)
      else (True, w\<lparr>rw_header := (rw_header w)\<lparr>h_segment_raw_size := kilobytes * 1024\<rparr>\<rparr>))"

definition SetIntervalOfFileSegmentation :: "u64 \<Rightarrow> record_writer \<Rightarrow> bool \<times> record_writer" where
  "SetIntervalOfFileSegmentation time_sec w =
     (if is_opened w then (False, w)
      else (True, w\<lparr>rw_header := (rw_header w)\<lparr>h_segment_interval := time_sec * 1000000000\<rparr>\<rparr>))"

definition rw_GetMessageNumber :: "string \<Rightarrow> record_writer \<Rightarrow> nat" where
  "rw_GetMessageNumber name w = (case map_of (rw_channels w) name of Some d \<Rightarrow> cd_number d | None \<Rightarrow> 0)"

definition rw_GetMessageType :: "string \<Rightarrow> record_writer \<Rightarrow> string" where
  "rw_GetMessageType name w = (case map_of (rw_channels w) name of Some d \<Rightarrow> cd_type d | None \<Rightarrow> [])"

definition rw_GetProtoDesc :: "string \<Rightarrow> record_writer \<Rightarrow> string" where
  "rw_GetProtoDesc name w = (case map_of (rw_channels w) name of Some d \<Rightarrow> cd_desc d | None \<Rightarrow> [])"

definition rw_GetChannelList :: "record_writer \<Rightarrow> string set" where
  "rw_GetChannelList w = fst ` set (rw_channels w)"

text \<open>\<open>WriteMessage\<close> for a serialised message, and for a raw one, which may be a null pointer.\<close>

definition rw_WriteContent ::
  "codec \<Rightarrow> (string \<Rightarrow> bool) \<Rightarrow> (string \<Rightarrow> byte list) \<Rightarrow> string \<Rightarrow> byte list \<Rightarrow> u64 \<Rightarrow> record_writer \<Rightarrow> (bool \<times> record_writer) option"
where
  "rw_WriteContent k openable disk chan content time w =
     rw_WriteMessage k openable disk \<lparr>sm_channel_name = chan, sm_time = time, sm_content = content\<rparr> w"

definition rw_WriteRaw ::
  "codec \<Rightarrow> (string \<Rightarrow> bool) \<Rightarrow> (string \<Rightarrow> byte list) \<Rightarrow> string \<Rightarrow> byte list option \<Rightarrow> u64 \<Rightarrow> record_writer \<Rightarrow> (bool \<times> record_writer) option"
where
  "rw_WriteRaw k openable disk chan message time w =
     (case message of None \<Rightarrow> Some (False, w) | Some content \<Rightarrow> rw_WriteContent k openable disk chan content time w)"

text \<open>
  \<open>WriteMessage\<close> for a message with a type: \<open>name\<close> is its type name, \<open>full_name\<close> that of its
  descriptor, and \<open>content\<close> what it serialises to.
\<close>

definition rw_WriteTyped ::
  "codec \<Rightarrow> (string \<Rightarrow> bool) \<Rightarrow> (string \<Rightarrow> byte list) \<Rightarrow> string \<Rightarrow> string \<Rightarrow> string \<Rightarrow> byte list option \<Rightarrow> u64 \<Rightarrow> string \<Rightarrow>
    record_writer \<Rightarrow> (bool \<times> record_writer) option"
where
  "rw_WriteTyped k openable disk chan name full_name content time desc w =
     (let ty = rw_GetMessageType chan w;
          registered = (if ty = [] then rw_WriteChannel k chan name desc w
                        else if full_name \<noteq> ty then Some (False, w) else Some (True, w))
      in case registered of
           None \<Rightarrow> None
         | Some (False, w1) \<Rightarrow> Some (False, w1)
         | Some (True, w1) \<Rightarrow>
             (case content of
                None \<Rightarrow> Some (False, w1)
              | Some bs \<Rightarrow> rw_WriteContent k openable disk chan bs time w1))"

section \<open>What the segments of a recording hold\<close>

datatype rw_event = Rw_channel string string string | Rw_message single_message | Rw_flush

fun rw_step :: "codec \<Rightarrow> (string \<Rightarrow> bool) \<Rightarrow> (string \<Rightarrow> byte list) \<Rightarrow> rw_event \<Rightarrow> record_writer \<Rightarrow> record_writer option" where
  "rw_step k openable disk (Rw_channel name ty desc) w = map_option snd (rw_WriteChannel k name ty desc w)"
| "rw_step k openable disk (Rw_message m) w = map_option snd (rw_WriteMessage k openable disk m w)"
| "rw_step k openable disk Rw_flush w = Some (rw_flush k w)"

fun rw_run :: "codec \<Rightarrow> (string \<Rightarrow> bool) \<Rightarrow> (string \<Rightarrow> byte list) \<Rightarrow> rw_event list \<Rightarrow> record_writer \<Rightarrow> record_writer option" where
  "rw_run k openable disk [] w = Some w"
| "rw_run k openable disk (e # es) w =
     (case rw_step k openable disk e w of None \<Rightarrow> None | Some w' \<Rightarrow> rw_run k openable disk es w')"

text \<open>
  The specification: the messages are cut greedily. A segment ends with the message that takes it
  beyond its time or its size, and knows the channels that were announced by then.
\<close>

definition content_size :: "single_message list \<Rightarrow> nat" where
  "content_size ms = sum_list (map (\<lambda>m. length (sm_content m)) ms)"

definition earlier :: "single_message \<Rightarrow> u64 \<Rightarrow> u64" where
  "earlier m b = (if b = 0 \<or> b > sm_time m then sm_time m else b)"

definition segment_begin :: "single_message list \<Rightarrow> u64" where
  "segment_begin ms = fold earlier ms 0"

definition segment_full :: "header \<Rightarrow> single_message list \<Rightarrow> bool" where
  "segment_full h ms \<longleftrightarrow>
     (h_segment_interval h > 0 \<and> sm_time (last ms) - segment_begin ms > h_segment_interval h) \<or>
     (h_segment_raw_size h > 0 \<and> of_nat (content_size ms) > h_segment_raw_size h)"

type_synonym segment = "single_message list \<times> string list"

fun cut_segments :: "header \<Rightarrow> rw_event list \<Rightarrow> segment \<Rightarrow> segment list" where
  "cut_segments h [] (cur, names) = [(cur, names)]"
| "cut_segments h (Rw_channel name ty desc # es) (cur, names) =
     cut_segments h es (cur, if name \<in> set names then names else names @ [name])"
| "cut_segments h (Rw_message m # es) (cur, names) =
     (if segment_full h (cur @ [m]) then (cur @ [m], names) # cut_segments h es ([], names)
      else cut_segments h es (cur @ [m], names))"
| "cut_segments h (Rw_flush # es) (cur, names) = cut_segments h es (cur, names)"

definition segment_path :: "header \<Rightarrow> string \<Rightarrow> nat \<Rightarrow> string" where
  "segment_path h name i =
     (if h_segment_interval h > 0 \<or> h_segment_raw_size h > 0 then name @ index_suffix (i mod 100000) else name)"

text \<open>A file that reads as a segment.\<close>

definition reads_as :: "codec \<Rightarrow> header \<Rightarrow> byte list \<Rightarrow> segment \<Rightarrow> bool" where
  "reads_as k h bs = (\<lambda>(ms, names).
     length bs < 2 ^ 31 \<longrightarrow>
       (let r = new_record_reader k (Some bs) in
        rr_valid r \<and> h_is_complete (rr_header r) \<and>
        h_message_number (rr_header r) = h_message_number h + of_nat (length ms) \<and>
        rr_GetChannelList r = set names \<and> (\<forall>name\<in>set names. rr_GetMessageNumber name r = count_name name ms) \<and>
        (\<forall>n\<ge>length ms. \<exists>out r'. read_upto k 0 (- 1) n r = Some (out, r') \<and> mset out = mset ms)))"

lemma segment_begin_snoc: "segment_begin (ms @ [m]) = earlier m (segment_begin ms)"
  by (simp add: segment_begin_def)

lemma content_size_snoc: "content_size (ms @ [m]) = content_size ms + length (sm_content m)"
  by (simp add: content_size_def)

lemma closed_file_reads_as:
  assumes "good_codec k" "fw_inv k h old f its ms" "map c_name (concat (map item_channels its)) = names"
  shows "reads_as k h (bytes (fw_file (fw_Close k f))) (ms, names)"
proof -
  obtain its' where c: "bytes (fw_file (fw_Close k f)) = closed_bytes k h its' ms old"
    "mset (messages its') = mset ms" "its' = its @ flushed (chunk_flush f) @ flushed (chunk_active f)"
    using fw_Close_file [OF assms(1,2)] by metis
  have ch: "c_name ` set (concat (map item_channels its')) = set names"
    using arg_cong [OF assms(3), of set] by (simp add: c(3) flushed_def)
  have len: "length (messages its') = length ms" using c(2) by (metis size_mset)
  show ?thesis unfolding reads_as_def prod.case Let_def
  proof (intro impI)
    assume "length (bytes (fw_file (fw_Close k f))) < 2 ^ 31"
    then have l: "length (closed_bytes k h its' ms old) < 2 ^ 31" by (simp only: c(1))
    note C = closed_file_counts [OF assms(1) l, unfolded ch len]
    have "\<exists>out r'. read_upto k 0 (- 1) n (new_record_reader k (Some (closed_bytes k h its' ms old))) = Some (out, r') \<and> mset out = mset ms"
      if "length ms \<le> n" for n
      using closed_file_read [OF assms(1) l, of 0 "- 1" n] len that c(2) by (auto simp: window_all not_less)
    then show "rr_valid (new_record_reader k (Some (bytes (fw_file (fw_Close k f))))) \<and>
      h_is_complete (rr_header (new_record_reader k (Some (bytes (fw_file (fw_Close k f)))))) \<and>
      h_message_number (rr_header (new_record_reader k (Some (bytes (fw_file (fw_Close k f)))))) = h_message_number h + of_nat (length ms) \<and>
      rr_GetChannelList (new_record_reader k (Some (bytes (fw_file (fw_Close k f))))) = set names \<and>
      (\<forall>name\<in>set names. rr_GetMessageNumber name (new_record_reader k (Some (bytes (fw_file (fw_Close k f))))) = count_name name ms) \<and>
      (\<forall>n\<ge>length ms. \<exists>out r'. read_upto k 0 (- 1) n (new_record_reader k (Some (bytes (fw_file (fw_Close k f))))) = Some (out, r') \<and> mset out = mset ms)"
      unfolding c(1) using C by blast
  qed
qed

section \<open>The writer keeps to the specification\<close>

text \<open>A file writer that holds the messages and the channels of a segment.\<close>

definition holds :: "codec \<Rightarrow> header \<Rightarrow> file_writer \<Rightarrow> segment \<Rightarrow> bool" where
  "holds k h f seg \<longleftrightarrow>
     (\<exists>old its. fw_inv k h old f its (fst seg) \<and> map c_name (concat (map item_channels its)) = snd seg)"

lemma holdsI: "fw_inv k h old f its (fst seg) \<Longrightarrow> map c_name (concat (map item_channels its)) = snd seg \<Longrightarrow> holds k h f seg"
  by (auto simp: holds_def)

lemma holds_writing: "holds k h f seg \<Longrightarrow> is_writing f"
  by (auto simp: holds_def fw_inv_def)

lemma holds_channel:
  assumes "good_codec k" "holds k h f (ms, names)"
  obtains f1 where "fw_WriteChannel k c f = (True, f1)" "holds k h f1 (ms, names @ [c_name c])"
proof -
  obtain old its where i: "fw_inv k h old f its ms" "map c_name (concat (map item_channels its)) = names"
    using assms(2) by (auto simp: holds_def)
  note W = fw_WriteChannel_inv [OF assms(1) i(1), of c]
  obtain f1 where f1: "fw_WriteChannel k c f = (True, f1)" using W(1) by (metis prod.collapse)
  show thesis
  proof (rule that [OF f1])
    show "holds k h f1 (ms, names @ [c_name c])"
      by (rule holdsI [of _ _ _ _ "its @ [IChannel c]"]) (use W(2) f1 i(2) in simp_all)
  qed
qed

lemma holds_message:
  assumes "holds k h f (ms, names)"
  obtains f1 where "fw_WriteMessage m f = (True, f1)" "holds k h f1 (ms @ [m], names)"
proof -
  obtain old its where i: "fw_inv k h old f its ms" "map c_name (concat (map item_channels its)) = names"
    using assms by (auto simp: holds_def)
  note W = fw_WriteMessage_inv [OF i(1), of m]
  obtain f1 where f1: "fw_WriteMessage m f = (True, f1)" using W(1) by (metis prod.collapse)
  show thesis
  proof (rule that [OF f1])
    show "holds k h f1 (ms @ [m], names)" by (rule holdsI [of _ _ _ _ its]) (use W(2) f1 i(2) in simp_all)
  qed
qed

lemma holds_flush:
  assumes "good_codec k" "holds k h f seg"
  shows "holds k h (Flush_step k f) seg"
proof -
  obtain old its where i: "fw_inv k h old f its (fst seg)" "map c_name (concat (map item_channels its)) = snd seg"
    using assms(2) by (auto simp: holds_def)
  show ?thesis
    by (rule holdsI [OF Flush_step_inv(1) [OF assms(1) i(1)]]) (use i(2) in \<open>simp add: flushed_def\<close>)
qed

lemma holds_channels:
  assumes "good_codec k" "holds k h f (ms, names)"
  shows "\<exists>f'. write_channels k xs f = (True, f') \<and> holds k h f' (ms, names @ map fst xs)"
  using assms(2)
proof (induction xs arbitrary: f names)
  case (Cons x xs)
  obtain f1 where f1: "fw_WriteChannel k (channel_of x) f = (True, f1)" "holds k h f1 (ms, names @ [c_name (channel_of x)])"
    by (rule holds_channel [OF assms(1) Cons.prems])
  show ?case using Cons.IH [OF f1(2)] f1(1) by (auto simp: channel_of_def)
qed auto

definition rw_inv :: "codec \<Rightarrow> header \<Rightarrow> string \<Rightarrow> record_writer \<Rightarrow> segment list \<Rightarrow> segment \<Rightarrow> bool" where
  "rw_inv k h name w segs cur \<longleftrightarrow>
     is_opened w \<and> rw_header w = h \<and> rw_file w = name \<and> map fst (rw_channels w) = snd cur \<and>
     segment_raw_size w = of_nat (content_size (fst cur)) \<and> segment_begin_time w = segment_begin (fst cur) \<and>
     file_index w = length segs mod 100000 + 1 \<and>
     map fst (closed_files w) = map (segment_path h name) [0..<length segs] \<and>
     list_all2 (\<lambda>f. reads_as k h (snd f)) (closed_files w) segs \<and>
     (\<exists>f. rw_writer w = Open_writer (segment_path h name (length segs)) f \<and> holds k h f cur)"

lemma open_path_inv:
  assumes "good_codec k" "openable (rw_path w)" "rw_header w = h"
  obtains f where "open_path k openable disk w =
      (True, w\<lparr>closed_files := closed_files w @ close_file_writer k (rw_writer w), rw_writer := Open_writer (rw_path w) f\<rparr>)"
    "holds k h f ([], [])"
proof -
  define g where "g = \<lparr>bytes = disk_bytes disk (closed_files w @ close_file_writer k (rw_writer w)) (rw_path w), pos = 0, room = None :: nat option\<rparr>"
  have g: "room g = None" "pos g = 0" by (simp_all add: g_def)
  note O = fw_inv_open [OF assms(1) g refl, of h]
  obtain f where f: "fw_WriteHeader k h (fw_Open g) = (True, f)" using O(1) by (metis prod.collapse)
  have "open_path k openable disk w =
      (True, w\<lparr>closed_files := closed_files w @ close_file_writer k (rw_writer w), rw_writer := Open_writer (rw_path w) f\<rparr>)"
    using f assms(2,3) by (simp add: open_path_def Let_def g_def)
  then show thesis using that O(2) f by (force intro: holdsI)
qed

lemma rw_Open_inv:
  assumes "good_codec k" "\<forall>p. openable p" "rw_Open k openable disk name (new_record_writer h) = (ok, w)"
  shows "ok \<and> rw_inv k h name w [] ([], [])"
proof -
  define v where "v = (new_record_writer h)\<lparr>rw_file := name, file_index := 1, rw_path := segment_path h name 0\<rparr>"
  obtain f where o: "open_path k openable disk v = (True, v\<lparr>closed_files := closed_files v @ close_file_writer k (rw_writer v), rw_writer := Open_writer (rw_path v) f\<rparr>)"
    and i: "holds k h f ([], [])"
    using open_path_inv [of k openable v h disk] assms(1,2) by (auto simp: v_def new_record_writer_def)
  have "rw_Open k openable disk name (new_record_writer h) =
      (True, v\<lparr>rw_writer := Open_writer (rw_path v) f, is_opened := True\<rparr>)"
  proof (cases "h_segment_interval h > 0 \<or> h_segment_raw_size h > 0")
    case True
    then have "segment_path h name 0 = name @ index_suffix 0" by (simp add: segment_path_def)
    then show ?thesis using o True by (simp add: rw_Open_def Let_def new_record_writer_def v_def)
  next
    case False
    then have "segment_path h name 0 = name" by (simp add: segment_path_def)
    then show ?thesis using o False by (simp add: rw_Open_def Let_def new_record_writer_def v_def)
  qed
  then show ?thesis
    using assms(3) i by (auto simp: rw_inv_def v_def new_record_writer_def content_size_def segment_begin_def)
qed

lemma rw_channel_inv:
  assumes "good_codec k" "rw_inv k h name w segs (cur, names)"
  shows "\<exists>w'. rw_WriteChannel k n ty desc w = Some (True, w') \<and>
    rw_inv k h name w' segs (cur, if n \<in> set names then names else names @ [n])"
proof -
  have names: "map fst (rw_channels w) = names" using assms(2) by (simp add: rw_inv_def)
  have new: "IsNewChannel n w \<longleftrightarrow> n \<notin> set names"
    unfolding IsNewChannel_def map_of_eq_None_iff by (simp flip: names)
  obtain f where f: "rw_writer w = Open_writer (segment_path h name (length segs)) f" "holds k h f (cur, names)"
    using assms(2) by (auto simp: rw_inv_def)
  note wr = holds_writing [OF f(2)]
  show ?thesis
  proof (cases "n \<in> set names")
    case True
    then show ?thesis using assms(2) new by (simp add: rw_WriteChannel_def)
  next
    case False
    let ?c = "\<lparr>c_name = n, c_message_type = ty, c_proto_desc = desc\<rparr>"
    obtain f1 where f1: "fw_WriteChannel k ?c f = (True, f1)" "holds k h f1 (cur, names @ [c_name ?c])"
      by (rule holds_channel [OF assms(1) f(2)])
    let ?w = "OnNewChannel n ty desc w"
    have "rw_WriteChannel k n ty desc w = Some (True, ?w\<lparr>rw_writer := Open_writer (segment_path h name (length segs)) f1\<rparr>)"
      using False new f(1) wr f1(1) by (simp add: rw_WriteChannel_def Let_def OnNewChannel_def)
    moreover have "rw_inv k h name (?w\<lparr>rw_writer := Open_writer (segment_path h name (length segs)) f1\<rparr>) segs (cur, names @ [n])"
      using assms(2) f1(2) names by (simp add: rw_inv_def OnNewChannel_def)
    ultimately show ?thesis using False by simp
  qed
qed

lemma rw_flush_inv:
  assumes "good_codec k" "rw_inv k h name w segs cur"
  shows "rw_inv k h name (rw_flush k w) segs cur"
proof -
  obtain f where f: "rw_writer w = Open_writer (segment_path h name (length segs)) f" "holds k h f cur"
    using assms(2) by (auto simp: rw_inv_def)
  show ?thesis using assms(2) f(1) holds_flush [OF assms(1) f(2)] by (simp add: rw_inv_def rw_flush_def)
qed

lemma OnNewMessage_fields:
  "rw_writer (OnNewMessage c w) = rw_writer w" "rw_header (OnNewMessage c w) = rw_header w"
  "segment_raw_size (OnNewMessage c w) = segment_raw_size w" "segment_begin_time (OnNewMessage c w) = segment_begin_time w"
  "closed_files (OnNewMessage c w) = closed_files w" "is_opened (OnNewMessage c w) = is_opened w"
  "rw_file (OnNewMessage c w) = rw_file w" "file_index (OnNewMessage c w) = file_index w"
  "map fst (rw_channels (OnNewMessage c w)) = map fst (rw_channels w)"
  by (simp_all add: OnNewMessage_def comp_def case_prod_beta)

lemma count_segment_eq:
  "count_segment m w = w\<lparr>segment_raw_size := segment_raw_size w + of_nat (length (sm_content m)),
     segment_begin_time := earlier m (segment_begin_time w)\<rparr>"
  by (auto simp: count_segment_def earlier_def Let_def)

lemma next_index:
  assumes "i = n mod 100000 + 1"
  shows "(if i > 99999 then 0 else i) = Suc n mod 100000"
proof -
  have "n mod 100000 < 100000" by simp
  then show ?thesis using assms by (auto simp: mod_Suc)
qed

lemma need_split_iff:
  assumes "rw_header w = h" "segment_raw_size w = of_nat (content_size cur)" "segment_begin_time w = segment_begin cur"
  shows "need_split (count_segment m w) m \<longleftrightarrow> segment_full h (cur @ [m])"
  using assms by (simp add: need_split_def segment_full_def count_segment_eq content_size_snoc segment_begin_snoc)

lemma SplitOutfile_inv:
  assumes "good_codec k" "\<forall>p. openable p" "rw_header w = h" "rw_file w = name" "is_opened w"
    "h_segment_interval h > 0 \<or> h_segment_raw_size h > 0"
    "file_index w = n mod 100000 + 1" "Suc n = length segs"
    "map fst (closed_files w) = map (segment_path h name) [0..<length segs]"
    "list_all2 (\<lambda>f. reads_as k h (snd f)) (closed_files w) segs"
  shows "\<exists>w'. SplitOutfile k openable disk w = (True, w') \<and> rw_inv k h name w' segs ([], map fst (rw_channels w))"
proof -
  define i where "i = Suc n mod 100000"
  define v where "v = w\<lparr>rw_writer := Unopened_writer, file_index := i + 1, rw_path := segment_path h name (Suc n),
    segment_raw_size := 0, segment_begin_time := 0\<rparr>"
  have p: "segment_path h name (Suc n) = name @ index_suffix i" using assms(6) by (auto simp: segment_path_def i_def)
  obtain f where o: "open_path k openable disk v = (True, v\<lparr>closed_files := closed_files v @ close_file_writer k (rw_writer v), rw_writer := Open_writer (rw_path v) f\<rparr>)"
    and fi: "holds k h f ([], [])"
    using open_path_inv [of k openable v h disk] assms(1-3) by (auto simp: v_def)
  obtain f' where c: "write_channels k (rw_channels w) f = (True, f')" "holds k h f' ([], map fst (rw_channels w))"
    using holds_channels [OF assms(1) fi, of "rw_channels w"] by auto
  have ix: "(if file_index w > 99999 then 0 else file_index w) = i" unfolding i_def by (rule next_index [OF assms(7)])
  have "SplitOutfile k openable disk w = (True, v\<lparr>rw_writer := Open_writer (rw_path v) f'\<rparr>)"
  proof -
    have v: "(let w1 = w\<lparr>rw_writer := Unopened_writer\<rparr>; w2 = (if file_index w1 > 99999 then w1\<lparr>file_index := 0\<rparr> else w1) in
        w2\<lparr>file_index := file_index w2 + 1, rw_path := rw_file w2 @ index_suffix (file_index w2), segment_raw_size := 0, segment_begin_time := 0\<rparr>) = v"
    proof (cases "file_index w > 99999")
      case True
      then have "i = 0" using ix by simp
      then show ?thesis using True assms(4) p by (simp add: v_def Let_def)
    next
      case False
      then have "file_index w = i" using ix by simp
      then show ?thesis using False assms(4) p by (simp add: v_def Let_def)
    qed
    have "SplitOutfile k openable disk w =
      (let (ok, w4) = open_path k openable disk v
       in case rw_writer w4 of
           Open_writer p f \<Rightarrow>
             if \<not> ok then (False, w4)
             else let (ok', f') = write_channels k (rw_channels w4) f in (ok', w4\<lparr>rw_writer := Open_writer p f'\<rparr>)
         | _ \<Rightarrow> (False, w4))"
      unfolding SplitOutfile_def Let_def v [unfolded Let_def] ..
    then show ?thesis using o c(1) by (simp add: v_def)
  qed
  moreover have "rw_inv k h name (v\<lparr>rw_writer := Open_writer (rw_path v) f'\<rparr>) segs ([], map fst (rw_channels w))"
    using assms(3-5,8-10) c(2) by (simp add: rw_inv_def v_def i_def content_size_def segment_begin_def)
  ultimately show ?thesis by blast
qed

lemma list_all2_snoc: "list_all2 P xs ys \<Longrightarrow> P x y \<Longrightarrow> list_all2 P (xs @ [x]) (ys @ [y])"
  by (simp add: list_all2_appendI)

text \<open>Closing the file of a segment.\<close>

lemma holds_close:
  assumes "good_codec k" "holds k h f (ms, names)"
  shows "close_file_writer k (Open_writer p f) = [(p, bytes (fw_file (fw_Close k f)))]"
    "reads_as k h (bytes (fw_file (fw_Close k f))) (ms, names)"
  using assms(2) holds_writing [OF assms(2)] closed_file_reads_as [OF assms(1)] by (auto simp: holds_def)

lemma rw_message_inv:
  assumes "good_codec k" "\<forall>p. openable p" "rw_inv k h name w segs (cur, names)"
  shows "\<exists>w'. rw_WriteMessage k openable disk m w = Some (True, w') \<and>
    (if segment_full h (cur @ [m]) then rw_inv k h name w' (segs @ [(cur @ [m], names)]) ([], names)
     else rw_inv k h name w' segs (cur @ [m], names))"
proof -
  let ?p = "segment_path h name (length segs)" let ?w1 = "OnNewMessage (sm_channel_name m) w"
  obtain f where f: "rw_writer w = Open_writer ?p f" "holds k h f (cur, names)"
    using assms(3) by (auto simp: rw_inv_def)
  obtain f1 where f1: "fw_WriteMessage m f = (True, f1)" "holds k h f1 (cur @ [m], names)"
    by (rule holds_message [OF f(2)])
  define w3 where "w3 = count_segment m (?w1\<lparr>rw_writer := Open_writer ?p f1\<rparr>)"
  have fields: "is_opened w3" "rw_header w3 = h" "rw_file w3 = name" "map fst (rw_channels w3) = names"
    "segment_raw_size w3 = of_nat (content_size (cur @ [m]))" "segment_begin_time w3 = segment_begin (cur @ [m])"
    "file_index w3 = length segs mod 100000 + 1"
    "map fst (closed_files w3) = map (segment_path h name) [0..<length segs]"
    "list_all2 (\<lambda>f. reads_as k h (snd f)) (closed_files w3) segs" "rw_writer w3 = Open_writer ?p f1"
    using assms(3) by (simp_all add: w3_def count_segment_eq OnNewMessage_fields rw_inv_def content_size_snoc segment_begin_snoc)
  have need: "need_split w3 m \<longleftrightarrow> segment_full h (cur @ [m])"
    unfolding w3_def using assms(3) by (intro need_split_iff) (simp_all add: OnNewMessage_fields rw_inv_def)
  have run: "rw_WriteMessage k openable disk m w =
      (if need_split w3 m then Some (SplitOutfile k openable disk (w3\<lparr>closed_files := closed_files w3 @ close_file_writer k (rw_writer w3)\<rparr>))
       else Some (True, w3))"
    using f(1) f1(1) holds_writing [OF f(2)]
    by (simp add: rw_WriteMessage_def Let_def OnNewMessage_fields w3_def)
  show ?thesis
  proof (cases "segment_full h (cur @ [m])")
    case False
    have "rw_inv k h name w3 segs (cur @ [m], names)" using fields f1(2) by (simp add: rw_inv_def)
    then show ?thesis using False need run by simp
  next
    case True
    let ?segs = "segs @ [(cur @ [m], names)]"
    define v where "v = w3\<lparr>closed_files := closed_files w3 @ close_file_writer k (rw_writer w3)\<rparr>"
    note c = holds_close(1) [OF assms(1) f1(2), of ?p] holds_close(2) [OF assms(1) f1(2)]
    have "h_segment_interval h > 0 \<or> h_segment_raw_size h > 0" using True by (auto simp: segment_full_def)
    then obtain w' where "SplitOutfile k openable disk v = (True, w')" "rw_inv k h name w' ?segs ([], map fst (rw_channels v))"
      using SplitOutfile_inv [OF assms(1,2), of v h name "length segs" ?segs disk] fields c
      by (auto simp: v_def list_all2_snoc)
    then show ?thesis using True need run fields(4) by (simp add: v_def)
  qed
qed

lemma rw_run_inv:
  assumes "good_codec k" "\<forall>p. openable p" "rw_inv k h name w segs cur"
  shows "\<exists>w' segs' cur'. rw_run k openable disk es w = Some w' \<and> rw_inv k h name w' segs' cur' \<and>
    segs' @ [cur'] = segs @ cut_segments h es cur"
  using assms(3)
proof (induction es arbitrary: w segs cur)
  case Nil
  then show ?case by (cases cur) auto
next
  case (Cons e es)
  obtain ms names where cur: "cur = (ms, names)" by fastforce
  show ?case
  proof (cases e)
    case (Rw_channel n ty desc)
    then show ?thesis
      using rw_channel_inv [OF assms(1) Cons.prems [unfolded cur], of n ty desc] Cons.IH by (fastforce simp: cur)
  next
    case (Rw_message m)
    obtain w' where w': "rw_WriteMessage k openable disk m w = Some (True, w')"
      "if segment_full h (ms @ [m]) then rw_inv k h name w' (segs @ [(ms @ [m], names)]) ([], names)
       else rw_inv k h name w' segs (ms @ [m], names)"
      using rw_message_inv [OF assms(1,2) Cons.prems [unfolded cur], of disk m] by blast
    show ?thesis
    proof (cases "segment_full h (ms @ [m])")
      case True
      then show ?thesis using w' Rw_message Cons.IH [of w' "segs @ [(ms @ [m], names)]" "([], names)"] by (auto simp: cur)
    next
      case False
      then show ?thesis using w' Rw_message Cons.IH [of w' "segs" "(ms @ [m], names)"] by (auto simp: cur)
    qed
  next
    case Rw_flush
    then show ?thesis using rw_flush_inv [OF assms(1) Cons.prems] Cons.IH by (fastforce simp: cur)
  qed
qed

text \<open>
  Property C22. A recording refines its specification. Where all files can be opened, any run of a
  record writer from \<open>Open\<close> to \<open>Close\<close>, with the flush threads in any order, is without undefined
  behaviour and leaves one file for each segment the specification cuts, under the paths in turn,
  whatever was at these paths before. Each file reads as its segment: complete, with all of its
  messages and no other, the channels announced by then, and their counts in the segment.
\<close>

theorem recording_refines_segments:
  assumes "good_codec k" "\<forall>p. openable p"
    and "rw_Open k openable disk name (new_record_writer h) = (ok, w)"
  shows "ok \<and> (\<exists>w'. rw_run k openable disk es w = Some w' \<and>
    map fst (closed_files (rw_Close k w')) = map (segment_path h name) [0..<length (cut_segments h es ([], []))] \<and>
    list_all2 (\<lambda>f. reads_as k h (snd f)) (closed_files (rw_Close k w')) (cut_segments h es ([], [])))"
proof -
  have i: "ok" "rw_inv k h name w [] ([], [])" using rw_Open_inv [OF assms] by simp_all
  obtain w' segs' cur' where r: "rw_run k openable disk es w = Some w'" "rw_inv k h name w' segs' cur'"
    "segs' @ [cur'] = cut_segments h es ([], [])"
    using rw_run_inv [OF assms(1,2) i(2), of disk es] by auto
  obtain ms names where cur: "cur' = (ms, names)" by fastforce
  obtain f where f: "rw_writer w' = Open_writer (segment_path h name (length segs')) f" "holds k h f (ms, names)"
    using r(2) by (auto simp: rw_inv_def cur)
  note c = holds_close(1) [OF assms(1) f(2), of "segment_path h name (length segs')"] holds_close(2) [OF assms(1) f(2)]
  have "closed_files (rw_Close k w') = closed_files w' @ [(segment_path h name (length segs'), bytes (fw_file (fw_Close k f)))]"
    using r(2) f(1) c(1) by (simp add: rw_Close_def rw_inv_def)
  then show ?thesis
    using i(1) r(1,2) c(2) by (simp add: rw_inv_def cur list_all2_snoc flip: r(3))
qed

text \<open>A recording of three messages whose first segment is full after the second.\<close>

definition split_header :: header where
  "split_header = GetHeaderWithSegmentParams 0 3"

definition split_events :: "rw_event list" where
  "split_events = [Rw_channel ''/a'' ''T'' [], Rw_message (sample_message 1), Rw_flush, Rw_message (sample_message 2),
     Rw_message (sample_message 3)]"

theorem recording_refines_segments_witness:
  "\<exists>w'. rw_run simple_codec (\<lambda>p. True) (\<lambda>p. []) split_events
      (snd (rw_Open simple_codec (\<lambda>p. True) (\<lambda>p. []) ''r'' (new_record_writer split_header))) = Some w' \<and>
    map fst (closed_files (rw_Close simple_codec w')) = [''r.00000'', ''r.00001''] \<and>
    list_all2 (\<lambda>f. reads_as simple_codec split_header (snd f)) (closed_files (rw_Close simple_codec w'))
      [([sample_message 1, sample_message 2], [''/a'']), ([sample_message 3], [''/a''])]"
proof -
  let ?o = "rw_Open simple_codec (\<lambda>p. True) (\<lambda>p. []) ''r'' (new_record_writer split_header)"
  have cut: "cut_segments split_header split_events ([], []) =
      [([sample_message 1, sample_message 2], [''/a'']), ([sample_message 3], [''/a''])]"
    by (simp add: split_events_def segment_full_def split_header_def GetHeaderWithSegmentParams_def content_size_def sample_message_def)
  have paths: "segment_path split_header ''r'' 0 = ''r.00000''" "segment_path split_header ''r'' (Suc 0) = ''r.00001''"
    by (simp_all add: segment_path_def split_header_def GetHeaderWithSegmentParams_def index_suffix_def char_of_def bit_0)
  show ?thesis
    using recording_refines_segments [of simple_codec "\<lambda>p. True" "\<lambda>p. []" "''r''" split_header "fst ?o" "snd ?o" split_events,
      OF simple_codec_good] unfolding cut by (simp add: paths upt_rec)
qed

section \<open>A split that fails\<close>

text \<open>
  When the next segment cannot be opened, \<open>WriteMessage\<close> says so once; the file writer it leaves was
  never opened, and the next message dereferences its null chunk.
\<close>

theorem message_after_failed_split:
  assumes "rw_inv k h name w segs (cur, names)" "segment_full h (cur @ [m])"
    and "\<not> openable (segment_path h name (Suc (length segs)))"
  shows "\<exists>w'. rw_WriteMessage k openable disk m w = Some (False, w') \<and> rw_WriteMessage k openable disk m' w' = None"
proof -
  let ?p = "segment_path h name (length segs)" let ?w1 = "OnNewMessage (sm_channel_name m) w"
  obtain f where f: "rw_writer w = Open_writer ?p f" "holds k h f (cur, names)"
    using assms(1) by (auto simp: rw_inv_def)
  obtain f1 where f1: "fw_WriteMessage m f = (True, f1)" "holds k h f1 (cur @ [m], names)"
    by (rule holds_message [OF f(2)])
  define w3 where "w3 = count_segment m (?w1\<lparr>rw_writer := Open_writer ?p f1\<rparr>)"
  have need: "need_split w3 m"
    using need_split_iff [of "?w1\<lparr>rw_writer := Open_writer ?p f1\<rparr>" h cur m] assms(1,2)
    by (simp add: w3_def OnNewMessage_fields rw_inv_def)
  define v where "v = w3\<lparr>closed_files := closed_files w3 @ close_file_writer k (rw_writer w3)\<rparr>"
  have fields: "file_index v = length segs mod 100000 + 1" "rw_file v = name"
    using assms(1) by (simp_all add: v_def w3_def count_segment_eq OnNewMessage_fields rw_inv_def)
  have run: "rw_WriteMessage k openable disk m w = Some (SplitOutfile k openable disk v)"
    using f(1) f1(1) holds_writing [OF f(2)] need
    by (simp add: rw_WriteMessage_def Let_def OnNewMessage_fields w3_def v_def)
  define i where "i = Suc (length segs) mod 100000"
  have "(if file_index v > 99999 then 0 else file_index v) = i" unfolding i_def by (rule next_index [OF fields(1)])
  moreover have "segment_path h name (Suc (length segs)) = name @ index_suffix i"
    using assms(2) by (auto simp: segment_path_def segment_full_def i_def)
  ultimately have no: "\<not> openable (rw_file v @ index_suffix (if file_index v > 99999 then 0 else file_index v))"
    using assms(3) fields(2) by simp
  have "\<exists>w'. SplitOutfile k openable disk v = (False, w') \<and> rw_writer w' = Unopened_writer"
    using no by (cases "file_index v > 99999") (simp_all add: SplitOutfile_def open_path_def Let_def)
  then obtain w' where w': "SplitOutfile k openable disk v = (False, w')" "rw_writer w' = Unopened_writer" by blast
  then have "rw_WriteMessage k openable disk m' w' = None"
    by (simp add: rw_WriteMessage_def Let_def OnNewMessage_fields)
  then show ?thesis by (intro exI [of _ w']) (simp add: run w'(1))
qed

end
