(* ===== verification/RecordViewer.thy ===== *)
theory RecordViewer
  imports RecordRoundtrip "HOL-Library.Sublist"
begin

text \<open>
  The record viewer of \<open>cyber/record/record_viewer.{h,cc}\<close>: an iteration over the messages of several
  record files between two times, merged by time. It reads windows of a second into a buffer ordered
  by time. Loops that read are \<open>partial_function\<close>s; \<open>None\<close> means that they never end.
\<close>

section \<open>The viewer\<close>

text \<open>\<open>readers_\<close> with \<open>readers_finished_\<close>; \<open>msg_buffer_\<close> is a list ordered by its keys.\<close>

record viewer =
  v_begin_time :: u64
  v_end_time :: u64
  v_channels :: "string list"
  v_channel_list :: "string set"
  v_readers :: "(record_reader \<times> bool) list"
  v_curr_begin_time :: u64
  v_buffer :: "(u64 \<times> single_message) list"

definition kStepTimeNanoSec :: u64 where "kStepTimeNanoSec = 1000000000"
definition kBufferMinSize :: nat where "kBufferMinSize = 128"

definition v_IsValid :: "viewer \<Rightarrow> bool" where
  "v_IsValid v \<longleftrightarrow> \<not> v_begin_time v > v_end_time v"

text \<open>The order of the readers; which of two equal readers comes first is not specified.\<close>

definition reader_less :: "record_reader \<Rightarrow> record_reader \<Rightarrow> bool" where
  "reader_less r1 r2 =
     (if h_begin_time (rr_header r1) = h_begin_time (rr_header r2)
      then h_end_time (rr_header r1) < h_end_time (rr_header r2)
      else h_begin_time (rr_header r1) < h_begin_time (rr_header r2))"

fun insert_reader :: "record_reader \<Rightarrow> record_reader list \<Rightarrow> record_reader list" where
  "insert_reader r [] = [r]"
| "insert_reader r (r' # rs) = (if reader_less r r' then r # r' # rs else r' # insert_reader r rs)"

definition sort_readers :: "record_reader list \<Rightarrow> record_reader list" where
  "sort_readers rs = fold insert_reader rs []"

definition v_Init :: "record_reader list \<Rightarrow> viewer \<Rightarrow> viewer" where
  "v_Init rs v =
     v\<lparr>v_channel_list := v_channel_list v \<union> (\<Union>r\<in>set rs. rr_GetChannelList r \<inter> set (v_channels v)),
       v_readers := map (\<lambda>r. (r, False)) (sort_readers rs)\<rparr>"

definition v_Reset :: "viewer \<Rightarrow> viewer" where
  "v_Reset v =
     v\<lparr>v_readers := map (\<lambda>(r, fin). (rr_Reset r, False)) (v_readers v), v_curr_begin_time := v_begin_time v, v_buffer := []\<rparr>"

fun time_bounds :: "record_reader list \<Rightarrow> u64 \<times> u64 \<Rightarrow> u64 \<times> u64" where
  "time_bounds [] (b, e) = (b, e)"
| "time_bounds (r # rs) (b, e) =
     (if \<not> rr_valid r then time_bounds rs (b, e)
      else
        let b1 = (if b > h_begin_time (rr_header r) then h_begin_time (rr_header r) else b);
            e1 = (if e < h_end_time (rr_header r) then h_end_time (rr_header r) else e)
        in time_bounds rs (b1, e1))"

definition UpdateTime :: "viewer \<Rightarrow> viewer" where
  "UpdateTime v =
     (let (min_begin, max_end) = time_bounds (map fst (v_readers v)) (- 1, 0);
          v1 = (if v_begin_time v < min_begin then v\<lparr>v_begin_time := min_begin\<rparr> else v);
          v2 = (if v_end_time v1 > max_end then v1\<lparr>v_end_time := max_end\<rparr> else v1)
      in v2\<lparr>v_curr_begin_time := v_begin_time v2\<rparr>)"

definition new_viewer :: "record_reader list \<Rightarrow> u64 \<Rightarrow> u64 \<Rightarrow> string list \<Rightarrow> viewer" where
  "new_viewer rs b e channels =
     UpdateTime (v_Init rs
       \<lparr>v_begin_time = b, v_end_time = e, v_channels = channels, v_channel_list = {}, v_readers = [],
        v_curr_begin_time = 0, v_buffer = []\<rparr>)"

text \<open>\<open>emplace\<close> of the multimap: after the entries with the same key.\<close>

fun emplace :: "u64 \<times> single_message \<Rightarrow> (u64 \<times> single_message) list \<Rightarrow> (u64 \<times> single_message) list" where
  "emplace x [] = [x]"
| "emplace x (y # ys) = (if fst x < fst y then x # y # ys else y # emplace x ys)"

partial_function (option) read_window ::
  "codec \<Rightarrow> u64 \<Rightarrow> u64 \<Rightarrow> record_reader \<Rightarrow> (u64 \<times> single_message) list \<Rightarrow> (record_reader \<times> (u64 \<times> single_message) list) option"
where
  "read_window k b e r buf =
     (case ReadMessage k b e r of
        None \<Rightarrow> None
      | Some (msg, r1) \<Rightarrow>
          (case msg of
             None \<Rightarrow> Some (r1, buf)
           | Some m \<Rightarrow> read_window k b e r1 (emplace (sm_time m, m) buf)))"

definition mark_finished :: "u64 \<Rightarrow> record_reader \<times> bool \<Rightarrow> record_reader \<times> bool" where
  "mark_finished b = (\<lambda>(r, fin). if \<not> fin \<and> h_end_time (rr_header r) < b then (rr_Reset r, True) else (r, fin))"

fun read_readers ::
  "codec \<Rightarrow> u64 \<Rightarrow> u64 \<Rightarrow> (record_reader \<times> bool) list \<Rightarrow> (u64 \<times> single_message) list \<Rightarrow>
    ((record_reader \<times> bool) list \<times> (u64 \<times> single_message) list) option"
where
  "read_readers k b e [] buf = Some ([], buf)"
| "read_readers k b e ((r, fin) # rs) buf =
     (if fin then map_option (\<lambda>(rs', buf'). ((r, fin) # rs', buf')) (read_readers k b e rs buf)
      else
        case read_window k b e r buf of
          None \<Rightarrow> None
        | Some (r1, buf1) \<Rightarrow> map_option (\<lambda>(rs', buf'). ((r1, fin) # rs', buf')) (read_readers k b e rs buf1))"

partial_function (option) FillBuffer :: "codec \<Rightarrow> viewer \<Rightarrow> (bool \<times> viewer) option" where
  "FillBuffer k v =
     (if v_curr_begin_time v \<le> v_end_time v \<and> length (v_buffer v) < kBufferMinSize then
        let b = v_curr_begin_time v;
            e0 = b + kStepTimeNanoSec;
            e = (if e0 > v_end_time v then v_end_time v else e0)
        in case read_readers k b e (map (mark_finished b) (v_readers v)) (v_buffer v) of
             None \<Rightarrow> None
           | Some (rs, buf) \<Rightarrow> FillBuffer k (v\<lparr>v_readers := rs, v_buffer := buf, v_curr_begin_time := e + 1\<rparr>)
      else Some (v_buffer v \<noteq> [], v))"

text \<open>\<open>Update\<close>: the message it finds is the result.\<close>

definition wanted :: "viewer \<Rightarrow> single_message \<Rightarrow> bool" where
  "wanted v m \<longleftrightarrow> v_channels v = [] \<or> sm_channel_name m \<in> set (v_channels v)"

definition fill_if_empty :: "codec \<Rightarrow> viewer \<Rightarrow> (bool \<times> viewer) option" where
  "fill_if_empty k v = (if v_buffer v = [] then FillBuffer k v else Some (True, v))"

partial_function (option) Update :: "codec \<Rightarrow> viewer \<Rightarrow> (single_message option \<times> viewer) option" where
  "Update k v =
     (case fill_if_empty k v of
        None \<Rightarrow> None
      | Some (ok, v1) \<Rightarrow>
          if \<not> ok then Some (None, v1)
          else
            case v_buffer v1 of
              [] \<Rightarrow> Some (None, v1)
            | x # xs \<Rightarrow>
                let v2 = v1\<lparr>v_buffer := xs\<rparr> in
                if wanted v1 (snd x) then Some (Some (snd x), v2) else Update k v2)"

section \<open>The iterator\<close>

record iterator =
  it_end :: bool
  it_index :: nat
  it_message :: "single_message option"

text \<open>\<open>Update\<close> leaves the message of the iterator as it is when it finds none.\<close>

definition new_iterator :: "codec \<Rightarrow> bool \<Rightarrow> viewer \<Rightarrow> (iterator \<times> viewer) option" where
  "new_iterator k ended v =
     (if ended then Some (\<lparr>it_end = True, it_index = 0, it_message = None\<rparr>, v)
      else
        let v1 = v_Reset v in
        if \<not> v_IsValid v1 then Some (\<lparr>it_end = True, it_index = 0, it_message = None\<rparr>, v1)
        else
          case Update k v1 of
            None \<Rightarrow> None
          | Some (None, v2) \<Rightarrow> Some (\<lparr>it_end = True, it_index = 0, it_message = None\<rparr>, v2)
          | Some (Some m, v2) \<Rightarrow> Some (\<lparr>it_end = False, it_index = 0, it_message = Some m\<rparr>, v2))"

definition it_next :: "codec \<Rightarrow> iterator \<times> viewer \<Rightarrow> (iterator \<times> viewer) option" where
  "it_next k = (\<lambda>(it, v).
     let it1 = it\<lparr>it_index := it_index it + 1\<rparr> in
     case Update k v of
       None \<Rightarrow> None
     | Some (None, v1) \<Rightarrow> Some (it1\<lparr>it_end := True\<rparr>, v1)
     | Some (Some m, v1) \<Rightarrow> Some (it1\<lparr>it_message := Some m\<rparr>, v1))"

definition it_equal :: "iterator \<Rightarrow> iterator \<Rightarrow> bool" where
  "it_equal it other = (if it_end other then it_end it else it_index it = it_index other)"

text \<open>
  A client that iterates from \<open>begin()\<close> to \<open>end()\<close>, through at most \<open>n\<close> messages.
\<close>

definition end_iterator :: iterator where
  "end_iterator = \<lparr>it_end = True, it_index = 0, it_message = None\<rparr>"

fun iterate :: "codec \<Rightarrow> nat \<Rightarrow> iterator \<times> viewer \<Rightarrow> single_message list option" where
  "iterate k 0 (it, v) = Some []"
| "iterate k (Suc n) (it, v) =
     (if it_equal it end_iterator then Some []
      else
        case it_message it of
          None \<Rightarrow> None
        | Some m \<Rightarrow>
            (case it_next k (it, v) of
               None \<Rightarrow> None
             | Some itv \<Rightarrow> map_option (\<lambda>ms. m # ms) (iterate k n itv)))"

definition view_messages :: "codec \<Rightarrow> nat \<Rightarrow> viewer \<Rightarrow> single_message list option" where
  "view_messages k n v = (case new_iterator k False v of None \<Rightarrow> None | Some itv \<Rightarrow> iterate k n itv)"

section \<open>A reader of a recording in order\<close>

text \<open>
  The messages a reader has before it in its file: it is before the sections of items, before the
  body of a chunk whose header it has read, or at the end. \<open>n\<close> bounds the sections that are left.
\<close>

definition ahead :: "codec \<Rightarrow> single_message list \<Rightarrow> nat \<Rightarrow> record_reader \<Rightarrow> bool" where
  "ahead k ms n r \<longleftrightarrow>
     (reach_end r \<and> ms = []) \<or>
     (\<exists>its rest. before k (sections its) rest r \<and> ms = messages its \<and> IChunk [] \<notin> set its \<and> n = 2 * length its) \<or>
     (\<exists>c its rest. before k (PbChunkBody c # sections its) rest r \<and> ms = c @ messages its \<and> IChunk [] \<notin> set its \<and>
        n = Suc (2 * length its))"

definition in_time_order :: "single_message list \<Rightarrow> bool" where
  "in_time_order ms \<longleftrightarrow> sorted (map sm_time ms) \<and> (\<forall>m\<in>set ms. 0 < sm_time m)"

abbreviation since :: "u64 \<Rightarrow> single_message list \<Rightarrow> single_message list" where
  "since b \<equiv> filter (\<lambda>m. b \<le> sm_time m)"

lemma in_time_order_append:
  "in_time_order (xs @ ys) \<longleftrightarrow>
    in_time_order xs \<and> in_time_order ys \<and> (\<forall>x\<in>set xs. \<forall>y\<in>set ys. sm_time x \<le> sm_time y)"
  by (auto simp: in_time_order_def sorted_append)

lemma in_time_order_suffix: "in_time_order ms \<Longrightarrow> suffix ms' ms \<Longrightarrow> in_time_order ms'"
  by (auto simp: suffix_def in_time_order_append)

lemma chunk_times:
  assumes "in_time_order ms" "ms \<noteq> []"
  shows "ch_begin_time (chunk_hdr (chunk_of ms)) = sm_time (hd ms)" "ch_end_time (chunk_hdr (chunk_of ms)) = sm_time (last ms)"
proof -
  have "ch_begin_time (chunk_hdr (chunk_of ms)) = sm_time (hd ms) \<and> ch_end_time (chunk_hdr (chunk_of ms)) = sm_time (last ms)"
    using assms
  proof (induction ms rule: rev_induct)
    case (snoc m ms)
    have ms: "in_time_order ms" and m: "0 < sm_time m" "\<forall>x\<in>set ms. sm_time x \<le> sm_time m"
      using snoc.prems(1) in_time_order_append [of ms "[m]"] by (auto simp: in_time_order_def)
    show ?case
    proof (cases "ms = []")
      case True
      then show ?thesis using m(1) by (auto simp: chunk_of_def chunk_add_def new_chunk_def Let_def)
    next
      case False
      have "hd ms \<in> set ms" "last ms \<in> set ms" using False by simp_all
      then have le: "sm_time (hd ms) \<le> sm_time m" "sm_time (last ms) \<le> sm_time m" "0 < sm_time (hd ms)"
        using m ms by (auto simp: in_time_order_def)
      then show ?thesis using snoc.IH [OF ms False] False by (auto simp: chunk_add_def Let_def)
    qed
  qed simp
  then show "ch_begin_time (chunk_hdr (chunk_of ms)) = sm_time (hd ms)"
    "ch_end_time (chunk_hdr (chunk_of ms)) = sm_time (last ms)" by blast+
qed

lemma in_time_order_bounds:
  assumes "in_time_order ms" "m \<in> set ms"
  shows "sm_time (hd ms) \<le> sm_time m" "sm_time m \<le> sm_time (last ms)"
proof -
  have "ms \<noteq> []" using assms(2) by auto
  then have "sorted (map sm_time (hd ms # tl ms))" "sorted (map sm_time (butlast ms @ [last ms]))"
    using assms(1) by (simp_all add: in_time_order_def)
  then have "\<forall>x\<in>set (tl ms). sm_time (hd ms) \<le> sm_time x" "\<forall>x\<in>set (butlast ms). sm_time x \<le> sm_time (last ms)"
    by (simp_all add: sorted_append)
  moreover have "m = hd ms \<or> m \<in> set (tl ms)" "m = last ms \<or> m \<in> set (butlast ms)"
    using assms(2) by (metis list.collapse list.distinct(1) list.set_cases list.sel(1,3) set_ConsD \<open>ms \<noteq> []\<close>)
      (metis assms(2) \<open>ms \<noteq> []\<close> append_butlast_last_id in_set_conv_decomp_last insert_iff list.simps(15) rotate1.simps(2) set_rotate1)
  ultimately show "sm_time (hd ms) \<le> sm_time m" "sm_time m \<le> sm_time (last ms)" by auto
qed

lemma messages_Cons: "messages (i # its) = item_messages i @ messages its"
  by (simp add: messages_def)

text \<open>What the loop of \<open>ReadNextChunk\<close> leaves.\<close>

definition loop_result :: "codec \<Rightarrow> u64 \<Rightarrow> u64 \<Rightarrow> single_message list \<Rightarrow> nat \<Rightarrow> record_reader \<Rightarrow> bool \<times> record_reader \<Rightarrow> bool" where
  "loop_result k b e ms n r = (\<lambda>(ok, r').
     same_reader r r' \<and> message_index r' = message_index r \<and>
     (if ok then \<exists>ms' n'. n' < n \<and> ahead k ms' n' r' \<and> suffix (rr_chunk r' @ ms') ms \<and> since b (rr_chunk r' @ ms') = since b ms
      else rr_chunk r' = rr_chunk r \<and>
        (\<exists>ms' n'. ahead k ms' n' r' \<and> suffix ms' ms \<and> since b ms' = since b ms \<and> (\<forall>m\<in>set ms'. e < sm_time m))))"

lemma loop_result_skip:
  assumes "loop_result k b e ms n (r\<lparr>rr_file := fr\<rparr>) res" "n \<le> n'" "ms' = xs @ ms" "\<forall>m\<in>set xs. sm_time m < b"
  shows "loop_result k b e ms' n' r res"
proof -
  have f: "since b xs = []" using assms(4) by (auto simp: filter_empty_conv not_le)
  obtain ok r' where res: "res = (ok, r')" by fastforce
  show ?thesis
  proof (cases ok)
    case True
    then obtain zs m where "m < n" "ahead k zs m r'" "suffix (rr_chunk r' @ zs) ms" "since b (rr_chunk r' @ zs) = since b ms"
      using assms(1) by (auto simp: loop_result_def res)
    then have "m < n'" "ahead k zs m r'" "suffix (rr_chunk r' @ zs) ms'" "since b (rr_chunk r' @ zs) = since b ms'"
      using assms(2,3) f by (auto simp: suffix_appendI)
    then show ?thesis using True assms(1) unfolding res loop_result_def same_reader_def by auto
  next
    case False
    then obtain zs m where "ahead k zs m r'" "suffix zs ms" "since b zs = since b ms" "\<forall>m\<in>set zs. e < sm_time m"
      using assms(1) by (auto simp: loop_result_def res)
    then have "ahead k zs m r'" "suffix zs ms'" "since b zs = since b ms'" "\<forall>m\<in>set zs. e < sm_time m"
      using assms(3) f by (auto simp: suffix_appendI)
    then show ?thesis using False assms(1) unfolding res loop_result_def same_reader_def by auto
  qed
qed

lemma loop_items:
  assumes "good_codec k" "before k (sections its) rest r" "IChunk [] \<notin> set its" "in_time_order (messages its)"
  shows "\<exists>res. chunk_loop k b e False r = Some res \<and> loop_result k b e (messages its) (2 * length its) r res"
  using assms(2-4)
proof (induction its arbitrary: r)
  case Nil
  then have "before k [] rest r" by simp
  then obtain fr where "chunk_loop k b e False r = Some (False, r\<lparr>rr_file := fr, reach_end := True\<rparr>)"
    by (rule loop_index [OF assms(1)])
  then show ?case by (auto simp: loop_result_def same_reader_def ahead_def)
next
  case (Cons i its)
  have ord: "in_time_order (messages its)" using Cons.prems(3) by (simp add: messages_Cons in_time_order_append)
  have ne: "IChunk [] \<notin> set its" using Cons.prems(2) by simp
  show ?case
  proof (cases i)
    case (IChannel c)
    have "before k (PbChannel c # sections its) rest r" using Cons.prems(1) by (simp add: IChannel sections_Cons)
    then obtain fr where fr: "chunk_loop k b e False r = chunk_loop k b e False (r\<lparr>rr_file := fr\<rparr>)" "before k (sections its) rest (r\<lparr>rr_file := fr\<rparr>)"
      by (rule loop_channel [OF assms(1)])
    obtain res where "chunk_loop k b e False r = Some res" "loop_result k b e (messages its) (2 * length its) (r\<lparr>rr_file := fr\<rparr>) res"
      using Cons.IH [OF fr(2) ne ord] fr(1) by auto
    then show ?thesis using loop_result_skip [of k b e "messages its" _ fr r res _ _ "[]"] by (auto simp: IChannel messages_Cons)
  next
    case (IChunk c)
    let ?ch = "chunk_hdr (chunk_of c)"
    have c: "c \<noteq> []" "in_time_order c" using Cons.prems(2,3) by (auto simp: IChunk messages_Cons in_time_order_append)
    note t = chunk_times [OF c(2,1)]
    have "before k (PbChunkHeader ?ch # PbChunkBody c # sections its) rest r" using Cons.prems(1) by (simp add: IChunk sections_Cons)
    then obtain fr where fr: "chunk_loop k b e False r =
        (if ch_begin_time ?ch > e then Some (False, r\<lparr>rr_file := fr\<rparr>)
         else chunk_loop k b e (if ch_end_time ?ch < b then True else False) (r\<lparr>rr_file := fr\<rparr>))"
      "before k (PbChunkBody c # sections its) rest (r\<lparr>rr_file := fr\<rparr>)"
      by (rule loop_header [OF assms(1)])
    obtain fr2 fr3 where body: "chunk_loop k b e True (r\<lparr>rr_file := fr\<rparr>) = chunk_loop k b e False (r\<lparr>rr_file := fr2\<rparr>)"
      "before k (sections its) rest (r\<lparr>rr_file := fr2\<rparr>)"
      "chunk_loop k b e False (r\<lparr>rr_file := fr\<rparr>) = Some (True, r\<lparr>rr_file := fr3, rr_chunk := c\<rparr>)"
      "before k (sections its) rest (r\<lparr>rr_file := fr3\<rparr>)"
      by (rule loop_body [OF assms(1) fr(2)]) simp
    consider "ch_begin_time ?ch > e" | "\<not> ch_begin_time ?ch > e" "ch_end_time ?ch < b" | "\<not> ch_begin_time ?ch > e" "\<not> ch_end_time ?ch < b"
      by blast
    then show ?thesis
    proof cases
      case 1
      have "\<forall>m\<in>set (c @ messages its). e < sm_time m"
        using in_time_order_bounds(1) [OF Cons.prems(3)] 1 c(1) by (force simp: IChunk messages_Cons t(1))
      moreover have "ahead k (c @ messages its) (Suc (2 * length its)) (r\<lparr>rr_file := fr\<rparr>)"
        using fr(2) ne by (auto simp: ahead_def)
      ultimately show ?thesis using 1 fr(1) by (auto simp: loop_result_def same_reader_def IChunk messages_Cons)
    next
      case 2
      obtain res where "chunk_loop k b e False r = Some res" "loop_result k b e (messages its) (2 * length its) (r\<lparr>rr_file := fr2\<rparr>) res"
        using Cons.IH [OF body(2) ne ord] fr(1) body(1) 2 by auto
      moreover have "\<forall>m\<in>set c. sm_time m < b" using in_time_order_bounds(2) [OF c(2)] 2(2) by (force simp: t(2))
      ultimately show ?thesis
        using loop_result_skip [of k b e "messages its" _ fr2 r res _ _ c] by (auto simp: IChunk messages_Cons)
    next
      case 3
      have "ahead k (messages its) (2 * length its) (r\<lparr>rr_file := fr3, rr_chunk := c\<rparr>)"
        using body(4) ne by (auto simp: ahead_def before_def)
      then show ?thesis
        using 3 fr(1) body(3) by (auto simp: loop_result_def same_reader_def IChunk messages_Cons intro!: exI [of _ "messages its"] exI [of _ "2 * length its"])
    qed
  qed
qed

lemma loop_ahead:
  assumes "good_codec k" "ahead k ms n r" "in_time_order ms"
  shows "\<exists>res. chunk_loop k b e False r = Some res \<and> loop_result k b e ms n r res"
  using assms(2) unfolding ahead_def
proof (elim disjE exE conjE)
  assume "reach_end r" "ms = []"
  moreover from this(1) have "chunk_loop k b e False r = Some (False, r)" by (subst chunk_loop.simps) simp
  ultimately show ?thesis by (auto simp: loop_result_def same_reader_def ahead_def)
next
  fix its rest
  assume "before k (sections its) rest r" "ms = messages its" "IChunk [] \<notin> set its" "n = 2 * length its"
  then show ?thesis using loop_items [OF assms(1)] assms(3) by blast
next
  fix c its rest
  assume a: "before k (PbChunkBody c # sections its) rest r" "ms = c @ messages its" "IChunk [] \<notin> set its" "n = Suc (2 * length its)"
  obtain fr where fr: "chunk_loop k b e False r = Some (True, r\<lparr>rr_file := fr, rr_chunk := c\<rparr>)" "before k (sections its) rest (r\<lparr>rr_file := fr\<rparr>)"
    by (rule loop_body [OF assms(1) a(1)]) blast
  have "ahead k (messages its) (2 * length its) (r\<lparr>rr_file := fr, rr_chunk := c\<rparr>)"
    using fr(2) a(3) by (auto simp: ahead_def before_def)
  then show ?thesis
    using fr(1) a(2,4) by (auto simp: loop_result_def same_reader_def intro!: exI [of _ "messages its"] exI [of _ "2 * length its"])
qed

text \<open>Scanning a chunk for the first message of a window.\<close>

lemma scan_chunk_in_order:
  assumes "in_time_order (drop i c)" "scan_chunk b e (drop i c) i = (res, j)"
  shows "suffix (drop j c) (drop i c) \<and>
    (case res of
       Exhausted \<Rightarrow> since b (drop i c) = [] \<and> drop j c = []
     | Beyond \<Rightarrow> since b (drop j c) = since b (drop i c) \<and> drop j c \<noteq> [] \<and> (\<forall>m\<in>set (drop j c). e < sm_time m)
     | Found m \<Rightarrow> since b (drop i c) = m # since b (drop j c) \<and> sm_time m \<le> e)"
  using assms
proof (induction "drop i c" arbitrary: i)
  case Nil
  have "drop i c = []" using Nil(1) by simp
  then show ?case using Nil.prems(2) by auto
next
  case (Cons m ms)
  have d: "drop i c = m # ms" "drop (Suc i) c = ms" using Cons.hyps(2) by (metis, metis drop_Suc list.sel(3) tl_drop)
  have ord: "in_time_order ms" using Cons.prems(1) in_time_order_append [of "[m]" ms] by (simp add: d(1))
  consider "sm_time m > e" | "\<not> sm_time m > e" "sm_time m < b" | "\<not> sm_time m > e" "\<not> sm_time m < b" by blast
  then show ?case
  proof cases
    case 1
    have "\<forall>x\<in>set (m # ms). e < sm_time x"
      using in_time_order_bounds(1) [OF Cons.prems(1)] 1 unfolding d(1) by fastforce
    moreover have "res = Beyond" "j = i" using Cons.prems(2) 1 by (simp_all add: d(1))
    ultimately show ?thesis using d(1) by simp
  next
    case 2
    have "scan_chunk b e (drop (Suc i) c) (Suc i) = (res, j)" using Cons.prems(2) 2 by (simp add: d)
    then show ?thesis
      using Cons.hyps(1) [of "Suc i"] d ord 2 by (auto simp: not_le suffix_Cons split: scan_result.splits)
  next
    case 3
    then have "res = Found m" "j = Suc i" using Cons.prems(2) by (simp_all add: d(1))
    then show ?thesis using 3 d by (simp add: suffix_Cons not_less)
  qed
qed

text \<open>A reader that still delivers the messages \<open>ms\<close>.\<close>

definition in_header :: "header \<Rightarrow> single_message list \<Rightarrow> bool" where
  "in_header h ms \<longleftrightarrow> (\<forall>m\<in>set ms. h_begin_time h \<le> sm_time m \<and> sm_time m \<le> h_end_time h)"

definition delivers_n :: "codec \<Rightarrow> single_message list \<Rightarrow> nat \<Rightarrow> record_reader \<Rightarrow> bool" where
  "delivers_n k ms n r \<longleftrightarrow>
     rr_valid r \<and> in_time_order ms \<and> in_header (rr_header r) ms \<and>
     (\<exists>rest. ahead k rest n r \<and> ms = drop (message_index r) (rr_chunk r) @ rest)"

definition delivers :: "codec \<Rightarrow> single_message list \<Rightarrow> record_reader \<Rightarrow> bool" where
  "delivers k ms r \<longleftrightarrow> (\<exists>n. delivers_n k ms n r)"

lemma in_header_suffix: "in_header h ms \<Longrightarrow> suffix ms' ms \<Longrightarrow> in_header h ms'"
  by (auto simp: in_header_def suffix_def)

text \<open>The specification of \<open>ReadMessage\<close> for a reader of messages in order.\<close>

definition read_result :: "codec \<Rightarrow> u64 \<Rightarrow> u64 \<Rightarrow> single_message list \<Rightarrow> header \<Rightarrow> single_message option \<times> record_reader \<Rightarrow> bool" where
  "read_result k b e ms h = (\<lambda>(msg, r').
     rr_header r' = h \<and>
     (\<exists>ms'. delivers k ms' r' \<and>
        (case msg of
           Some m \<Rightarrow> since b ms = m # since b ms' \<and> sm_time m \<le> e
         | None \<Rightarrow> since b ms' = since b ms \<and> (\<forall>m\<in>set (since b ms). e < sm_time m))))"

lemma read_result_cong: "since b ms = since b ms' \<Longrightarrow> read_result k b e ms h = read_result k b e ms' h"
  by (simp only: read_result_def)

lemma ahead_fields [simp]: "ahead k ms n (r\<lparr>message_index := i\<rparr>) = ahead k ms n r"
  by (simp add: ahead_def)

lemma ReadMessage_in_order:
  assumes "good_codec k" "delivers_n k ms n r"
  shows "\<exists>res. ReadMessage k b e r = Some res \<and> read_result k b e ms (rr_header r) res"
  using assms(2)
proof (induction n arbitrary: ms r rule: less_induct)
  case (less n)
  obtain rest where d: "rr_valid r" "in_time_order ms" "in_header (rr_header r) ms" "ahead k rest n r"
    "ms = drop (message_index r) (rr_chunk r) @ rest"
    using less.prems by (auto simp: delivers_n_def)
  let ?cur = "drop (message_index r) (rr_chunk r)"
  have ord: "in_time_order ?cur" "in_time_order rest" "\<forall>x\<in>set ?cur. \<forall>y\<in>set rest. sm_time x \<le> sm_time y"
    using d(2) by (simp_all add: d(5) in_time_order_append)
  show ?case
  proof (cases "b > h_end_time (rr_header r) \<or> e < h_begin_time (rr_header r)")
    case True
    have "\<forall>m\<in>set (since b ms). e < sm_time m" using True d(3) by (force simp: in_header_def)
    then have "read_result k b e ms (rr_header r) (None, r)"
      using less.prems by (auto simp: read_result_def delivers_def)
    moreover have "ReadMessage k b e r = Some (None, r)" using True d(1) by (subst ReadMessage.simps) auto
    ultimately show ?thesis by blast
  next
    case False
    obtain res j where s: "scan_chunk b e ?cur (message_index r) = (res, j)" by fastforce
    note S = scan_chunk_in_order [OF ord(1) s]
    let ?r = "r\<lparr>message_index := j\<rparr>"
    have dl: "delivers k (drop j (rr_chunk r) @ rest) ?r"
    proof -
      have "suffix (drop j (rr_chunk r) @ rest) ms" using S by (simp add: d(5))
      then have "delivers_n k (drop j (rr_chunk r) @ rest) n ?r"
        using d(1,4) in_time_order_suffix [OF d(2)] in_header_suffix [OF d(3)] by (simp add: delivers_n_def)
      then show ?thesis by (auto simp: delivers_def)
    qed
    show ?thesis
    proof (cases res)
      case (Found m)
      have "ReadMessage k b e r = Some (Some m, ?r)" using False d(1) s Found by (subst ReadMessage.simps) auto
      moreover have "read_result k b e ms (rr_header r) (Some m, ?r)"
        using S dl Found by (auto simp: read_result_def d(5))
      ultimately show ?thesis by blast
    next
      case Beyond
      have "ReadMessage k b e r = Some (None, ?r)" using False d(1) s Beyond by (subst ReadMessage.simps) auto
      moreover have "read_result k b e ms (rr_header r) (None, ?r)"
      proof -
        have "\<forall>m\<in>set (since b ms). e < sm_time m"
        proof
          fix m assume "m \<in> set (since b ms)"
          then have m: "m \<in> set (since b (drop j (rr_chunk r))) \<or> m \<in> set rest" using S Beyond by (auto simp: d(5))
          obtain x where x: "x \<in> set (drop j (rr_chunk r))" "e < sm_time x"
            using S Beyond list.set_sel(1) by fastforce
          have "set (drop j (rr_chunk r)) \<subseteq> set ?cur" using S by (auto simp: suffix_def)
          then have "\<forall>y\<in>set rest. sm_time x \<le> sm_time y" using x(1) ord(3) by blast
          then show "e < sm_time m" using m S Beyond x(2) by (auto dest: order_less_le_trans)
        qed
        then show ?thesis using S dl Beyond by (auto simp: read_result_def d(5))
      qed
      ultimately show ?thesis by blast
    next
      case Exhausted
      then have ex: "since b ?cur = []" "drop j (rr_chunk r) = []" using S by simp_all
      obtain ok r' where L: "chunk_loop k b e False ?r = Some (ok, r')" "loop_result k b e rest n ?r (ok, r')"
        using loop_ahead [OF assms(1), of rest n ?r b e] d(4) ord(2) by auto
      show ?thesis
      proof (cases ok)
        case True
        then obtain ms' n' where l: "n' < n" "ahead k ms' n' r'" "suffix (rr_chunk r' @ ms') rest"
          "since b (rr_chunk r' @ ms') = since b rest" "rr_valid r' = rr_valid r" "rr_header r' = rr_header r"
          using L(2) by (auto simp: loop_result_def same_reader_def)
        have "suffix (rr_chunk r' @ ms') ms" using l(3) by (simp add: d(5) suffix_appendI)
        then have "delivers_n k (rr_chunk r' @ ms') n' (r'\<lparr>message_index := 0\<rparr>)"
          using l d(1) in_time_order_suffix [OF d(2)] in_header_suffix [OF d(3)] by (simp add: delivers_n_def)
        from less.IH [OF l(1) this] obtain res where "ReadMessage k b e (r'\<lparr>message_index := 0\<rparr>) = Some res"
          "read_result k b e (rr_chunk r' @ ms') (rr_header r') res" by auto
        moreover have "ReadMessage k b e r = ReadMessage k b e (r'\<lparr>message_index := 0\<rparr>)"
          using False d(1) s Exhausted L(1) True by (subst ReadMessage.simps) (auto simp: ReadNextChunk_def)
        moreover have "since b (rr_chunk r' @ ms') = since b ms" using l(4) ex(1) by (simp add: d(5))
        ultimately show ?thesis using l(6) read_result_cong [of b ms "rr_chunk r' @ ms'" k e "rr_header r"] by auto
      next
        case no: False
        then obtain ms' n' where l: "ahead k ms' n' r'" "suffix ms' rest" "since b ms' = since b rest"
          "\<forall>m\<in>set ms'. e < sm_time m" "rr_chunk r' = rr_chunk r" "message_index r' = j" "rr_valid r' = rr_valid r" "rr_header r' = rr_header r"
          using L(2) by (auto simp: loop_result_def same_reader_def)
        have sf: "suffix ms' ms" using l(2) by (simp add: d(5) suffix_appendI)
        have "delivers_n k ms' n' r'"
          using l ex(2) d(1) in_time_order_suffix [OF d(2) sf] in_header_suffix [OF d(3) sf] by (simp add: delivers_n_def)
        moreover have w: "since b ms' = since b ms" using l(3) ex(1) by (simp add: d(5))
        moreover have "\<forall>m\<in>set (since b ms). e < sm_time m" using l(4) unfolding w [symmetric] by simp
        ultimately have "read_result k b e ms (rr_header r) (None, r')" using l(8) by (auto simp: read_result_def delivers_def)
        moreover have "ReadMessage k b e r = Some (None, r')"
          using False d(1) s Exhausted L(1) no by (subst ReadMessage.simps) (auto simp: ReadNextChunk_def)
        ultimately show ?thesis by blast
      qed
    qed
  qed
qed

section \<open>A window of all readers\<close>

text \<open>What a reader has left from a time on; a finished one has nothing.\<close>

definition left :: "codec \<Rightarrow> u64 \<Rightarrow> record_reader \<times> bool \<Rightarrow> single_message list \<Rightarrow> bool" where
  "left k b = (\<lambda>(r, fin) L. if fin then L = [] else \<exists>ms. delivers k ms r \<and> since b ms = L)"

abbreviation upto_time :: "u64 \<Rightarrow> single_message list \<Rightarrow> single_message list" where
  "upto_time e \<equiv> filter (\<lambda>m. sm_time m \<le> e)"

definition put_all :: "single_message list \<Rightarrow> (u64 \<times> single_message) list \<Rightarrow> (u64 \<times> single_message) list" where
  "put_all ms buf = fold (\<lambda>m. emplace (sm_time m, m)) ms buf"

definition buffer_ok :: "(u64 \<times> single_message) list \<Rightarrow> bool" where
  "buffer_ok buf \<longleftrightarrow> sorted (map fst buf) \<and> (\<forall>x\<in>set buf. fst x = sm_time (snd x))"

lemma emplace_set: "set (emplace x ys) = insert x (set ys)"
  by (induction ys) auto

lemma emplace_mset: "mset (emplace x ys) = add_mset x (mset ys)"
  by (induction ys) auto

lemma emplace_sorted: "sorted (map fst ys) \<Longrightarrow> sorted (map fst (emplace x ys))"
  by (induction ys) (auto simp: emplace_set intro: order_less_imp_le order_trans)

lemma emplace_ok: "buffer_ok buf \<Longrightarrow> buffer_ok (emplace (sm_time m, m) buf)"
  by (auto simp: buffer_ok_def emplace_set emplace_sorted)

lemma put_all_buffer:
  "mset (map snd (put_all ms buf)) = mset (map snd buf) + mset ms" "buffer_ok buf \<Longrightarrow> buffer_ok (put_all ms buf)"
  unfolding put_all_def by (induction ms arbitrary: buf) (simp_all add: emplace_mset emplace_ok)

lemma after_iff: "e \<noteq> - 1 \<Longrightarrow> e + 1 \<le> t \<longleftrightarrow> e < (t :: u64)"
  by (simp add: inc_less_eq_iff)

lemma since_since: "b \<le> b' \<Longrightarrow> since b' (since b ms) = since b' ms"
  by (auto intro: filter_cong)

lemma read_window_in_order:
  assumes "good_codec k" "delivers k ms r" "b \<le> e" "e \<noteq> - 1"
  shows "\<exists>r' ms'. read_window k b e r buf = Some (r', put_all (upto_time e (since b ms)) buf) \<and> delivers k ms' r' \<and>
    since (e + 1) ms' = since (e + 1) ms"
  using assms(2)
proof (induction "since b ms" arbitrary: ms r buf)
  case Nil
  obtain n where "delivers_n k ms n r" using Nil.prems by (auto simp: delivers_def)
  then obtain msg r' where R: "ReadMessage k b e r = Some (msg, r')" "read_result k b e ms (rr_header r) (msg, r')"
    using ReadMessage_in_order [OF assms(1)] by (metis surj_pair)
  obtain ms' where ms': "delivers k ms' r'" "msg = None" "since b ms' = []"
    using R(2) Nil.hyps by (auto simp: read_result_def split: option.splits)
  have be: "b \<le> e + 1" using assms(3) after_iff [OF assms(4), of "e + 1"] by simp
  have "since (e + 1) ms' = since (e + 1) ms"
    using since_since [OF be, of ms'] since_since [OF be, of ms] ms'(3) Nil.hyps by simp
  then show ?case using R(1) ms'(1,2) Nil.hyps by (subst read_window.simps) (auto simp: put_all_def)
next
  case (Cons m L)
  obtain n where "delivers_n k ms n r" using Cons.prems by (auto simp: delivers_def)
  then obtain msg r' where R: "ReadMessage k b e r = Some (msg, r')" "read_result k b e ms (rr_header r) (msg, r')"
    using ReadMessage_in_order [OF assms(1)] by (metis surj_pair)
  have be: "b \<le> e + 1" using assms(3) after_iff [OF assms(4), of "e + 1"] by simp
  note S = since_since [OF be]
  show ?case
  proof (cases msg)
    case None
    then obtain ms' where ms': "delivers k ms' r'" "since b ms' = since b ms" "\<forall>m\<in>set (since b ms). e < sm_time m"
      using R(2) by (auto simp: read_result_def)
    have "upto_time e (since b ms) = []" using ms'(3) by (metis filter_False not_le)
    moreover have "since (e + 1) ms' = since (e + 1) ms" using S [of ms'] S [of ms] ms'(2) by simp
    ultimately show ?thesis using R(1) None ms'(1) by (subst read_window.simps) (auto simp: put_all_def)
  next
    case (Some m')
    then obtain ms' where ms': "delivers k ms' r'" "since b ms = m' # since b ms'" "sm_time m' \<le> e"
      using R(2) by (auto simp: read_result_def)
    have m: "m' = m" "L = since b ms'" using ms'(2) Cons.hyps(2) by simp_all
    obtain r2 ms2 where IH: "read_window k b e r' (emplace (sm_time m, m) buf) = Some (r2, put_all (upto_time e (since b ms')) (emplace (sm_time m, m) buf))"
      "delivers k ms2 r2" "since (e + 1) ms2 = since (e + 1) ms'"
      using Cons.hyps(1) [OF m(2) ms'(1)] by blast
    have "\<not> e + 1 \<le> sm_time m" using ms'(3) m(1) after_iff [OF assms(4)] by (simp add: not_less)
    then have "since (e + 1) ms2 = since (e + 1) ms" using IH(3) S [of ms'] S [of ms] ms'(2) m(1) by simp
    then show ?thesis
      using R(1) Some IH(1,2) ms'(2,3) m(1) by (subst read_window.simps) (auto simp: put_all_def)
  qed
qed

text \<open>What all readers have left, up to the end.\<close>

definition total :: "u64 \<Rightarrow> single_message list list \<Rightarrow> single_message multiset" where
  "total e Ls = sum_list (map (\<lambda>L. mset (upto_time e L)) Ls)"

lemma total_split:
  assumes "e \<le> e'" "e \<noteq> - 1"
  shows "total e' Ls = total e Ls + total e' (map (since (e + 1)) Ls)"
proof -
  have "mset (upto_time e' L) = mset (upto_time e L) + mset (upto_time e' (since (e + 1) L))" for L
  proof (induction L)
    case (Cons m L)
    show ?case
    proof (cases "sm_time m \<le> e")
      case True
      then have "sm_time m \<le> e'" "\<not> e + 1 \<le> sm_time m" using assms after_iff [OF assms(2)] by (auto simp: not_less)
      then show ?thesis using Cons True by simp
    next
      case False
      then have "e + 1 \<le> sm_time m" using after_iff [OF assms(2)] by simp
      then show ?thesis using Cons False by simp
    qed
  qed simp
  then have "map (\<lambda>L. mset (upto_time e' L)) Ls = map (\<lambda>L. mset (upto_time e L) + mset (upto_time e' (since (e + 1) L))) Ls"
    by (intro map_cong refl)
  then show ?thesis unfolding total_def by (simp only: sum_list_addf map_map comp_def)
qed

lemma mark_finished_left: "left k b rf L \<Longrightarrow> left k b (mark_finished b rf) L"
  by (cases rf) (fastforce simp: left_def mark_finished_def delivers_def delivers_n_def in_header_def filter_empty_conv
      dest: order_le_less_trans)

lemma read_readers_left:
  assumes "good_codec k" "b \<le> e" "e \<noteq> - 1" "list_all2 (left k b) rs Ls"
  shows "\<exists>rs' ms. read_readers k b e rs buf = Some (rs', put_all ms buf) \<and>
    list_all2 (left k (e + 1)) rs' (map (since (e + 1)) Ls) \<and> mset ms = total e Ls"
  using assms(4)
proof (induction arbitrary: buf)
  case Nil
  then show ?case by (intro exI [of _ "[]"]) (simp add: total_def put_all_def)
next
  case (Cons rf rs L Ls)
  obtain r fin where rf: "rf = (r, fin)" by fastforce
  have be: "b \<le> e + 1" using assms(2) after_iff [OF assms(3), of "e + 1"] by simp
  show ?case
  proof (cases fin)
    case True
    obtain rs' ms where IH: "read_readers k b e rs buf = Some (rs', put_all ms buf)"
      "list_all2 (left k (e + 1)) rs' (map (since (e + 1)) Ls)" "mset ms = total e Ls"
      using Cons.IH by blast
    then show ?thesis using Cons.hyps(1) True by (intro exI [of _ "rf # rs'"] exI [of _ ms]) (simp add: rf left_def total_def)
  next
    case False
    then obtain ms where ms: "delivers k ms r" "since b ms = L" using Cons.hyps(1) by (auto simp: rf left_def)
    obtain r1 ms1 where w: "read_window k b e r buf = Some (r1, put_all (upto_time e L) buf)" "delivers k ms1 r1"
      "since (e + 1) ms1 = since (e + 1) L"
      using read_window_in_order [OF assms(1) ms(1) assms(2,3), of buf] ms(2) since_since [OF be, of ms] by auto
    obtain rs' xs where IH: "read_readers k b e rs (put_all (upto_time e L) buf) = Some (rs', put_all xs (put_all (upto_time e L) buf))"
      "list_all2 (left k (e + 1)) rs' (map (since (e + 1)) Ls)" "mset xs = total e Ls"
      using Cons.IH by blast
    show ?thesis using w IH False
      by (intro exI [of _ "(r1, False) # rs'"] exI [of _ "upto_time e L @ xs"]) (auto simp: rf left_def total_def put_all_def)
  qed
qed

section \<open>The viewer's invariant\<close>

text \<open>
  The buffer is ordered and holds messages before the current time; every reader still delivers what
  it has from that time on; and the windows up to the end do not overflow.
\<close>

definition viewer_ok :: "codec \<Rightarrow> viewer \<Rightarrow> single_message list list \<Rightarrow> bool" where
  "viewer_ok k v Ls \<longleftrightarrow>
     list_all2 (left k (v_curr_begin_time v)) (v_readers v) Ls \<and> buffer_ok (v_buffer v) \<and>
     (\<forall>x\<in>set (v_buffer v). fst x < v_curr_begin_time v) \<and>
     unat (v_end_time v) + unat kStepTimeNanoSec < 2 ^ 64 - 1"

definition to_come :: "viewer \<Rightarrow> single_message list list \<Rightarrow> single_message multiset" where
  "to_come v Ls = mset (map snd (v_buffer v)) + total (v_end_time v) Ls"

definition same_settings :: "viewer \<Rightarrow> viewer \<Rightarrow> bool" where
  "same_settings v v' \<longleftrightarrow> v_end_time v' = v_end_time v \<and> v_channels v' = v_channels v"

lemma left_since: "left k b rf L \<Longrightarrow> x \<in> set L \<Longrightarrow> b \<le> sm_time x"
  by (auto simp: left_def split: prod.splits if_splits)

lemma total_since:
  assumes "list_all2 (left k b) rs Ls" "x \<in># total e Ls"
  shows "b \<le> sm_time x \<and> sm_time x \<le> e"
  using assms
proof (induction rule: list_all2_induct)
  case (Cons rf rs L Ls)
  then show ?case using left_since [OF Cons.hyps(1), of x] by (auto simp: total_def)
qed (simp add: total_def)

lemma window_end:
  assumes "b \<le> E" "unat E + unat kStepTimeNanoSec < 2 ^ 64 - 1"
  defines "e \<equiv> (if b + kStepTimeNanoSec > E then E else b + kStepTimeNanoSec)"
  shows "b \<le> e" "e \<le> E" "e \<noteq> - 1" "unat b < unat (e + 1)"
proof -
  have u: "unat b + unat kStepTimeNanoSec < 2 ^ 64 - 1" using assms(1,2) by (simp add: word_le_nat_alt)
  then have s: "unat (b + kStepTimeNanoSec) = unat b + unat kStepTimeNanoSec" by (simp add: unat_plus_if')
  show be: "b \<le> e" using assms(1) s by (simp add: e_def word_le_nat_alt)
  show eE: "e \<le> E" by (auto simp: e_def)
  have "unat (- 1 :: u64) = 2 ^ 64 - 1" by (simp add: unsigned_minus_1_eq_mask mask_eq_exp_minus_1)
  then have "unat E \<noteq> unat (- 1 :: u64)" using assms(2) by linarith
  then have "E \<noteq> - 1" by metis
  then show ne: "e \<noteq> - 1" using eE by (metis word_order.extremum_unique)
  have "b < e + 1" using be after_iff [OF ne, of "e + 1"] by (auto intro: order_le_less_trans)
  then show "unat b < unat (e + 1)" by (simp add: word_less_nat_alt)
qed

lemma FillBuffer_ok:
  assumes "good_codec k" "viewer_ok k v Ls"
  shows "\<exists>v' Ls'. FillBuffer k v = Some (v_buffer v' \<noteq> [], v') \<and> viewer_ok k v' Ls' \<and> to_come v' Ls' = to_come v Ls \<and>
    same_settings v v' \<and> (v_buffer v' = [] \<longrightarrow> to_come v' Ls' = {#})"
  using assms(2)
proof (induction "2 ^ 64 - unat (v_curr_begin_time v)" arbitrary: v Ls rule: less_induct)
  case less
  let ?b = "v_curr_begin_time v" let ?E = "v_end_time v"
  note ok = less.prems [unfolded viewer_ok_def]
  show ?case
  proof (cases "?b \<le> ?E \<and> length (v_buffer v) < kBufferMinSize")
    case False
    then have F: "FillBuffer k v = Some (v_buffer v \<noteq> [], v)" by (subst FillBuffer.simps) auto
    have "to_come v Ls = {#}" if "v_buffer v = []"
    proof -
      have "\<not> ?b \<le> ?E" using False that by (simp add: kBufferMinSize_def)
      then have "x \<notin># total ?E Ls" for x using total_since ok by (meson order_trans)
      then show ?thesis using that by (simp add: to_come_def multiset_eqI count_eq_zero_iff)
    qed
    then show ?thesis using F less.prems by (auto simp: same_settings_def)
  next
    case True
    define e where "e = (if ?b + kStepTimeNanoSec > ?E then ?E else ?b + kStepTimeNanoSec)"
    have we: "?b \<le> e" "e \<le> ?E" "e \<noteq> - 1" "unat ?b < unat (e + 1)"
      using window_end [of ?b ?E] True ok unfolding e_def by blast+
    have "list_all2 (left k ?b) (map (mark_finished ?b) (v_readers v)) Ls"
      using ok by (auto simp: list_all2_map1 elim!: list_all2_mono intro: mark_finished_left)
    then obtain rs ms where R: "read_readers k ?b e (map (mark_finished ?b) (v_readers v)) (v_buffer v) = Some (rs, put_all ms (v_buffer v))"
      "list_all2 (left k (e + 1)) rs (map (since (e + 1)) Ls)" "mset ms = total e Ls"
      using read_readers_left [OF assms(1) we(1,3)] by blast
    define v1 where "v1 = v\<lparr>v_readers := rs, v_buffer := put_all ms (v_buffer v), v_curr_begin_time := e + 1\<rparr>"
    have set: "x \<in> set (put_all ms (v_buffer v)) \<Longrightarrow> fst x = sm_time (snd x) \<and> snd x \<in># mset (map snd (v_buffer v)) + total e Ls" for x
      using put_all_buffer(2) [of "v_buffer v" ms] put_all_buffer(1) [of ms "v_buffer v"] ok R(3)
      by (metis buffer_ok_def image_eqI list.set_map set_mset_mset)
    have lt: "fst x < e + 1" if "x \<in> set (put_all ms (v_buffer v))" for x
    proof -
      have "?b < e + 1" using we(4) by (simp add: word_less_nat_alt)
      then have "sm_time y < e + 1" if "y \<in># mset (map snd (v_buffer v))" for y
        using that ok by (fastforce simp: buffer_ok_def intro: order_less_trans)
      moreover have "sm_time y < e + 1" if "y \<in># total e Ls" for y
        using total_since [of k ?b "v_readers v" Ls y e] that ok after_iff [OF we(3), of "e + 1"] by (auto intro: order_le_less_trans)
      ultimately show ?thesis using set [OF that] by auto
    qed
    have v1: "viewer_ok k v1 (map (since (e + 1)) Ls)"
      using ok R(2) put_all_buffer(2) lt by (simp add: viewer_ok_def v1_def)
    have t: "to_come v1 (map (since (e + 1)) Ls) = to_come v Ls"
      using total_split [OF we(2,3), of Ls] put_all_buffer(1) [of ms "v_buffer v"] R(3) by (simp add: to_come_def v1_def)
    have m: "2 ^ 64 - unat (v_curr_begin_time v1) < 2 ^ 64 - unat ?b"
      using we(4) unsigned_less [of ?b, where ?'a = nat] by (simp add: v1_def)
    have "FillBuffer k v = FillBuffer k v1"
      using True R(1) by (subst FillBuffer.simps) (simp add: Let_def v1_def e_def)
    then show ?thesis using less.hyps [OF m v1] t by (auto simp: same_settings_def v1_def)
  qed
qed

abbreviation wanted_of :: "viewer \<Rightarrow> single_message multiset \<Rightarrow> single_message multiset" where
  "wanted_of v \<equiv> filter_mset (wanted v)"

lemma wanted_same: "same_settings v v' \<Longrightarrow> wanted v' = wanted v"
  by (simp add: same_settings_def wanted_def fun_eq_iff)

lemma same_settings_trans: "same_settings a b \<Longrightarrow> same_settings b c \<Longrightarrow> same_settings a c"
  by (simp add: same_settings_def)

definition earliest :: "single_message \<Rightarrow> single_message multiset \<Rightarrow> bool" where
  "earliest m M \<longleftrightarrow> (\<forall>x\<in>#M. sm_time m \<le> sm_time x)"

text \<open>Taking the first message of a buffer that is not empty.\<close>

lemma take_first:
  assumes "viewer_ok k v Ls" "v_buffer v = x # xs"
  shows "viewer_ok k (v\<lparr>v_buffer := xs\<rparr>) Ls" "to_come v Ls = add_mset (snd x) (to_come (v\<lparr>v_buffer := xs\<rparr>) Ls)"
    "earliest (snd x) (to_come (v\<lparr>v_buffer := xs\<rparr>) Ls)"
proof -
  note ok = assms(1) [unfolded viewer_ok_def assms(2)]
  show "viewer_ok k (v\<lparr>v_buffer := xs\<rparr>) Ls" using ok by (fastforce simp: viewer_ok_def buffer_ok_def)
  show "to_come v Ls = add_mset (snd x) (to_come (v\<lparr>v_buffer := xs\<rparr>) Ls)" by (simp add: to_come_def assms(2))
  have x: "fst x = sm_time (snd x)" "fst x < v_curr_begin_time v" "\<forall>y\<in>set xs. fst x \<le> fst y \<and> fst y = sm_time (snd y)"
    using ok by (fastforce simp: buffer_ok_def)+
  show "earliest (snd x) (to_come (v\<lparr>v_buffer := xs\<rparr>) Ls)" unfolding earliest_def
  proof
    fix y assume "y \<in># to_come (v\<lparr>v_buffer := xs\<rparr>) Ls"
    then consider "y \<in> snd ` set xs" | "y \<in># total (v_end_time v) Ls" by (auto simp: to_come_def)
    then show "sm_time (snd x) \<le> sm_time y"
    proof cases
      case 1
      then show ?thesis using x by auto
    next
      case 2
      then have "v_curr_begin_time v \<le> sm_time y" using total_since ok by blast
      then show ?thesis using x(1,2) by simp
    qed
  qed
qed

definition update_result :: "codec \<Rightarrow> viewer \<Rightarrow> single_message list list \<Rightarrow> single_message option \<times> viewer \<Rightarrow> bool" where
  "update_result k v Ls = (\<lambda>(msg, v').
     same_settings v v' \<and>
     (\<exists>Ls'. viewer_ok k v' Ls' \<and>
        (case msg of
           None \<Rightarrow> wanted_of v (to_come v Ls) = {#}
         | Some m \<Rightarrow> wanted_of v (to_come v Ls) = add_mset m (wanted_of v (to_come v' Ls')) \<and> earliest m (to_come v' Ls'))))"

lemma viewer_Update_ok:
  assumes "good_codec k" "viewer_ok k v Ls"
  shows "\<exists>res. Update k v = Some res \<and> update_result k v Ls res"
  using assms(2)
proof (induction "size (to_come v Ls)" arbitrary: v Ls rule: less_induct)
  case less
  obtain v1 Ls1 where F: "fill_if_empty k v = Some (v_buffer v1 \<noteq> [], v1)" "viewer_ok k v1 Ls1" "to_come v1 Ls1 = to_come v Ls"
    "same_settings v v1" "v_buffer v1 = [] \<longrightarrow> to_come v1 Ls1 = {#}"
  proof (cases "v_buffer v = []")
    case True
    then show ?thesis using FillBuffer_ok [OF assms(1) less.prems] that by (auto simp: fill_if_empty_def)
  next
    case False
    then show ?thesis using less.prems that [of v Ls] by (simp add: fill_if_empty_def same_settings_def)
  qed
  show ?case
  proof (cases "v_buffer v1")
    case Nil
    have "Update k v = Some (None, v1)" using F(1) Nil by (subst Update.simps) simp
    moreover have "update_result k v Ls (None, v1)" using F(2-5) Nil by (auto simp: update_result_def)
    ultimately show ?thesis by blast
  next
    case (Cons x xs)
    let ?v2 = "v1\<lparr>v_buffer := xs\<rparr>"
    note T = take_first [OF F(2) Cons]
    have w: "wanted v1 = wanted v" "wanted ?v2 = wanted v" using wanted_same [OF F(4)] by (auto simp: wanted_def fun_eq_iff)
    have s: "same_settings v ?v2" using F(4) by (simp add: same_settings_def)
    show ?thesis
    proof (cases "wanted v (snd x)")
      case True
      have "Update k v = Some (Some (snd x), ?v2)" using F(1) Cons True w by (subst Update.simps) (simp add: Let_def)
      moreover have "update_result k v Ls (Some (snd x), ?v2)"
        using T s True by (auto simp: update_result_def F(3) [symmetric])
      ultimately show ?thesis by blast
    next
      case False
      have "size (to_come ?v2 Ls1) < size (to_come v Ls)" using T(2) by (simp add: F(3) [symmetric])
      from less.hyps [OF this T(1)] obtain msg v3 where R: "Update k ?v2 = Some (msg, v3)" "update_result k ?v2 Ls1 (msg, v3)"
        by auto
      have eq: "wanted_of v (to_come v Ls) = wanted_of v (to_come ?v2 Ls1)" using T(2) False by (simp add: F(3) [symmetric])
      have "update_result k v Ls (msg, v3)"
        using R(2) same_settings_trans [OF s, of v3] unfolding update_result_def prod.case w(2) eq by blast
      moreover have "Update k v = Some (msg, v3)" using F(1) Cons False w R(1) by (subst Update.simps) (simp add: Let_def)
      ultimately show ?thesis by blast
    qed
  qed
qed

section \<open>Iterating\<close>

text \<open>An iterator at a message, which comes before all that are left.\<close>

lemma iterate_ok:
  assumes "good_codec k" "viewer_ok k v Ls" "\<not> it_end it" "it_message it = Some m" "earliest m (to_come v Ls)"
    "size (wanted_of v (to_come v Ls)) < n"
  shows "\<exists>out. iterate k n (it, v) = Some (m # out) \<and> mset out = wanted_of v (to_come v Ls) \<and> sorted (map sm_time (m # out))"
  using assms(2-6)
proof (induction n arbitrary: it v Ls m)
  case (Suc n)
  obtain msg v' where U: "Update k v = Some (msg, v')" "update_result k v Ls (msg, v')"
    using viewer_Update_ok [OF assms(1) Suc.prems(1)] by auto
  have ne: "\<not> it_equal it end_iterator" using Suc.prems(2) by (simp add: it_equal_def end_iterator_def)
  show ?case
  proof (cases msg)
    case None
    then have nx: "it_next k (it, v) = Some (it\<lparr>it_index := it_index it + 1, it_end := True\<rparr>, v')"
      using U(1) by (simp add: it_next_def Let_def)
    have "iterate k n (it\<lparr>it_index := it_index it + 1, it_end := True\<rparr>, v') = Some []"
      by (cases n) (simp_all add: it_equal_def end_iterator_def)
    then show ?thesis using U(2) None ne nx Suc.prems(3) by (simp add: update_result_def)
  next
    case (Some m')
    let ?it = "it\<lparr>it_index := it_index it + 1, it_message := Some m'\<rparr>"
    obtain Ls' where L: "viewer_ok k v' Ls'" "wanted_of v (to_come v Ls) = add_mset m' (wanted_of v (to_come v' Ls'))"
      "earliest m' (to_come v' Ls')" "same_settings v v'"
      using U(2) Some by (auto simp: update_result_def)
    have w: "wanted v' = wanted v" by (rule wanted_same [OF L(4)])
    have "size (wanted_of v' (to_come v' Ls')) < n" using Suc.prems(5) L(2) w by simp
    from Suc.IH [OF L(1) _ _ L(3) this, of ?it] Suc.prems(2) obtain out where
      out: "iterate k n (?it, v') = Some (m' # out)" "mset out = wanted_of v' (to_come v' Ls')" "sorted (map sm_time (m' # out))"
      by auto
    have "m' \<in># wanted_of v (to_come v Ls)" using L(2) by simp
    then have "sm_time m \<le> sm_time m'" using Suc.prems(4) by (simp add: earliest_def)
    moreover have "it_next k (it, v) = Some (?it, v')" using U(1) Some by (simp add: it_next_def Let_def)
    ultimately show ?thesis using ne out L(2) w Suc.prems(3)
      by (intro exI [of _ "m' # out"]) (auto intro: order_trans)
  qed
qed simp

text \<open>The messages of a whole iteration.\<close>

lemma view_messages_ok:
  assumes "good_codec k" "viewer_ok k (v_Reset v) Ls" "v_IsValid v" "size (wanted_of v (to_come (v_Reset v) Ls)) \<le> n"
  shows "\<exists>out. view_messages k n v = Some out \<and> mset out = wanted_of v (to_come (v_Reset v) Ls) \<and> sorted (map sm_time out)"
proof -
  have r: "v_IsValid (v_Reset v)" "wanted (v_Reset v) = wanted v"
    using assms(3) by (auto simp: v_IsValid_def v_Reset_def wanted_def fun_eq_iff)
  obtain msg v' where U: "Update k (v_Reset v) = Some (msg, v')" "update_result k (v_Reset v) Ls (msg, v')"
    using viewer_Update_ok [OF assms(1,2)] by auto
  show ?thesis
  proof (cases msg)
    case None
    have "iterate k n (end_iterator, v') = Some []" by (cases n) (simp_all add: it_equal_def end_iterator_def)
    then have "view_messages k n v = Some []"
      using U(1) None r(1) by (simp add: view_messages_def new_iterator_def Let_def end_iterator_def)
    then show ?thesis using U(2) None r(2) by (auto simp: update_result_def)
  next
    case (Some m)
    obtain Ls' where L: "viewer_ok k v' Ls'" "wanted_of v (to_come (v_Reset v) Ls) = add_mset m (wanted_of v (to_come v' Ls'))"
      "earliest m (to_come v' Ls')" "same_settings (v_Reset v) v'"
      using U(2) Some r(2) by (auto simp: update_result_def)
    have w: "wanted v' = wanted v" using wanted_same [OF L(4)] r(2) by simp
    have "size (wanted_of v' (to_come v' Ls')) < n" using assms(4) L(2) w by simp
    then obtain out where "iterate k n (\<lparr>it_end = False, it_index = 0, it_message = Some m\<rparr>, v') = Some (m # out)"
      "mset out = wanted_of v (to_come v' Ls')" "sorted (map sm_time (m # out))"
      using iterate_ok [OF assms(1) L(1) _ _ L(3), of "\<lparr>it_end = False, it_index = 0, it_message = Some m\<rparr>" n] w by auto
    then show ?thesis
      using U(1) Some r(1) L(2) by (intro exI [of _ "m # out"]) (simp add: view_messages_def new_iterator_def Let_def)
  qed
qed

section \<open>Viewing recordings\<close>

lemma header_item_times:
  "h_begin_time (header_item h (IChannel c)) = h_begin_time h" "h_end_time (header_item h (IChannel c)) = h_end_time h"
  "h_begin_time (header_item h (IChunk b)) = (if h_begin_time h = 0 then ch_begin_time (chunk_hdr (chunk_of b)) else h_begin_time h)"
  "h_end_time (header_item h (IChunk b)) = ch_end_time (chunk_hdr (chunk_of b))"
  by (simp_all add: Let_def)

lemma header_times:
  assumes "in_time_order (messages its)" "IChunk [] \<notin> set its" "h_begin_time h = 0" "h_end_time h = 0"
  shows "(messages its = [] \<longrightarrow> h_begin_time (foldl header_item h its) = 0 \<and> h_end_time (foldl header_item h its) = 0) \<and>
    (messages its \<noteq> [] \<longrightarrow> h_begin_time (foldl header_item h its) = sm_time (hd (messages its)) \<and>
       h_end_time (foldl header_item h its) = sm_time (last (messages its)))"
  using assms(1,2)
proof (induction its rule: rev_induct)
  case (snoc i its)
  have o: "in_time_order (messages its)" "in_time_order (item_messages i)" using snoc.prems(1) by (simp_all add: in_time_order_append)
  have IH: "(messages its = [] \<longrightarrow> h_begin_time (foldl header_item h its) = 0 \<and> h_end_time (foldl header_item h its) = 0) \<and>
    (messages its \<noteq> [] \<longrightarrow> h_begin_time (foldl header_item h its) = sm_time (hd (messages its)) \<and>
       h_end_time (foldl header_item h its) = sm_time (last (messages its)))"
    using snoc.IH [OF o(1)] snoc.prems(2) by simp
  show ?case
  proof (cases i)
    case (IChannel c)
    then show ?thesis using IH by (simp add: header_item_times del: header_item.simps)
  next
    case (IChunk b)
    have b: "b \<noteq> []" using snoc.prems(2) by (auto simp: IChunk)
    note t = chunk_times [OF o(2) [unfolded IChunk item_messages.simps] b]
    have "0 < sm_time (hd (messages its))" if "messages its \<noteq> []"
      using o(1) that by (simp add: in_time_order_def)
    then show ?thesis using IH b by (cases "messages its = []") (auto simp: IChunk header_item_times t simp del: header_item.simps)
  qed
qed (use assms in simp)

text \<open>The reader of a closed file of a recording in order.\<close>

lemma closed_file_delivers:
  assumes "good_codec k" "length (closed_bytes k h its written old) < 2 ^ 31" "in_time_order (messages its)" "IChunk [] \<notin> set its"
    "h_begin_time h = 0" "h_end_time h = 0"
  defines "r \<equiv> new_record_reader k (Some (closed_bytes k h its written old))"
  shows "delivers k (messages its) r" "rr_Reset r = r" "rr_valid r"
    "\<forall>m\<in>set (messages its). h_begin_time (rr_header r) \<le> sm_time m \<and> sm_time m \<le> h_end_time (rr_header r)"
    "messages its = [] \<Longrightarrow> h_end_time (rr_header r) = 0"
    "messages its \<noteq> [] \<Longrightarrow> h_end_time (rr_header r) = sm_time (last (messages its))"
proof -
  note N = new_record_reader_ok [OF assms(1,2), folded r_def]
  have hd: "h_begin_time (rr_header r) = h_begin_time (foldl header_item h its)"
    "h_end_time (rr_header r) = h_end_time (foldl header_item h its)" by (simp_all add: N(2) final_header_def)
  note t = header_times [OF assms(3-6)]
  show ih: "\<forall>m\<in>set (messages its). h_begin_time (rr_header r) \<le> sm_time m \<and> sm_time m \<le> h_end_time (rr_header r)"
    using t in_time_order_bounds [OF assms(3)] hd by (metis empty_iff empty_set)
  obtain rest where "reading k its rest r" using N(6) by blast
  then have "ahead k (messages its) (2 * length its) r" using assms(4) by (auto simp: ahead_def)
  then show "delivers k (messages its) r"
    using N(1,4,5) ih assms(3) by (auto simp: delivers_def delivers_n_def in_header_def)
  show "rr_Reset r = r" "rr_valid r" by (fact N(7), fact N(1))
  show "messages its = [] \<Longrightarrow> h_end_time (rr_header r) = 0"
    "messages its \<noteq> [] \<Longrightarrow> h_end_time (rr_header r) = sm_time (last (messages its))" using t hd by simp_all
qed

lemma mset_insert_reader: "mset (insert_reader r rs) = add_mset r (mset rs)"
  by (induction rs) auto

lemma mset_sort_readers: "mset (sort_readers rs) = mset rs"
proof -
  have "mset (fold insert_reader rs acc) = mset rs + mset acc" for acc
    by (induction rs arbitrary: acc) (simp_all add: mset_insert_reader)
  then show ?thesis by (simp add: sort_readers_def)
qed

lemma time_bounds_ok:
  assumes "\<forall>r\<in>set rs. rr_valid r" "time_bounds rs (b, e) = (b', e')"
  shows "b' \<le> b \<and> e \<le> e' \<and> (\<forall>r\<in>set rs. b' \<le> h_begin_time (rr_header r) \<and> h_end_time (rr_header r) \<le> e') \<and>
    (e \<le> T \<and> (\<forall>r\<in>set rs. h_end_time (rr_header r) \<le> T) \<longrightarrow> e' \<le> T)"
  using assms
proof (induction rs arbitrary: b e)
  case (Cons r rs)
  define b1 where "b1 = (if b > h_begin_time (rr_header r) then h_begin_time (rr_header r) else b)"
  define e1 where "e1 = (if e < h_end_time (rr_header r) then h_end_time (rr_header r) else e)"
  have tb: "time_bounds rs (b1, e1) = (b', e')" using Cons.prems by (simp add: Let_def b1_def e1_def)
  have valid: "\<forall>r\<in>set rs. rr_valid r" using Cons.prems(1) by simp
  have IH: "b' \<le> b1" "e1 \<le> e'" "\<forall>r\<in>set rs. b' \<le> h_begin_time (rr_header r) \<and> h_end_time (rr_header r) \<le> e'"
    "e1 \<le> T \<Longrightarrow> \<forall>r\<in>set rs. h_end_time (rr_header r) \<le> T \<Longrightarrow> e' \<le> T"
    using Cons.IH [OF valid tb] by blast+
  have b1: "b1 \<le> b" "b1 \<le> h_begin_time (rr_header r)" and e1: "e \<le> e1" "h_end_time (rr_header r) \<le> e1"
    by (auto simp: b1_def e1_def)
  have "e1 \<le> T" if "e \<le> T" "h_end_time (rr_header r) \<le> T" using that by (simp add: e1_def)
  moreover have "b' \<le> b" "b' \<le> h_begin_time (rr_header r)" "e \<le> e'" "h_end_time (rr_header r) \<le> e'"
    using IH(1,2) b1 e1 by (blast intro: order_trans)+
  ultimately show ?case using IH(3,4) by simp
qed simp

text \<open>A file that a file writer whose flush thread keeps up leaves, with the messages it was given.\<close>

definition recorded :: "codec \<Rightarrow> header \<Rightarrow> single_message list \<Rightarrow> byte list \<Rightarrow> bool" where
  "recorded k h ms bs \<longleftrightarrow>
     (\<exists>f es. pos f = 0 \<and> room f = None \<and> keeps_up k es (snd (fw_WriteHeader k h (fw_Open f))) \<and>
        ms = written_messages es \<and> bs = bytes (fw_file (fw_Close k (fw_run k h f es))) \<and> length bs < 2 ^ 31)"

text \<open>The last time whose window does not overflow, with the one after it.\<close>

definition latest_time :: u64 where
  "latest_time = - 3 - kStepTimeNanoSec"

definition fresh_header :: "header \<Rightarrow> bool" where
  "fresh_header h \<longleftrightarrow> h_begin_time h = 0 \<and> h_end_time h = 0"

definition reader_of :: "codec \<Rightarrow> record_reader \<Rightarrow> single_message list \<Rightarrow> bool" where
  "reader_of k r ms \<longleftrightarrow> delivers k ms r \<and> rr_Reset r = r \<and> rr_valid r \<and> h_end_time (rr_header r) \<le> latest_time \<and>
     (\<forall>m\<in>set ms. h_begin_time (rr_header r) \<le> sm_time m \<and> sm_time m \<le> h_end_time (rr_header r))"

lemma recorded_reader:
  assumes "good_codec k" "fresh_header h" "recorded k h ms bs" "in_time_order ms" "\<forall>m\<in>set ms. sm_time m \<le> latest_time"
  shows "reader_of k (new_record_reader k (Some bs)) ms"
proof -
  obtain f es where f: "pos f = 0" "room f = None" "keeps_up k es (snd (fw_WriteHeader k h (fw_Open f)))"
    "ms = written_messages es" "bs = bytes (fw_file (fw_Close k (fw_run k h f es)))" "length bs < 2 ^ 31"
    using assms(3) by (auto simp: recorded_def)
  obtain its where i: "bs = closed_bytes k h its ms (bytes f)" "messages its = ms" "IChunk [] \<notin> set its"
    using keeps_up_closed [OF assms(1) f(1-3)] f(4,5) by metis
  have h: "h_begin_time h = 0" "h_end_time h = 0" using assms(2) by (simp_all add: fresh_header_def)
  have l: "length (closed_bytes k h its ms (bytes f)) < 2 ^ 31" using f(6) by (simp only: i(1))
  have o: "in_time_order (messages its)" using assms(4) i(2) by simp
  note C = closed_file_delivers [OF assms(1) l o i(3) h, folded i(1), unfolded i(2)]
  have "h_end_time (rr_header (new_record_reader k (Some bs))) \<le> latest_time"
    using C(5,6) assms(5) by (cases "ms = []") simp_all
  then show ?thesis using C(1-4) by (simp add: reader_of_def)
qed

lemma total_eq: "total e Ls = filter_mset (\<lambda>m. sm_time m \<le> e) (mset (concat Ls))"
  unfolding total_def by (induction Ls) simp_all

text \<open>Clamping the times to those of the headers keeps the messages a viewer wants.\<close>

lemma clamped_messages:
  assumes "list_all2 (reader_of k) rs runs"
    and "\<forall>r\<in>set rs. mb \<le> h_begin_time (rr_header r) \<and> h_end_time (rr_header r) \<le> me"
    and "b' = (if b < mb then mb else b)" "e' = (if e > me then me else e)"
  shows "filter_mset P (total e' (map (since b') runs)) =
    filter_mset (\<lambda>m. b \<le> sm_time m \<and> sm_time m \<le> e \<and> P m) (mset (concat runs))"
proof -
  have clamp: "b' \<le> sm_time m \<and> sm_time m \<le> e' \<longleftrightarrow> b \<le> sm_time m \<and> sm_time m \<le> e" if m: "m \<in> set (concat runs)" for m
  proof -
    obtain ms where "ms \<in> set runs" "m \<in> set ms" using m by auto
    then obtain r where "r \<in> set rs" "reader_of k r ms" "m \<in> set ms"
      using assms(1) by (metis in_set_conv_nth list_all2_conv_all_nth)
    then have "mb \<le> sm_time m" "sm_time m \<le> me" using assms(2) unfolding reader_of_def by (meson order_trans)+
    then show ?thesis by (auto simp: assms(3,4))
  qed
  have "total e' (map (since b') runs) = filter_mset (\<lambda>m. b' \<le> sm_time m \<and> sm_time m \<le> e') (mset (concat runs))"
    unfolding total_eq by (simp flip: filter_concat mset_filter add: conj_commute)
  also have "filter_mset P \<dots> = filter_mset (\<lambda>m. b \<le> sm_time m \<and> sm_time m \<le> e \<and> P m) (mset (concat runs))"
    unfolding filter_filter_mset by (rule filter_mset_cong [OF refl]) (use clamp in auto)
  finally show ?thesis .
qed

lemma new_viewer_fields:
  assumes "time_bounds (sort_readers rs) (- 1, 0) = (mb, me)"
  shows "v_begin_time (new_viewer rs b e channels) = (if b < mb then mb else b)"
    "v_end_time (new_viewer rs b e channels) = (if e > me then me else e)" "v_channels (new_viewer rs b e channels) = channels"
    "v_readers (new_viewer rs b e channels) = map (\<lambda>r. (r, False)) (sort_readers rs)"
  by (simp_all add: new_viewer_def UpdateTime_def v_Init_def assms comp_def Let_def)

text \<open>
  Property C23. Viewing recordings. For files written by file writers whose flush threads keep up, each
  of messages in time order, a viewer of any times and channels iterates to its end and yields exactly
  the messages between the times on the channels, from all files, in time order.
\<close>

theorem viewer_merges_recordings:
  assumes "good_codec k" "fresh_header h" "list_all2 (recorded k h) runs files"
    and "\<forall>ms\<in>set runs. in_time_order ms \<and> (\<forall>m\<in>set ms. sm_time m \<le> latest_time)"
    and "M = filter_mset (\<lambda>m. b \<le> sm_time m \<and> sm_time m \<le> e \<and> (channels = [] \<or> sm_channel_name m \<in> set channels)) (mset (concat runs))"
    and "size M \<le> n"
  shows "\<exists>out. view_messages k n (new_viewer (map (\<lambda>bs. new_record_reader k (Some bs)) files) b e channels) = Some out \<and>
    mset out = M \<and> sorted (map sm_time out)"
proof -
  define rs where "rs = map (\<lambda>bs. new_record_reader k (Some bs)) files"
  have "list_all2 (reader_of k) rs runs"
    using assms(3,4) unfolding rs_def
    by (induction rule: list_all2_induct) (simp_all add: recorded_reader [OF assms(1,2)])
  then obtain runs' where R: "list_all2 (reader_of k) (sort_readers rs) runs'" "mset runs' = mset runs"
    using list_all2_reorder_left_invariance [OF _ mset_sort_readers] by blast
  have ro: "\<exists>ms\<in>set runs'. reader_of k r ms" if "r \<in> set (sort_readers rs)" for r
    using R(1) that by (metis in_set_conv_nth list_all2_conv_all_nth)
  obtain mb me where tb: "time_bounds (sort_readers rs) (- 1, 0) = (mb, me)" by fastforce
  have B: "\<forall>r\<in>set (sort_readers rs). mb \<le> h_begin_time (rr_header r) \<and> h_end_time (rr_header r) \<le> me" "me \<le> latest_time"
    using time_bounds_ok [OF _ tb, of latest_time] ro by (auto simp: reader_of_def)
  define v where "v = new_viewer rs b e channels"
  note v = new_viewer_fields [OF tb, of b e channels, folded v_def]
  define Ls where "Ls = map (since (v_begin_time v)) runs'"
  have "mset (concat runs') = mset (concat runs)" using R(2) by (metis mset_concat mset_map sum_mset_sum_list)
  moreover have "wanted v = (\<lambda>m. channels = [] \<or> sm_channel_name m \<in> set channels)" by (simp add: wanted_def v fun_eq_iff)
  ultimately have Mw: "filter_mset (wanted v) (total (v_end_time v) Ls) = M"
    unfolding assms(5) Ls_def using clamped_messages [OF R(1) B(1) v(1,2), of "wanted v"] by simp
  have tc: "wanted v = wanted (v_Reset v)" "to_come (v_Reset v) Ls = total (v_end_time v) Ls"
    by (auto simp: wanted_def v_Reset_def to_come_def fun_eq_iff)
  show ?thesis
  proof (cases "v_IsValid v")
    case True
    have "v_end_time v \<le> latest_time" using B(2) by (auto simp: v)
    then have "unat (v_end_time v) \<le> unat latest_time" by (simp add: word_le_nat_alt)
    then have "unat (v_end_time v) + unat kStepTimeNanoSec < 2 ^ 64 - 1" by (simp add: latest_time_def kStepTimeNanoSec_def)
    moreover have "list_all2 (left k (v_begin_time v)) (map (\<lambda>r. (rr_Reset r, False)) (sort_readers rs)) Ls"
      unfolding Ls_def list_all2_map1 list_all2_map2
      by (rule list_all2_mono [OF R(1)]) (auto simp: reader_of_def left_def)
    ultimately have "viewer_ok k (v_Reset v) Ls"
      by (simp add: viewer_ok_def v_Reset_def v(4) comp_def buffer_ok_def)
    then show ?thesis
      using view_messages_ok [OF assms(1) _ True, of Ls n] tc Mw assms(6) by (simp add: v_def [symmetric] rs_def [symmetric])
  next
    case False
    have "x \<notin># total (v_end_time v) Ls" for x using False by (auto simp: total_eq Ls_def v_IsValid_def)
    then have "total (v_end_time v) Ls = {#}" by (metis multiset_nonemptyE)
    then have "M = {#}" unfolding Mw [symmetric] by simp
    moreover have "view_messages k n v = Some []"
      using False by (cases n) (simp_all add: view_messages_def new_iterator_def v_IsValid_def v_Reset_def it_equal_def end_iterator_def Let_def)
    ultimately show ?thesis by (simp add: v_def [symmetric] rs_def [symmetric])
  qed
qed

theorem viewer_merges_recordings_witness:
  "\<exists>out. view_messages simple_codec 3 (new_viewer (map (\<lambda>bs. new_record_reader simple_codec (Some bs))
      [bytes (fw_file (fw_Close simple_codec (fw_run simple_codec GetHeader no_file sample_events)))]) 2 100 [''/a'']) = Some out \<and>
    mset out = {#sample_message 2#} \<and> sorted (map sm_time out)"
proof -
  let ?bs = "bytes (fw_file (fw_Close simple_codec (fw_run simple_codec GetHeader no_file sample_events)))"
  have rec: "recorded simple_codec GetHeader [sample_message 1, sample_message 2] ?bs"
    unfolding recorded_def using sample_keeps_up sample_length [of GetHeader]
    by (intro exI [of _ no_file] exI [of _ sample_events]) (simp add: sample_written sample_closed)
  have "fresh_header GetHeader" by (simp add: fresh_header_def GetHeader_def)
  moreover have "in_time_order [sample_message 1, sample_message 2]" by (simp add: in_time_order_def sample_message_def)
  moreover have "sm_time (sample_message 1) \<le> latest_time" "sm_time (sample_message 2) \<le> latest_time"
    by (simp_all add: sample_message_def latest_time_def kStepTimeNanoSec_def word_le_nat_alt)
  moreover have "{#sample_message 2#} = filter_mset (\<lambda>m. 2 \<le> sm_time m \<and> sm_time m \<le> 100 \<and>
      ([''/a''] = [] \<or> sm_channel_name m \<in> set [''/a''])) (mset (concat [[sample_message 1, sample_message 2]]))"
    by (simp add: sample_message_def word_le_nat_alt)
  ultimately show ?thesis
    using viewer_merges_recordings [of simple_codec GetHeader "[[sample_message 1, sample_message 2]]" "[?bs]"
        "{#sample_message 2#}" 2 100 "[''/a'']" 3, OF simple_codec_good] rec
    by simp
qed

end
