(* ===== verification/TopoRanges.thy ===== *)
theory TopoRanges
  imports Prelude Complex_Main
begin

text \<open>
  Ranges of positions along a lane (\<open>modules/routing/graph/topo_range.cc\<close>, \<open>range_utils.h\<close>,
  \<open>topo_range_manager.cc\<close> and the first part of \<open>sub_topo_graph.cc\<close>): merging the blocked ranges of a
  lane, the ranges left between them, and the binary searches over sorted ranges. Positions are the reals that the doubles
  stand for; only lengths round, with \<open>rnd\<close>. Ranges that start at the same position are sorted in the order given.
\<close>

section \<open>Ranges\<close>

record srange =
  r_start :: real
  r_end :: real

definition range_valid :: "srange \<Rightarrow> bool" where
  "range_valid r \<longleftrightarrow> r_start r \<le> r_end r"

definition range_Length :: "(real \<Rightarrow> real) \<Rightarrow> srange \<Rightarrow> real" where
  "range_Length rnd r = rnd (r_end r - r_start r)"

text \<open>\<open>FLAGS_min_length_for_lane_change\<close>.\<close>

definition min_length_for_lane_change :: real where "min_length_for_lane_change = 1"

definition IsEnoughForChangeLane :: "real \<Rightarrow> bool" where
  "IsEnoughForChangeLane len \<longleftrightarrow> len > min_length_for_lane_change"

definition MergeRangeOverlap :: "srange \<Rightarrow> srange \<Rightarrow> bool \<times> srange" where
  "MergeRangeOverlap r other =
     (if \<not> range_valid r \<or> \<not> range_valid other then (False, r)
      else if r_start other > r_end r \<or> r_end other < r_start r then (False, r)
      else (True, r\<lparr>r_end := max (r_end r) (r_end other), r_start := min (r_start r) (r_start other)\<rparr>))"

text \<open>\<open>merge_block_range\<close>, which \<open>sub_topo_graph.cc\<close> repeats as \<open>MergeBlockRange\<close>, for a lane from \<open>a\<close> to \<open>b\<close>.\<close>

fun absorb :: "srange \<Rightarrow> srange list \<Rightarrow> srange \<times> srange list" where
  "absorb r [] = (r, [])"
| "absorb r (q # qs) = (case MergeRangeOverlap r q of (True, r') \<Rightarrow> absorb r' qs | (False, r') \<Rightarrow> (r', q # qs))"

lemma absorb_length: "length (snd (absorb r qs)) \<le> length qs"
proof (induction r qs rule: absorb.induct)
  case (2 r q qs)
  show ?case
  proof (cases "MergeRangeOverlap r q")
    case (Pair ok r')
    then show ?thesis using "2.IH" [OF Pair [symmetric]] Pair by (cases ok) auto
  qed
qed simp

function merge_sorted :: "real \<Rightarrow> real \<Rightarrow> srange list \<Rightarrow> srange list" where
  "merge_sorted a b [] = []"
| "merge_sorted a b (q # qs) =
     (let (r, rest) = absorb q qs
      in if r_end r < a \<or> r_start r > b then merge_sorted a b rest
         else r\<lparr>r_start := max a (r_start r), r_end := min b (r_end r)\<rparr> # merge_sorted a b rest)"
  by pat_completeness auto
termination
proof (relation "measure (\<lambda>(a, b, qs). length qs)")
  fix a b :: real and q qs p x y assume "p = absorb q qs" "(x, y) = p"
  then show "((a, b, y), (a, b, q # qs)) \<in> measure (\<lambda>(a, b, qs). length qs)" using absorb_length [of q qs] by (cases p) (auto simp: less_Suc_eq_le dest: sym)
  then show "((a, b, y), (a, b, q # qs)) \<in> measure (\<lambda>(a, b, qs). length qs)" .
qed simp

definition merge_block_range :: "real \<Rightarrow> real \<Rightarrow> srange list \<Rightarrow> srange list" where
  "merge_block_range a b origin = merge_sorted a b (sort_key r_start origin)"

text \<open>\<open>GetSortedValidRange\<close>: the ranges between the blocked ones.\<close>

fun pair_up :: "real list \<Rightarrow> srange list" where
  "pair_up (x # y # zs) = \<lparr>r_start = x, r_end = y\<rparr> # pair_up zs"
| "pair_up _ = []"

definition GetSortedValidRange :: "real \<Rightarrow> real \<Rightarrow> srange list \<Rightarrow> srange list" where
  "GetSortedValidRange a b origin =
     pair_up (a # concat (map (\<lambda>r. [r_start r, r_end r]) (merge_block_range a b origin)) @ [b])"

section \<open>The blocked ranges of lanes\<close>

type_synonym range_map = "nat \<Rightarrow> srange list option"

definition ranges_Add :: "nat \<Rightarrow> real \<Rightarrow> real \<Rightarrow> range_map \<Rightarrow> range_map" where
  "ranges_Add node s e m = m(node := Some ((case m node of Some rs \<Rightarrow> rs | None \<Rightarrow> []) @ [\<lparr>r_start = s, r_end = e\<rparr>]))"

definition SortAndMerge :: "(nat \<Rightarrow> real \<times> real) \<Rightarrow> range_map \<Rightarrow> range_map" where
  "SortAndMerge lane m = (\<lambda>n. map_option (merge_block_range (fst (lane n)) (snd (lane n))) (m n))"

section \<open>Binary searches\<close>

text \<open>The loops, which end with the two bounds at most one apart; \<open>key\<close> is the bound of the ranges compared.\<close>

function search_loop :: "(srange \<Rightarrow> real) \<Rightarrow> srange list \<Rightarrow> real \<Rightarrow> int \<Rightarrow> int \<Rightarrow> int \<times> int" where
  "search_loop key v s i j =
     (if j - i > 1 then
        let m = (i + j) div 2 in if key (v ! nat m) > s then search_loop key v s i m else search_loop key v s m j
      else (i, j))"
  by auto
termination by (relation "measure (\<lambda>(key, v, s, i, j). nat (j - i))") auto

declare search_loop.simps [simp del]

definition BinarySearchForSLarger :: "srange list \<Rightarrow> real \<Rightarrow> int" where
  "BinarySearchForSLarger v s =
     (if v = [] then - 1
      else let (i, j) = search_loop r_start v s 0 (int (length v) - 1) in if s \<le> r_end (v ! nat i) then i else j)"

definition BinarySearchForSSmaller :: "srange list \<Rightarrow> real \<Rightarrow> int" where
  "BinarySearchForSSmaller v s =
     (if v = [] then - 1
      else let (i, j) = search_loop r_end v s 0 (int (length v) - 1) in if s > r_start (v ! nat j) then j else i)"

definition BinarySearchCheckValidSIndex :: "srange list \<Rightarrow> int \<Rightarrow> real \<Rightarrow> int" where
  "BinarySearchCheckValidSIndex v i s =
     (if i = - 1 then - 1 else if r_start (v ! nat i) \<le> s \<and> r_end (v ! nat i) \<ge> s then i else - 1)"

definition BinarySearchForStartS :: "srange list \<Rightarrow> real \<Rightarrow> int" where
  "BinarySearchForStartS v s = BinarySearchCheckValidSIndex v (BinarySearchForSLarger v s) s"

definition BinarySearchForEndS :: "srange list \<Rightarrow> real \<Rightarrow> int" where
  "BinarySearchForEndS v s = BinarySearchCheckValidSIndex v (BinarySearchForSSmaller v s) s"

section \<open>What merging keeps\<close>

definition covers :: "srange list \<Rightarrow> real \<Rightarrow> bool" where
  "covers rs x \<longleftrightarrow> (\<exists>r\<in>set rs. r_start r \<le> x \<and> x \<le> r_end r)"

lemma covers_simps [simp]:
  "\<not> covers [] x" "covers (r # rs) x \<longleftrightarrow> r_start r \<le> x \<and> x \<le> r_end r \<or> covers rs x"
  "covers (rs @ qs) x \<longleftrightarrow> covers rs x \<or> covers qs x"
  by (auto simp: covers_def)

text \<open>Valid ranges of a lane from \<open>a\<close> to \<open>b\<close>, one after the other, apart or touching at most.\<close>

definition apart :: "real \<Rightarrow> real \<Rightarrow> srange list \<Rightarrow> bool" where
  "apart a b rs \<longleftrightarrow> (\<forall>r\<in>set rs. a \<le> r_start r \<and> r_start r \<le> r_end r \<and> r_end r \<le> b) \<and> sorted_wrt (\<lambda>r q. r_end r < r_start q) rs"

definition in_line :: "real \<Rightarrow> real \<Rightarrow> srange list \<Rightarrow> bool" where
  "in_line a b rs \<longleftrightarrow> (\<forall>r\<in>set rs. a \<le> r_start r \<and> r_start r \<le> r_end r \<and> r_end r \<le> b) \<and> sorted_wrt (\<lambda>r q. r_end r \<le> r_start q) rs"

lemma absorb_spec:
  "sorted (map r_start (r # qs)) \<Longrightarrow> \<forall>q\<in>set (r # qs). range_valid q \<Longrightarrow> absorb r qs = (r', rest) \<Longrightarrow>
   range_valid r' \<and> r_start r' = r_start r \<and> (\<exists>used. qs = used @ rest \<and> (\<forall>x. covers (r # used) x \<longleftrightarrow> r_start r' \<le> x \<and> x \<le> r_end r')) \<and>
   (\<forall>q\<in>set rest. r_end r' < r_start q)"
proof (induction r qs arbitrary: r' rest rule: absorb.induct)
  case (2 r q qs)
  show ?case
  proof (cases "r_start q > r_end r")
    case True
    then have "r' = r" "rest = q # qs" using "2.prems"(3) by (auto simp: MergeRangeOverlap_def split: if_splits)
    then show ?thesis using "2.prems"(1,2) True by (intro conjI exI [of _ "[]"]) (auto intro: less_le_trans)
  next
    case False
    let ?r = "r\<lparr>r_end := max (r_end r) (r_end q), r_start := min (r_start r) (r_start q)\<rparr>"
    have v: "range_valid r" "range_valid q" "r_start r \<le> r_start q" using "2.prems"(1,2) by auto
    then have m: "MergeRangeOverlap r q = (True, ?r)" using False by (auto simp: MergeRangeOverlap_def range_valid_def)
    have "sorted (map r_start (?r # qs))" "\<forall>q\<in>set (?r # qs). range_valid q" "absorb ?r qs = (r', rest)"
      using "2.prems" v m by (auto simp: range_valid_def)
    from "2.IH" [OF m [symmetric] refl this] obtain used where I: "range_valid r'" "r_start r' = r_start ?r" "qs = used @ rest"
      "\<And>x. covers (?r # used) x \<longleftrightarrow> r_start r' \<le> x \<and> x \<le> r_end r'" "\<forall>q\<in>set rest. r_end r' < r_start q" by blast
    have "covers (r # q # used) x \<longleftrightarrow> covers (?r # used) x" for x using v False by (auto simp: range_valid_def max_def min_def)
    then show ?thesis using I v by (intro conjI exI [of _ "q # used"]) auto
  qed
qed simp

lemma merge_sorted_spec:
  "sorted (map r_start qs) \<Longrightarrow> \<forall>q\<in>set qs. range_valid q \<Longrightarrow> a \<le> b \<Longrightarrow>
   apart a b (merge_sorted a b qs) \<and> (\<forall>x. covers (merge_sorted a b qs) x \<longleftrightarrow> a \<le> x \<and> x \<le> b \<and> covers qs x)"
proof (induction a b qs rule: merge_sorted.induct)
  case (2 a b q qs)
  obtain r rest where A: "absorb q qs = (r, rest)" by (cases "absorb q qs")
  from absorb_spec [OF "2.prems"(1,2) A] obtain used where S: "range_valid r" "r_start r = r_start q" "qs = used @ rest"
    "\<And>x. covers (q # used) x \<longleftrightarrow> r_start r \<le> x \<and> x \<le> r_end r" "\<forall>q\<in>set rest. r_end r < r_start q" by blast
  have rest: "sorted (map r_start rest)" "\<forall>q\<in>set rest. range_valid q" using "2.prems"(1,2) S(3) by (auto simp: sorted_append)
  let ?out = "merge_sorted a b rest"
  have I: "apart a b ?out" "\<And>x. covers ?out x \<longleftrightarrow> a \<le> x \<and> x \<le> b \<and> covers rest x"
    using "2.IH"(1) [OF A [symmetric] refl] "2.IH"(2) [OF A [symmetric] refl] rest "2.prems"(3) by blast+
  have C: "covers (q # qs) x \<longleftrightarrow> r_start r \<le> x \<and> x \<le> r_end r \<or> covers rest x" for x using S(3,4) by auto
  show ?case
  proof (cases "r_end r < a \<or> r_start r > b")
    case True
    then have M: "merge_sorted a b (q # qs) = ?out" by (simp add: A)
    have "covers ?out x \<longleftrightarrow> a \<le> x \<and> x \<le> b \<and> covers (q # qs) x" for x unfolding C I(2) using True by auto
    then show ?thesis unfolding M using I(1) by simp
  next
    case False
    let ?r = "r\<lparr>r_start := max a (r_start r), r_end := min b (r_end r)\<rparr>"
    have M: "merge_sorted a b (q # qs) = ?r # ?out" using False by (simp add: A)
    have "r_end r < r_start p" if "p \<in> set ?out" for p
    proof -
      have "covers ?out (r_start p)" using that I(1) by (auto simp: covers_def apart_def)
      then show ?thesis unfolding I(2) using S(5) by (fastforce simp: covers_def)
    qed
    then have "apart a b (?r # ?out)" using I(1) False S(1) "2.prems"(3) by (auto simp: apart_def range_valid_def min_less_iff_disj)
    moreover have "covers (?r # ?out) x \<longleftrightarrow> a \<le> x \<and> x \<le> b \<and> covers (q # qs) x" for x unfolding C using I(2) [of x] by auto
    ultimately show ?thesis unfolding M by blast
  qed
qed (simp add: apart_def)

lemma merge_block_range_spec:
  assumes "\<forall>q\<in>set qs. range_valid q" "a \<le> b"
  shows "apart a b (merge_block_range a b qs)" "covers (merge_block_range a b qs) x \<longleftrightarrow> a \<le> x \<and> x \<le> b \<and> covers qs x"
  using merge_sorted_spec [of "sort_key r_start qs" a b] assms by (simp_all add: merge_block_range_def covers_def)

lemma merge_keeps_apart:
  assumes "apart a b rs"
  shows "merge_block_range a b rs = rs"
proof -
  have s: "sorted (map r_start rs)" using assms unfolding sorted_map by (auto simp: apart_def elim!: sorted_wrt_mono_rel [rotated])
  have "apart a b rs \<Longrightarrow> merge_sorted a b rs = rs"
  proof (induction rs)
    case (Cons r rs)
    have A: "absorb r rs = (r, rs)" using Cons.prems by (cases rs) (auto simp: apart_def MergeRangeOverlap_def)
    have "merge_sorted a b rs = rs" "a \<le> r_start r" "r_start r \<le> r_end r" "r_end r \<le> b" using Cons by (simp_all add: apart_def)
    then show ?case by (simp add: A max_def min_def not_less)
  qed simp
  then show ?thesis using assms s by (simp add: merge_block_range_def sort_key_id_if_sorted)
qed

section \<open>The ranges between\<close>

fun gaps :: "real \<Rightarrow> srange list \<Rightarrow> real \<Rightarrow> srange list" where
  "gaps a [] b = [\<lparr>r_start = a, r_end = b\<rparr>]"
| "gaps a (r # rs) b = \<lparr>r_start = a, r_end = r_start r\<rparr> # gaps (r_end r) rs b"

lemma pair_up_gaps: "pair_up (a # concat (map (\<lambda>r. [r_start r, r_end r]) rs) @ [b]) = gaps a rs b"
  by (induction rs arbitrary: a) simp_all

lemma GetSortedValidRange_gaps: "GetSortedValidRange a b qs = gaps a (merge_block_range a b qs) b"
  by (simp add: GetSortedValidRange_def pair_up_gaps)

lemma gaps_spec:
  "apart a b rs \<Longrightarrow> a \<le> b \<Longrightarrow> in_line a b (gaps a rs b) \<and>
   (\<forall>x. a \<le> x \<and> x \<le> b \<longrightarrow> covers (gaps a rs b) x \<or> covers rs x) \<and>
   (\<forall>r\<in>set (gaps a rs b). \<forall>x. r_start r < x \<and> x < r_end r \<longrightarrow> \<not> covers rs x)"
proof (induction rs arbitrary: a)
  case Nil
  then show ?case by (simp add: in_line_def)
next
  case (Cons r rs)
  have r: "a \<le> r_start r" "r_start r \<le> r_end r" "r_end r \<le> b" "\<forall>q\<in>set rs. r_end r < r_start q" "apart (r_end r) b rs"
    using Cons.prems by (auto simp: apart_def intro: less_imp_le)
  note I = Cons.IH [OF r(5,3)]
  let ?g = "\<lparr>r_start = a, r_end = r_start r\<rparr>"
  have "r_start r \<le> r_start q" if "q \<in> set (gaps (r_end r) rs b)" for q using I that r(2) by (auto simp: in_line_def)
  then have "in_line a b (?g # gaps (r_end r) rs b)" using I r(1-3) by (auto simp: in_line_def)
  moreover have "covers (gaps a (r # rs) b) x \<or> covers (r # rs) x" if "a \<le> x" "x \<le> b" for x using I that by (cases "x \<le> r_end r") auto
  moreover have "\<not> covers (r # rs) x" if q: "q \<in> set (gaps a (r # rs) b)" and x: "r_start q < x" "x < r_end q" for q x
  proof (cases "q = ?g")
    case True
    then have "x < r_start r" using x by simp
    then show ?thesis using r(2,4) by (fastforce simp: covers_def)
  next
    case False
    then have q': "q \<in> set (gaps (r_end r) rs b)" using q by simp
    then have "r_end r \<le> r_start q" using I by (auto simp: in_line_def)
    then show ?thesis using I q' x by auto
  qed
  ultimately show ?case by (simp only: gaps.simps) blast
qed

section \<open>The searches\<close>

lemma nth_in_line:
  assumes "in_line a b v" "i < j" "j < length v"
  shows "r_end (v ! i) \<le> r_start (v ! j)"
  using assms by (auto simp: in_line_def sorted_wrt_iff_nth_less)

definition holds :: "srange list \<Rightarrow> real \<Rightarrow> nat \<Rightarrow> bool" where
  "holds v s k \<longleftrightarrow> k < length v \<and> r_start (v ! k) \<le> s \<and> s \<le> r_end (v ! k)"

lemma covers_holds: "covers v s \<longleftrightarrow> (\<exists>k. holds v s k)"
  unfolding covers_def holds_def by (metis in_set_conv_nth)

lemma search_loop_spec:
  "in_line a b v \<Longrightarrow> key = r_start \<or> key = r_end \<Longrightarrow> 0 \<le> i \<Longrightarrow> i \<le> j \<Longrightarrow> j < int (length v) \<Longrightarrow> search_loop key v s i j = (i', j') \<Longrightarrow>
    0 \<le> i' \<and> i' \<le> j' \<and> j' \<le> i' + 1 \<and> j' < int (length v) \<and>
    ((\<exists>k. i \<le> int k \<and> int k \<le> j \<and> holds v s k) \<longrightarrow> (\<exists>k. i' \<le> int k \<and> int k \<le> j' \<and> holds v s k))"
proof (induction key v s i j rule: search_loop.induct)
  case (1 key v s i j)
  show ?case
  proof (cases "j - i > 1")
    case False
    then have "i' = i" "j' = j" using "1.prems"(6) by (simp_all add: search_loop.simps [of _ _ _ i])
    then show ?thesis using "1.prems" False by auto
  next
    case True
    let ?m = "(i + j) div 2"
    have m: "i < ?m" "?m < j" "int (nat ?m) = ?m" "nat ?m < length v" using True "1.prems"(3,5) by auto
    have bounds: "r_start (v ! nat ?m) \<le> r_end (v ! nat ?m)" using "1.prems"(1) m(4) by (simp add: in_line_def)
    note lt = nth_in_line [OF "1.prems"(1)]
    show ?thesis
    proof (cases "key (v ! nat ?m) > s")
      case big: True
      have "int k \<le> ?m" if k: "holds v s k" for k
      proof (rule ccontr)
        assume "\<not> int k \<le> ?m"
        then have "nat ?m < k" using m(3) by linarith
        then have "r_end (v ! nat ?m) \<le> r_start (v ! k)" using lt k by (simp add: holds_def)
        then show False using big bounds k "1.prems"(2) by (auto simp: holds_def)
      qed
      moreover have "search_loop key v s i ?m = (i', j')" using "1.prems"(6) True big by (simp add: search_loop.simps [of _ _ _ i j])
      ultimately show ?thesis using "1.IH"(1) [OF True refl big "1.prems"(1-3)] m "1.prems"(3,5) by auto
    next
      case small: False
      have "holds v s (nat ?m)" if k: "holds v s k" "int k < ?m" for k
      proof -
        have "k < nat ?m" using k(2) m(3) by linarith
        then have "r_end (v ! k) \<le> r_start (v ! nat ?m)" using lt m(4) by blast
        then show ?thesis using small bounds k(1) m(4) "1.prems"(2) by (auto simp: holds_def)
      qed
      note left = this
      have "\<exists>k. ?m \<le> int k \<and> int k \<le> j \<and> holds v s k" if "int k \<le> j" "holds v s k" for k
      proof (cases "int k < ?m")
        case True
        then show ?thesis using left [OF that(2)] m(2,3) by (intro exI [of _ "nat ?m"]) simp
      next
        case False
        then show ?thesis using that by (intro exI [of _ k]) simp
      qed
      moreover have "search_loop key v s ?m j = (i', j')" using "1.prems"(6) True small by (simp add: search_loop.simps [of _ _ _ i j])
      ultimately show ?thesis using "1.IH"(2) [OF True refl small "1.prems"(1,2)] m "1.prems"(3,5) by auto
    qed
  qed
qed

text \<open>Looking up a position by the starts of the ranges finds a range that holds it whenever there is one.\<close>

lemma BinarySearchForStartS_spec:
  assumes v: "in_line a b v"
  shows "if covers v s then \<exists>k. BinarySearchForStartS v s = int k \<and> holds v s k else BinarySearchForStartS v s = - 1"
proof (cases "v = []")
  case False
  obtain i j where L: "search_loop r_start v s 0 (int (length v) - 1) = (i, j)" by (cases "search_loop r_start v s 0 (int (length v) - 1)")
  have S: "0 \<le> i" "i \<le> j" "j \<le> i + 1" "j < int (length v)" "(\<exists>k. holds v s k) \<longrightarrow> (\<exists>k. i \<le> int k \<and> int k \<le> j \<and> holds v s k)"
    using search_loop_spec [OF v _ _ _ _ L] False by (auto simp: Suc_le_eq holds_def simp flip: length_greater_0_conv)
  let ?r = "if s \<le> r_end (v ! nat i) then i else j"
  have r: "BinarySearchForSLarger v s = ?r" using False L by (simp add: BinarySearchForSLarger_def)
  have ij: "r_end (v ! nat i) \<le> r_start (v ! nat j)" "r_start (v ! nat i) \<le> r_end (v ! nat i)" if "i \<noteq> j"
    using nth_in_line [OF v, of "nat i" "nat j"] that S v by (auto simp: in_line_def)
  have found: "holds v s (nat ?r)" if c: "covers v s"
  proof -
    obtain k where k: "i \<le> int k" "int k \<le> j" "holds v s k" using S(5) c unfolding covers_holds by blast
    then have "k = nat i \<or> k = nat j" using S by linarith
    moreover have "nat i < length v" using S(1,2,4) by linarith
    ultimately show ?thesis using k(3) ij S(1,4) by (cases "i = j") (auto simp: holds_def)
  qed
  have "0 \<le> ?r" "nat ?r < length v" using S by auto
  then have E: "BinarySearchForStartS v s = (if holds v s (nat ?r) then ?r else - 1)"
    unfolding BinarySearchForStartS_def r by (simp only: BinarySearchCheckValidSIndex_def holds_def) auto
  show ?thesis
  proof (cases "covers v s")
    case True
    then show ?thesis using found \<open>0 \<le> ?r\<close> unfolding E by (auto intro: exI [of _ "nat ?r"])
  next
    case False
    then show ?thesis unfolding E by (auto simp: covers_holds)
  qed
qed (simp add: BinarySearchForStartS_def BinarySearchForSLarger_def BinarySearchCheckValidSIndex_def)

end
