(* ===== verification/TopoGraphs.thy ===== *)
theory TopoGraphs
  imports TopoRanges
begin

text \<open>
  The lane graph of routing (\<open>modules/routing/graph/topo_node.cc\<close>, \<open>topo_graph.cc\<close>, \<open>sub_topo_graph.cc\<close>): nodes are
  lanes or the free parts of lanes with blocked ranges, edges lead forward or to a neighbouring lane. Nodes and edges lie in
  a store and name each other by address, as the pointers of the code do. The iteration order of the hash sets is
  the argument \<open>ord\<close>, that of the map of blocked ranges the order of its list; the edge sets are lists in the order of insertion.
  Doubles are the reals they stand for, \<open>rnd\<close> rounds sums, products and quotients, and decimal constants are the numbers written.
\<close>

section \<open>Nodes and edges\<close>

datatype direction = FORWARD_DIR | LEFT_DIR | RIGHT_DIR
datatype topo_edge_type = TET_FORWARD | TET_LEFT | TET_RIGHT

record pb_node =
  lane_id :: string
  pb_length :: real
  left_out :: "(real \<times> real) list"
  right_out :: "(real \<times> real) list"
  pb_cost :: real
  central_curve :: "(real \<times> real) list list"
  is_virtual :: bool
  road_id :: string

record pb_edge =
  from_lane_id :: string
  to_lane_id :: string
  pbe_cost :: real
  direction_type :: direction

record topo_edge =
  te_pb :: pb_edge
  te_from :: nat
  te_to :: nat

definition te_Type :: "topo_edge \<Rightarrow> topo_edge_type" where
  "te_Type e = (case direction_type (te_pb e) of LEFT_DIR \<Rightarrow> TET_LEFT | RIGHT_DIR \<Rightarrow> TET_RIGHT | FORWARD_DIR \<Rightarrow> TET_FORWARD)"

record topo_node =
  tn_pb :: pb_node
  anchor_point :: "real \<times> real"
  tn_start :: real
  tn_end :: real
  is_left_range_enough :: bool
  left_prefer_range_index :: int
  is_right_range_enough :: bool
  right_prefer_range_index :: int
  left_out_sorted_range :: "srange list"
  right_out_sorted_range :: "srange list"
  in_from_all :: "nat list"
  in_from_left :: "nat list"
  in_from_right :: "nat list"
  in_from_left_or_right :: "nat list"
  in_from_pre :: "nat list"
  out_to_all :: "nat list"
  out_to_left :: "nat list"
  out_to_right :: "nat list"
  out_to_left_or_right :: "nat list"
  out_to_suc :: "nat list"
  out_edge_map :: "nat \<Rightarrow> nat option"
  in_edge_map :: "nat \<Rightarrow> nat option"
  tn_origin :: nat

definition tn_Length :: "topo_node \<Rightarrow> real" where "tn_Length n = pb_length (tn_pb n)"
definition tn_Cost :: "topo_node \<Rightarrow> real" where "tn_Cost n = pb_cost (tn_pb n)"
definition tn_LaneId :: "topo_node \<Rightarrow> string" where "tn_LaneId n = lane_id (tn_pb n)"

definition ConvertOutRange :: "(real \<Rightarrow> real) \<Rightarrow> (real \<times> real) list \<Rightarrow> real \<Rightarrow> real \<Rightarrow> srange list \<times> int" where
  "ConvertOutRange rnd range_vec a b =
     (let out_range = sort_key r_start (map (\<lambda>(s, e). \<lparr>r_start = max a s, r_end = min b e\<rparr>)
            (filter (\<lambda>(s, e). \<not> (e < a \<or> s > b \<or> e < s)) range_vec));
          (max_index, max_diff) = fold (\<lambda>i (m, d). if range_Length rnd (out_range ! i) > d then (int i, range_Length rnd (out_range ! i)) else (m, d))
            [0 ..< length out_range] (- 1, 0)
      in (out_range, max_index))"

fun point_at :: "'a list list \<Rightarrow> int \<Rightarrow> 'a option" where
  "point_at [] i = None"
| "point_at (seg # segs) i = (if i < int (length seg) then Some (seg ! nat i) else point_at segs (i - int (length seg)))"

text \<open>The anchor is looked up at the middle of the node's range; it stays as it was when the curve has no points.\<close>

definition FindAnchorPoint :: "(real \<Rightarrow> real) \<Rightarrow> topo_node \<Rightarrow> topo_node" where
  "FindAnchorPoint rnd n =
     (let total_size = real (sum_list (map length (central_curve (tn_pb n))));
          rate = rnd (rnd (rnd (tn_start n + tn_end n) / 2) / tn_Length n);
          anchor_index = \<lfloor>rnd (total_size * rate)\<rfloor>
      in case point_at (central_curve (tn_pb n)) anchor_index of None \<Rightarrow> n | Some p \<Rightarrow> n\<lparr>anchor_point := p\<rparr>)"

definition prefer_enough :: "(real \<Rightarrow> real) \<Rightarrow> srange list \<Rightarrow> int \<Rightarrow> bool" where
  "prefer_enough rnd rs i \<longleftrightarrow> i \<ge> 0 \<and> IsEnoughForChangeLane (range_Length rnd (rs ! nat i))"

definition tn_Init :: "(real \<Rightarrow> real) \<Rightarrow> topo_node \<Rightarrow> topo_node" where
  "tn_Init rnd n =
     (let n1 = FindAnchorPoint rnd n;
          (ls, li) = ConvertOutRange rnd (left_out (tn_pb n1)) (tn_start n1) (tn_end n1);
          (rs, ri) = ConvertOutRange rnd (right_out (tn_pb n1)) (tn_start n1) (tn_end n1)
      in n1\<lparr>left_out_sorted_range := ls, left_prefer_range_index := li, is_left_range_enough := prefer_enough rnd ls li,
            right_out_sorted_range := rs, right_prefer_range_index := ri, is_right_range_enough := prefer_enough rnd rs ri\<rparr>)"

definition blank_node :: "pb_node \<Rightarrow> nat \<Rightarrow> topo_node" where
  "blank_node pb this = \<lparr>tn_pb = pb, anchor_point = (0, 0), tn_start = 0, tn_end = pb_length pb, is_left_range_enough = False,
     left_prefer_range_index = 0, is_right_range_enough = False, right_prefer_range_index = 0, left_out_sorted_range = [],
     right_out_sorted_range = [], in_from_all = [], in_from_left = [], in_from_right = [], in_from_left_or_right = [],
     in_from_pre = [], out_to_all = [], out_to_left = [], out_to_right = [], out_to_left_or_right = [], out_to_suc = [],
     out_edge_map = (\<lambda>_. None), in_edge_map = (\<lambda>_. None), tn_origin = this\<rparr>"

definition kLenghtEpsilon :: real where "kLenghtEpsilon = 1 / 1000000"

text \<open>The constructors, at the address \<open>this\<close>; None is the aborting check of the length.\<close>

definition new_topo_node :: "(real \<Rightarrow> real) \<Rightarrow> pb_node \<Rightarrow> nat \<Rightarrow> topo_node option" where
  "new_topo_node rnd pb this = (if pb_length pb > kLenghtEpsilon then Some (tn_Init rnd (blank_node pb this)) else None)"

definition new_sub_node :: "(real \<Rightarrow> real) \<Rightarrow> topo_node \<Rightarrow> nat \<Rightarrow> srange \<Rightarrow> nat \<Rightarrow> topo_node option" where
  "new_sub_node rnd topo_node origin r this =
     (case new_topo_node rnd (tn_pb topo_node) this of
        None \<Rightarrow> None
      | Some n \<Rightarrow> Some (tn_Init rnd (n\<lparr>tn_origin := origin, tn_start := r_start r, tn_end := r_end r\<rparr>)))"

text \<open>Edges are added to a node unless it has one from or to the same node.\<close>

definition node_AddInEdge :: "nat \<Rightarrow> topo_edge \<Rightarrow> nat \<Rightarrow> topo_node \<Rightarrow> topo_node" where
  "node_AddInEdge e edge this n =
     (if te_to edge \<noteq> this then n
      else if in_edge_map n (te_from edge) \<noteq> None then n
      else
        let n1 = (case te_Type edge of
                    TET_LEFT \<Rightarrow> n\<lparr>in_from_right := in_from_right n @ [e], in_from_left_or_right := in_from_left_or_right n @ [e]\<rparr>
                  | TET_RIGHT \<Rightarrow> n\<lparr>in_from_left := in_from_left n @ [e], in_from_left_or_right := in_from_left_or_right n @ [e]\<rparr>
                  | TET_FORWARD \<Rightarrow> n\<lparr>in_from_pre := in_from_pre n @ [e]\<rparr>)
        in n1\<lparr>in_from_all := in_from_all n1 @ [e], in_edge_map := (in_edge_map n1)(te_from edge := Some e)\<rparr>)"

definition node_AddOutEdge :: "nat \<Rightarrow> topo_edge \<Rightarrow> nat \<Rightarrow> topo_node \<Rightarrow> topo_node" where
  "node_AddOutEdge e edge this n =
     (if te_from edge \<noteq> this then n
      else if out_edge_map n (te_to edge) \<noteq> None then n
      else
        let n1 = (case te_Type edge of
                    TET_LEFT \<Rightarrow> n\<lparr>out_to_left := out_to_left n @ [e], out_to_left_or_right := out_to_left_or_right n @ [e]\<rparr>
                  | TET_RIGHT \<Rightarrow> n\<lparr>out_to_right := out_to_right n @ [e], out_to_left_or_right := out_to_left_or_right n @ [e]\<rparr>
                  | TET_FORWARD \<Rightarrow> n\<lparr>out_to_suc := out_to_suc n @ [e]\<rparr>)
        in n1\<lparr>out_to_all := out_to_all n1 @ [e], out_edge_map := (out_edge_map n1)(te_to edge := Some e)\<rparr>)"

section \<open>The graph of a map\<close>

record topo =
  tp_nodes :: "nat \<Rightarrow> topo_node"
  tp_edges :: "nat \<Rightarrow> topo_edge"
  tp_next_node :: nat
  tp_next_edge :: nat

definition AddInEdge :: "nat \<Rightarrow> nat \<Rightarrow> topo \<Rightarrow> topo" where
  "AddInEdge e n g = g\<lparr>tp_nodes := (tp_nodes g)(n := node_AddInEdge e (tp_edges g e) n (tp_nodes g n))\<rparr>"

definition AddOutEdge :: "nat \<Rightarrow> nat \<Rightarrow> topo \<Rightarrow> topo" where
  "AddOutEdge e n g = g\<lparr>tp_nodes := (tp_nodes g)(n := node_AddOutEdge e (tp_edges g e) n (tp_nodes g n))\<rparr>"

definition new_edge :: "topo_edge \<Rightarrow> topo \<Rightarrow> nat \<times> topo" where
  "new_edge edge g = (tp_next_edge g, g\<lparr>tp_edges := (tp_edges g)(tp_next_edge g := edge), tp_next_edge := tp_next_edge g + 1\<rparr>)"

definition GetInEdgeFrom :: "topo \<Rightarrow> nat \<Rightarrow> nat \<Rightarrow> nat option" where
  "GetInEdgeFrom g n from = in_edge_map (tp_nodes g n) from"

definition GetOutEdgeTo :: "topo \<Rightarrow> nat \<Rightarrow> nat \<Rightarrow> nat option" where
  "GetOutEdgeTo g n to = out_edge_map (tp_nodes g n) to"

definition IsSubNode :: "topo \<Rightarrow> nat \<Rightarrow> bool" where
  "IsSubNode g n \<longleftrightarrow> tn_origin (tp_nodes g n) \<noteq> n"

record topo_graph =
  tg_topo :: topo
  map_version :: string
  map_district :: string
  topo_nodes :: "nat list"
  topo_edges :: "nat list"
  node_index_map :: "string \<Rightarrow> nat option"
  road_node_map :: "string \<Rightarrow> nat list option"

record pb_graph =
  hdmap_version :: string
  hdmap_district :: string
  pb_nodes :: "pb_node list"
  pb_edges :: "pb_edge list"

definition dummy_pb_node :: pb_node where
  "dummy_pb_node = \<lparr>lane_id = [], pb_length = 0, left_out = [], right_out = [], pb_cost = 0, central_curve = [],
     is_virtual = True, road_id = []\<rparr>"

definition empty_topo :: topo where
  "empty_topo = \<lparr>tp_nodes = blank_node dummy_pb_node,
     tp_edges = (\<lambda>_. \<lparr>te_pb = \<lparr>from_lane_id = [], to_lane_id = [], pbe_cost = 0, direction_type = FORWARD_DIR\<rparr>, te_from = 0, te_to = 0\<rparr>),
     tp_next_node = 0, tp_next_edge = 0\<rparr>"

definition new_topo_graph :: topo_graph where
  "new_topo_graph = \<lparr>tg_topo = empty_topo, map_version = [], map_district = [], topo_nodes = [], topo_edges = [], node_index_map = (\<lambda>_. None), road_node_map = (\<lambda>_. None)\<rparr>"

text \<open>\<open>Clear\<close> keeps \<open>road_node_map_\<close>, and the store the addresses.\<close>

definition TopoGraph_Clear :: "topo_graph \<Rightarrow> topo_graph" where
  "TopoGraph_Clear t = t\<lparr>topo_nodes := [], topo_edges := [], node_index_map := (\<lambda>_. None)\<rparr>"

definition load_node :: "(real \<Rightarrow> real) \<Rightarrow> pb_node \<Rightarrow> topo_graph \<Rightarrow> topo_graph option" where
  "load_node rnd node t =
     (let g = tg_topo t; this = tp_next_node g
      in case new_topo_node rnd node this of
           None \<Rightarrow> None
         | Some n \<Rightarrow>
             Some (t\<lparr>node_index_map := (node_index_map t)(lane_id node \<mapsto> length (topo_nodes t)),
                     road_node_map := (road_node_map t)(road_id node \<mapsto> (case road_node_map t (road_id node) of Some ns \<Rightarrow> ns | None \<Rightarrow> []) @ [this]),
                     topo_nodes := topo_nodes t @ [this],
                     tg_topo := g\<lparr>tp_nodes := (tp_nodes g)(this := n), tp_next_node := this + 1\<rparr>\<rparr>))"

text \<open>None is an abort of a constructor.\<close>

fun load_nodes :: "(real \<Rightarrow> real) \<Rightarrow> pb_node list \<Rightarrow> topo_graph \<Rightarrow> topo_graph option" where
  "load_nodes rnd [] t = Some t"
| "load_nodes rnd (n # ns) t = (case load_node rnd n t of None \<Rightarrow> None | Some t \<Rightarrow> load_nodes rnd ns t)"

definition LoadNodes :: "(real \<Rightarrow> real) \<Rightarrow> pb_graph \<Rightarrow> topo_graph \<Rightarrow> (bool \<times> topo_graph) option" where
  "LoadNodes rnd graph t =
     (if pb_nodes graph = [] then Some (False, t)
      else case load_nodes rnd (pb_nodes graph) t of None \<Rightarrow> None | Some t \<Rightarrow> Some (True, t))"

fun load_edges :: "pb_edge list \<Rightarrow> topo_graph \<Rightarrow> bool \<times> topo_graph" where
  "load_edges [] t = (True, t)"
| "load_edges (edge # es) t =
     (case (node_index_map t (from_lane_id edge), node_index_map t (to_lane_id edge)) of
        (Some i, Some j) \<Rightarrow>
          let from = topo_nodes t ! i; to = topo_nodes t ! j;
              (e, g) = new_edge \<lparr>te_pb = edge, te_from = from, te_to = to\<rparr> (tg_topo t);
              g = AddInEdge e to (AddOutEdge e from g)
          in load_edges es (t\<lparr>tg_topo := g, topo_edges := topo_edges t @ [e]\<rparr>)
      | _ \<Rightarrow> (False, t))"

definition LoadGraph :: "(real \<Rightarrow> real) \<Rightarrow> pb_graph \<Rightarrow> topo_graph \<Rightarrow> (bool \<times> topo_graph) option" where
  "LoadGraph rnd graph t =
     (case LoadNodes rnd graph ((TopoGraph_Clear t)\<lparr>map_version := hdmap_version graph, map_district := hdmap_district graph\<rparr>) of
        None \<Rightarrow> None
      | Some (False, t) \<Rightarrow> Some (False, t)
      | Some (True, t) \<Rightarrow> Some (load_edges (pb_edges graph) t))"

definition GetNode :: "topo_graph \<Rightarrow> string \<Rightarrow> nat option" where
  "GetNode t i = (case node_index_map t i of None \<Rightarrow> None | Some k \<Rightarrow> Some (topo_nodes t ! k))"

definition GetNodesByRoadId :: "topo_graph \<Rightarrow> string \<Rightarrow> nat list" where
  "GetNodesByRoadId t r = (case road_node_map t r of None \<Rightarrow> [] | Some ns \<Rightarrow> ns)"

section \<open>Overlaps\<close>

definition MIN_INTERNAL_FOR_NODE :: real where "MIN_INTERNAL_FOR_NODE = 1 / 100"

definition IsOutRangeEnough :: "(real \<Rightarrow> real) \<Rightarrow> srange list \<Rightarrow> real \<Rightarrow> real \<Rightarrow> bool" where
  "IsOutRangeEnough rnd range_vec a b =
     (if \<not> IsEnoughForChangeLane (rnd (b - a)) then False
      else
        let i = BinarySearchForSLarger range_vec a; j = BinarySearchForSSmaller range_vec b
        in if i < 0 \<or> j < 0 then False
           else if j - i > 1 then True
           else
             let pre_s_s = max a (r_start (range_vec ! nat i)); suc_e_s = min b (r_end (range_vec ! nat j))
             in if j - i = 1 then
                  let dlt = rnd (r_end (range_vec ! nat i) - pre_s_s); dlt = rnd (dlt + rnd (suc_e_s - r_start (range_vec ! nat j)))
                  in IsEnoughForChangeLane dlt
                else if j - i = 0 then IsEnoughForChangeLane (rnd (suc_e_s - pre_s_s))
                else False)"

definition IsInFromPreEdgeValid :: "(real \<Rightarrow> real) \<Rightarrow> topo \<Rightarrow> nat \<Rightarrow> bool" where
  "IsInFromPreEdgeValid rnd g n \<longleftrightarrow> \<bar>rnd (tn_start (tp_nodes g n) - tn_start (tp_nodes g (tn_origin (tp_nodes g n))))\<bar> < MIN_INTERNAL_FOR_NODE"

definition IsOutToSucEdgeValid :: "(real \<Rightarrow> real) \<Rightarrow> topo \<Rightarrow> nat \<Rightarrow> bool" where
  "IsOutToSucEdgeValid rnd g n \<longleftrightarrow> \<bar>rnd (tn_end (tp_nodes g n) - tn_end (tp_nodes g (tn_origin (tp_nodes g n))))\<bar> < MIN_INTERNAL_FOR_NODE"

definition IsOverlapEnough :: "(real \<Rightarrow> real) \<Rightarrow> topo \<Rightarrow> nat \<Rightarrow> nat \<Rightarrow> nat \<Rightarrow> bool" where
  "IsOverlapEnough rnd g n sub_node e =
     (let m = tp_nodes g n; s = tp_nodes g sub_node
      in case te_Type (tp_edges g e) of
           TET_LEFT \<Rightarrow> is_left_range_enough m \<and> IsOutRangeEnough rnd (left_out_sorted_range m) (tn_start s) (tn_end s)
         | TET_RIGHT \<Rightarrow> is_right_range_enough m \<and> IsOutRangeEnough rnd (right_out_sorted_range m) (tn_start s) (tn_end s)
         | TET_FORWARD \<Rightarrow> IsOutToSucEdgeValid rnd g n \<and> IsInFromPreEdgeValid rnd g sub_node)"

section \<open>The graph of the free parts\<close>

record sub_graph =
  sg_topo :: topo
  sub_node_range_sorted_map :: "nat \<Rightarrow> (nat \<times> srange) list option"
  sub_node_map :: "nat \<Rightarrow> nat list option"

definition MIN_DIFF_LENGTH :: real where "MIN_DIFF_LENGTH = 1 / 10000000"
definition MIN_POTENTIAL_LANE_CHANGE_LEN :: real where "MIN_POTENTIAL_LANE_CHANGE_LEN = 3"

definition IsCloseEnough :: "(real \<Rightarrow> real) \<Rightarrow> real \<Rightarrow> real \<Rightarrow> bool" where
  "IsCloseEnough rnd s1 s2 \<longleftrightarrow> \<bar>rnd (s1 - s2)\<bar> < MIN_DIFF_LENGTH"

definition IsReachable :: "(real \<Rightarrow> real) \<Rightarrow> topo \<Rightarrow> nat \<Rightarrow> nat \<Rightarrow> bool" where
  "IsReachable rnd g from to =
     (let f = tp_nodes g from; t = tp_nodes g to;
          s = max (rnd (rnd (tn_start t / tn_Length t) * tn_Length f)) (tn_start f);
          e = min (rnd (rnd (tn_end t / tn_Length t) * tn_Length f)) (tn_end f)
      in rnd (e - s) > MIN_POTENTIAL_LANE_CHANGE_LEN)"

text \<open>A new edge like \<open>pb\<close>, added to one end or to both.\<close>

definition add_edge_in :: "pb_edge \<Rightarrow> nat \<Rightarrow> nat \<Rightarrow> topo \<Rightarrow> topo" where
  "add_edge_in pb from to g = (let (e, g) = new_edge \<lparr>te_pb = pb, te_from = from, te_to = to\<rparr> g in AddInEdge e to g)"

definition add_edge_out :: "pb_edge \<Rightarrow> nat \<Rightarrow> nat \<Rightarrow> topo \<Rightarrow> topo" where
  "add_edge_out pb from to g = (let (e, g) = new_edge \<lparr>te_pb = pb, te_from = from, te_to = to\<rparr> g in AddOutEdge e from g)"

definition add_edge_in_out :: "pb_edge \<Rightarrow> nat \<Rightarrow> nat \<Rightarrow> topo \<Rightarrow> topo" where
  "add_edge_in_out pb from to g =
     (let (e, g) = new_edge \<lparr>te_pb = pb, te_from = from, te_to = to\<rparr> g in AddOutEdge e from (AddInEdge e to g))"

definition add_edge_out_in :: "pb_edge \<Rightarrow> nat \<Rightarrow> nat \<Rightarrow> topo \<Rightarrow> topo" where
  "add_edge_out_in pb from to g =
     (let (e, g) = new_edge \<lparr>te_pb = pb, te_from = from, te_to = to\<rparr> g in AddInEdge e to (AddOutEdge e from g))"

text \<open>\<open>InitSubNodeByValidRange\<close>: free ranges of a centimetre and more become nodes, those that touch are linked.\<close>

fun make_sub_nodes :: "(real \<Rightarrow> real) \<Rightarrow> nat \<Rightarrow> srange list \<Rightarrow> topo \<Rightarrow> ((nat \<times> srange) list \<times> topo) option" where
  "make_sub_nodes rnd n [] g = Some ([], g)"
| "make_sub_nodes rnd n (r # rs) g =
     (if range_Length rnd r < MIN_INTERNAL_FOR_NODE then make_sub_nodes rnd n rs g
      else
        let this = tp_next_node g
        in case new_sub_node rnd (tp_nodes g n) n r this of
             None \<Rightarrow> None
           | Some m \<Rightarrow>
               (case make_sub_nodes rnd n rs (g\<lparr>tp_nodes := (tp_nodes g)(this := m), tp_next_node := this + 1\<rparr>) of
                  None \<Rightarrow> None
                | Some (subs, g) \<Rightarrow> Some ((this, r) # subs, g)))"

fun link_sub_nodes :: "(real \<Rightarrow> real) \<Rightarrow> string \<Rightarrow> nat list \<Rightarrow> topo \<Rightarrow> topo" where
  "link_sub_nodes rnd lane (pre # next # ns) g =
     link_sub_nodes rnd lane (next # ns)
       (if IsCloseEnough rnd (tn_end (tp_nodes g pre)) (tn_start (tp_nodes g next))
        then add_edge_out_in \<lparr>from_lane_id = lane, to_lane_id = lane, pbe_cost = 0, direction_type = FORWARD_DIR\<rparr> pre next g
        else g)"
| "link_sub_nodes rnd lane _ g = g"

definition InitSubNodeByValidRange :: "(real \<Rightarrow> real) \<Rightarrow> nat \<Rightarrow> srange list \<Rightarrow> sub_graph \<Rightarrow> sub_graph option" where
  "InitSubNodeByValidRange rnd n valid_range s =
     (case make_sub_nodes rnd n valid_range (sg_topo s) of
        None \<Rightarrow> None
      | Some (subs, g) \<Rightarrow>
          Some \<lparr>sg_topo = link_sub_nodes rnd (tn_LaneId (tp_nodes g n)) (map fst subs) g,
                sub_node_range_sorted_map = (sub_node_range_sorted_map s)(n \<mapsto> subs),
                sub_node_map = (sub_node_map s)(n \<mapsto> map fst subs)\<rparr>)"

definition GetSubNodes :: "sub_graph \<Rightarrow> nat \<Rightarrow> nat list option" where
  "GetSubNodes s n = sub_node_map s n"

text \<open>The edges of a lane for one of its parts, with parts on the other side where there are such.\<close>

definition sub_in_edge :: "(real \<Rightarrow> real) \<Rightarrow> (nat list \<Rightarrow> nat list) \<Rightarrow> (nat \<Rightarrow> nat list option) \<Rightarrow> nat \<Rightarrow> nat \<Rightarrow> topo \<Rightarrow> topo" where
  "sub_in_edge rnd ord subs sub_node e g =
     (let pb = te_pb (tp_edges g e); from = te_from (tp_edges g e)
      in case subs from of
           Some others \<Rightarrow>
             fold (\<lambda>f g. if \<not> IsOverlapEnough rnd g f sub_node e then g
                         else add_edge_in_out pb f sub_node g) (ord others) g
         | None \<Rightarrow> if IsOverlapEnough rnd g from sub_node e then add_edge_in pb from sub_node g else g)"

definition sub_out_edge :: "(real \<Rightarrow> real) \<Rightarrow> (nat list \<Rightarrow> nat list) \<Rightarrow> (nat \<Rightarrow> nat list option) \<Rightarrow> nat \<Rightarrow> nat \<Rightarrow> topo \<Rightarrow> topo" where
  "sub_out_edge rnd ord subs sub_node e g =
     (let pb = te_pb (tp_edges g e); to = te_to (tp_edges g e)
      in case subs to of
           Some others \<Rightarrow>
             fold (\<lambda>t g. if \<not> IsOverlapEnough rnd g sub_node t e then g
                         else add_edge_out_in pb sub_node t g) (ord others) g
         | None \<Rightarrow> if IsOverlapEnough rnd g sub_node to e then add_edge_out pb sub_node to g else g)"

definition InitSubEdge :: "(real \<Rightarrow> real) \<Rightarrow> (nat list \<Rightarrow> nat list) \<Rightarrow> nat \<Rightarrow> sub_graph \<Rightarrow> sub_graph" where
  "InitSubEdge rnd ord n s =
     (case GetSubNodes s n of
        None \<Rightarrow> s
      | Some sub_nodes \<Rightarrow>
          s\<lparr>sg_topo := fold (\<lambda>m g.
              let g = fold (sub_in_edge rnd ord (sub_node_map s) m) (ord (in_from_all (tp_nodes g n))) g
              in fold (sub_out_edge rnd ord (sub_node_map s) m) (ord (out_to_all (tp_nodes g n))) g) (ord sub_nodes) (sg_topo s)\<rparr>)"

definition potential_in_edge :: "(real \<Rightarrow> real) \<Rightarrow> (nat list \<Rightarrow> nat list) \<Rightarrow> (nat \<Rightarrow> nat list option) \<Rightarrow> nat \<Rightarrow> nat \<Rightarrow> topo \<Rightarrow> topo" where
  "potential_in_edge rnd ord subs sub_node e g =
     (let pb = te_pb (tp_edges g e); from = te_from (tp_edges g e)
      in case subs from of
           Some others \<Rightarrow>
             fold (\<lambda>f g. if GetInEdgeFrom g sub_node f \<noteq> None then g
                         else if \<not> IsReachable rnd g f sub_node then g
                         else add_edge_in_out pb f sub_node g) (ord others) g
         | None \<Rightarrow> if GetInEdgeFrom g sub_node from \<noteq> None then g else add_edge_in pb from sub_node g)"

definition potential_out_edge :: "(real \<Rightarrow> real) \<Rightarrow> (nat list \<Rightarrow> nat list) \<Rightarrow> (nat \<Rightarrow> nat list option) \<Rightarrow> nat \<Rightarrow> nat \<Rightarrow> topo \<Rightarrow> topo" where
  "potential_out_edge rnd ord subs sub_node e g =
     (let pb = te_pb (tp_edges g e); to = te_to (tp_edges g e)
      in case subs to of
           Some others \<Rightarrow>
             fold (\<lambda>t g. if GetOutEdgeTo g sub_node t \<noteq> None then g
                         else if \<not> IsReachable rnd g sub_node t then g
                         else add_edge_out_in pb sub_node t g) (ord others) g
         | None \<Rightarrow> if GetOutEdgeTo g sub_node to \<noteq> None then g else add_edge_out pb sub_node to g)"

definition AddPotentialEdge :: "(real \<Rightarrow> real) \<Rightarrow> (nat list \<Rightarrow> nat list) \<Rightarrow> nat \<Rightarrow> sub_graph \<Rightarrow> sub_graph" where
  "AddPotentialEdge rnd ord n s =
     (case GetSubNodes s n of
        None \<Rightarrow> s
      | Some sub_nodes \<Rightarrow>
          s\<lparr>sg_topo := fold (\<lambda>m g.
              let g = fold (potential_in_edge rnd ord (sub_node_map s) m) (ord (in_from_left_or_right (tp_nodes g n))) g
              in fold (potential_out_edge rnd ord (sub_node_map s) m) (ord (out_to_left_or_right (tp_nodes g n))) g) (ord sub_nodes) (sg_topo s)\<rparr>)"

fun init_all_sub_nodes :: "(real \<Rightarrow> real) \<Rightarrow> (nat \<times> srange list) list \<Rightarrow> sub_graph \<Rightarrow> sub_graph option" where
  "init_all_sub_nodes rnd [] s = Some s"
| "init_all_sub_nodes rnd ((n, rs) # bs) s =
     (let m = tp_nodes (sg_topo s) n
      in case InitSubNodeByValidRange rnd n (GetSortedValidRange (tn_start m) (tn_end m) rs) s of
           None \<Rightarrow> None
         | Some s \<Rightarrow> init_all_sub_nodes rnd bs s)"

definition new_sub_graph :: "(real \<Rightarrow> real) \<Rightarrow> (nat list \<Rightarrow> nat list) \<Rightarrow> (nat \<times> srange list) list \<Rightarrow> topo \<Rightarrow> sub_graph option" where
  "new_sub_graph rnd ord black_map g =
     (case init_all_sub_nodes rnd black_map \<lparr>sg_topo = g, sub_node_range_sorted_map = (\<lambda>_. None), sub_node_map = (\<lambda>_. None)\<rparr> of
        None \<Rightarrow> None
      | Some s \<Rightarrow> Some (fold (AddPotentialEdge rnd ord) (map fst black_map) (fold (InitSubEdge rnd ord) (map fst black_map) s)))"

definition GetSubInEdgesIntoSubGraph :: "(nat list \<Rightarrow> nat list) \<Rightarrow> sub_graph \<Rightarrow> nat \<Rightarrow> nat list" where
  "GetSubInEdgesIntoSubGraph ord s e =
     (let g = sg_topo s; from = te_from (tp_edges g e); to = te_to (tp_edges g e)
      in if IsSubNode g from \<or> IsSubNode g to then [e]
         else case GetSubNodes s to of
                None \<Rightarrow> [e]
              | Some sub_nodes \<Rightarrow>
                  concat (map (\<lambda>m. filter (\<lambda>e'. te_from (tp_edges g e') = from) (ord (in_from_all (tp_nodes g m)))) (ord sub_nodes)))"

definition GetSubOutEdgesIntoSubGraph :: "(nat list \<Rightarrow> nat list) \<Rightarrow> sub_graph \<Rightarrow> nat \<Rightarrow> nat list" where
  "GetSubOutEdgesIntoSubGraph ord s e =
     (let g = sg_topo s; from = te_from (tp_edges g e); to = te_to (tp_edges g e)
      in if IsSubNode g from \<or> IsSubNode g to then [e]
         else case GetSubNodes s from of
                None \<Rightarrow> [e]
              | Some sub_nodes \<Rightarrow>
                  concat (map (\<lambda>m. filter (\<lambda>e'. te_to (tp_edges g e') = to) (ord (out_to_all (tp_nodes g m)))) (ord sub_nodes)))"

text \<open>The part of a lane that holds a position; the lane itself when nothing of it is blocked.\<close>

definition GetSubNodeWithS :: "sub_graph \<Rightarrow> nat \<Rightarrow> real \<Rightarrow> nat option" where
  "GetSubNodeWithS s n pos =
     (case sub_node_range_sorted_map s n of
        None \<Rightarrow> Some n
      | Some v \<Rightarrow> let i = BinarySearchForStartS (map snd v) pos in if i < 0 then None else Some (fst (v ! nat i)))"

section \<open>What stays\<close>

text \<open>The edge sets of a node are those of its maps, and the edges know their ends.\<close>

definition side_wf :: "(nat \<Rightarrow> topo_edge) \<Rightarrow> nat \<Rightarrow> (topo_edge \<Rightarrow> nat) \<Rightarrow> (topo_edge \<Rightarrow> nat) \<Rightarrow> nat \<Rightarrow>
    nat set \<Rightarrow> nat set \<Rightarrow> nat set \<Rightarrow> (nat \<Rightarrow> nat option) \<Rightarrow> bool" where
  "side_wf E bnd near far i all ahead aside m \<longleftrightarrow>
     (\<forall>e\<in>all. e < bnd \<and> near (E e) = i) \<and> (\<forall>v e. m v = Some e \<longleftrightarrow> e \<in> all \<and> far (E e) = v) \<and>
     ahead = {e \<in> all. te_Type (E e) = TET_FORWARD} \<and> aside = {e \<in> all. te_Type (E e) \<noteq> TET_FORWARD}"

definition node_wf :: "(nat \<Rightarrow> topo_edge) \<Rightarrow> nat \<Rightarrow> nat \<Rightarrow> topo_node \<Rightarrow> bool" where
  "node_wf E bnd i n \<longleftrightarrow>
     side_wf E bnd te_from te_to i (set (out_to_all n)) (set (out_to_suc n)) (set (out_to_left_or_right n)) (out_edge_map n) \<and>
     side_wf E bnd te_to te_from i (set (in_from_all n)) (set (in_from_pre n)) (set (in_from_left_or_right n)) (in_edge_map n)"

definition topo_wf :: "topo \<Rightarrow> bool" where
  "topo_wf g \<longleftrightarrow>
     (\<forall>i. node_wf (tp_edges g) (tp_next_edge g) i (tp_nodes g i)) \<and>
     (\<forall>e < tp_next_edge g. te_from (tp_edges g e) < tp_next_node g \<and> te_to (tp_edges g e) < tp_next_node g)"

definition same_nodes :: "topo \<Rightarrow> topo \<Rightarrow> bool" where
  "same_nodes g g' \<longleftrightarrow> tp_next_node g' = tp_next_node g \<and> tp_next_edge g \<le> tp_next_edge g' \<and>
     (\<forall>e < tp_next_edge g. tp_edges g' e = tp_edges g e) \<and>
     (\<forall>i. tn_pb (tp_nodes g' i) = tn_pb (tp_nodes g i) \<and> tn_start (tp_nodes g' i) = tn_start (tp_nodes g i) \<and>
        tn_end (tp_nodes g' i) = tn_end (tp_nodes g i) \<and> tn_origin (tp_nodes g' i) = tn_origin (tp_nodes g i))"

lemma side_wf_add:
  assumes "side_wf E bnd near far i all ahead aside m" "e < bnd" "near (E e) = i" "m (far (E e)) = None"
  shows "side_wf E bnd near far i (insert e all) (if te_Type (E e) = TET_FORWARD then insert e ahead else ahead)
    (if te_Type (E e) = TET_FORWARD then aside else insert e aside) (m(far (E e) := Some e))"
proof -
  have "e' = e" if "e' \<in> all" "far (E e') = far (E e)" for e' using assms that unfolding side_wf_def by (metis option.distinct(1))
  then show ?thesis using assms unfolding side_wf_def by (auto split: if_splits)
qed

lemma side_wfD:
  assumes "side_wf E bnd near far i all ahead aside m"
  shows "e \<in> all \<Longrightarrow> e < bnd" "e \<in> all \<Longrightarrow> near (E e) = i" "m v = Some e \<longleftrightarrow> e \<in> all \<and> far (E e) = v"
    "ahead = {e \<in> all. te_Type (E e) = TET_FORWARD}" "aside = {e \<in> all. te_Type (E e) \<noteq> TET_FORWARD}"
  using assms by (simp_all add: side_wf_def)

lemma side_wf_new: "side_wf E bnd near far i all ahead aside m \<Longrightarrow> side_wf (E(bnd := edge)) (Suc bnd) near far i all ahead aside m"
  unfolding side_wf_def by (intro conjI; force)

lemma node_wf_AddIn:
  assumes n: "node_wf E bnd i n" and e: "e < bnd"
  shows "node_wf E bnd i (node_AddInEdge e (E e) i n)"
proof (cases "te_to (E e) = i \<and> in_edge_map n (te_from (E e)) = None")
  case True
  have "side_wf E bnd te_to te_from i (set (in_from_all n)) (set (in_from_pre n)) (set (in_from_left_or_right n)) (in_edge_map n)"
    using n by (simp add: node_wf_def)
  from side_wf_add [OF this e] True n show ?thesis
    by (cases "te_Type (E e)") (simp_all add: node_wf_def node_AddInEdge_def Let_def)
qed (use n in \<open>auto simp: node_AddInEdge_def\<close>)

lemma node_wf_AddOut:
  assumes n: "node_wf E bnd i n" and e: "e < bnd"
  shows "node_wf E bnd i (node_AddOutEdge e (E e) i n)"
proof (cases "te_from (E e) = i \<and> out_edge_map n (te_to (E e)) = None")
  case True
  have "side_wf E bnd te_from te_to i (set (out_to_all n)) (set (out_to_suc n)) (set (out_to_left_or_right n)) (out_edge_map n)"
    using n by (simp add: node_wf_def)
  from side_wf_add [OF this e] True n show ?thesis
    by (cases "te_Type (E e)") (simp_all add: node_wf_def node_AddOutEdge_def Let_def)
qed (use n in \<open>auto simp: node_AddOutEdge_def\<close>)

lemma node_wf_new: "node_wf E bnd i n \<Longrightarrow> node_wf (E(bnd := edge)) (Suc bnd) i n"
  unfolding node_wf_def using side_wf_new by blast

lemma add_edge_sel [simp]:
  "tn_pb (node_AddInEdge e edge i n) = tn_pb n" "tn_start (node_AddInEdge e edge i n) = tn_start n"
  "tn_end (node_AddInEdge e edge i n) = tn_end n" "tn_origin (node_AddInEdge e edge i n) = tn_origin n"
  "tn_pb (node_AddOutEdge e edge i n) = tn_pb n" "tn_start (node_AddOutEdge e edge i n) = tn_start n"
  "tn_end (node_AddOutEdge e edge i n) = tn_end n" "tn_origin (node_AddOutEdge e edge i n) = tn_origin n"
  by (simp_all add: node_AddInEdge_def node_AddOutEdge_def Let_def split: topo_edge_type.split)

definition stays :: "topo \<Rightarrow> topo \<Rightarrow> bool" where
  "stays g0 g \<longleftrightarrow> topo_wf g \<and> same_nodes g0 g"

lemma stays_refl: "topo_wf g \<Longrightarrow> stays g g"
  by (simp add: stays_def same_nodes_def)

lemma stays_trans: "stays a b \<Longrightarrow> stays b c \<Longrightarrow> stays a c"
  by (auto simp: stays_def same_nodes_def)

lemma stays_fold: "stays g0 g \<Longrightarrow> (\<And>x h. x \<in> set xs \<Longrightarrow> stays g0 h \<Longrightarrow> stays g0 (f x h)) \<Longrightarrow> stays g0 (fold f xs g)"
  by (induction xs arbitrary: g) auto

lemma stays_AddIn: "stays g0 g \<Longrightarrow> e < tp_next_edge g \<Longrightarrow> stays g0 (AddInEdge e i g)"
  using node_wf_AddIn unfolding stays_def topo_wf_def same_nodes_def AddInEdge_def by auto

lemma stays_AddOut: "stays g0 g \<Longrightarrow> e < tp_next_edge g \<Longrightarrow> stays g0 (AddOutEdge e i g)"
  using node_wf_AddOut unfolding stays_def topo_wf_def same_nodes_def AddOutEdge_def by auto

lemma stays_new:
  "stays g0 g \<Longrightarrow> te_from edge < tp_next_node g0 \<Longrightarrow> te_to edge < tp_next_node g0 \<Longrightarrow> stays g0 (snd (new_edge edge g))"
  by (auto simp: stays_def topo_wf_def same_nodes_def new_edge_def node_wf_new less_Suc_eq)

lemma new_edge_lt [simp]: "fst (new_edge edge g) < tp_next_edge (snd (new_edge edge g))"
  "tp_next_edge (AddInEdge e i g) = tp_next_edge g" "tp_next_edge (AddOutEdge e i g) = tp_next_edge g"
  by (simp_all add: new_edge_def AddInEdge_def AddOutEdge_def)

lemma stays_add:
  assumes "stays g0 g" "from < tp_next_node g0" "to < tp_next_node g0"
  shows "stays g0 (add_edge_in pb from to g)" "stays g0 (add_edge_out pb from to g)"
    "stays g0 (add_edge_in_out pb from to g)" "stays g0 (add_edge_out_in pb from to g)"
  using stays_new [OF assms(1), of "\<lparr>te_pb = pb, te_from = from, te_to = to\<rparr>"] assms(2,3)
  by (simp_all add: add_edge_in_def add_edge_out_def add_edge_in_out_def add_edge_out_in_def case_prod_unfold Let_def stays_AddIn stays_AddOut)

lemma stays_ends: "stays g0 g \<Longrightarrow> e < tp_next_edge g \<Longrightarrow> te_from (tp_edges g e) < tp_next_node g0 \<and> te_to (tp_edges g e) < tp_next_node g0"
  unfolding stays_def topo_wf_def same_nodes_def by metis

lemma topo_wf_sides:
  assumes "topo_wf g"
  shows "e \<in> set (out_to_all (tp_nodes g i)) \<Longrightarrow> e < tp_next_edge g" "e \<in> set (in_from_all (tp_nodes g i)) \<Longrightarrow> e < tp_next_edge g"
    "e \<in> set (out_to_all (tp_nodes g i)) \<Longrightarrow> te_from (tp_edges g e) = i" "e \<in> set (in_from_all (tp_nodes g i)) \<Longrightarrow> te_to (tp_edges g e) = i"
    "GetOutEdgeTo g i v = Some e \<longleftrightarrow> e \<in> set (out_to_all (tp_nodes g i)) \<and> te_to (tp_edges g e) = v"
    "GetInEdgeFrom g i v = Some e \<longleftrightarrow> e \<in> set (in_from_all (tp_nodes g i)) \<and> te_from (tp_edges g e) = v"
    "set (out_to_suc (tp_nodes g i)) = {e \<in> set (out_to_all (tp_nodes g i)). te_Type (tp_edges g e) = TET_FORWARD}"
    "set (out_to_left_or_right (tp_nodes g i)) = {e \<in> set (out_to_all (tp_nodes g i)). te_Type (tp_edges g e) \<noteq> TET_FORWARD}"
    "set (in_from_left_or_right (tp_nodes g i)) = {e \<in> set (in_from_all (tp_nodes g i)). te_Type (tp_edges g e) \<noteq> TET_FORWARD}"
proof -
  have O: "side_wf (tp_edges g) (tp_next_edge g) te_from te_to i (set (out_to_all (tp_nodes g i))) (set (out_to_suc (tp_nodes g i)))
      (set (out_to_left_or_right (tp_nodes g i))) (out_edge_map (tp_nodes g i))"
    and I: "side_wf (tp_edges g) (tp_next_edge g) te_to te_from i (set (in_from_all (tp_nodes g i))) (set (in_from_pre (tp_nodes g i)))
      (set (in_from_left_or_right (tp_nodes g i))) (in_edge_map (tp_nodes g i))" using assms by (simp_all add: topo_wf_def node_wf_def)
  show "e \<in> set (out_to_all (tp_nodes g i)) \<Longrightarrow> e < tp_next_edge g" by (rule side_wfD(1) [OF O])
  show "e \<in> set (out_to_all (tp_nodes g i)) \<Longrightarrow> te_from (tp_edges g e) = i" by (rule side_wfD(2) [OF O])
  show "GetOutEdgeTo g i v = Some e \<longleftrightarrow> e \<in> set (out_to_all (tp_nodes g i)) \<and> te_to (tp_edges g e) = v"
    unfolding GetOutEdgeTo_def by (rule side_wfD(3) [OF O])
  show "set (out_to_suc (tp_nodes g i)) = {e \<in> set (out_to_all (tp_nodes g i)). te_Type (tp_edges g e) = TET_FORWARD}" by (rule side_wfD(4) [OF O])
  show "set (out_to_left_or_right (tp_nodes g i)) = {e \<in> set (out_to_all (tp_nodes g i)). te_Type (tp_edges g e) \<noteq> TET_FORWARD}"
    by (rule side_wfD(5) [OF O])
  show "e \<in> set (in_from_all (tp_nodes g i)) \<Longrightarrow> e < tp_next_edge g" by (rule side_wfD(1) [OF I])
  show "e \<in> set (in_from_all (tp_nodes g i)) \<Longrightarrow> te_to (tp_edges g e) = i" by (rule side_wfD(2) [OF I])
  show "GetInEdgeFrom g i v = Some e \<longleftrightarrow> e \<in> set (in_from_all (tp_nodes g i)) \<and> te_from (tp_edges g e) = v"
    unfolding GetInEdgeFrom_def by (rule side_wfD(3) [OF I])
  show "set (in_from_left_or_right (tp_nodes g i)) = {e \<in> set (in_from_all (tp_nodes g i)). te_Type (tp_edges g e) \<noteq> TET_FORWARD}"
    by (rule side_wfD(5) [OF I])
qed

section \<open>Graphs as they are built\<close>

definition unlinked :: "topo_node \<Rightarrow> bool" where
  "unlinked n \<longleftrightarrow> in_from_all n = [] \<and> in_from_pre n = [] \<and> in_from_left_or_right n = [] \<and> out_to_all n = [] \<and>
     out_to_suc n = [] \<and> out_to_left_or_right n = [] \<and> out_edge_map n = (\<lambda>_. None) \<and> in_edge_map n = (\<lambda>_. None)"

lemma tn_Init_sel [simp]:
  "tn_pb (tn_Init rnd n) = tn_pb n" "tn_start (tn_Init rnd n) = tn_start n" "tn_end (tn_Init rnd n) = tn_end n"
  "tn_origin (tn_Init rnd n) = tn_origin n" "unlinked (tn_Init rnd n) = unlinked n"
  by (simp_all add: tn_Init_def FindAnchorPoint_def Let_def unlinked_def case_prod_unfold split: option.split)

lemma unlinked_moved [simp]: "unlinked (k\<lparr>tn_origin := o', tn_start := a, tn_end := b\<rparr>) = unlinked k"
  by (simp add: unlinked_def)

lemma new_topo_node_sel:
  assumes "new_topo_node rnd pb this = Some n"
  shows "tn_pb n = pb" "tn_start n = 0" "tn_end n = pb_length pb" "tn_origin n = this" "unlinked n" "pb_length pb > kLenghtEpsilon"
proof -
  have n: "n = tn_Init rnd (blank_node pb this)" and "pb_length pb > kLenghtEpsilon"
    using assms by (simp_all add: new_topo_node_def split: if_splits)
  moreover have "unlinked (blank_node pb this)" by (simp add: blank_node_def unlinked_def)
  ultimately show "tn_pb n = pb" "tn_start n = 0" "tn_end n = pb_length pb" "tn_origin n = this" "unlinked n" "pb_length pb > kLenghtEpsilon"
    by (simp_all add: n) (simp_all add: blank_node_def)
qed

lemma new_sub_node_sel:
  assumes "new_sub_node rnd m origin r this = Some n"
  shows "tn_pb n = tn_pb m" "tn_start n = r_start r" "tn_end n = r_end r" "tn_origin n = origin" "unlinked n"
proof -
  obtain k where k: "new_topo_node rnd (tn_pb m) this = Some k" "n = tn_Init rnd (k\<lparr>tn_origin := origin, tn_start := r_start r, tn_end := r_end r\<rparr>)"
    using assms by (auto simp: new_sub_node_def split: option.splits)
  then show "tn_pb n = tn_pb m" "tn_start n = r_start r" "tn_end n = r_end r" "tn_origin n = origin" "unlinked n"
    using new_topo_node_sel [OF k(1)] by simp_all
qed

text \<open>A graph that grew: what was there is as it was.\<close>

definition extends :: "topo \<Rightarrow> topo \<Rightarrow> bool" where
  "extends g g' \<longleftrightarrow> topo_wf g' \<and> tp_next_node g \<le> tp_next_node g' \<and> tp_next_edge g \<le> tp_next_edge g' \<and>
     (\<forall>e < tp_next_edge g. tp_edges g' e = tp_edges g e) \<and>
     (\<forall>i < tp_next_node g. tn_pb (tp_nodes g' i) = tn_pb (tp_nodes g i) \<and> tn_start (tp_nodes g' i) = tn_start (tp_nodes g i) \<and>
        tn_end (tp_nodes g' i) = tn_end (tp_nodes g i) \<and> tn_origin (tp_nodes g' i) = tn_origin (tp_nodes g i))"

lemma extends_refl: "topo_wf g \<Longrightarrow> extends g g"
  by (simp add: extends_def)

lemma extends_trans:
  assumes 1: "extends a b" and 2: "extends b c"
  shows "extends a c"
proof -
  have "i < tp_next_node b" if "i < tp_next_node a" for i using 1 that by (simp add: extends_def)
  moreover have "e < tp_next_edge b" if "e < tp_next_edge a" for e using 1 that by (simp add: extends_def)
  ultimately show ?thesis using 1 2 by (simp add: extends_def)
qed

lemma stays_extends: "stays a b \<Longrightarrow> extends a b"
  by (simp add: stays_def same_nodes_def extends_def)

lemma extends_new_node:
  assumes "topo_wf g" "unlinked n"
  shows "extends g (g\<lparr>tp_nodes := (tp_nodes g)(tp_next_node g := n), tp_next_node := tp_next_node g + 1\<rparr>)"
proof -
  let ?g = "g\<lparr>tp_nodes := (tp_nodes g)(tp_next_node g := n), tp_next_node := tp_next_node g + 1\<rparr>"
  have "node_wf (tp_edges g) (tp_next_edge g) i n" for i using assms(2) by (simp add: node_wf_def side_wf_def unlinked_def)
  then have "node_wf (tp_edges ?g) (tp_next_edge ?g) i (tp_nodes ?g i)" for i using assms(1) by (simp add: topo_wf_def)
  moreover have "te_from (tp_edges g e) < tp_next_node ?g \<and> te_to (tp_edges g e) < tp_next_node ?g" if "e < tp_next_edge g" for e
    using assms(1) that by (simp add: topo_wf_def less_SucI)
  ultimately have "topo_wf ?g" by (simp add: topo_wf_def)
  then show ?thesis by (simp add: extends_def)
qed

subsection \<open>The graph of a map\<close>

definition graph_ok :: "topo_graph \<Rightarrow> bool" where
  "graph_ok t \<longleftrightarrow> topo_wf (tg_topo t) \<and> (\<forall>l k. node_index_map t l = Some k \<longrightarrow> k < length (topo_nodes t)) \<and>
     (\<forall>n\<in>set (topo_nodes t). n < tp_next_node (tg_topo t) \<and> tn_origin (tp_nodes (tg_topo t) n) = n \<and>
        tn_start (tp_nodes (tg_topo t) n) = 0 \<and> tn_end (tp_nodes (tg_topo t) n) = tn_Length (tp_nodes (tg_topo t) n) \<and>
        tn_Length (tp_nodes (tg_topo t) n) > kLenghtEpsilon)"

lemma load_node_ok:
  assumes ok: "graph_ok t" and l: "load_node rnd node t = Some t'"
  shows "graph_ok t'"
proof -
  let ?g = "tg_topo t"
  obtain n where n: "new_topo_node rnd node (tp_next_node ?g) = Some n"
    and t': "tg_topo t' = ?g\<lparr>tp_nodes := (tp_nodes ?g)(tp_next_node ?g := n), tp_next_node := tp_next_node ?g + 1\<rparr>"
      "topo_nodes t' = topo_nodes t @ [tp_next_node ?g]"
      "node_index_map t' = (node_index_map t)(lane_id node \<mapsto> length (topo_nodes t))"
    using l by (auto simp: load_node_def Let_def split: option.splits)
  note S = new_topo_node_sel [OF n]
  have "extends ?g (tg_topo t')" unfolding t'(1) by (rule extends_new_node) (use ok S in \<open>simp_all add: graph_ok_def\<close>)
  then have "topo_wf (tg_topo t')" by (simp add: extends_def)
  moreover have "k < length (topo_nodes t')" if "node_index_map t' l = Some k" for l k
    using that ok by (auto simp: t' graph_ok_def less_Suc_eq split: if_splits)
  moreover have "n < tp_next_node (tg_topo t') \<and> tn_origin (tp_nodes (tg_topo t') n) = n \<and>
        tn_start (tp_nodes (tg_topo t') n) = 0 \<and> tn_end (tp_nodes (tg_topo t') n) = tn_Length (tp_nodes (tg_topo t') n) \<and>
        tn_Length (tp_nodes (tg_topo t') n) > kLenghtEpsilon" if "n \<in> set (topo_nodes t')" for n
    using that ok S by (auto simp: t' graph_ok_def less_Suc_eq tn_Length_def)
  ultimately show ?thesis unfolding graph_ok_def by blast
qed

lemma load_nodes_ok: "graph_ok t \<Longrightarrow> load_nodes rnd ns t = Some t' \<Longrightarrow> graph_ok t'"
  by (induction ns arbitrary: t) (auto split: option.splits dest: load_node_ok)

lemma load_edges_ok: "graph_ok t \<Longrightarrow> graph_ok (snd (load_edges es t))"
proof (induction es arbitrary: t)
  case (Cons edge es)
  show ?case
  proof (cases "node_index_map t (from_lane_id edge) \<noteq> None \<and> node_index_map t (to_lane_id edge) \<noteq> None")
    case True
    then obtain i j where ij: "node_index_map t (from_lane_id edge) = Some i" "node_index_map t (to_lane_id edge) = Some j" by blast
    let ?f = "topo_nodes t ! i" and ?t = "topo_nodes t ! j"
    have lt: "?f < tp_next_node (tg_topo t)" "?t < tp_next_node (tg_topo t)" using Cons.prems ij by (simp_all add: graph_ok_def)
    have "stays (tg_topo t) (add_edge_out_in edge ?f ?t (tg_topo t))"
      by (rule stays_add) (use lt Cons.prems in \<open>simp_all add: stays_refl graph_ok_def\<close>)
    then have "graph_ok (t\<lparr>tg_topo := add_edge_out_in edge ?f ?t (tg_topo t), topo_edges := topo_edges t @ [tp_next_edge (tg_topo t)]\<rparr>)"
      using Cons.prems by (simp add: graph_ok_def stays_def same_nodes_def tn_Length_def)
    from Cons.IH [OF this] ij show ?thesis by (simp add: add_edge_out_in_def new_edge_def Let_def)
  qed (use Cons.prems in \<open>auto split: option.splits\<close>)
qed simp

lemma LoadGraph_ok:
  assumes "LoadGraph rnd graph new_topo_graph = Some (b, t)"
  shows "graph_ok t"
proof -
  have w: "topo_wf empty_topo"
    by (simp add: topo_wf_def empty_topo_def node_wf_def side_wf_def blank_node_def)
  let ?c = "(TopoGraph_Clear new_topo_graph)\<lparr>map_version := hdmap_version graph, map_district := hdmap_district graph\<rparr>"
  have c: "graph_ok ?c" using w by (simp add: graph_ok_def TopoGraph_Clear_def new_topo_graph_def)
  from assms show ?thesis
  proof (cases "pb_nodes graph = []")
    case True
    then show ?thesis using assms c by (simp add: LoadGraph_def LoadNodes_def)
  next
    case False
    then obtain t1 where t1: "load_nodes rnd (pb_nodes graph) ?c = Some t1" "(b, t) = load_edges (pb_edges graph) t1"
      using assms by (auto simp: LoadGraph_def LoadNodes_def split: option.splits)
    from load_edges_ok [OF load_nodes_ok [OF c t1(1)], of "pb_edges graph"] show ?thesis unfolding t1(2) [symmetric] by simp
  qed
qed

subsection \<open>The graph of the free parts\<close>

lemma make_sub_nodes_spec:
  "topo_wf g \<Longrightarrow> n < tp_next_node g \<Longrightarrow> make_sub_nodes rnd n rs g = Some (subs, g') \<Longrightarrow>
   extends g g' \<and> map snd subs = filter (\<lambda>r. \<not> range_Length rnd r < MIN_INTERNAL_FOR_NODE) rs \<and>
   (\<forall>(m, r)\<in>set subs. tp_next_node g \<le> m \<and> m < tp_next_node g' \<and> tn_origin (tp_nodes g' m) = n \<and>
      tn_start (tp_nodes g' m) = r_start r \<and> tn_end (tp_nodes g' m) = r_end r)"
proof (induction rs arbitrary: g subs)
  case Nil
  then show ?case by (simp add: extends_refl)
next
  case (Cons r rs)
  show ?case
  proof (cases "range_Length rnd r < MIN_INTERNAL_FOR_NODE")
    case True
    then show ?thesis using Cons by simp
  next
    case False
    let ?new = "tp_next_node g"
    obtain m where m: "new_sub_node rnd (tp_nodes g n) n r ?new = Some m"
      using Cons.prems(3) False by (auto simp: Let_def split: option.splits)
    let ?g = "g\<lparr>tp_nodes := (tp_nodes g)(?new := m), tp_next_node := ?new + 1\<rparr>"
    obtain subs' where s: "make_sub_nodes rnd n rs ?g = Some (subs', g')" "subs = (?new, r) # subs'"
      using Cons.prems(3) False m by (auto simp: Let_def split: option.splits)
    note M = new_sub_node_sel [OF m]
    have E: "extends g ?g" by (rule extends_new_node) (use Cons.prems(1) M in simp_all)
    have w: "topo_wf ?g" "n < tp_next_node ?g" using E Cons.prems(2) by (simp_all add: extends_def)
    note I = Cons.IH [OF w s(1)]
    then have "extends g g'" using E extends_trans by blast
    moreover have "?new < tp_next_node g' \<and> tn_origin (tp_nodes g' ?new) = n \<and> tn_start (tp_nodes g' ?new) = r_start r \<and>
      tn_end (tp_nodes g' ?new) = r_end r" using I M by (auto simp: extends_def)
    ultimately show ?thesis using I False s(2) by auto
  qed
qed

lemma link_sub_nodes_stays:
  "stays g0 g \<Longrightarrow> \<forall>m\<in>set ms. m < tp_next_node g0 \<Longrightarrow> stays g0 (link_sub_nodes rnd lane ms g)"
  by (induction rnd lane ms g rule: link_sub_nodes.induct) (auto simp: stays_add)

definition sub_ok :: "topo \<Rightarrow> sub_graph \<Rightarrow> bool" where
  "sub_ok g0 s \<longleftrightarrow> extends g0 (sg_topo s) \<and> (\<forall>n. sub_node_map s n = map_option (map fst) (sub_node_range_sorted_map s n)) \<and>
     (\<forall>n subs. sub_node_range_sorted_map s n = Some subs \<longrightarrow> n < tp_next_node g0 \<and>
        (\<forall>(m, r)\<in>set subs. tp_next_node g0 \<le> m \<and> m < tp_next_node (sg_topo s) \<and> tn_origin (tp_nodes (sg_topo s) m) = n \<and>
           tn_start (tp_nodes (sg_topo s) m) = r_start r \<and> tn_end (tp_nodes (sg_topo s) m) = r_end r))"

lemma sub_ok_stays:
  assumes "sub_ok g0 s" "stays (sg_topo s) g"
  shows "sub_ok g0 (s\<lparr>sg_topo := g\<rparr>)"
proof -
  have "extends g0 g" using assms extends_trans stays_extends unfolding sub_ok_def by blast
  then show ?thesis using assms unfolding sub_ok_def stays_def same_nodes_def by auto
qed

lemma InitSubNode_ok:
  assumes ok: "sub_ok g0 s" and n: "n < tp_next_node g0" and r: "InitSubNodeByValidRange rnd n vs s = Some s'"
  shows "sub_ok g0 s'" "\<exists>subs. sub_node_range_sorted_map s' = (sub_node_range_sorted_map s)(n \<mapsto> subs) \<and>
    map snd subs = filter (\<lambda>r. \<not> range_Length rnd r < MIN_INTERNAL_FOR_NODE) vs"
proof -
  let ?g = "sg_topo s"
  obtain subs g1 where M: "make_sub_nodes rnd n vs ?g = Some (subs, g1)"
    and s': "s' = \<lparr>sg_topo = link_sub_nodes rnd (tn_LaneId (tp_nodes g1 n)) (map fst subs) g1,
      sub_node_range_sorted_map = (sub_node_range_sorted_map s)(n \<mapsto> subs), sub_node_map = (sub_node_map s)(n \<mapsto> map fst subs)\<rparr>"
    using r by (auto simp: InitSubNodeByValidRange_def split: option.splits)
  have E0: "extends g0 ?g" using ok by (simp add: sub_ok_def)
  then have wf: "topo_wf ?g" "n < tp_next_node ?g" using n by (simp_all add: extends_def)
  note S = make_sub_nodes_spec [OF wf M]
  let ?g' = "link_sub_nodes rnd (tn_LaneId (tp_nodes g1 n)) (map fst subs) g1"
  have st: "stays g1 ?g'" by (rule link_sub_nodes_stays [OF stays_refl]) (use S in \<open>auto simp: extends_def\<close>)
  have E: "extends ?g ?g'" using S st stays_extends extends_trans by blast
  have keep: "m < tp_next_node ?g' \<and> tn_origin (tp_nodes ?g' m) = tn_origin (tp_nodes ?g m) \<and>
      tn_start (tp_nodes ?g' m) = tn_start (tp_nodes ?g m) \<and> tn_end (tp_nodes ?g' m) = tn_end (tp_nodes ?g m)" if "m < tp_next_node ?g" for m
    using E that by (auto simp: extends_def)
  have fresh: "tp_next_node g0 \<le> m \<and> m < tp_next_node ?g' \<and> tn_origin (tp_nodes ?g' m) = n \<and>
      tn_start (tp_nodes ?g' m) = r_start q \<and> tn_end (tp_nodes ?g' m) = r_end q" if "(m, q) \<in> set subs" for m q
    using S that st E0 by (auto simp: stays_def same_nodes_def extends_def)
  show "\<exists>subs. sub_node_range_sorted_map s' = (sub_node_range_sorted_map s)(n \<mapsto> subs) \<and>
    map snd subs = filter (\<lambda>r. \<not> range_Length rnd r < MIN_INTERNAL_FOR_NODE) vs" using S s' by auto
  have old: "\<forall>(m, r)\<in>set ts. tp_next_node g0 \<le> m \<and> m < tp_next_node ?g' \<and> tn_origin (tp_nodes ?g' m) = k \<and>
      tn_start (tp_nodes ?g' m) = r_start r \<and> tn_end (tp_nodes ?g' m) = r_end r" if "sub_node_range_sorted_map s k = Some ts" for k ts
    proof -
    have "\<forall>(m, r)\<in>set ts. tp_next_node g0 \<le> m \<and> m < tp_next_node ?g \<and> tn_origin (tp_nodes ?g m) = k \<and>
      tn_start (tp_nodes ?g m) = r_start r \<and> tn_end (tp_nodes ?g m) = r_end r" using ok that by (simp add: sub_ok_def)
    then show ?thesis using keep by (simp add: case_prod_unfold)
  qed
  have lt: "k < tp_next_node g0" if "sub_node_range_sorted_map s k = Some ts" for k ts using ok that unfolding sub_ok_def by blast
  show "sub_ok g0 s'" unfolding sub_ok_def
  proof (intro conjI allI impI)
    show "extends g0 (sg_topo s')" using extends_trans [OF E0 E] s' by simp
    show "sub_node_map s' k = map_option (map fst) (sub_node_range_sorted_map s' k)" for k using ok s' by (simp add: sub_ok_def)
    fix k ts assume k: "sub_node_range_sorted_map s' k = Some ts"
    show "k < tp_next_node g0" using k lt n s' by (auto split: if_splits)
    show "\<forall>(m, r)\<in>set ts. tp_next_node g0 \<le> m \<and> m < tp_next_node (sg_topo s') \<and> tn_origin (tp_nodes (sg_topo s') m) = k \<and>
      tn_start (tp_nodes (sg_topo s') m) = r_start r \<and> tn_end (tp_nodes (sg_topo s') m) = r_end r"
    proof (cases "k = n")
      case True
      then have "ts = subs" using k s' by simp
      then show ?thesis using fresh True s' by auto
    next
      case False
      then have "sub_node_range_sorted_map s k = Some ts" using k s' by simp
      from old [OF this] show ?thesis using s' by simp
    qed
  qed
qed

lemma init_all_ok:
  "sub_ok g0 s \<Longrightarrow> \<forall>(n, rs)\<in>set bs. n < tp_next_node g0 \<Longrightarrow> init_all_sub_nodes rnd bs s = Some s' \<Longrightarrow>
   sub_ok g0 s' \<and> (\<forall>n. n \<notin> fst ` set bs \<longrightarrow> sub_node_range_sorted_map s' n = sub_node_range_sorted_map s n) \<and>
   (distinct (map fst bs) \<longrightarrow> (\<forall>(n, rs)\<in>set bs. \<exists>subs. sub_node_range_sorted_map s' n = Some subs \<and>
      map snd subs = filter (\<lambda>r. \<not> range_Length rnd r < MIN_INTERNAL_FOR_NODE) (GetSortedValidRange (tn_start (tp_nodes g0 n)) (tn_end (tp_nodes g0 n)) rs)))"
proof (induction bs arbitrary: s)
  case (Cons b bs)
  obtain n rs where b: "b = (n, rs)" by (cases b)
  let ?v = "GetSortedValidRange (tn_start (tp_nodes (sg_topo s) n)) (tn_end (tp_nodes (sg_topo s) n)) rs"
  obtain s1 where s1: "InitSubNodeByValidRange rnd n ?v s = Some s1" "init_all_sub_nodes rnd bs s1 = Some s'"
    using Cons.prems(3) b by (auto simp: Let_def split: option.splits)
  have n: "n < tp_next_node g0" using Cons.prems(2) b by simp
  then have v: "?v = GetSortedValidRange (tn_start (tp_nodes g0 n)) (tn_end (tp_nodes g0 n)) rs"
    using Cons.prems(1) by (simp add: sub_ok_def extends_def)
  note I = InitSubNode_ok [OF Cons.prems(1) n s1(1)]
  have J: "sub_ok g0 s' \<and> (\<forall>n. n \<notin> fst ` set bs \<longrightarrow> sub_node_range_sorted_map s' n = sub_node_range_sorted_map s1 n) \<and>
   (distinct (map fst bs) \<longrightarrow> (\<forall>(n, rs)\<in>set bs. \<exists>subs. sub_node_range_sorted_map s' n = Some subs \<and>
      map snd subs = filter (\<lambda>r. \<not> range_Length rnd r < MIN_INTERNAL_FOR_NODE) (GetSortedValidRange (tn_start (tp_nodes g0 n)) (tn_end (tp_nodes g0 n)) rs)))"
    by (rule Cons.IH [OF I(1) _ s1(2)]) (use Cons.prems(2) in simp)
  then show ?case using I(2) v unfolding b by (auto simp: image_iff)
qed simp

definition subs_lt :: "nat \<Rightarrow> (nat \<Rightarrow> nat list option) \<Rightarrow> bool" where
  "subs_lt k subs \<longleftrightarrow> (\<forall>n ms. subs n = Some ms \<longrightarrow> (\<forall>m\<in>set ms. m < k))"

lemma sub_edges_stay:
  assumes st: "stays g0 g" and e: "e < tp_next_edge g" and m: "m < tp_next_node g0" and s: "subs_lt (tp_next_node g0) subs"
    and ord: "\<And>xs :: nat list. set (ord xs) = set xs"
  shows "stays g0 (sub_in_edge rnd ord subs m e g)" "stays g0 (sub_out_edge rnd ord subs m e g)"
    "stays g0 (potential_in_edge rnd ord subs m e g)" "stays g0 (potential_out_edge rnd ord subs m e g)"
proof -
  note ends = stays_ends [OF st e]
  have lt: "k < tp_next_node g0" if "subs n = Some ms" "k \<in> set ms" for n ms k using s that by (auto simp: subs_lt_def)
  show "stays g0 (sub_in_edge rnd ord subs m e g)" "stays g0 (sub_out_edge rnd ord subs m e g)"
    "stays g0 (potential_in_edge rnd ord subs m e g)" "stays g0 (potential_out_edge rnd ord subs m e g)"
    using ends st m by (auto simp: sub_in_edge_def sub_out_edge_def potential_in_edge_def potential_out_edge_def Let_def ord
        intro!: stays_fold stays_add dest: lt split: option.split)
qed

lemma sub_passes_stay:
  assumes wf: "topo_wf g" and es: "\<And>i. \<forall>e\<in>set (pick (tp_nodes g i)). e < tp_next_edge g" and m: "m < tp_next_node g"
    and s: "subs_lt (tp_next_node g) subs" and ord: "\<And>xs :: nat list. set (ord xs) = set xs"
    and f: "f \<in> {sub_in_edge rnd ord subs m, sub_out_edge rnd ord subs m, potential_in_edge rnd ord subs m, potential_out_edge rnd ord subs m}"
  shows "stays g (fold f (ord (pick (tp_nodes g n))) g)"
proof (rule stays_fold [OF stays_refl [OF wf]])
  fix e h assume e: "e \<in> set (ord (pick (tp_nodes g n)))" and h: "stays g h"
  have "e < tp_next_edge g" using e es [of n] ord by simp
  then have "e < tp_next_edge h" using h by (simp add: stays_def same_nodes_def)
  from sub_edges_stay [OF h this m s ord, of rnd] show "stays g (f e h)" using f by blast
qed

lemma subs_lt_stays: "subs_lt (tp_next_node g) subs \<Longrightarrow> stays g h \<Longrightarrow> subs_lt (tp_next_node h) subs"
  by (simp add: stays_def same_nodes_def)

lemma sub_phase_stays:
  assumes wf: "topo_wf g" and ms: "\<forall>m\<in>set ms. m < tp_next_node g" and s: "subs_lt (tp_next_node g) subs"
    and ord: "\<And>xs :: nat list. set (ord xs) = set xs"
  shows "stays g (fold (\<lambda>m g. let g = fold (sub_in_edge rnd ord subs m) (ord (in_from_all (tp_nodes g n))) g
      in fold (sub_out_edge rnd ord subs m) (ord (out_to_all (tp_nodes g n))) g) (ord ms) g)" (is ?A)
    "stays g (fold (\<lambda>m g. let g = fold (potential_in_edge rnd ord subs m) (ord (in_from_left_or_right (tp_nodes g n))) g
      in fold (potential_out_edge rnd ord subs m) (ord (out_to_left_or_right (tp_nodes g n))) g) (ord ms) g)" (is ?B)
proof -
  have P: "stays g (fold f2 (ord (p2 (tp_nodes (fold f1 (ord (p1 (tp_nodes h n))) h) n))) (fold f1 (ord (p1 (tp_nodes h n))) h))"
    if m: "m \<in> set (ord ms)" and h: "stays g h"
      and f: "f1 \<in> {sub_in_edge rnd ord subs m, sub_out_edge rnd ord subs m, potential_in_edge rnd ord subs m, potential_out_edge rnd ord subs m}"
        "f2 \<in> {sub_in_edge rnd ord subs m, sub_out_edge rnd ord subs m, potential_in_edge rnd ord subs m, potential_out_edge rnd ord subs m}"
      and p: "\<And>g i. topo_wf g \<Longrightarrow> \<forall>e\<in>set (p1 (tp_nodes g i)). e < tp_next_edge g" "\<And>g i. topo_wf g \<Longrightarrow> \<forall>e\<in>set (p2 (tp_nodes g i)). e < tp_next_edge g"
    for m h f1 f2 and p1 p2 :: "topo_node \<Rightarrow> nat list"
  proof -
    have mg: "m < tp_next_node h" "topo_wf h" using m ms ord h by (auto simp: stays_def same_nodes_def)
    let ?h = "fold f1 (ord (p1 (tp_nodes h n))) h"
    have 1: "stays h ?h" by (rule sub_passes_stay [where pick = p1, OF mg(2) p(1) [OF mg(2)] mg(1) subs_lt_stays [OF s h] ord f(1)])
    then have mh: "m < tp_next_node ?h" "topo_wf ?h" using mg(1) by (auto simp: stays_def same_nodes_def)
    have "stays ?h (fold f2 (ord (p2 (tp_nodes ?h n))) ?h)"
      by (rule sub_passes_stay [where pick = p2, OF mh(2) p(2) [OF mh(2)] mh(1) subs_lt_stays [OF subs_lt_stays [OF s h] 1] ord f(2)])
    then show ?thesis using h 1 stays_trans by blast
  qed
  show ?A unfolding Let_def by (rule stays_fold [OF stays_refl [OF wf]], rule P) (auto dest: topo_wf_sides(1,2))
  show ?B unfolding Let_def by (rule stays_fold [OF stays_refl [OF wf]], rule P) (auto simp: topo_wf_sides(8,9) dest: topo_wf_sides(1,2))
qed

lemma InitSubEdge_ok:
  assumes ok: "sub_ok g0 s" and ord: "\<And>xs :: nat list. set (ord xs) = set xs"
  shows "sub_ok g0 (InitSubEdge rnd ord n s)" "sub_ok g0 (AddPotentialEdge rnd ord n s)"
    "stays (sg_topo s) (sg_topo (InitSubEdge rnd ord n s))" "stays (sg_topo s) (sg_topo (AddPotentialEdge rnd ord n s))"
    "sub_node_range_sorted_map (InitSubEdge rnd ord n s) = sub_node_range_sorted_map s"
    "sub_node_range_sorted_map (AddPotentialEdge rnd ord n s) = sub_node_range_sorted_map s"
proof -
  have wf: "topo_wf (sg_topo s)" using ok by (simp add: sub_ok_def extends_def)
  have lt: "subs_lt (tp_next_node (sg_topo s)) (sub_node_map s)" using ok by (fastforce simp: sub_ok_def subs_lt_def)
  then have ms: "\<forall>m\<in>set ms. m < tp_next_node (sg_topo s)" if "GetSubNodes s n = Some ms" for ms
    using that by (auto simp: subs_lt_def GetSubNodes_def)
  show "sub_ok g0 (InitSubEdge rnd ord n s)" "sub_ok g0 (AddPotentialEdge rnd ord n s)"
    using ok sub_ok_stays [OF ok] sub_phase_stays [OF wf ms lt ord]
    by (auto simp: InitSubEdge_def AddPotentialEdge_def split: option.split)
  show "stays (sg_topo s) (sg_topo (InitSubEdge rnd ord n s))" "stays (sg_topo s) (sg_topo (AddPotentialEdge rnd ord n s))"
    using sub_phase_stays [OF wf ms lt ord] stays_refl [OF wf] by (auto simp: InitSubEdge_def AddPotentialEdge_def split: option.split)
  show "sub_node_range_sorted_map (InitSubEdge rnd ord n s) = sub_node_range_sorted_map s"
    "sub_node_range_sorted_map (AddPotentialEdge rnd ord n s) = sub_node_range_sorted_map s"
    by (simp_all add: InitSubEdge_def AddPotentialEdge_def split: option.split)
qed

lemma sub_folds_ok:
  assumes "sub_ok g0 s" "\<And>xs :: nat list. set (ord xs) = set xs"
  shows "sub_ok g0 (fold (AddPotentialEdge rnd ord) ns (fold (InitSubEdge rnd ord) ms s)) \<and>
    sub_node_range_sorted_map (fold (AddPotentialEdge rnd ord) ns (fold (InitSubEdge rnd ord) ms s)) = sub_node_range_sorted_map s"
proof -
  have "sub_ok g0 (fold (InitSubEdge rnd ord) ms s) \<and> sub_node_range_sorted_map (fold (InitSubEdge rnd ord) ms s) = sub_node_range_sorted_map s"
    using assms by (induction ms arbitrary: s) (auto simp: InitSubEdge_ok)
  moreover have "sub_ok g0 s' \<Longrightarrow> sub_ok g0 (fold (AddPotentialEdge rnd ord) ns s') \<and>
      sub_node_range_sorted_map (fold (AddPotentialEdge rnd ord) ns s') = sub_node_range_sorted_map s'" for s'
    using assms(2) by (induction ns arbitrary: s') (auto simp: InitSubEdge_ok)
  ultimately show ?thesis by auto
qed

lemma new_sub_graph_ok:
  assumes wf: "topo_wf g" and bs: "\<forall>(n, rs)\<in>set black_map. n < tp_next_node g" and ord: "\<And>xs :: nat list. set (ord xs) = set xs"
    and s: "new_sub_graph rnd ord black_map g = Some s"
  shows "sub_ok g s" "n \<notin> fst ` set black_map \<Longrightarrow> sub_node_range_sorted_map s n = None"
    "distinct (map fst black_map) \<Longrightarrow> (n, rs) \<in> set black_map \<Longrightarrow> \<exists>subs. sub_node_range_sorted_map s n = Some subs \<and>
      map snd subs = filter (\<lambda>r. \<not> range_Length rnd r < MIN_INTERNAL_FOR_NODE) (GetSortedValidRange (tn_start (tp_nodes g n)) (tn_end (tp_nodes g n)) rs)"
proof -
  let ?s0 = "\<lparr>sg_topo = g, sub_node_range_sorted_map = (\<lambda>_. None), sub_node_map = (\<lambda>_. None)\<rparr>"
  obtain s1 where s1: "init_all_sub_nodes rnd black_map ?s0 = Some s1"
    "s = fold (AddPotentialEdge rnd ord) (map fst black_map) (fold (InitSubEdge rnd ord) (map fst black_map) s1)"
    using s by (auto simp: new_sub_graph_def split: option.splits)
  have "sub_ok g ?s0" using wf by (simp add: sub_ok_def extends_refl)
  note I = init_all_ok [OF this bs s1(1)]
  note F = sub_folds_ok [OF I [THEN conjunct1] ord, of rnd "map fst black_map" "map fst black_map", folded s1(2)]
  show "sub_ok g s" using F by blast
  show "n \<notin> fst ` set black_map \<Longrightarrow> sub_node_range_sorted_map s n = None" using F I by simp
  show "distinct (map fst black_map) \<Longrightarrow> (n, rs) \<in> set black_map \<Longrightarrow> \<exists>subs. sub_node_range_sorted_map s n = Some subs \<and>
      map snd subs = filter (\<lambda>r. \<not> range_Length rnd r < MIN_INTERNAL_FOR_NODE) (GetSortedValidRange (tn_start (tp_nodes g n)) (tn_end (tp_nodes g n)) rs)"
    using F I by auto
qed

lemma make_sub_nodes_total:
  "n < tp_next_node g \<Longrightarrow> pb_length (tn_pb (tp_nodes g n)) > kLenghtEpsilon \<Longrightarrow> make_sub_nodes rnd n rs g \<noteq> None"
proof (induction rs arbitrary: g)
  case (Cons r rs)
  have "\<exists>m. new_sub_node rnd (tp_nodes g n) n r (tp_next_node g) = Some m"
    using Cons.prems(2) by (simp add: new_sub_node_def new_topo_node_def)
  then obtain m where m: "new_sub_node rnd (tp_nodes g n) n r (tp_next_node g) = Some m" by blast
  let ?g = "g\<lparr>tp_nodes := (tp_nodes g)(tp_next_node g := m), tp_next_node := tp_next_node g + 1\<rparr>"
  have "make_sub_nodes rnd n rs ?g \<noteq> None" "make_sub_nodes rnd n rs g \<noteq> None"
    by (rule Cons.IH; use Cons.prems in simp)+
  then show ?case using m by (auto simp: Let_def)
qed simp

lemma init_all_total:
  "sub_ok g0 s \<Longrightarrow> \<forall>(n, rs)\<in>set bs. n < tp_next_node g0 \<and> pb_length (tn_pb (tp_nodes g0 n)) > kLenghtEpsilon \<Longrightarrow>
   init_all_sub_nodes rnd bs s \<noteq> None"
proof (induction bs arbitrary: s)
  case (Cons b bs)
  obtain n rs where b: "b = (n, rs)" by (cases b)
  have E: "extends g0 (sg_topo s)" using Cons.prems(1) by (simp add: sub_ok_def)
  have n: "n < tp_next_node g0" "n < tp_next_node (sg_topo s)" "pb_length (tn_pb (tp_nodes (sg_topo s) n)) > kLenghtEpsilon"
    using Cons.prems(2) b E by (auto simp: extends_def)
  let ?v = "GetSortedValidRange (tn_start (tp_nodes (sg_topo s) n)) (tn_end (tp_nodes (sg_topo s) n)) rs"
  from make_sub_nodes_total [OF n(2,3), of rnd ?v] obtain s1 where s1: "InitSubNodeByValidRange rnd n ?v s = Some s1"
    by (auto simp: InitSubNodeByValidRange_def)
  have "init_all_sub_nodes rnd bs s1 \<noteq> None" by (rule Cons.IH [OF InitSubNode_ok(1) [OF Cons.prems(1) n(1) s1]]) (use Cons.prems(2) in simp)
  then show ?case using s1 b by (simp add: Let_def)
qed simp

lemma new_sub_graph_total:
  assumes "topo_wf g" "\<forall>(n, rs)\<in>set black_map. n < tp_next_node g \<and> pb_length (tn_pb (tp_nodes g n)) > kLenghtEpsilon"
  shows "\<exists>s. new_sub_graph rnd ord black_map g = Some s"
proof -
  have "sub_ok g \<lparr>sg_topo = g, sub_node_range_sorted_map = (\<lambda>_. None), sub_node_map = (\<lambda>_. None)\<rparr>"
    using assms(1) by (simp add: sub_ok_def extends_refl)
  from init_all_total [OF this assms(2), of rnd] show ?thesis by (auto simp: new_sub_graph_def split: option.split)
qed

lemma in_line_filter: "in_line a b rs \<Longrightarrow> in_line a b (filter P rs)"
  by (simp add: in_line_def sorted_wrt_filter)

text \<open>
  Property C31. On any loaded map and for any valid blocked ranges of its lanes the graph of the free parts is made, and looking up
  a position of a lane finds a node exactly when the position lies in a free stretch of at least a centimetre (the lane itself when
  nothing of it is blocked); that node is a part of the lane that holds the position and inside of which nothing is
  blocked, and every position of the lane that is not blocked lies in some free stretch.
\<close>

theorem lane_parts_are_free_stretches:
  assumes map: "LoadGraph rnd graph new_topo_graph = Some (b, t)" and ord: "\<forall>xs. set (ord xs) = set xs"
    and black: "distinct (map fst black_map)" "\<forall>(n, rs)\<in>set black_map. n \<in> set (topo_nodes t) \<and> (\<forall>r\<in>set rs. range_valid r)"
    and n: "n \<in> set (topo_nodes t)"
  shows "\<exists>s. new_sub_graph rnd ord black_map (tg_topo t) = Some s \<and>
    (case map_of black_map n of
       None \<Rightarrow> GetSubNodeWithS s n pos = Some n
     | Some rs \<Rightarrow>
         let free = GetSortedValidRange 0 (tn_Length (tp_nodes (tg_topo t) n)) rs;
             long = filter (\<lambda>r. \<not> range_Length rnd r < MIN_INTERNAL_FOR_NODE) free
         in (GetSubNodeWithS s n pos = None \<longleftrightarrow> \<not> covers long pos) \<and>
            (\<forall>m. GetSubNodeWithS s n pos = Some m \<longrightarrow>
               (let part = tp_nodes (sg_topo s) m
                in tn_origin part = n \<and> tn_start part \<le> pos \<and> pos \<le> tn_end part \<and>
                   (\<forall>x. tn_start part < x \<and> x < tn_end part \<longrightarrow> \<not> covers rs x))) \<and>
            (0 \<le> pos \<and> pos \<le> tn_Length (tp_nodes (tg_topo t) n) \<and> \<not> covers rs pos \<longrightarrow> covers free pos))"
proof -
  let ?g = "tg_topo t"
  have ok: "graph_ok t" by (rule LoadGraph_ok [OF map])
  then have wf: "topo_wf ?g" and N: "\<And>n. n \<in> set (topo_nodes t) \<Longrightarrow> n < tp_next_node ?g \<and> tn_origin (tp_nodes ?g n) = n \<and>
      tn_start (tp_nodes ?g n) = 0 \<and> tn_end (tp_nodes ?g n) = tn_Length (tp_nodes ?g n) \<and> tn_Length (tp_nodes ?g n) > kLenghtEpsilon"
    by (auto simp: graph_ok_def)
  have lt: "\<forall>(n, rs)\<in>set black_map. n < tp_next_node ?g" using black(2) N by auto
  have "\<forall>(n, rs)\<in>set black_map. n < tp_next_node ?g \<and> pb_length (tn_pb (tp_nodes ?g n)) > kLenghtEpsilon"
    using black(2) N by (auto simp: tn_Length_def)
  from new_sub_graph_total [OF wf this] obtain s where s: "new_sub_graph rnd ord black_map ?g = Some s" by blast
  have ord': "set (ord xs) = set xs" for xs using ord by blast
  note G = new_sub_graph_ok [OF wf lt ord' s]
  let ?len = "tn_Length (tp_nodes ?g n)"
  show ?thesis
  proof (cases "map_of black_map n")
    case None
    then have "GetSubNodeWithS s n pos = Some n" using G(2) [of n] by (simp add: GetSubNodeWithS_def map_of_eq_None_iff)
    then show ?thesis using s None by simp
  next
    case (Some rs)
    then have rs: "(n, rs) \<in> set black_map" by (rule map_of_SomeD)
    let ?free = "GetSortedValidRange 0 ?len rs" let ?long = "filter (\<lambda>r. \<not> range_Length rnd r < MIN_INTERNAL_FOR_NODE) ?free"
    obtain subs where subs: "sub_node_range_sorted_map s n = Some subs" "map snd subs = ?long" using G(3) [OF black(1) rs] N [OF n] by auto
    have v: "\<forall>r\<in>set rs. range_valid r" "0 \<le> ?len" using black(2) rs N [OF n] by (auto simp: kLenghtEpsilon_def)
    note M = merge_block_range_spec [OF v]
    note F = gaps_spec [OF M(1) v(2), folded GetSortedValidRange_gaps]
    have L: "in_line 0 ?len ?long" using F in_line_filter by blast
    note B = BinarySearchForStartS_spec [OF L, of pos]
    have E: "GetSubNodeWithS s n pos = (let i = BinarySearchForStartS ?long pos in if i < 0 then None else Some (fst (subs ! nat i)))"
      using subs by (simp add: GetSubNodeWithS_def)
    have found: "\<exists>k. holds ?long pos k \<and> GetSubNodeWithS s n pos = Some (fst (subs ! k))" if "covers ?long pos"
      using B that E by auto
    have none: "GetSubNodeWithS s n pos = None" if "\<not> covers ?long pos" using B that E by simp
    have part: "tn_origin (tp_nodes (sg_topo s) m) = n \<and> tn_start (tp_nodes (sg_topo s) m) \<le> pos \<and> pos \<le> tn_end (tp_nodes (sg_topo s) m) \<and>
        (\<forall>x. tn_start (tp_nodes (sg_topo s) m) < x \<and> x < tn_end (tp_nodes (sg_topo s) m) \<longrightarrow> \<not> covers rs x)"
      if m: "GetSubNodeWithS s n pos = Some m" for m
    proof -
      obtain k where k: "holds ?long pos k" "m = fst (subs ! k)" using found none m by (cases "covers ?long pos") auto
      have len: "k < length subs" using k(1) arg_cong [OF subs(2), of length] by (simp add: holds_def)
      then have r: "snd (subs ! k) = ?long ! k" by (metis nth_map subs(2))
      have "(m, ?long ! k) \<in> set subs" using len r k(2) by (metis nth_mem prod.collapse)
      then have "tn_origin (tp_nodes (sg_topo s) m) = n \<and> tn_start (tp_nodes (sg_topo s) m) = r_start (?long ! k) \<and>
          tn_end (tp_nodes (sg_topo s) m) = r_end (?long ! k)" using G(1) subs(1) by (fastforce simp: sub_ok_def)
      moreover have q: "?long ! k \<in> set ?free" using k(1) by (metis filter_is_subset holds_def nth_mem subsetD)
      moreover have "\<not> covers rs x" if x: "r_start (?long ! k) < x" "x < r_end (?long ! k)" for x
      proof -
        have "\<not> covers (merge_block_range 0 ?len rs) x" using F q x by blast
        moreover have "0 \<le> x" "x \<le> ?len" using F q x by (auto simp: in_line_def)
        ultimately show ?thesis using M(2) by blast
      qed
      ultimately show ?thesis using k(1) by (simp add: holds_def)
    qed
    have "covers ?free pos" if "0 \<le> pos" "pos \<le> ?len" "\<not> covers rs pos" using F M(2) that by blast
    then show ?thesis using s Some found none part by (auto simp: Let_def)
  qed
qed

definition plain_lane :: "string \<Rightarrow> real \<Rightarrow> real \<Rightarrow> real \<times> real \<Rightarrow> pb_node" where
  "plain_lane l len cost p = dummy_pb_node\<lparr>lane_id := l, pb_length := len, pb_cost := cost, central_curve := [[p]]\<rparr>"

theorem lane_parts_are_free_stretches_witness:
  "\<exists>t s. LoadGraph (\<lambda>x. x) \<lparr>hdmap_version = [], hdmap_district = [], pb_nodes = [plain_lane ''a'' 10 1 (0, 0)], pb_edges = []\<rparr> new_topo_graph = Some (True, t) \<and>
     new_sub_graph (\<lambda>x. x) (\<lambda>xs. xs) [(0, [\<lparr>r_start = 4, r_end = 5\<rparr>])] (tg_topo t) = Some s \<and>
     GetSubNodeWithS s 0 (9 / 2) = None \<and> (\<exists>m. GetSubNodeWithS s 0 7 = Some m \<and> tn_start (tp_nodes (sg_topo s) m) \<le> 7)"
proof -
  let ?g = "\<lparr>hdmap_version = [], hdmap_district = [], pb_nodes = [plain_lane ''a'' 10 1 (0, 0)], pb_edges = []\<rparr>" let ?bm = "[(0, [\<lparr>r_start = 4, r_end = 5\<rparr>])]"
  obtain t where t: "LoadGraph (\<lambda>x. x) ?g new_topo_graph = Some (True, t)" "topo_nodes t = [0]" "tn_Length (tp_nodes (tg_topo t) 0) = 10"
    by (simp add: LoadGraph_def LoadNodes_def load_node_def new_topo_node_def new_topo_graph_def TopoGraph_Clear_def empty_topo_def
        plain_lane_def dummy_pb_node_def kLenghtEpsilon_def Let_def tn_Length_def blank_node_def)
  have v: "GetSortedValidRange 0 10 [\<lparr>r_start = 4, r_end = 5\<rparr>] = [\<lparr>r_start = 0, r_end = 4\<rparr>, \<lparr>r_start = 5, r_end = 10\<rparr>]"
    by (simp add: GetSortedValidRange_def merge_block_range_def)
  have A: "\<exists>s. new_sub_graph (\<lambda>x. x) (\<lambda>xs. xs) ?bm (tg_topo t) = Some s \<and>
      (GetSubNodeWithS s 0 pos = None \<longleftrightarrow> \<not> covers [\<lparr>r_start = 0, r_end = 4\<rparr>, \<lparr>r_start = 5, r_end = 10\<rparr>] pos) \<and>
      (\<forall>m. GetSubNodeWithS s 0 pos = Some m \<longrightarrow> tn_start (tp_nodes (sg_topo s) m) \<le> pos)" for pos
    using lane_parts_are_free_stretches [OF t(1), of "\<lambda>xs. xs" ?bm 0 pos] t(2,3)
    by (auto simp: v range_valid_def range_Length_def MIN_INTERNAL_FOR_NODE_def Let_def)
  obtain s where s: "new_sub_graph (\<lambda>x. x) (\<lambda>xs. xs) ?bm (tg_topo t) = Some s" using A by blast
  have "GetSubNodeWithS s 0 (9 / 2) = None" using A [of "9 / 2"] s by auto
  moreover have "\<exists>m. GetSubNodeWithS s 0 7 = Some m \<and> tn_start (tp_nodes (sg_topo s) m) \<le> 7" using A [of 7] s by auto
  ultimately show ?thesis using t(1) s by blast
qed

end
