(* ===== verification/LaneSearch.thy ===== *)
theory LaneSearch
  imports TopoGraphs Doubles
begin

text \<open>
  The search for a route over the lane graph (\<open>modules/routing/strategy/a_star_strategy.cc\<close>), with the replacement of nodes around lane changes
  by longer ones and the reconstruction of the route. A \<open>strategy\<close> holds what the code leaves to its platform: the rounding of doubles,
  the order in which a hash set is iterated and which of the best nodes a priority queue has on top.
  \<open>Search\<close> and \<open>trace\<close> are partial functions: that they end is a theorem. Members the code clears before a search start empty.
\<close>

section \<open>The strategy and its scores\<close>

record strategy =
  st_rnd :: "real \<Rightarrow> real"
  st_ord :: "nat list \<Rightarrow> nat list"
  st_top :: "(nat \<times> real) list \<Rightarrow> nat"
  change_lane_enabled :: bool

record astar =
  open_set :: "nat set"
  closed_set :: "nat set"
  came_from :: "nat \<Rightarrow> nat option"
  g_score :: "nat \<Rightarrow> real"
  enter_s :: "nat \<Rightarrow> real option"
  open_set_detail :: "(nat \<times> real) list"

record node_with_range =
  nr_node :: nat
  nr_start :: real
  nr_end :: real

definition double_max :: real where "double_max = (2 - 1 / 2 ^ 52) * 2 ^ 1023"

definition node_range :: "(real \<Rightarrow> real) \<Rightarrow> topo \<Rightarrow> nat \<Rightarrow> real" where
  "node_range rnd g n = rnd (tn_end (tp_nodes g n) - tn_start (tp_nodes g n))"

definition GetCostToNeighbor :: "(real \<Rightarrow> real) \<Rightarrow> topo \<Rightarrow> nat \<Rightarrow> real" where
  "GetCostToNeighbor rnd g e = rnd (pbe_cost (te_pb (tp_edges g e)) + tn_Cost (tp_nodes g (te_to (tp_edges g e))))"

definition HeuristicCost :: "(real \<Rightarrow> real) \<Rightarrow> topo \<Rightarrow> nat \<Rightarrow> nat \<Rightarrow> real" where
  "HeuristicCost rnd g src_node dest_node =
     (let p = anchor_point (tp_nodes g src_node); q = anchor_point (tp_nodes g dest_node)
      in rnd (\<bar>rnd (fst p - fst q)\<bar> + \<bar>rnd (snd p - snd q)\<bar>))"

section \<open>Lane changes of a route\<close>

definition GetLargestNode :: "(real \<Rightarrow> real) \<Rightarrow> topo \<Rightarrow> nat list \<Rightarrow> nat option" where
  "GetLargestNode rnd g nodes =
     snd (fold (\<lambda>n (m, l). if node_range rnd g n > m then (node_range rnd g n, Some n) else (m, l)) nodes (0, None))"

text \<open>The edge that links two nodes of a route: only one of its ends may hold it.\<close>

definition edge_between :: "topo \<Rightarrow> nat \<Rightarrow> nat \<Rightarrow> nat option" where
  "edge_between g from to = (case GetOutEdgeTo g from to of None \<Rightarrow> GetInEdgeFrom g to from | Some e \<Rightarrow> Some e)"

definition change_back :: "strategy \<Rightarrow> topo \<Rightarrow> nat \<Rightarrow> nat list \<Rightarrow> nat list option" where
  "change_back p g i v =
     (let from = v ! i; to = v ! (i + 1); base = v ! (i - 1)
      in case edge_between g from to of
           None \<Rightarrow> None
         | Some e \<Rightarrow>
             if te_Type (tp_edges g e) \<noteq> TET_FORWARD then
               if node_range (st_rnd p) g base < node_range (st_rnd p) g from then Some v
               else
                 let out_edges = st_ord p (out_to_left_or_right (tp_nodes g base));
                     candidate_set = from # filter (\<lambda>c. c \<noteq> from \<and> GetOutEdgeTo g c to \<noteq> None) (map (\<lambda>e. te_to (tp_edges g e)) out_edges)
                 in (case GetLargestNode (st_rnd p) g candidate_set of
                       None \<Rightarrow> None
                     | Some largest \<Rightarrow> Some (if largest \<noteq> from then v[i := largest] else v))
             else Some v)"

definition change_ahead :: "strategy \<Rightarrow> topo \<Rightarrow> nat \<Rightarrow> nat list \<Rightarrow> nat list option" where
  "change_ahead p g i v =
     (let from = v ! (i - 1); to = v ! i; base = v ! (i + 1)
      in case edge_between g from to of
           None \<Rightarrow> None
         | Some e \<Rightarrow>
             if te_Type (tp_edges g e) \<noteq> TET_FORWARD then
               if node_range (st_rnd p) g base < node_range (st_rnd p) g to then Some v
               else
                 let in_edges = st_ord p (in_from_left_or_right (tp_nodes g base));
                     candidate_set = to # filter (\<lambda>c. c \<noteq> to \<and> GetInEdgeFrom g c from \<noteq> None) (map (\<lambda>e. te_from (tp_edges g e)) in_edges)
                 in (case GetLargestNode (st_rnd p) g candidate_set of
                       None \<Rightarrow> None
                     | Some largest \<Rightarrow> Some (if largest \<noteq> to then v[i := largest] else v))
             else Some v)"

fun adjust_all :: "(nat \<Rightarrow> nat list \<Rightarrow> nat list option) \<Rightarrow> nat list \<Rightarrow> nat list \<Rightarrow> nat list option" where
  "adjust_all f [] v = Some v"
| "adjust_all f (i # is) v = (case f i v of None \<Rightarrow> None | Some v \<Rightarrow> adjust_all f is v)"

definition AdjustLaneChangeBackward :: "strategy \<Rightarrow> topo \<Rightarrow> nat list \<Rightarrow> nat list option" where
  "AdjustLaneChangeBackward p g v = adjust_all (change_back p g) (rev [1 ..< length v - 1]) v"

definition AdjustLaneChangeForward :: "strategy \<Rightarrow> topo \<Rightarrow> nat list \<Rightarrow> nat list option" where
  "AdjustLaneChangeForward p g v = adjust_all (change_ahead p g) [1 ..< length v - 1] v"

definition AdjustLaneChange :: "strategy \<Rightarrow> topo \<Rightarrow> nat list \<Rightarrow> nat list option" where
  "AdjustLaneChange p g v =
     (if length v < 3 then Some v
      else case AdjustLaneChangeBackward p g v of None \<Rightarrow> None | Some v \<Rightarrow> AdjustLaneChangeForward p g v)"

text \<open>The route back from a node, put in front of \<open>v\<close>.\<close>

partial_function (option) trace :: "(nat \<Rightarrow> nat option) \<Rightarrow> nat \<Rightarrow> nat list \<Rightarrow> nat list option" where
  "trace cf n v = (case cf n of None \<Rightarrow> Some (n # v) | Some m \<Rightarrow> trace cf m (n # v))"

text \<open>The inner option is the boolean result: None when the route cannot be adjusted.\<close>

definition Reconstruct :: "strategy \<Rightarrow> topo \<Rightarrow> (nat \<Rightarrow> nat option) \<Rightarrow> nat \<Rightarrow> node_with_range list option option" where
  "Reconstruct p g cf dest_node =
     (case trace cf dest_node [] of
        None \<Rightarrow> None
      | Some v \<Rightarrow>
          Some (map_option (map (\<lambda>n. \<lparr>nr_node = tn_origin (tp_nodes g n), nr_start = tn_start (tp_nodes g n), nr_end = tn_end (tp_nodes g n)\<rparr>))
            (AdjustLaneChange p g v)))"

section \<open>The search\<close>

text \<open>The end of the part that follows on the same lane, where there is one.\<close>

definition end_on_lane :: "strategy \<Rightarrow> topo \<Rightarrow> nat \<Rightarrow> real" where
  "end_on_lane p g n =
     (case find (\<lambda>e. tn_LaneId (tp_nodes g (te_to (tp_edges g e))) = tn_LaneId (tp_nodes g n)) (st_ord p (out_to_all (tp_nodes g n))) of
        None \<Rightarrow> tn_end (tp_nodes g n)
      | Some e \<Rightarrow> tn_end (tp_nodes g (te_to (tp_edges g e))))"

definition GetResidualS_node :: "strategy \<Rightarrow> topo \<Rightarrow> astar \<Rightarrow> nat \<Rightarrow> real" where
  "GetResidualS_node p g st n =
     (case enter_s st n of
        None \<Rightarrow> st_rnd p (end_on_lane p g n - tn_start (tp_nodes g n))
      | Some x \<Rightarrow> if x > tn_end (tp_nodes g n) then 0 else st_rnd p (end_on_lane p g n - x))"

definition GetResidualS_edge :: "strategy \<Rightarrow> topo \<Rightarrow> astar \<Rightarrow> nat \<Rightarrow> nat \<Rightarrow> real" where
  "GetResidualS_edge p g st e to =
     (if te_Type (tp_edges g e) = TET_FORWARD then double_max
      else
        let rnd = st_rnd p; from = te_from (tp_edges g e);
            start_s = (case enter_s st from of
                         None \<Rightarrow> tn_start (tp_nodes g to)
                       | Some x \<Rightarrow> max (tn_start (tp_nodes g to)) (rnd (rnd (x / tn_Length (tp_nodes g from)) * tn_Length (tp_nodes g to))))
        in rnd (end_on_lane p g to - start_s))"

definition push_node :: "nat \<Rightarrow> nat \<Rightarrow> real \<Rightarrow> astar \<Rightarrow> astar" where
  "push_node to from f st = st\<lparr>g_score := (g_score st)(to := f), open_set_detail := open_set_detail st @ [(to, f)],
     came_from := (came_from st)(to \<mapsto> from), open_set := insert to (open_set st)\<rparr>"

text \<open>One edge of \<open>next_edge_set\<close>. Reading a missing entry of \<open>g_score_\<close> or \<open>enter_s_\<close> gives, and leaves, 0.\<close>

definition relax :: "strategy \<Rightarrow> topo \<Rightarrow> nat \<Rightarrow> nat \<Rightarrow> nat \<Rightarrow> astar \<Rightarrow> astar" where
  "relax p g dest_node from e st =
     (let rnd = st_rnd p; edge = tp_edges g e; to = te_to edge
      in if to \<in> closed_set st then st
         else if GetResidualS_edge p g st e to < min_length_for_lane_change then st
         else
           let tentative = rnd (g_score st from + GetCostToNeighbor rnd g e);
               tentative = (if te_Type edge \<noteq> TET_FORWARD
                            then rnd (tentative - rnd (rnd (tn_Cost (tp_nodes g (te_from edge)) + tn_Cost (tp_nodes g to)) / 2))
                            else tentative);
               f = rnd (tentative + HeuristicCost rnd g to dest_node)
           in if to \<in> open_set st \<and> f \<ge> g_score st to then st
              else if te_Type edge = TET_FORWARD then
                push_node to from f (st\<lparr>enter_s := (enter_s st)(to \<mapsto> tn_start (tp_nodes g to))\<rparr>)
              else
                let from_s = (case enter_s st from of None \<Rightarrow> 0 | Some x \<Rightarrow> x);
                    st = st\<lparr>enter_s := (enter_s st)(from \<mapsto> from_s)\<rparr>;
                    len = tn_Length (tp_nodes g to);
                    to_s = min (rnd (rnd (rnd (from_s + min_length_for_lane_change) / tn_Length (tp_nodes g from)) * len)) len
                in if to_s > tn_end (tp_nodes g to) \<and> to = dest_node then st
                   else push_node to from f (st\<lparr>enter_s := (enter_s st)(to \<mapsto> to_s)\<rparr>))"

definition next_edges :: "strategy \<Rightarrow> sub_graph \<Rightarrow> bool \<Rightarrow> nat \<Rightarrow> nat list" where
  "next_edges p s change n =
     (let m = tp_nodes (sg_topo s) n;
          neighbor_edges = (if change then out_to_all m else out_to_suc m)
      in st_ord p (remdups (concat (map (GetSubInEdgesIntoSubGraph (st_ord p) s) (st_ord p neighbor_edges)))))"

text \<open>The body of the loop after the check for the destination; the top is number \<open>k\<close> of the queue.\<close>

definition expand :: "strategy \<Rightarrow> sub_graph \<Rightarrow> nat \<Rightarrow> nat \<Rightarrow> astar \<Rightarrow> astar" where
  "expand p s dest_node k st =
     (let from = fst (open_set_detail st ! k);
          st = st\<lparr>open_set := open_set st - {from}, open_set_detail := take k (open_set_detail st) @ drop (Suc k) (open_set_detail st)\<rparr>
      in if from \<in> closed_set st then st
         else
           let st = st\<lparr>closed_set := insert from (closed_set st)\<rparr>;
               change = (GetResidualS_node p (sg_topo s) st from > min_length_for_lane_change \<and> change_lane_enabled p)
           in fold (relax p (sg_topo s) dest_node from) (next_edges p s change from) st)"

partial_function (option) search :: "strategy \<Rightarrow> sub_graph \<Rightarrow> nat \<Rightarrow> astar \<Rightarrow> node_with_range list option option" where
  "search p s dest_node st =
     (if open_set_detail st = [] then Some None
      else
        let k = st_top p (open_set_detail st)
        in if fst (open_set_detail st ! k) = dest_node then Reconstruct p (sg_topo s) (came_from st) dest_node
           else search p s dest_node (expand p s dest_node k st))"

definition start_search :: "strategy \<Rightarrow> topo \<Rightarrow> nat \<Rightarrow> nat \<Rightarrow> astar" where
  "start_search p g src_node dest_node =
     \<lparr>open_set = {src_node}, closed_set = {}, came_from = (\<lambda>_. None), g_score = (\<lambda>_. 0),
      enter_s = [src_node \<mapsto> tn_start (tp_nodes g src_node)],
      open_set_detail = [(src_node, HeuristicCost (st_rnd p) g src_node dest_node)]\<rparr>"

text \<open>The inner option is the boolean result of the code, with the route it writes where it is true.\<close>

definition Search :: "strategy \<Rightarrow> sub_graph \<Rightarrow> nat \<Rightarrow> nat \<Rightarrow> node_with_range list option option" where
  "Search p s src_node dest_node = search p s dest_node (start_search p (sg_topo s) src_node dest_node)"

section \<open>Routes stay linked\<close>

definition linked :: "topo \<Rightarrow> nat list \<Rightarrow> bool" where
  "linked g v \<longleftrightarrow> successively (\<lambda>a b. edge_between g a b \<noteq> None) v"

text \<open>Every node is longer than nothing, so one of any candidates is the largest.\<close>

definition all_long :: "(real \<Rightarrow> real) \<Rightarrow> topo \<Rightarrow> bool" where
  "all_long rnd g \<longleftrightarrow> (\<forall>n < tp_next_node g. 0 < node_range rnd g n)"

lemma linked_nth: "linked g v \<longleftrightarrow> (\<forall>i. Suc i < length v \<longrightarrow> edge_between g (v ! i) (v ! Suc i) \<noteq> None)"
  by (simp add: linked_def successively_conv_nth)

lemma linked_replace:
  assumes "linked g v" "edge_between g (v ! (i - 1)) c \<noteq> None" "edge_between g c (v ! (i + 1)) \<noteq> None" "0 < i"
  shows "linked g (v[i := c])"
  unfolding linked_nth
proof (intro allI impI)
  fix j assume j: "Suc j < length (v[i := c])"
  consider "j = i" | "Suc j = i" | "j \<noteq> i" "Suc j \<noteq> i" by blast
  then show "edge_between g (v[i := c] ! j) (v[i := c] ! Suc j) \<noteq> None"
    using assms j by cases (auto simp: linked_nth)
qed

lemma linked_before: "linked g v \<Longrightarrow> 0 < i \<Longrightarrow> i < length v \<Longrightarrow> edge_between g (v ! (i - 1)) (v ! i) \<noteq> None"
  unfolding linked_nth by (drule spec [of _ "i - 1"]) simp

lemma edge_between_lt:
  assumes "topo_wf g" "edge_between g a b = Some e"
  shows "a < tp_next_node g \<and> b < tp_next_node g"
proof -
  have "te_from (tp_edges g e) = a \<and> te_to (tp_edges g e) = b \<and> e < tp_next_edge g"
    using assms topo_wf_sides(1-6) [OF assms(1)] by (auto simp: edge_between_def split: option.splits)
  then show ?thesis using assms(1) by (auto simp: topo_wf_def)
qed

lemma linked_lt:
  assumes "topo_wf g" "linked g v" "2 \<le> length v" "n \<in> set v"
  shows "n < tp_next_node g"
proof -
  obtain i where i: "i < length v" "n = v ! i" using assms(4) by (metis in_set_conv_nth)
  have "\<exists>e. edge_between g (v ! i) (v ! Suc i) = Some e" if "Suc i < length v" using assms(2) that by (simp add: linked_nth)
  moreover have "\<exists>e. edge_between g (v ! (i - 1)) (v ! i) = Some e" if "0 < i"
    using linked_before [OF assms(2) that i(1)] by blast
  moreover have "Suc i < length v \<or> 0 < i" using assms(3) i by linarith
  ultimately show ?thesis using edge_between_lt [OF assms(1)] i by blast
qed

lemma largest_of:
  assumes "\<forall>n\<in>set ns. 0 < node_range rnd g n" "ns \<noteq> []"
  shows "\<exists>l\<in>set ns. GetLargestNode rnd g ns = Some l"
proof -
  let ?f = "\<lambda>n (m, l). if node_range rnd g n > m then (node_range rnd g n, Some n) else (m, l)"
  have keep: "snd (fold ?f ms (m, Some l)) \<in> Some ` insert l (set ms)" for ms m l
    by (induction ms arbitrary: m l) auto
  obtain n ms where ns: "ns = n # ms" using assms(2) by (cases ns) auto
  have "GetLargestNode rnd g ns = snd (fold ?f ms (node_range rnd g n, Some n))" using assms(1) by (simp add: GetLargestNode_def ns)
  moreover have "snd (fold ?f ms (node_range rnd g n, Some n)) \<in> Some ` set ns" using keep by (simp add: ns)
  ultimately show ?thesis by auto
qed

text \<open>A step of an adjustment at an inner place.\<close>

definition step_ok :: "topo \<Rightarrow> nat \<Rightarrow> nat list \<Rightarrow> nat list option \<Rightarrow> bool" where
  "step_ok g i v r \<longleftrightarrow> (\<exists>v'. r = Some v' \<and> linked g v' \<and> (\<exists>c. v' = v[i := c]))"

lemma step_okI: "linked g v \<Longrightarrow> i < length v \<Longrightarrow> step_ok g i v (Some v)"
  unfolding step_ok_def by (metis list_update_id)

lemma change_back_ok:
  assumes wf: "topo_wf g" and long: "all_long (st_rnd p) g" and ord: "\<And>xs. set (st_ord p xs) = set xs"
    and v: "linked g v" "0 < i" "i + 1 < length v"
  shows "step_ok g i v (change_back p g i v)"
proof -
  let ?from = "v ! i" and ?to = "v ! (i + 1)" and ?base = "v ! (i - 1)"
  obtain e where e: "edge_between g ?from ?to = Some e" using v by (auto simp: linked_nth)
  have b: "edge_between g ?base ?from \<noteq> None" using linked_before [OF v(1,2)] v(3) by simp
  let ?cs = "?from # filter (\<lambda>c. c \<noteq> ?from \<and> GetOutEdgeTo g c ?to \<noteq> None)
    (map (\<lambda>e. te_to (tp_edges g e)) (st_ord p (out_to_left_or_right (tp_nodes g ?base))))"
  have C: "edge_between g ?base c \<noteq> None \<and> edge_between g c ?to \<noteq> None" if c: "c \<in> set ?cs" for c
  proof (cases "c = ?from")
    case False
    then obtain x where x: "x \<in> set (out_to_all (tp_nodes g ?base))" "te_to (tp_edges g x) = c" "GetOutEdgeTo g c ?to \<noteq> None"
      using c by (auto simp: ord topo_wf_sides(8) [OF wf])
    then have "GetOutEdgeTo g ?base c = Some x" by (simp add: topo_wf_sides(5) [OF wf])
    then show ?thesis using x(3) by (auto simp: edge_between_def split: option.split)
  qed (use e b in simp)
  then have "0 < node_range (st_rnd p) g c" if "c \<in> set ?cs" for c
    using that long edge_between_lt [OF wf] unfolding all_long_def by blast
  then obtain l where l: "l \<in> set ?cs" "GetLargestNode (st_rnd p) g ?cs = Some l" using largest_of [of ?cs] by blast
  have "step_ok g i v (Some (v[i := l]))" using linked_replace [OF v(1)] C [OF l(1)] v(2) by (auto simp: step_ok_def)
  then show ?thesis using step_okI [OF v(1), of i] v(3) e l(2) by (auto simp: change_back_def Let_def)
qed

lemma change_ahead_ok:
  assumes wf: "topo_wf g" and long: "all_long (st_rnd p) g" and ord: "\<And>xs. set (st_ord p xs) = set xs"
    and v: "linked g v" "0 < i" "i + 1 < length v"
  shows "step_ok g i v (change_ahead p g i v)"
proof -
  let ?from = "v ! (i - 1)" and ?to = "v ! i" and ?base = "v ! (i + 1)"
  obtain e where e: "edge_between g ?from ?to = Some e" using linked_before [OF v(1,2)] v(3) by auto
  have b: "edge_between g ?to ?base \<noteq> None" using v by (simp add: linked_nth)
  let ?cs = "?to # filter (\<lambda>c. c \<noteq> ?to \<and> GetInEdgeFrom g c ?from \<noteq> None)
    (map (\<lambda>e. te_from (tp_edges g e)) (st_ord p (in_from_left_or_right (tp_nodes g ?base))))"
  have C: "edge_between g ?from c \<noteq> None \<and> edge_between g c ?base \<noteq> None" if c: "c \<in> set ?cs" for c
  proof (cases "c = ?to")
    case False
    then obtain x where x: "x \<in> set (in_from_all (tp_nodes g ?base))" "te_from (tp_edges g x) = c" "GetInEdgeFrom g c ?from \<noteq> None"
      using c by (auto simp: ord topo_wf_sides(9) [OF wf])
    then have "GetInEdgeFrom g ?base c = Some x" by (simp add: topo_wf_sides(6) [OF wf])
    then show ?thesis using x(3) by (auto simp: edge_between_def split: option.split)
  qed (use e b in simp)
  then have "0 < node_range (st_rnd p) g c" if "c \<in> set ?cs" for c
    using that long edge_between_lt [OF wf] unfolding all_long_def by blast
  then obtain l where l: "l \<in> set ?cs" "GetLargestNode (st_rnd p) g ?cs = Some l" using largest_of [of ?cs] by blast
  have "step_ok g i v (Some (v[i := l]))" using linked_replace [OF v(1)] C [OF l(1)] v(2) by (auto simp: step_ok_def)
  then show ?thesis using step_okI [OF v(1), of i] v(3) e l(2) by (auto simp: change_ahead_def Let_def)
qed

text \<open>Adjusting never fails, and keeps the ends and the length.\<close>

definition kept_route :: "topo \<Rightarrow> nat list \<Rightarrow> nat list \<Rightarrow> bool" where
  "kept_route g v v' \<longleftrightarrow> linked g v' \<and> length v' = length v \<and> hd v' = hd v \<and> last v' = last v"

lemma kept_route_trans: "kept_route g u v \<Longrightarrow> kept_route g v w \<Longrightarrow> kept_route g u w"
  by (simp add: kept_route_def)

lemma adjust_all_ok:
  assumes f: "\<And>i v. linked g v \<Longrightarrow> 0 < i \<Longrightarrow> i + 1 < length v \<Longrightarrow> step_ok g i v (f i v)"
  shows "linked g v \<Longrightarrow> set ks \<subseteq> {1..<length v - 1} \<Longrightarrow> \<exists>v'. adjust_all f ks v = Some v' \<and> kept_route g v v'"
proof (induction ks arbitrary: v)
  case (Cons i ks)
  have i: "0 < i" "i + 1 < length v" using Cons.prems(2) by auto
  from f [OF Cons.prems(1) i] obtain c where c: "f i v = Some (v[i := c])" "linked g (v[i := c])" by (auto simp: step_ok_def)
  then have k: "kept_route g v (v[i := c])" using c(2) i
    by (cases v) (auto simp: kept_route_def last_list_update split: nat.split)
  obtain v' where "adjust_all f ks (v[i := c]) = Some v' \<and> kept_route g (v[i := c]) v'"
    using Cons.IH [OF c(2)] Cons.prems(2) by auto
  then show ?case using c k kept_route_trans by auto
qed (simp add: kept_route_def)

lemma AdjustLaneChange_ok:
  assumes wf: "topo_wf g" and long: "all_long (st_rnd p) g" and ord: "\<And>xs. set (st_ord p xs) = set xs" and v: "linked g v"
  shows "\<exists>v'. AdjustLaneChange p g v = Some v' \<and> kept_route g v v'"
proof (cases "length v < 3")
  case True
  then show ?thesis using v by (simp add: AdjustLaneChange_def kept_route_def)
next
  case False
  have "\<And>i v. linked g v \<Longrightarrow> 0 < i \<Longrightarrow> i + 1 < length v \<Longrightarrow> step_ok g i v (change_back p g i v)"
    by (rule change_back_ok [OF wf long ord])
  from adjust_all_ok [of g "change_back p g", OF this v, of "rev [1 ..< length v - 1]"]
  obtain u where u: "AdjustLaneChangeBackward p g v = Some u" "kept_route g v u" by (auto simp: AdjustLaneChangeBackward_def)
  have l: "linked g u" using u by (simp add: kept_route_def)
  have "\<And>i v. linked g v \<Longrightarrow> 0 < i \<Longrightarrow> i + 1 < length v \<Longrightarrow> step_ok g i v (change_ahead p g i v)"
    by (rule change_ahead_ok [OF wf long ord])
  from adjust_all_ok [of g "change_ahead p g", OF this l, of "[1 ..< length u - 1]"]
  obtain w where w: "AdjustLaneChangeForward p g u = Some w" "kept_route g u w" by (auto simp: AdjustLaneChangeForward_def)
  show ?thesis using False u w kept_route_trans by (auto simp: AdjustLaneChange_def)
qed

section \<open>Built graphs have no empty nodes\<close>

lemma all_long_stays: "stays g g' \<Longrightarrow> all_long rnd g \<Longrightarrow> all_long rnd g'"
  by (simp add: stays_def same_nodes_def all_long_def node_range_def)

lemma close_rounding_pos:
  assumes "close_rounding rnd" "kLenghtEpsilon < x"
  shows "0 < rnd x"
proof -
  define t :: real where "t = 1 / 2 ^ 1074"
  have t: "t \<le> 1 / 2 ^ 21" unfolding t_def by (rule divide_left_mono) (simp_all add: power_increasing)
  have "\<bar>rnd x - x\<bar> \<le> \<bar>x\<bar> / 2 ^ 53 + t" using assms(1) unfolding close_rounding_def t_def by blast
  moreover have "\<bar>x\<bar> / 2 ^ 53 \<le> x / 4" using assms(2) by (simp add: kLenghtEpsilon_def field_simps)
  moreover have "1 / 2 ^ 21 < (3 / 4) * x" using assms(2) by (simp add: kLenghtEpsilon_def field_simps)
  ultimately show ?thesis using t by linarith
qed

definition whole_lanes :: "topo \<Rightarrow> bool" where
  "whole_lanes g \<longleftrightarrow> (\<forall>n < tp_next_node g. tn_start (tp_nodes g n) = 0 \<and> kLenghtEpsilon < tn_end (tp_nodes g n))"

lemma load_node_whole: "whole_lanes (tg_topo t) \<Longrightarrow> load_node rnd node t = Some t' \<Longrightarrow> whole_lanes (tg_topo t')"
  by (auto simp: load_node_def whole_lanes_def Let_def less_Suc_eq new_topo_node_sel split: option.splits)

lemma load_nodes_whole: "whole_lanes (tg_topo t) \<Longrightarrow> load_nodes rnd ns t = Some t' \<Longrightarrow> whole_lanes (tg_topo t')"
  by (induction ns arbitrary: t) (auto split: option.splits dest: load_node_whole)

lemma load_edges_whole: "whole_lanes (tg_topo t) \<Longrightarrow> whole_lanes (tg_topo (snd (load_edges es t)))"
proof (induction es arbitrary: t)
  case (Cons edge es)
  show ?case
  proof (cases "node_index_map t (from_lane_id edge) \<noteq> None \<and> node_index_map t (to_lane_id edge) \<noteq> None")
    case True
    then obtain i j where ij: "node_index_map t (from_lane_id edge) = Some i" "node_index_map t (to_lane_id edge) = Some j" by blast
    let ?f = "topo_nodes t ! i" and ?t = "topo_nodes t ! j"
    have "whole_lanes (add_edge_out_in edge ?f ?t (tg_topo t))"
      using Cons.prems by (simp add: whole_lanes_def add_edge_out_in_def new_edge_def AddInEdge_def AddOutEdge_def Let_def)
    then have "whole_lanes (tg_topo (t\<lparr>tg_topo := add_edge_out_in edge ?f ?t (tg_topo t), topo_edges := topo_edges t @ [tp_next_edge (tg_topo t)]\<rparr>))"
      by simp
    from Cons.IH [OF this] ij show ?thesis by (simp add: add_edge_out_in_def new_edge_def Let_def)
  qed (use Cons.prems in \<open>auto split: option.splits\<close>)
qed simp

lemma LoadGraph_whole:
  assumes "LoadGraph rnd graph new_topo_graph = Some (b, t)"
  shows "whole_lanes (tg_topo t)"
proof -
  let ?c = "(TopoGraph_Clear new_topo_graph)\<lparr>map_version := hdmap_version graph, map_district := hdmap_district graph\<rparr>"
  have w: "whole_lanes (tg_topo ?c)"
    by (simp add: whole_lanes_def TopoGraph_Clear_def new_topo_graph_def empty_topo_def)
  from assms show ?thesis
  proof (cases "pb_nodes graph = []")
    case True
    then show ?thesis using assms w by (simp add: LoadGraph_def LoadNodes_def)
  next
    case False
    then obtain t1 where t1: "load_nodes rnd (pb_nodes graph) ?c = Some t1" "(b, t) = load_edges (pb_edges graph) t1"
      using assms by (auto simp: LoadGraph_def LoadNodes_def split: option.splits)
    from load_edges_whole [OF load_nodes_whole [OF w t1(1)], of "pb_edges graph"] show ?thesis unfolding t1(2) [symmetric] by simp
  qed
qed

lemma whole_lanes_long: "whole_lanes g \<Longrightarrow> close_rounding rnd \<Longrightarrow> all_long rnd g"
  by (simp add: whole_lanes_def all_long_def node_range_def close_rounding_pos)

lemma make_sub_nodes_long: "all_long rnd g \<Longrightarrow> make_sub_nodes rnd n rs g = Some (subs, g') \<Longrightarrow> all_long rnd g'"
proof (induction rs arbitrary: g subs)
  case (Cons r rs)
  show ?case
  proof (cases "range_Length rnd r < MIN_INTERNAL_FOR_NODE")
    case False
    let ?new = "tp_next_node g"
    obtain m where m: "new_sub_node rnd (tp_nodes g n) n r ?new = Some m"
      using Cons.prems(2) False by (auto simp: Let_def split: option.splits)
    let ?g = "g\<lparr>tp_nodes := (tp_nodes g)(?new := m), tp_next_node := ?new + 1\<rparr>"
    obtain subs' where s: "make_sub_nodes rnd n rs ?g = Some (subs', g')"
      using Cons.prems(2) False m by (auto simp: Let_def split: option.splits)
    have "all_long rnd ?g" using Cons.prems(1) False new_sub_node_sel [OF m]
      by (auto simp: all_long_def node_range_def range_Length_def MIN_INTERNAL_FOR_NODE_def less_Suc_eq)
    from Cons.IH [OF this s] show ?thesis .
  qed (use Cons in simp)
qed simp

lemma init_all_long:
  "sub_ok g0 s \<Longrightarrow> all_long rnd (sg_topo s) \<Longrightarrow> \<forall>(n, rs)\<in>set bs. n < tp_next_node g0 \<Longrightarrow> init_all_sub_nodes rnd bs s = Some s' \<Longrightarrow>
   all_long rnd (sg_topo s')"
proof (induction bs arbitrary: s)
  case (Cons b bs)
  obtain n rs where b: "b = (n, rs)" by (cases b)
  let ?v = "GetSortedValidRange (tn_start (tp_nodes (sg_topo s) n)) (tn_end (tp_nodes (sg_topo s) n)) rs"
  obtain s1 where s1: "InitSubNodeByValidRange rnd n ?v s = Some s1" "init_all_sub_nodes rnd bs s1 = Some s'"
    using Cons.prems(4) b by (auto simp: Let_def split: option.splits)
  have n: "n < tp_next_node g0" using Cons.prems(3) b by simp
  obtain subs g1 where M: "make_sub_nodes rnd n ?v (sg_topo s) = Some (subs, g1)"
    "sg_topo s1 = link_sub_nodes rnd (tn_LaneId (tp_nodes g1 n)) (map fst subs) g1"
    using s1(1) by (auto simp: InitSubNodeByValidRange_def split: option.splits)
  have wf: "topo_wf (sg_topo s)" "n < tp_next_node (sg_topo s)" using Cons.prems(1) n by (auto simp: sub_ok_def extends_def)
  have "stays g1 (sg_topo s1)" unfolding M(2)
    by (rule link_sub_nodes_stays [OF stays_refl]) (use make_sub_nodes_spec [OF wf M(1)] in \<open>auto simp: extends_def\<close>)
  then have "all_long rnd (sg_topo s1)" using make_sub_nodes_long [OF Cons.prems(2) M(1)] by (rule all_long_stays)
  moreover have "sub_ok g0 s1" by (rule InitSubNode_ok(1) [OF Cons.prems(1) n s1(1)])
  ultimately show ?case using Cons.IH [OF _ _ _ s1(2)] Cons.prems(3) by simp
qed simp

lemma new_sub_graph_long:
  assumes wf: "topo_wf g" and long: "all_long rnd g" and bs: "\<forall>(n, rs)\<in>set black_map. n < tp_next_node g"
    and ord: "\<And>xs :: nat list. set (ord xs) = set xs" and s: "new_sub_graph rnd ord black_map g = Some s"
  shows "all_long rnd (sg_topo s)"
proof -
  let ?s0 = "\<lparr>sg_topo = g, sub_node_range_sorted_map = (\<lambda>_. None), sub_node_map = (\<lambda>_. None)\<rparr>"
  obtain s1 where s1: "init_all_sub_nodes rnd black_map ?s0 = Some s1"
    "s = fold (AddPotentialEdge rnd ord) (map fst black_map) (fold (InitSubEdge rnd ord) (map fst black_map) s1)"
    using s by (auto simp: new_sub_graph_def split: option.splits)
  have ok: "sub_ok g ?s0" using wf by (simp add: sub_ok_def extends_refl)
  have keep: "sub_ok g (fold f ns u) \<and> all_long rnd (sg_topo (fold f ns u))"
    if "sub_ok g u" "all_long rnd (sg_topo u)" "f \<in> {AddPotentialEdge rnd ord, InitSubEdge rnd ord}" for f ns u
    using that(1,2)
  proof (induction ns arbitrary: u)
    case (Cons n ns)
    have "sub_ok g (f n u)" "stays (sg_topo u) (sg_topo (f n u))" using InitSubEdge_ok [OF Cons.prems(1) ord, of rnd n] that(3) by auto
    then show ?case using Cons.IH all_long_stays [OF _ Cons.prems(2)] by simp
  qed simp
  have 1: "sub_ok g s1" using init_all_ok [OF ok bs s1(1)] by blast
  have 2: "all_long rnd (sg_topo s1)" using init_all_long [OF ok _ bs s1(1)] long by simp
  note k1 = keep [OF 1 2, of "InitSubEdge rnd ord" "map fst black_map"]
  show ?thesis unfolding s1(2) using k1 keep [of _ "AddPotentialEdge rnd ord" "map fst black_map"] by blast
qed

section \<open>The search ends, on a linked route\<close>

text \<open>A step of the search that stays on a lane or follows it: its edge always passes the checks of the length left.\<close>

definition forward_step :: "strategy \<Rightarrow> sub_graph \<Rightarrow> nat \<Rightarrow> nat \<Rightarrow> bool" where
  "forward_step p s a b \<longleftrightarrow> (\<exists>e\<in>set (out_to_suc (tp_nodes (sg_topo s) a)). \<exists>e'\<in>set (GetSubInEdgesIntoSubGraph (st_ord p) s e).
     te_Type (tp_edges (sg_topo s) e') = TET_FORWARD \<and> te_to (tp_edges (sg_topo s) e') = b)"

definition leads :: "(nat \<Rightarrow> nat option) \<Rightarrow> nat \<Rightarrow> nat \<Rightarrow> nat list \<Rightarrow> bool" where
  "leads cf src n v \<longleftrightarrow> v \<noteq> [] \<and> hd v = src \<and> last v = n \<and> successively (\<lambda>a b. cf b = Some a) v"

definition queued :: "astar \<Rightarrow> nat set" where
  "queued st = fst ` set (open_set_detail st)"

definition search_inv :: "topo \<Rightarrow> nat \<Rightarrow> nat \<Rightarrow> astar \<Rightarrow> bool" where
  "search_inv g src dest st \<longleftrightarrow>
     came_from st src = None \<and> dest \<notin> closed_set st \<and> closed_set st \<subseteq> {..<tp_next_node g} \<and>
     (\<forall>n\<in>closed_set st. \<exists>v. leads (came_from st) src n v \<and> set v \<subseteq> closed_set st) \<and>
     (\<forall>b a. came_from st b = Some a \<longrightarrow> edge_between g a b \<noteq> None \<and> a \<in> closed_set st) \<and>
     (\<forall>n\<in>queued st. n < tp_next_node g \<and> (n \<in> closed_set st \<or> n = src \<or> came_from st n \<noteq> None)) \<and>
     open_set st \<subseteq> queued st \<and> (closed_set st = {} \<or> src \<in> closed_set st) \<and> (src \<in> closed_set st \<or> src \<in> queued st)"

lemma search_invD:
  assumes "search_inv g src dest st"
  shows "came_from st src = None" "dest \<notin> closed_set st" "closed_set st \<subseteq> {..<tp_next_node g}"
    "\<forall>n\<in>closed_set st. \<exists>v. leads (came_from st) src n v \<and> set v \<subseteq> closed_set st"
    "\<forall>b a. came_from st b = Some a \<longrightarrow> edge_between g a b \<noteq> None \<and> a \<in> closed_set st"
    "\<forall>n\<in>queued st. n < tp_next_node g \<and> (n \<in> closed_set st \<or> n = src \<or> came_from st n \<noteq> None)"
    "open_set st \<subseteq> queued st" "closed_set st = {} \<or> src \<in> closed_set st" "src \<in> closed_set st \<or> src \<in> queued st"
  using assms unfolding search_inv_def by simp_all

definition settled :: "strategy \<Rightarrow> sub_graph \<Rightarrow> nat set \<Rightarrow> astar \<Rightarrow> bool" where
  "settled p s X st \<longleftrightarrow> (\<forall>n\<in>X. \<forall>m. forward_step p s n m \<longrightarrow> m \<in> closed_set st \<union> queued st)"

lemma leads_snoc: "leads cf src m v \<Longrightarrow> cf n = Some m \<Longrightarrow> leads cf src n (v @ [n])"
  by (auto simp: leads_def successively_append_iff)

lemma trace_leads: "cf src = None \<Longrightarrow> leads cf src n v \<Longrightarrow> trace cf n w = Some (v @ w)"
proof (induction v arbitrary: n w rule: rev_induct)
  case (snoc m v)
  then have m: "m = n" by (simp add: leads_def)
  show ?case
  proof (cases "v = []")
    case True
    then have "n = src" using snoc.prems m by (simp add: leads_def)
    then show ?thesis using True m snoc.prems(1) by (simp add: trace.simps)
  next
    case False
    then have "cf n = Some (last v)" "leads cf src (last v) v"
      using snoc.prems(2) m by (auto simp: leads_def successively_append_iff)
    then show ?thesis using snoc.IH [OF snoc.prems(1)] m by (simp add: trace.simps)
  qed
qed (simp add: leads_def)

lemma leads_upd:
  assumes "leads cf src n v" "x \<notin> set v"
  shows "leads (cf(x \<mapsto> y)) src n v"
proof -
  have "v ! Suc i \<noteq> x" if "Suc i < length v" for i using assms(2) that nth_mem by blast
  then show ?thesis using assms(1) by (auto simp: leads_def successively_conv_nth)
qed

lemma double_max_large: "\<not> double_max < min_length_for_lane_change"
proof -
  have "(1 :: real) * 1 \<le> (2 - 1 / 2 ^ 52) * 2 ^ 1023" by (rule mult_mono) simp_all
  then show ?thesis by (simp add: double_max_def min_length_for_lane_change_def)
qed

text \<open>What relaxing an edge can do.\<close>

lemma relax_shape:
  "\<exists>B C D es1 es2 es3 f. relax p g dest at_node e st =
     (if te_to (tp_edges g e) \<in> closed_set st then st else if B then st else if te_to (tp_edges g e) \<in> open_set st \<and> C then st
      else if te_Type (tp_edges g e) = TET_FORWARD then push_node (te_to (tp_edges g e)) at_node f (st\<lparr>enter_s := es1\<rparr>)
      else if D then st\<lparr>enter_s := es2\<rparr> else push_node (te_to (tp_edges g e)) at_node f (st\<lparr>enter_s := es2\<rparr>\<lparr>enter_s := es3\<rparr>)) \<and>
     B = (GetResidualS_edge p g st e (te_to (tp_edges g e)) < min_length_for_lane_change)"
  unfolding relax_def Let_def by (intro exI conjI) (rule refl)+

lemma relax_cases:
  fixes p g dest at_node e st
  defines "to \<equiv> te_to (tp_edges g e)" and "r \<equiv> relax p g dest at_node e st"
  shows "(\<exists>es. r = st\<lparr>enter_s := es\<rparr>) \<and> (te_Type (tp_edges g e) = TET_FORWARD \<longrightarrow> to \<in> closed_set st \<or> to \<in> open_set st) \<or>
    to \<notin> closed_set st \<and> (\<exists>es f. r = push_node to at_node f (st\<lparr>enter_s := es\<rparr>))"
proof -
  have same: "\<exists>es. st = st\<lparr>enter_s := es\<rparr>" by (rule exI [of _ "enter_s st"]) simp
  have two: "st\<lparr>enter_s := es2\<rparr>\<lparr>enter_s := es3\<rparr> = st\<lparr>enter_s := es3\<rparr>" for es2 es3 by simp
  have "te_Type (tp_edges g e) = TET_FORWARD \<longrightarrow> \<not> GetResidualS_edge p g st e to < min_length_for_lane_change"
    using double_max_large by (simp add: GetResidualS_edge_def)
  with relax_shape [of p g dest at_node e st, folded to_def r_def] same two show ?thesis by (elim exE conjE) (auto split: if_splits)
qed

lemma push_node_inv:
  assumes inv: "search_inv g src dest st" and src: "src \<in> closed_set st" and fr: "from \<in> closed_set st"
    and to: "to \<notin> closed_set st" "to < tp_next_node g" "edge_between g from to \<noteq> None"
  shows "search_inv g src dest (push_node to from f (st\<lparr>enter_s := es\<rparr>))"
proof -
  let ?st = "push_node to from f (st\<lparr>enter_s := es\<rparr>)"
  have s: "closed_set ?st = closed_set st" "came_from ?st = (came_from st)(to \<mapsto> from)" "queued ?st = insert to (queued st)"
    "open_set ?st = insert to (open_set st)" by (auto simp: push_node_def queued_def)
  have "\<exists>v. leads (came_from ?st) src n v \<and> set v \<subseteq> closed_set ?st" if n: "n \<in> closed_set ?st" for n
  proof -
    have "n \<in> closed_set st" using n unfolding s(1) .
    then obtain v where v: "leads (came_from st) src n v" "set v \<subseteq> closed_set st" using inv unfolding search_inv_def by blast
    then have "to \<notin> set v" using to(1) by blast
    from leads_upd [OF v(1) this] v(2) show ?thesis unfolding s(1,2) by blast
  qed
  then have L: "\<forall>n\<in>closed_set st. \<exists>v. leads ((came_from st)(to \<mapsto> from)) src n v \<and> set v \<subseteq> closed_set st" unfolding s(1,2) by blast
  have ns: "to \<noteq> src" using src to(1) by blast
  note I = inv [unfolded search_inv_def]
  have "((came_from st)(to \<mapsto> from)) src = None" using I ns by simp
  moreover have "\<forall>b a. ((came_from st)(to \<mapsto> from)) b = Some a \<longrightarrow> edge_between g a b \<noteq> None \<and> a \<in> closed_set st" using I to(3) fr by simp
  moreover have "\<forall>n\<in>insert to (queued st). n < tp_next_node g \<and> (n \<in> closed_set st \<or> n = src \<or> ((came_from st)(to \<mapsto> from)) n \<noteq> None)"
    using I to(2) by simp
  moreover have "insert to (open_set st) \<subseteq> insert to (queued st)" using I by blast
  ultimately show ?thesis unfolding search_inv_def s using L I by (intro conjI) blast+
qed

lemma relax_inv:
  assumes inv: "search_inv g src dest st" and src: "src \<in> closed_set st" and fr: "from \<in> closed_set st"
    and to: "te_to (tp_edges g e) < tp_next_node g" "edge_between g from (te_to (tp_edges g e)) \<noteq> None"
  shows "search_inv g src dest (relax p g dest from e st) \<and> closed_set (relax p g dest from e st) = closed_set st \<and>
    queued st \<subseteq> queued (relax p g dest from e st) \<and>
    (te_Type (tp_edges g e) = TET_FORWARD \<longrightarrow> te_to (tp_edges g e) \<in> closed_set st \<union> queued (relax p g dest from e st))"
  using relax_cases [of p g dest "from" e st]
proof (elim disjE conjE exE)
  fix es assume r: "relax p g dest from e st = st\<lparr>enter_s := es\<rparr>"
    and t: "te_Type (tp_edges g e) = TET_FORWARD \<longrightarrow> te_to (tp_edges g e) \<in> closed_set st \<or> te_to (tp_edges g e) \<in> open_set st"
  have "queued (st\<lparr>enter_s := es\<rparr>) = queued st" by (simp add: queued_def)
  then show ?thesis using inv t unfolding r search_inv_def by auto
next
  fix es f assume c: "te_to (tp_edges g e) \<notin> closed_set st"
    and r: "relax p g dest from e st = push_node (te_to (tp_edges g e)) from f (st\<lparr>enter_s := es\<rparr>)"
  show ?thesis unfolding r using push_node_inv [OF inv src fr c to] by (auto simp: push_node_def queued_def)
qed

lemma relax_all_inv:
  "search_inv g src dest st \<Longrightarrow> src \<in> closed_set st \<Longrightarrow> from \<in> closed_set st \<Longrightarrow>
   \<forall>e\<in>set es. te_to (tp_edges g e) < tp_next_node g \<and> edge_between g from (te_to (tp_edges g e)) \<noteq> None \<Longrightarrow>
   search_inv g src dest (fold (relax p g dest from) es st) \<and> closed_set (fold (relax p g dest from) es st) = closed_set st \<and>
   queued st \<subseteq> queued (fold (relax p g dest from) es st) \<and>
   (\<forall>e\<in>set es. te_Type (tp_edges g e) = TET_FORWARD \<longrightarrow> te_to (tp_edges g e) \<in> closed_set st \<union> queued (fold (relax p g dest from) es st))"
proof (induction es arbitrary: st)
  case (Cons e es)
  let ?r = "relax p g dest from e st"
  have R: "search_inv g src dest ?r \<and> closed_set ?r = closed_set st \<and> queued st \<subseteq> queued ?r \<and>
    (te_Type (tp_edges g e) = TET_FORWARD \<longrightarrow> te_to (tp_edges g e) \<in> closed_set st \<union> queued ?r)"
    by (rule relax_inv) (use Cons.prems in simp_all)
  then show ?case using Cons.IH [of ?r] Cons.prems by auto
qed simp

lemma next_edges_ends:
  assumes wf: "topo_wf (sg_topo s)" and ord: "\<And>xs. set (st_ord p xs) = set xs" and e: "e \<in> set (next_edges p s change n)"
  shows "te_to (tp_edges (sg_topo s) e) < tp_next_node (sg_topo s) \<and> edge_between (sg_topo s) n (te_to (tp_edges (sg_topo s) e)) \<noteq> None"
proof -
  let ?g = "sg_topo s"
  obtain x where x: "x \<in> set (out_to_all (tp_nodes ?g n))" "e \<in> set (GetSubInEdgesIntoSubGraph (st_ord p) s x)"
    using e by (auto simp: next_edges_def Let_def ord topo_wf_sides(7) [OF wf] split: if_splits)
  then have fr: "te_from (tp_edges ?g x) = n" using topo_wf_sides(3) [OF wf] by simp
  have "GetOutEdgeTo ?g n (te_to (tp_edges ?g e)) = Some e \<or> GetInEdgeFrom ?g (te_to (tp_edges ?g e)) n = Some e"
  proof (cases "e = x")
    case True
    then show ?thesis using x(1) by (simp add: topo_wf_sides(5) [OF wf])
  next
    case False
    then obtain m where m: "e \<in> set (in_from_all (tp_nodes ?g m))" "te_from (tp_edges ?g e) = n"
      using x(2) fr by (auto simp: GetSubInEdgesIntoSubGraph_def Let_def ord split: if_splits option.splits)
    then show ?thesis using topo_wf_sides(4,6) [OF wf] by blast
  qed
  then have "edge_between ?g n (te_to (tp_edges ?g e)) \<noteq> None" by (auto simp: edge_between_def split: option.split)
  then show ?thesis using edge_between_lt [OF wf] by blast
qed

lemma next_edges_forward:
  assumes "topo_wf (sg_topo s)" "\<And>xs. set (st_ord p xs) = set xs" "forward_step p s n m"
  shows "\<exists>e\<in>set (next_edges p s change n). te_Type (tp_edges (sg_topo s) e) = TET_FORWARD \<and> te_to (tp_edges (sg_topo s) e) = m"
  using assms(3) topo_wf_sides(7) [OF assms(1)] by (auto simp: forward_step_def next_edges_def Let_def assms(2))

lemma leads_to_queued:
  assumes inv: "search_inv g src dest st" and n: "n \<in> queued st" "n \<notin> closed_set st"
  shows "\<exists>v. leads (came_from st) src n v \<and> set v \<subseteq> insert n (closed_set st)"
proof (cases "n = src")
  case True
  then have "leads (came_from st) src n [n]" by (simp add: leads_def)
  then show ?thesis by (intro exI [of _ "[n]"]) simp
next
  case False
  then obtain m where m: "came_from st n = Some m" "m \<in> closed_set st" using inv n unfolding search_inv_def by blast
  then obtain v where "leads (came_from st) src m v" "set v \<subseteq> closed_set st" using inv unfolding search_inv_def by blast
  then show ?thesis using leads_snoc m(1) by (intro exI [of _ "v @ [n]"]) auto
qed

lemma queued_pop:
  assumes "k < length q"
  shows "fst ` set q = insert (fst (q ! k)) (fst ` set (take k q @ drop (Suc k) q))"
proof -
  have "set q = set (take k q @ q ! k # drop (Suc k) q)" using id_take_nth_drop [OF assms] by simp
  then show ?thesis by auto
qed

definition pop_node :: "nat \<Rightarrow> astar \<Rightarrow> astar" where
  "pop_node k st = st\<lparr>open_set := open_set st - {fst (open_set_detail st ! k)},
     open_set_detail := take k (open_set_detail st) @ drop (Suc k) (open_set_detail st)\<rparr>"

lemma expand_alt:
  "expand p s dest k st =
     (let n = fst (open_set_detail st ! k); st = pop_node k st
      in if n \<in> closed_set st then st
         else let st = st\<lparr>closed_set := insert n (closed_set st)\<rparr>
              in fold (relax p (sg_topo s) dest n)
                   (next_edges p s (GetResidualS_node p (sg_topo s) st n > min_length_for_lane_change \<and> change_lane_enabled p) n) st)"
  by (simp add: expand_def pop_node_def Let_def)

lemma pop_seen_inv:
  assumes inv: "search_inv g src dest st" and k: "k < length (open_set_detail st)" and c: "fst (open_set_detail st ! k) \<in> closed_set st"
  shows "search_inv g src dest (pop_node k st) \<and> closed_set (pop_node k st) = closed_set st \<and>
    closed_set st \<union> queued (pop_node k st) = closed_set st \<union> queued st"
proof -
  let ?n = "fst (open_set_detail st ! k)" and ?st = "pop_node k st"
  have s: "closed_set ?st = closed_set st" "came_from ?st = came_from st" "open_set ?st = open_set st - {?n}"
    by (simp_all add: pop_node_def)
  have q: "queued st = insert ?n (queued ?st)" using queued_pop [OF k] by (simp add: queued_def pop_node_def)
  note I = search_invD [OF inv]
  have src: "src \<in> closed_set st" using I(8) c by blast
  have "open_set st - {?n} \<subseteq> queued ?st" using I(7) q by blast
  moreover have "\<forall>n\<in>queued ?st. n < tp_next_node g \<and> (n \<in> closed_set st \<or> n = src \<or> came_from st n \<noteq> None)" using I(6) q by blast
  moreover have "src \<in> closed_set st \<or> src \<in> queued ?st" using src by blast
  ultimately have "search_inv g src dest ?st" unfolding search_inv_def s using I(1-5,8) by (intro conjI)
  moreover have "closed_set st \<union> queued ?st = closed_set st \<union> queued st" unfolding q using c by blast
  ultimately show ?thesis using s(1) by simp
qed

lemma close_inv:
  assumes inv: "search_inv g src dest st" and k: "k < length (open_set_detail st)" and c: "fst (open_set_detail st ! k) \<notin> closed_set st"
    and d: "fst (open_set_detail st ! k) \<noteq> dest"
  defines "st' \<equiv> pop_node k st\<lparr>closed_set := insert (fst (open_set_detail st ! k)) (closed_set (pop_node k st))\<rparr>"
  shows "search_inv g src dest st' \<and> closed_set st' = insert (fst (open_set_detail st ! k)) (closed_set st) \<and>
    src \<in> closed_set st' \<and> closed_set st \<union> queued st \<subseteq> closed_set st' \<union> queued st'"
proof -
  let ?n = "fst (open_set_detail st ! k)"
  have s: "closed_set st' = insert ?n (closed_set st)" "came_from st' = came_from st" "open_set st' = open_set st - {?n}"
    by (simp_all add: pop_node_def st'_def)
  have q: "queued st = insert ?n (queued st')" using queued_pop [OF k] by (simp add: queued_def pop_node_def st'_def)
  then have n: "?n \<in> queued st" by blast
  note I = search_invD [OF inv]
  have N: "?n < tp_next_node g" using I(6) n by blast
  have src: "src \<in> insert ?n (closed_set st)"
  proof (cases "?n = src")
    case False
    then have "closed_set st \<noteq> {}" using I(5,6) n c by blast
    then show ?thesis using I(8) by blast
  qed simp
  have "\<forall>n\<in>insert ?n (closed_set st). \<exists>v. leads (came_from st) src n v \<and> set v \<subseteq> insert ?n (closed_set st)"
    using leads_to_queued [OF inv n c] I(4) by blast
  moreover have "\<forall>b a. came_from st b = Some a \<longrightarrow> edge_between g a b \<noteq> None \<and> a \<in> insert ?n (closed_set st)" using I(5) by blast
  moreover have "\<forall>n\<in>queued st'. n < tp_next_node g \<and> (n \<in> insert ?n (closed_set st) \<or> n = src \<or> came_from st n \<noteq> None)"
    using I(6) q by blast
  moreover have "open_set st - {?n} \<subseteq> queued st'" using I(7) q by blast
  moreover have "insert ?n (closed_set st) \<subseteq> {..<tp_next_node g}" using I(3) N by blast
  moreover have "dest \<notin> insert ?n (closed_set st)" using I(2) d by blast
  moreover have "insert ?n (closed_set st) = {} \<or> src \<in> insert ?n (closed_set st)"
    "src \<in> insert ?n (closed_set st) \<or> src \<in> queued st'" using src by blast+
  ultimately have "search_inv g src dest st'" unfolding search_inv_def s using I(1) by (intro conjI)
  moreover have "closed_set st \<union> queued st \<subseteq> insert ?n (closed_set st) \<union> queued st'" unfolding q by blast
  ultimately show ?thesis using s(1) src by simp
qed

lemma expand_inv:
  assumes wf: "topo_wf (sg_topo s)" and ord: "\<And>xs. set (st_ord p xs) = set xs"
    and inv: "search_inv (sg_topo s) src dest st" and set: "settled p s (closed_set st) st"
    and k: "k < length (open_set_detail st)" and d: "fst (open_set_detail st ! k) \<noteq> dest"
  shows "search_inv (sg_topo s) src dest (expand p s dest k st) \<and> settled p s (closed_set (expand p s dest k st)) (expand p s dest k st) \<and>
    (closed_set st \<subset> closed_set (expand p s dest k st) \<or> closed_set (expand p s dest k st) = closed_set st \<and>
       length (open_set_detail (expand p s dest k st)) < length (open_set_detail st))"
proof (cases "fst (open_set_detail st ! k) \<in> closed_set st")
  case True
  have e: "expand p s dest k st = pop_node k st" using True by (simp add: expand_alt Let_def pop_node_def)
  have "length (open_set_detail (pop_node k st)) < length (open_set_detail st)" using k by (simp add: pop_node_def)
  then show ?thesis unfolding e using pop_seen_inv [OF inv k True] set unfolding settled_def by blast
next
  case False
  let ?n = "fst (open_set_detail st ! k)"
  let ?st = "pop_node k st\<lparr>closed_set := insert ?n (closed_set (pop_node k st))\<rparr>"
  let ?es = "next_edges p s (GetResidualS_node p (sg_topo s) ?st ?n > min_length_for_lane_change \<and> change_lane_enabled p) ?n"
  have e: "expand p s dest k st = fold (relax p (sg_topo s) dest ?n) ?es ?st"
    using False by (simp add: expand_alt Let_def) (simp add: pop_node_def)
  have C: "search_inv (sg_topo s) src dest ?st \<and> closed_set ?st = insert ?n (closed_set st) \<and>
    src \<in> closed_set ?st \<and> closed_set st \<union> queued st \<subseteq> closed_set ?st \<union> queued ?st" by (rule close_inv [OF inv k False d])
  have ends: "\<forall>e\<in>set ?es. te_to (tp_edges (sg_topo s) e) < tp_next_node (sg_topo s) \<and>
      edge_between (sg_topo s) ?n (te_to (tp_edges (sg_topo s) e)) \<noteq> None" using next_edges_ends [OF wf ord] by blast
  have n: "?n \<in> closed_set ?st" using C by blast
  note R = relax_all_inv [OF C [THEN conjunct1] C [THEN conjunct2, THEN conjunct2, THEN conjunct1] n ends, where p = p]
  let ?r = "fold (relax p (sg_topo s) dest ?n) ?es ?st"
  have "m \<in> closed_set ?r \<union> queued ?r" if "a \<in> closed_set ?r" "forward_step p s a m" for a m
  proof (cases "a = ?n")
    case True
    then show ?thesis using next_edges_forward [OF wf ord that(2)] R by blast
  next
    case False
    then have "a \<in> closed_set st" using that(1) R C by blast
    then have "m \<in> closed_set st \<union> queued st" using set that(2) unfolding settled_def by blast
    then show ?thesis using C R by blast
  qed
  then have "settled p s (closed_set ?r) ?r" unfolding settled_def by blast
  then show ?thesis unfolding e using R C False by blast
qed

text \<open>A route: its nodes are linked one after the other, and its ranges are those of the lanes the nodes are parts of.\<close>

definition is_route :: "topo \<Rightarrow> nat \<Rightarrow> nat \<Rightarrow> node_with_range list \<Rightarrow> bool" where
  "is_route g src dest rs \<longleftrightarrow> (\<exists>v. v \<noteq> [] \<and> hd v = src \<and> last v = dest \<and> linked g v \<and>
     rs = map (\<lambda>n. \<lparr>nr_node = tn_origin (tp_nodes g n), nr_start = tn_start (tp_nodes g n), nr_end = tn_end (tp_nodes g n)\<rparr>) v)"

definition top_ok :: "((nat \<times> real) list \<Rightarrow> nat) \<Rightarrow> bool" where
  "top_ok f \<longleftrightarrow> (\<forall>q. q \<noteq> [] \<longrightarrow> f q < length q \<and> (\<forall>x\<in>set q. snd (q ! f q) \<le> snd x))"

lemma Reconstruct_ok:
  assumes wf: "topo_wf g" and long: "all_long (st_rnd p) g" and ord: "\<And>xs. set (st_ord p xs) = set xs"
    and inv: "search_inv g src dest st" and d: "dest \<in> queued st"
  shows "\<exists>rs. Reconstruct p g (came_from st) dest = Some (Some rs) \<and> is_route g src dest rs"
proof -
  note I = search_invD [OF inv]
  obtain v where v: "leads (came_from st) src dest v" using leads_to_queued [OF inv d I(2)] by blast
  have t: "trace (came_from st) dest [] = Some v" using trace_leads [OF I(1) v, of "[]"] by simp
  have "linked g v" unfolding linked_def
    by (rule successively_mono [of "\<lambda>a b. came_from st b = Some a"]) (use v I(5) in \<open>simp_all add: leads_def\<close>)
  from AdjustLaneChange_ok [OF wf long ord this] obtain v' where v': "AdjustLaneChange p g v = Some v'" "kept_route g v v'" by blast
  then have "v' \<noteq> []" "hd v' = src" "last v' = dest" "linked g v'" using v by (auto simp: kept_route_def leads_def)
  then show ?thesis using t v'(1) by (auto simp: Reconstruct_def is_route_def)
qed

definition forward_closed :: "strategy \<Rightarrow> sub_graph \<Rightarrow> nat \<Rightarrow> nat \<Rightarrow> bool" where
  "forward_closed p s src dest \<longleftrightarrow> (\<exists>C. src \<in> C \<and> dest \<notin> C \<and> (\<forall>a\<in>C. \<forall>b. forward_step p s a b \<longrightarrow> b \<in> C))"

lemma search_ends:
  assumes wf: "topo_wf (sg_topo s)" and long: "all_long (st_rnd p) (sg_topo s)" and ord: "\<And>xs. set (st_ord p xs) = set xs"
    and top: "top_ok (st_top p)"
  shows "search_inv (sg_topo s) src dest st \<Longrightarrow> settled p s (closed_set st) st \<Longrightarrow>
    \<exists>r. search p s dest st = Some r \<and> (case r of None \<Rightarrow> forward_closed p s src dest | Some rs \<Rightarrow> is_route (sg_topo s) src dest rs)"
proof (induction st rule: wf_induct_rule [OF wf_measures
    [of "[\<lambda>st. card ({..<tp_next_node (sg_topo s)} - closed_set st), \<lambda>st. length (open_set_detail st)]"]])
  case (1 st)
  note I = search_invD [OF 1(2)]
  let ?q = "open_set_detail st" and ?k = "st_top p (open_set_detail st)"
  show ?case
  proof (cases "?q = []")
    case True
    then have "queued st = {}" by (simp add: queued_def)
    then have "forward_closed p s src dest" using I(2,9) 1(3) unfolding forward_closed_def settled_def by (intro exI [of _ "closed_set st"]) blast
    then show ?thesis using True by (simp add: search.simps)
  next
    case False
    then have k: "?k < length ?q" using top by (simp add: top_ok_def)
    show ?thesis
    proof (cases "fst (?q ! ?k) = dest")
      case True
      then have "dest \<in> queued st" using k unfolding queued_def by (metis image_eqI nth_mem)
      from Reconstruct_ok [OF wf long ord 1(2) this] show ?thesis using False True by (auto simp: search.simps Let_def)
    next
      case d: False
      let ?st = "expand p s dest ?k st"
      note E = expand_inv [OF wf ord 1(2,3) k d]
      have "{..<tp_next_node (sg_topo s)} - closed_set ?st \<subset> {..<tp_next_node (sg_topo s)} - closed_set st" if "closed_set st \<subset> closed_set ?st"
        using that search_invD(3) [OF E [THEN conjunct1]] by blast
      then have "(?st, st) \<in> measures [\<lambda>st. card ({..<tp_next_node (sg_topo s)} - closed_set st), \<lambda>st. length (open_set_detail st)]"
        using E by (auto intro!: psubset_card_mono)
      from 1(1) [OF this] E have "\<exists>r. search p s dest ?st = Some r \<and> (case r of None \<Rightarrow> forward_closed p s src dest | Some rs \<Rightarrow> is_route (sg_topo s) src dest rs)"
        by blast
      then show ?thesis using False d by (simp add: search.simps [of p s dest st] Let_def)
    qed
  qed
qed

lemma start_search_inv:
  "src < tp_next_node g \<Longrightarrow> search_inv g src dest (start_search p g src dest) \<and> settled p s (closed_set (start_search p g src dest)) (start_search p g src dest)"
  by (simp add: start_search_def search_inv_def settled_def queued_def)

lemma forward_closed_unreached:
  assumes "forward_closed p s src dest"
  shows "\<not> (forward_step p s)\<^sup>*\<^sup>* src dest"
proof
  assume "(forward_step p s)\<^sup>*\<^sup>* src dest"
  moreover obtain C where C: "src \<in> C" "dest \<notin> C" "\<forall>a\<in>C. \<forall>b. forward_step p s a b \<longrightarrow> b \<in> C" using assms by (auto simp: forward_closed_def)
  ultimately have "dest \<in> C" by (induction rule: rtranclp_induct) auto
  then show False using C(2) by blast
qed

text \<open>
  Property C30. On the graph of the free parts of a loaded map the search for a route ends, whatever the order of the hash sets and
  whichever of the best nodes is on top of the queue: with true, and then the route leads from the source to the destination and every node on
  it is linked to the next by an edge of the graph, also after the replacements around lane changes (the adjustment never fails);
  or with false, and then no steps forward lead from the source to the destination.
\<close>

theorem search_ends_on_linked_route:
  assumes rnd: "close_rounding (st_rnd p)" and ord: "\<forall>xs. set (st_ord p xs) = set xs" and top: "top_ok (st_top p)"
    and map: "LoadGraph (st_rnd p) graph new_topo_graph = Some (b, t)"
    and black: "\<forall>(n, rs)\<in>set black_map. n \<in> set (topo_nodes t)"
    and s: "new_sub_graph (st_rnd p) (st_ord p) black_map (tg_topo t) = Some s" and src: "src < tp_next_node (sg_topo s)"
  shows "\<exists>r. Search p s src dest = Some r \<and>
    (case r of None \<Rightarrow> \<not> (forward_step p s)\<^sup>*\<^sup>* src dest | Some rs \<Rightarrow> is_route (sg_topo s) src dest rs)"
proof -
  have ok: "graph_ok t" by (rule LoadGraph_ok [OF map])
  have bs: "\<forall>(n, rs)\<in>set black_map. n < tp_next_node (tg_topo t)" using ok black by (auto simp: graph_ok_def)
  have wf: "topo_wf (tg_topo t)" using ok by (simp add: graph_ok_def)
  have ord': "set (st_ord p xs) = set xs" for xs using ord by blast
  have long: "all_long (st_rnd p) (sg_topo s)"
    by (rule new_sub_graph_long [OF wf whole_lanes_long [OF LoadGraph_whole [OF map] rnd] bs ord' s])
  have wf': "topo_wf (sg_topo s)" using new_sub_graph_ok(1) [OF wf bs ord' s] by (simp add: sub_ok_def extends_def)
  note S = start_search_inv [OF src, of dest p s]
  obtain r where r: "search p s dest (start_search p (sg_topo s) src dest) = Some r"
    "case r of None \<Rightarrow> forward_closed p s src dest | Some rs \<Rightarrow> is_route (sg_topo s) src dest rs"
    using search_ends [OF wf' long ord' top S [THEN conjunct1] S [THEN conjunct2]] by blast
  then show ?thesis using forward_closed_unreached by (cases r) (auto simp: Search_def)
qed

fun first_best :: "(nat \<times> real) list \<Rightarrow> nat" where
  "first_best (x # y # q) = (let k = first_best (y # q) in if snd x \<le> snd ((y # q) ! k) then 0 else Suc k)"
| "first_best _ = 0"

lemma first_best_ok: "top_ok first_best"
proof -
  have "q \<noteq> [] \<Longrightarrow> first_best q < length q \<and> (\<forall>x\<in>set q. snd (q ! first_best q) \<le> snd x)" for q
    by (induction q rule: first_best.induct) (auto simp: Let_def)
  then show ?thesis by (simp add: top_ok_def)
qed

definition exact_strategy :: strategy where
  "exact_strategy = \<lparr>st_rnd = (\<lambda>x. x), st_ord = (\<lambda>xs. xs), st_top = first_best, change_lane_enabled = False\<rparr>"

text \<open>Four lanes, with two ways from the first to the last.\<close>

definition ahead :: "string \<Rightarrow> string \<Rightarrow> pb_edge" where
  "ahead a b = \<lparr>from_lane_id = a, to_lane_id = b, pbe_cost = 0, direction_type = FORWARD_DIR\<rparr>"

definition two_ways :: pb_graph where
  "two_ways = \<lparr>hdmap_version = [], hdmap_district = [], pb_nodes = [plain_lane ''s'' 10 0 (10, 0), plain_lane ''a'' 10 5 (20, 0), plain_lane ''c'' 10 10 (0, 0), plain_lane ''d'' 10 20 (0, 0)],
     pb_edges = [ahead ''s'' ''a'', ahead ''a'' ''d'', ahead ''s'' ''c'', ahead ''c'' ''d'']\<rparr>"

lemma new_plain_lane:
  "kLenghtEpsilon < len \<Longrightarrow> new_topo_node (\<lambda>x. x) (plain_lane l len cost p) i =
     Some ((blank_node (plain_lane l len cost p) i)\<lparr>anchor_point := p, left_prefer_range_index := - 1, right_prefer_range_index := - 1\<rparr>)"
  by (simp add: new_topo_node_def tn_Init_def FindAnchorPoint_def ConvertOutRange_def prefer_enough_def tn_Length_def plain_lane_def
      dummy_pb_node_def Let_def blank_node_def kLenghtEpsilon_def)

definition with_out :: "nat \<Rightarrow> nat \<Rightarrow> topo_node \<Rightarrow> topo_node" where
  "with_out e to n = n\<lparr>out_to_suc := out_to_suc n @ [e], out_to_all := out_to_all n @ [e], out_edge_map := (out_edge_map n)(to \<mapsto> e)\<rparr>"

definition with_in :: "nat \<Rightarrow> nat \<Rightarrow> topo_node \<Rightarrow> topo_node" where
  "with_in e from n = n\<lparr>in_from_pre := in_from_pre n @ [e], in_from_all := in_from_all n @ [e], in_edge_map := (in_edge_map n)(from \<mapsto> e)\<rparr>"

lemma with_sel [simp]:
  "out_to_suc (with_out e j n) = out_to_suc n @ [e]" "out_edge_map (with_out e j n) = (out_edge_map n)(j \<mapsto> e)"
  "anchor_point (with_out e j n) = anchor_point n" "tn_pb (with_out e j n) = tn_pb n" "tn_origin (with_out e j n) = tn_origin n"
  "in_edge_map (with_out e j n) = in_edge_map n"
  "out_to_suc (with_in e j n) = out_to_suc n" "out_edge_map (with_in e j n) = out_edge_map n"
  "anchor_point (with_in e j n) = anchor_point n" "tn_pb (with_in e j n) = tn_pb n" "tn_origin (with_in e j n) = tn_origin n"
  "in_edge_map (with_in e j n) = (in_edge_map n)(j \<mapsto> e)"
  by (simp_all add: with_out_def with_in_def)

definition ahead_step :: "string \<Rightarrow> string \<Rightarrow> nat \<Rightarrow> nat \<Rightarrow> topo_graph \<Rightarrow> topo_graph \<Rightarrow> bool" where
  "ahead_step a b i j t t' \<longleftrightarrow> (\<forall>es. load_edges (ahead a b # es) t = load_edges es t') \<and>
    topo_nodes t' = topo_nodes t \<and> node_index_map t' = node_index_map t \<and>
    tp_next_node (tg_topo t') = tp_next_node (tg_topo t) \<and> tp_next_edge (tg_topo t') = Suc (tp_next_edge (tg_topo t)) \<and>
    tp_edges (tg_topo t') = (tp_edges (tg_topo t))(tp_next_edge (tg_topo t) := \<lparr>te_pb = ahead a b, te_from = i, te_to = j\<rparr>) \<and>
    tp_nodes (tg_topo t') = (tp_nodes (tg_topo t))(i := with_out (tp_next_edge (tg_topo t)) j (tp_nodes (tg_topo t) i),
      j := with_in (tp_next_edge (tg_topo t)) i (tp_nodes (tg_topo t) j))"

lemma load_ahead:
  assumes "node_index_map t a = Some i" "node_index_map t b = Some j" "topo_nodes t ! i = i" "topo_nodes t ! j = j" "i \<noteq> j"
    "out_edge_map (tp_nodes (tg_topo t) i) j = None" "in_edge_map (tp_nodes (tg_topo t) j) i = None"
  shows "\<exists>t'. ahead_step a b i j t t'"
  unfolding ahead_step_def using assms
  by (simp add: new_edge_def ahead_def AddInEdge_def AddOutEdge_def node_AddInEdge_def node_AddOutEdge_def te_Type_def
      with_out_def with_in_def Let_def) (rule exI, rule conjI, rule allI, rule refl, simp)

lemma ahead_stepD:
  assumes "ahead_step a b i j t t'"
  shows "load_edges (ahead a b # es) t = load_edges es t'" "topo_nodes t' = topo_nodes t" "node_index_map t' = node_index_map t"
    "tp_next_node (tg_topo t') = tp_next_node (tg_topo t)" "tp_next_edge (tg_topo t') = Suc (tp_next_edge (tg_topo t))"
    "tp_edges (tg_topo t') = (tp_edges (tg_topo t))(tp_next_edge (tg_topo t) := \<lparr>te_pb = ahead a b, te_from = i, te_to = j\<rparr>)"
    "tp_nodes (tg_topo t') = (tp_nodes (tg_topo t))(i := with_out (tp_next_edge (tg_topo t)) j (tp_nodes (tg_topo t) i),
      j := with_in (tp_next_edge (tg_topo t)) i (tp_nodes (tg_topo t) j))"
  using assms unfolding ahead_step_def by blast+

definition lane_node :: "string \<Rightarrow> real \<Rightarrow> real \<times> real \<Rightarrow> nat \<Rightarrow> topo_node" where
  "lane_node l cost p i = (blank_node (plain_lane l 10 cost p) i)\<lparr>anchor_point := p, left_prefer_range_index := - 1, right_prefer_range_index := - 1\<rparr>"

lemma new_lane_node: "new_topo_node (\<lambda>x. x) (plain_lane l 10 cost p) i = Some (lane_node l cost p i)"
  by (simp add: new_plain_lane kLenghtEpsilon_def lane_node_def)

lemma lane_node_sel [simp]:
  "out_to_suc (lane_node l cost p i) = []" "out_to_all (lane_node l cost p i) = []" "out_edge_map (lane_node l cost p i) = (\<lambda>_. None)"
  "in_from_pre (lane_node l cost p i) = []" "in_from_all (lane_node l cost p i) = []" "in_edge_map (lane_node l cost p i) = (\<lambda>_. None)"
  "anchor_point (lane_node l cost p i) = p" "tn_origin (lane_node l cost p i) = i" "pb_cost (tn_pb (lane_node l cost p i)) = cost"
  by (simp_all add: lane_node_def blank_node_def plain_lane_def)

lemma plain_lane_sel [simp]: "lane_id (plain_lane l len cost p) = l" "road_id (plain_lane l len cost p) = []"
  by (simp_all add: plain_lane_def dummy_pb_node_def)

lemma two_ways_nodes:
  "\<exists>t. load_nodes (\<lambda>x. x) (pb_nodes two_ways) ((TopoGraph_Clear new_topo_graph)\<lparr>map_version := [], map_district := []\<rparr>) = Some t \<and>
     topo_nodes t = [0, 1, 2, 3] \<and> node_index_map t = [''s'' \<mapsto> 0, ''a'' \<mapsto> 1, ''c'' \<mapsto> 2, ''d'' \<mapsto> 3] \<and>
     tp_next_node (tg_topo t) = 4 \<and> tp_next_edge (tg_topo t) = 0 \<and>
     tp_nodes (tg_topo t) 0 = lane_node ''s'' 0 (10, 0) 0 \<and> tp_nodes (tg_topo t) 1 = lane_node ''a'' 5 (20, 0) 1 \<and>
     tp_nodes (tg_topo t) 2 = lane_node ''c'' 10 (0, 0) 2 \<and> tp_nodes (tg_topo t) 3 = lane_node ''d'' 20 (0, 0) 3"
  by (simp add: two_ways_def load_node_def TopoGraph_Clear_def new_topo_graph_def empty_topo_def new_lane_node Let_def
      numeral_2_eq_2 numeral_3_eq_3)

lemma two_ways_topo:
  "\<exists>t. LoadGraph (\<lambda>x. x) two_ways new_topo_graph = Some (True, t) \<and> topo_nodes t = [0, 1, 2, 3] \<and> tp_next_node (tg_topo t) = 4 \<and>
     tp_nodes (tg_topo t) 0 = with_out 2 2 (with_out 0 1 (lane_node ''s'' 0 (10, 0) 0)) \<and>
     tp_nodes (tg_topo t) 1 = with_out 1 3 (with_in 0 0 (lane_node ''a'' 5 (20, 0) 1)) \<and>
     tp_nodes (tg_topo t) 2 = with_out 3 3 (with_in 2 0 (lane_node ''c'' 10 (0, 0) 2)) \<and>
     tp_nodes (tg_topo t) 3 = with_in 3 2 (with_in 1 1 (lane_node ''d'' 20 (0, 0) 3)) \<and>
     tp_edges (tg_topo t) 0 = \<lparr>te_pb = ahead ''s'' ''a'', te_from = 0, te_to = 1\<rparr> \<and>
     tp_edges (tg_topo t) 1 = \<lparr>te_pb = ahead ''a'' ''d'', te_from = 1, te_to = 3\<rparr> \<and>
     tp_edges (tg_topo t) 2 = \<lparr>te_pb = ahead ''s'' ''c'', te_from = 0, te_to = 2\<rparr> \<and>
     tp_edges (tg_topo t) 3 = \<lparr>te_pb = ahead ''c'' ''d'', te_from = 2, te_to = 3\<rparr>"
proof -
  obtain t where l: "load_nodes (\<lambda>x. x) (pb_nodes two_ways) ((TopoGraph_Clear new_topo_graph)\<lparr>map_version := [], map_district := []\<rparr>) = Some t"
    and t: "topo_nodes t = [0, 1, 2, 3]" "node_index_map t = [''s'' \<mapsto> 0, ''a'' \<mapsto> 1, ''c'' \<mapsto> 2, ''d'' \<mapsto> 3]"
     "tp_next_node (tg_topo t) = 4" "tp_next_edge (tg_topo t) = 0"
     "tp_nodes (tg_topo t) 0 = lane_node ''s'' 0 (10, 0) 0" "tp_nodes (tg_topo t) 1 = lane_node ''a'' 5 (20, 0) 1"
     "tp_nodes (tg_topo t) 2 = lane_node ''c'' 10 (0, 0) 2" "tp_nodes (tg_topo t) 3 = lane_node ''d'' 20 (0, 0) 3" using two_ways_nodes by blast
  obtain t1 where "ahead_step ''s'' ''a'' 0 1 t t1" using load_ahead [of t "''s''" 0 "''a''" 1] t by auto
  note 1 = ahead_stepD [OF this]
  obtain t2 where "ahead_step ''a'' ''d'' 1 3 t1 t2" using load_ahead [of t1 "''a''" 1 "''d''" 3] t 1(2-) by auto
  note 2 = ahead_stepD [OF this]
  obtain t3 where "ahead_step ''s'' ''c'' 0 2 t2 t3" using load_ahead [of t2 "''s''" 0 "''c''" 2] t 1(2-) 2(2-) by auto
  note 3 = ahead_stepD [OF this]
  obtain t4 where "ahead_step ''c'' ''d'' 2 3 t3 t4" using load_ahead [of t3 "''c''" 2 "''d''" 3] t 1(2-) 2(2-) 3(2-) by auto
  note 4 = ahead_stepD [OF this]
  have "pb_nodes two_ways \<noteq> []" "hdmap_version two_ways = []" "hdmap_district two_ways = []" "pb_edges two_ways = [ahead ''s'' ''a'', ahead ''a'' ''d'', ahead ''s'' ''c'', ahead ''c'' ''d'']"
    by (simp_all add: two_ways_def)
  moreover have "load_edges [ahead ''s'' ''a'', ahead ''a'' ''d'', ahead ''s'' ''c'', ahead ''c'' ''d''] t = (True, t4)"
    unfolding 1(1) 2(1) 3(1) 4(1) by simp
  ultimately have "LoadGraph (\<lambda>x. x) two_ways new_topo_graph = Some (True, t4)" using l by (simp add: LoadGraph_def LoadNodes_def del: load_edges.simps)
  then show ?thesis using t(1,3-) by (intro exI [of _ t4]) (simp add: 1(2-) 2(2-) 3(2-) 4(2-) numeral_2_eq_2 [symmetric] numeral_3_eq_3 [symmetric])
qed

text \<open>With exact numbers and no lane changes, an edge is relaxed like this.\<close>

lemma relax_exact:
  assumes "te_Type (tp_edges g e) = TET_FORWARD"
  shows "relax exact_strategy g dest n e st =
    (let to = te_to (tp_edges g e);
         f = g_score st n + (pbe_cost (te_pb (tp_edges g e)) + tn_Cost (tp_nodes g to)) +
           (\<bar>fst (anchor_point (tp_nodes g to)) - fst (anchor_point (tp_nodes g dest))\<bar> + \<bar>snd (anchor_point (tp_nodes g to)) - snd (anchor_point (tp_nodes g dest))\<bar>)
     in if to \<in> closed_set st \<or> to \<in> open_set st \<and> f \<ge> g_score st to then st
        else push_node to n f (st\<lparr>enter_s := (enter_s st)(to \<mapsto> tn_start (tp_nodes g to))\<rparr>))"
  using assms double_max_large by (simp add: relax_def GetResidualS_edge_def exact_strategy_def GetCostToNeighbor_def HeuristicCost_def Let_def)

lemma expand_exact:
  assumes "\<And>e. GetSubInEdgesIntoSubGraph (\<lambda>xs. xs) s e = [e]"
  shows "expand exact_strategy s dest k st =
    (let n = fst (open_set_detail st ! k);
         st = st\<lparr>open_set := open_set st - {n}, open_set_detail := take k (open_set_detail st) @ drop (Suc k) (open_set_detail st)\<rparr>
     in if n \<in> closed_set st then st
        else fold (relax exact_strategy (sg_topo s) dest n) (remdups (out_to_suc (tp_nodes (sg_topo s) n))) (st\<lparr>closed_set := insert n (closed_set st)\<rparr>))"
proof -
  have "concat (map (GetSubInEdgesIntoSubGraph (\<lambda>xs. xs) s) es) = es" for es using assms by (induction es) simp_all
  then show ?thesis by (simp add: expand_def next_edges_def exact_strategy_def Let_def)
qed

lemma two_ways_sub:
  assumes t: "LoadGraph (\<lambda>x. x) two_ways new_topo_graph = Some (True, t)" "topo_nodes t = [0, 1, 2, 3]" 
  shows "new_sub_graph (\<lambda>x. x) (\<lambda>xs. xs) [] (tg_topo t) = Some \<lparr>sg_topo = tg_topo t, sub_node_range_sorted_map = (\<lambda>_. None), sub_node_map = (\<lambda>_. None)\<rparr>"
    "GetSubInEdgesIntoSubGraph (\<lambda>xs. xs) \<lparr>sg_topo = tg_topo t, sub_node_range_sorted_map = (\<lambda>_. None), sub_node_map = (\<lambda>_. None)\<rparr> e = [e]"
  by (simp_all add: new_sub_graph_def GetSubInEdgesIntoSubGraph_def GetSubNodes_def Let_def)

text \<open>
  The scores the code stores are those of \<open>f\<close>, with the estimate of the way left (line 313), so the estimates of the nodes on a route add up:
  of the two ways the search returns the one through lane c with cost 30 instead of 25, with estimates that are never above the true costs.
\<close>

lemma costlier_route_returned:
  "\<exists>t s rs. LoadGraph (\<lambda>x. x) two_ways new_topo_graph = Some (True, t) \<and> new_sub_graph (\<lambda>x. x) (\<lambda>xs. xs) [] (tg_topo t) = Some s \<and>
     Search exact_strategy s 0 3 = Some (Some rs) \<and> map nr_node rs = [0, 2, 3] \<and> linked (sg_topo s) [0, 1, 3] \<and>
     GetCostToNeighbor (\<lambda>x. x) (sg_topo s) 0 + GetCostToNeighbor (\<lambda>x. x) (sg_topo s) 1 = 25 \<and>
     GetCostToNeighbor (\<lambda>x. x) (sg_topo s) 2 + GetCostToNeighbor (\<lambda>x. x) (sg_topo s) 3 = 30 \<and>
     map (\<lambda>n. HeuristicCost (\<lambda>x. x) (sg_topo s) n 3) [0, 1, 2, 3] = [10, 20, 0, 0]"
proof -
  from two_ways_topo obtain t where load: "LoadGraph (\<lambda>x. x) two_ways new_topo_graph = Some (True, t)" "topo_nodes t = [0, 1, 2, 3]"
    and n: "tp_nodes (tg_topo t) 0 = with_out 2 2 (with_out 0 1 (lane_node ''s'' 0 (10, 0) 0))"
      "tp_nodes (tg_topo t) 1 = with_out 1 3 (with_in 0 0 (lane_node ''a'' 5 (20, 0) 1))"
      "tp_nodes (tg_topo t) 2 = with_out 3 3 (with_in 2 0 (lane_node ''c'' 10 (0, 0) 2))"
      "tp_nodes (tg_topo t) 3 = with_in 3 2 (with_in 1 1 (lane_node ''d'' 20 (0, 0) 3))"
    and e: "tp_edges (tg_topo t) 0 = \<lparr>te_pb = ahead ''s'' ''a'', te_from = 0, te_to = 1\<rparr>"
      "tp_edges (tg_topo t) 1 = \<lparr>te_pb = ahead ''a'' ''d'', te_from = 1, te_to = 3\<rparr>"
      "tp_edges (tg_topo t) 2 = \<lparr>te_pb = ahead ''s'' ''c'', te_from = 0, te_to = 2\<rparr>"
      "tp_edges (tg_topo t) 3 = \<lparr>te_pb = ahead ''c'' ''d'', te_from = 2, te_to = 3\<rparr>" by blast
  let ?g = "tg_topo t"
  let ?s = "\<lparr>sg_topo = ?g, sub_node_range_sorted_map = (\<lambda>_. None), sub_node_map = (\<lambda>_. None)\<rparr>"
  have p: "st_top exact_strategy = first_best" by (simp add: exact_strategy_def)
  have a: "pbe_cost (ahead a b) = 0" "te_Type \<lparr>te_pb = ahead a b, te_from = i, te_to = j\<rparr> = TET_FORWARD" for a b i j
    by (simp_all add: ahead_def te_Type_def)
  let ?E = "expand exact_strategy ?s 3"
  note X = expand_exact [OF two_ways_sub(2) [OF load]]
  have "linked ?g [0, 1, 3]" using n by (simp add: linked_def edge_between_def GetOutEdgeTo_def)
  moreover have "GetCostToNeighbor (\<lambda>x. x) ?g 0 + GetCostToNeighbor (\<lambda>x. x) ?g 1 = 25"
     "GetCostToNeighbor (\<lambda>x. x) ?g 2 + GetCostToNeighbor (\<lambda>x. x) ?g 3 = 30" using n e by (simp_all add: GetCostToNeighbor_def a tn_Cost_def)
  moreover have "map (\<lambda>n. HeuristicCost (\<lambda>x. x) ?g n 3) [0, 1, 2, 3] = [10, 20, 0, 0]" using n by (simp add: HeuristicCost_def)
  moreover have "\<exists>rs. Search exact_strategy ?s 0 3 = Some (Some rs) \<and> map nr_node rs = [0, 2, 3]"
  proof -
    note N = n n(2) [simplified One_nat_def] and D = e e(2) [simplified One_nat_def]
    note S = X N D a relax_exact tn_Cost_def push_node_def Let_def
    let ?init = "start_search exact_strategy ?g 0 3"
    obtain s1 where s1: "?E 0 ?init = s1" "open_set_detail s1 = [(1, 25), (2, 10)]" "open_set s1 = {2, 1}" "closed_set s1 = {0}"
      "came_from s1 = [1 \<mapsto> 0, 2 \<mapsto> 0]" "g_score s1 = (\<lambda>_. 0)(1 := 25, 2 := 10)" by (simp add: S start_search_def)
    obtain s2 where s2: "?E 1 s1 = s2" "open_set_detail s2 = [(1, 25), (3, 30)]" "open_set s2 = insert 3 ({2, 1} - {2})" "closed_set s2 = {2, 0}"
      "came_from s2 = [1 \<mapsto> 0, 2 \<mapsto> 0, 3 \<mapsto> 2]" "g_score s2 = (\<lambda>_. 0)(1 := 25, 2 := 10, 3 := 30)" using s1 by (simp add: S)
    obtain s3 where s3: "?E 0 s2 = s3" "open_set_detail s3 = [(3, 30)]" "came_from s3 = [1 \<mapsto> 0, 2 \<mapsto> 0, 3 \<mapsto> 2]" using s2 by (simp add: S)
    have "open_set_detail ?init = [(0, 10)]" by (simp add: start_search_def HeuristicCost_def exact_strategy_def n)
    then have "search exact_strategy ?s 3 ?init = search exact_strategy ?s 3 s1" using s1(1) by (simp add: search.simps [of _ _ _ ?init] p)
    also have "\<dots> = search exact_strategy ?s 3 s2" using s1(2) s2(1) by (simp add: search.simps [of _ _ _ s1] p)
    also have "\<dots> = search exact_strategy ?s 3 s3" using s2(2) s3(1) by (simp add: search.simps [of _ _ _ s2] p)
    also have "\<dots> = Reconstruct exact_strategy ?g (came_from s3) 3" using s3(2) by (simp add: search.simps [of _ _ _ s3] p)
    also have "trace (came_from s3) 3 [] = Some [0, 2, 3]" using s3(3) by (simp add: trace.simps)
    then have "Reconstruct exact_strategy ?g (came_from s3) 3 =
        Some (Some (map (\<lambda>n. \<lparr>nr_node = tn_origin (tp_nodes ?g n), nr_start = tn_start (tp_nodes ?g n), nr_end = tn_end (tp_nodes ?g n)\<rparr>) [0, 2, 3]))"
      by (simp add: Reconstruct_def AdjustLaneChange_def AdjustLaneChangeBackward_def AdjustLaneChangeForward_def change_back_def
          change_ahead_def edge_between_def GetOutEdgeTo_def N D a)
    finally show ?thesis by (simp add: Search_def N)
  qed
  ultimately show ?thesis using load(1) two_ways_sub(1) [OF load] by auto
qed

theorem search_ends_on_linked_route_witness:
  "\<exists>t s rs. LoadGraph (\<lambda>x. x) two_ways new_topo_graph = Some (True, t) \<and> new_sub_graph (\<lambda>x. x) (\<lambda>xs. xs) [] (tg_topo t) = Some s \<and>
     Search (exact_strategy\<lparr>change_lane_enabled := True\<rparr>) s 1 3 = Some (Some rs) \<and> is_route (sg_topo s) 1 3 rs"
proof -
  let ?p = "exact_strategy\<lparr>change_lane_enabled := True\<rparr>"
  have p: "st_rnd ?p = (\<lambda>x. x)" "st_ord ?p = (\<lambda>xs. xs)" "st_top ?p = first_best" by (simp_all add: exact_strategy_def)
  from two_ways_topo obtain t where load: "LoadGraph (\<lambda>x. x) two_ways new_topo_graph = Some (True, t)" "topo_nodes t = [0, 1, 2, 3]"
    and n: "tp_next_node (tg_topo t) = 4" "tp_nodes (tg_topo t) 1 = with_out 1 3 (with_in 0 0 (lane_node ''a'' 5 (20, 0) 1))"
      "tp_edges (tg_topo t) 1 = \<lparr>te_pb = ahead ''a'' ''d'', te_from = 1, te_to = 3\<rparr>" by blast
  let ?s = "\<lparr>sg_topo = tg_topo t, sub_node_range_sorted_map = (\<lambda>_. None), sub_node_map = (\<lambda>_. None)\<rparr>"
  have "forward_step ?p ?s 1 3"
    unfolding forward_step_def p two_ways_sub(2) [OF load] using n by (simp add: te_Type_def ahead_def)
  then have "(forward_step ?p ?s)\<^sup>*\<^sup>* 1 3" by (rule r_into_rtranclp)
  moreover have "\<exists>r. Search ?p ?s 1 3 = Some r \<and> (case r of None \<Rightarrow> \<not> (forward_step ?p ?s)\<^sup>*\<^sup>* 1 3 | Some rs \<Rightarrow> is_route (sg_topo ?s) 1 3 rs)"
    by (rule search_ends_on_linked_route [where graph = two_ways and t = t and b = True and black_map = "[]"])
      (use load(1) two_ways_sub(1) [OF load] n(1) in \<open>simp_all add: p exact_rounding first_best_ok\<close>)
  ultimately obtain rs where "Search ?p ?s 1 3 = Some (Some rs)" "is_route (sg_topo ?s) 1 3 rs" by (auto split: option.splits)
  then show ?thesis using load(1) two_ways_sub(1) [OF load] by blast
qed

end
