(* ===== verification/Spec2Isabelle.thy ===== *)
theory Spec2Isabelle
  imports MkMiniFeedback MkMiniIoCmd CanSender CanManager DataDispatcher RWLocks ReentrantLock
    BoundedQueue TimingWheel TopologyManager SchedulerChoreography ShmDispatcher Wakeup Guardian BaseMap RecordWriter RecordViewer LaneSearch
begin

text \<open>
  A verification library for Apollo, an open autonomous driving platform in C++: its middleware Cyber RT
  (\<open>src/cyber\<close>) and the modules that run on it (\<open>src/modules\<close>). Modelled is the discrete core of the
  platform: how a message travels from a writer to the coroutine that handles it, how processes find each
  other, how messages are recorded and read back, how a control command becomes a frame on the vehicle's
  bus, and what stops the vehicle when something fails.

  How the parts work together. A node announces itself and its writers and readers to the topology
  manager of every process (\<open>TopologyManager\<close>, with the managers \<open>NodeServiceManagers\<close> and
  \<open>ChannelManager\<close> on the base class \<open>TopologyBase\<close>, the stores \<open>Warehouse\<close> of \<open>Roles\<close> and the flow graph
  \<open>DiscoveryGraph\<close>); names are turned into ids by \<open>GlobalData\<close>. Between processes of a host
  a message lies in a block of a shared-memory segment (\<open>ShmSegment\<close>, \<open>ShmProcesses\<close>, \<open>ShmTransport\<close>), whose index
  goes through a ring (\<open>ShmNotifier\<close>) to the dispatcher of every process (\<open>ShmDispatcher\<close>), which calls the listeners of
  the channel (\<open>Listeners\<close>) with the message and its info (\<open>ShmMessages\<close>). A message of a channel is put by
  \<open>DataDispatcher\<close> into the \<open>ChannelBuffer\<close> of each reader, found in the \<open>AtomicHashMap\<close>, and the reader's
  coroutine is woken (\<open>Wakeup\<close>, \<open>Croutine\<close>), queued and run by a processor (\<open>SchedulerClassic\<close>, \<open>SchedulerChoreography\<close>). Timers come
  from \<open>TimingWheel\<close>, locks from \<open>RWLocks\<close> and \<open>ReentrantLock\<close>, queues from \<open>BoundedQueue\<close>. The recorder writes
  messages to files in segments (\<open>RecordFile\<close>, \<open>RecordFileWriter\<close>, \<open>RecordWriter\<close>), which \<open>RecordReader\<close> and
  \<open>RecordViewer\<close> read. On the vehicle's side \<open>MkMiniController\<close> turns commands into the frames of
  \<open>MkMiniCtrlCmd\<close> and \<open>MkMiniIoCmd\<close>, which \<open>CanSender\<close> sends in their periods; \<open>CanManager\<close> receives the
  frames of \<open>MkMiniFeedback\<close> and \<open>MkMiniFrames\<close>. \<open>SystemMonitor\<close> watches all of it, and \<open>Guardian\<close> stands
  between the commands and the vehicle. The localization map keeps its tiles in \<open>BaseMap\<close>, through
  \<open>MapNodeCache\<close> and \<open>LruCache\<close>. A route is searched on the lane graph of the map: \<open>TopoRanges\<close> finds the free stretches of
  blocked lanes, \<open>TopoGraphs\<close> makes them the nodes of a graph, and \<open>LaneSearch\<close> searches it.
\<close>

section \<open>The theories and their sources\<close>

text \<open>
  Shared: \<open>Prelude\<close> (machine integers, lemma collections), \<open>Interfaces\<close> (the contract of a keyed store, which
  the dispatcher relies on and the hash map provides), \<open>Doubles\<close> (finite doubles as reals, with rounding as
  a parameter), \<open>ChassisMsgs\<close> (the enumerations and messages of \<open>modules/common_msgs\<close>).

  Communication inside a process: \<open>AtomicHashMap\<close> is \<open>cyber/base/atomic_hash_map.h\<close>; \<open>ChannelBuffer\<close> is
  \<open>cyber/data/cache_buffer.h\<close>, \<open>channel_buffer.h\<close>, \<open>data_visitor.h\<close> and \<open>fusion/all_latest.h\<close>; \<open>DataDispatcher\<close> is
  \<open>data_dispatcher.h\<close> and \<open>data_notifier.h\<close>; \<open>BoundedQueue\<close>, \<open>RWLocks\<close> and \<open>ReentrantLock\<close> are the headers
  of \<open>cyber/base\<close> and the block lock of \<open>cyber/transport/shm\<close>; \<open>TimingWheel\<close> is \<open>cyber/timer\<close>; \<open>Croutine\<close>,
  \<open>Wakeup\<close>, \<open>SchedulerClassic\<close> and \<open>SchedulerChoreography\<close> are \<open>cyber/croutine\<close> and \<open>cyber/scheduler\<close>.

  Communication between processes: \<open>ShmMessages\<close> is \<open>identity.cc\<close>, \<open>message_info.cc\<close>, \<open>history.h\<close> and
  \<open>readable_info.cc\<close> of \<open>cyber/transport\<close>; \<open>ShmSegment\<close> is \<open>shm_conf.cc\<close>, \<open>state.h\<close>, \<open>block.h\<close>, \<open>segment.cc\<close> and
  \<open>posix_segment.cc\<close>; \<open>ShmProcesses\<close> lets processes send, read and leave (\<open>Transmit\<close> and \<open>ReadMessage\<close>) and keeps the invariant,
  \<open>ShmTransport\<close> what follows from it; \<open>ShmNotifier\<close> is \<open>condition_notifier.cc\<close>; \<open>Listeners\<close> is \<open>cyber/base/signal.h\<close>,
  \<open>listener_handler.h\<close> and \<open>dispatcher.h\<close>; \<open>ShmDispatcher\<close> is \<open>shm_transmitter.h\<close> and \<open>shm_dispatcher.cc\<close>, with
  the way of a message from end to end.

  Discovery: \<open>Roles\<close>, \<open>Warehouse\<close>, \<open>DiscoveryGraph\<close>, \<open>TopologyBase\<close>, \<open>NodeServiceManagers\<close>, \<open>ChannelManager\<close>
  and \<open>TopologyManager\<close> are \<open>cyber/service_discovery\<close>; \<open>GlobalData\<close> is \<open>cyber/common/global_data.cc\<close>.

  Records: \<open>RecordFile\<close>, \<open>RecordFileWriter\<close> and \<open>RecordReader\<close> are \<open>cyber/record/file\<close> and
  \<open>record_reader.cc\<close>; \<open>RecordWriter\<close> and \<open>RecordViewer\<close> the files of these names; \<open>RecordRoundtrip\<close> joins the
  two sides, and \<open>RecordCodec\<close> gives the protobuf parameter an instance.

  Vehicle: \<open>CanByte\<close> and \<open>CanProtocol\<close> are \<open>byte.cc\<close> and \<open>protocol_data.h\<close> of \<open>modules/drivers/canbus\<close>,
  \<open>CanSender\<close> and \<open>CanManager\<close> its \<open>can_sender.h\<close>, \<open>message_manager.h\<close> and \<open>can_receiver.h\<close>; \<open>MkMiniFeedback\<close>,
  \<open>MkMiniFrames\<close>, \<open>MkMiniCtrlCmd\<close> and \<open>MkMiniIoCmd\<close> are the frames of \<open>modules/canbus/vehicle/mk_mini/protocol\<close>,
  \<open>MkMiniController\<close> and \<open>MkMiniSafety\<close> the controller with the canbus component above it.

  Supervision: \<open>SystemMonitor\<close> and \<open>SafetyMonitor\<close> are \<open>modules/monitor\<close>, \<open>Guardian\<close> is
  \<open>modules/guardian\<close>. Localization map: \<open>LruCache\<close> is \<open>modules/common/util/lru_cache.h\<close>, \<open>MapNodeCache\<close> and
  \<open>BaseMap\<close> are \<open>base_map_cache.h\<close>, \<open>base_map.cc\<close>, \<open>base_map_pool.cc\<close> and the loading of \<open>base_map_node.cc\<close>.

  Routing: \<open>TopoRanges\<close> is \<open>topo_range.cc\<close>, \<open>topo_range_manager.cc\<close>, \<open>range_utils.h\<close> and the merging of \<open>sub_topo_graph.cc\<close> in
  \<open>modules/routing/graph\<close>; \<open>TopoGraphs\<close> the rest of that directory; \<open>LaneSearch\<close> is \<open>strategy/a_star_strategy.cc\<close>.
\<close>

section \<open>How the code is modelled\<close>

text \<open>
  A class is a record of its members, a method a function from the state to the state and the result,
  with every early return and error path a branch. Integers have the width of the source where they
  wrap or overflow matters, otherwise they are naturals with their bounds as hypotheses. A pointer is an
  address of a store where aliasing matters (the nodes of the LRU cache, the buffers of the dispatcher,
  the tiles of the map). Failures of the code are values: \<open>option\<close> and sums for errors and aborts, and in
  \<open>RecordWriter\<close>, \<open>LruCache\<close> and \<open>BaseMap\<close> a \<open>None\<close> that also stands for undefined behaviour such as a null dereference; in
  the shared-memory theories \<open>shm_error\<close> names it, accesses past the blocks or the mapping included.

  Threads. Code whose correctness rests on atomics is a step relation or step function with one step
  for each access to shared memory (\<open>RWLocks\<close>, \<open>ReentrantLock\<close>, \<open>BoundedQueue\<close>, \<open>Wakeup\<close>, \<open>ShmNotifier\<close>, spurious failures
  of a weak compare-and-swap included), and its theorems hold in every reachable state of any number
  of threads. Code under a mutex is atomic, and its theorems quantify over sequences of operations
  (\<open>fw_run\<close>, \<open>rw_run\<close>, the runs of the managers, the map and the controller). Processes on one segment take turns by whole
  calls (\<open>shm_run\<close>), of which any system call may fail; their block lock is in \<open>RWLocks\<close> access by access.

  Loops that might not end are \<open>partial_function (option)\<close>, whose result \<open>None\<close> means that they never
  return: the name probe of \<open>GlobalData\<close>, the wait for a free node in \<open>BaseMap\<close>, the clearing of a cache in
  \<open>MapNodeCache\<close>, the search for a route and its reconstruction, the search for a block in \<open>ShmSegment\<close>, reading sections and windows of a record. Other loops recurse over their data or have a
  termination measure, as the search of \<open>DiscoveryGraph\<close> and the wait of \<open>Listen\<close>, which counts its timeout down; the
  thread of \<open>ShmDispatcher\<close> runs for a given list of rounds. No fuel is used, except that a client who iterates
  over messages takes at most \<open>n\<close> of them. The theorems state that the result is there, so what they claim
  includes termination.

  Inputs. Clocks, bus and device results, readings of the machine, hash values and the outcome of
  \<open>open\<close> are arguments. Rounding of doubles is the parameter \<open>rnd\<close>; where it
  matters that it rounds to the nearest double, its error bound is the hypothesis \<open>close_rounding\<close>. The protobuf library is the parameter \<open>codec\<close>, of which only the round trip of
  serialising is assumed (\<open>good_codec\<close>, which \<open>simple_codec\<close> satisfies).
\<close>

section \<open>What is proved\<close>

text \<open>
  Vehicle and supervision: which events change the driving mode, that command objects are idle unless
  driving is automatic, when the watchdog stops the vehicle and when that stop reaches the bus; when the
  guardian overrides a command and what its stop asks of the chassis; that the monitor's summary is the
  worst status, when it aborts, and when safety mode and emergency stop are on. Frames: the field
  accessors and command frames read back what was written, reports give the signals they
  carry, the sender keeps its periods, the manager's error counts are runs of late frames.

  Shared memory: after any calls and failures every process holds a well-formed segment with exact reference counts; a
  message that was transmitted reaches exactly the registered listeners, byte for byte, while fewer messages than blocks and
  fewer notifications than the ring follow; the search for a block ends when one is free; the listener of the ring
  hears every notification once and in order; and what happens to processes when a segment is outgrown.

  Middleware: mutual exclusion of the locks, first-in first-out delivery of the queue, no lost wake-up
  and delivery of every message, the scheduler's queues and choice, visitors that see messages in
  order and once, fusion, dispatch to the registered readers; timers that fire in exactly one round of
  the wheel; the hash map as a map; registered names with ids of their own; the managers' indices as the
  announced roles, the graph as reachability, departures that forget exactly the roles of a process.

  Records: the round trip of a file under any interleaving of the flush thread, the segments of a
  recording as a greedy cut of its messages, and the merged view of several recordings.
  Localization map: the LRU cache as a list in order of use, and tiles that stay apart. Routing: the nodes of a lane are its
  free stretches; the search ends, with a route whose nodes are linked, unless no steps forward lead to the destination.

  Where the code does not do what it is meant to, a theorem says what it does instead; the manifest
  lists these findings.
\<close>

section \<open>Not modelled\<close>

text \<open>
  Perception, prediction, planning, control and the geometry of maps and localization are numerical
  programs on matrices, images and solvers whose results depend on floating-point rounding and on
  libraries; nothing of them is modelled. Drivers, sockets, Fast RTPS, epoll and files other
  than records are I/O whose effects are inputs here. The other vehicles' frames are variants of the
  mk_mini ones generated from the same description. The web front end, tools, bindings, logging,
  configuration loading, the hybrid and intra-process transports, the XSI variant of the segment and the multicast variant of
  the notifier, plug-ins and the assembly of the context switch are left out. Within the modelled
  parts: thread placement and process groups of the schedulers, wait strategies of the queue, the
  concurrent retries inside the hash map's insertion, the monitor's periodic latency report, and headers
  and time stamps that no decision reads.
\<close>

end
